(* ===== verification/Rt_Prelude.thy ===== *)
theory Rt_Prelude
  imports Main "HOL-Library.Word" "HOL-Library.AList" "HOL-Library.Char_ord"
    "HOL-Library.List_Lexorder" "HOL-Library.Monad_Syntax"
begin

text \<open>
  Shared vocabulary of the development: machine integers, the concurrent hash map
  (\<open>DashMap\<close> / \<open>HashMap\<close>) as an association list with distinct keys, the compressed bitmap
  (\<open>RoaringBitmap\<close>) as a strictly ascending list of 32-bit values, the standard-library string
  operations the code uses, and decimal printing.  The two containers are given as interfaces
  (\<open>keyed_map\<close>, \<open>id_set\<close>) whose laws are proved for the concrete representation; component
  proofs use the laws, never the representation.
\<close>

named_theorems dm_laws \<open>what a lookup returns after an operation on a hash map\<close>
named_theorems bm_laws \<open>the members of a bitmap after an operation\<close>
named_theorems str_laws \<open>string operations\<close>

subsection \<open>Machine integers and bytes\<close>

type_synonym u16 = "16 word"
type_synonym u32 = "32 word"
type_synonym u64 = "64 word"
type_synonym usize = "64 word"
type_synonym i64 = "64 word"
type_synonym bytes = string

text \<open>A Rust \<open>Result\<close>: \<open>Inl\<close> carries the error.\<close>

type_synonym ('e, 'a) result = "'e + 'a"

definition saturating_sub :: "'a::len word \<Rightarrow> 'a word \<Rightarrow> 'a word" where
  "saturating_sub a b = (if b \<le> a then a - b else 0)"

definition saturating_add :: "'a::len word \<Rightarrow> 'a word \<Rightarrow> 'a word" where
  "saturating_add a b = (if a \<le> a + b then a + b else - 1)"

lemma unat_saturating_sub [simp]: "unat (saturating_sub a b) = unat a - unat b"
  by (auto simp: saturating_sub_def unat_sub word_le_nat_alt)

lemma saturating_add_ge: "a \<le> saturating_add a b"
  by (auto simp: saturating_add_def)

subsection \<open>Hash maps\<close>

text \<open>
  The interface the code relies on: a lookup after an insert or a remove, for maps that hold
  each key once.  Iteration order is not part of the contract.
\<close>

locale keyed_map =
  fixes get :: "'m \<Rightarrow> 'k \<Rightarrow> 'v option"
    and insert :: "'k \<Rightarrow> 'v \<Rightarrow> 'm \<Rightarrow> 'm"
    and remove :: "'k \<Rightarrow> 'm \<Rightarrow> 'm"
    and wf :: "'m \<Rightarrow> bool"
    and empty :: 'm
  assumes get_empty: "get empty k = None"
    and get_insert: "get (insert k v m) k' = (if k' = k then Some v else get m k')"
    and get_remove: "get (remove k m) k' = (if k' = k then None else get m k')"
    and wf_empty: "wf empty"
    and wf_insert: "wf m \<Longrightarrow> wf (insert k v m)"
    and wf_remove: "wf m \<Longrightarrow> wf (remove k m)"
begin

lemma get_insert_same: "get (insert k v m) k = Some v"
  by (simp add: get_insert)

lemma get_entry:
  "get (insert k (f (case get m k of None \<Rightarrow> d | Some v \<Rightarrow> v)) m) k' =
     (if k' = k then Some (f (case get m k of None \<Rightarrow> d | Some v \<Rightarrow> v)) else get m k')"
  by (simp add: get_insert)

lemma get_modify:
  "get (case get m k of None \<Rightarrow> m | Some v \<Rightarrow> insert k (f v) m) k' =
     (if k' = k then map_option f (get m k) else get m k')"
  by (auto simp: get_insert split: option.splits)

lemma get_or_insert:
  "get (case get m k of None \<Rightarrow> insert k v m | Some _ \<Rightarrow> m) k' =
     (if k' = k then Some (case get m k of None \<Rightarrow> v | Some w \<Rightarrow> w) else get m k')"
  by (auto simp: get_insert split: option.splits)

lemma wf_modify: "wf m \<Longrightarrow> wf (case get m k of None \<Rightarrow> m | Some v \<Rightarrow> insert k (f v) m)"
  by (auto simp: wf_insert split: option.splits)

lemma wf_or_insert: "wf m \<Longrightarrow> wf (case get m k of None \<Rightarrow> insert k v m | Some _ \<Rightarrow> m)"
  by (auto simp: wf_insert split: option.splits)

lemma remove_insert_get: "get (remove k (insert k v m)) = get (remove k m)"
  by (rule ext) (simp add: get_insert get_remove)

end

type_synonym ('k, 'v) dashmap = "('k \<times> 'v) list"

definition dm_get :: "('k, 'v) dashmap \<Rightarrow> 'k \<Rightarrow> 'v option" where
  "dm_get m k = map_of m k"

definition dm_insert :: "'k \<Rightarrow> 'v \<Rightarrow> ('k, 'v) dashmap \<Rightarrow> ('k, 'v) dashmap" where
  "dm_insert k v m = AList.update k v m"

definition dm_remove :: "'k \<Rightarrow> ('k, 'v) dashmap \<Rightarrow> ('k, 'v) dashmap" where
  "dm_remove k m = AList.delete k m"

definition dm_wf :: "('k, 'v) dashmap \<Rightarrow> bool" where
  "dm_wf m = distinct (map fst m)"

definition dm_keys :: "('k, 'v) dashmap \<Rightarrow> 'k list" where
  "dm_keys m = map fst m"

definition dm_len :: "('k, 'v) dashmap \<Rightarrow> nat" where
  "dm_len m = length m"

definition dm_contains :: "('k, 'v) dashmap \<Rightarrow> 'k \<Rightarrow> bool" where
  "dm_contains m k = (dm_get m k \<noteq> None)"

text \<open>\<open>entry(k).or_default()\<close> followed by a mutation; \<open>get_mut(k)\<close> followed by a mutation;
  \<open>entry(k).or_insert(v)\<close>.\<close>

definition dm_entry :: "'k \<Rightarrow> 'v \<Rightarrow> ('v \<Rightarrow> 'v) \<Rightarrow> ('k, 'v) dashmap \<Rightarrow> ('k, 'v) dashmap" where
  "dm_entry k d f m = dm_insert k (f (case dm_get m k of None \<Rightarrow> d | Some v \<Rightarrow> v)) m"

definition dm_modify :: "'k \<Rightarrow> ('v \<Rightarrow> 'v) \<Rightarrow> ('k, 'v) dashmap \<Rightarrow> ('k, 'v) dashmap" where
  "dm_modify k f m = (case dm_get m k of None \<Rightarrow> m | Some v \<Rightarrow> dm_insert k (f v) m)"

definition dm_or_insert :: "'k \<Rightarrow> 'v \<Rightarrow> ('k, 'v) dashmap \<Rightarrow> ('k, 'v) dashmap" where
  "dm_or_insert k v m = (case dm_get m k of None \<Rightarrow> dm_insert k v m | Some _ \<Rightarrow> m)"

interpretation dm: keyed_map dm_get dm_insert dm_remove dm_wf "[]"
proof unfold_locales
  fix k k' :: 'k and v :: 'v and m :: "('k, 'v) dashmap"
  show "dm_get ([] :: ('k, 'v) dashmap) k = None"
    by (simp add: dm_get_def)
  show "dm_get (dm_insert k v m) k' = (if k' = k then Some v else dm_get m k')"
    by (simp add: dm_get_def dm_insert_def update_conv')
  show "dm_get (dm_remove k m) k' = (if k' = k then None else dm_get m k')"
    by (simp add: dm_get_def dm_remove_def delete_conv')
  show "dm_wf ([] :: ('k, 'v) dashmap)"
    by (simp add: dm_wf_def)
  show "dm_wf m \<Longrightarrow> dm_wf (dm_insert k v m)"
    by (simp add: dm_wf_def dm_insert_def distinct_update)
  show "dm_wf m \<Longrightarrow> dm_wf (dm_remove k m)"
    by (simp add: dm_wf_def dm_remove_def distinct_delete)
qed

lemmas dm_get_insert [simp, dm_laws] = dm.get_insert
  and dm_get_remove [simp, dm_laws] = dm.get_remove
  and dm_get_empty [simp, dm_laws] = dm.get_empty
  and dm_wf_empty [simp, intro] = dm.wf_empty
  and dm_wf_insert [simp, intro] = dm.wf_insert
  and dm_wf_remove [simp, intro] = dm.wf_remove

lemma dm_get_entry [simp, dm_laws]:
  "dm_get (dm_entry k d f m) k' =
     (if k' = k then Some (f (case dm_get m k of None \<Rightarrow> d | Some v \<Rightarrow> v)) else dm_get m k')"
  unfolding dm_entry_def by (rule dm.get_entry)

lemma dm_get_modify [simp, dm_laws]:
  "dm_get (dm_modify k f m) k' = (if k' = k then map_option f (dm_get m k) else dm_get m k')"
  unfolding dm_modify_def by (rule dm.get_modify)

lemma dm_get_or_insert [simp, dm_laws]:
  "dm_get (dm_or_insert k v m) k' =
     (if k' = k then Some (case dm_get m k of None \<Rightarrow> v | Some w \<Rightarrow> w) else dm_get m k')"
  unfolding dm_or_insert_def by (rule dm.get_or_insert)

lemma dm_wf_entry [simp, intro]: "dm_wf m \<Longrightarrow> dm_wf (dm_entry k d f m)"
  by (simp add: dm_entry_def)

lemma dm_wf_modify [simp, intro]: "dm_wf m \<Longrightarrow> dm_wf (dm_modify k f m)"
  unfolding dm_modify_def by (rule dm.wf_modify)

lemma dm_wf_or_insert [simp, intro]: "dm_wf m \<Longrightarrow> dm_wf (dm_or_insert k v m)"
  unfolding dm_or_insert_def by (rule dm.wf_or_insert)

lemma dm_get_Some_in: "dm_get m k = Some v \<Longrightarrow> (k, v) \<in> set m"
  by (auto simp: dm_get_def dest: map_of_SomeD)

lemma dm_get_iff_in: "dm_wf m \<Longrightarrow> dm_get m k = Some v \<longleftrightarrow> (k, v) \<in> set m"
  by (auto simp: dm_get_def dm_wf_def)

lemma dm_get_None_iff: "dm_get m k = None \<longleftrightarrow> k \<notin> set (dm_keys m)"
  by (auto simp: dm_get_def dm_keys_def map_of_eq_None_iff)

lemma dm_len_insert:
  "dm_len (dm_insert k v m) = (if dm_get m k = None then Suc (dm_len m) else dm_len m)"
  unfolding dm_len_def dm_insert_def dm_get_def
  by (induction m) (auto split: if_splits)

lemma dm_len_remove:
  assumes "dm_wf m"
  shows "dm_len (dm_remove k m) = (if dm_get m k = None then dm_len m else dm_len m - 1)"
  using assms
proof (induction m)
  case Nil
  then show ?case by (simp add: dm_len_def dm_remove_def dm_get_def)
next
  case (Cons x m)
  then have wf: "dm_wf m" and fresh: "fst x \<notin> fst ` set m"
    by (auto simp: dm_wf_def)
  have del: "AList.delete (fst x) m = m"
    using fresh by (simp add: delete_id)
  have pos: "dm_get m k \<noteq> None \<Longrightarrow> 0 < length m"
    by (auto simp: dm_get_def)
  from Cons.IH [OF wf] pos del show ?case
    by (cases x) (auto simp: dm_len_def dm_remove_def dm_get_def split: if_splits)
qed

lemma dm_keys_or_insert:
  "set (dm_keys (dm_or_insert k v m)) = Set.insert k (set (dm_keys m))"
proof -
  have "k' \<in> set (dm_keys (dm_or_insert k v m)) \<longleftrightarrow> k' = k \<or> k' \<in> set (dm_keys m)" for k'
    using dm_get_None_iff [of "dm_or_insert k v m" k'] dm_get_None_iff [of m k']
    by (auto simp del: not_None_eq split: if_splits option.splits)
  then show ?thesis by blast
qed

subsection \<open>Bitmaps\<close>

text \<open>
  \<open>RoaringBitmap\<close>: a set of \<open>u32\<close> iterated in ascending order.
\<close>

locale id_set =
  fixes insert :: "'i \<Rightarrow> 's \<Rightarrow> 's"
    and remove :: "'i \<Rightarrow> 's \<Rightarrow> 's"
    and union :: "'s \<Rightarrow> 's \<Rightarrow> 's"
    and elems :: "'s \<Rightarrow> 'i list"
    and empty :: 's
    and wf :: "'s \<Rightarrow> bool"
  assumes elems_empty: "elems empty = []"
    and elems_insert: "set (elems (insert i s)) = Set.insert i (set (elems s))"
    and elems_remove: "set (elems (remove i s)) = set (elems s) - {i}"
    and elems_union: "set (elems (union s t)) = set (elems s) \<union> set (elems t)"
    and wf_empty: "wf empty"
    and wf_insert: "wf s \<Longrightarrow> wf (insert i s)"
    and wf_remove: "wf s \<Longrightarrow> wf (remove i s)"
    and wf_union: "wf s \<Longrightarrow> wf t \<Longrightarrow> wf (union s t)"
    and wf_distinct: "wf s \<Longrightarrow> distinct (elems s)"
begin

lemma len_card: "wf s \<Longrightarrow> length (elems s) = card (set (elems s))"
  by (simp add: distinct_card wf_distinct)

lemma fold_union:
  "set (elems (fold union ss s)) = set (elems s) \<union> (\<Union>t\<in>set ss. set (elems t))"
  by (induction ss arbitrary: s) (auto simp: elems_union)

lemma remove_insert_fresh:
  "i \<notin> set (elems s) \<Longrightarrow> set (elems (remove i (insert i s))) = set (elems s)"
  by (auto simp: elems_insert elems_remove)

end

type_synonym bitmap = "u32 list"

definition bm_insert :: "u32 \<Rightarrow> bitmap \<Rightarrow> bitmap" where
  "bm_insert i b = List.insort_insert i b"

definition bm_remove :: "u32 \<Rightarrow> bitmap \<Rightarrow> bitmap" where
  "bm_remove i b = filter (\<lambda>j. j \<noteq> i) b"

definition bm_union :: "bitmap \<Rightarrow> bitmap \<Rightarrow> bitmap" where
  "bm_union a b = fold bm_insert b a"

definition bm_wf :: "bitmap \<Rightarrow> bool" where
  "bm_wf b = (sorted b \<and> distinct b)"

definition bm_len :: "bitmap \<Rightarrow> nat" where
  "bm_len b = length b"

lemma bm_wf_insert_raw: "bm_wf b \<Longrightarrow> bm_wf (bm_insert i b)"
  by (simp add: bm_wf_def bm_insert_def sorted_insort_insert distinct_insort_insert)

lemma bm_wf_union_raw: "bm_wf a \<Longrightarrow> bm_wf (bm_union a b)"
  unfolding bm_union_def
  by (induction b arbitrary: a) (auto simp: bm_wf_insert_raw)

lemma set_bm_union_raw: "set (bm_union a b) = set a \<union> set b"
  unfolding bm_union_def
  by (induction b arbitrary: a) (auto simp: bm_insert_def set_insort_insert)

interpretation bm: id_set bm_insert bm_remove bm_union "\<lambda>b. b" "[]" bm_wf
proof unfold_locales
  fix i :: u32 and s t :: bitmap
  show "set (bm_insert i s) = Set.insert i (set s)"
    by (simp add: bm_insert_def set_insort_insert)
  show "set (bm_remove i s) = set s - {i}"
    by (auto simp: bm_remove_def)
  show "set (bm_union s t) = set s \<union> set t"
    by (rule set_bm_union_raw)
  show "bm_wf s \<Longrightarrow> bm_wf (bm_insert i s)" and "bm_wf s \<Longrightarrow> bm_wf (bm_union s t)"
    by (simp_all add: bm_wf_insert_raw bm_wf_union_raw)
  show "bm_wf s \<Longrightarrow> bm_wf (bm_remove i s)"
    by (simp add: bm_wf_def bm_remove_def sorted_filter [of "\<lambda>x. x", simplified])
qed (simp_all add: bm_wf_def)

lemmas set_bm_insert [simp, bm_laws] = bm.elems_insert
  and set_bm_remove [simp, bm_laws] = bm.elems_remove
  and set_bm_union [simp, bm_laws] = bm.elems_union
  and bm_wf_empty [simp, intro] = bm.wf_empty
  and bm_wf_insert [simp, intro] = bm.wf_insert
  and bm_wf_remove [simp, intro] = bm.wf_remove
  and bm_wf_union [simp, intro] = bm.wf_union

text \<open>A map from keys to bitmaps, read as a set of identifiers per key.\<close>

definition bm_at :: "('k, bitmap) dashmap \<Rightarrow> 'k \<Rightarrow> u32 set" where
  "bm_at m k = (case dm_get m k of None \<Rightarrow> {} | Some b \<Rightarrow> set b)"

lemma bm_at_entry_insert [simp, bm_laws]:
  "bm_at (dm_entry k [] (bm_insert i) m) k' =
     (if k' = k then Set.insert i (bm_at m k) else bm_at m k')"
  by (auto simp: bm_at_def split: option.splits)

lemma bm_at_modify_remove [simp, bm_laws]:
  "bm_at (dm_modify k (bm_remove i) m) k' = (if k' = k then bm_at m k - {i} else bm_at m k')"
  by (auto simp: bm_at_def split: option.splits)

lemma bm_at_empty [simp, bm_laws]: "bm_at [] k = {}"
  by (simp add: bm_at_def)

end
