(* ===== verification/Rt_Strings.thy ===== *)
theory Rt_Strings
  imports Rt_Prelude
begin

text \<open>
  The standard-library string operations the code uses, on byte strings (\<open>char list\<close>, one
  \<open>char\<close> per UTF-8 byte): splitting at a separator, prefixes and suffixes, trimming and splitting at
  Unicode white space, ASCII lower-casing, and decimal printing with its inverse.
\<close>

subsection \<open>Splitting and joining\<close>

text \<open>\<open>str::split(c)\<close>: never empty, keeps empty segments.\<close>

fun split_on :: "char \<Rightarrow> string \<Rightarrow> string list" where
  "split_on c [] = [[]]"
| "split_on c (x # xs) =
     (if x = c then [] # split_on c xs
      else (case split_on c xs of [] \<Rightarrow> [[x]] | y # ys \<Rightarrow> (x # y) # ys))"

fun join_with :: "char \<Rightarrow> string list \<Rightarrow> string" where
  "join_with c [] = []"
| "join_with c [x] = x"
| "join_with c (x # y # ys) = x @ c # join_with c (y # ys)"

text \<open>\<open>s.split(c).next().unwrap_or("")\<close> and \<open>s.split(c).nth(n).unwrap_or("")\<close>.\<close>

definition split_nth :: "nat \<Rightarrow> string list \<Rightarrow> string" where
  "split_nth n xs = (if n < length xs then xs ! n else [])"

lemma split_on_nonempty [simp]: "split_on c s \<noteq> []"
  by (induction s) (auto split: list.splits)

lemma split_on_hd: "hd (split_on c s) = takeWhile (\<lambda>x. x \<noteq> c) s"
proof (induction s)
  case (Cons x s)
  then show ?case by (cases "split_on c s") auto
qed simp

lemma split_nth_0 [str_laws]: "split_nth 0 (split_on c s) = takeWhile (\<lambda>x. x \<noteq> c) s"
  by (simp add: split_nth_def split_on_hd [symmetric] hd_conv_nth)

lemma split_on_sep_free: "x \<in> set (split_on c s) \<Longrightarrow> c \<notin> set x"
  by (induction s arbitrary: x) (auto split: list.splits if_splits)

lemma join_split [str_laws]: "join_with c (split_on c s) = s"
proof (induction s)
  case Nil
  then show ?case by simp
next
  case (Cons x s)
  show ?case
    using Cons.IH by (cases "split_on c s"; cases "tl (split_on c s)") (auto split: list.splits)
qed

lemma split_on_append_sep: "c \<notin> set x \<Longrightarrow> split_on c (x @ c # s) = x # split_on c s"
  by (induction x) auto

lemma split_on_no_sep: "c \<notin> set x \<Longrightarrow> split_on c x = [x]"
  by (induction x) auto

lemma split_join [str_laws]:
  "xs \<noteq> [] \<Longrightarrow> (\<And>x. x \<in> set xs \<Longrightarrow> c \<notin> set x) \<Longrightarrow> split_on c (join_with c xs) = xs"
  by (induction c xs rule: join_with.induct) (auto simp: split_on_append_sep split_on_no_sep)

subsection \<open>Prefixes, suffixes, trimming\<close>

definition starts_with :: "string \<Rightarrow> string \<Rightarrow> bool" where
  "starts_with s p = (take (length p) s = p)"

definition ends_with_char :: "string \<Rightarrow> char \<Rightarrow> bool" where
  "ends_with_char s c = (s \<noteq> [] \<and> last s = c)"

definition strip_prefix :: "string \<Rightarrow> string \<Rightarrow> string option" where
  "strip_prefix s p = (if starts_with s p then Some (drop (length p) s) else None)"

text \<open>White space: the number of bytes of the \<open>White_Space\<close> character a string starts with, or (on the
  reversed string) ends with, 0 if there is none.  The UTF-8 codes are 09 to 0D, 20, C2 85, C2 A0,
  E1 9A 80, E2 80 80 to E2 80 8A, E2 80 A8, E2 80 A9, E2 80 AF, E2 81 9F and E3 80 80.\<close>

definition byte_at :: "nat \<Rightarrow> string \<Rightarrow> nat" where
  "byte_at i s = (if i < length s then of_char (s ! i) else 0)"

definition white_bytes :: "nat \<Rightarrow> nat \<Rightarrow> nat \<Rightarrow> bool" where
  "white_bytes a b c =
     ((a = 225 \<and> b = 154 \<and> c = 128) \<or> (a = 226 \<and> b = 128 \<and> (128 \<le> c \<and> c \<le> 138 \<or> c = 168 \<or> c = 169 \<or> c = 175)) \<or>
      (a = 226 \<and> b = 129 \<and> c = 159) \<or> (a = 227 \<and> b = 128 \<and> c = 128))"

definition is_white :: "char \<Rightarrow> bool" where
  "is_white c = (let n = of_char c :: nat in n = 32 \<or> (9 \<le> n \<and> n \<le> 13))"

definition white_len :: "string \<Rightarrow> nat" where
  "white_len s =
     (if s \<noteq> [] \<and> is_white (hd s) then 1
      else if byte_at 0 s = 194 \<and> (byte_at 1 s = 133 \<or> byte_at 1 s = 160) then 2
      else if white_bytes (byte_at 0 s) (byte_at 1 s) (byte_at 2 s) then 3 else 0)"

definition white_len_rev :: "string \<Rightarrow> nat" where
  "white_len_rev s =
     (if s \<noteq> [] \<and> is_white (hd s) then 1
      else if byte_at 1 s = 194 \<and> (byte_at 0 s = 133 \<or> byte_at 0 s = 160) then 2
      else if white_bytes (byte_at 2 s) (byte_at 1 s) (byte_at 0 s) then 3 else 0)"

lemma white_len_pos: "0 < white_len s \<Longrightarrow> s \<noteq> []"
  by (auto simp: white_len_def byte_at_def white_bytes_def)

lemma white_len_rev_pos: "0 < white_len_rev s \<Longrightarrow> s \<noteq> []"
  by (auto simp: white_len_rev_def byte_at_def white_bytes_def)

function drop_white :: "(string \<Rightarrow> nat) \<Rightarrow> string \<Rightarrow> string" where
  "drop_white len s = (if len s = 0 \<or> s = [] then s else drop_white len (drop (len s) s))"
  by auto
termination by (relation "measure (length \<circ> snd)") auto

declare drop_white.simps [simp del]

definition trim_start :: "string \<Rightarrow> string" where
  "trim_start s = drop_white white_len s"

definition trim_end :: "string \<Rightarrow> string" where
  "trim_end s = rev (drop_white white_len_rev (rev s))"

definition trim :: "string \<Rightarrow> string" where
  "trim s = trim_end (trim_start s)"

lemma trim_start_id: "white_len s = 0 \<Longrightarrow> trim_start s = s"
  by (simp add: trim_start_def drop_white.simps)

text \<open>\<open>str::split_whitespace\<close>: the words between runs of white space.\<close>

function split_words :: "string \<Rightarrow> string \<Rightarrow> string list" where
  "split_words w [] = (if w = [] then [] else [w])"
| "split_words w (c # s) =
     (if white_len (c # s) = 0 then split_words (w @ [c]) s
      else (if w = [] then [] else [w]) @ split_words [] (drop (white_len (c # s)) (c # s)))"
  by pat_completeness auto
termination by (relation "measure (length \<circ> snd)") auto

definition split_whitespace :: "string \<Rightarrow> string list" where
  "split_whitespace s = split_words [] s"

text \<open>\<open>str::find\<close> of a string, \<open>str::chars\<close> (each with its bytes), and \<open>chars().take(n)\<close>.\<close>

fun find_str :: "string \<Rightarrow> string \<Rightarrow> nat option" where
  "find_str p [] = (if p = [] then Some 0 else None)"
| "find_str p (c # s) = (if take (length p) (c # s) = p then Some 0 else map_option Suc (find_str p s))"

fun utf8_chars :: "string \<Rightarrow> string list" where
  "utf8_chars [] = []"
| "utf8_chars (c # s) =
     (case utf8_chars s of
        [] \<Rightarrow> [[c]]
      | ch # rest \<Rightarrow>
          (if 128 \<le> byte_at 0 ch \<and> byte_at 0 ch < 192 then (c # ch) # rest else [c] # ch # rest))"

definition take_chars :: "nat \<Rightarrow> string \<Rightarrow> string" where
  "take_chars n s = concat (take n (utf8_chars s))"

definition trim_end_char :: "char \<Rightarrow> string \<Rightarrow> string" where
  "trim_end_char c s = rev (dropWhile (\<lambda>x. x = c) (rev s))"

definition trim_start_char :: "char \<Rightarrow> string \<Rightarrow> string" where
  "trim_start_char c s = dropWhile (\<lambda>x. x = c) s"

definition ascii_lower_char :: "char \<Rightarrow> char" where
  "ascii_lower_char c =
     (let n = of_char c :: nat in if 65 \<le> n \<and> n \<le> 90 then char_of (n + 32) else c)"

definition ascii_lower :: "string \<Rightarrow> string" where
  "ascii_lower s = map ascii_lower_char s"

lemma starts_with_iff [str_laws]: "starts_with s p \<longleftrightarrow> (\<exists>r. s = p @ r)"
  by (auto simp: starts_with_def) (metis append_take_drop_id)

lemma strip_prefix_Some_iff [str_laws]: "strip_prefix s p = Some r \<longleftrightarrow> s = p @ r"
  by (auto simp: strip_prefix_def starts_with_def) (metis append_take_drop_id)

lemma ascii_lower_char_idem [simp]: "ascii_lower_char (ascii_lower_char c) = ascii_lower_char c"
  by (auto simp: ascii_lower_char_def Let_def)

lemma ascii_lower_idem [simp]: "ascii_lower (ascii_lower s) = ascii_lower s"
  by (simp add: ascii_lower_def)

subsection \<open>Decimal printing\<close>

definition digit_char :: "nat \<Rightarrow> char" where
  "digit_char d = char_of (48 + d)"

definition digit_val :: "char \<Rightarrow> nat" where
  "digit_val c = of_char c - 48"

fun show_nat :: "nat \<Rightarrow> string" where
  "show_nat n = (if n < 10 then [digit_char n] else show_nat (n div 10) @ [digit_char (n mod 10)])"

declare show_nat.simps [simp del]

definition show_word :: "'a::len word \<Rightarrow> string" where
  "show_word w = show_nat (unat w)"

text \<open>\<open>i64::to_string\<close>.\<close>

definition show_i64 :: "i64 \<Rightarrow> string" where
  "show_i64 i = (if sint i < 0 then CHR ''-'' # show_nat (nat (- sint i)) else show_nat (nat (sint i)))"

definition show_bool :: "bool \<Rightarrow> string" where
  "show_bool b = (if b then ''true'' else ''false'')"

definition read_nat :: "string \<Rightarrow> nat" where
  "read_nat s = foldl (\<lambda>a c. 10 * a + digit_val c) 0 s"

lemma digit_val_char [simp]: "d < 10 \<Longrightarrow> digit_val (digit_char d) = d"
  by (simp add: digit_val_def digit_char_def)

lemma read_show_nat [simp]: "read_nat (show_nat n) = n"
proof (induction n rule: show_nat.induct)
  case (1 n)
  show ?case
  proof (cases "n < 10")
    case True
    then show ?thesis by (subst show_nat.simps) (simp add: read_nat_def)
  next
    case False
    with 1 have "read_nat (show_nat (n div 10)) = n div 10" by simp
    with False show ?thesis by (subst show_nat.simps) (simp add: read_nat_def)
  qed
qed

lemma show_nat_inj: "show_nat m = show_nat n \<longleftrightarrow> m = n"
  by (metis read_show_nat)

definition is_digit :: "char \<Rightarrow> bool" where
  "is_digit c = (48 \<le> (of_char c :: nat) \<and> (of_char c :: nat) \<le> 57)"

lemma is_digit_char: "d < 10 \<Longrightarrow> is_digit (digit_char d)"
  by (simp add: is_digit_def digit_char_def)

lemma show_nat_digits: "c \<in> set (show_nat n) \<Longrightarrow> is_digit c"
proof (induction n rule: show_nat.induct)
  case (1 n)
  show ?case
    using "1.IH" "1.prems" by (cases "n < 10") (auto simp: show_nat.simps [of n] is_digit_char)
qed

lemma show_nat_nonempty [simp]: "show_nat n \<noteq> []"
  by (subst show_nat.simps) simp

lemma show_nat_hd: "is_digit (hd (show_nat n))"
  by (rule show_nat_digits [of _ n]) simp

lemma minus_not_in_show_nat: "CHR ''-'' \<notin> set (show_nat n)"
  using show_nat_digits [of "CHR ''-''" n] by (auto simp: is_digit_def)

lemma show_word_inj: "show_word (a :: 'a::len word) = show_word b \<longleftrightarrow> a = b"
  by (simp add: show_word_def show_nat_inj word_unat_eq_iff)

lemma show_i64_inj: "show_i64 a = show_i64 b \<longleftrightarrow> a = b"
proof
  assume eq: "show_i64 a = show_i64 b"
  have no_minus: "CHR ''-'' # s \<noteq> show_nat n" for s n
    by (metis list.set_intros(1) minus_not_in_show_nat)
  have "sint a = sint b"
    using eq by (auto simp: show_i64_def show_nat_inj no_minus no_minus [symmetric] split: if_splits)
  then show "a = b" by (simp add: signed_word_eqI)
qed simp

end
