(* ===== verification/Rt_Types.thy ===== *)
theory Rt_Types
  imports Rt_Strings
begin

text \<open>
  The core data types of \<open>crates/realtime-core/src/types\<close> and \<open>error.rs\<close>: identifiers, topic
  paths, topic patterns with their glob matcher, event envelopes and the error enum.  Lemmas: the
  glob matcher equals a structural reference matcher, parsing and printing of patterns, and every
  topic string matches the pattern parsed from it.
\<close>

subsection \<open>Identifiers (identifiers.rs, event_id.rs)\<close>

datatype ConnectionId = ConnectionId (conn_raw: u64)
datatype SubscriptionId = SubscriptionId (sub_raw: string)
datatype TraceId = TraceId string
datatype NodeId = NodeId u64

text \<open>\<open>EventId\<close> wraps a UUID, 128 bits drawn by \<open>Uuid::now_v7()\<close>, an input of the model.\<close>

datatype EventId = EventId "128 word"

definition show_conn_id :: "ConnectionId \<Rightarrow> string" where
  "show_conn_id c = ''conn-'' @ show_word (conn_raw c)"

definition show_node_id :: "NodeId \<Rightarrow> string" where
  "show_node_id n = (case n of NodeId w \<Rightarrow> ''node-'' @ show_word w)"

lemma show_conn_id_inj: "show_conn_id a = show_conn_id b \<longleftrightarrow> a = b"
  by (cases a; cases b) (simp add: show_conn_id_def show_word_inj)

subsection \<open>Topic paths (topic_path.rs)\<close>

datatype TopicPath = TopicPath (topic_str: string)

definition topic_new :: "string \<Rightarrow> TopicPath" where
  "topic_new s = TopicPath s"

definition topic_namespace :: "TopicPath \<Rightarrow> string" where
  "topic_namespace t = split_nth 0 (split_on CHR ''/'' (topic_str t))"

definition event_type_part :: "TopicPath \<Rightarrow> string" where
  "event_type_part t = split_nth 1 (split_on CHR ''/'' (topic_str t))"

subsection \<open>Topic patterns (topic_pattern.rs)\<close>

datatype TopicPattern = Exact TopicPath | Prefix string | Glob string

text \<open>The loop of \<open>glob_match\<close>: \<open>None\<close> when it runs to its end, \<open>Some b\<close> for an early return.\<close>

fun glob_scan :: "string list \<Rightarrow> string list \<Rightarrow> nat \<Rightarrow> bool option" where
  "glob_scan [] parts i = None"
| "glob_scan (p # ps) parts i =
     (if p = ''**'' then Some True
      else if length parts \<le> i then Some False
      else if p \<noteq> ''*'' \<and> p \<noteq> parts ! i then Some False
      else glob_scan ps parts (Suc i))"

definition glob_match :: "string \<Rightarrow> string \<Rightarrow> bool" where
  "glob_match pattern topic =
     (let pat = split_on CHR ''/'' pattern; parts = split_on CHR ''/'' topic
      in case glob_scan pat parts 0 of Some b \<Rightarrow> b | None \<Rightarrow> length pat = length parts)"

fun pattern_matches :: "TopicPattern \<Rightarrow> TopicPath \<Rightarrow> bool" where
  "pattern_matches (Exact path) topic = (path = topic)"
| "pattern_matches (Prefix prefix) topic = starts_with (topic_str topic) prefix"
| "pattern_matches (Glob pattern) topic = glob_match pattern (topic_str topic)"

definition pattern_parse :: "string \<Rightarrow> TopicPattern" where
  "pattern_parse s =
     (if CHR ''*'' \<in> set s then Glob s
      else if ends_with_char s CHR ''/'' then Prefix s
      else Exact (topic_new s))"

fun pattern_str :: "TopicPattern \<Rightarrow> string" where
  "pattern_str (Exact path) = topic_str path"
| "pattern_str (Prefix s) = s"
| "pattern_str (Glob s) = s"

lemma pattern_str_parse [simp]: "pattern_str (pattern_parse s) = s"
  by (simp add: pattern_parse_def topic_new_def)

text \<open>Patterns built by the gateway: those \<open>parse\<close> returns.\<close>

definition parsed_pattern :: "TopicPattern \<Rightarrow> bool" where
  "parsed_pattern p = (pattern_parse (pattern_str p) = p)"

lemma parsed_pattern_parse [simp]: "parsed_pattern (pattern_parse s)"
  by (simp add: parsed_pattern_def)

lemma parsed_pattern_eqI:
  "parsed_pattern p \<Longrightarrow> parsed_pattern q \<Longrightarrow> pattern_str p = pattern_str q \<Longrightarrow> p = q"
  by (metis parsed_pattern_def)

text \<open>The reference matcher: structural recursion over the two segment lists.\<close>

fun glob_spec :: "string list \<Rightarrow> string list \<Rightarrow> bool" where
  "glob_spec [] ts = (ts = [])"
| "glob_spec (p # ps) ts =
     (p = ''**'' \<or> (case ts of [] \<Rightarrow> False | t # ts' \<Rightarrow> (p = ''*'' \<or> p = t) \<and> glob_spec ps ts'))"

lemma glob_scan_spec:
  "i \<le> length parts \<Longrightarrow>
   (case glob_scan ps parts i of Some b \<Rightarrow> b | None \<Rightarrow> i + length ps = length parts)
     = glob_spec ps (drop i parts)"
proof (induction ps arbitrary: i)
  case Nil
  then show ?case by auto
next
  case (Cons p ps)
  show ?case
  proof (cases "i < length parts")
    case True
    then have "drop i parts = parts ! i # drop (Suc i) parts"
      by (rule Cons_nth_drop_Suc [symmetric])
    with True Cons.IH [of "Suc i"] show ?thesis by (auto split: option.splits)
  next
    case False
    then show ?thesis by simp
  qed
qed

lemma glob_match_spec:
  "glob_match pattern topic = glob_spec (split_on CHR ''/'' pattern) (split_on CHR ''/'' topic)"
  using glob_scan_spec [of 0 "split_on CHR ''/'' topic" "split_on CHR ''/'' pattern"]
  by (simp add: glob_match_def Let_def split: option.splits)

lemma glob_spec_refl: "glob_spec ps ps"
  by (induction ps) auto

lemma pattern_parse_matches_self: "pattern_matches (pattern_parse s) (TopicPath s)"
  by (simp add: pattern_parse_def topic_new_def glob_match_spec glob_spec_refl starts_with_def)

lemma glob_spec_literal:
  "\<forall>p\<in>set ps. CHR ''*'' \<notin> set p \<Longrightarrow> glob_spec ps ts \<longleftrightarrow> ps = ts"
  by (induction ps arbitrary: ts) (auto split: list.splits)

lemma glob_spec_length:
  "''**'' \<notin> set ps \<Longrightarrow> glob_spec ps ts \<Longrightarrow> length ps = length ts"
  by (induction ps arbitrary: ts) (auto split: list.splits)

lemma glob_spec_hd:
  "ps \<noteq> [] \<Longrightarrow> hd ps \<noteq> ''*'' \<Longrightarrow> hd ps \<noteq> ''**'' \<Longrightarrow> glob_spec ps ts \<Longrightarrow> ts \<noteq> [] \<and> hd ts = hd ps"
  by (cases ps) (auto split: list.splits)

subsection \<open>Payloads and sources (payload.rs)\<close>

datatype PayloadEncoding = EncJson | EncMsgPack | EncBinary

datatype SourceKind = SrcApi | SrcDatabase | SrcScheduler | SrcWebhook | SrcCustom string

record EventSource =
  src_kind :: SourceKind
  src_id :: string
  src_metadata :: "(string, string) dashmap"

subsection \<open>Event envelopes (envelope.rs)\<close>

text \<open>\<open>timestamp\<close>: nanoseconds since the epoch; \<open>ev_rendered\<close>: the write-once cache cell.\<close>

type_synonym timestamp = int

record EventEnvelope =
  ev_id :: EventId
  ev_topic :: TopicPath
  ev_timestamp :: timestamp
  ev_sequence :: u64
  ev_type :: string
  ev_payload :: bytes
  ev_encoding :: PayloadEncoding
  ev_source :: "EventSource option"
  ev_trace :: "TraceId option"
  ev_ttl_ms :: "u32 option"
  ev_rendered :: "string option"

definition envelope_new ::
    "EventId \<Rightarrow> timestamp \<Rightarrow> TopicPath \<Rightarrow> string \<Rightarrow> bytes \<Rightarrow> EventEnvelope" where
  "envelope_new uuid now topic event_type payload =
     \<lparr>ev_id = uuid, ev_topic = topic, ev_timestamp = now, ev_sequence = 0, ev_type = event_type,
      ev_payload = payload, ev_encoding = EncJson, ev_source = None, ev_trace = None,
      ev_ttl_ms = None, ev_rendered = None\<rparr>"

definition payload_size :: "EventEnvelope \<Rightarrow> nat" where
  "payload_size e = length (ev_payload e)"

definition is_payload_too_large :: "EventEnvelope \<Rightarrow> bool" where
  "is_payload_too_large e = (65536 < length (ev_payload e))"

lemma envelope_new_sel [simp]:
  "ev_id (envelope_new u n t ty p) = u" "ev_topic (envelope_new u n t ty p) = t"
  "ev_timestamp (envelope_new u n t ty p) = n" "ev_sequence (envelope_new u n t ty p) = 0"
  "ev_type (envelope_new u n t ty p) = ty" "ev_payload (envelope_new u n t ty p) = p"
  "ev_source (envelope_new u n t ty p) = None" "ev_rendered (envelope_new u n t ty p) = None"
  by (simp_all add: envelope_new_def)

subsection \<open>Errors (error.rs)\<close>

datatype RealtimeError =
    AuthFailed string
  | AuthorizationDenied string
  | SubscriptionError string
  | PublishError string
  | ConnectionError string
  | TransportError string
  | EventBusError string
  | FilterParseError string
  | PayloadTooLarge usize usize
  | InvalidTopic string
  | RateLimited u64
  | CapacityExceeded string
  | ServiceUnavailable string
  | InternalError string
  | ConfigError string
  | OtherError string

fun status_code :: "RealtimeError \<Rightarrow> u16" where
  "status_code (AuthFailed _) = 401"
| "status_code (AuthorizationDenied _) = 403"
| "status_code (PayloadTooLarge _ _) = 413"
| "status_code (RateLimited _) = 429"
| "status_code (CapacityExceeded _) = 429"
| "status_code (ServiceUnavailable _) = 503"
| "status_code (InvalidTopic _) = 400"
| "status_code (FilterParseError _) = 400"
| "status_code (SubscriptionError _) = 400"
| "status_code _ = 500"

text \<open>The \<open>Display\<close> messages of the error enum.\<close>

fun show_error :: "RealtimeError \<Rightarrow> string" where
  "show_error (AuthFailed s) = ''Authentication failed: '' @ s"
| "show_error (AuthorizationDenied s) = ''Authorization denied: '' @ s"
| "show_error (SubscriptionError s) = ''Subscription error: '' @ s"
| "show_error (PublishError s) = ''Publish error: '' @ s"
| "show_error (ConnectionError s) = ''Connection error: '' @ s"
| "show_error (TransportError s) = ''Transport error: '' @ s"
| "show_error (EventBusError s) = ''Event bus error: '' @ s"
| "show_error (FilterParseError s) = ''Filter parse error: '' @ s"
| "show_error (PayloadTooLarge n m) =
     ''Payload too large: '' @ show_word n @ '' bytes (max: '' @ show_word m @ '' bytes)''"
| "show_error (InvalidTopic s) = ''Topic invalid: '' @ s"
| "show_error (RateLimited ms) = ''Rate limited: retry after '' @ show_word ms @ ''ms''"
| "show_error (CapacityExceeded s) = ''Capacity exceeded: '' @ s"
| "show_error (ServiceUnavailable s) = ''Service unavailable: '' @ s"
| "show_error (InternalError s) = ''Internal error: '' @ s"
| "show_error (ConfigError s) = ''Configuration error: '' @ s"
| "show_error (OtherError s) = s"

end
