(* ===== verification/Rt_Json.thy ===== *)
theory Rt_Json
  imports Rt_Types
begin

text \<open>
  JSON values as \<open>serde_json::Value\<close> presents them to the code, binary64 numbers by their bit
  pattern, and the record of external functions (the JSON reader and writer, float printing, the
  string \<open>Debug\<close> escaper) the definitions take as an argument.
\<close>

subsection \<open>Binary64\<close>

text \<open>A float is its 64 bits; \<open>==\<close> is the IEEE comparison: NaN differs from everything and the
  two zeros are equal.\<close>

type_synonym f64 = "64 word"

unbundle bit_operations_syntax

definition f64_is_nan :: "f64 \<Rightarrow> bool" where
  "f64_is_nan b =
     (b AND 0x7FF0000000000000 = 0x7FF0000000000000 \<and> b AND 0x000FFFFFFFFFFFFF \<noteq> 0)"

definition f64_is_zero :: "f64 \<Rightarrow> bool" where
  "f64_is_zero b = (b AND 0x7FFFFFFFFFFFFFFF = 0)"

definition f64_eq :: "f64 \<Rightarrow> f64 \<Rightarrow> bool" where
  "f64_eq a b =
     (\<not> f64_is_nan a \<and> \<not> f64_is_nan b \<and> (a = b \<or> (f64_is_zero a \<and> f64_is_zero b)))"

lemma f64_eq_sym: "f64_eq a b \<longleftrightarrow> f64_eq b a"
  by (auto simp: f64_eq_def)

lemma f64_eq_nonzero: "f64_eq a b \<Longrightarrow> \<not> f64_is_zero a \<Longrightarrow> a = b"
  by (auto simp: f64_eq_def)

subsection \<open>Values\<close>

text \<open>Numbers: integers that fit \<open>i64\<close>, larger unsigned integers, and floats.  The entries of an
  object are listed in the map's iteration order.\<close>

datatype json_number = NumI64 i64 | NumU64 u64 | NumF64 f64

datatype json =
    JNull
  | JBool bool
  | JNumber json_number
  | JString string
  | JArray "json list"
  | JObject "(string \<times> json) list"

record Externals =
  x_from_slice :: "bytes \<Rightarrow> json option"
  x_to_vec :: "json \<Rightarrow> bytes option"
  x_f64_display :: "f64 \<Rightarrow> string"
  x_int_as_f64 :: "int \<Rightarrow> f64"
  x_debug_str :: "string \<Rightarrow> string"

fun num_as_i64 :: "json_number \<Rightarrow> i64 option" where
  "num_as_i64 (NumI64 i) = Some i"
| "num_as_i64 (NumU64 u) = (if unat u < 2 ^ 63 then Some u else None)"
| "num_as_i64 (NumF64 f) = None"

fun num_as_f64 :: "Externals \<Rightarrow> json_number \<Rightarrow> f64 option" where
  "num_as_f64 x (NumI64 i) = Some (x_int_as_f64 x (sint i))"
| "num_as_f64 x (NumU64 u) = Some (x_int_as_f64 x (uint u))"
| "num_as_f64 x (NumF64 f) = Some f"

fun json_as_object :: "json \<Rightarrow> (string \<times> json) list option" where
  "json_as_object (JObject m) = Some m"
| "json_as_object _ = None"

fun json_as_array :: "json \<Rightarrow> json list option" where
  "json_as_array (JArray a) = Some a"
| "json_as_array _ = None"

fun json_as_str :: "json \<Rightarrow> string option" where
  "json_as_str (JString s) = Some s"
| "json_as_str _ = None"

text \<open>\<open>Value::get\<close> with a string key: objects only.\<close>

fun json_get :: "json \<Rightarrow> string \<Rightarrow> json option" where
  "json_get (JObject m) k = map_of m k"
| "json_get _ k = None"

end
