(* ===== verification/Rt_Filter.thy ===== *)
theory Rt_Filter
  imports Rt_Json
begin

text \<open>
  Server-side filters (\<open>crates/realtime-core/src/filter\<close>): the expression tree and its evaluation
  (\<open>expr.rs\<close>), the JSON reader for filters, and field extraction from an envelope
  (\<open>getter.rs\<close>).  Lemmas: a filter read from JSON is the conjunction of its clauses; extraction
  from a pre-parsed payload agrees with extraction from the bytes.
\<close>

subsection \<open>Expressions (filter/mod.rs)\<close>

datatype FieldPath = FieldPath (field_str: string)

datatype FilterValue =
    FString string
  | FInteger i64
  | FFloat f64
  | FBool bool
  | FNull

datatype FilterExpr =
    FEq FieldPath FilterValue
  | FNe FieldPath FilterValue
  | FIn FieldPath "FilterValue list"
  | FAnd FilterExpr FilterExpr
  | FOr FilterExpr FilterExpr
  | FNot FilterExpr

definition field_path_new :: "string \<Rightarrow> FieldPath" where
  "field_path_new s = FieldPath s"

text \<open>The derived \<open>PartialEq\<close>: float payloads compare as IEEE numbers.\<close>

fun fv_eq :: "FilterValue \<Rightarrow> FilterValue \<Rightarrow> bool" where
  "fv_eq (FString a) (FString b) = (a = b)"
| "fv_eq (FInteger a) (FInteger b) = (a = b)"
| "fv_eq (FFloat a) (FFloat b) = f64_eq a b"
| "fv_eq (FBool a) (FBool b) = (a = b)"
| "fv_eq FNull FNull = True"
| "fv_eq _ _ = False"

definition opt_fv_eq :: "FilterValue option \<Rightarrow> FilterValue \<Rightarrow> bool" where
  "opt_fv_eq got expected = (case got of None \<Rightarrow> False | Some v \<Rightarrow> fv_eq v expected)"

definition fv_as_str :: "FilterValue \<Rightarrow> string option" where
  "fv_as_str v = (case v of FString s \<Rightarrow> Some s | _ \<Rightarrow> None)"

subsection \<open>Evaluation (filter/expr.rs)\<close>

type_synonym field_getter = "FieldPath \<Rightarrow> FilterValue option"

primrec evaluate :: "FilterExpr \<Rightarrow> field_getter \<Rightarrow> bool" where
  "evaluate (FEq f expected) g = opt_fv_eq (g f) expected"
| "evaluate (FNe f expected) g = (\<not> opt_fv_eq (g f) expected)"
| "evaluate (FIn f values) g = (case g f of None \<Rightarrow> False | Some v \<Rightarrow> list_ex (\<lambda>w. fv_eq w v) values)"
| "evaluate (FAnd l r) g = (evaluate l g \<and> evaluate r g)"
| "evaluate (FOr l r) g = (evaluate l g \<or> evaluate r g)"
| "evaluate (FNot inner) g = (\<not> evaluate inner g)"

fun json_to_filter_value :: "Externals \<Rightarrow> json \<Rightarrow> FilterValue" where
  "json_to_filter_value x (JString s) = FString s"
| "json_to_filter_value x (JNumber n) =
     (case num_as_i64 n of Some i \<Rightarrow> FInteger i
      | None \<Rightarrow> (case num_as_f64 x n of Some f \<Rightarrow> FFloat f | None \<Rightarrow> FNull))"
| "json_to_filter_value x (JBool b) = FBool b"
| "json_to_filter_value x _ = FNull"

definition parse_operator :: "Externals \<Rightarrow> FieldPath \<Rightarrow> string \<Rightarrow> json \<Rightarrow> FilterExpr option" where
  "parse_operator x field op val =
     (if op = ''eq'' then Some (FEq field (json_to_filter_value x val))
      else if op = ''ne'' then Some (FNe field (json_to_filter_value x val))
      else if op = ''in'' then
        do { arr \<leftarrow> json_as_array val; Some (FIn field (map (json_to_filter_value x) arr)) }
      else None)"

fun combine_exprs :: "FilterExpr list \<Rightarrow> FilterExpr option" where
  "combine_exprs [] = None"
| "combine_exprs [e] = Some e"
| "combine_exprs (e # es) = Some (foldl FAnd e es)"

text \<open>The two nested loops of \<open>from_json\<close>; \<open>None\<close> is an early return through \<open>?\<close>.\<close>

fun push_conditions ::
    "Externals \<Rightarrow> string \<Rightarrow> (string \<times> json) list \<Rightarrow> FilterExpr list \<Rightarrow> FilterExpr list option" where
  "push_conditions x field [] exprs = Some exprs"
| "push_conditions x field ((op, val) # rest) exprs =
     do { e \<leftarrow> parse_operator x (field_path_new field) op val;
          push_conditions x field rest (exprs @ [e]) }"

fun push_fields ::
    "Externals \<Rightarrow> (string \<times> json) list \<Rightarrow> FilterExpr list \<Rightarrow> FilterExpr list option" where
  "push_fields x [] exprs = Some exprs"
| "push_fields x ((field, condition) # rest) exprs =
     do { cond_obj \<leftarrow> json_as_object condition;
          exprs' \<leftarrow> push_conditions x field cond_obj exprs;
          push_fields x rest exprs' }"

definition from_json :: "Externals \<Rightarrow> json \<Rightarrow> FilterExpr option" where
  "from_json x value =
     do { obj \<leftarrow> json_as_object value;
          exprs \<leftarrow> push_fields x obj [];
          combine_exprs exprs }"

subsection \<open>Field extraction (filter/getter.rs)\<close>

definition source_kind_debug :: "Externals \<Rightarrow> SourceKind \<Rightarrow> string" where
  "source_kind_debug x k =
     (case k of SrcApi \<Rightarrow> ''Api'' | SrcDatabase \<Rightarrow> ''Database'' | SrcScheduler \<Rightarrow> ''Scheduler''
      | SrcWebhook \<Rightarrow> ''Webhook'' | SrcCustom s \<Rightarrow> ''Custom('' @ x_debug_str x s @ '')'')"

definition extract_source_metadata :: "EventEnvelope \<Rightarrow> string \<Rightarrow> FilterValue option" where
  "extract_source_metadata event key =
     do { s \<leftarrow> ev_source event; v \<leftarrow> dm_get (src_metadata s) key; Some (FString v) }"

fun json_value_to_filter_value :: "Externals \<Rightarrow> json \<Rightarrow> FilterValue option" where
  "json_value_to_filter_value x (JString s) = Some (FString s)"
| "json_value_to_filter_value x (JNumber n) =
     (case num_as_i64 n of Some i \<Rightarrow> Some (FInteger i)
      | None \<Rightarrow> map_option FFloat (num_as_f64 x n))"
| "json_value_to_filter_value x (JBool b) = Some (FBool b)"
| "json_value_to_filter_value x JNull = Some FNull"
| "json_value_to_filter_value x _ = None"

fun walk_path :: "json \<Rightarrow> string list \<Rightarrow> json option" where
  "walk_path current [] = Some current"
| "walk_path current (segment # rest) =
     do { next \<leftarrow> json_get current segment; walk_path next rest }"

definition extract_payload_field :: "Externals \<Rightarrow> bytes \<Rightarrow> string \<Rightarrow> FilterValue option" where
  "extract_payload_field x payload path =
     do { parsed \<leftarrow> x_from_slice x payload;
          current \<leftarrow> walk_path parsed (split_on CHR ''.'' path);
          json_value_to_filter_value x current }"

definition extract_payload_field_cached ::
    "Externals \<Rightarrow> json option \<Rightarrow> string \<Rightarrow> FilterValue option" where
  "extract_payload_field_cached x parsed path =
     do { root \<leftarrow> parsed;
          current \<leftarrow> walk_path root (split_on CHR ''.'' path);
          json_value_to_filter_value x current }"

definition envelope_field_getter :: "Externals \<Rightarrow> EventEnvelope \<Rightarrow> field_getter" where
  "envelope_field_getter x event field =
     (let s = field_str field in
      if s = ''event_type'' then Some (FString (ev_type event))
      else if s = ''topic'' then Some (FString (topic_str (ev_topic event)))
      else if s = ''source.kind'' then
        map_option (\<lambda>src. FString (source_kind_debug x (src_kind src))) (ev_source event)
      else if s = ''source.id'' then map_option (\<lambda>src. FString (src_id src)) (ev_source event)
      else if starts_with s ''source.metadata.'' then
        extract_source_metadata event (drop (length ''source.metadata.'') s)
      else if starts_with s ''payload.'' then
        extract_payload_field x (ev_payload event) (drop (length ''payload.'') s)
      else extract_payload_field x (ev_payload event) s)"

definition envelope_field_getter_cached ::
    "Externals \<Rightarrow> EventEnvelope \<Rightarrow> json option \<Rightarrow> field_getter" where
  "envelope_field_getter_cached x event parsed field =
     (let s = field_str field in
      if s = ''event_type'' then Some (FString (ev_type event))
      else if s = ''topic'' then Some (FString (topic_str (ev_topic event)))
      else if s = ''source.kind'' then
        map_option (\<lambda>src. FString (source_kind_debug x (src_kind src))) (ev_source event)
      else if s = ''source.id'' then map_option (\<lambda>src. FString (src_id src)) (ev_source event)
      else if starts_with s ''source.metadata.'' then
        extract_source_metadata event (drop (length ''source.metadata.'') s)
      else if starts_with s ''payload.'' then
        extract_payload_field_cached x parsed (drop (length ''payload.'') s)
      else extract_payload_field_cached x parsed s)"

text \<open>The getter every evaluation uses: over the payload parsed once.\<close>

definition event_getter :: "Externals \<Rightarrow> EventEnvelope \<Rightarrow> field_getter" where
  "event_getter x event = envelope_field_getter_cached x event (x_from_slice x (ev_payload event))"

lemma envelope_field_getter_eq: "envelope_field_getter x event = event_getter x event"
  by (rule ext)
    (simp add: envelope_field_getter_def event_getter_def envelope_field_getter_cached_def
      extract_payload_field_def extract_payload_field_cached_def Let_def)

subsection \<open>Filters read from JSON\<close>

definition clause_holds :: "Externals \<Rightarrow> field_getter \<Rightarrow> string \<Rightarrow> string \<times> json \<Rightarrow> bool" where
  "clause_holds x g field c =
     (case parse_operator x (FieldPath field) (fst c) (snd c) of
        None \<Rightarrow> False | Some e \<Rightarrow> evaluate e g)"

definition all_clauses_hold :: "Externals \<Rightarrow> field_getter \<Rightarrow> (string \<times> json) list \<Rightarrow> bool" where
  "all_clauses_hold x g obj =
     (\<forall>(field, condition)\<in>set obj.
        \<exists>cs. condition = JObject cs \<and> (\<forall>c\<in>set cs. clause_holds x g field c))"

lemma evaluate_foldl_And: "evaluate (foldl FAnd e es) g \<longleftrightarrow> evaluate e g \<and> (\<forall>e'\<in>set es. evaluate e' g)"
  by (induction es arbitrary: e) auto

lemma evaluate_combine:
  "combine_exprs es = Some e \<Longrightarrow> evaluate e g \<longleftrightarrow> (\<forall>e'\<in>set es. evaluate e' g)"
  by (cases es rule: combine_exprs.cases) (auto simp: evaluate_foldl_And)

lemma combine_None_iff: "combine_exprs es = None \<longleftrightarrow> es = []"
  by (cases es rule: combine_exprs.cases) auto

lemma push_conditions_holds:
  "push_conditions x field cs exprs = Some out \<Longrightarrow>
   (\<forall>e\<in>set out. evaluate e g) \<longleftrightarrow>
     (\<forall>e\<in>set exprs. evaluate e g) \<and> (\<forall>c\<in>set cs. clause_holds x g field c)"
  by (induction x field cs exprs rule: push_conditions.induct)
    (auto simp: clause_holds_def field_path_new_def split: Option.bind_splits)

lemma push_fields_holds:
  "push_fields x obj exprs = Some out \<Longrightarrow>
   (\<forall>e\<in>set out. evaluate e g) \<longleftrightarrow> (\<forall>e\<in>set exprs. evaluate e g) \<and> all_clauses_hold x g obj"
proof (induction x obj exprs rule: push_fields.induct)
  case (1 x exprs)
  then show ?case by (simp add: all_clauses_hold_def)
next
  case (2 x field condition rest exprs)
  then obtain cs exprs' where cs: "condition = JObject cs"
    and c: "push_conditions x field cs exprs = Some exprs'"
    and r: "push_fields x rest exprs' = Some out"
    by (cases condition) (auto split: Option.bind_splits)
  from "2.IH" [of cs exprs'] cs c r
  show ?case by (simp add: all_clauses_hold_def push_conditions_holds [OF c])
qed

lemma from_json_holds:
  "from_json x (JObject obj) = Some e \<Longrightarrow> evaluate e g \<longleftrightarrow> all_clauses_hold x g obj"
  by (auto simp: from_json_def evaluate_combine push_fields_holds split: Option.bind_splits)

subsection \<open>Values that compare equal\<close>

text \<open>\<open>fv_eq\<close> is equality except for the two float zeros and NaN.\<close>

definition fv_plain :: "FilterValue \<Rightarrow> bool" where
  "fv_plain v = (case v of FFloat f \<Rightarrow> \<not> f64_is_zero f \<and> \<not> f64_is_nan f | _ \<Rightarrow> True)"

lemma fv_eq_plain: "fv_plain a \<Longrightarrow> fv_eq a b \<longleftrightarrow> a = b"
  by (cases a; cases b) (auto simp: fv_plain_def f64_eq_def)

lemma fv_eq_plain': "fv_plain b \<Longrightarrow> fv_eq a b \<longleftrightarrow> a = b"
  by (cases a; cases b) (auto simp: fv_plain_def f64_eq_def)

lemma opt_fv_eq_plain: "fv_plain v \<Longrightarrow> opt_fv_eq got v \<longleftrightarrow> got = Some v"
  by (cases got) (auto simp: opt_fv_eq_def fv_eq_plain')

end
