(* ===== verification/Rt_Auth.thy ===== *)
theory Rt_Auth
  imports Rt_Filter
begin

text \<open>
  Authentication and namespace authorization: claims and their checks
  (\<open>crates/realtime-core/src/types/auth_claims.rs\<close>), the \<open>AuthProvider\<close> interface
  (\<open>traits/auth.rs\<close>) with its two providers, JWT (\<open>crates/realtime-auth/src/jwt\<close>) and no-auth
  (\<open>noauth.rs\<close>), and the subscription record with its configuration
  (\<open>types/subscription.rs\<close>).  Lemmas: deny by default, what a grant covers, and that a granted
  pattern only matches topics of granted namespaces.
\<close>

subsection \<open>Subscriptions (types/subscription.rs)\<close>

datatype OverflowPolicy = DropOldest | DropNewest | Disconnect

record SubConfig =
  sc_overflow :: OverflowPolicy
  sc_rate_limit :: "u32 option"
  sc_resume_from :: "u64 option"

definition sub_config_default :: SubConfig where
  "sub_config_default =
     \<lparr>sc_overflow = DropNewest, sc_rate_limit = None, sc_resume_from = None\<rparr>"

record Subscription =
  sb_sub :: SubscriptionId
  sb_conn :: ConnectionId
  sb_topic :: TopicPattern
  sb_filter :: "FilterExpr option"
  sb_config :: SubConfig

subsection \<open>Claims (types/auth_claims.rs)\<close>

record AuthClaims =
  ac_sub :: string
  ac_namespaces :: "string list"
  ac_can_publish :: bool
  ac_can_subscribe :: bool
  ac_metadata :: "(string, json) dashmap"

record ConnectionMeta =
  cm_conn_id :: ConnectionId
  cm_peer_addr :: string
  cm_connected_at :: timestamp
  cm_user_id :: "string option"
  cm_claims :: "AuthClaims option"

record PublishReceipt =
  pr_event_id :: EventId
  pr_sequence :: u64
  pr_delivered_to_bus :: bool

record AuthContext =
  cx_peer_addr :: string
  cx_transport :: string

definition is_protected :: "string \<Rightarrow> string list \<Rightarrow> bool" where
  "is_protected topic_ns protected =
     list_ex (\<lambda>prefix. prefix \<noteq> [] \<and> starts_with topic_ns prefix) protected"

definition namespace_allowed :: "AuthClaims \<Rightarrow> string \<Rightarrow> string list \<Rightarrow> bool" where
  "namespace_allowed c topic_ns protected =
     list_ex (\<lambda>ns. ns = topic_ns \<or> (ns = ''*'' \<and> \<not> is_protected topic_ns protected))
       (ac_namespaces c)"

fun extract_pattern_namespace :: "TopicPattern \<Rightarrow> string" where
  "extract_pattern_namespace (Exact p) = topic_namespace p"
| "extract_pattern_namespace (Prefix p) = split_nth 0 (split_on CHR ''/'' p)"
| "extract_pattern_namespace (Glob p) =
     (if p = ''**'' then ''*'' else split_nth 0 (split_on CHR ''/'' p))"

definition can_subscribe_to_scoped :: "AuthClaims \<Rightarrow> TopicPattern \<Rightarrow> string list \<Rightarrow> bool" where
  "can_subscribe_to_scoped c topic protected =
     (if \<not> ac_can_subscribe c \<or> ac_namespaces c = [] then False
      else namespace_allowed c (extract_pattern_namespace topic) protected)"

definition can_subscribe_to :: "AuthClaims \<Rightarrow> TopicPattern \<Rightarrow> bool" where
  "can_subscribe_to c topic = can_subscribe_to_scoped c topic []"

definition can_publish_to_scoped :: "AuthClaims \<Rightarrow> TopicPath \<Rightarrow> string list \<Rightarrow> bool" where
  "can_publish_to_scoped c topic protected =
     (if \<not> ac_can_publish c \<or> ac_namespaces c = [] then False
      else namespace_allowed c (topic_namespace topic) protected)"

definition can_publish_to :: "AuthClaims \<Rightarrow> TopicPath \<Rightarrow> bool" where
  "can_publish_to c topic = can_publish_to_scoped c topic []"

subsection \<open>What a grant covers\<close>

lemma namespace_allowed_iff:
  "namespace_allowed c ns protected \<longleftrightarrow>
     ns \<in> set (ac_namespaces c) \<or> (''*'' \<in> set (ac_namespaces c) \<and> \<not> is_protected ns protected)"
  by (auto simp: namespace_allowed_def list_ex_iff)

lemma is_protected_Nil [simp]: "\<not> is_protected ns []"
  by (simp add: is_protected_def)

text \<open>The first segment of a pattern and whether it is a wildcard.\<close>

definition pattern_head :: "TopicPattern \<Rightarrow> string" where
  "pattern_head p = split_nth 0 (split_on CHR ''/'' (pattern_str p))"

definition literal_head :: "TopicPattern \<Rightarrow> bool" where
  "literal_head p = (pattern_head p \<noteq> ''*'' \<and> pattern_head p \<noteq> ''**'')"

lemma glob_match_head:
  assumes "glob_match s t" and "split_nth 0 (split_on CHR ''/'' s) \<noteq> ''*''"
    and "split_nth 0 (split_on CHR ''/'' s) \<noteq> ''**''"
  shows "split_nth 0 (split_on CHR ''/'' t) = split_nth 0 (split_on CHR ''/'' s)"
  using assms glob_spec_hd [of "split_on CHR ''/'' s" "split_on CHR ''/'' t"]
  by (simp add: glob_match_spec split_nth_def hd_conv_nth)

lemma takeWhile_prefix_sep:
  "c \<in> set p \<Longrightarrow> takeWhile (\<lambda>x. x \<noteq> c) (p @ r) = takeWhile (\<lambda>x. x \<noteq> c) p"
  by (auto intro: takeWhile_append1)

lemma prefix_head:
  assumes "parsed_pattern (Prefix p)" and "starts_with t p"
  shows "split_nth 0 (split_on CHR ''/'' t) = split_nth 0 (split_on CHR ''/'' p)"
proof -
  have "ends_with_char p CHR ''/''"
    using assms(1) by (auto simp: parsed_pattern_def pattern_parse_def split: if_splits)
  then have "CHR ''/'' \<in> set p"
    unfolding ends_with_char_def by (metis last_in_set)
  with assms(2) show ?thesis
    by (auto simp: starts_with_iff split_nth_0 takeWhile_prefix_sep)
qed

lemma matched_topic_head:
  assumes "parsed_pattern p" and "pattern_matches p t" and "literal_head p"
  shows "topic_namespace t = extract_pattern_namespace p"
proof (cases p)
  case (Exact path)
  then show ?thesis using assms by simp
next
  case (Prefix s)
  then show ?thesis using assms prefix_head [of s "topic_str t"]
    by (simp add: topic_namespace_def)
next
  case (Glob s)
  then have "s \<noteq> ''**''"
    using assms(3) by (auto simp: literal_head_def pattern_head_def split_nth_def)
  with Glob assms(2,3) show ?thesis
    by (simp add: topic_namespace_def literal_head_def pattern_head_def glob_match_head)
qed

lemma literal_head_only_globs:
  assumes "parsed_pattern p" and "\<not> literal_head p"
  shows "\<exists>s. p = Glob s"
proof -
  have "CHR ''*'' \<in> set (pattern_str p)"
    using assms(2) set_takeWhileD [of "CHR ''*''" "\<lambda>x. x \<noteq> CHR ''/''" "pattern_str p"]
    by (auto simp: literal_head_def pattern_head_def split_nth_0)
  with assms(1) have "p = Glob (pattern_str p)"
    by (simp add: parsed_pattern_def pattern_parse_def)
  then show ?thesis ..
qed

lemma wildcard_head_namespace:
  assumes "parsed_pattern p" and "\<not> literal_head p"
  shows "extract_pattern_namespace p = ''*'' \<or> extract_pattern_namespace p = ''**''"
proof -
  obtain s where "p = Glob s"
    using literal_head_only_globs [OF assms] by blast
  with assms(2) show ?thesis
    by (cases "s = ''**''") (auto simp: literal_head_def pattern_head_def)
qed

lemma subscribe_grant_sound:
  assumes "parsed_pattern p" and "can_subscribe_to_scoped c p protected"
    and "pattern_matches p t"
    and "literal_head p \<or> (''**'' \<notin> set (ac_namespaces c) \<and> \<not> is_protected (topic_namespace t) protected)"
  shows "namespace_allowed c (topic_namespace t) protected"
proof (cases "literal_head p")
  case True
  with assms matched_topic_head [OF assms(1,3)] show ?thesis
    by (simp add: can_subscribe_to_scoped_def split: if_splits)
next
  case False
  then have "''*'' \<in> set (ac_namespaces c)" "\<not> is_protected (topic_namespace t) protected"
    using assms wildcard_head_namespace [OF assms(1) False]
    by (auto simp: can_subscribe_to_scoped_def namespace_allowed_iff split: if_splits)
  then show ?thesis by (simp add: namespace_allowed_iff)
qed

subsection \<open>The provider interface (traits/auth.rs)\<close>

text \<open>
  What the gateway relies on: a failed verification is an authentication error and a refused
  operation an authorization error, so the clients of the interface can map them to codes.
\<close>

locale auth_provider =
  fixes verify :: "string \<Rightarrow> AuthContext \<Rightarrow> (RealtimeError, AuthClaims) result"
    and authorize_subscribe :: "AuthClaims \<Rightarrow> TopicPattern \<Rightarrow> (RealtimeError, unit) result"
    and authorize_publish :: "AuthClaims \<Rightarrow> TopicPath \<Rightarrow> (RealtimeError, unit) result"
  assumes verify_error: "verify token ctx = Inl e \<Longrightarrow> \<exists>m. e = AuthFailed m"
    and subscribe_error: "authorize_subscribe c p = Inl e \<Longrightarrow> \<exists>m. e = AuthorizationDenied m"
    and publish_error: "authorize_publish c t = Inl e \<Longrightarrow> \<exists>m. e = AuthorizationDenied m"
begin

lemma verify_status: "verify token ctx = Inl e \<Longrightarrow> status_code e = 401"
  using verify_error by fastforce

lemma subscribe_status: "authorize_subscribe c p = Inl e \<Longrightarrow> status_code e = 403"
  using subscribe_error by fastforce

lemma publish_status: "authorize_publish c t = Inl e \<Longrightarrow> status_code e = 403"
  using publish_error by fastforce

end

subsection \<open>The JWT provider (realtime-auth/src/jwt)\<close>

text \<open>
  \<open>jsonwebtoken\<close> is a library: keys are opaque, and its functions are the fields of a record.
  \<open>Validation\<close> is modelled by the fields the code sets.
\<close>

datatype Algorithm = HS256 | HS384 | HS512 | OtherAlgorithm string

datatype JwtErrorKind = InvalidSignature | OtherJwtError string

record Validation =
  va_algorithm :: Algorithm
  va_iss :: "string list option"
  va_required_claims :: "string list"
  va_aud :: "string list option"
  va_validate_aud :: bool

record JwtClaims =
  jc_sub :: string
  jc_exp :: "u64 option"
  jc_iat :: "u64 option"
  jc_namespaces :: "string list"
  jc_can_publish :: bool
  jc_can_subscribe :: bool
  jc_metadata :: "(string, json) dashmap"

record 'key JwtLib =
  jl_decode :: "string \<Rightarrow> 'key \<Rightarrow> Validation \<Rightarrow> (JwtErrorKind, JwtClaims) result"
  jl_from_secret :: "bytes \<Rightarrow> 'key"
  jl_from_rsa_pem :: "bytes \<Rightarrow> (JwtErrorKind, 'key) result"
  jl_validation_new :: "Algorithm \<Rightarrow> Validation"
  jl_show_error :: "JwtErrorKind \<Rightarrow> string"

record JwtConfig =
  jg_secret :: string
  jg_previous_secret :: "string option"
  jg_algorithm :: Algorithm
  jg_issuer :: "string option"
  jg_require_issuer :: bool
  jg_audience :: "string option"

record 'key JwtAuthProvider =
  jp_decoding_key :: 'key
  jp_previous_key :: "'key option"
  jp_validation :: Validation
  jp_protected_namespaces :: "string list"

text \<open>Process environment variables: \<open>std::env::var(name).ok()\<close>.\<close>

type_synonym environment = "string \<Rightarrow> string option"

definition jwt_config_hmac :: "string \<Rightarrow> JwtConfig" where
  "jwt_config_hmac secret =
     \<lparr>jg_secret = secret, jg_previous_secret = None, jg_algorithm = HS256, jg_issuer = None,
      jg_require_issuer = True, jg_audience = None\<rparr>"

definition accepted_issuers :: "JwtConfig \<Rightarrow> string list" where
  "accepted_issuers config =
     (case jg_issuer config of None \<Rightarrow> []
      | Some raw \<Rightarrow> filter (\<lambda>i. i \<noteq> []) (map trim (split_on CHR '','' raw)))"

definition protected_namespaces_from_env :: "environment \<Rightarrow> string list" where
  "protected_namespaces_from_env env =
     (case env ''REALTIME_PROTECTED_NAMESPACES'' of None \<Rightarrow> []
      | Some raw \<Rightarrow> filter (\<lambda>prefix. prefix \<noteq> []) (map trim (split_on CHR '','' raw)))"

definition build_decoding_key :: "'key JwtLib \<Rightarrow> JwtConfig \<Rightarrow> (RealtimeError, 'key) result" where
  "build_decoding_key lib config =
     (if jg_algorithm config \<in> {HS256, HS384, HS512}
      then Inr (jl_from_secret lib (jg_secret config))
      else (case jl_from_rsa_pem lib (jg_secret config) of
              Inr k \<Rightarrow> Inr k
            | Inl e \<Rightarrow> Inl (InternalError (''Invalid RSA public key PEM: '' @ jl_show_error lib e))))"

definition build_previous_key :: "'key JwtLib \<Rightarrow> JwtConfig \<Rightarrow> 'key option" where
  "build_previous_key lib config =
     do { prev \<leftarrow> jg_previous_secret config;
          (let hmac = jg_algorithm config \<in> {HS256, HS384, HS512} in
           if hmac \<and> prev \<noteq> [] \<and> prev \<noteq> jg_secret config
           then Some (jl_from_secret lib prev) else None) }"

definition build_validation :: "'key JwtLib \<Rightarrow> JwtConfig \<Rightarrow> Validation" where
  "build_validation lib config =
     (let v = jl_validation_new lib (jg_algorithm config);
          issuers = accepted_issuers config;
          v = (if issuers \<noteq> []
               then let v = v\<lparr>va_iss := Some issuers\<rparr> in
                    if jg_require_issuer config
                    then v\<lparr>va_required_claims := [''exp'', ''iss'']\<rparr> else v
               else v)
      in case jg_audience config of
           Some audience \<Rightarrow> v\<lparr>va_aud := Some [audience]\<rparr>
         | None \<Rightarrow> v\<lparr>va_validate_aud := False\<rparr>)"

definition jwt_provider_new ::
    "'key JwtLib \<Rightarrow> environment \<Rightarrow> JwtConfig \<Rightarrow> (RealtimeError, 'key JwtAuthProvider) result" where
  "jwt_provider_new lib env config =
     (case build_decoding_key lib config of
        Inl e \<Rightarrow> Inl e
      | Inr k \<Rightarrow>
          Inr \<lparr>jp_decoding_key = k, jp_previous_key = build_previous_key lib config,
               jp_validation = build_validation lib config,
               jp_protected_namespaces = protected_namespaces_from_env env\<rparr>)"

definition jwt_decode ::
    "'key JwtLib \<Rightarrow> 'key JwtAuthProvider \<Rightarrow> string \<Rightarrow> (JwtErrorKind, JwtClaims) result" where
  "jwt_decode lib p token =
     (case jl_decode lib token (jp_decoding_key p) (jp_validation p) of
        Inl InvalidSignature \<Rightarrow>
          (case jp_previous_key p of None \<Rightarrow> Inl InvalidSignature
           | Some prev \<Rightarrow> jl_decode lib token prev (jp_validation p))
      | other \<Rightarrow> other)"

definition fallback_permissive :: "string option \<Rightarrow> string option \<Rightarrow> bool" where
  "fallback_permissive fallback mode =
     (if fallback = Some ''permissive'' then True
      else if fallback = Some ''deny'' then False
      else mode \<noteq> Some ''max'')"

definition namespace_fallback_permissive :: "environment \<Rightarrow> bool" where
  "namespace_fallback_permissive env =
     fallback_permissive (env ''REALTIME_NAMESPACE_FALLBACK'') (env ''SECURITY_MODE'')"

definition build_auth_claims :: "environment \<Rightarrow> JwtClaims \<Rightarrow> AuthClaims" where
  "build_auth_claims env claims =
     (let namespaces = jc_namespaces claims;
          namespaces = (if namespaces = [] \<and> namespace_fallback_permissive env
                        then [''*''] else namespaces)
      in \<lparr>ac_sub = jc_sub claims, ac_namespaces = namespaces,
          ac_can_publish = jc_can_publish claims, ac_can_subscribe = jc_can_subscribe claims,
          ac_metadata = jc_metadata claims\<rparr>)"

definition jwt_verify ::
    "'key JwtLib \<Rightarrow> environment \<Rightarrow> 'key JwtAuthProvider \<Rightarrow> string \<Rightarrow> AuthContext
      \<Rightarrow> (RealtimeError, AuthClaims) result" where
  "jwt_verify lib env p token ctx =
     (let token = (case strip_prefix token ''Bearer '' of Some t \<Rightarrow> t | None \<Rightarrow> token) in
      case jwt_decode lib p token of
        Inl e \<Rightarrow> Inl (AuthFailed (''Invalid token: '' @ jl_show_error lib e))
      | Inr claims \<Rightarrow> Inr (build_auth_claims env claims))"

definition jwt_authorize_subscribe ::
    "'key JwtAuthProvider \<Rightarrow> AuthClaims \<Rightarrow> TopicPattern \<Rightarrow> (RealtimeError, unit) result" where
  "jwt_authorize_subscribe p claims topic =
     (if can_subscribe_to_scoped claims topic (jp_protected_namespaces p) then Inr ()
      else Inl (AuthorizationDenied (''Not authorized to subscribe to '' @ pattern_str topic)))"

definition jwt_authorize_publish ::
    "'key JwtAuthProvider \<Rightarrow> AuthClaims \<Rightarrow> TopicPath \<Rightarrow> (RealtimeError, unit) result" where
  "jwt_authorize_publish p claims topic =
     (if can_publish_to_scoped claims topic (jp_protected_namespaces p) then Inr ()
      else Inl (AuthorizationDenied (''Not authorized to publish to '' @ topic_str topic)))"

interpretation jwt: auth_provider "jwt_verify lib env p" "jwt_authorize_subscribe p"
    "jwt_authorize_publish p"
  for lib :: "'key JwtLib" and env p
  by unfold_locales
    (auto simp: jwt_verify_def jwt_authorize_subscribe_def jwt_authorize_publish_def Let_def
      split: sum.splits if_splits)

lemma jwt_decode_cases:
  "jwt_decode lib p token = Inr claims \<Longrightarrow>
     jl_decode lib token (jp_decoding_key p) (jp_validation p) = Inr claims \<or>
     (jl_decode lib token (jp_decoding_key p) (jp_validation p) = Inl InvalidSignature \<and>
      (\<exists>prev. jp_previous_key p = Some prev \<and>
              jl_decode lib token prev (jp_validation p) = Inr claims))"
  by (auto simp: jwt_decode_def split: sum.splits JwtErrorKind.splits option.splits)

lemma build_auth_claims_namespaces:
  "ac_namespaces (build_auth_claims env c) =
     (if jc_namespaces c = [] then (if namespace_fallback_permissive env then [''*''] else [])
      else jc_namespaces c)"
  by (simp add: build_auth_claims_def Let_def)

subsection \<open>The no-authentication provider (noauth.rs)\<close>

definition noauth_verify :: "string \<Rightarrow> AuthContext \<Rightarrow> (RealtimeError, AuthClaims) result" where
  "noauth_verify token ctx =
     Inr \<lparr>ac_sub = (if token = [] then ''anonymous'' else token), ac_namespaces = [''*''],
          ac_can_publish = True, ac_can_subscribe = True, ac_metadata = []\<rparr>"

definition noauth_authorize_subscribe ::
    "AuthClaims \<Rightarrow> TopicPattern \<Rightarrow> (RealtimeError, unit) result" where
  "noauth_authorize_subscribe claims topic = Inr ()"

definition noauth_authorize_publish ::
    "AuthClaims \<Rightarrow> TopicPath \<Rightarrow> (RealtimeError, unit) result" where
  "noauth_authorize_publish claims topic = Inr ()"

interpretation noauth: auth_provider noauth_verify noauth_authorize_subscribe
    noauth_authorize_publish
  by unfold_locales
    (simp_all add: noauth_verify_def noauth_authorize_subscribe_def noauth_authorize_publish_def)

subsection \<open>Properties\<close>

lemma jwt_subscribe_ok_iff:
  "jwt_authorize_subscribe p c pat = Inr () \<longleftrightarrow>
     can_subscribe_to_scoped c pat (jp_protected_namespaces p)"
  by (simp add: jwt_authorize_subscribe_def)

lemma jwt_publish_ok_iff:
  "jwt_authorize_publish p c t = Inr () \<longleftrightarrow> can_publish_to_scoped c t (jp_protected_namespaces p)"
  by (simp add: jwt_authorize_publish_def)

text \<open>C32: a subscription the JWT provider authorizes never reaches beyond the token's grants: every
  topic the authorized pattern matches lies in a namespace the claims allow under the provider's
  protected prefixes.  For a pattern whose first segment is a wildcard this needs that the topic's
  namespace is not protected and that the literal namespace \<open>**\<close> was not granted.\<close>

theorem jwt_subscribe_within_grants:
  assumes "parsed_pattern pat"
    and "jwt_authorize_subscribe p c pat = Inr ()"
    and "pattern_matches pat t"
    and "literal_head pat \<or>
         (''**'' \<notin> set (ac_namespaces c) \<and>
          \<not> is_protected (topic_namespace t) (jp_protected_namespaces p))"
  shows "ac_can_subscribe c \<and> namespace_allowed c (topic_namespace t) (jp_protected_namespaces p)"
  using subscribe_grant_sound [of pat c "jp_protected_namespaces p" t] assms
  by (simp add: jwt_subscribe_ok_iff can_subscribe_to_scoped_def split: if_splits)

text \<open>A provider over a concrete library, for the witnesses: keys are secrets and a token is
  accepted when it starts with the key.\<close>

definition demo_claims :: "string \<Rightarrow> string list \<Rightarrow> JwtClaims" where
  "demo_claims sub nss = \<lparr>jc_sub = sub, jc_exp = Some 10, jc_iat = None, jc_namespaces = nss,
     jc_can_publish = True, jc_can_subscribe = True, jc_metadata = []\<rparr>"

definition demo_lib :: "string JwtLib" where
  "demo_lib = \<lparr>jl_decode = (\<lambda>token key v. if starts_with token key
       then Inr (demo_claims token (if token = key @ ''n'' then [] else [''orders'']))
       else Inl InvalidSignature),
     jl_from_secret = (\<lambda>s. s), jl_from_rsa_pem = Inr,
     jl_validation_new = (\<lambda>a. \<lparr>va_algorithm = a, va_iss = None, va_required_claims = [''exp''],
       va_aud = None, va_validate_aud = True\<rparr>),
     jl_show_error = (\<lambda>_. ''error'')\<rparr>"

definition demo_provider :: "string list \<Rightarrow> string JwtAuthProvider" where
  "demo_provider protected = \<lparr>jp_decoding_key = ''k1'', jp_previous_key = Some ''k0'',
     jp_validation = build_validation demo_lib (jwt_config_hmac ''k1''),
     jp_protected_namespaces = protected\<rparr>"

definition demo_ctx :: AuthContext where
  "demo_ctx = \<lparr>cx_peer_addr = ''127.0.0.1:1'', cx_transport = ''websocket''\<rparr>"

definition demo_user :: "string list \<Rightarrow> AuthClaims" where
  "demo_user nss = \<lparr>ac_sub = ''u'', ac_namespaces = nss, ac_can_publish = True,
     ac_can_subscribe = True, ac_metadata = []\<rparr>"

theorem jwt_subscribe_within_grants_witness:
  "namespace_allowed (demo_user [''orders'']) ''orders'' [''collab:'']"
proof -
  have "ac_can_subscribe (demo_user [''orders'']) \<and>
    namespace_allowed (demo_user [''orders'']) (topic_namespace (TopicPath ''orders/created''))
      (jp_protected_namespaces (demo_provider [''collab:'']))"
    by (rule jwt_subscribe_within_grants [where pat = "pattern_parse ''orders/*''"]) code_simp+
  then show ?thesis
    by (simp add: demo_provider_def topic_namespace_def split_nth_def)
qed

text \<open>C33: deny by default, end to end: when the environment refuses the fallback - with the fallback
  variable set to \<open>deny\<close>, or with the security mode \<open>max\<close> and the fallback variable anything but
  \<open>permissive\<close>, unset included - a token that names no namespace verifies to claims that can subscribe
  to nothing and publish nowhere.\<close>

theorem jwt_deny_by_default:
  assumes "env ''REALTIME_NAMESPACE_FALLBACK'' = Some ''deny'' \<or>
      env ''REALTIME_NAMESPACE_FALLBACK'' \<noteq> Some ''permissive'' \<and> env ''SECURITY_MODE'' = Some ''max''"
    and "jwt_verify lib env p token ctx = Inr c"
    and "\<And>t jc. jwt_decode lib p t = Inr jc \<Longrightarrow> t = token \<or> ''Bearer '' @ t = token \<Longrightarrow> jc_namespaces jc = []"
  shows "status_code (projl (jwt_authorize_subscribe p c pat)) = 403 \<and>
         status_code (projl (jwt_authorize_publish p c t)) = 403 \<and>
         \<not> isl (jwt_verify lib env p token ctx) \<and>
         isl (jwt_authorize_subscribe p c pat) \<and> isl (jwt_authorize_publish p c t)"
proof -
  obtain tok jc where "jwt_decode lib p tok = Inr jc" and c: "c = build_auth_claims env jc"
    and "tok = token \<or> ''Bearer '' @ tok = token"
    using assms(2) strip_prefix_Some_iff [of token "''Bearer ''"]
    by (auto simp: jwt_verify_def Let_def split: sum.splits option.splits)
  with assms(3) have "jc_namespaces jc = []" by blast
  moreover have "\<not> namespace_fallback_permissive env"
    using assms(1) by (auto simp: namespace_fallback_permissive_def fallback_permissive_def)
  ultimately have "ac_namespaces c = []" unfolding c by (simp add: build_auth_claims_namespaces)
  then show ?thesis using assms(2)
    by (simp add: jwt_authorize_subscribe_def jwt_authorize_publish_def can_subscribe_to_scoped_def
        can_publish_to_scoped_def)
qed

definition deny_env :: environment where
  "deny_env = [''REALTIME_NAMESPACE_FALLBACK'' \<mapsto> ''deny'']"

text \<open>The security mode alone refuses the fallback too, with the fallback variable unset or empty.\<close>

definition max_env :: "string option \<Rightarrow> environment" where
  "max_env fallback = [''SECURITY_MODE'' \<mapsto> ''max''](''REALTIME_NAMESPACE_FALLBACK'' := fallback)"

lemma demo_verify: "jwt_verify demo_lib env (demo_provider []) ''Bearer k1n'' demo_ctx =
    Inr (projr (jwt_verify demo_lib env (demo_provider []) ''Bearer k1n'' demo_ctx))"
  by (simp add: jwt_verify_def strip_prefix_def starts_with_def jwt_decode_def demo_lib_def demo_provider_def)

theorem jwt_deny_by_default_witness:
  "list_all (\<lambda>env. isl (jwt_authorize_publish (demo_provider [])
     (projr (jwt_verify demo_lib env (demo_provider []) ''Bearer k1n'' demo_ctx)) (TopicPath ''a/b'')))
     [deny_env, max_env None, max_env (Some [])]"
proof -
  have none: "jc_namespaces jc = []"
    if "jwt_decode demo_lib (demo_provider []) t = Inr jc"
      and "t = ''Bearer k1n'' \<or> ''Bearer '' @ t = ''Bearer k1n''" for t jc
    using that by (auto simp: jwt_decode_def demo_lib_def demo_provider_def starts_with_def
        demo_claims_def)
  have "isl (jwt_authorize_publish (demo_provider [])
      (projr (jwt_verify demo_lib env (demo_provider []) ''Bearer k1n'' demo_ctx)) (TopicPath ''a/b''))"
    if "env \<in> {deny_env, max_env None, max_env (Some [])}" for env
  proof -
    have "env ''REALTIME_NAMESPACE_FALLBACK'' = Some ''deny'' \<or>
        env ''REALTIME_NAMESPACE_FALLBACK'' \<noteq> Some ''permissive'' \<and> env ''SECURITY_MODE'' = Some ''max''"
      using that by (auto simp: deny_env_def max_env_def)
    then have "status_code (projl (jwt_authorize_subscribe (demo_provider [])
          (projr (jwt_verify demo_lib env (demo_provider []) ''Bearer k1n'' demo_ctx)) (Prefix ''a/''))) = 403 \<and>
        status_code (projl (jwt_authorize_publish (demo_provider [])
          (projr (jwt_verify demo_lib env (demo_provider []) ''Bearer k1n'' demo_ctx)) (TopicPath ''a/b''))) = 403 \<and>
        \<not> isl (jwt_verify demo_lib env (demo_provider []) ''Bearer k1n'' demo_ctx) \<and>
        isl (jwt_authorize_subscribe (demo_provider [])
          (projr (jwt_verify demo_lib env (demo_provider []) ''Bearer k1n'' demo_ctx)) (Prefix ''a/'')) \<and>
        isl (jwt_authorize_publish (demo_provider [])
          (projr (jwt_verify demo_lib env (demo_provider []) ''Bearer k1n'' demo_ctx)) (TopicPath ''a/b''))"
      by (rule jwt_deny_by_default [OF _ demo_verify]) (rule none)
    then show ?thesis by blast
  qed
  then show ?thesis by (simp only: list_all_iff) simp
qed

text \<open>Key rotation never widens acceptance: a token the provider accepts was accepted by the
  library under the provider's one validation, either with the current key or, after the current
  key rejected its signature, with the previous one; and any other error of the current key is
  final, whatever the previous key says.\<close>

theorem jwt_rotation_sound:
  "(jwt_decode lib p token = Inr claims \<longrightarrow>
      jl_decode lib token (jp_decoding_key p) (jp_validation p) = Inr claims \<or>
      (jl_decode lib token (jp_decoding_key p) (jp_validation p) = Inl InvalidSignature \<and>
       (\<exists>prev. jp_previous_key p = Some prev \<and>
               jl_decode lib token prev (jp_validation p) = Inr claims))) \<and>
   (jl_decode lib token (jp_decoding_key p) (jp_validation p) = Inl (OtherJwtError k) \<longrightarrow>
      jwt_decode lib p token = Inl (OtherJwtError k))"
  using jwt_decode_cases [of lib p token claims]
  by (auto simp: jwt_decode_def)

theorem jwt_rotation_sound_witness:
  "jwt_decode demo_lib (demo_provider []) ''k0x'' = Inr (demo_claims ''k0x'' [''orders'']) \<and>
   jl_decode demo_lib ''k0x'' ''k1'' (jp_validation (demo_provider [])) = Inl InvalidSignature"
proof -
  have d: "jwt_decode demo_lib (demo_provider []) ''k0x'' = Inr (demo_claims ''k0x'' [''orders''])"
    by (simp add: jwt_decode_def demo_lib_def demo_provider_def starts_with_def)
  show ?thesis
    using d jwt_rotation_sound [of demo_lib "demo_provider []" "''k0x''" "demo_claims ''k0x'' [''orders'']"]
    by (auto simp: demo_lib_def demo_provider_def starts_with_def)
qed

text \<open>C35: a wildcard first segment escapes the protected prefixes: a token whose only grant is \<open>*\<close>
  may subscribe to \<open>**\<close>, which delivers the topics of a protected namespace, although the same
  provider refuses that token both the exact subscription to such a topic and publishing on it.\<close>

theorem protected_prefix_bypass:
  assumes "is_protected (topic_namespace t) (jp_protected_namespaces p)"
    and "\<not> is_protected ''*'' (jp_protected_namespaces p)" and "topic_namespace t \<noteq> ''*''"
  shows "jwt_authorize_subscribe p (demo_user [''*'']) (pattern_parse ''**'') = Inr () \<and>
     pattern_matches (pattern_parse ''**'') t \<and>
     jwt_authorize_subscribe p (demo_user [''*'']) (Exact t) \<noteq> Inr () \<and>
     jwt_authorize_publish p (demo_user [''*'']) t \<noteq> Inr ()"
  using assms by (simp add: jwt_subscribe_ok_iff jwt_publish_ok_iff can_subscribe_to_scoped_def
      can_publish_to_scoped_def namespace_allowed_iff demo_user_def pattern_parse_def
      glob_match_spec)

theorem protected_prefix_bypass_witness:
  "jwt_authorize_subscribe (demo_provider [''collab:'']) (demo_user [''*'']) (pattern_parse ''**'')
     = Inr ()"
proof -
  have "is_protected (topic_namespace (TopicPath ''collab:doc/edit''))
      (jp_protected_namespaces (demo_provider [''collab:'']))"
    and "\<not> is_protected ''*'' (jp_protected_namespaces (demo_provider [''collab:'']))"
    and "topic_namespace (TopicPath ''collab:doc/edit'') \<noteq> ''*''"
    by code_simp+
  from protected_prefix_bypass [OF this] show ?thesis by blast
qed

end
