(* ===== verification/Rt_Stats.thy ===== *)
theory Rt_Stats
  imports Rt_Auth
begin

text \<open>
  Limits, telemetry counters and the circuit breaker of the filter index
  (\<open>crates/realtime-engine/src/filter_index/limits.rs\<close>, \<open>stats.rs\<close>).  Atomic counters are words
  that wrap; clock readings are arguments.  Lemmas: when the breaker trips, stays open, probes,
  re-opens and closes.
\<close>

subsection \<open>Limits (limits.rs)\<close>

record FilterIndexLimits =
  max_patterns :: usize
  max_subscriptions_per_pattern :: usize
  max_subscriptions_per_connection :: usize
  max_composite_keys :: usize
  max_fields_per_pattern :: usize
  max_total_subscriptions :: usize
  evaluation_slow_threshold_us :: u64
  circuit_breaker_trip_count :: u32
  circuit_breaker_cooldown_ms :: u64

definition limits_default :: FilterIndexLimits where
  "limits_default =
     \<lparr>max_patterns = 10000, max_subscriptions_per_pattern = 100000,
      max_subscriptions_per_connection = 200, max_composite_keys = 2000000,
      max_fields_per_pattern = 64, max_total_subscriptions = 1000000,
      evaluation_slow_threshold_us = 5000, circuit_breaker_trip_count = 50,
      circuit_breaker_cooldown_ms = 5000\<rparr>"

definition limits_unlimited :: FilterIndexLimits where
  "limits_unlimited =
     \<lparr>max_patterns = - 1, max_subscriptions_per_pattern = - 1,
      max_subscriptions_per_connection = - 1, max_composite_keys = - 1,
      max_fields_per_pattern = - 1, max_total_subscriptions = - 1,
      evaluation_slow_threshold_us = - 1, circuit_breaker_trip_count = - 1,
      circuit_breaker_cooldown_ms = - 1\<rparr>"

subsection \<open>Counters (stats.rs)\<close>

record FilterIndexStats =
  slots_allocated :: u64
  slots_freed :: u64
  subscriptions_rejected :: u64
  composite_key_count :: u64
  evaluations_total :: u64
  evaluations_empty :: u64
  matches_total :: u64
  last_eval_us :: u64
  peak_eval_us :: u64
  slow_evaluations :: u64
  circuit_trips :: u64
  circuit_bypassed :: u64

definition stats_new :: FilterIndexStats where
  "stats_new =
     \<lparr>slots_allocated = 0, slots_freed = 0, subscriptions_rejected = 0, composite_key_count = 0,
      evaluations_total = 0, evaluations_empty = 0, matches_total = 0, last_eval_us = 0,
      peak_eval_us = 0, slow_evaluations = 0, circuit_trips = 0, circuit_bypassed = 0\<rparr>"

record StatsSnapshot = FilterIndexStats +
  slots_active :: u64

definition stats_snapshot :: "FilterIndexStats \<Rightarrow> StatsSnapshot" where
  "stats_snapshot s =
     FilterIndexStats.extend s
       \<lparr>slots_active = saturating_sub (slots_allocated s) (slots_freed s)\<rparr>"

text \<open>The compare-exchange loop on the peak, for one thread: a failed exchange retries with the
  value read, so the stored peak is the larger of the two.\<close>

definition record_evaluation :: "u64 \<Rightarrow> u64 \<Rightarrow> FilterIndexStats \<Rightarrow> FilterIndexStats" where
  "record_evaluation duration_us match_count s =
     (let s = s\<lparr>evaluations_total := evaluations_total s + 1\<rparr>;
          s = s\<lparr>matches_total := matches_total s + match_count\<rparr>;
          s = s\<lparr>last_eval_us := duration_us\<rparr>;
          s = (if match_count = 0 then s\<lparr>evaluations_empty := evaluations_empty s + 1\<rparr> else s)
      in if peak_eval_us s < duration_us then s\<lparr>peak_eval_us := duration_us\<rparr> else s)"

lemma record_evaluation_keeps [simp]:
  "slots_allocated (record_evaluation d n s) = slots_allocated s"
  "slots_freed (record_evaluation d n s) = slots_freed s"
  "subscriptions_rejected (record_evaluation d n s) = subscriptions_rejected s"
  "composite_key_count (record_evaluation d n s) = composite_key_count s"
  by (simp_all add: record_evaluation_def Let_def)

lemma peak_is_max: "peak_eval_us (record_evaluation d n s) = max (peak_eval_us s) d"
  by (auto simp: record_evaluation_def Let_def max_def not_le)

lemma peak_over_run:
  "peak_eval_us (fold (\<lambda>(d, n). record_evaluation d n) ds s) =
     foldl max (peak_eval_us s) (map fst ds)"
  by (induction ds arbitrary: s) (auto simp: peak_is_max)

subsection \<open>The circuit breaker (stats.rs)\<close>

record CircuitBreaker =
  consecutive_slow :: u32
  cb_open :: bool
  half_open_probe :: bool
  opened_at_ms :: u64
  threshold_us :: u64
  trip_count :: u32
  cooldown_ms :: u64

definition breaker_new :: "FilterIndexLimits \<Rightarrow> CircuitBreaker" where
  "breaker_new limits =
     \<lparr>consecutive_slow = 0, cb_open = False, half_open_probe = False, opened_at_ms = 0,
      threshold_us = evaluation_slow_threshold_us limits,
      trip_count = circuit_breaker_trip_count limits,
      cooldown_ms = circuit_breaker_cooldown_ms limits\<rparr>"

text \<open>\<open>is_open\<close>, with the clock reading \<open>epoch_ms()\<close>: the answer and the state after it (the
  compare-exchange on \<open>half_open_probe\<close> wins for one caller).\<close>

definition is_open :: "u64 \<Rightarrow> CircuitBreaker \<Rightarrow> bool \<times> CircuitBreaker" where
  "is_open now_ms b =
     (if \<not> cb_open b then (False, b)
      else if cooldown_ms b \<le> saturating_sub now_ms (opened_at_ms b) \<and> \<not> half_open_probe b
      then (False, b\<lparr>half_open_probe := True\<rparr>)
      else (True, b))"

text \<open>\<open>report\<close>, with the two clock readings of its slow branch.\<close>

definition report ::
    "u64 \<Rightarrow> u64 \<Rightarrow> u64 \<Rightarrow> CircuitBreaker \<times> FilterIndexStats
      \<Rightarrow> CircuitBreaker \<times> FilterIndexStats" where
  "report now_trip now_reopen duration_us = (\<lambda>(b, s).
     let slow = threshold_us b < duration_us in
     if slow then
       let s = s\<lparr>slow_evaluations := slow_evaluations s + 1\<rparr>;
           prev = consecutive_slow b;
           b = b\<lparr>consecutive_slow := prev + 1\<rparr>;
           (b, s) = (if \<not> cb_open b \<and> trip_count b \<le> prev + 1
                     then (b\<lparr>cb_open := True, opened_at_ms := now_trip\<rparr>,
                           s\<lparr>circuit_trips := circuit_trips s + 1\<rparr>)
                     else (b, s));
           b = (if half_open_probe b
                then b\<lparr>opened_at_ms := now_reopen, half_open_probe := False\<rparr> else b)
       in (b, s)
     else
       let b = b\<lparr>consecutive_slow := 0\<rparr>;
           b = (if half_open_probe b then b\<lparr>cb_open := False, half_open_probe := False\<rparr> else b)
       in (b, s))"

lemma report_keeps [simp]:
  "threshold_us (fst (report t1 t2 d bs)) = threshold_us (fst bs)"
  "trip_count (fst (report t1 t2 d bs)) = trip_count (fst bs)"
  "cooldown_ms (fst (report t1 t2 d bs)) = cooldown_ms (fst bs)"
  "slots_allocated (snd (report t1 t2 d bs)) = slots_allocated (snd bs)"
  "slots_freed (snd (report t1 t2 d bs)) = slots_freed (snd bs)"
  "subscriptions_rejected (snd (report t1 t2 d bs)) = subscriptions_rejected (snd bs)"
  "composite_key_count (snd (report t1 t2 d bs)) = composite_key_count (snd bs)"
  by (cases bs; simp add: report_def Let_def)+

lemma is_open_keeps [simp]:
  "threshold_us (snd (is_open t b)) = threshold_us b"
  "trip_count (snd (is_open t b)) = trip_count b"
  "cooldown_ms (snd (is_open t b)) = cooldown_ms b"
  "cb_open (snd (is_open t b)) = cb_open b"
  by (auto simp: is_open_def)

lemma is_open_closed: "\<not> cb_open b \<Longrightarrow> is_open t b = (False, b)"
  by (simp add: is_open_def)

lemma is_open_probing: "cb_open b \<Longrightarrow> half_open_probe b \<Longrightarrow> is_open t b = (True, b)"
  by (simp add: is_open_def)

text \<open>A circuit with a probe in flight is open, and a closed one has none: an invariant of both
  operations.\<close>

definition breaker_inv :: "CircuitBreaker \<Rightarrow> bool" where
  "breaker_inv b = (half_open_probe b \<longrightarrow> cb_open b)"

lemma breaker_inv_new [simp]: "breaker_inv (breaker_new l)"
  by (simp add: breaker_inv_def breaker_new_def)

lemma breaker_inv_is_open [simp]: "breaker_inv b \<Longrightarrow> breaker_inv (snd (is_open t b))"
  by (auto simp: breaker_inv_def is_open_def)

lemma breaker_inv_report [simp]: "breaker_inv b \<Longrightarrow> breaker_inv (fst (report t1 t2 d (b, s)))"
  by (auto simp: breaker_inv_def report_def Let_def)

lemma unat_word_below: "unat (w :: u32) < 2 ^ 32"
  using unsigned_less [of w] by simp

lemma of_nat_unat_word: "of_nat (unat w) = (w :: u32)"
  by simp

text \<open>Reports of a run: durations with their clock readings, on a circuit no caller probes.\<close>

type_synonym reading = "u64 \<times> u64 \<times> u64"

definition report_all ::
    "reading list \<Rightarrow> CircuitBreaker \<times> FilterIndexStats \<Rightarrow> CircuitBreaker \<times> FilterIndexStats" where
  "report_all rs bs = fold (\<lambda>(t1, t2, d). report t1 t2 d) rs bs"

definition reading_slow :: "CircuitBreaker \<Rightarrow> reading \<Rightarrow> bool" where
  "reading_slow b r = (threshold_us b < snd (snd r))"

lemma report_all_Nil [simp]: "report_all [] bs = bs"
  by (simp add: report_all_def)

lemma report_all_Cons [simp]:
  "report_all ((t1, t2, d) # rs) bs = report_all rs (report t1 t2 d bs)"
  by (simp add: report_all_def)

lemma report_slow_below:
  assumes "\<not> half_open_probe b" and "\<not> cb_open b" and "threshold_us b < d"
    and "\<not> trip_count b \<le> consecutive_slow b + 1"
  shows "report t1 t2 d (b, s) =
     (b\<lparr>consecutive_slow := consecutive_slow b + 1\<rparr>,
      s\<lparr>slow_evaluations := slow_evaluations s + 1\<rparr>)"
  using assms by (simp add: report_def Let_def)

lemma report_slow_trip:
  assumes "\<not> half_open_probe b" and "\<not> cb_open b" and "threshold_us b < d"
    and "trip_count b \<le> consecutive_slow b + 1"
  shows "report t1 t2 d (b, s) =
     (b\<lparr>consecutive_slow := consecutive_slow b + 1, cb_open := True, opened_at_ms := t1\<rparr>,
      s\<lparr>slow_evaluations := slow_evaluations s + 1, circuit_trips := circuit_trips s + 1\<rparr>)"
  using assms by (simp add: report_def Let_def)

lemma report_fast:
  assumes "\<not> half_open_probe b" and "d \<le> threshold_us b"
  shows "report t1 t2 d (b, s) = (b\<lparr>consecutive_slow := 0\<rparr>, s)"
  using assms by (simp add: report_def Let_def not_less [symmetric])

lemma slow_run_count:
  assumes "\<not> half_open_probe b" and "\<not> cb_open b" and "list_all (reading_slow b) rs"
    and "unat (consecutive_slow b) + length rs < unat (trip_count b)"
  shows "fst (report_all rs (b, s)) =
           b\<lparr>consecutive_slow := consecutive_slow b + of_nat (length rs)\<rparr> \<and>
         circuit_trips (snd (report_all rs (b, s))) = circuit_trips s"
  using assms
proof (induction rs arbitrary: b s)
  case Nil
  then show ?case by simp
next
  case (Cons r rs)
  obtain t1 t2 d where r: "r = (t1, t2, d)" by (cases r)
  have small: "unat (consecutive_slow b) + 1 < 2 ^ 32"
    using Cons.prems(4) unat_word_below [of "trip_count b"] by simp
  then have un: "unat (consecutive_slow b + 1) = unat (consecutive_slow b) + 1"
    by (simp add: unat_word_ariths)
  then have below: "\<not> trip_count b \<le> consecutive_slow b + 1"
    using Cons.prems(4) by (simp add: word_le_nat_alt)
  have slow: "threshold_us b < d"
    using Cons.prems(3) by (simp add: r reading_slow_def)
  let ?b = "b\<lparr>consecutive_slow := consecutive_slow b + 1\<rparr>"
  have "list_all (reading_slow ?b) rs"
    using Cons.prems(3) by (auto simp: list_all_iff reading_slow_def)
  with Cons.IH [of ?b "s\<lparr>slow_evaluations := slow_evaluations s + 1\<rparr>"] Cons.prems(1,2,4) un
    report_slow_below [OF Cons.prems(1,2) slow below, of t1 t2 s]
  show ?case by (simp add: r add.assoc)
qed

lemma slow_run_trips:
  assumes "\<not> half_open_probe b" and "\<not> cb_open b" and "consecutive_slow b = 0"
    and "list_all (reading_slow b) (rs @ [(t1, t2, d)])"
    and "Suc (length rs) = unat (trip_count b)"
  shows "fst (report_all (rs @ [(t1, t2, d)]) (b, s)) =
           b\<lparr>consecutive_slow := trip_count b, cb_open := True, opened_at_ms := t1\<rparr> \<and>
         circuit_trips (snd (report_all (rs @ [(t1, t2, d)]) (b, s))) = circuit_trips s + 1"
proof -
  obtain b' s' where run: "report_all rs (b, s) = (b', s')" by fastforce
  have b': "b' = b\<lparr>consecutive_slow := of_nat (length rs)\<rparr>" and s': "circuit_trips s' = circuit_trips s"
    using slow_run_count [of b rs s] assms run by simp_all
  have cnt: "of_nat (length rs) + 1 = trip_count b"
    using assms(5) by (metis add.commute of_nat_Suc of_nat_unat_word)
  have "report_all (rs @ [(t1, t2, d)]) (b, s) = report t1 t2 d (b', s')"
    using run by (simp add: report_all_def)
  then show ?thesis
    using report_slow_trip [of b' d t1 t2 s'] assms cnt s'
    by (simp add: b' reading_slow_def)
qed

subsection \<open>Properties\<close>

text \<open>The breaker trips on exactly the configured number of consecutive slow evaluations: from a
  closed circuit with no slow evaluation behind it, any shorter run of slow reports leaves it
  closed, and the report that completes the count opens it, stamps the opening time and counts one
  trip.\<close>

theorem breaker_trips_exactly:
  assumes "\<not> cb_open b" and "breaker_inv b" and "consecutive_slow b = 0"
    and "list_all (reading_slow b) (rs @ [(t1, t2, d)])"
  shows "(Suc (length rs) < unat (trip_count b) \<longrightarrow>
            \<not> cb_open (fst (report_all (rs @ [(t1, t2, d)]) (b, s)))) \<and>
         (Suc (length rs) = unat (trip_count b) \<longrightarrow>
            cb_open (fst (report_all (rs @ [(t1, t2, d)]) (b, s))) \<and>
            opened_at_ms (fst (report_all (rs @ [(t1, t2, d)]) (b, s))) = t1 \<and>
            circuit_trips (snd (report_all (rs @ [(t1, t2, d)]) (b, s))) = circuit_trips s + 1)"
proof -
  have np: "\<not> half_open_probe b" using assms by (simp add: breaker_inv_def)
  show ?thesis
    using slow_run_count [OF np assms(1,4), of s] slow_run_trips [OF np assms(1,3,4), of s] assms
    by auto
qed

text \<open>A breaker that trips after two evaluations slower than 10 and cools down for 100.\<close>

definition demo_breaker :: CircuitBreaker where
  "demo_breaker = \<lparr>consecutive_slow = 0, cb_open = False, half_open_probe = False,
     opened_at_ms = 0, threshold_us = 10, trip_count = 2, cooldown_ms = 100\<rparr>"

theorem breaker_trips_exactly_witness:
  "cb_open (fst (report_all [(1, 2, 11), (3, 4, 12)] (demo_breaker, stats_new)))"
proof -
  have "list_all (reading_slow demo_breaker) ([(1, 2, 11)] @ [(3, 4, 12)])"
    by (simp add: reading_slow_def demo_breaker_def)
  from breaker_trips_exactly [OF _ _ _ this, of stats_new] show ?thesis
    by (simp add: demo_breaker_def breaker_inv_def)
qed

text \<open>Recovery: an open circuit refuses every caller, its state unchanged, until the cooldown
  has elapsed; then exactly one caller is let through as the probe and every other one is refused
  until a report; a slow report re-opens the circuit for a new cooldown from its clock reading, a
  fast one closes it.\<close>

theorem breaker_recovery:
  assumes "cb_open b" and "\<not> half_open_probe b"
  shows "(saturating_sub now (opened_at_ms b) < cooldown_ms b \<longrightarrow> is_open now b = (True, b)) \<and>
    (cooldown_ms b \<le> saturating_sub now (opened_at_ms b) \<longrightarrow>
       (let (answer, b') = is_open now b in
          \<not> answer \<and> half_open_probe b' \<and> is_open later b' = (True, b') \<and>
          (threshold_us b < d \<longrightarrow>
             (let b'' = fst (report t1 t2 d (b', s)) in
                cb_open b'' \<and> \<not> half_open_probe b'' \<and> opened_at_ms b'' = t2)) \<and>
          (d \<le> threshold_us b \<longrightarrow>
             (let b'' = fst (report t1 t2 d (b', s)) in
                \<not> cb_open b'' \<and> \<not> half_open_probe b'' \<and> consecutive_slow b'' = 0))))"
  using assms by (auto simp: is_open_def report_def Let_def)

theorem breaker_recovery_witness:
  "\<not> fst (is_open 150 (demo_breaker\<lparr>cb_open := True, opened_at_ms := 50\<rparr>))"
  using breaker_recovery [of "demo_breaker\<lparr>cb_open := True, opened_at_ms := 50\<rparr>" 150]
  by (cases "is_open 150 (demo_breaker\<lparr>cb_open := True, opened_at_ms := 50\<rparr>)")
    (simp add: demo_breaker_def saturating_sub_def Let_def)

text \<open>a probe's verdict can be taken by another caller: while the probe of an expired circuit
  runs, a degraded caller that reports a fast evaluation closes the circuit, and the probe's own
  slow report afterwards leaves it closed.\<close>

theorem breaker_closed_by_degraded_report:
  assumes "cb_open b" and "\<not> half_open_probe b"
    and "cooldown_ms b \<le> saturating_sub now (opened_at_ms b)" and "1 < trip_count b"
    and "fast \<le> threshold_us b" and "threshold_us b < slow"
  shows "let (probe_refused, b1) = is_open now b;
             (other_refused, b2) = is_open now b1;
             (b3, s3) = report t1 t2 fast (b2, s);
             (b4, s4) = report t3 t4 slow (b3, s3)
         in \<not> probe_refused \<and> other_refused \<and> \<not> cb_open b3 \<and> \<not> cb_open b4"
  using assms by (simp add: is_open_def report_def Let_def not_less [symmetric])

theorem breaker_closed_by_degraded_report_witness:
  "\<not> cb_open (fst (report 160 160 99 (report 155 155 3
     (snd (is_open 150 (snd (is_open 150 (demo_breaker\<lparr>cb_open := True, opened_at_ms := 50\<rparr>)))),
      stats_new))))"
  using breaker_closed_by_degraded_report
    [of "demo_breaker\<lparr>cb_open := True, opened_at_ms := 50\<rparr>" 150 3 99 155 155 stats_new 160 160]
  by (simp add: demo_breaker_def saturating_sub_def Let_def split_beta)

end
