(* ===== verification/Rt_Slab.thy ===== *)
theory Rt_Slab
  imports Rt_Prelude
begin

text \<open>
  The dispatch slab of the filter index (\<open>alloc_slot\<close>, \<open>free_slot\<close> in
  \<open>crates/realtime-engine/src/filter_index/mutate.rs\<close>): a vector of optional entries with a stack
  of free identifiers, behind an interface that behaves like a finite map.  A Rust panic is \<open>None\<close>.
\<close>

subsection \<open>The dispatch slab (mutate.rs)\<close>

text \<open>
  The interface the index relies on: allocation returns an identifier that was free, and reading
  after an allocation or a release behaves like a finite map.
\<close>

locale slab =
  fixes alloc :: "'v \<Rightarrow> 's \<Rightarrow> ('i \<times> 's) option"
    and free :: "'i \<Rightarrow> 's \<Rightarrow> 's"
    and get :: "'s \<Rightarrow> 'i \<Rightarrow> 'v option"
    and used :: "'s \<Rightarrow> nat"
    and wf :: "'s \<Rightarrow> bool"
    and capacity :: nat
    and empty :: 's
  assumes wf_empty: "wf empty" and get_empty: "get empty i = None" and used_empty: "used empty = 0"
    and alloc_total: "wf s \<Longrightarrow> used s < capacity \<Longrightarrow> \<exists>i s'. alloc v s = Some (i, s')"
    and alloc_fresh: "wf s \<Longrightarrow> used s < capacity \<Longrightarrow> alloc v s = Some (i, s') \<Longrightarrow> get s i = None"
    and alloc_get: "wf s \<Longrightarrow> used s < capacity \<Longrightarrow> alloc v s = Some (i, s') \<Longrightarrow>
                    get s' j = (if j = i then Some v else get s j)"
    and alloc_wf: "wf s \<Longrightarrow> used s < capacity \<Longrightarrow> alloc v s = Some (i, s') \<Longrightarrow> wf s'"
    and alloc_used: "wf s \<Longrightarrow> used s < capacity \<Longrightarrow> alloc v s = Some (i, s') \<Longrightarrow> used s' = Suc (used s)"
    and free_get: "wf s \<Longrightarrow> get s i = Some v \<Longrightarrow> get (free i s) j = (if j = i then None else get s j)"
    and free_wf: "wf s \<Longrightarrow> get s i = Some v \<Longrightarrow> wf (free i s)"
    and free_used: "wf s \<Longrightarrow> get s i = Some v \<Longrightarrow> Suc (used (free i s)) = used s"
begin

lemma alloc_free_get:
  assumes "wf s" and "used s < capacity" and "alloc v s = Some (i, s')"
  shows "get (free i s') = get s"
proof
  fix j
  have "get s' i = Some v" using alloc_get [OF assms] by simp
  from free_get [OF alloc_wf [OF assms] this, of j] alloc_get [OF assms, of j] alloc_fresh [OF assms]
  show "get (free i s') j = get s j" by simp
qed

lemma alloc_preserves_others:
  "wf s \<Longrightarrow> used s < capacity \<Longrightarrow> alloc v s = Some (i, s') \<Longrightarrow> get s j = Some w \<Longrightarrow> get s' j = Some w"
  using alloc_get alloc_fresh by fastforce

end

type_synonym 'v slab_state = "'v option list \<times> u32 list"

definition slab_alloc :: "'v \<Rightarrow> 'v slab_state \<Rightarrow> (u32 \<times> 'v slab_state) option" where
  "slab_alloc v = (\<lambda>(slots, free).
     if free \<noteq> [] then
       let sid = last free; free = butlast free in
       if unat sid < length slots then Some (sid, (slots[unat sid := Some v], free)) else None
     else
       let sid = (if length slots < 2 ^ 32 then of_nat (length slots) else - 1) in
       Some (sid, (slots @ [Some v], free)))"

definition slab_free :: "u32 \<Rightarrow> 'v slab_state \<Rightarrow> 'v slab_state" where
  "slab_free sid = (\<lambda>(slots, free).
     let slots = (if unat sid < length slots then slots[unat sid := None] else slots)
     in (slots, free @ [sid]))"

definition slab_get :: "'v slab_state \<Rightarrow> u32 \<Rightarrow> 'v option" where
  "slab_get s sid = (if unat sid < length (fst s) then fst s ! unat sid else None)"

text \<open>Free identifiers are distinct, in range and empty.\<close>

definition slab_used :: "'v slab_state \<Rightarrow> nat" where
  "slab_used s = length (fst s) - length (snd s)"

definition slab_wf :: "'v slab_state \<Rightarrow> bool" where
  "slab_wf s =
     (distinct (snd s) \<and> length (fst s) \<le> 2 ^ 32 \<and> length (snd s) \<le> length (fst s) \<and>
      (\<forall>sid\<in>set (snd s). unat sid < length (fst s) \<and> fst s ! unat sid = None))"

lemma slab_alloc_reuse:
  assumes "free \<noteq> []" and "unat (last free) < length slots"
  shows "slab_alloc v (slots, free) = Some (last free, (slots[unat (last free) := Some v], butlast free))"
  using assms by (simp add: slab_alloc_def Let_def)

lemma slab_alloc_push:
  "length slots < 2 ^ 32 \<Longrightarrow> slab_alloc v (slots, []) = Some (of_nat (length slots), (slots @ [Some v], []))"
  by (simp add: slab_alloc_def)

lemma unat_of_nat_u32: "n < 2 ^ 32 \<Longrightarrow> unat (of_nat n :: u32) = n"
  by (simp add: unsigned_of_nat take_bit_nat_eq_self)

lemma unat_u32_inj: "unat (a :: u32) = unat b \<longleftrightarrow> a = b"
  by (simp add: word_unat_eq_iff)

lemma slab_alloc_cases:
  assumes "slab_wf (slots, free)" and "slab_used (slots, free) < 2 ^ 32"
    and "slab_alloc v (slots, free) = Some (i, s')"
  obtains (reuse) "free \<noteq> []" "i = last free" "unat i < length slots" "slots ! unat i = None"
      "s' = (slots[unat i := Some v], butlast free)"
  | (push) "free = []" "length slots < 2 ^ 32" "unat i = length slots"
      "s' = (slots @ [Some v], [])"
proof (cases "free = []")
  case True
  then have "length slots < 2 ^ 32" using assms by (simp add: slab_used_def)
  with True assms(3) have "i = of_nat (length slots)" "s' = (slots @ [Some v], [])"
    by (simp_all add: slab_alloc_push)
  with True \<open>length slots < 2 ^ 32\<close> push show ?thesis by (simp add: unat_of_nat_u32)
next
  case False
  then have "last free \<in> set free" by simp
  with assms(1) have "unat (last free) < length slots" "slots ! unat (last free) = None"
    by (auto simp: slab_wf_def)
  moreover from this False assms(3)
  have "i = last free" "s' = (slots[unat i := Some v], butlast free)"
    by (auto simp: slab_alloc_reuse)
  ultimately show ?thesis using False reuse by simp
qed

lemma last_notin_butlast: "distinct xs \<Longrightarrow> xs \<noteq> [] \<Longrightarrow> last xs \<notin> set (butlast xs)"
  by (metis append_butlast_last_id distinct_butlast not_distinct_conv_prefix)

lemma in_butlast_neq_last: "distinct xs \<Longrightarrow> x \<in> set (butlast xs) \<Longrightarrow> x \<noteq> last xs"
  using last_notin_butlast by fastforce

lemma slab_alloc_law:
  assumes "slab_wf s" and "slab_used s < 2 ^ 32" and "slab_alloc v s = Some (i, s')"
  shows "slab_get s i = None \<and> slab_get s' j = (if j = i then Some v else slab_get s j)
    \<and> slab_wf s' \<and> slab_used s' = Suc (slab_used s)"
proof -
  obtain slots free where s: "s = (slots, free)" by (cases s)
  show ?thesis
    using assms [unfolded s]
  proof (cases rule: slab_alloc_cases)
    case reuse
    have len: "length free \<le> length slots" "0 < length free" "distinct free"
      and ids: "\<forall>sid\<in>set free. unat sid < length slots \<and> slots ! unat sid = None"
      using assms(1) reuse by (auto simp: s slab_wf_def)
    have wf: "slab_wf (slots[unat i := Some v], butlast free)"
      using assms(1) len ids reuse in_butlast_neq_last [of free]
      by (auto simp: s slab_wf_def slab_used_def distinct_butlast nth_list_update unat_u32_inj
          dest: in_set_butlastD)
    have "length slots - (length free - Suc 0) = Suc (length slots - length free)"
      using len by linarith
    with reuse len wf show ?thesis
      by (auto simp: s slab_get_def slab_used_def nth_list_update unat_u32_inj)
  next
    case push
    then have "unat j = length slots \<longleftrightarrow> j = i" by (metis unat_u32_inj)
    with push show ?thesis using assms(1)
      by (auto simp: s slab_get_def slab_used_def slab_wf_def nth_append unat_u32_inj less_Suc_eq)
  qed
qed

lemma slab_free_law:
  assumes "slab_wf s" and "slab_get s i = Some v"
  shows "slab_get (slab_free i s) j = (if j = i then None else slab_get s j)
    \<and> slab_wf (slab_free i s) \<and> Suc (slab_used (slab_free i s)) = slab_used s"
proof -
  obtain slots free where s: "s = (slots, free)" by (cases s)
  have i: "unat i < length slots" "slots ! unat i = Some v"
    using assms(2) by (auto simp: s slab_get_def split: if_splits)
  have notin: "i \<notin> set free" and wf: "distinct free" "length slots \<le> 2 ^ 32"
    "\<forall>sid\<in>set free. unat sid < length slots \<and> slots ! unat sid = None"
    using assms(1) i by (auto simp: s slab_wf_def)
  have "unat ` set free \<subseteq> {..<length slots} - {unat i}"
    using wf(3) notin by (auto simp: unat_u32_inj)
  then have "card (unat ` set free) \<le> length slots - 1"
    using i(1) by (metis card_Diff_singleton card_lessThan card_mono finite_Diff finite_lessThan
        lessThan_iff)
  moreover have "card (unat ` set free) = length free"
    using wf(1) by (simp add: card_image distinct_card inj_on_def unat_u32_inj)
  ultimately have "length free < length slots" using i(1) by linarith
  with i notin wf show ?thesis
    by (auto simp: s slab_free_def slab_get_def slab_wf_def slab_used_def nth_list_update
        unat_u32_inj)
qed

lemma slab_alloc_total:
  assumes wf: "slab_wf s" and room: "slab_used s < 2 ^ 32"
  shows "\<exists>i s'. slab_alloc v s = Some (i, s')"
proof (cases "snd s = []")
  case True
  then have "length (fst s) < 2 ^ 32" using room by (simp add: slab_used_def)
  with True show ?thesis by (cases s) (simp add: slab_alloc_push)
next
  case False
  then have "unat (last (snd s)) < length (fst s)"
    using wf last_in_set [OF False] by (auto simp: slab_wf_def)
  with False show ?thesis by (cases s) (simp add: slab_alloc_reuse)
qed

interpretation ds: slab slab_alloc slab_free slab_get slab_used slab_wf "2 ^ 32" "([], [])"
proof (unfold_locales, goal_cases)
  case 1 show ?case by (simp add: slab_wf_def)
next
  case 2 show ?case by (simp add: slab_get_def)
next
  case 3 show ?case by (simp add: slab_used_def)
next
  case (4 s v) then show ?case by (rule slab_alloc_total)
next
  case (5 s v i s') show ?case using slab_alloc_law [OF 5(1-3), of i] by simp
next
  case (6 s v i s' j) show ?case using slab_alloc_law [OF 6(1-3), of j] by simp
next
  case (7 s v i s') show ?case using slab_alloc_law [OF 7(1-3), of i] by simp
next
  case (8 s v i s') show ?case using slab_alloc_law [OF 8(1-3), of i] by simp
next
  case (9 s i v j) show ?case using slab_free_law [OF 9(1-2), of j] by simp
next
  case (10 s i v) show ?case using slab_free_law [OF 10(1-2), of i] by simp
next
  case (11 s i v) show ?case using slab_free_law [OF 11(1-2), of i] by simp
qed

end
