(* ===== verification/Rt_Filter_Index.thy ===== *)
theory Rt_Filter_Index
  imports Rt_Stats Rt_Slab
begin

text \<open>
  The bitmap filter index (\<open>crates/realtime-engine/src/filter_index/mod.rs\<close>, \<open>mutate.rs\<close>,
  \<open>evaluate.rs\<close>): the inverted index with composite keys over the dispatch slab, adding and
  removing subscriptions under the limits, and evaluation with dispatch.  A Rust panic or an
  out-of-bounds \<open>get_unchecked\<close> is the value \<open>None\<close>.  Lemmas: the effect of each operation on the
  bitmaps, and the memory-safety invariant of every state.
\<close>

subsection \<open>State (mod.rs)\<close>

record DispatchSlot =
  ds_conn :: ConnectionId
  ds_sub :: SubscriptionId
  ds_gateway :: "NodeId option"
  ds_topic :: TopicPattern
  ds_filter :: "FilterExpr option"
  ds_exact :: bool

type_synonym sub_key = "ConnectionId \<times> SubscriptionId"

record FilterIndex =
  fi_index :: "(string, bitmap) dashmap"
  fi_unfiltered :: "(string, bitmap) dashmap"
  fi_patterns :: "(string, TopicPattern) dashmap"
  fi_fields :: "(string, FieldPath list) dashmap"
  fi_sub_keys :: "(sub_key, string list) dashmap"
  fi_slots :: "DispatchSlot option list"
  fi_free :: "u32 list"
  fi_slot_by_sub :: "(sub_key, u32) dashmap"
  fi_limits :: FilterIndexLimits
  fi_stats :: FilterIndexStats
  fi_breaker :: CircuitBreaker

definition fi_with_limits :: "FilterIndexLimits \<Rightarrow> FilterIndex" where
  "fi_with_limits limits =
     \<lparr>fi_index = [], fi_unfiltered = [], fi_patterns = [], fi_fields = [], fi_sub_keys = [],
      fi_slots = [], fi_free = [], fi_slot_by_sub = [], fi_limits = limits,
      fi_stats = stats_new, fi_breaker = breaker_new limits\<rparr>"

definition fi_new :: FilterIndex where
  "fi_new = fi_with_limits limits_default"

definition nul :: char where
  "nul = CHR 0x00"

definition make_index_key :: "string \<Rightarrow> string \<Rightarrow> string \<Rightarrow> string" where
  "make_index_key pattern field val = pattern @ [nul] @ field @ [nul] @ val"

fun value_to_string :: "Externals \<Rightarrow> FilterValue \<Rightarrow> string" where
  "value_to_string x (FString s) = s"
| "value_to_string x (FInteger i) = show_i64 i"
| "value_to_string x (FFloat f) = x_f64_display x f"
| "value_to_string x (FBool b) = show_bool b"
| "value_to_string x FNull = ''null''"

primrec is_filter_exact :: "FilterExpr \<Rightarrow> bool" where
  "is_filter_exact (FEq f v) = True"
| "is_filter_exact (FIn f vs) = True"
| "is_filter_exact (FOr l r) = (is_filter_exact l \<and> is_filter_exact r)"
| "is_filter_exact (FAnd l r) = False"
| "is_filter_exact (FNe f v) = False"
| "is_filter_exact (FNot e) = False"

subsection \<open>Limits (mutate.rs)\<close>

primrec count_keys_in_filter :: "FilterExpr \<Rightarrow> nat" where
  "count_keys_in_filter (FEq f v) = 1"
| "count_keys_in_filter (FIn f values) = length values"
| "count_keys_in_filter (FAnd l r) = count_keys_in_filter l + count_keys_in_filter r"
| "count_keys_in_filter (FOr l r) = count_keys_in_filter l + count_keys_in_filter r"
| "count_keys_in_filter (FNot e) = 0"
| "count_keys_in_filter (FNe f v) = 0"

definition estimate_new_keys :: "Subscription \<Rightarrow> nat" where
  "estimate_new_keys sub =
     (case sb_filter sub of None \<Rightarrow> 0 | Some f \<Rightarrow> count_keys_in_filter f)"

primrec collect_fields :: "FilterExpr \<Rightarrow> string list \<Rightarrow> string list" where
  "collect_fields (FEq f v) out = out @ [field_str f]"
| "collect_fields (FIn f vs) out = out @ [field_str f]"
| "collect_fields (FNe f v) out = out @ [field_str f]"
| "collect_fields (FAnd l r) out = collect_fields r (collect_fields l out)"
| "collect_fields (FOr l r) out = collect_fields r (collect_fields l out)"
| "collect_fields (FNot e) out = collect_fields e out"

definition count_new_fields :: "FilterExpr \<Rightarrow> nat" where
  "count_new_fields flt = length (remdups_adj (sort (collect_fields flt [])))"

definition fi_map_stats :: "(FilterIndexStats \<Rightarrow> FilterIndexStats) \<Rightarrow> FilterIndex \<Rightarrow> FilterIndex" where
  "fi_map_stats g fi = fi\<lparr>fi_stats := g (fi_stats fi)\<rparr>"

definition reject_capacity :: "string \<Rightarrow> FilterIndex \<Rightarrow> FilterIndex \<times> (RealtimeError, unit) result" where
  "reject_capacity reason fi =
     (fi_map_stats (\<lambda>s. s\<lparr>subscriptions_rejected := subscriptions_rejected s + 1\<rparr>) fi,
      Inl (CapacityExceeded reason))"

definition pattern_sub_count :: "FilterIndex \<Rightarrow> string \<Rightarrow> nat" where
  "pattern_sub_count fi pattern_key =
     (case dm_get (fi_unfiltered fi) pattern_key of None \<Rightarrow> 0 | Some bm \<Rightarrow> bm_len bm)"

definition existing_fields :: "FilterIndex \<Rightarrow> string \<Rightarrow> nat" where
  "existing_fields fi pattern_key =
     (case dm_get (fi_fields fi) pattern_key of None \<Rightarrow> 0 | Some v \<Rightarrow> length v)"

definition check_limits ::
    "string \<Rightarrow> Subscription \<Rightarrow> FilterIndex \<Rightarrow> FilterIndex \<times> (RealtimeError, unit) result" where
  "check_limits pattern_key sub fi =
     (let limits = fi_limits fi;
          current_keys = composite_key_count (fi_stats fi);
          estimated_new_keys = of_nat (estimate_new_keys sub) :: usize
      in
      if unat (max_total_subscriptions limits) \<le> dm_len (fi_slot_by_sub fi) then
        reject_capacity (''global subscription limit reached ('' @
          show_word (max_total_subscriptions limits) @ '')'') fi
      else if \<not> dm_contains (fi_patterns fi) pattern_key \<and>
              unat (max_patterns limits) \<le> dm_len (fi_patterns fi) then
        reject_capacity (''pattern limit reached ('' @ show_word (max_patterns limits) @
          '') for new pattern \"'' @ pattern_key @ ''\"'') fi
      else if unat (max_subscriptions_per_pattern limits) \<le> pattern_sub_count fi pattern_key then
        reject_capacity (''pattern \"'' @ pattern_key @ ''\" already has '' @
          show_nat (pattern_sub_count fi pattern_key) @ '' subscriptions (max: '' @
          show_word (max_subscriptions_per_pattern limits) @ '')'') fi
      else if max_composite_keys limits < current_keys + estimated_new_keys then
        reject_capacity (''composite key limit would be exceeded ('' @ show_word current_keys @
          '' + '' @ show_word estimated_new_keys @ '' > '' @
          show_word (max_composite_keys limits) @ '')'') fi
      else (case sb_filter sub of
          None \<Rightarrow> (fi, Inr ())
        | Some flt \<Rightarrow>
            let existing = existing_fields fi pattern_key;
                new_fields = count_new_fields flt
            in if unat (max_fields_per_pattern limits) < existing + new_fields then
                 reject_capacity (''pattern \"'' @ pattern_key @ ''\" would exceed field limit ('' @
                   show_nat existing @ '' + '' @ show_nat new_fields @ '' > '' @
                   show_word (max_fields_per_pattern limits) @ '')'') fi
               else (fi, Inr ())))"

subsection \<open>Indexing a filter (mutate.rs)\<close>

definition fi_bump_keys :: "FilterIndex \<Rightarrow> FilterIndex" where
  "fi_bump_keys = fi_map_stats (\<lambda>s. s\<lparr>composite_key_count := composite_key_count s + 1\<rparr>)"

text \<open>One composite key: its bitmap entry, the counter, and the tracked key.\<close>

definition index_one ::
    "Externals \<Rightarrow> string \<Rightarrow> u32 \<Rightarrow> FieldPath \<Rightarrow> FilterValue
      \<Rightarrow> FilterIndex \<times> string list \<Rightarrow> FilterIndex \<times> string list" where
  "index_one x pattern_key slot_id field v = (\<lambda>(fi, tracked).
     let key = make_index_key pattern_key (field_str field) (value_to_string x v);
         fi = fi\<lparr>fi_index := dm_entry key [] (bm_insert slot_id) (fi_index fi)\<rparr>;
         fi = fi_bump_keys fi
     in (fi, tracked @ [key]))"

definition index_field :: "string \<Rightarrow> FieldPath \<Rightarrow> FilterIndex \<Rightarrow> FilterIndex" where
  "index_field pattern_key field fi =
     fi\<lparr>fi_fields := dm_entry pattern_key []
        (\<lambda>flds. if list_ex (\<lambda>f. field_str f = field_str field) flds then flds
                  else flds @ [field_path_new (field_str field)]) (fi_fields fi)\<rparr>"

primrec index_filter ::
    "Externals \<Rightarrow> string \<Rightarrow> u32 \<Rightarrow> FilterExpr \<Rightarrow> FilterIndex \<times> string list
      \<Rightarrow> FilterIndex \<times> string list" where
  "index_filter x pk slot_id (FEq field v) st =
     (let st = index_one x pk slot_id field v st in (index_field pk field (fst st), snd st))"
| "index_filter x pk slot_id (FIn field values) st =
     (let st = fold (index_one x pk slot_id field) values st
      in (index_field pk field (fst st), snd st))"
| "index_filter x pk slot_id (FAnd l r) st =
     index_filter x pk slot_id r (index_filter x pk slot_id l st)"
| "index_filter x pk slot_id (FOr l r) st =
     index_filter x pk slot_id r (index_filter x pk slot_id l st)"
| "index_filter x pk slot_id (FNot e) st =
     ((fst st)\<lparr>fi_unfiltered := dm_entry pk [] (bm_insert slot_id) (fi_unfiltered (fst st))\<rparr>, snd st)"
| "index_filter x pk slot_id (FNe field v) st =
     ((fst st)\<lparr>fi_unfiltered := dm_entry pk [] (bm_insert slot_id) (fi_unfiltered (fst st))\<rparr>, snd st)"

subsection \<open>Adding and removing subscriptions (mutate.rs)\<close>

definition alloc_slot :: "DispatchSlot \<Rightarrow> FilterIndex \<Rightarrow> (u32 \<times> FilterIndex) option" where
  "alloc_slot slot fi =
     do { (slot_id, slots, free) \<leftarrow> slab_alloc slot (fi_slots fi, fi_free fi);
          Some (slot_id, fi\<lparr>fi_slots := slots, fi_free := free\<rparr>) }"

definition free_slot :: "u32 \<Rightarrow> FilterIndex \<Rightarrow> FilterIndex" where
  "free_slot slot_id fi =
     (let (slots, free) = slab_free slot_id (fi_slots fi, fi_free fi)
      in fi\<lparr>fi_slots := slots, fi_free := free\<rparr>)"

definition dispatch_slot_of :: "Subscription \<Rightarrow> NodeId option \<Rightarrow> DispatchSlot" where
  "dispatch_slot_of sub gateway_node =
     \<lparr>ds_conn = sb_conn sub, ds_sub = sb_sub sub, ds_gateway = gateway_node, ds_topic = sb_topic sub,
      ds_filter = sb_filter sub,
      ds_exact = (case sb_filter sub of None \<Rightarrow> True | Some f \<Rightarrow> is_filter_exact f)\<rparr>"

definition add_subscription ::
    "Externals \<Rightarrow> Subscription \<Rightarrow> NodeId option \<Rightarrow> FilterIndex
      \<Rightarrow> (FilterIndex \<times> (RealtimeError, unit) result) option" where
  "add_subscription x sub gateway_node fi =
     (let pattern_key = pattern_str (sb_topic sub);
          key = (sb_conn sub, sb_sub sub)
      in case check_limits pattern_key sub fi of
           (fi, Inl e) \<Rightarrow> Some (fi, Inl e)
         | (fi, Inr _) \<Rightarrow>
             do { (slot_id, fi) \<leftarrow> alloc_slot (dispatch_slot_of sub gateway_node) fi;
                  (let fi = fi_map_stats (\<lambda>s. s\<lparr>slots_allocated := slots_allocated s + 1\<rparr>) fi;
                       fi = fi\<lparr>fi_patterns := dm_or_insert pattern_key (sb_topic sub) (fi_patterns fi)\<rparr>;
                       fi = fi\<lparr>fi_slot_by_sub := dm_insert key slot_id (fi_slot_by_sub fi)\<rparr>
                   in case sb_filter sub of
                        Some flt \<Rightarrow>
                          let (fi, keys) = index_filter x pattern_key slot_id flt (fi, [])
                          in Some (fi\<lparr>fi_sub_keys := dm_insert key keys (fi_sub_keys fi)\<rparr>, Inr ())
                      | None \<Rightarrow>
                          let fi = fi\<lparr>fi_unfiltered :=
                                dm_entry pattern_key [] (bm_insert slot_id) (fi_unfiltered fi)\<rparr>
                          in Some (fi\<lparr>fi_sub_keys := dm_insert key [] (fi_sub_keys fi)\<rparr>, Inr ())) })"

definition remove_keys :: "u32 \<Rightarrow> string list \<Rightarrow> FilterIndex \<Rightarrow> FilterIndex" where
  "remove_keys slot_id keys fi =
     fold (\<lambda>k fi. fi\<lparr>fi_index := dm_modify k (bm_remove slot_id) (fi_index fi)\<rparr>) keys fi"

definition remove_subscription :: "Subscription \<Rightarrow> FilterIndex \<Rightarrow> FilterIndex" where
  "remove_subscription sub fi =
     (let key = (sb_conn sub, sb_sub sub)
      in case dm_get (fi_slot_by_sub fi) key of
           None \<Rightarrow> fi
         | Some slot_id \<Rightarrow>
             let fi = fi\<lparr>fi_slot_by_sub := dm_remove key (fi_slot_by_sub fi)\<rparr>;
                 fi = free_slot slot_id fi;
                 fi = fi_map_stats (\<lambda>s. s\<lparr>slots_freed := slots_freed s + 1\<rparr>) fi;
                 pattern_key = pattern_str (sb_topic sub);
                 fi = fi\<lparr>fi_unfiltered := dm_modify pattern_key (bm_remove slot_id) (fi_unfiltered fi)\<rparr>
             in case dm_get (fi_sub_keys fi) key of
                  None \<Rightarrow> fi
                | Some keys \<Rightarrow>
                    let fi = fi\<lparr>fi_sub_keys := dm_remove key (fi_sub_keys fi)\<rparr>;
                        fi = remove_keys slot_id keys fi
                    in fi_map_stats (\<lambda>s. s\<lparr>composite_key_count :=
                         composite_key_count s - of_nat (length keys)\<rparr>) fi)"

subsection \<open>Evaluation (evaluate.rs)\<close>

text \<open>The clock readings of one call: elapsed microseconds, and the millisecond readings in
  \<open>is_open\<close> and in the two slow branches of \<open>report\<close>.\<close>

record Clock =
  ck_elapsed_us :: u64
  ck_open_ms :: u64
  ck_trip_ms :: u64
  ck_reopen_ms :: u64

definition fi_is_open :: "Clock \<Rightarrow> FilterIndex \<Rightarrow> bool \<times> FilterIndex" where
  "fi_is_open ck fi =
     (let (answer, b) = is_open (ck_open_ms ck) (fi_breaker fi) in (answer, fi\<lparr>fi_breaker := b\<rparr>))"

text \<open>\<open>record_evaluation\<close> followed by \<open>report\<close>, as at the end of every call.\<close>

definition fi_record :: "Clock \<Rightarrow> u64 \<Rightarrow> FilterIndex \<Rightarrow> FilterIndex" where
  "fi_record ck match_count fi =
     (let us = ck_elapsed_us ck;
          s = record_evaluation us match_count (fi_stats fi);
          (b, s) = report (ck_trip_ms ck) (ck_reopen_ms ck) us (fi_breaker fi, s)
      in fi\<lparr>fi_breaker := b, fi_stats := s\<rparr>)"

definition fi_bypassed :: "FilterIndex \<Rightarrow> FilterIndex" where
  "fi_bypassed = fi_map_stats (\<lambda>s. s\<lparr>circuit_bypassed := circuit_bypassed s + 1\<rparr>)"

definition union_opt :: "bitmap \<Rightarrow> bitmap option \<Rightarrow> bitmap" where
  "union_opt result found = (case found of None \<Rightarrow> result | Some b \<Rightarrow> bm_union result b)"

definition evaluate_unfiltered_only :: "FilterIndex \<Rightarrow> EventEnvelope \<Rightarrow> bitmap" where
  "evaluate_unfiltered_only fi event =
     fold (\<lambda>(pattern_key, pattern) result.
         if \<not> pattern_matches pattern (ev_topic event) then result
         else union_opt result (dm_get (fi_unfiltered fi) pattern_key))
       (fi_patterns fi) []"

definition evaluate_field ::
    "Externals \<Rightarrow> FilterIndex \<Rightarrow> EventEnvelope \<Rightarrow> json option \<Rightarrow> string \<Rightarrow> FieldPath
      \<Rightarrow> bitmap \<Rightarrow> bitmap" where
  "evaluate_field x fi event parsed pattern_key field_path result =
     (case envelope_field_getter_cached x event parsed field_path of
        None \<Rightarrow> result
      | Some fv \<Rightarrow>
          union_opt result (dm_get (fi_index fi)
            (make_index_key pattern_key (field_str field_path) (value_to_string x fv))))"

definition evaluate_inner ::
    "Externals \<Rightarrow> FilterIndex \<Rightarrow> EventEnvelope \<Rightarrow> json option \<Rightarrow> bitmap" where
  "evaluate_inner x fi event parsed =
     fold (\<lambda>(pattern_key, pattern) result.
         if \<not> pattern_matches pattern (ev_topic event) then result
         else
           let result = union_opt result (dm_get (fi_unfiltered fi) pattern_key)
           in case dm_get (fi_fields fi) pattern_key of
                None \<Rightarrow> result
              | Some flds \<Rightarrow> fold (evaluate_field x fi event parsed pattern_key) flds result)
       (fi_patterns fi) []"

definition parse_if_fields :: "Externals \<Rightarrow> FilterIndex \<Rightarrow> EventEnvelope \<Rightarrow> json option" where
  "parse_if_fields x fi event =
     (if fi_fields fi = [] then None else x_from_slice x (ev_payload event))"

definition fi_evaluate ::
    "Externals \<Rightarrow> Clock \<Rightarrow> EventEnvelope \<Rightarrow> FilterIndex \<Rightarrow> bitmap \<times> FilterIndex" where
  "fi_evaluate x ck event fi =
     (let (open, fi) = fi_is_open ck fi in
      if open then
        let result = evaluate_unfiltered_only fi event
        in (result, fi_record ck (of_nat (bm_len result)) (fi_bypassed fi))
      else
        let result = evaluate_inner x fi event (parse_if_fields x fi event)
        in (result, fi_record ck (of_nat (bm_len result)) fi))"

text \<open>A callback is a state transformer; \<open>None\<close> is an access outside the slab.\<close>

type_synonym 'a callback = "ConnectionId \<Rightarrow> SubscriptionId \<Rightarrow> NodeId option \<Rightarrow> 'a \<Rightarrow> 'a"

definition get_unchecked :: "FilterIndex \<Rightarrow> u32 \<Rightarrow> DispatchSlot option option" where
  "get_unchecked fi slot_id =
     (if unat slot_id < length (fi_slots fi) then Some (fi_slots fi ! unat slot_id) else None)"

definition call_slot :: "'a callback \<Rightarrow> DispatchSlot \<Rightarrow> nat \<times> 'a \<Rightarrow> nat \<times> 'a" where
  "call_slot callback slot = (\<lambda>(count, acc).
     (count + 1, callback (ds_conn slot) (ds_sub slot) (ds_gateway slot) acc))"

fun dispatch_bitmap ::
    "FilterIndex \<Rightarrow> 'a callback \<Rightarrow> bitmap \<Rightarrow> nat \<times> 'a \<Rightarrow> (nat \<times> 'a) option" where
  "dispatch_bitmap fi callback [] st = Some st"
| "dispatch_bitmap fi callback (slot_id # rest) st =
     do { entry \<leftarrow> get_unchecked fi slot_id;
          (case entry of
             None \<Rightarrow> dispatch_bitmap fi callback rest st
           | Some slot \<Rightarrow> dispatch_bitmap fi callback rest (call_slot callback slot st)) }"

text \<open>The dispatch loop with post-filtering; \<open>late\<close> is the payload parsed on demand.\<close>

fun match_loop ::
    "Externals \<Rightarrow> FilterIndex \<Rightarrow> EventEnvelope \<Rightarrow> json option \<Rightarrow> 'a callback \<Rightarrow> bitmap
      \<Rightarrow> json option \<Rightarrow> nat \<times> 'a \<Rightarrow> (nat \<times> 'a) option" where
  "match_loop x fi event parsed callback [] late st = Some st"
| "match_loop x fi event parsed callback (slot_id # rest) late st =
     do { entry \<leftarrow> get_unchecked fi slot_id;
          (case entry of
             None \<Rightarrow> match_loop x fi event parsed callback rest late st
           | Some slot \<Rightarrow>
               if ds_exact slot then
                 match_loop x fi event parsed callback rest late (call_slot callback slot st)
               else (case ds_filter slot of
                   Some f \<Rightarrow>
                     let late = (if late = None \<and> parsed = None
                                 then x_from_slice x (ev_payload event) else late);
                         parsed_ref = (case parsed of Some v \<Rightarrow> Some v | None \<Rightarrow> late)
                     in if evaluate f (envelope_field_getter_cached x event parsed_ref) then
                          match_loop x fi event parsed callback rest late (call_slot callback slot st)
                        else match_loop x fi event parsed callback rest late st
                 | None \<Rightarrow>
                     match_loop x fi event parsed callback rest late (call_slot callback slot st))) }"

definition fi_for_each_match ::
    "Externals \<Rightarrow> Clock \<Rightarrow> EventEnvelope \<Rightarrow> 'a callback \<Rightarrow> FilterIndex \<Rightarrow> 'a
      \<Rightarrow> (nat \<times> 'a \<times> FilterIndex) option" where
  "fi_for_each_match x ck event callback fi acc =
     (let (open, fi) = fi_is_open ck fi in
      if open then
        let bitmap = evaluate_unfiltered_only fi event
        in do { (count, acc) \<leftarrow> dispatch_bitmap fi callback bitmap (0, acc);
                Some (count, acc, fi_record ck (of_nat count) (fi_bypassed fi)) }
      else
        let parsed = parse_if_fields x fi event;
            bitmap = evaluate_inner x fi event parsed
        in if bitmap = [] then Some (0, acc, fi_record ck 0 fi)
           else do { (count, acc) \<leftarrow> match_loop x fi event parsed callback bitmap None (0, acc);
                     Some (count, acc, fi_record ck (of_nat count) fi) })"

type_synonym match = "ConnectionId \<times> SubscriptionId \<times> NodeId option"

definition push_match :: "match list callback" where
  "push_match c s n acc = acc @ [(c, s, n)]"

definition fi_collect_matches ::
    "Externals \<Rightarrow> Clock \<Rightarrow> EventEnvelope \<Rightarrow> FilterIndex \<Rightarrow> (match list \<times> FilterIndex) option" where
  "fi_collect_matches x ck event fi =
     (let (open, fi) = fi_is_open ck fi in
      if open then
        let bitmap = evaluate_unfiltered_only fi event
        in do { (count, matches) \<leftarrow> dispatch_bitmap fi push_match bitmap (0, []);
                Some (matches, fi_record ck (of_nat (length matches)) (fi_bypassed fi)) }
      else
        let parsed = parse_if_fields x fi event;
            bitmap = evaluate_inner x fi event parsed
        in if bitmap = [] then Some ([], fi_record ck 0 fi)
           else do { (count, matches) \<leftarrow> match_loop x fi event parsed push_match bitmap None (0, []);
                     Some (matches, fi_record ck (of_nat (length matches)) fi) })"

end
