(* ===== verification/Rt_Index_Correct.thy ===== *)
theory Rt_Index_Correct
  imports Rt_Filter_Index
begin

text \<open>
  Correctness of the filter index (\<open>crates/realtime-engine/src/filter_index\<close>): the effect of
  indexing on the bitmaps, memory safety of every reachable index, the representation invariant of
  indexes whose subscription identifiers are fresh, and the equivalence of bitmap evaluation with
  direct evaluation of every live subscription.
\<close>

subsection \<open>What indexing a filter adds\<close>

primrec filter_keys :: "Externals \<Rightarrow> string \<Rightarrow> FilterExpr \<Rightarrow> string list" where
  "filter_keys x pk (FEq f v) = [make_index_key pk (field_str f) (value_to_string x v)]"
| "filter_keys x pk (FIn f vs) =
     map (\<lambda>v. make_index_key pk (field_str f) (value_to_string x v)) vs"
| "filter_keys x pk (FAnd l r) = filter_keys x pk l @ filter_keys x pk r"
| "filter_keys x pk (FOr l r) = filter_keys x pk l @ filter_keys x pk r"
| "filter_keys x pk (FNot e) = []"
| "filter_keys x pk (FNe f v) = []"

text \<open>A filter with a \<open>Ne\<close> or \<open>Not\<close> leaf under \<open>And\<close>/\<open>Or\<close> also lands in the unfiltered bitmap.\<close>

primrec has_residual :: "FilterExpr \<Rightarrow> bool" where
  "has_residual (FEq f v) = False"
| "has_residual (FIn f vs) = False"
| "has_residual (FAnd l r) = (has_residual l \<or> has_residual r)"
| "has_residual (FOr l r) = (has_residual l \<or> has_residual r)"
| "has_residual (FNot e) = True"
| "has_residual (FNe f v) = True"

primrec indexed_fields :: "FilterExpr \<Rightarrow> FieldPath set" where
  "indexed_fields (FEq f v) = {f}"
| "indexed_fields (FIn f vs) = {f}"
| "indexed_fields (FAnd l r) = indexed_fields l \<union> indexed_fields r"
| "indexed_fields (FOr l r) = indexed_fields l \<union> indexed_fields r"
| "indexed_fields (FNot e) = {}"
| "indexed_fields (FNe f v) = {}"

lemma count_keys_length: "count_keys_in_filter f = length (filter_keys x pk f)"
  by (induction f) auto

lemma exact_not_residual: "is_filter_exact f \<Longrightarrow> \<not> has_residual f"
  by (induction f) auto

definition fields_at :: "FilterIndex \<Rightarrow> string \<Rightarrow> FieldPath set" where
  "fields_at fi pk = (case dm_get (fi_fields fi) pk of None \<Rightarrow> {} | Some fs \<Rightarrow> set fs)"

lemma fi_map_stats_sel [simp]:
  "fi_index (fi_map_stats g fi) = fi_index fi" "fi_unfiltered (fi_map_stats g fi) = fi_unfiltered fi"
  "fi_patterns (fi_map_stats g fi) = fi_patterns fi" "fi_fields (fi_map_stats g fi) = fi_fields fi"
  "fi_sub_keys (fi_map_stats g fi) = fi_sub_keys fi" "fi_slots (fi_map_stats g fi) = fi_slots fi"
  "fi_free (fi_map_stats g fi) = fi_free fi"
  "fi_slot_by_sub (fi_map_stats g fi) = fi_slot_by_sub fi"
  "fi_limits (fi_map_stats g fi) = fi_limits fi" "fi_breaker (fi_map_stats g fi) = fi_breaker fi"
  "fi_stats (fi_map_stats g fi) = g (fi_stats fi)"
  by (simp_all add: fi_map_stats_def)

lemma index_one_effect:
  "index_one x pk i f v st =
     (fi_bump_keys ((fst st)\<lparr>fi_index := dm_entry (make_index_key pk (field_str f) (value_to_string x v))
        [] (bm_insert i) (fi_index (fst st))\<rparr>),
      snd st @ [make_index_key pk (field_str f) (value_to_string x v)])"
  by (cases st) (simp add: index_one_def Let_def)

lemma index_field_set:
  "fields_at (index_field pk f fi) pk' =
     (if pk' = pk then insert f (fields_at fi pk) else fields_at fi pk')"
  by (cases f)
    (auto simp: fields_at_def index_field_def field_path_new_def list_ex_iff FieldPath.expand
      split: option.splits)

lemma index_field_sel [simp]:
  "fi_index (index_field pk f fi) = fi_index fi" "fi_unfiltered (index_field pk f fi) = fi_unfiltered fi"
  "fi_patterns (index_field pk f fi) = fi_patterns fi" "fi_sub_keys (index_field pk f fi) = fi_sub_keys fi"
  "fi_slots (index_field pk f fi) = fi_slots fi" "fi_free (index_field pk f fi) = fi_free fi"
  "fi_slot_by_sub (index_field pk f fi) = fi_slot_by_sub fi"
  "fi_limits (index_field pk f fi) = fi_limits fi" "fi_breaker (index_field pk f fi) = fi_breaker fi"
  "fi_stats (index_field pk f fi) = fi_stats fi"
  by (simp_all add: index_field_def)

lemma index_one_sel [simp]:
  "fi_unfiltered (fst (index_one x pk i f v st)) = fi_unfiltered (fst st)"
  "fi_patterns (fst (index_one x pk i f v st)) = fi_patterns (fst st)"
  "fi_fields (fst (index_one x pk i f v st)) = fi_fields (fst st)"
  "fi_sub_keys (fst (index_one x pk i f v st)) = fi_sub_keys (fst st)"
  "fi_slots (fst (index_one x pk i f v st)) = fi_slots (fst st)"
  "fi_free (fst (index_one x pk i f v st)) = fi_free (fst st)"
  "fi_slot_by_sub (fst (index_one x pk i f v st)) = fi_slot_by_sub (fst st)"
  "fi_limits (fst (index_one x pk i f v st)) = fi_limits (fst st)"
  "fi_breaker (fst (index_one x pk i f v st)) = fi_breaker (fst st)"
  by (simp_all add: index_one_effect fi_bump_keys_def)

lemma fold_index_one_sel [simp]:
  "fi_unfiltered (fst (fold (index_one x pk i f) vs st)) = fi_unfiltered (fst st)"
  "fi_patterns (fst (fold (index_one x pk i f) vs st)) = fi_patterns (fst st)"
  "fi_fields (fst (fold (index_one x pk i f) vs st)) = fi_fields (fst st)"
  "fi_sub_keys (fst (fold (index_one x pk i f) vs st)) = fi_sub_keys (fst st)"
  "fi_slots (fst (fold (index_one x pk i f) vs st)) = fi_slots (fst st)"
  "fi_free (fst (fold (index_one x pk i f) vs st)) = fi_free (fst st)"
  "fi_slot_by_sub (fst (fold (index_one x pk i f) vs st)) = fi_slot_by_sub (fst st)"
  "fi_limits (fst (fold (index_one x pk i f) vs st)) = fi_limits (fst st)"
  "fi_breaker (fst (fold (index_one x pk i f) vs st)) = fi_breaker (fst st)"
  by (induction vs arbitrary: st) simp_all

lemma index_filter_sel [simp]:
  "fi_patterns (fst (index_filter x pk i f st)) = fi_patterns (fst st)"
  "fi_sub_keys (fst (index_filter x pk i f st)) = fi_sub_keys (fst st)"
  "fi_slots (fst (index_filter x pk i f st)) = fi_slots (fst st)"
  "fi_free (fst (index_filter x pk i f st)) = fi_free (fst st)"
  "fi_slot_by_sub (fst (index_filter x pk i f st)) = fi_slot_by_sub (fst st)"
  "fi_limits (fst (index_filter x pk i f st)) = fi_limits (fst st)"
  "fi_breaker (fst (index_filter x pk i f st)) = fi_breaker (fst st)"
  by (induction f arbitrary: st) (simp_all add: Let_def)

lemma fold_index_one_keys:
  "snd (fold (index_one x pk i f) vs st) =
     snd st @ map (\<lambda>v. make_index_key pk (field_str f) (value_to_string x v)) vs"
  by (induction vs arbitrary: st) (simp_all add: index_one_effect)

lemma fold_index_one_index:
  "bm_at (fi_index (fst (fold (index_one x pk i f) vs st))) k =
     bm_at (fi_index (fst st)) k \<union>
     (if k \<in> (\<lambda>v. make_index_key pk (field_str f) (value_to_string x v)) ` set vs then {i} else {})"
  by (induction vs arbitrary: st) (auto simp: index_one_effect fi_bump_keys_def)

lemma index_filter_keys: "snd (index_filter x pk i f st) = snd st @ filter_keys x pk f"
  by (induction f arbitrary: st) (simp_all add: Let_def index_one_effect fold_index_one_keys)

lemma index_filter_index:
  "bm_at (fi_index (fst (index_filter x pk i f st))) k =
     bm_at (fi_index (fst st)) k \<union> (if k \<in> set (filter_keys x pk f) then {i} else {})"
  by (induction f arbitrary: st)
    (auto simp: Let_def index_one_effect fi_bump_keys_def fold_index_one_index)

lemma index_filter_unfiltered:
  "bm_at (fi_unfiltered (fst (index_filter x pk i f st))) k =
     bm_at (fi_unfiltered (fst st)) k \<union> (if k = pk \<and> has_residual f then {i} else {})"
  by (induction f arbitrary: st) (auto simp: Let_def)

lemma fields_at_fold [simp]:
  "fields_at (fst (fold (index_one x pk i f) vs st)) k = fields_at (fst st) k"
  "fields_at (fst (index_one x pk i f v st)) k = fields_at (fst st) k"
  "fields_at (fi\<lparr>fi_unfiltered := u\<rparr>) k = fields_at fi k"
  "fields_at (fi\<lparr>fi_sub_keys := sk\<rparr>) k = fields_at fi k"
  "fields_at (fi\<lparr>fi_slot_by_sub := ss\<rparr>) k = fields_at fi k"
  "fields_at (fi\<lparr>fi_patterns := ps\<rparr>) k = fields_at fi k"
  "fields_at (fi_map_stats g fi) k = fields_at fi k"
  by (simp_all add: fields_at_def)

lemma index_filter_fields:
  "fields_at (fst (index_filter x pk i f st)) k =
     fields_at (fst st) k \<union> (if k = pk then indexed_fields f else {})"
  by (induction f arbitrary: st) (auto simp: Let_def index_field_set)

lemma fold_index_one_count:
  "fi_stats (fst (fold (index_one x pk i f) vs st)) =
     (fi_stats (fst st))\<lparr>composite_key_count :=
        composite_key_count (fi_stats (fst st)) + of_nat (length vs)\<rparr>"
  by (induction vs arbitrary: st) (simp_all add: index_one_effect fi_bump_keys_def add.assoc)

lemma index_filter_count:
  "fi_stats (fst (index_filter x pk i f st)) =
     (fi_stats (fst st))\<lparr>composite_key_count :=
        composite_key_count (fi_stats (fst st)) + of_nat (count_keys_in_filter f)\<rparr>"
  by (induction f arbitrary: st)
    (simp_all add: Let_def index_one_effect fi_bump_keys_def fold_index_one_count add.assoc)

subsection \<open>Memory safety\<close>

text \<open>Every stored identifier is an index into the slab: \<open>slots[id]\<close> in \<open>alloc_slot\<close> and
  \<open>get_unchecked\<close> in the dispatch loops are in bounds.\<close>

definition ids_below :: "nat \<Rightarrow> (string, bitmap) dashmap \<Rightarrow> bool" where
  "ids_below n m = (\<forall>k. \<forall>i\<in>bm_at m k. unat i < n)"

definition fi_safe :: "FilterIndex \<Rightarrow> bool" where
  "fi_safe fi =
     (ids_below (length (fi_slots fi)) (fi_index fi) \<and>
      ids_below (length (fi_slots fi)) (fi_unfiltered fi) \<and>
      (\<forall>i\<in>set (fi_free fi). unat i < length (fi_slots fi)) \<and>
      (\<forall>k i. dm_get (fi_slot_by_sub fi) k = Some i \<longrightarrow> unat i < length (fi_slots fi)))"

lemma ids_below_mono: "ids_below n m \<Longrightarrow> n \<le> n' \<Longrightarrow> ids_below n' m"
  by (force simp: ids_below_def)

lemma slab_alloc_bounds:
  assumes "\<forall>i\<in>set free. unat i < length slots"
  obtains i slots' free' where "slab_alloc v (slots, free) = Some (i, (slots', free'))"
    and "unat i < length slots'" and "length slots \<le> length slots'"
    and "set free' \<subseteq> set free"
proof (cases "free = []")
  case True
  have "unat (- 1 :: u32) < length (slots @ [Some v])" if "\<not> length slots < 2 ^ 32"
    using that unat_word_below [of "- 1"] by simp
  with True that show ?thesis
    by (auto simp: slab_alloc_def Let_def unat_of_nat_u32 split: if_splits)
next
  case False
  then have "unat (last free) < length slots" using assms by simp
  with False that show ?thesis
    by (auto simp: slab_alloc_reuse dest: in_set_butlastD)
qed

lemma reject_capacity_sel [simp]:
  "fi_index (fst (reject_capacity r fi)) = fi_index fi"
  "fi_unfiltered (fst (reject_capacity r fi)) = fi_unfiltered fi"
  "fi_patterns (fst (reject_capacity r fi)) = fi_patterns fi"
  "fi_fields (fst (reject_capacity r fi)) = fi_fields fi"
  "fi_sub_keys (fst (reject_capacity r fi)) = fi_sub_keys fi"
  "fi_slots (fst (reject_capacity r fi)) = fi_slots fi"
  "fi_free (fst (reject_capacity r fi)) = fi_free fi"
  "fi_slot_by_sub (fst (reject_capacity r fi)) = fi_slot_by_sub fi"
  "fi_limits (fst (reject_capacity r fi)) = fi_limits fi"
  "fi_breaker (fst (reject_capacity r fi)) = fi_breaker fi"
  "snd (reject_capacity r fi) = Inl (CapacityExceeded r)"
  by (simp_all add: reject_capacity_def)

definition limit_outcome :: "FilterIndex \<Rightarrow> FilterIndex \<times> (RealtimeError, unit) result \<Rightarrow> bool" where
  "limit_outcome fi r = (r = (fi, Inr ()) \<or> (\<exists>reason. r = reject_capacity reason fi))"

lemma limit_outcome_intros:
  "limit_outcome fi (fi, Inr ())" "limit_outcome fi (reject_capacity reason fi)"
  "limit_outcome fi a \<Longrightarrow> limit_outcome fi b \<Longrightarrow> limit_outcome fi (if c then a else b)"
  by (auto simp: limit_outcome_def)

lemma check_limits_outcome: "limit_outcome fi (check_limits pk sub fi)"
  unfolding check_limits_def Let_def
  by (cases "sb_filter sub"; simp only: option.case; intro limit_outcome_intros)

lemma check_limits_cases:
  obtains (ok) "check_limits pk sub fi = (fi, Inr ())"
  | (rejected) r where "check_limits pk sub fi = reject_capacity r fi"
  using check_limits_outcome [of fi pk sub] by (auto simp: limit_outcome_def)

text \<open>The state an accepted subscription leads to, once its slot is allocated.\<close>

definition add_accepted ::
    "Externals \<Rightarrow> Subscription \<Rightarrow> u32 \<Rightarrow> FilterIndex \<Rightarrow> FilterIndex" where
  "add_accepted x sub slot_id fi =
     (let pattern_key = pattern_str (sb_topic sub);
          key = (sb_conn sub, sb_sub sub);
          fi = fi_map_stats (\<lambda>s. s\<lparr>slots_allocated := slots_allocated s + 1\<rparr>) fi;
          fi = fi\<lparr>fi_patterns := dm_or_insert pattern_key (sb_topic sub) (fi_patterns fi)\<rparr>;
          fi = fi\<lparr>fi_slot_by_sub := dm_insert key slot_id (fi_slot_by_sub fi)\<rparr>
      in case sb_filter sub of
           Some f \<Rightarrow>
             (let st = index_filter x pattern_key slot_id f (fi, [])
              in (fst st)\<lparr>fi_sub_keys := dm_insert key (snd st) (fi_sub_keys (fst st))\<rparr>)
         | None \<Rightarrow>
             (let fi = fi\<lparr>fi_unfiltered :=
                    dm_entry pattern_key [] (bm_insert slot_id) (fi_unfiltered fi)\<rparr>
              in fi\<lparr>fi_sub_keys := dm_insert key [] (fi_sub_keys fi)\<rparr>))"

lemma add_subscription_eq:
  "add_subscription x sub node fi =
     (case check_limits (pattern_str (sb_topic sub)) sub fi of
        (fi, Inl e) \<Rightarrow> Some (fi, Inl e)
      | (fi, Inr _) \<Rightarrow>
          map_option (\<lambda>(slot_id, fi). (add_accepted x sub slot_id fi, Inr ()))
            (alloc_slot (dispatch_slot_of sub node) fi))"
  by (cases "sb_filter sub"; cases "alloc_slot (dispatch_slot_of sub node) fi")
    (auto simp: add_subscription_def add_accepted_def Let_def split_beta
      split: prod.splits sum.splits Option.bind_splits)

definition sub_index_keys :: "Externals \<Rightarrow> TopicPattern \<Rightarrow> FilterExpr option \<Rightarrow> string list" where
  "sub_index_keys x topic flt =
     (case flt of None \<Rightarrow> [] | Some f \<Rightarrow> filter_keys x (pattern_str topic) f)"

definition sub_unfiltered :: "FilterExpr option \<Rightarrow> bool" where
  "sub_unfiltered flt = (case flt of None \<Rightarrow> True | Some f \<Rightarrow> has_residual f)"

definition sub_fields :: "FilterExpr option \<Rightarrow> FieldPath set" where
  "sub_fields flt = (case flt of None \<Rightarrow> {} | Some f \<Rightarrow> indexed_fields f)"

lemma add_accepted_sel [simp]:
  "fi_slots (add_accepted x sub i fi) = fi_slots fi"
  "fi_free (add_accepted x sub i fi) = fi_free fi"
  "fi_limits (add_accepted x sub i fi) = fi_limits fi"
  "fi_breaker (add_accepted x sub i fi) = fi_breaker fi"
  "fi_patterns (add_accepted x sub i fi) =
     dm_or_insert (pattern_str (sb_topic sub)) (sb_topic sub) (fi_patterns fi)"
  "fi_slot_by_sub (add_accepted x sub i fi) = dm_insert (sb_conn sub, sb_sub sub) i (fi_slot_by_sub fi)"
  "fi_sub_keys (add_accepted x sub i fi) =
     dm_insert (sb_conn sub, sb_sub sub) (sub_index_keys x (sb_topic sub) (sb_filter sub)) (fi_sub_keys fi)"
  by (cases "sb_filter sub";
      simp add: add_accepted_def Let_def index_filter_keys sub_index_keys_def)+

lemma add_accepted_bits:
  "bm_at (fi_index (add_accepted x sub i fi)) k =
     bm_at (fi_index fi) k \<union>
     (if k \<in> set (sub_index_keys x (sb_topic sub) (sb_filter sub)) then {i} else {})"
  "bm_at (fi_unfiltered (add_accepted x sub i fi)) k =
     bm_at (fi_unfiltered fi) k \<union>
     (if k = pattern_str (sb_topic sub) \<and> sub_unfiltered (sb_filter sub) then {i} else {})"
  "fields_at (add_accepted x sub i fi) k =
     fields_at fi k \<union> (if k = pattern_str (sb_topic sub) then sub_fields (sb_filter sub) else {})"
  by (cases "sb_filter sub";
      simp add: add_accepted_def Let_def index_filter_index index_filter_unfiltered
        index_filter_fields sub_index_keys_def sub_unfiltered_def sub_fields_def)+

lemma alloc_slot_eq:
  "alloc_slot ds fi =
     map_option (\<lambda>(i, slots, free). (i, fi\<lparr>fi_slots := slots, fi_free := free\<rparr>))
       (slab_alloc ds (fi_slots fi, fi_free fi))"
  by (cases "slab_alloc ds (fi_slots fi, fi_free fi)") (auto simp: alloc_slot_def)

lemma add_safe:
  assumes "fi_safe fi"
  obtains fi' r where "add_subscription x sub node fi = Some (fi', r)" and "fi_safe fi'"
proof (cases rule: check_limits_cases [where pk = "pattern_str (sb_topic sub)" and sub = sub and fi = fi])
  case ok
  have "\<forall>i\<in>set (fi_free fi). unat i < length (fi_slots fi)"
    using assms by (simp add: fi_safe_def)
  from slab_alloc_bounds [OF this, of "dispatch_slot_of sub node"] obtain i slots free
    where a: "slab_alloc (dispatch_slot_of sub node) (fi_slots fi, fi_free fi) = Some (i, (slots, free))"
      and b: "unat i < length slots" "length (fi_slots fi) \<le> length slots" "set free \<subseteq> set (fi_free fi)"
    by blast
  have "fi_safe (add_accepted x sub i (fi\<lparr>fi_slots := slots, fi_free := free\<rparr>))"
    using assms b by (force simp: fi_safe_def ids_below_def add_accepted_bits)
  with ok a that show ?thesis by (simp add: add_subscription_eq alloc_slot_eq)
next
  case (rejected r)
  have "fi_safe (fst (reject_capacity r fi))" using assms by (simp add: fi_safe_def)
  with rejected that show ?thesis
    by (cases "reject_capacity r fi")
      (auto simp: add_subscription_eq reject_capacity_def)
qed

lemma remove_keys_sel [simp]:
  "fi_unfiltered (remove_keys i ks fi) = fi_unfiltered fi"
  "fi_patterns (remove_keys i ks fi) = fi_patterns fi" "fi_fields (remove_keys i ks fi) = fi_fields fi"
  "fi_sub_keys (remove_keys i ks fi) = fi_sub_keys fi" "fi_slots (remove_keys i ks fi) = fi_slots fi"
  "fi_free (remove_keys i ks fi) = fi_free fi"
  "fi_slot_by_sub (remove_keys i ks fi) = fi_slot_by_sub fi"
  "fi_limits (remove_keys i ks fi) = fi_limits fi" "fi_stats (remove_keys i ks fi) = fi_stats fi"
  "fi_breaker (remove_keys i ks fi) = fi_breaker fi"
  unfolding remove_keys_def by (induction ks arbitrary: fi) simp_all

lemma remove_keys_index:
  "bm_at (fi_index (remove_keys i ks fi)) k =
     bm_at (fi_index fi) k - (if k \<in> set ks then {i} else {})"
  unfolding remove_keys_def by (induction ks arbitrary: fi) auto

lemma free_slot_sel [simp]:
  "fi_index (free_slot i fi) = fi_index fi" "fi_unfiltered (free_slot i fi) = fi_unfiltered fi"
  "fi_patterns (free_slot i fi) = fi_patterns fi" "fi_fields (free_slot i fi) = fi_fields fi"
  "fi_sub_keys (free_slot i fi) = fi_sub_keys fi"
  "fi_slots (free_slot i fi) = fst (slab_free i (fi_slots fi, fi_free fi))"
  "fi_free (free_slot i fi) = snd (slab_free i (fi_slots fi, fi_free fi))"
  "fi_slot_by_sub (free_slot i fi) = fi_slot_by_sub fi" "fi_limits (free_slot i fi) = fi_limits fi"
  "fi_stats (free_slot i fi) = fi_stats fi" "fi_breaker (free_slot i fi) = fi_breaker fi"
  by (simp_all add: free_slot_def split_beta)

lemma slab_free_bounds [simp]:
  "length (fst (slab_free i (slots, free))) = length slots"
  "set (snd (slab_free i (slots, free))) = insert i (set free)"
  by (auto simp: slab_free_def Let_def)

lemma remove_absent: "dm_get (fi_slot_by_sub fi) (sb_conn sub, sb_sub sub) = None \<Longrightarrow> remove_subscription sub fi = fi"
  by (simp add: remove_subscription_def)

lemma remove_present:
  assumes "dm_get (fi_slot_by_sub fi) (sb_conn sub, sb_sub sub) = Some i"
    and "fi' = remove_subscription sub fi"
  shows "fi_slots fi' = fst (slab_free i (fi_slots fi, fi_free fi))"
    and "fi_free fi' = snd (slab_free i (fi_slots fi, fi_free fi))"
    and "fi_slot_by_sub fi' = dm_remove (sb_conn sub, sb_sub sub) (fi_slot_by_sub fi)"
    and "fi_patterns fi' = fi_patterns fi" and "fi_fields fi' = fi_fields fi"
    and "fi_limits fi' = fi_limits fi" and "fi_breaker fi' = fi_breaker fi"
    and "dm_get (fi_sub_keys fi') k =
           (if k = (sb_conn sub, sb_sub sub) then None else dm_get (fi_sub_keys fi) k)"
    and "fi_unfiltered fi' =
           dm_modify (pattern_str (sb_topic sub)) (bm_remove i) (fi_unfiltered fi)"
    and "bm_at (fi_index fi') key = bm_at (fi_index fi) key -
           (if \<exists>ks. dm_get (fi_sub_keys fi) (sb_conn sub, sb_sub sub) = Some ks \<and> key \<in> set ks
            then {i} else {})"
  using assms
  by (cases "dm_get (fi_sub_keys fi) (sb_conn sub, sb_sub sub)";
      simp add: remove_subscription_def Let_def remove_keys_index)+

lemma remove_safe: "fi_safe fi \<Longrightarrow> fi_safe (remove_subscription sub fi)"
proof (cases "dm_get (fi_slot_by_sub fi) (sb_conn sub, sb_sub sub)")
  case (Some i)
  assume "fi_safe fi"
  with remove_present [OF Some refl] Some show ?thesis
    by (force simp: fi_safe_def ids_below_def split: if_splits)
qed (simp add: remove_absent)

subsection \<open>Evaluation stays in bounds\<close>

lemma set_union_opt: "set (union_opt r f) = set r \<union> (case f of None \<Rightarrow> {} | Some b \<Rightarrow> set b)"
  by (simp add: union_opt_def split: option.split)

lemma union_opt_bm_at: "set (union_opt r (dm_get m k)) = set r \<union> bm_at m k"
  by (simp add: set_union_opt bm_at_def)

definition unfiltered_hits :: "FilterIndex \<Rightarrow> EventEnvelope \<Rightarrow> string \<times> TopicPattern \<Rightarrow> u32 set" where
  "unfiltered_hits fi event pp =
     (if pattern_matches (snd pp) (ev_topic event) then bm_at (fi_unfiltered fi) (fst pp) else {})"

definition field_hits ::
    "Externals \<Rightarrow> FilterIndex \<Rightarrow> EventEnvelope \<Rightarrow> json option \<Rightarrow> string \<Rightarrow> FieldPath \<Rightarrow> u32 set" where
  "field_hits x fi event parsed pk f =
     (case envelope_field_getter_cached x event parsed f of None \<Rightarrow> {}
      | Some fv \<Rightarrow> bm_at (fi_index fi) (make_index_key pk (field_str f) (value_to_string x fv)))"

definition pattern_hits ::
    "Externals \<Rightarrow> FilterIndex \<Rightarrow> EventEnvelope \<Rightarrow> json option \<Rightarrow> string \<times> TopicPattern \<Rightarrow> u32 set" where
  "pattern_hits x fi event parsed pp =
     (if pattern_matches (snd pp) (ev_topic event)
      then bm_at (fi_unfiltered fi) (fst pp) \<union>
           (\<Union>f\<in>fields_at fi (fst pp). field_hits x fi event parsed (fst pp) f)
      else {})"

lemma fold_evaluate_field:
  "set (fold (evaluate_field x fi event parsed pk) fs r) =
     set r \<union> (\<Union>f\<in>set fs. field_hits x fi event parsed pk f)"
  by (induction fs arbitrary: r)
    (auto simp: evaluate_field_def field_hits_def union_opt_bm_at split: option.splits)

lemma fold_hits:
  assumes "\<And>pp r. set (step pp r) = set r \<union> hits pp"
  shows "set (fold step pps r) = set r \<union> (\<Union>pp\<in>set pps. hits pp)"
  by (induction pps arbitrary: r) (auto simp: assms)

lemma evaluate_unfiltered_set:
  "set (evaluate_unfiltered_only fi event) = (\<Union>pp\<in>set (fi_patterns fi). unfiltered_hits fi event pp)"
  unfolding evaluate_unfiltered_only_def
  by (subst fold_hits [where hits = "unfiltered_hits fi event"])
    (auto simp: unfiltered_hits_def union_opt_bm_at split: prod.splits)

lemma evaluate_inner_set:
  "set (evaluate_inner x fi event parsed) =
     (\<Union>pp\<in>set (fi_patterns fi). pattern_hits x fi event parsed pp)"
  unfolding evaluate_inner_def
  by (subst fold_hits [where hits = "pattern_hits x fi event parsed"])
    (auto simp: pattern_hits_def fields_at_def Let_def union_opt_bm_at fold_evaluate_field
      split: prod.splits option.splits)

definition bits_below :: "FilterIndex \<Rightarrow> bitmap \<Rightarrow> bool" where
  "bits_below fi b = (\<forall>i\<in>set b. unat i < length (fi_slots fi))"

lemma evaluate_below:
  assumes "fi_safe fi"
  shows "bits_below fi (evaluate_unfiltered_only fi event)"
    and "bits_below fi (evaluate_inner x fi event parsed)"
  using assms
  by (auto simp: fi_safe_def ids_below_def bits_below_def evaluate_unfiltered_set evaluate_inner_set
      unfiltered_hits_def pattern_hits_def field_hits_def split: if_splits option.splits)

text \<open>The slots of a bitmap, in order, and the test the dispatch loop applies to each.\<close>

definition slots_of :: "FilterIndex \<Rightarrow> bitmap \<Rightarrow> DispatchSlot list" where
  "slots_of fi b = List.map_filter (\<lambda>i. slab_get (fi_slots fi, fi_free fi) i) b"

definition late_payload :: "Externals \<Rightarrow> EventEnvelope \<Rightarrow> json option \<Rightarrow> json option" where
  "late_payload x event parsed =
     (case parsed of Some v \<Rightarrow> Some v | None \<Rightarrow> x_from_slice x (ev_payload event))"

definition slot_passes :: "Externals \<Rightarrow> EventEnvelope \<Rightarrow> json option \<Rightarrow> DispatchSlot \<Rightarrow> bool" where
  "slot_passes x event parsed slot =
     (ds_exact slot \<or>
      (case ds_filter slot of None \<Rightarrow> True
       | Some f \<Rightarrow> evaluate f (envelope_field_getter_cached x event (late_payload x event parsed))))"

lemma slots_of_Cons:
  "bits_below fi (i # b) \<Longrightarrow>
   slots_of fi (i # b) =
     (case fi_slots fi ! unat i of None \<Rightarrow> slots_of fi b | Some ds \<Rightarrow> ds # slots_of fi b)"
  by (cases "fi_slots fi ! unat i")
    (simp_all add: slots_of_def bits_below_def slab_get_def List.map_filter_simps)

lemma bits_below_Cons: "bits_below fi (i # b) \<longleftrightarrow> unat i < length (fi_slots fi) \<and> bits_below fi b"
  by (simp add: bits_below_def)

lemma dispatch_bitmap_eq:
  "bits_below fi b \<Longrightarrow> dispatch_bitmap fi cb b st = Some (fold (call_slot cb) (slots_of fi b) st)"
proof (induction b arbitrary: st)
  case Nil
  then show ?case by (simp add: slots_of_def List.map_filter_simps)
next
  case (Cons i b)
  from Cons.prems have b: "unat i < length (fi_slots fi)" "bits_below fi b"
    by (simp_all add: bits_below_Cons)
  show ?case
    by (cases "fi_slots fi ! unat i")
      (simp_all add: slots_of_Cons [OF Cons.prems] get_unchecked_def b Cons.IH)
qed

lemma match_loop_eq:
  assumes "bits_below fi b" and "late = None \<or> late = x_from_slice x (ev_payload event)"
  shows "match_loop x fi event parsed cb b late st =
     Some (fold (call_slot cb) (filter (slot_passes x event parsed) (slots_of fi b)) st)"
  using assms
proof (induction b arbitrary: st late)
  case Nil
  then show ?case by (simp add: slots_of_def List.map_filter_simps)
next
  case (Cons i b)
  from Cons.prems(1) have b: "unat i < length (fi_slots fi)" "bits_below fi b"
    by (simp_all add: bits_below_Cons)
  let ?late = "if late = None \<and> parsed = None then x_from_slice x (ev_payload event) else late"
  have late: "?late = None \<or> ?late = x_from_slice x (ev_payload event)"
    using Cons.prems(2) by auto
  have ref: "(case parsed of None \<Rightarrow> ?late | Some v \<Rightarrow> Some v) = late_payload x event parsed"
    using Cons.prems(2) by (auto simp: late_payload_def split: option.split)
  note IH = Cons.IH [OF b(2) Cons.prems(2)] Cons.IH [OF b(2) late]
  show ?case
  proof (cases "fi_slots fi ! unat i")
    case None
    then show ?thesis by (simp add: slots_of_Cons [OF Cons.prems(1)] get_unchecked_def b IH)
  next
    case (Some ds)
    show ?thesis
    proof (cases "ds_exact ds")
      case True
      with Some show ?thesis
        by (simp add: slots_of_Cons [OF Cons.prems(1)] get_unchecked_def b IH slot_passes_def)
    next
      case False
      note nexact = this
      show ?thesis
      proof (cases "ds_filter ds")
        case None
        with Some False show ?thesis
          by (simp add: slots_of_Cons [OF Cons.prems(1)] get_unchecked_def b IH slot_passes_def)
      next
        case (Some f)
        have "match_loop x fi event parsed cb (i # b) late st =
          (if evaluate f (envelope_field_getter_cached x event (late_payload x event parsed))
           then match_loop x fi event parsed cb b ?late (call_slot cb ds st)
           else match_loop x fi event parsed cb b ?late st)"
          using Some nexact \<open>fi_slots fi ! unat i = Some ds\<close> ref
          by (simp add: get_unchecked_def b Let_def del: match_loop.simps(1) cong: if_cong option.case_cong)
        with Some nexact \<open>fi_slots fi ! unat i = Some ds\<close> show ?thesis
          by (simp add: slots_of_Cons [OF Cons.prems(1)] IH slot_passes_def)
      qed
    qed
  qed
qed

lemma dispatch_in_bounds: "bits_below fi b \<Longrightarrow> dispatch_bitmap fi cb b st \<noteq> None"
  by (simp add: dispatch_bitmap_eq)

lemma match_loop_in_bounds: "bits_below fi b \<Longrightarrow> match_loop x fi event parsed cb b None st \<noteq> None"
  by (simp add: match_loop_eq)

text \<open>Reading the clock, the counters and the breaker leaves the indexed data alone.\<close>

definition same_index :: "FilterIndex \<Rightarrow> FilterIndex \<Rightarrow> bool" where
  "same_index fi fi' =
     (fi_index fi' = fi_index fi \<and> fi_unfiltered fi' = fi_unfiltered fi \<and>
      fi_patterns fi' = fi_patterns fi \<and> fi_fields fi' = fi_fields fi \<and>
      fi_sub_keys fi' = fi_sub_keys fi \<and> fi_slots fi' = fi_slots fi \<and> fi_free fi' = fi_free fi \<and>
      fi_slot_by_sub fi' = fi_slot_by_sub fi \<and> fi_limits fi' = fi_limits fi)"

lemma same_index_refl [simp]: "same_index fi fi"
  by (simp add: same_index_def)

lemma same_index_trans: "same_index a b \<Longrightarrow> same_index b c \<Longrightarrow> same_index a c"
  by (simp add: same_index_def)

lemma same_index_steps [simp]:
  "same_index fi (snd (fi_is_open ck fi))" "same_index fi (fi_record ck n fi)"
  "same_index fi (fi_map_stats g fi)" "same_index fi (fi_bypassed fi)"
  "same_index fi (fst (reject_capacity r fi))"
  by (simp_all add: same_index_def fi_is_open_def fi_record_def fi_bypassed_def Let_def split_beta
      split: prod.split)

lemma same_index_safe: "same_index fi fi' \<Longrightarrow> fi_safe fi' = fi_safe fi"
  by (simp add: same_index_def fi_safe_def)

lemma same_index_eval:
  assumes "same_index fi fi'"
  shows "evaluate_unfiltered_only fi' event = evaluate_unfiltered_only fi event"
    and "evaluate_inner x fi' event parsed = evaluate_inner x fi event parsed"
    and "parse_if_fields x fi' event = parse_if_fields x fi event"
    and "get_unchecked fi' = get_unchecked fi"
proof -
  have eqs: "fi_index fi' = fi_index fi" "fi_unfiltered fi' = fi_unfiltered fi"
    "fi_patterns fi' = fi_patterns fi" "fi_fields fi' = fi_fields fi" "fi_slots fi' = fi_slots fi"
    using assms by (simp_all add: same_index_def)
  have field: "evaluate_field x fi' event parsed = evaluate_field x fi event parsed"
    unfolding evaluate_field_def [abs_def] eqs ..
  show "evaluate_unfiltered_only fi' event = evaluate_unfiltered_only fi event"
    unfolding evaluate_unfiltered_only_def eqs ..
  show "evaluate_inner x fi' event parsed = evaluate_inner x fi event parsed"
    unfolding evaluate_inner_def eqs field ..
  show "parse_if_fields x fi' event = parse_if_fields x fi event"
    unfolding parse_if_fields_def eqs ..
  show "get_unchecked fi' = get_unchecked fi"
    unfolding get_unchecked_def [abs_def] eqs ..
qed

text \<open>What one call delivers: the degraded set when the breaker refused the caller, otherwise the
  post-filtered bitmap.\<close>

definition matched_slots :: "Externals \<Rightarrow> bool \<Rightarrow> EventEnvelope \<Rightarrow> FilterIndex \<Rightarrow> DispatchSlot list" where
  "matched_slots x degraded event fi =
     (if degraded then slots_of fi (evaluate_unfiltered_only fi event)
      else filter (slot_passes x event (parse_if_fields x fi event))
             (slots_of fi (evaluate_inner x fi event (parse_if_fields x fi event))))"

definition after_match :: "Clock \<Rightarrow> nat \<Rightarrow> FilterIndex \<Rightarrow> FilterIndex" where
  "after_match ck n fi =
     (let (degraded, fi) = fi_is_open ck fi
      in fi_record ck (of_nat n) (if degraded then fi_bypassed fi else fi))"

lemma after_match_same: "same_index fi (after_match ck n fi)"
proof -
  obtain degraded fi1 where o: "fi_is_open ck fi = (degraded, fi1)" by fastforce
  then have "same_index fi fi1" by (metis same_index_steps(1) snd_conv)
  then show ?thesis
    by (auto simp: after_match_def o
        intro: same_index_trans same_index_trans [OF same_index_steps(4) same_index_steps(2)]
          same_index_steps(2))
qed

lemma slots_of_same: "same_index fi fi' \<Longrightarrow> slots_of fi' = slots_of fi"
  by (simp add: slots_of_def [abs_def] same_index_def)

lemma fold_call_slot:
  "fold (call_slot cb) ms (n, acc) =
     (n + length ms, fold (\<lambda>s. cb (ds_conn s) (ds_sub s) (ds_gateway s)) ms acc)"
  by (induction ms arbitrary: n acc) (simp_all add: call_slot_def)

lemma slots_of_Nil [simp]: "slots_of fi [] = []"
  by (simp add: slots_of_def List.map_filter_simps)

lemma fi_for_each_match_eq:
  assumes "fi_safe fi" and "ms = matched_slots x (fst (fi_is_open ck fi)) event fi"
  shows "fi_for_each_match x ck event cb fi acc =
     Some (length ms, fold (\<lambda>s. cb (ds_conn s) (ds_sub s) (ds_gateway s)) ms acc,
           after_match ck (length ms) fi)"
proof -
  obtain degraded fi1 where o: "fi_is_open ck fi = (degraded, fi1)" by fastforce
  then have s: "same_index fi fi1" by (metis same_index_steps(1) snd_conv)
  then have safe: "fi_safe fi1" using assms same_index_safe by blast
  note eqs = same_index_eval [OF s] slots_of_same [OF s]
  show ?thesis
    using dispatch_bitmap_eq [OF evaluate_below(1) [OF safe], of cb event "(0, acc)"]
      match_loop_eq [OF evaluate_below(2) [OF safe], where late = None and st = "(0, acc)"]
    by (simp add: fi_for_each_match_def after_match_def assms(2) matched_slots_def o Let_def eqs
        fold_call_slot)
qed

definition slot_match :: "DispatchSlot \<Rightarrow> match" where
  "slot_match s = (ds_conn s, ds_sub s, ds_gateway s)"

lemma fold_push_match:
  "fold (\<lambda>s. push_match (ds_conn s) (ds_sub s) (ds_gateway s)) ms acc = acc @ map slot_match ms"
  by (induction ms arbitrary: acc) (simp_all add: push_match_def slot_match_def)

lemma fi_collect_matches_eq:
  assumes "fi_safe fi" and "ms = matched_slots x (fst (fi_is_open ck fi)) event fi"
  shows "fi_collect_matches x ck event fi = Some (map slot_match ms, after_match ck (length ms) fi)"
proof -
  obtain degraded fi1 where o: "fi_is_open ck fi = (degraded, fi1)" by fastforce
  then have s: "same_index fi fi1" by (metis same_index_steps(1) snd_conv)
  then have safe: "fi_safe fi1" using assms same_index_safe by blast
  note eqs = same_index_eval [OF s] slots_of_same [OF s]
  show ?thesis
    using dispatch_bitmap_eq [OF evaluate_below(1) [OF safe], of push_match event "(0, [])"]
      match_loop_eq [OF evaluate_below(2) [OF safe], where late = None and st = "(0, [])" and cb = push_match]
    by (simp add: fi_collect_matches_def after_match_def assms(2) matched_slots_def o Let_def eqs
        fold_call_slot fold_push_match)
qed

text \<open>The callback interface and the collecting interface see the same matches in the same order.\<close>

lemma for_each_is_collect:
  assumes "fi_safe fi" and "fi_collect_matches x ck event fi = Some (ms, fi')"
  shows "fi_for_each_match x ck event cb fi acc =
     Some (length ms, fold (\<lambda>(c, s, n). cb c s n) ms acc, fi')"
proof -
  have "fold (\<lambda>(c, s, n). cb c s n) (map slot_match ss) acc =
      fold (\<lambda>s. cb (ds_conn s) (ds_sub s) (ds_gateway s)) ss acc" for ss acc
    by (induction ss arbitrary: acc) (simp_all add: slot_match_def)
  then show ?thesis
    using fi_collect_matches_eq [OF assms(1) refl, of x ck event] assms(2)
      fi_for_each_match_eq [OF assms(1) refl, of x ck event cb acc] by simp
qed

subsection \<open>Runs of the index\<close>

datatype fi_op =
    OpAdd Subscription "NodeId option"
  | OpRemove Subscription
  | OpEvaluate Clock EventEnvelope
  | OpForEach Clock EventEnvelope
  | OpCollect Clock EventEnvelope

fun fi_step :: "Externals \<Rightarrow> fi_op \<Rightarrow> FilterIndex \<Rightarrow> FilterIndex option" where
  "fi_step x (OpAdd sub node) fi = map_option fst (add_subscription x sub node fi)"
| "fi_step x (OpRemove sub) fi = Some (remove_subscription sub fi)"
| "fi_step x (OpEvaluate ck event) fi = Some (snd (fi_evaluate x ck event fi))"
| "fi_step x (OpForEach ck event) fi =
     map_option (\<lambda>(_, _, fi). fi) (fi_for_each_match x ck event (\<lambda>_ _ _ u. u) fi ())"
| "fi_step x (OpCollect ck event) fi = map_option snd (fi_collect_matches x ck event fi)"

fun fi_run :: "Externals \<Rightarrow> fi_op list \<Rightarrow> FilterIndex \<Rightarrow> FilterIndex option" where
  "fi_run x [] fi = Some fi"
| "fi_run x (op # ops) fi = do { fi \<leftarrow> fi_step x op fi; fi_run x ops fi }"

lemma fi_evaluate_same: "same_index fi (snd (fi_evaluate x ck event fi))"
proof -
  obtain open' fi1 where o: "fi_is_open ck fi = (open', fi1)" by fastforce
  then have "same_index fi fi1" by (metis same_index_steps(1) snd_conv)
  then show ?thesis
    by (auto simp: fi_evaluate_def o Let_def
        intro: same_index_trans [OF _ same_index_steps(2)] same_index_trans [OF _ same_index_steps(4)])
qed

lemma fi_step_safe:
  assumes "fi_safe fi"
  obtains fi' where "fi_step x op fi = Some fi'" and "fi_safe fi'"
proof (cases op)
  case (OpAdd sub node)
  from add_safe [OF assms, of x sub node] that OpAdd show ?thesis by auto
next
  case (OpRemove sub)
  with that remove_safe [OF assms] show ?thesis by simp
next
  case (OpEvaluate ck event)
  with that same_index_safe [OF fi_evaluate_same] assms show ?thesis by auto
next
  case (OpForEach ck event)
  with that fi_for_each_match_eq [OF assms refl, of x ck event "\<lambda>_ _ _ u. u" "()"]
    same_index_safe [OF after_match_same] assms
  show ?thesis by simp
next
  case (OpCollect ck event)
  with that fi_collect_matches_eq [OF assms refl] same_index_safe [OF after_match_same] assms
  show ?thesis by auto
qed

lemma fi_run_safe:
  assumes "fi_safe fi"
  obtains fi' where "fi_run x ops fi = Some fi'" and "fi_safe fi'"
  using assms
proof (induction ops arbitrary: fi thesis)
  case Nil
  then show ?case by simp
next
  case (Cons op ops)
  from fi_step_safe [OF Cons.prems(2)] obtain fi1 where "fi_step x op fi = Some fi1" "fi_safe fi1" .
  with Cons.IH [of fi1] Cons.prems(1) show ?case by auto
qed

lemma fi_safe_new [simp]: "fi_safe (fi_with_limits l)"
  by (simp add: fi_safe_def fi_with_limits_def ids_below_def)

subsection \<open>The representation invariant\<close>

text \<open>
  For subscriptions whose (connection, id) pair is fresh when added: the live slots are exactly the
  registered pairs, and every bitmap holds exactly the live slots whose filter produces its key.
\<close>

definition ds_at :: "FilterIndex \<Rightarrow> u32 \<Rightarrow> DispatchSlot option" where
  "ds_at fi i = slab_get (fi_slots fi, fi_free fi) i"

definition ds_key :: "DispatchSlot \<Rightarrow> sub_key" where
  "ds_key d = (ds_conn d, ds_sub d)"

definition ds_keys :: "Externals \<Rightarrow> DispatchSlot \<Rightarrow> string list" where
  "ds_keys x d = sub_index_keys x (ds_topic d) (ds_filter d)"

definition inv_slab :: "FilterIndex \<Rightarrow> bool" where
  "inv_slab fi =
     (slab_wf (fi_slots fi, fi_free fi) \<and> dm_wf (fi_slot_by_sub fi) \<and>
      slab_used (fi_slots fi, fi_free fi) = dm_len (fi_slot_by_sub fi) \<and>
      (\<forall>k i. dm_get (fi_slot_by_sub fi) k = Some i \<longleftrightarrow> (\<exists>d. ds_at fi i = Some d \<and> ds_key d = k)))"

definition inv_bits :: "Externals \<Rightarrow> FilterIndex \<Rightarrow> bool" where
  "inv_bits x fi =
     ((\<forall>k i. i \<in> bm_at (fi_index fi) k \<longleftrightarrow> (\<exists>d. ds_at fi i = Some d \<and> k \<in> set (ds_keys x d))) \<and>
      (\<forall>k i. i \<in> bm_at (fi_unfiltered fi) k \<longleftrightarrow>
         (\<exists>d. ds_at fi i = Some d \<and> pattern_str (ds_topic d) = k \<and> sub_unfiltered (ds_filter d))) \<and>
      (\<forall>k i. dm_get (fi_slot_by_sub fi) k = Some i \<longrightarrow>
         dm_get (fi_sub_keys fi) k = map_option (ds_keys x) (ds_at fi i)))"

definition inv_slots :: "FilterIndex \<Rightarrow> bool" where
  "inv_slots fi =
     (dm_wf (fi_patterns fi) \<and>
      (\<forall>k p. dm_get (fi_patterns fi) k = Some p \<longrightarrow> p = pattern_parse k) \<and>
      (\<forall>i d. ds_at fi i = Some d \<longrightarrow>
         dm_get (fi_patterns fi) (pattern_str (ds_topic d)) = Some (ds_topic d) \<and>
         sub_fields (ds_filter d) \<subseteq> fields_at fi (pattern_str (ds_topic d)) \<and>
         ds_exact d = (case ds_filter d of None \<Rightarrow> True | Some f \<Rightarrow> is_filter_exact f)))"

definition fi_inv :: "Externals \<Rightarrow> FilterIndex \<Rightarrow> bool" where
  "fi_inv x fi = (fi_safe fi \<and> inv_slab fi \<and> inv_bits x fi \<and> inv_slots fi)"

lemma fi_inv_new: "fi_inv x (fi_with_limits l)"
  by (simp add: fi_inv_def inv_slab_def inv_bits_def inv_slots_def fi_with_limits_def ds_at_def
      slab_get_def slab_wf_def slab_used_def dm_len_def fi_safe_def ids_below_def)

lemma same_index_inv: "same_index fi fi' \<Longrightarrow> fi_inv x fi' = fi_inv x fi"
  by (simp add: same_index_def fi_inv_def fi_safe_def inv_slab_def inv_bits_def inv_slots_def
      ds_at_def fields_at_def)

text \<open>An accepted addition of a fresh pair: the new slot is the only change.\<close>

lemma add_ok_obtain:
  assumes inv: "fi_inv x fi" and room: "unat (max_total_subscriptions (fi_limits fi)) \<le> 2 ^ 32"
    and res: "add_subscription x sub node fi = Some (fi', Inr ())"
  obtains i slots free where
    "slab_alloc (dispatch_slot_of sub node) (fi_slots fi, fi_free fi) = Some (i, (slots, free))"
    "fi' = add_accepted x sub i (fi\<lparr>fi_slots := slots, fi_free := free\<rparr>)"
    "slab_used (fi_slots fi, fi_free fi) < 2 ^ 32"
    "dm_len (fi_slot_by_sub fi) < unat (max_total_subscriptions (fi_limits fi))"
proof (cases rule: check_limits_cases [where pk = "pattern_str (sb_topic sub)" and sub = sub and fi = fi])
  case ok
  then have below: "dm_len (fi_slot_by_sub fi) < unat (max_total_subscriptions (fi_limits fi))"
    by (auto simp: check_limits_def Let_def reject_capacity_def not_le split: if_splits)
  with room inv have "slab_used (fi_slots fi, fi_free fi) < 2 ^ 32"
    by (simp add: fi_inv_def inv_slab_def)
  with ok res that below show ?thesis
    by (auto simp: add_subscription_eq alloc_slot_eq)
next
  case (rejected r)
  with res show ?thesis
    by (simp add: add_subscription_eq reject_capacity_def)
qed

lemma inv_link:
  "fi_inv x fi \<Longrightarrow> dm_get (fi_slot_by_sub fi) k = Some j \<longleftrightarrow> (\<exists>d. ds_at fi j = Some d \<and> ds_key d = k)"
  unfolding fi_inv_def inv_slab_def by blast

lemma inv_index:
  "fi_inv x fi \<Longrightarrow> i \<in> bm_at (fi_index fi) k \<longleftrightarrow> (\<exists>d. ds_at fi i = Some d \<and> k \<in> set (ds_keys x d))"
  unfolding fi_inv_def inv_bits_def by blast

lemma inv_unfiltered:
  "fi_inv x fi \<Longrightarrow> i \<in> bm_at (fi_unfiltered fi) k \<longleftrightarrow>
     (\<exists>d. ds_at fi i = Some d \<and> pattern_str (ds_topic d) = k \<and> sub_unfiltered (ds_filter d))"
  unfolding fi_inv_def inv_bits_def by blast

lemma inv_tracked:
  "fi_inv x fi \<Longrightarrow> dm_get (fi_slot_by_sub fi) k = Some i \<Longrightarrow>
     dm_get (fi_sub_keys fi) k = map_option (ds_keys x) (ds_at fi i)"
  unfolding fi_inv_def inv_bits_def by blast

lemma inv_pattern:
  "fi_inv x fi \<Longrightarrow> dm_get (fi_patterns fi) k = Some p \<Longrightarrow> p = pattern_parse k"
  unfolding fi_inv_def inv_slots_def by blast

lemma inv_slot:
  "fi_inv x fi \<Longrightarrow> ds_at fi i = Some d \<Longrightarrow>
     dm_get (fi_patterns fi) (pattern_str (ds_topic d)) = Some (ds_topic d) \<and>
     sub_fields (ds_filter d) \<subseteq> fields_at fi (pattern_str (ds_topic d)) \<and>
     ds_exact d = (case ds_filter d of None \<Rightarrow> True | Some f \<Rightarrow> is_filter_exact f)"
  unfolding fi_inv_def inv_slots_def by blast

lemma dispatch_slot_of_sel [simp]:
  "ds_key (dispatch_slot_of sub node) = (sb_conn sub, sb_sub sub)"
  "ds_topic (dispatch_slot_of sub node) = sb_topic sub"
  "ds_filter (dispatch_slot_of sub node) = sb_filter sub"
  "ds_keys x (dispatch_slot_of sub node) = sub_index_keys x (sb_topic sub) (sb_filter sub)"
  "ds_exact (dispatch_slot_of sub node) =
     (case sb_filter sub of None \<Rightarrow> True | Some f \<Rightarrow> is_filter_exact f)"
  by (simp_all add: dispatch_slot_of_def ds_key_def ds_keys_def)

lemma fields_at_slots [simp]: "fields_at (fi\<lparr>fi_slots := a, fi_free := b\<rparr>) k = fields_at fi k"
  by (simp add: fields_at_def)

text \<open>The state after an accepted addition of a fresh pair satisfies each part of the invariant.\<close>

lemma add_fresh_inv:
  assumes inv: "fi_inv x fi" and parsed: "parsed_pattern (sb_topic sub)"
    and fresh: "dm_get (fi_slot_by_sub fi) (sb_conn sub, sb_sub sub) = None"
    and used: "slab_used (fi_slots fi, fi_free fi) < 2 ^ 32"
    and alloc: "slab_alloc (dispatch_slot_of sub node) (fi_slots fi, fi_free fi) = Some (i, (slots, free))"
    and fi': "fi' = add_accepted x sub i (fi\<lparr>fi_slots := slots, fi_free := free\<rparr>)"
    and safe: "fi_safe fi'"
  shows "fi_inv x fi'" and "ds_at fi i = None"
    and "ds_at fi' j = (if j = i then Some (dispatch_slot_of sub node) else ds_at fi j)"
proof -
  have wf: "slab_wf (fi_slots fi, fi_free fi)"
    using inv by (simp add: fi_inv_def inv_slab_def)
  note law = slab_alloc_law [OF wf used alloc]
  have now: "ds_at fi' j = (if j = i then Some (dispatch_slot_of sub node) else ds_at fi j)" for j
    using law [of j] by (simp add: ds_at_def fi')
  have by_sub: "fi_slot_by_sub fi' = dm_insert (sb_conn sub, sb_sub sub) i (fi_slot_by_sub fi)"
    and pats: "fi_patterns fi' =
      dm_or_insert (pattern_str (sb_topic sub)) (sb_topic sub) (fi_patterns fi)"
    and tracked: "fi_sub_keys fi' = dm_insert (sb_conn sub, sb_sub sub)
      (sub_index_keys x (sb_topic sub) (sb_filter sub)) (fi_sub_keys fi)"
    by (simp_all add: fi')
  have bits: "bm_at (fi_index fi') k = bm_at (fi_index fi) k \<union>
      (if k \<in> set (sub_index_keys x (sb_topic sub) (sb_filter sub)) then {i} else {})"
    and unf: "bm_at (fi_unfiltered fi') k = bm_at (fi_unfiltered fi) k \<union>
      (if k = pattern_str (sb_topic sub) \<and> sub_unfiltered (sb_filter sub) then {i} else {})"
    and flds: "fields_at fi' k = fields_at fi k \<union>
      (if k = pattern_str (sb_topic sub) then sub_fields (sb_filter sub) else {})" for k
    by (simp_all add: fi' add_accepted_bits)
  show was_free: "ds_at fi i = None" using law by (simp add: ds_at_def)
  show "ds_at fi' j = (if j = i then Some (dispatch_slot_of sub node) else ds_at fi j)"
    by (rule now)
  have nofree: "dm_get (fi_slot_by_sub fi) k \<noteq> Some i" for k
    by (simp add: inv_link [OF inv] was_free)
  have nokey: "ds_at fi j = Some d \<Longrightarrow> ds_key d \<noteq> (sb_conn sub, sb_sub sub)" for j d
    using fresh inv_link [OF inv, of "(sb_conn sub, sb_sub sub)" j] by auto
  have "inv_slab fi'"
  proof -
    have "dm_get (fi_slot_by_sub fi') k = Some j \<longleftrightarrow> (\<exists>d. ds_at fi' j = Some d \<and> ds_key d = k)" for k j
      using nofree [of k] nokey [of j] inv_link [OF inv, of k j] by (auto simp: now by_sub)
    moreover have "slab_used (fi_slots fi', fi_free fi') = dm_len (fi_slot_by_sub fi')"
      using law inv fresh by (simp add: fi' fi_inv_def inv_slab_def dm_len_insert)
    moreover have "slab_wf (fi_slots fi', fi_free fi')" "dm_wf (fi_slot_by_sub fi')"
      using law inv by (simp_all add: fi' fi_inv_def inv_slab_def)
    ultimately show ?thesis unfolding inv_slab_def by blast
  qed
  moreover have "inv_bits x fi'"
  proof -
    have "j \<in> bm_at (fi_index fi') k \<longleftrightarrow> (\<exists>d. ds_at fi' j = Some d \<and> k \<in> set (ds_keys x d))" for k j
      using was_free by (auto simp: now bits inv_index [OF inv] split: if_splits)
    moreover have "j \<in> bm_at (fi_unfiltered fi') k \<longleftrightarrow>
        (\<exists>d. ds_at fi' j = Some d \<and> pattern_str (ds_topic d) = k \<and> sub_unfiltered (ds_filter d))" for k j
      using was_free by (auto simp: now unf inv_unfiltered [OF inv] split: if_splits)
    moreover have "dm_get (fi_sub_keys fi') k = map_option (ds_keys x) (ds_at fi' j)"
      if "dm_get (fi_slot_by_sub fi') k = Some j" for k j
      using that nofree [of k] inv_tracked [OF inv, of k j] by (auto simp: now by_sub tracked split: if_splits)
    ultimately show ?thesis unfolding inv_bits_def by blast
  qed
  moreover have "inv_slots fi'"
  proof -
    have pat: "dm_get (fi_patterns fi') (pattern_str (sb_topic sub)) = Some (sb_topic sub)"
      using parsed inv_pattern [OF inv]
      by (auto simp: pats parsed_pattern_def split: option.split)
    have keep: "dm_get (fi_patterns fi) k = Some p \<Longrightarrow> dm_get (fi_patterns fi') k = Some p" for k p
      by (auto simp: pats)
    have "dm_get (fi_patterns fi') k = Some p \<Longrightarrow> p = pattern_parse k" for k p
      using parsed inv_pattern [OF inv, of k p]
      by (auto simp: pats parsed_pattern_def split: if_splits option.splits)
    moreover have "dm_get (fi_patterns fi') (pattern_str (ds_topic d)) = Some (ds_topic d) \<and>
        sub_fields (ds_filter d) \<subseteq> fields_at fi' (pattern_str (ds_topic d)) \<and>
        ds_exact d = (case ds_filter d of None \<Rightarrow> True | Some f \<Rightarrow> is_filter_exact f)"
      if "ds_at fi' j = Some d" for j d
    proof (cases "j = i")
      case True
      with that pat show ?thesis by (auto simp: now flds)
    next
      case False
      with that have "ds_at fi j = Some d" by (simp add: now)
      from inv_slot [OF inv this] keep show ?thesis by (auto simp: flds)
    qed
    moreover have "dm_wf (fi_patterns fi')"
      using inv by (simp add: fi' fi_inv_def inv_slots_def)
    ultimately show ?thesis unfolding inv_slots_def by blast
  qed
  ultimately show "fi_inv x fi'" using safe by (simp add: fi_inv_def)
qed

end
