(* ===== verification/Rt_Index_Match.thy ===== *)
theory Rt_Index_Match
  imports Rt_Index_Correct
begin

text \<open>
  The filter index as a table of subscriptions (\<open>crates/realtime-engine/src/filter_index\<close>): removal
  preserves the representation invariant, the operations act on the table like a finite map, and
  bitmap evaluation with post-filtering returns the live subscriptions whose pattern and filter
  match.
\<close>

subsection \<open>Removal\<close>

lemma remove_inv:
  assumes inv: "fi_inv x fi" and reg: "dm_get (fi_slot_by_sub fi) (sb_conn sub, sb_sub sub) = Some i"
    and at: "ds_at fi i = Some d" and topic: "ds_topic d = sb_topic sub"
  shows "fi_inv x (remove_subscription sub fi)"
    and "ds_at (remove_subscription sub fi) j = (if j = i then None else ds_at fi j)"
proof -
  define fi' where "fi' = remove_subscription sub fi"
  note eff = remove_present [OF reg fi'_def]
  have wf: "slab_wf (fi_slots fi, fi_free fi)" and get: "slab_get (fi_slots fi, fi_free fi) i = Some d"
    using inv at by (simp_all add: fi_inv_def inv_slab_def ds_at_def)
  note law = slab_free_law [OF wf get]
  have now: "ds_at fi' j = (if j = i then None else ds_at fi j)" for j
    using law [of j] by (simp add: ds_at_def eff)
  have dkey: "ds_key d = (sb_conn sub, sb_sub sub)"
    using inv_link [OF inv, of "(sb_conn sub, sb_sub sub)" i] reg at by auto
  have tracked: "dm_get (fi_sub_keys fi) (sb_conn sub, sb_sub sub) = Some (ds_keys x d)"
    using inv_tracked [OF inv reg] at by simp
  have bits: "bm_at (fi_index fi') k = bm_at (fi_index fi) k - {i}" for k
    using inv_index [OF inv, of i k] at by (auto simp: eff tracked)
  have unf: "bm_at (fi_unfiltered fi') k = bm_at (fi_unfiltered fi) k - {i}" for k
    using inv_unfiltered [OF inv, of i k] at topic by (auto simp: eff)
  have inj: "ds_at fi j = Some d' \<Longrightarrow> ds_key d' = ds_key d \<Longrightarrow> j = i" for j d'
    using inv_link [OF inv, of "ds_key d" j] inv_link [OF inv, of "ds_key d" i] at by auto
  have "inv_slab fi'"
  proof -
    have "dm_get (fi_slot_by_sub fi') k = Some j \<longleftrightarrow> (\<exists>d. ds_at fi' j = Some d \<and> ds_key d = k)" for k j
    proof (cases "k = ds_key d")
      case True
      then show ?thesis using inj [of j] dkey by (auto simp: now eff)
    next
      case False
      then show ?thesis using inv_link [OF inv, of k j] at dkey by (auto simp: now eff)
    qed
    moreover have "slab_used (fi_slots fi', fi_free fi') = dm_len (fi_slot_by_sub fi')"
    proof -
      have "dm_wf (fi_slot_by_sub fi)" "slab_used (fi_slots fi, fi_free fi) = dm_len (fi_slot_by_sub fi)"
        using inv by (simp_all add: fi_inv_def inv_slab_def)
      then have "Suc (slab_used (slab_free i (fi_slots fi, fi_free fi))) = Suc (dm_len (fi_slot_by_sub fi'))"
        using law [of i] reg by (simp add: eff dm_len_remove)
      then show ?thesis by (simp add: eff)
    qed
    moreover have "slab_wf (fi_slots fi', fi_free fi')" "dm_wf (fi_slot_by_sub fi')"
      using law inv by (simp_all add: eff fi_inv_def inv_slab_def)
    ultimately show ?thesis unfolding inv_slab_def by blast
  qed
  moreover have "inv_bits x fi'"
  proof -
    have "j \<in> bm_at (fi_index fi') k \<longleftrightarrow> (\<exists>d. ds_at fi' j = Some d \<and> k \<in> set (ds_keys x d))" for k j
      by (auto simp: now bits inv_index [OF inv])
    moreover have "j \<in> bm_at (fi_unfiltered fi') k \<longleftrightarrow>
        (\<exists>d. ds_at fi' j = Some d \<and> pattern_str (ds_topic d) = k \<and> sub_unfiltered (ds_filter d))" for k j
      by (auto simp: now unf inv_unfiltered [OF inv])
    moreover have "dm_get (fi_sub_keys fi') k = map_option (ds_keys x) (ds_at fi' j)"
      if "dm_get (fi_slot_by_sub fi') k = Some j" for k j
      using that inv_tracked [OF inv, of k j] inv_link [OF inv, of k j] dkey at
      by (auto simp: now eff split: if_splits)
    ultimately show ?thesis unfolding inv_bits_def by blast
  qed
  moreover have "inv_slots fi'"
    using inv by (auto simp: fi_inv_def inv_slots_def now eff fields_at_def split: if_splits)
  ultimately show "fi_inv x (remove_subscription sub fi)"
    using remove_safe inv by (auto simp: fi_inv_def fi'_def)
  show "ds_at (remove_subscription sub fi) j = (if j = i then None else ds_at fi j)"
    using now by (simp add: fi'_def)
qed

subsection \<open>The index as a table\<close>

definition fi_table :: "FilterIndex \<Rightarrow> sub_key \<Rightarrow> DispatchSlot option" where
  "fi_table fi k = Option.bind (dm_get (fi_slot_by_sub fi) k) (ds_at fi)"

definition fi_ok :: "Externals \<Rightarrow> FilterIndex \<Rightarrow> bool" where
  "fi_ok x fi = (fi_inv x fi \<and> unat (max_total_subscriptions (fi_limits fi)) \<le> 2 ^ 32)"

lemma fi_table_iff:
  "fi_inv x fi \<Longrightarrow> fi_table fi k = Some d \<longleftrightarrow> (\<exists>i. ds_at fi i = Some d) \<and> ds_key d = k"
  by (auto simp: fi_table_def bind_eq_Some_conv inv_link)

lemma fi_table_None: "fi_inv x fi \<Longrightarrow> fi_table fi k = None \<longleftrightarrow> dm_get (fi_slot_by_sub fi) k = None"
  using inv_link [of x fi k "the (dm_get (fi_slot_by_sub fi) k)"]
  by (cases "dm_get (fi_slot_by_sub fi) k") (auto simp: fi_table_def)

lemma fi_table_key: "fi_inv x fi \<Longrightarrow> fi_table fi k = Some d \<Longrightarrow> ds_key d = k"
  by (simp add: fi_table_iff)

text \<open>The contract of a subscription index, as the registry uses it.\<close>

locale subscription_index =
  fixes table :: "'i \<Rightarrow> sub_key \<Rightarrow> DispatchSlot option"
    and ok :: "'i \<Rightarrow> bool"
    and add :: "Subscription \<Rightarrow> NodeId option \<Rightarrow> 'i \<Rightarrow> ('i \<times> (RealtimeError, unit) result) option"
    and remove :: "Subscription \<Rightarrow> 'i \<Rightarrow> 'i"
  assumes add_total: "ok t \<Longrightarrow> add sub node t \<noteq> None"
    and add_accepted: "ok t \<Longrightarrow> parsed_pattern (sb_topic sub) \<Longrightarrow> table t (sb_conn sub, sb_sub sub) = None \<Longrightarrow>
      add sub node t = Some (t', Inr ()) \<Longrightarrow>
      ok t' \<and> table t' = (table t)((sb_conn sub, sb_sub sub) \<mapsto> dispatch_slot_of sub node)"
    and add_rejected: "ok t \<Longrightarrow> add sub node t = Some (t', Inl e) \<Longrightarrow>
      ok t' \<and> table t' = table t \<and> (\<exists>reason. e = CapacityExceeded reason)"
    and remove_effect: "ok t \<Longrightarrow>
      (\<And>d. table t (sb_conn sub, sb_sub sub) = Some d \<Longrightarrow> ds_topic d = sb_topic sub) \<Longrightarrow>
      ok (remove sub t) \<and> table (remove sub t) = (table t)((sb_conn sub, sb_sub sub) := None)"
begin

lemma rejected_status: "ok t \<Longrightarrow> add sub node t = Some (t', Inl e) \<Longrightarrow> status_code e = 429"
  using add_rejected by fastforce

lemma add_remove_id:
  assumes "ok t" and "parsed_pattern (sb_topic sub)" and "table t (sb_conn sub, sb_sub sub) = None"
    and "add sub node t = Some (t', Inr ())"
  shows "table (remove sub t') = table t"
proof -
  have t': "ok t'" "table t' = (table t)((sb_conn sub, sb_sub sub) \<mapsto> dispatch_slot_of sub node)"
    using add_accepted [OF assms] by simp_all
  then have "table (remove sub t') = (table t')((sb_conn sub, sb_sub sub) := None)"
    using remove_effect [of t' sub] by simp
  with t'(2) assms(3) show ?thesis by auto
qed

lemma remove_idem:
  assumes "ok t" and "\<And>d. table t (sb_conn sub, sb_sub sub) = Some d \<Longrightarrow> ds_topic d = sb_topic sub"
  shows "table (remove sub (remove sub t)) = table (remove sub t)"
proof -
  have 1: "ok (remove sub t)" "table (remove sub t) = (table t)((sb_conn sub, sb_sub sub) := None)"
    using remove_effect [OF assms] by blast+
  then show ?thesis using remove_effect [of "remove sub t" sub] by simp
qed

end

lemma fi_add_accepted:
  assumes ok: "fi_ok x fi" and parsed: "parsed_pattern (sb_topic sub)"
    and fresh: "fi_table fi (sb_conn sub, sb_sub sub) = None"
    and res: "add_subscription x sub node fi = Some (fi', Inr ())"
  shows "fi_ok x fi' \<and> fi_table fi' = (fi_table fi)((sb_conn sub, sb_sub sub) \<mapsto> dispatch_slot_of sub node)"
proof -
  have inv: "fi_inv x fi" and room: "unat (max_total_subscriptions (fi_limits fi)) \<le> 2 ^ 32"
    using ok by (simp_all add: fi_ok_def)
  have safe: "fi_safe fi'"
    using add_safe [of fi x sub node] inv res by (auto simp: fi_inv_def)
  have new: "dm_get (fi_slot_by_sub fi) (sb_conn sub, sb_sub sub) = None"
    using fresh fi_table_None [OF inv] by simp
  from add_ok_obtain [OF inv room res] obtain i slots free
    where alloc: "slab_alloc (dispatch_slot_of sub node) (fi_slots fi, fi_free fi) = Some (i, (slots, free))"
      and fi': "fi' = add_accepted x sub i (fi\<lparr>fi_slots := slots, fi_free := free\<rparr>)"
      and used: "slab_used (fi_slots fi, fi_free fi) < 2 ^ 32" .
  note eff = add_fresh_inv [OF inv parsed new used alloc fi' safe]
  have sel: "fi_slot_by_sub fi' = dm_insert (sb_conn sub, sb_sub sub) i (fi_slot_by_sub fi)"
    "fi_limits fi' = fi_limits fi" by (simp_all add: fi')
  have no: "dm_get (fi_slot_by_sub fi) k \<noteq> Some i" for k
    by (simp add: inv_link [OF inv] eff(2))
  have "fi_table fi' k = (if k = (sb_conn sub, sb_sub sub) then Some (dispatch_slot_of sub node) else fi_table fi k)" for k
    using no [of k] by (cases "dm_get (fi_slot_by_sub fi) k") (auto simp: fi_table_def sel eff(3))
  then show ?thesis using eff(1) room by (auto simp: fi_ok_def sel)
qed

lemma fi_add_rejected:
  assumes "fi_ok x fi" and "add_subscription x sub node fi = Some (fi', Inl e)"
  shows "fi_ok x fi' \<and> fi_table fi' = fi_table fi \<and> same_index fi fi' \<and> (\<exists>reason. e = CapacityExceeded reason)"
proof (cases rule: check_limits_cases [where pk = "pattern_str (sb_topic sub)" and sub = sub and fi = fi])
  case ok
  with assms(2) show ?thesis by (auto simp: add_subscription_eq)
next
  case (rejected r)
  then have fi': "fi' = fst (reject_capacity r fi)" and e: "e = CapacityExceeded r"
    using assms(2) by (simp_all add: add_subscription_eq reject_capacity_def)
  have "same_index fi fi'" by (simp add: fi')
  with assms(1) e show ?thesis
    by (auto simp: fi_ok_def same_index_inv)
      (auto simp: same_index_def fi_table_def [abs_def] ds_at_def [abs_def])
qed

lemma fi_remove_effect:
  assumes ok: "fi_ok x fi"
    and topic: "\<And>d. fi_table fi (sb_conn sub, sb_sub sub) = Some d \<Longrightarrow> ds_topic d = sb_topic sub"
  shows "fi_ok x (remove_subscription sub fi) \<and>
    fi_table (remove_subscription sub fi) = (fi_table fi)((sb_conn sub, sb_sub sub) := None)"
proof (cases "dm_get (fi_slot_by_sub fi) (sb_conn sub, sb_sub sub)")
  case None
  with ok show ?thesis by (auto simp: remove_absent fi_table_def)
next
  case (Some i)
  have inv: "fi_inv x fi" using ok by (simp add: fi_ok_def)
  obtain d where d: "ds_at fi i = Some d" using inv_link [OF inv, of _ i] Some by blast
  with topic Some have t: "ds_topic d = sb_topic sub" by (simp add: fi_table_def)
  note eff = remove_inv [OF inv Some d t]
  have sel: "fi_slot_by_sub (remove_subscription sub fi) =
      dm_remove (sb_conn sub, sb_sub sub) (fi_slot_by_sub fi)"
    "fi_limits (remove_subscription sub fi) = fi_limits fi"
    using remove_present [OF Some refl] by simp_all
  have no: "dm_get (fi_slot_by_sub fi) k = Some i \<longleftrightarrow> k = (sb_conn sub, sb_sub sub)" for k
    using inv_link [OF inv, of k i] inv_link [OF inv, of "(sb_conn sub, sb_sub sub)" i] Some d by auto
  have "fi_table (remove_subscription sub fi) k =
      (if k = (sb_conn sub, sb_sub sub) then None else fi_table fi k)" for k
    using no [of k] by (cases "dm_get (fi_slot_by_sub fi) k") (auto simp: fi_table_def sel eff(2))
  then show ?thesis using eff(1) ok by (auto simp: fi_ok_def sel)
qed

interpretation fi: subscription_index fi_table "fi_ok x" "add_subscription x" remove_subscription
  for x
proof (unfold_locales, goal_cases)
  case (1 t sub node)
  then have "fi_safe t" by (simp add: fi_ok_def fi_inv_def)
  from add_safe [OF this, of x sub node] show ?case by fastforce
next
  case (2 t sub node t')
  then show ?case by (rule fi_add_accepted)
next
  case (3 t sub node t' e)
  then show ?case using fi_add_rejected by blast
next
  case (4 t sub)
  then show ?case by (rule fi_remove_effect)
qed

subsection \<open>Bitmap evaluation against direct evaluation\<close>

text \<open>The indexed comparisons of a filter, and the values for which a printed value identifies a
  filter value.\<close>

primrec filter_leaves :: "FilterExpr \<Rightarrow> (FieldPath \<times> FilterValue) list" where
  "filter_leaves (FEq f v) = [(f, v)]"
| "filter_leaves (FIn f vs) = map (\<lambda>v. (f, v)) vs"
| "filter_leaves (FAnd l r) = filter_leaves l @ filter_leaves r"
| "filter_leaves (FOr l r) = filter_leaves l @ filter_leaves r"
| "filter_leaves (FNot e) = []"
| "filter_leaves (FNe f v) = []"

definition not_float_zero :: "FilterValue \<Rightarrow> bool" where
  "not_float_zero v = (case v of FFloat f \<Rightarrow> \<not> f64_is_zero f | _ \<Rightarrow> True)"

text \<open>No comparison with a float zero: the two zeros are equal but print differently.\<close>

definition no_float_zero :: "FilterExpr option \<Rightarrow> bool" where
  "no_float_zero flt =
     (case flt of None \<Rightarrow> True | Some f \<Rightarrow> \<forall>(fld, v)\<in>set (filter_leaves f). not_float_zero v)"

text \<open>The event's value of an indexed field prints like a filter value only when it equals it.\<close>

definition prints_apart :: "Externals \<Rightarrow> EventEnvelope \<Rightarrow> FilterExpr option \<Rightarrow> bool" where
  "prints_apart x event flt =
     (case flt of None \<Rightarrow> True
      | Some f \<Rightarrow> \<forall>(fld, v)\<in>set (filter_leaves f).
          (case event_getter x event fld of None \<Rightarrow> True
           | Some fv \<Rightarrow> value_to_string x fv = value_to_string x v \<longrightarrow> fv_eq fv v))"

definition slot_wants :: "Externals \<Rightarrow> EventEnvelope \<Rightarrow> DispatchSlot \<Rightarrow> bool" where
  "slot_wants x event d =
     (pattern_matches (ds_topic d) (ev_topic event) \<and>
      (case ds_filter d of None \<Rightarrow> True | Some f \<Rightarrow> evaluate f (event_getter x event)))"

lemma fv_eq_not_zero: "fv_eq a b \<Longrightarrow> not_float_zero b \<Longrightarrow> a = b"
  by (cases a; cases b) (auto simp: not_float_zero_def f64_eq_def)

lemma fv_eq_not_zero': "fv_eq b a \<Longrightarrow> not_float_zero b \<Longrightarrow> a = b"
  by (cases a; cases b) (auto simp: not_float_zero_def f64_eq_def)

lemma fv_eq_sym: "fv_eq a b \<longleftrightarrow> fv_eq b a"
  by (cases a; cases b) (auto simp: f64_eq_sym)

lemma filter_keys_leaves:
  "filter_keys x pk f =
     map (\<lambda>(fld, v). make_index_key pk (field_str fld) (value_to_string x v)) (filter_leaves f)"
  by (induction f) auto

lemma leaf_field: "(fld, v) \<in> set (filter_leaves f) \<Longrightarrow> fld \<in> indexed_fields f"
  by (induction f) auto

lemma evaluate_leaf:
  assumes "evaluate f g" and "\<forall>(fld, v)\<in>set (filter_leaves f). not_float_zero v"
  shows "has_residual f \<or> (\<exists>(fld, v)\<in>set (filter_leaves f). g fld = Some v)"
  using assms
proof (induction f)
  case (FEq fld v)
  then show ?case
    by (cases "g fld") (auto simp: opt_fv_eq_def dest: fv_eq_not_zero)
next
  case (FIn fld vs)
  then obtain fv w where "g fld = Some fv" "w \<in> set vs" "fv_eq w fv"
    by (auto simp: list_ex_iff split: option.splits)
  with FIn.prems(2) show ?case by (auto dest: fv_eq_not_zero')
qed auto

lemma leaf_evaluate:
  assumes "is_filter_exact f" and "(fld, v) \<in> set (filter_leaves f)"
    and "g fld = Some fv" and "fv_eq fv v"
  shows "evaluate f g"
  using assms
proof (induction f)
  case (FIn fld' vs)
  then have "fv_eq v fv" "v \<in> set vs" "g fld' = Some fv" using fv_eq_sym by auto
  then show ?case by (auto simp: list_ex_iff)
qed (auto simp: opt_fv_eq_def)

text \<open>Composite keys separate their parts as long as patterns and fields hold no NUL.\<close>

lemma make_index_key_inj:
  assumes "nul \<notin> set p" "nul \<notin> set p'" "nul \<notin> set f" "nul \<notin> set f'"
    and "make_index_key p f v = make_index_key p' f' v'"
  shows "p = p' \<and> f = f' \<and> v = v'"
proof -
  have cut: "a = a' \<and> b = b'" if "nul \<notin> set a" "nul \<notin> set a'" "a @ nul # b = a' @ nul # b'" for a a' b b'
    using that
  proof (induction a arbitrary: a')
    case Nil
    then show ?case by (cases a') auto
  next
    case (Cons c a)
    then show ?case by (cases a') auto
  qed
  have "p @ nul # (f @ nul # v) = p' @ nul # (f' @ nul # v')"
    using assms(5) by (simp add: make_index_key_def)
  from cut [OF assms(1,2) this] cut [OF assms(3,4)] show ?thesis by blast
qed

definition index_clean :: "FilterIndex \<Rightarrow> bool" where
  "index_clean fi =
     (\<forall>k p. dm_get (fi_patterns fi) k = Some p \<longrightarrow>
        nul \<notin> set k \<and> (\<forall>f\<in>fields_at fi k. nul \<notin> set (field_str f)))"

lemma fields_nonempty: "f \<in> fields_at fi k \<Longrightarrow> fi_fields fi \<noteq> []"
  by (auto simp: fields_at_def)

lemma getter_parsed:
  "fi_fields fi \<noteq> [] \<Longrightarrow> envelope_field_getter_cached x event (parse_if_fields x fi event) = event_getter x event"
  by (simp add: parse_if_fields_def event_getter_def fun_eq_iff)

lemma getter_late:
  "envelope_field_getter_cached x event (late_payload x event (parse_if_fields x fi event)) = event_getter x event"
  by (auto simp: parse_if_fields_def late_payload_def event_getter_def split: option.split)

lemma pattern_entry: "fi_inv x fi \<Longrightarrow> (k, p) \<in> set (fi_patterns fi) \<longleftrightarrow> dm_get (fi_patterns fi) k = Some p"
  by (simp add: fi_inv_def inv_slots_def dm_get_iff_in)

lemma inner_complete:
  assumes inv: "fi_inv x fi" and at: "ds_at fi i = Some d" and wants: "slot_wants x event d"
    and nz: "no_float_zero (ds_filter d)"
  shows "i \<in> set (evaluate_inner x fi event (parse_if_fields x fi event))"
proof -
  let ?pk = "pattern_str (ds_topic d)"
  have entry: "(?pk, ds_topic d) \<in> set (fi_patterns fi)"
    using inv_slot [OF inv at] pattern_entry [OF inv] by blast
  have "i \<in> pattern_hits x fi event (parse_if_fields x fi event) (?pk, ds_topic d)"
  proof (cases "sub_unfiltered (ds_filter d)")
    case True
    with wants at inv_unfiltered [OF inv, of i ?pk] show ?thesis
      by (auto simp: pattern_hits_def slot_wants_def)
  next
    case False
    then obtain f where f: "ds_filter d = Some f" and nres: "\<not> has_residual f"
      by (cases "ds_filter d") (auto simp: sub_unfiltered_def)
    with wants nz evaluate_leaf [of f "event_getter x event"] obtain fld v
      where leaf: "(fld, v) \<in> set (filter_leaves f)" and g: "event_getter x event fld = Some v"
      by (auto simp: slot_wants_def no_float_zero_def)
    have fld: "fld \<in> fields_at fi ?pk"
      using inv_slot [OF inv at] leaf_field [OF leaf] f by (auto simp: sub_fields_def)
    have "make_index_key ?pk (field_str fld) (value_to_string x v) \<in> set (ds_keys x d)"
      using leaf by (force simp: ds_keys_def sub_index_keys_def f filter_keys_leaves)
    then have "i \<in> field_hits x fi event (parse_if_fields x fi event) ?pk fld"
      using g at inv_index [OF inv] getter_parsed [OF fields_nonempty [OF fld]]
      by (auto simp: field_hits_def)
    with fld wants show ?thesis by (auto simp: pattern_hits_def slot_wants_def)
  qed
  with entry show ?thesis by (auto simp: evaluate_inner_set)
qed

text \<open>Every hit is a slot subscribed to the topic, with no filter the index can test or with an indexed
  comparison whose value prints as the event's does.\<close>

lemma inner_hit:
  assumes inv: "fi_inv x fi" and clean: "index_clean fi"
    and hit: "i \<in> set (evaluate_inner x fi event (parse_if_fields x fi event))"
  obtains d where "ds_at fi i = Some d" and "pattern_matches (ds_topic d) (ev_topic event)"
    and "sub_unfiltered (ds_filter d) \<or>
      (\<exists>e fld v fv. ds_filter d = Some e \<and> (fld, v) \<in> set (filter_leaves e) \<and>
         event_getter x event fld = Some fv \<and> value_to_string x fv = value_to_string x v)"
proof -
  from hit obtain pp where "pp \<in> set (fi_patterns fi)"
    and "i \<in> pattern_hits x fi event (parse_if_fields x fi event) pp"
    by (auto simp: evaluate_inner_set)
  moreover obtain k p where "pp = (k, p)" by (cases pp)
  ultimately have kp: "dm_get (fi_patterns fi) k = Some p"
    and m: "pattern_matches p (ev_topic event)"
    and cases: "i \<in> bm_at (fi_unfiltered fi) k \<or>
      (\<exists>f\<in>fields_at fi k. i \<in> field_hits x fi event (parse_if_fields x fi event) k f)"
    by (auto simp: pattern_hits_def pattern_entry [OF inv] split: if_splits)
  from cases show ?thesis
  proof
    assume "i \<in> bm_at (fi_unfiltered fi) k"
    then obtain d where d: "ds_at fi i = Some d" "pattern_str (ds_topic d) = k" "sub_unfiltered (ds_filter d)"
      using inv_unfiltered [OF inv] by blast
    with inv_slot [OF inv d(1)] kp m have "pattern_matches (ds_topic d) (ev_topic event)" by simp
    with that d show ?thesis by blast
  next
    assume "\<exists>f\<in>fields_at fi k. i \<in> field_hits x fi event (parse_if_fields x fi event) k f"
    then obtain f fv where f: "f \<in> fields_at fi k" and g: "event_getter x event f = Some fv"
      and at: "i \<in> bm_at (fi_index fi) (make_index_key k (field_str f) (value_to_string x fv))"
      using getter_parsed [OF fields_nonempty]
      by (fastforce simp: field_hits_def split: option.splits)
    then obtain d where d: "ds_at fi i = Some d"
      and key: "make_index_key k (field_str f) (value_to_string x fv) \<in> set (ds_keys x d)"
      using inv_index [OF inv] by blast
    then obtain e where e: "ds_filter d = Some e"
      by (cases "ds_filter d") (auto simp: ds_keys_def sub_index_keys_def)
    with key obtain fld v where leaf: "(fld, v) \<in> set (filter_leaves e)"
      and eq: "make_index_key k (field_str f) (value_to_string x fv) =
        make_index_key (pattern_str (ds_topic d)) (field_str fld) (value_to_string x v)"
      by (auto simp: ds_keys_def sub_index_keys_def filter_keys_leaves)
    note slot = inv_slot [OF inv d]
    have "fld \<in> fields_at fi (pattern_str (ds_topic d))"
      using slot leaf_field [OF leaf] e by (auto simp: sub_fields_def)
    then have "k = pattern_str (ds_topic d) \<and> field_str f = field_str fld \<and>
        value_to_string x fv = value_to_string x v"
      using clean kp slot f by (intro make_index_key_inj [OF _ _ _ _ eq]) (auto simp: index_clean_def)
    then have "k = pattern_str (ds_topic d)" and "f = fld" and vs: "value_to_string x fv = value_to_string x v"
      by (auto intro: FieldPath.expand)
    with slot kp m have "pattern_matches (ds_topic d) (ev_topic event)" by simp
    with that d e leaf g vs \<open>f = fld\<close> show ?thesis by blast
  qed
qed

lemma inner_sound:
  assumes inv: "fi_inv x fi" and clean: "index_clean fi"
    and hit: "i \<in> set (evaluate_inner x fi event (parse_if_fields x fi event))"
    and pa: "\<And>d. ds_at fi i = Some d \<Longrightarrow> prints_apart x event (ds_filter d)"
  obtains d where "ds_at fi i = Some d" and "pattern_matches (ds_topic d) (ev_topic event)"
    and "ds_exact d \<Longrightarrow> slot_wants x event d"
proof -
  obtain d where d: "ds_at fi i = Some d" and m: "pattern_matches (ds_topic d) (ev_topic event)"
    and why: "sub_unfiltered (ds_filter d) \<or>
      (\<exists>e fld v fv. ds_filter d = Some e \<and> (fld, v) \<in> set (filter_leaves e) \<and>
         event_getter x event fld = Some fv \<and> value_to_string x fv = value_to_string x v)"
    by (rule inner_hit [OF inv clean hit])
  note slot = inv_slot [OF inv d]
  have "slot_wants x event d" if exact: "ds_exact d"
    using why
  proof
    assume "sub_unfiltered (ds_filter d)"
    then show ?thesis
      using exact slot m exact_not_residual
      by (auto simp: slot_wants_def sub_unfiltered_def split: option.splits)
  next
    assume "\<exists>e fld v fv. ds_filter d = Some e \<and> (fld, v) \<in> set (filter_leaves e) \<and>
         event_getter x event fld = Some fv \<and> value_to_string x fv = value_to_string x v"
    then obtain e fld v fv where e: "ds_filter d = Some e" and leaf: "(fld, v) \<in> set (filter_leaves e)"
      and g: "event_getter x event fld = Some fv" and vs: "value_to_string x fv = value_to_string x v" by blast
    have "fv_eq fv v" using pa [OF d] leaf g vs by (auto simp: prints_apart_def e)
    then show ?thesis
      using exact slot m leaf_evaluate [OF _ leaf] g by (auto simp: slot_wants_def e)
  qed
  with that d m show ?thesis by blast
qed

lemma bm_wf_union_opt: "bm_wf r \<Longrightarrow> bm_wf (union_opt r f)"
  by (simp add: union_opt_def bm_wf_union_raw split: option.split)

lemma bm_wf_fold: "(\<And>a r. bm_wf r \<Longrightarrow> bm_wf (step a r)) \<Longrightarrow> bm_wf r \<Longrightarrow> bm_wf (fold step as r)"
  by (induction as arbitrary: r) auto

lemma bm_wf_evaluate_inner: "bm_wf (evaluate_inner x fi event parsed)"
  unfolding evaluate_inner_def
  by (rule bm_wf_fold)
    (auto simp: Let_def evaluate_field_def intro!: bm_wf_union_opt bm_wf_fold split: option.split)

lemma bm_wf_evaluate_unfiltered: "bm_wf (evaluate_unfiltered_only fi event)"
  unfolding evaluate_unfiltered_only_def
  by (rule bm_wf_fold) (auto intro!: bm_wf_union_opt)

lemma slots_of_set: "set (slots_of fi b) = {d. \<exists>i\<in>set b. ds_at fi i = Some d}"
  by (induction b) (auto simp: slots_of_def ds_at_def List.map_filter_simps split: option.splits)

lemma slots_of_distinct:
  assumes "fi_inv x fi" and "distinct b"
  shows "distinct (map ds_key (slots_of fi b))"
  using assms(2)
proof (induction b)
  case Nil
  then show ?case by (simp add: slots_of_def List.map_filter_simps)
next
  case (Cons i b)
  show ?case
  proof (cases "ds_at fi i")
    case None
    with Cons show ?thesis by (simp add: slots_of_def ds_at_def List.map_filter_simps)
  next
    case (Some d)
    have "ds_key d \<noteq> ds_key e" if "e \<in> set (slots_of fi b)" for e
    proof
      assume eq: "ds_key d = ds_key e"
      from that obtain j where j: "j \<in> set b" "ds_at fi j = Some e" by (auto simp: slots_of_set)
      then have "i = j" using inv_link [OF assms(1), of "ds_key d"] Some eq by (metis option.inject)
      with Cons.prems j show False by simp
    qed
    with Some Cons show ?thesis
      by (auto simp: slots_of_def ds_at_def List.map_filter_simps)
  qed
qed

text \<open>The hypotheses about printing, for every live subscription.\<close>

definition exact_printing :: "Externals \<Rightarrow> EventEnvelope \<Rightarrow> FilterIndex \<Rightarrow> bool" where
  "exact_printing x event fi =
     (\<forall>k d. fi_table fi k = Some d \<longrightarrow>
        no_float_zero (ds_filter d) \<and> prints_apart x event (ds_filter d))"

lemma exact_printingD:
  "exact_printing x event fi \<Longrightarrow> fi_table fi k = Some d \<Longrightarrow>
     no_float_zero (ds_filter d) \<and> prints_apart x event (ds_filter d)"
  unfolding exact_printing_def by blast

definition table_matches :: "Externals \<Rightarrow> EventEnvelope \<Rightarrow> FilterIndex \<Rightarrow> DispatchSlot set" where
  "table_matches x event fi = {d. \<exists>k. fi_table fi k = Some d \<and> slot_wants x event d}"

lemma fi_table_at: "fi_inv x fi \<Longrightarrow> (\<exists>k. fi_table fi k = Some d) \<longleftrightarrow> (\<exists>i. ds_at fi i = Some d)"
  by (auto simp: fi_table_iff)

lemma matched_complete:
  assumes inv: "fi_inv x fi" and "ds_at fi i = Some d" and "slot_wants x event d"
    and "no_float_zero (ds_filter d)"
  shows "d \<in> set (matched_slots x False event fi)"
proof -
  have "slot_passes x event (parse_if_fields x fi event) d"
    using assms(3) by (auto simp: slot_passes_def slot_wants_def getter_late split: option.splits)
  with inner_complete [OF assms] assms(2) show ?thesis
    by (auto simp: matched_slots_def slots_of_set)
qed

lemma matched_slots_exact:
  assumes inv: "fi_inv x fi" and clean: "index_clean fi" and pr: "exact_printing x event fi"
  shows "set (matched_slots x False event fi) = table_matches x event fi"
proof (intro subset_antisym subsetI)
  fix d assume "d \<in> table_matches x event fi"
  then obtain k where k: "fi_table fi k = Some d" "slot_wants x event d"
    by (auto simp: table_matches_def)
  then obtain i where "ds_at fi i = Some d" by (auto simp: fi_table_iff [OF inv])
  with matched_complete [OF inv this k(2)] exact_printingD [OF pr k(1)]
  show "d \<in> set (matched_slots x False event fi)" by blast
next
  fix d assume "d \<in> set (matched_slots x False event fi)"
  then obtain i where hit: "i \<in> set (evaluate_inner x fi event (parse_if_fields x fi event))"
    and d: "ds_at fi i = Some d" and pass: "slot_passes x event (parse_if_fields x fi event) d"
    by (auto simp: matched_slots_def slots_of_set)
  have tab: "fi_table fi (ds_key d) = Some d" using d by (auto simp: fi_table_iff [OF inv])
  have "prints_apart x event (ds_filter d')" if "ds_at fi i = Some d'" for d'
    using that d exact_printingD [OF pr tab] by simp
  from inner_sound [OF inv clean hit this] d
  have m: "pattern_matches (ds_topic d) (ev_topic event)" and "ds_exact d \<Longrightarrow> slot_wants x event d"
    by auto
  with pass have "slot_wants x event d"
    by (auto simp: slot_passes_def slot_wants_def getter_late split: option.splits)
  with tab show "d \<in> table_matches x event fi" unfolding table_matches_def by blast
qed

lemma matched_slots_distinct:
  assumes "fi_inv x fi" shows "distinct (map ds_key (matched_slots x degraded event fi))"
proof -
  have "distinct (map ds_key (slots_of fi b))" if "bm_wf b" for b
    using that slots_of_distinct [OF assms] by (simp add: bm_wf_def)
  with bm_wf_evaluate_inner bm_wf_evaluate_unfiltered show ?thesis
    by (auto simp: matched_slots_def distinct_map_filter)
qed

text \<open>A caller the breaker lets through evaluates fully.\<close>

lemma closed_not_degraded: "\<not> cb_open (fi_breaker fi) \<Longrightarrow> \<not> fst (fi_is_open ck fi)"
  by (simp add: fi_is_open_def is_open_closed)

lemma collect_exact:
  assumes inv: "fi_inv x fi" and "index_clean fi" and "exact_printing x event fi"
    and "\<not> fst (fi_is_open ck fi)"
  obtains ms fi' where "fi_collect_matches x ck event fi = Some (ms, fi')"
    and "set ms = slot_match ` table_matches x event fi"
    and "distinct (map (\<lambda>(c, s, n). (c, s)) ms)" and "same_index fi fi'"
proof -
  have safe: "fi_safe fi" using inv by (simp add: fi_inv_def)
  let ?ds = "matched_slots x False event fi"
  have "(\<lambda>(c, s, n). (c, s)) \<circ> slot_match = ds_key"
    by (simp add: fun_eq_iff slot_match_def ds_key_def)
  with fi_collect_matches_eq [OF safe refl, of x ck event] assms(4) after_match_same
    matched_slots_distinct [OF inv, where degraded = False and event = event] matched_slots_exact [OF assms(1-3)]
  show ?thesis by (intro that) auto
qed

lemma degraded_set:
  assumes inv: "fi_inv x fi"
  shows "set (matched_slots x True event fi) =
     {d. \<exists>k. fi_table fi k = Some d \<and> pattern_matches (ds_topic d) (ev_topic event) \<and>
              sub_unfiltered (ds_filter d)}"
proof -
  have "i \<in> set (evaluate_unfiltered_only fi event) \<longleftrightarrow>
     (\<exists>d. ds_at fi i = Some d \<and> pattern_matches (ds_topic d) (ev_topic event) \<and>
          sub_unfiltered (ds_filter d))" for i
  proof
    assume "i \<in> set (evaluate_unfiltered_only fi event)"
    then obtain k p where kp: "dm_get (fi_patterns fi) k = Some p" "pattern_matches p (ev_topic event)"
      and "i \<in> bm_at (fi_unfiltered fi) k"
      by (auto simp: evaluate_unfiltered_set unfiltered_hits_def pattern_entry [OF inv] split: if_splits)
    then obtain d where "ds_at fi i = Some d" "pattern_str (ds_topic d) = k" "sub_unfiltered (ds_filter d)"
      using inv_unfiltered [OF inv] by blast
    with kp inv_slot [OF inv this(1)] show "\<exists>d. ds_at fi i = Some d \<and>
        pattern_matches (ds_topic d) (ev_topic event) \<and> sub_unfiltered (ds_filter d)" by auto
  next
    assume "\<exists>d. ds_at fi i = Some d \<and> pattern_matches (ds_topic d) (ev_topic event) \<and>
        sub_unfiltered (ds_filter d)"
    then obtain d where d: "ds_at fi i = Some d" "pattern_matches (ds_topic d) (ev_topic event)"
      "sub_unfiltered (ds_filter d)" by blast
    then have "(pattern_str (ds_topic d), ds_topic d) \<in> set (fi_patterns fi)"
      using inv_slot [OF inv d(1)] pattern_entry [OF inv] by blast
    moreover have "i \<in> unfiltered_hits fi event (pattern_str (ds_topic d), ds_topic d)"
      using d inv_unfiltered [OF inv] by (auto simp: unfiltered_hits_def)
    ultimately show "i \<in> set (evaluate_unfiltered_only fi event)"
      unfolding evaluate_unfiltered_set by blast
  qed
  then show ?thesis
    using fi_table_at [OF inv] by (fastforce simp: matched_slots_def slots_of_set)
qed

text \<open>Whatever the breaker says and the filters hold, a matched slot is a live one subscribed to the topic.\<close>

lemma matched_topic:
  assumes inv: "fi_inv x fi" and "index_clean fi" and "d \<in> set (matched_slots x degraded event fi)"
  shows "(\<exists>k. fi_table fi k = Some d) \<and> pattern_matches (ds_topic d) (ev_topic event)"
proof (cases degraded)
  case True
  with assms(3) degraded_set [OF inv, of event] show ?thesis by auto
next
  case False
  with assms(3) obtain i where "i \<in> set (evaluate_inner x fi event (parse_if_fields x fi event))"
    and d: "ds_at fi i = Some d"
    by (auto simp: matched_slots_def slots_of_set)
  from inner_hit [OF inv assms(2) this(1)] d have "pattern_matches (ds_topic d) (ev_topic event)" by auto
  with d fi_table_at [OF inv] show ?thesis by blast
qed

subsection \<open>Clean subscriptions\<close>

definition sub_clean :: "Subscription \<Rightarrow> bool" where
  "sub_clean sub =
     (nul \<notin> set (pattern_str (sb_topic sub)) \<and>
      (\<forall>f\<in>sub_fields (sb_filter sub). nul \<notin> set (field_str f)))"

definition fields_clean :: "FilterIndex \<Rightarrow> bool" where
  "fields_clean fi =
     ((\<forall>k. \<forall>f\<in>fields_at fi k. nul \<notin> set (field_str f)) \<and>
      (\<forall>k p. dm_get (fi_patterns fi) k = Some p \<longrightarrow> nul \<notin> set k))"

lemma fields_clean_index: "fields_clean fi \<Longrightarrow> index_clean fi"
  by (simp add: fields_clean_def index_clean_def)

lemma fields_clean_same: "same_index fi fi' \<Longrightarrow> fields_clean fi' = fields_clean fi"
  by (simp add: same_index_def fields_clean_def fields_at_def)

lemma fields_clean_add:
  assumes "fields_clean fi" and "sub_clean sub" and "add_subscription x sub node fi = Some (fi', r)"
  shows "fields_clean fi'"
proof (cases rule: check_limits_cases [where pk = "pattern_str (sb_topic sub)" and sub = sub and fi = fi])
  case ok
  with assms(3) obtain i slots free
    where fi': "fi' = add_accepted x sub i (fi\<lparr>fi_slots := slots, fi_free := free\<rparr>)"
    by (auto simp: add_subscription_eq alloc_slot_eq)
  show ?thesis
    using assms(1,2) by (auto simp: fields_clean_def fi' add_accepted_bits sub_clean_def split: if_splits)
next
  case (rejected r')
  then have "fi' = fst (reject_capacity r' fi)"
    using assms(3) by (simp add: add_subscription_eq reject_capacity_def)
  then have "same_index fi fi'" by simp
  with assms(1) fields_clean_same show ?thesis by blast
qed

lemma fields_clean_remove: "fields_clean fi \<Longrightarrow> fields_clean (remove_subscription sub fi)"
  by (cases "dm_get (fi_slot_by_sub fi) (sb_conn sub, sb_sub sub)")
    (auto simp: remove_absent fields_clean_def fields_at_def remove_present [OF _ refl])

lemma fields_clean_new: "fields_clean (fi_with_limits l)"
  by (simp add: fields_clean_def fi_with_limits_def fields_at_def)

subsection \<open>An example index\<close>

text \<open>A concrete instance of the external functions, one event and subscriptions for the examples,
  with the rewrite rules that evaluate the operations on them.\<close>

definition demo_ext :: Externals where
  "demo_ext = \<lparr>x_from_slice = (\<lambda>b.
       if b = ''n42'' then Some (JObject [(''n'', JNumber (NumI64 42))])
       else if b = ''n0'' then Some (JObject [(''n'', JNumber (NumF64 0))]) else None),
     x_to_vec = (\<lambda>_. None), x_f64_display = (\<lambda>f. if f = 0 then ''0'' else ''-0''),
     x_int_as_f64 = (\<lambda>_. 0), x_debug_str = (\<lambda>s. s)\<rparr>"

definition demo_sub :: "string \<Rightarrow> string \<Rightarrow> FilterExpr option \<Rightarrow> Subscription" where
  "demo_sub sid topic flt = \<lparr>sb_sub = SubscriptionId sid, sb_conn = ConnectionId 1,
     sb_topic = pattern_parse topic, sb_filter = flt, sb_config = sub_config_default\<rparr>"

definition demo_event :: "string \<Rightarrow> bytes \<Rightarrow> EventEnvelope" where
  "demo_event topic payload = envelope_new (EventId 0) 0 (TopicPath topic) ''created'' payload"

definition demo_clock :: Clock where
  "demo_clock = \<lparr>ck_elapsed_us = 1, ck_open_ms = 0, ck_trip_ms = 0, ck_reopen_ms = 0\<rparr>"

lemma show_i64_42: "show_i64 42 = ''42''"
  by code_simp

lemmas eval_maps = dm_get_def dm_insert_def dm_remove_def dm_entry_def dm_modify_def dm_or_insert_def
  dm_contains_def dm_len_def bm_insert_def bm_union_def bm_remove_def bm_len_def insort_insert_key_def

lemmas eval_index = check_limits_def Let_def add_subscription_def alloc_slot_def slab_alloc_def
  dispatch_slot_of_def fi_map_stats_def index_one_def index_field_def fi_bump_keys_def
  fi_with_limits_def limits_default_def stats_new_def breaker_new_def pattern_sub_count_def
  existing_fields_def count_new_fields_def estimate_new_keys_def field_path_new_def
  fi_collect_matches_def fi_is_open_def is_open_def evaluate_inner_def parse_if_fields_def
  evaluate_field_def union_opt_def get_unchecked_def call_slot_def push_match_def fi_record_def
  record_evaluation_def report_def make_index_key_def remove_subscription_def free_slot_def
  slab_free_def remove_keys_def show_i64_42

lemmas eval_types = pattern_parse_def topic_new_def ends_with_char_def envelope_new_def
  envelope_field_getter_cached_def starts_with_def extract_payload_field_cached_def glob_match_def
  opt_fv_eq_def

definition demo_fi :: FilterIndex where
  "demo_fi = fst (the (add_subscription demo_ext
     (demo_sub ''s3'' ''a/b'' (Some (FNe (FieldPath ''n'') (FInteger 42)))) None
     (fi_with_limits limits_default)))"

lemma demo_new_ok: "fi_ok x (fi_with_limits limits_default)"
  by (simp add: fi_ok_def fi_inv_new) (simp add: fi_with_limits_def limits_default_def)

lemma demo_new_table: "fi_table (fi_with_limits limits_default) k = None"
  by (simp add: fi_table_def fi_with_limits_def)

lemma demo_fi_added:
  "add_subscription demo_ext (demo_sub ''s3'' ''a/b'' (Some (FNe (FieldPath ''n'') (FInteger 42)))) None
     (fi_with_limits limits_default) = Some (demo_fi, Inr ())"
  by (simp add: demo_fi_def eval_maps eval_index eval_types demo_sub_def)

subsection \<open>Properties\<close>

text \<open>Memory safety: no sequence of additions, removals and evaluations panics or reads outside
  the slab, whatever the subscriptions, events, limits and clock readings: every run returns, and in
  the state it reaches every identifier in the bitmaps, the free list and the reverse map is an
  index into the slab.\<close>

theorem index_never_faults:
  "\<exists>fi. fi_run x ops (fi_with_limits l) = Some fi \<and> fi_safe fi \<and>
     fi_collect_matches x ck event fi \<noteq> None \<and> add_subscription x sub node fi \<noteq> None"
proof -
  obtain fi where fi: "fi_run x ops (fi_with_limits l) = Some fi" "fi_safe fi"
    by (rule fi_run_safe [OF fi_safe_new])
  obtain fi' r where "add_subscription x sub node fi = Some (fi', r)"
    by (rule add_safe [OF fi(2)])
  with fi fi_collect_matches_eq [OF fi(2) refl, of x ck event] show ?thesis by auto
qed

text \<open>C14: the index refines a table of subscriptions: an accepted addition of a fresh pair inserts
  its dispatch slot and nothing else, a refused one is a capacity error that leaves the table and
  the indexed data unchanged, and a removal deletes exactly its pair; the representation invariant
  holds after each.\<close>

theorem index_refines_table:
  assumes "fi_ok x fi" and "parsed_pattern (sb_topic sub)"
  shows "(fi_table fi (sb_conn sub, sb_sub sub) = None \<longrightarrow>
       add_subscription x sub node fi = Some (fi1, Inr ()) \<longrightarrow>
       fi_ok x fi1 \<and>
       fi_table fi1 = (fi_table fi)((sb_conn sub, sb_sub sub) \<mapsto> dispatch_slot_of sub node) \<and>
       fi_table (remove_subscription sub fi1) = fi_table fi) \<and>
    (add_subscription x sub node fi = Some (fi2, Inl e) \<longrightarrow>
       fi_ok x fi2 \<and> fi_table fi2 = fi_table fi \<and> same_index fi fi2 \<and> status_code e = 429) \<and>
    (fi_table fi (sb_conn sub, sb_sub sub) = Some (dispatch_slot_of sub node) \<longrightarrow>
       fi_ok x (remove_subscription sub fi) \<and>
       fi_table (remove_subscription sub fi) = (fi_table fi)((sb_conn sub, sb_sub sub) := None))"
proof (intro conjI impI)
  assume "fi_table fi (sb_conn sub, sb_sub sub) = None" "add_subscription x sub node fi = Some (fi1, Inr ())"
  from fi.add_accepted [OF assms this] fi.add_remove_id [OF assms this]
  show "fi_ok x fi1"
    "fi_table fi1 = (fi_table fi)((sb_conn sub, sb_sub sub) \<mapsto> dispatch_slot_of sub node)"
    "fi_table (remove_subscription sub fi1) = fi_table fi" by blast+
next
  assume "add_subscription x sub node fi = Some (fi2, Inl e)"
  from fi_add_rejected [OF assms(1) this] fi.rejected_status [OF assms(1) this]
  show "fi_ok x fi2" "fi_table fi2 = fi_table fi" "same_index fi fi2" "status_code e = 429" by blast+
next
  assume "fi_table fi (sb_conn sub, sb_sub sub) = Some (dispatch_slot_of sub node)"
  then have "\<And>d. fi_table fi (sb_conn sub, sb_sub sub) = Some d \<Longrightarrow> ds_topic d = sb_topic sub" by auto
  from fi.remove_effect [OF assms(1) this]
  show "fi_ok x (remove_subscription sub fi)"
    "fi_table (remove_subscription sub fi) = (fi_table fi)((sb_conn sub, sb_sub sub) := None)" by blast+
qed

theorem index_refines_table_witness:
  "fi_ok demo_ext demo_fi \<and> fi_table demo_fi (ConnectionId 1, SubscriptionId ''s3'') \<noteq> None \<and>
   fi_table (remove_subscription (demo_sub ''s3'' ''a/b'' (Some (FNe (FieldPath ''n'') (FInteger 42)))) demo_fi)
     (ConnectionId 1, SubscriptionId ''s3'') = None"
proof -
  have "parsed_pattern (sb_topic (demo_sub ''s3'' ''a/b'' (Some (FNe (FieldPath ''n'') (FInteger 42)))))"
    by (simp add: demo_sub_def)
  from index_refines_table [OF demo_new_ok this, of demo_ext None demo_fi] demo_fi_added demo_new_table
  show ?thesis by (simp add: demo_sub_def)
qed

text \<open>the callback interface and the collecting interface are the same evaluation: after any run,
  \<open>for_each_match\<close> calls back once per collected match, in the same order, returns their number and
  leaves the same state.\<close>

theorem for_each_equals_collect:
  "\<exists>fi ms fi'. fi_run x ops (fi_with_limits l) = Some fi \<and>
     fi_collect_matches x ck event fi = Some (ms, fi') \<and>
     fi_for_each_match x ck event cb fi acc =
       Some (length ms, fold (\<lambda>(c, s, n). cb c s n) ms acc, fi')"
proof -
  obtain fi where fi: "fi_run x ops (fi_with_limits l) = Some fi" "fi_safe fi"
    by (rule fi_run_safe [OF fi_safe_new])
  obtain ms fi' where c: "fi_collect_matches x ck event fi = Some (ms, fi')"
    using fi_collect_matches_eq [OF fi(2) refl, of x ck event] by blast
  from for_each_is_collect [OF fi(2) c, of cb acc] fi(1) c show ?thesis by blast
qed

text \<open>What a caller refused by the circuit breaker delivers: the live subscriptions on the topic
  that have no filter, and also those whose filter holds a \<open>Ne\<close> or \<open>Not\<close>, without testing it.\<close>

theorem degraded_delivery:
  assumes "fi_inv x fi" and "fst (fi_is_open ck fi)"
  shows "\<exists>ms fi'. fi_collect_matches x ck event fi = Some (ms, fi') \<and>
     set ms = slot_match ` {d. \<exists>k. fi_table fi k = Some d \<and>
       pattern_matches (ds_topic d) (ev_topic event) \<and> sub_unfiltered (ds_filter d)}"
proof -
  have "fi_safe fi" using assms(1) by (simp add: fi_inv_def)
  from fi_collect_matches_eq [OF this refl, of x ck event] assms(2) degraded_set [OF assms(1), of event]
  show ?thesis by simp
qed

theorem degraded_delivery_witness:
  "\<exists>ms fi'. fi_collect_matches demo_ext demo_clock (demo_event ''a/b'' ''n42'')
      (demo_fi\<lparr>fi_breaker := (breaker_new limits_default)\<lparr>cb_open := True\<rparr>\<rparr>) = Some (ms, fi') \<and>
     (ConnectionId 1, SubscriptionId ''s3'', None) \<in> set ms \<and>
     \<not> evaluate (FNe (FieldPath ''n'') (FInteger 42)) (event_getter demo_ext (demo_event ''a/b'' ''n42''))"
proof -
  let ?sub = "demo_sub ''s3'' ''a/b'' (Some (FNe (FieldPath ''n'') (FInteger 42)))"
  let ?fi = "demo_fi\<lparr>fi_breaker := (breaker_new limits_default)\<lparr>cb_open := True\<rparr>\<rparr>"
  have "parsed_pattern (sb_topic ?sub)" by (simp add: demo_sub_def)
  from fi_add_accepted [OF demo_new_ok this demo_new_table demo_fi_added]
  have ok: "fi_ok demo_ext demo_fi"
    and tab: "fi_table demo_fi (ConnectionId 1, SubscriptionId ''s3'') = Some (dispatch_slot_of ?sub None)"
    by (simp_all add: demo_sub_def)
  have same: "same_index demo_fi ?fi" by (simp add: same_index_def)
  have "fi_inv demo_ext ?fi" using ok same_index_inv [OF same] by (simp add: fi_ok_def)
  moreover have "fst (fi_is_open demo_clock ?fi)"
    by (simp add: fi_is_open_def is_open_def breaker_new_def limits_default_def saturating_sub_def
        demo_clock_def)
  moreover have "fi_table ?fi (ConnectionId 1, SubscriptionId ''s3'') = Some (dispatch_slot_of ?sub None)"
    using tab by (simp add: fi_table_def ds_at_def [abs_def])
  moreover have "(ConnectionId 1, SubscriptionId ''s3'', None) = slot_match (dispatch_slot_of ?sub None)"
    "pattern_matches (sb_topic ?sub) (ev_topic (demo_event ''a/b'' ''n42''))" "sub_unfiltered (sb_filter ?sub)"
    "\<not> evaluate (FNe (FieldPath ''n'') (FInteger 42)) (event_getter demo_ext (demo_event ''a/b'' ''n42''))"
    by (simp_all add: slot_match_def dispatch_slot_of_def demo_sub_def demo_event_def eval_types
        sub_unfiltered_def event_getter_def demo_ext_def)
  ultimately show ?thesis
    using degraded_delivery [of demo_ext ?fi demo_clock "demo_event ''a/b'' ''n42''"]
    by (fastforce simp: image_iff)
qed

end
