(* ===== verification/Rt_Registry.thy ===== *)
theory Rt_Registry
  imports Rt_Index_Match "HOL-Library.Multiset"
begin

text \<open>
  The subscription registry (\<open>crates/realtime-engine/src/registry\<close>): four maps over the same
  subscriptions plus the filter index, with admission guards, subscription, removal and the two
  lookups.  Lemmas: the maps and the index stay in step, and the linear and the bitmap lookup return
  the same matches.
\<close>

text \<open>Keys are pairs; quantifiers over them stay as written.\<close>

declare split_paired_All [simp del] split_paired_Ex [simp del]

subsection \<open>State (mod.rs)\<close>

record SubscriptionEntry =
  se_subscription :: Subscription
  se_gateway_node :: "NodeId option"

record SubscriptionRegistry =
  rg_by_connection :: "(ConnectionId, SubscriptionEntry list) dashmap"
  rg_by_topic :: "(string, (ConnectionId \<times> SubscriptionId) list) dashmap"
  rg_by_sub_id :: "(ConnectionId \<times> string, SubscriptionEntry) dashmap"
  rg_patterns :: "(string, TopicPattern) dashmap"
  rg_filter_index :: FilterIndex

definition registry_with_limits :: "FilterIndexLimits \<Rightarrow> SubscriptionRegistry" where
  "registry_with_limits limits =
     \<lparr>rg_by_connection = [], rg_by_topic = [], rg_by_sub_id = [], rg_patterns = [],
      rg_filter_index = fi_with_limits limits\<rparr>"

definition registry_new :: SubscriptionRegistry where
  "registry_new =
     \<lparr>rg_by_connection = [], rg_by_topic = [], rg_by_sub_id = [], rg_patterns = [],
      rg_filter_index = fi_new\<rparr>"

subsection \<open>Guards (guards.rs) and subscription (mod.rs)\<close>

definition check_subscription_guards ::
    "SubscriptionRegistry \<Rightarrow> ConnectionId \<Rightarrow> usize \<Rightarrow> usize \<Rightarrow> (RealtimeError, unit) result" where
  "check_subscription_guards r conn_id max_per_connection max_total =
     (let global_cap =
        (let total = dm_len (rg_by_sub_id r) in
         if unat max_total \<le> total then
           Inl (CapacityExceeded (''global subscription count '' @ show_nat total @
             '' reached limit of '' @ show_word max_total))
         else Inr ())
      in case dm_get (rg_by_connection r) conn_id of
           None \<Rightarrow> global_cap
         | Some subs \<Rightarrow>
             if unat max_per_connection \<le> length subs then
               Inl (CapacityExceeded (''connection '' @ show_conn_id conn_id @ '' already has '' @
                 show_nat (length subs) @ '' subscriptions (max: '' @
                 show_word max_per_connection @ '')''))
             else global_cap)"

definition registry_insert ::
    "Subscription \<Rightarrow> NodeId option \<Rightarrow> SubscriptionRegistry \<Rightarrow> SubscriptionRegistry" where
  "registry_insert sub gateway_node r =
     (let entry = \<lparr>se_subscription = sub, se_gateway_node = gateway_node\<rparr>;
          r = r\<lparr>rg_by_connection :=
                dm_entry (sb_conn sub) [] (\<lambda>v. v @ [entry]) (rg_by_connection r)\<rparr>;
          pattern_key = pattern_str (sb_topic sub);
          r = r\<lparr>rg_by_topic :=
                dm_entry pattern_key [] (\<lambda>v. v @ [(sb_conn sub, sb_sub sub)]) (rg_by_topic r)\<rparr>;
          r = r\<lparr>rg_patterns := dm_or_insert pattern_key (sb_topic sub) (rg_patterns r)\<rparr>
      in r\<lparr>rg_by_sub_id :=
           dm_insert (sb_conn sub, sub_raw (sb_sub sub)) entry (rg_by_sub_id r)\<rparr>)"

definition subscribe ::
    "Externals \<Rightarrow> Subscription \<Rightarrow> NodeId option \<Rightarrow> SubscriptionRegistry
      \<Rightarrow> (SubscriptionRegistry \<times> (RealtimeError, unit) result) option" where
  "subscribe x sub gateway_node r =
     (let limits = fi_limits (rg_filter_index r) in
      case check_subscription_guards r (sb_conn sub) (max_subscriptions_per_connection limits)
             (max_total_subscriptions limits) of
        Inl e \<Rightarrow> Some (r, Inl e)
      | Inr _ \<Rightarrow>
          do { (fi, res) \<leftarrow> add_subscription x sub gateway_node (rg_filter_index r);
               (let r = r\<lparr>rg_filter_index := fi\<rparr> in
                case res of
                  Inl e \<Rightarrow> Some (r, Inl e)
                | Inr _ \<Rightarrow> Some (registry_insert sub gateway_node r, Inr ())) })"

subsection \<open>Removal (unsubscribe.rs)\<close>

definition unsubscribe ::
    "ConnectionId \<Rightarrow> string \<Rightarrow> SubscriptionRegistry \<Rightarrow> SubscriptionRegistry \<times> bool" where
  "unsubscribe conn_id sub_id r =
     (case dm_get (rg_by_sub_id r) (conn_id, sub_id) of
        None \<Rightarrow> (r, False)
      | Some entry \<Rightarrow>
          let r = r\<lparr>rg_by_sub_id := dm_remove (conn_id, sub_id) (rg_by_sub_id r)\<rparr>;
              r = r\<lparr>rg_by_connection := dm_modify conn_id
                    (filter (\<lambda>e. sub_raw (sb_sub (se_subscription e)) \<noteq> sub_id)) (rg_by_connection r)\<rparr>;
              pattern_key = pattern_str (sb_topic (se_subscription entry));
              r = r\<lparr>rg_by_topic := dm_modify pattern_key
                    (filter (\<lambda>(cid, sid). \<not> (cid = conn_id \<and> sub_raw sid = sub_id))) (rg_by_topic r)\<rparr>
          in (r\<lparr>rg_filter_index := remove_subscription (se_subscription entry) (rg_filter_index r)\<rparr>,
              True))"

definition remove_entry ::
    "ConnectionId \<Rightarrow> SubscriptionEntry \<Rightarrow> SubscriptionRegistry \<Rightarrow> SubscriptionRegistry" where
  "remove_entry conn_id entry r =
     (let sub = se_subscription entry;
          pattern_key = pattern_str (sb_topic sub);
          r = r\<lparr>rg_by_topic := dm_modify pattern_key
                (filter (\<lambda>(cid, _). cid \<noteq> conn_id)) (rg_by_topic r)\<rparr>;
          r = r\<lparr>rg_by_sub_id := dm_remove (conn_id, sub_raw (sb_sub sub)) (rg_by_sub_id r)\<rparr>
      in r\<lparr>rg_filter_index := remove_subscription sub (rg_filter_index r)\<rparr>)"

definition registry_remove_connection ::
    "ConnectionId \<Rightarrow> SubscriptionRegistry \<Rightarrow> SubscriptionRegistry" where
  "registry_remove_connection conn_id r =
     (case dm_get (rg_by_connection r) conn_id of
        None \<Rightarrow> r
      | Some subs \<Rightarrow>
          fold (remove_entry conn_id) subs
            (r\<lparr>rg_by_connection := dm_remove conn_id (rg_by_connection r)\<rparr>))"

subsection \<open>Lookups (lookup.rs) and counters (counters.rs)\<close>

definition lookup_entry ::
    "Externals \<Rightarrow> EventEnvelope \<Rightarrow> SubscriptionRegistry \<Rightarrow> ConnectionId \<times> SubscriptionId
      \<Rightarrow> match list" where
  "lookup_entry x event r = (\<lambda>(conn_id, sub_id).
     case dm_get (rg_by_sub_id r) (conn_id, sub_raw sub_id) of
       None \<Rightarrow> []
     | Some entry \<Rightarrow>
         (case sb_filter (se_subscription entry) of
            Some f \<Rightarrow>
              if \<not> evaluate f (envelope_field_getter_cached x event (x_from_slice x (ev_payload event)))
              then [] else [(conn_id, sub_id, se_gateway_node entry)]
          | None \<Rightarrow> [(conn_id, sub_id, se_gateway_node entry)]))"

definition lookup_matches ::
    "Externals \<Rightarrow> EventEnvelope \<Rightarrow> SubscriptionRegistry \<Rightarrow> match list" where
  "lookup_matches x event r =
     concat (map (\<lambda>(pattern_key, pattern).
         if \<not> pattern_matches pattern (ev_topic event) then []
         else (case dm_get (rg_by_topic r) pattern_key of
                 None \<Rightarrow> []
               | Some topic_subs \<Rightarrow> concat (map (lookup_entry x event r) topic_subs)))
       (rg_patterns r))"

definition lookup_matches_bitmap ::
    "Externals \<Rightarrow> Clock \<Rightarrow> EventEnvelope \<Rightarrow> SubscriptionRegistry
      \<Rightarrow> (match list \<times> SubscriptionRegistry) option" where
  "lookup_matches_bitmap x ck event r =
     do { (matches, fi) \<leftarrow> fi_collect_matches x ck event (rg_filter_index r);
          Some (matches, r\<lparr>rg_filter_index := fi\<rparr>) }"

definition registry_for_each_match ::
    "Externals \<Rightarrow> Clock \<Rightarrow> EventEnvelope \<Rightarrow> 'a callback \<Rightarrow> SubscriptionRegistry \<Rightarrow> 'a
      \<Rightarrow> (nat \<times> 'a \<times> SubscriptionRegistry) option" where
  "registry_for_each_match x ck event callback r acc =
     do { (count, acc, fi) \<leftarrow> fi_for_each_match x ck event callback (rg_filter_index r) acc;
          Some (count, acc, r\<lparr>rg_filter_index := fi\<rparr>) }"

definition get_connection_subscriptions ::
    "ConnectionId \<Rightarrow> SubscriptionRegistry \<Rightarrow> SubscriptionEntry list" where
  "get_connection_subscriptions conn_id r =
     (case dm_get (rg_by_connection r) conn_id of None \<Rightarrow> [] | Some v \<Rightarrow> v)"

definition get_topic_sequence :: "string \<Rightarrow> SubscriptionRegistry \<Rightarrow> u64" where
  "get_topic_sequence topic r = 0"

definition subscription_count :: "SubscriptionRegistry \<Rightarrow> nat" where
  "subscription_count r = dm_len (rg_by_sub_id r)"

definition connection_count :: "SubscriptionRegistry \<Rightarrow> nat" where
  "connection_count r = dm_len (rg_by_connection r)"

definition pattern_count :: "SubscriptionRegistry \<Rightarrow> nat" where
  "pattern_count r = dm_len (rg_patterns r)"

definition filter_index_snapshot :: "SubscriptionRegistry \<Rightarrow> StatsSnapshot" where
  "filter_index_snapshot r = stats_snapshot (fi_stats (rg_filter_index r))"

subsection \<open>The maps stay in step\<close>

definition topic_list :: "SubscriptionRegistry \<Rightarrow> string \<Rightarrow> (ConnectionId \<times> SubscriptionId) list" where
  "topic_list r k = (case dm_get (rg_by_topic r) k of None \<Rightarrow> [] | Some v \<Rightarrow> v)"

definition entry_slot :: "SubscriptionEntry \<Rightarrow> DispatchSlot" where
  "entry_slot e = dispatch_slot_of (se_subscription e) (se_gateway_node e)"

definition entry_key :: "SubscriptionEntry \<Rightarrow> ConnectionId \<times> string" where
  "entry_key e = (sb_conn (se_subscription e), sub_raw (sb_sub (se_subscription e)))"

definition live :: "SubscriptionRegistry \<Rightarrow> SubscriptionEntry \<Rightarrow> bool" where
  "live r e = (dm_get (rg_by_sub_id r) (entry_key e) = Some e)"

definition rg_index_inv :: "Externals \<Rightarrow> SubscriptionRegistry \<Rightarrow> bool" where
  "rg_index_inv x r =
     (fi_ok x (rg_filter_index r) \<and>
      (\<forall>c s. fi_table (rg_filter_index r) (c, SubscriptionId s) =
         map_option entry_slot (dm_get (rg_by_sub_id r) (c, s))))"

definition rg_maps_inv :: "SubscriptionRegistry \<Rightarrow> bool" where
  "rg_maps_inv r =
     (dm_wf (rg_by_sub_id r) \<and> dm_wf (rg_patterns r) \<and>
      (\<forall>k e. dm_get (rg_by_sub_id r) k = Some e \<longrightarrow>
         entry_key e = k \<and> parsed_pattern (sb_topic (se_subscription e)) \<and>
         dm_contains (rg_patterns r) (pattern_str (sb_topic (se_subscription e)))) \<and>
      (\<forall>k p. dm_get (rg_patterns r) k = Some p \<longrightarrow> p = pattern_parse k))"

definition rg_lists_inv :: "SubscriptionRegistry \<Rightarrow> bool" where
  "rg_lists_inv r =
     ((\<forall>k. distinct (topic_list r k)) \<and>
      (\<forall>k c s. (c, s) \<in> set (topic_list r k) \<longleftrightarrow>
         (\<exists>e. live r e \<and> entry_key e = (c, sub_raw s) \<and>
              pattern_str (sb_topic (se_subscription e)) = k)) \<and>
      (\<forall>c. distinct (get_connection_subscriptions c r)) \<and>
      (\<forall>c e. e \<in> set (get_connection_subscriptions c r) \<longleftrightarrow>
         live r e \<and> sb_conn (se_subscription e) = c))"

definition rg_inv :: "Externals \<Rightarrow> SubscriptionRegistry \<Rightarrow> bool" where
  "rg_inv x r = (rg_index_inv x r \<and> rg_maps_inv r \<and> rg_lists_inv r)"

lemma SubscriptionId_raw [simp]: "SubscriptionId (sub_raw s) = s"
  by (cases s) simp

lemma sub_raw_eq [simp]: "sub_raw a = sub_raw b \<longleftrightarrow> a = b"
  by (cases a; cases b) simp

lemma rg_inv_new: "unat (max_total_subscriptions l) \<le> 2 ^ 32 \<Longrightarrow> rg_inv x (registry_with_limits l)"
  by (simp add: rg_inv_def rg_index_inv_def rg_maps_inv_def rg_lists_inv_def registry_with_limits_def
      fi_ok_def fi_inv_new fi_table_def topic_list_def get_connection_subscriptions_def live_def)
    (simp add: fi_with_limits_def)

lemma rg_table:
  "rg_inv x r \<Longrightarrow> fi_table (rg_filter_index r) (c, s) =
     map_option entry_slot (dm_get (rg_by_sub_id r) (c, sub_raw s))"
  unfolding rg_inv_def rg_index_inv_def using SubscriptionId_raw by metis

lemma rg_entry:
  "rg_inv x r \<Longrightarrow> dm_get (rg_by_sub_id r) k = Some e \<Longrightarrow>
     entry_key e = k \<and> parsed_pattern (sb_topic (se_subscription e)) \<and>
     dm_contains (rg_patterns r) (pattern_str (sb_topic (se_subscription e)))"
  unfolding rg_inv_def rg_maps_inv_def by blast

lemma rg_pattern: "rg_inv x r \<Longrightarrow> dm_get (rg_patterns r) k = Some p \<Longrightarrow> p = pattern_parse k"
  unfolding rg_inv_def rg_maps_inv_def by blast

lemma rg_topic:
  "rg_inv x r \<Longrightarrow> (c, s) \<in> set (topic_list r k) \<longleftrightarrow>
     (\<exists>e. live r e \<and> entry_key e = (c, sub_raw s) \<and> pattern_str (sb_topic (se_subscription e)) = k)"
  unfolding rg_inv_def rg_lists_inv_def by blast

lemma rg_conn:
  "rg_inv x r \<Longrightarrow> e \<in> set (get_connection_subscriptions c r) \<longleftrightarrow>
     live r e \<and> sb_conn (se_subscription e) = c"
  unfolding rg_inv_def rg_lists_inv_def by blast

lemma rg_distinct:
  "rg_inv x r \<Longrightarrow> distinct (topic_list r k)"
  "rg_inv x r \<Longrightarrow> distinct (get_connection_subscriptions c r)"
  unfolding rg_inv_def rg_lists_inv_def by blast+

lemma live_iff: "rg_inv x r \<Longrightarrow> live r e \<longleftrightarrow> (\<exists>k. dm_get (rg_by_sub_id r) k = Some e)"
  unfolding live_def using rg_entry by blast

lemma live_key_unique: "live r e \<Longrightarrow> live r e' \<Longrightarrow> entry_key e = entry_key e' \<Longrightarrow> e = e'"
  by (simp add: live_def)

text \<open>The entry a subscription creates, and the maps after \<open>registry_insert\<close>.\<close>

definition new_entry :: "Subscription \<Rightarrow> NodeId option \<Rightarrow> SubscriptionEntry" where
  "new_entry sub node = \<lparr>se_subscription = sub, se_gateway_node = node\<rparr>"

lemma new_entry_sel [simp]:
  "se_subscription (new_entry sub node) = sub" "se_gateway_node (new_entry sub node) = node"
  "entry_key (new_entry sub node) = (sb_conn sub, sub_raw (sb_sub sub))"
  "entry_slot (new_entry sub node) = dispatch_slot_of sub node"
  by (simp_all add: new_entry_def entry_key_def entry_slot_def)

lemma registry_insert_sel [simp]:
  "rg_filter_index (registry_insert sub node r) = rg_filter_index r"
  "rg_patterns (registry_insert sub node r) =
     dm_or_insert (pattern_str (sb_topic sub)) (sb_topic sub) (rg_patterns r)"
  "rg_by_sub_id (registry_insert sub node r) =
     dm_insert (sb_conn sub, sub_raw (sb_sub sub)) (new_entry sub node) (rg_by_sub_id r)"
  "topic_list (registry_insert sub node r) k =
     (if k = pattern_str (sb_topic sub) then topic_list r k @ [(sb_conn sub, sb_sub sub)]
      else topic_list r k)"
  "get_connection_subscriptions c (registry_insert sub node r) =
     (if c = sb_conn sub then get_connection_subscriptions c r @ [new_entry sub node]
      else get_connection_subscriptions c r)"
  by (simp_all add: registry_insert_def Let_def topic_list_def get_connection_subscriptions_def
      new_entry_def split: option.split)

lemma live_insert:
  assumes "dm_get (rg_by_sub_id r) (sb_conn sub, sub_raw (sb_sub sub)) = None"
  shows "live (registry_insert sub node r) e \<longleftrightarrow> e = new_entry sub node \<or> live r e"
  using assms by (auto simp: live_def)

lemma guard_error_status:
  "check_subscription_guards r c m n = Inl e \<Longrightarrow> status_code e = 429"
  by (auto simp: check_subscription_guards_def Let_def split: option.splits if_splits)

lemma subscribe_obtain:
  assumes "subscribe x sub node r = Some (r', res)"
  obtains (guard) e where "res = Inl e" "r' = r" "status_code e = 429"
  | (index) fi where "add_subscription x sub node (rg_filter_index r) = Some (fi, res)"
      "r' = (case res of Inl _ \<Rightarrow> r\<lparr>rg_filter_index := fi\<rparr>
             | Inr _ \<Rightarrow> registry_insert sub node (r\<lparr>rg_filter_index := fi\<rparr>))"
proof (cases "check_subscription_guards r (sb_conn sub)
    (max_subscriptions_per_connection (fi_limits (rg_filter_index r)))
    (max_total_subscriptions (fi_limits (rg_filter_index r)))")
  case (Inl e)
  with assms have "res = Inl e" "r' = r" by (simp_all add: subscribe_def)
  with guard guard_error_status [OF Inl] show ?thesis by blast
next
  case (Inr u)
  show ?thesis
  proof (cases "add_subscription x sub node (rg_filter_index r)")
    case None
    with assms Inr show ?thesis by (simp add: subscribe_def)
  next
    case (Some p)
    obtain fi res' where p: "p = (fi, res')" by (cases p)
    have "res' = res \<and> r' = (case res of Inl _ \<Rightarrow> r\<lparr>rg_filter_index := fi\<rparr>
             | Inr _ \<Rightarrow> registry_insert sub node (r\<lparr>rg_filter_index := fi\<rparr>))"
      using assms unfolding subscribe_def Let_def Inr Some p by (cases res') auto
    with Some p index show ?thesis by simp
  qed
qed

lemma subscribe_accepted:
  assumes inv: "rg_inv x r" and parsed: "parsed_pattern (sb_topic sub)"
    and fresh: "dm_get (rg_by_sub_id r) (sb_conn sub, sub_raw (sb_sub sub)) = None"
    and res: "subscribe x sub node r = Some (r', Inr ())"
  shows "rg_inv x r'" and "live r' e \<longleftrightarrow> e = new_entry sub node \<or> live r e"
    and "rg_by_sub_id r' = dm_insert (sb_conn sub, sub_raw (sb_sub sub)) (new_entry sub node) (rg_by_sub_id r)"
proof -
  let ?key = "(sb_conn sub, sub_raw (sb_sub sub))"
  from res obtain fi where add: "add_subscription x sub node (rg_filter_index r) = Some (fi, Inr ())"
    and r': "r' = registry_insert sub node (r\<lparr>rg_filter_index := fi\<rparr>)"
    by (cases rule: subscribe_obtain) auto
  define r1 where "r1 = r\<lparr>rg_filter_index := fi\<rparr>"
  have sel: "rg_by_sub_id r1 = rg_by_sub_id r" "rg_patterns r1 = rg_patterns r"
    "topic_list r1 = topic_list r" "\<And>c. get_connection_subscriptions c r1 = get_connection_subscriptions c r"
    "live r1 = live r" "rg_filter_index r1 = fi"
    by (simp_all add: r1_def topic_list_def [abs_def] get_connection_subscriptions_def live_def [abs_def])
  have ok: "fi_ok x (rg_filter_index r)" and none: "fi_table (rg_filter_index r) (sb_conn sub, sb_sub sub) = None"
    using inv rg_table [OF inv] fresh by (simp_all add: rg_inv_def rg_index_inv_def)
  note acc = fi.add_accepted [OF ok parsed none add]
  have live': "live r' e \<longleftrightarrow> e = new_entry sub node \<or> live r e" for e
    using live_insert [of r1 sub node e] fresh by (simp add: r' r1_def [symmetric] sel)
  then show "live r' e \<longleftrightarrow> e = new_entry sub node \<or> live r e" .
  show by_sub: "rg_by_sub_id r' = dm_insert ?key (new_entry sub node) (rg_by_sub_id r)"
    by (simp add: r')
  have notin: "\<not> live r e" if "entry_key e = ?key" for e
    using that fresh by (simp add: live_def)
  have "rg_index_inv x r'"
  proof -
    have "fi_table fi (c, SubscriptionId s) = map_option entry_slot (dm_get (rg_by_sub_id r') (c, s))" for c s
      using acc rg_table [OF inv, of c "SubscriptionId s"] by (cases "sb_sub sub") (auto simp: by_sub)
    then show ?thesis using acc by (simp add: rg_index_inv_def r')
  qed
  moreover have "rg_maps_inv r'"
  proof -
    have "dm_get (rg_patterns r') k = Some p \<Longrightarrow> p = pattern_parse k" for k p
      using rg_pattern [OF inv, of k p] parsed
      by (auto simp: r' parsed_pattern_def split: if_splits option.splits)
    moreover have "entry_key e = k \<and> parsed_pattern (sb_topic (se_subscription e)) \<and>
        dm_contains (rg_patterns r') (pattern_str (sb_topic (se_subscription e)))"
      if "dm_get (rg_by_sub_id r') k = Some e" for k e
    proof (cases "k = ?key")
      case True
      with that have "e = new_entry sub node" by (simp add: by_sub)
      with True parsed show ?thesis by (simp add: r' dm_contains_def)
    next
      case False
      with that rg_entry [OF inv, of k e] show ?thesis
        by (auto simp: by_sub dm_contains_def r')
    qed
    moreover have "dm_wf (rg_by_sub_id r')" "dm_wf (rg_patterns r')"
      using inv by (simp_all add: r' rg_inv_def rg_maps_inv_def)
    ultimately show ?thesis unfolding rg_maps_inv_def by blast
  qed
  moreover have "rg_lists_inv r'"
  proof -
    have tl: "topic_list r' k = (if k = pattern_str (sb_topic sub)
        then topic_list r k @ [(sb_conn sub, sb_sub sub)] else topic_list r k)" for k
      by (simp add: r' r1_def [symmetric] sel)
    have gl: "get_connection_subscriptions c r' = (if c = sb_conn sub
        then get_connection_subscriptions c r @ [new_entry sub node]
        else get_connection_subscriptions c r)" for c
      by (simp add: r' r1_def [symmetric] sel)
    have "distinct (topic_list r' k)" for k
      using rg_distinct(1) [OF inv, of k] rg_topic [OF inv, of "sb_conn sub" "sb_sub sub" k] notin
      by (auto simp: tl)
    moreover have "distinct (get_connection_subscriptions c r')" for c
      using rg_distinct(2) [OF inv, of c] rg_conn [OF inv, of "new_entry sub node" c] notin
      by (auto simp: gl)
    moreover have "(c, s) \<in> set (topic_list r' k) \<longleftrightarrow> (\<exists>e. live r' e \<and> entry_key e = (c, sub_raw s) \<and>
        pattern_str (sb_topic (se_subscription e)) = k)" for k c s
    proof (cases "(c, sub_raw s) = ?key")
      case True
      then have "c = sb_conn sub" "s = sb_sub sub" by (auto intro: SubscriptionId.expand)
      then show ?thesis
        using rg_topic [OF inv, of c s k] notin by (auto simp: tl live')
    next
      case False
      then show ?thesis using rg_topic [OF inv, of c s k] by (auto simp: tl live')
    qed
    moreover have "e \<in> set (get_connection_subscriptions c r') \<longleftrightarrow>
        live r' e \<and> sb_conn (se_subscription e) = c" for c e
      using rg_conn [OF inv, of e c] by (auto simp: gl live')
    ultimately show ?thesis unfolding rg_lists_inv_def by blast
  qed
  ultimately show "rg_inv x r'" by (simp add: rg_inv_def)
qed

lemma subscribe_rejected:
  assumes inv: "rg_inv x r" and res: "subscribe x sub node r = Some (r', Inl e)"
  shows "rg_inv x r' \<and> rg_by_connection r' = rg_by_connection r \<and> rg_by_topic r' = rg_by_topic r \<and>
    rg_by_sub_id r' = rg_by_sub_id r \<and> rg_patterns r' = rg_patterns r \<and>
    same_index (rg_filter_index r) (rg_filter_index r') \<and> status_code e = 429"
  using res
proof (cases rule: subscribe_obtain)
  case (guard e')
  with inv show ?thesis by simp
next
  case (index fi)
  have ok: "fi_ok x (rg_filter_index r)" using inv by (simp add: rg_inv_def rg_index_inv_def)
  note rej = fi_add_rejected [OF ok index(1)] fi.rejected_status [OF ok index(1)]
  with inv show ?thesis
    by (simp add: index(2) rg_inv_def rg_index_inv_def rg_maps_inv_def rg_lists_inv_def topic_list_def
        get_connection_subscriptions_def live_def)
qed

subsection \<open>Removing a set of subscriptions\<close>

text \<open>Both removals amount to dropping the keys of a set from every map.\<close>

definition drops :: "(ConnectionId \<times> string) set \<Rightarrow> SubscriptionRegistry \<Rightarrow> SubscriptionRegistry \<Rightarrow> bool" where
  "drops K r r' =
     ((\<forall>k. dm_get (rg_by_sub_id r') k = (if k \<in> K then None else dm_get (rg_by_sub_id r) k)) \<and>
      dm_wf (rg_by_sub_id r') \<and> rg_patterns r' = rg_patterns r \<and>
      (\<forall>k. topic_list r' k = filter (\<lambda>(c, s). (c, sub_raw s) \<notin> K) (topic_list r k)) \<and>
      (\<forall>c. get_connection_subscriptions c r' =
         filter (\<lambda>e. entry_key e \<notin> K) (get_connection_subscriptions c r)))"

lemma drops_live:
  "drops K r r' \<Longrightarrow> live r' e \<longleftrightarrow> live r e \<and> entry_key e \<notin> K"
  by (simp add: drops_def live_def)

lemma drops_inv:
  assumes inv: "rg_inv x r" and d: "drops K r r'" and ok: "fi_ok x (rg_filter_index r')"
    and tab: "\<And>c s. fi_table (rg_filter_index r') (c, s) =
      (if (c, sub_raw s) \<in> K then None else fi_table (rg_filter_index r) (c, s))"
  shows "rg_inv x r'"
proof -
  note live' = drops_live [OF d]
  have "rg_index_inv x r'"
    using ok tab d rg_table [OF inv] by (simp add: rg_index_inv_def drops_def)
  moreover have "rg_maps_inv r'"
    using inv d by (auto simp: rg_inv_def rg_maps_inv_def drops_def split: if_splits)
  moreover have "rg_lists_inv r'"
  proof -
    have t: "topic_list r' k = filter (\<lambda>(c, s). (c, sub_raw s) \<notin> K) (topic_list r k)"
      and g: "get_connection_subscriptions c r' =
        filter (\<lambda>e. entry_key e \<notin> K) (get_connection_subscriptions c r)" for k c
      using d by (simp_all add: drops_def)
    have "(c, s) \<in> set (topic_list r' k) \<longleftrightarrow> (\<exists>e. live r' e \<and> entry_key e = (c, sub_raw s) \<and>
        pattern_str (sb_topic (se_subscription e)) = k)" for k c s
      using rg_topic [OF inv, of c s k] by (auto simp: t live')
    moreover have "e \<in> set (get_connection_subscriptions c r') \<longleftrightarrow>
        live r' e \<and> sb_conn (se_subscription e) = c" for c e
      using rg_conn [OF inv, of e c] by (auto simp: g live')
    ultimately show ?thesis
      unfolding rg_lists_inv_def using rg_distinct [OF inv] by (simp add: t g)
  qed
  ultimately show ?thesis by (simp add: rg_inv_def)
qed

lemma rg_slot_topic:
  assumes inv: "rg_inv x r" and e: "live r e"
    and "fi_table (rg_filter_index r) (sb_conn (se_subscription e), sb_sub (se_subscription e)) = Some d"
  shows "ds_topic d = sb_topic (se_subscription e)"
  using assms(2,3) by (auto simp: rg_table [OF inv] live_def entry_key_def entry_slot_def)

lemma unsubscribe_absent:
  "dm_get (rg_by_sub_id r) (conn_id, sub_id) = None \<Longrightarrow> unsubscribe conn_id sub_id r = (r, False)"
  by (simp add: unsubscribe_def)

lemma unsubscribe_drops:
  assumes inv: "rg_inv x r" and e: "dm_get (rg_by_sub_id r) (conn_id, sub_id) = Some e"
    and res: "unsubscribe conn_id sub_id r = (r', b)"
  shows "b \<and> drops {(conn_id, sub_id)} r r' \<and>
    rg_filter_index r' = remove_subscription (se_subscription e) (rg_filter_index r)"
proof -
  have key: "entry_key e = (conn_id, sub_id)" using rg_entry [OF inv e] by simp
  let ?pk = "pattern_str (sb_topic (se_subscription e))"
  have other: "filter (\<lambda>(c, s). (c, sub_raw s) \<notin> {(conn_id, sub_id)}) (topic_list r k) = topic_list r k"
    if "k \<noteq> ?pk" for k
    using that e key by (intro filter_True) (auto simp: rg_topic [OF inv] live_def)
  have othc: "filter (\<lambda>e. entry_key e \<notin> {(conn_id, sub_id)}) (get_connection_subscriptions c r) =
      get_connection_subscriptions c r" if "c \<noteq> conn_id" for c
    using that by (intro filter_True) (auto simp: rg_conn [OF inv] entry_key_def)
  have same: "filter (\<lambda>e. entry_key e \<notin> {(conn_id, sub_id)}) (get_connection_subscriptions conn_id r) =
      filter (\<lambda>e. sub_raw (sb_sub (se_subscription e)) \<noteq> sub_id) (get_connection_subscriptions conn_id r)"
    by (rule filter_cong) (auto simp: rg_conn [OF inv] entry_key_def)
  have tl: "topic_list r' k = (if k = ?pk
      then filter (\<lambda>(cid, sid). \<not> (cid = conn_id \<and> sub_raw sid = sub_id)) (topic_list r k)
      else topic_list r k)" for k
    using res e by (auto simp: unsubscribe_def Let_def topic_list_def split: option.split)
  have gl: "get_connection_subscriptions c r' = (if c = conn_id
      then filter (\<lambda>e. sub_raw (sb_sub (se_subscription e)) \<noteq> sub_id) (get_connection_subscriptions c r)
      else get_connection_subscriptions c r)" for c
    using res e by (auto simp: unsubscribe_def Let_def get_connection_subscriptions_def split: option.split)
  have "topic_list r' k = filter (\<lambda>(c, s). (c, sub_raw s) \<notin> {(conn_id, sub_id)}) (topic_list r k)" for k
    using other [of k] by (cases "k = ?pk") (auto simp: tl intro!: filter_cong)
  moreover have "get_connection_subscriptions c r' =
      filter (\<lambda>e. entry_key e \<notin> {(conn_id, sub_id)}) (get_connection_subscriptions c r)" for c
    using othc [of c] same by (cases "c = conn_id") (auto simp: gl)
  moreover have "dm_wf (rg_by_sub_id r)" using inv by (simp add: rg_inv_def rg_maps_inv_def)
  moreover have "rg_by_sub_id r' = dm_remove (conn_id, sub_id) (rg_by_sub_id r)"
    "rg_patterns r' = rg_patterns r" b
    "rg_filter_index r' = remove_subscription (se_subscription e) (rg_filter_index r)"
    using res e by (auto simp: unsubscribe_def Let_def)
  ultimately show ?thesis unfolding drops_def by simp
qed

lemma unsubscribe_inv:
  assumes inv: "rg_inv x r" and res: "unsubscribe conn_id sub_id r = (r', b)"
  shows "rg_inv x r' \<and> (live r' e \<longleftrightarrow> live r e \<and> entry_key e \<noteq> (conn_id, sub_id)) \<and>
    (b \<longleftrightarrow> dm_get (rg_by_sub_id r) (conn_id, sub_id) \<noteq> None)"
proof (cases "dm_get (rg_by_sub_id r) (conn_id, sub_id)")
  case None
  with inv res show ?thesis by (auto simp: unsubscribe_absent live_def)
next
  case (Some e0)
  note d = unsubscribe_drops [OF inv Some res]
  have key: "entry_key e0 = (conn_id, sub_id)" and "live r e0"
    using rg_entry [OF inv Some] Some by (simp_all add: live_def)
  let ?sub = "se_subscription e0"
  have ok: "fi_ok x (rg_filter_index r)" using inv by (simp add: rg_inv_def rg_index_inv_def)
  note eff = fi.remove_effect [OF ok rg_slot_topic [OF inv \<open>live r e0\<close>]]
  have "rg_inv x r'"
  proof (rule drops_inv [OF inv])
    show "drops {(conn_id, sub_id)} r r'" "fi_ok x (rg_filter_index r')" using d eff by simp_all
    fix c s
    have "(c, s) = (sb_conn ?sub, sb_sub ?sub) \<longleftrightarrow> (c, sub_raw s) = (conn_id, sub_id)"
      using key by (auto simp: entry_key_def intro: SubscriptionId.expand)
    then show "fi_table (rg_filter_index r') (c, s) = (if (c, sub_raw s) \<in> {(conn_id, sub_id)}
        then None else fi_table (rg_filter_index r) (c, s))"
      using d eff by auto
  qed
  with d drops_live Some show ?thesis by auto
qed

lemma remove_entry_sel [simp]:
  "rg_by_connection (remove_entry c e r) = rg_by_connection r"
  "rg_patterns (remove_entry c e r) = rg_patterns r"
  "rg_by_sub_id (remove_entry c e r) =
     dm_remove (c, sub_raw (sb_sub (se_subscription e))) (rg_by_sub_id r)"
  "rg_filter_index (remove_entry c e r) =
     remove_subscription (se_subscription e) (rg_filter_index r)"
  "topic_list (remove_entry c e r) k =
     (if k = pattern_str (sb_topic (se_subscription e))
      then filter (\<lambda>(cid, _). cid \<noteq> c) (topic_list r k) else topic_list r k)"
  by (auto simp: remove_entry_def Let_def topic_list_def split: option.split)

lemma fold_remove_entry_sel:
  "rg_by_connection (fold (remove_entry c) es r) = rg_by_connection r"
  "rg_patterns (fold (remove_entry c) es r) = rg_patterns r"
  "dm_wf (rg_by_sub_id r) \<Longrightarrow> dm_wf (rg_by_sub_id (fold (remove_entry c) es r))"
  "dm_get (rg_by_sub_id (fold (remove_entry c) es r)) k =
     (if k \<in> (\<lambda>e. (c, sub_raw (sb_sub (se_subscription e)))) ` set es then None
      else dm_get (rg_by_sub_id r) k)"
  "topic_list (fold (remove_entry c) es r) t =
     (if t \<in> (\<lambda>e. pattern_str (sb_topic (se_subscription e))) ` set es
      then filter (\<lambda>(cid, _). cid \<noteq> c) (topic_list r t) else topic_list r t)"
  by (induction es arbitrary: r) auto

lemma fold_remove_entry_table:
  assumes "fi_ok x (rg_filter_index r)"
    and "\<And>e d. e \<in> set es \<Longrightarrow>
      fi_table (rg_filter_index r) (sb_conn (se_subscription e), sb_sub (se_subscription e)) = Some d \<Longrightarrow>
      ds_topic d = sb_topic (se_subscription e)"
  shows "fi_ok x (rg_filter_index (fold (remove_entry c) es r)) \<and>
    fi_table (rg_filter_index (fold (remove_entry c) es r)) k =
      (if k \<in> (\<lambda>e. (sb_conn (se_subscription e), sb_sub (se_subscription e))) ` set es then None
       else fi_table (rg_filter_index r) k)"
  using assms
proof (induction es arbitrary: r)
  case Nil
  then show ?case by simp
next
  case (Cons e es)
  have eff: "fi_ok x (rg_filter_index (remove_entry c e r)) \<and>
      fi_table (rg_filter_index (remove_entry c e r)) =
        (fi_table (rg_filter_index r))((sb_conn (se_subscription e), sb_sub (se_subscription e)) := None)"
    using fi.remove_effect [OF Cons.prems(1) Cons.prems(2) [of e]] by simp
  have "fi_table (rg_filter_index (remove_entry c e r))
        (sb_conn (se_subscription e'), sb_sub (se_subscription e')) = Some d \<Longrightarrow>
      ds_topic d = sb_topic (se_subscription e')" if "e' \<in> set es" for e' d
    using Cons.prems(2) [of e' d] that eff by (auto split: if_splits)
  with Cons.IH [of "remove_entry c e r"] eff show ?case by auto
qed

lemma remove_connection_inv:
  assumes inv: "rg_inv x r" and r': "r' = registry_remove_connection conn_id r"
  shows "rg_inv x r' \<and> (live r' e \<longleftrightarrow> live r e \<and> sb_conn (se_subscription e) \<noteq> conn_id)"
proof (cases "dm_get (rg_by_connection r) conn_id")
  case None
  then have "\<not> live r e" if "sb_conn (se_subscription e) = conn_id" for e
    using rg_conn [OF inv, of e conn_id] that by (auto simp: get_connection_subscriptions_def)
  with None inv show ?thesis by (auto simp: r' registry_remove_connection_def)
next
  case (Some subs)
  define r0 where "r0 = r\<lparr>rg_by_connection := dm_remove conn_id (rg_by_connection r)\<rparr>"
  have sel0: "rg_by_sub_id r0 = rg_by_sub_id r" "rg_patterns r0 = rg_patterns r"
    "topic_list r0 = topic_list r" "rg_filter_index r0 = rg_filter_index r"
    by (simp_all add: r0_def topic_list_def [abs_def])
  have eq: "r' = fold (remove_entry conn_id) subs r0" using Some by (simp add: r' registry_remove_connection_def r0_def)
  have subs: "e \<in> set subs \<longleftrightarrow> live r e \<and> sb_conn (se_subscription e) = conn_id" for e
    using rg_conn [OF inv, of e conn_id] Some by (simp add: get_connection_subscriptions_def)
  let ?K = "{k. fst k = conn_id}"
  note sel = fold_remove_entry_sel [where c = conn_id and es = subs and r = r0]
  have by_sub: "dm_get (rg_by_sub_id r') k = (if k \<in> ?K then None else dm_get (rg_by_sub_id r) k)" for k
  proof (cases "dm_get (rg_by_sub_id r) k")
    case (Some e)
    with rg_entry [OF inv Some] subs [of e] show ?thesis
      by (cases k) (auto simp: eq sel sel0 live_def entry_key_def image_iff)
  qed (simp add: eq sel sel0)
  have tl: "topic_list r' t = filter (\<lambda>(c, s). (c, sub_raw s) \<notin> ?K) (topic_list r t)" for t
  proof (cases "t \<in> (\<lambda>e. pattern_str (sb_topic (se_subscription e))) ` set subs")
    case True
    then show ?thesis by (auto simp: eq sel sel0 intro!: filter_cong)
  next
    case False
    have "c \<noteq> conn_id" if cs: "(c, s) \<in> set (topic_list r t)" for c s
    proof
      assume "c = conn_id"
      with cs obtain e where "live r e" "sb_conn (se_subscription e) = conn_id"
        "pattern_str (sb_topic (se_subscription e)) = t"
        by (auto simp: rg_topic [OF inv] entry_key_def)
      with subs [of e] False show False by blast
    qed
    then have "filter (\<lambda>(c, s). (c, sub_raw s) \<notin> ?K) (topic_list r t) = topic_list r t"
      by (intro filter_True) auto
    with False show ?thesis by (simp add: eq sel sel0)
  qed
  have bc: "rg_by_connection r' = dm_remove conn_id (rg_by_connection r)"
    unfolding eq sel by (simp add: r0_def)
  have gl: "get_connection_subscriptions c r' =
      filter (\<lambda>e. entry_key e \<notin> ?K) (get_connection_subscriptions c r)" for c
  proof (cases "c = conn_id")
    case True
    then have "filter (\<lambda>e. entry_key e \<notin> ?K) (get_connection_subscriptions c r) = []"
      by (auto simp: filter_empty_conv rg_conn [OF inv] entry_key_def)
    with True show ?thesis by (simp add: get_connection_subscriptions_def bc)
  next
    case False
    then have "filter (\<lambda>e. entry_key e \<notin> ?K) (get_connection_subscriptions c r) =
        get_connection_subscriptions c r"
      by (intro filter_True) (auto simp: rg_conn [OF inv] entry_key_def)
    with False show ?thesis by (simp add: get_connection_subscriptions_def bc)
  qed
  have "dm_wf (rg_by_sub_id r)" using inv by (simp add: rg_inv_def rg_maps_inv_def)
  then have d: "drops ?K r r'"
    unfolding drops_def using by_sub tl gl sel(3) by (simp add: eq sel(2) sel0)
  have ok: "fi_ok x (rg_filter_index r0)" using inv by (simp add: sel0 rg_inv_def rg_index_inv_def)
  have "ds_topic d = sb_topic (se_subscription e)"
    if "e \<in> set subs" "fi_table (rg_filter_index r0)
      (sb_conn (se_subscription e), sb_sub (se_subscription e)) = Some d" for e d
    using that subs rg_slot_topic [OF inv, of e d] by (simp add: sel0)
  note eff = fold_remove_entry_table [OF ok this, where c = conn_id]
  define K' where "K' = (\<lambda>e. (sb_conn (se_subscription e), sb_sub (se_subscription e))) ` set subs"
  have "rg_inv x r'"
  proof (rule drops_inv [OF inv d])
    show "fi_ok x (rg_filter_index r')" using eff by (simp add: eq)
    fix c s
    have gone: "fi_table (rg_filter_index r) (c, s) = None" if "c = conn_id" "(c, s) \<notin> K'"
    proof (rule ccontr)
      assume "fi_table (rg_filter_index r) (c, s) \<noteq> None"
      then obtain e where e: "dm_get (rg_by_sub_id r) (c, sub_raw s) = Some e"
        by (auto simp: rg_table [OF inv])
      with rg_entry [OF inv e] subs [of e] that show False
        by (auto simp: live_def entry_key_def image_iff K'_def)
    qed
    have f1: "(c, s) \<in> K' \<Longrightarrow> c = conn_id" using subs by (auto simp: K'_def)
    have f2: "fi_table (rg_filter_index r') (c, s) =
        (if (c, s) \<in> K' then None else fi_table (rg_filter_index r) (c, s))"
      using eff [where k = "(c, s)"] by (simp only: eq sel0 K'_def)
    show "fi_table (rg_filter_index r') (c, s) =
        (if (c, sub_raw s) \<in> ?K then None else fi_table (rg_filter_index r) (c, s))"
    proof (cases "c = conn_id")
      case True
      then have "fi_table (rg_filter_index r') (c, s) = None"
        using f2 gone [OF True] by (cases "(c, s) \<in> K'") simp_all
      with True show ?thesis by simp
    next
      case False
      then have "(c, s) \<notin> K'" using f1 by blast
      with f2 False show ?thesis by simp
    qed
  qed
  with drops_live [OF d] show ?thesis by (auto simp: entry_key_def)
qed

subsection \<open>The two lookups agree\<close>

definition entry_wants :: "Externals \<Rightarrow> EventEnvelope \<Rightarrow> SubscriptionEntry \<Rightarrow> bool" where
  "entry_wants x event e =
     (pattern_matches (sb_topic (se_subscription e)) (ev_topic event) \<and>
      (case sb_filter (se_subscription e) of None \<Rightarrow> True
       | Some f \<Rightarrow> evaluate f (event_getter x event)))"

definition entry_match :: "SubscriptionEntry \<Rightarrow> match" where
  "entry_match e =
     (sb_conn (se_subscription e), sb_sub (se_subscription e), se_gateway_node e)"

lemma lookup_entry_set:
  "lookup_entry x event r (c, s) =
     (case dm_get (rg_by_sub_id r) (c, sub_raw s) of None \<Rightarrow> []
      | Some e \<Rightarrow>
          if (case sb_filter (se_subscription e) of None \<Rightarrow> True
              | Some f \<Rightarrow> evaluate f (event_getter x event))
          then [(c, s, se_gateway_node e)] else [])"
  by (simp add: lookup_entry_def event_getter_def split: option.split)

lemma lookup_matches_mem:
  assumes inv: "rg_inv x r"
  shows "m \<in> set (lookup_matches x event r) \<longleftrightarrow> (\<exists>e. live r e \<and> entry_wants x event e \<and> m = entry_match e)"
proof
  assume "m \<in> set (lookup_matches x event r)"
  then obtain k p where kp: "(k, p) \<in> set (rg_patterns r)" and pm: "pattern_matches p (ev_topic event)"
    and "m \<in> (\<Union>cs\<in>set (topic_list r k). set (lookup_entry x event r cs))"
    by (auto simp: lookup_matches_def topic_list_def split: if_splits option.splits)
  then obtain c s where cs: "(c, s) \<in> set (topic_list r k)" and m: "m \<in> set (lookup_entry x event r (c, s))"
    by auto
  from cs obtain e where e: "live r e" "entry_key e = (c, sub_raw s)"
    "pattern_str (sb_topic (se_subscription e)) = k"
    by (auto simp: rg_topic [OF inv])
  have "dm_get (rg_patterns r) k = Some p"
    using kp inv by (simp add: dm_get_iff_in rg_inv_def rg_maps_inv_def)
  then have "p = pattern_parse k" by (rule rg_pattern [OF inv])
  moreover have "parsed_pattern (sb_topic (se_subscription e))"
    using rg_entry [OF inv, of "entry_key e" e] e(1) by (simp add: live_def)
  ultimately have "p = sb_topic (se_subscription e)" using e(3) by (simp add: parsed_pattern_def)
  with pm e m show "\<exists>e. live r e \<and> entry_wants x event e \<and> m = entry_match e"
    by (intro exI [of _ e])
      (auto simp: lookup_entry_set live_def entry_wants_def entry_match_def entry_key_def
        split: if_splits intro: SubscriptionId.expand)
next
  assume "\<exists>e. live r e \<and> entry_wants x event e \<and> m = entry_match e"
  then obtain e where e: "live r e" "entry_wants x event e" and m: "m = entry_match e" by blast
  let ?k = "pattern_str (sb_topic (se_subscription e))"
  have "dm_contains (rg_patterns r) ?k" and parsed: "parsed_pattern (sb_topic (se_subscription e))"
    using rg_entry [OF inv, of "entry_key e" e] e(1) by (simp_all add: live_def)
  then obtain p where p: "dm_get (rg_patterns r) ?k = Some p" by (auto simp: dm_contains_def)
  then have "p = sb_topic (se_subscription e)"
    using rg_pattern [OF inv p] parsed by (simp add: parsed_pattern_def)
  with p have kp: "(?k, sb_topic (se_subscription e)) \<in> set (rg_patterns r)"
    by (auto dest: dm_get_Some_in)
  have tl: "(sb_conn (se_subscription e), sb_sub (se_subscription e)) \<in> set (topic_list r ?k)"
    using e(1) by (auto simp: rg_topic [OF inv] entry_key_def)
  have "m \<in> set (lookup_entry x event r (sb_conn (se_subscription e), sb_sub (se_subscription e)))"
    using e by (auto simp: lookup_entry_set live_def entry_key_def entry_wants_def entry_match_def m)
  with tl have "m \<in> (\<Union>cs\<in>set (topic_list r ?k). set (lookup_entry x event r cs))" by blast
  then show "m \<in> set (lookup_matches x event r)"
    using kp e(2) unfolding lookup_matches_def
    by (force simp: topic_list_def entry_wants_def split: option.splits)
qed

text \<open>No subscription is listed twice by the linear lookup.\<close>

definition match_key :: "match \<Rightarrow> sub_key" where
  "match_key = (\<lambda>(c, s, n). (c, s))"

lemma lookup_entry_keys:
  "map match_key (lookup_entry x event r cs) = [] \<or> map match_key (lookup_entry x event r cs) = [cs]"
  by (cases cs) (auto simp: lookup_entry_set match_key_def split: option.split)

lemma concat_lookup_keys:
  assumes "distinct l"
  shows "distinct (map match_key (concat (map (lookup_entry x event r) l))) \<and>
    set (map match_key (concat (map (lookup_entry x event r) l))) \<subseteq> set l"
  using assms
proof (induction l)
  case (Cons cs l)
  then show ?case using lookup_entry_keys [of x event r cs] by (elim disjE) auto
qed simp

lemma distinct_concat_disjoint:
  assumes "distinct ks" and "\<And>k. k \<in> set ks \<Longrightarrow> distinct (map g (h k))"
    and "\<And>j k. j \<in> set ks \<Longrightarrow> k \<in> set ks \<Longrightarrow> j \<noteq> k \<Longrightarrow> g ` set (h j) \<inter> g ` set (h k) = {}"
  shows "distinct (map g (concat (map h ks)))"
  using assms
proof (induction ks)
  case (Cons k ks)
  then have "distinct (map g (concat (map h ks)))" by simp
  moreover have "g ` set (h k) \<inter> g ` set (concat (map h ks)) = {}"
    using Cons.prems(1) Cons.prems(3) [of k] by fastforce
  ultimately show ?case using Cons.prems(2) [of k] by simp
qed simp

definition lookup_pattern ::
    "Externals \<Rightarrow> EventEnvelope \<Rightarrow> SubscriptionRegistry \<Rightarrow> string \<times> TopicPattern \<Rightarrow> match list" where
  "lookup_pattern x event r kp =
     (if pattern_matches (snd kp) (ev_topic event)
      then concat (map (lookup_entry x event r) (topic_list r (fst kp))) else [])"

lemma lookup_matches_eq: "lookup_matches x event r = concat (map (lookup_pattern x event r) (rg_patterns r))"
  unfolding lookup_matches_def lookup_pattern_def topic_list_def
  by (rule arg_cong [where f = concat], rule map_cong [OF refl])
    (auto split: option.split)

lemma lookup_matches_distinct:
  assumes inv: "rg_inv x r"
  shows "distinct (map match_key (lookup_matches x event r))"
  unfolding lookup_matches_eq
proof (rule distinct_concat_disjoint)
  have wf: "dm_wf (rg_patterns r)" using inv by (simp add: rg_inv_def rg_maps_inv_def)
  then show "distinct (rg_patterns r)" by (simp add: dm_wf_def distinct_map)
  have keys: "distinct (map match_key (lookup_pattern x event r kp)) \<and>
      set (map match_key (lookup_pattern x event r kp)) \<subseteq> set (topic_list r (fst kp))" for kp
    using concat_lookup_keys [OF rg_distinct(1) [OF inv], of x event r "fst kp"]
    by (cases "pattern_matches (snd kp) (ev_topic event)") (auto simp: lookup_pattern_def)
  then show "distinct (map match_key (lookup_pattern x event r kp))" for kp by blast
  fix j k assume jk: "j \<in> set (rg_patterns r)" "k \<in> set (rg_patterns r)" "j \<noteq> k"
  then have "fst j \<noteq> fst k" using wf by (auto simp: dm_wf_def distinct_map inj_on_def)
  then have "set (topic_list r (fst j)) \<inter> set (topic_list r (fst k)) = {}"
    using live_key_unique by (fastforce simp: rg_topic [OF inv])
  with keys [of j] keys [of k]
  show "match_key ` set (lookup_pattern x event r j) \<inter> match_key ` set (lookup_pattern x event r k) = {}"
    by auto
qed

text \<open>The index's matches are those of the live entries.\<close>

lemma entry_slot_wants: "slot_wants x event (entry_slot e) = entry_wants x event e"
  by (simp add: slot_wants_def entry_wants_def entry_slot_def)

lemma entry_slot_match: "slot_match (entry_slot e) = entry_match e"
  by (simp add: slot_match_def entry_match_def entry_slot_def dispatch_slot_of_def)

lemma table_live:
  assumes inv: "rg_inv x r"
  shows "(\<exists>k. fi_table (rg_filter_index r) k = Some d) \<longleftrightarrow> (\<exists>e. live r e \<and> d = entry_slot e)"
proof
  assume "\<exists>k. fi_table (rg_filter_index r) k = Some d"
  then obtain c s where "fi_table (rg_filter_index r) (c, s) = Some d" by auto
  then obtain e where "dm_get (rg_by_sub_id r) (c, sub_raw s) = Some e" "d = entry_slot e"
    by (auto simp: rg_table [OF inv])
  then show "\<exists>e. live r e \<and> d = entry_slot e" using live_iff [OF inv] by blast
next
  assume "\<exists>e. live r e \<and> d = entry_slot e"
  then obtain e where "live r e" "d = entry_slot e" by blast
  then have "fi_table (rg_filter_index r) (sb_conn (se_subscription e), sb_sub (se_subscription e)) = Some d"
    by (simp add: rg_table [OF inv] live_def entry_key_def)
  then show "\<exists>k. fi_table (rg_filter_index r) k = Some d" by blast
qed

lemma table_matches_live:
  assumes inv: "rg_inv x r"
  shows "table_matches x event (rg_filter_index r) = entry_slot ` {e. live r e \<and> entry_wants x event e}"
proof -
  note a = table_live [OF inv]
  have b: "d \<in> table_matches x event (rg_filter_index r) \<longleftrightarrow>
      (\<exists>k. fi_table (rg_filter_index r) k = Some d) \<and> slot_wants x event d" for d
    unfolding table_matches_def by blast
  have "d \<in> table_matches x event (rg_filter_index r) \<longleftrightarrow>
      (\<exists>e. live r e \<and> d = entry_slot e \<and> entry_wants x event e)" for d
  proof -
    have "slot_wants x event d \<longleftrightarrow> entry_wants x event e" if "d = entry_slot e" for e
      using that by (simp add: entry_slot_wants)
    then show ?thesis unfolding b a by blast
  qed
  then show ?thesis by blast
qed

lemma lookups_agree:
  assumes inv: "rg_inv x r" and clean: "index_clean (rg_filter_index r)"
    and pr: "exact_printing x event (rg_filter_index r)"
    and closed: "\<not> fst (fi_is_open ck (rg_filter_index r))"
  obtains ms r' where "lookup_matches_bitmap x ck event r = Some (ms, r')"
    and "mset ms = mset (lookup_matches x event r)" and "distinct (map match_key ms)"
proof -
  have fi: "fi_inv x (rg_filter_index r)" using inv by (simp add: rg_inv_def rg_index_inv_def fi_ok_def)
  from collect_exact [OF fi clean pr closed] obtain ms fi' where
    ms: "fi_collect_matches x ck event (rg_filter_index r) = Some (ms, fi')"
    and set: "set ms = slot_match ` table_matches x event (rg_filter_index r)"
    and dist: "distinct (map (\<lambda>(c, s, n). (c, s)) ms)"
    and "same_index (rg_filter_index r) fi'" .
  have "set ms = entry_match ` {e. live r e \<and> entry_wants x event e}"
    by (simp add: set table_matches_live [OF inv] image_image entry_slot_match)
  moreover have "set (lookup_matches x event r) = entry_match ` {e. live r e \<and> entry_wants x event e}"
    by (intro set_eqI) (simp only: lookup_matches_mem [OF inv] image_iff mem_Collect_eq Bex_def, blast)
  ultimately have "set ms = set (lookup_matches x event r)" by simp
  moreover have "distinct ms" using dist unfolding distinct_map by blast
  moreover have "distinct (lookup_matches x event r)"
    using lookup_matches_distinct [OF inv] unfolding distinct_map by blast
  ultimately have "mset ms = mset (lookup_matches x event r)"
    by (simp add: set_eq_iff_mset_eq_distinct)
  with ms dist that show ?thesis by (simp add: lookup_matches_bitmap_def match_key_def)
qed

lemma get_connection_subscriptions_index [simp]:
  "get_connection_subscriptions c (r\<lparr>rg_filter_index := fi\<rparr>) = get_connection_subscriptions c r"
  by (simp add: get_connection_subscriptions_def)

lemma rg_inv_matched:
  assumes "rg_inv x r" and "same_index (rg_filter_index r) fi'"
  shows "rg_inv x (r\<lparr>rg_filter_index := fi'\<rparr>)"
proof -
  have "ds_at fi' = ds_at (rg_filter_index r)"
    using assms(2) by (simp add: fun_eq_iff ds_at_def same_index_def)
  then have "fi_table fi' = fi_table (rg_filter_index r)"
    using assms(2) by (intro ext) (simp add: fi_table_def same_index_def)
  with assms same_index_inv [OF assms(2)] show ?thesis
    by (simp add: rg_inv_def rg_index_inv_def rg_maps_inv_def rg_lists_inv_def topic_list_def
        get_connection_subscriptions_def live_def fi_ok_def same_index_def)
qed

text \<open>Every match, exact or not, is a live subscription to the event's topic; the lookup keeps the maps.\<close>

lemma lookup_topic:
  assumes inv: "rg_inv x r" and clean: "fields_clean (rg_filter_index r)"
    and res: "lookup_matches_bitmap x ck event r = Some (ms, r')" and m: "(c, s, n) \<in> set ms"
  shows "\<exists>e. live r e \<and> sb_conn (se_subscription e) = c \<and>
    pattern_matches (sb_topic (se_subscription e)) (ev_topic event)"
proof -
  let ?fi = "rg_filter_index r"
  have fi: "fi_inv x ?fi" and safe: "fi_safe ?fi"
    using inv by (simp_all add: rg_inv_def rg_index_inv_def fi_ok_def fi_inv_def)
  have "ms = map slot_match (matched_slots x (fst (fi_is_open ck ?fi)) event ?fi)"
    using res fi_collect_matches_eq [OF safe refl, of x ck event] by (simp add: lookup_matches_bitmap_def)
  with m obtain d where d: "d \<in> set (matched_slots x (fst (fi_is_open ck ?fi)) event ?fi)"
    and "(c, s, n) = slot_match d" by auto
  from matched_topic [OF fi fields_clean_index [OF clean] d] table_live [OF inv] obtain e
    where "live r e" "d = entry_slot e" "pattern_matches (ds_topic d) (ev_topic event)" by blast
  with \<open>(c, s, n) = slot_match d\<close> show ?thesis
    by (intro exI [of _ e]) (auto simp: slot_match_def entry_slot_def dispatch_slot_of_def)
qed

lemma exact_printing_live:
  assumes inv: "rg_inv x r"
    and "\<forall>e. live r e \<longrightarrow> no_float_zero (sb_filter (se_subscription e)) \<and>
               prints_apart x event (sb_filter (se_subscription e))"
  shows "exact_printing x event (rg_filter_index r)"
proof -
  have "no_float_zero (ds_filter d) \<and> prints_apart x event (ds_filter d)"
    if tab: "fi_table (rg_filter_index r) k = Some d" for k d
  proof -
    obtain c s where k: "k = (c, s)" by (cases k)
    with tab obtain e where "dm_get (rg_by_sub_id r) (c, sub_raw s) = Some e" and d: "d = entry_slot e"
      by (auto simp: rg_table [OF inv])
    then have "live r e" using live_iff [OF inv] by blast
    with assms(2) show ?thesis by (simp add: d entry_slot_def)
  qed
  then show ?thesis by (simp add: exact_printing_def)
qed

lemma live_table:
  "rg_inv x r \<Longrightarrow> live r e \<Longrightarrow>
     fi_table (rg_filter_index r) (sb_conn (se_subscription e), sb_sub (se_subscription e)) = Some (entry_slot e)"
  by (simp add: rg_table live_def entry_key_def)

subsection \<open>The per-connection cap\<close>

text \<open>The guard looks only at connections that already have an entry, so a connection holds at most
  the configured number of subscriptions, or one when the limit is zero.\<close>

definition conn_capped :: "SubscriptionRegistry \<Rightarrow> bool" where
  "conn_capped r =
     (\<forall>c. length (get_connection_subscriptions c r) \<le>
        max 1 (unat (max_subscriptions_per_connection (fi_limits (rg_filter_index r)))))"

lemma subscribe_capped:
  assumes cap: "conn_capped r" and res: "subscribe x sub node r = Some (r', res)"
  shows "conn_capped r'"
proof -
  have lim: "fi_limits fi = fi_limits (rg_filter_index r)"
    if "add_subscription x sub node (rg_filter_index r) = Some (fi, v)" for fi v
  proof (cases rule: check_limits_cases [where pk = "pattern_str (sb_topic sub)" and sub = sub
        and fi = "rg_filter_index r"])
    case ok
    with that show ?thesis by (auto simp: add_subscription_eq alloc_slot_eq)
  next
    case (rejected reason)
    with that have "fi = fst (reject_capacity reason (rg_filter_index r))"
      by (simp add: add_subscription_eq reject_capacity_def)
    then show ?thesis by simp
  qed
  have small: "length (get_connection_subscriptions (sb_conn sub) r) <
      max 1 (unat (max_subscriptions_per_connection (fi_limits (rg_filter_index r))))"
    if "check_subscription_guards r (sb_conn sub)
        (max_subscriptions_per_connection (fi_limits (rg_filter_index r)))
        (max_total_subscriptions (fi_limits (rg_filter_index r))) = Inr ()"
    using that by (auto simp: check_subscription_guards_def get_connection_subscriptions_def
        less_max_iff_disj Let_def split: option.splits if_splits)
  show ?thesis
  proof (cases "check_subscription_guards r (sb_conn sub)
      (max_subscriptions_per_connection (fi_limits (rg_filter_index r)))
      (max_total_subscriptions (fi_limits (rg_filter_index r)))")
    case (Inl e)
    with res cap show ?thesis by (simp add: subscribe_def)
  next
    case (Inr u)
    from res show ?thesis
    proof (cases rule: subscribe_obtain)
      case (guard e)
      with cap show ?thesis by simp
    next
      case (index fi)
      then show ?thesis
      proof (cases res)
        case (Inl e)
        with index lim cap show ?thesis by (simp add: conn_capped_def)
      next
        case res_ok: (Inr v)
        have conn: "get_connection_subscriptions c r' = (if c = sb_conn sub
            then get_connection_subscriptions c r @ [new_entry sub node]
            else get_connection_subscriptions c r)" for c
          using index res_ok by simp
        have "fi_limits (rg_filter_index r') = fi_limits (rg_filter_index r)"
          using index res_ok lim by simp
        with conn small Inr cap show ?thesis
          by (auto simp: conn_capped_def Suc_le_eq)
      qed
    qed
  qed
qed

subsection \<open>Accepting a list of subscriptions\<close>

fun subscribe_all ::
    "Externals \<Rightarrow> Subscription list \<Rightarrow> SubscriptionRegistry \<Rightarrow> SubscriptionRegistry option" where
  "subscribe_all x [] r = Some r"
| "subscribe_all x (sub # subs) r =
     (case subscribe x sub None r of
        Some (r', Inr _) \<Rightarrow> subscribe_all x subs r'
      | _ \<Rightarrow> None)"

lemma subscribe_clean:
  assumes "fields_clean (rg_filter_index r)" and "sub_clean sub" and "subscribe x sub node r = Some (r', res)"
  shows "fields_clean (rg_filter_index r')"
  using assms(3)
proof (cases rule: subscribe_obtain)
  case (guard e)
  with assms(1) show ?thesis by simp
next
  case (index fi)
  with fields_clean_add [OF assms(1,2) index(1)] show ?thesis by (simp split: sum.split)
qed

lemma subscribe_all_inv:
  assumes "subscribe_all x subs r = Some r'" and "rg_inv x r" and "fields_clean (rg_filter_index r)"
    and "\<forall>sub\<in>set subs. parsed_pattern (sb_topic sub) \<and> sub_clean sub"
    and "distinct (map (\<lambda>sub. (sb_conn sub, sb_sub sub)) subs)"
    and "\<forall>sub\<in>set subs. dm_get (rg_by_sub_id r) (sb_conn sub, sub_raw (sb_sub sub)) = None"
  shows "rg_inv x r' \<and> fields_clean (rg_filter_index r') \<and>
    (\<forall>e. live r' e \<longleftrightarrow> live r e \<or> e \<in> (\<lambda>sub. new_entry sub None) ` set subs)"
  using assms
proof (induction subs arbitrary: r)
  case Nil
  then show ?case by simp
next
  case (Cons sub subs)
  then obtain r1 where r1: "subscribe x sub None r = Some (r1, Inr ())"
    and rest: "subscribe_all x subs r1 = Some r'"
    by (auto split: option.splits prod.splits sum.splits)
  note acc = subscribe_accepted [OF Cons.prems(2) _ _ r1]
  have inv1: "rg_inv x r1" and live1: "\<And>e. live r1 e \<longleftrightarrow> e = new_entry sub None \<or> live r e"
    and by1: "rg_by_sub_id r1 = dm_insert (sb_conn sub, sub_raw (sb_sub sub)) (new_entry sub None) (rg_by_sub_id r)"
    using acc Cons.prems(4,6) by simp_all
  have clean1: "fields_clean (rg_filter_index r1)"
    using subscribe_clean [OF Cons.prems(3) _ r1] Cons.prems(4) by simp
  have "rg_inv x r' \<and> fields_clean (rg_filter_index r') \<and>
      (\<forall>e. live r' e \<longleftrightarrow> live r1 e \<or> e \<in> (\<lambda>sub. new_entry sub None) ` set subs)"
    using Cons.prems by (intro Cons.IH [OF rest inv1 clean1]) (auto simp: by1 image_iff)
  with live1 show ?case by auto
qed

subsection \<open>Example registries\<close>

definition demo_reg :: "Subscription list \<Rightarrow> SubscriptionRegistry" where
  "demo_reg subs = the (subscribe_all demo_ext subs (registry_with_limits limits_default))"

lemmas eval_registry = subscribe_def check_subscription_guards_def registry_with_limits_def
  registry_insert_def lookup_matches_bitmap_def lookup_matches_def lookup_entry_def unsubscribe_def

lemmas eval_demo = demo_ext_def demo_sub_def demo_event_def demo_clock_def demo_reg_def

lemmas eval_all = eval_maps eval_index eval_registry eval_types eval_demo

definition demo_subs :: "Subscription list" where
  "demo_subs = [demo_sub ''s1'' ''a/b'' None,
     demo_sub ''s2'' ''a/*'' (Some (FEq (FieldPath ''n'') (FInteger 42))),
     demo_sub ''s3'' ''a/b'' (Some (FNe (FieldPath ''n'') (FInteger 42)))]"

lemma demo_subs_accepted:
  "subscribe_all demo_ext demo_subs (registry_with_limits limits_default) = Some (demo_reg demo_subs)"
proof -
  have "subscribe_all demo_ext demo_subs (registry_with_limits limits_default) \<noteq> None"
    by (simp add: eval_all demo_subs_def)
  then show ?thesis by (auto simp: demo_reg_def)
qed

lemma demo_reg_inv:
  "rg_inv demo_ext (demo_reg demo_subs) \<and> fields_clean (rg_filter_index (demo_reg demo_subs)) \<and>
   (\<forall>e. live (demo_reg demo_subs) e \<longleftrightarrow> e \<in> (\<lambda>sub. new_entry sub None) ` set demo_subs)"
proof -
  have lim: "unat (max_total_subscriptions limits_default) \<le> 2 ^ 32"
    by (simp add: limits_default_def)
  have "\<forall>sub\<in>set demo_subs. parsed_pattern (sb_topic sub) \<and> sub_clean sub"
    by (simp add: demo_subs_def demo_sub_def sub_clean_def sub_fields_def nul_def)
  moreover have "distinct (map (\<lambda>sub. (sb_conn sub, sb_sub sub)) demo_subs)"
    by (simp add: demo_subs_def demo_sub_def)
  moreover have "fields_clean (rg_filter_index (registry_with_limits limits_default))"
    by (simp add: registry_with_limits_def fields_clean_new)
  ultimately show ?thesis
    using subscribe_all_inv [OF demo_subs_accepted rg_inv_new [OF lim, of demo_ext]]
    by (simp add: registry_with_limits_def live_def)
qed

lemma demo_live:
  "live (demo_reg demo_subs) e \<longleftrightarrow>
     e = new_entry (demo_sub ''s1'' ''a/b'' None) None \<or>
     e = new_entry (demo_sub ''s2'' ''a/*'' (Some (FEq (FieldPath ''n'') (FInteger 42)))) None \<or>
     e = new_entry (demo_sub ''s3'' ''a/b'' (Some (FNe (FieldPath ''n'') (FInteger 42)))) None"
  using demo_reg_inv by (simp add: demo_subs_def)

subsection \<open>A repeated identifier\<close>

text \<open>Nothing stops a connection from subscribing twice under one identifier; the second entry takes the
  place of the first in the map by identifier and in the slot table, and the invariant is lost.\<close>

lemma add_ok_safe:
  assumes safe: "fi_safe fi" and add: "add_subscription x sub node fi = Some (fi', Inr ())"
  obtains i slots free where "slab_alloc (dispatch_slot_of sub node) (fi_slots fi, fi_free fi) = Some (i, (slots, free))"
    and "unat i < length slots" and "fi' = add_accepted x sub i (fi\<lparr>fi_slots := slots, fi_free := free\<rparr>)"
    and "fi_safe fi'"
proof (cases rule: check_limits_cases [where pk = "pattern_str (sb_topic sub)" and sub = sub and fi = fi])
  case ok
  have "\<forall>i\<in>set (fi_free fi). unat i < length (fi_slots fi)" using safe by (simp add: fi_safe_def)
  from slab_alloc_bounds [OF this, of "dispatch_slot_of sub node"] obtain i slots free
    where a: "slab_alloc (dispatch_slot_of sub node) (fi_slots fi, fi_free fi) = Some (i, (slots, free))"
      and b: "unat i < length slots" "length (fi_slots fi) \<le> length slots" "set free \<subseteq> set (fi_free fi)"
    by blast
  have "add_subscription x sub node fi =
      Some (add_accepted x sub i (fi\<lparr>fi_slots := slots, fi_free := free\<rparr>), Inr ())"
    using ok a by (simp add: add_subscription_eq alloc_slot_eq)
  with add have fi': "fi' = add_accepted x sub i (fi\<lparr>fi_slots := slots, fi_free := free\<rparr>)" by simp
  obtain fi'' res where "add_subscription x sub node fi = Some (fi'', res)" "fi_safe fi''"
    by (rule add_safe [OF safe])
  with add have "fi_safe fi'" by simp
  then show ?thesis by (rule that [OF a b(1) fi'])
next
  case (rejected r)
  with add show ?thesis by (simp add: add_subscription_eq reject_capacity_def)
qed

text \<open>An index where one pair was added twice, removed twice in that order, and another then added: the
  last slot taken is the one just freed, and the second addition's bit of it is still set.\<close>

lemma stale_bit:
  assumes safe: "fi_safe fi"
    and pair: "(sb_conn P, sb_sub P) = (sb_conn A, sb_sub A)" and P: "sb_filter P = None"
    and apart: "pattern_str (sb_topic A) \<noteq> pattern_str (sb_topic P)"
    and 1: "add_subscription x A n1 fi = Some (fi1, Inr ())"
    and 2: "add_subscription x P n2 fi1 = Some (fi2, Inr ())"
    and 3: "add_subscription x D n3 (remove_subscription P (remove_subscription A fi2)) = Some (fi3, Inr ())"
  obtains i where "slab_get (fi_slots fi3, fi_free fi3) i = Some (dispatch_slot_of D n3)"
    and "i \<in> bm_at (fi_unfiltered fi3) (pattern_str (sb_topic P))" and "fi_safe fi3"
    and "fi_patterns fi3 = dm_or_insert (pattern_str (sb_topic D)) (sb_topic D)
      (dm_or_insert (pattern_str (sb_topic P)) (sb_topic P)
        (dm_or_insert (pattern_str (sb_topic A)) (sb_topic A) (fi_patterns fi)))"
proof -
  obtain i1 slots1 free1 where fi1: "fi1 = add_accepted x A i1 (fi\<lparr>fi_slots := slots1, fi_free := free1\<rparr>)"
    and s1: "fi_safe fi1" by (rule add_ok_safe [OF safe 1])
  obtain i slots free where below: "unat i < length slots"
    and fi2: "fi2 = add_accepted x P i (fi1\<lparr>fi_slots := slots, fi_free := free\<rparr>)" and s2: "fi_safe fi2"
    by (rule add_ok_safe [OF s1 2])
  define fa where "fa = remove_subscription A fi2"
  have slot: "dm_get (fi_slot_by_sub fi2) (sb_conn A, sb_sub A) = Some i"
    using pair by (simp add: fi2)
  note fa = remove_present [OF slot fa_def]
  have "dm_get (fi_slot_by_sub fa) (sb_conn P, sb_sub P) = None" using pair by (simp add: fa(3))
  then have again: "remove_subscription P fa = fa" by (rule remove_absent)
  have sa: "fi_safe fa" unfolding fa_def by (rule remove_safe [OF s2])
  have "fi_slots fa = slots[unat i := None]" "fi_free fa = free @ [i]"
    using fa(1,2) below by (simp_all add: fi2 slab_free_def)
  moreover obtain j slots3 free3 where a3: "slab_alloc (dispatch_slot_of D n3) (fi_slots fa, fi_free fa) = Some (j, (slots3, free3))"
    and fi3: "fi3 = add_accepted x D j (fa\<lparr>fi_slots := slots3, fi_free := free3\<rparr>)" and s3: "fi_safe fi3"
    by (rule add_ok_safe [OF sa 3 [folded fa_def, unfolded again]])
  ultimately have "j = i" "slots3 = slots[unat i := Some (dispatch_slot_of D n3)]"
    using below by (auto simp: slab_alloc_def)
  then have get: "slab_get (fi_slots fi3, fi_free fi3) i = Some (dispatch_slot_of D n3)"
    using below by (simp add: fi3 slab_get_def)
  have "i \<in> bm_at (fi_unfiltered fi2) (pattern_str (sb_topic P))"
    by (simp add: fi2 add_accepted_bits P sub_unfiltered_def)
  then have "i \<in> bm_at (fi_unfiltered fa) (pattern_str (sb_topic P))"
    using apart by (simp add: fa(9) bm_at_def)
  then have bit: "i \<in> bm_at (fi_unfiltered fi3) (pattern_str (sb_topic P))"
    by (simp add: fi3 add_accepted_bits)
  show thesis by (rule that [OF get bit s3]) (simp add: fi3 fa(4) fi2 fi1)
qed

lemma matched_unfiltered:
  assumes "fi_safe fi" and "slab_get (fi_slots fi, fi_free fi) i = Some d" and "ds_exact d"
    and "i \<in> bm_at (fi_unfiltered fi) k" and "(k, p) \<in> set (fi_patterns fi)" and "pattern_matches p (ev_topic event)"
  shows "\<exists>ms fi'. fi_collect_matches x ck event fi = Some (ms, fi') \<and> slot_match d \<in> set ms"
proof -
  let ?ms = "matched_slots x (fst (fi_is_open ck fi)) event fi"
  have "i \<in> set (evaluate_unfiltered_only fi event)" "i \<in> set (evaluate_inner x fi event parsed)" for parsed
    using assms(4-6) by (force simp: evaluate_unfiltered_set evaluate_inner_set unfiltered_hits_def pattern_hits_def)+
  moreover have "d \<in> set (slots_of fi b)" if "i \<in> set b" for b
    using that assms(2) by (force simp: slots_of_def List.map_filter_def)
  ultimately have "d \<in> set ?ms" using assms(3) by (simp add: matched_slots_def slot_passes_def)
  with fi_collect_matches_eq [OF assms(1) refl, of x ck event] show ?thesis by auto
qed

lemma subscribe_accepted_index:
  assumes "subscribe x sub node r = Some (r', Inr ())"
  obtains fi where "add_subscription x sub node (rg_filter_index r) = Some (fi, Inr ())"
    and "r' = registry_insert sub node (r\<lparr>rg_filter_index := fi\<rparr>)"
  using assms by (cases rule: subscribe_obtain) auto

lemma registry_insert_connection [simp]:
  "dm_get (rg_by_connection (registry_insert sub node r)) c =
     (if c = sb_conn sub
      then Some ((case dm_get (rg_by_connection r) c of None \<Rightarrow> [] | Some v \<Rightarrow> v) @ [new_entry sub node])
      else dm_get (rg_by_connection r) c)"
  by (simp add: registry_insert_def new_entry_def Let_def)

lemma subscribe_again_breaks:
  assumes inv: "rg_inv x r" and held: "dm_get (rg_by_sub_id r) (sb_conn sub, sub_raw (sb_sub sub)) = Some e"
    and res: "subscribe x sub node r = Some (r', Inr ())"
  shows "\<not> rg_inv x r'"
proof
  assume inv': "rg_inv x r'"
  obtain fi where r': "r' = registry_insert sub node (r\<lparr>rg_filter_index := fi\<rparr>)"
    by (rule subscribe_accepted_index [OF res])
  let ?c = "sb_conn sub"
  have key: "entry_key e = (?c, sub_raw (sb_sub sub))" and "live r e"
    using rg_entry [OF inv held] held by (auto simp: live_def)
  moreover have "sb_conn (se_subscription e) = ?c" using key by (simp add: entry_key_def)
  ultimately have e: "e \<in> set (get_connection_subscriptions ?c r)"
    using rg_conn [OF inv] by blast
  have list: "get_connection_subscriptions ?c r' = get_connection_subscriptions ?c r @ [new_entry sub node]"
    by (simp add: r' get_connection_subscriptions_def)
  then have "e \<in> set (get_connection_subscriptions ?c r')" using e by simp
  then have "live r' e" using rg_conn [OF inv'] by blast
  then have "e = new_entry sub node" by (simp add: live_def key r')
  with e list have "\<not> distinct (get_connection_subscriptions ?c r')" by simp
  then show False using rg_distinct(2) [OF inv'] by blast
qed

subsection \<open>Properties\<close>

text \<open>C16: the registry's maps stay in step.  The invariant says that the per-connection lists, the
  per-topic lists, the identifier map, the pattern map and the filter index describe the same set of
  live subscriptions.  On a registry that satisfies it: an accepted subscription with a parsed pattern
  keeps the invariant exactly when its connection does not hold its identifier yet, and then adds that
  one subscription; a refused one keeps the invariant, changes no subscription and answers 429;
  unsubscribe keeps it, removes exactly its key and reports whether it was there; a disconnect keeps it
  and removes exactly the connection's subscriptions.\<close>

theorem registry_maps_in_step:
  assumes "rg_inv x r"
  shows "(parsed_pattern (sb_topic sub) \<longrightarrow> subscribe x sub node r = Some (r1, Inr ()) \<longrightarrow>
       (rg_inv x r1 \<longleftrightarrow> dm_get (rg_by_sub_id r) (sb_conn sub, sub_raw (sb_sub sub)) = None) \<and>
       (rg_inv x r1 \<longrightarrow> (\<forall>e. live r1 e \<longleftrightarrow> e = new_entry sub node \<or> live r e))) \<and>
    (subscribe x sub node r = Some (r2, Inl err) \<longrightarrow>
       rg_inv x r2 \<and> (\<forall>e. live r2 e \<longleftrightarrow> live r e) \<and> status_code err = 429) \<and>
    (unsubscribe c s r = (r3, found) \<longrightarrow>
       rg_inv x r3 \<and> (\<forall>e. live r3 e \<longleftrightarrow> live r e \<and> entry_key e \<noteq> (c, s)) \<and>
       (found \<longleftrightarrow> (\<exists>e. live r e \<and> entry_key e = (c, s)))) \<and>
    rg_inv x (registry_remove_connection c r) \<and>
    (\<forall>e. live (registry_remove_connection c r) e \<longleftrightarrow> live r e \<and> sb_conn (se_subscription e) \<noteq> c)"
proof (intro conjI impI)
  assume p: "parsed_pattern (sb_topic sub)" and s: "subscribe x sub node r = Some (r1, Inr ())"
  have fresh: "dm_get (rg_by_sub_id r) (sb_conn sub, sub_raw (sb_sub sub)) = None" if "rg_inv x r1"
    using subscribe_again_breaks [OF assms _ s] that by fastforce
  then show "rg_inv x r1 \<longleftrightarrow> dm_get (rg_by_sub_id r) (sb_conn sub, sub_raw (sb_sub sub)) = None"
    using subscribe_accepted [OF assms p _ s] by blast
  assume "rg_inv x r1"
  from subscribe_accepted [OF assms p fresh [OF this] s]
  show "\<forall>e. live r1 e \<longleftrightarrow> e = new_entry sub node \<or> live r e" by blast
next
  assume "subscribe x sub node r = Some (r2, Inl err)"
  from subscribe_rejected [OF assms this]
  show "rg_inv x r2" and "\<forall>e. live r2 e \<longleftrightarrow> live r e" and "status_code err = 429"
    by (simp_all add: live_def)
next
  assume u: "unsubscribe c s r = (r3, found)"
  have "dm_get (rg_by_sub_id r) (c, s) \<noteq> None \<longleftrightarrow> (\<exists>e. live r e \<and> entry_key e = (c, s))"
    unfolding live_def by (metis rg_entry [OF assms] not_None_eq)
  with unsubscribe_inv [OF assms u]
  show "rg_inv x r3" and "\<forall>e. live r3 e \<longleftrightarrow> live r e \<and> entry_key e \<noteq> (c, s)"
    and "found \<longleftrightarrow> (\<exists>e. live r e \<and> entry_key e = (c, s))" by blast+
next
  show "rg_inv x (registry_remove_connection c r)"
    and "\<forall>e. live (registry_remove_connection c r) e \<longleftrightarrow> live r e \<and> sb_conn (se_subscription e) \<noteq> c"
    using remove_connection_inv [OF assms refl] by blast+
qed

theorem registry_maps_in_step_witness:
  "rg_inv demo_ext (registry_remove_connection (ConnectionId 1) (demo_reg demo_subs)) \<and>
   \<not> live (registry_remove_connection (ConnectionId 1) (demo_reg demo_subs))
       (new_entry (demo_sub ''s1'' ''a/b'' None) None) \<and>
   live (demo_reg demo_subs) (new_entry (demo_sub ''s1'' ''a/b'' None) None)"
proof -
  have inv: "rg_inv demo_ext (demo_reg demo_subs)" using demo_reg_inv by blast
  have "live (demo_reg demo_subs) (new_entry (demo_sub ''s1'' ''a/b'' None) None)"
    by (simp add: demo_live)
  moreover have "sb_conn (se_subscription (new_entry (demo_sub ''s1'' ''a/b'' None) None)) = ConnectionId 1"
    by (simp add: demo_sub_def)
  ultimately show ?thesis
    using registry_maps_in_step [OF inv, where c = "ConnectionId 1"] by blast
qed

text \<open>C15: the two lookups agree: while the circuit is closed, the bitmap lookup returns exactly the
  matches of the linear lookup, each once, for registries that satisfy the invariant, whose patterns and
  fields hold no NUL and whose filters compare with no float zero, and events whose indexed values print
  apart from different filter values.  The lookup changes nothing of the registry but the filter index's
  breaker and statistics: its patterns, slots and bitmaps are the same, and so are the registry's maps.\<close>

theorem bitmap_lookup_agrees:
  assumes "rg_inv x r" and "fields_clean (rg_filter_index r)"
    and "\<forall>e. live r e \<longrightarrow> no_float_zero (sb_filter (se_subscription e)) \<and>
               prints_apart x event (sb_filter (se_subscription e))"
    and "\<not> cb_open (fi_breaker (rg_filter_index r))"
  shows "\<exists>ms r'. lookup_matches_bitmap x ck event r = Some (ms, r') \<and>
     mset ms = mset (lookup_matches x event r) \<and> distinct (map match_key ms) \<and> rg_inv x r' \<and>
     (\<forall>m. m \<in> set ms \<longleftrightarrow> (\<exists>e. live r e \<and> entry_wants x event e \<and> m = entry_match e)) \<and>
     r' = r\<lparr>rg_filter_index := rg_filter_index r'\<rparr> \<and> same_index (rg_filter_index r) (rg_filter_index r')"
proof -
  have "\<not> fst (fi_is_open ck (rg_filter_index r))"
    using assms(4) closed_not_degraded by blast
  from lookups_agree [OF assms(1) fields_clean_index [OF assms(2)] exact_printing_live [OF assms(1,3)] this]
  obtain ms r' where ms: "lookup_matches_bitmap x ck event r = Some (ms, r')"
    and eq: "mset ms = mset (lookup_matches x event r)" and dist: "distinct (map match_key ms)" .
  from ms obtain fi' where "fi_collect_matches x ck event (rg_filter_index r) = Some (ms, fi')"
    and r': "r' = r\<lparr>rg_filter_index := fi'\<rparr>"
    by (auto simp: lookup_matches_bitmap_def bind_eq_Some_conv)
  moreover have "fi_safe (rg_filter_index r)"
    using assms(1) by (simp add: rg_inv_def rg_index_inv_def fi_ok_def fi_inv_def)
  ultimately have same: "same_index (rg_filter_index r) fi'"
    using fi_collect_matches_eq [OF _ refl, of "rg_filter_index r" x ck event] after_match_same by auto
  then have "rg_inv x r'" using rg_inv_matched [OF assms(1)] r' by blast
  moreover have "set ms = set (lookup_matches x event r)" using eq by (rule mset_eq_setD)
  moreover have "r' = r\<lparr>rg_filter_index := rg_filter_index r'\<rparr>"
    and "same_index (rg_filter_index r) (rg_filter_index r')" using same by (simp_all add: r')
  ultimately show ?thesis using ms eq dist lookup_matches_mem [OF assms(1)] by blast
qed

theorem bitmap_lookup_agrees_witness:
  "\<exists>ms r'. lookup_matches_bitmap demo_ext demo_clock (demo_event ''a/b'' ''n42'') (demo_reg demo_subs) = Some (ms, r') \<and>
     mset ms = mset (lookup_matches demo_ext (demo_event ''a/b'' ''n42'') (demo_reg demo_subs))"
proof -
  have "\<forall>e. live (demo_reg demo_subs) e \<longrightarrow> no_float_zero (sb_filter (se_subscription e)) \<and>
      prints_apart demo_ext (demo_event ''a/b'' ''n42'') (sb_filter (se_subscription e))"
    by (auto simp: demo_live demo_sub_def no_float_zero_def prints_apart_def not_float_zero_def
        event_getter_def eval_types demo_event_def demo_ext_def)
  moreover have "\<not> cb_open (fi_breaker (rg_filter_index (demo_reg demo_subs)))"
    by (simp add: eval_all demo_subs_def)
  ultimately show ?thesis
    using bitmap_lookup_agrees [of demo_ext "demo_reg demo_subs" "demo_event ''a/b'' ''n42''" demo_clock]
      demo_reg_inv by blast
qed

text \<open>The bitmap lookup never misses a subscription: with the circuit closed, every live
  subscription whose pattern matches the topic and whose filter accepts the event is among the
  delivered matches, whatever the other subscriptions are, if its filter compares with no float
  zero.\<close>

theorem bitmap_never_misses:
  assumes "rg_inv x r" and "\<not> cb_open (fi_breaker (rg_filter_index r))"
    and "live r e" and "entry_wants x event e" and "no_float_zero (sb_filter (se_subscription e))"
  shows "\<exists>ms r'. lookup_matches_bitmap x ck event r = Some (ms, r') \<and> entry_match e \<in> set ms"
proof -
  have fi: "fi_inv x (rg_filter_index r)" and safe: "fi_safe (rg_filter_index r)"
    using assms(1) by (simp_all add: rg_inv_def rg_index_inv_def fi_ok_def fi_inv_def)
  obtain i where "ds_at (rg_filter_index r) i = Some (entry_slot e)"
    using live_table [OF assms(1,3)] by (auto simp: fi_table_iff [OF fi])
  then have "entry_slot e \<in> set (matched_slots x False event (rg_filter_index r))"
    using assms(4,5) by (intro matched_complete [OF fi]) (simp_all add: entry_slot_wants, simp add: entry_slot_def)
  then show ?thesis
    using fi_collect_matches_eq [OF safe refl, of x ck event] closed_not_degraded [OF assms(2), of ck]
    by (auto simp: lookup_matches_bitmap_def entry_slot_match [symmetric])
qed

theorem bitmap_never_misses_witness:
  "\<exists>ms r'. lookup_matches_bitmap demo_ext demo_clock (demo_event ''a/b'' ''n42'') (demo_reg demo_subs)
      = Some (ms, r') \<and> (ConnectionId 1, SubscriptionId ''s2'', None) \<in> set ms"
proof -
  let ?e = "new_entry (demo_sub ''s2'' ''a/*'' (Some (FEq (FieldPath ''n'') (FInteger 42)))) None"
  have "\<not> cb_open (fi_breaker (rg_filter_index (demo_reg demo_subs)))"
    by (simp add: eval_all demo_subs_def)
  moreover have "entry_wants demo_ext (demo_event ''a/b'' ''n42'') ?e"
    by (simp add: entry_wants_def event_getter_def eval_types demo_sub_def demo_event_def demo_ext_def)
  moreover have "no_float_zero (sb_filter (se_subscription ?e))"
    by (simp add: no_float_zero_def demo_sub_def not_float_zero_def)
  ultimately show ?thesis
    using bitmap_never_misses [of demo_ext "demo_reg demo_subs" ?e "demo_event ''a/b'' ''n42''" demo_clock]
      demo_reg_inv demo_live [of ?e] by (simp add: entry_match_def demo_sub_def)
qed

text \<open>Where printing is not injective the lookups differ.  A filter on the string \<open>42\<close> is
  delivered an event whose field is the number 42, which the linear lookup refuses; and a filter on
  the float minus zero misses an event whose field is plus zero, which the linear lookup accepts.\<close>

theorem bitmap_lookup_differs:
  "lookup_matches demo_ext (demo_event ''a/b'' ''n42'')
     (demo_reg [demo_sub ''s'' ''a/b'' (Some (FEq (FieldPath ''n'') (FString ''42'')))]) = [] \<and>
   map_option fst (lookup_matches_bitmap demo_ext demo_clock (demo_event ''a/b'' ''n42'')
     (demo_reg [demo_sub ''s'' ''a/b'' (Some (FEq (FieldPath ''n'') (FString ''42'')))]))
     = Some [(ConnectionId 1, SubscriptionId ''s'', None)] \<and>
   lookup_matches demo_ext (demo_event ''a/b'' ''n0'')
     (demo_reg [demo_sub ''s'' ''a/b'' (Some (FEq (FieldPath ''n'') (FFloat 0x8000000000000000)))])
     = [(ConnectionId 1, SubscriptionId ''s'', None)] \<and>
   map_option fst (lookup_matches_bitmap demo_ext demo_clock (demo_event ''a/b'' ''n0'')
     (demo_reg [demo_sub ''s'' ''a/b'' (Some (FEq (FieldPath ''n'') (FFloat 0x8000000000000000)))]))
     = Some []"
  by (intro conjI)
    (simp_all add: eval_all f64_eq_def f64_is_nan_def f64_is_zero_def)

text \<open>Subscribing twice under one identifier leaks the first slot: after the second subscription
  (on another topic) and one unsubscribe, the registry counts no subscription and the linear lookup
  finds none on the first topic, but the bitmap lookup still delivers to the connection.\<close>

theorem resubscribe_leaks_slot:
  "let r = fst (unsubscribe (ConnectionId 1) ''s'' (demo_reg [demo_sub ''s'' ''a'' None, demo_sub ''s'' ''b'' None]))
   in subscription_count r = 0 \<and> lookup_matches demo_ext (demo_event ''a'' ''{}'') r = [] \<and>
      map_option fst (lookup_matches_bitmap demo_ext demo_clock (demo_event ''a'' ''{}'') r)
        = Some [(ConnectionId 1, SubscriptionId ''s'', None)]"
  unfolding Let_def
  by (intro conjI) (simp_all add: eval_all subscription_count_def)

text \<open>C18: a freed slot misroutes.  In any registry that satisfies the invariant, let a connection that
  holds nothing subscribe twice under one identifier, to two different parsed patterns, the second without
  a filter, and disconnect.  The removal of the first entry frees the slot of the second but leaves its bit
  under the second pattern, and the removal of the second finds no slot.  The next accepted subscription,
  of any connection, is given that slot: if it has no filter, every event that the forgotten pattern
  matches and its own does not is delivered to it by the bitmap lookup, though the registry's entry of it
  does not want the event.\<close>

theorem reused_slot_misroutes:
  assumes inv: "rg_inv x r" and none: "get_connection_subscriptions c r = []"
    and conn: "sb_conn A = c" "sb_conn P = c" and twice: "sb_sub P = sb_sub A"
    and parsed: "parsed_pattern (sb_topic A)" "parsed_pattern (sb_topic P)"
    and apart: "sb_topic A \<noteq> sb_topic P" and plain: "sb_filter P = None" "sb_filter D = None"
    and 1: "subscribe x A n1 r = Some (r1, Inr ())" and 2: "subscribe x P n2 r1 = Some (r2, Inr ())"
    and 3: "subscribe x D n3 (registry_remove_connection c r2) = Some (r3, Inr ())"
    and hit: "pattern_matches (sb_topic P) (ev_topic event)"
    and miss: "\<not> pattern_matches (sb_topic D) (ev_topic event)"
  shows "\<exists>ms r4. lookup_matches_bitmap x ck event r3 = Some (ms, r4) \<and>
    (sb_conn D, sb_sub D, n3) \<in> set ms \<and>
    dm_get (rg_by_sub_id r3) (sb_conn D, sub_raw (sb_sub D)) = Some (new_entry D n3) \<and>
    \<not> entry_wants x event (new_entry D n3)"
proof -
  let ?fi = "rg_filter_index r"
  obtain fi1 where a1: "add_subscription x A n1 ?fi = Some (fi1, Inr ())"
    and r1: "r1 = registry_insert A n1 (r\<lparr>rg_filter_index := fi1\<rparr>)" by (rule subscribe_accepted_index [OF 1])
  obtain fi2 where a2: "add_subscription x P n2 fi1 = Some (fi2, Inr ())"
    and r2: "r2 = registry_insert P n2 (r1\<lparr>rg_filter_index := fi2\<rparr>)"
    using subscribe_accepted_index [OF 2] r1 by auto
  have "dm_get (rg_by_connection r2) c = Some [new_entry A n1, new_entry P n2]"
    using none conn by (simp add: r1 r2 get_connection_subscriptions_def split: option.splits)
  then have gone: "rg_filter_index (registry_remove_connection c r2) = remove_subscription P (remove_subscription A fi2)"
    by (simp add: registry_remove_connection_def remove_entry_def r2)
  obtain fi3 where a3: "add_subscription x D n3 (remove_subscription P (remove_subscription A fi2)) = Some (fi3, Inr ())"
    and r3: "r3 = registry_insert D n3 ((registry_remove_connection c r2)\<lparr>rg_filter_index := fi3\<rparr>)"
    using subscribe_accepted_index [OF 3] gone by auto
  have safe: "fi_safe ?fi" and pats: "\<And>k p. dm_get (fi_patterns ?fi) k = Some p \<Longrightarrow> p = pattern_parse k"
    using inv by (simp_all add: rg_inv_def rg_index_inv_def fi_ok_def fi_inv_def inv_slots_def)
  have keys: "pattern_str (sb_topic A) \<noteq> pattern_str (sb_topic P)"
    using apart parsed parsed_pattern_eqI by blast
  have pair: "(sb_conn P, sb_sub P) = (sb_conn A, sb_sub A)" using conn twice by simp
  obtain i where get: "slab_get (fi_slots fi3, fi_free fi3) i = Some (dispatch_slot_of D n3)"
    and bit: "i \<in> bm_at (fi_unfiltered fi3) (pattern_str (sb_topic P))" and s3: "fi_safe fi3"
    and p3: "fi_patterns fi3 = dm_or_insert (pattern_str (sb_topic D)) (sb_topic D)
      (dm_or_insert (pattern_str (sb_topic P)) (sb_topic P)
        (dm_or_insert (pattern_str (sb_topic A)) (sb_topic A) (fi_patterns ?fi)))"
    by (rule stale_bit [OF safe pair plain(1) keys a1 a2 a3])
  have "dm_get (fi_patterns fi3) (pattern_str (sb_topic P)) = Some (sb_topic P)"
    using pats parsed(2) keys by (auto simp: p3 parsed_pattern_def split: option.split)
  then have "(pattern_str (sb_topic P), sb_topic P) \<in> set (fi_patterns fi3)"
    by (simp add: dm_get_def map_of_SomeD)
  from matched_unfiltered [OF s3 get _ bit this hit, of x ck] plain(2) obtain ms fi4
    where "fi_collect_matches x ck event fi3 = Some (ms, fi4)" and "slot_match (dispatch_slot_of D n3) \<in> set ms"
    by (auto simp: dispatch_slot_of_def)
  moreover have "\<not> entry_wants x event (new_entry D n3)"
    using miss by (simp add: entry_wants_def new_entry_def)
  ultimately show ?thesis
    by (simp add: lookup_matches_bitmap_def r3 slot_match_def dispatch_slot_of_def)
qed

theorem reused_slot_misroutes_witness:
  "let gone = registry_remove_connection (ConnectionId 1) (demo_reg [demo_sub ''s'' ''a/b'' None, demo_sub ''s'' ''p/q'' None]);
       r = the (subscribe_all demo_ext [(demo_sub ''t'' ''c/d'' None)\<lparr>sb_conn := ConnectionId 2\<rparr>] gone)
   in \<exists>ms r'. lookup_matches_bitmap demo_ext demo_clock (demo_event ''p/q'' ''{}'') r = Some (ms, r') \<and>
        (ConnectionId 2, SubscriptionId ''t'', None) \<in> set ms"
proof -
  let ?r1 = "demo_reg [demo_sub ''s'' ''a/b'' None]"
  let ?r2 = "demo_reg [demo_sub ''s'' ''a/b'' None, demo_sub ''s'' ''p/q'' None]"
  let ?D = "(demo_sub ''t'' ''c/d'' None)\<lparr>sb_conn := ConnectionId 2\<rparr>"
  let ?gone = "registry_remove_connection (ConnectionId 1) ?r2"
  have inv: "rg_inv demo_ext (registry_with_limits limits_default)"
    by (rule rg_inv_new) (simp add: limits_default_def)
  have none: "get_connection_subscriptions (ConnectionId 1) (registry_with_limits limits_default) = []"
    by (simp add: get_connection_subscriptions_def registry_with_limits_def)
  have s: "subscribe demo_ext (demo_sub ''s'' ''a/b'' None) None (registry_with_limits limits_default) = Some (?r1, Inr ())"
    "subscribe demo_ext (demo_sub ''s'' ''p/q'' None) None ?r1 = Some (?r2, Inr ())"
    "subscribe demo_ext ?D None ?gone = Some (the (subscribe_all demo_ext [?D] ?gone), Inr ())"
    by (simp_all add: eval_all registry_remove_connection_def remove_entry_def)
  have p: "parsed_pattern (sb_topic (demo_sub ''s'' ''a/b'' None))" "parsed_pattern (sb_topic (demo_sub ''s'' ''p/q'' None))"
    by (simp_all add: demo_sub_def parsed_pattern_def eval_types)
  have "sb_topic (demo_sub ''s'' ''a/b'' None) \<noteq> sb_topic (demo_sub ''s'' ''p/q'' None)"
    "pattern_matches (sb_topic (demo_sub ''s'' ''p/q'' None)) (ev_topic (demo_event ''p/q'' ''{}''))"
    "\<not> pattern_matches (sb_topic ?D) (ev_topic (demo_event ''p/q'' ''{}''))"
    by (simp_all add: eval_all)
  note apart = this
  have d: "sb_conn (demo_sub ''s'' ''a/b'' None) = ConnectionId 1" "sb_conn (demo_sub ''s'' ''p/q'' None) = ConnectionId 1"
    "sb_sub (demo_sub ''s'' ''p/q'' None) = sb_sub (demo_sub ''s'' ''a/b'' None)"
    "sb_filter (demo_sub ''s'' ''p/q'' None) = None" "sb_filter ?D = None"
    by (simp_all add: demo_sub_def)
  have e: "sb_conn ?D = ConnectionId 2" "sb_sub ?D = SubscriptionId ''t''" by (simp_all add: demo_sub_def)
  show ?thesis unfolding Let_def
    using reused_slot_misroutes [OF inv none d(1-3) p apart(1) d(4,5) s apart(2,3), of demo_clock, unfolded e] by blast
qed

text \<open>No connection exceeds the configured number of subscriptions (one, if the limit is zero):
  the bound is kept by every subscription attempt, fresh or not, accepted or not.\<close>

theorem connection_cap_kept:
  assumes "conn_capped r" and "subscribe x sub node r = Some (r', res)"
  shows "conn_capped r'"
  using subscribe_capped [OF assms] .

theorem connection_cap_kept_witness:
  "conn_capped (demo_reg [demo_sub ''s'' ''a'' None])"
proof -
  have c: "conn_capped (registry_with_limits limits_default)"
    by (simp add: conn_capped_def get_connection_subscriptions_def registry_with_limits_def)
  have "subscribe demo_ext (demo_sub ''s'' ''a'' None) None (registry_with_limits limits_default)
      = Some (demo_reg [demo_sub ''s'' ''a'' None], Inr ())"
    by (simp add: eval_all)
  from connection_cap_kept [OF c this] show ?thesis .
qed

end
