(* ===== verification/Rt_Router.thy ===== *)
theory Rt_Router
  imports Rt_Registry
begin

text \<open>
  Sequence numbers (\<open>crates/realtime-engine/src/sequence.rs\<close>), bounded channels
  (\<open>tokio::sync::mpsc\<close> by its contract), the event router (\<open>router.rs\<close>) and presence tracking
  (\<open>presence.rs\<close>).  Lemmas: sequence numbers count the calls per topic, the router delivers one
  batch per matched event or counts a failure, and the presence sets hold no empty topic.
\<close>

subsection \<open>Sequence numbers (sequence.rs)\<close>

type_synonym SequenceGenerator = "(string, u64) dashmap"

definition sequence_new :: SequenceGenerator where
  "sequence_new = []"

definition sequence_next :: "string \<Rightarrow> SequenceGenerator \<Rightarrow> u64 \<times> SequenceGenerator" where
  "sequence_next topic g =
     (let g = dm_or_insert topic 0 g;
          old = (case dm_get g topic of None \<Rightarrow> 0 | Some v \<Rightarrow> v)
      in (old + 1, dm_insert topic (old + 1) g))"

definition sequence_current :: "string \<Rightarrow> SequenceGenerator \<Rightarrow> u64" where
  "sequence_current topic g = (case dm_get g topic of None \<Rightarrow> 0 | Some v \<Rightarrow> v)"

text \<open>The numbers a sequence of calls returns.\<close>

fun counter_run :: "('k \<Rightarrow> 'g \<Rightarrow> u64 \<times> 'g) \<Rightarrow> 'k list \<Rightarrow> 'g \<Rightarrow> u64 list \<times> 'g" where
  "counter_run nxt [] g = ([], g)"
| "counter_run nxt (k # ks) g =
     (let (n, g') = nxt k g; (ns, g'') = counter_run nxt ks g' in (n # ns, g''))"

text \<open>A counter per key, as the router and the gateway rely on it.\<close>

locale topic_counter =
  fixes nxt :: "'k \<Rightarrow> 'g \<Rightarrow> u64 \<times> 'g"
    and cur :: "'k \<Rightarrow> 'g \<Rightarrow> u64"
    and init :: 'g
  assumes cur_init: "cur k init = 0"
    and nxt_value: "fst (nxt k g) = cur k g + 1"
    and nxt_cur: "cur k' (snd (nxt k g)) = (if k' = k then cur k g + 1 else cur k' g)"
begin

lemma run_cur: "cur k (snd (counter_run nxt ks g)) = cur k g + of_nat (count_list ks k)"
  by (induction ks arbitrary: g) (auto simp: Let_def split_beta nxt_cur add.assoc)

lemma run_length: "length (fst (counter_run nxt ks g)) = length ks"
  by (induction ks arbitrary: g) (auto simp: Let_def split_beta)

lemma run_nth:
  "i < length ks \<Longrightarrow> fst (counter_run nxt ks g) ! i = cur (ks ! i) g + of_nat (count_list (take (Suc i) ks) (ks ! i))"
proof (induction ks arbitrary: g i)
  case (Cons k ks)
  show ?case
  proof (cases i)
    case 0
    then show ?thesis by (simp add: Let_def split_beta nxt_value)
  next
    case (Suc j)
    with Cons.prems Cons.IH [of j "snd (nxt k g)"] show ?thesis
      by (simp add: Let_def split_beta nxt_cur add.assoc)
  qed
qed simp

text \<open>The numbers one key receives are consecutive.\<close>

lemma run_gapless:
  "map snd (filter (\<lambda>(k', n). k' = k) (zip ks (fst (counter_run nxt ks g)))) =
     map (\<lambda>i. cur k g + of_nat (Suc i)) [0..<count_list ks k]"
proof (induction ks arbitrary: g)
  case (Cons k' ks)
  have "map (\<lambda>i. cur k g + of_nat (Suc i)) [0..<Suc n] =
      (cur k g + 1) # map (\<lambda>i. cur k g + 1 + of_nat (Suc i)) [0..<n]" for n
    by (simp add: upt_conv_Cons map_Suc_upt [symmetric] add.assoc del: upt_Suc)
  with Cons.IH [of "snd (nxt k' g)"] show ?case
    by (auto simp: Let_def split_beta nxt_value nxt_cur)
qed simp

lemma run_distinct:
  assumes "n \<le> 2 ^ 64"
  shows "distinct (fst (counter_run nxt (replicate n k) g))"
proof -
  have c: "count_list (replicate m k) k = m" for m by (induction m) auto
  have "fst (counter_run nxt (replicate n k) g) ! i = cur k g + of_nat (Suc i)" if "i < n" for i
    using that run_nth [of i "replicate n k" g] by (simp add: min_def c)
  moreover have "of_nat (Suc i) \<noteq> (of_nat (Suc j) :: u64)" if "i < n" "j < n" "i \<noteq> j" for i j
  proof -
    have "of_nat i \<noteq> (of_nat j :: u64)"
      using that assms by (simp add: word_of_nat_eq_iff take_bit_nat_eq_self)
    then show ?thesis by simp
  qed
  ultimately show ?thesis
    by (simp add: distinct_conv_nth run_length)
qed

end

interpretation seq: topic_counter sequence_next sequence_current sequence_new
  by unfold_locales
    (auto simp: sequence_next_def sequence_current_def sequence_new_def Let_def split: option.splits)

subsection \<open>Bounded channels\<close>

text \<open>An \<open>mpsc\<close> channel: \<open>try_send\<close> fails with the message when the buffer is full or the receiver
  is gone; \<open>recv\<close> takes the oldest message.\<close>

record 'm channel =
  ch_cap :: nat
  ch_buf :: "'m list"
  ch_closed :: bool

datatype SendError = ChannelFull | ChannelClosed

definition channel_new :: "nat \<Rightarrow> 'm channel" where
  "channel_new cap = \<lparr>ch_cap = cap, ch_buf = [], ch_closed = False\<rparr>"

definition try_send :: "'m \<Rightarrow> 'm channel \<Rightarrow> 'm channel \<times> (SendError, unit) result" where
  "try_send m c =
     (if ch_closed c then (c, Inl ChannelClosed)
      else if ch_cap c \<le> length (ch_buf c) then (c, Inl ChannelFull)
      else (c\<lparr>ch_buf := ch_buf c @ [m]\<rparr>, Inr ()))"

definition channel_recv :: "'m channel \<Rightarrow> ('m \<times> 'm channel) option" where
  "channel_recv c = (case ch_buf c of [] \<Rightarrow> None | m # ms \<Rightarrow> Some (m, c\<lparr>ch_buf := ms\<rparr>))"

definition channel_inv :: "'m channel \<Rightarrow> bool" where
  "channel_inv c = (length (ch_buf c) \<le> ch_cap c)"

lemma channel_inv_new [simp]: "channel_inv (channel_new n)"
  by (simp add: channel_inv_def channel_new_def)

lemma channel_inv_send [simp]: "channel_inv c \<Longrightarrow> channel_inv (fst (try_send m c))"
  by (simp add: channel_inv_def try_send_def)

lemma channel_inv_recv: "channel_inv c \<Longrightarrow> channel_recv c = Some (m, c') \<Longrightarrow> channel_inv c'"
  by (auto simp: channel_inv_def channel_recv_def split: list.splits)

lemma try_send_ok_iff:
  "snd (try_send m c) = Inr () \<longleftrightarrow> \<not> ch_closed c \<and> length (ch_buf c) < ch_cap c"
  by (simp add: try_send_def)

lemma try_send_buf:
  "ch_buf (fst (try_send m c)) = ch_buf c @ (if snd (try_send m c) = Inr () then [m] else [])"
  by (simp add: try_send_def)

subsection \<open>The router (router.rs)\<close>

record LocalDispatch =
  ld_conn :: ConnectionId
  ld_sub :: SubscriptionId
  ld_event :: EventEnvelope

datatype DispatchMessage =
    DispatchSingle LocalDispatch
  | DispatchBatch EventEnvelope "(ConnectionId \<times> SubscriptionId) list"

record DispatchStats =
  dt_events_routed :: u64
  dt_matches_dispatched :: u64
  dt_dispatch_failures :: u64
  dt_batches_sent :: u64
  dt_empty_routes :: u64
  dt_largest_batch :: u64

definition dispatch_stats_new :: DispatchStats where
  "dispatch_stats_new = \<lparr>dt_events_routed = 0, dt_matches_dispatched = 0, dt_dispatch_failures = 0,
     dt_batches_sent = 0, dt_empty_routes = 0, dt_largest_batch = 0\<rparr>"

type_synonym DispatchStatsSnapshot = DispatchStats

definition dispatch_snapshot :: "DispatchStats \<Rightarrow> DispatchStatsSnapshot" where
  "dispatch_snapshot s = \<lparr>dt_events_routed = dt_events_routed s,
     dt_matches_dispatched = dt_matches_dispatched s, dt_dispatch_failures = dt_dispatch_failures s,
     dt_batches_sent = dt_batches_sent s, dt_empty_routes = dt_empty_routes s,
     dt_largest_batch = dt_largest_batch s\<rparr>"

definition update_largest_batch :: "u64 \<Rightarrow> DispatchStats \<Rightarrow> DispatchStats" where
  "update_largest_batch n s =
     (if dt_largest_batch s < n then s\<lparr>dt_largest_batch := n\<rparr> else s)"

record EventRouter =
  rt_registry :: SubscriptionRegistry
  rt_sequence_gen :: SequenceGenerator
  rt_dispatch_tx :: "DispatchMessage channel"
  rt_stats :: DispatchStats

definition router_new ::
    "SubscriptionRegistry \<Rightarrow> SequenceGenerator \<Rightarrow> DispatchMessage channel \<Rightarrow> EventRouter" where
  "router_new registry sequence_gen dispatch_tx =
     \<lparr>rt_registry = registry, rt_sequence_gen = sequence_gen, rt_dispatch_tx = dispatch_tx,
      rt_stats = dispatch_stats_new\<rparr>"

definition push_target :: "(ConnectionId \<times> SubscriptionId) list callback" where
  "push_target conn_id sub_id node targets = targets @ [(conn_id, sub_id)]"

definition route_event ::
    "Externals \<Rightarrow> Clock \<Rightarrow> EventEnvelope \<Rightarrow> EventRouter \<Rightarrow> (nat \<times> EventRouter) option" where
  "route_event x ck event r =
     (let (n, g) = sequence_next (topic_str (ev_topic event)) (rt_sequence_gen r);
          event = event\<lparr>ev_sequence := n\<rparr>;
          r = r\<lparr>rt_sequence_gen := g\<rparr>
      in do { (_, targets, registry) \<leftarrow> registry_for_each_match x ck event push_target (rt_registry r) [];
              (let r = r\<lparr>rt_registry := registry\<rparr>;
                   count = length targets;
                   s = rt_stats r;
                   s = s\<lparr>dt_events_routed := dt_events_routed s + 1\<rparr>;
                   s = s\<lparr>dt_matches_dispatched := dt_matches_dispatched s + of_nat count\<rparr>
               in if count = 0 then
                    Some (count, r\<lparr>rt_stats := s\<lparr>dt_empty_routes := dt_empty_routes s + 1\<rparr>\<rparr>)
                  else
                    let s = update_largest_batch (of_nat count) s;
                        (tx, sent) = try_send (DispatchBatch event targets) (rt_dispatch_tx r);
                        r = r\<lparr>rt_dispatch_tx := tx\<rparr>
                    in case sent of
                         Inl _ \<Rightarrow> Some (count, r\<lparr>rt_stats := s\<lparr>dt_dispatch_failures := dt_dispatch_failures s + 1\<rparr>\<rparr>)
                       | Inr _ \<Rightarrow> Some (count, r\<lparr>rt_stats := s\<lparr>dt_batches_sent := dt_batches_sent s + 1\<rparr>\<rparr>)) })"

text \<open>The router loop over the events a subscriber yields; \<open>acks\<close> are the answers of \<open>ack\<close> (a
  failed one is only logged).  The second component lists the acknowledged identifiers in order.\<close>

fun run_with_subscriber ::
    "Externals \<Rightarrow> (Clock \<times> EventEnvelope) list \<Rightarrow> EventRouter \<Rightarrow> (EventRouter \<times> EventId list) option" where
  "run_with_subscriber x [] r = Some (r, [])"
| "run_with_subscriber x ((ck, event) # events) r =
     do { (_, r) \<leftarrow> route_event x ck event r;
          (r, acked) \<leftarrow> run_with_subscriber x events r;
          Some (r, ev_id event # acked) }"

definition router_current_sequence :: "string \<Rightarrow> EventRouter \<Rightarrow> u64" where
  "router_current_sequence topic r = sequence_current topic (rt_sequence_gen r)"

subsection \<open>Routing one event\<close>

lemma update_largest_batch_sel [simp]:
  "dt_events_routed (update_largest_batch n s) = dt_events_routed s"
  "dt_matches_dispatched (update_largest_batch n s) = dt_matches_dispatched s"
  "dt_dispatch_failures (update_largest_batch n s) = dt_dispatch_failures s"
  "dt_batches_sent (update_largest_batch n s) = dt_batches_sent s"
  "dt_empty_routes (update_largest_batch n s) = dt_empty_routes s"
  "dt_largest_batch (update_largest_batch n s) = max (dt_largest_batch s) n"
  by (auto simp: update_largest_batch_def max_def)

lemma fold_push_target:
  "fold (\<lambda>(c, s, n). push_target c s n) ms acc = acc @ map match_key ms"
  by (induction ms arbitrary: acc) (auto simp: push_target_def match_key_def)

definition rg_safe :: "SubscriptionRegistry \<Rightarrow> bool" where
  "rg_safe r = fi_safe (rg_filter_index r)"

lemma rg_inv_safe: "rg_inv x r \<Longrightarrow> rg_safe r"
  by (simp add: rg_inv_def rg_index_inv_def fi_ok_def fi_inv_def rg_safe_def)

text \<open>The matches of an event and the registry after the call.\<close>

lemma registry_for_each_targets:
  assumes "rg_safe r"
  obtains ms r' where "lookup_matches_bitmap x ck event r = Some (ms, r')"
    and "registry_for_each_match x ck event push_target r [] = Some (length ms, map match_key ms, r')"
    and "rg_safe r'" and "r' = r\<lparr>rg_filter_index := rg_filter_index r'\<rparr>"
    and "same_index (rg_filter_index r) (rg_filter_index r')"
proof -
  have safe: "fi_safe (rg_filter_index r)" using assms by (simp add: rg_safe_def)
  obtain ms fi' where c: "fi_collect_matches x ck event (rg_filter_index r) = Some (ms, fi')"
    and fi': "fi' = after_match ck (length ms) (rg_filter_index r)"
    using fi_collect_matches_eq [OF safe refl, of x ck event] by simp
  have "fi_safe fi'" using safe same_index_safe [OF after_match_same] by (simp add: fi')
  with for_each_is_collect [OF safe c, of push_target "[]"] c that [of ms "r\<lparr>rg_filter_index := fi'\<rparr>"]
  show ?thesis
    by (simp add: lookup_matches_bitmap_def registry_for_each_match_def fold_push_target rg_safe_def
        fi' after_match_same)
qed

definition batch_sent :: "EventRouter \<Rightarrow> DispatchMessage \<Rightarrow> bool" where
  "batch_sent r m = (snd (try_send m (rt_dispatch_tx r)) = Inr ())"

lemma route_event_effect:
  assumes "rg_safe (rt_registry r)"
    and ev: "event' = event\<lparr>ev_sequence := sequence_current (topic_str (ev_topic event)) (rt_sequence_gen r) + 1\<rparr>"
  obtains ms r' where "route_event x ck event r = Some (length ms, r')"
    and "map_option fst (lookup_matches_bitmap x ck event' (rt_registry r)) = Some ms"
    and "rg_safe (rt_registry r')"
    and "rt_sequence_gen r' = snd (sequence_next (topic_str (ev_topic event)) (rt_sequence_gen r))"
    and "ch_buf (rt_dispatch_tx r') = ch_buf (rt_dispatch_tx r) @
       (if ms \<noteq> [] \<and> batch_sent r (DispatchBatch event' (map match_key ms))
        then [DispatchBatch event' (map match_key ms)] else [])"
    and "dt_events_routed (rt_stats r') = dt_events_routed (rt_stats r) + 1"
    and "dt_matches_dispatched (rt_stats r') = dt_matches_dispatched (rt_stats r) + of_nat (length ms)"
    and "dt_empty_routes (rt_stats r') = dt_empty_routes (rt_stats r) + (if ms = [] then 1 else 0)"
    and "dt_batches_sent (rt_stats r') = dt_batches_sent (rt_stats r) +
       (if ms \<noteq> [] \<and> batch_sent r (DispatchBatch event' (map match_key ms)) then 1 else 0)"
    and "dt_dispatch_failures (rt_stats r') = dt_dispatch_failures (rt_stats r) +
       (if ms \<noteq> [] \<and> \<not> batch_sent r (DispatchBatch event' (map match_key ms)) then 1 else 0)"
    and "same_index (rg_filter_index (rt_registry r)) (rg_filter_index (rt_registry r'))"
proof -
  obtain n g where ng: "sequence_next (topic_str (ev_topic event)) (rt_sequence_gen r) = (n, g)" by fastforce
  then have n: "n = sequence_current (topic_str (ev_topic event)) (rt_sequence_gen r) + 1"
    using seq.nxt_value [of "topic_str (ev_topic event)" "rt_sequence_gen r"] by simp
  have ev': "event\<lparr>ev_sequence := n\<rparr> = event'" by (simp add: ev n)
  from registry_for_each_targets [OF assms(1), of x ck event'] obtain ms rg
    where ms: "lookup_matches_bitmap x ck event' (rt_registry r) = Some (ms, rg)"
      and fe: "registry_for_each_match x ck event' push_target (rt_registry r) [] =
        Some (length ms, map match_key ms, rg)" and safe: "rg_safe rg"
      and same: "same_index (rg_filter_index (rt_registry r)) (rg_filter_index rg)" .
  obtain tx sent where ts: "try_send (DispatchBatch event' (map match_key ms)) (rt_dispatch_tx r) = (tx, sent)"
    by fastforce
  have buf: "ch_buf tx = ch_buf (rt_dispatch_tx r) @ (if sent = Inr () then [DispatchBatch event' (map match_key ms)] else [])"
    using try_send_buf [of "DispatchBatch event' (map match_key ms)" "rt_dispatch_tx r"] ts by simp
  obtain r' where r': "route_event x ck event r = Some (length ms, r')"
    by (cases "ms = []"; cases sent) (auto simp: route_event_def ng ev' fe ts Let_def)
  show ?thesis
    using r' ms safe buf same ng that [OF r']
    by (cases "ms = []"; cases sent)
      (auto simp: route_event_def ev' fe ts Let_def batch_sent_def)
qed

text \<open>Routing changes only the statistics of the registry.\<close>

lemma route_event_registry:
  assumes "route_event x ck event r = Some (n, r')" and inv: "rg_inv x (rt_registry r)"
  shows "rg_inv x (rt_registry r') \<and> rg_by_sub_id (rt_registry r') = rg_by_sub_id (rt_registry r) \<and>
    same_index (rg_filter_index (rt_registry r)) (rg_filter_index (rt_registry r'))"
proof -
  obtain k g where ng: "sequence_next (topic_str (ev_topic event)) (rt_sequence_gen r) = (k, g)" by fastforce
  from registry_for_each_targets [OF rg_inv_safe [OF inv], of x ck "event\<lparr>ev_sequence := k\<rparr>"] obtain ms rg
    where fe: "registry_for_each_match x ck (event\<lparr>ev_sequence := k\<rparr>) push_target (rt_registry r) [] =
        Some (length ms, map match_key ms, rg)"
      and rg: "rg = (rt_registry r)\<lparr>rg_filter_index := rg_filter_index rg\<rparr>"
      and same: "same_index (rg_filter_index (rt_registry r)) (rg_filter_index rg)" by metis
  obtain tx sent where ts: "try_send (DispatchBatch (event\<lparr>ev_sequence := k\<rparr>) (map match_key ms)) (rt_dispatch_tx r) = (tx, sent)"
    by fastforce
  have "rt_registry r' = rg"
    using assms(1) by (cases "ms = []"; cases sent) (auto simp: route_event_def ng fe ts Let_def)
  moreover have "rg_inv x rg" using rg rg_inv_matched [OF inv same] by metis
  moreover have "rg_by_sub_id rg = rg_by_sub_id (rt_registry r)"
    using rg by (metis SubscriptionRegistry.select_convs(3) SubscriptionRegistry.surjective SubscriptionRegistry.update_convs(5))
  ultimately show ?thesis using same by simp
qed

text \<open>The state a run leaves behind, relative to the one it started from.\<close>

lemma run_with_subscriber_effect:
  assumes "rg_safe (rt_registry r)"
  shows "\<exists>r'. run_with_subscriber x events r = Some (r', map (ev_id \<circ> snd) events) \<and>
    rg_safe (rt_registry r') \<and>
    rt_sequence_gen r' = snd (counter_run sequence_next (map (topic_str \<circ> ev_topic \<circ> snd) events) (rt_sequence_gen r)) \<and>
    dt_events_routed (rt_stats r') = dt_events_routed (rt_stats r) + of_nat (length events) \<and>
    dt_batches_sent (rt_stats r') + dt_dispatch_failures (rt_stats r') + dt_empty_routes (rt_stats r') =
      dt_batches_sent (rt_stats r) + dt_dispatch_failures (rt_stats r) + dt_empty_routes (rt_stats r) + of_nat (length events) \<and>
    (\<exists>sent. ch_buf (rt_dispatch_tx r') = ch_buf (rt_dispatch_tx r) @ sent \<and>
       dt_batches_sent (rt_stats r') = dt_batches_sent (rt_stats r) + of_nat (length sent))"
  using assms
proof (induction events arbitrary: r)
  case (Cons e events)
  obtain ck event where e: "e = (ck, event)" by fastforce
  obtain ms r1 where r1: "route_event x ck event r = Some (length ms, r1)"
    and safe: "rg_safe (rt_registry r1)"
    and g: "rt_sequence_gen r1 = snd (sequence_next (topic_str (ev_topic event)) (rt_sequence_gen r))"
    and buf: "ch_buf (rt_dispatch_tx r1) = ch_buf (rt_dispatch_tx r) @
       (if ms \<noteq> [] \<and> batch_sent r (DispatchBatch (event\<lparr>ev_sequence := sequence_current (topic_str (ev_topic event)) (rt_sequence_gen r) + 1\<rparr>) (map match_key ms))
        then [DispatchBatch (event\<lparr>ev_sequence := sequence_current (topic_str (ev_topic event)) (rt_sequence_gen r) + 1\<rparr>) (map match_key ms)] else [])"
    and st: "dt_events_routed (rt_stats r1) = dt_events_routed (rt_stats r) + 1"
      "dt_empty_routes (rt_stats r1) = dt_empty_routes (rt_stats r) + (if ms = [] then 1 else 0)"
      "dt_batches_sent (rt_stats r1) = dt_batches_sent (rt_stats r) +
       (if ms \<noteq> [] \<and> batch_sent r (DispatchBatch (event\<lparr>ev_sequence := sequence_current (topic_str (ev_topic event)) (rt_sequence_gen r) + 1\<rparr>) (map match_key ms)) then 1 else 0)"
      "dt_dispatch_failures (rt_stats r1) = dt_dispatch_failures (rt_stats r) +
       (if ms \<noteq> [] \<and> \<not> batch_sent r (DispatchBatch (event\<lparr>ev_sequence := sequence_current (topic_str (ev_topic event)) (rt_sequence_gen r) + 1\<rparr>) (map match_key ms)) then 1 else 0)"
    by (rule route_event_effect [OF Cons.prems refl])
  from Cons.IH [OF safe] obtain r' sent where
    run: "run_with_subscriber x events r1 = Some (r', map (ev_id \<circ> snd) events)" and safe': "rg_safe (rt_registry r')"
    and seq: "rt_sequence_gen r' = snd (counter_run sequence_next (map (topic_str \<circ> ev_topic \<circ> snd) events) (rt_sequence_gen r1))"
    and n: "dt_events_routed (rt_stats r') = dt_events_routed (rt_stats r1) + of_nat (length events)"
    and sum: "dt_batches_sent (rt_stats r') + dt_dispatch_failures (rt_stats r') + dt_empty_routes (rt_stats r') =
      dt_batches_sent (rt_stats r1) + dt_dispatch_failures (rt_stats r1) + dt_empty_routes (rt_stats r1) + of_nat (length events)"
    and sent: "ch_buf (rt_dispatch_tx r') = ch_buf (rt_dispatch_tx r1) @ sent"
      "dt_batches_sent (rt_stats r') = dt_batches_sent (rt_stats r1) + of_nat (length sent)" by blast
  have run': "run_with_subscriber x (e # events) r = Some (r', map (ev_id \<circ> snd) (e # events))"
    by (simp add: e r1 run)
  have seq': "rt_sequence_gen r' = snd (counter_run sequence_next (map (topic_str \<circ> ev_topic \<circ> snd) (e # events)) (rt_sequence_gen r))"
    by (simp add: e seq g Let_def split_beta)
  have buf': "\<exists>s. ch_buf (rt_dispatch_tx r') = ch_buf (rt_dispatch_tx r) @ s \<and>
      dt_batches_sent (rt_stats r') = dt_batches_sent (rt_stats r) + of_nat (length s)"
    by (simp add: sent st(3) buf add.assoc)
  have "dt_batches_sent (rt_stats r1) + dt_dispatch_failures (rt_stats r1) + dt_empty_routes (rt_stats r1) =
      dt_batches_sent (rt_stats r) + dt_dispatch_failures (rt_stats r) + dt_empty_routes (rt_stats r) + 1"
    by (simp add: st)
  then have sum': "dt_batches_sent (rt_stats r') + dt_dispatch_failures (rt_stats r') + dt_empty_routes (rt_stats r') =
      dt_batches_sent (rt_stats r) + dt_dispatch_failures (rt_stats r) + dt_empty_routes (rt_stats r) + of_nat (length (e # events))"
    using sum by simp
  have "dt_events_routed (rt_stats r') = dt_events_routed (rt_stats r) + of_nat (length (e # events))"
    using n st(1) by simp
  with run' seq' buf' safe' sum' show ?case by blast
qed auto

subsection \<open>Properties\<close>

text \<open>
  Gap detection.  Whatever topics events are routed on, and however they interleave, the sequence
  numbers assigned to the events of one topic are consecutive: from a fresh generator they are 1, 2, 3
  and so on, with no gap, no repetition and no influence from other topics (the counter wraps at 64
  bits).
\<close>

theorem sequence_numbers_gapless:
  "map snd (filter (\<lambda>(t, n). t = topic) (zip topics (fst (counter_run sequence_next topics sequence_new)))) =
     map (\<lambda>i. of_nat (Suc i)) [0..<count_list topics topic]"
  using seq.run_gapless [of topic topics sequence_new] by (simp add: seq.cur_init)

text \<open>
  C20: The router loses no event silently.  Routing any list of events from a subscriber returns, with
  every event acknowledged once and in order; each event is counted as routed and in exactly one of
  batches sent, dispatch failures and empty routes; the channel gained exactly the batches counted as
  sent; and the sequence counter of each topic advanced by the number of its events.
\<close>

theorem router_accounts_every_event:
  assumes "rg_safe (rt_registry r)"
  shows "\<exists>r' sent. run_with_subscriber x events r = Some (r', map (ev_id \<circ> snd) events) \<and>
    dt_events_routed (rt_stats r') = dt_events_routed (rt_stats r) + of_nat (length events) \<and>
    dt_batches_sent (rt_stats r') + dt_dispatch_failures (rt_stats r') + dt_empty_routes (rt_stats r') =
      dt_batches_sent (rt_stats r) + dt_dispatch_failures (rt_stats r) + dt_empty_routes (rt_stats r) + of_nat (length events) \<and>
    ch_buf (rt_dispatch_tx r') = ch_buf (rt_dispatch_tx r) @ sent \<and>
    dt_batches_sent (rt_stats r') = dt_batches_sent (rt_stats r) + of_nat (length sent) \<and>
    (\<forall>topic. router_current_sequence topic r' = router_current_sequence topic r +
       of_nat (count_list (map (topic_str \<circ> ev_topic \<circ> snd) events) topic))"
  using run_with_subscriber_effect [OF assms, of x events] seq.run_cur
  by (fastforce simp: router_current_sequence_def)

definition demo_router :: "nat \<Rightarrow> EventRouter" where
  "demo_router cap = router_new (demo_reg demo_subs) sequence_new (channel_new cap)"

lemma demo_router_safe: "rg_safe (rt_registry (demo_router cap))"
  using rg_inv_safe [of demo_ext "demo_reg demo_subs"] demo_reg_inv by (simp add: demo_router_def router_new_def)

theorem router_accounts_every_event_witness:
  "\<exists>r' sent. run_with_subscriber demo_ext
       [(demo_clock, demo_event ''a/b'' ''n42''), (demo_clock, demo_event ''zz'' ''n42'')] (demo_router 8) =
     Some (r', [EventId 0, EventId 0]) \<and>
   dt_batches_sent (rt_stats r') + dt_dispatch_failures (rt_stats r') + dt_empty_routes (rt_stats r') = 2 \<and>
   ch_buf (rt_dispatch_tx r') = sent \<and> router_current_sequence ''zz'' r' = 1"
  using router_accounts_every_event [OF demo_router_safe, of demo_ext
      "[(demo_clock, demo_event ''a/b'' ''n42''), (demo_clock, demo_event ''zz'' ''n42'')]" 8]
  by (auto simp: demo_router_def router_new_def dispatch_stats_new_def channel_new_def demo_event_def
      sequence_new_def router_current_sequence_def sequence_current_def)

text \<open>The batch of an event, when something matches it.\<close>

lemma route_event_batch:
  assumes "rg_inv x (rt_registry r)" and "fields_clean (rg_filter_index (rt_registry r))"
    and "\<forall>e. live (rt_registry r) e \<longrightarrow> no_float_zero (sb_filter (se_subscription e)) \<and>
               prints_apart x event' (sb_filter (se_subscription e))"
    and "\<not> cb_open (fi_breaker (rg_filter_index (rt_registry r)))"
    and "event' = event\<lparr>ev_sequence := router_current_sequence (topic_str (ev_topic event)) r + 1\<rparr>"
    and "lookup_matches x event' (rt_registry r) \<noteq> []"
  shows "\<exists>ts r'. route_event x ck event r = Some (length ts, r') \<and>
    mset ts = image_mset match_key (mset (lookup_matches x event' (rt_registry r))) \<and> distinct ts \<and>
    (if batch_sent r (DispatchBatch event' ts)
     then ch_buf (rt_dispatch_tx r') = ch_buf (rt_dispatch_tx r) @ [DispatchBatch event' ts]
     else ch_buf (rt_dispatch_tx r') = ch_buf (rt_dispatch_tx r) \<and>
       dt_dispatch_failures (rt_stats r') = dt_dispatch_failures (rt_stats r) + 1)"
proof -
  have "\<not> fst (fi_is_open ck (rg_filter_index (rt_registry r)))"
    using assms(4) closed_not_degraded by blast
  from lookups_agree [OF assms(1) fields_clean_index [OF assms(2)] exact_printing_live [OF assms(1,3)] this]
  obtain ms rg where ms: "lookup_matches_bitmap x ck event' (rt_registry r) = Some (ms, rg)"
    and eq: "mset ms = mset (lookup_matches x event' (rt_registry r))" and dist: "distinct (map match_key ms)" .
  have ev: "event' = event\<lparr>ev_sequence := sequence_current (topic_str (ev_topic event)) (rt_sequence_gen r) + 1\<rparr>"
    using assms(5) by (simp add: router_current_sequence_def)
  obtain ms' r' where r': "route_event x ck event r = Some (length ms', r')"
    and ms': "map_option fst (lookup_matches_bitmap x ck event' (rt_registry r)) = Some ms'"
    and buf: "ch_buf (rt_dispatch_tx r') = ch_buf (rt_dispatch_tx r) @
       (if ms' \<noteq> [] \<and> batch_sent r (DispatchBatch event' (map match_key ms'))
        then [DispatchBatch event' (map match_key ms')] else [])"
    and fail: "dt_dispatch_failures (rt_stats r') = dt_dispatch_failures (rt_stats r) +
       (if ms' \<noteq> [] \<and> \<not> batch_sent r (DispatchBatch event' (map match_key ms')) then 1 else 0)"
    by (rule route_event_effect [OF rg_inv_safe [OF assms(1)] ev])
  have "ms' = ms" using ms ms' by simp
  moreover have "ms \<noteq> []" using eq assms(6) by auto
  ultimately show ?thesis
    using r' buf fail dist eq
    by (intro exI [of _ "map match_key ms"] exI [of _ r']) (simp flip: eq)
qed

text \<open>
  End-to-end routing.  With the circuit closed, an event whose topic has matching subscribers is
  handed to the fan-out as one batch that carries the next sequence number of its topic and targets
  exactly the subscriptions the linear reference lookup finds, each once, when the dispatch channel has
  room; when it has none the whole batch is lost and counted as one failure.
\<close>

theorem route_event_targets:
  assumes "rg_inv x (rt_registry r)" and "fields_clean (rg_filter_index (rt_registry r))"
    and "\<forall>e. live (rt_registry r) e \<longrightarrow> no_float_zero (sb_filter (se_subscription e)) \<and>
               prints_apart x event' (sb_filter (se_subscription e))"
    and "\<not> cb_open (fi_breaker (rg_filter_index (rt_registry r)))"
    and "event' = event\<lparr>ev_sequence := router_current_sequence (topic_str (ev_topic event)) r + 1\<rparr>"
    and "lookup_matches x event' (rt_registry r) \<noteq> []"
  shows "\<exists>ts r'. route_event x ck event r = Some (length ts, r') \<and>
    mset ts = image_mset match_key (mset (lookup_matches x event' (rt_registry r))) \<and> distinct ts \<and>
    (if batch_sent r (DispatchBatch event' ts)
     then ch_buf (rt_dispatch_tx r') = ch_buf (rt_dispatch_tx r) @ [DispatchBatch event' ts]
     else ch_buf (rt_dispatch_tx r') = ch_buf (rt_dispatch_tx r) \<and>
       dt_dispatch_failures (rt_stats r') = dt_dispatch_failures (rt_stats r) + 1)"
  using assms by (rule route_event_batch)

theorem route_event_targets_witness:
  "\<exists>ts r' event'. route_event demo_ext demo_clock (demo_event ''a/b'' ''n42'') (demo_router 8) = Some (length ts, r') \<and>
     ch_buf (rt_dispatch_tx r') = [DispatchBatch event' ts] \<and> ev_sequence event' = 1 \<and>
     mset ts = image_mset match_key (mset (lookup_matches demo_ext event' (demo_reg demo_subs)))"
proof -
  let ?e = "(demo_event ''a/b'' ''n42'')\<lparr>ev_sequence := 1\<rparr>"
  have reg: "rt_registry (demo_router 8) = demo_reg demo_subs"
    and tx: "rt_dispatch_tx (demo_router 8) = channel_new 8"
    by (simp_all add: demo_router_def router_new_def)
  have ev: "?e = (demo_event ''a/b'' ''n42'')\<lparr>ev_sequence :=
      router_current_sequence (topic_str (ev_topic (demo_event ''a/b'' ''n42''))) (demo_router 8) + 1\<rparr>"
    by (simp add: router_current_sequence_def demo_router_def router_new_def sequence_new_def sequence_current_def)
  have "\<forall>e. live (demo_reg demo_subs) e \<longrightarrow> no_float_zero (sb_filter (se_subscription e)) \<and>
      prints_apart demo_ext ?e (sb_filter (se_subscription e))"
    by (auto simp: demo_live demo_sub_def no_float_zero_def prints_apart_def not_float_zero_def
        event_getter_def eval_types demo_event_def demo_ext_def)
  moreover have "\<not> cb_open (fi_breaker (rg_filter_index (demo_reg demo_subs)))"
    by (simp add: eval_all demo_subs_def)
  moreover have "lookup_matches demo_ext ?e (demo_reg demo_subs) \<noteq> []"
    by (simp add: eval_all demo_subs_def)
  ultimately obtain ts r' where
    "route_event demo_ext demo_clock (demo_event ''a/b'' ''n42'') (demo_router 8) = Some (length ts, r')"
    and "mset ts = image_mset match_key (mset (lookup_matches demo_ext ?e (demo_reg demo_subs)))"
    and "if batch_sent (demo_router 8) (DispatchBatch ?e ts)
      then ch_buf (rt_dispatch_tx r') = ch_buf (rt_dispatch_tx (demo_router 8)) @ [DispatchBatch ?e ts]
      else ch_buf (rt_dispatch_tx r') = ch_buf (rt_dispatch_tx (demo_router 8)) \<and>
        dt_dispatch_failures (rt_stats r') = dt_dispatch_failures (rt_stats (demo_router 8)) + 1"
    using route_event_targets [of demo_ext "demo_router 8" ?e "demo_event ''a/b'' ''n42''" demo_clock]
      demo_reg_inv ev unfolding reg by blast
  moreover have "batch_sent (demo_router 8) (DispatchBatch ?e ts)"
    by (simp add: batch_sent_def tx channel_new_def try_send_def)
  ultimately show ?thesis
    by (intro exI [of _ ts] exI [of _ r'] exI [of _ ?e]) (simp add: tx channel_new_def)
qed

end
