(* ===== verification/Rt_Gateway.thy ===== *)
theory Rt_Gateway
  imports Rt_Router
begin

text \<open>
  The connection manager of the gateway (\<open>crates/realtime-gateway/src/connection/{mod,query,send}.rs\<close>),
  its process-wide counters (\<open>metrics.rs\<close>) and the delivery of one dispatch (\<open>handle_dispatch\<close> of
  \<open>fanout.rs\<close>).  The two ends of an \<open>mpsc\<close> channel share one buffer, so the buffers live in a store,
  \<open>mg_queues\<close>, and a sender or receiver is an index into it.  Lemmas: every operation keeps the
  manager well formed and its queues within their capacity, and each dispatch moves one counter.
\<close>

subsection \<open>The connection manager (connection/mod.rs, query.rs, send.rs)\<close>

type_synonym SendQueue = "(string \<times> EventEnvelope) channel"

record ConnectionState =
  cs_meta :: ConnectionMeta
  cs_send_tx :: nat
  cs_overflow_policy :: OverflowPolicy

record ConnectionManager =
  mg_connections :: "(ConnectionId, ConnectionState) dashmap"
  mg_next_conn_id :: u64
  mg_send_queue_capacity :: nat
  mg_queues :: "SendQueue list"

datatype SendResult = Sent | DroppedNewest | DroppedOldest | SrDisconnect | ConnectionGone

definition cm_new :: "nat \<Rightarrow> ConnectionManager" where
  "cm_new send_queue_capacity =
     \<lparr>mg_connections = [], mg_next_conn_id = 1, mg_send_queue_capacity = send_queue_capacity,
      mg_queues = []\<rparr>"

definition cm_default :: ConnectionManager where
  "cm_default = cm_new 256"

definition next_connection_id :: "ConnectionManager \<Rightarrow> ConnectionId \<times> ConnectionManager" where
  "next_connection_id cm =
     (ConnectionId (mg_next_conn_id cm), cm\<lparr>mg_next_conn_id := mg_next_conn_id cm + 1\<rparr>)"

text \<open>\<open>mpsc::channel(0)\<close> panics: \<open>None\<close>.  The second component of the result is the receiver.\<close>

definition register ::
    "ConnectionMeta \<Rightarrow> OverflowPolicy \<Rightarrow> ConnectionManager
      \<Rightarrow> (ConnectionId \<times> nat \<times> ConnectionManager) option" where
  "register meta overflow_policy cm =
     (let conn_id = cm_conn_id meta in
      if mg_send_queue_capacity cm = 0 then None
      else
        let ch = length (mg_queues cm);
            cm = cm\<lparr>mg_queues := mg_queues cm @ [channel_new (mg_send_queue_capacity cm)]\<rparr>;
            state = \<lparr>cs_meta = meta, cs_send_tx = ch, cs_overflow_policy = overflow_policy\<rparr>
        in Some (conn_id, ch, cm\<lparr>mg_connections := dm_insert conn_id state (mg_connections cm)\<rparr>))"

fun apply_overflow_policy :: "OverflowPolicy \<Rightarrow> SendResult" where
  "apply_overflow_policy DropNewest = DroppedNewest"
| "apply_overflow_policy DropOldest = DroppedOldest"
| "apply_overflow_policy Disconnect = SrDisconnect"

definition conn_try_send ::
    "ConnectionId \<Rightarrow> string \<Rightarrow> EventEnvelope \<Rightarrow> ConnectionManager \<Rightarrow> SendResult \<times> ConnectionManager" where
  "conn_try_send conn_id sub_id event cm =
     (case dm_get (mg_connections cm) conn_id of
        None \<Rightarrow> (ConnectionGone, cm)
      | Some state \<Rightarrow>
          let ch = cs_send_tx state;
              (q, r) = try_send (sub_id, event) (mg_queues cm ! ch);
              cm = cm\<lparr>mg_queues := (mg_queues cm)[ch := q]\<rparr>
          in case r of
               Inr _ \<Rightarrow> (Sent, cm)
             | Inl ChannelFull \<Rightarrow> (apply_overflow_policy (cs_overflow_policy state), cm)
             | Inl ChannelClosed \<Rightarrow> (ConnectionGone, cm))"

definition cm_remove :: "ConnectionId \<Rightarrow> ConnectionManager \<Rightarrow> ConnectionManager" where
  "cm_remove conn_id cm = cm\<lparr>mg_connections := dm_remove conn_id (mg_connections cm)\<rparr>"

definition cm_connection_count :: "ConnectionManager \<Rightarrow> nat" where
  "cm_connection_count cm = dm_len (mg_connections cm)"

definition has_connection :: "ConnectionId \<Rightarrow> ConnectionManager \<Rightarrow> bool" where
  "has_connection conn_id cm = dm_contains (mg_connections cm) conn_id"

definition get_meta :: "ConnectionId \<Rightarrow> ConnectionManager \<Rightarrow> ConnectionMeta option" where
  "get_meta conn_id cm = map_option cs_meta (dm_get (mg_connections cm) conn_id)"

definition all_connection_ids :: "ConnectionManager \<Rightarrow> ConnectionId list" where
  "all_connection_ids cm = dm_keys (mg_connections cm)"

text \<open>The receiving end, held by the writer task: taking a message, and dropping the receiver.\<close>

definition queue_recv :: "nat \<Rightarrow> ConnectionManager \<Rightarrow> ((string \<times> EventEnvelope) \<times> ConnectionManager) option" where
  "queue_recv ch cm =
     (if ch < length (mg_queues cm)
      then map_option (\<lambda>(m, q). (m, cm\<lparr>mg_queues := (mg_queues cm)[ch := q]\<rparr>)) (channel_recv (mg_queues cm ! ch))
      else None)"

definition queue_close :: "nat \<Rightarrow> ConnectionManager \<Rightarrow> ConnectionManager" where
  "queue_close ch cm = cm\<lparr>mg_queues := (mg_queues cm)[ch := (mg_queues cm ! ch)\<lparr>ch_closed := True\<rparr>]\<rparr>"

subsection \<open>Counters (metrics.rs)\<close>

record Metrics =
  mt_dispatched :: u64
  mt_dropped_overflow :: u64
  mt_connection_gone :: u64
  mt_slow_disconnected :: u64

definition metrics_default :: Metrics where
  "metrics_default = \<lparr>mt_dispatched = 0, mt_dropped_overflow = 0, mt_connection_gone = 0,
     mt_slow_disconnected = 0\<rparr>"

definition inc_dispatched :: "Metrics \<Rightarrow> Metrics" where
  "inc_dispatched m = m\<lparr>mt_dispatched := mt_dispatched m + 1\<rparr>"

definition inc_dropped_overflow :: "Metrics \<Rightarrow> Metrics" where
  "inc_dropped_overflow m = m\<lparr>mt_dropped_overflow := mt_dropped_overflow m + 1\<rparr>"

definition inc_connection_gone :: "Metrics \<Rightarrow> Metrics" where
  "inc_connection_gone m = m\<lparr>mt_connection_gone := mt_connection_gone m + 1\<rparr>"

definition inc_slow_disconnected :: "Metrics \<Rightarrow> Metrics" where
  "inc_slow_disconnected m = m\<lparr>mt_slow_disconnected := mt_slow_disconnected m + 1\<rparr>"

record DispatchSnapshot =
  events_dispatched :: u64
  events_dropped_overflow :: u64
  events_connection_gone :: u64
  slow_consumers_disconnected :: u64

definition metrics_snapshot :: "Metrics \<Rightarrow> DispatchSnapshot" where
  "metrics_snapshot m =
     \<lparr>events_dispatched = mt_dispatched m, events_dropped_overflow = mt_dropped_overflow m,
      events_connection_gone = mt_connection_gone m,
      slow_consumers_disconnected = mt_slow_disconnected m\<rparr>"

definition writeln :: "string list \<Rightarrow> string" where
  "writeln parts = concat parts @ [CHR 0x0A]"

definition render_prometheus :: "Metrics \<Rightarrow> string" where
  "render_prometheus m =
     writeln [''# HELP baas_realtime_up 1 while the gateway is serving'']
   @ writeln [''# TYPE baas_realtime_up gauge'']
   @ writeln [''baas_realtime_up{service=\"realtime\"} 1'']
   @ writeln [''# HELP baas_realtime_events_dispatched_total Events written to a connection send queue'']
   @ writeln [''# TYPE baas_realtime_events_dispatched_total counter'']
   @ writeln [''baas_realtime_events_dispatched_total{service=\"realtime\"} '', show_word (mt_dispatched m)]
   @ writeln [''# HELP baas_realtime_events_dropped_total Events NOT delivered, by reason (overflow = slow-consumer loss)'']
   @ writeln [''# TYPE baas_realtime_events_dropped_total counter'']
   @ writeln [''baas_realtime_events_dropped_total{service=\"realtime\",reason=\"overflow\"} '', show_word (mt_dropped_overflow m)]
   @ writeln [''baas_realtime_events_dropped_total{service=\"realtime\",reason=\"connection_gone\"} '', show_word (mt_connection_gone m)]
   @ writeln [''# HELP baas_realtime_slow_consumers_disconnected_total Consumers disconnected for being too slow'']
   @ writeln [''# TYPE baas_realtime_slow_consumers_disconnected_total counter'']
   @ writeln [''baas_realtime_slow_consumers_disconnected_total{service=\"realtime\"} '', show_word (mt_slow_disconnected m)]"

subsection \<open>Delivering one dispatch (fanout.rs)\<close>

definition handle_dispatch ::
    "LocalDispatch \<Rightarrow> Metrics \<times> ConnectionManager \<Rightarrow> Metrics \<times> ConnectionManager" where
  "handle_dispatch dispatch = (\<lambda>(m, conn_manager).
     let conn_id = ld_conn dispatch;
         (r, conn_manager) = conn_try_send conn_id (sub_raw (ld_sub dispatch)) (ld_event dispatch) conn_manager
     in case r of
          Sent \<Rightarrow> (inc_dispatched m, conn_manager)
        | DroppedNewest \<Rightarrow> (inc_dropped_overflow m, conn_manager)
        | DroppedOldest \<Rightarrow> (inc_dropped_overflow m, conn_manager)
        | SrDisconnect \<Rightarrow> (inc_slow_disconnected m, cm_remove conn_id conn_manager)
        | ConnectionGone \<Rightarrow> (inc_connection_gone m, conn_manager))"

subsection \<open>Well-formed managers\<close>

text \<open>Every registered connection owns a queue of the store, no two share one, and every queue is
  within the capacity the manager was built with.\<close>

definition cm_queue :: "ConnectionManager \<Rightarrow> ConnectionId \<Rightarrow> SendQueue option" where
  "cm_queue cm c = map_option (\<lambda>s. mg_queues cm ! cs_send_tx s) (dm_get (mg_connections cm) c)"

definition queues_ok :: "nat \<Rightarrow> SendQueue list \<Rightarrow> bool" where
  "queues_ok cap qs = (\<forall>q \<in> set qs. channel_inv q \<and> ch_cap q = cap)"

definition conns_ok :: "nat \<Rightarrow> (ConnectionId, ConnectionState) dashmap \<Rightarrow> bool" where
  "conns_ok n cs = (dm_wf cs \<and>
     (\<forall>c s. dm_get cs c = Some s \<longrightarrow> cs_send_tx s < n \<and> cm_conn_id (cs_meta s) = c) \<and>
     (\<forall>c c' s s'. dm_get cs c = Some s \<longrightarrow> dm_get cs c' = Some s' \<longrightarrow> cs_send_tx s = cs_send_tx s' \<longrightarrow> c = c'))"

definition cm_inv :: "ConnectionManager \<Rightarrow> bool" where
  "cm_inv cm = (conns_ok (length (mg_queues cm)) (mg_connections cm) \<and>
     queues_ok (mg_send_queue_capacity cm) (mg_queues cm))"

lemma queues_ok_nth: "queues_ok cap qs \<Longrightarrow> i < length qs \<Longrightarrow> channel_inv (qs ! i) \<and> ch_cap (qs ! i) = cap"
  by (simp add: queues_ok_def)

lemma queues_ok_update:
  "queues_ok cap qs \<Longrightarrow> channel_inv q \<Longrightarrow> ch_cap q = cap \<Longrightarrow> queues_ok cap (qs[i := q])"
  unfolding queues_ok_def using set_update_subset_insert [of qs i q] by blast

lemma queues_ok_snoc: "queues_ok cap qs \<Longrightarrow> queues_ok cap (qs @ [channel_new cap])"
  by (auto simp: queues_ok_def channel_new_def channel_inv_def)

lemma conns_ok_tx: "conns_ok n cs \<Longrightarrow> dm_get cs c = Some s \<Longrightarrow> cs_send_tx s < n"
  by (simp add: conns_ok_def)

lemma conns_ok_inj:
  "conns_ok n cs \<Longrightarrow> dm_get cs c = Some s \<Longrightarrow> dm_get cs c' = Some s' \<Longrightarrow> cs_send_tx s = cs_send_tx s' \<Longrightarrow> c = c'"
  unfolding conns_ok_def by blast

lemma conns_ok_remove: "conns_ok n cs \<Longrightarrow> conns_ok n (dm_remove c cs)"
  unfolding conns_ok_def by (simp split: if_splits)

lemma conns_ok_insert:
  assumes ok: "conns_ok n cs" and "cm_conn_id (cs_meta st) = c" and "cs_send_tx st = n"
  shows "conns_ok (Suc n) (dm_insert c st cs)"
proof -
  have lt: "cs_send_tx s < n \<and> cm_conn_id (cs_meta s) = d" if "dm_get cs d = Some s" for d s
    using ok that by (simp add: conns_ok_def)
  show ?thesis
    unfolding conns_ok_def
  proof (intro conjI allI impI)
    show "dm_wf (dm_insert c st cs)" using ok by (simp add: conns_ok_def)
  next
    fix d s assume "dm_get (dm_insert c st cs) d = Some s"
    then show "cs_send_tx s < Suc n" and "cm_conn_id (cs_meta s) = d"
      using lt [of d s] assms(2,3) by (simp_all split: if_splits)
  next
    fix d d' s s'
    assume "dm_get (dm_insert c st cs) d = Some s" and "dm_get (dm_insert c st cs) d' = Some s'"
      and "cs_send_tx s = cs_send_tx s'"
    then show "d = d'"
      using lt [of d s] lt [of d' s'] conns_ok_inj [OF ok, of d s d' s'] assms(3)
      by (cases "d = c"; cases "d' = c") auto
  qed
qed

text \<open>The operations other tasks run on the manager, as one step.\<close>

datatype cm_op =
    OpNextId
  | OpRegister ConnectionMeta OverflowPolicy
  | OpTrySend ConnectionId string EventEnvelope
  | OpRemove ConnectionId
  | OpRecv nat
  | OpClose nat

definition cm_step :: "cm_op \<Rightarrow> ConnectionManager \<Rightarrow> ConnectionManager option" where
  "cm_step op cm = (case op of
       OpNextId \<Rightarrow> Some (snd (next_connection_id cm))
     | OpRegister meta policy \<Rightarrow> map_option (snd \<circ> snd) (register meta policy cm)
     | OpTrySend c s e \<Rightarrow> Some (snd (conn_try_send c s e cm))
     | OpRemove c \<Rightarrow> Some (cm_remove c cm)
     | OpRecv ch \<Rightarrow> map_option snd (queue_recv ch cm)
     | OpClose ch \<Rightarrow> if ch < length (mg_queues cm) then Some (queue_close ch cm) else None)"

fun cm_run :: "cm_op list \<Rightarrow> ConnectionManager \<Rightarrow> ConnectionManager option" where
  "cm_run [] cm = Some cm"
| "cm_run (op # ops) cm = Option.bind (cm_step op cm) (cm_run ops)"

lemma cm_inv_new [simp]: "cm_inv (cm_new n)"
  by (simp add: cm_inv_def conns_ok_def queues_ok_def cm_new_def)

lemma cm_inv_queue:
  "cm_inv cm \<Longrightarrow> ch < length (mg_queues cm) \<Longrightarrow>
   channel_inv (mg_queues cm ! ch) \<and> ch_cap (mg_queues cm ! ch) = mg_send_queue_capacity cm"
  unfolding cm_inv_def using queues_ok_nth by blast

lemma cm_inv_tx:
  "cm_inv cm \<Longrightarrow> dm_get (mg_connections cm) c = Some s \<Longrightarrow> cs_send_tx s < length (mg_queues cm)"
  unfolding cm_inv_def using conns_ok_tx by blast

lemma cm_inv_set_queue:
  "cm_inv cm \<Longrightarrow> channel_inv q \<Longrightarrow> ch_cap q = mg_send_queue_capacity cm \<Longrightarrow>
   cm_inv (cm\<lparr>mg_queues := (mg_queues cm)[i := q]\<rparr>)"
  by (simp add: cm_inv_def queues_ok_update)

lemma cm_inv_remove [simp]: "cm_inv cm \<Longrightarrow> cm_inv (cm_remove c cm)"
  by (simp add: cm_inv_def cm_remove_def conns_ok_remove)

lemma cm_inv_next_id [simp]: "cm_inv cm \<Longrightarrow> cm_inv (snd (next_connection_id cm))"
  by (simp add: cm_inv_def next_connection_id_def)

lemma cm_inv_register: "cm_inv cm \<Longrightarrow> register meta policy cm = Some (c, ch, cm') \<Longrightarrow> cm_inv cm'"
  by (auto simp: register_def Let_def cm_inv_def conns_ok_insert queues_ok_snoc split: if_splits)

lemma try_send_cap [simp]: "ch_cap (fst (try_send m q)) = ch_cap q"
  by (simp add: try_send_def)

lemma conn_try_send_queues:
  "snd (conn_try_send c s e cm) =
    (case dm_get (mg_connections cm) c of None \<Rightarrow> cm
     | Some st \<Rightarrow> cm\<lparr>mg_queues := (mg_queues cm)[cs_send_tx st := fst (try_send (s, e) (mg_queues cm ! cs_send_tx st))]\<rparr>)"
  by (auto simp: conn_try_send_def Let_def split: option.split prod.split sum.split SendError.split)

lemma cm_inv_try_send [simp]: "cm_inv cm \<Longrightarrow> cm_inv (snd (conn_try_send c s e cm))"
  unfolding conn_try_send_queues
  by (auto simp: cm_inv_queue cm_inv_tx cm_inv_set_queue split: option.split)

lemma cm_inv_recv: "cm_inv cm \<Longrightarrow> queue_recv ch cm = Some (m, cm') \<Longrightarrow> cm_inv cm'"
proof -
  assume inv: "cm_inv cm" and r: "queue_recv ch cm = Some (m, cm')"
  then obtain q where lt: "ch < length (mg_queues cm)"
    and q: "channel_recv (mg_queues cm ! ch) = Some (m, q)"
    and cm': "cm' = cm\<lparr>mg_queues := (mg_queues cm)[ch := q]\<rparr>"
    by (auto simp: queue_recv_def split: if_splits)
  from q have "ch_cap q = ch_cap (mg_queues cm ! ch)"
    by (auto simp: channel_recv_def split: list.splits)
  then show "cm_inv cm'"
    unfolding cm' using cm_inv_queue [OF inv lt] channel_inv_recv [OF _ q]
    by (intro cm_inv_set_queue [OF inv]) simp_all
qed

lemma cm_inv_close: "cm_inv cm \<Longrightarrow> ch < length (mg_queues cm) \<Longrightarrow> cm_inv (queue_close ch cm)"
  unfolding queue_close_def
  using cm_inv_queue [of cm ch] by (intro cm_inv_set_queue) (simp_all add: channel_inv_def)

lemma cm_inv_step: "cm_inv cm \<Longrightarrow> cm_step op cm = Some cm' \<Longrightarrow> cm_inv cm'"
proof (cases op)
  case (OpRegister meta policy)
  assume "cm_inv cm" and "cm_step op cm = Some cm'"
  with OpRegister show ?thesis by (auto simp: cm_step_def intro: cm_inv_register)
next
  case (OpRecv ch)
  assume "cm_inv cm" and "cm_step op cm = Some cm'"
  with OpRecv show ?thesis by (auto simp: cm_step_def intro: cm_inv_recv)
next
  case (OpClose ch)
  assume "cm_inv cm" and "cm_step op cm = Some cm'"
  with OpClose show ?thesis by (auto simp: cm_step_def intro: cm_inv_close split: if_splits)
qed (auto simp: cm_step_def)

lemma cm_inv_run: "cm_inv cm \<Longrightarrow> cm_run ops cm = Some cm' \<Longrightarrow> cm_inv cm'"
  by (induction ops arbitrary: cm) (auto simp: Option.bind_eq_Some_conv dest: cm_inv_step)


lemma cm_step_capacity:
  "cm_step op cm = Some cm' \<Longrightarrow> mg_send_queue_capacity cm' = mg_send_queue_capacity cm"
  by (cases op)
    (auto simp: cm_step_def next_connection_id_def register_def Let_def conn_try_send_queues cm_remove_def
      queue_recv_def queue_close_def split: if_splits option.splits)

lemma cm_run_capacity:
  "cm_run ops cm = Some cm' \<Longrightarrow> mg_send_queue_capacity cm' = mg_send_queue_capacity cm"
  by (induction ops arbitrary: cm) (auto simp: bind_eq_Some_conv dest: cm_step_capacity)

subsection \<open>One dispatch, one counter, one queue\<close>

definition metrics_total :: "Metrics \<Rightarrow> u64" where
  "metrics_total m = mt_dispatched m + mt_dropped_overflow m + mt_connection_gone m + mt_slow_disconnected m"

lemmas metrics_inc_defs = inc_dispatched_def inc_dropped_overflow_def inc_connection_gone_def
  inc_slow_disconnected_def

lemma metrics_total_inc [simp]:
  "metrics_total (inc_dispatched m) = metrics_total m + 1"
  "metrics_total (inc_dropped_overflow m) = metrics_total m + 1"
  "metrics_total (inc_connection_gone m) = metrics_total m + 1"
  "metrics_total (inc_slow_disconnected m) = metrics_total m + 1"
  by (simp_all add: metrics_total_def metrics_inc_defs)

lemma handle_dispatch_total:
  "metrics_total (fst (handle_dispatch d mc)) = metrics_total (fst mc) + 1"
  by (cases mc) (auto simp: handle_dispatch_def Let_def split: prod.split SendResult.split)

lemma handle_dispatch_inv: "cm_inv (snd mc) \<Longrightarrow> cm_inv (snd (handle_dispatch d mc))"
proof (cases mc)
  case (Pair m cm)
  assume "cm_inv (snd mc)"
  then have "cm_inv (snd (conn_try_send (ld_conn d) (sub_raw (ld_sub d)) (ld_event d) cm))"
    by (simp add: Pair)
  then show ?thesis
    by (auto simp: Pair handle_dispatch_def Let_def split: prod.split SendResult.split)
qed

text \<open>The queue of a connection has room: it is open and below its capacity.\<close>

definition has_room :: "ConnectionManager \<Rightarrow> ConnectionId \<Rightarrow> bool" where
  "has_room cm c = (case cm_queue cm c of None \<Rightarrow> False
     | Some q \<Rightarrow> \<not> ch_closed q \<and> length (ch_buf q) < mg_send_queue_capacity cm)"

lemma conn_try_send_result:
  assumes "cm_inv cm"
  shows "fst (conn_try_send c s e cm) =
    (case dm_get (mg_connections cm) c of None \<Rightarrow> ConnectionGone
     | Some st \<Rightarrow> if has_room cm c then Sent
         else if ch_closed (mg_queues cm ! cs_send_tx st) then ConnectionGone
         else apply_overflow_policy (cs_overflow_policy st))"
  using assms cm_inv_queue [OF assms] cm_inv_tx [OF assms, of c]
  by (auto simp: conn_try_send_def try_send_def has_room_def cm_queue_def Let_def split: option.split)

lemma conn_try_send_queue:
  assumes inv: "cm_inv cm"
  shows "cm_queue (snd (conn_try_send c s e cm)) c' =
    (if c' = c \<and> has_room cm c
     then map_option (\<lambda>q. q\<lparr>ch_buf := ch_buf q @ [(s, e)]\<rparr>) (cm_queue cm c) else cm_queue cm c')"
proof (cases "dm_get (mg_connections cm) c")
  case None
  then show ?thesis by (simp add: conn_try_send_queues has_room_def cm_queue_def)
next
  case (Some st)
  let ?t = "cs_send_tx st"
  have lt: "?t < length (mg_queues cm)" using cm_inv_tx [OF inv Some] .
  have cap: "ch_cap (mg_queues cm ! ?t) = mg_send_queue_capacity cm" using cm_inv_queue [OF inv lt] by simp
  have q: "fst (try_send (s, e) (mg_queues cm ! ?t)) =
      (if has_room cm c then (mg_queues cm ! ?t)\<lparr>ch_buf := ch_buf (mg_queues cm ! ?t) @ [(s, e)]\<rparr> else mg_queues cm ! ?t)"
    by (auto simp: try_send_def has_room_def cm_queue_def Some cap)
  have other: "cs_send_tx s' \<noteq> ?t" if "dm_get (mg_connections cm) c' = Some s'" "c' \<noteq> c" for s'
    using inv conns_ok_inj [of _ _ c' s' c st] that Some unfolding cm_inv_def by blast
  show ?thesis
    using other lt
    by (cases "dm_get (mg_connections cm) c'"; cases "c' = c")
      (auto simp: conn_try_send_queues Some cm_queue_def q)
qed

lemma dispatch_effects:
  assumes "cm_inv cm" and "handle_dispatch d (m, cm) = (m', cm')"
  shows "mt_dispatched m' = mt_dispatched m + (if has_room cm (ld_conn d) then 1 else 0)"
    and "metrics_total m' = metrics_total m + 1"
    and "has_room cm (ld_conn d) \<Longrightarrow> cm_queue cm' (ld_conn d) =
           map_option (\<lambda>q. q\<lparr>ch_buf := ch_buf q @ [(sub_raw (ld_sub d), ld_event d)]\<rparr>) (cm_queue cm (ld_conn d))"
    and "\<not> has_room cm (ld_conn d) \<Longrightarrow> cm_queue cm' (ld_conn d) \<in> {None, cm_queue cm (ld_conn d)}"
    and "c' \<noteq> ld_conn d \<Longrightarrow> cm_queue cm' c' = cm_queue cm c'"
    and "cm_inv cm'"
proof -
  let ?c = "ld_conn d"
  obtain r cm1 where ts: "conn_try_send ?c (sub_raw (ld_sub d)) (ld_event d) cm = (r, cm1)" by fastforce
  have r: "r = (case dm_get (mg_connections cm) ?c of None \<Rightarrow> ConnectionGone
     | Some st \<Rightarrow> if has_room cm ?c then Sent
         else if ch_closed (mg_queues cm ! cs_send_tx st) then ConnectionGone
         else apply_overflow_policy (cs_overflow_policy st))"
    using conn_try_send_result [OF assms(1), of ?c "sub_raw (ld_sub d)" "ld_event d"] ts by simp
  have sent: "r = Sent \<longleftrightarrow> has_room cm ?c"
  proof (cases "dm_get (mg_connections cm) ?c")
    case (Some st)
    then show ?thesis unfolding r by (cases "cs_overflow_policy st") auto
  qed (simp add: r has_room_def cm_queue_def)
  have q: "cm_queue cm1 c' = (if c' = ?c \<and> has_room cm ?c
     then map_option (\<lambda>q. q\<lparr>ch_buf := ch_buf q @ [(sub_raw (ld_sub d), ld_event d)]\<rparr>) (cm_queue cm ?c)
     else cm_queue cm c')" for c'
    using conn_try_send_queue [OF assms(1), of ?c "sub_raw (ld_sub d)" "ld_event d" c'] ts by simp
  have rm: "cm_queue (cm_remove ?c cm1) c' = (if c' = ?c then None else cm_queue cm1 c')" for c'
    by (simp add: cm_queue_def cm_remove_def)
  have m': "m' = (case r of Sent \<Rightarrow> inc_dispatched m | DroppedNewest \<Rightarrow> inc_dropped_overflow m
      | DroppedOldest \<Rightarrow> inc_dropped_overflow m | SrDisconnect \<Rightarrow> inc_slow_disconnected m
      | ConnectionGone \<Rightarrow> inc_connection_gone m)"
    and cm': "cm' = (if r = SrDisconnect then cm_remove ?c cm1 else cm1)"
    using assms(2) by (cases r; simp add: handle_dispatch_def ts)+
  show "mt_dispatched m' = mt_dispatched m + (if has_room cm ?c then 1 else 0)"
    unfolding sent [symmetric] m' by (cases r) (simp_all add: metrics_inc_defs)
  show "metrics_total m' = metrics_total m + 1"
    unfolding m' by (cases r) simp_all
  show "has_room cm ?c \<Longrightarrow> cm_queue cm' ?c =
      map_option (\<lambda>q. q\<lparr>ch_buf := ch_buf q @ [(sub_raw (ld_sub d), ld_event d)]\<rparr>) (cm_queue cm ?c)"
    using sent by (simp add: cm' q)
  show "\<not> has_room cm ?c \<Longrightarrow> cm_queue cm' ?c \<in> {None, cm_queue cm ?c}"
    by (simp add: cm' q rm)
  show "c' \<noteq> ?c \<Longrightarrow> cm_queue cm' c' = cm_queue cm c'"
    by (simp add: cm' q rm)
  show "cm_inv cm'"
    using handle_dispatch_inv [of "(m, cm)" d] assms by simp
qed

text \<open>
  C23: Slow-consumer isolation.  Delivering one dispatch to connection \<open>c\<close> puts the event at the end
  of the send queue of \<open>c\<close> exactly when that queue is open and below its capacity, and then counts it
  as dispatched; when there is no room the queue keeps what it holds and the event is counted in one
  of the three other counters.  No other connection's queue or registration is touched.
\<close>

theorem dispatch_isolated:
  assumes "cm_inv cm" and "handle_dispatch d (m, cm) = (m', cm')"
  shows "metrics_total m' = metrics_total m + 1 \<and>
    mt_dispatched m' = mt_dispatched m + (if has_room cm (ld_conn d) then 1 else 0) \<and>
    (if has_room cm (ld_conn d)
     then cm_queue cm' (ld_conn d) =
       map_option (\<lambda>q. q\<lparr>ch_buf := ch_buf q @ [(sub_raw (ld_sub d), ld_event d)]\<rparr>) (cm_queue cm (ld_conn d))
     else cm_queue cm' (ld_conn d) \<in> {None, cm_queue cm (ld_conn d)}) \<and>
    (\<forall>c'. c' \<noteq> ld_conn d \<longrightarrow> cm_queue cm' c' = cm_queue cm c') \<and> cm_inv cm'"
  using dispatch_effects [OF assms] by auto

definition demo_meta :: "u64 \<Rightarrow> ConnectionMeta" where
  "demo_meta c = \<lparr>cm_conn_id = ConnectionId c, cm_peer_addr = ''127.0.0.1:1'', cm_connected_at = 0,
     cm_user_id = None, cm_claims = None\<rparr>"

definition demo_dispatch :: "u64 \<Rightarrow> u64 \<Rightarrow> LocalDispatch" where
  "demo_dispatch c n = \<lparr>ld_conn = ConnectionId c, ld_sub = SubscriptionId ''s'',
     ld_event = (demo_event ''a'' ''e'')\<lparr>ev_sequence := n\<rparr>\<rparr>"

definition demo_cm :: "nat \<Rightarrow> OverflowPolicy \<Rightarrow> ConnectionManager" where
  "demo_cm cap policy = (case cm_run [OpRegister (demo_meta 1) policy, OpRegister (demo_meta 2) policy,
     OpTrySend (ConnectionId 1) ''s'' (demo_event ''a'' ''e'')] (cm_new cap)
     of None \<Rightarrow> cm_new cap | Some cm \<Rightarrow> cm)"

lemma demo_cm_inv: "cm_inv (demo_cm cap policy)"
  unfolding demo_cm_def by (split option.split) (simp del: cm_run.simps add: cm_inv_run [OF cm_inv_new])

lemmas eval_gateway = demo_cm_def demo_meta_def demo_dispatch_def cm_step_def cm_new_def register_def
  conn_try_send_def try_send_def channel_new_def handle_dispatch_def has_room_def cm_queue_def
  Let_def dm_insert_def dm_get_def dm_remove_def metrics_default_def metrics_inc_defs cm_remove_def

theorem dispatch_isolated_witness:
  "\<exists>m' cm'. handle_dispatch (demo_dispatch 1 5) (metrics_default, demo_cm 1 Disconnect) = (m', cm') \<and>
     \<not> has_room (demo_cm 1 Disconnect) (ConnectionId 1) \<and> has_room (demo_cm 1 Disconnect) (ConnectionId 2) \<and>
     metrics_total m' = metrics_total metrics_default + 1 \<and>
     cm_queue cm' (ConnectionId 2) = cm_queue (demo_cm 1 Disconnect) (ConnectionId 2)"
proof -
  obtain m' cm' where h: "handle_dispatch (demo_dispatch 1 5) (metrics_default, demo_cm 1 Disconnect) = (m', cm')"
    by fastforce
  from dispatch_isolated [OF demo_cm_inv this]
  have "metrics_total m' = metrics_total metrics_default + 1"
    and "cm_queue cm' (ConnectionId 2) = cm_queue (demo_cm 1 Disconnect) (ConnectionId 2)"
    by (simp_all add: demo_dispatch_def)
  with h show ?thesis by (simp add: eval_gateway)
qed

text \<open>
  Bounded memory per connection.  Whatever operations run on the manager, in any order, every send
  queue ever created holds at most the configured number of events, every registered connection has a
  queue of its own, and no two connections share one.
\<close>

theorem send_queues_bounded:
  assumes "cm_run ops (cm_new cap) = Some cm"
  shows "(\<forall>q \<in> set (mg_queues cm). length (ch_buf q) \<le> cap) \<and>
    (\<forall>c s. dm_get (mg_connections cm) c = Some s \<longrightarrow> cs_send_tx s < length (mg_queues cm)) \<and>
    (\<forall>c c' s s'. dm_get (mg_connections cm) c = Some s \<longrightarrow> dm_get (mg_connections cm) c' = Some s' \<longrightarrow>
       cs_send_tx s = cs_send_tx s' \<longrightarrow> c = c')"
proof -
  have inv: "cm_inv cm" using cm_inv_run [OF cm_inv_new assms] .
  have "mg_send_queue_capacity cm = cap" using cm_run_capacity [OF assms] by (simp add: cm_new_def)
  then have "\<forall>q \<in> set (mg_queues cm). length (ch_buf q) \<le> cap"
    using inv unfolding cm_inv_def queues_ok_def channel_inv_def by metis
  moreover have "conns_ok (length (mg_queues cm)) (mg_connections cm)" using inv by (simp add: cm_inv_def)
  ultimately show ?thesis unfolding conns_ok_def by blast
qed

theorem send_queues_bounded_witness:
  "\<exists>cm. cm_run [OpRegister (demo_meta 1) DropNewest, OpTrySend (ConnectionId 1) ''s'' (demo_event ''a'' ''e''),
       OpTrySend (ConnectionId 1) ''s'' (demo_event ''b'' ''e'')] (cm_new 1) = Some cm \<and>
     length (ch_buf (mg_queues cm ! 0)) \<le> 1 \<and> mg_queues cm \<noteq> []"
proof -
  obtain cm where cm: "cm_run [OpRegister (demo_meta 1) DropNewest, OpTrySend (ConnectionId 1) ''s'' (demo_event ''a'' ''e''),
       OpTrySend (ConnectionId 1) ''s'' (demo_event ''b'' ''e'')] (cm_new 1) = Some cm"
    and ne: "mg_queues cm \<noteq> []"
    by (simp add: eval_gateway)
  have "\<forall>q \<in> set (mg_queues cm). length (ch_buf q) \<le> 1" using send_queues_bounded [OF cm] by blast
  with cm ne show ?thesis by (auto simp: neq_Nil_conv)
qed

text \<open>
  The overflow policies.  When the queue of a connection is open and full, a further event leaves
  every queued event in place under all three policies: \<open>DropOldest\<close> discards the incoming event just as
  \<open>DropNewest\<close> does, with the same counter, and only \<open>Disconnect\<close> differs, by removing the connection.
\<close>

theorem drop_oldest_drops_incoming:
  assumes "cm_inv cm" and "dm_get (mg_connections cm) (ld_conn d) = Some st"
    and "\<not> has_room cm (ld_conn d)" and "\<not> ch_closed (mg_queues cm ! cs_send_tx st)"
  shows "handle_dispatch d (m, cm) =
    (case cs_overflow_policy st of
       DropOldest \<Rightarrow> (inc_dropped_overflow m, cm)
     | DropNewest \<Rightarrow> (inc_dropped_overflow m, cm)
     | Disconnect \<Rightarrow> (inc_slow_disconnected m, cm_remove (ld_conn d) cm))"
proof -
  let ?t = "cs_send_tx st"
  have lt: "?t < length (mg_queues cm)" using cm_inv_tx [OF assms(1,2)] .
  have "mg_send_queue_capacity cm \<le> length (ch_buf (mg_queues cm ! ?t))"
    using assms(2-4) by (simp add: has_room_def cm_queue_def)
  then have "try_send (sub_raw (ld_sub d), ld_event d) (mg_queues cm ! ?t) = (mg_queues cm ! ?t, Inl ChannelFull)"
    using assms(4) cm_inv_queue [OF assms(1) lt] by (simp add: try_send_def)
  then show ?thesis
    by (cases "cs_overflow_policy st") (simp_all add: handle_dispatch_def conn_try_send_def assms(2))
qed

theorem drop_oldest_drops_incoming_witness:
  "handle_dispatch (demo_dispatch 1 5) (metrics_default, demo_cm 1 DropOldest) =
     (inc_dropped_overflow metrics_default, demo_cm 1 DropOldest)"
proof -
  let ?st = "\<lparr>cs_meta = demo_meta 1, cs_send_tx = 0, cs_overflow_policy = DropOldest\<rparr>"
  have "dm_get (mg_connections (demo_cm 1 DropOldest)) (ld_conn (demo_dispatch 1 5)) = Some ?st"
    and "\<not> has_room (demo_cm 1 DropOldest) (ld_conn (demo_dispatch 1 5))"
    and "\<not> ch_closed (mg_queues (demo_cm 1 DropOldest) ! cs_send_tx ?st)"
    by (simp_all add: eval_gateway)
  from drop_oldest_drops_incoming [OF demo_cm_inv this] show ?thesis by simp
qed

text \<open>The identifiers a manager hands out, read as a counter with one key.\<close>

definition id_next :: "unit \<Rightarrow> ConnectionManager \<Rightarrow> u64 \<times> ConnectionManager" where
  "id_next _ cm = (let (c, cm) = next_connection_id cm in (conn_raw c, cm))"

definition id_last :: "unit \<Rightarrow> ConnectionManager \<Rightarrow> u64" where
  "id_last _ cm = mg_next_conn_id cm - 1"

interpretation ids: topic_counter id_next id_last "cm_new 256"
  by unfold_locales (simp_all add: id_next_def id_last_def next_connection_id_def cm_new_def)

text \<open>
  Identifiers are not reused.  Any number of calls up to 2^64 of \<open>next_connection_id\<close>, from any
  state of the manager, returns distinct identifiers, so a later connection never receives the events
  of an earlier one on the same node.
\<close>

theorem connection_ids_distinct:
  assumes "n \<le> 2 ^ 64"
  shows "distinct (fst (counter_run id_next (replicate n ()) cm))"
  using assms by (rule ids.run_distinct)

theorem connection_ids_distinct_witness:
  "distinct (fst (counter_run id_next (replicate 3 ()) (cm_new 4)))
     \<and> fst (counter_run id_next (replicate 3 ()) (cm_new 4)) = [1, 2, 3]"
  using connection_ids_distinct [of 3 "cm_new 4"]
  by (simp add: numeral_3_eq_3 id_next_def next_connection_id_def cm_new_def)

end
