(* ===== verification/Rt_Fanout.thy ===== *)
theory Rt_Fanout
  imports Rt_Gateway
begin

text \<open>
  The fan-out pool (\<open>crates/realtime-gateway/src/fanout.rs\<close>) as a transition system.  One dispatcher
  task takes messages off the router's channel and hands them round-robin to the worker tasks, each
  with its own channel; a worker expands a batch and delivers its targets one at a time.  A step is
  what one task does between two points where another task may run, so the runs are all
  interleavings of the router, the dispatcher, the workers and the connection tasks.  Lemmas: every
  accepted target is delivered to exactly one counter or still under way; one worker keeps the order of
  the router; two workers do not.
\<close>

subsection \<open>State\<close>

text \<open>\<open>wk_todo\<close>: the targets of the message a worker is handling.  \<open>fo_held\<close>: the message the dispatcher
  waits to send, with the worker it goes to.\<close>

record Worker =
  wk_queue :: "DispatchMessage channel"
  wk_todo :: "LocalDispatch list"

record FanOut =
  fo_rx :: "DispatchMessage channel"
  fo_held :: "(nat \<times> DispatchMessage) option"
  fo_next :: usize
  fo_workers :: "Worker list"
  fo_metrics :: Metrics
  fo_conn_manager :: ConnectionManager

text \<open>\<open>FanOutWorkerPool::start\<close>; \<open>parallelism\<close> is the answer of \<open>available_parallelism\<close>.\<close>

definition fanout_worker_count :: "nat option \<Rightarrow> nat \<Rightarrow> nat" where
  "fanout_worker_count parallelism worker_count =
     (if worker_count = 0 then (case parallelism of None \<Rightarrow> 4 | Some n \<Rightarrow> n) else worker_count)"

definition fanout_start :: "nat option \<Rightarrow> nat \<Rightarrow> Metrics \<Rightarrow> ConnectionManager \<Rightarrow> FanOut" where
  "fanout_start parallelism worker_count m cm =
     \<lparr>fo_rx = channel_new 65536, fo_held = None, fo_next = 0,
      fo_workers = replicate (fanout_worker_count parallelism worker_count)
        \<lparr>wk_queue = channel_new 8192, wk_todo = []\<rparr>,
      fo_metrics = m, fo_conn_manager = cm\<rparr>"

definition message_targets :: "DispatchMessage \<Rightarrow> LocalDispatch list" where
  "message_targets msg = (case msg of
       DispatchSingle d \<Rightarrow> [d]
     | DispatchBatch event targets \<Rightarrow>
         map (\<lambda>(conn_id, sub_id). \<lparr>ld_conn = conn_id, ld_sub = sub_id, ld_event = event\<rparr>) targets)"

subsection \<open>Steps\<close>

text \<open>The router's side: \<open>try_send\<close> on the dispatch channel.\<close>

definition fo_submit :: "DispatchMessage \<Rightarrow> FanOut \<Rightarrow> FanOut \<times> (SendError, unit) result" where
  "fo_submit msg s = (let (rx, r) = try_send msg (fo_rx s) in (s\<lparr>fo_rx := rx\<rparr>, r))"

text \<open>\<open>dispatch_loop\<close>: take a message and choose its worker, then \<open>send\<close> it once that worker has room.\<close>

definition dispatcher_recv :: "FanOut \<Rightarrow> FanOut option" where
  "dispatcher_recv s =
     (if fo_held s = None \<and> fo_workers s \<noteq> [] then
        (case channel_recv (fo_rx s) of
           None \<Rightarrow> None
         | Some (message, rx) \<Rightarrow>
             let idx = unat (fo_next s) mod length (fo_workers s)
             in Some (s\<lparr>fo_rx := rx, fo_next := fo_next s + 1, fo_held := Some (idx, message)\<rparr>))
      else None)"

definition dispatcher_send :: "FanOut \<Rightarrow> FanOut option" where
  "dispatcher_send s =
     (case fo_held s of
        None \<Rightarrow> None
      | Some (idx, message) \<Rightarrow>
          let w = fo_workers s ! idx in
          case try_send message (wk_queue w) of
            (q, Inr _) \<Rightarrow> Some (s\<lparr>fo_held := None, fo_workers := (fo_workers s)[idx := w\<lparr>wk_queue := q\<rparr>]\<rparr>)
          | (_, Inl ChannelClosed) \<Rightarrow> Some (s\<lparr>fo_held := None\<rparr>)
          | (_, Inl ChannelFull) \<Rightarrow> None)"

text \<open>\<open>run_worker\<close>: take a message, then handle its targets in order.\<close>

definition worker_recv :: "nat \<Rightarrow> FanOut \<Rightarrow> FanOut option" where
  "worker_recv i s =
     (if i < length (fo_workers s) \<and> wk_todo (fo_workers s ! i) = [] then
        (case channel_recv (wk_queue (fo_workers s ! i)) of
           None \<Rightarrow> None
         | Some (message, q) \<Rightarrow>
             Some (s\<lparr>fo_workers := (fo_workers s)[i := \<lparr>wk_queue = q, wk_todo = message_targets message\<rparr>]\<rparr>))
      else None)"

definition worker_handle :: "nat \<Rightarrow> FanOut \<Rightarrow> (LocalDispatch \<times> FanOut) option" where
  "worker_handle i s =
     (if i < length (fo_workers s) then
        (case wk_todo (fo_workers s ! i) of
           [] \<Rightarrow> None
         | d # ds \<Rightarrow>
             let (m, cm) = handle_dispatch d (fo_metrics s, fo_conn_manager s)
             in Some (d, s\<lparr>fo_workers := (fo_workers s)[i := (fo_workers s ! i)\<lparr>wk_todo := ds\<rparr>],
                           fo_metrics := m, fo_conn_manager := cm\<rparr>))
      else None)"

definition manager_step :: "cm_op \<Rightarrow> FanOut \<Rightarrow> FanOut option" where
  "manager_step op s = map_option (\<lambda>cm. s\<lparr>fo_conn_manager := cm\<rparr>) (cm_step op (fo_conn_manager s))"

text \<open>One step of any task, with the targets it accepted from the router and those it delivered.\<close>

datatype fo_action =
    ASubmit DispatchMessage
  | ARecv
  | ASend
  | AWorkerRecv nat
  | AWorkerHandle nat
  | AManager cm_op

definition fo_act ::
    "fo_action \<Rightarrow> FanOut \<Rightarrow> (LocalDispatch list \<times> LocalDispatch list \<times> FanOut) option" where
  "fo_act a s = (case a of
       ASubmit msg \<Rightarrow> (let (s', r) = fo_submit msg s
                       in Some (if r = Inr () then message_targets msg else [], [], s'))
     | ARecv \<Rightarrow> map_option (\<lambda>s. ([], [], s)) (dispatcher_recv s)
     | ASend \<Rightarrow> map_option (\<lambda>s. ([], [], s)) (dispatcher_send s)
     | AWorkerRecv i \<Rightarrow> map_option (\<lambda>s. ([], [], s)) (worker_recv i s)
     | AWorkerHandle i \<Rightarrow> map_option (\<lambda>(d, s). ([], [d], s)) (worker_handle i s)
     | AManager op \<Rightarrow> map_option (\<lambda>s. ([], [], s)) (manager_step op s))"

text \<open>\<open>fanout_run s0 acc dl s\<close>: some interleaving leads from \<open>s0\<close> to \<open>s\<close>, accepting the targets \<open>acc\<close>
  and delivering the targets \<open>dl\<close>, each in this order.\<close>

inductive fanout_run :: "FanOut \<Rightarrow> LocalDispatch list \<Rightarrow> LocalDispatch list \<Rightarrow> FanOut \<Rightarrow> bool" where
  Start: "fanout_run s0 [] [] s0"
| Step: "fanout_run s0 acc dl s \<Longrightarrow> fo_act a s = Some (ac, d, s') \<Longrightarrow> fanout_run s0 (acc @ ac) (dl @ d) s'"

inductive_cases fanout_runE: "fanout_run s0 acc dl s"

text \<open>A given schedule, executed.\<close>

fun fo_exec :: "fo_action list \<Rightarrow> FanOut \<Rightarrow> (LocalDispatch list \<times> LocalDispatch list \<times> FanOut) option" where
  "fo_exec [] s = Some ([], [], s)"
| "fo_exec (a # as) s =
     (case fo_act a s of
        None \<Rightarrow> None
      | Some (ac, d, s') \<Rightarrow>
          (case fo_exec as s' of None \<Rightarrow> None | Some (acc, dl, s'') \<Rightarrow> Some (ac @ acc, d @ dl, s'')))"

lemma fo_exec_run_aux:
  "fo_exec as s = Some (ac, d, s') \<Longrightarrow> fanout_run s0 acc dl s \<Longrightarrow> fanout_run s0 (acc @ ac) (dl @ d) s'"
proof (induction as arbitrary: s acc dl ac d)
  case (Cons a as)
  from Cons.prems(1) obtain ac1 d1 s1 ac2 d2 where a: "fo_act a s = Some (ac1, d1, s1)"
    and as: "fo_exec as s1 = Some (ac2, d2, s')" and eq: "ac = ac1 @ ac2" "d = d1 @ d2"
    by (auto split: option.splits)
  from Cons.IH [OF as fanout_run.Step [OF Cons.prems(2) a]] show ?case by (simp add: eq)
qed simp

lemma fo_exec_run: "fo_exec as s = Some (acc, dl, s') \<Longrightarrow> fanout_run s acc dl s'"
  using fo_exec_run_aux [OF _ fanout_run.Start] by fastforce

subsection \<open>Targets under way\<close>

definition worker_pending :: "Worker \<Rightarrow> LocalDispatch list" where
  "worker_pending w = wk_todo w @ concat (map message_targets (ch_buf (wk_queue w)))"

definition held_pending :: "FanOut \<Rightarrow> LocalDispatch list" where
  "held_pending s = (case fo_held s of None \<Rightarrow> [] | Some (_, m) \<Rightarrow> message_targets m)"

definition rx_pending :: "FanOut \<Rightarrow> LocalDispatch list" where
  "rx_pending s = concat (map message_targets (ch_buf (fo_rx s)))"

text \<open>All targets accepted and not yet delivered, in the order one worker would deliver them.\<close>

definition in_flight :: "FanOut \<Rightarrow> LocalDispatch list" where
  "in_flight s = concat (map worker_pending (fo_workers s)) @ held_pending s @ rx_pending s"

text \<open>Well-formed pools: worker channels are open, the held message has a worker, channels are within
  their capacities, the manager is well formed.\<close>

definition fo_inv :: "FanOut \<Rightarrow> bool" where
  "fo_inv s = (fo_workers s \<noteq> [] \<and>
     (\<forall>w \<in> set (fo_workers s). \<not> ch_closed (wk_queue w) \<and> 0 < ch_cap (wk_queue w)) \<and>
     (\<forall>i m. fo_held s = Some (i, m) \<longrightarrow> i < length (fo_workers s)) \<and> cm_inv (fo_conn_manager s))"

lemma fanout_start_inv:
  "cm_inv cm \<Longrightarrow> 0 < fanout_worker_count p n \<Longrightarrow> fo_inv (fanout_start p n m cm)"
  by (simp add: fo_inv_def fanout_start_def channel_new_def)

lemma fanout_start_in_flight [simp]: "in_flight (fanout_start p n m cm) = []"
  by (simp add: in_flight_def fanout_start_def channel_new_def worker_pending_def held_pending_def
      rx_pending_def)

text \<open>Replacing one worker in the pool.\<close>

lemma mset_concat_update:
  "i < length xs \<Longrightarrow>
   mset (concat (map f (xs[i := y]))) + mset (f (xs ! i)) = mset (concat (map f xs)) + mset (f y)"
proof (induction xs arbitrary: i)
  case (Cons x xs)
  then show ?case by (cases i) (auto simp: add.assoc add.commute add.left_commute)
qed simp

lemma fo_inv_set_worker:
  "fo_inv s \<Longrightarrow> \<not> ch_closed (wk_queue w) \<Longrightarrow> 0 < ch_cap (wk_queue w) \<Longrightarrow>
   fo_inv (s\<lparr>fo_workers := (fo_workers s)[i := w]\<rparr>)"
  unfolding fo_inv_def by (auto dest!: set_update_subset_insert [THEN subsetD])

lemma fo_inv_worker:
  "fo_inv s \<Longrightarrow> i < length (fo_workers s) \<Longrightarrow>
   \<not> ch_closed (wk_queue (fo_workers s ! i)) \<and> 0 < ch_cap (wk_queue (fo_workers s ! i))"
  unfolding fo_inv_def by simp

subsection \<open>What each step does to the targets under way\<close>

lemma submit_effect:
  assumes "fo_submit msg s = (s', r)" and "fo_inv s"
  shows "in_flight s' = in_flight s @ (if r = Inr () then message_targets msg else [])"
    and "fo_inv s'" and "fo_workers s' = fo_workers s" and "fo_metrics s' = fo_metrics s"
proof -
  obtain rx where rx: "try_send msg (fo_rx s) = (rx, r)" and s': "s' = s\<lparr>fo_rx := rx\<rparr>"
    using assms(1) by (auto simp: fo_submit_def split: prod.splits)
  have "ch_buf rx = ch_buf (fo_rx s) @ (if r = Inr () then [msg] else [])"
    using try_send_buf [of msg "fo_rx s"] rx by simp
  then show "in_flight s' = in_flight s @ (if r = Inr () then message_targets msg else [])"
    by (simp add: s' in_flight_def held_pending_def rx_pending_def)
  show "fo_inv s'" using assms(2) by (simp add: s' fo_inv_def)
  show "fo_workers s' = fo_workers s" and "fo_metrics s' = fo_metrics s" by (simp_all add: s')
qed

lemma dispatcher_recv_effect:
  assumes "dispatcher_recv s = Some s'" and "fo_inv s"
  shows "in_flight s' = in_flight s"
    and "fo_inv s'" and "fo_workers s' = fo_workers s" and "fo_metrics s' = fo_metrics s"
proof -
  obtain msg ms where held: "fo_held s = None" and buf: "ch_buf (fo_rx s) = msg # ms"
    and s': "s' = s\<lparr>fo_rx := (fo_rx s)\<lparr>ch_buf := ms\<rparr>, fo_next := fo_next s + 1,
      fo_held := Some (unat (fo_next s) mod length (fo_workers s), msg)\<rparr>"
    using assms(1) by (auto simp: dispatcher_recv_def channel_recv_def Let_def split: if_splits list.splits)
  show "in_flight s' = in_flight s"
    by (simp add: s' in_flight_def held_pending_def rx_pending_def held buf)
  show "fo_inv s'" using assms(2) by (auto simp: s' fo_inv_def)
  show "fo_workers s' = fo_workers s" and "fo_metrics s' = fo_metrics s" by (simp_all add: s')
qed

lemma dispatcher_send_effect:
  assumes "dispatcher_send s = Some s'" and inv: "fo_inv s"
  shows "mset (in_flight s') = mset (in_flight s)"
    and "length (fo_workers s) = 1 \<Longrightarrow> in_flight s' = in_flight s"
    and "fo_inv s'" and "length (fo_workers s') = length (fo_workers s)" and "fo_metrics s' = fo_metrics s"
proof -
  obtain i msg where held: "fo_held s = Some (i, msg)"
    using assms(1) by (auto simp: dispatcher_send_def split: option.splits)
  let ?w = "fo_workers s ! i"
  let ?w' = "?w\<lparr>wk_queue := (wk_queue ?w)\<lparr>ch_buf := ch_buf (wk_queue ?w) @ [msg]\<rparr>\<rparr>"
  have i: "i < length (fo_workers s)" using inv held by (simp add: fo_inv_def)
  have open_i: "\<not> ch_closed (wk_queue ?w)" "0 < ch_cap (wk_queue ?w)" using fo_inv_worker [OF inv i] by auto
  have s': "s' = s\<lparr>fo_held := None, fo_workers := (fo_workers s)[i := ?w']\<rparr>"
    using assms(1) open_i by (auto simp: dispatcher_send_def held Let_def try_send_def split: if_splits)
  have pend: "worker_pending ?w' = worker_pending ?w @ message_targets msg"
    by (simp add: worker_pending_def)
  show "mset (in_flight s') = mset (in_flight s)"
    using mset_concat_update [OF i, of worker_pending ?w']
    by (simp add: s' in_flight_def held_pending_def rx_pending_def held pend)
  show "in_flight s' = in_flight s" if "length (fo_workers s) = 1"
  proof -
    from that obtain w where w: "fo_workers s = [w]" by (auto simp: length_Suc_conv)
    with i have "i = 0" by simp
    with w pend show ?thesis by (simp add: s' in_flight_def held_pending_def rx_pending_def held)
  qed
  have "fo_inv (s\<lparr>fo_workers := (fo_workers s)[i := ?w']\<rparr>)"
    using open_i by (intro fo_inv_set_worker [OF inv]) simp_all
  then show "fo_inv s'" by (simp add: s' fo_inv_def)
  show "length (fo_workers s') = length (fo_workers s)" and "fo_metrics s' = fo_metrics s" by (simp_all add: s')
qed

lemma concat_update_same:
  "i < length xs \<Longrightarrow> f y = f (xs ! i) \<Longrightarrow> concat (map f (xs[i := y])) = concat (map f xs)"
  by (metis list_update_id map_update nth_map)

lemma worker_recv_effect:
  assumes "worker_recv i s = Some s'" and inv: "fo_inv s"
  shows "in_flight s' = in_flight s"
    and "fo_inv s'" and "length (fo_workers s') = length (fo_workers s)" and "fo_metrics s' = fo_metrics s"
proof -
  let ?w = "fo_workers s ! i"
  obtain msg ms where i: "i < length (fo_workers s)" and todo: "wk_todo ?w = []"
    and buf: "ch_buf (wk_queue ?w) = msg # ms"
    and s': "s' = s\<lparr>fo_workers := (fo_workers s)[i :=
      \<lparr>wk_queue = (wk_queue ?w)\<lparr>ch_buf := ms\<rparr>, wk_todo = message_targets msg\<rparr>]\<rparr>"
    using assms(1) by (auto simp: worker_recv_def channel_recv_def split: if_splits list.splits)
  have "worker_pending \<lparr>wk_queue = (wk_queue ?w)\<lparr>ch_buf := ms\<rparr>, wk_todo = message_targets msg\<rparr> = worker_pending ?w"
    by (simp add: worker_pending_def todo buf)
  then show "in_flight s' = in_flight s"
    by (simp add: s' in_flight_def held_pending_def rx_pending_def concat_update_same [OF i])
  show "fo_inv s'"
    unfolding s' using fo_inv_worker [OF inv i] by (intro fo_inv_set_worker [OF inv]) simp_all
  show "length (fo_workers s') = length (fo_workers s)" and "fo_metrics s' = fo_metrics s" by (simp_all add: s')
qed

lemma worker_handle_effect:
  assumes "worker_handle i s = Some (d, s')" and inv: "fo_inv s"
  shows "mset (in_flight s') + {#d#} = mset (in_flight s)"
    and "length (fo_workers s) = 1 \<Longrightarrow> in_flight s = d # in_flight s'"
    and "fo_inv s'" and "length (fo_workers s') = length (fo_workers s)"
    and "metrics_total (fo_metrics s') = metrics_total (fo_metrics s) + 1"
proof -
  let ?w = "fo_workers s ! i"
  let ?mc = "handle_dispatch d (fo_metrics s, fo_conn_manager s)"
  obtain ds where i: "i < length (fo_workers s)" and todo: "wk_todo ?w = d # ds"
    and s': "s' = s\<lparr>fo_workers := (fo_workers s)[i := ?w\<lparr>wk_todo := ds\<rparr>], fo_metrics := fst ?mc,
      fo_conn_manager := snd ?mc\<rparr>"
    using assms(1) by (auto simp: worker_handle_def split_beta split: if_splits list.splits)
  have pend: "worker_pending ?w = d # worker_pending (?w\<lparr>wk_todo := ds\<rparr>)"
    by (simp add: worker_pending_def todo)
  show "mset (in_flight s') + {#d#} = mset (in_flight s)"
    using mset_concat_update [OF i, of worker_pending "?w\<lparr>wk_todo := ds\<rparr>"]
    by (simp add: s' in_flight_def held_pending_def rx_pending_def pend)
  show "in_flight s = d # in_flight s'" if "length (fo_workers s) = 1"
  proof -
    from that obtain w where w: "fo_workers s = [w]" by (auto simp: length_Suc_conv)
    with i have "i = 0" by simp
    with w pend show ?thesis by (simp add: s' in_flight_def held_pending_def rx_pending_def)
  qed
  have "fo_inv (s\<lparr>fo_workers := (fo_workers s)[i := ?w\<lparr>wk_todo := ds\<rparr>]\<rparr>)"
    using fo_inv_worker [OF inv i] by (intro fo_inv_set_worker [OF inv]) simp_all
  moreover have "cm_inv (snd ?mc)"
    using inv handle_dispatch_inv [of "(fo_metrics s, fo_conn_manager s)" d] by (simp add: fo_inv_def)
  ultimately show "fo_inv s'" by (simp add: s' fo_inv_def)
  show "length (fo_workers s') = length (fo_workers s)" by (simp add: s')
  show "metrics_total (fo_metrics s') = metrics_total (fo_metrics s) + 1"
    using handle_dispatch_total [of d "(fo_metrics s, fo_conn_manager s)"] by (simp add: s')
qed

lemma manager_effect:
  assumes "manager_step op s = Some s'" and inv: "fo_inv s"
  shows "in_flight s' = in_flight s" and "fo_inv s'" and "fo_workers s' = fo_workers s"
    and "fo_metrics s' = fo_metrics s"
proof -
  obtain cm where "cm_step op (fo_conn_manager s) = Some cm" and s': "s' = s\<lparr>fo_conn_manager := cm\<rparr>"
    using assms(1) by (auto simp: manager_step_def)
  then show "fo_inv s'" using inv cm_inv_step by (auto simp: fo_inv_def)
  show "in_flight s' = in_flight s" and "fo_workers s' = fo_workers s" and "fo_metrics s' = fo_metrics s"
    by (simp_all add: s' in_flight_def held_pending_def rx_pending_def)
qed

lemma act_effect:
  assumes "fo_act a s = Some (ac, d, s')" and inv: "fo_inv s"
  shows "fo_inv s' \<and> length (fo_workers s') = length (fo_workers s) \<and>
    metrics_total (fo_metrics s') = metrics_total (fo_metrics s) + of_nat (length d) \<and>
    mset d + mset (in_flight s') = mset (in_flight s) + mset ac \<and>
    (length (fo_workers s) = 1 \<longrightarrow> d @ in_flight s' = in_flight s @ ac)"
proof (cases a)
  case (ASubmit msg)
  obtain r where sub: "fo_submit msg s = (s', r)" and ac: "ac = (if r = Inr () then message_targets msg else [])"
    and d: "d = []"
    using assms(1) by (auto simp: ASubmit fo_act_def split: prod.splits)
  from submit_effect [OF sub inv] show ?thesis by (simp add: ac d)
next
  case ARecv
  then have "dispatcher_recv s = Some s'" "ac = []" "d = []" using assms(1) by (auto simp: fo_act_def)
  with dispatcher_recv_effect [OF _ inv] show ?thesis by simp
next
  case ASend
  then have "dispatcher_send s = Some s'" "ac = []" "d = []" using assms(1) by (auto simp: fo_act_def)
  with dispatcher_send_effect [OF _ inv] show ?thesis by simp
next
  case (AWorkerRecv i)
  then have "worker_recv i s = Some s'" "ac = []" "d = []" using assms(1) by (auto simp: fo_act_def)
  with worker_recv_effect [OF _ inv] show ?thesis by simp
next
  case (AWorkerHandle i)
  then obtain e where "worker_handle i s = Some (e, s')" "ac = []" "d = [e]" using assms(1) by (auto simp: fo_act_def)
  with worker_handle_effect [OF _ inv] show ?thesis by (simp add: add.commute)
next
  case (AManager op)
  then have "manager_step op s = Some s'" "ac = []" "d = []" using assms(1) by (auto simp: fo_act_def)
  with manager_effect [OF _ inv] show ?thesis by simp
qed

lemma run_effect:
  "fanout_run s0 acc dl s \<Longrightarrow> fo_inv s0 \<Longrightarrow> in_flight s0 = [] \<Longrightarrow>
   fo_inv s \<and> length (fo_workers s) = length (fo_workers s0) \<and>
   metrics_total (fo_metrics s) = metrics_total (fo_metrics s0) + of_nat (length dl) \<and>
   mset dl + mset (in_flight s) = mset acc \<and>
   (length (fo_workers s0) = 1 \<longrightarrow> dl @ in_flight s = acc)"
proof (induction rule: fanout_run.induct)
  case (Step s0 acc dl s a ac d s')
  then have inv: "fo_inv s" and len: "length (fo_workers s) = length (fo_workers s0)"
    and tot: "metrics_total (fo_metrics s) = metrics_total (fo_metrics s0) + of_nat (length dl)"
    and ms: "mset dl + mset (in_flight s) = mset acc"
    and ord: "length (fo_workers s0) = 1 \<longrightarrow> dl @ in_flight s = acc" by auto
  note e = act_effect [OF Step.hyps(2) inv]
  have "mset (dl @ d) + mset (in_flight s') = mset (acc @ ac)"
    using e ms [symmetric] by (simp add: add.assoc)
  moreover have "(dl @ d) @ in_flight s' = acc @ ac" if "length (fo_workers s0) = 1"
    using that e ord len by (metis append.assoc)
  ultimately show ?case using e len tot by (simp add: add.assoc)
qed simp

subsection \<open>Draining\<close>

text \<open>A step of the pool itself: no new message, no change of connections.\<close>

definition internal_action :: "fo_action \<Rightarrow> bool" where
  "internal_action a = (case a of ASubmit _ \<Rightarrow> False | AManager _ \<Rightarrow> False | _ \<Rightarrow> True)"

text \<open>The steps still to make: four per message not yet handed on, less as it moves, one per target.\<close>

definition msgs_work :: "nat \<Rightarrow> DispatchMessage list \<Rightarrow> nat" where
  "msgs_work k ms = sum_list (map (\<lambda>m. k + length (message_targets m)) ms)"

definition worker_work :: "Worker \<Rightarrow> nat" where
  "worker_work w = msgs_work 1 (ch_buf (wk_queue w)) + length (wk_todo w)"

definition fo_work :: "FanOut \<Rightarrow> nat" where
  "fo_work s = msgs_work 3 (ch_buf (fo_rx s))
     + (case fo_held s of None \<Rightarrow> 0 | Some (_, m) \<Rightarrow> msgs_work 2 [m])
     + sum_list (map worker_work (fo_workers s))"

lemma sum_list_map_update:
  "i < length xs \<Longrightarrow> sum_list (map f (xs[i := y])) + f (xs ! i) = sum_list (map f xs) + (f y :: nat)"
proof (induction xs arbitrary: i)
  case (Cons x xs)
  then show ?case by (cases i) (auto simp: algebra_simps)
qed simp

lemma internal_decreases:
  assumes "fo_act a s = Some (ac, d, s')" and "internal_action a" and inv: "fo_inv s"
  shows "fo_work s' < fo_work s \<and> ac = []"
proof (cases a)
  case ARecv
  then have "dispatcher_recv s = Some s'" and "ac = []" using assms(1) by (auto simp: fo_act_def)
  then show ?thesis
    by (auto simp: dispatcher_recv_def channel_recv_def Let_def fo_work_def msgs_work_def
        split: if_splits list.splits)
next
  case ASend
  then have sd: "dispatcher_send s = Some s'" and "ac = []" using assms(1) by (auto simp: fo_act_def)
  then obtain i msg where held: "fo_held s = Some (i, msg)"
    by (auto simp: dispatcher_send_def split: option.splits)
  let ?w = "fo_workers s ! i"
  let ?w' = "?w\<lparr>wk_queue := (wk_queue ?w)\<lparr>ch_buf := ch_buf (wk_queue ?w) @ [msg]\<rparr>\<rparr>"
  have i: "i < length (fo_workers s)" using inv held by (simp add: fo_inv_def)
  have "s' = s\<lparr>fo_held := None, fo_workers := (fo_workers s)[i := ?w']\<rparr>"
    using sd fo_inv_worker [OF inv i]
    by (auto simp: dispatcher_send_def held Let_def try_send_def split: if_splits)
  then show ?thesis
    using sum_list_map_update [OF i, of worker_work ?w'] \<open>ac = []\<close>
    by (simp add: fo_work_def held msgs_work_def worker_work_def)
next
  case (AWorkerRecv i)
  then have wr: "worker_recv i s = Some s'" and "ac = []" using assms(1) by (auto simp: fo_act_def)
  let ?w = "fo_workers s ! i"
  obtain msg ms where i: "i < length (fo_workers s)" and todo: "wk_todo ?w = []"
    and buf: "ch_buf (wk_queue ?w) = msg # ms"
    and s': "s' = s\<lparr>fo_workers := (fo_workers s)[i :=
      \<lparr>wk_queue = (wk_queue ?w)\<lparr>ch_buf := ms\<rparr>, wk_todo = message_targets msg\<rparr>]\<rparr>"
    using wr by (auto simp: worker_recv_def channel_recv_def split: if_splits list.splits)
  then show ?thesis
    using sum_list_map_update [OF i, of worker_work
        "\<lparr>wk_queue = (wk_queue ?w)\<lparr>ch_buf := ms\<rparr>, wk_todo = message_targets msg\<rparr>"] \<open>ac = []\<close>
    by (simp add: fo_work_def worker_work_def msgs_work_def)
next
  case (AWorkerHandle i)
  then obtain e where wh: "worker_handle i s = Some (e, s')" and "ac = []" using assms(1) by (auto simp: fo_act_def)
  let ?w = "fo_workers s ! i"
  obtain ds where i: "i < length (fo_workers s)" and todo: "wk_todo ?w = e # ds"
    and "fo_workers s' = (fo_workers s)[i := ?w\<lparr>wk_todo := ds\<rparr>]" and "fo_rx s' = fo_rx s" and "fo_held s' = fo_held s"
    using wh by (auto simp: worker_handle_def split_beta split: if_splits list.splits)
  then show ?thesis
    using sum_list_map_update [OF i, of worker_work "?w\<lparr>wk_todo := ds\<rparr>"] \<open>ac = []\<close>
    by (simp add: fo_work_def worker_work_def)
qed (use assms(2) in \<open>simp_all add: internal_action_def\<close>)

lemma stuck_drained:
  assumes inv: "fo_inv s" and stuck: "\<And>a. internal_action a \<Longrightarrow> fo_act a s = None"
  shows "in_flight s = []"
proof -
  have idle: "wk_todo w = [] \<and> ch_buf (wk_queue w) = []" if "w \<in> set (fo_workers s)" for w
  proof -
    from that obtain i where i: "i < length (fo_workers s)" and w: "fo_workers s ! i = w"
      by (auto simp: in_set_conv_nth)
    have "worker_handle i s = None" using stuck [of "AWorkerHandle i"] by (simp add: internal_action_def fo_act_def)
    then have todo: "wk_todo w = []" using i w by (auto simp: worker_handle_def split_beta split: list.splits)
    have "worker_recv i s = None" using stuck [of "AWorkerRecv i"] by (simp add: internal_action_def fo_act_def)
    with todo have "ch_buf (wk_queue w) = []" using i w by (auto simp: worker_recv_def channel_recv_def split: list.splits)
    with todo show ?thesis by simp
  qed
  have held: "fo_held s = None"
  proof (rule ccontr)
    assume "fo_held s \<noteq> None"
    then obtain i msg where h: "fo_held s = Some (i, msg)" by auto
    with inv have i: "i < length (fo_workers s)" by (simp add: fo_inv_def)
    then have "ch_buf (wk_queue (fo_workers s ! i)) = []" using idle by simp
    with h fo_inv_worker [OF inv i] have "dispatcher_send s \<noteq> None"
      by (simp add: dispatcher_send_def Let_def try_send_def)
    with stuck [of ASend] show False by (simp add: internal_action_def fo_act_def)
  qed
  have "dispatcher_recv s = None" using stuck [of ARecv] by (simp add: internal_action_def fo_act_def)
  with held inv have "ch_buf (fo_rx s) = []"
    by (auto simp: dispatcher_recv_def channel_recv_def Let_def fo_inv_def split: list.splits)
  with held idle show ?thesis
    by (simp add: in_flight_def held_pending_def rx_pending_def worker_pending_def)
qed

lemma drain_schedule:
  "fo_inv s \<Longrightarrow> \<exists>as dl s'. (\<forall>a \<in> set as. internal_action a) \<and> length as \<le> fo_work s \<and>
     fo_exec as s = Some ([], dl, s') \<and> in_flight s' = [] \<and> mset dl = mset (in_flight s)"
proof (induction "fo_work s" arbitrary: s rule: less_induct)
  case less
  show ?case
  proof (cases "\<exists>a r. internal_action a \<and> fo_act a s = Some r")
    case False
    then have "in_flight s = []" by (intro stuck_drained [OF less.prems]) (metis not_None_eq)
    then show ?thesis by (intro exI [of _ "[]"]) simp
  next
    case True
    then obtain a ac d s1 where a: "internal_action a" and act: "fo_act a s = Some (ac, d, s1)" by auto
    note dec = internal_decreases [OF act a less.prems]
    note eff = act_effect [OF act less.prems]
    from less.hyps [of s1] dec eff obtain as dl s' where as: "\<forall>a \<in> set as. internal_action a"
      "length as \<le> fo_work s1" "fo_exec as s1 = Some ([], dl, s')" "in_flight s' = []" "mset dl = mset (in_flight s1)"
      by blast
    then show ?thesis
      using a act dec eff by (intro exI [of _ "a # as"] exI [of _ "d @ dl"] exI [of _ s']) auto
  qed
qed

definition demo_batch :: "u64 \<Rightarrow> DispatchMessage" where
  "demo_batch n = DispatchBatch ((demo_event ''a'' ''e'')\<lparr>ev_sequence := n\<rparr>)
     [(ConnectionId 2, SubscriptionId ''s'')]"

definition demo_pool :: "nat \<Rightarrow> FanOut" where
  "demo_pool workers = fanout_start None workers metrics_default (demo_cm 8 DropNewest)"

definition demo_schedule :: "nat \<Rightarrow> nat \<Rightarrow> fo_action list" where
  "demo_schedule i j = [ASubmit (demo_batch 1), ASubmit (demo_batch 2), ARecv, ASend, ARecv, ASend,
     AWorkerRecv i, AWorkerHandle i, AWorkerRecv j, AWorkerHandle j]"

lemmas eval_fanout = eval_gateway demo_batch_def demo_pool_def demo_schedule_def fanout_start_def
  fanout_worker_count_def fo_act_def fo_submit_def dispatcher_recv_def dispatcher_send_def
  worker_recv_def worker_handle_def channel_recv_def message_targets_def

lemma demo_partial:
  assumes "w \<in> {1, 2}"
  shows "\<exists>acc dl s. fanout_run (fanout_start None w metrics_default (demo_cm 8 DropNewest)) acc dl s \<and>
     map (ev_sequence \<circ> ld_event) acc = [1, 2] \<and> map (ev_sequence \<circ> ld_event) dl = [1]"
proof -
  have "case fo_exec (take 8 (demo_schedule 0 0)) (demo_pool w) of None \<Rightarrow> False
    | Some (acc, dl, s) \<Rightarrow> map (ev_sequence \<circ> ld_event) acc = [1, 2] \<and> map (ev_sequence \<circ> ld_event) dl = [1]"
    using assms by (auto simp: eval_fanout numeral_2_eq_2)
  then obtain acc dl s where run: "fo_exec (take 8 (demo_schedule 0 0)) (demo_pool w) = Some (acc, dl, s)"
    and "map (ev_sequence \<circ> ld_event) acc = [1, 2]" "map (ev_sequence \<circ> ld_event) dl = [1]"
    by (auto split: option.splits prod.splits)
  with fo_exec_run [OF run] show ?thesis
    unfolding demo_pool_def by (intro exI [of _ acc] exI [of _ dl] exI [of _ s]) simp
qed

text \<open>The events a schedule leaves in the send queue of connection 2, by sequence number.\<close>

definition queued_seqs :: "FanOut \<Rightarrow> u64 list" where
  "queued_seqs s = (case cm_queue (fo_conn_manager s) (ConnectionId 2) of None \<Rightarrow> []
     | Some q \<Rightarrow> map (ev_sequence \<circ> snd) (ch_buf q))"

subsection \<open>Properties\<close>

text \<open>
  C21: The fan-out neither loses nor duplicates a delivery.  In every interleaving of the router, the
  dispatcher, any number of workers and the connection tasks, the targets of the messages accepted by
  the dispatch channel are, as a multiset, those already delivered together with those under way, and
  the four metrics counters together count exactly the deliveries made.
\<close>

theorem fanout_conserves:
  assumes "fanout_run (fanout_start parallelism n m cm) acc dl s"
    and "cm_inv cm" and "0 < fanout_worker_count parallelism n"
  shows "mset dl + mset (in_flight s) = mset acc \<and>
    metrics_total (fo_metrics s) = metrics_total m + of_nat (length dl)"
  using run_effect [OF assms(1) fanout_start_inv [OF assms(2,3)] fanout_start_in_flight]
  by (simp add: fanout_start_def)

theorem fanout_conserves_witness:
  "\<exists>acc dl s. fanout_run (fanout_start None 2 metrics_default (demo_cm 8 DropNewest)) acc dl s \<and>
     length acc = 2 \<and> length dl = 1 \<and> mset dl + mset (in_flight s) = mset acc \<and>
     metrics_total (fo_metrics s) = 1"
proof -
  obtain acc dl s where run: "fanout_run (fanout_start None 2 metrics_default (demo_cm 8 DropNewest)) acc dl s"
    and acc: "map (ev_sequence \<circ> ld_event) acc = [1, 2]" and dl: "map (ev_sequence \<circ> ld_event) dl = [1]"
    using demo_partial [of 2] by auto
  have "length acc = 2" "length dl = 1" using acc [THEN arg_cong, of length] dl [THEN arg_cong, of length] by simp_all
  with fanout_conserves [OF run demo_cm_inv] run show ?thesis
    by (intro exI [of _ acc] exI [of _ dl] exI [of _ s])
      (simp add: fanout_worker_count_def metrics_total_def metrics_default_def)
qed

text \<open>
  C22: The fan-out drains.  From every reachable state at most \<open>fo_work\<close> steps of the dispatcher and the
  workers deliver everything under way; every such step, in whatever order they are scheduled, brings
  that bound down, and they stop only when nothing is left, so no schedule deadlocks or livelocks.
\<close>

theorem fanout_drains:
  assumes "fanout_run (fanout_start parallelism n m cm) acc dl0 s"
    and "cm_inv cm" and "0 < fanout_worker_count parallelism n"
  shows "(\<exists>as dl s'. fo_exec as s = Some ([], dl, s') \<and> length as \<le> fo_work s \<and> in_flight s' = [] \<and>
       mset (dl0 @ dl) = mset acc) \<and>
    (\<forall>a ac d s'. internal_action a \<longrightarrow> fo_act a s = Some (ac, d, s') \<longrightarrow> fo_work s' < fo_work s) \<and>
    ((\<forall>a. internal_action a \<longrightarrow> fo_act a s = None) \<longrightarrow> in_flight s = [])"
proof -
  note e = run_effect [OF assms(1) fanout_start_inv [OF assms(2,3)] fanout_start_in_flight]
  then have inv: "fo_inv s" by simp
  obtain as dl s' where "fo_exec as s = Some ([], dl, s')" "length as \<le> fo_work s" "in_flight s' = []"
    "mset dl = mset (in_flight s)"
    using drain_schedule [OF inv] by blast
  with e have "\<exists>as dl s'. fo_exec as s = Some ([], dl, s') \<and> length as \<le> fo_work s \<and> in_flight s' = [] \<and>
       mset (dl0 @ dl) = mset acc" by (metis mset_append)
  then show ?thesis using internal_decreases [OF _ _ inv] stuck_drained [OF inv] by blast
qed

theorem fanout_drains_witness:
  "\<exists>acc dl0 s as dl s'. fanout_run (fanout_start None 2 metrics_default (demo_cm 8 DropNewest)) acc dl0 s \<and>
     length acc = 2 \<and> length dl0 = 1 \<and> fo_exec as s = Some ([], dl, s') \<and> mset (dl0 @ dl) = mset acc"
proof -
  obtain acc dl0 s where run: "fanout_run (fanout_start None 2 metrics_default (demo_cm 8 DropNewest)) acc dl0 s"
    and acc: "map (ev_sequence \<circ> ld_event) acc = [1, 2]" and dl: "map (ev_sequence \<circ> ld_event) dl0 = [1]"
    using demo_partial [of 2] by auto
  have "length acc = 2" "length dl0 = 1" using acc [THEN arg_cong, of length] dl [THEN arg_cong, of length] by simp_all
  moreover have "0 < fanout_worker_count None 2" by (simp add: fanout_worker_count_def)
  ultimately show ?thesis using fanout_drains [OF run demo_cm_inv] run by blast
qed

text \<open>
  One worker keeps the order.  With a single worker the deliveries made are, in order, a prefix of
  the targets the router handed over, so a connection's events enter its queue in routing order.
\<close>

theorem single_worker_order:
  assumes "fanout_run (fanout_start parallelism n m cm) acc dl s"
    and "cm_inv cm" and "fanout_worker_count parallelism n = 1"
  shows "acc = dl @ in_flight s"
proof -
  have "length (fo_workers (fanout_start parallelism n m cm)) = 1"
    using assms(3) by (simp add: fanout_start_def)
  with run_effect [OF assms(1) fanout_start_inv [OF assms(2)] fanout_start_in_flight] assms(3)
  show ?thesis by simp
qed

theorem single_worker_order_witness:
  "\<exists>acc dl s. fanout_run (fanout_start None 1 metrics_default (demo_cm 8 DropNewest)) acc dl s \<and>
     map (ev_sequence \<circ> ld_event) acc = [1, 2] \<and> map (ev_sequence \<circ> ld_event) (in_flight s) = [2]"
proof -
  obtain acc dl s where run: "fanout_run (fanout_start None 1 metrics_default (demo_cm 8 DropNewest)) acc dl s"
    and acc: "map (ev_sequence \<circ> ld_event) acc = [1, 2]" and dl: "map (ev_sequence \<circ> ld_event) dl = [1]"
    using demo_partial [of 1] by auto
  have "fanout_worker_count None 1 = 1" by (simp add: fanout_worker_count_def)
  from single_worker_order [OF run demo_cm_inv this] acc dl run show ?thesis
    by (intro exI [of _ acc] exI [of _ dl] exI [of _ s]) auto
qed

text \<open>
  Two workers can reorder a topic.  With two workers there is an interleaving in which two events of
  one topic, routed in sequence order 1 then 2 to the same connection, enter that connection's queue as 2
  then 1.
\<close>

theorem two_workers_reorder:
  "\<exists>acc dl s. fanout_run (demo_pool 2) acc dl s \<and> map (ev_sequence \<circ> ld_event) acc = [1, 2] \<and>
     in_flight s = [] \<and> queued_seqs s = [2, 1]"
proof -
  have "case fo_exec (demo_schedule 1 0) (demo_pool 2) of None \<Rightarrow> False
    | Some (acc, dl, s) \<Rightarrow> map (ev_sequence \<circ> ld_event) acc = [1, 2] \<and> in_flight s = [] \<and> queued_seqs s = [2, 1]"
    by (simp add: eval_fanout numeral_2_eq_2 in_flight_def worker_pending_def held_pending_def rx_pending_def
        queued_seqs_def)
  then obtain acc dl s where run: "fo_exec (demo_schedule 1 0) (demo_pool 2) = Some (acc, dl, s)"
    and "map (ev_sequence \<circ> ld_event) acc = [1, 2]" "in_flight s = []" "queued_seqs s = [2, 1]"
    by (auto simp del: One_nat_def split: option.splits prod.splits)
  with fo_exec_run [OF run] show ?thesis by (intro exI [of _ acc] exI [of _ dl] exI [of _ s]) simp
qed

end
