(* ===== verification/Rt_Presence.thy ===== *)
theory Rt_Presence
  imports Rt_Router
begin

text \<open>
  Presence: the in-process tracker (\<open>crates/realtime-engine/src/presence.rs\<close>) and the shared store
  over Redis hashes (\<open>crates/realtime-gateway/src/presence_shared.rs\<close>), behind one interface.  Redis
  is modelled by the documented effect of the commands the code sends.  Lemmas: both stores behave
  like a map from topic and connection to member, and the tracker keeps no empty topic.
\<close>

subsection \<open>Members (realtime-core/src/protocol.rs) and the interface\<close>

record PresenceMember =
  pm_conn_id :: string
  pm_user_id :: "string option"
  pm_meta :: json

locale presence_store =
  fixes track :: "string \<Rightarrow> 'i \<Rightarrow> PresenceMember \<Rightarrow> 's \<Rightarrow> 's"
    and untrack :: "string \<Rightarrow> 'i \<Rightarrow> 's \<Rightarrow> 's"
    and member_at :: "'s \<Rightarrow> string \<Rightarrow> 'i \<Rightarrow> PresenceMember option"
    and inv :: "'s \<Rightarrow> bool"
  assumes track_at: "inv s \<Longrightarrow> member_at (track t i m s) t' i' = (if t' = t \<and> i' = i then Some m else member_at s t' i')"
    and untrack_at: "inv s \<Longrightarrow> member_at (untrack t i s) t' i' = (if t' = t \<and> i' = i then None else member_at s t' i')"
    and track_inv: "inv s \<Longrightarrow> inv (track t i m s)"
    and untrack_inv: "inv s \<Longrightarrow> inv (untrack t i s)"
begin

lemma track_untrack:
  "inv s \<Longrightarrow> member_at s t i = None \<Longrightarrow> member_at (untrack t i (track t i m s)) = member_at s"
  by (intro ext) (simp add: track_at untrack_at track_inv)

lemma track_last_wins:
  "inv s \<Longrightarrow> member_at (track t i m' (track t i m s)) = member_at (track t i m' s)"
  by (intro ext) (simp add: track_at track_inv)

lemma untrack_idem: "inv s \<Longrightarrow> member_at (untrack t i (untrack t i s)) = member_at (untrack t i s)"
  by (intro ext) (simp add: untrack_at untrack_inv)

lemma fold_untrack:
  "inv s \<Longrightarrow> inv (fold (\<lambda>t. untrack t i) ts s) \<and>
    member_at (fold (\<lambda>t. untrack t i) ts s) t' i' =
      (if t' \<in> set ts \<and> i' = i then None else member_at s t' i')"
  by (induction ts arbitrary: s) (auto simp: untrack_at untrack_inv)

lemma topics_apart: "inv s \<Longrightarrow> t' \<noteq> t \<Longrightarrow> member_at (track t i m s) t' = member_at s t'"
  by (intro ext) (simp add: track_at)

end

subsection \<open>The in-process tracker (presence.rs)\<close>

type_synonym PresenceTracker = "(string, (u64, PresenceMember) dashmap) dashmap"

definition presence_values :: "(u64, PresenceMember) dashmap \<Rightarrow> PresenceMember list" where
  "presence_values m = map snd m"

definition presence_track ::
    "string \<Rightarrow> ConnectionId \<Rightarrow> PresenceMember \<Rightarrow> PresenceTracker \<Rightarrow> PresenceMember list \<times> PresenceTracker" where
  "presence_track topic conn_id member p =
     (let p = dm_entry topic [] (dm_insert (conn_raw conn_id) member) p;
          entry = (case dm_get p topic of None \<Rightarrow> [] | Some e \<Rightarrow> e)
      in (presence_values entry, p))"

definition presence_untrack ::
    "string \<Rightarrow> ConnectionId \<Rightarrow> PresenceTracker \<Rightarrow> PresenceMember list option \<times> PresenceTracker" where
  "presence_untrack topic conn_id p =
     (case dm_get p topic of
        None \<Rightarrow> (None, p)
      | Some entry \<Rightarrow>
          let removed = dm_contains entry (conn_raw conn_id);
              entry = dm_remove (conn_raw conn_id) entry;
              p = dm_insert topic entry p;
              remaining = presence_values entry;
              p = (if remaining = []
                   then (case dm_get p topic of None \<Rightarrow> p
                         | Some members \<Rightarrow> if members = [] then dm_remove topic p else p)
                   else p)
          in (if removed then Some remaining else None, p))"

fun presence_leave_all ::
    "ConnectionId \<Rightarrow> string list \<Rightarrow> PresenceTracker
      \<Rightarrow> (string \<times> PresenceMember list) list \<times> PresenceTracker" where
  "presence_leave_all conn_id [] p = ([], p)"
| "presence_leave_all conn_id (topic # topics) p =
     (let (left, p) = presence_untrack topic conn_id p;
          (affected, p) = presence_leave_all conn_id topics p
      in (case left of Some remaining \<Rightarrow> (topic, remaining) # affected | None \<Rightarrow> affected, p))"

definition presence_remove_connection ::
    "ConnectionId \<Rightarrow> PresenceTracker \<Rightarrow> (string \<times> PresenceMember list) list \<times> PresenceTracker" where
  "presence_remove_connection conn_id p = presence_leave_all conn_id (dm_keys p) p"

definition presence_members :: "string \<Rightarrow> PresenceTracker \<Rightarrow> PresenceMember list" where
  "presence_members topic p = (case dm_get p topic of None \<Rightarrow> [] | Some e \<Rightarrow> presence_values e)"

definition presence_topic_count :: "PresenceTracker \<Rightarrow> nat" where
  "presence_topic_count p = dm_len p"

definition presence_at :: "PresenceTracker \<Rightarrow> string \<Rightarrow> u64 \<Rightarrow> PresenceMember option" where
  "presence_at p topic c = (case dm_get p topic of None \<Rightarrow> None | Some e \<Rightarrow> dm_get e c)"

text \<open>Keys are unique at both levels and no topic is empty.\<close>

definition presence_inv :: "PresenceTracker \<Rightarrow> bool" where
  "presence_inv p = (dm_wf p \<and> (\<forall>t e. dm_get p t = Some e \<longrightarrow> dm_wf e \<and> e \<noteq> []))"

lemma dm_insert_nonempty [simp]: "dm_insert k v m \<noteq> []"
  by (cases m) (auto simp: dm_insert_def)

lemma dm_get_eq_Nil: "m = [] \<longleftrightarrow> (\<forall>k. dm_get m k = None)"
  by (cases m) (auto simp: dm_get_def)

interpretation local: presence_store
    "\<lambda>t c m p. snd (presence_track t (ConnectionId c) m p)"
    "\<lambda>t c p. snd (presence_untrack t (ConnectionId c) p)" presence_at presence_inv
proof unfold_locales
  fix p :: PresenceTracker and t t' :: string and i i' :: u64 and m :: PresenceMember
  assume inv: "presence_inv p"
  show "presence_at (snd (presence_track t (ConnectionId i) m p)) t' i' =
      (if t' = t \<and> i' = i then Some m else presence_at p t' i')"
    by (auto simp: presence_at_def presence_track_def Let_def split: option.split)
  show "presence_inv (snd (presence_track t (ConnectionId i) m p))"
    using inv by (auto simp: presence_inv_def presence_track_def Let_def split: option.split)
  show "presence_at (snd (presence_untrack t (ConnectionId i) p)) t' i' =
      (if t' = t \<and> i' = i then None else presence_at p t' i')"
    by (auto simp: presence_at_def presence_untrack_def presence_values_def Let_def dm_get_eq_Nil
        split: option.split if_splits)
  show "presence_inv (snd (presence_untrack t (ConnectionId i) p))"
    using inv by (auto simp: presence_inv_def presence_untrack_def presence_values_def Let_def
        split: option.split if_splits)
qed

lemma presence_leave_all_eq:
  "snd (presence_leave_all (ConnectionId c) ts p) =
     fold (\<lambda>t p. snd (presence_untrack t (ConnectionId c) p)) ts p"
  by (induction ts arbitrary: p) (auto simp: Let_def split_beta)

lemma presence_leave_all_affected:
  "presence_inv p \<Longrightarrow> distinct ts \<Longrightarrow>
   fst (presence_leave_all (ConnectionId c) ts p) =
     map (\<lambda>t. (t, map snd (dm_remove c (the (dm_get p t)))))
       (filter (\<lambda>t. presence_at p t c \<noteq> None) ts)"
proof (induction ts arbitrary: p)
  case (Cons t ts)
  let ?p = "snd (presence_untrack t (ConnectionId c) p)"
  have keep: "dm_get ?p s = dm_get p s" if "s \<noteq> t" for s
    using that by (auto simp: presence_untrack_def Let_def split: option.split)
  then have at: "presence_at ?p s = presence_at p s" if "s \<noteq> t" for s
    using that by (simp add: presence_at_def fun_eq_iff)
  have "filter (\<lambda>s. presence_at ?p s c \<noteq> None) ts = filter (\<lambda>s. presence_at p s c \<noteq> None) ts"
  proof (rule filter_cong [OF refl])
    fix s assume "s \<in> set ts"
    with Cons.prems(2) have "s \<noteq> t" by auto
    then show "(presence_at ?p s c \<noteq> None) = (presence_at p s c \<noteq> None)" by (simp add: at)
  qed
  moreover have "map (\<lambda>s. (s, map snd (dm_remove c (the (dm_get ?p s)))))
      (filter (\<lambda>s. presence_at p s c \<noteq> None) ts) =
    map (\<lambda>s. (s, map snd (dm_remove c (the (dm_get p s)))))
      (filter (\<lambda>s. presence_at p s c \<noteq> None) ts)"
  proof (rule map_cong [OF refl])
    fix s assume "s \<in> set (filter (\<lambda>s. presence_at p s c \<noteq> None) ts)"
    with Cons.prems(2) have "s \<noteq> t" by auto
    then show "(s, map snd (dm_remove c (the (dm_get ?p s)))) = (s, map snd (dm_remove c (the (dm_get p s))))"
      by (simp only: keep not_False_eq_True)
  qed
  moreover have "presence_inv ?p" using local.untrack_inv [OF Cons.prems(1)] by simp
  ultimately have rest: "fst (presence_leave_all (ConnectionId c) ts ?p) =
      map (\<lambda>s. (s, map snd (dm_remove c (the (dm_get p s)))))
        (filter (\<lambda>s. presence_at p s c \<noteq> None) ts)"
    using Cons.IH [of ?p] Cons.prems(2) by simp
  have "fst (presence_untrack t (ConnectionId c) p) =
      (if presence_at p t c = None then None else Some (map snd (dm_remove c (the (dm_get p t)))))"
    by (auto simp: presence_untrack_def presence_at_def dm_contains_def presence_values_def Let_def
        split: option.split)
  with rest show ?case by (auto simp: Let_def split_beta)
qed simp

lemma presence_inv_fold_untrack:
  "presence_inv p \<Longrightarrow> presence_inv (snd (presence_leave_all (ConnectionId c) ts p)) \<and>
   presence_at (snd (presence_leave_all (ConnectionId c) ts p)) t' i' =
     (if t' \<in> set ts \<and> i' = c then None else presence_at p t' i')"
  unfolding presence_leave_all_eq by (rule local.fold_untrack)

lemma presence_at_key: "presence_at p t c \<noteq> None \<Longrightarrow> t \<in> set (dm_keys p)"
  by (force simp: presence_at_def dm_keys_def dm_get_def dest: map_of_SomeD split: option.splits)

subsection \<open>Properties\<close>

lemma presence_cleared:
  assumes "presence_inv p" and "presence_remove_connection (ConnectionId c) p = (affected, p')"
  shows "presence_inv p' \<and>
    (\<forall>t i. presence_at p' t i = (if i = c then None else presence_at p t i)) \<and>
    set (map fst affected) = {t. presence_at p t c \<noteq> None} \<and> distinct (map fst affected) \<and>
    (\<forall>t ms. (t, ms) \<in> set affected \<longrightarrow> set ms = {m. \<exists>i. presence_at p' t i = Some m}) \<and>
    (\<forall>t e. dm_get p' t = Some e \<longrightarrow> e \<noteq> [])"
proof -
  let ?ts = "dm_keys p"
  have dist: "distinct ?ts" using assms(1) by (simp add: presence_inv_def dm_wf_def dm_keys_def)
  have p': "p' = snd (presence_leave_all (ConnectionId c) ?ts p)"
    and aff: "affected = map (\<lambda>t. (t, map snd (dm_remove c (the (dm_get p t)))))
       (filter (\<lambda>t. presence_at p t c \<noteq> None) ?ts)"
    using assms(2) presence_leave_all_affected [OF assms(1) dist, of c]
    by (simp_all add: presence_remove_connection_def)
  have inv: "presence_inv p'"
    using presence_inv_fold_untrack [OF assms(1), of c ?ts] unfolding p' by blast
  have at: "presence_at p' t i = (if i = c then None else presence_at p t i)" for t i
  proof -
    have "presence_at p' t i = (if t \<in> set ?ts \<and> i = c then None else presence_at p t i)"
      using presence_inv_fold_untrack [OF assms(1), of c ?ts t i] unfolding p' by blast
    moreover have "t \<notin> set ?ts \<Longrightarrow> presence_at p t i = None" using presence_at_key by blast
    ultimately show ?thesis by (cases "t \<in> set ?ts"; cases "i = c") simp_all
  qed
  have ms: "set (map snd (dm_remove c e)) = {m. \<exists>i. presence_at p' t i = Some m}"
    if "dm_get p t = Some e" for t e
  proof -
    have "dm_wf (dm_remove c e)" using assms(1) that by (auto simp: presence_inv_def)
    then have "set (map snd (dm_remove c e)) = {m. \<exists>i. dm_get (dm_remove c e) i = Some m}"
      by (force simp: dm_wf_def dm_get_def)
    moreover have "presence_at p' t i = dm_get (dm_remove c e) i" for i
      by (simp add: at) (simp add: presence_at_def that)
    ultimately show ?thesis by simp
  qed
  have "set (map fst affected) = {t. presence_at p t c \<noteq> None}"
    using presence_at_key [of p _ c] by (force simp: aff)
  moreover have "distinct (map fst affected)"
    using dist by (simp add: aff comp_def)
  moreover have "set qs = {m. \<exists>i. presence_at p' t i = Some m}" if "(t, qs) \<in> set affected" for t qs
  proof -
    from that have "presence_at p t c \<noteq> None" and qs: "qs = map snd (dm_remove c (the (dm_get p t)))"
      by (auto simp: aff)
    then obtain e where "dm_get p t = Some e" by (auto simp: presence_at_def split: option.splits)
    with ms [OF this] qs show ?thesis by simp
  qed
  ultimately show ?thesis using inv at by (auto simp: presence_inv_def)
qed

text \<open>
  A disconnect clears every topic.  Removing a connection takes it out of the presence set of each
  topic it had joined and out of nothing else: the other members stay, the returned list names exactly
  those topics with the members that remain, and no topic with an empty set is kept, so the tracker
  does not grow with connections that have gone.
\<close>

theorem presence_disconnect_clears:
  assumes "presence_inv p" and "presence_remove_connection (ConnectionId c) p = (affected, p')"
  shows "presence_inv p' \<and>
    (\<forall>t i. presence_at p' t i = (if i = c then None else presence_at p t i)) \<and>
    set (map fst affected) = {t. presence_at p t c \<noteq> None} \<and> distinct (map fst affected) \<and>
    (\<forall>t ms. (t, ms) \<in> set affected \<longrightarrow> set ms = {m. \<exists>i. presence_at p' t i = Some m}) \<and>
    (\<forall>t e. dm_get p' t = Some e \<longrightarrow> e \<noteq> [])"
  by (rule presence_cleared [OF assms])

definition demo_pm :: "u64 \<Rightarrow> PresenceMember" where
  "demo_pm c = \<lparr>pm_conn_id = show_conn_id (ConnectionId c), pm_user_id = None, pm_meta = JNull\<rparr>"

definition demo_presence :: PresenceTracker where
  "demo_presence = snd (presence_track ''a'' (ConnectionId 2) (demo_pm 2)
     (snd (presence_track ''b'' (ConnectionId 1) (demo_pm 1)
       (snd (presence_track ''a'' (ConnectionId 1) (demo_pm 1) [])))))"

lemma demo_presence_inv: "presence_inv demo_presence"
  unfolding demo_presence_def
  by (intro local.track_inv) (simp add: presence_inv_def)

theorem presence_disconnect_clears_witness:
  "\<exists>affected p'. presence_remove_connection (ConnectionId 1) demo_presence = (affected, p') \<and>
     presence_at p' ''a'' 1 = None \<and> presence_at p' ''a'' 2 = Some (demo_pm 2) \<and>
     ''b'' \<in> set (map fst affected)"
proof -
  obtain affected p' where r: "presence_remove_connection (ConnectionId 1) demo_presence = (affected, p')" by fastforce
  have at: "presence_at demo_presence ''a'' 2 = Some (demo_pm 2)" "presence_at demo_presence ''b'' 1 = Some (demo_pm 1)"
    by (simp_all add: demo_presence_def presence_at_def presence_track_def Let_def)
  note c = presence_disconnect_clears [OF demo_presence_inv r]
  from c have "presence_at p' t i = (if i = 1 then None else presence_at demo_presence t i)" for t i by blast
  moreover from c have "set (map fst affected) = {t. presence_at demo_presence t 1 \<noteq> None}" by blast
  ultimately show ?thesis using r at by simp
qed

text \<open>
  Joining and leaving.  Tracking makes the member the topic's entry of that connection, so a repeated
  track replaces the metadata and never lists a connection twice, and returns the topic's members;
  untracking returns the remaining members exactly when the connection was present, and otherwise changes
  nobody's presence.
\<close>

theorem presence_join_leave:
  assumes "presence_inv p"
  shows "fst (presence_track t (ConnectionId c) m p) = presence_members t (snd (presence_track t (ConnectionId c) m p)) \<and>
    (\<forall>t' i. presence_at (snd (presence_track t (ConnectionId c) m p)) t' i =
       (if t' = t \<and> i = c then Some m else presence_at p t' i)) \<and>
    (fst (presence_untrack t (ConnectionId c) p) = None \<longleftrightarrow> presence_at p t c = None) \<and>
    (\<forall>t' i. presence_at (snd (presence_untrack t (ConnectionId c) p)) t' i =
       (if t' = t \<and> i = c then None else presence_at p t' i)) \<and>
    (\<forall>ms. fst (presence_untrack t (ConnectionId c) p) = Some ms \<longrightarrow>
       ms = presence_members t (snd (presence_untrack t (ConnectionId c) p)))"
proof -
  have "fst (presence_track t (ConnectionId c) m p) = presence_members t (snd (presence_track t (ConnectionId c) m p))"
    by (simp add: presence_track_def presence_members_def Let_def)
  moreover have "fst (presence_untrack t (ConnectionId c) p) = None \<longleftrightarrow> presence_at p t c = None"
    by (auto simp: presence_untrack_def presence_at_def dm_contains_def Let_def split: option.split)
  moreover have "ms = presence_members t (snd (presence_untrack t (ConnectionId c) p))"
    if "fst (presence_untrack t (ConnectionId c) p) = Some ms" for ms
    using that by (auto simp: presence_untrack_def presence_members_def presence_values_def Let_def
        split: option.splits if_splits)
  ultimately show ?thesis
    using local.track_at [OF assms, of t c m] local.untrack_at [OF assms, of t c] by blast
qed

theorem presence_join_leave_witness:
  "presence_at (snd (presence_untrack ''b'' (ConnectionId 1) demo_presence)) ''b'' 1 = None \<and>
   presence_at (snd (presence_untrack ''b'' (ConnectionId 1) demo_presence)) ''a'' 1 = Some (demo_pm 1)"
proof -
  have "presence_at demo_presence ''a'' 1 = Some (demo_pm 1)"
    by (simp add: demo_presence_def presence_at_def presence_track_def Let_def)
  moreover have "presence_at (snd (presence_untrack ''b'' (ConnectionId 1) demo_presence)) t' i =
       (if t' = ''b'' \<and> i = 1 then None else presence_at demo_presence t' i)" for t' i
    using presence_join_leave [OF demo_presence_inv, of "''b''" 1] by blast
  ultimately show ?thesis by simp
qed

end
