(* ===== verification/Rt_Presence_Shared.thy ===== *)
theory Rt_Presence_Shared
  imports Rt_Presence Rt_Gateway
begin

text \<open>
  The cross-node presence store (\<open>crates/realtime-gateway/src/presence_shared.rs\<close>): one Redis hash per
  topic.  Redis is a service outside the repository, so its commands and its state are parameters, and
  what the code relies on is the hypothesis \<open>redis_contract\<close>, the documented effect of the hash
  commands on a healthy server.  The JSON text of a member is a parameter too.  A call is one step here;
  \<open>Rt_Shared_Tasks\<close> interleaves its round trips.  Lemmas: on a healthy server that serves one call at a
  time the store obeys the presence laws of the in-process tracker, but two nodes that hand out
  the same connection number overwrite each other's members.
\<close>

subsection \<open>The service\<close>

text \<open>Each command answers and may change the service's state.  \<open>rd_connect\<close> is the lazily opened
  connection, \<open>rd_hset_expire\<close> the atomic pipeline of \<open>HSET\<close> and \<open>EXPIRE\<close>.\<close>

record 'r Redis =
  rd_connect :: "'r \<Rightarrow> bool \<times> 'r"
  rd_hset_expire :: "string \<Rightarrow> string \<Rightarrow> string \<Rightarrow> u64 \<Rightarrow> 'r \<Rightarrow> bool \<times> 'r"
  rd_hdel :: "string \<Rightarrow> string \<Rightarrow> 'r \<Rightarrow> bool \<times> 'r"
  rd_hlen :: "string \<Rightarrow> 'r \<Rightarrow> u64 option \<times> 'r"
  rd_del :: "string \<Rightarrow> 'r \<Rightarrow> bool \<times> 'r"
  rd_hvals :: "string \<Rightarrow> 'r \<Rightarrow> string list option \<times> 'r"
  rd_scan :: "u64 \<Rightarrow> string \<Rightarrow> u64 \<Rightarrow> 'r \<Rightarrow> (u64 \<times> string list) option \<times> 'r"
  rd_ping :: "'r \<Rightarrow> bool \<times> 'r"

text \<open>\<open>serde_json\<close> on members.\<close>

record MemberCodec =
  mc_to_string :: "PresenceMember \<Rightarrow> string option"
  mc_from_str :: "string \<Rightarrow> PresenceMember option"

subsection \<open>The store\<close>

record SharedPresence =
  sp_url :: string
  sp_prefix :: string

definition PRESENCE_KEY_PREFIX :: string where
  "PRESENCE_KEY_PREFIX = ''presence''"

definition PRESENCE_TTL_SECS :: u64 where
  "PRESENCE_TTL_SECS = 120"

definition shared_new :: "string \<Rightarrow> SharedPresence" where
  "shared_new url = \<lparr>sp_url = url, sp_prefix = PRESENCE_KEY_PREFIX\<rparr>"

definition shared_with_prefix :: "string \<Rightarrow> SharedPresence \<Rightarrow> SharedPresence" where
  "shared_with_prefix prefix sp = (if trim prefix \<noteq> [] then sp\<lparr>sp_prefix := prefix\<rparr> else sp)"

definition shared_key :: "SharedPresence \<Rightarrow> string \<Rightarrow> string" where
  "shared_key sp topic = sp_prefix sp @ '':'' @ topic"

definition shared_track ::
    "'r Redis \<Rightarrow> MemberCodec \<Rightarrow> SharedPresence \<Rightarrow> string \<Rightarrow> PresenceMember \<Rightarrow> 'r \<Rightarrow> 'r" where
  "shared_track R mc sp topic member r =
     (let (connected, r) = rd_connect R r in
      if \<not> connected then r
      else case mc_to_string mc member of
             None \<Rightarrow> r
           | Some value \<Rightarrow>
               snd (rd_hset_expire R (shared_key sp topic) (pm_conn_id member) value PRESENCE_TTL_SECS r))"

text \<open>Delete a field and prune the key when it is empty: \<open>untrack\<close> stops at a failed \<open>HDEL\<close>, the scan
  of \<open>remove_connection\<close> does not.\<close>

definition shared_prune :: "'r Redis \<Rightarrow> string \<Rightarrow> 'r \<Rightarrow> 'r" where
  "shared_prune R key r =
     (let (len, r) = rd_hlen R key r in if len = Some 0 then snd (rd_del R key r) else r)"

definition shared_untrack :: "'r Redis \<Rightarrow> SharedPresence \<Rightarrow> string \<Rightarrow> string \<Rightarrow> 'r \<Rightarrow> 'r" where
  "shared_untrack R sp topic conn_id r =
     (let (connected, r) = rd_connect R r in
      if \<not> connected then r
      else let key = shared_key sp topic; (ok, r) = rd_hdel R key conn_id r
           in if \<not> ok then r else shared_prune R key r)"

definition shared_members ::
    "'r Redis \<Rightarrow> MemberCodec \<Rightarrow> SharedPresence \<Rightarrow> string \<Rightarrow> 'r \<Rightarrow> PresenceMember list \<times> 'r" where
  "shared_members R mc sp topic r =
     (let (connected, r) = rd_connect R r in
      if \<not> connected then ([], r)
      else case rd_hvals R (shared_key sp topic) r of
             (Some vals, r) \<Rightarrow> (List.map_filter (mc_from_str mc) vals, r)
           | (None, r) \<Rightarrow> ([], r))"

definition shared_drop_field :: "'r Redis \<Rightarrow> string \<Rightarrow> string \<Rightarrow> 'r \<Rightarrow> 'r" where
  "shared_drop_field R conn_id key r = (let (_, r) = rd_hdel R key conn_id r in shared_prune R key r)"

text \<open>The \<open>SCAN\<close> loop ends when the server returns cursor 0; a server that never does keeps it
  running, which is \<open>None\<close>.\<close>

partial_function (option) shared_scan ::
    "'r Redis \<Rightarrow> string \<Rightarrow> string \<Rightarrow> u64 \<Rightarrow> 'r \<Rightarrow> 'r option" where
  "shared_scan R pattern conn_id cursor r =
     (case rd_scan R cursor pattern 100 r of
        (None, r) \<Rightarrow> Some r
      | (Some (next, keys), r) \<Rightarrow>
          let r = fold (shared_drop_field R conn_id) keys r
          in if next = 0 then Some r else shared_scan R pattern conn_id next r)"

definition shared_remove_connection :: "'r Redis \<Rightarrow> SharedPresence \<Rightarrow> string \<Rightarrow> 'r \<Rightarrow> 'r option" where
  "shared_remove_connection R sp conn_id r =
     (let (connected, r) = rd_connect R r in
      if \<not> connected then Some r
      else shared_scan R (sp_prefix sp @ '':*'') conn_id 0 r)"

definition shared_ping :: "'r Redis \<Rightarrow> 'r \<Rightarrow> bool \<times> 'r" where
  "shared_ping R r = (let (connected, r) = rd_connect R r in if \<not> connected then (False, r) else rd_ping R r)"

subsection \<open>The contract of the service\<close>

text \<open>\<open>hash r k f\<close>: the value of field \<open>f\<close> of the hash at key \<open>k\<close>; \<open>up r\<close>: the server answers.  Expiry
  is not part of this contract; \<open>redis_server\<close> in \<open>Rt_Shared_Tasks\<close> adds it.\<close>

definition redis_contract ::
    "'r Redis \<Rightarrow> ('r \<Rightarrow> string \<Rightarrow> string \<Rightarrow> string option) \<Rightarrow> ('r \<Rightarrow> bool) \<Rightarrow> bool" where
  "redis_contract R hash up = (\<forall>r. up r \<longrightarrow>
     (fst (rd_connect R r) \<and> up (snd (rd_connect R r)) \<and> hash (snd (rd_connect R r)) = hash r) \<and>
     (\<forall>k f v ttl. fst (rd_hset_expire R k f v ttl r) \<and> up (snd (rd_hset_expire R k f v ttl r)) \<and>
        hash (snd (rd_hset_expire R k f v ttl r)) = (hash r)(k := (hash r k)(f := Some v))) \<and>
     (\<forall>k f. fst (rd_hdel R k f r) \<and> up (snd (rd_hdel R k f r)) \<and>
        hash (snd (rd_hdel R k f r)) = (hash r)(k := (hash r k)(f := None))) \<and>
     (\<forall>k. fst (rd_hlen R k r) \<noteq> None \<and> (fst (rd_hlen R k r) = Some 0 \<longleftrightarrow> hash r k = Map.empty) \<and>
        up (snd (rd_hlen R k r)) \<and> hash (snd (rd_hlen R k r)) = hash r) \<and>
     (\<forall>k. up (snd (rd_del R k r)) \<and> hash (snd (rd_del R k r)) = (hash r)(k := Map.empty)) \<and>
     (\<forall>k. fst (rd_hvals R k r) \<noteq> None \<and> set (the (fst (rd_hvals R k r))) = ran (hash r k) \<and>
        up (snd (rd_hvals R k r)) \<and> hash (snd (rd_hvals R k r)) = hash r))"

definition shared_at ::
    "MemberCodec \<Rightarrow> SharedPresence \<Rightarrow> ('r \<Rightarrow> string \<Rightarrow> string \<Rightarrow> string option) \<Rightarrow> 'r \<Rightarrow> string \<Rightarrow> string \<Rightarrow> PresenceMember option" where
  "shared_at mc sp hash r topic c = Option.bind (hash r (shared_key sp topic) c) (mc_from_str mc)"

lemma shared_key_inj [simp]: "shared_key sp t = shared_key sp t' \<longleftrightarrow> t = t'"
  by (simp add: shared_key_def)

lemma contract_connect:
  assumes "redis_contract R hash up" and "up r"
  shows "fst (rd_connect R r)" and "up (snd (rd_connect R r))" and "hash (snd (rd_connect R r)) = hash r"
  using assms by (simp_all add: redis_contract_def)

lemma contract_hset:
  assumes "redis_contract R hash up" and "up r"
  shows "up (snd (rd_hset_expire R k f v ttl r))"
    and "hash (snd (rd_hset_expire R k f v ttl r)) = (hash r)(k := (hash r k)(f := Some v))"
  using assms by (simp_all add: redis_contract_def)

lemma contract_hdel:
  assumes "redis_contract R hash up" and "up r"
  shows "fst (rd_hdel R k f r)" and "up (snd (rd_hdel R k f r))"
    and "hash (snd (rd_hdel R k f r)) = (hash r)(k := (hash r k)(f := None))"
  using assms by (simp_all add: redis_contract_def)

lemma contract_hlen:
  assumes "redis_contract R hash up" and "up r"
  shows "fst (rd_hlen R k r) = Some 0 \<longleftrightarrow> hash r k = Map.empty" and "up (snd (rd_hlen R k r))"
    and "hash (snd (rd_hlen R k r)) = hash r"
  using assms by (simp_all add: redis_contract_def)

lemma contract_del:
  assumes "redis_contract R hash up" and "up r"
  shows "up (snd (rd_del R k r))" and "hash (snd (rd_del R k r)) = (hash r)(k := Map.empty)"
  using assms by (simp_all add: redis_contract_def)

lemma contract_hvals:
  assumes "redis_contract R hash up" and "up r"
  shows "fst (rd_hvals R k r) \<noteq> None" and "set (the (fst (rd_hvals R k r))) = ran (hash r k)"
    and "up (snd (rd_hvals R k r))" and "hash (snd (rd_hvals R k r)) = hash r"
  using assms by (simp_all add: redis_contract_def)

lemma contract_prune:
  assumes c: "redis_contract R hash up" and u: "up r"
  shows "up (shared_prune R k r)" and "hash (shared_prune R k r) = hash r"
  using contract_hlen [OF c u, of k] contract_del [OF c contract_hlen(2) [OF c u], of k k]
  by (auto simp: shared_prune_def split_beta Let_def fun_eq_iff)

lemma set_map_filter: "set (List.map_filter f xs) = {y. \<exists>x \<in> set xs. f x = Some y}"
  by (induction xs) (auto simp: List.map_filter_simps split: option.split)

subsection \<open>What the operations do on a healthy server\<close>

lemma shared_track_hash:
  assumes c: "redis_contract R hash up" and u: "up r" and v: "mc_to_string mc m = Some v"
  shows "up (shared_track R mc sp t m r)"
    and "hash (shared_track R mc sp t m r) =
      (hash r)(shared_key sp t := (hash r (shared_key sp t))(pm_conn_id m := Some v))"
  using contract_connect [OF c u] contract_hset [OF c contract_connect(2) [OF c u]]
  by (simp_all add: shared_track_def split_beta Let_def v)

lemma shared_untrack_hash:
  assumes c: "redis_contract R hash up" and u: "up r"
  shows "up (shared_untrack R sp t i r)"
    and "hash (shared_untrack R sp t i r) =
      (hash r)(shared_key sp t := (hash r (shared_key sp t))(i := None))"
proof -
  note 1 = contract_connect [OF c u]
  note 2 = contract_hdel [OF c 1(2), of "shared_key sp t" i]
  show "up (shared_untrack R sp t i r)" and "hash (shared_untrack R sp t i r) =
      (hash r)(shared_key sp t := (hash r (shared_key sp t))(i := None))"
    using 1 2 contract_prune [OF c 2(2)] by (simp_all add: shared_untrack_def split_beta Let_def)
qed

lemma shared_members_hash:
  assumes c: "redis_contract R hash up" and u: "up r"
  shows "set (fst (shared_members R mc sp t r)) = {m. \<exists>i. shared_at mc sp hash r t i = Some m}"
proof -
  note 1 = contract_connect [OF c u]
  note 2 = contract_hvals [OF c 1(2), of "shared_key sp t"]
  obtain vs where vs: "fst (rd_hvals R (shared_key sp t) (snd (rd_connect R r))) = Some vs" using 2(1) by auto
  with 1 2(2) have ran: "set vs = ran (hash r (shared_key sp t))" by simp
  have "fst (shared_members R mc sp t r) = List.map_filter (mc_from_str mc) vs"
    using 1 vs by (simp add: shared_members_def split_beta Let_def split: prod.split)
  then show ?thesis
    by (auto simp: shared_at_def set_map_filter ran ran_def Option.bind_eq_Some_conv)
qed

text \<open>
  The shared store, one call at a time.  On a Redis server that answers and obeys the documented effect of
  the hash commands, and as long as no other client's command and no expiry falls between the round trips of
  a call, tracking a member makes it the entry of its topic and connection and changes no other entry of
  any topic, untracking removes that entry and no other, and a query for a topic lists exactly the members
  entered under that topic.  \<open>Rt_Shared_Tasks\<close> takes the calls apart.
\<close>

theorem shared_presence_alone:
  assumes "redis_contract R hash up" and "up r"
    and "mc_to_string mc m = Some v" and "mc_from_str mc v = Some m"
  shows "(\<forall>t' i'. shared_at mc sp hash (shared_track R mc sp t m r) t' i' =
       (if t' = t \<and> i' = pm_conn_id m then Some m else shared_at mc sp hash r t' i')) \<and>
    (\<forall>t' i'. shared_at mc sp hash (shared_untrack R sp t i r) t' i' =
       (if t' = t \<and> i' = i then None else shared_at mc sp hash r t' i')) \<and>
    set (fst (shared_members R mc sp t r)) = {m. \<exists>i. shared_at mc sp hash r t i = Some m} \<and>
    up (shared_track R mc sp t m r) \<and> up (shared_untrack R sp t i r)"
  using shared_track_hash [OF assms(1-3)] shared_untrack_hash [OF assms(1,2)] assms(4)
    shared_members_hash [OF assms(1,2), of mc sp t]
  by (simp add: shared_at_def)

text \<open>
  Two nodes overwrite each other.  Every node numbers its connections from 1, and the number alone is
  the field of the shared hash, so when the first connection of one node and then the first connection
  of another track the same topic, the topic's merged list no longer holds the first member.
\<close>

theorem shared_presence_collides:
  assumes "redis_contract R hash up" and "up r"
    and "hash r (shared_key sp t) = Map.empty"
    and "mc_to_string mc ma = Some va" and "mc_from_str mc va = Some ma"
    and "mc_to_string mc mb = Some vb" and "mc_from_str mc vb = Some mb"
    and "pm_conn_id ma = show_conn_id (fst (next_connection_id (cm_new capa)))"
    and "pm_conn_id mb = show_conn_id (fst (next_connection_id (cm_new capb)))"
  shows "set (fst (shared_members R mc sp t (shared_track R mc sp t mb (shared_track R mc sp t ma r)))) = {mb}"
proof -
  let ?r1 = "shared_track R mc sp t ma r"
  let ?r2 = "shared_track R mc sp t mb ?r1"
  have same: "pm_conn_id ma = pm_conn_id mb"
    using assms(8,9) by (simp add: next_connection_id_def cm_new_def)
  note 1 = shared_track_hash [OF assms(1,2,4), of sp t]
  note 2 = shared_track_hash [OF assms(1) 1(1) assms(6), of sp t]
  have "{m. \<exists>i. shared_at mc sp hash ?r2 t i = Some m} = {mb}"
    using 1 2 same assms(3,7) by (auto simp: shared_at_def split: if_splits)
  then show ?thesis using shared_members_hash [OF assms(1) 2(1)] by simp
qed

subsection \<open>A server in memory\<close>

type_synonym mem_redis = "(string, (string, string) dashmap) dashmap"

definition mem_hash :: "mem_redis \<Rightarrow> string \<Rightarrow> string \<Rightarrow> string option" where
  "mem_hash r k f = (case dm_get r k of None \<Rightarrow> None | Some h \<Rightarrow> dm_get h f)"

definition mem_redis :: "mem_redis Redis" where
  "mem_redis = \<lparr>rd_connect = (\<lambda>r. (True, r)),
     rd_hset_expire = (\<lambda>k f v _ r. (True, dm_entry k [] (dm_insert f v) r)),
     rd_hdel = (\<lambda>k f r. (True, dm_modify k (dm_remove f) r)),
     rd_hlen = (\<lambda>k r. (Some (case dm_get r k of None \<Rightarrow> 0 | Some h \<Rightarrow> if h = [] then 0 else 1), r)),
     rd_del = (\<lambda>k r. (True, dm_remove k r)),
     rd_hvals = (\<lambda>k r. (Some (case dm_get r k of None \<Rightarrow> []
        | Some h \<Rightarrow> List.map_filter (dm_get h) (dm_keys h)), r)),
     rd_scan = (\<lambda>_ _ _ r. (Some (0, dm_keys r), r)),
     rd_ping = (\<lambda>r. (True, r))\<rparr>"

lemma dm_get_keys: "dm_get m k = Some v \<Longrightarrow> k \<in> set (dm_keys m)"
  by (force simp: dm_get_def dm_keys_def dest: map_of_SomeD)

lemma mem_redis_contract: "redis_contract mem_redis mem_hash (\<lambda>_. True)"
proof -
  have vals: "set (List.map_filter (dm_get h) (dm_keys h)) = ran (dm_get h)" for h :: "(string, string) dashmap"
    using dm_get_keys by (fastforce simp: set_map_filter ran_def)
  show ?thesis
    by (auto simp: redis_contract_def mem_redis_def mem_hash_def fun_eq_iff ran_def vals dm_get_eq_Nil
        dm_get_keys split: option.split) (metis option.distinct(1) option.exhaust)
qed

definition demo_member :: "string \<Rightarrow> string \<Rightarrow> PresenceMember" where
  "demo_member c u = \<lparr>pm_conn_id = c, pm_user_id = Some u, pm_meta = JNull\<rparr>"

text \<open>Members written as user names under one connection number.\<close>

definition demo_codec :: MemberCodec where
  "demo_codec = \<lparr>mc_to_string = (\<lambda>m. pm_user_id m), mc_from_str = (\<lambda>s. Some (demo_member ''conn-1'' s))\<rparr>"

theorem shared_presence_alone_witness:
  "shared_at demo_codec (shared_new ''u'') mem_hash
     (shared_track mem_redis demo_codec (shared_new ''u'') ''room/1'' (demo_member ''conn-1'' ''alice'') []) ''room/1'' ''conn-1''
       = Some (demo_member ''conn-1'' ''alice'') \<and>
   shared_at demo_codec (shared_new ''u'') mem_hash
     (shared_track mem_redis demo_codec (shared_new ''u'') ''room/1'' (demo_member ''conn-1'' ''alice'') []) ''room/2'' ''conn-1''
       = None"
proof -
  have "mc_to_string demo_codec (demo_member ''conn-1'' ''alice'') = Some ''alice''"
    and "mc_from_str demo_codec ''alice'' = Some (demo_member ''conn-1'' ''alice'')"
    by (simp_all add: demo_codec_def demo_member_def)
  from shared_presence_alone [OF mem_redis_contract TrueI this, of "shared_new ''u''" "''room/1''" "[]"]
  show ?thesis by (simp add: demo_member_def shared_at_def mem_hash_def)
qed

theorem shared_presence_collides_witness:
  "set (fst (shared_members mem_redis demo_codec (shared_new ''u'') ''room/1''
     (shared_track mem_redis demo_codec (shared_new ''u'') ''room/1'' (demo_member ''conn-1'' ''bob'')
       (shared_track mem_redis demo_codec (shared_new ''u'') ''room/1'' (demo_member ''conn-1'' ''alice'') [])))) =
   {demo_member ''conn-1'' ''bob''}"
proof -
  have "mem_hash [] (shared_key (shared_new ''u'') ''room/1'') = Map.empty"
    by (simp add: mem_hash_def fun_eq_iff)
  moreover have "mc_to_string demo_codec (demo_member ''conn-1'' n) = Some n"
    and "mc_from_str demo_codec n = Some (demo_member ''conn-1'' n)" for n
    by (simp_all add: demo_codec_def demo_member_def)
  moreover have "show_conn_id (fst (next_connection_id (cm_new 8))) = ''conn-1''" by code_simp
  then have "pm_conn_id (demo_member ''conn-1'' n) = show_conn_id (fst (next_connection_id (cm_new 8)))" for n
    by (simp add: demo_member_def)
  ultimately show ?thesis
    by (intro shared_presence_collides [OF mem_redis_contract TrueI])
qed

end
