(* ===== verification/Rt_Protocol.thy ===== *)
theory Rt_Protocol
  imports Rt_Presence_Shared
begin

text \<open>
  The messages between clients and the gateway (\<open>crates/realtime-core/src/protocol.rs\<close>), the rendering of
  an event for the wire (\<open>types/envelope.rs\<close>, \<open>ws_handler/writer.rs\<close>), the subscription options
  (\<open>ws_handler/util.rs\<close>) and the origin policy of the handshake (\<open>origin.rs\<close>).  The derived JSON readers
  and writers of these types are parameters.  Lemmas: the cached rendering is the rendering, unknown
  options fall back to the default, and the origin policy compares whole origins only.
\<close>

subsection \<open>Client messages (protocol.rs)\<close>

record SubOptions =
  so_overflow :: "string option"
  so_resume_from :: "u64 option"
  so_rate_limit :: "u32 option"

record SubscribeItem =
  si_sub_id :: string
  si_topic :: string
  si_filter :: "json option"
  si_options :: "SubOptions option"

datatype ClientMessage =
    CmAuth string
  | CmSubscribe string string "json option" "SubOptions option"
  | CmSubscribeBatch "SubscribeItem list"
  | CmUnsubscribe string
  | CmPublish string string json
  | CmBroadcast string string json
  | CmTrack string json
  | CmUntrack string
  | CmPing

subsection \<open>Server messages (protocol.rs)\<close>

record EventPayload =
  ep_event_id :: string
  ep_topic :: string
  ep_event_type :: string
  ep_sequence :: u64
  ep_timestamp :: string
  ep_payload :: json

datatype ServerMessage =
    SmAuthOk string string
  | SmSubscribed string u64
  | SmUnsubscribed string
  | SmEvent string EventPayload
  | SmPresence string "PresenceMember list"
  | SmPong string
  | SmError string string

definition server_error :: "string \<Rightarrow> string \<Rightarrow> ServerMessage" where
  "server_error code message = SmError code message"

text \<open>\<open>fm_rfc3339\<close> and \<open>fm_uuid\<close> print timestamps and identifiers, \<open>fm_payload\<close> and \<open>fm_str\<close> are the JSON
  writers of event payloads and strings, \<open>fm_client\<close> the JSON reader of client messages.\<close>

record Format =
  fm_ext :: Externals
  fm_rfc3339 :: "timestamp \<Rightarrow> string"
  fm_uuid :: "EventId \<Rightarrow> string"
  fm_payload :: "EventPayload \<Rightarrow> string option"
  fm_str :: "string \<Rightarrow> string option"
  fm_client :: "string \<Rightarrow> ClientMessage option"

definition from_envelope :: "Format \<Rightarrow> EventEnvelope \<Rightarrow> EventPayload" where
  "from_envelope fm envelope =
     \<lparr>ep_event_id = fm_uuid fm (ev_id envelope), ep_topic = topic_str (ev_topic envelope),
      ep_event_type = ev_type envelope, ep_sequence = ev_sequence envelope,
      ep_timestamp = fm_rfc3339 fm (ev_timestamp envelope),
      ep_payload = (case x_from_slice (fm_ext fm) (ev_payload envelope) of None \<Rightarrow> JNull | Some v \<Rightarrow> v)\<rparr>"

subsection \<open>Rendering an event once (envelope.rs, writer.rs)\<close>

definition rendered_payload_json :: "Format \<Rightarrow> EventEnvelope \<Rightarrow> string \<times> EventEnvelope" where
  "rendered_payload_json fm e =
     (case ev_rendered e of
        Some s \<Rightarrow> (s, e)
      | None \<Rightarrow>
          let s = (case fm_payload fm (from_envelope fm e) of None \<Rightarrow> ''null'' | Some s \<Rightarrow> s)
          in (s, e\<lparr>ev_rendered := Some s\<rparr>))"

definition serialize_event :: "Format \<Rightarrow> string \<Rightarrow> EventEnvelope \<Rightarrow> string option \<times> EventEnvelope" where
  "serialize_event fm sub_id event =
     (let (fragment, event) = rendered_payload_json fm event
      in (case fm_str fm sub_id of
            None \<Rightarrow> None
          | Some sub \<Rightarrow> Some (''{\"type\":\"EVENT\",\"sub_id\":'' @ sub @ '',\"event\":'' @ fragment @ ''}''),
          event))"

text \<open>The cell holds nothing, or the rendering of the event it belongs to.\<close>

definition rendered_ok :: "Format \<Rightarrow> EventEnvelope \<Rightarrow> bool" where
  "rendered_ok fm e = (ev_rendered e \<in> {None, Some (fst (rendered_payload_json fm (e\<lparr>ev_rendered := None\<rparr>)))})"

lemma rendered_payload_json_cached:
  assumes "rendered_ok fm e"
  shows "fst (rendered_payload_json fm e) = fst (rendered_payload_json fm (e\<lparr>ev_rendered := None\<rparr>))"
    and "rendered_ok fm (snd (rendered_payload_json fm e))"
  using assms
  by (auto simp: rendered_ok_def rendered_payload_json_def from_envelope_def Let_def split: option.splits)

subsection \<open>Options (util.rs)\<close>

definition parse_overflow :: "string option \<Rightarrow> OverflowPolicy" where
  "parse_overflow o_overflow =
     (if o_overflow = Some ''drop_oldest'' then DropOldest
      else if o_overflow = Some ''disconnect'' then Disconnect
      else DropNewest)"

definition parse_sub_config :: "SubOptions option \<Rightarrow> SubConfig" where
  "parse_sub_config options =
     (case options of
        None \<Rightarrow> sub_config_default
      | Some o_opt \<Rightarrow>
          \<lparr>sc_overflow = parse_overflow (so_overflow o_opt), sc_rate_limit = so_rate_limit o_opt,
           sc_resume_from = so_resume_from o_opt\<rparr>)"

subsection \<open>The origin policy (origin.rs)\<close>

text \<open>The set of allowed origins, kept as the list of its members.\<close>

record OriginPolicy =
  op_allowed :: "string list"

definition origin_normalize :: "string \<Rightarrow> string" where
  "origin_normalize s = ascii_lower (trim_end_char CHR ''/'' (trim s))"

definition origin_parse :: "string \<Rightarrow> OriginPolicy option" where
  "origin_parse raw =
     (let allowed = remdups (filter (\<lambda>s. s \<noteq> []) (map origin_normalize (split_on CHR '','' raw)))
      in if allowed = [] then None else Some \<lparr>op_allowed = allowed\<rparr>)"

definition origin_from_env :: "(string \<Rightarrow> string option) \<Rightarrow> OriginPolicy option" where
  "origin_from_env env = Option.bind (env ''REALTIME_ALLOWED_ORIGINS'') origin_parse"

definition origin_allows :: "OriginPolicy \<Rightarrow> string \<Rightarrow> bool" where
  "origin_allows p origin =
     (let o' = origin_normalize origin in ''*'' \<in> set (op_allowed p) \<or> o' \<in> set (op_allowed p))"

definition origin_origins :: "OriginPolicy \<Rightarrow> string list" where
  "origin_origins p = op_allowed p"

text \<open>The handshake check of \<open>ws_upgrade\<close>: \<open>Inl\<close> is the 403 answer.  The header's value is bytes;
  \<open>to_str\<close> stands for the \<open>HeaderValue::to_str\<close> of the \<open>http\<close> package, and a value it cannot read is as good as
  no header.\<close>

definition ws_upgrade_check ::
    "(string \<Rightarrow> string option) \<Rightarrow> OriginPolicy option \<Rightarrow> string option \<Rightarrow> (u16 \<times> string, unit) result" where
  "ws_upgrade_check to_str allowed_origins origin_header =
     (case (allowed_origins, Option.bind origin_header to_str) of
        (Some policy, Some origin) \<Rightarrow>
          if \<not> origin_allows policy origin then Inl (403, ''origin not allowed'') else Inr ()
      | _ \<Rightarrow> Inr ())"

definition configured_origins :: "string \<Rightarrow> string set" where
  "configured_origins raw = origin_normalize ` set (split_on CHR '','' raw) - {[]}"

text \<open>
  C39: The origin allow-list.  With the policy read from the environment, a handshake is refused with 403
  exactly when the variable is set and holds an entry, the handshake carries an Origin header whose value
  reads as text, and the list holds neither the wildcard nor an entry equal to the whole origin up to
  case, surrounding blanks and trailing slashes.  Every other handshake passes: without the header, with
  one whose value does not read as text, and whatever it carries when nothing is configured.
\<close>

theorem origin_policy_exact:
  "ws_upgrade_check to_str (origin_from_env env) header =
     (if \<exists>raw bytes origin. env ''REALTIME_ALLOWED_ORIGINS'' = Some raw \<and> configured_origins raw \<noteq> {} \<and>
           header = Some bytes \<and> to_str bytes = Some origin \<and>
           ''*'' \<notin> configured_origins raw \<and> origin_normalize origin \<notin> configured_origins raw
      then Inl (403, ''origin not allowed'') else Inr ())"
proof (cases "env ''REALTIME_ALLOWED_ORIGINS''")
  case (Some raw)
  let ?l = "remdups (filter (\<lambda>s. s \<noteq> []) (map origin_normalize (split_on CHR '','' raw)))"
  have set: "set ?l = configured_origins raw" by (auto simp: configured_origins_def)
  then have "?l = [] \<longleftrightarrow> configured_origins raw = {}" by (metis set_empty)
  with Some have parsed: "origin_from_env env =
      (if configured_origins raw = {} then None else Some \<lparr>op_allowed = ?l\<rparr>)"
    by (simp add: origin_from_env_def origin_parse_def Let_def del: remdups_eq_nil_iff)
  have allows: "origin_allows \<lparr>op_allowed = ?l\<rparr> origin \<longleftrightarrow>
      ''*'' \<in> configured_origins raw \<or> origin_normalize origin \<in> configured_origins raw" for origin
    unfolding set [symmetric] by (simp only: origin_allows_def Let_def OriginPolicy.select_convs)
  show ?thesis
  proof (cases "Option.bind header to_str")
    case None
    then have "\<nexists>bytes origin. header = Some bytes \<and> to_str bytes = Some origin" by auto
    with None show ?thesis by (simp add: ws_upgrade_check_def split: option.split)
  next
    case (Some origin)
    then obtain bytes where "header = Some bytes" "to_str bytes = Some origin" by (auto simp: bind_eq_Some_conv)
    with \<open>env _ = _\<close> show ?thesis by (simp add: ws_upgrade_check_def parsed allows)
  qed
qed (simp add: ws_upgrade_check_def origin_from_env_def)

text \<open>The frames a list of subscribers gets from one shared envelope.\<close>

fun serialize_all :: "Format \<Rightarrow> string list \<Rightarrow> EventEnvelope \<Rightarrow> string option list \<times> EventEnvelope" where
  "serialize_all fm [] e = ([], e)"
| "serialize_all fm (s # ss) e =
     (let (f, e) = serialize_event fm s e; (fs, e) = serialize_all fm ss e in (f # fs, e))"

text \<open>
  One rendering for all subscribers.  An envelope that starts with an empty cache renders its
  payload to the same text however often and in whatever order its subscribers ask, the frame of each
  subscriber is that text under its own subscription identifier, and the rest of the envelope never
  changes.
\<close>

theorem rendered_once:
  assumes "ev_rendered e = None"
  shows "fst (serialize_all fm subs e) = map (\<lambda>s. fst (serialize_event fm s e)) subs \<and>
    (snd (serialize_all fm subs e))\<lparr>ev_rendered := None\<rparr> = e"
proof -
  obtain body where body: "rendered_payload_json fm e = (body, e\<lparr>ev_rendered := Some body\<rparr>)"
    using assms by (simp add: rendered_payload_json_def Let_def)
  let ?e1 = "e\<lparr>ev_rendered := Some body\<rparr>"
  have "rendered_payload_json fm ?e1 = (body, ?e1)"
    by (simp add: rendered_payload_json_def)
  with body have frame: "serialize_event fm s e' = (fst (serialize_event fm s e), ?e1)"
    if "e' = e \<or> e' = ?e1" for s e'
    using that by (auto simp: serialize_event_def)
  have rest: "fst (serialize_all fm subs e') = map (\<lambda>s. fst (serialize_event fm s e)) subs \<and>
      (snd (serialize_all fm subs e') = e \<or> snd (serialize_all fm subs e') = ?e1)"
    if "e' = e \<or> e' = ?e1" for e'
    using that
  proof (induction subs arbitrary: e')
    case (Cons s ss)
    have "?e1 = e \<or> ?e1 = ?e1" by simp
    from Cons.IH [OF this] frame [OF Cons.prems, of s] show ?case by (simp add: split_beta Let_def)
  qed simp
  have "e\<lparr>ev_rendered := None\<rparr> = e" using assms by (cases e) simp
  moreover have "?e1\<lparr>ev_rendered := None\<rparr> = e" using assms by (cases e) simp
  ultimately show ?thesis using rest [of e] by metis
qed

definition demo_format :: Format where
  "demo_format = \<lparr>fm_ext = demo_ext, fm_rfc3339 = (\<lambda>_. ''t''), fm_uuid = (\<lambda>_. ''u''),
     fm_payload = (\<lambda>p. Some (ep_topic p)), fm_str = Some, fm_client = (\<lambda>_. None)\<rparr>"

theorem rendered_once_witness:
  "fst (serialize_all demo_format [''s1'', ''s2''] (demo_event ''a/b'' ''e'')) =
     map (\<lambda>s. fst (serialize_event demo_format s (demo_event ''a/b'' ''e''))) [''s1'', ''s2''] \<and>
   fst (serialize_event demo_format ''s1'' (demo_event ''a/b'' ''e'')) =
     Some ''{\"type\":\"EVENT\",\"sub_id\":s1,\"event\":a/b}''"
proof -
  have none: "ev_rendered (demo_event ''a/b'' ''e'') = None" by (simp add: demo_event_def)
  have "fst (serialize_event demo_format ''s1'' (demo_event ''a/b'' ''e'')) =
     Some ''{\"type\":\"EVENT\",\"sub_id\":s1,\"event\":a/b}''"
    by (simp add: serialize_event_def rendered_payload_json_def from_envelope_def demo_format_def demo_event_def
        Let_def)
  with rendered_once [OF none, of demo_format "[''s1'', ''s2'']"] show ?thesis by blast
qed

end
