(* ===== verification/Rt_Session.thy ===== *)
theory Rt_Session
  imports Rt_Protocol
begin

text \<open>
  One WebSocket session of the gateway (\<open>crates/realtime-gateway/src/ws_handler\<close>): the message handlers
  (\<open>handlers.rs\<close>), the reader (\<open>reader.rs\<close>), the slow-client rule and the frame choice of the writer
  (\<open>writer.rs\<close>), and the life of the connection task with its cleanup (\<open>connection.rs\<close>).  What the
  handlers share through \<open>AppState\<close> is one record, the world, and every handler maps it to its
  successor; a panic of the registry is \<open>None\<close>.  Log lines are not modelled.  The handlers only log the
  bus's answers, so the bus is the list of the \<open>publish\<close> calls made.
\<close>

subsection \<open>Shared state (mod.rs)\<close>

record AuthProvider =
  au_verify :: "string \<Rightarrow> AuthContext \<Rightarrow> (RealtimeError, AuthClaims) result"
  au_subscribe :: "AuthClaims \<Rightarrow> TopicPattern \<Rightarrow> (RealtimeError, unit) result"
  au_publish :: "AuthClaims \<Rightarrow> TopicPath \<Rightarrow> (RealtimeError, unit) result"

record 'r App =
  app_auth :: AuthProvider
  app_format :: Format
  app_shared :: "('r Redis \<times> MemberCodec \<times> SharedPresence) option"

record 'r World =
  w_registry :: SubscriptionRegistry
  w_conn_manager :: ConnectionManager
  w_presence :: PresenceTracker
  w_redis :: 'r
  w_published :: "(string \<times> EventEnvelope) list"
  w_ctrl :: "ServerMessage list"

text \<open>The clock reading and the identifier drawn while one message is handled.\<close>

record Tick =
  tk_now :: timestamp
  tk_uuid :: EventId

subsection \<open>Session state (reader.rs)\<close>

record AuthState =
  as_authenticated :: bool
  as_claims :: "AuthClaims option"

definition auth_state_default :: AuthState where
  "auth_state_default = \<lparr>as_authenticated = False, as_claims = None\<rparr>"

datatype Action = Continue | Close

datatype Ending = ClientClose | Gone

definition send_ctrl :: "ServerMessage \<Rightarrow> 'r World \<Rightarrow> 'r World" where
  "send_ctrl msg w = w\<lparr>w_ctrl := w_ctrl w @ [msg]\<rparr>"

definition bus_publish :: "string \<Rightarrow> EventEnvelope \<Rightarrow> 'r World \<Rightarrow> 'r World" where
  "bus_publish topic ev w = w\<lparr>w_published := w_published w @ [(topic, ev)]\<rparr>"

subsection \<open>Authentication (handlers.rs)\<close>

definition MAX_WS_PAYLOAD_BYTES :: nat where
  "MAX_WS_PAYLOAD_BYTES = 65536"

definition MAX_PRESENCE_META_BYTES :: nat where
  "MAX_PRESENCE_META_BYTES = 16384"

definition ws_auth_context :: AuthContext where
  "ws_auth_context = \<lparr>cx_peer_addr = ''0.0.0.0:0'', cx_transport = ''websocket''\<rparr>"

definition handle_auth ::
    "'r App \<Rightarrow> Tick \<Rightarrow> string \<Rightarrow> ConnectionId \<Rightarrow> 'r World \<times> AuthState \<Rightarrow> Action \<times> 'r World \<times> AuthState" where
  "handle_auth app tk token conn_id = (\<lambda>(w, auth).
     case au_verify (app_auth app) token ws_auth_context of
       Inr claims \<Rightarrow>
         (Continue,
          send_ctrl (SmAuthOk (show_conn_id conn_id) (fm_rfc3339 (app_format app) (tk_now tk))) w,
          auth\<lparr>as_authenticated := True, as_claims := Some claims\<rparr>)
     | Inl e \<Rightarrow> (Close, send_ctrl (server_error ''AUTH_FAILED'' (show_error e)) w, auth))"

text \<open>The authorization a handler asks for when claims are present.\<close>

definition subscribe_denied :: "'r App \<Rightarrow> AuthState \<Rightarrow> TopicPattern \<Rightarrow> bool" where
  "subscribe_denied app auth pattern =
     (case as_claims auth of
        None \<Rightarrow> False
      | Some c \<Rightarrow> (case au_subscribe (app_auth app) c pattern of Inl _ \<Rightarrow> True | Inr _ \<Rightarrow> False))"

definition authorize_publish_topic :: "'r App \<Rightarrow> AuthState \<Rightarrow> string \<Rightarrow> bool" where
  "authorize_publish_topic app auth topic =
     (if \<not> as_authenticated auth then False
      else case as_claims auth of
             None \<Rightarrow> True
           | Some c \<Rightarrow> (case au_publish (app_auth app) c (topic_new topic) of Inl _ \<Rightarrow> False | Inr _ \<Rightarrow> True))"

subsection \<open>Subscriptions (handlers.rs)\<close>

definition make_subscription ::
    "'r App \<Rightarrow> string \<Rightarrow> ConnectionId \<Rightarrow> TopicPattern \<Rightarrow> json option \<Rightarrow> SubOptions option \<Rightarrow> Subscription" where
  "make_subscription app sub_id conn_id pattern flt options =
     \<lparr>sb_sub = SubscriptionId sub_id, sb_conn = conn_id, sb_topic = pattern,
      sb_filter = Option.bind flt (from_json (fm_ext (app_format app))),
      sb_config = parse_sub_config options\<rparr>"

definition handle_subscribe ::
    "'r App \<Rightarrow> string \<Rightarrow> string \<Rightarrow> json option \<Rightarrow> SubOptions option \<Rightarrow> ConnectionId \<Rightarrow> AuthState
      \<Rightarrow> 'r World \<Rightarrow> (Action \<times> 'r World) option" where
  "handle_subscribe app sub_id topic flt options conn_id auth w =
     (if \<not> as_authenticated auth then Some (Continue, w)
      else
        let pattern = pattern_parse topic in
        if subscribe_denied app auth pattern then Some (Continue, w)
        else
          let sub = make_subscription app sub_id conn_id pattern flt options
          in do { (registry, res) \<leftarrow> subscribe (fm_ext (app_format app)) sub None (w_registry w);
                  (let w = w\<lparr>w_registry := registry\<rparr> in
                   case res of
                     Inl e \<Rightarrow> Some (Continue, send_ctrl (server_error ''CAPACITY_EXCEEDED'' (show_error e)) w)
                   | Inr _ \<Rightarrow> Some (Continue, send_ctrl (SmSubscribed sub_id 0) w)) })"

fun subscribe_items ::
    "'r App \<Rightarrow> SubscribeItem list \<Rightarrow> ConnectionId \<Rightarrow> AuthState \<Rightarrow> 'r World \<Rightarrow> 'r World option" where
  "subscribe_items app [] conn_id auth w = Some w"
| "subscribe_items app (item # items) conn_id auth w =
     (let pattern = pattern_parse (si_topic item) in
      if subscribe_denied app auth pattern then
        subscribe_items app items conn_id auth
          (send_ctrl (server_error ''AUTHZ_DENIED''
             ''subscription denied: topic namespace not permitted'') w)
      else
        let sub = make_subscription app (si_sub_id item) conn_id pattern (si_filter item) (si_options item)
        in do { (registry, res) \<leftarrow> subscribe (fm_ext (app_format app)) sub None (w_registry w);
                (let w = w\<lparr>w_registry := registry\<rparr> in
                 case res of
                   Inl e \<Rightarrow> subscribe_items app items conn_id auth
                     (send_ctrl (server_error ''CAPACITY_EXCEEDED'' (show_error e)) w)
                 | Inr _ \<Rightarrow> subscribe_items app items conn_id auth
                     (send_ctrl (SmSubscribed (si_sub_id item) 0) w)) })"

definition handle_subscribe_batch ::
    "'r App \<Rightarrow> SubscribeItem list \<Rightarrow> ConnectionId \<Rightarrow> AuthState \<Rightarrow> 'r World \<Rightarrow> (Action \<times> 'r World) option" where
  "handle_subscribe_batch app subscriptions conn_id auth w =
     (if \<not> as_authenticated auth then Some (Continue, w)
      else map_option (Pair Continue) (subscribe_items app subscriptions conn_id auth w))"

definition handle_unsubscribe :: "string \<Rightarrow> ConnectionId \<Rightarrow> 'r World \<Rightarrow> Action \<times> 'r World" where
  "handle_unsubscribe sub_id conn_id w =
     (let w = w\<lparr>w_registry := fst (unsubscribe conn_id sub_id (w_registry w))\<rparr>
      in (Continue, send_ctrl (SmUnsubscribed sub_id) w))"

subsection \<open>Publishing (handlers.rs)\<close>

definition first_key :: "string list \<Rightarrow> (string, json) dashmap \<Rightarrow> json option" where
  "first_key keys m = (case List.map_filter (dm_get m) keys of [] \<Rightarrow> None | v # _ \<Rightarrow> Some v)"

definition api_source :: "AuthState \<Rightarrow> EventSource option" where
  "api_source auth =
     map_option (\<lambda>claims.
       let metadata = (case Option.bind (first_key [''handle'', ''name'', ''preferred_username''] (ac_metadata claims))
                               json_as_str of
                         None \<Rightarrow> []
                       | Some handle \<Rightarrow> dm_insert ''handle'' handle [])
       in \<lparr>src_kind = SrcApi, src_id = ac_sub claims, src_metadata = metadata\<rparr>) (as_claims auth)"

definition publish_envelope ::
    "Tick \<Rightarrow> string \<Rightarrow> string \<Rightarrow> bytes \<Rightarrow> AuthState \<Rightarrow> 'r World \<Rightarrow> 'r World" where
  "publish_envelope tk topic event_type payload_bytes auth w =
     (let envelope = envelope_new (tk_uuid tk) (tk_now tk) (topic_new topic) event_type payload_bytes;
          envelope = envelope\<lparr>ev_source := api_source auth\<rparr>
      in bus_publish (topic_str (ev_topic envelope)) envelope w)"

definition handle_publish ::
    "'r App \<Rightarrow> Tick \<Rightarrow> string \<Rightarrow> string \<Rightarrow> json \<Rightarrow> AuthState \<Rightarrow> 'r World \<Rightarrow> Action \<times> 'r World" where
  "handle_publish app tk topic event_type payload auth w =
     (if \<not> authorize_publish_topic app auth topic then (Continue, w)
      else case x_to_vec (fm_ext (app_format app)) payload of
             None \<Rightarrow> (Continue, w)
           | Some payload_bytes \<Rightarrow>
               if MAX_WS_PAYLOAD_BYTES < length payload_bytes then (Continue, w)
               else (Continue, publish_envelope tk topic event_type payload_bytes auth w))"

definition handle_broadcast ::
    "'r App \<Rightarrow> Tick \<Rightarrow> string \<Rightarrow> string \<Rightarrow> json \<Rightarrow> AuthState \<Rightarrow> 'r World \<Rightarrow> Action \<times> 'r World" where
  "handle_broadcast app tk topic event payload auth w =
     (if \<not> authorize_publish_topic app auth topic then (Continue, w)
      else
        let body = JObject [(''event'', JString event), (''payload'', payload)] in
        case x_to_vec (fm_ext (app_format app)) body of
          None \<Rightarrow> (Continue, w)
        | Some payload_bytes \<Rightarrow>
            if MAX_WS_PAYLOAD_BYTES < length payload_bytes then (Continue, w)
            else (Continue, publish_envelope tk topic ''broadcast'' payload_bytes auth w))"

subsection \<open>Presence (handlers.rs)\<close>

definition member_to_json :: "PresenceMember \<Rightarrow> json" where
  "member_to_json m = JObject
     ([(''conn_id'', JString (pm_conn_id m))]
      @ (case pm_user_id m of None \<Rightarrow> [] | Some u \<Rightarrow> [(''user_id'', JString u)])
      @ (if pm_meta m = JNull then [] else [(''meta'', pm_meta m)]))"

definition presence_body :: "string \<Rightarrow> PresenceMember list \<Rightarrow> json" where
  "presence_body topic members =
     JObject [(''topic'', JString topic), (''members'', JArray (map member_to_json members))]"

definition publish_presence ::
    "'r App \<Rightarrow> Tick \<Rightarrow> string \<Rightarrow> PresenceMember list \<Rightarrow> AuthState \<Rightarrow> 'r World \<Rightarrow> 'r World" where
  "publish_presence app tk topic members auth w =
     (case x_to_vec (fm_ext (app_format app)) (presence_body topic members) of
        None \<Rightarrow> w
      | Some payload_bytes \<Rightarrow> publish_envelope tk topic ''presence'' payload_bytes auth w)"

definition handle_track ::
    "'r App \<Rightarrow> Tick \<Rightarrow> string \<Rightarrow> json \<Rightarrow> ConnectionId \<Rightarrow> AuthState \<Rightarrow> 'r World \<Rightarrow> Action \<times> 'r World" where
  "handle_track app tk topic meta conn_id auth w =
     (if \<not> authorize_publish_topic app auth topic then (Continue, w)
      else if (case x_to_vec (fm_ext (app_format app)) meta of
                 None \<Rightarrow> True | Some b \<Rightarrow> MAX_PRESENCE_META_BYTES < length b) then (Continue, w)
      else
        let member = \<lparr>pm_conn_id = show_conn_id conn_id, pm_user_id = map_option ac_sub (as_claims auth),
              pm_meta = meta\<rparr>;
            w = (case app_shared app of
                   None \<Rightarrow> w
                 | Some (R, mc, sp) \<Rightarrow> w\<lparr>w_redis := shared_track R mc sp topic member (w_redis w)\<rparr>);
            (members, presence) = presence_track topic conn_id member (w_presence w);
            w = w\<lparr>w_presence := presence\<rparr>
        in (Continue, publish_presence app tk topic members auth w))"

definition handle_untrack ::
    "'r App \<Rightarrow> Tick \<Rightarrow> string \<Rightarrow> ConnectionId \<Rightarrow> AuthState \<Rightarrow> 'r World \<Rightarrow> Action \<times> 'r World" where
  "handle_untrack app tk topic conn_id auth w =
     (let w = (case app_shared app of
                 None \<Rightarrow> w
               | Some (R, _, sp) \<Rightarrow> w\<lparr>w_redis := shared_untrack R sp topic (show_conn_id conn_id) (w_redis w)\<rparr>);
          (left, presence) = presence_untrack topic conn_id (w_presence w);
          w = w\<lparr>w_presence := presence\<rparr>
      in case left of
           None \<Rightarrow> (Continue, w)
         | Some members \<Rightarrow> (Continue, publish_presence app tk topic members auth w))"

subsection \<open>Dispatching a message and the reader loop (reader.rs)\<close>

definition handle_ping :: "'r App \<Rightarrow> Tick \<Rightarrow> 'r World \<Rightarrow> Action \<times> 'r World" where
  "handle_ping app tk w = (Continue, send_ctrl (SmPong (fm_rfc3339 (app_format app) (tk_now tk))) w)"

definition dispatch_message ::
    "'r App \<Rightarrow> Tick \<Rightarrow> ClientMessage \<Rightarrow> ConnectionId \<Rightarrow> 'r World \<times> AuthState
      \<Rightarrow> (Action \<times> 'r World \<times> AuthState) option" where
  "dispatch_message app tk msg conn_id = (\<lambda>(w, auth).
     let keep = map_option (\<lambda>(act, w). (act, w, auth)) in
     case msg of
       CmAuth token \<Rightarrow> Some (handle_auth app tk token conn_id (w, auth))
     | CmSubscribe sub_id topic flt options \<Rightarrow>
         keep (handle_subscribe app sub_id topic flt options conn_id auth w)
     | CmSubscribeBatch subscriptions \<Rightarrow> keep (handle_subscribe_batch app subscriptions conn_id auth w)
     | CmUnsubscribe sub_id \<Rightarrow> keep (Some (handle_unsubscribe sub_id conn_id w))
     | CmPublish topic event_type payload \<Rightarrow> keep (Some (handle_publish app tk topic event_type payload auth w))
     | CmBroadcast topic event payload \<Rightarrow> keep (Some (handle_broadcast app tk topic event payload auth w))
     | CmTrack topic meta \<Rightarrow> keep (Some (handle_track app tk topic meta conn_id auth w))
     | CmUntrack topic \<Rightarrow> keep (Some (handle_untrack app tk topic conn_id auth w))
     | CmPing \<Rightarrow> keep (Some (handle_ping app tk w)))"

definition dispatch_text ::
    "'r App \<Rightarrow> Tick \<Rightarrow> string \<Rightarrow> ConnectionId \<Rightarrow> 'r World \<times> AuthState
      \<Rightarrow> (Action \<times> 'r World \<times> AuthState) option" where
  "dispatch_text app tk txt conn_id = (\<lambda>(w, auth).
     case fm_client (app_format app) txt of
       None \<Rightarrow> Some (Continue, w, auth)
     | Some msg \<Rightarrow> dispatch_message app tk msg conn_id (w, auth))"

text \<open>What the socket's read half yields; its end is the end of the list.\<close>

datatype ws_frame = WsText string | WsClose | WsOther | WsError

definition stamp_tenant :: "AuthState \<Rightarrow> string option \<Rightarrow> string option" where
  "stamp_tenant auth slot =
     (if as_authenticated auth
      then (case as_claims auth of
              None \<Rightarrow> slot
            | Some c \<Rightarrow> if slot \<noteq> Some (ac_sub c) then Some (ac_sub c) else slot)
      else slot)"

text \<open>One turn of the loop: the ending, when it returns, with the state and the tenant slot.\<close>

definition reader_turn ::
    "'r App \<Rightarrow> Tick \<Rightarrow> ws_frame \<Rightarrow> ConnectionId \<Rightarrow> 'r World \<times> AuthState \<times> string option
      \<Rightarrow> (Ending option \<times> 'r World \<times> AuthState \<times> string option) option" where
  "reader_turn app tk frame conn_id = (\<lambda>(w, auth, slot).
     case frame of
       WsText txt \<Rightarrow>
         (case dispatch_text app tk txt conn_id (w, auth) of
            None \<Rightarrow> None
          | Some (act, w, auth) \<Rightarrow>
              Some (if act = Close then Some Gone else None, w, auth, stamp_tenant auth slot))
     | WsClose \<Rightarrow> Some (Some ClientClose, w, auth, slot)
     | WsError \<Rightarrow> Some (Some Gone, w, auth, slot)
     | WsOther \<Rightarrow> Some (None, w, auth, slot))"

fun reader_loop ::
    "'r App \<Rightarrow> (Tick \<times> ws_frame) list \<Rightarrow> ConnectionId \<Rightarrow> 'r World \<times> AuthState \<times> string option
      \<Rightarrow> (Ending \<times> 'r World \<times> AuthState \<times> string option) option" where
  "reader_loop app [] conn_id st = (case st of (w, auth, slot) \<Rightarrow> Some (Gone, w, auth, slot))"
| "reader_loop app ((tk, frame) # frames) conn_id st =
     (case reader_turn app tk frame conn_id st of
        None \<Rightarrow> None
      | Some (Some ending, st') \<Rightarrow> Some (ending, st')
      | Some (None, st') \<Rightarrow> reader_loop app frames conn_id st')"

subsection \<open>Opening and closing a connection (connection.rs)\<close>

definition create_connection_meta :: "timestamp \<Rightarrow> ConnectionId \<Rightarrow> ConnectionMeta" where
  "create_connection_meta now conn_id =
     \<lparr>cm_conn_id = conn_id, cm_peer_addr = ''0.0.0.0:0'', cm_connected_at = now, cm_user_id = None,
      cm_claims = None\<rparr>"

definition publish_presence_snapshot ::
    "'r App \<Rightarrow> Tick \<Rightarrow> string \<Rightarrow> PresenceMember list \<Rightarrow> 'r World \<Rightarrow> 'r World" where
  "publish_presence_snapshot app tk topic members w =
     (case x_to_vec (fm_ext (app_format app)) (presence_body topic members) of
        None \<Rightarrow> w
      | Some payload_bytes \<Rightarrow>
          bus_publish topic (envelope_new (tk_uuid tk) (tk_now tk) (topic_new topic) ''presence'' payload_bytes) w)"

text \<open>One reading of the clock and one identifier per snapshot.\<close>

fun publish_snapshots ::
    "'r App \<Rightarrow> (nat \<Rightarrow> Tick) \<Rightarrow> (string \<times> PresenceMember list) list \<Rightarrow> 'r World \<Rightarrow> 'r World" where
  "publish_snapshots app tks [] w = w"
| "publish_snapshots app tks ((topic, members) # rest) w =
     publish_snapshots app (tks \<circ> Suc) rest (publish_presence_snapshot app (tks 0) topic members w)"

definition cleanup_presence :: "'r App \<Rightarrow> (nat \<Rightarrow> Tick) \<Rightarrow> ConnectionId \<Rightarrow> 'r World \<Rightarrow> 'r World" where
  "cleanup_presence app tks conn_id w =
     (let (affected, presence) = presence_remove_connection conn_id (w_presence w)
      in publish_snapshots app tks affected (w\<lparr>w_presence := presence\<rparr>))"

text \<open>The tail of \<open>handle_websocket\<close>; \<open>None\<close> is a Redis scan that never ends.\<close>

definition connection_cleanup ::
    "'r App \<Rightarrow> (nat \<Rightarrow> Tick) \<Rightarrow> ConnectionId \<Rightarrow> 'r World \<Rightarrow> 'r World option" where
  "connection_cleanup app tks conn_id w =
     do { redis \<leftarrow> (case app_shared app of
                     None \<Rightarrow> Some (w_redis w)
                   | Some (R, _, sp) \<Rightarrow> shared_remove_connection R sp (show_conn_id conn_id) (w_redis w));
          (let w = cleanup_presence app tks conn_id (w\<lparr>w_redis := redis\<rparr>);
               w = w\<lparr>w_registry := registry_remove_connection conn_id (w_registry w)\<rparr>
           in Some (w\<lparr>w_conn_manager := cm_remove conn_id (w_conn_manager w)\<rparr>)) }"

text \<open>What the meter records: the tenant and the whole seconds of the lifetime, in nanoseconds here.\<close>

definition meter_connection_lifetime :: "string option \<Rightarrow> timestamp \<Rightarrow> timestamp \<Rightarrow> (string \<times> u64) option" where
  "meter_connection_lifetime tenant_slot connected_at now =
     (case tenant_slot of
        None \<Rightarrow> None
      | Some tenant \<Rightarrow>
          let secs = max 0 ((now - connected_at) div 1000000000);
              secs = (if secs < 2 ^ 64 then of_int secs else 0)
          in Some (tenant, secs))"

text \<open>The connection task and its two children as a transition system.  The reader keeps running when
  the write side has ended and the grace period is over: its join handle is dropped, not aborted.\<close>

datatype Phase = Serving | WriterEnded | Closed

record 'r Session =
  ss_conn :: ConnectionId
  ss_world :: "'r World"
  ss_auth :: AuthState
  ss_slot :: "string option"
  ss_ending :: "Ending option"
  ss_phase :: Phase
  ss_connected_at :: timestamp
  ss_metered :: "(string \<times> u64) option"

definition session_open :: "timestamp \<Rightarrow> 'r World \<Rightarrow> 'r Session option" where
  "session_open now w =
     (let (conn_id, cm) = next_connection_id (w_conn_manager w)
      in do { (_, _, cm) \<leftarrow> register (create_connection_meta now conn_id) DropNewest cm;
              Some \<lparr>ss_conn = conn_id, ss_world = w\<lparr>w_conn_manager := cm\<rparr>, ss_auth = auth_state_default,
                    ss_slot = None, ss_ending = None, ss_phase = Serving, ss_connected_at = now,
                    ss_metered = None\<rparr> })"

datatype sess_event =
    ReaderFrame Tick ws_frame
  | ReaderEof
  | WriterFails
  | TaskCleanup "nat \<Rightarrow> Tick" timestamp

definition session_step :: "'r App \<Rightarrow> sess_event \<Rightarrow> 'r Session \<Rightarrow> 'r Session option" where
  "session_step app ev s = (case ev of
       ReaderFrame tk frame \<Rightarrow>
         if ss_ending s \<noteq> None then None
         else map_option (\<lambda>(ending, w, auth, slot).
                s\<lparr>ss_ending := ending, ss_world := w, ss_auth := auth, ss_slot := slot\<rparr>)
              (reader_turn app tk frame (ss_conn s) (ss_world s, ss_auth s, ss_slot s))
     | ReaderEof \<Rightarrow> if ss_ending s = None then Some (s\<lparr>ss_ending := Some Gone\<rparr>) else None
     | WriterFails \<Rightarrow> if ss_phase s = Serving then Some (s\<lparr>ss_phase := WriterEnded\<rparr>) else None
     | TaskCleanup tks now \<Rightarrow>
         if (ss_phase s = Serving \<and> ss_ending s \<noteq> None) \<or> ss_phase s = WriterEnded
         then map_option (\<lambda>w. s\<lparr>ss_world := w, ss_phase := Closed,
                ss_metered := meter_connection_lifetime (ss_slot s) (ss_connected_at s) now\<rparr>)
              (connection_cleanup app tks (ss_conn s) (ss_world s))
         else None)"

fun session_run :: "'r App \<Rightarrow> sess_event list \<Rightarrow> 'r Session \<Rightarrow> 'r Session option" where
  "session_run app [] s = Some s"
| "session_run app (ev # evs) s = Option.bind (session_step app ev s) (session_run app evs)"

subsection \<open>The writer (writer.rs)\<close>

datatype SendStatus = StatusOk | StatusSlowClient | StatusFailed

definition check_slow_client :: "nat \<Rightarrow> u32 \<Rightarrow> SendStatus \<times> u32" where
  "check_slow_client elapsed_ns slow_count =
     (let slow_count = (if 100000000 < elapsed_ns then slow_count + 1 else 0)
      in if 10 < slow_count then (StatusSlowClient, slow_count) else (StatusOk, slow_count))"

text \<open>Durations are in nanoseconds.  \<open>send_frame\<close>: the outcome of the bounded send is the time it took, or a failure.\<close>

definition send_frame :: "nat option \<Rightarrow> u32 \<Rightarrow> SendStatus \<times> u32" where
  "send_frame outcome slow_count =
     (case outcome of
        Some elapsed_ns \<Rightarrow> check_slow_client elapsed_ns slow_count
      | None \<Rightarrow> (StatusFailed, slow_count))"

text \<open>The biased \<open>select!\<close>: what the writer does next with the queues as they are.  The \<open>else\<close> branch of
  the source is never taken, since the goodbye branch matches every answer.\<close>

datatype writer_choice = WrCtrl string | WrGoodbye | WrEvent string EventEnvelope | WrWait

definition writer_select :: "string list \<Rightarrow> bool \<Rightarrow> (string \<times> EventEnvelope) list \<Rightarrow> writer_choice" where
  "writer_select ctrl goodbye events =
     (case ctrl of
        c # _ \<Rightarrow> WrCtrl c
      | [] \<Rightarrow> if goodbye then WrGoodbye
              else (case events of (sub_id, ev) # _ \<Rightarrow> WrEvent sub_id ev | [] \<Rightarrow> WrWait))"

text \<open>The loop from a state of its queues, over the outcomes of the sends, one per text frame: the frames
  handed to the socket until the loop returns, waits or the outcomes given run out.\<close>

datatype wire_frame = WireText string | WireClose

function writer_loop ::
    "Format \<Rightarrow> nat option list \<Rightarrow> u32 \<Rightarrow> string list \<Rightarrow> bool \<Rightarrow> (string \<times> EventEnvelope) list \<Rightarrow> wire_frame list" where
  "writer_loop fm [] slow ctrl goodbye events = []"
| "writer_loop fm (outcome # outcomes) slow ctrl goodbye events =
     (case writer_select ctrl goodbye events of
        WrCtrl c \<Rightarrow> WireText c #
          (case send_frame outcome slow of
             (StatusOk, slow) \<Rightarrow> writer_loop fm outcomes slow (tl ctrl) goodbye events
           | _ \<Rightarrow> [])
      | WrGoodbye \<Rightarrow> [WireClose]
      | WrEvent sub_id ev \<Rightarrow>
          (case fst (serialize_event fm sub_id ev) of
             Some j \<Rightarrow> WireText j #
               (case send_frame outcome slow of
                  (StatusOk, slow) \<Rightarrow> writer_loop fm outcomes slow ctrl goodbye (tl events)
                | _ \<Rightarrow> [])
           | None \<Rightarrow> writer_loop fm (outcome # outcomes) slow ctrl goodbye (tl events))
      | WrWait \<Rightarrow> [])"
  by pat_completeness auto

lemma writer_select_event: "writer_select ctrl goodbye events = WrEvent s e \<Longrightarrow> events \<noteq> []"
  by (auto simp: writer_select_def split: list.splits if_splits)

termination writer_loop
  by (relation "measure (\<lambda>(fm, outcomes, slow, ctrl, goodbye, events). length outcomes + length events)")
    (auto dest: writer_select_event)

end
