(* ===== verification/Rt_Usage.thy ===== *)
theory Rt_Usage
  imports Rt_Session
begin

text \<open>
  Usage metering (\<open>crates/realtime-gateway/src/usage.rs\<close>): the aggregate of connection seconds per tenant,
  the envelope of a window with its idempotency key, and the flusher.  SHA-256 and the Redis commands are
  parameters.  Lemmas: nothing recorded is lost or counted twice on its way to the stream as long as
  Redis answers, a key stands for one tenant and one window, and two flushes inside one window share it.
\<close>

subsection \<open>The aggregate\<close>

definition USAGE_STREAM_KEY :: string where
  "USAGE_STREAM_KEY = ''usage.events''"

definition CONNECTION_SECONDS :: string where
  "CONNECTION_SECONDS = ''realtime.connection.seconds''"

record UsageAggregate =
  ua_counters :: "(string \<times> string, u64) dashmap"

definition aggregate_new :: UsageAggregate where
  "aggregate_new = \<lparr>ua_counters = []\<rparr>"

definition aggregate_record :: "string \<Rightarrow> string \<Rightarrow> u64 \<Rightarrow> UsageAggregate \<Rightarrow> UsageAggregate" where
  "aggregate_record tenant metric qty a =
     (if qty = 0 then a
      else a\<lparr>ua_counters :=
        (case dm_get (ua_counters a) (tenant, metric) of
           Some v \<Rightarrow> dm_insert (tenant, metric) (saturating_add v qty) (ua_counters a)
         | None \<Rightarrow> dm_insert (tenant, metric) qty (ua_counters a))\<rparr>)"

definition aggregate_drain :: "UsageAggregate \<Rightarrow> (string \<times> string \<times> u64) list \<times> UsageAggregate" where
  "aggregate_drain a =
     (if ua_counters a = [] then ([], a)
      else (map (\<lambda>((t, m), qty). (t, m, qty)) (filter (\<lambda>(_, qty). 0 < qty) (ua_counters a)),
            a\<lparr>ua_counters := []\<rparr>))"

definition aggregate_tracked :: "UsageAggregate \<Rightarrow> nat" where
  "aggregate_tracked a = dm_len (ua_counters a)"

subsection \<open>The envelope\<close>

definition window_start_ms :: "u64 \<Rightarrow> u64 \<Rightarrow> u64" where
  "window_start_ms ts window_ms = (if window_ms = 0 then ts else ts - (ts mod window_ms))"

definition hex_digit :: "nat \<Rightarrow> char" where
  "hex_digit d = (if d < 10 then char_of (48 + d) else char_of (87 + d))"

definition hex_byte :: "char \<Rightarrow> string" where
  "hex_byte b = [hex_digit (of_char b div 16), hex_digit (of_char b mod 16)]"

text \<open>\<open>sha\<close> is SHA-256, from the bytes hashed to the digest.\<close>

definition key_preimage :: "string \<Rightarrow> string \<Rightarrow> u64 \<Rightarrow> bytes" where
  "key_preimage tenant metric window_start = tenant @ ''|'' @ metric @ ''|'' @ show_word window_start"

definition idempotency_key :: "(bytes \<Rightarrow> bytes) \<Rightarrow> string \<Rightarrow> string \<Rightarrow> u64 \<Rightarrow> string" where
  "idempotency_key sha tenant metric window_start =
     concat (map hex_byte (sha (key_preimage tenant metric window_start)))"

record UsageEnvelope =
  ue_tenant_id :: string
  ue_metric :: string
  ue_qty :: string
  ue_ts :: string
  ue_window_ms :: string
  ue_idempotency_key :: string

definition envelope_build ::
    "(bytes \<Rightarrow> bytes) \<Rightarrow> string \<Rightarrow> string \<Rightarrow> u64 \<Rightarrow> u64 \<Rightarrow> u64 \<Rightarrow> UsageEnvelope" where
  "envelope_build sha tenant metric qty now_ms window_ms =
     (let window_start = window_start_ms now_ms window_ms
      in \<lparr>ue_tenant_id = tenant, ue_metric = metric, ue_qty = show_word qty, ue_ts = show_word now_ms,
          ue_window_ms = show_word window_ms,
          ue_idempotency_key = idempotency_key sha tenant metric window_start\<rparr>)"

text \<open>A system clock reading in milliseconds since 1970, negative before.\<close>

definition now_unix_ms :: "int \<Rightarrow> u64" where
  "now_unix_ms clock = (if clock < 0 then 0 else if clock < 2 ^ 64 then of_int clock else - 1)"

subsection \<open>The handle and the flusher\<close>

record Usage =
  us_aggregate :: UsageAggregate
  us_stream :: "string option"

definition usage_new :: Usage where
  "usage_new = \<lparr>us_aggregate = aggregate_new, us_stream = None\<rparr>"

definition with_stream_url :: "string \<Rightarrow> Usage \<Rightarrow> Usage" where
  "with_stream_url url u = (if trim url = [] then u else u\<lparr>us_stream := Some url\<rparr>)"

definition usage_record :: "string \<Rightarrow> string \<Rightarrow> u64 \<Rightarrow> Usage \<Rightarrow> Usage" where
  "usage_record tenant metric qty u =
     u\<lparr>us_aggregate := aggregate_record tenant metric qty (us_aggregate u)\<rparr>"

definition usage_tracked :: "Usage \<Rightarrow> nat" where
  "usage_tracked u = aggregate_tracked (us_aggregate u)"

definition drain_windows ::
    "(bytes \<Rightarrow> bytes) \<Rightarrow> u64 \<Rightarrow> u64 \<Rightarrow> UsageAggregate \<Rightarrow> UsageEnvelope list \<times> UsageAggregate" where
  "drain_windows sha flush_ms now_ms a =
     (let (drained, a) = aggregate_drain a
      in if drained = [] then ([], a)
         else (map (\<lambda>(tenant, metric, qty). envelope_build sha tenant metric qty now_ms flush_ms) drained, a))"

text \<open>Opening the connection and \<open>XADD\<close> of an entry's fields to a stream, with whether they succeeded.\<close>

record 'r UsageRedis =
  ur_connect :: "string \<Rightarrow> 'r \<Rightarrow> bool \<times> 'r"
  ur_xadd :: "string \<Rightarrow> (string \<times> string) list \<Rightarrow> 'r \<Rightarrow> bool \<times> 'r"

definition envelope_fields :: "UsageEnvelope \<Rightarrow> (string \<times> string) list" where
  "envelope_fields env =
     [(''tenant_id'', ue_tenant_id env), (''metric'', ue_metric env), (''qty'', ue_qty env),
      (''ts'', ue_ts env), (''window_ms'', ue_window_ms env), (''idempotency_key'', ue_idempotency_key env)]"

fun xadd_each :: "'r UsageRedis \<Rightarrow> UsageEnvelope list \<Rightarrow> 'r \<Rightarrow> 'r" where
  "xadd_each R [] r = r"
| "xadd_each R (env # envs) r = xadd_each R envs (snd (ur_xadd R USAGE_STREAM_KEY (envelope_fields env) r))"

definition xadd_windows :: "'r UsageRedis \<Rightarrow> string \<Rightarrow> UsageEnvelope list \<Rightarrow> 'r \<Rightarrow> 'r" where
  "xadd_windows R url windows r =
     (if windows = [] then r
      else let (connected, r) = ur_connect R url r
           in if \<not> connected then r else xadd_each R windows r)"

text \<open>The interval of the flusher in milliseconds, and one tick of its loop at a clock reading.\<close>

definition flusher_period :: "u64 \<Rightarrow> u64" where
  "flusher_period flush_ms = max flush_ms 1"

definition flusher_tick ::
    "(bytes \<Rightarrow> bytes) \<Rightarrow> 'r UsageRedis \<Rightarrow> u64 \<Rightarrow> int \<Rightarrow> Usage \<times> 'r \<Rightarrow> Usage \<times> 'r" where
  "flusher_tick sha R flush_ms clock = (\<lambda>(u, r).
     let (windows, a) = drain_windows sha flush_ms (now_unix_ms clock) (us_aggregate u);
         u = u\<lparr>us_aggregate := a\<rparr>
     in case us_stream u of
          Some url \<Rightarrow> (u, xadd_windows R url windows r)
        | None \<Rightarrow> (u, r))"

subsection \<open>Connections and ticks\<close>

text \<open>What the meter sees: the close of a connection records its seconds, the flusher ticks.\<close>

datatype meter_event = MeterClose "(string \<times> u64) option" | MeterTick int

definition meter_close :: "(string \<times> u64) option \<Rightarrow> Usage \<Rightarrow> Usage" where
  "meter_close metered u =
     (case metered of None \<Rightarrow> u | Some (tenant, secs) \<Rightarrow> usage_record tenant CONNECTION_SECONDS secs u)"

fun meter_run ::
    "(bytes \<Rightarrow> bytes) \<Rightarrow> 'r UsageRedis \<Rightarrow> u64 \<Rightarrow> meter_event list \<Rightarrow> Usage \<times> 'r \<Rightarrow> Usage \<times> 'r" where
  "meter_run sha R flush_ms [] s = s"
| "meter_run sha R flush_ms (MeterClose metered # evs) s =
     meter_run sha R flush_ms evs (meter_close metered (fst s), snd s)"
| "meter_run sha R flush_ms (MeterTick clock # evs) s =
     meter_run sha R flush_ms evs (flusher_tick sha R flush_ms clock s)"

subsection \<open>Conservation\<close>

definition pending_seconds :: "string \<Rightarrow> Usage \<Rightarrow> nat" where
  "pending_seconds tenant u =
     (case dm_get (ua_counters (us_aggregate u)) (tenant, CONNECTION_SECONDS) of None \<Rightarrow> 0 | Some v \<Rightarrow> unat v)"

definition entry_seconds :: "string \<Rightarrow> string \<times> (string \<times> string) list \<Rightarrow> nat" where
  "entry_seconds tenant = (\<lambda>(key, fields).
     if map_of fields ''tenant_id'' = Some tenant then read_nat (the (map_of fields ''qty'')) else 0)"

definition streamed_seconds :: "string \<Rightarrow> (string \<times> (string \<times> string) list) list \<Rightarrow> nat" where
  "streamed_seconds tenant entries = sum_list (map (entry_seconds tenant) entries)"

fun closed_seconds :: "string \<Rightarrow> meter_event list \<Rightarrow> nat" where
  "closed_seconds tenant [] = 0"
| "closed_seconds tenant (MeterClose (Some (t, secs)) # evs) =
     (if t = tenant then unat secs else 0) + closed_seconds tenant evs"
| "closed_seconds tenant (_ # evs) = closed_seconds tenant evs"

text \<open>A Redis server that answers: the connection opens and every \<open>XADD\<close> appends its entry.\<close>

definition usage_redis_up ::
    "'r UsageRedis \<Rightarrow> ('r \<Rightarrow> (string \<times> (string \<times> string) list) list) \<Rightarrow> ('r \<Rightarrow> bool) \<Rightarrow> bool" where
  "usage_redis_up R stream up =
     ((\<forall>url r. up r \<longrightarrow> fst (ur_connect R url r) \<and> up (snd (ur_connect R url r)) \<and>
         stream (snd (ur_connect R url r)) = stream r) \<and>
      (\<forall>key fields r. up r \<longrightarrow> up (snd (ur_xadd R key fields r)) \<and>
         stream (snd (ur_xadd R key fields r)) = stream r @ [(key, fields)]))"

definition meter_ok :: "Usage \<Rightarrow> bool" where
  "meter_ok u = (dm_wf (ua_counters (us_aggregate u)) \<and>
     (\<forall>t m. dm_get (ua_counters (us_aggregate u)) (t, m) \<noteq> None \<longrightarrow> m = CONNECTION_SECONDS))"

lemma xadd_each_stream:
  "usage_redis_up R stream up \<Longrightarrow> up r \<Longrightarrow>
   up (xadd_each R envs r) \<and>
   stream (xadd_each R envs r) = stream r @ map (\<lambda>env. (USAGE_STREAM_KEY, envelope_fields env)) envs"
  by (induction envs arbitrary: r) (auto simp: usage_redis_up_def)

lemma xadd_windows_stream:
  assumes "usage_redis_up R stream up" and "up r"
  shows "up (xadd_windows R url envs r) \<and>
   stream (xadd_windows R url envs r) = stream r @ map (\<lambda>env. (USAGE_STREAM_KEY, envelope_fields env)) envs"
proof -
  have "fst (ur_connect R url r)" "up (snd (ur_connect R url r))" "stream (snd (ur_connect R url r)) = stream r"
    using assms by (auto simp: usage_redis_up_def)
  then show ?thesis
    using assms(2) xadd_each_stream [OF assms(1), of "snd (ur_connect R url r)" envs]
    by (auto simp: xadd_windows_def split_beta)
qed

lemma entry_seconds_build:
  "entry_seconds tenant (USAGE_STREAM_KEY, envelope_fields (envelope_build sha t m q now w)) =
     (if t = tenant then unat q else 0)"
  by (simp add: entry_seconds_def envelope_fields_def envelope_build_def Let_def show_word_def)

lemma counters_sum:
  "dm_wf m \<Longrightarrow> (\<And>t me q. ((t, me), q) \<in> set m \<Longrightarrow> me = c) \<Longrightarrow>
   sum_list (map (\<lambda>e. if fst (fst e) = tenant then unat (snd e) else 0) (filter (\<lambda>(_, q). 0 < q) m)) =
     (case dm_get m (tenant, c) of None \<Rightarrow> 0 | Some v \<Rightarrow> unat v)"
proof (induction m)
  case (Cons e m)
  obtain t me q where e': "e = ((t, me), q)" by (cases e) auto
  have "me = c" using Cons.prems(2) [of t me q] by (simp add: e')
  then have e: "e = ((t, c), q)" by (simp add: e')
  have wf: "dm_wf m" and new: "(t, c) \<notin> fst ` set m" using Cons.prems(1) by (simp_all add: dm_wf_def e)
  have "dm_get m (t, c) = None" using new by (simp add: dm_get_def map_of_eq_None_iff)
  moreover have "sum_list (map (\<lambda>e. if fst (fst e) = tenant then unat (snd e) else 0) (filter (\<lambda>(_, q). 0 < q) m)) =
     (case dm_get m (tenant, c) of None \<Rightarrow> 0 | Some v \<Rightarrow> unat v)"
    using Cons.prems(2) by (intro Cons.IH [OF wf]) auto
  ultimately show ?case
    by (cases "t = tenant"; cases "q = 0") (simp_all add: e dm_get_def word_gt_0)
qed (simp add: dm_get_def)

lemma flusher_tick_moves:
  assumes "usage_redis_up R stream up" and "up r" and "us_stream u = Some url" and "meter_ok u"
    and "flusher_tick sha R flush_ms clock (u, r) = (u', r')"
  shows "up r' \<and> us_stream u' = Some url \<and> meter_ok u' \<and> pending_seconds tenant u' = 0 \<and>
    streamed_seconds tenant (stream r') = streamed_seconds tenant (stream r) + pending_seconds tenant u"
proof -
  let ?c = "ua_counters (us_aggregate u)"
  let ?ws = "map (\<lambda>((t, m), q). (t, m, q)) (filter (\<lambda>(_, q). 0 < q) ?c)"
  let ?now = "now_unix_ms clock"
  have wf: "dm_wf ?c" using assms(4) by (simp add: meter_ok_def)
  have metric: "m = CONNECTION_SECONDS" if "((t, m), q) \<in> set ?c" for t m q
    using that dm_get_iff_in [OF wf, of "(t, m)" q] assms(4) by (simp add: meter_ok_def) blast
  have drain: "drain_windows sha flush_ms ?now (us_aggregate u) =
     (map (\<lambda>(t, m, q). envelope_build sha t m q ?now flush_ms) ?ws, (us_aggregate u)\<lparr>ua_counters := []\<rparr>)"
    by (auto simp: drain_windows_def aggregate_drain_def Let_def)
  have r': "r' = xadd_windows R url (map (\<lambda>(t, m, q). envelope_build sha t m q ?now flush_ms) ?ws) r"
    and u': "u' = u\<lparr>us_aggregate := (us_aggregate u)\<lparr>ua_counters := []\<rparr>\<rparr>"
    using assms(3,5) by (simp_all add: flusher_tick_def drain)
  have "streamed_seconds tenant (stream r') = streamed_seconds tenant (stream r) +
     sum_list (map (\<lambda>e. if fst (fst e) = tenant then unat (snd e) else 0) (filter (\<lambda>(_, q). 0 < q) ?c))"
    using xadd_windows_stream [OF assms(1,2)]
    by (simp add: r' streamed_seconds_def o_def split_beta entry_seconds_build)
  also have "\<dots> = streamed_seconds tenant (stream r) + pending_seconds tenant u"
    using counters_sum [OF wf metric, where tenant = tenant] by (simp add: pending_seconds_def)
  finally show ?thesis
    using xadd_windows_stream [OF assms(1,2)] assms(3) by (simp add: r' u' meter_ok_def pending_seconds_def)
qed

lemma saturating_add_nat: "unat (saturating_add a b) = min (unat a + unat b) (2 ^ 64 - 1)" for a b :: u64
proof (cases "unat a + unat b < 2 ^ 64")
  case True
  then have "unat (a + b) = unat a + unat b" by (simp add: unat_add_lem [THEN iffD1])
  then show ?thesis using True by (simp add: saturating_add_def word_le_nat_alt)
next
  case False
  then have "\<not> a \<le> a + b" using no_olen_add_nat [of a b] by simp
  then show ?thesis using False by (simp add: saturating_add_def unsigned_minus_1_eq_mask mask_eq_exp_minus_1)
qed

lemma aggregate_record_get:
  "dm_get (ua_counters (aggregate_record t m q a)) k =
     (if q = 0 \<or> k \<noteq> (t, m) then dm_get (ua_counters a) k
      else Some (case dm_get (ua_counters a) (t, m) of None \<Rightarrow> q | Some v \<Rightarrow> saturating_add v q))"
  by (auto simp: aggregate_record_def split: option.split)

lemma meter_close_adds:
  assumes "meter_ok u"
  shows "meter_ok (meter_close metered u)" and "us_stream (meter_close metered u) = us_stream u"
    and "pending_seconds tenant (meter_close metered u) =
      min (pending_seconds tenant u + closed_seconds tenant [MeterClose metered]) (2 ^ 64 - 1)"
proof -
  have b: "unat v \<le> 2 ^ 64 - 1" for v :: u64
  proof -
    have "unat v < 2 ^ LENGTH(64)" by (rule unsigned_less)
    then show ?thesis by simp
  qed
  show "us_stream (meter_close metered u) = us_stream u"
    by (simp add: meter_close_def usage_record_def split: option.split prod.split)
  show "meter_ok (meter_close metered u)"
    using assms
    by (auto simp: meter_ok_def meter_close_def usage_record_def aggregate_record_def
        split: option.splits prod.splits if_splits)
  show "pending_seconds tenant (meter_close metered u) =
      min (pending_seconds tenant u + closed_seconds tenant [MeterClose metered]) (2 ^ 64 - 1)"
  proof (cases metered)
    case None
    then show ?thesis using b by (simp add: pending_seconds_def meter_close_def split: option.split)
  next
    case (Some ts)
    obtain t q where ts: "ts = (t, q)" by fastforce
    show ?thesis
      using b [of q] b
      by (cases "q = 0"; cases "t = tenant"; cases "dm_get (ua_counters (us_aggregate u)) (tenant, CONNECTION_SECONDS)")
        (simp_all add: Some ts pending_seconds_def meter_close_def usage_record_def aggregate_record_get
          saturating_add_nat)
  qed
qed

text \<open>
  C38: Metering neither loses nor double counts.  From a fresh meter and over any sequence of connection
  closes and flusher ticks, with a Redis server that answers, the seconds on the stream for a tenant and
  those still pending never add up to more than the seconds of its closed connections, and to exactly
  those when they fit 64 bits.
\<close>

theorem usage_conserved:
  assumes "usage_redis_up R stream up" and "up r" and "stream r = []"
    and "meter_run sha R flush_ms evs (usage_new\<lparr>us_stream := Some url\<rparr>, r) = (u', r')"
  shows "streamed_seconds tenant (stream r') + pending_seconds tenant u' \<le> closed_seconds tenant evs \<and>
    (closed_seconds tenant evs < 2 ^ 64 \<longrightarrow>
       streamed_seconds tenant (stream r') + pending_seconds tenant u' = closed_seconds tenant evs)"
proof -
  have run: "\<And>u r. meter_run sha R flush_ms evs (u, r) = (u', r') \<Longrightarrow> up r \<Longrightarrow> us_stream u = Some url \<Longrightarrow> meter_ok u \<Longrightarrow>
    streamed_seconds tenant (stream r') + pending_seconds tenant u' \<le>
      streamed_seconds tenant (stream r) + pending_seconds tenant u + closed_seconds tenant evs \<and>
    (pending_seconds tenant u + closed_seconds tenant evs < 2 ^ 64 \<longrightarrow>
       streamed_seconds tenant (stream r') + pending_seconds tenant u' =
         streamed_seconds tenant (stream r) + pending_seconds tenant u + closed_seconds tenant evs)"
  proof (induction evs)
    case (Cons ev evs)
    show ?case
    proof (cases ev)
      case (MeterClose metered)
      have c: "closed_seconds tenant (ev # evs) = closed_seconds tenant [MeterClose metered] + closed_seconds tenant evs"
        by (cases metered) (auto simp: MeterClose)
      have "meter_run sha R flush_ms evs (meter_close metered u, r) = (u', r')"
        using Cons.prems(1) by (simp add: MeterClose)
      note ih = Cons.IH [OF this Cons.prems(2) _ meter_close_adds(1) [OF Cons.prems(4)]]
      show ?thesis
        using ih meter_close_adds(2) [OF Cons.prems(4), of metered] meter_close_adds(3) [OF Cons.prems(4), of tenant metered]
          Cons.prems(3)
        unfolding c by (auto simp: min_def split: if_splits)
    next
      case (MeterTick clock)
      obtain u1 r1 where t: "flusher_tick sha R flush_ms clock (u, r) = (u1, r1)" by fastforce
      have "meter_run sha R flush_ms evs (u1, r1) = (u', r')"
        using Cons.prems(1) t by (simp add: MeterTick)
      then show ?thesis
        using Cons.IH [of u1 r1] flusher_tick_moves [OF assms(1) Cons.prems(2-4) t, of tenant]
        by (simp add: MeterTick)
    qed
  qed simp
  have "meter_ok (usage_new\<lparr>us_stream := Some url\<rparr>)"
    by (simp add: meter_ok_def usage_new_def aggregate_new_def)
  from run [OF assms(4,2) _ this] show ?thesis
    using assms(3) by (simp add: streamed_seconds_def pending_seconds_def usage_new_def aggregate_new_def)
qed

text \<open>A Redis that always answers, as its one stream, and a meter over it.\<close>

definition demo_stream :: "(string \<times> (string \<times> string) list) list UsageRedis" where
  "demo_stream = \<lparr>ur_connect = (\<lambda>_ r. (True, r)), ur_xadd = (\<lambda>key fields r. (True, r @ [(key, fields)]))\<rparr>"

lemma demo_stream_up: "usage_redis_up demo_stream id (\<lambda>_. True)"
  by (simp add: usage_redis_up_def demo_stream_def)

definition demo_meter :: "meter_event list" where
  "demo_meter = [MeterClose (Some (''t'', 40)), MeterTick 60010, MeterClose (Some (''u'', 9)),
     MeterClose (Some (''t'', 50)), MeterTick 119990, MeterClose (Some (''t'', 2))]"

theorem usage_conserved_witness:
  "\<exists>u' r'. meter_run id demo_stream 60000 demo_meter (usage_new\<lparr>us_stream := Some ''redis''\<rparr>, []) = (u', r') \<and>
     streamed_seconds ''t'' r' + pending_seconds ''t'' u' = 92"
proof -
  obtain u' r' where r: "meter_run id demo_stream 60000 demo_meter (usage_new\<lparr>us_stream := Some ''redis''\<rparr>, []) = (u', r')"
    by fastforce
  have "closed_seconds ''t'' demo_meter = 92" by (simp add: demo_meter_def)
  with usage_conserved [OF demo_stream_up _ _ r, of "''t''"] r show ?thesis by simp
qed

subsection \<open>Idempotency keys\<close>

lemma window_start_bounds:
  "0 < w \<Longrightarrow> unat (window_start_ms ts w) = unat ts div unat w * unat w"
  by (simp add: window_start_ms_def word_gt_0 unat_mod minus_mod_eq_div_mult [symmetric] unat_sub word_le_nat_alt)

lemma of_char_lt: "of_char c < (256 :: nat)"
  using nat_of_char_less_256 [of c] by simp

lemma hex_digit_inj: "a < 16 \<Longrightarrow> b < 16 \<Longrightarrow> hex_digit a = hex_digit b \<longleftrightarrow> a = b"
  by (auto simp: hex_digit_def char_of_eq_iff take_bit_eq_mod split: if_splits
      dest!: arg_cong [where f = "of_char :: char \<Rightarrow> nat"])

lemma hex_byte_inj: "hex_byte a = hex_byte b \<longleftrightarrow> a = b"
proof
  assume "hex_byte a = hex_byte b"
  then have "(of_char a :: nat) div 16 = of_char b div 16" "(of_char a :: nat) mod 16 = of_char b mod 16"
    using of_char_lt [of a] of_char_lt [of b] by (simp_all add: hex_byte_def hex_digit_inj)
  then have "(of_char a :: nat) = of_char b" by (metis div_mult_mod_eq)
  then show "a = b" by simp
qed simp

lemma hex_inj: "concat (map hex_byte xs) = concat (map hex_byte ys) \<longleftrightarrow> xs = ys"
proof (induction xs arbitrary: ys)
  case Nil
  show ?case by (cases ys) (simp_all add: hex_byte_def)
next
  case (Cons x xs)
  have len: "length (hex_byte c) = 2" for c by (simp add: hex_byte_def)
  show ?case
  proof (cases ys)
    case (Cons y ys')
    then show ?thesis using Cons.IH [of ys'] len by (simp add: append_eq_append_conv hex_byte_inj)
  qed (simp add: hex_byte_def)
qed

lemma key_preimage_inj:
  "key_preimage t1 m w1 = key_preimage t2 m w2 \<longleftrightarrow> t1 = t2 \<and> w1 = w2"
proof
  assume eq: "key_preimage t1 m w1 = key_preimage t2 m w2"
  have bar: "CHR ''|'' \<notin> set (show_word w)" for w :: u64
    using show_nat_digits [of "CHR ''|''" "unat w"] by (auto simp: show_word_def is_digit_def)
  have tail: "takeWhile (\<lambda>c. c \<noteq> CHR ''|'') (rev (key_preimage t m w)) = rev (show_word w)" for t w
    using bar [of w] by (auto simp: key_preimage_def takeWhile_append)
  have "rev (show_word w1) = rev (show_word w2)" using tail [of t1 w1] tail [of t2 w2] eq by simp
  then have "w1 = w2" by (simp add: show_word_inj)
  with eq show "t1 = t2 \<and> w1 = w2" by (simp add: key_preimage_def)
qed simp

text \<open>
  An idempotency key stands for one tenant and one window.  Unless SHA-256 collides on the two inputs,
  the keys two flushes give two entries are equal exactly when the tenant is the same and both clock
  readings fall in the same window, whatever bytes the tenants consist of.
\<close>

theorem usage_key_exact:
  assumes "sha (key_preimage t1 m (window_start_ms now1 w)) = sha (key_preimage t2 m (window_start_ms now2 w)) \<Longrightarrow>
      key_preimage t1 m (window_start_ms now1 w) = key_preimage t2 m (window_start_ms now2 w)"
    and "0 < w"
  shows "ue_idempotency_key (envelope_build sha t1 m q1 now1 w) = ue_idempotency_key (envelope_build sha t2 m q2 now2 w)
    \<longleftrightarrow> t1 = t2 \<and> unat now1 div unat w = unat now2 div unat w"
proof -
  have "0 < unat w" using assms(2) by (simp add: word_less_nat_alt)
  then have "window_start_ms now1 w = window_start_ms now2 w \<longleftrightarrow> unat now1 div unat w = unat now2 div unat w"
    using window_start_bounds [OF assms(2)] by (simp add: word_unat_eq_iff)
  then show ?thesis
    using assms(1) by (auto simp: envelope_build_def idempotency_key_def hex_inj key_preimage_inj)
qed

theorem usage_key_exact_witness:
  "ue_idempotency_key (envelope_build id ''t'' ''m'' 4 123456 60000) =
     ue_idempotency_key (envelope_build id ''t'' ''m'' 9 150000 60000) \<and>
   ue_idempotency_key (envelope_build id ''t'' ''m'' 4 123456 60000) \<noteq>
     ue_idempotency_key (envelope_build id ''t'' ''m'' 1 181000 60000)"
  using usage_key_exact [of id "''t''" "''m''" 123456 60000 "''t''" 150000 4 9]
    usage_key_exact [of id "''t''" "''m''" 123456 60000 "''t''" 181000 4 1] by simp

text \<open>
  Two ticks can share a window.  The key buckets on the wall clock, the ticks follow the time the
  flusher started: with a period of a minute, a tick handled 20 milliseconds late just after a window
  boundary and the next one on time just before the following boundary emit two entries for one tenant
  with the same key, and a consumer that keeps one entry per key drops the seconds of the other.
\<close>

theorem flush_ticks_share_key:
  "\<exists>u' e1 e2 k. meter_run sha demo_stream 60000
       [MeterClose (Some (''t'', 40)), MeterTick (59990 + 20), MeterClose (Some (''t'', 50)), MeterTick (59990 + 60000)]
       (usage_new\<lparr>us_stream := Some ''redis''\<rparr>, []) = (u', [e1, e2]) \<and>
     entry_seconds ''t'' e1 = 40 \<and> entry_seconds ''t'' e2 = 50 \<and>
     map_of (snd e1) ''idempotency_key'' = Some k \<and> map_of (snd e2) ''idempotency_key'' = Some k"
proof -
  have run: "meter_run sha demo_stream 60000
       [MeterClose (Some (''t'', 40)), MeterTick (59990 + 20), MeterClose (Some (''t'', 50)), MeterTick (59990 + 60000)]
       (usage_new\<lparr>us_stream := Some ''redis''\<rparr>, []) =
     (usage_new\<lparr>us_stream := Some ''redis''\<rparr>,
      [(USAGE_STREAM_KEY, envelope_fields (envelope_build sha ''t'' CONNECTION_SECONDS 40 60010 60000)),
       (USAGE_STREAM_KEY, envelope_fields (envelope_build sha ''t'' CONNECTION_SECONDS 50 119990 60000))])"
    by (simp add: meter_close_def usage_record_def usage_new_def aggregate_new_def aggregate_record_def
        flusher_tick_def drain_windows_def aggregate_drain_def xadd_windows_def demo_stream_def now_unix_ms_def
        dm_get_def dm_insert_def Let_def)
  have "window_start_ms 60010 60000 = window_start_ms 119990 60000"
    by (simp add: window_start_ms_def)
  then have "ue_idempotency_key (envelope_build sha ''t'' CONNECTION_SECONDS 40 60010 60000) =
      ue_idempotency_key (envelope_build sha ''t'' CONNECTION_SECONDS 50 119990 60000)"
    by (simp add: envelope_build_def Let_def)
  moreover have "map_of (envelope_fields env) ''idempotency_key'' = Some (ue_idempotency_key env)" for env
    by (simp add: envelope_fields_def)
  ultimately show ?thesis unfolding run by (simp add: entry_seconds_build)
qed

end
