(* ===== verification/Rt_Bus.thy ===== *)
theory Rt_Bus
  imports Rt_Router
begin

text \<open>
  The bus between publishers and the router: the batch default of the publisher interface
  (\<open>crates/realtime-core/src/traits/bus.rs\<close>) and the in-process bus (\<open>crates/realtime-bus-inprocess/src\<close>)
  over the broadcast channel it wraps.  The interface of a publisher is a locale whose client is the batch
  default; the in-process publisher provides it.  Lemmas: a batch publishes a prefix of its events, all of
  them when it succeeds; a subscriber receives events in publication order, each at most once, and
  misses only those it fell behind by more than the ring holds.
\<close>

subsection \<open>The publisher interface (traits/bus.rs)\<close>

type_synonym 's bus_op = "string \<Rightarrow> EventEnvelope \<Rightarrow> 's \<Rightarrow> (RealtimeError, PublishReceipt) result \<times> 's"

fun publish_each ::
    "'s bus_op \<Rightarrow> (string \<times> EventEnvelope) list \<Rightarrow> PublishReceipt list \<Rightarrow> 's
      \<Rightarrow> (RealtimeError, PublishReceipt list) result \<times> 's" where
  "publish_each publish [] receipts s = (Inr receipts, s)"
| "publish_each publish ((topic, event) # events) receipts s =
     (case publish topic event s of
        (Inl e, s) \<Rightarrow> (Inl e, s)
      | (Inr r, s) \<Rightarrow> publish_each publish events (receipts @ [r]) s)"

definition publish_batch_default ::
    "'s bus_op \<Rightarrow> (string \<times> EventEnvelope) list \<Rightarrow> 's
      \<Rightarrow> (RealtimeError, PublishReceipt list) result \<times> 's" where
  "publish_batch_default publish events s = publish_each publish events [] s"

text \<open>What a publisher promises: an accepted event is the next one on the bus and its receipt names it,
  a rejected one leaves the bus as it was.\<close>

locale event_bus_publisher =
  fixes publish :: "string \<Rightarrow> EventEnvelope \<Rightarrow> 's \<Rightarrow> (RealtimeError, PublishReceipt) result \<times> 's"
    and published :: "'s \<Rightarrow> EventEnvelope list"
  assumes accepted: "publish t ev s = (Inr r, s') \<Longrightarrow>
      published s' = published s @ [ev] \<and> pr_event_id r = ev_id ev \<and> pr_delivered_to_bus r"
    and rejected: "publish t ev s = (Inl e, s') \<Longrightarrow> published s' = published s"
begin

lemma each_ok:
  "publish_each publish events acc s = (Inr rs, s') \<Longrightarrow>
   published s' = published s @ map snd events \<and>
   (\<exists>rs'. rs = acc @ rs' \<and> map pr_event_id rs' = map (ev_id \<circ> snd) events \<and> list_all pr_delivered_to_bus rs')"
proof (induction events arbitrary: acc s)
  case (Cons te events)
  obtain t ev where te: "te = (t, ev)" by fastforce
  from Cons.prems obtain r s1 where p: "publish t ev s = (Inr r, s1)"
    and rest: "publish_each publish events (acc @ [r]) s1 = (Inr rs, s')"
    by (auto simp: te split: prod.splits sum.splits)
  from accepted [OF p] Cons.IH [OF rest] show ?case
    by (auto simp: te)
qed simp

lemma each_error:
  "publish_each publish events acc s = (Inl e, s') \<Longrightarrow>
   \<exists>n < length events. published s' = published s @ map snd (take n events)"
proof (induction events arbitrary: acc s)
  case (Cons te events)
  obtain t ev where te: "te = (t, ev)" by fastforce
  show ?case
  proof (cases "publish t ev s")
    case (Pair res s1)
    show ?thesis
    proof (cases res)
      case (Inl e1)
      with Pair Cons.prems rejected show ?thesis by (intro exI [of _ 0]) (auto simp: te)
    next
      case (Inr r)
      with Pair Cons.prems have "publish_each publish events (acc @ [r]) s1 = (Inl e, s')" by (simp add: te)
      from Cons.IH [OF this] obtain n where "n < length events"
        "published s' = published s1 @ map snd (take n events)" by blast
      with accepted Pair Inr show ?thesis by (intro exI [of _ "Suc n"]) (auto simp: te)
    qed
  qed
qed simp

lemma batch_ok:
  "publish_batch_default publish events s = (Inr rs, s') \<Longrightarrow>
   published s' = published s @ map snd events \<and> map pr_event_id rs = map (ev_id \<circ> snd) events \<and>
   list_all pr_delivered_to_bus rs"
  using each_ok [of events "[]"] by (auto simp: publish_batch_default_def)

lemma batch_error:
  "publish_batch_default publish events s = (Inl e, s') \<Longrightarrow>
   \<exists>n < length events. published s' = published s @ map snd (take n events)"
  using each_error [of events "[]"] by (simp add: publish_batch_default_def)

end

subsection \<open>The broadcast channel\<close>

text \<open>The channel the bus wraps, as its documentation describes it: a ring that holds the latest values,
  at least as many as asked for, and one cursor per receiver, \<open>None\<close> once the receiver is dropped.  A
  receiver further behind than the ring is told by how many values and moved to the oldest one held.\<close>

record broadcast =
  bc_ring :: nat
  bc_sent :: "EventEnvelope list"
  bc_cursors :: "nat option list"
  bc_closed :: bool

datatype recv_result = RecvOk EventEnvelope | RecvLagged nat | RecvClosed

definition bc_oldest :: "broadcast \<Rightarrow> nat" where
  "bc_oldest b = length (bc_sent b) - bc_ring b"

definition broadcast_send :: "EventEnvelope \<Rightarrow> broadcast \<Rightarrow> broadcast option" where
  "broadcast_send ev b =
     (if list_ex (\<lambda>c. c \<noteq> None) (bc_cursors b) then Some (b\<lparr>bc_sent := bc_sent b @ [ev]\<rparr>) else None)"

definition bc_move :: "nat \<Rightarrow> nat \<Rightarrow> broadcast \<Rightarrow> broadcast" where
  "bc_move i pos b = b\<lparr>bc_cursors := (bc_cursors b)[i := Some pos]\<rparr>"

text \<open>\<open>None\<close>: no receiver of that number, or nothing to receive yet.\<close>

definition broadcast_recv :: "nat \<Rightarrow> broadcast \<Rightarrow> (recv_result \<times> broadcast) option" where
  "broadcast_recv i b =
     (if i < length (bc_cursors b) then
        (case bc_cursors b ! i of
           None \<Rightarrow> None
         | Some pos \<Rightarrow>
             if pos < bc_oldest b then Some (RecvLagged (bc_oldest b - pos), bc_move i (bc_oldest b) b)
             else if pos < length (bc_sent b) then Some (RecvOk (bc_sent b ! pos), bc_move i (Suc pos) b)
             else if bc_closed b then Some (RecvClosed, b) else None)
      else None)"

subsection \<open>The in-process bus (bus.rs, publisher.rs, subscriber.rs)\<close>

definition DEFAULT_CAPACITY :: nat where
  "DEFAULT_CAPACITY = 65536"

text \<open>\<open>ring\<close> is the size the channel library allots for the capacity; it refuses a capacity of zero.\<close>

definition in_process_bus_new :: "nat \<Rightarrow> nat \<Rightarrow> broadcast option" where
  "in_process_bus_new ring capacity =
     (if capacity = 0 then None
      else Some \<lparr>bc_ring = ring, bc_sent = [], bc_cursors = [], bc_closed = False\<rparr>)"

definition in_process_subscriber :: "string \<Rightarrow> broadcast \<Rightarrow> nat \<times> broadcast" where
  "in_process_subscriber topic_pattern b =
     (length (bc_cursors b), b\<lparr>bc_cursors := bc_cursors b @ [Some (length (bc_sent b))]\<rparr>)"

definition in_process_publish :: "string \<Rightarrow> broadcast bus_op" where
  "in_process_publish show_send_error topic event b =
     (case broadcast_send event b of
        None \<Rightarrow> (Inl (EventBusError (''Failed to publish: '' @ show_send_error)), b)
      | Some b \<Rightarrow> (Inr \<lparr>pr_event_id = ev_id event, pr_sequence = 0, pr_delivered_to_bus = True\<rparr>, b))"

lemma bc_oldest_move [simp]: "bc_oldest (bc_move i p b) = bc_oldest b"
  by (simp add: bc_oldest_def bc_move_def)

text \<open>The loop of \<open>next_event\<close>: a lag is logged and the next value read; it ends since a receiver at the
  oldest value held is not behind.  \<open>None\<close> means it waits.\<close>

definition bc_lags :: "nat \<Rightarrow> broadcast \<Rightarrow> bool" where
  "bc_lags i b = (i < length (bc_cursors b) \<and> (\<exists>pos. bc_cursors b ! i = Some pos \<and> pos < bc_oldest b))"

lemma broadcast_recv_lagged:
  "broadcast_recv i b = Some (RecvLagged n, b') \<Longrightarrow> bc_lags i b \<and> \<not> bc_lags i b' \<and>
     b' = bc_move i (bc_oldest b) b"
  by (auto simp: broadcast_recv_def bc_lags_def bc_oldest_def bc_move_def split: if_splits option.splits)

function in_process_next_event :: "nat \<Rightarrow> broadcast \<Rightarrow> (EventEnvelope option \<times> broadcast) option" where
  "in_process_next_event i b =
     (case broadcast_recv i b of
        None \<Rightarrow> None
      | Some (RecvOk event, b') \<Rightarrow> Some (Some event, b')
      | Some (RecvLagged n, b') \<Rightarrow> in_process_next_event i b'
      | Some (RecvClosed, b') \<Rightarrow> Some (None, b'))"
  by pat_completeness auto

termination in_process_next_event
  by (relation "measure (\<lambda>(i, b). if bc_lags i b then 1 else 0)") (auto dest: broadcast_recv_lagged)

declare in_process_next_event.simps [simp del]

interpretation inproc: event_bus_publisher "in_process_publish msg" bc_sent
  by unfold_locales
    (auto simp: in_process_publish_def broadcast_send_def split: option.splits if_splits)

subsection \<open>What a subscriber receives\<close>

lemma bc_move_sel [simp]:
  "bc_sent (bc_move i p b) = bc_sent b" "bc_ring (bc_move i p b) = bc_ring b"
  "bc_closed (bc_move i p b) = bc_closed b" "length (bc_cursors (bc_move i p b)) = length (bc_cursors b)"
  by (simp_all add: bc_move_def)

lemma bc_move_cursor: "i < length (bc_cursors b) \<Longrightarrow> bc_cursors (bc_move i p b) ! j = (if j = i then Some p else bc_cursors b ! j)"
  by (simp add: bc_move_def nth_list_update)

lemma bc_move_move [simp]: "bc_move i q (bc_move i p b) = bc_move i q b"
  by (simp add: bc_move_def)

text \<open>\<open>next_event\<close> in closed form: the value at the cursor or, for a receiver that lags, the oldest one.\<close>

lemma next_event_spec:
  assumes "i < length (bc_cursors b)" and "bc_cursors b ! i = Some pos"
  shows "in_process_next_event i b =
     (let p = max pos (bc_oldest b) in
      if p < length (bc_sent b) then Some (Some (bc_sent b ! p), bc_move i (Suc p) b)
      else if bc_closed b then Some (None, if pos < bc_oldest b then bc_move i p b else b) else None)"
proof (cases "pos < bc_oldest b")
  case False
  then show ?thesis using assms
    by (subst in_process_next_event.simps) (simp add: broadcast_recv_def max_def)
next
  case True
  let ?b = "bc_move i (bc_oldest b) b"
  have "broadcast_recv i b = Some (RecvLagged (bc_oldest b - pos), ?b)"
    using True assms by (simp add: broadcast_recv_def)
  then have "in_process_next_event i b = in_process_next_event i ?b"
    by (subst in_process_next_event.simps) simp
  also have "\<dots> = (if bc_oldest b < length (bc_sent b) then Some (Some (bc_sent b ! bc_oldest b), bc_move i (Suc (bc_oldest b)) b)
      else if bc_closed b then Some (None, ?b) else None)"
    using assms by (subst in_process_next_event.simps) (simp add: broadcast_recv_def bc_move_cursor)
  finally show ?thesis using True by (simp add: max_def Let_def)
qed

lemma next_event_none:
  "\<not> (i < length (bc_cursors b) \<and> bc_cursors b ! i \<noteq> None) \<Longrightarrow> in_process_next_event i b = None"
  by (subst in_process_next_event.simps) (auto simp: broadcast_recv_def split: option.split)

text \<open>Publishers, subscribers and \<open>next_event\<close> calls in any order, with what each receiver got.\<close>

datatype bus_step = BsPublish string EventEnvelope | BsSubscribe string | BsNext nat | BsDrop nat

fun bus_act :: "string \<Rightarrow> bus_step \<Rightarrow> broadcast \<Rightarrow> (nat \<times> EventEnvelope) list \<times> broadcast" where
  "bus_act msg (BsPublish topic event) b = ([], snd (in_process_publish msg topic event b))"
| "bus_act msg (BsSubscribe pattern) b = ([], snd (in_process_subscriber pattern b))"
| "bus_act msg (BsNext i) b =
     (case in_process_next_event i b of
        Some (Some event, b') \<Rightarrow> ([(i, event)], b')
      | Some (None, b') \<Rightarrow> ([], b')
      | None \<Rightarrow> ([], b))"
| "bus_act msg (BsDrop i) b = ([], b\<lparr>bc_cursors := (bc_cursors b)[i := None]\<rparr>)"

fun bus_run :: "string \<Rightarrow> bus_step list \<Rightarrow> broadcast \<Rightarrow> (nat \<times> EventEnvelope) list \<times> broadcast" where
  "bus_run msg [] b = ([], b)"
| "bus_run msg (step # steps) b =
     (let (r1, b) = bus_act msg step b; (r2, b) = bus_run msg steps b in (r1 @ r2, b))"

definition received_by :: "nat \<Rightarrow> (nat \<times> EventEnvelope) list \<Rightarrow> EventEnvelope list" where
  "received_by i rcv = map snd (filter (\<lambda>(j, _). j = i) rcv)"

text \<open>Receiver \<open>i\<close> subscribed at \<open>st\<close> and has received the values at the positions \<open>ps\<close>.\<close>

definition gaps_lagged :: "nat \<Rightarrow> nat list \<Rightarrow> nat \<Rightarrow> nat \<Rightarrow> nat \<Rightarrow> bool" where
  "gaps_lagged st ps ring n pos = (\<forall>q \<in> {st..<pos}. q \<in> set ps \<or> q + ring < n)"

definition track_ok :: "nat \<Rightarrow> nat list \<Rightarrow> nat \<Rightarrow> nat \<Rightarrow> bool" where
  "track_ok st ps ring n = (sorted_wrt (<) ps \<and> st \<le> n \<and>
     (\<forall>p \<in> set ps. st \<le> p \<and> p < n \<and> gaps_lagged st ps ring n p))"

definition track_at :: "nat \<Rightarrow> nat list \<Rightarrow> nat \<Rightarrow> nat \<Rightarrow> nat \<Rightarrow> bool" where
  "track_at st ps ring n pos =
     (st \<le> pos \<and> pos \<le> n \<and> (\<forall>p \<in> set ps. p < pos) \<and> gaps_lagged st ps ring n pos)"

definition bc_track :: "nat \<Rightarrow> nat \<Rightarrow> nat list \<Rightarrow> broadcast \<Rightarrow> bool" where
  "bc_track i st ps b = (i < length (bc_cursors b) \<and> track_ok st ps (bc_ring b) (length (bc_sent b)) \<and>
     (\<forall>pos. bc_cursors b ! i = Some pos \<longrightarrow> track_at st ps (bc_ring b) (length (bc_sent b)) pos))"

lemma gaps_lagged_grow: "gaps_lagged st ps ring n pos \<Longrightarrow> n \<le> n' \<Longrightarrow> gaps_lagged st ps ring n' pos"
  unfolding gaps_lagged_def by (meson order_less_le_trans)

lemma gaps_lagged_snoc: "gaps_lagged st ps ring n pos \<Longrightarrow> gaps_lagged st (ps @ [p]) ring n pos"
  by (auto simp: gaps_lagged_def)

lemma gaps_lagged_skip:
  "gaps_lagged st ps ring n pos \<Longrightarrow> gaps_lagged st ps ring n (max pos (n - ring))"
  by (auto simp: gaps_lagged_def max_def)

lemma track_ok_grow: "track_ok st ps ring n \<Longrightarrow> n \<le> n' \<Longrightarrow> track_ok st ps ring n'"
  unfolding track_ok_def by (meson gaps_lagged_grow order.trans order_less_le_trans)

lemma track_at_grow: "track_at st ps ring n pos \<Longrightarrow> n \<le> n' \<Longrightarrow> track_at st ps ring n' pos"
  unfolding track_at_def by (meson gaps_lagged_grow order.trans)

lemma track_at_skip:
  assumes "track_at st ps ring n pos"
  shows "track_at st ps ring n (max pos (n - ring))"
proof -
  have "max pos (n - ring) \<le> n" using assms by (simp add: track_at_def)
  moreover have "\<forall>p \<in> set ps. p < max pos (n - ring)"
    using assms unfolding track_at_def by (meson less_max_iff_disj)
  ultimately show ?thesis
    using assms gaps_lagged_skip unfolding track_at_def by (simp add: le_max_iff_disj)
qed

lemma track_snoc:
  assumes ok: "track_ok st ps ring n" and at: "track_at st ps ring n p" and p: "p < n"
  shows "track_ok st (ps @ [p]) ring n" and "track_at st (ps @ [p]) ring n (Suc p)"
proof -
  have g: "gaps_lagged st (ps @ [p]) ring n p" using at gaps_lagged_snoc by (simp add: track_at_def)
  have "\<forall>q \<in> set ps. gaps_lagged st (ps @ [p]) ring n q" using ok gaps_lagged_snoc by (simp add: track_ok_def)
  then show "track_ok st (ps @ [p]) ring n"
    using ok at g p unfolding track_ok_def track_at_def by (simp add: sorted_wrt_append)
  have "gaps_lagged st (ps @ [p]) ring n (Suc p)"
    using g by (auto simp: gaps_lagged_def less_Suc_eq)
  then show "track_at st (ps @ [p]) ring n (Suc p)"
    using at p unfolding track_at_def by (simp add: less_Suc_eq)
qed

definition bc_at :: "broadcast \<Rightarrow> nat list \<Rightarrow> EventEnvelope list" where
  "bc_at b ps = map (\<lambda>p. bc_sent b ! p) ps"

lemma bus_act_grows:
  "bus_act msg step b = (r, b') \<Longrightarrow> bc_ring b' = bc_ring b \<and> (\<exists>evs. bc_sent b' = bc_sent b @ evs)"
proof (cases step)
  case (BsNext i)
  then show "bus_act msg step b = (r, b') \<Longrightarrow> ?thesis"
    using next_event_none [of i b] next_event_spec [of i b]
    by (cases "i < length (bc_cursors b) \<and> bc_cursors b ! i \<noteq> None") (auto simp: Let_def split: if_splits)
qed (auto simp: in_process_publish_def broadcast_send_def in_process_subscriber_def split: option.splits if_splits)

lemma bc_track_same:
  assumes "bc_track i st ps b" and "bc_sent b' = bc_sent b @ evs" and "bc_ring b' = bc_ring b"
    and "length (bc_cursors b) \<le> length (bc_cursors b')"
    and "bc_cursors b' ! i \<in> {None, bc_cursors b ! i}"
  shows "bc_track i st ps b'"
proof -
  have n: "length (bc_sent b) \<le> length (bc_sent b')" by (simp add: assms(2))
  show ?thesis
    using assms(1,3,4,5) track_ok_grow [OF _ n] track_at_grow [OF _ n] unfolding bc_track_def by auto
qed

lemma bc_track_move:
  assumes "bc_track i st ps b" and "track_ok st qs (bc_ring b) (length (bc_sent b))"
    and "track_at st qs (bc_ring b) (length (bc_sent b)) pos"
  shows "bc_track i st qs (bc_move i pos b)"
  using assms by (auto simp: bc_track_def bc_move_cursor)

lemma bc_track_next:
  assumes "bc_track i st ps b"
  obtains "in_process_next_event i b = None"
  | b' where "in_process_next_event i b = Some (None, b')" and "bc_track i st ps b'"
  | p b' where "in_process_next_event i b = Some (Some (bc_sent b ! p), b')" and "bc_sent b' = bc_sent b"
      and "bc_track i st (ps @ [p]) b'"
proof (cases "bc_cursors b ! i")
  case None
  then have "in_process_next_event i b = None" by (intro next_event_none) simp
  then show ?thesis by (rule that(1))
next
  case (Some pos)
  let ?p = "max pos (bc_oldest b)"
  have i: "i < length (bc_cursors b)" and ok: "track_ok st ps (bc_ring b) (length (bc_sent b))"
    and at: "track_at st ps (bc_ring b) (length (bc_sent b)) pos"
    using assms Some by (simp_all add: bc_track_def)
  have at': "track_at st ps (bc_ring b) (length (bc_sent b)) ?p"
    using track_at_skip [OF at] by (simp add: bc_oldest_def)
  note spec = next_event_spec [OF i Some, unfolded Let_def]
  consider "?p < length (bc_sent b)" | "\<not> ?p < length (bc_sent b)" "bc_closed b"
    | "\<not> ?p < length (bc_sent b)" "\<not> bc_closed b" by blast
  then show ?thesis
  proof cases
    case 1
    then show ?thesis
      using that(3) spec bc_track_move [OF assms track_snoc [OF ok at' 1]] by simp
  next
    case 2
    have "bc_track i st ps (if pos < bc_oldest b then bc_move i ?p b else b)"
      using assms bc_track_move [OF assms ok at'] by (simp add: max_def split: if_splits)
    then show ?thesis using that(2) spec 2 by simp
  qed (use that(1) spec in simp)
qed

lemma bc_track_step:
  assumes "bc_track i st ps b" and "bus_act msg step b = (r, b')"
  shows "\<exists>qs. received_by i r = bc_at b' qs \<and> bc_track i st (ps @ qs) b'"
proof (cases step)
  case (BsPublish topic event)
  then show ?thesis using assms bc_track_same [OF assms(1), of b']
    by (intro exI [of _ "[]"])
      (auto simp: received_by_def bc_at_def in_process_publish_def broadcast_send_def split: if_splits)
next
  case (BsSubscribe pattern)
  have "i < length (bc_cursors b)" using assms(1) by (simp add: bc_track_def)
  then show ?thesis using assms BsSubscribe bc_track_same [OF assms(1), of b' "[]"]
    by (intro exI [of _ "[]"]) (auto simp: received_by_def bc_at_def in_process_subscriber_def nth_append)
next
  case (BsDrop j)
  have "i < length (bc_cursors b)" using assms(1) by (simp add: bc_track_def)
  then show ?thesis using assms BsDrop bc_track_same [OF assms(1), of b' "[]"]
    by (intro exI [of _ "[]"], cases "j = i") (auto simp: received_by_def bc_at_def)
next
  case (BsNext j)
  show ?thesis
  proof (cases "j = i")
    case True
    from assms(1) show ?thesis
    proof (cases rule: bc_track_next)
      case 1
      then show ?thesis using assms BsNext True by (intro exI [of _ "[]"]) (simp add: received_by_def bc_at_def)
    next
      case (2 b2)
      then show ?thesis using assms BsNext True by (intro exI [of _ "[]"]) (simp add: received_by_def bc_at_def)
    next
      case (3 p b2)
      then show ?thesis using assms BsNext True by (intro exI [of _ "[p]"]) (auto simp: received_by_def bc_at_def)
    qed
  next
    case False
    have "bc_sent b' = bc_sent b @ [] \<and> bc_ring b' = bc_ring b \<and> bc_cursors b' ! i = bc_cursors b ! i \<and>
      length (bc_cursors b') = length (bc_cursors b) \<and> received_by i r = []"
      using assms(2) BsNext False next_event_none [of j b] next_event_spec [of j b]
      by (cases "j < length (bc_cursors b) \<and> bc_cursors b ! j \<noteq> None")
        (auto simp: Let_def received_by_def bc_move_cursor split: if_splits)
    then show ?thesis using bc_track_same [OF assms(1), of b' "[]"]
      by (intro exI [of _ "[]"]) (simp add: bc_at_def)
  qed
qed

lemma bc_track_run:
  "bc_track i st ps b \<Longrightarrow> bus_run msg steps b = (r, b') \<Longrightarrow>
   \<exists>qs. received_by i r = bc_at b' qs \<and> bc_track i st (ps @ qs) b' \<and> (\<exists>evs. bc_sent b' = bc_sent b @ evs) \<and>
     bc_ring b' = bc_ring b"
proof (induction steps arbitrary: ps b r)
  case (Cons step steps)
  obtain r1 b1 where a: "bus_act msg step b = (r1, b1)" by fastforce
  obtain r2 where rest: "bus_run msg steps b1 = (r2, b')" and r: "r = r1 @ r2"
    using Cons.prems(2) a by (auto split: prod.splits)
  obtain qs1 where q1: "received_by i r1 = bc_at b1 qs1" "bc_track i st (ps @ qs1) b1"
    using bc_track_step [OF Cons.prems(1) a] by blast
  obtain qs2 evs where q2: "received_by i r2 = bc_at b' qs2" "bc_track i st ((ps @ qs1) @ qs2) b'"
    "bc_sent b' = bc_sent b1 @ evs" "bc_ring b' = bc_ring b1"
    using Cons.IH [OF q1(2) rest] by blast
  have "bc_at b' qs1 = bc_at b1 qs1"
    using q1(2) q2(3) by (auto simp: bc_at_def bc_track_def track_ok_def nth_append)
  then have "received_by i r = bc_at b' (qs1 @ qs2)"
    using q1(1) q2(1) by (simp add: r received_by_def bc_at_def)
  moreover have "\<exists>evs. bc_sent b' = bc_sent b @ evs" "bc_ring b' = bc_ring b"
    using q2(3,4) bus_act_grows [OF a] by auto
  ultimately show ?case using q2(2) by (intro exI [of _ "qs1 @ qs2"]) simp
qed (auto simp: received_by_def bc_at_def intro!: exI [of _ "[]"])

lemma gap_free_upt:
  "sorted_wrt (<) ps \<Longrightarrow> (\<And>p. p \<in> set ps \<Longrightarrow> st \<le> p \<and> {st..<p} \<subseteq> set ps) \<Longrightarrow> ps = [st..<st + length ps]"
proof (induction ps rule: rev_induct)
  case (snoc p qs)
  have lt: "q < p" if "q \<in> set qs" for q using snoc.prems(1) that by (simp add: sorted_wrt_append)
  have p: "st \<le> p" "{st..<p} \<subseteq> set (qs @ [p])" using snoc.prems(2) [of p] by simp_all
  have sub: "{st..<p} \<subseteq> set qs" using p(2) by auto
  have "qs = [st..<st + length qs]"
  proof (rule snoc.IH)
    show "sorted_wrt (<) qs" using snoc.prems(1) by (simp add: sorted_wrt_append)
    show "st \<le> q \<and> {st..<q} \<subseteq> set qs" if "q \<in> set qs" for q
    proof
      show "st \<le> q" using snoc.prems(2) [of q] that by simp
      have "{st..<q} \<subseteq> {st..<p}" using lt [OF that] by auto
      then show "{st..<q} \<subseteq> set qs" using sub by blast
    qed
  qed
  moreover from this have qs: "set qs = {st..<st + length qs}" by (metis set_upt)
  moreover have "p = st + length qs"
    using lt sub p(1) unfolding qs by (metis atLeastLessThan_iff le_add1 linorder_neqE_nat order_less_irrefl subsetD)
  ultimately show ?case by (simp add: upt_Suc_append)
qed simp

lemma track_start:
  "in_process_subscriber pattern b = (i, b1) \<Longrightarrow>
   bc_track i (length (bc_sent b)) [] b1 \<and> bc_sent b1 = bc_sent b \<and> bc_ring b1 = bc_ring b"
  by (auto simp: in_process_subscriber_def bc_track_def track_ok_def track_at_def gaps_lagged_def)

subsection \<open>Properties\<close>

text \<open>
  C24: The bus delivers in order.  Whatever publishers, subscribers and \<open>next_event\<close> calls do afterwards, a
  receiver gets events published after it subscribed, in publication order and none twice; it misses an
  event only when more than a ringful was published behind it, and as long as no more than a ringful
  has been published since it subscribed it gets them from the first on without a gap.
\<close>

theorem bus_in_order:
  assumes "in_process_subscriber pattern b = (i, b1)" and "bus_run msg steps b1 = (rcv, b2)"
  shows "\<exists>ps. sorted_wrt (<) ps \<and> received_by i rcv = map (\<lambda>p. bc_sent b2 ! p) ps \<and>
     (\<forall>p \<in> set ps. length (bc_sent b) \<le> p \<and> p < length (bc_sent b2)) \<and>
     (\<forall>p \<in> set ps. \<forall>q \<in> {length (bc_sent b)..<p}. q \<in> set ps \<or> q + bc_ring b < length (bc_sent b2)) \<and>
     (length (bc_sent b2) \<le> length (bc_sent b) + bc_ring b \<longrightarrow>
        received_by i rcv = take (length ps) (drop (length (bc_sent b)) (bc_sent b2)))"
proof -
  let ?st = "length (bc_sent b)"
  from bc_track_run [OF _ assms(2)] track_start [OF assms(1)] obtain ps where
    r: "received_by i rcv = map (\<lambda>p. bc_sent b2 ! p) ps" and tr: "bc_track i ?st ps b2" and ring: "bc_ring b2 = bc_ring b"
    unfolding bc_at_def by fastforce
  from tr have ok: "track_ok ?st ps (bc_ring b) (length (bc_sent b2))" by (simp add: bc_track_def ring)
  have "received_by i rcv = take (length ps) (drop ?st (bc_sent b2))"
    if short: "length (bc_sent b2) \<le> ?st + bc_ring b"
  proof -
    have ps: "ps = [?st..<?st + length ps]"
    proof (rule gap_free_upt)
      show "?st \<le> p \<and> {?st..<p} \<subseteq> set ps" if "p \<in> set ps" for p
      proof -
        have "gaps_lagged ?st ps (bc_ring b) (length (bc_sent b2)) p" and "?st \<le> p"
          using ok that by (simp_all add: track_ok_def)
        then show ?thesis using short by (auto simp: gaps_lagged_def)
      qed
    qed (use ok in \<open>simp add: track_ok_def\<close>)
    have "?st + length ps \<le> length (bc_sent b2)"
    proof (cases ps rule: rev_cases)
      case (snoc qs p)
      have "?st + length qs \<in> set ps" by (subst ps) (simp add: snoc)
      then show ?thesis using ok snoc by (fastforce simp: track_ok_def)
    qed (use ok in \<open>simp add: track_ok_def\<close>)
    then show ?thesis unfolding r
      by (intro nth_equalityI) (use ps in \<open>auto simp: nth_upt dest: arg_cong [where f = "\<lambda>l. l ! _"]\<close>, metis nth_upt nat_add_left_cancel_less)
  qed
  then show ?thesis using r ok by (intro exI [of _ ps]) (auto simp: track_ok_def gaps_lagged_def)
qed

text \<open>A ring of two: three events are published before the receiver reads, which gets the last two.\<close>

definition demo_bus :: broadcast where
  "demo_bus = \<lparr>bc_ring = 2, bc_sent = [], bc_cursors = [], bc_closed = False\<rparr>"

definition demo_steps :: "bus_step list" where
  "demo_steps = map (\<lambda>t. BsPublish t (demo_event t ''p'')) [''a'', ''b'', ''c''] @ [BsNext 0, BsNext 0, BsNext 0]"

theorem bus_in_order_witness:
  "\<exists>rcv b. bus_run ''closed'' demo_steps (snd (in_process_subscriber ''*'' demo_bus)) = (rcv, b) \<and>
     received_by 0 rcv = [demo_event ''b'' ''p'', demo_event ''c'' ''p''] \<and>
     (\<exists>ps. sorted_wrt (<) ps \<and> received_by 0 rcv = map (\<lambda>p. bc_sent b ! p) ps)"
proof -
  have s: "in_process_subscriber ''*'' demo_bus = (0, snd (in_process_subscriber ''*'' demo_bus))"
    by (simp add: in_process_subscriber_def demo_bus_def)
  obtain rcv b where r: "bus_run ''closed'' demo_steps (snd (in_process_subscriber ''*'' demo_bus)) = (rcv, b)"
    by fastforce
  have "received_by 0 (fst (bus_run ''closed'' demo_steps (snd (in_process_subscriber ''*'' demo_bus)))) =
      [demo_event ''b'' ''p'', demo_event ''c'' ''p'']"
    by (simp add: in_process_subscriber_def demo_bus_def demo_steps_def in_process_publish_def broadcast_send_def
        received_by_def next_event_spec bc_oldest_def bc_move_def)
  with r bus_in_order [OF s r] show ?thesis by auto
qed

end
