(* ===== verification/Rt_Rest.thy ===== *)
theory Rt_Rest
  imports Rt_Bus Rt_Session
begin

text \<open>
  The REST API (\<open>crates/realtime-gateway/src/rest_api.rs\<close>) with its request and response types
  (\<open>realtime-core/src/protocol.rs\<close>) and the health of a database producer (\<open>ws_handler/mod.rs\<close>).
  The publish handlers are clients of the publisher interface; a response is its status and its JSON
  body.  Lemmas, in the interface: a request that is refused publishes nothing and an accepted one
  publishes its events in order.
\<close>

subsection \<open>Requests and responses (protocol.rs)\<close>

record PublishRequest =
  rq_topic :: string
  rq_event_type :: string
  rq_payload :: json
  rq_idempotency_key :: "string option"
  rq_source :: "EventSource option"
  rq_ttl_ms :: "u32 option"

record BatchPublishRequest =
  bq_events :: "PublishRequest list"

record PublishResponse =
  ps_event_id :: string
  ps_sequence :: u64
  ps_delivered_to_bus :: bool

record BatchPublishResponse =
  bp_results :: "PublishResponse list"

record ProducerHealth =
  ph_name :: string
  ph_attached :: "bool option"

record HealthResponse =
  hr_status :: string
  hr_connections :: u64
  hr_subscriptions :: u64
  hr_uptime_seconds :: u64
  hr_filter_index :: "json option"
  hr_dispatch :: "json option"
  hr_producers :: "ProducerHealth list"

text \<open>A number as \<open>serde_json\<close> holds it, and the derived writers of the two responses.\<close>

definition json_u64 :: "u64 \<Rightarrow> json" where
  "json_u64 n = JNumber (if unat n < 2 ^ 63 then NumI64 n else NumU64 n)"

definition publish_response_json :: "PublishResponse \<Rightarrow> json" where
  "publish_response_json r = JObject [(''event_id'', JString (ps_event_id r)),
     (''sequence'', json_u64 (ps_sequence r)), (''delivered_to_bus'', JBool (ps_delivered_to_bus r))]"

definition batch_response_json :: "BatchPublishResponse \<Rightarrow> json" where
  "batch_response_json r = JObject [(''results'', JArray (map publish_response_json (bp_results r)))]"

type_synonym api_response = "u16 \<times> json"

definition error_body :: "string \<Rightarrow> json" where
  "error_body message = JObject [(''error'', JString message)]"

text \<open>The text of the JSON writer's error, and the derived writers of the two snapshots.\<close>

record RestExt =
  rx_ser_error :: "json \<Rightarrow> string"
  rx_filter_stats :: "StatsSnapshot \<Rightarrow> json option"
  rx_dispatch_stats :: "DispatchSnapshot \<Rightarrow> json option"

subsection \<open>Publishing (rest_api.rs)\<close>

definition validate_and_create_envelope ::
    "Format \<Rightarrow> RestExt \<Rightarrow> Tick \<Rightarrow> PublishRequest \<Rightarrow> (api_response, EventEnvelope) result" where
  "validate_and_create_envelope fm rx tk req =
     (if rq_topic req = [] then Inl (400, error_body ''Topic is required'')
      else case x_to_vec (fm_ext fm) (rq_payload req) of
             None \<Rightarrow> Inl (400, error_body (''Invalid payload: '' @ rx_ser_error rx (rq_payload req)))
           | Some bytes \<Rightarrow>
               if 65536 < length bytes then Inl (413, error_body ''Payload exceeds 64KB limit'')
               else Inr (envelope_new (tk_uuid tk) (tk_now tk) (topic_new (rq_topic req)) (rq_event_type req) bytes))"

fun validate_items ::
    "Format \<Rightarrow> RestExt \<Rightarrow> (nat \<Rightarrow> Tick) \<Rightarrow> PublishRequest list \<Rightarrow> (string \<times> EventEnvelope) list
      \<Rightarrow> (api_response, (string \<times> EventEnvelope) list) result" where
  "validate_items fm rx tks [] events = Inr events"
| "validate_items fm rx tks (item # items) events =
     (case x_to_vec (fm_ext fm) (rq_payload item) of
        None \<Rightarrow> Inl (400, error_body (''Invalid payload: '' @ rx_ser_error rx (rq_payload item)))
      | Some bytes \<Rightarrow>
          if 65536 < length bytes then Inl (413, error_body ''Payload exceeds 64KB'')
          else
            let ev = envelope_new (tk_uuid (tks 0)) (tk_now (tks 0)) (topic_new (rq_topic item))
                       (rq_event_type item) bytes
            in validate_items fm rx (tks \<circ> Suc) items (events @ [(rq_topic item, ev)]))"

definition validate_batch ::
    "Format \<Rightarrow> RestExt \<Rightarrow> (nat \<Rightarrow> Tick) \<Rightarrow> BatchPublishRequest
      \<Rightarrow> (api_response, (string \<times> EventEnvelope) list) result" where
  "validate_batch fm rx tks req =
     (if bq_events req = [] then Inl (400, error_body ''At least one event is required'')
      else if 1000 < length (bq_events req) then Inl (400, error_body ''Maximum 1000 events per batch'')
      else validate_items fm rx tks (bq_events req) [])"

definition response_of :: "Format \<Rightarrow> PublishReceipt \<Rightarrow> PublishResponse" where
  "response_of fm receipt = \<lparr>ps_event_id = fm_uuid fm (pr_event_id receipt),
     ps_sequence = pr_sequence receipt, ps_delivered_to_bus = pr_delivered_to_bus receipt\<rparr>"

definition publish_event ::
    "Format \<Rightarrow> RestExt \<Rightarrow> 's bus_op \<Rightarrow> Tick \<Rightarrow> PublishRequest \<Rightarrow> 's \<Rightarrow> api_response \<times> 's" where
  "publish_event fm rx publish tk req s =
     (case validate_and_create_envelope fm rx tk req of
        Inl resp \<Rightarrow> (resp, s)
      | Inr event \<Rightarrow>
          (case publish (rq_topic req) event s of
             (Inr receipt, s) \<Rightarrow> ((200, publish_response_json (response_of fm receipt)), s)
           | (Inl e, s) \<Rightarrow> ((500, error_body (''Publish failed: '' @ show_error e)), s)))"

definition publish_batch ::
    "Format \<Rightarrow> RestExt \<Rightarrow> 's bus_op \<Rightarrow> (nat \<Rightarrow> Tick) \<Rightarrow> BatchPublishRequest \<Rightarrow> 's \<Rightarrow> api_response \<times> 's" where
  "publish_batch fm rx publish tks req s =
     (case validate_batch fm rx tks req of
        Inl resp \<Rightarrow> (resp, s)
      | Inr events \<Rightarrow>
          (case publish_batch_default publish events s of
             (Inr receipts, s) \<Rightarrow>
               let results = map (response_of fm) receipts
               in ((200, batch_response_json \<lparr>bp_results = results\<rparr>), s)
           | (Inl e, s) \<Rightarrow> ((500, error_body (''Batch failed: '' @ show_error e)), s)))"

subsection \<open>Health, metrics and presence (rest_api.rs, ws_handler/mod.rs)\<close>

text \<open>\<open>pd_reported\<close> is the producer's own answer to \<open>attached\<close>.\<close>

record ProducerHandle =
  pd_name :: string
  pd_reported :: "bool option"
  pd_ended :: bool

definition handle_attached :: "ProducerHandle \<Rightarrow> bool option" where
  "handle_attached h = (if pd_ended h then Some False else pd_reported h)"

definition health_check ::
    "RestExt \<Rightarrow> ProducerHandle list \<Rightarrow> u64 \<Rightarrow> Metrics \<Rightarrow> 'r World \<Rightarrow> u16 \<times> HealthResponse" where
  "health_check rx handles uptime m w =
     (let filter_snapshot = filter_index_snapshot (w_registry w);
          producers = map (\<lambda>p. \<lparr>ph_name = pd_name p, ph_attached = handle_attached p\<rparr>) handles;
          detached = list_ex (\<lambda>p. ph_attached p = Some False) producers;
          status = (if detached \<or> 0 < circuit_bypassed filter_snapshot then ''degraded'' else ''ok'');
          resp = \<lparr>hr_status = status,
                  hr_connections = of_nat (cm_connection_count (w_conn_manager w)),
                  hr_subscriptions = of_nat (subscription_count (w_registry w)),
                  hr_uptime_seconds = uptime,
                  hr_filter_index = rx_filter_stats rx filter_snapshot,
                  hr_dispatch = rx_dispatch_stats rx (metrics_snapshot m),
                  hr_producers = producers\<rparr>
      in (if detached then 503 else 200, resp))"

definition prometheus :: "Metrics \<Rightarrow> u16 \<times> string \<times> string" where
  "prometheus m = (200, ''text/plain; version=0.0.4; charset=utf-8'', render_prometheus m)"

record PresenceQuery =
  qp_topic :: string

record PresenceResponse =
  pp_topic :: string
  pp_members :: "PresenceMember list"

definition presence_response_json :: "PresenceResponse \<Rightarrow> json" where
  "presence_response_json r =
     JObject [(''topic'', JString (pp_topic r)), (''members'', JArray (map member_to_json (pp_members r)))]"

definition presence_query :: "'r App \<Rightarrow> PresenceQuery \<Rightarrow> 'r World \<Rightarrow> api_response \<times> 'r World" where
  "presence_query app q w =
     (if qp_topic q = [] then ((400, error_body ''topic query parameter is required''), w)
      else
        let (members, w) = (case app_shared app of
              Some (R, mc, sp) \<Rightarrow>
                (let (members, redis) = shared_members R mc sp (qp_topic q) (w_redis w)
                 in (members, w\<lparr>w_redis := redis\<rparr>))
            | None \<Rightarrow> (presence_members (qp_topic q) (w_presence w), w))
        in ((200, presence_response_json \<lparr>pp_topic = qp_topic q, pp_members = members\<rparr>), w))"

subsection \<open>What a request publishes\<close>

definition payload_ok :: "Format \<Rightarrow> PublishRequest \<Rightarrow> bool" where
  "payload_ok fm req = (case x_to_vec (fm_ext fm) (rq_payload req) of None \<Rightarrow> False | Some bytes \<Rightarrow> length bytes \<le> 65536)"

definition request_envelope :: "Format \<Rightarrow> Tick \<Rightarrow> PublishRequest \<Rightarrow> EventEnvelope" where
  "request_envelope fm tk req = envelope_new (tk_uuid tk) (tk_now tk) (TopicPath (rq_topic req))
     (rq_event_type req) (the (x_to_vec (fm_ext fm) (rq_payload req)))"

fun batch_envelopes :: "Format \<Rightarrow> (nat \<Rightarrow> Tick) \<Rightarrow> PublishRequest list \<Rightarrow> (string \<times> EventEnvelope) list" where
  "batch_envelopes fm tks [] = []"
| "batch_envelopes fm tks (item # items) =
     (rq_topic item, request_envelope fm (tks 0) item) # batch_envelopes fm (tks \<circ> Suc) items"

lemma length_batch_envelopes [simp]: "length (batch_envelopes fm tks items) = length items"
  by (induction items arbitrary: tks) auto

lemma validate_envelope_cases:
  obtains (bad) resp where "validate_and_create_envelope fm rx tk req = Inl resp" and "fst resp \<in> {400, 413}"
      and "rq_topic req = [] \<or> \<not> payload_ok fm req"
  | (ok) "validate_and_create_envelope fm rx tk req = Inr (request_envelope fm tk req)"
      and "rq_topic req \<noteq> []" and "payload_ok fm req"
proof (cases "rq_topic req \<noteq> [] \<and> payload_ok fm req")
  case True
  then have "validate_and_create_envelope fm rx tk req = Inr (request_envelope fm tk req)"
    by (auto simp: validate_and_create_envelope_def payload_ok_def request_envelope_def topic_new_def
        split: option.splits)
  then show ?thesis using ok True by blast
next
  case False
  then have "\<exists>resp. validate_and_create_envelope fm rx tk req = Inl resp \<and> fst resp \<in> {400, 413}"
    by (auto simp: validate_and_create_envelope_def payload_ok_def split: option.splits)
  then show ?thesis using bad False by blast
qed

lemma validate_items_ok:
  "list_all (payload_ok fm) items \<Longrightarrow>
   validate_items fm rx tks items events = Inr (events @ batch_envelopes fm tks items)"
  by (induction items arbitrary: tks events)
    (auto simp: payload_ok_def request_envelope_def topic_new_def Let_def split: option.splits)

lemma validate_items_bad:
  "\<not> list_all (payload_ok fm) items \<Longrightarrow>
   \<exists>resp. validate_items fm rx tks items events = Inl resp \<and> fst resp \<in> {400, 413}"
  by (induction items arbitrary: tks events) (auto simp: payload_ok_def Let_def split: option.splits)

lemma validate_batch_cases:
  obtains (bad) resp where "validate_batch fm rx tks req = Inl resp" and "fst resp \<in> {400, 413}"
      and "bq_events req = [] \<or> 1000 < length (bq_events req) \<or> \<not> list_all (payload_ok fm) (bq_events req)"
  | (ok) "validate_batch fm rx tks req = Inr (batch_envelopes fm tks (bq_events req))"
      and "bq_events req \<noteq> []" and "length (bq_events req) \<le> 1000" and "list_all (payload_ok fm) (bq_events req)"
proof (cases "bq_events req \<noteq> [] \<and> length (bq_events req) \<le> 1000 \<and> list_all (payload_ok fm) (bq_events req)")
  case True
  then have "validate_batch fm rx tks req = Inr (batch_envelopes fm tks (bq_events req))"
    by (simp add: validate_batch_def validate_items_ok)
  then show ?thesis using ok True by blast
next
  case False
  then have "\<exists>resp. validate_batch fm rx tks req = Inl resp \<and> fst resp \<in> {400, 413}"
    using validate_items_bad [of fm "bq_events req" rx tks "[]"] by (auto simp: validate_batch_def)
  then show ?thesis using bad False not_le by blast
qed

context event_bus_publisher
begin

lemma rest_event_published:
  "publish_event fm rx publish tk req s = ((st, body), s') \<Longrightarrow>
   published s' = published s @ (if st = 200 then [request_envelope fm tk req] else []) \<and> st \<in> {200, 400, 413, 500}"
  by (cases rule: validate_envelope_cases [of fm rx tk req])
    (auto simp: publish_event_def dest: accepted rejected split: prod.splits sum.splits)

lemma rest_batch_published:
  "publish_batch fm rx publish tks req s = ((st, body), s') \<Longrightarrow>
   st \<in> {200, 400, 413, 500} \<and>
   (\<exists>n. published s' = published s @ map snd (take n (batch_envelopes fm tks (bq_events req))) \<and>
      (st = 200 \<longrightarrow> n = length (bq_events req)) \<and> (st = 400 \<or> st = 413 \<longrightarrow> n = 0))"
proof (cases rule: validate_batch_cases [of fm rx tks req])
  case (bad resp)
  then show "publish_batch fm rx publish tks req s = ((st, body), s') \<Longrightarrow> ?thesis"
    by (auto simp: publish_batch_def)
next
  case ok
  obtain res s1 where p: "publish_batch_default publish (batch_envelopes fm tks (bq_events req)) s = (res, s1)"
    by fastforce
  show "publish_batch fm rx publish tks req s = ((st, body), s') \<Longrightarrow> ?thesis"
    using ok p batch_ok [of "batch_envelopes fm tks (bq_events req)" s] batch_error [of "batch_envelopes fm tks (bq_events req)" s]
    by (cases res) (auto simp: publish_batch_def)
qed

end

subsection \<open>On the in-process bus\<close>

definition has_receiver :: "broadcast \<Rightarrow> bool" where
  "has_receiver b = list_ex (\<lambda>c. c \<noteq> None) (bc_cursors b)"

lemma in_process_publish_result:
  "in_process_publish msg t ev b =
     (if has_receiver b
      then (Inr \<lparr>pr_event_id = ev_id ev, pr_sequence = 0, pr_delivered_to_bus = True\<rparr>, b\<lparr>bc_sent := bc_sent b @ [ev]\<rparr>)
      else (Inl (EventBusError (''Failed to publish: '' @ msg)), b))"
  by (simp add: in_process_publish_def broadcast_send_def has_receiver_def)

lemma in_process_each:
  "publish_each (in_process_publish msg) events acc b =
     (if events = [] then (Inr acc, b)
      else if has_receiver b
      then (Inr (acc @ map (\<lambda>(t, ev). \<lparr>pr_event_id = ev_id ev, pr_sequence = 0, pr_delivered_to_bus = True\<rparr>) events),
            b\<lparr>bc_sent := bc_sent b @ map snd events\<rparr>)
      else (Inl (EventBusError (''Failed to publish: '' @ msg)), b))"
  by (induction events arbitrary: acc b) (auto simp: in_process_publish_result has_receiver_def)

text \<open>
  REST publishing is exact.  On the in-process bus a request is answered 200 exactly when its topic is
  not empty, its payload serializes to at most 64 KiB and the bus has a receiver; then the bus has gained
  the one event the request describes, and under any other answer (400, 413, 500) it has gained none.
\<close>

theorem rest_publish_exact:
  "let ((st, body), b') = publish_event fm rx (in_process_publish msg) tk req b in
     (st = 200 \<longleftrightarrow> rq_topic req \<noteq> [] \<and> payload_ok fm req \<and> has_receiver b) \<and>
     st \<in> {200, 400, 413, 500} \<and>
     bc_sent b' = bc_sent b @ (if st = 200 then [request_envelope fm tk req] else [])"
proof -
  obtain st body b' where r: "publish_event fm rx (in_process_publish msg) tk req b = ((st, body), b')"
    by (metis prod.collapse)
  have "st = 200 \<longleftrightarrow> rq_topic req \<noteq> [] \<and> payload_ok fm req \<and> has_receiver b"
    using r by (cases rule: validate_envelope_cases [of fm rx tk req])
      (auto simp: publish_event_def in_process_publish_result split: if_splits)
  then show ?thesis using inproc.rest_event_published [OF r] r by simp
qed

text \<open>
  C25: A REST batch is all or nothing on the in-process bus.  It is answered 200 exactly when it has between
  1 and 1000 events, every payload serializes to at most 64 KiB and the bus has a receiver; then the bus has
  gained all its events in their order, and otherwise none.  The topics are not looked at: unlike the
  single request, a batch may publish on the empty topic.
\<close>

theorem rest_batch_all_or_nothing:
  "let ((st, body), b') = publish_batch fm rx (in_process_publish msg) tks req b in
     (st = 200 \<longleftrightarrow> bq_events req \<noteq> [] \<and> length (bq_events req) \<le> 1000 \<and>
        list_all (payload_ok fm) (bq_events req) \<and> has_receiver b) \<and>
     st \<in> {200, 400, 413, 500} \<and>
     bc_sent b' = bc_sent b @ (if st = 200 then map snd (batch_envelopes fm tks (bq_events req)) else [])"
proof -
  obtain st body b' where r: "publish_batch fm rx (in_process_publish msg) tks req b = ((st, body), b')"
    by (metis prod.collapse)
  have ne: "batch_envelopes fm tks (bq_events req) = [] \<longleftrightarrow> bq_events req = []"
    by (metis length_0_conv length_batch_envelopes)
  have "(st = 200 \<longleftrightarrow> bq_events req \<noteq> [] \<and> length (bq_events req) \<le> 1000 \<and>
        list_all (payload_ok fm) (bq_events req) \<and> has_receiver b) \<and>
     bc_sent b' = bc_sent b @ (if st = 200 then map snd (batch_envelopes fm tks (bq_events req)) else [])"
    using r by (cases rule: validate_batch_cases [of fm rx tks req])
      (auto simp: publish_batch_def publish_batch_default_def in_process_each ne split: if_splits)
  then show ?thesis using inproc.rest_batch_published [OF r] r by simp
qed

end
