(* ===== verification/Rt_Db.thy ===== *)
theory Rt_Db
  imports Rt_Rest
begin

text \<open>
  The database producers: the parsers of \<open>crates/realtime-db-postgres/src/producer/parser.rs\<close> and
  \<open>crates/realtime-db-mongodb/src/producer/parser.rs\<close>, the life of the PostgreSQL listener
  (\<open>lifecycle.rs\<close>), the registry of adapters (\<open>realtime-engine/src/producer_registry.rs\<close>) and the
  task of \<open>realtime-server/src/server.rs\<close> that starts a producer and forwards its events to the bus.
  Lemmas: the delays double up to a cap; a listener reports itself attached exactly while it listens; the
  notification a trigger writes becomes the event of its row; every event of a producer is published in
  order.
\<close>

subsection \<open>Configuration (db-postgres config.rs)\<close>

record TableConfig =
  tc_name :: string
  tc_operations :: "string list"
  tc_topic :: "string option"

text \<open>The configuration of a table entry that gives the name only.\<close>

definition table_config :: "string \<Rightarrow> TableConfig" where
  "table_config name =
     \<lparr>tc_name = name, tc_operations = [''INSERT'', ''UPDATE'', ''DELETE''], tc_topic = None\<rparr>"

record PostgresConfig =
  pc_connection_string :: string
  pc_channel :: string
  pc_tables :: "TableConfig list"
  pc_topic_prefix :: string
  pc_poll_interval_ms :: u64

definition pg_config_default :: PostgresConfig where
  "pg_config_default =
     \<lparr>pc_connection_string = ''host=localhost user=postgres dbname=postgres'', pc_channel = ''realtime_events'',
      pc_tables = [], pc_topic_prefix = ''db'', pc_poll_interval_ms = 100\<rparr>"

subsection \<open>Notifications (db-postgres parser.rs)\<close>

definition operation_name :: "string \<Rightarrow> string" where
  "operation_name operation =
     (if operation = ''INSERT'' then ''inserted''
      else if operation = ''UPDATE'' then ''updated''
      else if operation = ''DELETE'' then ''deleted''
      else operation)"

definition extract_fields :: "json \<Rightarrow> (string \<times> string \<times> string) option" where
  "extract_fields v = do {
     t \<leftarrow> json_get v ''table'';
     tab \<leftarrow> json_as_str t;
     s \<leftarrow> json_get v ''schema'';
     let schema = (case json_as_str s of Some x \<Rightarrow> x | None \<Rightarrow> ''public'');
     p \<leftarrow> json_get v ''operation'';
     operation \<leftarrow> json_as_str p;
     _ \<leftarrow> json_get v ''data'';
     Some (tab, schema, operation_name operation)
   }"

definition build_metadata :: "json \<Rightarrow> string \<Rightarrow> string \<Rightarrow> (string, string) dashmap" where
  "build_metadata v tab schema =
     (let metadata = dm_insert ''table'' tab (dm_insert ''schema'' schema []) in
      case json_get v ''old_data'' of
        Some old_data \<Rightarrow>
          if old_data \<noteq> JNull then dm_insert ''has_old_data'' ''true'' metadata else metadata
      | None \<Rightarrow> metadata)"

definition pg_envelope ::
    "Tick \<Rightarrow> string \<Rightarrow> string \<Rightarrow> bytes \<Rightarrow> string \<Rightarrow> string \<Rightarrow> (string, string) dashmap \<Rightarrow> EventEnvelope" where
  "pg_envelope tk topic event_type payload_bytes schema tab metadata =
     (envelope_new (tk_uuid tk) (tk_now tk) (topic_new topic) event_type payload_bytes)
       \<lparr>ev_source := Some \<lparr>src_kind = SrcDatabase, src_id = ''postgresql:'' @ schema @ ''.'' @ tab,
          src_metadata = metadata\<rparr>\<rparr>"

definition parse_pg_notification :: "Externals \<Rightarrow> Tick \<Rightarrow> string \<Rightarrow> string \<Rightarrow> EventEnvelope option" where
  "parse_pg_notification x tk payload topic_prefix = do {
     v \<leftarrow> x_from_slice x payload;
     (tab, schema, event_type) \<leftarrow> extract_fields v;
     let topic = topic_prefix @ ''/'' @ tab @ ''/'' @ event_type;
     let metadata = build_metadata v tab schema;
     payload_bytes \<leftarrow> x_to_vec x v;
     Some (pg_envelope tk topic event_type payload_bytes schema tab metadata)
   }"

subsection \<open>The trigger (db-postgres trigger.rs)\<close>

definition sql_lines :: "string list \<Rightarrow> string" where
  "sql_lines ls = join_with (CHR 0x0A) ls"

definition notify_function_sql :: "string \<Rightarrow> string" where
  "notify_function_sql channel = sql_lines
     ['''',
      ''CREATE OR REPLACE FUNCTION realtime_notify() RETURNS trigger AS $$'',
      ''DECLARE'',
      ''  payload json;'',
      ''BEGIN'',
      ''  payload = json_build_object('',
      ''    'table', TG_TABLE_NAME,'',
      ''    'schema', TG_TABLE_SCHEMA,'',
      ''    'operation', TG_OP,'',
      ''    'data', CASE'',
      ''      WHEN TG_OP = 'DELETE' THEN row_to_json(OLD)'',
      ''      ELSE row_to_json(NEW)'',
      ''    END,'',
      ''    'old_data', CASE'',
      ''      WHEN TG_OP = 'UPDATE' THEN row_to_json(OLD)'',
      ''      ELSE NULL'',
      ''    END'',
      ''  );'',
      ''  PERFORM pg_notify('' @ [CHR 0x27] @ channel @ [CHR 0x27] @ '', payload::text);'',
      ''  RETURN NEW;'',
      ''END;'',
      ''$$ LANGUAGE plpgsql;'']"

definition trigger_ddl :: "string \<Rightarrow> string" where
  "trigger_ddl tab = sql_lines
     ['''',
      ''DROP TRIGGER IF EXISTS '' @ tab @ ''_realtime ON '' @ tab @ '';'',
      ''CREATE TRIGGER '' @ tab @ ''_realtime'',
      ''  AFTER INSERT OR UPDATE OR DELETE ON '' @ tab,
      ''  FOR EACH ROW EXECUTE FUNCTION realtime_notify();'',
      '''']"

definition generate_trigger_sql :: "string \<Rightarrow> string \<Rightarrow> string" where
  "generate_trigger_sql tab channel = notify_function_sql channel @ [CHR 0x0A] @ trigger_ddl tab"

text \<open>What that function sends for a changed row: \<open>json_build_object\<close> of its five pairs.\<close>

definition trigger_payload :: "string \<Rightarrow> string \<Rightarrow> string \<Rightarrow> json \<Rightarrow> json \<Rightarrow> json" where
  "trigger_payload tab schema tg_op new_row old_row = JObject
     [(''table'', JString tab), (''schema'', JString schema), (''operation'', JString tg_op),
      (''data'', if tg_op = ''DELETE'' then old_row else new_row),
      (''old_data'', if tg_op = ''UPDATE'' then old_row else JNull)]"

text \<open>
  C29: What the trigger writes is what the parser reads.  If the JSON writer of PostgreSQL and the reader
  agree on the payload, every row change a generated trigger reports becomes an event, whose topic is
  the prefix, the table and the name of the operation, whose source is the table, and whose payload is
  the notification itself; it is marked as having old data exactly for an update of an existing row.
\<close>

theorem pg_trigger_round_trip:
  assumes "x_from_slice x wire_text = Some (trigger_payload tab schema tg_op new_row old_row)"
    and "x_to_vec x (trigger_payload tab schema tg_op new_row old_row) = Some payload"
    and "tg_op \<in> {''INSERT'', ''UPDATE'', ''DELETE''}"
  shows "\<exists>e. parse_pg_notification x tk wire_text topic_prefix = Some e \<and>
     topic_str (ev_topic e) = topic_prefix @ ''/'' @ tab @ ''/'' @ operation_name tg_op \<and>
     ev_type e \<in> {''inserted'', ''updated'', ''deleted''} \<and> ev_payload e = payload \<and>
     (\<exists>src. ev_source e = Some src \<and> src_kind src = SrcDatabase \<and>
        src_id src = ''postgresql:'' @ schema @ ''.'' @ tab \<and>
        dm_get (src_metadata src) ''table'' = Some tab \<and> dm_get (src_metadata src) ''schema'' = Some schema \<and>
        (dm_get (src_metadata src) ''has_old_data'' \<noteq> None \<longleftrightarrow> tg_op = ''UPDATE'' \<and> old_row \<noteq> JNull))"
proof -
  let ?v = "trigger_payload tab schema tg_op new_row old_row"
  let ?e = "pg_envelope tk (topic_prefix @ ''/'' @ tab @ ''/'' @ operation_name tg_op) (operation_name tg_op) payload
    schema tab (build_metadata ?v tab schema)"
  have fields: "extract_fields ?v = Some (tab, schema, operation_name tg_op)"
    by (simp add: extract_fields_def trigger_payload_def)
  have "parse_pg_notification x tk wire_text topic_prefix = Some ?e"
    using assms(1,2) fields by (simp add: parse_pg_notification_def)
  moreover have "operation_name tg_op \<in> {''inserted'', ''updated'', ''deleted''}"
    using assms(3) unfolding operation_name_def by (elim insertE emptyE) simp_all
  moreover have "build_metadata ?v tab schema =
      (if tg_op = ''UPDATE'' \<and> old_row \<noteq> JNull
       then dm_insert ''has_old_data'' ''true'' (dm_insert ''table'' tab (dm_insert ''schema'' schema []))
       else dm_insert ''table'' tab (dm_insert ''schema'' schema []))"
    by (simp add: build_metadata_def trigger_payload_def Let_def)
  ultimately show ?thesis by (simp add: pg_envelope_def topic_new_def)
qed

text \<open>The witness: an insert of a row that is a number, with a reader and a writer for just that value.\<close>

definition demo_pg_row :: json where
  "demo_pg_row = trigger_payload ''orders'' ''public'' ''INSERT'' (JNumber (NumI64 7)) JNull"

definition demo_pg_ext :: Externals where
  "demo_pg_ext = demo_ext\<lparr>x_from_slice := (\<lambda>s. if s = ''row'' then Some demo_pg_row else None),
     x_to_vec := (\<lambda>v. if v = demo_pg_row then Some ''row'' else None)\<rparr>"

theorem pg_trigger_round_trip_witness:
  "\<exists>e. parse_pg_notification demo_pg_ext \<lparr>tk_now = 0, tk_uuid = EventId 1\<rparr> ''row'' ''pg'' = Some e \<and>
     topic_str (ev_topic e) = ''pg/orders/inserted'' \<and> ev_payload e = ''row''"
  using pg_trigger_round_trip [of demo_pg_ext "''row''" "''orders''" "''public''" "''INSERT''" "JNumber (NumI64 7)" JNull
      "''row''" "\<lparr>tk_now = 0, tk_uuid = EventId 1\<rparr>" "''pg''"]
  by (auto simp: demo_pg_ext_def demo_pg_row_def operation_name_def)

subsection \<open>Delays that double (lifecycle.rs, server.rs)\<close>

text \<open>In milliseconds.\<close>

definition next_delay :: "nat \<Rightarrow> nat \<Rightarrow> nat" where
  "next_delay hi delay = min (delay * 2) hi"

definition RECONNECT_MIN :: nat where
  "RECONNECT_MIN = 250"

definition RECONNECT_MAX :: nat where
  "RECONNECT_MAX = 30000"

definition START_RETRY_MIN :: nat where
  "START_RETRY_MIN = 1000"

definition START_RETRY_MAX :: nat where
  "START_RETRY_MAX = 30000"

text \<open>The contract of a retry loop's delay, for a first and a largest one.\<close>

locale capped_doubling =
  fixes lo hi :: nat
  assumes lo_pos: "0 < lo" and lo_hi: "lo \<le> hi"
begin

lemma delay_after: "(next_delay hi ^^ n) lo = min (lo * 2 ^ n) hi"
proof (induction n)
  case 0
  with lo_hi show ?case by simp
next
  case (Suc n)
  then show ?case by (auto simp: next_delay_def min_def)
qed

lemma delay_bounds: "lo \<le> (next_delay hi ^^ n) lo \<and> (next_delay hi ^^ n) lo \<le> hi"
  using lo_hi by (simp add: delay_after)

end

interpretation reconnect: capped_doubling RECONNECT_MIN RECONNECT_MAX
  by unfold_locales (simp_all add: RECONNECT_MIN_def RECONNECT_MAX_def)

interpretation start_retry: capped_doubling START_RETRY_MIN START_RETRY_MAX
  by unfold_locales (simp_all add: START_RETRY_MIN_def START_RETRY_MAX_def)

subsection \<open>The PostgreSQL listener (lifecycle.rs, mod.rs)\<close>

text \<open>The supervisor waits for the connection (driving), for the delay, or for the attach, or stands before
  the test at the head of its loop with a connection it has just reported (attached); \<open>stop\<close> can come
  at any of these points.  \<open>pg_sent\<close> is what went into the event channel.\<close>

datatype pg_message = PgNotification string | PgNotice | PgOther

datatype pg_input =
    PgMessage pg_message | PgError | PgClosed | PgReceiverDropped
  | PgSlept | PgAttached | PgAttachFailed | PgLooped | PgStop

datatype pg_phase = Driving | Sleeping | Attaching | Attached | Finished

record PostgresProducer =
  pg_prefix :: string
  pg_phase :: pg_phase
  pg_running :: bool
  pg_connected :: bool
  pg_client :: bool
  pg_backoff :: nat
  pg_rx_alive :: bool
  pg_sent :: "EventEnvelope list"

text \<open>A producer whose first attach succeeded, its supervisor spawned, and \<open>stop\<close>.\<close>

definition pg_started :: "string \<Rightarrow> PostgresProducer" where
  "pg_started prefix =
     \<lparr>pg_prefix = prefix, pg_phase = Attached, pg_running = True, pg_connected = True, pg_client = True,
      pg_backoff = RECONNECT_MIN, pg_rx_alive = True, pg_sent = []\<rparr>"

definition pg_stop :: "PostgresProducer \<Rightarrow> PostgresProducer" where
  "pg_stop p = p\<lparr>pg_running := False, pg_connected := False, pg_client := False\<rparr>"

definition is_connected :: "PostgresProducer \<Rightarrow> bool" where
  "is_connected p = pg_connected p"

text \<open>The tests around \<open>drive\<close>: after it, before each attempt, and at the end of the loop.\<close>

definition pg_finish :: "PostgresProducer \<Rightarrow> PostgresProducer" where
  "pg_finish p = p\<lparr>pg_phase := Finished, pg_connected := False\<rparr>"

definition pg_after_drive :: "PostgresProducer \<Rightarrow> PostgresProducer" where
  "pg_after_drive p =
     (if \<not> pg_running p then pg_finish p else p\<lparr>pg_phase := Sleeping, pg_connected := False\<rparr>)"

text \<open>\<open>process_notifications\<close> at one item of the stream, back at its test of the flag.\<close>

definition process_notification :: "Externals \<Rightarrow> Tick \<Rightarrow> pg_message \<Rightarrow> PostgresProducer \<Rightarrow> PostgresProducer" where
  "process_notification x tk msg p =
     (let (p, broke) =
        (case msg of
           PgNotification payload \<Rightarrow>
             (case parse_pg_notification x tk payload (pg_prefix p) of
                Some event \<Rightarrow>
                  if pg_rx_alive p then (p\<lparr>pg_sent := pg_sent p @ [event]\<rparr>, False) else (p, True)
              | None \<Rightarrow> (p, False))
         | PgNotice \<Rightarrow> (p, False)
         | PgOther \<Rightarrow> (p, False))
      in if broke \<or> \<not> pg_running p then pg_after_drive p else p)"

text \<open>\<open>run\<close>, from one wait to the next, and from a successful attach to the test of the flag; \<open>None\<close> when the supervisor does not wait for that input.\<close>

fun supervisor_step :: "Externals \<Rightarrow> Tick \<Rightarrow> pg_input \<Rightarrow> PostgresProducer \<Rightarrow> PostgresProducer option" where
  "supervisor_step x tk PgStop p = Some (pg_stop p)"
| "supervisor_step x tk PgReceiverDropped p = Some (p\<lparr>pg_rx_alive := False\<rparr>)"
| "supervisor_step x tk (PgMessage msg) p =
     (if pg_phase p = Driving then Some (process_notification x tk msg p) else None)"
| "supervisor_step x tk PgError p = (if pg_phase p = Driving then Some (pg_after_drive p) else None)"
| "supervisor_step x tk PgClosed p = (if pg_phase p = Driving then Some (pg_after_drive p) else None)"
| "supervisor_step x tk PgSlept p = (if pg_phase p = Sleeping then Some (p\<lparr>pg_phase := Attaching\<rparr>) else None)"
| "supervisor_step x tk PgAttached p =
     (if pg_phase p \<noteq> Attaching then None
      else
        Some (p\<lparr>pg_client := True, pg_connected := True, pg_backoff := RECONNECT_MIN, pg_phase := Attached\<rparr>))"
| "supervisor_step x tk PgLooped p =
     (if pg_phase p \<noteq> Attached then None
      else Some (if \<not> pg_running p then pg_finish p else p\<lparr>pg_phase := Driving\<rparr>))"
| "supervisor_step x tk PgAttachFailed p =
     (if pg_phase p \<noteq> Attaching then None
      else
        let p = p\<lparr>pg_backoff := next_delay RECONNECT_MAX (pg_backoff p)\<rparr>
        in Some (if \<not> pg_running p then pg_finish p else p\<lparr>pg_phase := Sleeping, pg_connected := False\<rparr>))"

fun supervisor_run ::
    "Externals \<Rightarrow> (Tick \<times> pg_input) list \<Rightarrow> PostgresProducer \<Rightarrow> PostgresProducer option" where
  "supervisor_run x [] p = Some p"
| "supervisor_run x ((tk, i) # is) p = Option.bind (supervisor_step x tk i p) (supervisor_run x is)"

text \<open>The failures of the attach since it last succeeded.\<close>

fun failures :: "pg_input list \<Rightarrow> nat \<Rightarrow> nat" where
  "failures [] k = k"
| "failures (i # is) k =
     failures is (if i = PgAttached then 0 else if i = PgAttachFailed then Suc k else k)"

definition pg_inv :: "nat \<Rightarrow> PostgresProducer \<Rightarrow> bool" where
  "pg_inv k p \<longleftrightarrow>
     (if pg_phase p = Attached then pg_running p \<longrightarrow> pg_connected p
      else pg_connected p \<longleftrightarrow> pg_phase p = Driving \<and> pg_running p) \<and>
     (pg_phase p = Finished \<longrightarrow> \<not> pg_running p) \<and>
     pg_backoff p = (next_delay RECONNECT_MAX ^^ k) RECONNECT_MIN"

lemma supervisor_step_inv:
  "pg_inv k p \<Longrightarrow> supervisor_step x tk i p = Some p' \<Longrightarrow>
   pg_inv (if i = PgAttached then 0 else if i = PgAttachFailed then Suc k else k) p'"
  by (cases i)
    (auto simp: pg_inv_def pg_stop_def pg_finish_def pg_after_drive_def process_notification_def Let_def
      split: if_splits option.splits pg_message.splits prod.splits)

lemma supervisor_run_inv:
  "pg_inv k p \<Longrightarrow> supervisor_run x is p = Some p' \<Longrightarrow> pg_inv (failures (map snd is) k) p'"
proof (induction "is" arbitrary: k p)
  case (Cons ti "is")
  obtain tk i where ti: "ti = (tk, i)" by fastforce
  with Cons.prems obtain p1 where s: "supervisor_step x tk i p = Some p1" and r: "supervisor_run x is p1 = Some p'"
    by (auto simp: bind_eq_Some_conv)
  from Cons.IH [OF supervisor_step_inv [OF Cons.prems(1) s] r] show ?case by (simp add: ti)
qed simp

text \<open>The events of the notifications heard while the server still receives.\<close>

fun heard :: "Externals \<Rightarrow> string \<Rightarrow> bool \<Rightarrow> (Tick \<times> pg_input) list \<Rightarrow> EventEnvelope list" where
  "heard x prefix alive [] = []"
| "heard x prefix alive ((tk, PgReceiverDropped) # is) = heard x prefix False is"
| "heard x prefix alive ((tk, PgMessage (PgNotification payload)) # is) =
     (case parse_pg_notification x tk payload prefix of
        Some e \<Rightarrow> (if alive then [e] else []) @ heard x prefix alive is
      | None \<Rightarrow> heard x prefix alive is)"
| "heard x prefix alive (_ # is) = heard x prefix alive is"

lemma supervisor_step_sent:
  "supervisor_step x tk i p = Some p' \<Longrightarrow>
   pg_prefix p' = pg_prefix p \<and> pg_rx_alive p' = (pg_rx_alive p \<and> i \<noteq> PgReceiverDropped) \<and>
   pg_sent p' = pg_sent p @ heard x (pg_prefix p) (pg_rx_alive p) [(tk, i)]"
  by (cases i)
    (auto simp: pg_stop_def pg_finish_def pg_after_drive_def process_notification_def Let_def
      split: if_splits option.splits pg_message.splits prod.splits)

lemma heard_Cons:
  "heard x prefix alive ((tk, i) # is) =
     heard x prefix alive [(tk, i)] @ heard x prefix (alive \<and> i \<noteq> PgReceiverDropped) is"
proof (cases i)
  case (PgMessage msg)
  then show ?thesis by (cases msg) (simp_all split: option.split)
qed simp_all

lemma supervisor_run_sent:
  "supervisor_run x is p = Some p' \<Longrightarrow> pg_sent p' = pg_sent p @ heard x (pg_prefix p) (pg_rx_alive p) is"
proof (induction "is" arbitrary: p)
  case (Cons ti "is")
  obtain tk i where ti: "ti = (tk, i)" by fastforce
  with Cons.prems obtain p1 where s: "supervisor_step x tk i p = Some p1" and r: "supervisor_run x is p1 = Some p'"
    by (auto simp: bind_eq_Some_conv)
  from supervisor_step_sent [OF s] have step: "pg_prefix p1 = pg_prefix p"
    "pg_rx_alive p1 = (pg_rx_alive p \<and> i \<noteq> PgReceiverDropped)"
    "pg_sent p1 = pg_sent p @ heard x (pg_prefix p) (pg_rx_alive p) [(tk, i)]" by blast+
  show ?case
    unfolding ti heard_Cons [of x "pg_prefix p" "pg_rx_alive p" tk i "is"] Cons.IH [OF r] step append_assoc ..
qed simp

text \<open>
  The listener says what it does.  From a first attach on, through any messages, errors, losses of the
  connection, failed and successful attaches, and stops, the producer reports itself attached exactly
  while it listens and was not stopped, except between a successful attach and the next test of the
  flag, where it does so even if stopped during the attach; what it has handed to the server is exactly the events of the
  notifications it heard, in order; and its next delay is 250 milliseconds doubled for every failure
  since the last successful attach, at most 30 seconds.
\<close>

theorem pg_listener_reports:
  assumes "supervisor_run x is (pg_started prefix) = Some p"
  shows "(if pg_phase p = Attached then pg_running p \<longrightarrow> is_connected p
     else is_connected p \<longleftrightarrow> pg_phase p = Driving \<and> pg_running p) \<and>
    pg_sent p = heard x prefix True is \<and>
    pg_backoff p = min (250 * 2 ^ failures (map snd is) 0) 30000"
proof -
  have "pg_inv 0 (pg_started prefix)" by (simp add: pg_inv_def pg_started_def)
  from supervisor_run_inv [OF this assms] have inv: "pg_inv (failures (map snd is) 0) p" .
  from supervisor_run_sent [OF assms] have "pg_sent p = heard x prefix True is" by (simp add: pg_started_def)
  with inv show ?thesis
    by (simp add: pg_inv_def is_connected_def reconnect.delay_after) (simp add: RECONNECT_MIN_def RECONNECT_MAX_def)
qed

definition demo_pg_tick :: Tick where
  "demo_pg_tick = \<lparr>tk_now = 0, tk_uuid = EventId 1\<rparr>"

definition demo_pg_inputs :: "(Tick \<times> pg_input) list" where
  "demo_pg_inputs = map (Pair demo_pg_tick)
     [PgLooped, PgMessage (PgNotification ''row''), PgClosed, PgSlept, PgAttachFailed, PgSlept, PgAttachFailed,
      PgSlept, PgAttached, PgLooped, PgMessage (PgNotification ''row''), PgError, PgSlept, PgAttachFailed]"

theorem pg_listener_reports_witness:
  "\<exists>p. supervisor_run demo_pg_ext demo_pg_inputs (pg_started ''pg'') = Some p \<and>
     \<not> is_connected p \<and> length (pg_sent p) = 2 \<and> pg_backoff p = 500"
proof -
  obtain e where e: "parse_pg_notification demo_pg_ext demo_pg_tick ''row'' ''pg'' = Some e"
    by (auto simp: parse_pg_notification_def demo_pg_ext_def demo_pg_row_def extract_fields_def trigger_payload_def)
  obtain p where p: "supervisor_run demo_pg_ext demo_pg_inputs (pg_started ''pg'') = Some p"
    and phase: "pg_phase p = Sleeping"
    by (auto simp: demo_pg_inputs_def pg_started_def process_notification_def pg_after_drive_def e Let_def)
  from pg_listener_reports [OF p] p phase e show ?thesis
    by (simp add: demo_pg_inputs_def)
qed

definition pg_waits :: "(Tick \<times> pg_input) list \<Rightarrow> nat" where
  "pg_waits is = length (filter (\<lambda>(tk, i). i \<noteq> PgStop \<and> i \<noteq> PgReceiverDropped) is)"

definition pg_left :: "PostgresProducer \<Rightarrow> nat" where
  "pg_left p = (case pg_phase p of Driving \<Rightarrow> 1 | Sleeping \<Rightarrow> 3 | Attaching \<Rightarrow> 2 | Attached \<Rightarrow> 1 | Finished \<Rightarrow> 0)"

definition pg_may_send :: "PostgresProducer \<Rightarrow> nat" where
  "pg_may_send p = (if pg_phase p = Driving then 1 else 0)"

text \<open>Stopped: the flag is down, and the producer reports itself attached at most where an attach that \<open>stop\<close>
  found under way has just succeeded.\<close>

definition pg_stopped :: "PostgresProducer \<Rightarrow> bool" where
  "pg_stopped p \<longleftrightarrow> \<not> pg_running p \<and> (pg_connected p \<longrightarrow> pg_phase p = Attached)"

definition pg_reattaching :: "PostgresProducer \<Rightarrow> bool" where
  "pg_reattaching p \<longleftrightarrow> pg_phase p = Sleeping \<or> pg_phase p = Attaching"

lemma pg_stop_stopped: "pg_stopped (pg_stop p)"
  by (simp add: pg_stopped_def pg_stop_def)

lemma stopped_step:
  assumes "pg_stopped p" and "supervisor_step x tk i p = Some p'"
  shows "pg_stopped p' \<and> pg_waits [(tk, i)] + pg_left p' \<le> pg_left p \<and>
    length (pg_sent p') + pg_may_send p' \<le> length (pg_sent p) + pg_may_send p \<and>
    (\<not> pg_reattaching p \<and> \<not> pg_connected p \<longrightarrow> \<not> pg_reattaching p' \<and> \<not> pg_connected p') \<and>
    (i \<noteq> PgReceiverDropped \<and> pg_connected p \<longrightarrow> \<not> pg_connected p')"
  using assms
  by (cases i)
    (auto simp: pg_stopped_def pg_reattaching_def pg_stop_def pg_finish_def pg_after_drive_def process_notification_def
      Let_def pg_waits_def pg_left_def pg_may_send_def split: if_splits option.splits pg_message.splits prod.splits)

lemma pg_waits_Cons: "pg_waits (ti # is) = pg_waits [ti] + pg_waits is"
  by (simp add: pg_waits_def)

lemma stopped_run:
  "pg_stopped p \<Longrightarrow> supervisor_run x is p = Some p' \<Longrightarrow>
   pg_stopped p' \<and> pg_waits is + pg_left p' \<le> pg_left p \<and>
   length (pg_sent p') + pg_may_send p' \<le> length (pg_sent p) + pg_may_send p"
proof (induction "is" arbitrary: p)
  case Nil
  then show ?case by (simp add: pg_waits_def)
next
  case (Cons ti "is")
  obtain tk i where ti: "ti = (tk, i)" by fastforce
  with Cons.prems(2) obtain p1 where s: "supervisor_step x tk i p = Some p1" and r: "supervisor_run x is p1 = Some p'"
    by (auto simp: bind_eq_Some_conv)
  from stopped_step [OF Cons.prems(1) s] have st: "pg_stopped p1"
    and step: "pg_waits [ti] + pg_left p1 \<le> pg_left p"
      "length (pg_sent p1) + pg_may_send p1 \<le> length (pg_sent p) + pg_may_send p" by (simp_all add: ti)
  from Cons.IH [OF st r] step show ?case by (simp add: pg_waits_Cons [of ti "is"])
qed

text \<open>
  A stopped listener ends soon.  Whatever state it is in when \<open>stop\<close> comes, it goes through at most
  three more steps (the delay, the attach and the test, or one item of the stream), and hands on at most one
  more event; it reports itself attached at most between the attach and the test.
\<close>

theorem pg_listener_stops:
  assumes "supervisor_run x is (pg_stop p) = Some p'"
  shows "pg_waits is \<le> 3 \<and> length (pg_sent p') \<le> length (pg_sent p) + 1 \<and>
    (is_connected p' \<longrightarrow> pg_phase p' = Attached)"
proof -
  from stopped_run [OF pg_stop_stopped assms] have "pg_stopped p'" "pg_waits is \<le> pg_left (pg_stop p)"
    "length (pg_sent p') \<le> length (pg_sent (pg_stop p)) + pg_may_send (pg_stop p)" by simp_all
  moreover have "pg_left (pg_stop p) \<le> 3" by (simp add: pg_left_def split: pg_phase.split)
  ultimately show ?thesis by (simp add: is_connected_def pg_stopped_def pg_stop_def pg_may_send_def split: if_splits)
qed

theorem pg_listener_stops_witness:
  "\<exists>p'. supervisor_run demo_pg_ext [(demo_pg_tick, PgSlept), (demo_pg_tick, PgAttached), (demo_pg_tick, PgLooped)]
      (pg_stop ((pg_started ''pg'')\<lparr>pg_phase := Sleeping\<rparr>)) = Some p' \<and> pg_phase p' = Finished \<and> \<not> is_connected p'"
proof -
  obtain p' where p': "supervisor_run demo_pg_ext [(demo_pg_tick, PgSlept), (demo_pg_tick, PgAttached), (demo_pg_tick, PgLooped)]
      (pg_stop ((pg_started ''pg'')\<lparr>pg_phase := Sleeping\<rparr>)) = Some p'" and f: "pg_phase p' = Finished"
    by (simp add: pg_stop_def pg_started_def pg_finish_def)
  from pg_listener_stops [OF p'] p' f show ?thesis by auto
qed

subsection \<open>Starting and forwarding (server.rs)\<close>

text \<open>\<open>start_with_retry\<close> over the answers of \<open>start\<close>: the stream, and the delays slept before it.\<close>

partial_function (option) start_with_retry ::
    "(nat \<Rightarrow> (RealtimeError, 'st) result) \<Rightarrow> nat \<Rightarrow> nat \<Rightarrow> nat \<Rightarrow> ('st \<times> nat list) option" where
  "start_with_retry start i delay mx =
     (case start i of
        Inr stream \<Rightarrow> Some (stream, [])
      | Inl e \<Rightarrow>
          Option.bind (start_with_retry start (Suc i) (next_delay mx delay) mx)
            (\<lambda>(stream, slept). Some (stream, delay # slept)))"

lemma start_with_retry_ok:
  "(\<forall>j < n. isl (start (i + j))) \<Longrightarrow> start (i + n) = Inr st \<Longrightarrow>
   start_with_retry start i delay mx = Some (st, map (\<lambda>k. (next_delay mx ^^ k) delay) [0..<n])"
proof (induction n arbitrary: i delay)
  case 0
  then show ?case by (subst start_with_retry.simps) simp
next
  case (Suc n)
  from Suc.prems(1) obtain e where e: "start i = Inl e" by (metis add.right_neutral isl_def zero_less_Suc)
  have "\<forall>j < n. isl (start (Suc i + j))" using Suc.prems(1) by (metis add_Suc_shift Suc_less_eq)
  from Suc.IH [OF this, of "next_delay mx delay"] Suc.prems(2)
  have "start_with_retry start (Suc i) (next_delay mx delay) mx =
      Some (st, map (\<lambda>k. (next_delay mx ^^ k) (next_delay mx delay)) [0..<n])" by simp
  moreover have "[0..<Suc n] = 0 # map Suc [0..<n]" by (simp add: map_Suc_upt upt_conv_Cons)
  ultimately show ?case
    by (subst start_with_retry.simps) (simp add: e funpow_swap1)
qed

lemma start_with_retry_Some:
  "start_with_retry start i delay mx = Some r \<Longrightarrow> \<exists>n. \<not> isl (start (i + n))"
proof (rule start_with_retry.raw_induct [where P = "\<lambda>start i delay mx r. \<exists>n. \<not> isl (start (i + n))"])
  fix run start i delay mx r
  assume IH: "\<And>start i delay mx r. run start i delay mx = Some r \<Longrightarrow> \<exists>n. \<not> isl (start (i + n))"
    and r: "(case start i of Inr stream \<Rightarrow> Some (stream, [])
      | Inl e \<Rightarrow> Option.bind (run start (Suc i) (next_delay mx delay) mx)
            (\<lambda>(stream, slept). Some (stream, delay # slept))) = Some r"
  show "\<exists>n. \<not> isl (start (i + n))"
  proof (cases "start i")
    case (Inl e)
    with r obtain r' where "run start (Suc i) (next_delay mx delay) mx = Some r'" by (auto simp: bind_eq_Some_conv)
    from IH [OF this] show ?thesis by (metis add_Suc_shift)
  next
    case (Inr st)
    then show ?thesis by (intro exI [of _ 0]) simp
  qed
qed

text \<open>
  A database that comes up late is attached.  The start loop returns exactly when some start succeeds;
  it then has the stream of the first success, after one second, then twice as long after every further
  failure, and never more than 30 seconds at a time.
\<close>

theorem start_retry_exact:
  "start_with_retry start 0 START_RETRY_MIN START_RETRY_MAX =
     (if \<forall>n. isl (start n) then None
      else let n = LEAST n. \<not> isl (start n)
           in Some (projr (start n), map (\<lambda>k. min (1000 * 2 ^ k) 30000) [0..<n]))"
proof (cases "\<forall>n. isl (start n)")
  case True
  then show ?thesis using start_with_retry_Some [of start 0 START_RETRY_MIN START_RETRY_MAX]
    by (cases "start_with_retry start 0 START_RETRY_MIN START_RETRY_MAX") simp_all
next
  case False
  then have ex: "\<exists>n. \<not> isl (start n)" by simp
  define n where "n = (LEAST n. \<not> isl (start n))"
  have n: "\<not> isl (start (0 + n))" unfolding n_def using LeastI_ex [OF ex] by simp
  have before: "\<forall>j < n. isl (start (0 + j))" unfolding n_def using not_less_Least by auto
  from n have "start (0 + n) = Inr (projr (start n))" by (cases "start n") simp_all
  from start_with_retry_ok [OF before this, of START_RETRY_MIN START_RETRY_MAX]
  have "start_with_retry start 0 START_RETRY_MIN START_RETRY_MAX =
      Some (projr (start n), map (\<lambda>k. (next_delay START_RETRY_MAX ^^ k) START_RETRY_MIN) [0..<n])" .
  then have "start_with_retry start 0 START_RETRY_MIN START_RETRY_MAX =
      Some (projr (start n), map (\<lambda>k. min (1000 * 2 ^ k) 30000) [0..<n])"
    by (simp add: start_retry.delay_after) (simp add: START_RETRY_MIN_def START_RETRY_MAX_def)
  with False show ?thesis by (simp add: n_def [symmetric] Let_def)
qed

text \<open>The rest of \<open>spawn_producer_task\<close>: the events the stream yields until it ends, each published under
  its own topic, an error only logged; then the producer counts as ended.\<close>

fun forward_events :: "'s bus_op \<Rightarrow> EventEnvelope list \<Rightarrow> 's \<Rightarrow> 's" where
  "forward_events publish [] s = s"
| "forward_events publish (event # events) s =
     forward_events publish events (snd (publish (topic_str (ev_topic event)) event s))"

definition spawn_producer_task ::
    "'s bus_op \<Rightarrow> (nat \<Rightarrow> (RealtimeError, EventEnvelope list) result) \<Rightarrow> ProducerHandle \<times> 's
      \<Rightarrow> (ProducerHandle \<times> 's) option" where
  "spawn_producer_task publish start = (\<lambda>(handle, s). do {
     (stream, _) \<leftarrow> start_with_retry start 0 START_RETRY_MIN START_RETRY_MAX;
     let s = forward_events publish stream s;
     Some (handle\<lparr>pd_ended := True\<rparr>, s)
   })"

fun accepted_events :: "'s bus_op \<Rightarrow> EventEnvelope list \<Rightarrow> 's \<Rightarrow> EventEnvelope list" where
  "accepted_events publish [] s = []"
| "accepted_events publish (e # es) s =
     (case publish (topic_str (ev_topic e)) e s of
        (Inr _, s) \<Rightarrow> e # accepted_events publish es s
      | (Inl _, s) \<Rightarrow> accepted_events publish es s)"

context event_bus_publisher
begin

lemma forward_published: "published (forward_events publish es s) = published s @ accepted_events publish es s"
proof (induction es arbitrary: s)
  case (Cons e es)
  obtain res s' where p: "publish (topic_str (ev_topic e)) e s = (res, s')" by fastforce
  with Cons.IH [of s'] show ?case by (cases res) (simp_all add: accepted rejected)
qed simp

end

lemma in_process_accepted:
  "accepted_events (in_process_publish msg) es b = (if has_receiver b then es else [])"
  by (induction es arbitrary: b) (auto simp: in_process_publish_result has_receiver_def)

text \<open>
  A producer's events reach the bus in order.  On the in-process bus the task of a producer ends
  exactly when some start succeeds and its stream ends; by then every event of the stream has been
  published, in order and once, if the bus has a receiver (none otherwise, without an error), and the
  producer counts as detached from then on.
\<close>

theorem producer_forwards:
  "case spawn_producer_task (in_process_publish msg) start (handle, b) of
     None \<Rightarrow> (\<forall>n. isl (start n))
   | Some (handle', b') \<Rightarrow>
       \<not> isl (start (LEAST n. \<not> isl (start n))) \<and>
       bc_sent b' = bc_sent b @ (if has_receiver b then projr (start (LEAST n. \<not> isl (start n))) else []) \<and>
       handle_attached handle' = Some False \<and> pd_name handle' = pd_name handle"
proof (cases "\<forall>n. isl (start n)")
  case True
  with start_with_retry_Some [of start 0 START_RETRY_MIN START_RETRY_MAX]
  have "start_with_retry start 0 START_RETRY_MIN START_RETRY_MAX = None"
    by (cases "start_with_retry start 0 START_RETRY_MIN START_RETRY_MAX") simp_all
  with True show ?thesis by (simp add: spawn_producer_task_def)
next
  case False
  then have ex: "\<exists>n. \<not> isl (start n)" by simp
  define n where "n = (LEAST n. \<not> isl (start n))"
  have n: "\<not> isl (start n)" unfolding n_def using LeastI_ex [OF ex] by simp
  have before: "\<forall>j < n. isl (start (0 + j))" unfolding n_def using not_less_Least by auto
  from n have "start (0 + n) = Inr (projr (start n))" by (cases "start n") simp_all
  from start_with_retry_ok [OF before this, of START_RETRY_MIN START_RETRY_MAX] n show ?thesis
    by (simp add: spawn_producer_task_def n_def [symmetric] inproc.forward_published in_process_accepted handle_attached_def)
qed

subsection \<open>MongoDB changes (db-mongodb parser.rs, lifecycle.rs)\<close>

text \<open>A BSON value; the kinds the code prints with the library are given by their printed form.\<close>

datatype bson =
    BNull
  | BBoolean bool
  | BInt32 "32 word"
  | BInt64 i64
  | BDouble f64
  | BString string
  | BArray "bson list"
  | BDocument "(string \<times> bson) list"
  | BObjectId string
  | BDateTime string
  | BOther string

definition f64_is_finite :: "f64 \<Rightarrow> bool" where
  "f64_is_finite b = (b AND 0x7FF0000000000000 \<noteq> 0x7FF0000000000000)"

fun bson_to_json :: "bson \<Rightarrow> json" where
  "bson_to_json BNull = JNull"
| "bson_to_json (BBoolean b) = JBool b"
| "bson_to_json (BInt32 i) = JNumber (NumI64 (scast i))"
| "bson_to_json (BInt64 i) = JNumber (NumI64 i)"
| "bson_to_json (BDouble f) = (if f64_is_finite f then JNumber (NumF64 f) else JNull)"
| "bson_to_json (BString s) = JString s"
| "bson_to_json (BArray arr) = JArray (map bson_to_json arr)"
| "bson_to_json (BDocument doc) = JObject (map (\<lambda>(k, v). (k, bson_to_json v)) doc)"
| "bson_to_json (BObjectId hex) = JString hex"
| "bson_to_json (BDateTime printed) = JString printed"
| "bson_to_json (BOther printed) = JString printed"

type_synonym document = "(string \<times> bson) list"

definition doc_str :: "document \<Rightarrow> string \<Rightarrow> string option" where
  "doc_str doc key = (case map_of doc key of Some (BString s) \<Rightarrow> Some s | _ \<Rightarrow> None)"

definition doc_document :: "document \<Rightarrow> string \<Rightarrow> document option" where
  "doc_document doc key = (case map_of doc key of Some (BDocument d) \<Rightarrow> Some d | _ \<Rightarrow> None)"

definition change_name :: "string \<Rightarrow> string" where
  "change_name operation_type =
     (if operation_type = ''insert'' then ''inserted''
      else if operation_type = ''update'' then ''updated''
      else if operation_type = ''replace'' then ''replaced''
      else if operation_type = ''delete'' then ''deleted''
      else operation_type)"

definition extract_change_fields :: "document \<Rightarrow> (string \<times> string) option" where
  "extract_change_fields doc = do {
     operation_type \<leftarrow> doc_str doc ''operationType'';
     ns \<leftarrow> doc_document doc ''ns'';
     collection \<leftarrow> doc_str ns ''coll'';
     Some (collection, change_name operation_type)
   }"

definition doc_or_null :: "document \<Rightarrow> string \<Rightarrow> bson" where
  "doc_or_null doc key = (case map_of doc key of Some v \<Rightarrow> v | None \<Rightarrow> BNull)"

definition build_payload :: "Externals \<Rightarrow> document \<Rightarrow> string \<Rightarrow> string \<Rightarrow> bytes option" where
  "build_payload x doc collection database = do {
     operation_type \<leftarrow> doc_str doc ''operationType'';
     let payload_doc =
       [(''operation'', BString operation_type), (''collection'', BString collection),
        (''database'', BString database), (''fullDocument'', doc_or_null doc ''fullDocument''),
        (''documentKey'', doc_or_null doc ''documentKey'')];
     x_to_vec x (bson_to_json (BDocument payload_doc))
   }"

definition mongo_envelope :: "Tick \<Rightarrow> string \<Rightarrow> string \<Rightarrow> bytes \<Rightarrow> string \<Rightarrow> string \<Rightarrow> EventEnvelope" where
  "mongo_envelope tk topic event_type payload_bytes database collection =
     (let metadata = dm_insert ''collection'' collection (dm_insert ''database'' database [])
      in (envelope_new (tk_uuid tk) (tk_now tk) (topic_new topic) event_type payload_bytes)
           \<lparr>ev_source := Some \<lparr>src_kind = SrcDatabase, src_id = ''mongodb:'' @ database @ ''.'' @ collection,
              src_metadata = metadata\<rparr>\<rparr>)"

definition parse_change_event :: "Externals \<Rightarrow> Tick \<Rightarrow> document \<Rightarrow> string \<Rightarrow> string \<Rightarrow> EventEnvelope option" where
  "parse_change_event x tk doc topic_prefix database = do {
     (collection, event_type) \<leftarrow> extract_change_fields doc;
     let topic = topic_prefix @ ''/'' @ collection @ ''/'' @ event_type;
     payload_bytes \<leftarrow> build_payload x doc collection database;
     Some (mongo_envelope tk topic event_type payload_bytes database collection)
   }"

text \<open>The configuration, the pipeline, and the loop over the change stream.  A change is \<open>None\<close> when it does
  not convert to a document; \<open>mg_done\<close>: the task has returned and the event channel is closed.\<close>

record CollectionConfig =
  cc_name :: string
  cc_operations :: "string list"
  cc_topic :: "string option"

record MongoConfig =
  mc_uri :: string
  mc_database :: string
  mc_collections :: "CollectionConfig list"
  mc_topic_prefix :: string
  mc_full_document :: string

definition mongo_config_default :: MongoConfig where
  "mongo_config_default = \<lparr>mc_uri = ''mongodb://localhost:27017'', mc_database = ''test'', mc_collections = [],
     mc_topic_prefix = ''mongo'', mc_full_document = ''updateLookup''\<rparr>"

definition build_pipeline :: "MongoConfig \<Rightarrow> document list" where
  "build_pipeline config =
     (if mc_collections config = [] then []
      else let names = map cc_name (mc_collections config)
           in [[(''$match'', BDocument [(''ns.coll'', BDocument [(''$in'', BArray (map BString names))])])]])"

datatype mg_input = MgChange "document option" | MgError | MgEnded | MgReceiverDropped | MgStop

record MongoProducer =
  mg_config :: MongoConfig
  mg_running :: bool
  mg_done :: bool
  mg_rx_alive :: bool
  mg_sent :: "EventEnvelope list"

text \<open>\<open>start\<close>: connecting can fail; opening the change stream can fail only in the task.\<close>

definition mongo_start :: "MongoConfig \<Rightarrow> string option \<Rightarrow> bool \<Rightarrow> (RealtimeError, MongoProducer) result" where
  "mongo_start config connect_error watch_ok =
     (case connect_error of
        Some e \<Rightarrow> Inl (InternalError (''MongoDB connect failed: '' @ e))
      | None \<Rightarrow> Inr \<lparr>mg_config = config, mg_running = True, mg_done = \<not> watch_ok, mg_rx_alive = True, mg_sent = []\<rparr>)"

definition mongo_stop :: "MongoProducer \<Rightarrow> MongoProducer" where
  "mongo_stop p = p\<lparr>mg_running := False\<rparr>"

fun process_events :: "Externals \<Rightarrow> Tick \<Rightarrow> mg_input \<Rightarrow> MongoProducer \<Rightarrow> MongoProducer option" where
  "process_events x tk MgStop p = Some (mongo_stop p)"
| "process_events x tk MgReceiverDropped p = Some (p\<lparr>mg_rx_alive := False\<rparr>)"
| "process_events x tk (MgChange change) p =
     (if mg_done p then None
      else
        let (p, broke) =
          (case Option.bind change (\<lambda>raw_doc. parse_change_event x tk raw_doc (mc_topic_prefix (mg_config p)) (mc_database (mg_config p))) of
             None \<Rightarrow> (p, False)
           | Some event \<Rightarrow> if mg_rx_alive p then (p\<lparr>mg_sent := mg_sent p @ [event]\<rparr>, False) else (p, True))
        in Some (p\<lparr>mg_done := broke \<or> \<not> mg_running p\<rparr>))"
| "process_events x tk MgError p = (if mg_done p then None else Some (p\<lparr>mg_done := True\<rparr>))"
| "process_events x tk MgEnded p = (if mg_done p then None else Some (p\<lparr>mg_done := True\<rparr>))"

fun mongo_run :: "Externals \<Rightarrow> (Tick \<times> mg_input) list \<Rightarrow> MongoProducer \<Rightarrow> MongoProducer option" where
  "mongo_run x [] p = Some p"
| "mongo_run x ((tk, i) # is) p = Option.bind (process_events x tk i p) (mongo_run x is)"

text \<open>A change stream that has ended stays ended: no later input but a stop is taken, nothing is sent.\<close>

lemma mongo_done_stays:
  "mg_done p \<Longrightarrow> mongo_run x is p = Some p' \<Longrightarrow> mg_done p' \<and> mg_sent p' = mg_sent p \<and>
   list_all (\<lambda>(tk, i). i = MgStop \<or> i = MgReceiverDropped) is"
proof (induction "is" arbitrary: p)
  case (Cons ti "is")
  obtain tk i where ti: "ti = (tk, i)" by fastforce
  from Cons.prems ti obtain p1 where s: "process_events x tk i p = Some p1" and r: "mongo_run x is p1 = Some p'"
    by (auto simp: bind_eq_Some_conv)
  from s Cons.prems(1) have "mg_done p1 \<and> mg_sent p1 = mg_sent p \<and> (i = MgStop \<or> i = MgReceiverDropped)"
    by (cases i) (auto simp: mongo_stop_def)
  with Cons.IH [OF _ r] show ?case by (simp add: ti)
qed simp

subsection \<open>Adapters (producer_registry.rs, server.rs)\<close>

text \<open>A factory and the registry under its lock.  \<open>'p\<close> is a created producer.\<close>

record 'p ProducerFactory =
  pf_name :: string
  pf_create :: "json \<Rightarrow> (RealtimeError, 'p) result"

record 'p ProducerRegistry =
  pr_poisoned :: bool
  pr_factories :: "(string, 'p ProducerFactory) dashmap"

definition pr_new :: "'p ProducerRegistry" where
  "pr_new = \<lparr>pr_poisoned = False, pr_factories = []\<rparr>"

definition poisoned_error :: "string \<Rightarrow> RealtimeError" where
  "poisoned_error e = InternalError (''RwLock poisoned: '' @ e)"

definition pr_register ::
    "string \<Rightarrow> 'p ProducerFactory \<Rightarrow> 'p ProducerRegistry \<Rightarrow> (RealtimeError, unit) result \<times> 'p ProducerRegistry" where
  "pr_register poison factory r =
     (let name = pf_name factory in
      if pr_poisoned r then (Inl (poisoned_error poison), r)
      else (Inr (), r\<lparr>pr_factories := dm_insert name factory (pr_factories r)\<rparr>))"

fun join_str :: "string \<Rightarrow> string list \<Rightarrow> string" where
  "join_str sep [] = []"
| "join_str sep [s] = s"
| "join_str sep (s # ss) = s @ sep @ join_str sep ss"

definition create_producer ::
    "string \<Rightarrow> string \<Rightarrow> json \<Rightarrow> 'p ProducerRegistry \<Rightarrow> (RealtimeError, 'p) result" where
  "create_producer poison adapter config r =
     (if pr_poisoned r then Inl (poisoned_error poison)
      else case dm_get (pr_factories r) adapter of
             None \<Rightarrow> Inl (InternalError (''Unknown database adapter '' @ [CHR 0x27] @ adapter @ [CHR 0x27] @
               ''. Registered adapters: ['' @ join_str '', '' (dm_keys (pr_factories r)) @ '']''))
           | Some factory \<Rightarrow> pf_create factory config)"

definition adapters :: "string \<Rightarrow> 'p ProducerRegistry \<Rightarrow> (RealtimeError, string list) result" where
  "adapters poison r = (if pr_poisoned r then Inl (poisoned_error poison) else Inr (dm_keys (pr_factories r)))"

definition has_adapter :: "string \<Rightarrow> string \<Rightarrow> 'p ProducerRegistry \<Rightarrow> (RealtimeError, bool) result" where
  "has_adapter poison name r =
     (if pr_poisoned r then Inl (poisoned_error poison) else Inr (dm_contains (pr_factories r) name))"

record DatabaseConfig =
  dc_adapter :: string
  dc_config :: json

text \<open>\<open>start_producers\<close>: the handles created and the producers whose tasks are spawned;
  \<open>reported\<close> is a producer's own answer to \<open>attached\<close>.\<close>

fun start_producers :: "('p \<Rightarrow> bool option) \<Rightarrow> 'p ProducerRegistry \<Rightarrow> DatabaseConfig list \<Rightarrow> (ProducerHandle \<times> 'p) list" where
  "start_producers reported r [] = []"
| "start_producers reported r (db_cfg # cfgs) =
     (case create_producer [] (dc_adapter db_cfg) (dc_config db_cfg) r of
        Inr producer \<Rightarrow>
          (\<lparr>pd_name = dc_adapter db_cfg, pd_reported = reported producer, pd_ended = False\<rparr>, producer) # start_producers reported r cfgs
      | Inl e \<Rightarrow> start_producers reported r cfgs)"

definition default_producer_registry ::
    "(json \<Rightarrow> (RealtimeError, 'p) result) \<Rightarrow> (json \<Rightarrow> (RealtimeError, 'p) result) \<Rightarrow> 'p ProducerRegistry" where
  "default_producer_registry pg_create mongo_create =
     (let registry = pr_new;
          (_, registry) = pr_register [] \<lparr>pf_name = ''postgresql'', pf_create = pg_create\<rparr> registry;
          (_, registry) = pr_register [] \<lparr>pf_name = ''mongodb'', pf_create = mongo_create\<rparr> registry
      in registry)"

lemma default_registry_get:
  "create_producer e adapter config (default_producer_registry pg mongo) =
     (if adapter = ''postgresql'' then pg config
      else if adapter = ''mongodb'' then mongo config
      else Inl (InternalError (''Unknown database adapter '' @ [CHR 0x27] @ adapter @ [CHR 0x27] @
        ''. Registered adapters: [postgresql, mongodb]'')))"
  by (simp add: create_producer_def default_producer_registry_def pr_new_def pr_register_def dm_keys_def dm_insert_def dm_get_def)

end
