(* ===== verification/Rt_Irc.thy ===== *)
theory Rt_Irc
  imports Rt_Bus Rt_Session
begin

text \<open>
  The IRC client of \<open>crates/realtime-bus-irc/src\<close>: topics and channels (\<open>mapping.rs\<close>), nicknames
  (\<open>identity.rs\<close>), the lines of the protocol and the life of one connection (\<open>client.rs\<close>).  Lemmas: a
  nickname is legal for every user and handle; when mapping a topic to a channel and back is the
  identity; a printed message parses back; what reaches the server is the handshake and the commands,
  one line each exactly when they hold no line feed; a pending read that is cancelled loses its bytes.
\<close>

subsection \<open>Topics and channels (mapping.rs)\<close>

definition topic_to_channel :: "string \<Rightarrow> string \<Rightarrow> string option" where
  "topic_to_channel topic namespace =
     (let prefix = namespace @ ''/''
      in map_option (\<lambda>room. if starts_with room ''#'' then room else ''#'' @ room) (strip_prefix topic prefix))"

definition channel_to_topic :: "string \<Rightarrow> string \<Rightarrow> string" where
  "channel_to_topic channel namespace =
     (let room = trim_start_char CHR ''#'' channel in namespace @ ''/'' @ room)"

lemma topic_to_channel_Some:
  "topic_to_channel topic ns = Some ch \<longleftrightarrow>
   (\<exists>room. topic = ns @ ''/'' @ room \<and> (if starts_with room ''#'' then room else ''#'' @ room) = ch)"
  by (simp only: topic_to_channel_def Let_def map_option_eq_Some strip_prefix_Some_iff append_assoc)

text \<open>
  C28: Topics survive the trip through IRC unless their room starts with a hash sign.  A topic is carried
  exactly when it starts with the namespace and a slash; the channel it is sent to then starts with a
  hash sign, and an event received on that channel comes back under the same topic exactly when the
  room did not already start with one.
\<close>

theorem topic_channel_round_trip:
  "(topic_to_channel topic ns \<noteq> None \<longleftrightarrow> starts_with topic (ns @ ''/'')) \<and>
   (case topic_to_channel topic ns of
      None \<Rightarrow> True
    | Some ch \<Rightarrow> starts_with ch ''#'' \<and>
        (channel_to_topic ch ns = topic \<longleftrightarrow> \<not> starts_with topic (ns @ ''/#'')))"
proof (intro conjI)
  show "topic_to_channel topic ns \<noteq> None \<longleftrightarrow> starts_with topic (ns @ ''/'')"
    by (simp add: topic_to_channel_def strip_prefix_def Let_def)
  have len: "length (dropWhile P xs) \<le> length xs" for P and xs :: string
    by (rule length_dropWhile_le)
  show "case topic_to_channel topic ns of
      None \<Rightarrow> True
    | Some ch \<Rightarrow> starts_with ch ''#'' \<and>
        (channel_to_topic ch ns = topic \<longleftrightarrow> \<not> starts_with topic (ns @ ''/#''))"
  proof (cases "topic_to_channel topic ns")
    case (Some ch)
    then obtain room where t: "topic = ns @ ''/'' @ room"
      and c: "(if starts_with room ''#'' then room else ''#'' @ room) = ch"
      using topic_to_channel_Some by blast
    have "dropWhile (\<lambda>x. x = CHR ''#'') room = room \<longleftrightarrow> \<not> starts_with room ''#''"
    proof (cases room)
      case (Cons x xs)
      then show ?thesis using len [of "\<lambda>x. x = CHR ''#''" xs]
        by (auto simp: starts_with_def dest: arg_cong [of _ _ length])
    qed (simp add: starts_with_def)
    then show ?thesis using Some t
      by (cases "starts_with room ''#''")
        (simp_all add: c [symmetric] channel_to_topic_def trim_start_char_def starts_with_def)
  qed simp
qed

subsection \<open>Nicknames (identity.rs)\<close>

definition DEFAULT_NICK_MAX :: nat where
  "DEFAULT_NICK_MAX = 9"

definition is_special :: "char \<Rightarrow> bool" where
  "is_special c = (of_char c \<in> {91, 93, 92, 96, 95, 94, 123, 124, 125::nat})"

definition is_ascii_alphabetic :: "char \<Rightarrow> bool" where
  "is_ascii_alphabetic c = (let n = of_char c :: nat in (65 \<le> n \<and> n \<le> 90) \<or> (97 \<le> n \<and> n \<le> 122))"

definition is_nick_start :: "char \<Rightarrow> bool" where
  "is_nick_start c = (is_ascii_alphabetic c \<or> is_special c)"

definition is_nick_char :: "char \<Rightarrow> bool" where
  "is_nick_char c = (is_ascii_alphabetic c \<or> is_digit c \<or> c = CHR ''-'' \<or> is_special c)"

definition fnv1a :: "string \<Rightarrow> u64" where
  "fnv1a s = foldl (\<lambda>h b. (h XOR of_nat (of_char b)) * 0x00000100000001b3) 0xcbf29ce484222325 s"

definition base36_alphabet :: string where
  "base36_alphabet = ''0123456789abcdefghijklmnopqrstuvwxyz''"

text \<open>The slots are filled from the last one.\<close>

fun base36 :: "u64 \<Rightarrow> nat \<Rightarrow> string" where
  "base36 n 0 = []"
| "base36 n (Suc len) = base36 (n div 36) len @ [base36_alphabet ! unat (n mod 36)]"

definition to_irc_nick :: "string \<Rightarrow> string \<Rightarrow> nat \<Rightarrow> string" where
  "to_irc_nick user_id handle max_len =
     (let mx = max max_len 1;
          suffix_len = (if mx \<le> 1 then 0 else if mx \<le> 3 then 1 else 3);
          suffix = base36 (fnv1a user_id) suffix_len;
          base = (if trim handle = [] then user_id else handle);
          prefix_len = mx - suffix_len;
          prefix = take prefix_len (filter is_nick_char base);
          nick = prefix @ suffix;
          nick = (if nick = [] then take mx ''user'' else nick);
          first = (if nick = [] then CHR ''u'' else hd nick)
      in if \<not> is_nick_start first then take mx (''u'' @ nick) else nick)"

definition legal_nick :: "nat \<Rightarrow> string \<Rightarrow> bool" where
  "legal_nick mx nick = (nick \<noteq> [] \<and> length nick \<le> mx \<and> is_nick_start (hd nick) \<and> list_all is_nick_char nick)"

lemma base36_length [simp]: "length (base36 n k) = k"
  by (induction k arbitrary: n) auto

lemma base36_alphabet_legal: "list_all is_nick_char base36_alphabet"
  by (simp add: base36_alphabet_def is_nick_char_def is_ascii_alphabetic_def is_digit_def)

lemma base36_legal: "list_all is_nick_char (base36 n k)"
proof (induction k arbitrary: n)
  case (Suc k)
  have "unat (n mod 36) < length base36_alphabet"
    by (simp add: base36_alphabet_def unat_mod)
  then have "is_nick_char (base36_alphabet ! unat (n mod 36))"
    using base36_alphabet_legal by (simp add: list_all_length)
  with Suc show ?case by simp
qed simp

lemma filter_take_legal: "list_all is_nick_char (take n (filter is_nick_char s))"
  by (auto simp: list_all_iff dest: in_set_takeD)

lemma list_all_take: "list_all P xs \<Longrightarrow> list_all P (take n xs)"
  by (auto simp: list_all_iff dest: in_set_takeD)

lemma to_irc_nick_legal:
  "legal_nick (max max_len 1) (to_irc_nick user_id handle max_len)"
proof -
  define mx where "mx = max max_len 1"
  define k :: nat where "k = (if mx \<le> 1 then 0 else if mx \<le> 3 then 1 else 3)"
  define base where "base = (if trim handle = [] then user_id else handle)"
  define n0 where "n0 = take (mx - k) (filter is_nick_char base) @ base36 (fnv1a user_id) k"
  define n1 where "n1 = (if n0 = [] then take mx ''user'' else n0)"
  have mx: "0 < mx" "k \<le> mx" by (auto simp: mx_def k_def)
  have "list_all is_nick_char n0" by (simp add: n0_def filter_take_legal base36_legal)
  moreover have "list_all is_nick_char ''user''" and u: "is_nick_char CHR ''u''" "is_nick_start CHR ''u''"
    by (simp_all add: is_nick_char_def is_nick_start_def is_ascii_alphabetic_def)
  ultimately have legal: "list_all is_nick_char n1" by (simp add: n1_def list_all_take)
  have len: "length n1 \<le> mx" using mx by (auto simp: n1_def n0_def)
  have ne: "n1 \<noteq> []" using mx by (auto simp: n1_def)
  have nick: "to_irc_nick user_id handle max_len =
      (if \<not> is_nick_start (hd n1) then take mx (''u'' @ n1) else n1)"
    unfolding to_irc_nick_def Let_def mx_def [symmetric] k_def [symmetric] base_def [symmetric]
      n0_def [symmetric] n1_def [symmetric] using ne by simp
  show ?thesis
  proof (cases "is_nick_start (hd n1)")
    case True
    then show ?thesis using nick legal len ne by (simp add: legal_nick_def mx_def)
  next
    case False
    define t where "t = take mx (''u'' @ n1)"
    have "list_all is_nick_char (''u'' @ n1)" using legal u by simp
    then have l: "list_all is_nick_char t" unfolding t_def by (rule list_all_take)
    have "take mx (''u'' @ n1) = CHR ''u'' # take (mx - 1) n1"
      using mx(1) by (simp add: take_Cons')
    then have h: "t \<noteq> []" "hd t = CHR ''u''" by (simp_all add: t_def)
    have "length t \<le> mx" by (simp only: t_def length_take min.cobounded2)
    moreover have "to_irc_nick user_id handle max_len = t" using nick False by (simp only: t_def) simp
    ultimately show ?thesis using l h u unfolding legal_nick_def mx_def [symmetric] by simp
  qed
qed

text \<open>
  C40: Nicknames are legal.  Whatever bytes the user id and the handle consist of, empty or not, the
  nickname has at least one and at most the allowed number of characters (one, if none are allowed),
  starts with a letter or special character, and has only characters a nickname may have.
\<close>

theorem irc_nick_legal:
  "legal_nick (max max_len 1) (to_irc_nick user_id handle max_len)"
  by (rule to_irc_nick_legal)

text \<open>The suffix is a hash to three digits, so two users with one handle can have the same nickname.\<close>

lemma irc_nick_collides: "to_irc_nick ''user-881'' ''alice'' 9 = to_irc_nick ''user-1000'' ''alice'' 9"
proof -
  have "base36 (fnv1a ''user-881'') 3 = base36 (fnv1a ''user-1000'') 3"
    by (simp add: fnv1a_def numeral_3_eq_3)
  moreover have "(if max (9::nat) 1 \<le> 1 then 0 else if max (9::nat) 1 \<le> 3 then 1 else 3) = (3::nat)" by simp
  moreover have "trim ''alice'' \<noteq> []"
    by (simp add: trim_def trim_start_def trim_end_def drop_white.simps white_len_def white_len_rev_def
        byte_at_def white_bytes_def is_white_def)
  ultimately show ?thesis by (simp only: to_irc_nick_def Let_def if_False)
qed

subsection \<open>Lines of the protocol (client.rs)\<close>

record SessionConfig =
  sc_host :: string
  sc_port :: u16
  sc_password :: string
  sc_nick :: string
  sc_user :: string
  sc_realname :: string
  sc_channels :: "string list"
  sc_namespace :: string
  sc_forward_inbound :: bool

record ParsedLine =
  pl_prefix :: "string option"
  pl_command :: string
  pl_params :: "string list"
  pl_trailing :: "string option"

definition split_once_space :: "string \<Rightarrow> string \<times> string" where
  "split_once_space s =
     (case find_str '' '' s of
        None \<Rightarrow> (s, [])
      | Some i \<Rightarrow> (take i s, trim_start (drop (i + 1) s)))"

definition parse_line :: "string \<Rightarrow> ParsedLine" where
  "parse_line raw =
     (let (prefix, rest) =
        (case strip_prefix raw '':'' of
           Some stripped \<Rightarrow> (let (p, r) = split_once_space stripped in (Some p, r))
         | None \<Rightarrow> (None, raw));
      (trailing, rest) =
        (case find_str '' :'' rest of
           Some idx \<Rightarrow> (Some (drop (idx + 2) rest), take idx rest)
         | None \<Rightarrow> (None, rest));
      parts = split_whitespace rest;
      (command, params) = (case parts of [] \<Rightarrow> ([], []) | command # params \<Rightarrow> (command, params))
      in \<lparr>pl_prefix = prefix, pl_command = command, pl_params = params, pl_trailing = trailing\<rparr>)"

definition prefix_nick :: "ParsedLine \<Rightarrow> string option" where
  "prefix_nick msg = map_option (\<lambda>p. split_nth 0 (split_on CHR ''!'' p)) (pl_prefix msg)"

definition is_nick_error :: "string \<Rightarrow> bool" where
  "is_nick_error raw = (let cmd = pl_command (parse_line raw) in cmd = ''433'' \<or> cmd = ''432'')"

definition retry_nick :: "string \<Rightarrow> u32 \<Rightarrow> string" where
  "retry_nick base attempt =
     (let suffix = show_word attempt;
          keep = max (9 - length suffix) 1
      in take_chars keep base @ suffix)"

definition eq_ignore_ascii_case :: "string \<Rightarrow> string \<Rightarrow> bool" where
  "eq_ignore_ascii_case a b = (ascii_lower a = ascii_lower b)"

subsection \<open>One connection (client.rs)\<close>

text \<open>The sending half of a connection: the bytes sent, and how many more it takes before it fails.\<close>

record Socket =
  sk_sent :: bytes
  sk_room :: nat

definition write_all :: "bytes \<Rightarrow> Socket \<Rightarrow> bool \<times> Socket" where
  "write_all bs sk = (length bs \<le> sk_room sk,
     sk\<lparr>sk_sent := sk_sent sk @ take (sk_room sk) bs, sk_room := sk_room sk - length bs\<rparr>)"

definition crlf :: string where
  "crlf = [CHR 0x0D, CHR 0x0A]"

definition write_line :: "string \<Rightarrow> Socket \<Rightarrow> bool \<times> Socket" where
  "write_line line sk =
     (let (ok, sk) = write_all line sk
      in if \<not> ok then (False, sk) else write_all crlf sk)"

definition irc_event :: "Format \<Rightarrow> Tick \<Rightarrow> SessionConfig \<Rightarrow> string \<Rightarrow> string \<Rightarrow> string \<Rightarrow> EventEnvelope" where
  "irc_event fm tk cfg channel sender text =
     (let topic = channel_to_topic channel (sc_namespace cfg);
          body = JObject [(''from'', JString sender), (''text'', JString text)];
          payload = (case x_to_vec (fm_ext fm) body of None \<Rightarrow> [] | Some bytes \<Rightarrow> bytes);
          event = envelope_new (tk_uuid tk) (tk_now tk) (topic_new topic) ''message'' payload
      in event\<lparr>ev_source := Some \<lparr>src_kind = SrcCustom ''irc'', src_id = sender, src_metadata = []\<rparr>\<rparr>)"

definition handle_inbound ::
    "Format \<Rightarrow> Tick \<Rightarrow> SessionConfig \<Rightarrow> string \<Rightarrow> Socket \<times> broadcast \<Rightarrow> bool \<times> Socket \<times> broadcast" where
  "handle_inbound fm tk cfg raw = (\<lambda>(sk, inbound).
     if raw = [] then (True, sk, inbound)
     else
       let msg = parse_line raw in
       if eq_ignore_ascii_case (pl_command msg) ''PING'' then
         let token = (case pl_trailing msg of Some t \<Rightarrow> t | None \<Rightarrow> []);
             (ok, sk) = write_line (''PONG :'' @ token) sk
         in (ok, sk, inbound)
       else if eq_ignore_ascii_case (pl_command msg) ''PRIVMSG'' then
         (if \<not> sc_forward_inbound cfg then (True, sk, inbound)
          else case pl_params msg of
                 [] \<Rightarrow> (True, sk, inbound)
               | channel # _ \<Rightarrow>
                   if \<not> starts_with channel ''#'' then (True, sk, inbound)
                   else
                     let sender = (case prefix_nick msg of Some n \<Rightarrow> n | None \<Rightarrow> ''unknown'');
                         text = (case pl_trailing msg of Some t \<Rightarrow> t | None \<Rightarrow> []);
                         event = irc_event fm tk cfg channel sender text
                     in (True, sk, (case broadcast_send event inbound of Some b \<Rightarrow> b | None \<Rightarrow> inbound)))
       else (True, sk, inbound))"

text \<open>What the session sees, in order.  \<open>read_line\<close> is not cancellation safe: bytes its pending call
  has read (\<open>ReadPart\<close>) are lost when a command is taken before it completes (\<open>ReadDone\<close>, the bytes up
  to the line feed or, at the end of the stream, what there is).\<close>

datatype irc_input = ReadPart bytes | ReadDone bytes | ReadError | Command string | CommandsClosed

record IrcSession =
  is_pending :: bytes
  is_current_nick :: string
  is_nick_try :: u32
  is_socket :: Socket
  is_inbound :: broadcast

definition trim_line_end :: "string \<Rightarrow> string" where
  "trim_line_end s = rev (dropWhile (\<lambda>c. c \<in> set crlf) (rev s))"

text \<open>One turn of the loop: how the session ended, if it did, with \<open>True\<close> for \<open>Ok\<close>.\<close>

fun session_turn :: "Format \<Rightarrow> Tick \<Rightarrow> SessionConfig \<Rightarrow> irc_input \<Rightarrow> IrcSession \<Rightarrow> bool option \<times> IrcSession" where
  "session_turn fm tk cfg (ReadPart bs) st = (None, st\<lparr>is_pending := is_pending st @ bs\<rparr>)"
| "session_turn fm tk cfg (ReadDone bs) st =
     (let line = is_pending st @ bs; st = st\<lparr>is_pending := []\<rparr> in
      if line = [] then (Some False, st)
      else
        let raw = trim_line_end line in
        if is_nick_error raw then
          let nick_try = is_nick_try st + 1;
              current_nick = retry_nick (sc_nick cfg) nick_try;
              (ok, sk) = write_line (''NICK '' @ current_nick) (is_socket st)
          in (if ok then None else Some False,
              st\<lparr>is_nick_try := nick_try, is_current_nick := current_nick, is_socket := sk\<rparr>)
        else
          let (ok, sk, inbound) = handle_inbound fm tk cfg raw (is_socket st, is_inbound st)
          in (if ok then None else Some False, st\<lparr>is_socket := sk, is_inbound := inbound\<rparr>))"
| "session_turn fm tk cfg ReadError st = (Some False, st)"
| "session_turn fm tk cfg (Command raw) st =
     (let (ok, sk) = write_line raw (is_socket st)
      in (if ok then None else Some False, st\<lparr>is_pending := [], is_socket := sk\<rparr>))"
| "session_turn fm tk cfg CommandsClosed st =
     (let (_, sk) = write_line ''QUIT :bye'' (is_socket st)
      in (Some True, st\<lparr>is_pending := [], is_socket := sk\<rparr>))"

fun session_loop ::
    "Format \<Rightarrow> (nat \<Rightarrow> Tick) \<Rightarrow> SessionConfig \<Rightarrow> irc_input list \<Rightarrow> IrcSession \<Rightarrow> bool option \<times> IrcSession" where
  "session_loop fm tks cfg [] st = (None, st)"
| "session_loop fm tks cfg (input # inputs) st =
     (case session_turn fm (tks 0) cfg input st of
        (Some ok, st) \<Rightarrow> (Some ok, st)
      | (None, st) \<Rightarrow> session_loop fm (tks \<circ> Suc) cfg inputs st)"

fun write_lines :: "string list \<Rightarrow> Socket \<Rightarrow> bool \<times> Socket" where
  "write_lines [] sk = (True, sk)"
| "write_lines (l # ls) sk =
     (let (ok, sk) = write_line l sk in if ok then write_lines ls sk else (False, sk))"

definition handshake :: "SessionConfig \<Rightarrow> string list" where
  "handshake cfg =
     (if sc_password cfg \<noteq> [] then [''PASS '' @ sc_password cfg] else []) @
     [''NICK '' @ sc_nick cfg, ''USER '' @ sc_user cfg @ '' 0 * :'' @ sc_realname cfg] @
     map (\<lambda>channel. ''JOIN '' @ channel) (sc_channels cfg)"

text \<open>\<open>conn\<close> is the connection opened, or \<open>None\<close> when the server is not reached.\<close>

definition run_session ::
    "Format \<Rightarrow> (nat \<Rightarrow> Tick) \<Rightarrow> SessionConfig \<Rightarrow> Socket option \<Rightarrow> irc_input list \<Rightarrow> broadcast
      \<Rightarrow> bool option \<times> Socket option \<times> broadcast" where
  "run_session fm tks cfg conn inputs inbound =
     (case conn of
        None \<Rightarrow> (Some False, None, inbound)
      | Some sk \<Rightarrow>
          let (ok, sk) = write_lines (handshake cfg) sk in
          if \<not> ok then (Some False, Some sk, inbound)
          else
            let (res, st) = session_loop fm tks cfg inputs
                  \<lparr>is_pending = [], is_current_nick = sc_nick cfg, is_nick_try = 0,
                   is_socket = sk, is_inbound = inbound\<rparr>
            in (res, Some (is_socket st), is_inbound st))"

text \<open>The reconnecting loop, over the attempts: the connection each one gets and what it then sees.
  It returns when a session ends well; an attempt that is still running counts as its last.\<close>

record attempt =
  at_conn :: "Socket option"
  at_inputs :: "irc_input list"
  at_ticks :: "nat \<Rightarrow> Tick"

partial_function (option) run_client ::
    "Format \<Rightarrow> SessionConfig \<Rightarrow> (nat \<Rightarrow> attempt) \<Rightarrow> nat \<Rightarrow> broadcast
      \<Rightarrow> (Socket option list \<times> broadcast) option" where
  "run_client fm cfg att i inbound =
     (let (res, sk, inbound) = run_session fm (at_ticks (att i)) cfg (at_conn (att i)) (at_inputs (att i)) inbound
      in if res = Some False
         then Option.bind (run_client fm cfg att (Suc i) inbound) (\<lambda>(sks, b). Some (sk # sks, b))
         else Some ([sk], inbound))"

declare session_turn.simps [simp del]

subsection \<open>Messages of a channel\<close>

fun no_white :: "string \<Rightarrow> bool" where
  "no_white [] = True"
| "no_white (c # s) = (white_len (c # s) = 0 \<and> no_white s)"

lemma split_words_no_white: "no_white s \<Longrightarrow> split_words w s = (if w @ s = [] then [] else [w @ s])"
  by (induction s arbitrary: w) auto

lemma split_words_letter:
  "\<not> is_white c \<Longrightarrow> of_char c < (128::nat) \<Longrightarrow> split_words w (c # s) = split_words (w @ [c]) s"
  by (simp add: white_len_def byte_at_def white_bytes_def)

lemma split_words_space: "w \<noteq> [] \<Longrightarrow> split_words w (CHR '' '' # s) = w # split_words [] s"
  by (simp add: white_len_def is_white_def)

lemma find_str_1: "c \<notin> set a \<Longrightarrow> find_str [c] (a @ c # b) = Some (length a)"
  by (induction a) auto

lemma find_str_skip: "x \<notin> set w \<Longrightarrow> find_str (x # p) (w @ s) = map_option (\<lambda>n. length w + n) (find_str (x # p) s)"
proof (induction w)
  case Nil
  then show ?case by (cases "find_str (x # p) s") auto
next
  case (Cons a w)
  then show ?case by (cases "find_str (x # p) s") auto
qed

lemma find_str_2: "z \<noteq> y \<Longrightarrow> find_str [x, y] (x # z # s) = map_option Suc (find_str [x, y] (z # s))"
  by simp

lemma take_len: "n = length a \<Longrightarrow> take n (a @ b) = a" and drop_len: "n = length a \<Longrightarrow> drop (n + 2) (a @ x # y # b) = b"
  by simp_all

lemma parse_privmsg:
  assumes "CHR '' '' \<notin> set prefix" and ch: "ch = CHR ''#'' # room" "CHR '' '' \<notin> set room" "no_white ch"
  shows "parse_line ('':'' @ prefix @ '' PRIVMSG '' @ ch @ '' :'' @ text) =
     \<lparr>pl_prefix = Some prefix, pl_command = ''PRIVMSG'', pl_params = [ch], pl_trailing = Some text\<rparr>"
proof -
  let ?rest = "''PRIVMSG '' @ ch @ '' :'' @ text"
  have w: "white_len ?rest = 0" by (simp add: white_len_def byte_at_def white_bytes_def is_white_def)
  have once: "split_once_space (prefix @ '' '' @ ?rest) = (prefix, ?rest)"
    using assms(1) w by (simp add: split_once_space_def find_str_1 trim_start_id)
  have "find_str '' :'' (''PRIVMSG'' @ '' '' @ ch @ '' :'' @ text) = Some (8 + length ch)"
    using ch(2) by (subst find_str_skip) (simp_all add: ch(1) find_str_skip)
  then have find: "find_str '' :'' ?rest = Some (8 + length ch)" by simp
  have "split_words [] (''PRIVMSG '' @ ch) = [''PRIVMSG'', ch]"
    using ch(3) by (simp add: split_words_letter split_words_space is_white_def split_words_no_white ch(1)
      del: split_words.simps)
  moreover have "take (8 + length ch) ?rest = ''PRIVMSG '' @ ch" "drop (8 + length ch + 2) ?rest = text"
    using take_len [of "8 + length ch" "''PRIVMSG '' @ ch" "'' :'' @ text"]
      drop_len [of "8 + length ch" "''PRIVMSG '' @ ch"] by simp_all
  moreover have "strip_prefix ('':'' @ prefix @ '' PRIVMSG '' @ ch @ '' :'' @ text) '':'' = Some (prefix @ '' '' @ ?rest)"
    by (simp add: strip_prefix_Some_iff)
  ultimately show ?thesis using once find
    by (simp add: parse_line_def split_whitespace_def)
qed

lemma trim_line_end_crlf: "l \<noteq> [] \<Longrightarrow> last l \<notin> set crlf \<Longrightarrow> trim_line_end (l @ crlf) = l"
  by (cases l rule: rev_cases) (auto simp: trim_line_end_def crlf_def)

lemma last_trailing: "x \<notin> S \<Longrightarrow> set t \<inter> S = {} \<Longrightarrow> last (l @ x # t) \<notin> S"
  by (cases t rule: rev_cases) auto

lemma prefix_nick_of:
  "CHR ''!'' \<notin> set nick \<Longrightarrow> pl_prefix msg = Some (nick @ ''!'' @ user) \<Longrightarrow> prefix_nick msg = Some nick"
  by (simp add: prefix_nick_def split_on_append_sep split_nth_def)

lemma privmsg_turn:
  assumes "CHR '' '' \<notin> set (nick @ user)" and "CHR ''!'' \<notin> set nick"
    and "ch = CHR ''#'' # room" and "CHR '' '' \<notin> set room" and "no_white ch"
    and "set text \<inter> set crlf = {}"
    and line: "is_pending st @ bs = '':'' @ nick @ ''!'' @ user @ '' PRIVMSG '' @ ch @ '' :'' @ text @ crlf"
  shows "session_turn fm tk cfg (ReadDone bs) st =
     (None, st\<lparr>is_pending := [], is_inbound :=
        (if sc_forward_inbound cfg
         then (case broadcast_send (irc_event fm tk cfg ch nick text) (is_inbound st) of
                 Some b \<Rightarrow> b | None \<Rightarrow> is_inbound st)
         else is_inbound st)\<rparr>)"
proof -
  define l where "l = '':'' @ (nick @ ''!'' @ user) @ '' PRIVMSG '' @ ch @ '' :'' @ text"
  have parse: "parse_line l = \<lparr>pl_prefix = Some (nick @ ''!'' @ user), pl_command = ''PRIVMSG'',
      pl_params = [ch], pl_trailing = Some text\<rparr>"
    unfolding l_def by (rule parse_privmsg) (use assms in auto)
  have "CHR '':'' \<notin> set crlf" by (simp add: crlf_def)
  from last_trailing [OF this assms(6), of "'':'' @ (nick @ ''!'' @ user) @ '' PRIVMSG '' @ ch @ '' ''"]
  have raw: "trim_line_end (l @ crlf) = l" by (intro trim_line_end_crlf) (simp_all add: l_def)
  have ne: "l \<noteq> []" and line: "is_pending st @ bs = l @ crlf" by (simp_all add: l_def line)
  have nick: "prefix_nick (parse_line l) = Some nick"
    by (rule prefix_nick_of [OF assms(2), of _ user]) (simp only: parse ParsedLine.select_convs)
  have cmd: "\<not> is_nick_error l" "\<not> eq_ignore_ascii_case ''PRIVMSG'' ''PING''"
      "eq_ignore_ascii_case ''PRIVMSG'' ''PRIVMSG''" "starts_with ch ''#''"
    unfolding is_nick_error_def parse
    by (simp_all add: eq_ignore_ascii_case_def ascii_lower_def ascii_lower_char_def
        starts_with_def assms(3))
  have "handle_inbound fm tk cfg l (sk, b) =
     (True, sk, (if sc_forward_inbound cfg
         then (case broadcast_send (irc_event fm tk cfg ch nick text) b of Some b \<Rightarrow> b | None \<Rightarrow> b) else b))" for sk b
    using cmd nick ne by (simp add: handle_inbound_def parse)
  with raw cmd(1) ne show ?thesis by (simp add: session_turn.simps line Let_def cong: option.case_cong)
qed

text \<open>
  A channel message becomes one event.  When the server sends a message of a user to a channel whose
  name has no white space, then, in any state of the service connection with no read pending, exactly
  the event under the topic of the channel, from that nick and with that text goes to the subscribers
  of the bus, if it has any; nothing is written, and a per-user connection ignores the message.
\<close>

theorem irc_message_arrives:
  assumes "CHR '' '' \<notin> set (nick @ user)" and "CHR ''!'' \<notin> set nick"
    and "ch = CHR ''#'' # room" and "CHR '' '' \<notin> set room" and "no_white ch"
    and "set text \<inter> set crlf = {}" and "is_pending st = []"
  shows "session_turn fm tk cfg (ReadDone ('':'' @ nick @ ''!'' @ user @ '' PRIVMSG '' @ ch @ '' :'' @ text @ crlf)) st =
     (None, st\<lparr>is_inbound :=
        (if sc_forward_inbound cfg
         then (case broadcast_send (irc_event fm tk cfg ch nick text) (is_inbound st) of
                 Some b \<Rightarrow> b | None \<Rightarrow> is_inbound st)
         else is_inbound st)\<rparr>)"
  using privmsg_turn [OF assms(1-6), of st "'':'' @ nick @ ''!'' @ user @ '' PRIVMSG '' @ ch @ '' :'' @ text @ crlf"]
    assms(7) by (cases st) simp

theorem irc_message_arrives_witness:
  "\<forall>fm tk cfg sk b. session_turn fm tk cfg (ReadDone ('':bob!b PRIVMSG #general :hi there: you'' @ crlf))
     \<lparr>is_pending = [], is_current_nick = ''gw'', is_nick_try = 0, is_socket = sk, is_inbound = b\<rparr> =
   (None, \<lparr>is_pending = [], is_current_nick = ''gw'', is_nick_try = 0, is_socket = sk, is_inbound =
      (if sc_forward_inbound cfg
       then (case broadcast_send (irc_event fm tk cfg ''#general'' ''bob'' ''hi there: you'') b of Some b \<Rightarrow> b | None \<Rightarrow> b)
       else b)\<rparr>)"
proof (intro allI)
  fix fm :: Format and tk :: Tick and cfg :: SessionConfig and sk :: Socket and b :: broadcast
  show "session_turn fm tk cfg (ReadDone ('':bob!b PRIVMSG #general :hi there: you'' @ crlf))
     \<lparr>is_pending = [], is_current_nick = ''gw'', is_nick_try = 0, is_socket = sk, is_inbound = b\<rparr> =
   (None, \<lparr>is_pending = [], is_current_nick = ''gw'', is_nick_try = 0, is_socket = sk, is_inbound =
      (if sc_forward_inbound cfg
       then (case broadcast_send (irc_event fm tk cfg ''#general'' ''bob'' ''hi there: you'') b of Some b \<Rightarrow> b | None \<Rightarrow> b)
       else b)\<rparr>)"
    using irc_message_arrives [of "''bob''" "''b''" "''#general''" "''general''" "''hi there: you''"
        "\<lparr>is_pending = [], is_current_nick = ''gw'', is_nick_try = 0, is_socket = sk, is_inbound = b\<rparr>" fm tk cfg]
    by (cases "sc_forward_inbound cfg")
      (simp_all cong: option.case_cong add: crlf_def white_len_def byte_at_def white_bytes_def is_white_def)
qed

subsection \<open>A cancelled read\<close>

definition demo_irc_session :: "broadcast \<Rightarrow> IrcSession" where
  "demo_irc_session b = \<lparr>is_pending = [], is_current_nick = ''gw'', is_nick_try = 0,
     is_socket = \<lparr>sk_sent = [], sk_room = 1000\<rparr>, is_inbound = b\<rparr>"

text \<open>
  A command cancels a pending read.  A message of bob whose line arrives in two pieces, with a command
  of the gateway written in between, reaches the bus as its second piece alone; when bob chose the text
  of that piece, the event carries the nick of alice.  Had the command come first, bob's message would
  have arrived as he sent it.
\<close>

theorem irc_read_cancelled:
  "let first = '':bob!b PRIVMSG #general :hi'';
       second = '':alice!a PRIVMSG #general :pay bob'';
       events = (\<lambda>inputs. bc_sent (is_inbound (snd (session_loop fm tks cfg inputs (demo_irc_session
          \<lparr>bc_ring = 8, bc_sent = [], bc_cursors = [Some 0], bc_closed = False\<rparr>)))))
   in events [ReadPart first, Command ''PRIVMSG #general :x'', ReadDone (second @ crlf)] =
        (if sc_forward_inbound cfg then [irc_event fm (tks 2) cfg ''#general'' ''alice'' ''pay bob''] else []) \<and>
      events [Command ''PRIVMSG #general :x'', ReadPart first, ReadDone (second @ crlf)] =
        (if sc_forward_inbound cfg
         then [irc_event fm (tks 2) cfg ''#general'' ''bob'' ''hi:alice!a PRIVMSG #general :pay bob''] else [])"
proof -
  define second where "second = '':alice!a PRIVMSG #general :pay bob'' @ crlf"
  have white: "no_white ''#general''"
    by (simp add: white_len_def byte_at_def white_bytes_def is_white_def)
  have alice: "session_turn fm tk cfg (ReadDone second) st = (None, st\<lparr>is_pending := [], is_inbound :=
      (if sc_forward_inbound cfg
       then (case broadcast_send (irc_event fm tk cfg ''#general'' ''alice'' ''pay bob'') (is_inbound st) of
               Some b \<Rightarrow> b | None \<Rightarrow> is_inbound st) else is_inbound st)\<rparr>)"
    if "is_pending st = []" for tk st
    using that white by (intro privmsg_turn [where user = "''a''" and room = "''general''"])
      (simp_all add: second_def crlf_def)
  have bob: "session_turn fm tk cfg (ReadDone second) st = (None, st\<lparr>is_pending := [], is_inbound :=
      (if sc_forward_inbound cfg
       then (case broadcast_send (irc_event fm tk cfg ''#general'' ''bob'' ''hi:alice!a PRIVMSG #general :pay bob'') (is_inbound st) of
               Some b \<Rightarrow> b | None \<Rightarrow> is_inbound st) else is_inbound st)\<rparr>)"
    if "is_pending st = '':bob!b PRIVMSG #general :hi''" for tk st
    using that white by (intro privmsg_turn [where user = "''b''" and room = "''general''"])
      (simp_all add: second_def crlf_def)
  show ?thesis
    unfolding Let_def demo_irc_session_def second_def [symmetric]
    by (simp add: session_turn.simps(1,4) write_line_def write_all_def alice bob broadcast_send_def)
       (simp add: crlf_def numeral_2_eq_2)
qed

subsection \<open>The reconnecting loop\<close>

text \<open>How a session ends does not depend on what is on the bus.\<close>

lemma handle_inbound_bus:
  "handle_inbound fm tk cfg raw (sk, b) = (ok, sk', b') \<Longrightarrow>
   \<exists>c'. handle_inbound fm tk cfg raw (sk, c) = (ok, sk', c')"
  by (auto simp: handle_inbound_def Let_def split: prod.splits if_splits list.splits)

lemma session_turn_bus:
  "session_turn fm tk cfg input st = (r, st') \<Longrightarrow>
   \<exists>c'. session_turn fm tk cfg input (st\<lparr>is_inbound := c\<rparr>) = (r, st'\<lparr>is_inbound := c'\<rparr>)"
proof (cases input)
  case (ReadDone bs)
  assume st: "session_turn fm tk cfg input st = (r, st')"
  obtain ok sk b where h: "handle_inbound fm tk cfg (trim_line_end (is_pending st @ bs)) (is_socket st, is_inbound st)
      = (ok, sk, b)" by (metis surj_pair)
  from handle_inbound_bus [OF h] obtain c' where
    "handle_inbound fm tk cfg (trim_line_end (is_pending st @ bs)) (is_socket st, c) = (ok, sk, c')" by blast
  with st h show ?thesis
    by (cases st) (auto simp: ReadDone session_turn.simps Let_def split: prod.splits if_splits)
qed (cases st; auto simp: session_turn.simps split: prod.splits)+

lemma session_loop_bus:
  "\<exists>c'. session_loop fm tks cfg inputs (st\<lparr>is_inbound := c\<rparr>) =
     (fst (session_loop fm tks cfg inputs st), (snd (session_loop fm tks cfg inputs st))\<lparr>is_inbound := c'\<rparr>)"
proof (induction inputs arbitrary: tks st c)
  case Nil
  then show ?case by auto
next
  case (Cons input inputs)
  obtain r st' where t: "session_turn fm (tks 0) cfg input st = (r, st')" by fastforce
  from session_turn_bus [OF t] obtain c1
    where "session_turn fm (tks 0) cfg input (st\<lparr>is_inbound := c\<rparr>) = (r, st'\<lparr>is_inbound := c1\<rparr>)" by blast
  with t Cons.IH [where tks = "tks \<circ> Suc" and st = st' and c = c1] show ?case by (cases r) (auto simp: o_def)
qed

definition attempt_fails :: "Format \<Rightarrow> SessionConfig \<Rightarrow> attempt \<Rightarrow> broadcast \<Rightarrow> bool" where
  "attempt_fails fm cfg a b =
     (fst (run_session fm (at_ticks a) cfg (at_conn a) (at_inputs a) b) = Some False)"

lemma attempt_fails_bus: "attempt_fails fm cfg a b = attempt_fails fm cfg a c"
proof (cases "at_conn a")
  case (Some sk)
  obtain ok sk' where w: "write_lines (handshake cfg) sk = (ok, sk')" by fastforce
  let ?st = "\<lambda>b. \<lparr>is_pending = [], is_current_nick = sc_nick cfg, is_nick_try = 0, is_socket = sk', is_inbound = b\<rparr>"
  from session_loop_bus [where st = "?st b" and c = c and fm = fm and tks = "at_ticks a" and cfg = cfg
      and inputs = "at_inputs a"]
  have "fst (session_loop fm (at_ticks a) cfg (at_inputs a) (?st c)) =
      fst (session_loop fm (at_ticks a) cfg (at_inputs a) (?st b))" by auto
  with Some w show ?thesis
    by (simp add: attempt_fails_def run_session_def Let_def case_prod_beta)
qed (simp add: attempt_fails_def run_session_def)

lemma run_client_Some:
  "run_client fm cfg att i b = Some r \<Longrightarrow> \<exists>n. \<not> attempt_fails fm cfg (att n) c"
proof (rule run_client.raw_induct [where P = "\<lambda>fm cfg att i b r. \<exists>n. \<not> attempt_fails fm cfg (att n) c"])
  fix run fm cfg att i b r
  assume IH: "\<And>fm cfg att i b r. run fm cfg att i b = Some r \<Longrightarrow> \<exists>n. \<not> attempt_fails fm cfg (att n) c"
    and r: "(let (res, sk, inbound) = run_session fm (at_ticks (att i)) cfg (at_conn (att i)) (at_inputs (att i)) b
      in if res = Some False
         then Option.bind (run fm cfg att (Suc i) inbound) (\<lambda>(sks, b). Some (sk # sks, b))
         else Some ([sk], inbound)) = Some r"
  obtain res sk b' where s: "run_session fm (at_ticks (att i)) cfg (at_conn (att i)) (at_inputs (att i)) b = (res, sk, b')"
    by (metis surj_pair)
  show "\<exists>n. \<not> attempt_fails fm cfg (att n) c"
  proof (cases "res = Some False")
    case True
    with r s show ?thesis by (auto simp: bind_eq_Some_conv intro: IH)
  next
    case False
    with s have "\<not> attempt_fails fm cfg (att i) b" by (simp add: attempt_fails_def)
    with attempt_fails_bus show ?thesis by blast
  qed
qed

lemma run_client_ends:
  "\<not> attempt_fails fm cfg (att (i + n)) c \<Longrightarrow> run_client fm cfg att i b \<noteq> None"
proof (induction n arbitrary: i b)
  case 0
  then have "\<not> attempt_fails fm cfg (att i) b" using attempt_fails_bus [of fm cfg "att i" b c] by simp
  then show ?case
    by (subst run_client.simps) (auto simp: attempt_fails_def split: prod.splits)
next
  case (Suc n)
  from Suc.prems have run: "run_client fm cfg att (Suc i) b' \<noteq> None" for b' using Suc.IH [of "Suc i"] by simp
  obtain res sk b' where s: "run_session fm (at_ticks (att i)) cfg (at_conn (att i)) (at_inputs (att i)) b = (res, sk, b')"
    by (metis surj_pair)
  from run [of b'] show ?case
    by (subst run_client.simps) (auto simp: s)
qed

text \<open>
  The client loop returns exactly when an attempt does not fail.  Over any sequence of connection
  attempts it returns if and only if one of them ends well or is still running; in particular, while the
  server cannot be reached it goes on for ever, even when the command channel has been closed.
\<close>

theorem irc_client_returns_iff:
  "(run_client fm cfg att 0 b \<noteq> None \<longleftrightarrow>
    (\<exists>n. fst (run_session fm (at_ticks (att n)) cfg (at_conn (att n)) (at_inputs (att n)) b) \<noteq> Some False)) \<and>
   run_client fm cfg (\<lambda>_. \<lparr>at_conn = None, at_inputs = [CommandsClosed], at_ticks = tks\<rparr>) 0 b = None"
proof
  have iff: "run_client fm cfg att 0 b \<noteq> None \<longleftrightarrow> (\<exists>n. \<not> attempt_fails fm cfg (att n) b)" for att
    using run_client_Some [of fm cfg att 0 b _ b] run_client_ends [of fm cfg att 0 _ b b] by auto
  then show "run_client fm cfg att 0 b \<noteq> None \<longleftrightarrow>
    (\<exists>n. fst (run_session fm (at_ticks (att n)) cfg (at_conn (att n)) (at_inputs (att n)) b) \<noteq> Some False)"
    by (simp add: attempt_fails_def)
  show "run_client fm cfg (\<lambda>_. \<lparr>at_conn = None, at_inputs = [CommandsClosed], at_ticks = tks\<rparr>) 0 b = None"
    using iff [of "\<lambda>_. \<lparr>at_conn = None, at_inputs = [CommandsClosed], at_ticks = tks\<rparr>"]
    by (simp add: attempt_fails_def run_session_def)
qed

end
