(* ===== verification/Rt_Irc_Bus.thy ===== *)
theory Rt_Irc_Bus
  imports Rt_Irc
begin

text \<open>
  The IRC bus of \<open>crates/realtime-bus-irc/src\<close>: the per-user sessions (\<open>session_manager.rs\<close>), the
  publisher that chooses between them and the service connection (\<open>publisher.rs\<close>), and the bus
  (\<open>bus.rs\<close>, \<open>subscriber.rs\<close>, \<open>lib.rs\<close>).  Lemmas: a user speaks on a channel only after joining it, in a
  session of his own; a published text is one line exactly when it has no line feed; a session that
  reconnects does not join again; two users can share a nickname.
\<close>

subsection \<open>Command channels\<close>

text \<open>A bounded channel: the commands sent so far, how many of them the session has taken, and whether
  the session still receives.  A send waits (\<open>None\<close>) while the channel is full.\<close>

record CmdChannel =
  mc_items :: "string list"
  mc_taken :: nat
  mc_cap :: nat
  mc_open :: bool

definition cmd_channel_new :: "nat \<Rightarrow> CmdChannel" where
  "cmd_channel_new cap = \<lparr>mc_items = [], mc_taken = 0, mc_cap = cap, mc_open = True\<rparr>"

definition mpsc_send :: "string \<Rightarrow> CmdChannel \<Rightarrow> (bool \<times> CmdChannel) option" where
  "mpsc_send cmd q =
     (if \<not> mc_open q then Some (False, q)
      else if length (mc_items q) - mc_taken q < mc_cap q then Some (True, q\<lparr>mc_items := mc_items q @ [cmd]\<rparr>)
      else None)"

subsection \<open>User sessions (session_manager.rs)\<close>

text \<open>The handles are shared objects (\<open>Arc\<close>): the map holds references into the list of all handles
  created, each with the configuration its session task runs with.  Time is in milliseconds.\<close>

record UserHandle =
  uh_cmd :: CmdChannel
  uh_joined :: "string list"
  uh_last_active :: nat
  uh_session :: SessionConfig

record SessionManager =
  sm_host :: string
  sm_port :: u16
  sm_password :: string
  sm_user :: string
  sm_realname :: string
  sm_namespace :: string
  sm_nick_max :: nat
  sm_users :: "(string, nat) dashmap"
  sm_handles :: "UserHandle list"

definition manager_new ::
    "string \<Rightarrow> u16 \<Rightarrow> string \<Rightarrow> string \<Rightarrow> string \<Rightarrow> string \<Rightarrow> nat \<Rightarrow> SessionManager" where
  "manager_new host port password user realname namespace nick_max =
     \<lparr>sm_host = host, sm_port = port, sm_password = password, sm_user = user, sm_realname = realname,
      sm_namespace = namespace, sm_nick_max = nick_max, sm_users = [], sm_handles = []\<rparr>"

definition get_or_create :: "string \<Rightarrow> string \<Rightarrow> nat \<Rightarrow> SessionManager \<Rightarrow> nat \<times> SessionManager" where
  "get_or_create user_id handle now m =
     (case dm_get (sm_users m) user_id of
        Some existing \<Rightarrow> (existing, m)
      | None \<Rightarrow>
          let nick = to_irc_nick user_id handle (sm_nick_max m);
              session = \<lparr>sc_host = sm_host m, sc_port = sm_port m, sc_password = sm_password m, sc_nick = nick,
                sc_user = sm_user m, sc_realname = sm_realname m, sc_channels = [],
                sc_namespace = sm_namespace m, sc_forward_inbound = False\<rparr>;
              entry = \<lparr>uh_cmd = cmd_channel_new 256, uh_joined = [], uh_last_active = now, uh_session = session\<rparr>;
              i = length (sm_handles m)
          in (i, m\<lparr>sm_users := dm_insert user_id i (sm_users m), sm_handles := sm_handles m @ [entry]\<rparr>))"

definition drop_user :: "string \<Rightarrow> SessionManager \<Rightarrow> SessionManager" where
  "drop_user user_id m = m\<lparr>sm_users := dm_remove user_id (sm_users m)\<rparr>"

definition handle_update :: "nat \<Rightarrow> (UserHandle \<Rightarrow> UserHandle) \<Rightarrow> SessionManager \<Rightarrow> SessionManager" where
  "handle_update i f m = m\<lparr>sm_handles := (sm_handles m)[i := f (sm_handles m ! i)]\<rparr>"

definition handle_send :: "nat \<Rightarrow> string \<Rightarrow> SessionManager \<Rightarrow> (bool \<times> SessionManager) option" where
  "handle_send i cmd m =
     Option.bind (mpsc_send cmd (uh_cmd (sm_handles m ! i)))
       (\<lambda>(ok, q). Some (ok, handle_update i (\<lambda>h. h\<lparr>uh_cmd := q\<rparr>) m))"

text \<open>The part under the lock: whether the channel has to be joined, with the set updated.\<close>

definition need_join :: "nat \<Rightarrow> string \<Rightarrow> SessionManager \<Rightarrow> bool \<times> SessionManager" where
  "need_join i channel m =
     (if channel \<in> set (uh_joined (sm_handles m ! i)) then (False, m)
      else (True, handle_update i (\<lambda>h. h\<lparr>uh_joined := uh_joined h @ [channel]\<rparr>) m))"

definition send_privmsg ::
    "nat \<Rightarrow> string \<Rightarrow> string \<Rightarrow> string \<Rightarrow> nat \<Rightarrow> SessionManager \<Rightarrow> SessionManager option" where
  "send_privmsg i user_id channel msg now m =
     Option.bind (handle_send i (''PRIVMSG '' @ channel @ '' :'' @ msg) m) (\<lambda>(ok, m).
       if \<not> ok then Some (drop_user user_id m)
       else Some (handle_update i (\<lambda>h. h\<lparr>uh_last_active := now\<rparr>) m))"

definition publish_as_user ::
    "string \<Rightarrow> string \<Rightarrow> string \<Rightarrow> string \<Rightarrow> nat \<Rightarrow> SessionManager \<Rightarrow> SessionManager option" where
  "publish_as_user user_id handle channel msg now m =
     (let (i, m) = get_or_create user_id handle now m;
          (join, m) = need_join i channel m
      in if join
         then Option.bind (handle_send i (''JOIN '' @ channel) m) (\<lambda>(ok, m).
                if \<not> ok then Some (drop_user user_id m)
                else send_privmsg i user_id channel msg now m)
         else send_privmsg i user_id channel msg now m)"

definition stale_users :: "nat \<Rightarrow> nat \<Rightarrow> SessionManager \<Rightarrow> string list" where
  "stale_users now max_idle m =
     map fst (filter (\<lambda>(_, i). max_idle < now - uh_last_active (sm_handles m ! i)) (sm_users m))"

fun reap_each :: "string list \<Rightarrow> SessionManager \<Rightarrow> SessionManager option" where
  "reap_each [] m = Some m"
| "reap_each (key # stale) m =
     (case dm_get (sm_users m) key of
        None \<Rightarrow> reap_each stale m
      | Some i \<Rightarrow>
          Option.bind (handle_send i ''QUIT :idle'' (drop_user key m)) (\<lambda>(_, m). reap_each stale m))"

definition reap_idle :: "nat \<Rightarrow> nat \<Rightarrow> SessionManager \<Rightarrow> SessionManager option" where
  "reap_idle now max_idle m = reap_each (stale_users now max_idle m) m"

subsection \<open>Message text (publisher.rs)\<close>

text \<open>\<open>String::from_utf8_lossy\<close>: whether the bytes start with a UTF-8 character, with its length, or else
  the length of the longest invalid start, which becomes one replacement character.\<close>

definition cont :: "nat \<Rightarrow> bool" where
  "cont b = (128 \<le> b \<and> b \<le> 191)"

definition utf8_start :: "string \<Rightarrow> bool \<times> nat" where
  "utf8_start s =
     (let a = byte_at 0 s; b = byte_at 1 s; c = byte_at 2 s; d = byte_at 3 s in
      if a < 128 then (True, 1)
      else if 194 \<le> a \<and> a \<le> 223 then (if cont b then (True, 2) else (False, 1))
      else if 224 \<le> a \<and> a \<le> 239 then
        (if \<not> (cont b \<and> (a = 224 \<longrightarrow> 160 \<le> b) \<and> (a = 237 \<longrightarrow> b \<le> 159)) then (False, 1)
         else if cont c then (True, 3) else (False, 2))
      else if 240 \<le> a \<and> a \<le> 244 then
        (if \<not> (cont b \<and> (a = 240 \<longrightarrow> 144 \<le> b) \<and> (a = 244 \<longrightarrow> b \<le> 143)) then (False, 1)
         else if \<not> cont c then (False, 2)
         else if cont d then (True, 4) else (False, 3))
      else (False, 1))"

lemma utf8_start_pos: "0 < snd (utf8_start s)"
  by (simp add: utf8_start_def Let_def)

function from_utf8_lossy :: "bytes \<Rightarrow> string" where
  "from_utf8_lossy s =
     (if s = [] then []
      else let (valid, n) = utf8_start s
           in (if valid then take n s else [CHR 0xEF, CHR 0xBF, CHR 0xBD]) @ from_utf8_lossy (drop n s))"
  by auto
termination
proof (relation "measure length")
  fix s x y and xa :: bool
  assume "s \<noteq> []" "x = utf8_start s" "(xa, y) = x"
  then have "0 < y" using utf8_start_pos [of s] by (metis snd_conv)
  with \<open>s \<noteq> []\<close> show "(drop y s, s) \<in> measure length" by simp
qed simp

declare from_utf8_lossy.simps [simp del]

text \<open>\<open>show_json\<close> prints a JSON value.\<close>

definition payload_text :: "Format \<Rightarrow> (json \<Rightarrow> string) \<Rightarrow> EventEnvelope \<Rightarrow> string" where
  "payload_text fm show_json event =
     (case x_from_slice (fm_ext fm) (ev_payload event) of
        Some v \<Rightarrow>
          (case json_as_str v of
             Some s \<Rightarrow> s
           | None \<Rightarrow>
               (case Option.bind (json_get v ''text'') json_as_str of
                  Some s \<Rightarrow> s
                | None \<Rightarrow> show_json v))
      | None \<Rightarrow> from_utf8_lossy (ev_payload event))"

text \<open>An event published by a platform user, as the gateway stamps it.\<close>

definition user_source :: "EventEnvelope \<Rightarrow> EventSource option" where
  "user_source event =
     (case ev_source event of
        Some src \<Rightarrow> if src_kind src = SrcApi \<and> src_id src \<noteq> [] then Some src else None
      | None \<Rightarrow> None)"

definition service_line :: "string \<Rightarrow> EventEnvelope \<Rightarrow> string \<Rightarrow> string" where
  "service_line channel event msg =
     (let body = (if ev_type event = [] then msg else ''['' @ ev_type event @ ''] '' @ msg)
      in ''PRIVMSG '' @ channel @ '' :'' @ body)"

subsection \<open>The bus (bus.rs, lib.rs, publisher.rs, subscriber.rs)\<close>

record IrcBusConfig =
  ic_host :: string
  ic_port :: u16
  ic_password :: string
  ic_nick :: string
  ic_user :: string
  ic_realname :: string
  ic_channels :: "string list"
  ic_namespace :: string
  ic_capacity :: nat

definition irc_config_default :: IrcBusConfig where
  "irc_config_default =
     \<lparr>ic_host = ''127.0.0.1'', ic_port = 6667, ic_password = [], ic_nick = ''platform-gw'',
      ic_user = ''platform'', ic_realname = ''Realtime Gateway'', ic_channels = [],
      ic_namespace = ''chat'', ic_capacity = 65536\<rparr>"

text \<open>In milliseconds.\<close>

definition REAP_INTERVAL :: nat where
  "REAP_INTERVAL = 60000"

definition USER_IDLE :: nat where
  "USER_IDLE = 300000"

record IrcBus =
  ib_cmd :: CmdChannel
  ib_session :: SessionConfig
  ib_inbound :: broadcast
  ib_namespace :: string
  ib_manager :: SessionManager

text \<open>\<open>ring\<close> is the size the broadcast channel allots for the capacity; it refuses zero.\<close>

definition irc_bus_new :: "nat \<Rightarrow> IrcBusConfig \<Rightarrow> IrcBus option" where
  "irc_bus_new ring config =
     (if ic_capacity config = 0 then None
      else Some
       \<lparr>ib_cmd = cmd_channel_new 1024,
        ib_session = \<lparr>sc_host = ic_host config, sc_port = ic_port config, sc_password = ic_password config,
          sc_nick = ic_nick config, sc_user = ic_user config, sc_realname = ic_realname config,
          sc_channels = ic_channels config, sc_namespace = ic_namespace config, sc_forward_inbound = True\<rparr>,
        ib_inbound = \<lparr>bc_ring = ring, bc_sent = [], bc_cursors = [], bc_closed = False\<rparr>,
        ib_namespace = ic_namespace config,
        ib_manager = manager_new (ic_host config) (ic_port config) (ic_password config) (ic_user config)
          (ic_realname config) (ic_namespace config) DEFAULT_NICK_MAX\<rparr>)"

definition irc_subscriber :: "string \<Rightarrow> IrcBus \<Rightarrow> nat \<times> IrcBus" where
  "irc_subscriber topic_pattern b =
     (length (bc_cursors (ib_inbound b)),
      b\<lparr>ib_inbound := (ib_inbound b)\<lparr>bc_cursors := bc_cursors (ib_inbound b) @ [Some (length (bc_sent (ib_inbound b)))]\<rparr>\<rparr>)"

text \<open>The loop of the subscriber is that of the in-process one.\<close>

definition irc_next_event :: "nat \<Rightarrow> broadcast \<Rightarrow> (EventEnvelope option \<times> broadcast) option" where
  "irc_next_event i b = in_process_next_event i b"

definition irc_health_check :: "IrcBus \<Rightarrow> (RealtimeError, unit) result" where
  "irc_health_check b =
     (if \<not> mc_open (ib_cmd b) then Inl (EventBusError ''IRC session task has stopped'') else Inr ())"

definition irc_reap :: "nat \<Rightarrow> IrcBus \<Rightarrow> IrcBus option" where
  "irc_reap now b = map_option (\<lambda>m. b\<lparr>ib_manager := m\<rparr>) (reap_idle now USER_IDLE (ib_manager b))"

definition irc_publish ::
    "Format \<Rightarrow> (json \<Rightarrow> string) \<Rightarrow> string \<Rightarrow> nat \<Rightarrow> string \<Rightarrow> EventEnvelope \<Rightarrow> IrcBus
      \<Rightarrow> ((RealtimeError, PublishReceipt) result \<times> IrcBus) option" where
  "irc_publish fm show_json send_error now topic event b =
     (let receipt = (\<lambda>delivered. \<lparr>pr_event_id = ev_id event, pr_sequence = ev_sequence event,
            pr_delivered_to_bus = delivered\<rparr>) in
      case topic_to_channel topic (ib_namespace b) of
        None \<Rightarrow> Some (Inr (receipt False), b)
      | Some channel \<Rightarrow>
          let msg = payload_text fm show_json event in
          case user_source event of
            Some src \<Rightarrow>
              let handle = (case dm_get (src_metadata src) ''handle'' of Some h \<Rightarrow> h | None \<Rightarrow> [])
              in map_option (\<lambda>m. (Inr (receipt True), b\<lparr>ib_manager := m\<rparr>))
                   (publish_as_user (src_id src) handle channel msg now (ib_manager b))
          | None \<Rightarrow>
              map_option (\<lambda>(ok, q).
                  if ok then (Inr (receipt True), b\<lparr>ib_cmd := q\<rparr>)
                  else (Inl (EventBusError (''IRC session unavailable: '' @ send_error)), b))
                (mpsc_send (service_line channel event msg) (ib_cmd b)))"

subsection \<open>Who speaks where\<close>

definition join_line :: "string \<Rightarrow> string" where
  "join_line ch = ''JOIN '' @ ch"

definition said :: "string \<Rightarrow> string \<Rightarrow> string" where
  "said ch msg = ''PRIVMSG '' @ ch @ '' :'' @ msg"

definition commands :: "SessionManager \<Rightarrow> nat \<Rightarrow> string list" where
  "commands m i = mc_items (uh_cmd (sm_handles m ! i))"

text \<open>What happens to the sessions: users publish, the reaper runs, a session takes a command or ends.\<close>

datatype irc_op = OpPublish string string string string nat | OpReap nat nat | OpTake nat | OpEnd nat

fun irc_step :: "irc_op \<Rightarrow> SessionManager \<Rightarrow> SessionManager option" where
  "irc_step (OpPublish u h ch msg now) m = publish_as_user u h ch msg now m"
| "irc_step (OpReap now idle) m = reap_idle now idle m"
| "irc_step (OpTake i) m =
     (if i < length (sm_handles m) \<and> mc_taken (uh_cmd (sm_handles m ! i)) < length (commands m i)
      then Some (handle_update i (\<lambda>h. h\<lparr>uh_cmd := (uh_cmd h)\<lparr>mc_taken := mc_taken (uh_cmd h) + 1\<rparr>\<rparr>) m)
      else None)"
| "irc_step (OpEnd i) m =
     (if i < length (sm_handles m)
      then Some (handle_update i (\<lambda>h. h\<lparr>uh_cmd := (uh_cmd h)\<lparr>mc_open := False\<rparr>\<rparr>) m)
      else None)"

fun irc_run :: "irc_op list \<Rightarrow> SessionManager \<Rightarrow> SessionManager option" where
  "irc_run [] m = Some m"
| "irc_run (op # ops) m = Option.bind (irc_step op m) (irc_run ops)"

definition irc_inv :: "SessionManager \<Rightarrow> bool" where
  "irc_inv m \<longleftrightarrow>
     (\<forall>u i. dm_get (sm_users m) u = Some i \<longrightarrow>
        i < length (sm_handles m) \<and>
        (\<forall>ch\<in>set (uh_joined (sm_handles m ! i)). join_line ch \<in> set (commands m i)) \<and>
        (\<forall>u'. dm_get (sm_users m) u' = Some i \<longrightarrow> u' = u))"

lemma irc_invI:
  assumes "\<And>u i. dm_get (sm_users m) u = Some i \<Longrightarrow> i < length (sm_handles m)"
    and "\<And>u i ch. dm_get (sm_users m) u = Some i \<Longrightarrow> ch \<in> set (uh_joined (sm_handles m ! i)) \<Longrightarrow>
           join_line ch \<in> set (commands m i)"
    and "\<And>u u' i. dm_get (sm_users m) u = Some i \<Longrightarrow> dm_get (sm_users m) u' = Some i \<Longrightarrow> u' = u"
  shows "irc_inv m"
  unfolding irc_inv_def using assms by blast

lemma irc_invD:
  assumes "irc_inv m" and "dm_get (sm_users m) u = Some i"
  shows "i < length (sm_handles m)"
    and "ch \<in> set (uh_joined (sm_handles m ! i)) \<Longrightarrow> join_line ch \<in> set (commands m i)"
    and "dm_get (sm_users m) u' = Some i \<Longrightarrow> u' = u"
  using assms unfolding irc_inv_def by blast+

lemma handle_update_sel [simp]:
  "sm_users (handle_update i f m) = sm_users m"
  "length (sm_handles (handle_update i f m)) = length (sm_handles m)"
  "i < length (sm_handles m) \<Longrightarrow> sm_handles (handle_update i f m) ! j =
     (if j = i then f (sm_handles m ! i) else sm_handles m ! j)"
  by (simp_all add: handle_update_def nth_list_update)

text \<open>Dropping users, taking commands and sending more of them keep the invariant.\<close>

lemma irc_inv_drop: "irc_inv m \<Longrightarrow> irc_inv (drop_user u m)"
  unfolding drop_user_def by (rule irc_invI) (auto dest: irc_invD simp: commands_def split: if_splits)

lemma irc_inv_update:
  assumes "irc_inv m" and "i < length (sm_handles m)"
    and "uh_joined (f (sm_handles m ! i)) = uh_joined (sm_handles m ! i)"
    and "set (commands m i) \<subseteq> set (mc_items (uh_cmd (f (sm_handles m ! i))))"
  shows "irc_inv (handle_update i f m)"
proof (rule irc_invI)
  fix u j ch
  assume u: "dm_get (sm_users (handle_update i f m)) u = Some j"
    and ch: "ch \<in> set (uh_joined (sm_handles (handle_update i f m) ! j))"
  from u have u': "dm_get (sm_users m) u = Some j" by simp
  show "join_line ch \<in> set (commands (handle_update i f m) j)"
    using ch assms irc_invD(2) [OF assms(1) u', of ch]
    by (cases "j = i") (auto simp: commands_def)
qed (use assms in \<open>auto dest: irc_invD\<close>)

lemma handle_send_Some:
  assumes "handle_send i cmd m = Some (ok, m')" and "i < length (sm_handles m)"
  shows "sm_users m' = sm_users m \<and> length (sm_handles m') = length (sm_handles m) \<and>
    (\<forall>j. j \<noteq> i \<longrightarrow> sm_handles m' ! j = sm_handles m ! j) \<and>
    uh_joined (sm_handles m' ! i) = uh_joined (sm_handles m ! i) \<and>
    uh_session (sm_handles m' ! i) = uh_session (sm_handles m ! i) \<and>
    commands m' i = commands m i @ (if ok then [cmd] else [])"
  using assms by (auto simp: handle_send_def mpsc_send_def commands_def bind_eq_Some_conv split: if_splits)

lemma handle_send_closed:
  "handle_send i cmd m = Some (ok, m') \<Longrightarrow> i < length (sm_handles m) \<Longrightarrow> \<not> ok \<Longrightarrow> \<not> mc_open (uh_cmd (sm_handles m' ! i))"
  by (auto simp: handle_send_def mpsc_send_def bind_eq_Some_conv split: if_splits)

lemma handle_send_inv:
  assumes "handle_send i cmd m = Some (ok, m')" and "i < length (sm_handles m)" and "irc_inv m"
  shows "irc_inv m'"
proof -
  from assms(1) obtain q where q: "mpsc_send cmd (uh_cmd (sm_handles m ! i)) = Some (ok, q)"
    and m': "m' = handle_update i (\<lambda>h. h\<lparr>uh_cmd := q\<rparr>) m"
    by (auto simp: handle_send_def bind_eq_Some_conv)
  from q have "set (commands m i) \<subseteq> set (mc_items q)"
    by (auto simp: mpsc_send_def commands_def split: if_splits)
  then show ?thesis unfolding m' by (intro irc_inv_update [OF assms(3,2)]) simp_all
qed

text \<open>What a change leaves alone: the users but \<open>u\<close> and the sessions but \<open>i\<close>.\<close>

definition only_changes :: "string \<Rightarrow> nat \<Rightarrow> SessionManager \<Rightarrow> SessionManager \<Rightarrow> bool" where
  "only_changes u i m m' \<longleftrightarrow>
     (\<forall>u'. u' \<noteq> u \<longrightarrow> dm_get (sm_users m') u' = dm_get (sm_users m) u') \<and>
     length (sm_handles m) \<le> length (sm_handles m') \<and>
     (\<forall>j < length (sm_handles m). j \<noteq> i \<longrightarrow> sm_handles m' ! j = sm_handles m ! j)"

lemma only_changes_trans: "only_changes u i m m1 \<Longrightarrow> only_changes u i m1 m2 \<Longrightarrow> only_changes u i m m2"
  by (auto simp: only_changes_def)

lemma get_or_create_spec:
  assumes "irc_inv m" and "get_or_create u h now m = (i, m1)"
  shows "irc_inv m1 \<and> dm_get (sm_users m1) u = Some i \<and> only_changes u i m m1"
proof (cases "dm_get (sm_users m) u")
  case (Some k)
  with assms show ?thesis by (auto simp: get_or_create_def only_changes_def)
next
  case None
  with assms(2) have i: "i = length (sm_handles m)"
    and u: "sm_users m1 = dm_insert u i (sm_users m)"
    and h: "\<exists>e. sm_handles m1 = sm_handles m @ [e] \<and> uh_joined e = []"
    by (auto simp: get_or_create_def Let_def)
  from h obtain e where e: "sm_handles m1 = sm_handles m @ [e]" "uh_joined e = []" by blast
  have old: "k < i" if "dm_get (sm_users m) u' = Some k" for u' k
    using irc_invD(1) [OF assms(1) that] i by simp
  have "irc_inv m1"
  proof (rule irc_invI)
    fix v k
    assume "dm_get (sm_users m1) v = Some k"
    then show "k < length (sm_handles m1)" using u e i old [of v k] by (auto split: if_splits)
  next
    fix v k ch
    assume v: "dm_get (sm_users m1) v = Some k" and ch: "ch \<in> set (uh_joined (sm_handles m1 ! k))"
    show "join_line ch \<in> set (commands m1 k)"
    proof (cases "v = u")
      case True
      with v u have "k = i" by simp
      with ch e i show ?thesis by simp
    next
      case False
      with v u have old_v: "dm_get (sm_users m) v = Some k" by simp
      from irc_invD(2) [OF assms(1) old_v, of ch] ch e i old [OF old_v] show ?thesis
        by (simp add: commands_def nth_append)
    qed
  next
    fix v v' k
    assume "dm_get (sm_users m1) v = Some k" "dm_get (sm_users m1) v' = Some k"
    then show "v' = v" using u old [of v k] old [of v' k] irc_invD(3) [OF assms(1), of v k v']
      by (auto split: if_splits)
  qed
  then show ?thesis using u e i by (simp add: only_changes_def nth_append)
qed

definition join_phase :: "nat \<Rightarrow> string \<Rightarrow> SessionManager \<Rightarrow> (bool \<times> SessionManager) option" where
  "join_phase i ch m =
     (let (join, m) = need_join i ch m in if join then handle_send i (''JOIN '' @ ch) m else Some (True, m))"

lemma publish_as_user_phases:
  "publish_as_user u h ch msg now m =
     (let (i, m) = get_or_create u h now m
      in Option.bind (join_phase i ch m) (\<lambda>(ok, m).
           if \<not> ok then Some (drop_user u m) else send_privmsg i u ch msg now m))"
  by (simp add: publish_as_user_def join_phase_def Let_def split: prod.split)

lemma join_phase_spec:
  assumes "irc_inv m" and u: "dm_get (sm_users m) u = Some i" and "join_phase i ch m = Some (ok, m1)"
  shows "sm_users m1 = sm_users m \<and> only_changes u i m m1 \<and>
    (if ok then irc_inv m1 \<and> join_line ch \<in> set (commands m1 i)
     else irc_inv (drop_user u m1) \<and> \<not> mc_open (uh_cmd (sm_handles m1 ! i)))"
proof -
  note i = irc_invD(1) [OF assms(1) u]
  show ?thesis
  proof (cases "ch \<in> set (uh_joined (sm_handles m ! i))")
    case True
    with assms i irc_invD(2) [OF assms(1) u, of ch] show ?thesis
      by (simp add: join_phase_def need_join_def only_changes_def)
  next
    case False
    let ?m = "handle_update i (\<lambda>h. h\<lparr>uh_joined := uh_joined h @ [ch]\<rparr>) m"
    from False assms(3) have s: "handle_send i (''JOIN '' @ ch) ?m = Some (ok, m1)"
      by (simp add: join_phase_def need_join_def)
    from handle_send_Some [OF s] i have m1: "sm_users m1 = sm_users m" "length (sm_handles m1) = length (sm_handles m)"
      "\<forall>j. j \<noteq> i \<longrightarrow> sm_handles m1 ! j = sm_handles m ! j"
      "uh_joined (sm_handles m1 ! i) = uh_joined (sm_handles m ! i) @ [ch]"
      "commands m1 i = commands m i @ (if ok then [''JOIN '' @ ch] else [])"
      by (auto simp: commands_def)
    have other: "sm_handles m1 ! k = sm_handles m ! k" if "dm_get (sm_users m) v = Some k" "v \<noteq> u" for v k
      using that irc_invD(3) [OF assms(1) u, of v] m1(3) by auto
    have rest: "irc_inv m'" if m': "sm_handles m' = sm_handles m1"
        "\<And>v k. dm_get (sm_users m') v = Some k \<Longrightarrow> dm_get (sm_users m) v = Some k \<and> (v = u \<longrightarrow> ok)" for m'
    proof (rule irc_invI)
      fix v k
      assume "dm_get (sm_users m') v = Some k"
      then show "k < length (sm_handles m')" using m' m1(2) irc_invD(1) [OF assms(1), of v k] by auto
    next
      fix v k c
      assume v: "dm_get (sm_users m') v = Some k" and c: "c \<in> set (uh_joined (sm_handles m' ! k))"
      from m'(2) [OF v] have v0: "dm_get (sm_users m) v = Some k" and ok: "v = u \<longrightarrow> ok" by simp_all
      note inv = irc_invD(2) [OF assms(1) v0, of c]
      show "join_line c \<in> set (commands m' k)"
      proof (cases "v = u")
        case True
        with v0 u have "k = i" by simp
        with inv c True ok m1(4,5) m'(1) show ?thesis
          by (auto simp: commands_def join_line_def)
      next
        case False
        with inv c other [OF v0] m'(1) show ?thesis by (simp add: commands_def)
      qed
    next
      fix v v' k
      assume "dm_get (sm_users m') v = Some k" "dm_get (sm_users m') v' = Some k"
      with m'(2) irc_invD(3) [OF assms(1), of v k v'] show "v' = v" by blast
    qed
    have frame: "only_changes u i m m1" using m1 by (simp add: only_changes_def)
    show ?thesis
    proof (cases ok)
      case True
      with rest [of m1] m1 frame show ?thesis by (auto simp: join_line_def)
    next
      case False
      have "irc_inv (drop_user u m1)"
        by (rule rest) (auto simp: drop_user_def m1(1) split: if_splits)
      moreover have "i < length (sm_handles ?m)" using i by simp
      ultimately show ?thesis using False m1(1) frame handle_send_closed [OF s] by simp
    qed
  qed
qed

lemma send_privmsg_spec:
  assumes "irc_inv m" and u: "dm_get (sm_users m) u = Some i" and "send_privmsg i u ch msg now m = Some m1"
  shows "irc_inv m1 \<and> only_changes u i m m1 \<and>
    (dm_get (sm_users m1) u = Some i \<and> commands m1 i = commands m i @ [said ch msg] \<or>
     dm_get (sm_users m1) u = None \<and> \<not> mc_open (uh_cmd (sm_handles m1 ! i)))"
proof -
  note i = irc_invD(1) [OF assms(1) u]
  from assms(3) obtain ok m2 where s: "handle_send i (said ch msg) m = Some (ok, m2)"
    and m1: "m1 = (if \<not> ok then drop_user u m2 else handle_update i (\<lambda>h. h\<lparr>uh_last_active := now\<rparr>) m2)"
    unfolding send_privmsg_def said_def by (auto simp: bind_eq_Some_conv split: if_splits)
  note frame = handle_send_Some [OF s i] and inv = handle_send_inv [OF s i assms(1)]
  show ?thesis
  proof (cases ok)
    case True
    with frame i have "irc_inv m1" unfolding m1 by (auto intro!: irc_inv_update [OF inv] simp: commands_def)
    with True frame i u show ?thesis by (auto simp: m1 only_changes_def commands_def)
  next
    case False
    with frame irc_inv_drop [OF inv] handle_send_closed [OF s i] show ?thesis
      by (simp add: m1 drop_user_def only_changes_def)
  qed
qed

lemma publish_as_user_spec:
  assumes "irc_inv m" and "publish_as_user u h ch msg now m = Some m'"
  shows "irc_inv m' \<and>
    (\<exists>i. only_changes u i m m' \<and> (\<forall>u'. u' \<noteq> u \<longrightarrow> dm_get (sm_users m') u' \<noteq> Some i) \<and>
      (dm_get (sm_users m') u = Some i \<and>
        (\<exists>before. commands m' i = before @ [said ch msg] \<and> join_line ch \<in> set before) \<or>
       dm_get (sm_users m') u = None \<and> \<not> mc_open (uh_cmd (sm_handles m' ! i))))"
proof -
  obtain i m1 where g: "get_or_create u h now m = (i, m1)" by fastforce
  note g_spec = get_or_create_spec [OF assms(1) g]
  from assms(2) g obtain ok m2 where j: "join_phase i ch m1 = Some (ok, m2)"
    and rest: "(if \<not> ok then Some (drop_user u m2) else send_privmsg i u ch msg now m2) = Some m'"
    by (auto simp: publish_as_user_phases bind_eq_Some_conv)
  note j_spec = join_phase_spec [OF conjunct1 [OF g_spec] _ j, of u]
  have own: "dm_get (sm_users m') u' \<noteq> Some i" if "only_changes u i m m'" "u' \<noteq> u" for u'
    using that g_spec irc_invD(3) [of m1 u i u'] by (auto simp: only_changes_def)
  show ?thesis
  proof (cases ok)
    case True
    with rest j_spec g_spec have s: "send_privmsg i u ch msg now m2 = Some m'" "irc_inv m2"
      "dm_get (sm_users m2) u = Some i" "join_line ch \<in> set (commands m2 i)" "only_changes u i m m2"
      using only_changes_trans by auto
    from send_privmsg_spec [OF s(2,3,1)] have p: "irc_inv m'" "only_changes u i m2 m'"
      "dm_get (sm_users m') u = Some i \<and> commands m' i = commands m2 i @ [said ch msg] \<or>
       dm_get (sm_users m') u = None \<and> \<not> mc_open (uh_cmd (sm_handles m' ! i))"
      by simp_all
    have o: "only_changes u i m m'" by (rule only_changes_trans [OF s(5) p(2)])
    with own p(1,3) s(4) show ?thesis by blast
  next
    case False
    with rest j_spec g_spec have d: "m' = drop_user u m2" "irc_inv m'" "only_changes u i m m2"
      "\<not> mc_open (uh_cmd (sm_handles m2 ! i))"
      using only_changes_trans by auto
    then have "only_changes u i m m'" "dm_get (sm_users m') u = None" "\<not> mc_open (uh_cmd (sm_handles m' ! i))"
      by (auto simp: drop_user_def only_changes_def)
    with d own show ?thesis by blast
  qed
qed

lemma reap_each_inv: "irc_inv m \<Longrightarrow> reap_each ks m = Some m' \<Longrightarrow> irc_inv m'"
proof (induction ks arbitrary: m)
  case (Cons k ks)
  show ?case
  proof (cases "dm_get (sm_users m) k")
    case None
    with Cons show ?thesis by simp
  next
    case (Some i)
    with Cons.prems obtain ok m1 where s: "handle_send i ''QUIT :idle'' (drop_user k m) = Some (ok, m1)"
      and r: "reap_each ks m1 = Some m'" by (auto simp: bind_eq_Some_conv)
    have "i < length (sm_handles (drop_user k m))"
      using irc_invD(1) [OF Cons.prems(1) Some] by (simp add: drop_user_def)
    from handle_send_inv [OF s this irc_inv_drop [OF Cons.prems(1)]] r show ?thesis by (rule Cons.IH)
  qed
qed simp

lemma irc_step_inv: "irc_inv m \<Longrightarrow> irc_step op m = Some m' \<Longrightarrow> irc_inv m'"
proof (cases op)
  case (OpPublish u h ch msg now)
  then show "irc_inv m \<Longrightarrow> irc_step op m = Some m' \<Longrightarrow> irc_inv m'"
    using publish_as_user_spec by simp
next
  case (OpReap now idle)
  then show "irc_inv m \<Longrightarrow> irc_step op m = Some m' \<Longrightarrow> irc_inv m'"
    using reap_each_inv by (simp add: reap_idle_def)
next
  case (OpTake i)
  then show "irc_inv m \<Longrightarrow> irc_step op m = Some m' \<Longrightarrow> irc_inv m'"
    by (auto split: if_splits intro!: irc_inv_update simp: commands_def)
next
  case (OpEnd i)
  then show "irc_inv m \<Longrightarrow> irc_step op m = Some m' \<Longrightarrow> irc_inv m'"
    by (auto split: if_splits intro!: irc_inv_update simp: commands_def)
qed

lemma irc_run_inv: "irc_inv m \<Longrightarrow> irc_run ops m = Some m' \<Longrightarrow> irc_inv m'"
  by (induction ops arbitrary: m) (auto simp: bind_eq_Some_conv intro: irc_step_inv)

lemma irc_inv_new: "irc_inv (manager_new host port pw user rn ns mx)"
  by (simp add: irc_inv_def manager_new_def)

lemmas eval_irc = publish_as_user_def get_or_create_def need_join_def send_privmsg_def handle_send_def
  mpsc_send_def cmd_channel_new_def handle_update_def manager_new_def Let_def

text \<open>
  A publish at a time.  Over any sequence of publishes, idle sweeps, and sessions taking commands or ending,
  none of which overlap, a completed publish of a user either has appended the message to the commands of
  that user's session, after a \<open>JOIN\<close> of the channel among the earlier commands of that same session, or has
  dropped the user, whose session had ended; it has changed no other user's session, and no two users
  share one.  \<open>Rt_Irc_Tasks\<close> interleaves the accesses of a publish.
\<close>

theorem irc_publish_alone:
  assumes "irc_run ops (manager_new host port pw user rn ns mx) = Some m"
    and "publish_as_user u h ch msg now m = Some m'"
  shows "(\<exists>i. (\<forall>u'. u' \<noteq> u \<longrightarrow> dm_get (sm_users m') u' = dm_get (sm_users m) u' \<and> dm_get (sm_users m') u' \<noteq> Some i) \<and>
      (\<forall>j < length (sm_handles m). j \<noteq> i \<longrightarrow> sm_handles m' ! j = sm_handles m ! j) \<and>
      (dm_get (sm_users m') u = Some i \<and>
        (\<exists>before. mc_items (uh_cmd (sm_handles m' ! i)) = before @ [''PRIVMSG '' @ ch @ '' :'' @ msg] \<and>
           ''JOIN '' @ ch \<in> set before) \<or>
       dm_get (sm_users m') u = None \<and> \<not> mc_open (uh_cmd (sm_handles m' ! i))))"
proof -
  from publish_as_user_spec [OF irc_run_inv [OF irc_inv_new assms(1)] assms(2)] obtain i
    where o: "only_changes u i m m'" and own: "\<forall>u'. u' \<noteq> u \<longrightarrow> dm_get (sm_users m') u' \<noteq> Some i"
      and r: "dm_get (sm_users m') u = Some i \<and>
        (\<exists>before. commands m' i = before @ [said ch msg] \<and> join_line ch \<in> set before) \<or>
       dm_get (sm_users m') u = None \<and> \<not> mc_open (uh_cmd (sm_handles m' ! i))" by blast
  show ?thesis
    by (rule exI [of _ i])
      (use o own r in \<open>simp add: only_changes_def commands_def said_def join_line_def\<close>)
qed

theorem irc_publish_alone_witness:
  "\<exists>m m' before i.
     irc_run [OpPublish ''u1'' ''ann'' ''#a'' ''x'' 0, OpPublish ''u2'' ''bob'' ''#a'' ''y'' 1]
       (manager_new ''h'' 6667 [] ''p'' ''r'' ''chat'' 9) = Some m \<and>
     publish_as_user ''u1'' ''ann'' ''#b'' ''z'' 2 m = Some m' \<and>
     dm_get (sm_users m') ''u1'' = Some i \<and>
     mc_items (uh_cmd (sm_handles m' ! i)) = before @ [''PRIVMSG #b :z''] \<and> ''JOIN #b'' \<in> set before"
proof -
  have "\<exists>m m'. irc_run [OpPublish ''u1'' ''ann'' ''#a'' ''x'' 0, OpPublish ''u2'' ''bob'' ''#a'' ''y'' 1]
       (manager_new ''h'' 6667 [] ''p'' ''r'' ''chat'' 9) = Some m \<and>
     publish_as_user ''u1'' ''ann'' ''#b'' ''z'' 2 m = Some m' \<and> dm_get (sm_users m') ''u1'' = Some 0"
    by (simp add: eval_irc)
  then obtain m m' where run: "irc_run [OpPublish ''u1'' ''ann'' ''#a'' ''x'' 0, OpPublish ''u2'' ''bob'' ''#a'' ''y'' 1]
       (manager_new ''h'' 6667 [] ''p'' ''r'' ''chat'' 9) = Some m"
    and pub: "publish_as_user ''u1'' ''ann'' ''#b'' ''z'' 2 m = Some m'" and u: "dm_get (sm_users m') ''u1'' = Some 0"
    by blast
  from irc_publish_alone [OF run pub] u show ?thesis using run pub by auto
qed

subsection \<open>What reaches the server\<close>

definition wire :: "string list \<Rightarrow> bytes" where
  "wire ls = concat (map (\<lambda>l. l @ crlf) ls)"

lemma wire_simps [simp]: "wire [] = []" "wire (l # ls) = l @ crlf @ wire ls" "wire (xs @ ys) = wire xs @ wire ys"
  by (simp_all add: wire_def)

lemma length_crlf [simp]: "length crlf = 2"
  by (simp add: crlf_def)

lemma write_line_ok:
  "length line + 2 \<le> sk_room sk \<Longrightarrow> write_line line sk =
     (True, sk\<lparr>sk_sent := sk_sent sk @ line @ crlf, sk_room := sk_room sk - (length line + 2)\<rparr>)"
  by (simp add: write_line_def write_all_def)

lemma write_lines_ok:
  "length (wire ls) \<le> sk_room sk \<Longrightarrow> write_lines ls sk =
     (True, sk\<lparr>sk_sent := sk_sent sk @ wire ls, sk_room := sk_room sk - length (wire ls)\<rparr>)"
  by (induction ls arbitrary: sk) (simp_all add: write_line_ok)

lemma session_loop_commands:
  "is_pending st = [] \<Longrightarrow> length (wire cs) \<le> sk_room (is_socket st) \<Longrightarrow>
   session_loop fm tks cfg (map Command cs @ rest) st =
     session_loop fm (\<lambda>i. tks (length cs + i)) cfg rest
       (st\<lparr>is_socket := (is_socket st)\<lparr>sk_sent := sk_sent (is_socket st) @ wire cs,
          sk_room := sk_room (is_socket st) - length (wire cs)\<rparr>\<rparr>)"
proof (induction cs arbitrary: tks st)
  case Nil
  then show ?case by simp
next
  case (Cons c cs)
  let ?sk = "(is_socket st)\<lparr>sk_sent := sk_sent (is_socket st) @ c @ crlf,
    sk_room := sk_room (is_socket st) - (length c + 2)\<rparr>"
  have "session_turn fm (tks 0) cfg (Command c) st = (None, st\<lparr>is_socket := ?sk\<rparr>)"
    using Cons.prems by (cases st) (simp add: session_turn.simps write_line_ok)
  with Cons.prems Cons.IH [of "st\<lparr>is_socket := ?sk\<rparr>" "tks \<circ> Suc"] show ?case by (simp add: o_def)
qed

lemma session_after_commands:
  assumes "length (wire (handshake cfg @ cs)) + n = room"
  shows "run_session fm tks cfg (Some \<lparr>sk_sent = [], sk_room = room\<rparr>) (map Command cs @ rest) b =
    (let (res, st) = session_loop fm (\<lambda>i. tks (length cs + i)) cfg rest
       \<lparr>is_pending = [], is_current_nick = sc_nick cfg, is_nick_try = 0,
        is_socket = \<lparr>sk_sent = wire (handshake cfg @ cs), sk_room = n\<rparr>, is_inbound = b\<rparr>
     in (res, Some (is_socket st), is_inbound st))"
  using assms by (simp add: run_session_def write_lines_ok session_loop_commands flip: assms)

text \<open>
  A session that reconnects does not join again.  A user publishes twice on a channel; between the
  two messages the server closes the connection of the user's session.  The client connects again and
  registers, but no connection after the first one carries a \<open>JOIN\<close>, while the session still counts the
  channel as joined, so the second message is sent to a channel the new connection is not on.
\<close>

theorem irc_reconnect_forgets:
  "\<exists>m. Option.bind (publish_as_user u h ch a t1 (manager_new host port pw user rn ns 9)) (publish_as_user u h ch b t2) = Some m \<and>
     dm_get (sm_users m) u = Some 0 \<and> ch \<in> set (uh_joined (sm_handles m ! 0)) \<and>
     mc_items (uh_cmd (sm_handles m ! 0)) = [''JOIN '' @ ch, ''PRIVMSG '' @ ch @ '' :'' @ a, ''PRIVMSG '' @ ch @ '' :'' @ b] \<and>
     (let cfg = uh_session (sm_handles m ! 0);
          one = [''JOIN '' @ ch, ''PRIVMSG '' @ ch @ '' :'' @ a];
          two = [''PRIVMSG '' @ ch @ '' :'' @ b];
          first = wire (handshake cfg @ one);
          second = wire (handshake cfg @ two @ [''QUIT :bye'']);
          att = (\<lambda>i. if i = 0
            then \<lparr>at_conn = Some \<lparr>sk_sent = [], sk_room = length first\<rparr>,
                  at_inputs = map Command one @ [ReadDone []], at_ticks = tks\<rparr>
            else \<lparr>at_conn = Some \<lparr>sk_sent = [], sk_room = length second\<rparr>,
                  at_inputs = map Command two @ [CommandsClosed], at_ticks = tks\<rparr>)
      in run_client fm cfg att 0 bus =
           Some ([Some \<lparr>sk_sent = first, sk_room = 0\<rparr>, Some \<lparr>sk_sent = second, sk_room = 0\<rparr>], bus) \<and>
         list_all (\<lambda>l. \<not> starts_with l ''JOIN '') (handshake cfg @ two @ [''QUIT :bye'']))"
proof -
  define m where "m = the (Option.bind (publish_as_user u h ch a t1 (manager_new host port pw user rn ns 9)) (publish_as_user u h ch b t2))"
  have m: "Option.bind (publish_as_user u h ch a t1 (manager_new host port pw user rn ns 9)) (publish_as_user u h ch b t2) = Some m"
    "dm_get (sm_users m) u = Some 0" "ch \<in> set (uh_joined (sm_handles m ! 0))"
    "mc_items (uh_cmd (sm_handles m ! 0)) = [''JOIN '' @ ch, ''PRIVMSG '' @ ch @ '' :'' @ a, ''PRIVMSG '' @ ch @ '' :'' @ b]"
    and ch: "sc_channels (uh_session (sm_handles m ! 0)) = []"
    unfolding m_def by (simp_all add: eval_irc)
  define cfg where "cfg = uh_session (sm_handles m ! 0)"
  let ?one = "[''JOIN '' @ ch, ''PRIVMSG '' @ ch @ '' :'' @ a]"
  let ?two = "[''PRIVMSG '' @ ch @ '' :'' @ b]"
  have r1: "run_session fm tks cfg (Some \<lparr>sk_sent = [], sk_room = length (wire (handshake cfg @ ?one))\<rparr>)
      (map Command ?one @ [ReadDone []]) bus =
      (Some False, Some \<lparr>sk_sent = wire (handshake cfg @ ?one), sk_room = 0\<rparr>, bus)"
    by (subst session_after_commands [of _ _ 0]) (simp_all add: session_turn.simps)
  have r2: "run_session fm tks cfg (Some \<lparr>sk_sent = [], sk_room = length (wire (handshake cfg @ ?two @ [''QUIT :bye'']))\<rparr>)
      (map Command ?two @ [CommandsClosed]) bus =
      (Some True, Some \<lparr>sk_sent = wire (handshake cfg @ ?two @ [''QUIT :bye'']), sk_room = 0\<rparr>, bus)"
    by (subst session_after_commands [of _ _ 11]) (simp_all add: session_turn.simps write_line_ok)
  have joins: "list_all (\<lambda>l. \<not> starts_with l ''JOIN '') (handshake cfg @ ?two @ [''QUIT :bye''])"
    using ch by (simp add: handshake_def cfg_def starts_with_def)
  define att where "att = (\<lambda>i :: nat. if i = 0
      then \<lparr>at_conn = Some \<lparr>sk_sent = [], sk_room = length (wire (handshake cfg @ ?one))\<rparr>,
            at_inputs = map Command ?one @ [ReadDone []], at_ticks = tks\<rparr>
      else \<lparr>at_conn = Some \<lparr>sk_sent = [], sk_room = length (wire (handshake cfg @ ?two @ [''QUIT :bye'']))\<rparr>,
            at_inputs = map Command ?two @ [CommandsClosed], at_ticks = tks\<rparr>)"
  have s1: "run_session fm (at_ticks (att 0)) cfg (at_conn (att 0)) (at_inputs (att 0)) bus =
      (Some False, Some \<lparr>sk_sent = wire (handshake cfg @ ?one), sk_room = 0\<rparr>, bus)"
    unfolding att_def using r1 by simp
  have s2: "run_session fm (at_ticks (att (Suc 0))) cfg (at_conn (att (Suc 0))) (at_inputs (att (Suc 0))) bus =
      (Some True, Some \<lparr>sk_sent = wire (handshake cfg @ ?two @ [''QUIT :bye'']), sk_room = 0\<rparr>, bus)"
    unfolding att_def using r2 by simp
  have "run_client fm cfg att (Suc 0) bus =
      Some ([Some \<lparr>sk_sent = wire (handshake cfg @ ?two @ [''QUIT :bye'']), sk_room = 0\<rparr>], bus)"
    by (subst run_client.simps) (simp add: s2 del: wire_simps append_Cons)
  then have run: "run_client fm cfg att 0 bus =
      Some ([Some \<lparr>sk_sent = wire (handshake cfg @ ?one), sk_room = 0\<rparr>,
             Some \<lparr>sk_sent = wire (handshake cfg @ ?two @ [''QUIT :bye'']), sk_room = 0\<rparr>], bus)"
    by (subst run_client.simps) (simp add: s1 del: wire_simps append_Cons)
  show ?thesis
    by (rule exI [of _ m], unfold Let_def cfg_def [symmetric]) (intro conjI m joins run [unfolded att_def])
qed

definition LF :: char where
  "LF = CHR 0x0A"

lemma service_line_lf:
  "count_list (service_line ch event msg) LF = count_list ch LF + count_list (ev_type event) LF + count_list msg LF"
  by (simp add: service_line_def LF_def)

text \<open>
  C27: A published event is one command on the service connection, but not always one line.  An event that
  is accepted for a channel, and not from a platform user, adds exactly one command to the queue.  A
  session that takes it, with room on its socket, writes exactly its bytes and a line end: nothing is
  shortened, however long the payload, and no byte is taken out.  The bytes hold one line feed for the
  end and one for each line feed in the channel, the event type and the payload text, so the line end is
  the only one if and only if these three have none: the text of an event can end the line and go on with
  one of its own.
\<close>

theorem irc_service_lines:
  assumes "irc_publish fm show_json send_error now topic event b = Some (Inr r, b')"
    and "user_source event = None" and "topic_to_channel topic (ib_namespace b) = Some ch"
    and "line = service_line ch event (payload_text fm show_json event)"
    and "length line + 2 \<le> sk_room (is_socket st)"
  shows "pr_delivered_to_bus r \<and> mc_items (ib_cmd b') = mc_items (ib_cmd b) @ [line] \<and>
    session_turn fm' tk cfg (Command line) st = (None, st\<lparr>is_pending := [], is_socket := (is_socket st)
      \<lparr>sk_sent := sk_sent (is_socket st) @ line @ crlf, sk_room := sk_room (is_socket st) - (length line + 2)\<rparr>\<rparr>) \<and>
    count_list (line @ crlf) LF =
      1 + count_list ch LF + count_list (ev_type event) LF + count_list (payload_text fm show_json event) LF \<and>
    (LF \<in> set (line @ [CHR 0x0D]) \<longleftrightarrow>
      LF \<in> set ch \<union> set (ev_type event) \<union> set (payload_text fm show_json event))"
proof (intro conjI)
  show "pr_delivered_to_bus r" and "mc_items (ib_cmd b') = mc_items (ib_cmd b) @ [line]"
    using assms(1-4) by (auto simp: irc_publish_def Let_def mpsc_send_def split: if_splits)
  show "session_turn fm' tk cfg (Command line) st = (None, st\<lparr>is_pending := [], is_socket := (is_socket st)
      \<lparr>sk_sent := sk_sent (is_socket st) @ line @ crlf, sk_room := sk_room (is_socket st) - (length line + 2)\<rparr>\<rparr>)"
    by (simp add: session_turn.simps write_line_ok [OF assms(5)])
  have lf: "count_list line LF =
      count_list ch LF + count_list (ev_type event) LF + count_list (payload_text fm show_json event) LF"
    by (simp only: assms(4) service_line_lf)
  moreover have end_lf: "count_list crlf LF = 1" by (simp add: crlf_def LF_def)
  ultimately show "count_list (line @ crlf) LF =
      1 + count_list ch LF + count_list (ev_type event) LF + count_list (payload_text fm show_json event) LF"
    by simp
  have "LF \<in> set (line @ [CHR 0x0D]) \<longleftrightarrow> count_list line LF \<noteq> 0" by (simp add: count_list_0_iff LF_def)
  then show "LF \<in> set (line @ [CHR 0x0D]) \<longleftrightarrow>
      LF \<in> set ch \<union> set (ev_type event) \<union> set (payload_text fm show_json event)"
    unfolding lf by (simp add: count_list_0_iff)
qed

definition demo_irc_format :: Format where
  "demo_irc_format = demo_format\<lparr>fm_ext := demo_ext\<lparr>x_from_slice := (\<lambda>bs. Some (JString bs))\<rparr>\<rparr>"

definition demo_irc_bus :: IrcBus where
  "demo_irc_bus = the (irc_bus_new 65536 irc_config_default)"

definition demo_irc_event :: EventEnvelope where
  "demo_irc_event = envelope_new (EventId 1) 0 (TopicPath ''chat/ops'') ''note'' (''hi'' @ crlf @ ''JOIN #secret'')"

definition demo_service_session :: IrcSession where
  "demo_service_session = \<lparr>is_pending = [], is_current_nick = ''realtime'', is_nick_try = 0,
     is_socket = \<lparr>sk_sent = [], sk_room = 100\<rparr>, is_inbound = ib_inbound demo_irc_bus\<rparr>"

theorem irc_service_lines_witness:
  "\<exists>r b' st. irc_publish demo_irc_format (\<lambda>_. []) ''closed'' 0 ''chat/ops'' demo_irc_event demo_irc_bus = Some (Inr r, b') \<and>
     session_turn demo_irc_format \<lparr>tk_now = 0, tk_uuid = EventId 0\<rparr> (ib_session demo_irc_bus)
       (Command (last (mc_items (ib_cmd b')))) demo_service_session = (None, st) \<and>
     sk_sent (is_socket st) = ''PRIVMSG #ops :[note] hi'' @ crlf @ ''JOIN #secret'' @ crlf \<and>
     count_list (sk_sent (is_socket st)) LF = 2"
proof -
  have topic: "topic_to_channel ''chat/ops'' (ib_namespace demo_irc_bus) = Some ''#ops''"
    by (simp add: demo_irc_bus_def irc_bus_new_def irc_config_default_def topic_to_channel_def strip_prefix_def starts_with_def)
  have src: "user_source demo_irc_event = None" by (simp add: demo_irc_event_def user_source_def)
  obtain r b' where pub: "irc_publish demo_irc_format (\<lambda>_. []) ''closed'' 0 ''chat/ops'' demo_irc_event demo_irc_bus = Some (Inr r, b')"
    using topic src by (auto simp: irc_publish_def mpsc_send_def demo_irc_bus_def irc_bus_new_def irc_config_default_def cmd_channel_new_def)
  have line: "''PRIVMSG #ops :[note] hi'' @ crlf @ ''JOIN #secret'' =
      service_line ''#ops'' demo_irc_event (payload_text demo_irc_format (\<lambda>_. []) demo_irc_event)"
    by (simp add: service_line_def demo_irc_event_def envelope_new_def payload_text_def demo_irc_format_def)
  have room: "length (''PRIVMSG #ops :[note] hi'' @ crlf @ ''JOIN #secret'') + 2 \<le> sk_room (is_socket demo_service_session)"
    by (simp add: demo_service_session_def)
  have two: "count_list ((''PRIVMSG #ops :[note] hi'' @ crlf @ ''JOIN #secret'') @ crlf) LF = 2"
    by (simp add: crlf_def LF_def)
  define l where "l = ''PRIVMSG #ops :[note] hi'' @ crlf @ ''JOIN #secret''"
  let ?tk = "\<lparr>tk_now = 0, tk_uuid = EventId 0\<rparr>" and ?s = demo_service_session
  note all = irc_service_lines [OF pub src topic line room, folded l_def, of demo_irc_format ?tk "ib_session demo_irc_bus"]
  from all have "last (mc_items (ib_cmd b')) = l" by (elim conjE) (simp only: last_snoc)
  moreover from all have "session_turn demo_irc_format ?tk (ib_session demo_irc_bus) (Command l) ?s =
      (None, ?s\<lparr>is_pending := [], is_socket := (is_socket ?s)
        \<lparr>sk_sent := sk_sent (is_socket ?s) @ l @ crlf, sk_room := sk_room (is_socket ?s) - (length l + 2)\<rparr>\<rparr>)"
    (is "_ = (None, ?s')") by (elim conjE)
  moreover have "sk_sent (is_socket ?s') = l @ crlf" by (simp add: demo_service_session_def)
  ultimately have "session_turn demo_irc_format ?tk (ib_session demo_irc_bus) (Command (last (mc_items (ib_cmd b')))) ?s = (None, ?s')"
    and "sk_sent (is_socket ?s') = ''PRIVMSG #ops :[note] hi'' @ crlf @ ''JOIN #secret'' @ crlf"
    and "count_list (sk_sent (is_socket ?s')) LF = 2"
    using two by (simp_all only: l_def append_assoc)
  with pub show ?thesis by blast
qed

end
