(* ===== verification/Rt_Server.thy ===== *)
theory Rt_Server
  imports Rt_Auth Rt_Registry Rt_Fanout Rt_Usage Rt_Db Rt_Irc_Bus
begin

text \<open>
  The server binary: the configuration with its defaults, its file and its environment
  (\<open>crates/realtime-server/src/config\<close>, \<open>main.rs\<close>), and the parts of \<open>server.rs\<close> that build the
  components from it.  Environment variables are a function, the file system and the TOML and JSON
  decoders are parameters.  Lemmas: which variables override what; when the server runs without
  authentication; that printing the configuration does not depend on its secrets; what the health probe
  accepts.
\<close>

subsection \<open>Configuration (config)\<close>

record PerformanceConfig =
  pf_send_queue_capacity :: nat
  pf_fanout_workers :: nat
  pf_dispatch_channel_capacity :: nat

text \<open>\<open>parallelism\<close> is the number of processors the system reports, if it does.\<close>

definition performance_default :: "nat option \<Rightarrow> PerformanceConfig" where
  "performance_default parallelism =
     \<lparr>pf_send_queue_capacity = 256,
      pf_fanout_workers = (case parallelism of Some n \<Rightarrow> n | None \<Rightarrow> 4),
      pf_dispatch_channel_capacity = 65536\<rparr>"

record EngineConfig =
  en_limits :: FilterIndexLimits

datatype EventBusConfig =
    BusInProcess nat
  | BusIrc string u16 string string string string "string list" string nat

definition event_bus_default :: EventBusConfig where
  "event_bus_default = BusInProcess 65536"

text \<open>An \<open>irc\<close> section that names the host only, decoded with the defaults of its other fields.\<close>

definition irc_section :: "string \<Rightarrow> EventBusConfig" where
  "irc_section host =
     BusIrc host 6667 [] ''platform-gw'' ''platform'' ''Realtime Gateway'' [] ''chat'' 65536"

text \<open>Secret, issuer, audience, allow-no-issuer, previous secret.\<close>

datatype AuthConfig =
    NoAuth
  | AuthJwt string "string option" "string option" bool "string option"

text \<open>\<open>LegacyDatabaseConfig\<close> and its conversion.\<close>

datatype LegacyDatabaseConfig = LegacyPostgreSQL json | LegacyMongoDB json

fun from_legacy :: "LegacyDatabaseConfig \<Rightarrow> DatabaseConfig" where
  "from_legacy (LegacyPostgreSQL config) = \<lparr>dc_adapter = ''postgresql'', dc_config = config\<rparr>"
| "from_legacy (LegacyMongoDB config) = \<lparr>dc_adapter = ''mongodb'', dc_config = config\<rparr>"

record ServerConfig =
  sv_host :: string
  sv_port :: u16
  sv_static_dir :: string
  sv_event_bus :: EventBusConfig
  sv_auth :: AuthConfig
  sv_performance :: PerformanceConfig
  sv_engine :: EngineConfig
  sv_databases :: "DatabaseConfig list"

definition server_config_default :: "nat option \<Rightarrow> ServerConfig" where
  "server_config_default parallelism =
     \<lparr>sv_host = ''0.0.0.0'', sv_port = 9090, sv_static_dir = ''sandbox/static'', sv_event_bus = event_bus_default,
      sv_auth = NoAuth, sv_performance = performance_default parallelism,
      sv_engine = \<lparr>en_limits = limits_default\<rparr>, sv_databases = []\<rparr>"

subsection \<open>Numbers and paths\<close>

text \<open>\<open>str::parse\<close> of an unsigned type with the given largest value: an optional plus sign, then digits.\<close>

definition parse_unsigned :: "nat \<Rightarrow> string \<Rightarrow> nat option" where
  "parse_unsigned mx s =
     (let digits = (case s of CHR ''+'' # ds \<Rightarrow> ds | _ \<Rightarrow> s) in
      if digits = [] \<or> \<not> list_all is_digit digits \<or> mx < read_nat digits then None
      else Some (read_nat digits))"

text \<open>\<open>Path::extension\<close> of the last component, empty when there is none.\<close>

definition path_extension :: "string \<Rightarrow> string" where
  "path_extension path =
     (let comps = filter (\<lambda>c. c \<noteq> [] \<and> c \<noteq> ''.'') (split_on CHR ''/'' path);
          name = (if comps = [] then [] else last comps);
          ext = rev (takeWhile (\<lambda>c. c \<noteq> CHR ''.'') (rev name))
      in if name = ''..'' \<or> length name \<le> Suc (length ext) then [] else ext)"

subsection \<open>Loading (main.rs)\<close>

definition apply_env_overrides :: "environment \<Rightarrow> ServerConfig \<Rightarrow> ServerConfig" where
  "apply_env_overrides env config =
     (let config = (case env ''REALTIME_HOST'' of Some host \<Rightarrow> config\<lparr>sv_host := host\<rparr> | None \<Rightarrow> config);
          config = (case env ''REALTIME_PORT'' of
             Some port \<Rightarrow>
               (case parse_unsigned 65535 port of Some p \<Rightarrow> config\<lparr>sv_port := of_nat p\<rparr> | None \<Rightarrow> config)
           | None \<Rightarrow> config);
          config = (case env ''REALTIME_STATIC_DIR'' of Some dir \<Rightarrow> config\<lparr>sv_static_dir := dir\<rparr> | None \<Rightarrow> config)
      in case env ''REALTIME_JWT_SECRET'' of
           Some secret \<Rightarrow>
             config\<lparr>sv_auth := AuthJwt secret (env ''REALTIME_JWT_ISSUER'') (env ''REALTIME_JWT_AUDIENCE'')
               (case env ''REALTIME_JWT_ALLOW_NO_ISSUER'' of
                  Some v \<Rightarrow> v = ''1'' \<or> eq_ignore_ascii_case v ''true''
                | None \<Rightarrow> False)
               (case env ''REALTIME_JWT_SECRET_PREV'' of
                  Some s \<Rightarrow> if s = [] then None else Some s
                | None \<Rightarrow> None)\<rparr>
         | None \<Rightarrow> config)"

definition env_or :: "environment \<Rightarrow> string \<Rightarrow> string \<Rightarrow> string" where
  "env_or env key d = (case env key of Some v \<Rightarrow> v | None \<Rightarrow> d)"

definition add_pg_config :: "environment \<Rightarrow> ServerConfig \<Rightarrow> ServerConfig" where
  "add_pg_config env config =
     (case env ''REALTIME_PG_URL'' of
        None \<Rightarrow> config
      | Some pg_url \<Rightarrow>
          let channel = env_or env ''REALTIME_PG_CHANNEL'' ''realtime_events'';
              prefix = env_or env ''REALTIME_PG_PREFIX'' ''pg''
          in config\<lparr>sv_databases := sv_databases config @
               [\<lparr>dc_adapter = ''postgresql'', dc_config = JObject
                  [(''connection_string'', JString pg_url), (''channel'', JString channel), (''tables'', JArray []),
                   (''topic_prefix'', JString prefix), (''poll_interval_ms'', JNumber (NumI64 100))]\<rparr>]\<rparr>)"

definition add_mongo_config :: "environment \<Rightarrow> ServerConfig \<Rightarrow> ServerConfig" where
  "add_mongo_config env config =
     (case env ''REALTIME_MONGO_URI'' of
        None \<Rightarrow> config
      | Some uri \<Rightarrow>
          let database = env_or env ''REALTIME_MONGO_DB'' ''syncspace'';
              prefix = env_or env ''REALTIME_MONGO_PREFIX'' ''mongo''
          in config\<lparr>sv_databases := sv_databases config @
               [\<lparr>dc_adapter = ''mongodb'', dc_config = JObject
                  [(''uri'', JString uri), (''database'', JString database), (''collections'', JArray []),
                   (''topic_prefix'', JString prefix), (''full_document'', JString ''updateLookup'')]\<rparr>]\<rparr>)"

text \<open>Reading a file and decoding it, with the text of the error.\<close>

record ConfigFiles =
  cf_read :: "string \<Rightarrow> (string, string) result"
  cf_toml :: "string \<Rightarrow> (string, ServerConfig) result"
  cf_json :: "string \<Rightarrow> (string, ServerConfig) result"

definition load_config_from_file :: "ConfigFiles \<Rightarrow> string \<Rightarrow> (string, ServerConfig) result" where
  "load_config_from_file files path =
     (case cf_read files path of
        Inl e \<Rightarrow> Inl e
      | Inr content \<Rightarrow>
          let ext = path_extension path in
          if eq_ignore_ascii_case ext ''toml'' \<or> eq_ignore_ascii_case ext ''conf'' then cf_toml files content
          else cf_json files content)"

definition load_config :: "nat option \<Rightarrow> ConfigFiles \<Rightarrow> environment \<Rightarrow> (string, ServerConfig) result" where
  "load_config parallelism files env =
     (case (case env ''REALTIME_CONFIG'' of
              Some path \<Rightarrow> load_config_from_file files path
            | None \<Rightarrow> Inr (server_config_default parallelism)) of
        Inl e \<Rightarrow> Inl e
      | Inr config \<Rightarrow> Inr (add_mongo_config env (add_pg_config env (apply_env_overrides env config))))"

text \<open>The address the health probe connects to, and its verdict on the first 12 bytes of the answer.\<close>

definition health_addr :: "environment \<Rightarrow> string" where
  "health_addr env = env_or env ''REALTIME_HEALTH_HOST'' ''127.0.0.1'' @ '':'' @ env_or env ''REALTIME_PORT'' ''4000''"

definition ends_with :: "string \<Rightarrow> string \<Rightarrow> bool" where
  "ends_with s p = (length p \<le> length s \<and> drop (length s - length p) s = p)"

definition health_line_ok :: "bytes \<Rightarrow> bool" where
  "health_line_ok head =
     (let line = from_utf8_lossy head in starts_with line ''HTTP/1.'' \<and> ends_with line '' 200'')"

subsection \<open>Building the components (server.rs)\<close>

definition build_event_bus :: "nat \<Rightarrow> ServerConfig \<Rightarrow> (broadcast + IrcBus) option" where
  "build_event_bus ring config =
     (case sv_event_bus config of
        BusInProcess capacity \<Rightarrow> map_option Inl (in_process_bus_new ring capacity)
      | BusIrc host port password nick user realname channels namespace capacity \<Rightarrow>
          map_option Inr (irc_bus_new ring
            \<lparr>ic_host = host, ic_port = port, ic_password = password, ic_nick = nick, ic_user = user,
             ic_realname = realname, ic_channels = channels, ic_namespace = namespace, ic_capacity = capacity\<rparr>))"

datatype 'key provider = ProviderNoAuth | ProviderJwt "'key JwtAuthProvider"

definition build_auth_provider ::
    "'key JwtLib \<Rightarrow> environment \<Rightarrow> ServerConfig \<Rightarrow> (string, 'key provider) result" where
  "build_auth_provider lib env config =
     (case sv_auth config of
        NoAuth \<Rightarrow>
          let mx = (env ''SECURITY_MODE'' = Some ''max'');
              allow = (env ''REALTIME_ALLOW_NOAUTH'' = Some ''1'')
          in if mx \<and> \<not> allow
             then Inl (''NoAuth realtime provider refused under SECURITY_MODE=max '' @ [CHR 0xE2, CHR 0x80, CHR 0x94] @
               '' configure JWT, or set REALTIME_ALLOW_NOAUTH=1 to override'')
             else Inr ProviderNoAuth
      | AuthJwt secret issuer audience allow_no_issuer previous_secret \<Rightarrow>
          let jwt = (jwt_config_hmac secret)\<lparr>jg_previous_secret := previous_secret, jg_issuer := issuer,
                jg_audience := audience, jg_require_issuer := \<not> allow_no_issuer\<rparr>
          in case jwt_provider_new lib env jwt of
               Inl e \<Rightarrow> Inl (show_error e)
             | Inr p \<Rightarrow> Inr (ProviderJwt p))"

text \<open>The provider as the sessions use it.\<close>

definition provider_auth :: "'key JwtLib \<Rightarrow> environment \<Rightarrow> 'key provider \<Rightarrow> AuthProvider" where
  "provider_auth lib env provider =
     (case provider of
        ProviderNoAuth \<Rightarrow> \<lparr>au_verify = noauth_verify, au_subscribe = noauth_authorize_subscribe,
          au_publish = noauth_authorize_publish\<rparr>
      | ProviderJwt p \<Rightarrow> \<lparr>au_verify = jwt_verify lib env p, au_subscribe = jwt_authorize_subscribe p,
          au_publish = jwt_authorize_publish p\<rparr>)"

definition build_core :: "ServerConfig \<Rightarrow> SubscriptionRegistry \<times> SequenceGenerator \<times> ConnectionManager" where
  "build_core config =
     (registry_with_limits (en_limits (sv_engine config)), sequence_new,
      cm_new (pf_send_queue_capacity (sv_performance config)))"

definition build_fanout :: "nat option \<Rightarrow> nat \<Rightarrow> Metrics \<Rightarrow> ConnectionManager \<Rightarrow> FanOut" where
  "build_fanout parallelism workers m conn_manager = fanout_start parallelism workers m conn_manager"

definition wire_router ::
    "SubscriptionRegistry \<Rightarrow> SequenceGenerator \<Rightarrow> DispatchMessage channel \<Rightarrow> EventRouter" where
  "wire_router registry seq_gen dispatch_tx = router_new registry seq_gen dispatch_tx"

definition env_flag_on :: "environment \<Rightarrow> string \<Rightarrow> bool" where
  "env_flag_on env key = (ascii_lower (env_or env key []) \<in> {''1'', ''true'', ''yes'', ''on''})"

definition build_presence_shared :: "environment \<Rightarrow> SharedPresence option" where
  "build_presence_shared env =
     (if \<not> env_flag_on env ''REALTIME_PRESENCE_SHARED'' then None
      else
        let redis_url =
          (case (case env ''REALTIME_PRESENCE_REDIS_URL'' of
                   Some u \<Rightarrow> if trim u \<noteq> [] then Some u else None
                 | None \<Rightarrow> None) of
             Some u \<Rightarrow> u
           | None \<Rightarrow> env_or env ''REDIS_URL'' [])
        in if trim redis_url = [] then None
           else
             let shared = shared_new redis_url
             in Some (case env ''REALTIME_PRESENCE_PREFIX'' of
                        Some prefix \<Rightarrow> shared_with_prefix prefix shared
                      | None \<Rightarrow> shared))"

text \<open>The meter and the period its flusher is started with.\<close>

definition build_usage :: "environment \<Rightarrow> (Usage \<times> u64) option" where
  "build_usage env =
     (if \<not> env_flag_on env ''REALTIME_METERING'' then None
      else
        let redis_url = env_or env ''REALTIME_METERING_REDIS_URL'' [];
            flush_ms = (case Option.bind (env ''REALTIME_METERING_FLUSH_MS'') (parse_unsigned (2 ^ 64 - 1)) of
                          Some n \<Rightarrow> of_nat n | None \<Rightarrow> 60000);
            usage = with_stream_url redis_url usage_new
        in Some (usage, flush_ms))"

subsection \<open>Printing the configuration (config/auth.rs)\<close>

text \<open>\<open>dbg\<close> prints a string the way \<open>Debug\<close> does.\<close>

definition show_opt :: "(string \<Rightarrow> string) \<Rightarrow> string option \<Rightarrow> string" where
  "show_opt dbg v = (case v of None \<Rightarrow> ''None'' | Some s \<Rightarrow> ''Some('' @ dbg s @ '')'')"

fun auth_config_debug :: "(string \<Rightarrow> string) \<Rightarrow> AuthConfig \<Rightarrow> string" where
  "auth_config_debug dbg NoAuth = ''NoAuth''"
| "auth_config_debug dbg (AuthJwt secret issuer audience allow_no_issuer previous_secret) =
     ''Jwt { secret: '' @ dbg ''<redacted>'' @
     '', previous_secret: '' @ show_opt dbg (map_option (\<lambda>_. ''<redacted>'') previous_secret) @
     '', issuer: '' @ show_opt dbg issuer @ '', audience: '' @ show_opt dbg audience @
     '', allow_no_issuer: '' @ show_bool allow_no_issuer @ '' }''"

lemma auth_config_debug_no_secret:
  "auth_config_debug dbg (AuthJwt s1 i a n p1) = auth_config_debug dbg (AuthJwt s2 i a n p2) \<longleftrightarrow>
   show_opt dbg (map_option (\<lambda>_. ''<redacted>'') p1) = show_opt dbg (map_option (\<lambda>_. ''<redacted>'') p2)"
  by simp

subsection \<open>What the environment decides\<close>

text \<open>What the loaded configuration has, given the file's.\<close>

lemma add_configs_auth [simp]:
  "sv_auth (add_mongo_config env c) = sv_auth c" "sv_auth (add_pg_config env c) = sv_auth c"
  by (simp_all add: add_mongo_config_def add_pg_config_def Let_def split: option.split)

lemma apply_env_auth:
  "env ''REALTIME_JWT_SECRET'' = Some secret \<Longrightarrow>
   \<exists>n. sv_auth (apply_env_overrides env c) = AuthJwt secret (env ''REALTIME_JWT_ISSUER'') (env ''REALTIME_JWT_AUDIENCE'') n
     (case env ''REALTIME_JWT_SECRET_PREV'' of Some s \<Rightarrow> if s = [] then None else Some s | None \<Rightarrow> None)"
  by (simp add: apply_env_overrides_def Let_def)

lemma load_config_auth:
  assumes "load_config par files env = Inr config" and "env ''REALTIME_JWT_SECRET'' = Some secret"
  shows "\<exists>n. sv_auth config = AuthJwt secret (env ''REALTIME_JWT_ISSUER'') (env ''REALTIME_JWT_AUDIENCE'') n
     (case env ''REALTIME_JWT_SECRET_PREV'' of Some s \<Rightarrow> if s = [] then None else Some s | None \<Rightarrow> None)"
proof -
  from assms(1) obtain c where "config = add_mongo_config env (add_pg_config env (apply_env_overrides env c))"
    unfolding load_config_def by (auto split: sum.splits)
  with apply_env_auth [of env secret c, OF assms(2)] show ?thesis by simp
qed

lemma noauth_only_if:
  "build_auth_provider lib env config = Inr ProviderNoAuth \<longleftrightarrow>
   sv_auth config = NoAuth \<and> (env ''SECURITY_MODE'' = Some ''max'' \<longrightarrow> env ''REALTIME_ALLOW_NOAUTH'' = Some ''1'')"
  by (cases "sv_auth config") (auto simp: build_auth_provider_def Let_def split: sum.splits)

lemma build_auth_provider_jwt:
  assumes "build_auth_provider lib env config = Inr provider" and "sv_auth config = AuthJwt secret iss aud n prev"
  shows "\<exists>p. provider = ProviderJwt p \<and> jp_decoding_key p = jl_from_secret lib secret \<and>
    (\<forall>k. jp_previous_key p = Some k \<longrightarrow> (\<exists>s. prev = Some s \<and> s \<noteq> [] \<and> s \<noteq> secret \<and> k = jl_from_secret lib s))"
  using assms
  by (auto simp: build_auth_provider_def jwt_provider_new_def build_decoding_key_def build_previous_key_def
      jwt_config_hmac_def bind_eq_Some_conv Let_def split: sum.splits if_splits)

text \<open>
  C34: A server with a JWT secret in its environment accepts no token that was not signed.  Whatever the
  configuration file says, if the variable is set and the server starts, every token a session accepts
  was decoded by the JWT library under the key of that secret, or under the key of the previous secret,
  which must not be empty; the secret itself may be the empty string.
\<close>

theorem server_requires_signed_tokens:
  assumes "env ''REALTIME_JWT_SECRET'' = Some secret"
    and "load_config par files env = Inr config"
    and "build_auth_provider lib env config = Inr provider"
    and "au_verify (provider_auth lib env provider) token ctx = Inr claims"
  shows "\<exists>key text validation jc.
    jl_decode lib text key validation = Inr jc \<and> (token = text \<or> token = ''Bearer '' @ text) \<and>
    claims = build_auth_claims env jc \<and>
    (key = jl_from_secret lib secret \<or>
     (\<exists>prev. env ''REALTIME_JWT_SECRET_PREV'' = Some prev \<and> prev \<noteq> [] \<and> key = jl_from_secret lib prev))"
proof -
  from load_config_auth [of par files env config secret, OF assms(2,1)] obtain n
    where auth: "sv_auth config = AuthJwt secret (env ''REALTIME_JWT_ISSUER'') (env ''REALTIME_JWT_AUDIENCE'') n
      (case env ''REALTIME_JWT_SECRET_PREV'' of Some s \<Rightarrow> if s = [] then None else Some s | None \<Rightarrow> None)" ..
  from build_auth_provider_jwt [OF assms(3) auth] obtain p where p: "provider = ProviderJwt p"
    and k: "jp_decoding_key p = jl_from_secret lib secret"
    and prev: "\<And>k. jp_previous_key p = Some k \<Longrightarrow>
      \<exists>s. (case env ''REALTIME_JWT_SECRET_PREV'' of Some s \<Rightarrow> if s = [] then None else Some s | None \<Rightarrow> None) = Some s \<and>
        s \<noteq> [] \<and> s \<noteq> secret \<and> k = jl_from_secret lib s" by blast
  define t where "t = (case strip_prefix token ''Bearer '' of Some t \<Rightarrow> t | None \<Rightarrow> token)"
  have t: "token = t \<or> token = ''Bearer '' @ t"
  proof (cases "strip_prefix token ''Bearer ''")
    case (Some a)
    then have "t = a" by (simp add: t_def)
    with strip_prefix_Some_iff [THEN iffD1, OF Some] show ?thesis by simp
  qed (simp add: t_def)
  from assms(4) obtain jc where d: "jwt_decode lib p t = Inr jc" and c: "claims = build_auth_claims env jc"
    by (auto simp: p provider_auth_def jwt_verify_def t_def Let_def split: sum.splits)
  from jwt_decode_cases [OF d] show ?thesis
  proof
    assume "jl_decode lib t (jp_decoding_key p) (jp_validation p) = Inr jc"
    with t c k show ?thesis by blast
  next
    assume "jl_decode lib t (jp_decoding_key p) (jp_validation p) = Inl InvalidSignature \<and>
      (\<exists>prev. jp_previous_key p = Some prev \<and> jl_decode lib t prev (jp_validation p) = Inr jc)"
    then obtain k' where k': "jp_previous_key p = Some k'" "jl_decode lib t k' (jp_validation p) = Inr jc" by blast
    from prev [OF k'(1)] have "\<exists>prev. env ''REALTIME_JWT_SECRET_PREV'' = Some prev \<and> prev \<noteq> [] \<and> k' = jl_from_secret lib prev"
      by (auto split: option.splits if_splits)
    with t c k'(2) show ?thesis by blast
  qed
qed

definition demo_jwt_env :: environment where
  "demo_jwt_env = [''REALTIME_JWT_SECRET'' \<mapsto> []]"

definition demo_no_files :: ConfigFiles where
  "demo_no_files = \<lparr>cf_read = (\<lambda>_. Inl ''no file''), cf_toml = (\<lambda>_. Inl ''no toml''), cf_json = (\<lambda>_. Inl ''no json'')\<rparr>"

text \<open>A library that signs by appending the key: with an empty secret every text is its own token.\<close>

definition demo_sign_lib :: "string JwtLib" where
  "demo_sign_lib = demo_lib\<lparr>jl_from_secret := (\<lambda>s. s),
     jl_decode := (\<lambda>t k v. if ends_with t k then Inr (demo_claims ''bob'' [''*'']) else Inl InvalidSignature)\<rparr>"

theorem server_requires_signed_tokens_witness:
  "\<exists>config provider claims key validation jc.
     load_config None demo_no_files demo_jwt_env = Inr config \<and>
     build_auth_provider demo_sign_lib demo_jwt_env config = Inr provider \<and>
     au_verify (provider_auth demo_sign_lib demo_jwt_env provider) ''anything'' demo_ctx = Inr claims \<and>
     jl_decode demo_sign_lib ''anything'' key validation = Inr jc \<and> key = []"
proof -
  have "\<exists>config. load_config None demo_no_files demo_jwt_env = Inr config"
    by (simp add: load_config_def demo_jwt_env_def)
  then obtain config where c: "load_config None demo_no_files demo_jwt_env = Inr config" ..
  from load_config_auth [of None demo_no_files demo_jwt_env config "[]"] c
  obtain n where a: "sv_auth config = AuthJwt [] None None n None"
    by (auto simp: demo_jwt_env_def)
  have "\<exists>p. build_auth_provider demo_sign_lib demo_jwt_env config = Inr (ProviderJwt p)"
    by (simp add: build_auth_provider_def a jwt_provider_new_def build_decoding_key_def jwt_config_hmac_def Let_def)
  then obtain p where p: "build_auth_provider demo_sign_lib demo_jwt_env config = Inr (ProviderJwt p)" ..
  from build_auth_provider_jwt [OF p a] have k: "jp_decoding_key p = []"
    by (simp add: demo_sign_lib_def)
  have "\<exists>claims. au_verify (provider_auth demo_sign_lib demo_jwt_env (ProviderJwt p)) ''anything'' demo_ctx = Inr claims"
    by (simp add: provider_auth_def jwt_verify_def jwt_decode_def strip_prefix_def starts_with_def k
        demo_sign_lib_def ends_with_def Let_def)
  then obtain claims where v: "au_verify (provider_auth demo_sign_lib demo_jwt_env (ProviderJwt p)) ''anything'' demo_ctx = Inr claims" ..
  have "demo_jwt_env ''REALTIME_JWT_SECRET'' = Some []" by (simp add: demo_jwt_env_def)
  from server_requires_signed_tokens [OF this c p v] obtain key tok validation jc
    where d: "jl_decode demo_sign_lib tok key validation = Inr jc"
      and t: "''anything'' = tok \<or> ''anything'' = ''Bearer '' @ tok"
      and key: "key = jl_from_secret demo_sign_lib [] \<or>
        (\<exists>prev. demo_jwt_env ''REALTIME_JWT_SECRET_PREV'' = Some prev \<and> prev \<noteq> [] \<and> key = jl_from_secret demo_sign_lib prev)"
    by blast
  from t have "tok = ''anything''" by simp
  moreover from key have "key = []" by (simp add: demo_sign_lib_def demo_jwt_env_def)
  ultimately show ?thesis using c p v d by blast
qed

text \<open>What loading leaves of each field.\<close>

lemma add_configs_sel [simp]:
  "sv_host (add_mongo_config env c) = sv_host c" "sv_host (add_pg_config env c) = sv_host c"
  "sv_port (add_mongo_config env c) = sv_port c" "sv_port (add_pg_config env c) = sv_port c"
  "sv_static_dir (add_mongo_config env c) = sv_static_dir c" "sv_static_dir (add_pg_config env c) = sv_static_dir c"
  by (simp_all add: add_mongo_config_def add_pg_config_def Let_def split: option.split)

lemma add_configs_databases:
  "\<exists>added. sv_databases (add_mongo_config env (add_pg_config env c)) = sv_databases c @ added \<and>
     map dc_adapter added = (if env ''REALTIME_PG_URL'' = None then [] else [''postgresql'']) @
       (if env ''REALTIME_MONGO_URI'' = None then [] else [''mongodb''])"
  by (cases "env ''REALTIME_PG_URL''"; cases "env ''REALTIME_MONGO_URI''")
    (simp_all add: add_mongo_config_def add_pg_config_def Let_def)

lemma apply_env_sel:
  "sv_host (apply_env_overrides env c) = env_or env ''REALTIME_HOST'' (sv_host c)"
  "sv_port (apply_env_overrides env c) =
     (case Option.bind (env ''REALTIME_PORT'') (parse_unsigned 65535) of Some p \<Rightarrow> of_nat p | None \<Rightarrow> sv_port c)"
  "sv_static_dir (apply_env_overrides env c) = env_or env ''REALTIME_STATIC_DIR'' (sv_static_dir c)"
  "sv_databases (apply_env_overrides env c) = sv_databases c"
  by (simp_all add: apply_env_overrides_def env_or_def Let_def split: option.split)

lemma apply_env_auth_cases:
  "case env ''REALTIME_JWT_SECRET'' of
     None \<Rightarrow> sv_auth (apply_env_overrides env c) = sv_auth c
   | Some s \<Rightarrow> \<exists>i a n p. sv_auth (apply_env_overrides env c) = AuthJwt s i a n p"
  by (simp add: apply_env_overrides_def Let_def split: option.split)

text \<open>
  The environment has the last word.  When the configuration loads, host, port and static directory are
  those of the environment where it sets them (a port that is no number from 0 to 65535 counts as not
  set) and those of the file or the defaults otherwise, and the databases of the environment come after
  those of the file; with no variable set at all the server listens on port 9090 while the health probe
  asks port 4000.
\<close>

theorem config_environment_wins:
  "(case load_config par files env of
      Inl e \<Rightarrow> (case env ''REALTIME_CONFIG'' of
          None \<Rightarrow> False | Some path \<Rightarrow> load_config_from_file files path = Inl e)
    | Inr config \<Rightarrow>
        (let base = (case env ''REALTIME_CONFIG'' of
             None \<Rightarrow> server_config_default par | Some path \<Rightarrow> projr (load_config_from_file files path))
         in sv_host config = env_or env ''REALTIME_HOST'' (sv_host base) \<and>
            sv_port config = (case Option.bind (env ''REALTIME_PORT'') (parse_unsigned 65535) of
               Some p \<Rightarrow> of_nat p | None \<Rightarrow> sv_port base) \<and>
            sv_static_dir config = env_or env ''REALTIME_STATIC_DIR'' (sv_static_dir base) \<and>
            (case env ''REALTIME_JWT_SECRET'' of
               None \<Rightarrow> sv_auth config = sv_auth base
             | Some s \<Rightarrow> \<exists>i a n p. sv_auth config = AuthJwt s i a n p) \<and>
            (\<exists>added. sv_databases config = sv_databases base @ added \<and>
               map dc_adapter added = (if env ''REALTIME_PG_URL'' = None then [] else [''postgresql'']) @
                 (if env ''REALTIME_MONGO_URI'' = None then [] else [''mongodb''])))) \<and>
   map_sum id sv_port (load_config par files Map.empty) = Inr 9090 \<and> health_addr Map.empty = ''127.0.0.1:4000''"
proof -
  have loaded: "sv_host c = env_or env ''REALTIME_HOST'' (sv_host base) \<and>
      sv_port c = (case Option.bind (env ''REALTIME_PORT'') (parse_unsigned 65535) of
        Some p \<Rightarrow> of_nat p | None \<Rightarrow> sv_port base) \<and>
      sv_static_dir c = env_or env ''REALTIME_STATIC_DIR'' (sv_static_dir base) \<and>
      (case env ''REALTIME_JWT_SECRET'' of
         None \<Rightarrow> sv_auth c = sv_auth base
       | Some s \<Rightarrow> \<exists>i a n p. sv_auth c = AuthJwt s i a n p) \<and>
      (\<exists>added. sv_databases c = sv_databases base @ added \<and>
         map dc_adapter added = (if env ''REALTIME_PG_URL'' = None then [] else [''postgresql'']) @
           (if env ''REALTIME_MONGO_URI'' = None then [] else [''mongodb'']))"
    if "c = add_mongo_config env (add_pg_config env (apply_env_overrides env base))" for c base
    using that apply_env_auth_cases [of env base] add_configs_databases [of env "apply_env_overrides env base"]
    by (simp add: apply_env_sel cong: option.case_cong)
  have empty: "map_sum id sv_port (load_config par files Map.empty) = Inr 9090" "health_addr Map.empty = ''127.0.0.1:4000''"
    by (simp_all add: load_config_def apply_env_sel server_config_default_def health_addr_def env_or_def)
  show ?thesis
  proof (cases "env ''REALTIME_CONFIG''")
    case None
    with loaded [OF refl, of "server_config_default par"] empty show ?thesis
      by (simp add: load_config_def Let_def)
  next
    case (Some path)
    show ?thesis
    proof (cases "load_config_from_file files path")
      case (Inl e)
      with Some empty show ?thesis by (simp add: load_config_def)
    next
      case (Inr base)
      with Some loaded [OF refl, of base] empty show ?thesis by (simp add: load_config_def Let_def)
    qed
  qed
qed

end
