(* ===== verification/Rt_Node.thy ===== *)
theory Rt_Node
  imports Rt_Server
begin

text \<open>
  A running node: what \<open>run\<close> of \<open>crates/realtime-server/src/server.rs\<close> assembles over the in-process bus,
  and the steps of its tasks from a publisher to the send queues: the bus, the router loop, the fan-out
  and the registry between them.  The dispatch channel is the one the fan-out reads; the router holds
  its sending end.  Lemmas: in any interleaving the node delivers the published events, numbered per
  topic in the order of the bus; a published event reaches exactly the subscriptions it matches.
\<close>

subsection \<open>The node (server.rs)\<close>

record Node =
  nd_bus :: broadcast
  nd_subscriber :: nat
  nd_router :: EventRouter
  nd_fanout :: FanOut

text \<open>\<open>None\<close>: the capacity is zero, or the configuration asks for the IRC bus.  \<open>ring\<close> is the size the
  channel library allots, \<open>m\<close> the process-wide counters.\<close>

definition node_start :: "nat option \<Rightarrow> nat \<Rightarrow> Metrics \<Rightarrow> ServerConfig \<Rightarrow> Node option" where
  "node_start parallelism ring m config =
     (case build_event_bus ring config of
        Some (Inl bus) \<Rightarrow>
          let (registry, sequence_gen, conn_manager) = build_core config;
              fanout = build_fanout parallelism (pf_fanout_workers (sv_performance config)) m conn_manager;
              router = wire_router registry sequence_gen (fo_rx fanout);
              (subscriber, bus) = in_process_subscriber ''*'' bus
          in Some \<lparr>nd_bus = bus, nd_subscriber = subscriber, nd_router = router, nd_fanout = fanout\<rparr>
      | _ \<Rightarrow> None)"

text \<open>The server over this bus, with its provider; an error of the provider stops it.\<close>

definition server_run ::
    "'key JwtLib \<Rightarrow> environment \<Rightarrow> nat option \<Rightarrow> nat \<Rightarrow> Metrics \<Rightarrow> ServerConfig
      \<Rightarrow> (string, Node \<times> 'key provider) result option" where
  "server_run lib env parallelism ring m config =
     (case build_event_bus ring config of
        Some (Inl _) \<Rightarrow>
          (case build_auth_provider lib env config of
             Inl e \<Rightarrow> Some (Inl e)
           | Inr provider \<Rightarrow>
               map_option (\<lambda>nd. Inr (nd, provider)) (node_start parallelism ring m config))
      | _ \<Rightarrow> None)"

text \<open>One round of the router loop: the next event of the bus is routed.  The first component lists
  the events taken.  \<open>None\<close>: the bus has nothing to read, or the index faults.\<close>

definition node_route :: "Externals \<Rightarrow> Clock \<Rightarrow> Node \<Rightarrow> (EventEnvelope list \<times> Node) option" where
  "node_route x ck nd =
     (case in_process_next_event (nd_subscriber nd) (nd_bus nd) of
        None \<Rightarrow> None
      | Some (None, bus) \<Rightarrow> Some ([], nd\<lparr>nd_bus := bus\<rparr>)
      | Some (Some event, bus) \<Rightarrow>
          (case route_event x ck event ((nd_router nd)\<lparr>rt_dispatch_tx := fo_rx (nd_fanout nd)\<rparr>) of
             None \<Rightarrow> None
           | Some (_, router) \<Rightarrow>
               Some ([event], nd\<lparr>nd_bus := bus, nd_router := router,
                 nd_fanout := (nd_fanout nd)\<lparr>fo_rx := rt_dispatch_tx router\<rparr>\<rparr>)))"

definition node_registry :: "SubscriptionRegistry \<Rightarrow> Node \<Rightarrow> Node" where
  "node_registry registry nd = nd\<lparr>nd_router := (nd_router nd)\<lparr>rt_registry := registry\<rparr>\<rparr>"

datatype node_op =
    NdPublish string EventEnvelope
  | NdSubscribe Subscription "NodeId option"
  | NdUnsubscribe ConnectionId string
  | NdDisconnect ConnectionId
  | NdRoute Clock
  | NdFan fo_action

text \<open>A step of any task, with the events the router takes and the deliveries a worker makes.  Only the
  router submits to the fan-out.\<close>

fun node_step ::
    "Externals \<Rightarrow> string \<Rightarrow> node_op \<Rightarrow> Node \<Rightarrow> (EventEnvelope list \<times> LocalDispatch list \<times> Node) option" where
  "node_step x msg (NdPublish topic event) nd =
     Some ([], [], nd\<lparr>nd_bus := snd (in_process_publish msg topic event (nd_bus nd))\<rparr>)"
| "node_step x msg (NdSubscribe sub node) nd =
     map_option (\<lambda>(registry, _). ([], [], node_registry registry nd))
       (subscribe x sub node (rt_registry (nd_router nd)))"
| "node_step x msg (NdUnsubscribe conn_id sub_id) nd =
     Some ([], [], node_registry (fst (unsubscribe conn_id sub_id (rt_registry (nd_router nd)))) nd)"
| "node_step x msg (NdDisconnect conn_id) nd =
     Some ([], [], node_registry (registry_remove_connection conn_id (rt_registry (nd_router nd))) nd)"
| "node_step x msg (NdRoute ck) nd = map_option (\<lambda>(routed, nd). (routed, [], nd)) (node_route x ck nd)"
| "node_step x msg (NdFan a) nd =
     (case a of
        ASubmit _ \<Rightarrow> None
      | _ \<Rightarrow> map_option (\<lambda>(_, d, fanout). ([], d, nd\<lparr>nd_fanout := fanout\<rparr>)) (fo_act a (nd_fanout nd)))"

fun node_run ::
    "Externals \<Rightarrow> string \<Rightarrow> node_op list \<Rightarrow> Node \<Rightarrow> (EventEnvelope list \<times> LocalDispatch list \<times> Node) option" where
  "node_run x msg [] nd = Some ([], [], nd)"
| "node_run x msg (op # ops) nd =
     (case node_step x msg op nd of
        None \<Rightarrow> None
      | Some (r, d, nd) \<Rightarrow>
          (case node_run x msg ops nd of
             None \<Rightarrow> None
           | Some (routed, dl, nd) \<Rightarrow> Some (r @ routed, d @ dl, nd)))"

subsection \<open>What the steps keep\<close>

lemma try_send_sel [simp]: "ch_cap (fst (try_send m c)) = ch_cap c" "ch_closed (fst (try_send m c)) = ch_closed c"
  by (simp_all add: try_send_def)

text \<open>The dispatch channel stays open and keeps its capacity.\<close>

definition rx_open :: "FanOut \<Rightarrow> bool" where
  "rx_open s = (ch_cap (fo_rx s) = 65536 \<and> \<not> ch_closed (fo_rx s))"

lemma channel_recv_sel: "channel_recv c = Some (m, c') \<Longrightarrow> ch_cap c' = ch_cap c \<and> ch_closed c' = ch_closed c"
  by (auto simp: channel_recv_def split: list.splits)

lemma rx_open_act:
  assumes "fo_act a s = Some (ac, d, s')" and "rx_open s"
  shows "rx_open s'"
proof (cases a)
  case (ASubmit m)
  with assms show ?thesis by (auto simp: fo_act_def fo_submit_def rx_open_def split_beta)
next
  case ARecv
  with assms show ?thesis
    by (auto simp: fo_act_def dispatcher_recv_def rx_open_def Let_def dest: channel_recv_sel
        split: if_splits option.splits prod.splits)
next
  case ASend
  with assms show ?thesis
    by (auto simp: fo_act_def dispatcher_send_def rx_open_def Let_def
        split: option.splits prod.splits sum.splits SendError.splits)
next
  case (AWorkerRecv i)
  with assms show ?thesis
    by (auto simp: fo_act_def worker_recv_def rx_open_def split: if_splits option.splits prod.splits)
next
  case (AWorkerHandle i)
  with assms show ?thesis
    by (auto simp: fo_act_def worker_handle_def rx_open_def split_beta Let_def split: if_splits list.splits)
next
  case (AManager op)
  with assms show ?thesis by (auto simp: fo_act_def manager_step_def rx_open_def)
qed

lemma route_event_tx:
  assumes "route_event x ck event r = Some (n, r')"
  shows "rt_dispatch_tx r' = rt_dispatch_tx r \<or> (\<exists>m. rt_dispatch_tx r' = fst (try_send m (rt_dispatch_tx r)))"
proof -
  obtain k g where ng: "sequence_next (topic_str (ev_topic event)) (rt_sequence_gen r) = (k, g)" by fastforce
  show ?thesis
  proof (cases "registry_for_each_match x ck (event\<lparr>ev_sequence := k\<rparr>) push_target (rt_registry r) []")
    case None
    with assms ng show ?thesis by (simp add: route_event_def Let_def)
  next
    case (Some res)
    then obtain c targets registry where
      f: "registry_for_each_match x ck (event\<lparr>ev_sequence := k\<rparr>) push_target (rt_registry r) [] =
        Some (c, targets, registry)" by (cases res) auto
    obtain tx sent where ts: "try_send (DispatchBatch (event\<lparr>ev_sequence := k\<rparr>) targets) (rt_dispatch_tx r) = (tx, sent)"
      by fastforce
    then have "tx = fst (try_send (DispatchBatch (event\<lparr>ev_sequence := k\<rparr>) targets) (rt_dispatch_tx r))" by simp
    moreover have "rt_dispatch_tx r' = rt_dispatch_tx r \<or> rt_dispatch_tx r' = tx"
      using assms ng f ts by (cases "targets = []"; cases sent) (auto simp: route_event_def Let_def)
    ultimately show ?thesis by blast
  qed
qed

text \<open>Bounds of the index survive every registry operation.\<close>

lemma rg_safe_subscribe:
  assumes "subscribe x sub node r = Some (r', res)" and "rg_safe r"
  shows "rg_safe r'"
  using assms(1)
proof (cases rule: subscribe_obtain)
  case (index fi)
  from assms(2) obtain fi' res' where "add_subscription x sub node (rg_filter_index r) = Some (fi', res')" "fi_safe fi'"
    unfolding rg_safe_def by (rule add_safe)
  with index show "rg_safe r'" by (auto simp: rg_safe_def registry_insert_def Let_def split: sum.splits)
qed (use assms(2) in simp)

lemma rg_safe_unsubscribe: "rg_safe r \<Longrightarrow> rg_safe (fst (unsubscribe c s r))"
  by (simp add: unsubscribe_def rg_safe_def Let_def remove_safe split: option.split)

lemma rg_safe_remove_connection: "rg_safe r \<Longrightarrow> rg_safe (registry_remove_connection c r)"
proof -
  have "rg_safe r \<Longrightarrow> rg_safe (fold (remove_entry c) es r)" for es r
    by (induction es arbitrary: r) (simp_all add: remove_entry_def rg_safe_def Let_def remove_safe)
  then show "rg_safe r \<Longrightarrow> rg_safe (registry_remove_connection c r)"
    by (simp add: registry_remove_connection_def rg_safe_def split: option.split)
qed

text \<open>The events of a run as the router numbers them: each with its place among those of its topic.\<close>

definition event_topic :: "EventEnvelope \<Rightarrow> string" where
  "event_topic event = topic_str (ev_topic event)"

definition numbered :: "EventEnvelope list \<Rightarrow> EventEnvelope list" where
  "numbered events =
     map (\<lambda>j. (events ! j)\<lparr>ev_sequence :=
         of_nat (count_list (map event_topic (take (Suc j) events)) (event_topic (events ! j)))\<rparr>)
       [0..<length events]"

lemma numbered_snoc:
  "numbered (events @ [e]) =
     numbered events @ [e\<lparr>ev_sequence := of_nat (count_list (map event_topic events) (event_topic e)) + 1\<rparr>]"
  by (simp add: numbered_def nth_append add.commute)

text \<open>What a node has done: \<open>ps\<close> are the bus positions of the events taken, \<open>tss\<close> the deliveries asked
  for by each of them.\<close>

definition node_inv :: "nat list \<Rightarrow> LocalDispatch list list \<Rightarrow> LocalDispatch list \<Rightarrow> Node \<Rightarrow> bool" where
  "node_inv ps tss dl nd =
     (bc_track (nd_subscriber nd) 0 ps (nd_bus nd) \<and> rg_safe (rt_registry (nd_router nd)) \<and>
      (\<forall>topic. sequence_current topic (rt_sequence_gen (nd_router nd)) =
         of_nat (count_list (map event_topic (bc_at (nd_bus nd) ps)) topic)) \<and>
      fo_inv (nd_fanout nd) \<and> rx_open (nd_fanout nd) \<and>
      list_all2 (\<lambda>e ts. list_all (\<lambda>d. ld_event d = e) ts) (numbered (bc_at (nd_bus nd) ps)) tss \<and>
      mset dl + mset (in_flight (nd_fanout nd)) = mset (concat tss) \<and>
      (length (fo_workers (nd_fanout nd)) = 1 \<longrightarrow> dl @ in_flight (nd_fanout nd) = concat tss))"

lemma node_inv_bus:
  assumes "node_inv ps tss dl nd" and "bc_track (nd_subscriber nd) 0 ps b" and "bc_at b ps = bc_at (nd_bus nd) ps"
  shows "node_inv ps tss dl (nd\<lparr>nd_bus := b\<rparr>)"
  using assms by (simp add: node_inv_def)

lemma node_inv_registry:
  "node_inv ps tss dl nd \<Longrightarrow> rg_safe registry \<Longrightarrow> node_inv ps tss dl (node_registry registry nd)"
  by (simp add: node_inv_def node_registry_def)

lemma node_inv_fan:
  assumes inv: "node_inv ps tss dl nd" and act: "fo_act a (nd_fanout nd) = Some ([], d, s)"
  shows "node_inv ps tss (dl @ d) (nd\<lparr>nd_fanout := s\<rparr>)"
proof -
  have fo: "fo_inv (nd_fanout nd)" using inv by (simp add: node_inv_def)
  note e = act_effect [OF act fo]
  have "mset (dl @ d) + mset (in_flight s) = mset (concat tss)"
    using e inv by (simp add: node_inv_def add.assoc)
  moreover have "(dl @ d) @ in_flight s = concat tss" if "length (fo_workers s) = 1"
    using that e inv by (simp add: node_inv_def)
  ultimately show ?thesis
    using inv e rx_open_act [OF act] by (simp add: node_inv_def)
qed

lemma fo_act_no_submit: "fo_act a s = Some (ac, d, s') \<Longrightarrow> (\<And>m. a \<noteq> ASubmit m) \<Longrightarrow> ac = []"
  by (cases a) (auto simp: fo_act_def)

lemma bc_at_grow: "bc_track i st ps b \<Longrightarrow> bc_sent b' = bc_sent b @ evs \<Longrightarrow> bc_at b' ps = bc_at b ps"
  by (auto simp: bc_at_def bc_track_def track_ok_def nth_append)

lemma next_event_keeps:
  "in_process_next_event i b = Some (res, b') \<Longrightarrow> bc_sent b' = bc_sent b \<and> bc_ring b' = bc_ring b"
  using next_event_none [of i b] next_event_spec [of i b]
  by (cases "i < length (bc_cursors b) \<and> bc_cursors b ! i \<noteq> None") (auto simp: Let_def split: if_splits)

text \<open>The router's round.\<close>

lemma node_inv_route:
  assumes inv: "node_inv ps tss dl nd" and step: "node_route x ck nd = Some (routed, nd')"
  shows "\<exists>qs us. routed = bc_at (nd_bus nd') qs \<and> node_inv (ps @ qs) (tss @ us) dl nd'"
proof -
  have tr: "bc_track (nd_subscriber nd) 0 ps (nd_bus nd)" using inv by (simp add: node_inv_def)
  then show ?thesis
  proof (cases rule: bc_track_next)
    case 1
    with step show ?thesis by (simp add: node_route_def)
  next
    case (2 b)
    then have "routed = []" and nd': "nd' = nd\<lparr>nd_bus := b\<rparr>" using step by (simp_all add: node_route_def)
    moreover have "bc_at b ps = bc_at (nd_bus nd) ps"
      using bc_at_grow [OF tr, of b "[]"] 2 next_event_keeps by fastforce
    ultimately show ?thesis using node_inv_bus [OF inv 2(2)]
      by (intro exI [of _ "[]"]) (simp add: bc_at_def)
  next
    case (3 p b)
    let ?e = "bc_sent (nd_bus nd) ! p"
    let ?r = "(nd_router nd)\<lparr>rt_dispatch_tx := fo_rx (nd_fanout nd)\<rparr>"
    obtain n r where rt: "route_event x ck ?e ?r = Some (n, r)" and routed: "routed = [?e]"
      and nd': "nd' = nd\<lparr>nd_bus := b, nd_router := r, nd_fanout := (nd_fanout nd)\<lparr>fo_rx := rt_dispatch_tx r\<rparr>\<rparr>"
      using step 3(1) by (auto simp: node_route_def split: option.splits)
    let ?e' = "?e\<lparr>ev_sequence := sequence_current (topic_str (ev_topic ?e)) (rt_sequence_gen ?r) + 1\<rparr>"
    have "rg_safe (rt_registry ?r)" using inv by (simp add: node_inv_def)
    from route_event_effect [OF this refl, of x ck ?e] obtain ms r1 where r1: "route_event x ck ?e ?r = Some (length ms, r1)"
      and safe: "rg_safe (rt_registry r1)"
      and gen: "rt_sequence_gen r1 = snd (sequence_next (topic_str (ev_topic ?e)) (rt_sequence_gen ?r))"
      and buf: "ch_buf (rt_dispatch_tx r1) = ch_buf (rt_dispatch_tx ?r) @
         (if ms \<noteq> [] \<and> batch_sent ?r (DispatchBatch ?e' (map match_key ms))
          then [DispatchBatch ?e' (map match_key ms)] else [])" by metis
    have r: "r1 = r" using r1 rt by simp
    define us where "us = (if ms \<noteq> [] \<and> batch_sent ?r (DispatchBatch ?e' (map match_key ms))
      then message_targets (DispatchBatch ?e' (map match_key ms)) else [])"
    have flight: "in_flight (nd_fanout nd') = in_flight (nd_fanout nd) @ us"
      using buf by (simp add: nd' r us_def in_flight_def held_pending_def rx_pending_def)
    have sent: "bc_sent b = bc_sent (nd_bus nd)" by (rule 3(2))
    have at: "bc_at b (ps @ [p]) = bc_at (nd_bus nd) ps @ [?e]" by (simp add: bc_at_def sent)
    have cur: "sequence_current (topic_str (ev_topic ?e)) (rt_sequence_gen ?r) =
        of_nat (count_list (map event_topic (bc_at (nd_bus nd) ps)) (event_topic ?e))"
      using inv by (simp add: node_inv_def event_topic_def)
    have num: "numbered (bc_at b (ps @ [p])) = numbered (bc_at (nd_bus nd) ps) @ [?e']"
      unfolding at numbered_snoc cur ..
    have all: "list_all (\<lambda>d. ld_event d = ?e') us"
      by (auto simp: us_def message_targets_def list_all_iff split_beta)
    have seqs: "sequence_current topic (rt_sequence_gen r) =
        of_nat (count_list (map event_topic (bc_at b (ps @ [p]))) topic)" for topic
      using inv gen unfolding at r by (simp add: seq.nxt_cur node_inv_def event_topic_def)
    have rx: "rx_open (nd_fanout nd')"
      using inv route_event_tx [OF rt] by (auto simp: node_inv_def rx_open_def nd')
    have "node_inv (ps @ [p]) (tss @ [us]) dl nd'"
      using inv 3(3) safe seqs all rx flight num
      by (simp add: node_inv_def nd' r fo_inv_def list_all2_appendI)
    then show ?thesis
      unfolding routed by (intro exI [of _ "[p]"] exI [of _ "[us]"]) (simp add: nd' bc_at_def sent)
  qed
qed

lemma node_step_inv:
  assumes inv: "node_inv ps tss dl nd" and step: "node_step x msg op nd = Some (routed, d, nd')"
  shows "\<exists>qs us. routed = bc_at (nd_bus nd') qs \<and> node_inv (ps @ qs) (tss @ us) (dl @ d) nd' \<and>
    (\<exists>evs. bc_sent (nd_bus nd') = bc_sent (nd_bus nd) @ evs) \<and> bc_ring (nd_bus nd') = bc_ring (nd_bus nd)"
proof -
  have tr: "bc_track (nd_subscriber nd) 0 ps (nd_bus nd)" using inv by (simp add: node_inv_def)
  have keep: "\<exists>qs us. [] = bc_at b qs \<and> node_inv (ps @ qs) (tss @ us) (dl @ []) nd''"
    if "node_inv ps tss dl nd''" for b nd''
    using that by (intro exI [of _ "[]"]) (simp add: bc_at_def)
  show ?thesis
  proof (cases op)
    case (NdPublish t e)
    let ?b = "snd (in_process_publish msg t e (nd_bus nd))"
    from step NdPublish have nd': "nd' = nd\<lparr>nd_bus := ?b\<rparr>" and "routed = []" "d = []" by auto
    have grow: "bus_act msg (BsPublish t e) (nd_bus nd) = ([], ?b)" by simp
    obtain evs where evs: "bc_sent ?b = bc_sent (nd_bus nd) @ evs" and ring: "bc_ring ?b = bc_ring (nd_bus nd)"
      using bus_act_grows [OF grow] by blast
    have "bc_track (nd_subscriber nd) 0 ps ?b"
      using bc_track_step [OF tr grow] bc_track_same [OF tr evs ring]
      by (simp add: in_process_publish_def broadcast_send_def split: option.split)
    from node_inv_bus [OF inv this bc_at_grow [OF tr evs]] show ?thesis
      using keep evs ring by (simp add: nd' \<open>routed = []\<close> \<open>d = []\<close>)
  next
    case (NdSubscribe sub node)
    with step obtain registry res where "subscribe x sub node (rt_registry (nd_router nd)) = Some (registry, res)"
      and nd': "nd' = node_registry registry nd" "routed = []" "d = []" by auto
    moreover have "rg_safe (rt_registry (nd_router nd))" using inv by (simp add: node_inv_def)
    ultimately show ?thesis
      using keep node_inv_registry [OF inv] rg_safe_subscribe by (simp add: node_registry_def)
  next
    case (NdUnsubscribe c s)
    have "rg_safe (rt_registry (nd_router nd))" using inv by (simp add: node_inv_def)
    with step NdUnsubscribe show ?thesis
      using keep node_inv_registry [OF inv] rg_safe_unsubscribe by (auto simp: node_registry_def)
  next
    case (NdDisconnect c)
    have "rg_safe (rt_registry (nd_router nd))" using inv by (simp add: node_inv_def)
    with step NdDisconnect show ?thesis
      using keep node_inv_registry [OF inv] rg_safe_remove_connection by (auto simp: node_registry_def)
  next
    case (NdRoute ck)
    with step have r: "node_route x ck nd = Some (routed, nd')" and "d = []" by auto
    obtain res b where "in_process_next_event (nd_subscriber nd) (nd_bus nd) = Some (res, b)" and "nd_bus nd' = b"
      using r by (auto simp: node_route_def split: option.splits)
    with next_event_keeps have "bc_sent (nd_bus nd') = bc_sent (nd_bus nd) \<and> bc_ring (nd_bus nd') = bc_ring (nd_bus nd)"
      by blast
    then show ?thesis using node_inv_route [OF inv r] \<open>d = []\<close> by simp
  next
    case (NdFan a)
    with step obtain ac s where act: "fo_act a (nd_fanout nd) = Some (ac, d, s)" and na: "\<And>m. a \<noteq> ASubmit m"
      and nd': "nd' = nd\<lparr>nd_fanout := s\<rparr>" and "routed = []"
      by (auto split: fo_action.splits)
    with fo_act_no_submit [OF act] have "fo_act a (nd_fanout nd) = Some ([], d, s)" by simp
    from node_inv_fan [OF inv this] show ?thesis
      by (intro exI [of _ "[]"]) (simp add: nd' \<open>routed = []\<close> bc_at_def)
  qed
qed

lemma node_run_inv:
  "node_inv ps tss dl nd \<Longrightarrow> node_run x msg ops nd = Some (routed, d, nd') \<Longrightarrow>
   \<exists>qs us. routed = bc_at (nd_bus nd') qs \<and> node_inv (ps @ qs) (tss @ us) (dl @ d) nd' \<and>
     (\<exists>evs. bc_sent (nd_bus nd') = bc_sent (nd_bus nd) @ evs) \<and> bc_ring (nd_bus nd') = bc_ring (nd_bus nd)"
proof (induction ops arbitrary: ps tss dl nd routed d)
  case Nil
  then show ?case by (auto simp: bc_at_def intro: exI [of _ "[]"])
next
  case (Cons op ops)
  from Cons.prems(2) obtain r1 d1 nd1 r2 d2 where s: "node_step x msg op nd = Some (r1, d1, nd1)"
    and r: "node_run x msg ops nd1 = Some (r2, d2, nd')" and eq: "routed = r1 @ r2" "d = d1 @ d2"
    by (auto split: option.splits prod.splits)
  from node_step_inv [OF Cons.prems(1) s] obtain qs us evs where
    1: "r1 = bc_at (nd_bus nd1) qs" "node_inv (ps @ qs) (tss @ us) (dl @ d1) nd1"
      "bc_sent (nd_bus nd1) = bc_sent (nd_bus nd) @ evs" "bc_ring (nd_bus nd1) = bc_ring (nd_bus nd)" by blast
  from Cons.IH [OF 1(2) r] obtain qs' us' evs' where
    2: "r2 = bc_at (nd_bus nd') qs'" "node_inv ((ps @ qs) @ qs') ((tss @ us) @ us') ((dl @ d1) @ d2) nd'"
      "bc_sent (nd_bus nd') = bc_sent (nd_bus nd1) @ evs'" "bc_ring (nd_bus nd') = bc_ring (nd_bus nd1)" by blast
  have "bc_track (nd_subscriber nd1) 0 (ps @ qs) (nd_bus nd1)" using 1(2) by (simp add: node_inv_def)
  from bc_at_grow [OF this 2(3)] have "bc_at (nd_bus nd') qs = bc_at (nd_bus nd1) qs"
    by (simp add: bc_at_def)
  with 1 2 eq show ?case
    by (intro exI [of _ "qs @ qs'"] exI [of _ "us @ us'"]) (simp add: bc_at_def)
qed


lemma node_start_inv:
  assumes "node_start par ring m config = Some nd" and "par \<noteq> Some 0"
  shows "node_inv [] [] [] nd \<and> bc_ring (nd_bus nd) = ring \<and> fo_metrics (nd_fanout nd) = m"
proof -
  obtain capacity where bus: "sv_event_bus config = BusInProcess capacity" "capacity \<noteq> 0"
    using assms(1) by (auto simp: node_start_def build_event_bus_def in_process_bus_new_def
        split: EventBusConfig.splits option.splits sum.splits if_splits)
  let ?cm = "cm_new (pf_send_queue_capacity (sv_performance config))"
  let ?n = "pf_fanout_workers (sv_performance config)"
  have nd: "nd = \<lparr>nd_bus = \<lparr>bc_ring = ring, bc_sent = [], bc_cursors = [Some 0], bc_closed = False\<rparr>,
      nd_subscriber = 0,
      nd_router = router_new (registry_with_limits (en_limits (sv_engine config))) sequence_new (channel_new 65536),
      nd_fanout = fanout_start par ?n m ?cm\<rparr>"
    using assms(1) bus by (simp add: node_start_def build_event_bus_def in_process_bus_new_def build_core_def
        build_fanout_def wire_router_def in_process_subscriber_def fanout_start_def)
  have "fo_inv (fanout_start par ?n m ?cm)"
    using assms(2) by (intro fanout_start_inv) (auto simp: fanout_worker_count_def split: option.split)
  then show ?thesis
    by (simp add: nd node_inv_def bc_track_def track_ok_def track_at_def gaps_lagged_def router_new_def
        rg_safe_def registry_with_limits_def seq.cur_init bc_at_def numbered_def)
      (simp add: rx_open_def fanout_start_def channel_new_def)
qed

text \<open>
  C7: A node delivers what was published, in the order of the bus.  Take any interleaving of publishers,
  subscribers, the router and the workers of a freshly started node.  The events the router took are
  events of the bus in publication order, each at most once, and any it passed over had been overtaken
  by more than the ring holds; every delivery asked for carries one of them, numbered with its place
  among the events of its topic taken so far; each such delivery is made once or still under way; and
  with a single worker deliveries are made in this order.
\<close>

theorem node_in_order:
  assumes "node_start par ring m config = Some nd0" and "par \<noteq> Some 0"
    and "node_run x msg ops nd0 = Some (routed, dl, nd)"
  shows "\<exists>ps tss. routed = map (\<lambda>p. bc_sent (nd_bus nd) ! p) ps \<and> sorted_wrt (<) ps \<and>
    (\<forall>p \<in> set ps. p < length (bc_sent (nd_bus nd)) \<and>
       (\<forall>q < p. q \<in> set ps \<or> q + ring < length (bc_sent (nd_bus nd)))) \<and>
    list_all2 (\<lambda>e ts. list_all (\<lambda>d. ld_event d = e) ts) (numbered routed) tss \<and>
    mset dl + mset (in_flight (nd_fanout nd)) = mset (concat tss) \<and>
    (length (fo_workers (nd_fanout nd)) = 1 \<longrightarrow> dl @ in_flight (nd_fanout nd) = concat tss)"
proof -
  from node_start_inv [OF assms(1,2)] have "node_inv [] [] [] nd0" and ring: "bc_ring (nd_bus nd0) = ring" by auto
  from node_run_inv [OF this(1) assms(3)] ring obtain ps tss where
    "routed = bc_at (nd_bus nd) ps" "node_inv ps tss dl nd" "bc_ring (nd_bus nd) = ring" by auto
  then show ?thesis
    by (intro exI [of _ ps] exI [of _ tss]) (auto simp: node_inv_def bc_at_def bc_track_def track_ok_def gaps_lagged_def)
qed


subsection \<open>One event on its way\<close>

lemma fo_exec_effect:
  "fo_exec as s = Some (acc, dl, s') \<Longrightarrow> fo_inv s \<Longrightarrow>
   fo_inv s' \<and> mset dl + mset (in_flight s') = mset (in_flight s) + mset acc"
proof (induction as arbitrary: s acc dl)
  case (Cons a as)
  from Cons.prems(1) obtain ac1 d1 s1 ac2 d2 where a: "fo_act a s = Some (ac1, d1, s1)"
    and as: "fo_exec as s1 = Some (ac2, d2, s')" and eq: "acc = ac1 @ ac2" "dl = d1 @ d2"
    by (auto split: option.splits)
  note e = act_effect [OF a Cons.prems(2)]
  with Cons.IH [OF as] have "fo_inv s'" and "mset d2 + mset (in_flight s') = mset (in_flight s1) + mset ac2" by simp_all
  then have "mset dl + mset (in_flight s') = (mset d1 + mset (in_flight s1)) + mset ac2"
    by (simp add: eq)
  with e \<open>fo_inv s'\<close> show ?case by (simp add: eq)
qed simp

text \<open>Steps of the fan-out alone.\<close>

lemma node_run_fan:
  "list_all internal_action as \<Longrightarrow>
   node_run x msg (map NdFan as) nd =
     map_option (\<lambda>(_, dl, s). ([], dl, nd\<lparr>nd_fanout := s\<rparr>)) (fo_exec as (nd_fanout nd))"
proof (induction as arbitrary: nd)
  case (Cons a as)
  then have step: "node_step x msg (NdFan a) nd =
      map_option (\<lambda>(_, d, s). ([], d, nd\<lparr>nd_fanout := s\<rparr>)) (fo_act a (nd_fanout nd))"
    by (cases a) (simp_all add: internal_action_def)
  show ?case
  proof (cases "fo_act a (nd_fanout nd)")
    case (Some res)
    then obtain ac d s where "fo_act a (nd_fanout nd) = Some (ac, d, s)" by (cases res) auto
    moreover have "node_run x msg (map NdFan as) (nd\<lparr>nd_fanout := s\<rparr>) =
        map_option (\<lambda>(_, dl, s'). ([], dl, (nd\<lparr>nd_fanout := s\<rparr>)\<lparr>nd_fanout := s'\<rparr>)) (fo_exec as s)"
      using Cons.IH [of "nd\<lparr>nd_fanout := s\<rparr>"] Cons.prems by simp
    ultimately show ?thesis
      using step by (cases "fo_exec as s") (auto simp del: node_step.simps)
  qed (simp add: step del: node_step.simps)
qed simp

definition delivery :: "EventEnvelope \<Rightarrow> match \<Rightarrow> LocalDispatch" where
  "delivery event = (\<lambda>(conn_id, sub_id, _). \<lparr>ld_conn = conn_id, ld_sub = sub_id, ld_event = event\<rparr>)"

text \<open>An event published on a node that has caught up is the next one the router takes.\<close>

lemma published_next:
  assumes "bc_track i st ps b" and "bc_cursors b ! i = Some (length (bc_sent b))" and "0 < bc_ring b"
  shows "in_process_next_event i (snd (in_process_publish msg t event b)) =
    Some (Some event, bc_move i (Suc (length (bc_sent b))) (b\<lparr>bc_sent := bc_sent b @ [event]\<rparr>))"
proof -
  have i: "i < length (bc_cursors b)" using assms(1) by (simp add: bc_track_def)
  then have "has_receiver b" using assms(2) nth_mem [OF i] by (force simp: has_receiver_def list_ex_iff)
  then have "snd (in_process_publish msg t event b) = b\<lparr>bc_sent := bc_sent b @ [event]\<rparr>"
    by (simp add: in_process_publish_result)
  with i assms(2,3) show ?thesis by (simp add: next_event_spec bc_oldest_def Let_def)
qed

lemma publish_and_route:
  assumes inv: "node_inv ps tss dl nd" and ring: "0 < bc_ring (nd_bus nd)"
    and cursor: "bc_cursors (nd_bus nd) ! nd_subscriber nd = Some (length (bc_sent (nd_bus nd)))"
    and room: "length (ch_buf (fo_rx (nd_fanout nd))) < 65536"
    and reg: "rg_inv x (rt_registry (nd_router nd))" "fields_clean (rg_filter_index (rt_registry (nd_router nd)))"
      "\<forall>e. live (rt_registry (nd_router nd)) e \<longrightarrow> no_float_zero (sb_filter (se_subscription e)) \<and>
         prints_apart x event' (sb_filter (se_subscription e))"
      "\<not> cb_open (fi_breaker (rg_filter_index (rt_registry (nd_router nd))))"
    and ev: "event' = event\<lparr>ev_sequence := router_current_sequence (topic_str (ev_topic event)) (nd_router nd) + 1\<rparr>"
  obtains nd1 ms where "node_run x msg [NdPublish t event, NdRoute ck] nd = Some ([event], [], nd1)"
    and "mset ms = mset (lookup_matches x event' (rt_registry (nd_router nd)))"
    and "in_flight (nd_fanout nd1) = in_flight (nd_fanout nd) @ map (delivery event') ms" and "fo_inv (nd_fanout nd1)"
proof -
  let ?reg = "rt_registry (nd_router nd)"
  let ?r = "(nd_router nd)\<lparr>rt_dispatch_tx := fo_rx (nd_fanout nd)\<rparr>"
  have tr: "bc_track (nd_subscriber nd) 0 ps (nd_bus nd)" and open_rx: "rx_open (nd_fanout nd)"
    and fo: "fo_inv (nd_fanout nd)" using inv by (simp_all add: node_inv_def)
  note nxt = published_next [OF tr cursor ring, of msg t event]
  have "\<not> fst (fi_is_open ck (rg_filter_index ?reg))" using reg(4) closed_not_degraded by blast
  from lookups_agree [OF reg(1) fields_clean_index [OF reg(2)] exact_printing_live [OF reg(1,3)] this]
  obtain ms rg where ms: "lookup_matches_bitmap x ck event' ?reg = Some (ms, rg)"
    and eq: "mset ms = mset (lookup_matches x event' ?reg)" .
  have "event' = event\<lparr>ev_sequence := sequence_current (topic_str (ev_topic event)) (rt_sequence_gen ?r) + 1\<rparr>"
    using ev by (simp add: router_current_sequence_def)
  moreover have "rg_safe (rt_registry ?r)" using rg_inv_safe [OF reg(1)] by simp
  ultimately obtain ms' r' where rt: "route_event x ck event ?r = Some (length ms', r')"
    and ms': "map_option fst (lookup_matches_bitmap x ck event' (rt_registry ?r)) = Some ms'"
    and buf: "ch_buf (rt_dispatch_tx r') = ch_buf (rt_dispatch_tx ?r) @
       (if ms' \<noteq> [] \<and> batch_sent ?r (DispatchBatch event' (map match_key ms'))
        then [DispatchBatch event' (map match_key ms')] else [])"
    using route_event_effect [of ?r event' event x ck] by metis
  have [simp]: "ms' = ms" using ms ms' by simp
  have "batch_sent ?r m" for m
    using room open_rx by (simp add: batch_sent_def try_send_def rx_open_def)
  then have pend: "concat (map message_targets (ch_buf (rt_dispatch_tx r'))) =
      rx_pending (nd_fanout nd) @ map (delivery event') ms"
    using buf by (simp add: rx_pending_def message_targets_def delivery_def match_key_def split_beta o_def)
  define nd1 where "nd1 = nd\<lparr>nd_bus := bc_move (nd_subscriber nd) (Suc (length (bc_sent (nd_bus nd))))
      ((nd_bus nd)\<lparr>bc_sent := bc_sent (nd_bus nd) @ [event]\<rparr>),
    nd_router := r', nd_fanout := (nd_fanout nd)\<lparr>fo_rx := rt_dispatch_tx r'\<rparr>\<rparr>"
  have "node_run x msg [NdPublish t event, NdRoute ck] nd = Some ([event], [], nd1)"
    by (simp add: node_route_def nxt rt nd1_def)
  moreover have "in_flight (nd_fanout nd1) = in_flight (nd_fanout nd) @ map (delivery event') ms"
    using pend by (simp add: nd1_def in_flight_def held_pending_def rx_pending_def)
  moreover have "fo_inv (nd_fanout nd1)" using fo by (simp add: nd1_def fo_inv_def)
  ultimately show ?thesis using that eq by blast
qed

lemma fo_exec_internal: "fo_exec as s = Some (acc, dl, s') \<Longrightarrow> list_all internal_action as \<Longrightarrow> acc = []"
proof (induction as arbitrary: s acc dl)
  case (Cons a as)
  from Cons.prems(1) obtain ac1 d1 s1 ac2 d2 where a: "fo_act a s = Some (ac1, d1, s1)"
    and as: "fo_exec as s1 = Some (ac2, d2, s')" and acc: "acc = ac1 @ ac2"
    by (auto split: option.splits)
  have "\<And>m. a \<noteq> ASubmit m" using Cons.prems(2) by (auto simp: internal_action_def)
  with fo_act_no_submit [OF a] Cons.IH [OF as] Cons.prems(2) acc show ?case by simp
qed simp

lemma drained_deliveries:
  assumes inv: "fo_inv (nd_fanout nd)" and as: "list_all internal_action as"
    and run: "node_run x msg (map NdFan as) nd = Some ([], dl, nd2)"
    and stuck: "\<And>a. internal_action a \<Longrightarrow> fo_act a (nd_fanout nd2) = None"
  shows "mset dl = mset (in_flight (nd_fanout nd))"
proof -
  from run node_run_fan [OF as, of x msg nd] obtain acc s where ex: "fo_exec as (nd_fanout nd) = Some (acc, dl, s)"
    and nd2: "nd2 = nd\<lparr>nd_fanout := s\<rparr>" by auto
  from fo_exec_internal [OF ex as] have "acc = []" .
  with fo_exec_effect [OF ex inv] stuck_drained [of s] stuck show ?thesis
    by (auto simp: nd2)
qed

lemma drain_exists:
  assumes "fo_inv (nd_fanout nd)"
  shows "\<exists>as dl nd2. list_all internal_action as \<and> length as \<le> fo_work (nd_fanout nd) \<and>
       node_run x msg (map NdFan as) nd = Some ([], dl, nd2) \<and> mset dl = mset (in_flight (nd_fanout nd)) \<and>
       in_flight (nd_fanout nd2) = []"
proof -
  from drain_schedule [OF assms] obtain as dl s where "\<forall>a \<in> set as. internal_action a"
    "length as \<le> fo_work (nd_fanout nd)" "fo_exec as (nd_fanout nd) = Some ([], dl, s)" "in_flight s = []"
    "mset dl = mset (in_flight (nd_fanout nd))" by blast
  then show ?thesis
    using node_run_fan [of as x msg nd]
    by (intro exI [of _ as] exI [of _ dl] exI [of _ "nd\<lparr>nd_fanout := s\<rparr>"]) (simp add: list_all_iff)
qed

text \<open>
  C2: A published event reaches exactly the subscriptions it matches.  On a node that has run in any way,
  whose router has caught up with the bus and whose dispatch channel has room, with the circuit closed
  and a clean registry: publishing an event and one round of the router succeed, and then, however the
  fan-out proceeds, once it can do no more it has delivered what was under way before and one delivery
  of the event, with the next number of its topic, for each subscription the reference lookup finds, and
  nothing else; and a schedule of at most \<open>fo_work\<close> steps gets there.
\<close>

theorem node_delivers:
  assumes "node_start par ring m config = Some nd0" and "par \<noteq> Some 0" and "0 < ring"
    and "node_run x msg ops nd0 = Some (routed, dl, nd)"
    and "bc_cursors (nd_bus nd) ! nd_subscriber nd = Some (length (bc_sent (nd_bus nd)))"
    and "length (ch_buf (fo_rx (nd_fanout nd))) < 65536"
    and "reg = rt_registry (nd_router nd)" and "rg_inv x reg" and "fields_clean (rg_filter_index reg)"
    and "\<forall>e. live reg e \<longrightarrow> no_float_zero (sb_filter (se_subscription e)) \<and>
           prints_apart x event' (sb_filter (se_subscription e))"
    and "\<not> cb_open (fi_breaker (rg_filter_index reg))"
    and "event' = event\<lparr>ev_sequence := router_current_sequence (topic_str (ev_topic event)) (nd_router nd) + 1\<rparr>"
    and "targets = mset (in_flight (nd_fanout nd)) + image_mset (delivery event') (mset (lookup_matches x event' reg))"
  shows "\<exists>nd1. node_run x msg [NdPublish t event, NdRoute ck] nd = Some ([event], [], nd1) \<and>
    (\<forall>as dl' nd2. list_all internal_action as \<longrightarrow> node_run x msg (map NdFan as) nd1 = Some ([], dl', nd2) \<longrightarrow>
       (\<forall>a. internal_action a \<longrightarrow> fo_act a (nd_fanout nd2) = None) \<longrightarrow> mset dl' = targets) \<and>
    (\<exists>as dl' nd2. list_all internal_action as \<and> length as \<le> fo_work (nd_fanout nd1) \<and>
       node_run x msg (map NdFan as) nd1 = Some ([], dl', nd2) \<and> mset dl' = targets \<and>
       in_flight (nd_fanout nd2) = [])"
proof -
  from node_start_inv [OF assms(1,2)] have "node_inv [] [] [] nd0" and "bc_ring (nd_bus nd0) = ring" by auto
  from node_run_inv [OF this(1) assms(4)] this(2) obtain ps tss where
    inv: "node_inv ps tss dl nd" and "0 < bc_ring (nd_bus nd)" using assms(3) by auto
  from publish_and_route [OF this assms(5,6) assms(8-11) [unfolded assms(7)] assms(12)] obtain nd1 ms where
    run: "node_run x msg [NdPublish t event, NdRoute ck] nd = Some ([event], [], nd1)"
    and ms: "mset ms = mset (lookup_matches x event' (rt_registry (nd_router nd)))"
    and fl: "in_flight (nd_fanout nd1) = in_flight (nd_fanout nd) @ map (delivery event') ms" and fo: "fo_inv (nd_fanout nd1)"
    by metis
  have t: "mset (in_flight (nd_fanout nd1)) = targets"
    by (simp add: fl assms(13) assms(7) ms [symmetric])
  show ?thesis
  proof (intro exI [of _ nd1] conjI allI impI)
    show "mset dl' = targets" if "list_all internal_action as" "node_run x msg (map NdFan as) nd1 = Some ([], dl', nd2)"
      "\<forall>a. internal_action a \<longrightarrow> fo_act a (nd_fanout nd2) = None" for as dl' nd2
      using drained_deliveries [OF fo that(1,2)] that(3) t by blast
  qed (use run drain_exists [OF fo, of x msg, unfolded t] in simp_all)
qed


subsection \<open>A concrete node\<close>

definition demo_node :: Node where
  "demo_node = the (node_start (Some 1) 4 metrics_default (server_config_default (Some 1)))"

definition demo_node_subs :: "node_op list" where
  "demo_node_subs = map (\<lambda>sub. NdSubscribe sub None) demo_subs"

lemma demo_node_started: "node_start (Some 1) 4 metrics_default (server_config_default (Some 1)) = Some demo_node"
proof -
  have "node_start (Some 1) 4 metrics_default (server_config_default (Some 1)) \<noteq> None"
    by (simp add: node_start_def build_event_bus_def server_config_default_def event_bus_default_def
        in_process_bus_new_def build_core_def Let_def split_beta)
  then show ?thesis by (auto simp: demo_node_def)
qed

lemma demo_node_sel:
  "rt_registry (nd_router demo_node) = registry_with_limits limits_default"
  "rt_sequence_gen (nd_router demo_node) = sequence_new"
  "fo_rx (nd_fanout demo_node) = channel_new 65536"
  "bc_cursors (nd_bus demo_node) ! nd_subscriber demo_node = Some (length (bc_sent (nd_bus demo_node)))"
  by (simp_all add: demo_node_def node_start_def build_event_bus_def server_config_default_def event_bus_default_def
      in_process_bus_new_def build_core_def build_fanout_def wire_router_def router_new_def
      in_process_subscriber_def fanout_start_def Let_def split_beta)

lemma node_run_subscribe:
  "subscribe_all x subs (rt_registry (nd_router nd)) = Some r' \<Longrightarrow>
   node_run x msg (map (\<lambda>sub. NdSubscribe sub None) subs) nd = Some ([], [], node_registry r' nd)"
proof (induction subs arbitrary: nd)
  case Nil
  then show ?case by (simp add: node_registry_def)
next
  case (Cons sub subs)
  from Cons.prems obtain r1 u where s: "subscribe x sub None (rt_registry (nd_router nd)) = Some (r1, Inr u)"
    and rest: "subscribe_all x subs r1 = Some r'" by (auto split: option.splits prod.splits sum.splits)
  from rest have "subscribe_all x subs (rt_registry (nd_router (node_registry r1 nd))) = Some r'"
    by (simp add: node_registry_def)
  from Cons.IH [OF this] s show ?case by (simp add: node_registry_def)
qed

lemma demo_node_subscribed:
  "node_run demo_ext msg demo_node_subs demo_node = Some ([], [], node_registry (demo_reg demo_subs) demo_node)"
  unfolding demo_node_subs_def
  by (rule node_run_subscribe) (simp add: demo_node_sel demo_subs_accepted)

lemma node_run_append:
  "node_run x msg ops nd = Some (r, d, nd1) \<Longrightarrow> node_run x msg ops' nd1 = Some (r', d', nd2) \<Longrightarrow>
   node_run x msg (ops @ ops') nd = Some (r @ r', d @ d', nd2)"
  by (induction ops arbitrary: nd r d) (auto split: option.splits prod.splits)

lemma demo_node_wants:
  "\<forall>e. live (demo_reg demo_subs) e \<longrightarrow> no_float_zero (sb_filter (se_subscription e)) \<and>
     prints_apart demo_ext ((demo_event ''a/b'' ''n42'')\<lparr>ev_sequence := 1\<rparr>) (sb_filter (se_subscription e))"
  by (auto simp: demo_live demo_sub_def no_float_zero_def prints_apart_def not_float_zero_def
      event_getter_def eval_types demo_event_def demo_ext_def)

lemma demo_reg_closed: "\<not> cb_open (fi_breaker (rg_filter_index (demo_reg demo_subs)))"
  by (simp add: eval_all demo_subs_def)

lemma demo_node_number:
  "(demo_event ''a/b'' ''n42'')\<lparr>ev_sequence := 1\<rparr> = (demo_event ''a/b'' ''n42'')
     \<lparr>ev_sequence := router_current_sequence (topic_str (ev_topic (demo_event ''a/b'' ''n42'')))
        (nd_router (node_registry (demo_reg demo_subs) demo_node)) + 1\<rparr>"
  by (simp add: router_current_sequence_def node_registry_def demo_node_sel seq.cur_init)

theorem node_delivers_witness:
  "\<exists>nd1 as dl nd2.
     node_run demo_ext ''closed'' [NdPublish ''a/b'' (demo_event ''a/b'' ''n42''), NdRoute demo_clock]
       (node_registry (demo_reg demo_subs) demo_node) = Some ([demo_event ''a/b'' ''n42''], [], nd1) \<and>
     node_run demo_ext ''closed'' (map NdFan as) nd1 = Some ([], dl, nd2) \<and> length dl = 2"
proof -
  let ?nd = "node_registry (demo_reg demo_subs) demo_node" and ?e = "demo_event ''a/b'' ''n42''"
  have sel: "nd_bus ?nd = nd_bus demo_node" "nd_subscriber ?nd = nd_subscriber demo_node"
    "nd_fanout ?nd = nd_fanout demo_node" "demo_reg demo_subs = rt_registry (nd_router ?nd)"
    by (simp_all add: node_registry_def)
  define targets where "targets = mset (in_flight (nd_fanout ?nd)) + image_mset (delivery (?e\<lparr>ev_sequence := 1\<rparr>))
      (mset (lookup_matches demo_ext (?e\<lparr>ev_sequence := 1\<rparr>) (demo_reg demo_subs)))"
  have "in_flight (nd_fanout ?nd) = []"
    using node_start_inv [OF demo_node_started] by (simp add: sel(1-3) node_inv_def)
  moreover have "length (lookup_matches demo_ext (?e\<lparr>ev_sequence := 1\<rparr>) (demo_reg demo_subs)) = 2"
    by (simp add: eval_all demo_subs_def)
  ultimately have two: "size targets = 2" by (simp add: targets_def)
  have room: "length (ch_buf (fo_rx (nd_fanout ?nd))) < 65536"
    by (simp add: sel(1-3) demo_node_sel channel_new_def)
  have cursor: "bc_cursors (nd_bus ?nd) ! nd_subscriber ?nd = Some (length (bc_sent (nd_bus ?nd)))"
    by (simp add: sel(1,2) demo_node_sel)
  have inv: "rg_inv demo_ext (demo_reg demo_subs)" "fields_clean (rg_filter_index (demo_reg demo_subs))"
    using demo_reg_inv by blast+
  have "Some 1 \<noteq> Some (0::nat)" "0 < (4::nat)" by simp_all
  from node_delivers [OF demo_node_started this demo_node_subscribed cursor room sel(4) inv demo_node_wants
      demo_reg_closed demo_node_number targets_def, of "''closed''" "''a/b''" demo_clock]
  obtain nd1 as dl nd2 where "node_run demo_ext ''closed'' [NdPublish ''a/b'' ?e, NdRoute demo_clock] ?nd = Some ([?e], [], nd1)"
    and "node_run demo_ext ''closed'' (map NdFan as) nd1 = Some ([], dl, nd2)" and "mset dl = targets" by blast
  moreover from this(3) two have "length dl = 2" by (metis size_mset)
  ultimately show ?thesis by blast
qed

text \<open>The run of that witness from the start of the node.\<close>

lemma demo_node_routed:
  "\<exists>nd. node_run demo_ext ''closed''
     (demo_node_subs @ [NdPublish ''a/b'' (demo_event ''a/b'' ''n42''), NdRoute demo_clock]) demo_node =
     Some ([demo_event ''a/b'' ''n42''], [], nd)"
proof -
  let ?nd = "node_registry (demo_reg demo_subs) demo_node"
  have sel: "nd_bus ?nd = nd_bus demo_node" "nd_subscriber ?nd = nd_subscriber demo_node"
    "nd_fanout ?nd = nd_fanout demo_node" "rt_registry (nd_router ?nd) = demo_reg demo_subs"
    by (simp_all add: node_registry_def)
  have "rg_safe (demo_reg demo_subs)" using demo_reg_inv rg_inv_safe by blast
  with node_start_inv [OF demo_node_started] have inv: "node_inv [] [] [] ?nd" and "0 < bc_ring (nd_bus ?nd)"
    by (simp_all add: node_inv_registry sel)
  from publish_and_route [OF this, of demo_ext _ "demo_event ''a/b'' ''n42''", unfolded sel, OF _ _ _ _ demo_node_wants
      demo_reg_closed demo_node_number [unfolded sel], of "''closed''" "''a/b''" demo_clock] demo_reg_inv
  obtain nd1 where "node_run demo_ext ''closed'' [NdPublish ''a/b'' (demo_event ''a/b'' ''n42''), NdRoute demo_clock] ?nd =
      Some ([demo_event ''a/b'' ''n42''], [], nd1)"
    by (metis demo_node_sel(3,4) channel_new_def channel.select_convs(2) list.size(3) zero_less_numeral)
  from node_run_append [OF demo_node_subscribed this] show ?thesis by auto
qed

theorem node_in_order_witness:
  "\<exists>nd ps. node_run demo_ext ''closed''
     (demo_node_subs @ [NdPublish ''a/b'' (demo_event ''a/b'' ''n42''), NdRoute demo_clock]) demo_node =
       Some ([demo_event ''a/b'' ''n42''], [], nd) \<and>
     [demo_event ''a/b'' ''n42''] = map (\<lambda>p. bc_sent (nd_bus nd) ! p) ps \<and> sorted_wrt (<) ps"
proof -
  from demo_node_routed obtain nd where run: "node_run demo_ext ''closed''
     (demo_node_subs @ [NdPublish ''a/b'' (demo_event ''a/b'' ''n42''), NdRoute demo_clock]) demo_node =
       Some ([demo_event ''a/b'' ''n42''], [], nd)" ..
  have "Some 1 \<noteq> Some (0::nat)" by simp
  from node_in_order [OF demo_node_started this run] obtain ps where
    "[demo_event ''a/b'' ''n42''] = map (\<lambda>p. bc_sent (nd_bus nd) ! p) ps" and "sorted_wrt (<) ps" by (elim exE conjE)
  with run show ?thesis by (intro exI [of _ nd] exI [of _ ps] conjI)
qed

end
