(* ===== verification/Rt_Session_Safe.thy ===== *)
theory Rt_Session_Safe
  imports Rt_Session
begin

text \<open>
  What one session can and cannot do to the shared state.  \<open>routes_to\<close> says that the registry, by its
  entries or by a slot of its filter index, can deliver events of a pattern to a connection.  Lemmas:
  every handler adds only deliveries the provider authorized for a token presented in the session, the
  batch handler acts on the registry as the single one, and cleanup leaves nothing behind.
\<close>

subsection \<open>Deliveries the registry can make\<close>

definition routes_to :: "SubscriptionRegistry \<Rightarrow> ConnectionId \<Rightarrow> TopicPattern \<Rightarrow> bool" where
  "routes_to r c p =
     ((\<exists>e. live r e \<and> sb_conn (se_subscription e) = c \<and> sb_topic (se_subscription e) = p) \<or>
      (\<exists>d. Some d \<in> set (fi_slots (rg_filter_index r)) \<and> ds_conn d = c \<and> ds_topic d = p))"

lemma slab_alloc_values:
  "slab_alloc v s = Some (i, s') \<Longrightarrow> set (fst s') \<subseteq> insert (Some v) (set (fst s))"
  by (cases s) (auto simp: slab_alloc_def Let_def split: if_splits dest!: set_update_subset_insert [THEN subsetD])

lemma slab_free_values: "Some d \<in> set (fst (slab_free i s)) \<Longrightarrow> Some d \<in> set (fst s)"
  by (cases s) (auto simp: slab_free_def Let_def split: if_splits dest!: set_update_subset_insert [THEN subsetD])

lemma check_limits_slots: "check_limits k sub fi = (fi', res) \<Longrightarrow> fi_slots fi' = fi_slots fi"
  by (auto simp: check_limits_def reject_capacity_def fi_map_stats_def Let_def split: if_splits option.splits)

lemma add_subscription_slots:
  assumes "add_subscription x sub node fi = Some (fi', res)"
  shows "set (fi_slots fi') \<subseteq> insert (Some (dispatch_slot_of sub node)) (set (fi_slots fi))"
proof -
  obtain fi1 lim where lim: "check_limits (pattern_str (sb_topic sub)) sub fi = (fi1, lim)" by fastforce
  then have s1: "fi_slots fi1 = fi_slots fi" by (rule check_limits_slots)
  show ?thesis
  proof (cases lim)
    case (Inl e)
    with assms lim s1 show ?thesis by (auto simp: add_subscription_def)
  next
    case (Inr u)
    with assms lim obtain i slots free where
      a: "slab_alloc (dispatch_slot_of sub node) (fi_slots fi1, fi_free fi1) = Some (i, (slots, free))"
      and s: "fi_slots fi' = slots"
      by (auto simp: add_subscription_def alloc_slot_def bind_eq_Some_conv Let_def split_beta fi_map_stats_def
          split: option.splits)
    from slab_alloc_values [OF a] show ?thesis by (simp add: s s1)
  qed
qed

lemma subscribe_routes:
  assumes "subscribe x sub node r = Some (r', res)" and "routes_to r' c p"
  shows "routes_to r c p \<or> (c = sb_conn sub \<and> p = sb_topic sub)"
proof -
  let ?lim = "fi_limits (rg_filter_index r)"
  show ?thesis
  proof (cases "check_subscription_guards r (sb_conn sub) (max_subscriptions_per_connection ?lim) (max_total_subscriptions ?lim)")
    case (Inl e)
    with assms show ?thesis by (auto simp: subscribe_def Let_def)
  next
    case (Inr u)
    with assms(1) obtain fi res1 where add: "add_subscription x sub node (rg_filter_index r) = Some (fi, res1)"
      and r': "r' = (case res1 of Inl e \<Rightarrow> r\<lparr>rg_filter_index := fi\<rparr>
        | Inr _ \<Rightarrow> registry_insert sub node (r\<lparr>rg_filter_index := fi\<rparr>))"
      by (auto simp: subscribe_def Let_def bind_eq_Some_conv split: sum.splits)
    have slot: "ds_conn (dispatch_slot_of sub node) = sb_conn sub" "ds_topic (dispatch_slot_of sub node) = sb_topic sub"
      by (simp_all add: dispatch_slot_of_def)
    have fi: "Some d \<in> set (fi_slots (rg_filter_index r)) \<or> d = dispatch_slot_of sub node"
      if "Some d \<in> set (fi_slots fi)" for d
      using add_subscription_slots [OF add] that by auto
    show ?thesis
    proof (cases res1)
      case (Inl e)
      then show ?thesis
        using assms(2) fi slot by (fastforce simp: r' routes_to_def live_def)
    next
      case (Inr u)
      have "live r e \<or> se_subscription e = sub" if "live r' e" for e
        using that by (auto simp: r' Inr live_def registry_insert_def Let_def split: if_splits)
      moreover have "fi_slots (rg_filter_index r') = fi_slots fi"
        by (simp add: r' Inr registry_insert_def Let_def)
      ultimately show ?thesis
        using assms(2) fi slot unfolding routes_to_def by metis
    qed
  qed
qed

lemma remove_subscription_slots:
  "Some d \<in> set (fi_slots (remove_subscription sub fi)) \<Longrightarrow> Some d \<in> set (fi_slots fi)"
proof -
  assume d: "Some d \<in> set (fi_slots (remove_subscription sub fi))"
  have keys: "fi_slots (remove_keys i ks fi) = fi_slots fi" for i ks fi by simp
  show ?thesis
    using d slab_free_values
    by (auto simp: remove_subscription_def Let_def free_slot_def split_beta fi_map_stats_def split: option.splits)
qed

lemma unsubscribe_routes: "routes_to (fst (unsubscribe c s r)) c' p \<Longrightarrow> routes_to r c' p"
  by (auto simp: routes_to_def unsubscribe_def live_def Let_def split: option.splits if_splits
      dest!: remove_subscription_slots)

lemma remove_entry_routes: "routes_to (remove_entry c e r) c' p \<Longrightarrow> routes_to r c' p"
  by (auto simp: routes_to_def remove_entry_def live_def Let_def split: option.splits if_splits
      dest!: remove_subscription_slots)

lemma remove_connection_routes: "routes_to (registry_remove_connection c r) c' p \<Longrightarrow> routes_to r c' p"
proof -
  have fold: "routes_to (fold (remove_entry c) es r) c' p \<Longrightarrow> routes_to r c' p" for es r
    by (induction es arbitrary: r) (auto dest: remove_entry_routes)
  have "routes_to (r\<lparr>rg_by_connection := m\<rparr>) c' p = routes_to r c' p" for m
    by (simp add: routes_to_def live_def)
  then show "routes_to (registry_remove_connection c r) c' p \<Longrightarrow> routes_to r c' p"
    using fold by (auto simp: registry_remove_connection_def split: option.splits)
qed

subsection \<open>The batch door\<close>

text \<open>The items of a batch, sent as separate \<open>SUBSCRIBE\<close> messages.\<close>

fun subscribe_each ::
    "'r App \<Rightarrow> SubscribeItem list \<Rightarrow> ConnectionId \<Rightarrow> AuthState \<Rightarrow> 'r World \<Rightarrow> 'r World option" where
  "subscribe_each app [] conn_id auth w = Some w"
| "subscribe_each app (item # items) conn_id auth w =
     Option.bind (handle_subscribe app (si_sub_id item) (si_topic item) (si_filter item) (si_options item) conn_id auth w)
       (\<lambda>(_, w). subscribe_each app items conn_id auth w)"

definition no_ctrl :: "'r World \<Rightarrow> 'r World" where
  "no_ctrl w = w\<lparr>w_ctrl := []\<rparr>"

lemma no_ctrl_send [simp]: "no_ctrl (send_ctrl m w) = no_ctrl w"
  by (simp add: no_ctrl_def send_ctrl_def)

lemma no_ctrl_registry: "no_ctrl v = no_ctrl w \<Longrightarrow> w_registry v = w_registry w \<and> no_ctrl (v\<lparr>w_registry := r\<rparr>) = no_ctrl (w\<lparr>w_registry := r\<rparr>)"
  by (cases v; cases w) (simp add: no_ctrl_def)

lemma subscribe_items_each:
  "as_authenticated auth \<Longrightarrow> no_ctrl v = no_ctrl w \<Longrightarrow>
   map_option no_ctrl (subscribe_items app items c auth v) = map_option no_ctrl (subscribe_each app items c auth w)"
proof (induction items arbitrary: v w)
  case (Cons item items)
  let ?p = "pattern_parse (si_topic item)"
  let ?sub = "make_subscription app (si_sub_id item) c ?p (si_filter item) (si_options item)"
  have reg: "w_registry v = w_registry w" "\<And>r. no_ctrl (v\<lparr>w_registry := r\<rparr>) = no_ctrl (w\<lparr>w_registry := r\<rparr>)"
    using no_ctrl_registry [OF Cons.prems(2)] by auto
  show ?case
  proof (cases "subscribe_denied app auth ?p")
    case True
    with Cons.prems Cons.IH [of "send_ctrl m v" w for m] show ?thesis
      by (simp add: handle_subscribe_def Let_def)
  next
    case False
    show ?thesis
    proof (cases "subscribe (fm_ext (app_format app)) ?sub None (w_registry w)")
      case None
      with False Cons.prems reg show ?thesis by (simp add: handle_subscribe_def Let_def)
    next
      case (Some rr)
      obtain r res where rr: "rr = (r, res)" by fastforce
      have "no_ctrl (send_ctrl m (v\<lparr>w_registry := r\<rparr>)) = no_ctrl (send_ctrl m' (w\<lparr>w_registry := r\<rparr>))" for m m'
        using reg(2) by simp
      note IH = Cons.IH [OF Cons.prems(1) this]
      show ?thesis
        using False Some Cons.prems(1) reg(1) IH
        by (cases res) (simp_all add: handle_subscribe_def Let_def rr)
    qed
  qed
qed simp

lemma batch_registry:
  "map_option (no_ctrl \<circ> snd) (handle_subscribe_batch app items c auth w) =
     map_option no_ctrl (subscribe_each app items c auth w)"
proof (cases "as_authenticated auth")
  case True
  with subscribe_items_each [OF True refl, of app items c w] show ?thesis
    by (simp add: handle_subscribe_batch_def option.map_comp comp_def)
next
  case False
  then have "subscribe_each app items c auth w = Some w"
    by (induction items) (simp_all add: handle_subscribe_def)
  with False show ?thesis by (simp add: handle_subscribe_batch_def)
qed

text \<open>
  C10: The batch door is no wider than the single one.  A \<open>SUBSCRIBE_BATCH\<close> leaves everything but the
  control frames, the registry with its filter index above all, exactly as its items sent one by one as
  \<open>SUBSCRIBE\<close> messages would, whether they are accepted, denied by the provider or refused by a limit.
\<close>

theorem batch_equals_singles:
  "map_option (no_ctrl \<circ> snd) (handle_subscribe_batch app items c auth w) =
     map_option no_ctrl (subscribe_each app items c auth w)"
  by (rule batch_registry)

subsection \<open>What a session may do\<close>

text \<open>The claims the provider gave for the tokens presented, and what they allow.\<close>

definition verified :: "'r App \<Rightarrow> string set \<Rightarrow> AuthClaims \<Rightarrow> bool" where
  "verified app T cl = (\<exists>tok \<in> T. au_verify (app_auth app) tok ws_auth_context = Inr cl)"

definition may_subscribe :: "'r App \<Rightarrow> string set \<Rightarrow> TopicPattern \<Rightarrow> bool" where
  "may_subscribe app T p = (\<exists>cl. verified app T cl \<and> au_subscribe (app_auth app) cl p = Inr ())"

definition may_publish :: "'r App \<Rightarrow> string set \<Rightarrow> string \<Rightarrow> bool" where
  "may_publish app T t = (\<exists>cl. verified app T cl \<and> au_publish (app_auth app) cl (TopicPath t) = Inr ())"

definition may_send :: "'r App \<Rightarrow> string set \<Rightarrow> string \<times> EventEnvelope \<Rightarrow> bool" where
  "may_send app T = (\<lambda>(t, ev). ev_topic ev = TopicPath t \<and> may_publish app T t \<and>
     (ev_type ev \<noteq> ''presence'' \<longrightarrow> length (ev_payload ev) \<le> MAX_WS_PAYLOAD_BYTES) \<and>
     (\<exists>cl src. verified app T cl \<and> ev_source ev = Some src \<and> src_id src = ac_sub cl))"

definition auth_ok :: "'r App \<Rightarrow> string set \<Rightarrow> AuthState \<Rightarrow> bool" where
  "auth_ok app T auth = (if as_authenticated auth then (\<exists>cl. as_claims auth = Some cl \<and> verified app T cl)
     else as_claims auth = None)"

text \<open>The state of a session of connection \<open>c\<close>, relative to the world it started in.\<close>

definition sess_ok :: "'r App \<Rightarrow> string set \<Rightarrow> ConnectionId \<Rightarrow> 'r World \<Rightarrow> 'r World \<Rightarrow> AuthState \<Rightarrow> bool" where
  "sess_ok app T c w0 w auth =
     (auth_ok app T auth \<and>
      (\<forall>c' p. routes_to (w_registry w) c' p \<longrightarrow>
         routes_to (w_registry w0) c' p \<or> (c' = c \<and> may_subscribe app T p)) \<and>
      (\<exists>new. w_published w = w_published w0 @ new \<and> (\<forall>m \<in> set new. may_send app T m)) \<and>
      presence_inv (w_presence w) \<and>
      (\<forall>t i. i \<noteq> conn_raw c \<longrightarrow> presence_at (w_presence w) t i = presence_at (w_presence w0) t i) \<and>
      (\<forall>t. presence_at (w_presence w) t (conn_raw c) \<noteq> None \<longrightarrow> as_authenticated auth \<and> may_publish app T t))"

lemma sess_ok_ctrl [simp]: "sess_ok app T c w0 (send_ctrl m w) auth = sess_ok app T c w0 w auth"
  by (simp add: sess_ok_def send_ctrl_def)

lemma sess_ok_redis [simp]: "sess_ok app T c w0 (w\<lparr>w_redis := r\<rparr>) auth = sess_ok app T c w0 w auth"
  by (simp add: sess_ok_def)

lemma sess_ok_start:
  assumes "presence_inv (w_presence w)" and "\<forall>t. presence_at (w_presence w) t (conn_raw c) = None"
  shows "sess_ok app T c w w auth_state_default"
  using assms by (simp add: sess_ok_def auth_ok_def auth_state_default_def)

lemma sess_ok_registry:
  assumes "sess_ok app T c w0 w auth"
    and "\<And>c' p. routes_to r c' p \<Longrightarrow> routes_to (w_registry w) c' p \<or> (c' = c \<and> may_subscribe app T p)"
  shows "sess_ok app T c w0 (w\<lparr>w_registry := r\<rparr>) auth"
  using assms unfolding sess_ok_def by (simp; blast)

lemma subscribe_allowed:
  "auth_ok app T auth \<Longrightarrow> as_authenticated auth \<Longrightarrow> \<not> subscribe_denied app auth p \<Longrightarrow> may_subscribe app T p"
  by (auto simp: auth_ok_def subscribe_denied_def may_subscribe_def split: option.splits sum.splits)

lemma publish_allowed:
  "auth_ok app T auth \<Longrightarrow> authorize_publish_topic app auth t \<Longrightarrow>
   as_authenticated auth \<and> may_publish app T t \<and> (\<exists>cl. as_claims auth = Some cl \<and> verified app T cl)"
  by (auto simp: auth_ok_def authorize_publish_topic_def may_publish_def topic_new_def
      split: option.splits sum.splits if_splits)

lemma sess_ok_subscribe:
  assumes ok: "sess_ok app T c w0 w auth" and auth: "as_authenticated auth"
    and nd: "\<not> subscribe_denied app auth p"
    and sub: "subscribe x (make_subscription app s c p f opts) None (w_registry w) = Some (r, res)"
  shows "sess_ok app T c w0 (w\<lparr>w_registry := r\<rparr>) auth"
proof (rule sess_ok_registry [OF ok])
  fix c' q assume "routes_to r c' q"
  from subscribe_routes [OF sub this] show "routes_to (w_registry w) c' q \<or> (c' = c \<and> may_subscribe app T q)"
    using subscribe_allowed [OF _ auth nd] ok by (auto simp: make_subscription_def sess_ok_def)
qed

lemma sess_ok_handle_subscribe:
  assumes "sess_ok app T c w0 w auth"
    and "handle_subscribe app s t f opts c auth w = Some (act, w')"
  shows "sess_ok app T c w0 w' auth"
  using assms sess_ok_subscribe [OF assms(1)]
  by (auto simp: handle_subscribe_def Let_def bind_eq_Some_conv split: if_splits sum.splits)

lemma sess_ok_each:
  "sess_ok app T c w0 w auth \<Longrightarrow> subscribe_each app items c auth w = Some w' \<Longrightarrow> sess_ok app T c w0 w' auth"
  by (induction items arbitrary: w) (auto simp: bind_eq_Some_conv dest: sess_ok_handle_subscribe)

lemma sess_ok_no_ctrl: "no_ctrl v = no_ctrl w \<Longrightarrow> sess_ok app T c w0 v auth = sess_ok app T c w0 w auth"
  by (cases v; cases w) (simp add: no_ctrl_def sess_ok_def)

lemma sess_ok_batch:
  assumes "sess_ok app T c w0 w auth"
    and "handle_subscribe_batch app items c auth w = Some (act, w')"
  shows "sess_ok app T c w0 w' auth"
proof -
  have "map_option no_ctrl (subscribe_each app items c auth w) = Some (no_ctrl w')"
    using batch_registry [of app items c auth w] assms(2) by simp
  then obtain v where "subscribe_each app items c auth w = Some v" and "no_ctrl v = no_ctrl w'" by auto
  with sess_ok_each [OF assms(1)] sess_ok_no_ctrl show ?thesis by blast
qed

lemma sess_ok_unsubscribe:
  "sess_ok app T c w0 w auth \<Longrightarrow> sess_ok app T c w0 (snd (handle_unsubscribe s c w)) auth"
  by (auto simp: handle_unsubscribe_def Let_def intro: sess_ok_registry dest: unsubscribe_routes)

lemma sess_ok_publish_envelope:
  assumes ok: "sess_ok app T c w0 w auth" and cl: "as_claims auth = Some cl" "verified app T cl"
    and "may_publish app T t"
    and "ty \<noteq> ''presence'' \<longrightarrow> length bs \<le> MAX_WS_PAYLOAD_BYTES"
  shows "sess_ok app T c w0 (publish_envelope tk t ty bs auth w) auth"
proof -
  let ?ev = "(envelope_new (tk_uuid tk) (tk_now tk) (TopicPath t) ty bs)\<lparr>ev_source := api_source auth\<rparr>"
  have "may_send app T (t, ?ev)"
    using assms by (auto simp: may_send_def api_source_def Let_def)
  moreover have "publish_envelope tk t ty bs auth w = w\<lparr>w_published := w_published w @ [(t, ?ev)]\<rparr>"
    by (simp add: publish_envelope_def bus_publish_def topic_new_def Let_def)
  moreover obtain new where "w_published w = w_published w0 @ new" "\<forall>m \<in> set new. may_send app T m"
    using ok by (auto simp: sess_ok_def)
  ultimately show ?thesis
    using ok by (auto simp: sess_ok_def intro!: exI [of _ "new @ [(t, ?ev)]"])
qed

lemma sess_ok_publish:
  assumes ok: "sess_ok app T c w0 w auth"
  shows "sess_ok app T c w0 (snd (handle_publish app tk t ty payload auth w)) auth"
    and "sess_ok app T c w0 (snd (handle_broadcast app tk t label payload auth w)) auth"
proof -
  have a: "auth_ok app T auth" using ok by (simp add: sess_ok_def)
  show "sess_ok app T c w0 (snd (handle_publish app tk t ty payload auth w)) auth"
    using ok publish_allowed [OF a, of t] sess_ok_publish_envelope [OF ok]
    by (auto simp: handle_publish_def split: option.split)
  show "sess_ok app T c w0 (snd (handle_broadcast app tk t label payload auth w)) auth"
    using ok publish_allowed [OF a, of t] sess_ok_publish_envelope [OF ok]
    by (auto simp: handle_broadcast_def Let_def split: option.split)
qed

lemma sess_ok_publish_presence:
  assumes "sess_ok app T c w0 w auth" and "as_claims auth = Some cl" "verified app T cl" and "may_publish app T t"
  shows "sess_ok app T c w0 (publish_presence app tk t ms auth w) auth"
  using assms by (auto simp: publish_presence_def split: option.split intro: sess_ok_publish_envelope)

lemma sess_ok_track:
  assumes ok: "sess_ok app T c w0 w auth"
  shows "sess_ok app T c w0 (snd (handle_track app tk t meta c auth w)) auth"
proof (cases "authorize_publish_topic app auth t")
  case True
  have a: "auth_ok app T auth" and pinv: "presence_inv (w_presence w)" using ok by (simp_all add: sess_ok_def)
  from publish_allowed [OF a True] obtain cl where pub: "as_authenticated auth" "may_publish app T t"
    and cl: "as_claims auth = Some cl" "verified app T cl" by auto
  let ?m = "\<lparr>pm_conn_id = show_conn_id c, pm_user_id = map_option ac_sub (as_claims auth), pm_meta = meta\<rparr>"
  let ?w1 = "case app_shared app of None \<Rightarrow> w
    | Some (R, mc, sp) \<Rightarrow> w\<lparr>w_redis := shared_track R mc sp t ?m (w_redis w)\<rparr>"
  have w1: "sess_ok app T c w0 ?w1 auth" "w_presence ?w1 = w_presence w"
    using ok by (auto split: option.split)
  obtain ci where c: "c = ConnectionId ci" by (cases c)
  let ?p = "snd (presence_track t c ?m (w_presence w))"
  have "presence_inv ?p" unfolding c by (rule local.track_inv [OF pinv])
  moreover have "presence_at ?p t' i = (if t' = t \<and> i = ci then Some ?m else presence_at (w_presence w) t' i)" for t' i
    unfolding c by (rule local.track_at [OF pinv])
  ultimately have "sess_ok app T c w0 (?w1\<lparr>w_presence := ?p\<rparr>) auth"
    using w1 pub unfolding sess_ok_def by (simp add: c)
  from sess_ok_publish_presence [OF this cl pub(2)] ok w1(2) True show ?thesis
    by (simp add: handle_track_def Let_def split_beta split: option.split)
qed (use ok in \<open>simp add: handle_track_def\<close>)

lemma sess_ok_untrack:
  assumes ok: "sess_ok app T c w0 w auth"
  shows "sess_ok app T c w0 (snd (handle_untrack app tk t c auth w)) auth"
proof -
  have a: "auth_ok app T auth" and pinv: "presence_inv (w_presence w)" using ok by (simp_all add: sess_ok_def)
  let ?w1 = "case app_shared app of None \<Rightarrow> w
    | Some (R, _, sp) \<Rightarrow> w\<lparr>w_redis := shared_untrack R sp t (show_conn_id c) (w_redis w)\<rparr>"
  have w1: "sess_ok app T c w0 ?w1 auth" "w_presence ?w1 = w_presence w"
    using ok by (auto split: option.split)
  obtain ci where c: "c = ConnectionId ci" by (cases c)
  let ?p = "snd (presence_untrack t c (w_presence w))"
  have "presence_inv ?p" unfolding c by (rule local.untrack_inv [OF pinv])
  moreover have at: "presence_at ?p t' i = (if t' = t \<and> i = ci then None else presence_at (w_presence w) t' i)" for t' i
    unfolding c by (rule local.untrack_at [OF pinv])
  ultimately have w2: "sess_ok app T c w0 (?w1\<lparr>w_presence := ?p\<rparr>) auth"
    using w1 unfolding sess_ok_def by (simp add: c)
  have "may_publish app T t \<and> (\<exists>cl. as_claims auth = Some cl \<and> verified app T cl)"
    if "fst (presence_untrack t c (w_presence w)) = Some ms" for ms
  proof -
    have "presence_at (w_presence w) t ci \<noteq> None"
      using that by (auto simp: c presence_untrack_def presence_at_def dm_contains_def Let_def split: option.splits if_splits)
    with ok a show ?thesis by (auto simp: sess_ok_def c auth_ok_def)
  qed
  with sess_ok_publish_presence [OF w2] w2 w1(2) show ?thesis
    by (auto simp: handle_untrack_def Let_def split_beta split: option.split)
qed

lemma sess_ok_change_auth:
  "sess_ok app T c w0 w auth \<Longrightarrow> auth_ok app T auth' \<Longrightarrow> as_authenticated auth' \<Longrightarrow> sess_ok app T c w0 w auth'"
  by (simp add: sess_ok_def)

lemma sess_ok_auth:
  assumes ok: "sess_ok app T c w0 w auth" and "token \<in> T"
    and "handle_auth app tk token c (w, auth) = (act, w', auth')"
  shows "sess_ok app T c w0 w' auth'"
proof (cases "au_verify (app_auth app) token ws_auth_context")
  case (Inl e)
  with assms(3) ok show ?thesis by (auto simp: handle_auth_def)
next
  case (Inr cl)
  with assms(3) have w': "w' = send_ctrl (SmAuthOk (show_conn_id c) (fm_rfc3339 (app_format app) (tk_now tk))) w"
    and a: "as_authenticated auth'" "as_claims auth' = Some cl" by (auto simp: handle_auth_def)
  have "auth_ok app T auth'" using a Inr assms(2) by (auto simp: auth_ok_def verified_def)
  from sess_ok_change_auth [OF ok this] a(1) show ?thesis by (simp add: w')
qed

lemma sess_ok_dispatch:
  assumes ok: "sess_ok app T c w0 w auth" and tok: "\<And>token. msg = CmAuth token \<Longrightarrow> token \<in> T"
    and d: "dispatch_message app tk msg c (w, auth) = Some (act, w', auth')"
  shows "sess_ok app T c w0 w' auth'"
proof (cases msg)
  case (CmAuth token)
  with d have "handle_auth app tk token c (w, auth) = (act, w', auth')" by (simp add: dispatch_message_def)
  with sess_ok_auth [OF ok tok [OF CmAuth]] show ?thesis by blast
next
  case (CmSubscribe s t f opts)
  with d sess_ok_handle_subscribe [OF ok] show ?thesis by (auto simp: dispatch_message_def)
next
  case (CmSubscribeBatch items)
  with d sess_ok_batch [OF ok] show ?thesis by (auto simp: dispatch_message_def)
next
  case (CmUnsubscribe s)
  with d sess_ok_unsubscribe [OF ok, of s] show ?thesis by (auto simp: dispatch_message_def split_beta)
next
  case (CmPublish t ty payload)
  with d sess_ok_publish(1) [OF ok, of tk t ty payload] show ?thesis by (auto simp: dispatch_message_def split_beta)
next
  case (CmBroadcast t label payload)
  with d sess_ok_publish(2) [OF ok, of tk t label payload] show ?thesis by (auto simp: dispatch_message_def split_beta)
next
  case (CmTrack t meta)
  with d sess_ok_track [OF ok, of tk t meta] show ?thesis by (auto simp: dispatch_message_def split_beta)
next
  case (CmUntrack t)
  with d sess_ok_untrack [OF ok, of tk t] show ?thesis by (auto simp: dispatch_message_def split_beta)
next
  case CmPing
  with d ok show ?thesis by (auto simp: dispatch_message_def handle_ping_def)
qed

text \<open>The tokens of the AUTH messages among the frames.\<close>

definition presented :: "'r App \<Rightarrow> (Tick \<times> ws_frame) list \<Rightarrow> string set" where
  "presented app frames =
     {token. \<exists>tk txt. (tk, WsText txt) \<in> set frames \<and> fm_client (app_format app) txt = Some (CmAuth token)}"

lemma sess_ok_turn:
  assumes ok: "sess_ok app T c w0 w auth" and tok: "presented app [(tk, frame)] \<subseteq> T"
    and t: "reader_turn app tk frame c (w, auth, slot) = Some (ending, w', auth', slot')"
  shows "sess_ok app T c w0 w' auth'"
proof (cases frame)
  case (WsText line)
  show ?thesis
  proof (cases "fm_client (app_format app) line")
    case None
    with t ok WsText show ?thesis by (auto simp: reader_turn_def dispatch_text_def)
  next
    case (Some msg)
    with t WsText obtain act where "dispatch_message app tk msg c (w, auth) = Some (act, w', auth')"
      by (auto simp: reader_turn_def dispatch_text_def split: option.splits)
    moreover have "token \<in> T" if "msg = CmAuth token" for token
      using tok Some that WsText by (auto simp: presented_def)
    ultimately show ?thesis using sess_ok_dispatch [OF ok] by blast
  qed
qed (use t ok in \<open>auto simp: reader_turn_def\<close>)

lemma sess_ok_loop:
  "reader_loop app frames c (w, auth, slot) = Some (ending, w', auth', slot') \<Longrightarrow>
   presented app frames \<subseteq> T \<Longrightarrow> sess_ok app T c w0 w auth \<Longrightarrow> sess_ok app T c w0 w' auth'"
proof (induction frames arbitrary: w auth slot)
  case (Cons f frames)
  obtain tk frame where f: "f = (tk, frame)" by fastforce
  from Cons.prems(1) obtain e1 w1 auth1 slot1
    where t: "reader_turn app tk frame c (w, auth, slot) = Some (e1, w1, auth1, slot1)"
    by (auto simp: f split: option.splits)
  have "presented app [(tk, frame)] \<subseteq> T" and rest: "presented app frames \<subseteq> T"
    using Cons.prems(2) by (auto simp: f presented_def)
  from sess_ok_turn [OF Cons.prems(3) this(1) t] have ok1: "sess_ok app T c w0 w1 auth1" .
  show ?case
  proof (cases e1)
    case None
    with Cons.prems(1) t have "reader_loop app frames c (w1, auth1, slot1) = Some (ending, w', auth', slot')"
      by (simp add: f)
    from Cons.IH [OF this rest ok1] show ?thesis .
  next
    case (Some e)
    with Cons.prems(1) t ok1 show ?thesis by (simp add: f)
  qed
qed simp

subsection \<open>Cleanup\<close>

lemma slot_routed:
  assumes "rg_inv x r" and "Some d \<in> set (fi_slots (rg_filter_index r))"
  shows "\<exists>e. live r e \<and> entry_slot e = d"
proof -
  let ?fi = "rg_filter_index r"
  have fi: "fi_inv x ?fi" and tab: "\<And>c s. fi_table ?fi (c, SubscriptionId s) = map_option entry_slot (dm_get (rg_by_sub_id r) (c, s))"
    using assms(1) by (simp_all add: rg_inv_def rg_index_inv_def fi_ok_def)
  obtain n where n: "n < length (fi_slots ?fi)" "fi_slots ?fi ! n = Some d"
    using assms(2) by (auto simp: in_set_conv_nth)
  have len: "length (fi_slots ?fi) \<le> 2 ^ 32"
    using fi by (simp add: fi_inv_def inv_slab_def slab_wf_def)
  have "ds_at ?fi (of_nat n) = Some d"
    using n len by (simp add: ds_at_def slab_get_def unat_of_nat_u32)
  then have "fi_table ?fi (ds_key d) = Some d" by (auto simp: fi_table_iff [OF fi])
  moreover have "ds_key d = (ds_conn d, SubscriptionId (sub_raw (ds_sub d)))" by (simp add: ds_key_def)
  ultimately obtain e where "dm_get (rg_by_sub_id r) (ds_conn d, sub_raw (ds_sub d)) = Some e" and "entry_slot e = d"
    using tab [of "ds_conn d" "sub_raw (ds_sub d)"]
    by (cases "dm_get (rg_by_sub_id r) (ds_conn d, sub_raw (ds_sub d))") auto
  then show ?thesis using live_iff [OF assms(1)] by blast
qed

lemma routes_live:
  "rg_inv x r \<Longrightarrow> routes_to r c p \<longleftrightarrow>
     (\<exists>e. live r e \<and> sb_conn (se_subscription e) = c \<and> sb_topic (se_subscription e) = p)"
  using slot_routed unfolding routes_to_def
  by (fastforce simp: entry_slot_def dispatch_slot_of_def)

lemma publish_snapshots_sel [simp]:
  "w_registry (publish_snapshots app tks ts w) = w_registry w"
  "w_presence (publish_snapshots app tks ts w) = w_presence w"
  "w_conn_manager (publish_snapshots app tks ts w) = w_conn_manager w"
  by (induction ts arbitrary: tks w)
    (auto simp: publish_presence_snapshot_def bus_publish_def split: option.split)

lemma publish_snapshots_sent:
  assumes "\<And>j. x_to_vec (fm_ext (app_format app)) j \<noteq> None"
  shows "\<exists>evs. w_published (publish_snapshots app tks ts w) = w_published w @ evs \<and> map fst evs = map fst ts \<and>
     list_all (\<lambda>(t, ev). ev_type ev = ''presence'' \<and> ev_topic ev = TopicPath t) evs"
proof (induction ts arbitrary: tks w)
  case (Cons tm ts)
  obtain t ms where tm: "tm = (t, ms)" by fastforce
  obtain b where b: "x_to_vec (fm_ext (app_format app)) (presence_body t ms) = Some b" using assms by auto
  let ?ev = "envelope_new (tk_uuid (tks 0)) (tk_now (tks 0)) (TopicPath t) ''presence'' b"
  have w1: "w_published (publish_presence_snapshot app (tks 0) t ms w) = w_published w @ [(t, ?ev)]"
    by (simp add: publish_presence_snapshot_def bus_publish_def b topic_new_def)
  obtain evs where
    "w_published (publish_snapshots app (tks \<circ> Suc) ts (publish_presence_snapshot app (tks 0) t ms w)) =
       (w_published w @ [(t, ?ev)]) @ evs" "map fst evs = map fst ts"
    "list_all (\<lambda>(t, ev). ev_type ev = ''presence'' \<and> ev_topic ev = TopicPath t) evs"
    using Cons.IH [of "tks \<circ> Suc" "publish_presence_snapshot app (tks 0) t ms w"] unfolding w1 by blast
  then show ?case by (intro exI [of _ "(t, ?ev) # evs"]) (simp add: tm)
qed simp

lemma connection_cleanup_effect:
  assumes "connection_cleanup app tks c w = Some w'"
  shows "w_registry w' = registry_remove_connection c (w_registry w)"
    and "w_presence w' = snd (presence_remove_connection c (w_presence w))"
    and "w_conn_manager w' = cm_remove c (w_conn_manager w)"
    and "\<exists>w1. w_published w1 = w_published w \<and> w_published w' =
       w_published (publish_snapshots app tks (fst (presence_remove_connection c (w_presence w))) w1)"
proof -
  obtain redis where w': "w' = (let w1 = cleanup_presence app tks c (w\<lparr>w_redis := redis\<rparr>);
        w1 = w1\<lparr>w_registry := registry_remove_connection c (w_registry w1)\<rparr>
      in w1\<lparr>w_conn_manager := cm_remove c (w_conn_manager w1)\<rparr>)"
    using assms by (auto simp: connection_cleanup_def bind_eq_Some_conv Let_def)
  show "w_registry w' = registry_remove_connection c (w_registry w)"
    and "w_presence w' = snd (presence_remove_connection c (w_presence w))"
    and "w_conn_manager w' = cm_remove c (w_conn_manager w)"
    by (simp_all add: w' Let_def cleanup_presence_def split_beta)
  show "\<exists>w1. w_published w1 = w_published w \<and> w_published w' =
       w_published (publish_snapshots app tks (fst (presence_remove_connection c (w_presence w))) w1)"
    by (intro exI [of _ "w\<lparr>w_redis := redis, w_presence := snd (presence_remove_connection c (w_presence w))\<rparr>"])
      (simp add: w' Let_def cleanup_presence_def split_beta)
qed

subsection \<open>Properties of a session\<close>

text \<open>
  C3: Subscription gating.  Whatever frames a client sends on a fresh connection, in whatever order,
  every pattern the registry or its filter index can afterwards deliver to some connection was
  deliverable to it before, or belongs to this very connection and was authorized by the provider for
  claims it gave for a token presented in the session.  Nobody subscribes before AUTH, past the
  provider, or on behalf of another connection.
\<close>

theorem session_subscriptions_authorized:
  assumes "presence_inv (w_presence w)" and "\<forall>t. presence_at (w_presence w) t (conn_raw c) = None"
    and "reader_loop app frames c (w, auth_state_default, None) = Some (ending, w', auth', slot')"
  shows "\<forall>c' p. routes_to (w_registry w') c' p \<longrightarrow> routes_to (w_registry w) c' p \<or>
     (c' = c \<and> may_subscribe app (presented app frames) p)"
  using sess_ok_loop [OF assms(3) order.refl sess_ok_start [OF assms(1,2)]]
  by (simp add: sess_ok_def)

text \<open>
  C4: Publish gating and attribution.  Every event a session hands to the bus is on a topic the provider
  authorized publishing for with claims from a presented token, is published under the topic it
  carries, names the subject of such claims as its source, and unless it is a presence event its
  payload is at most 64 KiB; and the session changes no other connection's presence.
\<close>

theorem session_events_authorized:
  assumes "presence_inv (w_presence w)" and "\<forall>t. presence_at (w_presence w) t (conn_raw c) = None"
    and "reader_loop app frames c (w, auth_state_default, None) = Some (ending, w', auth', slot')"
  shows "(\<exists>new. w_published w' = w_published w @ new \<and> list_all (may_send app (presented app frames)) new) \<and>
    (\<forall>t i. i \<noteq> conn_raw c \<longrightarrow> presence_at (w_presence w') t i = presence_at (w_presence w) t i) \<and>
    (\<forall>t. presence_at (w_presence w') t (conn_raw c) \<noteq> None \<longrightarrow> may_publish app (presented app frames) t)"
  using sess_ok_loop [OF assms(3) order.refl sess_ok_start [OF assms(1,2)]]
  by (auto simp: sess_ok_def list_all_iff)

text \<open>
  C5: Cleanup leaves nothing behind.  When the connection task cleans up a connection and the registry's
  maps are in step, the registry can deliver nothing to it any more, it is in no presence set and has no
  send queue, one presence event is published for each topic it had joined and for no other, and every
  other connection keeps its subscriptions and its presence.
\<close>

theorem cleanup_leaves_nothing:
  assumes "rg_inv x (w_registry w)" and "presence_inv (w_presence w)"
    and "connection_cleanup app tks c w = Some w'"
    and "\<forall>j. x_to_vec (fm_ext (app_format app)) j \<noteq> None"
  shows "(\<forall>p. \<not> routes_to (w_registry w') c p) \<and> \<not> has_connection c (w_conn_manager w') \<and>
    (\<forall>t i. presence_at (w_presence w') t i =
       (if i = conn_raw c then None else presence_at (w_presence w) t i)) \<and>
    (\<forall>c' p. c' \<noteq> c \<longrightarrow> routes_to (w_registry w') c' p = routes_to (w_registry w) c' p) \<and>
    (\<exists>evs. w_published w' = w_published w @ evs \<and>
       set (map fst evs) = {t. presence_at (w_presence w) t (conn_raw c) \<noteq> None} \<and> distinct (map fst evs) \<and>
       list_all (\<lambda>(t, ev). ev_type ev = ''presence'' \<and> ev_topic ev = TopicPath t) evs)"
proof -
  note eff = connection_cleanup_effect [OF assms(3)]
  have inv: "rg_inv x (w_registry w')"
    and live: "\<And>e. live (w_registry w') e \<longleftrightarrow> live (w_registry w) e \<and> sb_conn (se_subscription e) \<noteq> c"
    using remove_connection_inv [OF assms(1) eff(1)] by blast+
  obtain ci where c: "c = ConnectionId ci" by (cases c)
  obtain affected p' where r: "presence_remove_connection c (w_presence w) = (affected, p')" by fastforce
  note pc = presence_cleared [OF assms(2) r [unfolded c]]
  have "w_presence w' = p'" using eff(2) r by simp
  then have pres: "presence_at (w_presence w') t i = (if i = conn_raw c then None else presence_at (w_presence w) t i)" for t i
    using pc by (simp add: c)
  obtain w1 where w1: "w_published w1 = w_published w"
    and "w_published w' = w_published (publish_snapshots app tks affected w1)"
    using eff(4) r by auto
  moreover obtain evs where "w_published (publish_snapshots app tks affected w1) = w_published w @ evs"
    and evs: "map fst evs = map fst affected" "list_all (\<lambda>(t, ev). ev_type ev = ''presence'' \<and> ev_topic ev = TopicPath t) evs"
    using publish_snapshots_sent [of app tks affected w1] assms(4) w1 by auto
  ultimately have "w_published w' = w_published w @ evs" by simp
  moreover have "set (map fst evs) = {t. presence_at (w_presence w) t (conn_raw c) \<noteq> None}" "distinct (map fst evs)"
    unfolding evs(1) using pc by (simp_all only: c ConnectionId.sel)
  ultimately have pub: "\<exists>evs. w_published w' = w_published w @ evs \<and>
       set (map fst evs) = {t. presence_at (w_presence w) t (conn_raw c) \<noteq> None} \<and> distinct (map fst evs) \<and>
       list_all (\<lambda>(t, ev). ev_type ev = ''presence'' \<and> ev_topic ev = TopicPath t) evs"
    using evs(2) by blast
  have "routes_to (w_registry w') c' p = (c' \<noteq> c \<and> routes_to (w_registry w) c' p)" for c' p
    unfolding routes_live [OF inv] routes_live [OF assms(1)] using live by blast
  moreover have "\<not> has_connection c (w_conn_manager w')"
    by (simp add: eff(3) cm_remove_def has_connection_def dm_contains_def)
  ultimately show ?thesis using pub pres by simp
qed

subsection \<open>An example session\<close>

text \<open>A provider that knows one token, with claims for one namespace; frames are single words.\<close>

definition demo_auth :: AuthProvider where
  "demo_auth = \<lparr>au_verify = (\<lambda>tok _. if tok = ''t'' then Inr (demo_user [''a'']) else Inl (AuthFailed ''bad'')),
     au_subscribe = (\<lambda>cl p. if can_subscribe_to cl p then Inr () else Inl (AuthorizationDenied ''no'')),
     au_publish = (\<lambda>cl t. if can_publish_to cl t then Inr () else Inl (AuthorizationDenied ''no''))\<rparr>"

definition demo_app :: "unit App" where
  "demo_app = \<lparr>app_auth = demo_auth,
     app_format = demo_format\<lparr>fm_ext := demo_ext\<lparr>x_to_vec := (\<lambda>_. Some ''j'')\<rparr>,
       fm_client := (\<lambda>l. map_of [(''auth'', CmAuth ''t''), (''sub'', CmSubscribe ''s'' ''a/b'' None None),
         (''spy'', CmSubscribe ''x'' ''z/b'' None None), (''pub'', CmPublish ''a/b'' ''e'' JNull),
         (''leak'', CmPublish ''z/b'' ''e'' JNull), (''join'', CmTrack ''a/b'' JNull)] l)\<rparr>,
     app_shared = None\<rparr>"

definition demo_tick :: Tick where
  "demo_tick = \<lparr>tk_now = 0, tk_uuid = EventId 0\<rparr>"

definition demo_world :: "unit World" where
  "demo_world = \<lparr>w_registry = registry_with_limits limits_default, w_conn_manager = cm_new 8,
     w_presence = [], w_redis = (), w_published = [], w_ctrl = []\<rparr>"

definition demo_frames :: "string list \<Rightarrow> (Tick \<times> ws_frame) list" where
  "demo_frames ls = map (\<lambda>l. (demo_tick, WsText l)) ls"

lemmas eval_session = demo_app_def demo_auth_def demo_world_def demo_tick_def demo_frames_def demo_format_def
  reader_turn_def dispatch_text_def dispatch_message_def handle_auth_def handle_subscribe_def
  handle_publish_def handle_track_def authorize_publish_topic_def subscribe_denied_def
  make_subscription_def parse_sub_config_def sub_config_default_def send_ctrl_def stamp_tenant_def
  auth_state_default_def publish_envelope_def bus_publish_def MAX_WS_PAYLOAD_BYTES_def
  MAX_PRESENCE_META_BYTES_def can_subscribe_to_def can_subscribe_to_scoped_def can_publish_to_def
  can_publish_to_scoped_def namespace_allowed_def is_protected_def demo_user_def topic_namespace_def
  split_nth_def publish_presence_def presence_track_def

lemma demo_world_fresh:
  "presence_inv (w_presence demo_world)" "\<forall>t. presence_at (w_presence demo_world) t i = None"
  by (simp_all add: demo_world_def presence_inv_def presence_at_def)

definition demo_session_frames :: "(Tick \<times> ws_frame) list" where
  "demo_session_frames =
     demo_frames [''spy'', ''leak'', ''auth'', ''sub'', ''spy'', ''pub'', ''leak'', ''join'']"

lemma demo_run:
  obtains ending w' auth' slot' where
    "reader_loop demo_app demo_session_frames (ConnectionId 7)
       (demo_world, auth_state_default, None) = Some (ending, w', auth', slot')"
    and "subscription_count (w_registry w') = 1" and "length (w_published w') = 2"
proof -
  have "case reader_loop demo_app demo_session_frames (ConnectionId 7)
       (demo_world, auth_state_default, None) of None \<Rightarrow> False
    | Some (ending, w', auth', slot') \<Rightarrow> subscription_count (w_registry w') = 1 \<and> length (w_published w') = 2"
    by (simp add: demo_session_frames_def eval_session eval_all subscription_count_def)
  then show ?thesis using that by (auto split: option.splits)
qed

lemma demo_fresh_routes: "\<not> routes_to (w_registry demo_world) c p"
  by (simp add: demo_world_def routes_to_def live_def registry_with_limits_def fi_with_limits_def dm_get_def)

lemma demo_verified: "verified demo_app T cl \<Longrightarrow> cl = demo_user [''a'']"
  by (auto simp: verified_def demo_app_def demo_auth_def split: if_splits)

lemma demo_not_granted:
  "\<not> may_subscribe demo_app T (pattern_parse ''z/b'')" "\<not> may_publish demo_app T ''z/b''"
  by (auto simp: may_subscribe_def may_publish_def dest!: demo_verified)
    (simp_all add: eval_session eval_all)

theorem session_subscriptions_authorized_witness:
  "\<exists>ending w' auth' slot'.
     reader_loop demo_app demo_session_frames (ConnectionId 7)
       (demo_world, auth_state_default, None) = Some (ending, w', auth', slot') \<and>
     subscription_count (w_registry w') = 1 \<and> \<not> routes_to (w_registry w') (ConnectionId 7) (pattern_parse ''z/b'')"
proof -
  obtain ending w' auth' slot' where r: "reader_loop demo_app demo_session_frames (ConnectionId 7)
       (demo_world, auth_state_default, None) = Some (ending, w', auth', slot')"
    and n: "subscription_count (w_registry w') = 1" by (rule demo_run)
  have "\<not> routes_to (w_registry w') (ConnectionId 7) (pattern_parse ''z/b'')"
    using session_subscriptions_authorized [OF demo_world_fresh r] demo_fresh_routes
      demo_not_granted(1) by blast
  then show ?thesis using r n by blast
qed

theorem session_events_authorized_witness:
  "\<exists>ending w' auth' slot' new.
     reader_loop demo_app demo_session_frames (ConnectionId 7)
       (demo_world, auth_state_default, None) = Some (ending, w', auth', slot') \<and>
     length new = 2 \<and> w_published w' = new \<and> list_all (may_send demo_app (presented demo_app demo_session_frames)) new \<and>
     presence_at (w_presence w') ''z/b'' 7 = None"
proof -
  obtain ending w' auth' slot' where r: "reader_loop demo_app demo_session_frames (ConnectionId 7)
       (demo_world, auth_state_default, None) = Some (ending, w', auth', slot')"
    and n: "length (w_published w') = 2" by (rule demo_run)
  note s = session_events_authorized [OF demo_world_fresh r]
  from s [THEN conjunct1] have "list_all (may_send demo_app (presented demo_app demo_session_frames)) (w_published w')"
    by (simp add: demo_world_def)
  moreover have "presence_at (w_presence w') ''z/b'' 7 = None"
    using s [THEN conjunct2, THEN conjunct2] demo_not_granted(2) by fastforce
  ultimately show ?thesis using r n by blast
qed

definition demo_world_subs :: "unit World" where
  "demo_world_subs = demo_world\<lparr>w_registry := demo_reg demo_subs,
     w_presence := snd (presence_track ''a/b'' (ConnectionId 1)
       \<lparr>pm_conn_id = ''conn-1'', pm_user_id = None, pm_meta = JNull\<rparr> [])\<rparr>"

theorem cleanup_leaves_nothing_witness:
  "\<exists>w'. connection_cleanup demo_app (\<lambda>_. demo_tick) (ConnectionId 1) demo_world_subs = Some w' \<and>
     routes_to (w_registry demo_world_subs) (ConnectionId 1) (pattern_parse ''a/b'') \<and>
     \<not> routes_to (w_registry w') (ConnectionId 1) (pattern_parse ''a/b'') \<and>
     presence_at (w_presence demo_world_subs) ''a/b'' 1 \<noteq> None \<and> presence_at (w_presence w') ''a/b'' 1 = None"
proof -
  have inv: "rg_inv demo_ext (w_registry demo_world_subs)" and pres: "presence_inv (w_presence demo_world_subs)"
    using demo_reg_inv by (simp_all add: demo_world_subs_def presence_track_def presence_inv_def dm_wf_def eval_maps)
  have "live (w_registry demo_world_subs) (new_entry (demo_sub ''s1'' ''a/b'' None) None)"
    by (simp add: demo_world_subs_def demo_live)
  then have before: "routes_to (w_registry demo_world_subs) (ConnectionId 1) (pattern_parse ''a/b'')"
    unfolding routes_to_def by (intro disjI1 exI) (auto simp: new_entry_def demo_sub_def)
  have joined: "presence_at (w_presence demo_world_subs) ''a/b'' 1 \<noteq> None"
    by (simp add: demo_world_subs_def presence_track_def presence_at_def eval_maps)
  obtain w' where w': "connection_cleanup demo_app (\<lambda>_. demo_tick) (ConnectionId 1) demo_world_subs = Some w'"
    by (simp add: connection_cleanup_def demo_app_def Let_def)
  have "\<forall>j. x_to_vec (fm_ext (app_format demo_app)) j \<noteq> None" by (simp add: demo_app_def)
  from cleanup_leaves_nothing [OF inv pres w' this] before joined w' show ?thesis by auto
qed

end
