(* ===== verification/Rt_System.thy ===== *)
theory Rt_System
  imports Rt_Node Rt_Session_Safe "HOL-Library.Sublist"
begin

text \<open>
  The whole process: a node, the WebSocket sessions its gateway has opened, and the presence the
  handlers share (\<open>AppState\<close> of \<open>crates/realtime-gateway/src/ws_handler/mod.rs\<close>, built by \<open>run\<close> of
  \<open>crates/realtime-server/src/server.rs\<close>).  A step is one turn of one task: a session handles a frame
  or cleans up, the router takes an event, the fan-out moves one, another publisher publishes.  Lemmas:
  every step is a run of the node; what is delivered was authorized, in any interleaving.
\<close>

subsection \<open>State\<close>

record 'r System =
  sy_node :: Node
  sy_sessions :: "ConnectionId \<rightharpoonup> 'r Session"
  sy_presence :: PresenceTracker
  sy_redis :: 'r

definition system_start ::
    "nat option \<Rightarrow> nat \<Rightarrow> Metrics \<Rightarrow> ServerConfig \<Rightarrow> 'r \<Rightarrow> 'r System option" where
  "system_start parallelism ring m config redis =
     map_option (\<lambda>nd. \<lparr>sy_node = nd, sy_sessions = Map.empty, sy_presence = [], sy_redis = redis\<rparr>)
       (node_start parallelism ring m config)"

definition sy_registry :: "'r System \<Rightarrow> SubscriptionRegistry" where
  "sy_registry sy = rt_registry (nd_router (sy_node sy))"

definition sy_manager :: "'r System \<Rightarrow> ConnectionManager" where
  "sy_manager sy = fo_conn_manager (nd_fanout (sy_node sy))"

text \<open>What a session sees of the process, and the process after the session's turn: the registry, the
  connection manager, the presence and the store are shared, its publications go to the bus in order.\<close>

definition session_world :: "'r System \<Rightarrow> ServerMessage list \<Rightarrow> 'r World" where
  "session_world sy ctrl =
     \<lparr>w_registry = sy_registry sy, w_conn_manager = sy_manager sy, w_presence = sy_presence sy,
      w_redis = sy_redis sy, w_published = [], w_ctrl = ctrl\<rparr>"

definition publish_all :: "string \<Rightarrow> (string \<times> EventEnvelope) list \<Rightarrow> broadcast \<Rightarrow> broadcast" where
  "publish_all msg evs bus = fold (\<lambda>(topic, event) bus. snd (in_process_publish msg topic event bus)) evs bus"

definition node_absorb :: "string \<Rightarrow> 'r World \<Rightarrow> Node \<Rightarrow> Node" where
  "node_absorb msg w nd =
     (node_registry (w_registry w) nd)
       \<lparr>nd_fanout := (nd_fanout nd)\<lparr>fo_conn_manager := w_conn_manager w\<rparr>,
        nd_bus := publish_all msg (w_published w) (nd_bus nd)\<rparr>"

definition session_absorb :: "string \<Rightarrow> 'r Session \<Rightarrow> 'r System \<Rightarrow> 'r System" where
  "session_absorb msg s sy =
     \<lparr>sy_node = node_absorb msg (ss_world s) (sy_node sy),
      sy_sessions = (sy_sessions sy)(ss_conn s \<mapsto> s),
      sy_presence = w_presence (ss_world s), sy_redis = w_redis (ss_world s)\<rparr>"

subsection \<open>Steps\<close>

text \<open>\<open>SyPublish\<close> is any publisher outside the sessions: the REST handlers and the producers.  The writer
  of a connection takes events off its queue and closes it; nobody else runs the manager directly.\<close>

datatype sys_op =
    SyConnect timestamp
  | SySession ConnectionId sess_event
  | SyPublish string EventEnvelope
  | SyRoute Clock
  | SyFan fo_action

fun task_action :: "fo_action \<Rightarrow> bool" where
  "task_action (ASubmit m) = False"
| "task_action (AManager (OpRecv ch)) = True"
| "task_action (AManager (OpClose ch)) = True"
| "task_action (AManager op) = False"
| "task_action a = True"

definition node_part ::
    "(EventEnvelope list \<times> LocalDispatch list \<times> Node) option \<Rightarrow> 'r System
      \<Rightarrow> (EventEnvelope list \<times> LocalDispatch list \<times> 'r System) option" where
  "node_part res sy = map_option (\<lambda>(routed, d, nd). (routed, d, sy\<lparr>sy_node := nd\<rparr>)) res"

fun system_step ::
    "'r App \<Rightarrow> string \<Rightarrow> sys_op \<Rightarrow> 'r System \<Rightarrow> (EventEnvelope list \<times> LocalDispatch list \<times> 'r System) option" where
  "system_step app msg (SyConnect now) sy =
     map_option (\<lambda>s. ([], [], session_absorb msg s sy)) (session_open now (session_world sy []))"
| "system_step app msg (SySession conn_id ev) sy =
     (case sy_sessions sy conn_id of
        None \<Rightarrow> None
      | Some s \<Rightarrow>
          map_option (\<lambda>s. ([], [], session_absorb msg s sy))
            (session_step app ev (s\<lparr>ss_world := session_world sy (w_ctrl (ss_world s))\<rparr>)))"
| "system_step app msg (SyPublish topic event) sy =
     node_part (node_step (fm_ext (app_format app)) msg (NdPublish topic event) (sy_node sy)) sy"
| "system_step app msg (SyRoute ck) sy =
     node_part (node_step (fm_ext (app_format app)) msg (NdRoute ck) (sy_node sy)) sy"
| "system_step app msg (SyFan a) sy =
     (if task_action a then node_part (node_step (fm_ext (app_format app)) msg (NdFan a) (sy_node sy)) sy
      else None)"

fun system_run ::
    "'r App \<Rightarrow> string \<Rightarrow> sys_op list \<Rightarrow> 'r System \<Rightarrow> (EventEnvelope list \<times> LocalDispatch list \<times> 'r System) option" where
  "system_run app msg [] sy = Some ([], [], sy)"
| "system_run app msg (op # ops) sy =
     (case system_step app msg op sy of
        None \<Rightarrow> None
      | Some (r, d, sy) \<Rightarrow>
          (case system_run app msg ops sy of
             None \<Rightarrow> None
           | Some (routed, dl, sy) \<Rightarrow> Some (r @ routed, d @ dl, sy)))"

subsection \<open>A session's turn, seen from the registry and the bus\<close>

text \<open>The subscriptions a frame asks for.\<close>

definition message_subscriptions :: "'r App \<Rightarrow> ConnectionId \<Rightarrow> ClientMessage \<Rightarrow> Subscription list" where
  "message_subscriptions app conn_id msg = (case msg of
       CmSubscribe sub_id topic flt options \<Rightarrow>
         [make_subscription app sub_id conn_id (pattern_parse topic) flt options]
     | CmSubscribeBatch items \<Rightarrow>
         map (\<lambda>item. make_subscription app (si_sub_id item) conn_id (pattern_parse (si_topic item))
                (si_filter item) (si_options item)) items
     | _ \<Rightarrow> [])"

definition frame_subscriptions :: "'r App \<Rightarrow> ConnectionId \<Rightarrow> ws_frame \<Rightarrow> Subscription list" where
  "frame_subscriptions app conn_id frame = (case frame of
       WsText txt \<Rightarrow> (case fm_client (app_format app) txt of
         None \<Rightarrow> [] | Some msg \<Rightarrow> message_subscriptions app conn_id msg)
     | _ \<Rightarrow> [])"

text \<open>Subscriptions tried one after the other, refused ones included.\<close>

fun subscribe_seq :: "Externals \<Rightarrow> Subscription list \<Rightarrow> SubscriptionRegistry \<Rightarrow> SubscriptionRegistry option" where
  "subscribe_seq x [] r = Some r"
| "subscribe_seq x (sub # subs) r = Option.bind (subscribe x sub None r) (\<lambda>(r, _). subscribe_seq x subs r)"

text \<open>How a turn of connection \<open>c\<close> may change the registry, with the rest of the world as it was.\<close>

definition turn_registry :: "'r App \<Rightarrow> ConnectionId \<Rightarrow> Subscription list \<Rightarrow> 'r World \<Rightarrow> 'r World \<Rightarrow> bool" where
  "turn_registry app c asked w w' =
     (w_conn_manager w' = w_conn_manager w \<and>
      ((\<exists>subs. subseq subs asked \<and>
          subscribe_seq (fm_ext (app_format app)) subs (w_registry w) = Some (w_registry w')) \<or>
       (\<exists>s. w_registry w' = fst (unsubscribe c s (w_registry w)))))"

lemma turn_registry_same:
  "w_registry w' = w_registry w \<Longrightarrow> w_conn_manager w' = w_conn_manager w \<Longrightarrow> turn_registry app c asked w w'"
  by (auto simp: turn_registry_def intro!: exI [of _ "[]"])

lemma subscribe_items_seq:
  "subscribe_items app items c auth w = Some w' \<Longrightarrow>
   \<exists>subs. subseq subs (message_subscriptions app c (CmSubscribeBatch items)) \<and>
     subscribe_seq (fm_ext (app_format app)) subs (w_registry w) = Some (w_registry w') \<and>
     w_conn_manager w' = w_conn_manager w"
proof (induction items arbitrary: w)
  case Nil
  then show ?case by (auto intro!: exI [of _ "[]"])
next
  case (Cons item items)
  let ?p = "pattern_parse (si_topic item)"
  let ?sub = "make_subscription app (si_sub_id item) c ?p (si_filter item) (si_options item)"
  let ?asked = "message_subscriptions app c (CmSubscribeBatch items)"
  have asked: "message_subscriptions app c (CmSubscribeBatch (item # items)) = ?sub # ?asked"
    by (simp add: message_subscriptions_def)
  show ?case
  proof (cases "subscribe_denied app auth ?p")
    case True
    with Cons.prems obtain m where "subscribe_items app items c auth (send_ctrl m w) = Some w'"
      by (auto simp: Let_def)
    from Cons.IH [OF this] show ?thesis
      unfolding asked by (auto simp: send_ctrl_def intro: subseq_Cons')
  next
    case False
    with Cons.prems obtain r res where s: "subscribe (fm_ext (app_format app)) ?sub None (w_registry w) = Some (r, res)"
      by (auto simp: Let_def bind_eq_Some_conv)
    with False Cons.prems obtain m where rest: "subscribe_items app items c auth (send_ctrl m (w\<lparr>w_registry := r\<rparr>)) = Some w'"
      by (cases res) (auto simp: Let_def)
    from Cons.IH [OF rest] obtain subs where "subseq subs ?asked"
      "subscribe_seq (fm_ext (app_format app)) subs r = Some (w_registry w')"
      "w_conn_manager w' = w_conn_manager w" by (auto simp: send_ctrl_def)
    with s show ?thesis unfolding asked by (intro exI [of _ "?sub # subs"]) simp
  qed
qed

lemma publish_envelope_sel [simp]:
  "w_registry (publish_envelope tk t ty bs auth w) = w_registry w"
  "w_conn_manager (publish_envelope tk t ty bs auth w) = w_conn_manager w"
  by (simp_all add: publish_envelope_def bus_publish_def Let_def)

lemma publish_presence_sel [simp]:
  "w_registry (publish_presence app tk t ms auth w) = w_registry w"
  "w_conn_manager (publish_presence app tk t ms auth w) = w_conn_manager w"
  by (simp_all add: publish_presence_def split: option.split)

lemma dispatch_turn:
  assumes "dispatch_message app tk m c (w, auth) = Some (act, w', auth')"
  shows "turn_registry app c (message_subscriptions app c m) w w'"
proof (cases m)
  case (CmAuth token)
  with assms show ?thesis
    by (intro turn_registry_same)
      (auto simp: dispatch_message_def handle_auth_def send_ctrl_def split: sum.splits)
next
  case (CmSubscribe s t f opts)
  let ?sub = "make_subscription app s c (pattern_parse t) f opts"
  have asked: "message_subscriptions app c m = [?sub]" by (simp add: message_subscriptions_def CmSubscribe)
  from assms CmSubscribe have h: "handle_subscribe app s t f opts c auth w = Some (act, w')"
    by (auto simp: dispatch_message_def)
  show ?thesis
  proof (cases "as_authenticated auth \<and> \<not> subscribe_denied app auth (pattern_parse t)")
    case True
    with h obtain r res where s: "subscribe (fm_ext (app_format app)) ?sub None (w_registry w) = Some (r, res)"
      by (auto simp: handle_subscribe_def Let_def bind_eq_Some_conv)
    with True h have "w_registry w' = r" "w_conn_manager w' = w_conn_manager w"
      by (cases res; auto simp: handle_subscribe_def Let_def send_ctrl_def)+
    with s show ?thesis
      unfolding asked turn_registry_def by (intro conjI disjI1 exI [of _ "[?sub]"]) simp_all
  next
    case False
    with h have "w' = w" by (auto simp: handle_subscribe_def split: if_splits)
    then show ?thesis by (simp add: turn_registry_same)
  qed
next
  case (CmSubscribeBatch items)
  with assms have h: "handle_subscribe_batch app items c auth w = Some (act, w')"
    by (auto simp: dispatch_message_def)
  show ?thesis
  proof (cases "as_authenticated auth")
    case True
    with h have "subscribe_items app items c auth w = Some w'" by (auto simp: handle_subscribe_batch_def)
    from subscribe_items_seq [OF this] show ?thesis unfolding turn_registry_def CmSubscribeBatch by blast
  next
    case False
    with h have "w' = w" by (simp add: handle_subscribe_batch_def)
    then show ?thesis by (simp add: turn_registry_same)
  qed
next
  case (CmUnsubscribe s)
  with assms have "w_registry w' = fst (unsubscribe c s (w_registry w))" "w_conn_manager w' = w_conn_manager w"
    by (auto simp: dispatch_message_def handle_unsubscribe_def send_ctrl_def Let_def)
  then show ?thesis unfolding turn_registry_def by blast
next
  case (CmPublish t ty payload)
  with assms show ?thesis
    by (intro turn_registry_same)
      (auto simp: dispatch_message_def handle_publish_def Let_def split: if_splits option.splits)
next
  case (CmBroadcast t label payload)
  with assms show ?thesis
    by (intro turn_registry_same)
      (auto simp: dispatch_message_def handle_broadcast_def Let_def split: if_splits option.splits)
next
  case (CmTrack t meta)
  with assms have "w' = snd (handle_track app tk t meta c auth w)" by (auto simp: dispatch_message_def split_beta)
  then show ?thesis
    by (intro turn_registry_same)
      (simp_all add: handle_track_def Let_def split_beta split: option.split)
next
  case (CmUntrack t)
  with assms have "w' = snd (handle_untrack app tk t c auth w)" by (auto simp: dispatch_message_def split_beta)
  then show ?thesis
    by (intro turn_registry_same)
      (simp_all add: handle_untrack_def Let_def split_beta split: option.split)
next
  case CmPing
  with assms show ?thesis
    by (intro turn_registry_same) (auto simp: dispatch_message_def handle_ping_def send_ctrl_def)
qed

lemma reader_turn_registry:
  assumes "reader_turn app tk frame c (w, auth, slot) = Some (ending, w', auth', slot')"
  shows "turn_registry app c (frame_subscriptions app c frame) w w'"
proof (cases frame)
  case (WsText line)
  show ?thesis
  proof (cases "fm_client (app_format app) line")
    case None
    with assms WsText have "w' = w" by (auto simp: reader_turn_def dispatch_text_def)
    then show ?thesis by (simp add: turn_registry_same)
  next
    case (Some m)
    with assms WsText obtain act where "dispatch_message app tk m c (w, auth) = Some (act, w', auth')"
      by (auto simp: reader_turn_def dispatch_text_def split: option.splits)
    from dispatch_turn [OF this] show ?thesis by (simp add: frame_subscriptions_def WsText Some)
  qed
qed (use assms in \<open>auto simp: reader_turn_def turn_registry_same\<close>)

subsection \<open>Every step is a run of the node\<close>

definition event_subscriptions :: "'r App \<Rightarrow> ConnectionId \<Rightarrow> sess_event \<Rightarrow> Subscription list" where
  "event_subscriptions app c ev = (case ev of ReaderFrame tk frame \<Rightarrow> frame_subscriptions app c frame | _ \<Rightarrow> [])"

lemma session_step_turn:
  assumes "session_step app ev s = Some s'"
  obtains (turn) "ss_conn s' = ss_conn s"
      "turn_registry app (ss_conn s) (event_subscriptions app (ss_conn s) ev) (ss_world s) (ss_world s')"
  | (cleanup) tks now where "ev = TaskCleanup tks now" "ss_conn s' = ss_conn s" "ss_auth s' = ss_auth s"
      "connection_cleanup app tks (ss_conn s) (ss_world s) = Some (ss_world s')"
proof (cases ev)
  case (ReaderFrame tk frame)
  with assms obtain e w auth slot where
    r: "reader_turn app tk frame (ss_conn s) (ss_world s, ss_auth s, ss_slot s) = Some (e, w, auth, slot)"
    and "s' = s\<lparr>ss_ending := e, ss_world := w, ss_auth := auth, ss_slot := slot\<rparr>"
    by (auto simp: session_step_def split: if_splits)
  with reader_turn_registry [OF r] turn show ?thesis by (simp add: event_subscriptions_def ReaderFrame)
next
  case (TaskCleanup tks now)
  with assms obtain w where "connection_cleanup app tks (ss_conn s) (ss_world s) = Some w"
    and "ss_world s' = w" "ss_conn s' = ss_conn s" "ss_auth s' = ss_auth s"
    by (auto simp: session_step_def split: if_splits)
  with cleanup TaskCleanup show ?thesis by simp
next
  case ReaderEof
  with assms have "ss_conn s' = ss_conn s" "ss_world s' = ss_world s" by (auto simp: session_step_def split: if_splits)
  with turn show ?thesis by (simp add: turn_registry_same)
next
  case WriterFails
  with assms have "ss_conn s' = ss_conn s" "ss_world s' = ss_world s" by (auto simp: session_step_def split: if_splits)
  with turn show ?thesis by (simp add: turn_registry_same)
qed

lemma node_run_seq:
  "subscribe_seq x subs (rt_registry (nd_router nd)) = Some r' \<Longrightarrow>
   node_run x msg (map (\<lambda>sub. NdSubscribe sub None) subs) nd = Some ([], [], node_registry r' nd)"
proof (induction subs arbitrary: nd)
  case Nil
  then show ?case by (simp add: node_registry_def)
next
  case (Cons sub subs)
  from Cons.prems obtain r1 res where s: "subscribe x sub None (rt_registry (nd_router nd)) = Some (r1, res)"
    and rest: "subscribe_seq x subs r1 = Some r'" by (auto simp: bind_eq_Some_conv)
  have "subscribe_seq x subs (rt_registry (nd_router (node_registry r1 nd))) = Some r'"
    using rest by (simp add: node_registry_def)
  from Cons.IH [OF this] s show ?case by (simp add: node_registry_def)
qed

lemma node_run_manager:
  "cm_run cops (fo_conn_manager (nd_fanout nd)) = Some cm \<Longrightarrow>
   node_run x msg (map (NdFan \<circ> AManager) cops) nd =
     Some ([], [], nd\<lparr>nd_fanout := (nd_fanout nd)\<lparr>fo_conn_manager := cm\<rparr>\<rparr>)"
proof (induction cops arbitrary: nd)
  case (Cons op cops)
  from Cons.prems obtain cm1 where s: "cm_step op (fo_conn_manager (nd_fanout nd)) = Some cm1"
    and rest: "cm_run cops cm1 = Some cm" by (auto simp: bind_eq_Some_conv)
  let ?nd = "nd\<lparr>nd_fanout := (nd_fanout nd)\<lparr>fo_conn_manager := cm1\<rparr>\<rparr>"
  have "cm_run cops (fo_conn_manager (nd_fanout ?nd)) = Some cm" using rest by simp
  from Cons.IH [OF this] s show ?case by (simp add: fo_act_def manager_step_def)
qed simp

lemma node_run_publish:
  "node_run x msg (map (\<lambda>(t, e). NdPublish t e) evs) nd =
     Some ([], [], nd\<lparr>nd_bus := publish_all msg evs (nd_bus nd)\<rparr>)"
  by (induction evs arbitrary: nd) (auto simp: publish_all_def)

lemma absorb_run:
  assumes reg: "node_run x msg rops nd = Some ([], [], node_registry (w_registry w) nd)"
    and cm: "cm_run cops (fo_conn_manager (nd_fanout nd)) = Some (w_conn_manager w)"
  shows "\<exists>nops. node_run x msg nops nd = Some ([], [], node_absorb msg w nd)"
proof -
  let ?nd1 = "node_registry (w_registry w) nd"
  have "cm_run cops (fo_conn_manager (nd_fanout ?nd1)) = Some (w_conn_manager w)"
    using cm by (simp add: node_registry_def)
  note m = node_run_manager [OF this, of x msg]
  have "node_absorb msg w nd = ?nd1\<lparr>nd_fanout := (nd_fanout ?nd1)\<lparr>fo_conn_manager := w_conn_manager w\<rparr>,
      nd_bus := publish_all msg (w_published w) (nd_bus ?nd1)\<rparr>"
    by (simp add: node_absorb_def node_registry_def)
  with node_run_append [OF reg node_run_append [OF m node_run_publish]] show ?thesis by auto
qed

lemma node_registry_id: "registry = rt_registry (nd_router nd) \<Longrightarrow> node_registry registry nd = nd"
  by (simp add: node_registry_def)

lemma turn_run:
  assumes "turn_registry app c asked w w'"
    and "w_registry w = rt_registry (nd_router nd)" and "w_conn_manager w = fo_conn_manager (nd_fanout nd)"
  shows "\<exists>nops. node_run (fm_ext (app_format app)) msg nops nd = Some ([], [], node_absorb msg w' nd)"
proof -
  have cm: "cm_run [] (fo_conn_manager (nd_fanout nd)) = Some (w_conn_manager w')"
    using assms by (simp add: turn_registry_def)
  have "\<exists>rops. node_run (fm_ext (app_format app)) msg rops nd = Some ([], [], node_registry (w_registry w') nd)"
    using assms(1) unfolding turn_registry_def
  proof (elim conjE disjE exE)
    fix subs assume "subscribe_seq (fm_ext (app_format app)) subs (w_registry w) = Some (w_registry w')"
    then show ?thesis using node_run_seq [of _ subs nd] assms(2) by metis
  next
    fix s assume "w_registry w' = fst (unsubscribe c s (w_registry w))"
    then show ?thesis by (intro exI [of _ "[NdUnsubscribe c s]"]) (simp add: assms(2))
  qed
  then show ?thesis using absorb_run cm by blast
qed

lemma session_open_effect:
  assumes "session_open now w = Some s"
  shows "ss_conn s = ConnectionId (mg_next_conn_id (w_conn_manager w))" and "ss_auth s = auth_state_default"
    and "ss_world s = w\<lparr>w_conn_manager := w_conn_manager (ss_world s)\<rparr>"
    and "mg_next_conn_id (w_conn_manager (ss_world s)) = mg_next_conn_id (w_conn_manager w) + 1"
    and "\<exists>cops. cm_run cops (w_conn_manager w) = Some (w_conn_manager (ss_world s))"
proof -
  let ?cm = "snd (next_connection_id (w_conn_manager w))"
  let ?meta = "create_connection_meta now (ConnectionId (mg_next_conn_id (w_conn_manager w)))"
  obtain i n cm where r: "register ?meta DropNewest ?cm = Some (i, n, cm)"
    and s: "s = \<lparr>ss_conn = ConnectionId (mg_next_conn_id (w_conn_manager w)), ss_world = w\<lparr>w_conn_manager := cm\<rparr>,
      ss_auth = auth_state_default, ss_slot = None, ss_ending = None, ss_phase = Serving, ss_connected_at = now,
      ss_metered = None\<rparr>"
    using assms by (auto simp: session_open_def next_connection_id_def bind_eq_Some_conv)
  show "ss_conn s = ConnectionId (mg_next_conn_id (w_conn_manager w))" "ss_auth s = auth_state_default"
    "ss_world s = w\<lparr>w_conn_manager := w_conn_manager (ss_world s)\<rparr>" by (simp_all add: s)
  show "mg_next_conn_id (w_conn_manager (ss_world s)) = mg_next_conn_id (w_conn_manager w) + 1"
    using r by (auto simp: s register_def next_connection_id_def Let_def split: if_splits)
  show "\<exists>cops. cm_run cops (w_conn_manager w) = Some (w_conn_manager (ss_world s))"
    using r by (intro exI [of _ "[OpNextId, OpRegister ?meta DropNewest]"]) (simp add: s cm_step_def)
qed

lemma system_step_refines:
  assumes "system_step app msg op sy = Some (routed, d, sy')"
  shows "\<exists>nops. node_run (fm_ext (app_format app)) msg nops (sy_node sy) = Some (routed, d, sy_node sy')"
proof (cases op)
  case (SyConnect now)
  with assms obtain s where o: "session_open now (session_world sy []) = Some s"
    and sy': "sy' = session_absorb msg s sy" "routed = []" "d = []" by auto
  let ?nd = "sy_node sy"
  note e = session_open_effect [OF o]
  obtain cops where "cm_run cops (fo_conn_manager (nd_fanout ?nd)) = Some (w_conn_manager (ss_world s))"
    using e(5) by (auto simp: session_world_def sy_manager_def)
  moreover have "w_registry (ss_world s) = rt_registry (nd_router ?nd)"
    by (subst e(3)) (simp add: session_world_def sy_registry_def)
  ultimately show ?thesis
    using absorb_run [of _ msg "[]" ?nd "ss_world s"] sy' by (simp add: node_registry_id session_absorb_def)
next
  case (SySession c ev)
  with assms obtain s s' where st: "session_step app ev (s\<lparr>ss_world := session_world sy (w_ctrl (ss_world s))\<rparr>) = Some s'"
    and sy': "sy' = session_absorb msg s' sy" "routed = []" "d = []" by (auto split: option.splits)
  let ?w = "session_world sy (w_ctrl (ss_world s))" and ?nd = "sy_node sy"
  have w: "w_registry ?w = rt_registry (nd_router ?nd)" "w_conn_manager ?w = fo_conn_manager (nd_fanout ?nd)"
    by (simp_all add: session_world_def sy_registry_def sy_manager_def)
  from st show ?thesis
  proof (cases rule: session_step_turn)
    case turn
    then have "turn_registry app (ss_conn s) (event_subscriptions app (ss_conn s) ev) ?w (ss_world s')" by simp
    from turn_run [OF this w] sy' show ?thesis by (simp add: session_absorb_def)
  next
    case (cleanup tks now)
    then have "connection_cleanup app tks (ss_conn s) ?w = Some (ss_world s')" by simp
    note e = connection_cleanup_effect [OF this]
    have cm: "cm_run [OpRemove (ss_conn s)] (fo_conn_manager (nd_fanout ?nd)) = Some (w_conn_manager (ss_world s'))"
      by (simp add: cm_step_def e(3) w)
    have "node_run (fm_ext (app_format app)) msg [NdDisconnect (ss_conn s)] ?nd =
        Some ([], [], node_registry (w_registry (ss_world s')) ?nd)"
      by (simp add: e(1) w)
    from absorb_run [OF this cm] sy' show ?thesis by (simp add: session_absorb_def)
  qed
next
  case (SyPublish t e)
  with assms show ?thesis
    by (intro exI [of _ "[NdPublish t e]"]) (auto simp: node_part_def)
next
  case (SyRoute ck)
  with assms obtain nd where "node_step (fm_ext (app_format app)) msg (NdRoute ck) (sy_node sy) = Some (routed, d, nd)"
    and "sy_node sy' = nd" by (auto simp: node_part_def)
  then show ?thesis by (intro exI [of _ "[NdRoute ck]"]) simp
next
  case (SyFan a)
  with assms obtain nd where "node_step (fm_ext (app_format app)) msg (NdFan a) (sy_node sy) = Some (routed, d, nd)"
    and "sy_node sy' = nd" by (auto simp: node_part_def simp del: node_step.simps split: if_splits)
  then show ?thesis by (intro exI [of _ "[NdFan a]"]) (simp del: node_step.simps)
qed

lemma system_run_refines:
  "system_run app msg ops sy = Some (routed, dl, sy') \<Longrightarrow>
   \<exists>nops. node_run (fm_ext (app_format app)) msg nops (sy_node sy) = Some (routed, dl, sy_node sy')"
proof (induction ops arbitrary: sy routed dl)
  case Nil
  then show ?case by (auto intro: exI [of _ "[]"])
next
  case (Cons op ops)
  from Cons.prems obtain r d sy1 r' d' where s: "system_step app msg op sy = Some (r, d, sy1)"
    and run: "system_run app msg ops sy1 = Some (r', d', sy')" and eq: "routed = r @ r'" "dl = d @ d'"
    by (auto split: option.splits)
  from system_step_refines [OF s] Cons.IH [OF run] eq show ?case
    by (blast intro: node_run_append)
qed

end
