(* ===== verification/Rt_System_Safe.thy ===== *)
theory Rt_System_Safe
  imports Rt_System
begin

text \<open>
  What the running process delivers and to whom: the invariant of \<open>Rt_System\<close> and the end-to-end
  properties, from the frame a client sends to the event another one is handed.
\<close>

subsection \<open>Orderly sessions\<close>

text \<open>A frame is orderly when it subscribes under identifiers its connection does not hold, each once, with
  patterns and fields that hold no NUL.  The other steps always are.\<close>

definition orderly_op :: "'r App \<Rightarrow> sys_op \<Rightarrow> 'r System \<Rightarrow> bool" where
  "orderly_op app op sy = (case op of
       SySession c ev \<Rightarrow>
         let subs = event_subscriptions app c ev
         in distinct (map sb_sub subs) \<and>
            list_all (\<lambda>sub. sub_clean sub \<and>
              dm_get (rg_by_sub_id (sy_registry sy)) (c, sub_raw (sb_sub sub)) = None) subs
     | _ \<Rightarrow> True)"

fun orderly :: "'r App \<Rightarrow> string \<Rightarrow> sys_op list \<Rightarrow> 'r System \<Rightarrow> bool" where
  "orderly app msg [] sy = True"
| "orderly app msg (op # ops) sy =
     (orderly_op app op sy \<and>
      (case system_step app msg op sy of None \<Rightarrow> True | Some (_, _, sy) \<Rightarrow> orderly app msg ops sy))"

lemma message_subscription:
  "sub \<in> set (message_subscriptions app c m) \<Longrightarrow> sb_conn sub = c \<and> parsed_pattern (sb_topic sub)"
  by (cases m) (auto simp: message_subscriptions_def make_subscription_def)

lemma asked_subscriptions:
  assumes "sub \<in> set (event_subscriptions app c ev)"
  shows "sb_conn sub = c \<and> parsed_pattern (sb_topic sub)"
proof -
  from assms obtain frame where "sub \<in> set (frame_subscriptions app c frame)"
    by (cases ev) (auto simp: event_subscriptions_def)
  then obtain line where "frame = WsText line" by (cases frame) (auto simp: frame_subscriptions_def)
  with \<open>sub \<in> set (frame_subscriptions app c frame)\<close> message_subscription show ?thesis
    by (cases "fm_client (app_format app) line") (auto simp: frame_subscriptions_def)
qed

lemma subscribe_seq_inv:
  assumes "subscribe_seq x subs r = Some r'" and "rg_inv x r" and "fields_clean (rg_filter_index r)"
    and "\<forall>sub\<in>set subs. sb_conn sub = c \<and> parsed_pattern (sb_topic sub) \<and> sub_clean sub \<and>
          dm_get (rg_by_sub_id r) (c, sub_raw (sb_sub sub)) = None"
    and "distinct (map sb_sub subs)"
  shows "rg_inv x r' \<and> fields_clean (rg_filter_index r')"
  using assms
proof (induction subs arbitrary: r)
  case (Cons sub subs)
  then obtain r1 res where s: "subscribe x sub None r = Some (r1, res)" and rest: "subscribe_seq x subs r1 = Some r'"
    by (auto simp: bind_eq_Some_conv)
  have clean: "fields_clean (rg_filter_index r1)"
    using subscribe_clean [OF Cons.prems(3) _ s] Cons.prems(4) by simp
  have "rg_inv x r1 \<and>
      (\<forall>s. s \<noteq> sb_sub sub \<longrightarrow> dm_get (rg_by_sub_id r1) (c, sub_raw s) = dm_get (rg_by_sub_id r) (c, sub_raw s))"
  proof (cases res)
    case (Inl e)
    with subscribe_rejected [OF Cons.prems(2)] s show ?thesis by auto
  next
    case (Inr u)
    with s have "subscribe x sub None r = Some (r1, Inr ())" by simp
    from subscribe_accepted(1,3) [OF Cons.prems(2) _ _ this] Cons.prems(4) show ?thesis by simp
  qed
  then have "rg_inv x r1" and fresh: "\<And>s. s \<noteq> sb_sub sub \<Longrightarrow>
      dm_get (rg_by_sub_id r1) (c, sub_raw s) = dm_get (rg_by_sub_id r) (c, sub_raw s)" by blast+
  moreover have "sb_sub sub' \<noteq> sb_sub sub" if "sub' \<in> set subs" for sub'
    using Cons.prems(5) imageI [OF that, of sb_sub] by auto
  ultimately show ?case
    using Cons.prems(4,5) fresh by (intro Cons.IH [OF rest _ clean]) auto
qed simp

lemma unsubscribe_clean: "fields_clean (rg_filter_index r) \<Longrightarrow> fields_clean (rg_filter_index (fst (unsubscribe c s r)))"
  by (simp add: unsubscribe_def Let_def fields_clean_remove split: option.split)

lemma remove_connection_clean:
  "fields_clean (rg_filter_index r) \<Longrightarrow> fields_clean (rg_filter_index (registry_remove_connection c r))"
proof -
  have "fields_clean (rg_filter_index r) \<Longrightarrow> fields_clean (rg_filter_index (fold (remove_entry c) es r))" for es r
    by (induction es arbitrary: r) (simp_all add: remove_entry_def Let_def fields_clean_remove)
  then show "fields_clean (rg_filter_index r) \<Longrightarrow> fields_clean (rg_filter_index (registry_remove_connection c r))"
    by (simp add: registry_remove_connection_def split: option.split)
qed

lemma subseq_distinct: "subseq xs ys \<Longrightarrow> distinct ys \<Longrightarrow> distinct xs"
  by (induction rule: list_emb.induct) (auto dest: list_emb_set)

lemma turn_registry_inv:
  assumes "turn_registry app c asked w w'" and inv: "rg_inv (fm_ext (app_format app)) (w_registry w)"
    and clean: "fields_clean (rg_filter_index (w_registry w))"
    and "\<forall>sub\<in>set asked. sb_conn sub = c \<and> parsed_pattern (sb_topic sub) \<and> sub_clean sub \<and>
          dm_get (rg_by_sub_id (w_registry w)) (c, sub_raw (sb_sub sub)) = None"
    and "distinct (map sb_sub asked)"
  shows "rg_inv (fm_ext (app_format app)) (w_registry w') \<and> fields_clean (rg_filter_index (w_registry w'))"
  using assms(1) unfolding turn_registry_def
proof (elim conjE disjE exE)
  fix subs assume sub: "subseq subs asked"
    and s: "subscribe_seq (fm_ext (app_format app)) subs (w_registry w) = Some (w_registry w')"
  have "set subs \<subseteq> set asked" using sub by (auto dest: list_emb_set)
  moreover have "distinct (map sb_sub subs)" using subseq_map [OF sub, of sb_sub] assms(5) subseq_distinct by blast
  ultimately show ?thesis using assms(4) by (intro subscribe_seq_inv [OF s inv clean]) auto
next
  fix s assume u: "w_registry w' = fst (unsubscribe c s (w_registry w))"
  obtain r' b where r': "unsubscribe c s (w_registry w) = (r', b)" by fastforce
  with unsubscribe_inv [OF inv r'] unsubscribe_clean [OF clean, of c s] u show ?thesis by simp
qed

subsection \<open>Publications and the bus\<close>

lemma publish_sent: "set (bc_sent (snd (in_process_publish msg t event b))) \<subseteq> insert event (set (bc_sent b))"
  by (auto simp: in_process_publish_def broadcast_send_def)

lemma publish_all_sent: "set (bc_sent (publish_all msg evs b)) \<subseteq> snd ` set evs \<union> set (bc_sent b)"
proof (induction evs arbitrary: b)
  case (Cons te evs)
  obtain t e where te: "te = (t, e)" by fastforce
  have "publish_all msg (te # evs) b = publish_all msg evs (snd (in_process_publish msg t e b))"
    by (simp add: publish_all_def te)
  with Cons.IH [of "snd (in_process_publish msg t e b)"] publish_sent [of msg t e b] show ?case by (auto simp: te)
qed (simp add: publish_all_def)

lemma publish_snapshots_topics:
  "\<exists>evs. w_published (publish_snapshots app tks ts w) = w_published w @ evs \<and>
     (\<forall>(t, ev) \<in> set evs. t \<in> fst ` set ts \<and> ev_type ev = ''presence'' \<and> ev_topic ev = TopicPath t)"
proof (induction ts arbitrary: tks w)
  case (Cons tm ts)
  obtain t ms where tm: "tm = (t, ms)" by fastforce
  let ?w = "publish_presence_snapshot app (tks 0) t ms w"
  from Cons.IH [of "tks \<circ> Suc" ?w] obtain evs where
    evs: "w_published (publish_snapshots app (tks \<circ> Suc) ts ?w) = w_published ?w @ evs"
      "\<forall>(t, ev) \<in> set evs. t \<in> fst ` set ts \<and> ev_type ev = ''presence'' \<and> ev_topic ev = TopicPath t" by blast
  show ?case
  proof (cases "x_to_vec (fm_ext (app_format app)) (presence_body t ms)")
    case None
    then have "?w = w" by (simp add: publish_presence_snapshot_def)
    with evs show ?thesis by (intro exI [of _ evs]) (auto simp: tm)
  next
    case (Some b)
    let ?ev = "envelope_new (tk_uuid (tks 0)) (tk_now (tks 0)) (TopicPath t) ''presence'' b"
    have "w_published ?w = w_published w @ [(t, ?ev)]"
      by (simp add: publish_presence_snapshot_def bus_publish_def Some topic_new_def)
    with evs show ?thesis by (intro exI [of _ "(t, ?ev) # evs"]) (auto simp: tm)
  qed
qed simp

subsection \<open>One round of the router\<close>

text \<open>What a delivery may be: an event of the bus with a number of its own, for a live subscription to its
  topic.\<close>

definition delivery_of :: "EventEnvelope \<Rightarrow> LocalDispatch \<Rightarrow> bool" where
  "delivery_of event d = (ld_event d = event\<lparr>ev_sequence := ev_sequence (ld_event d)\<rparr>)"

lemma delivery_topic:
  assumes "delivery_of event d" shows "ev_topic (ld_event d) = ev_topic event"
proof -
  from assms have "ev_topic (ld_event d) = ev_topic (event\<lparr>ev_sequence := ev_sequence (ld_event d)\<rparr>)"
    unfolding delivery_of_def by (rule arg_cong)
  then show ?thesis by simp
qed

definition subscribed_delivery :: "SubscriptionRegistry \<Rightarrow> EventEnvelope set \<Rightarrow> LocalDispatch \<Rightarrow> bool" where
  "subscribed_delivery r events d =
     (\<exists>event e. event \<in> events \<and> delivery_of event d \<and> live r e \<and> sb_conn (se_subscription e) = ld_conn d \<and>
        pattern_matches (sb_topic (se_subscription e)) (ev_topic event))"

lemma batch_targets:
  assumes inv: "rg_inv x r" and clean: "fields_clean (rg_filter_index r)" and "event \<in> events"
    and ms: "lookup_matches_bitmap x ck (event\<lparr>ev_sequence := k\<rparr>) r = Some (ms, r')"
    and d: "d \<in> set (message_targets (DispatchBatch (event\<lparr>ev_sequence := k\<rparr>) (map match_key ms)))"
  shows "subscribed_delivery r events d"
proof -
  from d obtain c s n where m: "(c, s, n) \<in> set ms"
    and eq: "d = \<lparr>ld_conn = c, ld_sub = s, ld_event = event\<lparr>ev_sequence := k\<rparr>\<rparr>"
    by (auto simp: message_targets_def match_key_def)
  have "delivery_of event d" by (simp add: delivery_of_def eq)
  with lookup_topic [OF inv clean ms m] assms(3) show ?thesis
    unfolding subscribed_delivery_def by (auto simp: eq)
qed

text \<open>Everything the round changes: the new deliveries are of live subscriptions.\<close>

lemma node_route_safe:
  assumes inv: "node_inv ps tss dl nd" and reg: "rg_inv x (rt_registry (nd_router nd))"
    and clean: "fields_clean (rg_filter_index (rt_registry (nd_router nd)))"
    and step: "node_route x ck nd = Some (routed, nd')"
  shows "rg_inv x (rt_registry (nd_router nd')) \<and> fields_clean (rg_filter_index (rt_registry (nd_router nd'))) \<and>
    live (rt_registry (nd_router nd')) = live (rt_registry (nd_router nd)) \<and>
    fo_conn_manager (nd_fanout nd') = fo_conn_manager (nd_fanout nd) \<and>
    bc_sent (nd_bus nd') = bc_sent (nd_bus nd) \<and>
    (\<forall>d \<in> set (in_flight (nd_fanout nd')). d \<in> set (in_flight (nd_fanout nd)) \<or>
       subscribed_delivery (rt_registry (nd_router nd)) (set (bc_sent (nd_bus nd))) d)"
proof -
  have tr: "bc_track (nd_subscriber nd) 0 ps (nd_bus nd)" using inv by (simp add: node_inv_def)
  then show ?thesis
  proof (cases rule: bc_track_next)
    case 1
    with step show ?thesis by (simp add: node_route_def)
  next
    case (2 b)
    then have "nd' = nd\<lparr>nd_bus := b\<rparr>" using step by (simp add: node_route_def)
    moreover have "bc_sent b = bc_sent (nd_bus nd)" using next_event_keeps [OF 2(1)] by blast
    ultimately show ?thesis using reg clean by simp
  next
    case (3 p b)
    let ?e = "bc_sent (nd_bus nd) ! p"
    let ?r = "(nd_router nd)\<lparr>rt_dispatch_tx := fo_rx (nd_fanout nd)\<rparr>"
    have "p < length (bc_sent b)" using 3(3) by (simp add: bc_track_def track_ok_def)
    then have e: "?e \<in> set (bc_sent (nd_bus nd))" by (simp add: 3(2))
    obtain n r where rt: "route_event x ck ?e ?r = Some (n, r)"
      and nd': "nd' = nd\<lparr>nd_bus := b, nd_router := r, nd_fanout := (nd_fanout nd)\<lparr>fo_rx := rt_dispatch_tx r\<rparr>\<rparr>"
      using step 3(1) by (auto simp: node_route_def split: option.splits)
    have reg': "rg_inv x (rt_registry ?r)" using reg by simp
    let ?k = "sequence_current (topic_str (ev_topic ?e)) (rt_sequence_gen ?r) + 1"
    from route_event_effect [OF rg_inv_safe [OF reg'] refl, of x ck ?e] obtain ms r1 where
      r1: "route_event x ck ?e ?r = Some (length ms, r1)"
      and ms: "map_option fst (lookup_matches_bitmap x ck (?e\<lparr>ev_sequence := ?k\<rparr>) (rt_registry ?r)) = Some ms"
      and buf: "ch_buf (rt_dispatch_tx r1) = ch_buf (rt_dispatch_tx ?r) @
         (if ms \<noteq> [] \<and> batch_sent ?r (DispatchBatch (?e\<lparr>ev_sequence := ?k\<rparr>) (map match_key ms))
          then [DispatchBatch (?e\<lparr>ev_sequence := ?k\<rparr>) (map match_key ms)] else [])" by metis
    have r: "r1 = r" using r1 rt by simp
    define us where "us = (if ms \<noteq> [] \<and> batch_sent ?r (DispatchBatch (?e\<lparr>ev_sequence := ?k\<rparr>) (map match_key ms))
      then message_targets (DispatchBatch (?e\<lparr>ev_sequence := ?k\<rparr>) (map match_key ms)) else [])"
    have flight: "in_flight (nd_fanout nd') = in_flight (nd_fanout nd) @ us"
      using buf by (simp add: nd' r us_def in_flight_def held_pending_def rx_pending_def)
    obtain rg where "lookup_matches_bitmap x ck (?e\<lparr>ev_sequence := ?k\<rparr>) (rt_registry (nd_router nd)) = Some (ms, rg)"
      using ms by auto
    note t = batch_targets [OF reg clean e this]
    have us: "subscribed_delivery (rt_registry (nd_router nd)) (set (bc_sent (nd_bus nd))) d" if "d \<in> set us" for d
      using that t by (simp add: us_def split: if_splits)
    note keep = route_event_registry [OF rt reg']
    have "live (rt_registry r) = live (rt_registry (nd_router nd))"
      using keep by (simp add: live_def fun_eq_iff)
    moreover have "fields_clean (rg_filter_index (rt_registry r))"
      using keep clean fields_clean_same by fastforce
    ultimately show ?thesis using keep us 3(2) unfolding flight by (auto simp: nd')
  qed
qed

subsection \<open>The invariant\<close>

lemma handle_dispatch_next_id:
  "mg_next_conn_id (snd (handle_dispatch d mc)) = mg_next_conn_id (snd mc)"
  by (cases mc) (simp add: handle_dispatch_def conn_try_send_queues split_beta Let_def cm_remove_def
      split: SendResult.split option.split)

lemma task_action_next_id:
  assumes "task_action a" and "fo_act a s = Some (ac, d, s')"
  shows "mg_next_conn_id (fo_conn_manager s') = mg_next_conn_id (fo_conn_manager s)"
proof (cases a)
  case ARecv
  with assms show ?thesis
    by (auto simp: fo_act_def dispatcher_recv_def Let_def split: if_splits option.splits prod.splits)
next
  case ASend
  with assms show ?thesis
    by (auto simp: fo_act_def dispatcher_send_def Let_def split: option.splits prod.splits sum.splits SendError.splits)
next
  case (AWorkerRecv i)
  with assms show ?thesis
    by (auto simp: fo_act_def worker_recv_def split: if_splits option.splits prod.splits)
next
  case (AWorkerHandle i)
  with assms show ?thesis
    by (auto simp: fo_act_def worker_handle_def split_beta Let_def handle_dispatch_next_id split: if_splits list.splits)
next
  case (AManager op)
  with assms show ?thesis
    by (cases op) (auto simp: fo_act_def manager_step_def cm_step_def queue_recv_def queue_close_def
        split: if_splits option.splits)
qed (use assms in simp)

text \<open>Who may have published an event: a publisher outside the sessions, a session that was allowed to, or
  the cleanup of a session that had joined the topic.\<close>

definition authored ::
    "'r App \<Rightarrow> (ConnectionId \<Rightarrow> string set) \<Rightarrow> EventEnvelope set \<Rightarrow> EventEnvelope \<Rightarrow> bool" where
  "authored app T E event =
     (event \<in> E \<or> (\<exists>c t. may_send app (T c) (t, event)) \<or>
      (\<exists>c t. ev_type event = ''presence'' \<and> ev_topic event = TopicPath t \<and> may_publish app (T c) t))"

definition entitled :: "'r App \<Rightarrow> (ConnectionId \<Rightarrow> string set) \<Rightarrow> EventEnvelope set \<Rightarrow> LocalDispatch \<Rightarrow> bool" where
  "entitled app T E d =
     (\<exists>event p. authored app T E event \<and> delivery_of event d \<and>
        may_subscribe app (T (ld_conn d)) p \<and> pattern_matches p (ev_topic event))"

definition registry_safe :: "'r App \<Rightarrow> (ConnectionId \<Rightarrow> string set) \<Rightarrow> SubscriptionRegistry \<Rightarrow> bool" where
  "registry_safe app T r =
     (rg_inv (fm_ext (app_format app)) r \<and> fields_clean (rg_filter_index r) \<and>
      (\<forall>e. live r e \<longrightarrow> may_subscribe app (T (sb_conn (se_subscription e))) (sb_topic (se_subscription e))))"

definition presence_safe ::
    "'r App \<Rightarrow> (ConnectionId \<Rightarrow> string set) \<Rightarrow> (ConnectionId \<rightharpoonup> 'r Session) \<Rightarrow> PresenceTracker \<Rightarrow> bool" where
  "presence_safe app T ss p =
     (presence_inv p \<and>
      (\<forall>c t. presence_at p t (conn_raw c) \<noteq> None \<longrightarrow>
         may_publish app (T c) t \<and> (\<exists>s. ss c = Some s \<and> as_authenticated (ss_auth s))))"

definition sessions_safe ::
    "'r App \<Rightarrow> (ConnectionId \<Rightarrow> string set) \<Rightarrow> u64 \<Rightarrow> (ConnectionId \<rightharpoonup> 'r Session) \<Rightarrow> bool" where
  "sessions_safe app T nxt ss =
     (\<forall>c s. ss c = Some s \<longrightarrow> ss_conn s = c \<and> auth_ok app (T c) (ss_auth s) \<and> conn_raw c < nxt)"

definition system_safe ::
    "'r App \<Rightarrow> (ConnectionId \<Rightarrow> string set) \<Rightarrow> EventEnvelope set \<Rightarrow> LocalDispatch list \<Rightarrow> nat \<Rightarrow> 'r System \<Rightarrow> bool" where
  "system_safe app T E dl n sy =
     (registry_safe app T (sy_registry sy) \<and> presence_safe app T (sy_sessions sy) (sy_presence sy) \<and>
      sessions_safe app T (mg_next_conn_id (sy_manager sy)) (sy_sessions sy) \<and>
      unat (mg_next_conn_id (sy_manager sy)) \<le> Suc n \<and>
      (\<forall>event \<in> set (bc_sent (nd_bus (sy_node sy))). authored app T E event) \<and>
      (\<forall>d \<in> set dl \<union> set (in_flight (nd_fanout (sy_node sy))). entitled app T E d) \<and>
      (\<exists>ps tss. node_inv ps tss dl (sy_node sy)))"

lemma system_safe_later: "system_safe app T E dl n sy \<Longrightarrow> system_safe app T E dl (Suc n) sy"
  by (auto simp: system_safe_def)

text \<open>The node's own steps.\<close>

lemma subscribed_entitled:
  assumes "registry_safe app T r" and "\<forall>event \<in> events. authored app T E event" and "subscribed_delivery r events d"
  shows "entitled app T E d"
  using assms unfolding subscribed_delivery_def registry_safe_def entitled_def by metis

lemma safe_publish:
  assumes safe: "system_safe app T E dl n sy" and "event \<in> E"
    and step: "system_step app msg (SyPublish t event) sy = Some (routed, d, sy')"
  shows "system_safe app T E (dl @ d) n sy'"
proof -
  let ?b = "snd (in_process_publish msg t event (nd_bus (sy_node sy)))"
  from step have sy': "sy' = sy\<lparr>sy_node := (sy_node sy)\<lparr>nd_bus := ?b\<rparr>\<rparr>" and d: "d = []"
    by (auto simp: node_part_def)
  obtain ps tss where "node_inv ps tss dl (sy_node sy)" using safe by (auto simp: system_safe_def)
  from node_step_inv [OF this, of _ msg "NdPublish t event" "[]" "[]" "(sy_node sy)\<lparr>nd_bus := ?b\<rparr>"]
  have "\<exists>ps tss. node_inv ps tss dl ((sy_node sy)\<lparr>nd_bus := ?b\<rparr>)" by auto
  moreover have "\<forall>ev \<in> set (bc_sent ?b). authored app T E ev"
    using safe publish_sent [of msg t event "nd_bus (sy_node sy)"] \<open>event \<in> E\<close>
    by (auto simp: system_safe_def authored_def)
  ultimately show ?thesis
    using safe by (simp add: system_safe_def sy' d sy_registry_def sy_manager_def)
qed

lemma safe_route:
  assumes safe: "system_safe app T E dl n sy"
    and step: "system_step app msg (SyRoute ck) sy = Some (routed, d, sy')"
  shows "system_safe app T E (dl @ d) n sy'"
proof -
  let ?x = "fm_ext (app_format app)"
  from step obtain nd where r: "node_route ?x ck (sy_node sy) = Some (routed, nd)"
    and sy': "sy' = sy\<lparr>sy_node := nd\<rparr>" and d: "d = []" by (auto simp: node_part_def)
  obtain ps tss where inv: "node_inv ps tss dl (sy_node sy)" using safe by (auto simp: system_safe_def)
  have reg: "registry_safe app T (sy_registry sy)" using safe by (simp add: system_safe_def)
  then have "rg_inv ?x (rt_registry (nd_router (sy_node sy)))"
    "fields_clean (rg_filter_index (rt_registry (nd_router (sy_node sy))))"
    by (simp_all add: registry_safe_def sy_registry_def)
  note r' = node_route_safe [OF inv this r]
  from node_inv_route [OF inv r] have "\<exists>ps tss. node_inv ps tss dl nd" by blast
  moreover have "entitled app T E d'" if "d' \<in> set dl \<union> set (in_flight (nd_fanout nd))" for d'
    using that r' safe subscribed_entitled [OF reg, of "set (bc_sent (nd_bus (sy_node sy)))" E d']
    by (auto simp: system_safe_def sy_registry_def)
  moreover have "registry_safe app T (sy_registry sy')"
    using r' reg by (simp add: registry_safe_def sy_registry_def sy')
  ultimately show ?thesis
    using safe r' by (simp add: system_safe_def sy' d sy_manager_def)
qed

lemma safe_fan:
  assumes safe: "system_safe app T E dl n sy"
    and step: "system_step app msg (SyFan a) sy = Some (routed, d, sy')"
  shows "system_safe app T E (dl @ d) n sy'"
proof -
  from step have task: "task_action a" by (auto split: if_splits)
  then have na: "\<And>m. a \<noteq> ASubmit m" by auto
  from step task obtain ac s where act: "fo_act a (nd_fanout (sy_node sy)) = Some (ac, d, s)"
    and sy': "sy' = sy\<lparr>sy_node := (sy_node sy)\<lparr>nd_fanout := s\<rparr>\<rparr>"
    by (cases a) (auto simp: node_part_def)
  with fo_act_no_submit [OF act na] have act: "fo_act a (nd_fanout (sy_node sy)) = Some ([], d, s)" by simp
  obtain ps tss where inv: "node_inv ps tss dl (sy_node sy)" using safe by (auto simp: system_safe_def)
  then have "fo_inv (nd_fanout (sy_node sy))" by (simp add: node_inv_def)
  from act_effect [OF act this] have "mset d + mset (in_flight s) = mset (in_flight (nd_fanout (sy_node sy)))" by simp
  then have "set d \<union> set (in_flight s) = set (in_flight (nd_fanout (sy_node sy)))"
    by (metis set_mset_mset set_mset_union)
  with node_inv_fan [OF inv act] task_action_next_id [OF task act] safe show ?thesis
    by (auto simp: system_safe_def sy' sy_registry_def sy_manager_def)
qed

text \<open>The sessions' steps.\<close>

lemma node_absorb_sel [simp]:
  "rt_registry (nd_router (node_absorb msg w nd)) = w_registry w"
  "fo_conn_manager (nd_fanout (node_absorb msg w nd)) = w_conn_manager w"
  "in_flight (nd_fanout (node_absorb msg w nd)) = in_flight (nd_fanout nd)"
  "nd_bus (node_absorb msg w nd) = publish_all msg (w_published w) (nd_bus nd)"
  by (simp_all add: node_absorb_def node_registry_def in_flight_def held_pending_def rx_pending_def)

lemma session_world_sel [simp]:
  "w_registry (session_world sy ctrl) = sy_registry sy" "w_conn_manager (session_world sy ctrl) = sy_manager sy"
  "w_presence (session_world sy ctrl) = sy_presence sy" "w_published (session_world sy ctrl) = []"
  by (simp_all add: session_world_def)

lemma safe_absorb:
  assumes safe: "system_safe app T E dl n sy"
    and step: "system_step app msg op sy = Some ([], [], session_absorb msg s sy)"
    and "registry_safe app T (w_registry (ss_world s))"
    and "presence_safe app T ((sy_sessions sy)(ss_conn s \<mapsto> s)) (w_presence (ss_world s))"
    and "sessions_safe app T (mg_next_conn_id (w_conn_manager (ss_world s))) ((sy_sessions sy)(ss_conn s \<mapsto> s))"
    and "unat (mg_next_conn_id (w_conn_manager (ss_world s))) \<le> Suc n'"
    and pub: "\<forall>(t, ev) \<in> set (w_published (ss_world s)). authored app T E ev"
  shows "system_safe app T E dl n' (session_absorb msg s sy)"
proof -
  obtain ps tss where inv: "node_inv ps tss dl (sy_node sy)" using safe by (auto simp: system_safe_def)
  obtain nops where "node_run (fm_ext (app_format app)) msg nops (sy_node sy) =
      Some ([], [], node_absorb msg (ss_world s) (sy_node sy))"
    using system_step_refines [OF step] by (auto simp: session_absorb_def)
  from node_run_inv [OF inv this] have "\<exists>ps tss. node_inv ps tss dl (node_absorb msg (ss_world s) (sy_node sy))" by auto
  moreover have "authored app T E ev"
    if "ev \<in> set (bc_sent (publish_all msg (w_published (ss_world s)) (nd_bus (sy_node sy))))" for ev
  proof -
    from that publish_all_sent [of msg "w_published (ss_world s)" "nd_bus (sy_node sy)"]
    consider t where "(t, ev) \<in> set (w_published (ss_world s))" | "ev \<in> set (bc_sent (nd_bus (sy_node sy)))" by force
    then show ?thesis using safe pub by cases (auto simp: system_safe_def)
  qed
  ultimately show ?thesis
    using safe assms(3-6) by (simp add: system_safe_def session_absorb_def sy_registry_def sy_manager_def)
qed

lemma safe_connect:
  assumes safe: "system_safe app T E dl n sy" and small: "Suc (Suc n) < 2 ^ 64"
    and step: "system_step app msg (SyConnect now) sy = Some (routed, d, sy')"
  shows "system_safe app T E (dl @ d) (Suc n) sy'"
proof -
  from step obtain s where o: "session_open now (session_world sy []) = Some s"
    and sy': "sy' = session_absorb msg s sy" "routed = []" "d = []" by auto
  note e = session_open_effect [OF o]
  let ?c = "ConnectionId (mg_next_conn_id (sy_manager sy))"
  have c: "ss_conn s = ?c" and auth: "ss_auth s = auth_state_default" using e(1,2) by simp_all
  have w: "w_registry (ss_world s) = sy_registry sy" "w_presence (ss_world s) = sy_presence sy"
    "w_published (ss_world s) = []" by (subst e(3), simp)+
  have nxt: "mg_next_conn_id (w_conn_manager (ss_world s)) = mg_next_conn_id (sy_manager sy) + 1" using e(4) by simp
  have le: "unat (mg_next_conn_id (sy_manager sy)) \<le> Suc n" using safe by (simp add: system_safe_def)
  then have succ: "unat (mg_next_conn_id (sy_manager sy) + 1) = Suc (unat (mg_next_conn_id (sy_manager sy)))"
    using small by (simp add: unat_word_ariths)
  have ss: "sessions_safe app T (mg_next_conn_id (sy_manager sy)) (sy_sessions sy)" using safe by (simp add: system_safe_def)
  then have free: "sy_sessions sy ?c = None"
    by (cases "sy_sessions sy ?c") (force simp: sessions_safe_def)+
  have up: "i < mg_next_conn_id (sy_manager sy) + 1" if "i \<le> mg_next_conn_id (sy_manager sy)" for i
    using that succ by (simp add: word_less_nat_alt word_le_nat_alt)
  have "sessions_safe app T (mg_next_conn_id (w_conn_manager (ss_world s))) ((sy_sessions sy)(ss_conn s \<mapsto> s))"
    using ss up by (auto simp: sessions_safe_def c nxt auth auth_ok_def auth_state_default_def less_imp_le)
  moreover have "presence_safe app T ((sy_sessions sy)(ss_conn s \<mapsto> s)) (w_presence (ss_world s))"
    using safe free unfolding system_safe_def presence_safe_def c w by (metis fun_upd_other option.distinct(1))
  moreover have "unat (mg_next_conn_id (w_conn_manager (ss_world s))) \<le> Suc (Suc n)" using le succ by (simp add: nxt)
  moreover have "registry_safe app T (w_registry (ss_world s))" using safe by (simp add: system_safe_def w)
  ultimately show ?thesis
    using safe_absorb [OF safe, of msg "SyConnect now" s "Suc n"] step w(3) by (simp add: sy')
qed

text \<open>A session looked at alone, in the world of the moment.\<close>

lemma session_sess_ok:
  assumes safe: "system_safe app T E dl n sy" and s: "sy_sessions sy c = Some s"
  shows "ss_conn s = c \<and> sess_ok app (T c) c (session_world sy ctrl) (session_world sy ctrl) (ss_auth s)"
  using assms by (fastforce simp: system_safe_def presence_safe_def sessions_safe_def sess_ok_def)

lemma session_step_ok:
  assumes st: "session_step app ev s = Some s'" and "\<And>tks now. ev \<noteq> TaskCleanup tks now"
    and tok: "\<And>tk frame. ev = ReaderFrame tk frame \<Longrightarrow> presented app [(tk, frame)] \<subseteq> T"
    and ok: "sess_ok app T (ss_conn s) w0 (ss_world s) (ss_auth s)"
  shows "sess_ok app T (ss_conn s) w0 (ss_world s') (ss_auth s')"
proof (cases ev)
  case (ReaderFrame tk frame)
  with st obtain e w auth slot where
    r: "reader_turn app tk frame (ss_conn s) (ss_world s, ss_auth s, ss_slot s) = Some (e, w, auth, slot)"
    and "s' = s\<lparr>ss_ending := e, ss_world := w, ss_auth := auth, ss_slot := slot\<rparr>"
    by (auto simp: session_step_def split: if_splits)
  with sess_ok_turn [OF ok tok [OF ReaderFrame] r] show ?thesis by simp
next
  case (TaskCleanup tks now)
  with assms(2) show ?thesis by blast
qed (use st ok in \<open>auto simp: session_step_def split: if_splits\<close>)

lemma sess_ok_registry_safe:
  assumes reg: "registry_safe app T (w_registry w)" and ok: "sess_ok app (T c) c w w' auth"
    and inv: "rg_inv (fm_ext (app_format app)) (w_registry w')" "fields_clean (rg_filter_index (w_registry w'))"
  shows "registry_safe app T (w_registry w')"
proof -
  have "may_subscribe app (T (sb_conn (se_subscription e))) (sb_topic (se_subscription e))"
    if l: "live (w_registry w') e" for e
  proof -
    let ?c = "sb_conn (se_subscription e)" and ?p = "sb_topic (se_subscription e)"
    from l have "routes_to (w_registry w') ?c ?p" unfolding routes_to_def by blast
    with ok have "routes_to (w_registry w) ?c ?p \<or> (?c = c \<and> may_subscribe app (T c) ?p)"
      unfolding sess_ok_def by blast
    then show ?thesis
    proof
      assume "routes_to (w_registry w) ?c ?p"
      moreover have "rg_inv (fm_ext (app_format app)) (w_registry w)" using reg by (simp add: registry_safe_def)
      ultimately obtain e0 where "live (w_registry w) e0" "sb_conn (se_subscription e0) = ?c" "sb_topic (se_subscription e0) = ?p"
        using routes_live by blast
      with reg show ?thesis unfolding registry_safe_def by metis
    qed simp
  qed
  with inv show ?thesis by (simp add: registry_safe_def)
qed

lemma safe_turn:
  assumes safe: "system_safe app T E dl n sy" and s: "sy_sessions sy c = Some s"
    and orderly: "orderly_op app (SySession c ev) sy"
    and tok: "\<And>tk frame. ev = ReaderFrame tk frame \<Longrightarrow> presented app [(tk, frame)] \<subseteq> T c"
    and st: "session_step app ev (s\<lparr>ss_world := session_world sy ctrl\<rparr>) = Some s'" and nc: "\<And>tks now. ev \<noteq> TaskCleanup tks now"
    and conn: "ss_conn s' = c" and turn: "turn_registry app c (event_subscriptions app c ev) (session_world sy ctrl) (ss_world s')"
    and step: "system_step app msg (SySession c ev) sy = Some ([], [], session_absorb msg s' sy)"
  shows "system_safe app T E dl n (session_absorb msg s' sy)"
proof -
  let ?w = "session_world sy ctrl" and ?w' = "ss_world s'"
  have "ss_conn s = c" and "sess_ok app (T c) c ?w ?w (ss_auth s)" using session_sess_ok [OF safe s] by auto
  with session_step_ok [OF st nc tok, of ?w] have ok: "sess_ok app (T c) c ?w ?w' (ss_auth s')" by simp
  have reg: "registry_safe app T (w_registry ?w)" using safe by (simp add: system_safe_def)
  then have inv: "rg_inv (fm_ext (app_format app)) (w_registry ?w)" and clean: "fields_clean (rg_filter_index (w_registry ?w))"
    by (simp_all add: registry_safe_def)
  have subs: "sb_conn sub = c \<and> parsed_pattern (sb_topic sub) \<and> sub_clean sub \<and>
      dm_get (rg_by_sub_id (w_registry ?w)) (c, sub_raw (sb_sub sub)) = None"
    if "sub \<in> set (event_subscriptions app c ev)" for sub
    using that orderly asked_subscriptions [OF that] by (simp add: orderly_op_def Let_def list_all_iff)
  have "distinct (map sb_sub (event_subscriptions app c ev))" using orderly by (simp add: orderly_op_def Let_def)
  with turn_registry_inv [OF turn inv clean] subs sess_ok_registry_safe [OF reg ok]
  have reg': "registry_safe app T (w_registry ?w')" by blast
  have cm: "w_conn_manager ?w' = sy_manager sy" using turn by (simp add: turn_registry_def)
  have "presence_at (sy_presence sy) t i = presence_at (w_presence ?w') t i" if "i \<noteq> conn_raw c" for t i
    using ok that by (simp add: sess_ok_def)
  then have other: "presence_at (w_presence ?w') t (conn_raw c') = presence_at (sy_presence sy) t (conn_raw c')" if "c' \<noteq> c" for t c'
    using that by (metis ConnectionId.expand)
  have pres: "presence_safe app T ((sy_sessions sy)(ss_conn s' \<mapsto> s')) (w_presence ?w')"
    unfolding presence_safe_def
  proof (intro conjI allI impI)
    show "presence_inv (w_presence ?w')" using ok by (simp add: sess_ok_def)
  next
    fix c' t assume p: "presence_at (w_presence ?w') t (conn_raw c') \<noteq> None"
    have "may_publish app (T c') t \<and> (\<exists>s. ((sy_sessions sy)(ss_conn s' \<mapsto> s')) c' = Some s \<and> as_authenticated (ss_auth s))"
    proof (cases "c' = c")
      case True
      with p ok show ?thesis by (simp add: sess_ok_def conn)
    next
      case False
      with p other have "presence_at (sy_presence sy) t (conn_raw c') \<noteq> None" by simp
      with False safe show ?thesis by (simp add: system_safe_def presence_safe_def conn)
    qed
    then show "may_publish app (T c') t"
      and "\<exists>s. ((sy_sessions sy)(ss_conn s' \<mapsto> s')) c' = Some s \<and> as_authenticated (ss_auth s)" by auto
  qed
  have "sessions_safe app T (mg_next_conn_id (sy_manager sy)) (sy_sessions sy)" using safe by (simp add: system_safe_def)
  with s ok have sess: "sessions_safe app T (mg_next_conn_id (w_conn_manager ?w')) ((sy_sessions sy)(ss_conn s' \<mapsto> s'))"
    by (auto simp: sessions_safe_def conn cm sess_ok_def)
  have "\<forall>(t, e) \<in> set (w_published ?w'). authored app T E e"
    using ok by (auto simp: sess_ok_def authored_def)
  with safe_absorb [OF safe step reg' pres sess, of n] safe show ?thesis by (simp add: cm system_safe_def)
qed

lemma safe_cleanup:
  assumes safe: "system_safe app T E dl n sy" and s: "sy_sessions sy c = Some s" and conn: "ss_conn s' = c"
    and auth: "ss_auth s' = ss_auth s"
    and cl: "connection_cleanup app tks c (session_world sy ctrl) = Some (ss_world s')"
    and step: "system_step app msg (SySession c ev) sy = Some ([], [], session_absorb msg s' sy)"
  shows "system_safe app T E dl n (session_absorb msg s' sy)"
proof -
  let ?w' = "ss_world s'"
  note eff = connection_cleanup_effect [OF cl]
  have reg: "registry_safe app T (sy_registry sy)" using safe by (simp add: system_safe_def)
  have w': "w_registry ?w' = registry_remove_connection c (sy_registry sy)" using eff(1) by simp
  have "rg_inv (fm_ext (app_format app)) (sy_registry sy)" and "fields_clean (rg_filter_index (sy_registry sy))"
    using reg by (simp_all add: registry_safe_def)
  note rm = remove_connection_inv [OF this(1) w'] remove_connection_clean [OF this(2), of c]
  have reg': "registry_safe app T (w_registry ?w')"
    using rm reg by (simp add: registry_safe_def w')
  have cm: "mg_next_conn_id (w_conn_manager ?w') = mg_next_conn_id (sy_manager sy)" by (simp add: eff(3) cm_remove_def)
  obtain ci where ci: "c = ConnectionId ci" by (cases c)
  obtain affected p' where r: "presence_remove_connection c (sy_presence sy) = (affected, p')" by fastforce
  have "presence_inv (sy_presence sy)" using safe by (simp add: system_safe_def presence_safe_def)
  note pc = presence_cleared [OF this r [unfolded ci]]
  have p': "w_presence ?w' = p'" using eff(2) r by simp
  have "sessions_safe app T (mg_next_conn_id (sy_manager sy)) (sy_sessions sy)" using safe by (simp add: system_safe_def)
  with s have sess: "sessions_safe app T (mg_next_conn_id (w_conn_manager ?w')) ((sy_sessions sy)(ss_conn s' \<mapsto> s'))"
    by (auto simp: sessions_safe_def conn cm auth)
  have old: "may_publish app (T c') t \<and> (\<exists>s. sy_sessions sy c' = Some s \<and> as_authenticated (ss_auth s))"
    if "presence_at (sy_presence sy) t (conn_raw c') \<noteq> None" for c' t
    using that safe by (simp add: system_safe_def presence_safe_def)
  have pres: "presence_safe app T ((sy_sessions sy)(ss_conn s' \<mapsto> s')) (w_presence ?w')"
    unfolding presence_safe_def
  proof (intro conjI allI impI)
    show "presence_inv (w_presence ?w')" using pc p' by simp
  next
    fix c' t assume "presence_at (w_presence ?w') t (conn_raw c') \<noteq> None"
    then have raw: "conn_raw c' \<noteq> ci" and at: "presence_at (sy_presence sy) t (conn_raw c') \<noteq> None"
      using pc unfolding p' by metis+
    from raw have "c' \<noteq> c" unfolding ci by (metis ConnectionId.sel)
    with old [OF at] show "may_publish app (T c') t"
      and "\<exists>s. ((sy_sessions sy)(ss_conn s' \<mapsto> s')) c' = Some s \<and> as_authenticated (ss_auth s)"
      by (simp_all add: conn)
  qed
  obtain w1 where w1: "w_published w1 = []" "w_published ?w' = w_published (publish_snapshots app tks affected w1)"
    using eff(4) r by auto
  have "\<forall>(t, e) \<in> set (w_published ?w'). authored app T E e"
  proof clarify
    fix t e assume te: "(t, e) \<in> set (w_published ?w')"
    from publish_snapshots_topics [of app tks affected w1] w1 te
    have "t \<in> fst ` set affected" and e: "ev_type e = ''presence''" "ev_topic e = TopicPath t" by auto
    then have "presence_at (sy_presence sy) t (conn_raw c) \<noteq> None" using pc by (auto simp: ci)
    from old [OF this] e show "authored app T E e" unfolding authored_def by blast
  qed
  with safe_absorb [OF safe step reg' pres sess, of n] safe show ?thesis by (simp add: cm system_safe_def)
qed

lemma safe_session:
  assumes safe: "system_safe app T E dl n sy" and orderly: "orderly_op app (SySession c ev) sy"
    and tok: "\<And>tk frame. ev = ReaderFrame tk frame \<Longrightarrow> presented app [(tk, frame)] \<subseteq> T c"
    and step: "system_step app msg (SySession c ev) sy = Some (routed, d, sy')"
  shows "system_safe app T E (dl @ d) n sy'"
proof -
  from step obtain s s' where s: "sy_sessions sy c = Some s"
    and st: "session_step app ev (s\<lparr>ss_world := session_world sy (w_ctrl (ss_world s))\<rparr>) = Some s'"
    and sy': "sy' = session_absorb msg s' sy" "routed = []" "d = []" by (auto split: option.splits)
  have step': "system_step app msg (SySession c ev) sy = Some ([], [], session_absorb msg s' sy)"
    using step sy' by simp
  have conn: "ss_conn s = c" using session_sess_ok [OF safe s] by blast
  from st have "system_safe app T E dl n (session_absorb msg s' sy)"
  proof (cases rule: session_step_turn)
    case turn
    show ?thesis
    proof (cases "\<exists>tks now. ev = TaskCleanup tks now")
      case True
      then obtain tks now where ev: "ev = TaskCleanup tks now" by blast
      with st obtain w where "connection_cleanup app tks c (session_world sy (w_ctrl (ss_world s))) = Some w"
        and "ss_world s' = w" "ss_conn s' = c" "ss_auth s' = ss_auth s"
        by (auto simp: session_step_def conn split: if_splits)
      with safe_cleanup [OF safe s _ _ _ step'] show ?thesis by simp
    next
      case False
      with turn conn safe_turn [OF safe s orderly tok st _ _ _ step'] show ?thesis by simp
    qed
  next
    case (cleanup tks now)
    with conn safe_cleanup [OF safe s _ _ _ step'] show ?thesis by simp
  qed
  then show ?thesis by (simp add: sy')
qed

subsection \<open>Runs\<close>

text \<open>The frames read from a connection, the tokens presented on it, and the events published from outside
  the sessions.\<close>

definition session_frames :: "ConnectionId \<Rightarrow> sys_op list \<Rightarrow> (Tick \<times> ws_frame) list" where
  "session_frames c ops =
     concat (map (\<lambda>op. case op of
         SySession c' (ReaderFrame tk frame) \<Rightarrow> if c' = c then [(tk, frame)] else []
       | _ \<Rightarrow> []) ops)"

definition presented_on :: "'r App \<Rightarrow> sys_op list \<Rightarrow> ConnectionId \<Rightarrow> string set" where
  "presented_on app ops c = presented app (session_frames c ops)"

definition outside :: "sys_op list \<Rightarrow> EventEnvelope set" where
  "outside ops = {event. \<exists>t. SyPublish t event \<in> set ops}"

lemma presented_step:
  "presented_on app (SySession c (ReaderFrame tk frame) # ops) c \<subseteq> T \<Longrightarrow> presented app [(tk, frame)] \<subseteq> T"
  by (auto simp: presented_on_def session_frames_def presented_def)

lemma presented_rest: "presented_on app ops c \<subseteq> presented_on app (op # ops) c"
  by (auto simp: presented_on_def session_frames_def presented_def)

lemma system_step_safe:
  assumes safe: "system_safe app T E dl n sy" and small: "Suc (Suc n) < 2 ^ 64"
    and "orderly_op app op sy" and tok: "\<And>c. presented_on app (op # ops) c \<subseteq> T c" and "outside (op # ops) \<subseteq> E"
    and step: "system_step app msg op sy = Some (routed, d, sy')"
  shows "system_safe app T E (dl @ d) (Suc n) sy'"
proof (cases op)
  case (SyConnect now)
  from safe_connect [OF safe small step [unfolded SyConnect]] show ?thesis .
next
  case (SySession c ev)
  have "presented app [(tk, frame)] \<subseteq> T c" if "ev = ReaderFrame tk frame" for tk frame
    using tok [of c] that SySession by (intro presented_step) simp
  from safe_session [OF safe assms(3) [unfolded SySession] this step [unfolded SySession]] show ?thesis
    by (rule system_safe_later)
next
  case (SyPublish t event)
  with assms(5) have "event \<in> E" by (auto simp: outside_def)
  from safe_publish [OF safe this step [unfolded SyPublish]] show ?thesis by (rule system_safe_later)
next
  case (SyRoute ck)
  from safe_route [OF safe step [unfolded SyRoute]] show ?thesis by (rule system_safe_later)
next
  case (SyFan a)
  from safe_fan [OF safe step [unfolded SyFan]] show ?thesis by (rule system_safe_later)
qed

lemma system_run_safe:
  "system_safe app T E dl n sy \<Longrightarrow> n + length ops + 1 < 2 ^ 64 \<Longrightarrow> orderly app msg ops sy \<Longrightarrow>
   (\<And>c. presented_on app ops c \<subseteq> T c) \<Longrightarrow> outside ops \<subseteq> E \<Longrightarrow>
   system_run app msg ops sy = Some (routed, d, sy') \<Longrightarrow> system_safe app T E (dl @ d) (n + length ops) sy'"
proof (induction ops arbitrary: dl n sy routed d)
  case (Cons op ops)
  from Cons.prems(6) obtain r1 d1 sy1 r2 d2 where s: "system_step app msg op sy = Some (r1, d1, sy1)"
    and run: "system_run app msg ops sy1 = Some (r2, d2, sy')" and d: "d = d1 @ d2"
    by (auto split: option.splits)
  have "system_safe app T E (dl @ d1) (Suc n) sy1"
    using Cons.prems(1-5) by (intro system_step_safe [OF _ _ _ Cons.prems(4) Cons.prems(5) s]) auto
  moreover have "presented_on app ops c \<subseteq> T c" for c using Cons.prems(4) presented_rest by blast
  moreover have "outside ops \<subseteq> E" using Cons.prems(5) by (auto simp: outside_def)
  moreover have "orderly app msg ops sy1" using Cons.prems(3) s by simp
  ultimately have "system_safe app T E ((dl @ d1) @ d2) (Suc n + length ops) sy'"
    using Cons.prems(2) by (intro Cons.IH [OF _ _ _ _ _ run]) auto
  then show ?case by (simp add: d)
qed simp

lemma system_start_safe:
  assumes "system_start par ring m config redis = Some sy" and "par \<noteq> Some 0"
    and "unat (max_total_subscriptions (en_limits (sv_engine config))) \<le> 2 ^ 32"
  shows "system_safe app T E [] 0 sy"
proof -
  from assms(1) obtain nd where nd: "node_start par ring m config = Some nd"
    and sy: "sy = \<lparr>sy_node = nd, sy_sessions = Map.empty, sy_presence = [], sy_redis = redis\<rparr>"
    by (auto simp: system_start_def)
  from node_start_inv [OF nd assms(2)] have inv: "node_inv [] [] [] nd" by blast
  then have "bc_at (nd_bus nd) [] = []" and flight: "in_flight (nd_fanout nd) = []" by (simp_all add: node_inv_def bc_at_def)
  obtain bus where "build_event_bus ring config = Some (Inl bus)"
    using nd by (auto simp: node_start_def split: option.splits sum.splits)
  with nd have reg: "rt_registry (nd_router nd) = registry_with_limits (en_limits (sv_engine config))"
    and cm: "fo_conn_manager (nd_fanout nd) = cm_new (pf_send_queue_capacity (sv_performance config))"
    and sent: "bc_sent (nd_bus nd) = bc_sent bus"
    by (auto simp: node_start_def build_core_def build_fanout_def wire_router_def router_new_def
        in_process_subscriber_def fanout_start_def Let_def split_beta)
  have "bc_sent bus = []"
    using \<open>build_event_bus ring config = Some (Inl bus)\<close>
    by (cases "sv_event_bus config") (auto simp: build_event_bus_def in_process_bus_new_def split: if_splits)
  moreover have "registry_safe app T (registry_with_limits (en_limits (sv_engine config)))"
    using rg_inv_new [OF assms(3)]
    by (simp add: registry_safe_def registry_with_limits_def fields_clean_new live_def)
  ultimately show ?thesis
    using inv flight
    by (auto simp: system_safe_def sy sy_registry_def sy_manager_def reg cm sent presence_safe_def sessions_safe_def
        cm_new_def presence_inv_def presence_at_def)
qed

subsection \<open>Closed connections\<close>

text \<open>A connection whose reader has ended and whose task has cleaned up: nothing is routed to it any more,
  and its session takes no further step.\<close>

definition gone :: "ConnectionId \<Rightarrow> 'r System \<Rightarrow> bool" where
  "gone c sy =
     ((\<forall>e. live (sy_registry sy) e \<longrightarrow> sb_conn (se_subscription e) \<noteq> c) \<and>
      (\<exists>s. sy_sessions sy c = Some s \<and> ss_phase s = Closed \<and> ss_ending s \<noteq> None))"

lemma closed_no_step:
  "ss_phase s = Closed \<Longrightarrow> ss_ending s \<noteq> None \<Longrightarrow> session_step app ev s = None"
  by (cases ev) (simp_all add: session_step_def)

lemma session_step_live:
  assumes safe: "system_safe app T E dl n sy" and s: "sy_sessions sy c = Some s"
    and tok: "\<And>tk frame. ev = ReaderFrame tk frame \<Longrightarrow> presented app [(tk, frame)] \<subseteq> T c"
    and st: "session_step app ev (s\<lparr>ss_world := session_world sy ctrl\<rparr>) = Some s'"
    and l: "live (w_registry (ss_world s')) e" and other: "sb_conn (se_subscription e) \<noteq> c"
  shows "\<exists>e0. live (sy_registry sy) e0 \<and> sb_conn (se_subscription e0) = sb_conn (se_subscription e)"
proof -
  let ?c = "sb_conn (se_subscription e)" and ?p = "sb_topic (se_subscription e)"
  have inv: "rg_inv (fm_ext (app_format app)) (sy_registry sy)"
    using safe by (simp add: system_safe_def registry_safe_def)
  have ok: "ss_conn s = c" "sess_ok app (T c) c (session_world sy ctrl) (session_world sy ctrl) (ss_auth s)"
    using session_sess_ok [OF safe s] by auto
  from l have rt: "routes_to (w_registry (ss_world s')) ?c ?p" unfolding routes_to_def by blast
  have "routes_to (sy_registry sy) ?c ?p"
  proof (cases "\<exists>tks now. ev = TaskCleanup tks now")
    case True
    then obtain tks now where "ev = TaskCleanup tks now" by blast
    with st obtain w where "connection_cleanup app tks c (session_world sy ctrl) = Some w" and "ss_world s' = w"
      by (auto simp: session_step_def ok(1) split: if_splits)
    with connection_cleanup_effect(1) [OF this(1)] rt remove_connection_routes show ?thesis by fastforce
  next
    case False
    with session_step_ok [OF st _ tok, of "session_world sy ctrl"] ok
    have "sess_ok app (T c) c (session_world sy ctrl) (ss_world s') (ss_auth s')" by simp
    with rt other show ?thesis by (fastforce simp: sess_ok_def)
  qed
  then show ?thesis using routes_live [OF inv] by blast
qed

lemma gone_step:
  assumes safe: "system_safe app T E dl n sy" and small: "Suc (Suc n) < 2 ^ 64" and g: "gone c sy"
    and tok: "\<And>c. presented_on app (op # ops) c \<subseteq> T c"
    and step: "system_step app msg op sy = Some (routed, d, sy')"
  shows "gone c sy' \<and> (\<forall>d' \<in> set d \<union> set (in_flight (nd_fanout (sy_node sy'))). ld_conn d' = c \<longrightarrow>
    d' \<in> set (in_flight (nd_fanout (sy_node sy))))"
proof -
  obtain s where s: "sy_sessions sy c = Some s" "ss_phase s = Closed" "ss_ending s \<noteq> None"
    and none: "\<And>e. live (sy_registry sy) e \<Longrightarrow> sb_conn (se_subscription e) \<noteq> c"
    using g by (auto simp: gone_def)
  show ?thesis
  proof (cases op)
    case (SyConnect now)
    with step obtain s1 where o: "session_open now (session_world sy []) = Some s1"
      and sy': "sy' = session_absorb msg s1 sy" "d = []" by auto
    have "w_registry (ss_world s1) = sy_registry sy" by (subst session_open_effect(3) [OF o]) simp
    moreover have "conn_raw c < mg_next_conn_id (sy_manager sy)"
      using safe s(1) by (simp add: system_safe_def sessions_safe_def)
    then have "ss_conn s1 \<noteq> c" using session_open_effect(1) [OF o] by auto
    ultimately show ?thesis using g by (simp add: gone_def sy' session_absorb_def sy_registry_def)
  next
    case (SySession c' ev)
    with step obtain s0 s1 where s0: "sy_sessions sy c' = Some s0"
      and st: "session_step app ev (s0\<lparr>ss_world := session_world sy (w_ctrl (ss_world s0))\<rparr>) = Some s1"
      and sy': "sy' = session_absorb msg s1 sy" "d = []" by (auto split: option.splits)
    have "c' \<noteq> c" using s s0 st closed_no_step [of "s\<lparr>ss_world := session_world sy (w_ctrl (ss_world s))\<rparr>" app ev] by auto
    have "ss_conn s1 = c'"
      using st session_sess_ok [OF safe s0] by (cases rule: session_step_turn) auto
    have tok': "presented app [(tk, frame)] \<subseteq> T c'" if "ev = ReaderFrame tk frame" for tk frame
      using tok [of c'] that SySession by (intro presented_step) simp
    have "sb_conn (se_subscription e) \<noteq> c" if "live (w_registry (ss_world s1)) e" for e
    proof (cases "sb_conn (se_subscription e) = c'")
      case False
      from session_step_live [OF safe s0 tok' st that this] none show ?thesis by auto
    qed (use \<open>c' \<noteq> c\<close> in simp)
    with s \<open>c' \<noteq> c\<close> \<open>ss_conn s1 = c'\<close> show ?thesis
      by (simp add: gone_def sy' session_absorb_def sy_registry_def)
  next
    case (SyPublish t e)
    with step g show ?thesis by (auto simp: node_part_def gone_def sy_registry_def)
  next
    case (SyRoute ck)
    with step obtain nd where r: "node_route (fm_ext (app_format app)) ck (sy_node sy) = Some (routed, nd)"
      and sy': "sy' = sy\<lparr>sy_node := nd\<rparr>" "d = []" by (auto simp: node_part_def)
    obtain ps tss where inv: "node_inv ps tss dl (sy_node sy)" using safe by (auto simp: system_safe_def)
    have "rg_inv (fm_ext (app_format app)) (rt_registry (nd_router (sy_node sy)))"
      "fields_clean (rg_filter_index (rt_registry (nd_router (sy_node sy))))"
      using safe by (simp_all add: system_safe_def registry_safe_def sy_registry_def)
    note r' = node_route_safe [OF inv this r]
    have "d' \<in> set (in_flight (nd_fanout (sy_node sy)))"
      if "d' \<in> set (in_flight (nd_fanout nd))" "ld_conn d' = c" for d'
      using that r' none by (auto simp: subscribed_delivery_def sy_registry_def)
    with r' g show ?thesis by (simp add: gone_def sy' sy_registry_def)
  next
    case (SyFan a)
    with step have task: "task_action a" by (auto split: if_splits)
    then have na: "\<And>m. a \<noteq> ASubmit m" by auto
    from step SyFan task obtain ac f where act: "fo_act a (nd_fanout (sy_node sy)) = Some (ac, d, f)"
      and sy': "sy' = sy\<lparr>sy_node := (sy_node sy)\<lparr>nd_fanout := f\<rparr>\<rparr>"
      by (cases a) (auto simp: node_part_def)
    with fo_act_no_submit [OF act na] have act: "fo_act a (nd_fanout (sy_node sy)) = Some ([], d, f)" by simp
    have "fo_inv (nd_fanout (sy_node sy))" using safe by (auto simp: system_safe_def node_inv_def)
    from act_effect [OF act this] have "mset d + mset (in_flight f) = mset (in_flight (nd_fanout (sy_node sy)))" by simp
    then have "set d \<union> set (in_flight f) = set (in_flight (nd_fanout (sy_node sy)))"
      by (metis set_mset_mset set_mset_union)
    with g show ?thesis by (simp add: gone_def sy' sy_registry_def)
  qed
qed

lemma cleanup_gone:
  assumes safe: "system_safe app T E dl n sy" and s: "sy_sessions sy c = Some s" "ss_ending s \<noteq> None"
    and step: "system_step app msg (SySession c (TaskCleanup tks now)) sy = Some (r, d, sy')"
  shows "gone c sy' \<and> in_flight (nd_fanout (sy_node sy')) = in_flight (nd_fanout (sy_node sy))"
proof -
  let ?w = "session_world sy (w_ctrl (ss_world s))"
  have conn: "ss_conn s = c" using session_sess_ok [OF safe s(1)] by blast
  from step s(1) obtain s' where st: "session_step app (TaskCleanup tks now) (s\<lparr>ss_world := ?w\<rparr>) = Some s'"
    and sy': "sy' = session_absorb msg s' sy" by (auto split: option.splits)
  then obtain w where cl: "connection_cleanup app tks c ?w = Some w" and s': "ss_world s' = w" "ss_conn s' = c"
    "ss_phase s' = Closed" "ss_ending s' = ss_ending s"
    by (auto simp: session_step_def conn split: if_splits)
  have "rg_inv (fm_ext (app_format app)) (sy_registry sy)"
    using safe by (simp add: system_safe_def registry_safe_def)
  from remove_connection_inv [OF this refl, of c] connection_cleanup_effect(1) [OF cl] s s'
  show ?thesis by (auto simp: gone_def sy' session_absorb_def sy_registry_def)
qed

lemma gone_run:
  "system_safe app T E dl n sy \<Longrightarrow> n + length ops + 1 < 2 ^ 64 \<Longrightarrow> orderly app msg ops sy \<Longrightarrow>
   (\<And>c. presented_on app ops c \<subseteq> T c) \<Longrightarrow> outside ops \<subseteq> E \<Longrightarrow> gone c sy \<Longrightarrow>
   system_run app msg ops sy = Some (routed, d, sy') \<Longrightarrow>
   gone c sy' \<and> (\<forall>d' \<in> set d \<union> set (in_flight (nd_fanout (sy_node sy'))). ld_conn d' = c \<longrightarrow>
     d' \<in> set (in_flight (nd_fanout (sy_node sy))))"
proof (induction ops arbitrary: dl n sy routed d)
  case (Cons op ops)
  from Cons.prems(7) obtain r1 d1 sy1 r2 d2 where s: "system_step app msg op sy = Some (r1, d1, sy1)"
    and run: "system_run app msg ops sy1 = Some (r2, d2, sy')" and d: "d = d1 @ d2"
    by (auto split: option.splits)
  have small: "Suc (Suc n) < 2 ^ 64" and o: "orderly_op app op sy" and o': "orderly app msg ops sy1"
    using Cons.prems(2,3) s by auto
  note g = gone_step [OF Cons.prems(1) small Cons.prems(6,4) s]
  have "system_safe app T E (dl @ d1) (Suc n) sy1"
    by (rule system_step_safe [OF Cons.prems(1) small o Cons.prems(4,5) s])
  moreover have "presented_on app ops c \<subseteq> T c" for c using Cons.prems(4) presented_rest by blast
  moreover have "outside ops \<subseteq> E" using Cons.prems(5) by (auto simp: outside_def)
  moreover have "Suc n + length ops + 1 < 2 ^ 64" using Cons.prems(2) by simp
  ultimately have "gone c sy' \<and> (\<forall>d' \<in> set d2 \<union> set (in_flight (nd_fanout (sy_node sy'))). ld_conn d' = c \<longrightarrow>
     d' \<in> set (in_flight (nd_fanout (sy_node sy1))))"
    using Cons.IH [OF _ _ o' _ _ _ run] g by blast
  with g show ?case unfolding d by auto
qed simp

subsection \<open>Properties\<close>

text \<open>
  C1: End-to-end authorization.  Run the process from its start in any interleaving of connecting
  clients, their frames, outside publishers, the router, the fan-out and the writers, the sessions
  subscribing in order.  Every event delivered to a connection, or on its way there, matches a pattern
  that the provider let that connection subscribe to, for claims it gave for a token presented on it.
  And the event is one an outside publisher published, or one a session published with the provider's
  leave and under its own name, or the presence event of a session that had joined the topic with it.
  A call into the registry or the index is one step here; \<open>Rt_Index_Tasks\<close> interleaves inside the index.
\<close>

theorem system_delivers_authorized:
  assumes "system_start par ring m config redis = Some sy0" and "par \<noteq> Some 0"
    and "unat (max_total_subscriptions (en_limits (sv_engine config))) \<le> 2 ^ 32"
    and "length ops + 1 < 2 ^ 64" and "orderly app msg ops sy0"
    and "system_run app msg ops sy0 = Some (routed, dl, sy)"
  shows "list_all (entitled app (presented_on app ops) (outside ops)) (dl @ in_flight (nd_fanout (sy_node sy)))"
proof -
  let ?T = "presented_on app ops" and ?E = "outside ops"
  from system_run_safe [OF system_start_safe [OF assms(1-3)] _ assms(5) _ _ assms(6), of ?T ?E] assms(4)
  have "system_safe app ?T ?E dl (length ops) sy" by simp
  then show ?thesis by (auto simp: system_safe_def list_all_iff)
qed

text \<open>
  C8: The process is its node.  Every run of the whole process, sessions, writers and publishers
  included, is a run of the node alone that takes the same events and makes the same deliveries, so
  what holds of the node's interleavings (order, numbering, completeness) holds of the process.
\<close>

theorem system_refines_node:
  assumes "system_run app msg ops sy = Some (routed, dl, sy')"
  shows "\<exists>nops. node_run (fm_ext (app_format app)) msg nops (sy_node sy) = Some (routed, dl, sy_node sy')"
  using system_run_refines [OF assms] .

text \<open>
  C6: A disconnected client is forgotten, when the clients are orderly before and after: each frame
  subscribes under identifiers its connection does not hold, each once, and with no NUL in its patterns
  and fields (\<open>orderly\<close>; a client that repeats an identifier can leave a slot behind).  In a process started with a
  total subscription limit of at most 2 to the 32 and a parallelism that is not zero, over fewer than 2 to the 64 steps: once the
  connection task has cleaned up after its reader ended, whatever orderly steps the process takes then, no
  subscription of the connection comes back, and the only events still handed to it are those that were
  under way at that moment.
\<close>

theorem disconnected_stays_silent:
  assumes "system_start par ring m config redis = Some sy0" and "par \<noteq> Some 0"
    and "unat (max_total_subscriptions (en_limits (sv_engine config))) \<le> 2 ^ 32"
    and "length before + length after + 2 < 2 ^ 64"
    and "orderly app msg before sy0" and "system_run app msg before sy0 = Some (r1, d1, sy1)"
    and "sy_sessions sy1 c = Some s" and "ss_ending s \<noteq> None"
    and "system_step app msg (SySession c (TaskCleanup tks now)) sy1 = Some (r2, d2, sy2)"
    and "orderly app msg after sy2" and "system_run app msg after sy2 = Some (r3, d3, sy3)"
  shows "(\<forall>e. live (sy_registry sy3) e \<longrightarrow> sb_conn (se_subscription e) \<noteq> c) \<and>
    list_all (\<lambda>d. ld_conn d = c \<longrightarrow> d \<in> set (in_flight (nd_fanout (sy_node sy1))))
      (d3 @ in_flight (nd_fanout (sy_node sy3)))"
proof -
  let ?op = "SySession c (TaskCleanup tks now)"
  define T where "T = presented_on app (before @ after)"
  define E where "E = outside (before @ after)"
  have TE: "presented_on app before c \<subseteq> T c" "presented_on app after c \<subseteq> T c" "presented_on app [?op] c \<subseteq> T c"
    "outside before \<subseteq> E" "outside after \<subseteq> E" "outside [?op] \<subseteq> E" for c
    by (auto simp: T_def E_def presented_on_def session_frames_def presented_def outside_def)
  from system_run_safe [OF system_start_safe [OF assms(1-3)] _ assms(5) TE(1,4) assms(6)] assms(4)
  have safe1: "system_safe app T E d1 (length before) sy1" by simp
  from cleanup_gone [OF safe1 assms(7-9)] have g: "gone c sy2"
    and flight: "in_flight (nd_fanout (sy_node sy2)) = in_flight (nd_fanout (sy_node sy1))" by auto
  have small: "Suc (Suc (length before)) < 2 ^ 64" using assms(4) by simp
  have o: "orderly_op app ?op sy1" by (simp add: orderly_op_def event_subscriptions_def)
  have "outside [?op] \<subseteq> E" by (rule TE(6))
  from system_step_safe [OF safe1 small o TE(3) this assms(9)]
  have safe2: "system_safe app T E (d1 @ d2) (Suc (length before)) sy2" .
  have "Suc (length before) + length after + 1 < 2 ^ 64" using assms(4) by simp
  from gone_run [OF safe2 this assms(10) TE(2,5) g assms(11)] show ?thesis
    unfolding flight gone_def list_all_iff by auto
qed

subsection \<open>An example process\<close>

text \<open>One client, allowed \<open>a\<close> only, subscribes to \<open>a/b\<close> and tries \<open>z/b\<close> before and after it authenticates; it
  publishes on \<open>a/b\<close>, somebody else on \<open>z/b\<close>.\<close>

definition demo_system :: "unit System" where
  "demo_system = \<lparr>sy_node = demo_node, sy_sessions = Map.empty, sy_presence = [], sy_redis = ()\<rparr>"

definition demo_turns :: "string list \<Rightarrow> sys_op list" where
  "demo_turns lines = map (\<lambda>l. SySession (ConnectionId 1) (ReaderFrame demo_tick (WsText l))) lines"

definition demo_system_ops :: "sys_op list" where
  "demo_system_ops = SyConnect 0 # demo_turns [''spy'', ''auth'', ''sub'', ''spy'', ''pub''] @
     [SyPublish ''z/b'' (demo_event ''z/b'' ''{}''), SyRoute demo_clock, SyRoute demo_clock,
      SyFan ARecv, SyFan ASend, SyFan (AWorkerRecv 0), SyFan (AWorkerHandle 0)]"

definition demo_closing_ops :: "sys_op list" where
  "demo_closing_ops = SyConnect 0 # demo_turns [''auth'', ''sub''] @
     [SySession (ConnectionId 1) (ReaderFrame demo_tick WsClose)]"

definition demo_late_ops :: "sys_op list" where
  "demo_late_ops = [SyPublish ''a/b'' (demo_event ''a/b'' ''{}''), SyRoute demo_clock]"

lemma demo_system_started:
  "system_start (Some 1) 4 metrics_default (server_config_default (Some 1)) () = Some demo_system"
  unfolding system_start_def demo_node_started demo_system_def by simp

lemmas eval_system = session_open_def next_connection_id_def register_def create_connection_meta_def
  session_world_def session_absorb_def node_absorb_def node_registry_def sy_registry_def sy_manager_def
  publish_all_def session_step_def node_part_def in_process_publish_def broadcast_send_def demo_turns_def
  demo_system_ops_def demo_closing_ops_def demo_late_ops_def demo_system_def demo_node_def node_start_def
  build_event_bus_def server_config_default_def event_bus_default_def in_process_bus_new_def build_core_def
  build_fanout_def wire_router_def router_new_def in_process_subscriber_def fanout_start_def
  performance_default_def cm_new_def

lemmas eval_tasks = node_route_def next_event_spec bc_oldest_def bc_lags_def bc_move_def route_event_def
  sequence_next_def sequence_new_def registry_for_each_match_def fi_for_each_match_def push_target_def
  try_send_def channel_recv_def channel_new_def fo_act_def dispatcher_recv_def dispatcher_send_def
  worker_recv_def worker_handle_def handle_dispatch_def conn_try_send_def message_targets_def
  dispatch_stats_new_def update_largest_batch_def fanout_worker_count_def

lemmas eval_orderly = orderly_op_def event_subscriptions_def frame_subscriptions_def message_subscriptions_def
  sub_clean_def sub_fields_def nul_def

lemma demo_bound: "unat (max_total_subscriptions (en_limits (sv_engine (server_config_default (Some 1))))) \<le> 2 ^ 32"
  by (simp add: server_config_default_def limits_default_def)

lemma demo_system_ran:
  obtains routed dl sy where "system_run demo_app ''closed'' demo_system_ops demo_system = Some (routed, dl, sy)"
    and "length routed = 2" and "map (\<lambda>d. (ld_conn d, ev_topic (ld_event d))) dl = [(ConnectionId 1, TopicPath ''a/b'')]"
proof -
  have "case system_run demo_app ''closed'' demo_system_ops demo_system of None \<Rightarrow> False
    | Some (r, d, sy) \<Rightarrow> length r = 2 \<and> map (\<lambda>d. (ld_conn d, ev_topic (ld_event d))) d = [(ConnectionId 1, TopicPath ''a/b'')]"
    by (simp add: eval_system eval_tasks eval_session eval_all)
  then show ?thesis using that by (auto split: option.splits)
qed

lemma demo_system_orderly: "orderly demo_app ''closed'' demo_system_ops demo_system"
  by (simp add: eval_orderly eval_system eval_tasks eval_session eval_all)

theorem system_delivers_authorized_witness:
  "\<exists>routed dl sy. system_run demo_app ''closed'' demo_system_ops demo_system = Some (routed, dl, sy) \<and>
     length routed = 2 \<and> map (\<lambda>d. (ld_conn d, ev_topic (ld_event d))) dl = [(ConnectionId 1, TopicPath ''a/b'')] \<and>
     list_all (entitled demo_app (presented_on demo_app demo_system_ops) (outside demo_system_ops)) dl"
proof -
  obtain routed dl sy where run: "system_run demo_app ''closed'' demo_system_ops demo_system = Some (routed, dl, sy)"
    and r: "length routed = 2" "map (\<lambda>d. (ld_conn d, ev_topic (ld_event d))) dl = [(ConnectionId 1, TopicPath ''a/b'')]"
    by (rule demo_system_ran)
  have par: "Some 1 \<noteq> Some (0::nat)" and "length demo_system_ops + 1 < 2 ^ 64"
    by (simp_all add: demo_system_ops_def demo_turns_def)
  from system_delivers_authorized [OF demo_system_started par demo_bound this(2) demo_system_orderly run]
  have "list_all (entitled demo_app (presented_on demo_app demo_system_ops) (outside demo_system_ops)) dl" by simp
  with run r show ?thesis by (intro exI conjI)
qed

theorem system_refines_node_witness:
  "\<exists>nops routed dl nd. node_run (fm_ext (app_format demo_app)) ''closed'' nops demo_node = Some (routed, dl, nd) \<and>
     length routed = 2 \<and> map (\<lambda>d. (ld_conn d, ev_topic (ld_event d))) dl = [(ConnectionId 1, TopicPath ''a/b'')]"
proof -
  obtain routed dl sy where run: "system_run demo_app ''closed'' demo_system_ops demo_system = Some (routed, dl, sy)"
    and r: "length routed = 2" "map (\<lambda>d. (ld_conn d, ev_topic (ld_event d))) dl = [(ConnectionId 1, TopicPath ''a/b'')]"
    by (rule demo_system_ran)
  from system_refines_node [OF run] obtain nops where
    "node_run (fm_ext (app_format demo_app)) ''closed'' nops (sy_node demo_system) = Some (routed, dl, sy_node sy)" ..
  with r show ?thesis unfolding demo_system_def by (intro exI conjI) simp
qed

lemma system_run_append:
  "system_run app msg (ops @ ops') sy = Some (r, d, sy2) \<Longrightarrow>
   \<exists>r1 d1 sy1 r2 d2. system_run app msg ops sy = Some (r1, d1, sy1) \<and> system_run app msg ops' sy1 = Some (r2, d2, sy2) \<and>
     r = r1 @ r2 \<and> d = d1 @ d2"
proof (induction ops arbitrary: sy r d)
  case (Cons op ops)
  from Cons.prems obtain ra da sya rb db where s: "system_step app msg op sy = Some (ra, da, sya)"
    and run: "system_run app msg (ops @ ops') sya = Some (rb, db, sy2)" and eq: "r = ra @ rb" "d = da @ db"
    by (auto split: option.splits)
  from Cons.IH [OF run] s eq show ?case by force
qed simp

lemma demo_closing_ran:
  "\<exists>r1 d1 sy1 s. system_run demo_app ''closed'' demo_closing_ops demo_system = Some (r1, d1, sy1) \<and>
     sy_sessions sy1 (ConnectionId 1) = Some s \<and> ss_ending s \<noteq> None \<and> subscription_count (sy_registry sy1) = 1"
  by (simp add: eval_system eval_session eval_all subscription_count_def)

lemma demo_closed_ran:
  "case system_run demo_app ''closed'' (demo_closing_ops @
       [SySession (ConnectionId 1) (TaskCleanup (\<lambda>_. demo_tick) 0)] @ demo_late_ops) demo_system of None \<Rightarrow> False
   | Some (r, d, sy) \<Rightarrow> length r = 1"
  by (simp add: eval_system eval_tasks eval_session eval_all connection_cleanup_def cleanup_presence_def
      presence_remove_connection_def dm_keys_def registry_remove_connection_def remove_entry_def cm_remove_def)

theorem disconnected_stays_silent_witness:
  "\<exists>r1 d1 sy1 r2 d2 sy2 r3 d3 sy3.
     system_run demo_app ''closed'' demo_closing_ops demo_system = Some (r1, d1, sy1) \<and>
     subscription_count (sy_registry sy1) = 1 \<and>
     system_step demo_app ''closed'' (SySession (ConnectionId 1) (TaskCleanup (\<lambda>_. demo_tick) 0)) sy1 = Some (r2, d2, sy2) \<and>
     system_run demo_app ''closed'' demo_late_ops sy2 = Some (r3, d3, sy3) \<and> length (r2 @ r3) = 1 \<and>
     (\<forall>e. live (sy_registry sy3) e \<longrightarrow> sb_conn (se_subscription e) \<noteq> ConnectionId 1)"
proof -
  let ?op = "SySession (ConnectionId 1) (TaskCleanup (\<lambda>_. demo_tick) 0)"
  obtain r1 d1 sy1 s where run1: "system_run demo_app ''closed'' demo_closing_ops demo_system = Some (r1, d1, sy1)"
    and s: "sy_sessions sy1 (ConnectionId 1) = Some s" "ss_ending s \<noteq> None" and one: "subscription_count (sy_registry sy1) = 1"
    using demo_closing_ran by blast
  obtain r d sy3 where all: "system_run demo_app ''closed'' (demo_closing_ops @ [?op] @ demo_late_ops) demo_system = Some (r, d, sy3)"
    and "length r = 1" using demo_closed_ran by (auto split: option.splits)
  from system_run_append [OF all] run1 obtain ra da where
    "system_run demo_app ''closed'' ([?op] @ demo_late_ops) sy1 = Some (ra, da, sy3)" and r: "r = r1 @ ra" by auto
  then obtain r2 d2 sy2 r3 d3 where step: "system_step demo_app ''closed'' ?op sy1 = Some (r2, d2, sy2)"
    and run3: "system_run demo_app ''closed'' demo_late_ops sy2 = Some (r3, d3, sy3)" and ra: "ra = r2 @ r3"
    by (auto simp del: system_step.simps split: option.splits)
  have "r1 = []"
  proof -
    have "case system_run demo_app ''closed'' demo_closing_ops demo_system of None \<Rightarrow> False | Some (r, _) \<Rightarrow> r = []"
      by (simp add: eval_system eval_session eval_all)
    with run1 show ?thesis by simp
  qed
  have o1: "orderly demo_app ''closed'' demo_closing_ops demo_system"
    by (simp add: eval_orderly eval_system eval_session eval_all)
  have o3: "orderly demo_app ''closed'' demo_late_ops sy2"
    by (auto simp: demo_late_ops_def orderly_op_def split: option.split)
  have par: "Some 1 \<noteq> Some (0::nat)" and "length demo_closing_ops + length demo_late_ops + 2 < 2 ^ 64"
    by (simp_all add: demo_closing_ops_def demo_late_ops_def demo_turns_def)
  from disconnected_stays_silent [OF demo_system_started par demo_bound this(2) o1 run1 s step o3 run3]
  have "\<forall>e. live (sy_registry sy3) e \<longrightarrow> sb_conn (se_subscription e) \<noteq> ConnectionId 1" ..
  with run1 one step run3 \<open>length r = 1\<close> r ra \<open>r1 = []\<close> show ?thesis by (intro exI conjI) (assumption | simp)+
qed

text \<open>The reader of a connection whose writer failed outlives the cleanup: it is detached after the grace
  period, and a subscription it still reads is registered for the closed connection and stays.\<close>

theorem detached_reader_resubscribes:
  "\<exists>r d sy. system_run demo_app ''closed'' (SyConnect 0 # demo_turns [''auth''] @
       [SySession (ConnectionId 1) WriterFails, SySession (ConnectionId 1) (TaskCleanup (\<lambda>_. demo_tick) 0)] @
       demo_turns [''sub'']) demo_system = Some (r, d, sy) \<and>
     map_option ss_phase (sy_sessions sy (ConnectionId 1)) = Some Closed \<and>
     \<not> has_connection (ConnectionId 1) (sy_manager sy) \<and>
     map fst (rg_by_sub_id (sy_registry sy)) = [(ConnectionId 1, ''s'')]"
  by (simp add: eval_system eval_session eval_all connection_cleanup_def cleanup_presence_def
      presence_remove_connection_def dm_keys_def registry_remove_connection_def remove_entry_def cm_remove_def
      has_connection_def)

end
