(* ===== verification/Rt_Client.thy ===== *)
theory Rt_Client
  imports Rt_Protocol
begin

text \<open>
  The client SDK of \<open>crates/realtime-client/src\<close>: the subscription table (\<open>client/mod.rs\<close>), the builder
  (\<open>client/builder.rs\<close>) and the connection loop with its back-off, re-subscription and deduplication
  (\<open>client/event_loop.rs\<close>).  The JSON readers and writers of messages are parameters, as is the order in
  which a hash set is iterated.  Lemmas: what a new session sends is exactly the subscriptions held; the
  delays; how far the deduplication reaches.
\<close>

subsection \<open>The client (client/mod.rs, client/builder.rs)\<close>

record SubscriptionState =
  ss_sub_id :: string
  ss_topic :: string
  ss_filter :: "json option"
  ss_last_sequence :: "u64 option"

text \<open>The loop waits for the connection, for messages, or for the delay.  \<open>rc_event_tx\<close>: the channel to the
  socket, \<open>False\<close> once its session is over; \<open>rc_wire\<close>: what was written to the current socket;
  \<open>rc_delivered\<close>: what the application was given.  Delays are in milliseconds.\<close>

datatype client_phase = Connecting | InSession | Waiting | Stopped

record RealtimeClient =
  rc_url :: string
  rc_token :: string
  rc_reconnect_enabled :: bool
  rc_max_reconnect_delay :: nat
  rc_subscriptions :: "SubscriptionState list"
  rc_event_tx :: "bool option"
  rc_connected :: bool
  rc_seen_event_ids :: "string list"
  rc_phase :: client_phase
  rc_attempt :: u32
  rc_delays :: "nat list"
  rc_wire :: "string list"
  rc_delivered :: "EventPayload list"

record RealtimeClientBuilder =
  cb_url :: string
  cb_token :: string
  cb_reconnect :: bool
  cb_max_reconnect_delay :: nat

definition builder_new :: "string \<Rightarrow> RealtimeClientBuilder" where
  "builder_new url = \<lparr>cb_url = url, cb_token = [], cb_reconnect = True, cb_max_reconnect_delay = 30000\<rparr>"

definition builder_token :: "string \<Rightarrow> RealtimeClientBuilder \<Rightarrow> RealtimeClientBuilder" where
  "builder_token token b = b\<lparr>cb_token := token\<rparr>"

definition builder_reconnect :: "bool \<Rightarrow> RealtimeClientBuilder \<Rightarrow> RealtimeClientBuilder" where
  "builder_reconnect enabled b = b\<lparr>cb_reconnect := enabled\<rparr>"

definition builder_max_delay :: "nat \<Rightarrow> RealtimeClientBuilder \<Rightarrow> RealtimeClientBuilder" where
  "builder_max_delay delay b = b\<lparr>cb_max_reconnect_delay := delay\<rparr>"

text \<open>\<open>build\<close> with the loop \<open>connect\<close> spawns at its start.\<close>

definition builder_build :: "RealtimeClientBuilder \<Rightarrow> RealtimeClient" where
  "builder_build b =
     \<lparr>rc_url = cb_url b, rc_token = cb_token b, rc_reconnect_enabled = cb_reconnect b,
      rc_max_reconnect_delay = cb_max_reconnect_delay b, rc_subscriptions = [], rc_event_tx = None,
      rc_connected = False, rc_seen_event_ids = [], rc_phase = Connecting, rc_attempt = 0, rc_delays = [],
      rc_wire = [], rc_delivered = []\<rparr>"

text \<open>\<open>cw_client\<close> writes client messages, \<open>cw_server\<close> reads server messages; \<open>cw_iter\<close> lists a hash set.\<close>

record ClientExt =
  cw_client :: "ClientMessage \<Rightarrow> string option"
  cw_server :: "string \<Rightarrow> ServerMessage option"
  cw_iter :: "string list \<Rightarrow> string list"

definition store_subscription :: "string \<Rightarrow> string \<Rightarrow> json option \<Rightarrow> RealtimeClient \<Rightarrow> RealtimeClient" where
  "store_subscription sub_id topic filt c =
     c\<lparr>rc_subscriptions := rc_subscriptions c @
        [\<lparr>ss_sub_id = sub_id, ss_topic = topic, ss_filter = filt, ss_last_sequence = None\<rparr>]\<rparr>"

text \<open>Sending through the channel to the socket; \<open>False\<close> is an error answer.\<close>

definition send_message :: "ClientExt \<Rightarrow> ClientMessage \<Rightarrow> RealtimeClient \<Rightarrow> bool \<times> RealtimeClient" where
  "send_message x msg c =
     (case rc_event_tx c of
        None \<Rightarrow> (True, c)
      | Some alive \<Rightarrow>
          (case cw_client x msg of
             None \<Rightarrow> (False, c)
           | Some json \<Rightarrow>
               if \<not> alive then (False, c)
               else (True, c\<lparr>rc_wire := rc_wire c @ [json]\<rparr>)))"

definition client_subscribe ::
    "ClientExt \<Rightarrow> string \<Rightarrow> string \<Rightarrow> json option \<Rightarrow> RealtimeClient \<Rightarrow> bool \<times> RealtimeClient" where
  "client_subscribe x sub_id topic filt c =
     (let c = store_subscription sub_id topic filt c
      in send_message x (CmSubscribe sub_id topic filt None) c)"

definition client_remove_subscription :: "string \<Rightarrow> RealtimeClient \<Rightarrow> RealtimeClient" where
  "client_remove_subscription sub_id c =
     c\<lparr>rc_subscriptions := filter (\<lambda>s. ss_sub_id s \<noteq> sub_id) (rc_subscriptions c)\<rparr>"

definition client_unsubscribe :: "ClientExt \<Rightarrow> string \<Rightarrow> RealtimeClient \<Rightarrow> bool \<times> RealtimeClient" where
  "client_unsubscribe x sub_id c =
     (let c = client_remove_subscription sub_id c in send_message x (CmUnsubscribe sub_id) c)"

definition client_is_connected :: "RealtimeClient \<Rightarrow> bool" where
  "client_is_connected c = rc_connected c"

subsection \<open>Messages of the server (client/event_loop.rs)\<close>

definition dedup_check :: "(string list \<Rightarrow> string list) \<Rightarrow> string \<Rightarrow> string list \<Rightarrow> bool \<times> string list" where
  "dedup_check iter event_id seen =
     (if event_id \<in> set seen then (True, seen)
      else
        let seen = event_id # seen in
        if 1000 < length seen
        then let to_remove = take 500 (iter seen)
             in (False, filter (\<lambda>id. id \<notin> set to_remove) seen)
        else (False, seen))"

fun update_first :: "string \<Rightarrow> u64 \<Rightarrow> SubscriptionState list \<Rightarrow> SubscriptionState list" where
  "update_first sub_id sequence [] = []"
| "update_first sub_id sequence (s # ss) =
     (if ss_sub_id s = sub_id then s\<lparr>ss_last_sequence := Some sequence\<rparr> # ss
      else s # update_first sub_id sequence ss)"

definition update_sequence :: "string \<Rightarrow> u64 \<Rightarrow> RealtimeClient \<Rightarrow> RealtimeClient" where
  "update_sequence sub_id sequence c =
     c\<lparr>rc_subscriptions := update_first sub_id sequence (rc_subscriptions c)\<rparr>"

definition handle_text_message :: "ClientExt \<Rightarrow> string \<Rightarrow> RealtimeClient \<Rightarrow> RealtimeClient" where
  "handle_text_message x txt_msg c =
     (case cw_server x txt_msg of
        Some (SmEvent sub_id event) \<Rightarrow>
          let (duplicate, seen) = dedup_check (cw_iter x) (ep_event_id event) (rc_seen_event_ids c);
              c = c\<lparr>rc_seen_event_ids := seen\<rparr>
          in if duplicate then c
             else let c = update_sequence sub_id (ep_sequence event) c
                  in c\<lparr>rc_delivered := rc_delivered c @ [event]\<rparr>
      | _ \<Rightarrow> c)"

subsection \<open>The connection loop (client/event_loop.rs)\<close>

definition backoff_delay :: "u32 \<Rightarrow> nat \<Rightarrow> u64 \<Rightarrow> nat" where
  "backoff_delay attempt max_delay random =
     (let base = 100 * 2 ^ min (unat attempt) 10;
          jitter = unat (random mod 500)
      in min (base + jitter) max_delay)"

definition resubscribe_message :: "SubscriptionState \<Rightarrow> ClientMessage" where
  "resubscribe_message sub = CmSubscribe (ss_sub_id sub) (ss_topic sub) (ss_filter sub)
     (map_option (\<lambda>seq. \<lparr>so_overflow = None, so_resume_from = Some seq, so_rate_limit = None\<rparr>)
        (ss_last_sequence sub))"

definition resubscribe :: "ClientExt \<Rightarrow> RealtimeClient \<Rightarrow> RealtimeClient" where
  "resubscribe x c =
     c\<lparr>rc_wire := rc_wire c @ List.map_filter (\<lambda>sub. cw_client x (resubscribe_message sub)) (rc_subscriptions c)\<rparr>"

text \<open>After \<open>handle_session\<close>, with whether it returned \<open>Ok\<close>, up to the next wait.\<close>

definition after_session :: "bool \<Rightarrow> u64 \<Rightarrow> RealtimeClient \<Rightarrow> RealtimeClient" where
  "after_session ok random c =
     (let c = (if ok then c\<lparr>rc_attempt := 0\<rparr> else c);
          c = c\<lparr>rc_connected := False\<rparr>
      in if \<not> rc_reconnect_enabled c then c\<lparr>rc_phase := Stopped\<rparr>
         else
           let attempt = rc_attempt c + 1
           in c\<lparr>rc_attempt := attempt, rc_phase := Waiting,
                rc_delays := rc_delays c @ [backoff_delay attempt (rc_max_reconnect_delay c) random]\<rparr>)"

text \<open>The start of a session: whether the connection was made and the first write succeeded.\<close>

definition open_session :: "ClientExt \<Rightarrow> bool \<Rightarrow> bool \<Rightarrow> u64 \<Rightarrow> RealtimeClient \<Rightarrow> RealtimeClient" where
  "open_session x connected written random c =
     (if \<not> connected then after_session False random c
      else
        let c = c\<lparr>rc_connected := True, rc_wire := []\<rparr>
        in case cw_client x (CmAuth (rc_token c)) of
             None \<Rightarrow> after_session False random c
           | Some auth_json \<Rightarrow>
               if \<not> written then after_session False random c
               else
                 let c = c\<lparr>rc_wire := rc_wire c @ [auth_json]\<rparr>;
                     c = c\<lparr>rc_event_tx := Some True\<rparr>
                 in (resubscribe x c)\<lparr>rc_phase := InSession\<rparr>)"

text \<open>The end of the messages of a session: the forwarder is aborted, and its channel is closed.\<close>

definition close_session :: "u64 \<Rightarrow> RealtimeClient \<Rightarrow> RealtimeClient" where
  "close_session random c = after_session True random (c\<lparr>rc_event_tx := Some False\<rparr>)"

text \<open>\<open>ClWriteFailed\<close>: a write of the forwarder fails, and it stops with its end of the channel;
  \<open>ClOther\<close>: a message that is no text; \<open>ClEnd\<close>: a close message, an error, or the end of the stream.\<close>

datatype client_op =
    ClSubscribe string string "json option"
  | ClUnsubscribe string
  | ClConnect bool bool u64
  | ClText string
  | ClOther
  | ClWriteFailed
  | ClEnd u64
  | ClSlept

fun client_step :: "ClientExt \<Rightarrow> client_op \<Rightarrow> RealtimeClient \<Rightarrow> RealtimeClient option" where
  "client_step x (ClSubscribe sub_id topic filt) c = Some (snd (client_subscribe x sub_id topic filt c))"
| "client_step x (ClUnsubscribe sub_id) c = Some (snd (client_unsubscribe x sub_id c))"
| "client_step x (ClConnect connected written random) c =
     (if rc_phase c = Connecting then Some (open_session x connected written random c) else None)"
| "client_step x (ClText txt_msg) c = (if rc_phase c = InSession then Some (handle_text_message x txt_msg c) else None)"
| "client_step x ClOther c = (if rc_phase c = InSession then Some c else None)"
| "client_step x ClWriteFailed c =
     (if rc_phase c = InSession then Some (c\<lparr>rc_event_tx := Some False\<rparr>) else None)"
| "client_step x (ClEnd random) c = (if rc_phase c = InSession then Some (close_session random c) else None)"
| "client_step x ClSlept c = (if rc_phase c = Waiting then Some (c\<lparr>rc_phase := Connecting\<rparr>) else None)"

fun client_run :: "ClientExt \<Rightarrow> client_op list \<Rightarrow> RealtimeClient \<Rightarrow> RealtimeClient option" where
  "client_run x [] c = Some c"
| "client_run x (op # ops) c = Option.bind (client_step x op c) (client_run x ops)"

subsection \<open>What a new session subscribes to\<close>

text \<open>The subscriptions the application holds: those it made and did not take back, in order.\<close>

fun wanted :: "client_op list \<Rightarrow> (string \<times> string \<times> json option) list \<Rightarrow> (string \<times> string \<times> json option) list" where
  "wanted [] w = w"
| "wanted (ClSubscribe s t f # ops) w = wanted ops (w @ [(s, t, f)])"
| "wanted (ClUnsubscribe s # ops) w = wanted ops (filter (\<lambda>(s', _). s' \<noteq> s) w)"
| "wanted (_ # ops) w = wanted ops w"

definition held :: "RealtimeClient \<Rightarrow> (string \<times> string \<times> json option) list" where
  "held c = map (\<lambda>s. (ss_sub_id s, ss_topic s, ss_filter s)) (rc_subscriptions c)"

definition sequences_delivered :: "RealtimeClient \<Rightarrow> bool" where
  "sequences_delivered c =
     list_all (\<lambda>s. case ss_last_sequence s of None \<Rightarrow> True | Some n \<Rightarrow> n \<in> ep_sequence ` set (rc_delivered c))
       (rc_subscriptions c)"

lemma held_update_first: "map (\<lambda>s. (ss_sub_id s, ss_topic s, ss_filter s)) (update_first i n ss) =
    map (\<lambda>s. (ss_sub_id s, ss_topic s, ss_filter s)) ss"
  by (induction ss) auto

lemma send_message_sel [simp]:
  "rc_subscriptions (snd (send_message x m c)) = rc_subscriptions c"
  "rc_delivered (snd (send_message x m c)) = rc_delivered c"
  "rc_seen_event_ids (snd (send_message x m c)) = rc_seen_event_ids c"
  "rc_token (snd (send_message x m c)) = rc_token c"
  by (simp_all add: send_message_def split: option.split)

lemma after_session_sel [simp]:
  "rc_subscriptions (after_session ok r c) = rc_subscriptions c"
  "rc_delivered (after_session ok r c) = rc_delivered c"
  "rc_seen_event_ids (after_session ok r c) = rc_seen_event_ids c"
  "rc_token (after_session ok r c) = rc_token c"
  by (simp_all add: after_session_def Let_def)

lemma open_session_sel [simp]:
  "rc_subscriptions (open_session x a b r c) = rc_subscriptions c"
  "rc_delivered (open_session x a b r c) = rc_delivered c"
  "rc_seen_event_ids (open_session x a b r c) = rc_seen_event_ids c"
  "rc_token (open_session x a b r c) = rc_token c"
  by (simp_all add: open_session_def resubscribe_def Let_def split: option.split)

lemma handle_text_cases:
  "handle_text_message x t c = c \<or>
   (\<exists>sub_id event seen dup. cw_server x t = Some (SmEvent sub_id event) \<and>
      dedup_check (cw_iter x) (ep_event_id event) (rc_seen_event_ids c) = (dup, seen) \<and>
      handle_text_message x t c = (if dup then c\<lparr>rc_seen_event_ids := seen\<rparr>
        else (update_sequence sub_id (ep_sequence event) (c\<lparr>rc_seen_event_ids := seen\<rparr>))
               \<lparr>rc_delivered := rc_delivered c @ [event]\<rparr>))"
proof (cases "cw_server x t")
  case (Some m)
  show ?thesis
  proof (cases m)
    case (SmEvent s e)
    obtain dup seen where d: "dedup_check (cw_iter x) (ep_event_id e) (rc_seen_event_ids c) = (dup, seen)" by fastforce
    with Some SmEvent show ?thesis
      by (intro disjI2 exI [of _ s] exI [of _ e] exI [of _ seen] exI [of _ dup])
        (simp add: handle_text_message_def update_sequence_def Let_def)
  qed (simp_all add: handle_text_message_def Some)
qed (simp add: handle_text_message_def)

lemma update_first_sequences:
  "s \<in> set (update_first i n ss) \<Longrightarrow> ss_last_sequence s = Some n \<or> s \<in> set ss"
  by (induction ss) (auto split: if_splits)

lemma client_step_held:
  assumes "client_step x op c = Some c'"
  shows "held c' = wanted [op] (held c) \<and> (sequences_delivered c \<longrightarrow> sequences_delivered c') \<and> rc_token c' = rc_token c"
proof (cases op)
  case (ClText t)
  with assms have c': "c' = handle_text_message x t c" by (simp split: if_splits)
  from handle_text_cases [of x t c] show ?thesis
  proof (elim disjE exE conjE)
    fix sub_id event seen dup
    assume h: "handle_text_message x t c = (if dup then c\<lparr>rc_seen_event_ids := seen\<rparr>
        else (update_sequence sub_id (ep_sequence event) (c\<lparr>rc_seen_event_ids := seen\<rparr>))
               \<lparr>rc_delivered := rc_delivered c @ [event]\<rparr>)"
    have "sequences_delivered c \<longrightarrow> sequences_delivered c'"
      unfolding c' h sequences_delivered_def list_all_iff
      by (cases dup) (auto simp: update_sequence_def split: option.splits dest!: update_first_sequences)
    then show ?thesis
      unfolding c' h by (simp add: held_def ClText update_sequence_def held_update_first)
  qed (simp add: c' ClText)
qed (use assms in \<open>auto simp: held_def sequences_delivered_def client_subscribe_def store_subscription_def
    client_unsubscribe_def client_remove_subscription_def close_session_def list_all_iff filter_map o_def Let_def
    split: if_splits cong: option.case_cong\<close>)

lemma wanted_Cons: "wanted (op # ops) w = wanted ops (wanted [op] w)"
  by (cases op) simp_all

lemma client_run_held:
  "client_run x ops c = Some c' \<Longrightarrow>
   held c' = wanted ops (held c) \<and> (sequences_delivered c \<longrightarrow> sequences_delivered c') \<and> rc_token c' = rc_token c"
proof (induction ops arbitrary: c)
  case (Cons op ops)
  then obtain c1 where s: "client_step x op c = Some c1" and r: "client_run x ops c1 = Some c'"
    by (auto simp: bind_eq_Some_conv)
  from client_step_held [OF s] Cons.IH [OF r] show ?case by (simp add: wanted_Cons [of op ops])
qed simp

text \<open>
  A new session subscribes to what the application holds.  After any sequence of subscribe and
  unsubscribe calls, connects, messages and losses of the connection, a session that opens sends the
  token and then one subscribe message for each subscription made and not taken back, in that order,
  each resuming, if it resumes, from the sequence number of an event that was delivered.
\<close>

theorem client_resubscribes:
  assumes "client_run x ops (builder_build b) = Some c"
    and "client_step x (ClConnect True True random) c = Some c'"
    and "\<And>m. cw_client x m = Some (enc m)"
  shows "\<exists>seqs. length seqs = length (wanted ops []) \<and>
    rc_wire c' = map enc (CmAuth (cb_token b) #
      map2 (\<lambda>(s, t, f) q. CmSubscribe s t f
          (map_option (\<lambda>n. \<lparr>so_overflow = None, so_resume_from = Some n, so_rate_limit = None\<rparr>) q))
        (wanted ops []) seqs) \<and>
    list_all (\<lambda>q. case q of None \<Rightarrow> True | Some n \<Rightarrow> n \<in> ep_sequence ` set (rc_delivered c)) seqs"
proof -
  have "held (builder_build b) = []" "sequences_delivered (builder_build b)" "rc_token (builder_build b) = cb_token b"
    by (simp_all add: builder_build_def held_def sequences_delivered_def)
  with client_run_held [OF assms(1)] have h: "held c = wanted ops []" and s: "sequences_delivered c"
    and t: "rc_token c = cb_token b" by simp_all
  let ?seqs = "map ss_last_sequence (rc_subscriptions c)"
  have "rc_wire c' = enc (CmAuth (cb_token b)) # map (enc \<circ> resubscribe_message) (rc_subscriptions c)"
    using assms(2) t
    by (auto simp: open_session_def assms(3) resubscribe_def Let_def map_filter_def o_def split: if_splits)
  moreover have "map resubscribe_message ss = map2 (\<lambda>(s, t, f) q. CmSubscribe s t f
          (map_option (\<lambda>n. \<lparr>so_overflow = None, so_resume_from = Some n, so_rate_limit = None\<rparr>) q))
        (map (\<lambda>s. (ss_sub_id s, ss_topic s, ss_filter s)) ss) (map ss_last_sequence ss)" for ss
    by (induction ss) (simp_all add: resubscribe_message_def)
  ultimately have "rc_wire c' = map enc (CmAuth (cb_token b) #
      map2 (\<lambda>(s, t, f) q. CmSubscribe s t f
          (map_option (\<lambda>n. \<lparr>so_overflow = None, so_resume_from = Some n, so_rate_limit = None\<rparr>) q))
        (held c) ?seqs)"
    unfolding held_def by (simp flip: map_map)
  moreover have "length ?seqs = length (held c)" by (simp add: held_def)
  moreover have "list_all (\<lambda>q. case q of None \<Rightarrow> True | Some n \<Rightarrow> n \<in> ep_sequence ` set (rc_delivered c)) ?seqs"
    using s by (simp add: sequences_delivered_def list.pred_map o_def)
  ultimately show ?thesis unfolding h by blast
qed

definition demo_enc :: "ClientMessage \<Rightarrow> string" where
  "demo_enc m = (case m of CmAuth t \<Rightarrow> ''auth '' @ t
     | CmSubscribe s t f opts \<Rightarrow> ''sub '' @ s @ (if opts = None then [] else '' resume'')
     | _ \<Rightarrow> ''other'')"

definition demo_payload :: "string \<Rightarrow> u64 \<Rightarrow> EventPayload" where
  "demo_payload i n = \<lparr>ep_event_id = i, ep_topic = ''t'', ep_event_type = ''e'', ep_sequence = n,
     ep_timestamp = ''now'', ep_payload = JNull\<rparr>"

definition demo_client_ext :: ClientExt where
  "demo_client_ext = \<lparr>cw_client = (\<lambda>m. Some (demo_enc m)),
     cw_server = (\<lambda>t. Some (SmEvent ''s1'' (demo_payload t 7))), cw_iter = (\<lambda>s. s)\<rparr>"

definition demo_client_ops :: "client_op list" where
  "demo_client_ops = [ClSubscribe ''s1'' ''a/b'' None, ClSubscribe ''s2'' ''c/d'' None, ClConnect True True 0,
     ClText ''e1'', ClText ''e1'', ClUnsubscribe ''s2'', ClEnd 3, ClSlept]"

lemmas eval_client = demo_client_ops_def demo_client_ext_def demo_payload_def builder_build_def builder_new_def
  builder_token_def client_subscribe_def client_unsubscribe_def client_remove_subscription_def store_subscription_def
  send_message_def open_session_def resubscribe_def resubscribe_message_def close_session_def after_session_def
  handle_text_message_def dedup_check_def update_sequence_def demo_enc_def map_filter_def Let_def

theorem client_resubscribes_witness:
  "\<exists>c c' (seqs :: u64 option list). client_run demo_client_ext demo_client_ops (builder_build (builder_token ''tok'' (builder_new ''ws''))) = Some c \<and>
     client_step demo_client_ext (ClConnect True True 0) c = Some c' \<and>
     rc_wire c' = [''auth tok'', ''sub s1 resume''] \<and> length (rc_delivered c) = 1 \<and>
     length seqs = 1 \<and> wanted demo_client_ops [] = [(''s1'', ''a/b'', None)]"
proof -
  let ?b = "builder_token ''tok'' (builder_new ''ws'')"
  have "\<exists>c c'. client_run demo_client_ext demo_client_ops (builder_build ?b) = Some c \<and>
      client_step demo_client_ext (ClConnect True True 0) c = Some c' \<and>
      rc_wire c' = [''auth tok'', ''sub s1 resume''] \<and> length (rc_delivered c) = 1"
    by (simp add: eval_client)
  then obtain c c' where run: "client_run demo_client_ext demo_client_ops (builder_build ?b) = Some c"
    and st: "client_step demo_client_ext (ClConnect True True 0) c = Some c'"
    and w: "rc_wire c' = [''auth tok'', ''sub s1 resume'']" "length (rc_delivered c) = 1" by blast
  have "cw_client demo_client_ext m = Some (demo_enc m)" for m by (simp add: demo_client_ext_def)
  from client_resubscribes [OF run st this] obtain seqs :: "u64 option list" where "length seqs = length (wanted demo_client_ops [])" by blast
  moreover have "wanted demo_client_ops [] = [(''s1'', ''a/b'', None)]" by (simp add: demo_client_ops_def)
  ultimately show ?thesis using run st w by auto
qed

subsection \<open>How far the deduplication reaches\<close>

definition dedup_inv :: "RealtimeClient \<Rightarrow> bool" where
  "dedup_inv c \<longleftrightarrow> length (rc_seen_event_ids c) \<le> 1000 \<and>
     distinct (map ep_event_id (take 1000 (rc_delivered c))) \<and>
     (length (rc_delivered c) \<le> 1000 \<longrightarrow> rc_seen_event_ids c = rev (map ep_event_id (rc_delivered c)))"

lemma dedup_check_length:
  assumes "\<And>s. set (iter s) = set s" and "length seen \<le> 1000"
  shows "length (snd (dedup_check iter i seen)) \<le> 1000"
proof (cases "i \<in> set seen \<or> length seen < 1000")
  case True
  with assms(2) show ?thesis by (auto simp: dedup_check_def)
next
  case False
  let ?seen = "i # seen"
  from assms(1) [of ?seen] obtain y ys where y: "iter ?seen = y # ys" by (cases "iter ?seen") auto
  then have "y \<in> set (take 500 (iter ?seen))" "y \<in> set ?seen" using assms(1) [of ?seen] by auto
  then have "length (filter (\<lambda>j. j \<notin> set (take 500 (iter ?seen))) ?seen) < length ?seen"
    by (intro length_filter_less [of y]) auto
  with False assms(2) show ?thesis by (simp add: dedup_check_def Let_def)
qed

lemma dedup_step:
  assumes "\<And>s. set (cw_iter x s) = set s" and "dedup_inv c" and "client_step x op c = Some c'"
  shows "dedup_inv c'"
proof (cases op)
  case (ClText t)
  with assms(3) have c': "c' = handle_text_message x t c" by (simp split: if_splits)
  from handle_text_cases [of x t c] show ?thesis
  proof (elim disjE exE conjE)
    fix sub_id event seen dup
    assume d: "dedup_check (cw_iter x) (ep_event_id event) (rc_seen_event_ids c) = (dup, seen)"
      and h: "handle_text_message x t c = (if dup then c\<lparr>rc_seen_event_ids := seen\<rparr>
        else (update_sequence sub_id (ep_sequence event) (c\<lparr>rc_seen_event_ids := seen\<rparr>))
               \<lparr>rc_delivered := rc_delivered c @ [event]\<rparr>)"
    have len: "length seen \<le> 1000"
      using dedup_check_length [of "cw_iter x" "rc_seen_event_ids c" "ep_event_id event", OF assms(1)] assms(2) d
      by (simp add: dedup_inv_def)
    show ?thesis
    proof (cases dup)
      case True
      with d have "seen = rc_seen_event_ids c" by (auto simp: dedup_check_def Let_def split: if_splits)
      with True assms(2) show ?thesis by (simp add: c' h dedup_inv_def)
    next
      case False
      with d have new: "ep_event_id event \<notin> set (rc_seen_event_ids c)"
        by (auto simp: dedup_check_def split: if_splits)
      have keep: "seen = ep_event_id event # rc_seen_event_ids c" if "length (rc_seen_event_ids c) < 1000"
        using that d new by (simp add: dedup_check_def)
      show ?thesis
      proof (cases "length (rc_delivered c) < 1000")
        case True
        with assms(2) have s: "rc_seen_event_ids c = rev (map ep_event_id (rc_delivered c))"
          and dist: "distinct (map ep_event_id (rc_delivered c))" by (simp_all add: dedup_inv_def)
        with True new keep len False show ?thesis by (simp add: c' h dedup_inv_def update_sequence_def)
      next
        case n: False
        with assms(2) len False show ?thesis by (simp add: c' h dedup_inv_def update_sequence_def)
      qed
    qed
  qed (use assms(2) c' in simp)
qed (use assms in \<open>auto simp: dedup_inv_def client_subscribe_def store_subscription_def
    client_unsubscribe_def client_remove_subscription_def close_session_def Let_def split: if_splits\<close>)

lemma dedup_run:
  "(\<And>s. set (cw_iter x s) = set s) \<Longrightarrow> dedup_inv c \<Longrightarrow> client_run x ops c = Some c' \<Longrightarrow> dedup_inv c'"
proof (induction ops arbitrary: c)
  case (Cons op ops)
  then obtain c1 where s: "client_step x op c = Some c1" and r: "client_run x ops c1 = Some c'"
    by (auto simp: bind_eq_Some_conv)
  from Cons.IH [OF Cons.prems(1) dedup_step [OF Cons.prems(1,2) s] r] show ?case .
qed simp

text \<open>
  The first thousand deliveries are distinct, and no more is promised.  In any run the client remembers
  at most 1000 event identifiers and delivers no event twice among its first 1000 deliveries; but when
  the set is full, the 500 identifiers forgotten are any 500 in the order of the hash set, so an event
  can be forgotten at once and delivered again by the next message.
\<close>

theorem client_dedup:
  assumes "client_run x ops (builder_build b) = Some c" and "\<And>s. set (cw_iter x s) = set s"
  shows "length (rc_seen_event_ids c) \<le> 1000 \<and>
    distinct (map ep_event_id (take 1000 (rc_delivered c))) \<and>
    (let full = map show_nat [0..<1000]; (first, seen) = dedup_check (\<lambda>s. s) ''new'' full;
         (second, _) = dedup_check (\<lambda>s. s) ''new'' seen
     in \<not> first \<and> \<not> second)"
proof -
  have "dedup_inv (builder_build b)" by (simp add: dedup_inv_def builder_build_def)
  from dedup_run [OF assms(2) this assms(1)] have "dedup_inv c" .
  moreover have new: "''new'' \<notin> set (map show_nat [0..<1000])"
    using show_nat_digits [of "CHR ''n''"] by (auto simp: is_digit_def) (metis list.set_intros(1))
  have "dedup_check (\<lambda>s. s) ''new'' (map show_nat [0..<1000]) =
      (False, filter (\<lambda>i. i \<notin> set (take 500 (''new'' # map show_nat [0..<1000]))) (''new'' # map show_nat [0..<1000]))"
    using new unfolding dedup_check_def Let_def by simp
  moreover have "''new'' \<notin> set (filter (\<lambda>i. i \<notin> set (take 500 (''new'' # map show_nat [0..<1000]))) (''new'' # map show_nat [0..<1000]))"
    by simp
  then have "fst (dedup_check (\<lambda>s. s) ''new'' (filter (\<lambda>i. i \<notin> set (take 500 (''new'' # map show_nat [0..<1000]))) (''new'' # map show_nat [0..<1000]))) = False"
    unfolding dedup_check_def Let_def by simp
  ultimately show ?thesis by (simp only: dedup_inv_def Let_def case_prod_beta fst_conv snd_conv) simp
qed

theorem client_dedup_witness:
  "\<exists>c. client_run demo_client_ext demo_client_ops (builder_build (builder_new ''ws'')) = Some c \<and>
     distinct (map ep_event_id (take 1000 (rc_delivered c))) \<and> length (rc_delivered c) = 1"
proof -
  have "\<exists>c. client_run demo_client_ext demo_client_ops (builder_build (builder_new ''ws'')) = Some c \<and> length (rc_delivered c) = 1"
    by (simp add: eval_client)
  then obtain c where c: "client_run demo_client_ext demo_client_ops (builder_build (builder_new ''ws'')) = Some c"
    "length (rc_delivered c) = 1" by blast
  have "set (cw_iter demo_client_ext s) = set s" for s by (simp add: demo_client_ext_def)
  from client_dedup [OF c(1) this] c show ?thesis by blast
qed

end
