(* ===== verification/Rt_Client_Server.thy ===== *)
theory Rt_Client_Server
  imports Rt_Client Rt_Session_Safe
begin

text \<open>
  The client SDK of \<open>crates/realtime-client/src\<close> against the gateway of \<open>crates/realtime-gateway/src\<close>: what the
  client writes when a session opens, read by the reader loop of a fresh connection.  Lemmas: after a
  reconnect the registry holds for the connection exactly the subscriptions the client holds that were
  answered; the options a subscription carries, its resume point among them, change nothing the registry
  does.
\<close>

subsection \<open>What one subscribe message does to the connection\<close>

text \<open>A registry entry, and a subscription held by the client, as identifier, pattern and filter.\<close>

definition entry_view :: "SubscriptionEntry \<Rightarrow> string \<times> TopicPattern \<times> FilterExpr option" where
  "entry_view e = (sub_raw (sb_sub (se_subscription e)), sb_topic (se_subscription e), sb_filter (se_subscription e))"

definition wanted_view :: "'r App \<Rightarrow> string \<times> string \<times> json option \<Rightarrow> string \<times> TopicPattern \<times> FilterExpr option" where
  "wanted_view app = (\<lambda>(s, t, f). (s, pattern_parse t, Option.bind f (from_json (fm_ext (app_format app)))))"

definition conn_views :: "ConnectionId \<Rightarrow> SubscriptionRegistry \<Rightarrow> (string \<times> TopicPattern \<times> FilterExpr option) list" where
  "conn_views c r = map entry_view (get_connection_subscriptions c r)"

definition answered :: "ServerMessage list \<Rightarrow> string \<Rightarrow> bool" where
  "answered replies s = list_ex (\<lambda>m. case m of SmSubscribed s' _ \<Rightarrow> s' = s | _ \<Rightarrow> False) replies"

lemma answered_simps [simp]:
  "answered [] s = False"
  "answered (m # ms) s = ((case m of SmSubscribed s' _ \<Rightarrow> s' = s | _ \<Rightarrow> False) \<or> answered ms s)"
  "answered (ms @ ns) s = (answered ms s \<or> answered ns s)"
  by (simp_all add: answered_def)

definition refused :: "ServerMessage list \<Rightarrow> bool" where
  "refused replies = list_ex (\<lambda>m. case m of SmError code _ \<Rightarrow> code = ''CAPACITY_EXCEEDED'' | _ \<Rightarrow> False) replies"

lemma refused_simps [simp]:
  "refused [] = False"
  "refused (m # ms) = ((case m of SmError code _ \<Rightarrow> code = ''CAPACITY_EXCEEDED'' | _ \<Rightarrow> False) \<or> refused ms)"
  "refused (ms @ ns) = (refused ms \<or> refused ns)"
  by (simp_all add: refused_def)

text \<open>The registry has no identifier of the connection from this list.\<close>

definition unheld :: "ConnectionId \<Rightarrow> string set \<Rightarrow> SubscriptionRegistry \<Rightarrow> bool" where
  "unheld c S r = (\<forall>s \<in> S. dm_get (rg_by_sub_id r) (c, s) = None)"

lemma subscribe_total:
  assumes "rg_inv x r"
  obtains r' res where "subscribe x sub node r = Some (r', res)"
proof (cases "check_subscription_guards r (sb_conn sub) (max_subscriptions_per_connection (fi_limits (rg_filter_index r)))
    (max_total_subscriptions (fi_limits (rg_filter_index r)))")
  case (Inl e)
  then show ?thesis using that by (simp add: subscribe_def)
next
  case (Inr u)
  have "fi_safe (rg_filter_index r)" using assms by (simp add: rg_inv_def rg_index_inv_def fi_ok_def fi_inv_def)
  then obtain fi res where "add_subscription x sub node (rg_filter_index r) = Some (fi, res)" by (rule add_safe)
  with Inr that show ?thesis by (cases res) (simp_all add: subscribe_def)
qed

lemma subscribe_views:
  assumes "subscribe x sub node r = Some (r', Inr u)"
  shows "get_connection_subscriptions c r' =
    (if c = sb_conn sub then get_connection_subscriptions c r @ [new_entry sub node] else get_connection_subscriptions c r)"
  using assms
proof (cases rule: subscribe_obtain)
  case (index fi)
  have "get_connection_subscriptions c (r\<lparr>rg_filter_index := fi\<rparr>) = get_connection_subscriptions c r" for c
    by (simp add: get_connection_subscriptions_def)
  then show ?thesis by (simp add: index(2))
qed simp

lemma handle_subscribe_effect:
  assumes inv: "rg_inv (fm_ext (app_format app)) (w_registry w)" and un: "unheld c (insert s S) (w_registry w)"
    and "s \<notin> S"
  obtains w' replies where "handle_subscribe app s t f opts c auth w = Some (Continue, w')"
    and "w_ctrl w' = w_ctrl w @ replies" and "rg_inv (fm_ext (app_format app)) (w_registry w')"
    and "unheld c S (w_registry w')" and "\<And>s'. answered replies s' \<Longrightarrow> s' = s"
    and "conn_views c (w_registry w') = conn_views c (w_registry w) @
           (if answered replies s then [wanted_view app (s, t, f)] else [])"
    and "as_authenticated auth \<Longrightarrow> \<not> subscribe_denied app auth (pattern_parse t) \<Longrightarrow> answered replies s \<or> refused replies"
proof (cases "as_authenticated auth \<and> \<not> subscribe_denied app auth (pattern_parse t)")
  case False
  then have "handle_subscribe app s t f opts c auth w = Some (Continue, w)"
    by (auto simp: handle_subscribe_def Let_def)
  with False inv un show ?thesis by (intro that [of w "[]"]) (auto simp: unheld_def)
next
  case True
  let ?x = "fm_ext (app_format app)"
  let ?sub = "make_subscription app s c (pattern_parse t) f opts"
  obtain r res where r: "subscribe ?x ?sub None (w_registry w) = Some (r, res)" by (rule subscribe_total [OF inv])
  have sub: "sb_conn ?sub = c" "sb_sub ?sub = SubscriptionId s" "sb_topic ?sub = pattern_parse t"
    "sb_filter ?sub = Option.bind f (from_json ?x)"
    by (simp_all add: make_subscription_def)
  show ?thesis
  proof (cases res)
    case (Inl e)
    note rej = subscribe_rejected [OF inv r [unfolded Inl]]
    let ?m = "server_error ''CAPACITY_EXCEEDED'' (show_error e)"
    have h: "handle_subscribe app s t f opts c auth w = Some (Continue, send_ctrl ?m (w\<lparr>w_registry := r\<rparr>))"
      using True r Inl by (simp add: handle_subscribe_def Let_def)
    have "conn_views c r = conn_views c (w_registry w)"
      using rej by (simp add: conn_views_def get_connection_subscriptions_def)
    with h rej un show ?thesis
      by (intro that [of "send_ctrl ?m (w\<lparr>w_registry := r\<rparr>)" "[?m]"])
        (simp_all add: send_ctrl_def server_error_def unheld_def)
  next
    case (Inr u)
    then have Inr: "res = Inr ()" by simp
    have fresh: "dm_get (rg_by_sub_id (w_registry w)) (sb_conn ?sub, sub_raw (sb_sub ?sub)) = None"
      using un by (simp add: sub unheld_def)
    have parsed: "parsed_pattern (sb_topic ?sub)" by (simp add: sub parsed_pattern_parse)
    note acc = subscribe_accepted [OF inv parsed fresh r [unfolded Inr]]
    have h: "handle_subscribe app s t f opts c auth w =
        Some (Continue, send_ctrl (SmSubscribed s 0) (w\<lparr>w_registry := r\<rparr>))"
      using True r Inr by (simp add: handle_subscribe_def Let_def)
    have "entry_view (new_entry ?sub None) = wanted_view app (s, t, f)"
      by (simp add: entry_view_def wanted_view_def sub)
    then have "conn_views c r = conn_views c (w_registry w) @ [wanted_view app (s, t, f)]"
      using subscribe_views [OF r [unfolded Inr], of c] by (simp add: conn_views_def sub(1))
    moreover have "unheld c S r"
      using un assms(3) by (auto simp: unheld_def acc(3) sub)
    ultimately show ?thesis
      using h acc(1) by (intro that [of "send_ctrl (SmSubscribed s 0) (w\<lparr>w_registry := r\<rparr>)" "[SmSubscribed s 0]"])
        (simp_all add: send_ctrl_def)
  qed
qed

subsection \<open>What the socket carries when a session opens\<close>

text \<open>The messages of \<open>open_session\<close>, and that the gateway's reader reads what the client's writer writes.\<close>

definition session_messages :: "RealtimeClient \<Rightarrow> ClientMessage list" where
  "session_messages c = CmAuth (rc_token c) # map resubscribe_message (rc_subscriptions c)"

definition codec_agrees :: "ClientExt \<Rightarrow> 'r App \<Rightarrow> ClientMessage \<Rightarrow> bool" where
  "codec_agrees x app m = (Option.bind (cw_client x m) (fm_client (app_format app)) = Some m)"

definition text_frames :: "Tick list \<Rightarrow> string list \<Rightarrow> (Tick \<times> ws_frame) list" where
  "text_frames tks ls = zip tks (map WsText ls)"

definition sent_text :: "ClientExt \<Rightarrow> ClientMessage \<Rightarrow> string" where
  "sent_text x m = the (cw_client x m)"

lemma codec_sent:
  "codec_agrees x app m \<Longrightarrow> cw_client x m = Some (sent_text x m) \<and> fm_client (app_format app) (sent_text x m) = Some m"
  by (auto simp: codec_agrees_def sent_text_def bind_eq_Some_conv)

lemma map_filter_sent:
  "\<forall>m \<in> set (map f ss). codec_agrees x app m \<Longrightarrow> List.map_filter (\<lambda>s. cw_client x (f s)) ss = map (sent_text x) (map f ss)"
  by (induction ss) (auto simp: map_filter_simps dest!: codec_sent)

lemma open_session_wire:
  assumes "client_step x (ClConnect True True random) c = Some c'"
    and "\<forall>m \<in> set (session_messages c). codec_agrees x app m"
  shows "rc_wire c' = map (sent_text x) (session_messages c)"
proof -
  have "cw_client x (CmAuth (rc_token c)) = Some (sent_text x (CmAuth (rc_token c)))"
    using assms(2) by (auto simp: session_messages_def dest: codec_sent)
  moreover have "List.map_filter (\<lambda>s. cw_client x (resubscribe_message s)) (rc_subscriptions c) =
      map (sent_text x) (map resubscribe_message (rc_subscriptions c))"
    using assms(2) by (intro map_filter_sent [of _ _ _ app]) (simp add: session_messages_def)
  ultimately show ?thesis
    using assms(1) by (auto simp: open_session_def resubscribe_def session_messages_def Let_def split: if_splits)
qed

lemma dispatch_subscribe:
  "fm_client (app_format app) l = Some (CmSubscribe s t f opts) \<Longrightarrow>
   handle_subscribe app s t f opts c auth w = Some (Continue, w') \<Longrightarrow>
   reader_loop app ((tk, WsText l) # frames) c (w, auth, slot) =
     reader_loop app frames c (w', auth, stamp_tenant auth slot)"
  by (simp add: reader_turn_def dispatch_text_def dispatch_message_def)

definition held_view :: "SubscriptionState \<Rightarrow> string \<times> string \<times> json option" where
  "held_view s = (ss_sub_id s, ss_topic s, ss_filter s)"

lemma answered_skip:
  assumes "\<And>s'. answered rs s' \<Longrightarrow> s' = s" and "s \<notin> ss_sub_id ` set ss"
  shows "filter (\<lambda>(s, _). answered (rs @ replies) s) (map held_view ss) =
    filter (\<lambda>(s, _). answered replies s) (map held_view ss)"
proof (rule filter_cong [OF refl])
  fix v assume "v \<in> set (map held_view ss)"
  then have "fst v \<in> ss_sub_id ` set ss" by (auto simp: held_view_def)
  with assms have "\<not> answered rs (fst v)" by metis
  then show "(case v of (s, _) \<Rightarrow> answered (rs @ replies) s) = (case v of (s, _) \<Rightarrow> answered replies s)"
    by (simp add: case_prod_beta)
qed

lemma resubscribe_frames:
  assumes "length tks = length ss" and "\<forall>m \<in> set (map resubscribe_message ss). codec_agrees x app m"
    and "distinct (map ss_sub_id ss)" and "rg_inv (fm_ext (app_format app)) (w_registry w)"
    and "unheld c (ss_sub_id ` set ss) (w_registry w)"
  shows "\<exists>w' auth' slot' replies.
    reader_loop app (text_frames tks (map (sent_text x) (map resubscribe_message ss))) c (w, auth, slot) =
      Some (Gone, w', auth', slot') \<and>
    w_ctrl w' = w_ctrl w @ replies \<and> rg_inv (fm_ext (app_format app)) (w_registry w') \<and>
    (\<forall>s. answered replies s \<longrightarrow> s \<in> ss_sub_id ` set ss) \<and>
    (as_authenticated auth \<and> (\<forall>s \<in> set ss. \<not> subscribe_denied app auth (pattern_parse (ss_topic s))) \<longrightarrow>
       (\<forall>s \<in> set ss. answered replies (ss_sub_id s) \<or> refused replies)) \<and>
    conn_views c (w_registry w') = conn_views c (w_registry w) @
      map (wanted_view app) (filter (\<lambda>(s, _). answered replies s) (map held_view ss))"
  using assms
proof (induction ss arbitrary: tks w slot)
  case Nil
  then show ?case by (simp add: text_frames_def)
next
  case (Cons s ss)
  from Cons.prems(1) obtain tk tks' where tks: "tks = tk # tks'" "length tks' = length ss" by (cases tks) auto
  let ?opts = "map_option (\<lambda>seq. \<lparr>so_overflow = None, so_resume_from = Some seq, so_rate_limit = None\<rparr>)
        (ss_last_sequence s)"
  have "fm_client (app_format app) (sent_text x (resubscribe_message s)) = Some (resubscribe_message s)"
    using Cons.prems(2) by (auto dest: codec_sent)
  then have client: "fm_client (app_format app) (sent_text x (resubscribe_message s)) =
      Some (CmSubscribe (ss_sub_id s) (ss_topic s) (ss_filter s) ?opts)"
    by (simp add: resubscribe_message_def)
  have notin: "ss_sub_id s \<notin> ss_sub_id ` set ss" using Cons.prems(3) by auto
  have un: "unheld c (insert (ss_sub_id s) (ss_sub_id ` set ss)) (w_registry w)" using Cons.prems(5) by simp
  obtain w1 rs where h: "handle_subscribe app (ss_sub_id s) (ss_topic s) (ss_filter s) ?opts c auth w = Some (Continue, w1)"
    and ctrl: "w_ctrl w1 = w_ctrl w @ rs" and inv1: "rg_inv (fm_ext (app_format app)) (w_registry w1)"
    and un1: "unheld c (ss_sub_id ` set ss) (w_registry w1)"
    and only: "\<And>s'. answered rs s' \<Longrightarrow> s' = ss_sub_id s"
    and views: "conn_views c (w_registry w1) = conn_views c (w_registry w) @
      (if answered rs (ss_sub_id s) then [wanted_view app (ss_sub_id s, ss_topic s, ss_filter s)] else [])"
    and all: "as_authenticated auth \<Longrightarrow> \<not> subscribe_denied app auth (pattern_parse (ss_topic s)) \<Longrightarrow>
      answered rs (ss_sub_id s) \<or> refused rs"
    by (rule handle_subscribe_effect [OF Cons.prems(4) un notin, where t = "ss_topic s" and f = "ss_filter s"
          and opts = ?opts and auth = auth]) (rule that)
  have codecs: "\<forall>m \<in> set (map resubscribe_message ss). codec_agrees x app m"
    and ids: "distinct (map ss_sub_id ss)"
    using Cons.prems(2,3) by simp_all
  obtain w' auth' slot' replies where
    loop: "reader_loop app (text_frames tks' (map (sent_text x) (map resubscribe_message ss))) c
        (w1, auth, stamp_tenant auth slot) = Some (Gone, w', auth', slot')"
    and ctrl': "w_ctrl w' = w_ctrl w1 @ replies" and inv': "rg_inv (fm_ext (app_format app)) (w_registry w')"
    and only': "\<forall>s. answered replies s \<longrightarrow> s \<in> ss_sub_id ` set ss"
    and all': "as_authenticated auth \<and> (\<forall>s \<in> set ss. \<not> subscribe_denied app auth (pattern_parse (ss_topic s))) \<longrightarrow>
       (\<forall>s \<in> set ss. answered replies (ss_sub_id s) \<or> refused replies)"
    and views': "conn_views c (w_registry w') = conn_views c (w_registry w1) @
      map (wanted_view app) (filter (\<lambda>(s, _). answered replies s) (map held_view ss))"
    using Cons.IH [OF tks(2) codecs ids inv1 un1, of "stamp_tenant auth slot"]
    by (elim exE conjE) (rule that)
  have run: "reader_loop app (text_frames tks (map (sent_text x) (map resubscribe_message (s # ss)))) c (w, auth, slot) =
      Some (Gone, w', auth', slot')"
    using dispatch_subscribe [OF client h, of tk] loop by (simp add: tks(1) text_frames_def)
  have rest: "filter (\<lambda>(s, _). answered (rs @ replies) s) (map held_view ss) =
      filter (\<lambda>(s, _). answered replies s) (map held_view ss)"
    by (rule answered_skip [OF only notin])
  have hd: "answered (rs @ replies) (ss_sub_id s) = answered rs (ss_sub_id s)" using only' notin by auto
  have vs: "conn_views c (w_registry w') = conn_views c (w_registry w) @
      map (wanted_view app) (filter (\<lambda>(s, _). answered (rs @ replies) s) (map held_view (s # ss)))"
    unfolding views' views list.map(2) filter.simps rest
    by (simp only: held_view_def prod.case hd) simp
  have "\<forall>s'. answered (rs @ replies) s' \<longrightarrow> s' \<in> ss_sub_id ` set (s # ss)"
    using only only' by auto
  moreover have "as_authenticated auth \<and> (\<forall>s \<in> set (s # ss). \<not> subscribe_denied app auth (pattern_parse (ss_topic s))) \<longrightarrow>
       (\<forall>s \<in> set (s # ss). answered (rs @ replies) (ss_sub_id s) \<or> refused (rs @ replies))"
    using all all' by auto
  ultimately show ?case
    using run ctrl ctrl' inv' vs
    by (intro exI [of _ w'] exI [of _ auth'] exI [of _ slot'] exI [of _ "rs @ replies"]) (simp only: append_assoc simp_thms)
qed

subsection \<open>A client that reconnects\<close>

lemma unheld_fresh:
  assumes "rg_inv x r" and "get_connection_subscriptions c r = []"
  shows "unheld c S r"
proof -
  have False if "dm_get (rg_by_sub_id r) (c, s) = Some e" for s e
    using rg_entry [OF assms(1) that] rg_conn [OF assms(1), of e c] assms(2) that
    by (auto simp: live_def entry_key_def)
  then show ?thesis unfolding unheld_def by (meson not_Some_eq)
qed

lemma auth_frame:
  assumes "fm_client (app_format app) l = Some (CmAuth token)"
  shows "reader_loop app (text_frames (tk # tks) (l # ls)) conn (w, auth_state_default, None) =
    (case au_verify (app_auth app) token ws_auth_context of
       Inl e \<Rightarrow> Some (Gone, send_ctrl (server_error ''AUTH_FAILED'' (show_error e)) w, auth_state_default, None)
     | Inr cl \<Rightarrow>
         let auth = auth_state_default\<lparr>as_authenticated := True, as_claims := Some cl\<rparr> in
         reader_loop app (text_frames tks ls) conn
           (send_ctrl (SmAuthOk (show_conn_id conn) (fm_rfc3339 (app_format app) (tk_now tk))) w, auth, stamp_tenant auth None))"
  by (cases "au_verify (app_auth app) token ws_auth_context")
    (simp_all add: text_frames_def reader_turn_def dispatch_text_def assms dispatch_message_def handle_auth_def
      stamp_tenant_def auth_state_default_def Let_def)

text \<open>The session of a client that holds \<open>ss\<close>, from its first frame.\<close>

lemma session_restores:
  assumes codec: "\<forall>m \<in> set (CmAuth token # map resubscribe_message ss). codec_agrees x app m"
    and ids: "distinct (map ss_sub_id ss)"
    and inv: "rg_inv (fm_ext (app_format app)) (w_registry w)"
    and empty: "get_connection_subscriptions conn (w_registry w) = []"
    and len: "length tks = Suc (length ss)"
  shows "\<exists>w' auth' slot' replies.
    reader_loop app (text_frames tks (map (sent_text x) (CmAuth token # map resubscribe_message ss))) conn
      (w, auth_state_default, None) = Some (Gone, w', auth', slot') \<and>
    w_ctrl w' = w_ctrl w @ replies \<and> rg_inv (fm_ext (app_format app)) (w_registry w') \<and>
    conn_views conn (w_registry w') =
      map (wanted_view app) (filter (\<lambda>(s, _). answered replies s) (map held_view ss)) \<and>
    (\<forall>cl. au_verify (app_auth app) token ws_auth_context = Inr cl \<and>
        (\<forall>s \<in> set ss. au_subscribe (app_auth app) cl (pattern_parse (ss_topic s)) = Inr ()) \<longrightarrow>
      (\<forall>s \<in> set ss. answered replies (ss_sub_id s) \<or> refused replies))"
proof -
  obtain tk tks' where tks: "tks = tk # tks'" "length tks' = length ss" using len by (cases tks) auto
  have "fm_client (app_format app) (sent_text x (CmAuth token)) = Some (CmAuth token)"
    using codec by (auto dest: codec_sent)
  note first = auth_frame [OF this, of tk tks' "map (sent_text x) (map resubscribe_message ss)" conn w]
  show ?thesis
  proof (cases "au_verify (app_auth app) token ws_auth_context")
    case (Inl e)
    with first inv empty show ?thesis
      by (intro exI [of _ "send_ctrl (server_error ''AUTH_FAILED'' (show_error e)) w"] exI [of _ auth_state_default]
          exI [of _ None] exI [of _ "[server_error ''AUTH_FAILED'' (show_error e)]"])
        (simp add: tks(1) send_ctrl_def server_error_def conn_views_def case_prod_beta)
  next
    case (Inr cl)
    let ?ok = "SmAuthOk (show_conn_id conn) (fm_rfc3339 (app_format app) (tk_now tk))"
    let ?w1 = "send_ctrl ?ok w"
    let ?auth = "auth_state_default\<lparr>as_authenticated := True, as_claims := Some cl\<rparr>"
    have codecs: "\<forall>m \<in> set (map resubscribe_message ss). codec_agrees x app m" using codec by simp
    have reg: "w_registry ?w1 = w_registry w" by (simp add: send_ctrl_def)
    have inv1: "rg_inv (fm_ext (app_format app)) (w_registry ?w1)"
      and un1: "unheld conn (ss_sub_id ` set ss) (w_registry ?w1)"
      using inv unheld_fresh [OF inv empty] by (simp_all add: reg)
    obtain w' auth' slot' replies where
      loop: "reader_loop app (text_frames tks' (map (sent_text x) (map resubscribe_message ss))) conn
          (?w1, ?auth, stamp_tenant ?auth None) = Some (Gone, w', auth', slot')"
      and ctrl: "w_ctrl w' = w_ctrl ?w1 @ replies" and inv': "rg_inv (fm_ext (app_format app)) (w_registry w')"
      and all: "as_authenticated ?auth \<and> (\<forall>s \<in> set ss. \<not> subscribe_denied app ?auth (pattern_parse (ss_topic s))) \<longrightarrow>
         (\<forall>s \<in> set ss. answered replies (ss_sub_id s) \<or> refused replies)"
      and views: "conn_views conn (w_registry w') = conn_views conn (w_registry ?w1) @
        map (wanted_view app) (filter (\<lambda>(s, _). answered replies s) (map held_view ss))"
      using resubscribe_frames [OF tks(2) codecs ids inv1 un1, of ?auth "stamp_tenant ?auth None"]
      by (elim exE conjE) (rule that)
    with first Inr empty show ?thesis
      by (intro exI [of _ w'] exI [of _ auth'] exI [of _ slot'] exI [of _ "?ok # replies"])
        (simp add: tks(1) send_ctrl_def reg conn_views_def subscribe_denied_def Let_def)
  qed
qed

text \<open>
  C9: A reconnect restores what the application holds, for an application whose held subscriptions have
  distinct identifiers (the SDK itself does not check that).  After a history of the client that leaves
  it so, let its connection be made again; let the gateway's codec read the session's opening messages as
  the client's wrote them, and let the gateway, its registry satisfying the invariant, read them on a
  connection that has no subscription yet.  Then the registry holds for the connection, in the client's
  order and with its topics and filters, exactly the subscriptions the client holds that were answered
  with \<open>SUBSCRIBED\<close>, and keeps its invariant; and when the token is good for all of them, each is answered,
  unless a capacity limit was reached.
\<close>

theorem client_reconnect_restored:
  assumes "client_run x ops (builder_build b) = Some c"
    and "client_step x (ClConnect True True random) c = Some c'"
    and "\<forall>m \<in> set (session_messages c). codec_agrees x app m"
    and "distinct (map fst (wanted ops []))"
    and "rg_inv (fm_ext (app_format app)) (w_registry w)"
    and "get_connection_subscriptions conn (w_registry w) = []"
    and "length tks = length (rc_wire c')"
  shows "\<exists>w' auth' slot' replies.
    reader_loop app (text_frames tks (rc_wire c')) conn (w, auth_state_default, None) = Some (Gone, w', auth', slot') \<and>
    w_ctrl w' = w_ctrl w @ replies \<and> rg_inv (fm_ext (app_format app)) (w_registry w') \<and>
    conn_views conn (w_registry w') =
      map (wanted_view app) (filter (\<lambda>(s, _). answered replies s) (wanted ops [])) \<and>
    ((\<exists>cl. au_verify (app_auth app) (cb_token b) ws_auth_context = Inr cl \<and>
        (\<forall>(s, t, f) \<in> set (wanted ops []). au_subscribe (app_auth app) cl (pattern_parse t) = Inr ())) \<longrightarrow>
      (\<forall>(s, _) \<in> set (wanted ops []). answered replies s \<or> refused replies))"
proof -
  let ?ss = "rc_subscriptions c"
  have start: "held (builder_build b) = []" "rc_token (builder_build b) = cb_token b"
    by (simp_all add: builder_build_def held_def)
  have held: "map held_view ?ss = wanted ops []" and token: "rc_token c = cb_token b"
    using client_run_held [OF assms(1)] start by (simp_all add: held_def held_view_def [abs_def])
  have ids: "distinct (map ss_sub_id ?ss)"
    using assms(4) by (simp add: held [symmetric] o_def held_view_def)
  have wire: "rc_wire c' = map (sent_text x) (CmAuth (cb_token b) # map resubscribe_message ?ss)"
    using open_session_wire [OF assms(2,3)] by (simp add: session_messages_def token)
  have "length tks = Suc (length ?ss)" using assms(7) by (simp add: wire)
  note restored = session_restores [OF assms(3) [unfolded session_messages_def token] ids assms(5,6) this]
  obtain w' auth' slot' replies where
    r: "reader_loop app (text_frames tks (rc_wire c')) conn (w, auth_state_default, None) = Some (Gone, w', auth', slot')"
      "w_ctrl w' = w_ctrl w @ replies" "rg_inv (fm_ext (app_format app)) (w_registry w')"
      "conn_views conn (w_registry w') =
        map (wanted_view app) (filter (\<lambda>(s, _). answered replies s) (wanted ops []))"
    and all: "\<forall>cl. au_verify (app_auth app) (cb_token b) ws_auth_context = Inr cl \<and>
        (\<forall>s \<in> set ?ss. au_subscribe (app_auth app) cl (pattern_parse (ss_topic s)) = Inr ()) \<longrightarrow>
      (\<forall>s \<in> set ?ss. answered replies (ss_sub_id s) \<or> refused replies)"
    using restored [folded wire, unfolded held] by (elim exE conjE) (rule that)
  have "\<forall>(s, _) \<in> set (wanted ops []). answered replies s \<or> refused replies"
    if "\<exists>cl. au_verify (app_auth app) (cb_token b) ws_auth_context = Inr cl \<and>
      (\<forall>(s, t, f) \<in> set (wanted ops []). au_subscribe (app_auth app) cl (pattern_parse t) = Inr ())"
    using that all unfolding held [symmetric] by (auto simp: held_view_def)
  with r show ?thesis by blast
qed

text \<open>A codec for three messages, the client's run of \<open>demo_client_ops\<close> with it, and the example session's gateway.\<close>

definition demo_codec :: "(string \<times> ClientMessage) list" where
  "demo_codec = [(''m0'', CmAuth ''t''),
     (''m1'', CmSubscribe ''s1'' ''a/b'' None (Some \<lparr>so_overflow = None, so_resume_from = Some 7, so_rate_limit = None\<rparr>)),
     (''m2'', CmSubscribe ''s1'' ''a/b'' None None)]"

definition demo_sdk :: ClientExt where
  "demo_sdk = \<lparr>cw_client = (\<lambda>m. map_of (map (\<lambda>(l, m). (m, l)) demo_codec) m),
     cw_server = (\<lambda>t. Some (SmEvent ''s1'' (demo_payload t 7))), cw_iter = (\<lambda>s. s)\<rparr>"

definition demo_gateway :: "unit App" where
  "demo_gateway = demo_app\<lparr>app_format := (app_format demo_app)\<lparr>fm_client := map_of demo_codec\<rparr>\<rparr>"

lemma demo_reconnect:
  obtains c c' where "client_run demo_sdk demo_client_ops (builder_build (builder_token ''t'' (builder_new ''ws''))) = Some c"
    and "client_step demo_sdk (ClConnect True True 0) c = Some c'" and "rc_wire c' = [''m0'', ''m1'']"
    and "session_messages c = [CmAuth ''t'', CmSubscribe ''s1'' ''a/b'' None
      (Some \<lparr>so_overflow = None, so_resume_from = Some 7, so_rate_limit = None\<rparr>)]"
proof -
  have "\<exists>c c'. client_run demo_sdk demo_client_ops (builder_build (builder_token ''t'' (builder_new ''ws''))) = Some c \<and>
    client_step demo_sdk (ClConnect True True 0) c = Some c' \<and> rc_wire c' = [''m0'', ''m1''] \<and>
    session_messages c = [CmAuth ''t'', CmSubscribe ''s1'' ''a/b'' None
      (Some \<lparr>so_overflow = None, so_resume_from = Some 7, so_rate_limit = None\<rparr>)]"
    by (simp add: eval_client demo_sdk_def demo_codec_def session_messages_def)
  then show ?thesis using that by blast
qed

theorem client_reconnect_restored_witness:
  "\<exists>(c' :: RealtimeClient) w' auth' slot'.
     rc_wire c' = [''m0'', ''m1''] \<and>
     reader_loop demo_gateway (text_frames [demo_tick, demo_tick] (rc_wire c')) (ConnectionId 7)
       (demo_world, auth_state_default, None) = Some (Gone, w', auth', slot') \<and>
     w_ctrl w' = [SmAuthOk (show_conn_id (ConnectionId 7)) ''t'', SmSubscribed ''s1'' 0] \<and>
     conn_views (ConnectionId 7) (w_registry w') = [(''s1'', Exact (TopicPath ''a/b''), None)]"
proof -
  obtain c c' where run: "client_run demo_sdk demo_client_ops (builder_build (builder_token ''t'' (builder_new ''ws''))) = Some c"
    and step: "client_step demo_sdk (ClConnect True True 0) c = Some c'" and wire: "rc_wire c' = [''m0'', ''m1'']"
    and msgs: "session_messages c = [CmAuth ''t'', CmSubscribe ''s1'' ''a/b'' None
      (Some \<lparr>so_overflow = None, so_resume_from = Some 7, so_rate_limit = None\<rparr>)]"
    by (rule demo_reconnect)
  have codec: "\<forall>m \<in> set (session_messages c). codec_agrees demo_sdk demo_gateway m"
    by (simp add: msgs codec_agrees_def demo_sdk_def demo_gateway_def demo_codec_def)
  have wanted: "wanted demo_client_ops [] = [(''s1'', ''a/b'', None)]" by (simp add: demo_client_ops_def)
  have inv: "rg_inv (fm_ext (app_format demo_gateway)) (w_registry demo_world)"
    by (simp add: demo_world_def limits_default_def rg_inv_new)
  have empty: "get_connection_subscriptions (ConnectionId 7) (w_registry demo_world) = []"
    by (simp add: demo_world_def get_connection_subscriptions_def registry_with_limits_def)
  obtain w' auth' slot' replies where
    loop: "reader_loop demo_gateway (text_frames [demo_tick, demo_tick] (rc_wire c')) (ConnectionId 7)
       (demo_world, auth_state_default, None) = Some (Gone, w', auth', slot')"
    and ctrl: "w_ctrl w' = w_ctrl demo_world @ replies"
    and views: "conn_views (ConnectionId 7) (w_registry w') = map (wanted_view demo_gateway)
        (filter (\<lambda>(s, _). answered replies s) (wanted demo_client_ops []))"
    using client_reconnect_restored [OF run step codec _ inv empty, of "[demo_tick, demo_tick]"]
    by (auto simp: wanted wire)
  have "case reader_loop demo_gateway (text_frames [demo_tick, demo_tick] (rc_wire c')) (ConnectionId 7)
       (demo_world, auth_state_default, None) of None \<Rightarrow> False
     | Some (_, w', _) \<Rightarrow> w_ctrl w' = [SmAuthOk (show_conn_id (ConnectionId 7)) ''t'', SmSubscribed ''s1'' 0]"
    by (simp add: wire text_frames_def demo_gateway_def demo_codec_def eval_session eval_all)
  then have w': "w_ctrl w' = [SmAuthOk (show_conn_id (ConnectionId 7)) ''t'', SmSubscribed ''s1'' 0]" by (simp add: loop)
  then have "replies = [SmAuthOk (show_conn_id (ConnectionId 7)) ''t'', SmSubscribed ''s1'' 0]" using ctrl by (simp add: demo_world_def)
  then have "conn_views (ConnectionId 7) (w_registry w') = [(''s1'', Exact (TopicPath ''a/b''), None)]"
    using views by (simp add: wanted wanted_view_def eval_all)
  with wire loop w' show ?thesis
    by (intro exI [of _ c'] exI [of _ w'] exI [of _ auth'] exI [of _ slot'] conjI)
qed

subsection \<open>The options of a subscription\<close>

text \<open>The registry with the options of every entry forgotten.\<close>

definition no_options :: "Subscription \<Rightarrow> Subscription" where
  "no_options sub = sub\<lparr>sb_config := sub_config_default\<rparr>"

definition plain_entry :: "SubscriptionEntry \<Rightarrow> SubscriptionEntry" where
  "plain_entry e = e\<lparr>se_subscription := no_options (se_subscription e)\<rparr>"

definition dm_image :: "('a \<Rightarrow> 'b) \<Rightarrow> ('k, 'a) dashmap \<Rightarrow> ('k, 'b) dashmap" where
  "dm_image f m = map (\<lambda>(k, v). (k, f v)) m"

definition plain :: "SubscriptionRegistry \<Rightarrow> SubscriptionRegistry" where
  "plain r = r\<lparr>rg_by_connection := dm_image (map plain_entry) (rg_by_connection r),
     rg_by_sub_id := dm_image plain_entry (rg_by_sub_id r)\<rparr>"

lemma dm_get_image [simp]: "dm_get (dm_image f m) k = map_option f (dm_get m k)"
  by (induction m) (auto simp: dm_get_def dm_image_def)

lemma dm_image_insert [simp]: "dm_image f (dm_insert k v m) = dm_insert k (f v) (dm_image f m)"
  by (induction m) (auto simp: dm_insert_def dm_image_def)

lemma dm_image_remove [simp]: "dm_image f (dm_remove k m) = dm_remove k (dm_image f m)"
  by (induction m) (auto simp: dm_remove_def dm_image_def AList.delete_eq)

lemma dm_len_image [simp]: "dm_len (dm_image f m) = dm_len m"
  by (simp add: dm_len_def dm_image_def)

lemma dm_image_entry: "\<forall>v. f (g v) = h (f v) \<Longrightarrow> dm_image f (dm_entry k d g m) = dm_entry k (f d) h (dm_image f m)"
  by (cases "dm_get m k") (simp_all add: dm_entry_def)

lemma dm_image_modify: "\<forall>v. f (g v) = h (f v) \<Longrightarrow> dm_image f (dm_modify k g m) = dm_modify k h (dm_image f m)"
  by (cases "dm_get m k") (simp_all add: dm_modify_def)

lemma no_options_sel [simp]:
  "sb_sub (no_options sub) = sb_sub sub" "sb_conn (no_options sub) = sb_conn sub"
  "sb_topic (no_options sub) = sb_topic sub" "sb_filter (no_options sub) = sb_filter sub"
  "no_options (no_options sub) = no_options sub"
  by (simp_all add: no_options_def)

lemma plain_entry_sel [simp]:
  "se_subscription (plain_entry e) = no_options (se_subscription e)"
  "se_gateway_node (plain_entry e) = se_gateway_node e"
  by (simp_all add: plain_entry_def)

lemma plain_sel [simp]:
  "rg_filter_index (plain r) = rg_filter_index r" "rg_by_topic (plain r) = rg_by_topic r"
  "rg_patterns (plain r) = rg_patterns r"
  "rg_by_connection (plain r) = dm_image (map plain_entry) (rg_by_connection r)"
  "rg_by_sub_id (plain r) = dm_image plain_entry (rg_by_sub_id r)"
  by (simp_all add: plain_def)

lemma plain_index: "plain (r\<lparr>rg_filter_index := fi\<rparr>) = (plain r)\<lparr>rg_filter_index := fi\<rparr>"
  by (simp add: plain_def)

lemma plain_guards: "check_subscription_guards (plain r) c m n = check_subscription_guards r c m n"
  by (cases "dm_get (rg_by_connection r) c") (simp_all add: check_subscription_guards_def)

lemma plain_insert: "plain (registry_insert sub node r) = registry_insert (no_options sub) node (plain r)"
proof -
  have e: "plain_entry \<lparr>se_subscription = sub, se_gateway_node = node\<rparr> =
      \<lparr>se_subscription = no_options sub, se_gateway_node = node\<rparr>"
    by (simp add: plain_entry_def)
  have "dm_image (map plain_entry) (dm_entry k [] (\<lambda>v. v @ [\<lparr>se_subscription = sub, se_gateway_node = node\<rparr>]) m) =
      dm_entry k [] (\<lambda>v. v @ [\<lparr>se_subscription = no_options sub, se_gateway_node = node\<rparr>]) (dm_image (map plain_entry) m)"
    for k :: ConnectionId and m using dm_image_entry [of "map plain_entry" "\<lambda>v. v @ [\<lparr>se_subscription = sub, se_gateway_node = node\<rparr>]"
        "\<lambda>v. v @ [\<lparr>se_subscription = no_options sub, se_gateway_node = node\<rparr>]" k "[]" m] by (simp add: e)
  then show ?thesis by (simp add: registry_insert_def plain_def Let_def e)
qed

lemma index_ignores_options:
  "add_subscription x (no_options sub) node fi = add_subscription x sub node fi"
  "remove_subscription (no_options sub) fi = remove_subscription sub fi"
proof -
  have "check_limits k (no_options sub) fi = check_limits k sub fi" for k
    unfolding check_limits_def estimate_new_keys_def no_options_sel ..
  moreover have "dispatch_slot_of (no_options sub) node = dispatch_slot_of sub node" by (simp add: dispatch_slot_of_def)
  ultimately show "add_subscription x (no_options sub) node fi = add_subscription x sub node fi"
    by (simp add: add_subscription_def)
  show "remove_subscription (no_options sub) fi = remove_subscription sub fi"
    unfolding remove_subscription_def no_options_sel ..
qed

lemma plain_subscribe:
  "map_option (map_prod plain id) (subscribe x sub node r) = subscribe x (no_options sub) node (plain r)"
proof (cases "check_subscription_guards r (sb_conn sub) (max_subscriptions_per_connection (fi_limits (rg_filter_index r)))
    (max_total_subscriptions (fi_limits (rg_filter_index r)))")
  case (Inl e)
  then show ?thesis by (simp add: subscribe_def plain_guards)
next
  case (Inr u)
  show ?thesis
  proof (cases "add_subscription x sub node (rg_filter_index r)")
    case None
    with Inr show ?thesis by (simp add: subscribe_def plain_guards index_ignores_options)
  next
    case (Some p)
    obtain fi res where p: "p = (fi, res)" by (cases p)
    with Inr Some show ?thesis
      by (cases res) (simp_all add: subscribe_def plain_guards index_ignores_options plain_insert plain_index)
  qed
qed

lemma plain_unsubscribe: "map_prod plain id (unsubscribe c s r) = unsubscribe c s (plain r)"
proof (cases "dm_get (rg_by_sub_id r) (c, s)")
  case None
  then show ?thesis by (simp add: unsubscribe_def)
next
  case (Some e)
  have "dm_image (map plain_entry) (dm_modify c (filter (\<lambda>e. sub_raw (sb_sub (se_subscription e)) \<noteq> s)) m) =
      dm_modify c (filter (\<lambda>e. sub_raw (sb_sub (se_subscription e)) \<noteq> s)) (dm_image (map plain_entry) m)" for m
    by (rule dm_image_modify) (simp add: filter_map o_def)
  with Some show ?thesis
    by (simp add: unsubscribe_def plain_def Let_def index_ignores_options)
qed

lemma plain_remove_entry: "plain (remove_entry c e r) = remove_entry c (plain_entry e) (plain r)"
  by (simp add: remove_entry_def plain_def Let_def index_ignores_options)

lemma plain_remove_connection: "plain (registry_remove_connection c r) = registry_remove_connection c (plain r)"
proof (cases "dm_get (rg_by_connection r) c")
  case None
  then show ?thesis by (simp add: registry_remove_connection_def)
next
  case (Some es)
  have "plain (fold (remove_entry c) es r) = fold (remove_entry c) (map plain_entry es) (plain r)" for r
    by (induction es arbitrary: r) (simp_all add: plain_remove_entry)
  moreover have "plain (r\<lparr>rg_by_connection := dm_remove c (rg_by_connection r)\<rparr>) =
      (plain r)\<lparr>rg_by_connection := dm_remove c (dm_image (map plain_entry) (rg_by_connection r))\<rparr>"
    by (simp add: plain_def)
  ultimately show ?thesis by (simp only: registry_remove_connection_def plain_sel dm_get_image Some option.map option.case)
qed

lemma plain_lookup: "lookup_matches x event (plain r) = lookup_matches x event r"
proof -
  have "lookup_entry x event (plain r) v = lookup_entry x event r v" for v
    by (cases v; cases "dm_get (rg_by_sub_id r) (fst v, sub_raw (snd v))") 
      (simp_all add: lookup_entry_def split: option.split)
  then have e: "lookup_entry x event (plain r) = lookup_entry x event r" by (rule ext)
  show ?thesis unfolding lookup_matches_def plain_sel e ..
qed

text \<open>
  C19: A subscription's options have no effect.  The overflow policy, the rate limit and the sequence
  number to resume from, which the client sends when it reconnects, are stored with the subscription
  and never consulted: forgetting them commutes with accepting, removing and dropping subscriptions,
  and leaves every lookup, by the maps, by the bitmap index and by its visitor, as it is.
\<close>

theorem options_never_consulted:
  "map_option (map_prod plain id) (subscribe x sub node r) = subscribe x (no_options sub) node (plain r) \<and>
   map_prod plain id (unsubscribe c s r) = unsubscribe c s (plain r) \<and>
   plain (registry_remove_connection c r) = registry_remove_connection c (plain r) \<and>
   lookup_matches x event (plain r) = lookup_matches x event r \<and>
   map_option (map_prod id plain) (lookup_matches_bitmap x ck event r) = lookup_matches_bitmap x ck event (plain r) \<and>
   map_option (map_prod id (map_prod id plain)) (registry_for_each_match x ck event visit r acc) =
     registry_for_each_match x ck event visit (plain r) acc"
proof (intro conjI)
  show "map_option (map_prod id plain) (lookup_matches_bitmap x ck event r) = lookup_matches_bitmap x ck event (plain r)"
    by (cases "fi_collect_matches x ck event (rg_filter_index r)") (auto simp: lookup_matches_bitmap_def plain_index)
  show "map_option (map_prod id (map_prod id plain)) (registry_for_each_match x ck event visit r acc) =
      registry_for_each_match x ck event visit (plain r) acc"
    by (cases "fi_for_each_match x ck event visit (rg_filter_index r) acc") (auto simp: registry_for_each_match_def plain_index)
qed (rule plain_subscribe plain_unsubscribe plain_remove_connection plain_lookup)+

end
