(* ===== verification/Rt_Producers.thy ===== *)
theory Rt_Producers
  imports Rt_Db
begin

text \<open>
  The producers as the server holds them: the dial of PostgreSQL and its \<open>LISTEN\<close>
  (\<open>crates/realtime-db-postgres/src/producer/lifecycle.rs\<close>), the connection of MongoDB, the factories of
  the two \<open>lib.rs\<close> files that decode their configuration, and the \<open>DatabaseProducer\<close> trait both implement.
  What the drivers answer is a parameter.  Lemmas: what makes a start succeed and what it discards; that a
  stopped producer hands on at most one more event; when the health answer knows that a feed is missing.
\<close>

subsection \<open>The dial of PostgreSQL (db-postgres lifecycle.rs)\<close>

text \<open>What the driver does in one attempt.  \<open>dv_connect\<close>: its error for a connection string, if any;
  \<open>dv_execute\<close>: what the \<open>select!\<close> around the query of that text sees, items of the connection and the
  answer of the query, in order; \<open>dv_query\<close>: the answer of a plain query; \<open>dv_poisoned\<close>: the error of the
  client's lock.\<close>

datatype listen_event = ConnectionItem | ListenAnswer "string option"

record PgDriver =
  dv_connect :: "string \<Rightarrow> string option"
  dv_execute :: "string \<Rightarrow> listen_event list"
  dv_query :: "string \<Rightarrow> string option"
  dv_poisoned :: "string option"

definition connect_pg :: "PgDriver \<Rightarrow> string \<Rightarrow> (RealtimeError, unit) result" where
  "connect_pg dv conn_str =
     (case dv_connect dv conn_str of
        Some e \<Rightarrow> Inl (InternalError (''PostgreSQL connect failed: '' @ e))
      | None \<Rightarrow> Inr ())"

definition issue_listen :: "PgDriver \<Rightarrow> string \<Rightarrow> listen_event list" where
  "issue_listen dv channel = dv_execute dv (''LISTEN '' @ channel)"

text \<open>The loop of \<open>listen_while_driving\<close>; \<open>None\<close> while there is no answer.\<close>

fun drive_listen :: "listen_event list \<Rightarrow> (RealtimeError, unit) result option" where
  "drive_listen [] = None"
| "drive_listen (ListenAnswer None # evs) = Some (Inr ())"
| "drive_listen (ListenAnswer (Some e) # evs) = Some (Inl (InternalError (''LISTEN failed: '' @ e)))"
| "drive_listen (ConnectionItem # evs) = drive_listen evs"

definition listen_while_driving :: "PgDriver \<Rightarrow> string \<Rightarrow> (RealtimeError, unit) result option" where
  "listen_while_driving dv channel = drive_listen (issue_listen dv channel)"

definition store_client :: "PgDriver \<Rightarrow> (RealtimeError, unit) result" where
  "store_client dv =
     (case dv_poisoned dv of
        Some e \<Rightarrow> Inl (InternalError (''Mutex poisoned: '' @ e))
      | None \<Rightarrow> Inr ())"

definition attach :: "PgDriver \<Rightarrow> PostgresConfig \<Rightarrow> (RealtimeError, unit) result option" where
  "attach dv config =
     (case connect_pg dv (pc_connection_string config) of
        Inl e \<Rightarrow> Some (Inl e)
      | Inr _ \<Rightarrow>
          do { res \<leftarrow> listen_while_driving dv (pc_channel config);
               case res of
                 Inl e \<Rightarrow> Some (Inl e)
               | Inr _ \<Rightarrow> Some (store_client dv) })"

text \<open>The supervisor's \<open>attach\<close>, as the input its loop takes.\<close>

definition attach_input :: "PgDriver \<Rightarrow> PostgresConfig \<Rightarrow> pg_input option" where
  "attach_input dv config = map_option (\<lambda>res. case res of Inl _ \<Rightarrow> PgAttachFailed | Inr _ \<Rightarrow> PgAttached) (attach dv config)"

subsection \<open>The PostgreSQL producer (db-postgres mod.rs, lifecycle.rs)\<close>

record PgAdapter =
  pa_config :: PostgresConfig
  pa_state :: PostgresProducer

text \<open>\<open>new\<close>: no supervisor runs.\<close>

definition pg_new :: "PostgresConfig \<Rightarrow> PgAdapter" where
  "pg_new config =
     \<lparr>pa_config = config,
      pa_state = (pg_started (pc_topic_prefix config))
        \<lparr>pg_phase := Finished, pg_running := False, pg_connected := False, pg_client := False\<rparr>\<rparr>"

text \<open>\<open>start\<close>, up to the spawn of the supervisor with its fresh channel.\<close>

definition pg_start :: "PgDriver \<Rightarrow> PgAdapter \<Rightarrow> ((RealtimeError, unit) result \<times> PgAdapter) option" where
  "pg_start dv a =
     (let a = a\<lparr>pa_state := (pa_state a)\<lparr>pg_running := True\<rparr>\<rparr>
      in map_option (\<lambda>res. case res of
           Inl e \<Rightarrow> (Inl e, a)
         | Inr _ \<Rightarrow> (Inr (), a\<lparr>pa_state := pg_started (pc_topic_prefix (pa_config a))\<rparr>))
       (attach dv (pa_config a)))"

definition pg_health_check :: "PgDriver \<Rightarrow> PgAdapter \<Rightarrow> (RealtimeError, unit) result" where
  "pg_health_check dv a =
     (case connect_pg dv (pc_connection_string (pa_config a)) of
        Inl e \<Rightarrow> Inl (InternalError (''Health check failed: '' @ show_error e))
      | Inr _ \<Rightarrow>
          (case dv_query dv ''SELECT 1'' of
             Some e \<Rightarrow> Inl (InternalError (''Health check query failed: '' @ e))
           | None \<Rightarrow> Inr ()))"

subsection \<open>The MongoDB producer (db-mongodb mod.rs, lifecycle.rs)\<close>

text \<open>\<open>mv_connect\<close> and \<open>mv_watch\<close>: the errors of the connection and of opening the change stream, \<open>mv_ping\<close>
  that of the \<open>ping\<close> command.\<close>

record MgDriver =
  mv_connect :: "string \<Rightarrow> string option"
  mv_watch :: "document list \<Rightarrow> string option"
  mv_ping :: "string option"

definition mongo_new :: "MongoConfig \<Rightarrow> MongoProducer" where
  "mongo_new config = \<lparr>mg_config = config, mg_running = False, mg_done = True, mg_rx_alive = True, mg_sent = []\<rparr>"

definition connect_mongo :: "MgDriver \<Rightarrow> string \<Rightarrow> (RealtimeError, unit) result" where
  "connect_mongo mv uri =
     (case mv_connect mv uri of
        Some e \<Rightarrow> Inl (InternalError (''MongoDB connect failed: '' @ e))
      | None \<Rightarrow> Inr ())"

definition mongo_restart :: "MgDriver \<Rightarrow> MongoProducer \<Rightarrow> (RealtimeError, unit) result \<times> MongoProducer" where
  "mongo_restart mv p =
     (let config = mg_config p in
      case mongo_start config (mv_connect mv (mc_uri config)) (mv_watch mv (build_pipeline config) = None) of
        Inl e \<Rightarrow> (Inl e, p\<lparr>mg_running := True\<rparr>)
      | Inr p' \<Rightarrow> (Inr (), p'))"

definition mongo_health_check :: "MgDriver \<Rightarrow> MongoProducer \<Rightarrow> (RealtimeError, unit) result" where
  "mongo_health_check mv p =
     (case connect_mongo mv (mc_uri (mg_config p)) of
        Inl e \<Rightarrow> Inl (InternalError (''Health check failed: '' @ show_error e))
      | Inr _ \<Rightarrow>
          (case mv_ping mv of
             Some e \<Rightarrow> Inl (InternalError (''Health check ping failed: '' @ e))
           | None \<Rightarrow> Inr ()))"

subsection \<open>The trait and the factories (traits/producer.rs, lib.rs)\<close>

datatype DatabaseProducer = ProducerPg PgAdapter | ProducerMongo MongoProducer

fun producer_name :: "DatabaseProducer \<Rightarrow> string" where
  "producer_name (ProducerPg _) = ''postgresql''"
| "producer_name (ProducerMongo _) = ''mongodb''"

text \<open>\<open>attached\<close>, with the default of the trait for the producer that does not define it.\<close>

fun producer_attached :: "DatabaseProducer \<Rightarrow> bool option" where
  "producer_attached (ProducerPg a) = Some (is_connected (pa_state a))"
| "producer_attached (ProducerMongo _) = None"

fun producer_start :: "PgDriver \<Rightarrow> MgDriver \<Rightarrow> DatabaseProducer \<Rightarrow> ((RealtimeError, unit) result \<times> DatabaseProducer) option" where
  "producer_start dv mv (ProducerPg a) = map_option (map_prod id ProducerPg) (pg_start dv a)"
| "producer_start dv mv (ProducerMongo p) = Some (map_prod id ProducerMongo (mongo_restart mv p))"

text \<open>\<open>stop\<close>, on a lock that is not poisoned.\<close>

fun producer_stop :: "DatabaseProducer \<Rightarrow> DatabaseProducer" where
  "producer_stop (ProducerPg a) = ProducerPg (a\<lparr>pa_state := pg_stop (pa_state a)\<rparr>)"
| "producer_stop (ProducerMongo p) = ProducerMongo (mongo_stop p)"

text \<open>The events handed on so far.\<close>

fun producer_sent :: "DatabaseProducer \<Rightarrow> EventEnvelope list" where
  "producer_sent (ProducerPg a) = pg_sent (pa_state a)"
| "producer_sent (ProducerMongo p) = mg_sent p"

text \<open>One input of the task of a producer.\<close>

datatype producer_input = InputPg pg_input | InputMongo mg_input

fun producer_step :: "Externals \<Rightarrow> Tick \<times> producer_input \<Rightarrow> DatabaseProducer \<Rightarrow> DatabaseProducer option" where
  "producer_step x (tk, InputPg i) (ProducerPg a) =
     map_option (\<lambda>p. ProducerPg (a\<lparr>pa_state := p\<rparr>)) (supervisor_step x tk i (pa_state a))"
| "producer_step x (tk, InputMongo i) (ProducerMongo p) = map_option ProducerMongo (process_events x tk i p)"
| "producer_step x _ _ = None"

definition PostgresFactory :: "(json \<Rightarrow> (string, PostgresConfig) result) \<Rightarrow> DatabaseProducer ProducerFactory" where
  "PostgresFactory decode =
     \<lparr>pf_name = ''postgresql'',
      pf_create = (\<lambda>config. case decode config of
         Inl e \<Rightarrow> Inl (InternalError (''Invalid PostgreSQL config: '' @ e))
       | Inr pg_config \<Rightarrow> Inr (ProducerPg (pg_new pg_config)))\<rparr>"

definition MongoFactory :: "(json \<Rightarrow> (string, MongoConfig) result) \<Rightarrow> DatabaseProducer ProducerFactory" where
  "MongoFactory decode =
     \<lparr>pf_name = ''mongodb'',
      pf_create = (\<lambda>config. case decode config of
         Inl e \<Rightarrow> Inl (InternalError (''Invalid MongoDB config: '' @ e))
       | Inr mongo_config \<Rightarrow> Inr (ProducerMongo (mongo_new mongo_config)))\<rparr>"

text \<open>The registry of \<open>default_producer_registry\<close> with these factories, and the handles the server makes.\<close>

definition builtin_registry ::
    "(json \<Rightarrow> (string, PostgresConfig) result) \<Rightarrow> (json \<Rightarrow> (string, MongoConfig) result) \<Rightarrow> DatabaseProducer ProducerRegistry" where
  "builtin_registry pg mongo =
     default_producer_registry (pf_create (PostgresFactory pg)) (pf_create (MongoFactory mongo))"

definition server_handles ::
    "(json \<Rightarrow> (string, PostgresConfig) result) \<Rightarrow> (json \<Rightarrow> (string, MongoConfig) result) \<Rightarrow> DatabaseConfig list
      \<Rightarrow> ProducerHandle list" where
  "server_handles pg mongo databases = map fst (start_producers producer_attached (builtin_registry pg mongo) databases)"

subsection \<open>What makes a start succeed\<close>

lemma drive_listen_ok:
  "drive_listen evs = Some (Inr ()) \<longleftrightarrow> (\<exists>n rest. evs = replicate n ConnectionItem @ ListenAnswer None # rest)"
proof (induction evs rule: drive_listen.induct)
  case (4 evs)
  show ?case
  proof
    assume "drive_listen (ConnectionItem # evs) = Some (Inr ())"
    with 4 obtain n rest where "evs = replicate n ConnectionItem @ ListenAnswer None # rest" by auto
    then have "ConnectionItem # evs = replicate (Suc n) ConnectionItem @ ListenAnswer None # rest" by simp
    then show "\<exists>n rest. ConnectionItem # evs = replicate n ConnectionItem @ ListenAnswer None # rest" by blast
  next
    assume "\<exists>n rest. ConnectionItem # evs = replicate n ConnectionItem @ ListenAnswer None # rest"
    then obtain n rest where e: "ConnectionItem # evs = replicate n ConnectionItem @ ListenAnswer None # rest" by blast
    then obtain k where "n = Suc k" by (cases n) simp_all
    with e 4 show "drive_listen (ConnectionItem # evs) = Some (Inr ())" by auto
  qed
qed (auto simp: Cons_eq_append_conv Cons_replicate_eq)

lemma drive_listen_waits: "drive_listen evs = None \<longleftrightarrow> list_all (\<lambda>e. e = ConnectionItem) evs"
  by (induction evs rule: drive_listen.induct) simp_all

lemma attach_ok:
  "attach dv config = Some (Inr ()) \<longleftrightarrow>
   dv_connect dv (pc_connection_string config) = None \<and> dv_poisoned dv = None \<and>
   (\<exists>n rest. dv_execute dv (''LISTEN '' @ pc_channel config) = replicate n ConnectionItem @ ListenAnswer None # rest)"
proof (cases "dv_connect dv (pc_connection_string config)")
  case (Some e)
  then show ?thesis by (simp add: attach_def connect_pg_def)
next
  case None
  show ?thesis
  proof (cases "drive_listen (dv_execute dv (''LISTEN '' @ pc_channel config))")
    case N: None
    with None show ?thesis
      using drive_listen_ok [of "dv_execute dv (''LISTEN '' @ pc_channel config)"]
      by (simp add: attach_def connect_pg_def listen_while_driving_def issue_listen_def)
  next
    case (Some res)
    with None show ?thesis
      using drive_listen_ok [of "dv_execute dv (''LISTEN '' @ pc_channel config)"]
      by (cases res) (simp_all add: attach_def connect_pg_def listen_while_driving_def issue_listen_def store_client_def
          split: option.split)
  qed
qed

text \<open>
  A start that returns tells the truth.  Whether the first attach of a PostgreSQL producer succeeds
  is decided by the connection, by the lock and by the first answer to \<open>LISTEN\<close>, whatever the connection
  yields before it; when it succeeds the producer reports itself attached and its supervisor begins with
  an empty channel, and when it fails it reports itself detached; it does not return only while the
  query of a live connection has no answer.
\<close>

theorem pg_start_truthful:
  "case pg_start dv (pg_new config) of
     None \<Rightarrow> dv_connect dv (pc_connection_string config) = None \<and>
       list_all (\<lambda>e. e = ConnectionItem) (dv_execute dv (''LISTEN '' @ pc_channel config))
   | Some (res, a) \<Rightarrow>
       pa_config a = config \<and> pg_sent (pa_state a) = [] \<and>
       producer_attached (ProducerPg a) = Some (\<not> isl res) \<and>
       (isl res \<longrightarrow> pg_phase (pa_state a) = Finished) \<and>
       (\<not> isl res \<longrightarrow> pa_state a = pg_started (pc_topic_prefix config)) \<and>
       (\<not> isl res \<longleftrightarrow>
          dv_connect dv (pc_connection_string config) = None \<and> dv_poisoned dv = None \<and>
          (\<exists>n rest. dv_execute dv (''LISTEN '' @ pc_channel config) =
             replicate n ConnectionItem @ ListenAnswer None # rest))"
proof (cases "attach dv config")
  case None
  then have "dv_connect dv (pc_connection_string config) = None \<and>
      drive_listen (dv_execute dv (''LISTEN '' @ pc_channel config)) = None"
    by (auto simp: attach_def connect_pg_def listen_while_driving_def issue_listen_def bind_eq_None_conv
        split: option.splits sum.splits)
  with None show ?thesis by (simp add: pg_start_def pg_new_def drive_listen_waits)
next
  case (Some res)
  show ?thesis
  proof (cases res)
    case (Inl e)
    with Some attach_ok [of dv config] show ?thesis
      by (simp add: pg_start_def pg_new_def is_connected_def pg_started_def)
  next
    case (Inr u)
    with Some attach_ok [of dv config] show ?thesis
      by (simp add: pg_start_def pg_new_def is_connected_def pg_started_def)
  qed
qed

subsection \<open>Stopping\<close>

text \<open>The task of a feed that can be stopped: \<open>room\<close> is how many more events it may hand on once stopped.\<close>

fun feed_run :: "('i \<Rightarrow> 'p \<Rightarrow> 'p option) \<Rightarrow> 'i list \<Rightarrow> 'p \<Rightarrow> 'p option" where
  "feed_run step [] p = Some p"
| "feed_run step (i # is) p = Option.bind (step i p) (feed_run step is)"

locale stoppable_feed =
  fixes step :: "'i \<Rightarrow> 'p \<Rightarrow> 'p option"
    and stop :: "'p \<Rightarrow> 'p"
    and stopped :: "'p \<Rightarrow> bool"
    and sent :: "'p \<Rightarrow> 'e list"
    and room :: "'p \<Rightarrow> nat"
  assumes stop_stopped: "stopped (stop p)"
    and stop_sent: "sent (stop p) = sent p"
    and room_le: "room p \<le> 1"
    and step_stopped: "stopped p \<Longrightarrow> step i p = Some p' \<Longrightarrow>
      stopped p' \<and> (\<exists>new. sent p' = sent p @ new \<and> length new + room p' \<le> room p)"
begin

lemma run_stopped:
  "stopped p \<Longrightarrow> feed_run step is p = Some p' \<Longrightarrow>
   stopped p' \<and> (\<exists>new. sent p' = sent p @ new \<and> length new + room p' \<le> room p)"
proof (induction "is" arbitrary: p)
  case (Cons i "is")
  then obtain p1 where s: "step i p = Some p1" and r: "feed_run step is p1 = Some p'"
    by (auto simp: bind_eq_Some_conv)
  from step_stopped [OF Cons.prems(1) s] obtain new where st: "stopped p1"
    and new: "sent p1 = sent p @ new" "length new + room p1 \<le> room p" by blast
  from Cons.IH [OF st r] obtain new' where "stopped p'"
    and "sent p' = sent p1 @ new'" "length new' + room p' \<le> room p1" by blast
  with new show ?case by (intro conjI exI [of _ "new @ new'"]) simp_all
qed simp

lemma after_stop:
  assumes "feed_run step is (stop p) = Some p'"
  shows "stopped p'" and "\<exists>new. sent p' = sent p @ new \<and> length new \<le> 1"
proof -
  from run_stopped [OF stop_stopped assms] obtain new where "stopped p'"
    and "sent p' = sent p @ new" "length new + room p' \<le> room (stop p)"
    by (auto simp: stop_sent)
  with room_le [of "stop p"] show "stopped p'" and "\<exists>new. sent p' = sent p @ new \<and> length new \<le> 1" by auto
qed

end

definition mongo_may_send :: "MongoProducer \<Rightarrow> nat" where
  "mongo_may_send p = (if mg_done p then 0 else 1)"

interpretation pg_feed: stoppable_feed "\<lambda>(tk, i). supervisor_step x tk i" pg_stop pg_stopped pg_sent pg_may_send
proof unfold_locales
  fix ti p p'
  assume st: "pg_stopped p" and s: "(case ti of (tk, i) \<Rightarrow> supervisor_step x tk i) p = Some p'"
  obtain tk i where ti: "ti = (tk, i)" by fastforce
  with s have s': "supervisor_step x tk i p = Some p'" by simp
  from supervisor_step_sent [OF s'] have "\<exists>new. pg_sent p' = pg_sent p @ new" by blast
  with stopped_step [OF st s']
  show "pg_stopped p' \<and> (\<exists>new. pg_sent p' = pg_sent p @ new \<and> length new + pg_may_send p' \<le> pg_may_send p)" by auto
qed (rule pg_stop_stopped, simp_all add: pg_stop_def pg_may_send_def)

interpretation mongo_feed: stoppable_feed "\<lambda>(tk, i). process_events x tk i" mongo_stop
  "\<lambda>p. \<not> mg_running p" mg_sent mongo_may_send
proof unfold_locales
  fix ti p p'
  assume "\<not> mg_running p" and "(case ti of (tk, i) \<Rightarrow> process_events x tk i) p = Some p'"
  moreover obtain tk i where "ti = (tk, i)" by fastforce
  ultimately show "\<not> mg_running p' \<and> (\<exists>new. mg_sent p' = mg_sent p @ new \<and> length new + mongo_may_send p' \<le> mongo_may_send p)"
    by (cases i) (auto simp: mongo_stop_def mongo_may_send_def Let_def split: if_splits option.splits)
qed (simp_all add: mongo_stop_def mongo_may_send_def)

text \<open>Either kind of producer, from the two.\<close>

fun producer_stopped :: "DatabaseProducer \<Rightarrow> bool" where
  "producer_stopped (ProducerPg a) = pg_stopped (pa_state a)"
| "producer_stopped (ProducerMongo p) = (\<not> mg_running p)"

fun producer_room :: "DatabaseProducer \<Rightarrow> nat" where
  "producer_room (ProducerPg a) = pg_may_send (pa_state a)"
| "producer_room (ProducerMongo p) = mongo_may_send p"

interpretation producer_feed: stoppable_feed "producer_step x" producer_stop producer_stopped producer_sent producer_room
proof unfold_locales
  fix p show "producer_stopped (producer_stop p)" by (cases p) (simp_all add: pg_feed.stop_stopped mongo_feed.stop_stopped)
next
  fix p show "producer_sent (producer_stop p) = producer_sent p"
    by (cases p) (simp_all add: pg_feed.stop_sent mongo_feed.stop_sent)
next
  fix p show "producer_room p \<le> 1" by (cases p) (simp_all add: pg_may_send_def mongo_may_send_def)
next
  fix i p p'
  assume st: "producer_stopped p" and s: "producer_step x i p = Some p'"
  obtain tk i' where i: "i = (tk, i')" by fastforce
  show "producer_stopped p' \<and> (\<exists>new. producer_sent p' = producer_sent p @ new \<and> length new + producer_room p' \<le> producer_room p)"
  proof (cases p)
    case (ProducerPg a)
    then obtain j q where "i' = InputPg j" and q: "supervisor_step x tk j (pa_state a) = Some q"
      and p': "p' = ProducerPg (a\<lparr>pa_state := q\<rparr>)"
      using s i by (cases i') auto
    with pg_feed.step_stopped [of "pa_state a" x "(tk, j)" q] st ProducerPg show ?thesis by simp
  next
    case (ProducerMongo m)
    then obtain j q where "i' = InputMongo j" and q: "process_events x tk j m = Some q" and p': "p' = ProducerMongo q"
      using s i by (cases i') auto
    with mongo_feed.step_stopped [of m x "(tk, j)" q] st ProducerMongo show ?thesis by simp
  qed
qed

text \<open>A listener that was not about to attach when it was stopped does not report itself attached again.\<close>

lemma stopped_not_reattaching:
  "feed_run (producer_step x) is (ProducerPg a) = Some p' \<Longrightarrow>
   pg_stopped (pa_state a) \<and> \<not> pg_reattaching (pa_state a) \<and> \<not> pg_connected (pa_state a) \<Longrightarrow>
   producer_attached p' = Some False"
proof (induction "is" arbitrary: a)
  case Nil
  then show ?case by (auto simp: is_connected_def)
next
  case (Cons i "is")
  from Cons.prems(1) obtain p1 where s: "producer_step x i (ProducerPg a) = Some p1"
    and r: "feed_run (producer_step x) is p1 = Some p'" by (auto simp: bind_eq_Some_conv)
  obtain tk i' where i: "i = (tk, i')" by fastforce
  with s obtain j q where q: "supervisor_step x tk j (pa_state a) = Some q" and p1: "p1 = ProducerPg (a\<lparr>pa_state := q\<rparr>)"
    by (cases i') auto
  from stopped_step [OF _ q] Cons.prems(2) Cons.IH [OF r [unfolded p1]] show ?case by simp
qed

lemma producer_kind:
  "feed_run (producer_step x) is p = Some p' \<Longrightarrow> (\<exists>a. p = ProducerPg a) \<longleftrightarrow> (\<exists>a. p' = ProducerPg a)"
proof (induction "is" arbitrary: p)
  case (Cons i "is")
  then obtain p1 where s: "producer_step x i p = Some p1" and r: "feed_run (producer_step x) is p1 = Some p'"
    by (auto simp: bind_eq_Some_conv)
  obtain tk i' where i: "i = (tk, i')" by fastforce
  have "(\<exists>a. p = ProducerPg a) \<longleftrightarrow> (\<exists>a. p1 = ProducerPg a)" using s by (cases p; cases i') (auto simp: i)
  with Cons.IH [OF r] show ?case by blast
qed simp

text \<open>
  C30: Stop is heeded by every adapter.  Whatever state a PostgreSQL or MongoDB producer is in and whatever
  its task meets afterwards, after \<open>stop\<close> it hands on at most one more event and loses none handed on
  before.  It reports itself attached again in one case only: a PostgreSQL listener that was in its delay or
  in its attach when \<open>stop\<close> came, and whose attach then succeeds, does so until its supervisor reads the flag
  again; whatever step the supervisor takes next, it no longer does.
\<close>

theorem producer_stop_heeded:
  assumes "feed_run (producer_step x) is (producer_stop p) = Some p'"
  shows "(\<exists>new. producer_sent p' = producer_sent p @ new \<and> length new \<le> 1) \<and>
    (producer_attached p' = Some True \<longrightarrow>
      (\<exists>a b. p = ProducerPg a \<and> pg_reattaching (pa_state a) \<and>
             p' = ProducerPg b \<and> pg_phase (pa_state b) = Attached \<and> \<not> pg_running (pa_state b)) \<and>
      (\<forall>tk i q. producer_step x (tk, i) p' = Some q \<and> i \<noteq> InputPg PgReceiverDropped \<longrightarrow>
         producer_attached q = Some False))"
proof (intro conjI impI)
  show "\<exists>new. producer_sent p' = producer_sent p @ new \<and> length new \<le> 1"
    by (rule producer_feed.after_stop(2) [OF assms])
  assume at: "producer_attached p' = Some True"
  then obtain b where b: "p' = ProducerPg b" and conn: "pg_connected (pa_state b)"
    by (cases p') (auto simp: is_connected_def)
  then obtain a where a: "p = ProducerPg a" using producer_kind [OF assms] by (cases p) auto
  have st: "pg_stopped (pa_state b)" using producer_feed.after_stop(1) [OF assms] b by simp
  have "pg_reattaching (pa_state a)"
  proof (rule ccontr)
    assume "\<not> pg_reattaching (pa_state a)"
    then have "pg_stopped (pg_stop (pa_state a)) \<and> \<not> pg_reattaching (pg_stop (pa_state a)) \<and>
        \<not> pg_connected (pg_stop (pa_state a))"
      by (simp add: pg_stop_stopped) (simp add: pg_stop_def pg_reattaching_def)
    with stopped_not_reattaching [OF assms [unfolded a producer_stop.simps]] at show False by simp
  qed
  with a b st conn show "\<exists>a b. p = ProducerPg a \<and> pg_reattaching (pa_state a) \<and>
      p' = ProducerPg b \<and> pg_phase (pa_state b) = Attached \<and> \<not> pg_running (pa_state b)"
    by (auto simp: pg_stopped_def)
  show "\<forall>tk i q. producer_step x (tk, i) p' = Some q \<and> i \<noteq> InputPg PgReceiverDropped \<longrightarrow>
      producer_attached q = Some False"
  proof (intro allI impI)
    fix tk i q
    assume q: "producer_step x (tk, i) p' = Some q \<and> i \<noteq> InputPg PgReceiverDropped"
    then obtain j c where "i = InputPg j" "supervisor_step x tk j (pa_state b) = Some c"
      and "q = ProducerPg (b\<lparr>pa_state := c\<rparr>)" by (cases i) (auto simp: b)
    with q stopped_step [OF st] conn show "producer_attached q = Some False" by (auto simp: is_connected_def)
  qed
qed

text \<open>A listener stopped in its delay attaches, reports itself attached, and then ends; one stopped while it
  drives its connection hands on one more event.\<close>

theorem producer_stop_heeded_witness:
  "(\<exists>p' new. feed_run (producer_step demo_pg_ext) [(demo_pg_tick, InputPg (PgMessage (PgNotification ''row'')))]
       (producer_stop (ProducerPg ((pg_new pg_config_default)\<lparr>pa_state := (pg_started ''db'')\<lparr>pg_phase := Driving\<rparr>\<rparr>))) = Some p' \<and>
     producer_sent p' = new \<and> length new = 1 \<and> producer_attached p' = Some False) \<and>
   (\<exists>p' q. feed_run (producer_step demo_pg_ext) [(demo_pg_tick, InputPg PgSlept), (demo_pg_tick, InputPg PgAttached)]
       (producer_stop (ProducerPg ((pg_new pg_config_default)\<lparr>pa_state := (pg_started ''db'')\<lparr>pg_phase := Sleeping\<rparr>\<rparr>))) = Some p' \<and>
     producer_attached p' = Some True \<and>
     producer_step demo_pg_ext (demo_pg_tick, InputPg PgLooped) p' = Some q \<and> producer_attached q = Some False)"
proof
  let ?p = "ProducerPg ((pg_new pg_config_default)\<lparr>pa_state := (pg_started ''db'')\<lparr>pg_phase := Driving\<rparr>\<rparr>)"
  let ?is = "[(demo_pg_tick, InputPg (PgMessage (PgNotification ''row'')))]"
  obtain e where e: "parse_pg_notification demo_pg_ext demo_pg_tick ''row'' ''db'' = Some e"
    by (auto simp: parse_pg_notification_def demo_pg_ext_def demo_pg_row_def extract_fields_def trigger_payload_def)
  obtain p' where run: "feed_run (producer_step demo_pg_ext) ?is (producer_stop ?p) = Some p'"
    and sent: "producer_sent p' = [e]"
    by (simp add: pg_started_def pg_stop_def process_notification_def pg_after_drive_def pg_finish_def e Let_def)
  from producer_stop_heeded [OF run] have "producer_attached p' \<noteq> Some True" by (auto simp: pg_reattaching_def)
  moreover have "producer_attached p' \<noteq> None"
    using run by (auto simp: bind_eq_Some_conv)
  ultimately have "producer_attached p' = Some False" by (cases "producer_attached p'") auto
  with run sent show "\<exists>p' new. feed_run (producer_step demo_pg_ext) ?is (producer_stop ?p) = Some p' \<and>
     producer_sent p' = new \<and> length new = 1 \<and> producer_attached p' = Some False"
    by (intro exI [of _ p'] exI [of _ "[e]"]) simp
next
  let ?p = "ProducerPg ((pg_new pg_config_default)\<lparr>pa_state := (pg_started ''db'')\<lparr>pg_phase := Sleeping\<rparr>\<rparr>)"
  let ?is = "[(demo_pg_tick, InputPg PgSlept), (demo_pg_tick, InputPg PgAttached)]"
  obtain p' where run: "feed_run (producer_step demo_pg_ext) ?is (producer_stop ?p) = Some p'"
    and on: "producer_attached p' = Some True"
    by (simp add: pg_started_def pg_stop_def is_connected_def)
  obtain q where q: "producer_step demo_pg_ext (demo_pg_tick, InputPg PgLooped) p' = Some q"
    using run by (auto simp: pg_started_def pg_stop_def)
  from producer_stop_heeded [OF run] on q have "producer_attached q = Some False" by blast
  with run on q show "\<exists>p' q. feed_run (producer_step demo_pg_ext) ?is (producer_stop ?p) = Some p' \<and>
     producer_attached p' = Some True \<and>
     producer_step demo_pg_ext (demo_pg_tick, InputPg PgLooped) p' = Some q \<and> producer_attached q = Some False" by blast
qed

subsection \<open>What the health answer knows\<close>

text \<open>
  C31: Which missing feeds the health answer shows.  From the start of the server until a producer attaches
  or its stream ends, \<open>/v1/health\<close> answers 503 exactly when the configuration has a PostgreSQL database
  whose section decodes: a MongoDB database, a section that does not decode and an adapter nobody
  registered are not reported, though no change of theirs can arrive.
\<close>

theorem health_shows_postgres_only:
  "fst (health_check rx (server_handles pg mongo databases) uptime m w) =
     (if list_ex (\<lambda>d. dc_adapter d = ''postgresql'' \<and> \<not> isl (pg (dc_config d))) databases then 503 else 200)"
proof -
  have "list_ex (\<lambda>h. handle_attached h = Some False) (server_handles pg mongo databases) =
      list_ex (\<lambda>d. dc_adapter d = ''postgresql'' \<and> \<not> isl (pg (dc_config d))) databases"
  proof (induction databases)
    case (Cons d ds)
    have create: "create_producer [] (dc_adapter d) (dc_config d) (builtin_registry pg mongo) =
        (if dc_adapter d = ''postgresql'' then pf_create (PostgresFactory pg) (dc_config d)
         else if dc_adapter d = ''mongodb'' then pf_create (MongoFactory mongo) (dc_config d)
         else Inl (InternalError (''Unknown database adapter '' @ [CHR 0x27] @ dc_adapter d @ [CHR 0x27] @
           ''. Registered adapters: [postgresql, mongodb]'')))"
      unfolding builtin_registry_def by (rule default_registry_get)
    have hd: "list_ex (\<lambda>h. handle_attached h = Some False) (server_handles pg mongo (d # ds)) =
        ((dc_adapter d = ''postgresql'' \<and> \<not> isl (pg (dc_config d))) \<or>
         list_ex (\<lambda>h. handle_attached h = Some False) (server_handles pg mongo ds))"
      by (cases "pg (dc_config d)"; cases "mongo (dc_config d)")
        (simp_all add: server_handles_def create PostgresFactory_def MongoFactory_def handle_attached_def
          pg_new_def is_connected_def)
    show ?case unfolding hd Cons.IH by simp
  qed (simp add: server_handles_def)
  then show ?thesis by (simp add: health_check_def Let_def list_ex_iff)
qed

end
