(* ===== verification/Rt_Main.thy ===== *)
theory Rt_Main
  imports Rt_System Rt_Producers
begin

text \<open>
  The binary of \<open>crates/realtime-server/src/main.rs\<close>: the choice between serving and probing, the probe over
  the network, and the assembly of the whole server of \<open>server.rs\<close> with its producers and its routes.  The
  network, the file system and the decoders are parameters; the listener and the HTTP library are outside.
  Lemmas: the probe accepts exactly the answer of a server whose feeds are not known to be missing; a
  server that boots has the components its configuration names.
\<close>

subsection \<open>The probe (main.rs)\<close>

text \<open>\<open>pn_resolve\<close> and \<open>pn_connect\<close> are the resolver and the dial with its two second limit, \<open>pn_request\<close> writes a
  request and yields what can be read of the answer.\<close>

record ProbeNet =
  pn_resolve :: "string \<Rightarrow> (string, string list) result"
  pn_connect :: "string \<Rightarrow> string option"
  pn_request :: "string \<Rightarrow> string \<Rightarrow> (string, bytes) result"

definition probe_request :: string where
  "probe_request = ''GET /v1/health HTTP/1.0'' @ [CHR 0x0D, CHR 0x0A] @ ''Host: localhost'' @
     [CHR 0x0D, CHR 0x0A, CHR 0x0D, CHR 0x0A]"

definition healthcheck :: "(string \<Rightarrow> string) \<Rightarrow> ProbeNet \<Rightarrow> environment \<Rightarrow> (string, unit) result" where
  "healthcheck dbg net env =
     (case pn_resolve net (health_addr env) of
        Inl e \<Rightarrow> Inl e
      | Inr [] \<Rightarrow> Inl ''healthcheck address did not resolve''
      | Inr (addr # _) \<Rightarrow>
          (case pn_connect net addr of
             Some e \<Rightarrow> Inl e
           | None \<Rightarrow>
               (case pn_request net addr probe_request of
                  Inl e \<Rightarrow> Inl e
                | Inr answer \<Rightarrow>
                    if length answer < 12 then Inl ''failed to fill whole buffer''
                    else
                      let head = take 12 answer in
                      if health_line_ok head then Inr ()
                      else Inl (''/v1/health answered '' @ dbg (from_utf8_lossy head)))))"

subsection \<open>The server (server.rs)\<close>

datatype endpoint = EpWs | EpPublish | EpPublishBatch | EpHealth | EpPresence | EpPrometheus | EpStatic string

text \<open>The table of \<open>build_http_router\<close>, by method and path, and what is not in it: \<open>None\<close> is the refusal of
  another method on a path of the table.\<close>

definition http_routes :: "((string \<times> string) \<times> endpoint) list" where
  "http_routes =
     [((''GET'', ''/ws''), EpWs), ((''POST'', ''/v1/publish''), EpPublish),
      ((''POST'', ''/v1/publish/batch''), EpPublishBatch), ((''GET'', ''/v1/health''), EpHealth),
      ((''GET'', ''/v1/presence''), EpPresence), ((''GET'', ''/metrics''), EpPrometheus)]"

definition http_route :: "string \<Rightarrow> string \<Rightarrow> string \<Rightarrow> endpoint option" where
  "http_route static_dir verb path =
     (case map_of http_routes (verb, path) of
        Some ep \<Rightarrow> Some ep
      | None \<Rightarrow> if path \<in> snd ` fst ` set http_routes then None else Some (EpStatic static_dir))"

record ('r, 'key) AppState =
  ap_system :: "'r System"
  ap_auth_provider :: "'key provider"
  ap_presence_shared :: "SharedPresence option"
  ap_usage :: "(Usage \<times> u64) option"
  ap_allowed_origins :: "OriginPolicy option"
  ap_producers :: "ProducerHandle list"

text \<open>\<open>run\<close> up to the listener: the address it binds and the state of the handlers.  \<open>None\<close>: the capacity of
  the bus is zero, or the configuration asks for the IRC bus.\<close>

definition server_boot ::
    "'key JwtLib \<Rightarrow> environment \<Rightarrow> nat option \<Rightarrow> nat \<Rightarrow> Metrics \<Rightarrow> (json \<Rightarrow> (string, PostgresConfig) result)
      \<Rightarrow> (json \<Rightarrow> (string, MongoConfig) result) \<Rightarrow> 'r \<Rightarrow> ServerConfig \<Rightarrow> (string, string \<times> ('r, 'key) AppState) result option" where
  "server_boot lib env parallelism ring m pg mongo redis config =
     (case server_run lib env parallelism ring m config of
        None \<Rightarrow> None
      | Some (Inl e) \<Rightarrow> Some (Inl e)
      | Some (Inr (_, provider)) \<Rightarrow>
          map_option (\<lambda>sy. Inr (sv_host config @ '':'' @ show_word (sv_port config),
              \<lparr>ap_system = sy, ap_auth_provider = provider, ap_presence_shared = build_presence_shared env,
               ap_usage = build_usage env, ap_allowed_origins = origin_from_env env,
               ap_producers = server_handles pg mongo (sv_databases config)\<rparr>))
            (system_start parallelism ring m config redis))"

text \<open>\<open>main\<close>: the probe, or loading the configuration and running the server.\<close>

datatype ('r, 'key) main_outcome =
    Probed "(string, unit) result"
  | NotConfigured string
  | Served "(string, string \<times> ('r, 'key) AppState) result option"

definition server_main ::
    "string list \<Rightarrow> (string \<Rightarrow> string) \<Rightarrow> ProbeNet \<Rightarrow> ConfigFiles \<Rightarrow> 'key JwtLib \<Rightarrow> environment \<Rightarrow> nat option \<Rightarrow> nat
      \<Rightarrow> Metrics \<Rightarrow> (json \<Rightarrow> (string, PostgresConfig) result) \<Rightarrow> (json \<Rightarrow> (string, MongoConfig) result) \<Rightarrow> 'r
      \<Rightarrow> ('r, 'key) main_outcome" where
  "server_main args dbg net files lib env parallelism ring m pg mongo redis =
     (if ''--healthcheck'' \<in> set args then Probed (healthcheck dbg net env)
      else case load_config parallelism files env of
             Inl e \<Rightarrow> NotConfigured e
           | Inr config \<Rightarrow> Served (server_boot lib env parallelism ring m pg mongo redis config))"

subsection \<open>What the probe sees\<close>

lemma from_utf8_lossy_ascii: "list_all (\<lambda>c. (of_char c :: nat) < 128) s \<Longrightarrow> from_utf8_lossy s = s"
proof (induction s)
  case (Cons c s)
  then have "utf8_start (c # s) = (True, 1)" by (simp add: utf8_start_def byte_at_def Let_def)
  with Cons show ?case by (subst from_utf8_lossy.simps) simp
qed (simp add: from_utf8_lossy.simps)

lemma health_line_200: "health_line_ok ''HTTP/1.0 200''"
  and health_line_503: "\<not> health_line_ok ''HTTP/1.0 503''"
  by (simp_all add: health_line_ok_def from_utf8_lossy_ascii starts_with_def ends_with_def)

lemma digit_chars: "digit_char 0 = CHR ''0''" "digit_char 2 = CHR ''2''" "digit_char 3 = CHR ''3''" "digit_char 5 = CHR ''5''"
  by code_simp+

lemma show_status: "show_word (200 :: u16) = ''200''" "show_word (503 :: u16) = ''503''"
  by (simp_all add: show_word_def show_nat.simps [of 200] show_nat.simps [of 20] show_nat.simps [of 2]
      show_nat.simps [of 503] show_nat.simps [of 50] show_nat.simps [of 5] digit_chars)

text \<open>
  The probe is the health answer.  When the address of the probe leads to a server that answers with the
  status of its health handler, the binary run with \<open>--healthcheck\<close> succeeds exactly when no producer of
  the server reports itself detached or has ended.
\<close>

theorem probe_accepts_health:
  assumes "pn_resolve net (health_addr env) = Inr (addr # addrs)" and "pn_connect net addr = None"
    and "pn_request net addr probe_request =
      Inr (''HTTP/1.0 '' @ show_word (fst (health_check rx handles uptime m w)) @ rest)"
  shows "healthcheck dbg net env = Inr () \<longleftrightarrow> \<not> list_ex (\<lambda>h. handle_attached h = Some False) handles"
proof (cases "list_ex (\<lambda>h. handle_attached h = Some False) handles")
  case True
  then have "fst (health_check rx handles uptime m w) = 503" by (simp add: health_check_def Let_def list_ex_iff)
  with assms True health_line_503 show ?thesis by (simp add: healthcheck_def show_status Let_def)
next
  case False
  then have "fst (health_check rx handles uptime m w) = 200" by (simp add: health_check_def Let_def list_ex_iff)
  with assms False health_line_200 show ?thesis by (simp add: healthcheck_def show_status Let_def)
qed

text \<open>
  A server that serves was configured to.  When \<open>main\<close> serves, it was not asked to probe, its configuration
  loaded, and it listens on the configured address with the provider of the configuration and a fresh
  process; it serves without authentication only if the configuration asks for that, and in the strict
  security mode only with the explicit override.
\<close>

theorem main_serves:
  assumes "server_main args dbg net files lib env parallelism ring m pg mongo redis = Served (Some (Inr (addr, app)))"
  shows "''--healthcheck'' \<notin> set args \<and>
    (\<exists>config. load_config parallelism files env = Inr config \<and>
       addr = sv_host config @ '':'' @ show_word (sv_port config) \<and>
       system_start parallelism ring m config redis = Some (ap_system app) \<and>
       ap_producers app = server_handles pg mongo (sv_databases config) \<and>
       (ap_auth_provider app = ProviderNoAuth \<longleftrightarrow> sv_auth config = NoAuth) \<and>
       (sv_auth config = NoAuth \<and> env ''SECURITY_MODE'' = Some ''max'' \<longrightarrow> env ''REALTIME_ALLOW_NOAUTH'' = Some ''1''))"
proof -
  from assms have args: "''--healthcheck'' \<notin> set args" by (auto simp: server_main_def split: if_splits)
  with assms obtain config where config: "load_config parallelism files env = Inr config"
    and boot: "server_boot lib env parallelism ring m pg mongo redis config = Some (Inr (addr, app))"
    by (auto simp: server_main_def split: sum.splits)
  from boot obtain nd provider where run: "server_run lib env parallelism ring m config = Some (Inr (nd, provider))"
    by (auto simp: server_boot_def split: option.splits sum.splits)
  from run obtain bus where "build_event_bus ring config = Some (Inl bus)"
    and auth: "build_auth_provider lib env config = Inr provider"
    by (auto simp: server_run_def split: option.splits sum.splits)
  from boot obtain sy where "system_start parallelism ring m config redis = Some sy"
    and "addr = sv_host config @ '':'' @ show_word (sv_port config)"
    and "ap_system app = sy" "ap_auth_provider app = provider"
      "ap_producers app = server_handles pg mongo (sv_databases config)"
    by (auto simp: server_boot_def run)
  moreover have "provider = ProviderNoAuth \<longleftrightarrow> sv_auth config = NoAuth"
    using auth by (cases "sv_auth config") (auto simp: build_auth_provider_def Let_def split: if_splits sum.splits)
  moreover have "env ''REALTIME_ALLOW_NOAUTH'' = Some ''1''"
    if "sv_auth config = NoAuth" "env ''SECURITY_MODE'' = Some ''max''"
    using auth that by (auto simp: build_auth_provider_def Let_def split: if_splits)
  ultimately show ?thesis using args config by blast
qed

end
