(* ===== verification/Rt_Registry_Tasks.thy ===== *)
theory Rt_Registry_Tasks
  imports Rt_Registry
begin

text \<open>
  Concurrent subscriptions: \<open>subscribe\<close> of \<open>crates/realtime-engine/src/registry/mod.rs\<close> taken apart into the
  accesses it makes to the shared maps, and any number of calls, one per connection task, interleaved
  between them.  A step is the guards, the limits of the index, the insertion into the index, or the
  insertion into one map.  Lemmas: a call that is not interrupted is \<open>subscribe\<close>; whatever the
  interleaving, when all calls have returned the registry holds its invariant and exactly the accepted
  subscriptions; the global cap can be exceeded, by at most one subscription per concurrent call.
\<close>

subsection \<open>The steps of a call (registry/mod.rs, filter_index/mutate.rs)\<close>

datatype sub_pc =
    AtGuards | AtLimits | AtIndex | AtConnection | AtTopic | AtPattern | AtSubId
  | Returned "(RealtimeError, unit) result"

record SubTask =
  st_sub :: Subscription
  st_node :: "NodeId option"
  st_pc :: sub_pc

definition sub_task :: "Subscription \<Rightarrow> NodeId option \<Rightarrow> SubTask" where
  "sub_task sub node = \<lparr>st_sub = sub, st_node = node, st_pc = AtGuards\<rparr>"

text \<open>\<open>add_subscription\<close> after its limits were checked.\<close>

definition index_insert :: "Externals \<Rightarrow> Subscription \<Rightarrow> NodeId option \<Rightarrow> FilterIndex \<Rightarrow> FilterIndex option" where
  "index_insert x sub node fi =
     map_option (\<lambda>(slot_id, fi). add_accepted x sub slot_id fi) (alloc_slot (dispatch_slot_of sub node) fi)"

definition push_connection :: "Subscription \<Rightarrow> NodeId option \<Rightarrow> SubscriptionRegistry \<Rightarrow> SubscriptionRegistry" where
  "push_connection sub node r =
     r\<lparr>rg_by_connection := dm_entry (sb_conn sub) [] (\<lambda>v. v @ [new_entry sub node]) (rg_by_connection r)\<rparr>"

definition push_topic :: "Subscription \<Rightarrow> SubscriptionRegistry \<Rightarrow> SubscriptionRegistry" where
  "push_topic sub r =
     r\<lparr>rg_by_topic := dm_entry (pattern_str (sb_topic sub)) [] (\<lambda>v. v @ [(sb_conn sub, sb_sub sub)]) (rg_by_topic r)\<rparr>"

definition register_pattern :: "Subscription \<Rightarrow> SubscriptionRegistry \<Rightarrow> SubscriptionRegistry" where
  "register_pattern sub r = r\<lparr>rg_patterns := dm_or_insert (pattern_str (sb_topic sub)) (sb_topic sub) (rg_patterns r)\<rparr>"

definition insert_id :: "Subscription \<Rightarrow> NodeId option \<Rightarrow> SubscriptionRegistry \<Rightarrow> SubscriptionRegistry" where
  "insert_id sub node r =
     r\<lparr>rg_by_sub_id := dm_insert (sb_conn sub, sub_raw (sb_sub sub)) (new_entry sub node) (rg_by_sub_id r)\<rparr>"

text \<open>The next step of a call; \<open>None\<close> when it has returned.\<close>

definition task_step :: "Externals \<Rightarrow> SubTask \<Rightarrow> SubscriptionRegistry \<Rightarrow> (SubTask \<times> SubscriptionRegistry) option" where
  "task_step x t r =
     (let sub = st_sub t; node = st_node t; at = (\<lambda>pc. t\<lparr>st_pc := pc\<rparr>);
          limits = fi_limits (rg_filter_index r)
      in case st_pc t of
           AtGuards \<Rightarrow>
             (case check_subscription_guards r (sb_conn sub) (max_subscriptions_per_connection limits)
                     (max_total_subscriptions limits) of
                Inl e \<Rightarrow> Some (at (Returned (Inl e)), r)
              | Inr _ \<Rightarrow> Some (at AtLimits, r))
         | AtLimits \<Rightarrow>
             (case check_limits (pattern_str (sb_topic sub)) sub (rg_filter_index r) of
                (fi, Inl e) \<Rightarrow> Some (at (Returned (Inl e)), r\<lparr>rg_filter_index := fi\<rparr>)
              | (fi, Inr _) \<Rightarrow> Some (at AtIndex, r\<lparr>rg_filter_index := fi\<rparr>))
         | AtIndex \<Rightarrow>
             map_option (\<lambda>fi. (at AtConnection, r\<lparr>rg_filter_index := fi\<rparr>)) (index_insert x sub node (rg_filter_index r))
         | AtConnection \<Rightarrow> Some (at AtTopic, push_connection sub node r)
         | AtTopic \<Rightarrow> Some (at AtPattern, push_topic sub r)
         | AtPattern \<Rightarrow> Some (at AtSubId, register_pattern sub r)
         | AtSubId \<Rightarrow> Some (at (Returned (Inr ())), insert_id sub node r)
         | Returned _ \<Rightarrow> None)"

text \<open>How many steps a call has left at most, and how far it has come.\<close>

fun pc_left :: "sub_pc \<Rightarrow> nat" where
  "pc_left AtGuards = 7" | "pc_left AtLimits = 6" | "pc_left AtIndex = 5" | "pc_left AtConnection = 4"
| "pc_left AtTopic = 3" | "pc_left AtPattern = 2" | "pc_left AtSubId = 1" | "pc_left (Returned _) = 0"

fun pc_rank :: "sub_pc \<Rightarrow> nat" where
  "pc_rank (Returned (Inl _)) = 0"
| "pc_rank pc = 7 - pc_left pc"

lemma task_step_cases:
  assumes "task_step x t r = Some (t', r')"
  obtains (refused) e fi where "pc_rank (st_pc t) \<le> 1" "\<forall>res. st_pc t \<noteq> Returned res" "t' = t\<lparr>st_pc := Returned (Inl e)\<rparr>"
      "r' = r\<lparr>rg_filter_index := fi\<rparr>" "same_index (rg_filter_index r) fi"
  | (guards) "st_pc t = AtGuards" "t' = t\<lparr>st_pc := AtLimits\<rparr>" "r' = r"
      "dm_len (rg_by_sub_id r) < unat (max_total_subscriptions (fi_limits (rg_filter_index r)))"
  | (limits) "st_pc t = AtLimits" "t' = t\<lparr>st_pc := AtIndex\<rparr>" "r' = r"
      "dm_len (fi_slot_by_sub (rg_filter_index r)) < unat (max_total_subscriptions (fi_limits (rg_filter_index r)))"
  | (index) fi where "st_pc t = AtIndex" "t' = t\<lparr>st_pc := AtConnection\<rparr>" "r' = r\<lparr>rg_filter_index := fi\<rparr>"
      "index_insert x (st_sub t) (st_node t) (rg_filter_index r) = Some fi"
  | (connection) "st_pc t = AtConnection" "t' = t\<lparr>st_pc := AtTopic\<rparr>" "r' = push_connection (st_sub t) (st_node t) r"
  | (topic) "st_pc t = AtTopic" "t' = t\<lparr>st_pc := AtPattern\<rparr>" "r' = push_topic (st_sub t) r"
  | (pattern) "st_pc t = AtPattern" "t' = t\<lparr>st_pc := AtSubId\<rparr>" "r' = register_pattern (st_sub t) r"
  | (sub_id) "st_pc t = AtSubId" "t' = t\<lparr>st_pc := Returned (Inr ())\<rparr>" "r' = insert_id (st_sub t) (st_node t) r"
proof (cases "st_pc t")
  case AtGuards
  let ?lim = "fi_limits (rg_filter_index r)"
  show ?thesis
  proof (cases "check_subscription_guards r (sb_conn (st_sub t)) (max_subscriptions_per_connection ?lim) (max_total_subscriptions ?lim)")
    case (Inl e)
    with AtGuards assms show ?thesis
      by (intro refused [of e "rg_filter_index r"]) (simp_all add: task_step_def same_index_def)
  next
    case (Inr u)
    then have "dm_len (rg_by_sub_id r) < unat (max_total_subscriptions ?lim)"
      by (auto simp: check_subscription_guards_def Let_def not_le split: option.splits if_splits)
    with AtGuards Inr assms show ?thesis by (intro guards) (simp_all add: task_step_def)
  qed
next
  case AtLimits
  let ?fi = "rg_filter_index r"
  show ?thesis
  proof (cases rule: check_limits_cases [where pk = "pattern_str (sb_topic (st_sub t))" and sub = "st_sub t" and fi = ?fi])
    case ok
    then have "dm_len (fi_slot_by_sub ?fi) < unat (max_total_subscriptions (fi_limits ?fi))"
      by (auto simp: check_limits_def Let_def reject_capacity_def not_le split: if_splits)
    with AtLimits ok assms show ?thesis by (intro limits) (simp_all add: task_step_def)
  next
    case (rejected reason)
    have "same_index ?fi (fst (reject_capacity reason ?fi))" by simp
    with AtLimits rejected assms show ?thesis
      by (intro refused [of "CapacityExceeded reason" "fst (reject_capacity reason ?fi)"])
        (simp_all add: task_step_def reject_capacity_def)
  qed
next
  case AtIndex
  with assms show ?thesis by (auto simp: task_step_def Let_def intro: index)
next
  case AtConnection
  with assms show ?thesis by (intro connection) (simp_all add: task_step_def)
next
  case AtTopic
  with assms show ?thesis by (intro topic) (simp_all add: task_step_def)
next
  case AtPattern
  with assms show ?thesis by (intro pattern) (simp_all add: task_step_def)
next
  case AtSubId
  with assms show ?thesis by (intro sub_id) (simp_all add: task_step_def)
next
  case (Returned res)
  with assms show ?thesis by (simp add: task_step_def)
qed

subsection \<open>A call alone\<close>

lemma task_step_left:
  assumes "task_step x t r = Some (t', r')"
  shows "pc_left (st_pc t') < pc_left (st_pc t)"
  using assms by (cases rule: task_step_cases) (cases "st_pc t"; simp)+

text \<open>A call run to its end without interruption; \<open>None\<close> when it stops at a step that is not possible.\<close>

function task_run :: "Externals \<Rightarrow> SubTask \<Rightarrow> SubscriptionRegistry \<Rightarrow> (SubscriptionRegistry \<times> (RealtimeError, unit) result) option" where
  "task_run x t r =
     (case task_step x t r of
        Some (t, r) \<Rightarrow> task_run x t r
      | None \<Rightarrow> (case st_pc t of Returned res \<Rightarrow> Some (r, res) | _ \<Rightarrow> None))"
  by auto
termination
  by (relation "measure (\<lambda>(x, t, r). pc_left (st_pc t))") (auto dest: task_step_left)

declare task_run.simps [simp del]

lemma task_run_Some: "task_step x t r = Some (t', r') \<Longrightarrow> task_run x t r = task_run x t' r'"
  by (subst task_run.simps) simp

lemma task_run_Returned: "st_pc t = Returned res \<Longrightarrow> task_run x t r = Some (r, res)"
  by (subst task_run.simps) (simp add: task_step_def)

lemma task_run_maps:
  "st_pc t = AtConnection \<Longrightarrow> task_run x t r = Some (registry_insert (st_sub t) (st_node t) r, Inr ())"
  by (subst task_run.simps, simp add: task_step_def Let_def)+
    (simp add: task_run_Returned registry_insert_def push_connection_def push_topic_def register_pattern_def insert_id_def
      new_entry_def Let_def)

lemma add_subscription_steps:
  "add_subscription x sub node fi =
     (case check_limits (pattern_str (sb_topic sub)) sub fi of
        (fi, Inl e) \<Rightarrow> Some (fi, Inl e)
      | (fi, Inr _) \<Rightarrow> map_option (\<lambda>fi. (fi, Inr ())) (index_insert x sub node fi))"
  by (simp add: add_subscription_eq index_insert_def option.map_comp o_def case_prod_unfold split: sum.split)

lemma task_run_index:
  assumes "st_pc t = AtIndex"
  shows "task_run x t r = map_option (\<lambda>fi. (registry_insert (st_sub t) (st_node t) (r\<lparr>rg_filter_index := fi\<rparr>), Inr ()))
    (index_insert x (st_sub t) (st_node t) (rg_filter_index r))"
proof (cases "index_insert x (st_sub t) (st_node t) (rg_filter_index r)")
  case None
  then show ?thesis using assms by (subst task_run.simps) (simp add: task_step_def)
next
  case (Some fi)
  then have "task_step x t r = Some (t\<lparr>st_pc := AtConnection\<rparr>, r\<lparr>rg_filter_index := fi\<rparr>)"
    using assms by (simp add: task_step_def)
  from task_run_Some [OF this] Some show ?thesis by (simp add: task_run_maps)
qed

lemma task_run_limits:
  assumes "st_pc t = AtLimits"
  shows "task_run x t r =
    map_option (\<lambda>(fi, res). case res of
        Inl e \<Rightarrow> (r\<lparr>rg_filter_index := fi\<rparr>, Inl e)
      | Inr _ \<Rightarrow> (registry_insert (st_sub t) (st_node t) (r\<lparr>rg_filter_index := fi\<rparr>), Inr ()))
    (add_subscription x (st_sub t) (st_node t) (rg_filter_index r))"
proof -
  obtain fi lim where lim: "check_limits (pattern_str (sb_topic (st_sub t))) (st_sub t) (rg_filter_index r) = (fi, lim)" by fastforce
  show ?thesis
  proof (cases lim)
    case (Inl e)
    then have "task_step x t r = Some (t\<lparr>st_pc := Returned (Inl e)\<rparr>, r\<lparr>rg_filter_index := fi\<rparr>)"
      using assms lim by (simp add: task_step_def)
    from task_run_Some [OF this] lim Inl show ?thesis by (simp add: task_run_Returned add_subscription_steps)
  next
    case (Inr u)
    then have "task_step x t r = Some (t\<lparr>st_pc := AtIndex\<rparr>, r\<lparr>rg_filter_index := fi\<rparr>)"
      using assms lim by (simp add: task_step_def)
    from task_run_Some [OF this] lim Inr show ?thesis
      by (simp add: task_run_index add_subscription_steps option.map_comp o_def)
  qed
qed

lemma task_run_subscribe: "task_run x (sub_task sub node) r = subscribe x sub node r"
proof -
  let ?lim = "fi_limits (rg_filter_index r)" and ?t = "sub_task sub node"
  have sel: "st_sub ?t = sub" "st_node ?t = node" "st_pc ?t = AtGuards" by (simp_all add: sub_task_def)
  show ?thesis
  proof (cases "check_subscription_guards r (sb_conn sub) (max_subscriptions_per_connection ?lim) (max_total_subscriptions ?lim)")
    case (Inl e)
    then have "task_step x ?t r = Some (?t\<lparr>st_pc := Returned (Inl e)\<rparr>, r)" by (simp add: task_step_def sel)
    from task_run_Some [OF this] Inl show ?thesis by (simp add: task_run_Returned subscribe_def)
  next
    case (Inr u)
    then have "task_step x ?t r = Some (?t\<lparr>st_pc := AtLimits\<rparr>, r)" by (simp add: task_step_def sel)
    from task_run_Some [OF this] Inr show ?thesis
      by (cases "add_subscription x sub node (rg_filter_index r)")
        (auto simp: task_run_limits subscribe_def sel Let_def split: sum.splits)
  qed
qed

subsection \<open>One table, written in stages\<close>

text \<open>What each map says when the table of subscriptions is \<open>M\<close>.\<close>

definition table_ok :: "(ConnectionId \<times> string \<rightharpoonup> SubscriptionEntry) \<Rightarrow> bool" where
  "table_ok M = (\<forall>k e. M k = Some e \<longrightarrow> entry_key e = k \<and> parsed_pattern (sb_topic (se_subscription e)))"

definition index_at :: "Externals \<Rightarrow> FilterIndex \<Rightarrow> (ConnectionId \<times> string \<rightharpoonup> SubscriptionEntry) \<Rightarrow> bool" where
  "index_at x fi M = (fi_ok x fi \<and> (\<forall>c s. fi_table fi (c, SubscriptionId s) = map_option entry_slot (M (c, s))))"

definition connections_at :: "SubscriptionRegistry \<Rightarrow> (ConnectionId \<times> string \<rightharpoonup> SubscriptionEntry) \<Rightarrow> bool" where
  "connections_at r M =
     ((\<forall>c. distinct (get_connection_subscriptions c r)) \<and>
      (\<forall>c e. e \<in> set (get_connection_subscriptions c r) \<longleftrightarrow>
         M (entry_key e) = Some e \<and> sb_conn (se_subscription e) = c))"

definition topics_at :: "SubscriptionRegistry \<Rightarrow> (ConnectionId \<times> string \<rightharpoonup> SubscriptionEntry) \<Rightarrow> bool" where
  "topics_at r M =
     ((\<forall>k. distinct (topic_list r k)) \<and>
      (\<forall>k c s. (c, s) \<in> set (topic_list r k) \<longleftrightarrow>
         (\<exists>e. M (entry_key e) = Some e \<and> entry_key e = (c, sub_raw s) \<and>
              pattern_str (sb_topic (se_subscription e)) = k)))"

definition patterns_at :: "SubscriptionRegistry \<Rightarrow> (ConnectionId \<times> string \<rightharpoonup> SubscriptionEntry) \<Rightarrow> bool" where
  "patterns_at r M =
     (dm_wf (rg_patterns r) \<and> (\<forall>k p. dm_get (rg_patterns r) k = Some p \<longrightarrow> p = pattern_parse k) \<and>
      (\<forall>k e. M k = Some e \<longrightarrow> dm_contains (rg_patterns r) (pattern_str (sb_topic (se_subscription e)))))"

definition ids_at :: "SubscriptionRegistry \<Rightarrow> (ConnectionId \<times> string \<rightharpoonup> SubscriptionEntry) \<Rightarrow> bool" where
  "ids_at r M = (dm_wf (rg_by_sub_id r) \<and> dm_get (rg_by_sub_id r) = M)"

lemma rg_inv_stages:
  "rg_inv x r \<longleftrightarrow> (\<exists>M. table_ok M \<and> index_at x (rg_filter_index r) M \<and> connections_at r M \<and> topics_at r M \<and>
     patterns_at r M \<and> ids_at r M)"
proof -
  have "rg_inv x r \<longleftrightarrow> (let M = dm_get (rg_by_sub_id r) in table_ok M \<and> index_at x (rg_filter_index r) M \<and>
      connections_at r M \<and> topics_at r M \<and> patterns_at r M \<and> ids_at r M)"
    unfolding rg_inv_def rg_index_inv_def rg_maps_inv_def rg_lists_inv_def table_ok_def index_at_def
      connections_at_def topics_at_def patterns_at_def ids_at_def live_def Let_def by blast
  then show ?thesis unfolding ids_at_def Let_def by blast
qed

lemma get_connection_push [simp]:
  "get_connection_subscriptions c (push_connection sub node r) =
     (if c = sb_conn sub then get_connection_subscriptions c r @ [new_entry sub node] else get_connection_subscriptions c r)"
  "get_connection_subscriptions c (push_topic sub r) = get_connection_subscriptions c r"
  "get_connection_subscriptions c (register_pattern sub r) = get_connection_subscriptions c r"
  "get_connection_subscriptions c (insert_id sub node r) = get_connection_subscriptions c r"
  by (simp_all add: get_connection_subscriptions_def push_connection_def push_topic_def register_pattern_def
      insert_id_def split: option.split)

lemma topic_list_push [simp]:
  "topic_list (push_topic sub r) k =
     (if k = pattern_str (sb_topic sub) then topic_list r k @ [(sb_conn sub, sb_sub sub)] else topic_list r k)"
  "topic_list (push_connection sub node r) k = topic_list r k"
  "topic_list (register_pattern sub r) k = topic_list r k"
  "topic_list (insert_id sub node r) k = topic_list r k"
  "topic_list (r\<lparr>rg_filter_index := fi\<rparr>) k = topic_list r k"
  by (simp_all add: topic_list_def push_connection_def push_topic_def register_pattern_def insert_id_def split: option.split)

lemma push_sel [simp]:
  "rg_filter_index (push_connection sub node r) = rg_filter_index r" "rg_filter_index (push_topic sub r) = rg_filter_index r"
  "rg_filter_index (register_pattern sub r) = rg_filter_index r" "rg_filter_index (insert_id sub node r) = rg_filter_index r"
  "rg_patterns (push_connection sub node r) = rg_patterns r" "rg_patterns (push_topic sub r) = rg_patterns r"
  "rg_patterns (insert_id sub node r) = rg_patterns r"
  "rg_by_sub_id (push_connection sub node r) = rg_by_sub_id r" "rg_by_sub_id (push_topic sub r) = rg_by_sub_id r"
  "rg_by_sub_id (register_pattern sub r) = rg_by_sub_id r"
  by (simp_all add: push_connection_def push_topic_def register_pattern_def insert_id_def)

text \<open>What a step adds to its map.\<close>

definition task_key :: "SubTask \<Rightarrow> ConnectionId \<times> string" where
  "task_key t = (sb_conn (st_sub t), sub_raw (sb_sub (st_sub t)))"

definition task_entry :: "SubTask \<Rightarrow> SubscriptionEntry" where
  "task_entry t = new_entry (st_sub t) (st_node t)"

lemma task_entry_key [simp]: "entry_key (task_entry t) = task_key t"
  by (simp add: task_entry_def task_key_def)

lemma table_ok_insert:
  "table_ok M \<Longrightarrow> parsed_pattern (sb_topic (st_sub t)) \<Longrightarrow> table_ok (M(task_key t \<mapsto> task_entry t))"
  by (simp add: table_ok_def task_entry_def) (simp add: task_key_def)

lemma connections_push:
  assumes "connections_at r M" and "M (task_key t) = None"
  shows "connections_at (push_connection (st_sub t) (st_node t) r) (M(task_key t \<mapsto> task_entry t))"
proof -
  have notin: "task_entry t \<notin> set (get_connection_subscriptions c r)" for c
    using assms by (auto simp: connections_at_def)
  have "e \<in> set (get_connection_subscriptions c (push_connection (st_sub t) (st_node t) r)) \<longleftrightarrow>
      (M(task_key t \<mapsto> task_entry t)) (entry_key e) = Some e \<and> sb_conn (se_subscription e) = c" for c e
  proof (cases "entry_key e = task_key t")
    case True
    then have "e \<notin> set (get_connection_subscriptions c r)" using assms by (auto simp: connections_at_def)
    with True show ?thesis by (auto simp: task_entry_def task_key_def entry_key_def)
  next
    case False
    then have "e \<noteq> new_entry (st_sub t) (st_node t)" by (auto simp: task_key_def)
    with False assms(1) show ?thesis by (auto simp: connections_at_def)
  qed
  moreover have "distinct (get_connection_subscriptions c r)" for c using assms(1) unfolding connections_at_def by blast
  then have "distinct (get_connection_subscriptions c (push_connection (st_sub t) (st_node t) r))" for c
    using notin by (simp add: task_entry_def)
  ultimately show ?thesis unfolding connections_at_def by blast
qed

lemma topics_push:
  assumes "topics_at r M" and "table_ok M" and "M (task_key t) = None"
  shows "topics_at (push_topic (st_sub t) r) (M(task_key t \<mapsto> task_entry t))"
proof -
  let ?sub = "st_sub t" and ?M = "M(task_key t \<mapsto> task_entry t)"
  have old: "(\<exists>e. M (entry_key e) = Some e \<and> entry_key e = (c, sub_raw s) \<and> pattern_str (sb_topic (se_subscription e)) = k) \<longleftrightarrow>
      (c, s) \<in> set (topic_list r k)" for c s k
    using assms(1) by (simp add: topics_at_def)
  have notin: "(sb_conn ?sub, sb_sub ?sub) \<notin> set (topic_list r k)" for k
    using assms(1,3) by (auto simp: topics_at_def task_key_def)
  have mem: "(c, s) \<in> set (topic_list (push_topic ?sub r) k) \<longleftrightarrow>
      (\<exists>e. ?M (entry_key e) = Some e \<and> entry_key e = (c, sub_raw s) \<and> pattern_str (sb_topic (se_subscription e)) = k)" for c s k
  proof (cases "(c, sub_raw s) = task_key t")
    case True
    then have cs: "c = sb_conn ?sub" "s = sb_sub ?sub" by (simp_all add: task_key_def)
    have "(\<exists>e. ?M (entry_key e) = Some e \<and> entry_key e = (c, sub_raw s) \<and> pattern_str (sb_topic (se_subscription e)) = k) \<longleftrightarrow>
        pattern_str (sb_topic ?sub) = k"
    proof
      assume "pattern_str (sb_topic ?sub) = k"
      with True show "\<exists>e. ?M (entry_key e) = Some e \<and> entry_key e = (c, sub_raw s) \<and> pattern_str (sb_topic (se_subscription e)) = k"
        by (intro exI [of _ "task_entry t"]) (simp add: task_entry_def task_key_def)
    qed (auto simp: True task_entry_def)
    then show ?thesis using notin cs by auto
  next
    case False
    then have "\<not> (c = sb_conn ?sub \<and> s = sb_sub ?sub)" by (auto simp: task_key_def)
    moreover have "(\<exists>e. ?M (entry_key e) = Some e \<and> entry_key e = (c, sub_raw s) \<and> pattern_str (sb_topic (se_subscription e)) = k) \<longleftrightarrow>
        (c, s) \<in> set (topic_list r k)"
      unfolding old [symmetric] using False by (intro iff_exI) auto
    ultimately show ?thesis by auto
  qed
  have "distinct (topic_list r k)" for k using assms(1) unfolding topics_at_def by blast
  then have "distinct (topic_list (push_topic ?sub r) k)" for k using notin by simp
  with mem show ?thesis unfolding topics_at_def by blast
qed

lemma patterns_register:
  assumes "patterns_at r M" and "parsed_pattern (sb_topic (st_sub t))"
  shows "patterns_at (register_pattern (st_sub t) r) (M(task_key t \<mapsto> task_entry t))"
  using assms unfolding patterns_at_def register_pattern_def
  by (auto simp: task_entry_def parsed_pattern_def dm_contains_def split: option.splits if_splits)

lemma ids_insert:
  "ids_at r M \<Longrightarrow> ids_at (insert_id (st_sub t) (st_node t) r) (M(task_key t \<mapsto> task_entry t))"
  by (auto simp: ids_at_def insert_id_def task_key_def task_entry_def fun_eq_iff)

lemma index_insert_safe:
  assumes "fi_safe fi"
  obtains i slots free where "slab_alloc (dispatch_slot_of sub node) (fi_slots fi, fi_free fi) = Some (i, (slots, free))"
    and "index_insert x sub node fi = Some (add_accepted x sub i (fi\<lparr>fi_slots := slots, fi_free := free\<rparr>))"
    and "fi_safe (add_accepted x sub i (fi\<lparr>fi_slots := slots, fi_free := free\<rparr>))"
proof -
  have "\<forall>i\<in>set (fi_free fi). unat i < length (fi_slots fi)" using assms by (simp add: fi_safe_def)
  from slab_alloc_bounds [OF this, of "dispatch_slot_of sub node"] obtain i slots free
    where a: "slab_alloc (dispatch_slot_of sub node) (fi_slots fi, fi_free fi) = Some (i, (slots, free))"
      and b: "unat i < length slots" "length (fi_slots fi) \<le> length slots" "set free \<subseteq> set (fi_free fi)"
    by blast
  have "fi_safe (add_accepted x sub i (fi\<lparr>fi_slots := slots, fi_free := free\<rparr>))"
    using assms b by (force simp: fi_safe_def ids_below_def add_accepted_bits)
  with a that show ?thesis by (simp add: index_insert_def alloc_slot_eq)
qed

lemma index_at_insert:
  assumes at: "index_at x fi M" and parsed: "parsed_pattern (sb_topic (st_sub t))" and new: "M (task_key t) = None"
    and room: "dm_len (fi_slot_by_sub fi) < 2 ^ 32"
    and ins: "index_insert x (st_sub t) (st_node t) fi = Some fi'"
  shows "index_at x fi' (M(task_key t \<mapsto> task_entry t))" and "fi_limits fi' = fi_limits fi"
    and "dm_len (fi_slot_by_sub fi') = Suc (dm_len (fi_slot_by_sub fi))"
proof -
  let ?sub = "st_sub t" and ?key = "(sb_conn (st_sub t), sb_sub (st_sub t))"
  have ok: "fi_ok x fi" and table: "\<And>c s. fi_table fi (c, SubscriptionId s) = map_option entry_slot (M (c, s))"
    using at by (simp_all add: index_at_def)
  then have inv: "fi_inv x fi" and lim: "unat (max_total_subscriptions (fi_limits fi)) \<le> 2 ^ 32"
    by (simp_all add: fi_ok_def)
  from inv have safe: "fi_safe fi" by (simp add: fi_inv_def)
  obtain i slots free where alloc: "slab_alloc (dispatch_slot_of ?sub (st_node t)) (fi_slots fi, fi_free fi) = Some (i, (slots, free))"
    and fi': "fi' = add_accepted x ?sub i (fi\<lparr>fi_slots := slots, fi_free := free\<rparr>)" and safe': "fi_safe fi'"
    using index_insert_safe [OF safe, of ?sub "st_node t" x] ins by (metis option.inject)
  have "fi_table fi ?key = None"
    using table [of "sb_conn ?sub" "sub_raw (sb_sub ?sub)"] new by (simp add: task_key_def)
  then have fresh: "dm_get (fi_slot_by_sub fi) ?key = None" using fi_table_None [OF inv] by simp
  have used: "slab_used (fi_slots fi, fi_free fi) < 2 ^ 32" using inv room by (simp add: fi_inv_def inv_slab_def)
  note eff = add_fresh_inv [OF inv parsed fresh used alloc fi' safe']
  have sel: "fi_slot_by_sub fi' = dm_insert ?key i (fi_slot_by_sub fi)" "fi_limits fi' = fi_limits fi" by (simp_all add: fi')
  have no: "dm_get (fi_slot_by_sub fi) k \<noteq> Some i" for k by (simp add: inv_link [OF inv] eff(2))
  have tab: "fi_table fi' k = (if k = ?key then Some (dispatch_slot_of ?sub (st_node t)) else fi_table fi k)" for k
    using no [of k] by (cases "dm_get (fi_slot_by_sub fi) k") (auto simp: fi_table_def sel eff(3))
  have "fi_table fi' (c, SubscriptionId s) = map_option entry_slot ((M(task_key t \<mapsto> task_entry t)) (c, s))" for c s
    by (cases "sb_sub ?sub") (auto simp: tab table task_key_def task_entry_def)
  with eff(1) lim show "index_at x fi' (M(task_key t \<mapsto> task_entry t))" by (simp add: index_at_def fi_ok_def sel)
  show "fi_limits fi' = fi_limits fi" by (rule sel)
  show "dm_len (fi_slot_by_sub fi') = Suc (dm_len (fi_slot_by_sub fi))"
    using fresh by (simp add: sel dm_len_insert)
qed

lemma index_at_same:
  "index_at x fi M \<Longrightarrow> same_index fi fi' \<Longrightarrow> index_at x fi' M"
  by (auto simp: index_at_def fi_ok_def same_index_inv) (auto simp: same_index_def fi_table_def ds_at_def [abs_def])

subsection \<open>Any number of calls\<close>

text \<open>The calls in progress and the registry; each step is a step of one call.\<close>

inductive tasks_run :: "Externals \<Rightarrow> SubTask list \<times> SubscriptionRegistry \<Rightarrow> SubTask list \<times> SubscriptionRegistry \<Rightarrow> bool"
  for x s0 where
  Start: "tasks_run x s0 s0"
| Step: "tasks_run x s0 (ts, r) \<Longrightarrow> i < length ts \<Longrightarrow> task_step x (ts ! i) r = Some (t, r') \<Longrightarrow>
    tasks_run x s0 (ts[i := t], r')"

text \<open>A given schedule, executed.\<close>

fun tasks_exec :: "Externals \<Rightarrow> nat list \<Rightarrow> SubTask list \<times> SubscriptionRegistry \<Rightarrow> (SubTask list \<times> SubscriptionRegistry) option" where
  "tasks_exec x [] s = Some s"
| "tasks_exec x (i # is) (ts, r) =
     (if i < length ts
      then (case task_step x (ts ! i) r of None \<Rightarrow> None | Some (t, r) \<Rightarrow> tasks_exec x is (ts[i := t], r))
      else None)"

lemma tasks_exec_run: "tasks_exec x is s = Some s' \<Longrightarrow> tasks_run x s0 s \<Longrightarrow> tasks_run x s0 s'"
proof (induction "is" arbitrary: s)
  case (Cons i "is")
  obtain ts r where s: "s = (ts, r)" by fastforce
  from Cons.prems(1) s have i: "i < length ts" by (auto split: if_splits)
  with Cons.prems(1) s obtain t r' where st: "task_step x (ts ! i) r = Some (t, r')"
    and rest: "tasks_exec x is (ts[i := t], r') = Some s'"
    by (auto split: option.splits)
  from Cons.IH [OF rest] tasks_run.Step [OF Cons.prems(2) [unfolded s] i st] show ?case by blast
qed simp

text \<open>The entries of the calls that have come as far as \<open>n\<close>, and how many are between two points.\<close>

fun written :: "nat \<Rightarrow> SubTask list \<Rightarrow> (ConnectionId \<times> string \<rightharpoonup> SubscriptionEntry)" where
  "written n [] = Map.empty"
| "written n (t # ts) =
     (if n \<le> pc_rank (st_pc t) then (written n ts)(task_key t \<mapsto> task_entry t) else written n ts)"

definition between :: "nat \<Rightarrow> nat \<Rightarrow> SubTask list \<Rightarrow> nat" where
  "between a b ts = length (filter (\<lambda>t. a \<le> pc_rank (st_pc t) \<and> pc_rank (st_pc t) < b) ts)"

lemma written_None: "k \<notin> task_key ` set ts \<Longrightarrow> written n ts k = None"
  by (induction ts) auto

lemma written_behind:
  "distinct (map task_key ts) \<Longrightarrow> i < length ts \<Longrightarrow> pc_rank (st_pc (ts ! i)) < n \<Longrightarrow> written n ts (task_key (ts ! i)) = None"
proof (induction ts arbitrary: i)
  case (Cons t ts)
  show ?case
  proof (cases i)
    case 0
    with Cons.prems show ?thesis by (simp add: written_None)
  next
    case (Suc j)
    with Cons have "written n ts (task_key (ts ! j)) = None" by simp
    moreover have "task_key (ts ! j) \<in> task_key ` set ts" using Cons.prems(2) Suc by simp
    then have "task_key (ts ! j) \<noteq> task_key t" using Cons.prems(1) by (metis distinct.simps(2) list.simps(9) set_map)
    ultimately show ?thesis using Suc by simp
  qed
qed simp

lemma written_same:
  "i < length ts \<Longrightarrow> task_key t = task_key (ts ! i) \<Longrightarrow> task_entry t = task_entry (ts ! i) \<Longrightarrow>
   n \<le> pc_rank (st_pc t) \<longleftrightarrow> n \<le> pc_rank (st_pc (ts ! i)) \<Longrightarrow> written n (ts[i := t]) = written n ts"
proof (induction ts arbitrary: i)
  case (Cons u ts)
  then show ?case by (cases i) auto
qed simp

lemma written_new:
  "distinct (map task_key ts) \<Longrightarrow> i < length ts \<Longrightarrow> task_key t = task_key (ts ! i) \<Longrightarrow> task_entry t = task_entry (ts ! i) \<Longrightarrow>
   n \<le> pc_rank (st_pc t) \<Longrightarrow> pc_rank (st_pc (ts ! i)) < n \<Longrightarrow>
   written n (ts[i := t]) = (written n ts)(task_key (ts ! i) \<mapsto> task_entry (ts ! i))"
proof (induction ts arbitrary: i)
  case (Cons u ts)
  show ?case
  proof (cases i)
    case 0
    with Cons.prems show ?thesis by simp
  next
    case (Suc j)
    have IH: "written n (ts[j := t]) = (written n ts)(task_key (ts ! j) \<mapsto> task_entry (ts ! j))"
      by (rule Cons.IH) (use Cons.prems Suc in simp_all)
    have "task_key (ts ! j) \<in> task_key ` set ts" using Cons.prems(2) Suc by simp
    then have "task_key (ts ! j) \<noteq> task_key u" using Cons.prems(1) by (metis distinct.simps(2) list.simps(9) set_map)
    then show ?thesis by (auto simp: Suc IH fun_eq_iff)
  qed
qed simp

lemma length_filter_update:
  "i < length xs \<Longrightarrow>
   length (filter P (xs[i := y])) + (if P (xs ! i) then 1 else 0) = length (filter P xs) + (if P y then 1 else 0)"
proof (induction xs arbitrary: i)
  case (Cons u xs)
  show ?case
  proof (cases i)
    case (Suc j)
    with Cons.IH [of j] Cons.prems show ?thesis by (cases "P u") simp_all
  qed simp
qed simp

lemma between_update:
  "i < length ts \<Longrightarrow>
   between a b (ts[i := t]) + (if a \<le> pc_rank (st_pc (ts ! i)) \<and> pc_rank (st_pc (ts ! i)) < b then 1 else 0) =
   between a b ts + (if a \<le> pc_rank (st_pc t) \<and> pc_rank (st_pc t) < b then 1 else 0)"
  unfolding between_def by (rule length_filter_update)

lemma between_le: "between a b ts \<le> length ts"
  by (simp add: between_def)

text \<open>What the registry holds while calls are in progress: each map is as far as its own step.\<close>

definition stages_ok :: "Externals \<Rightarrow> (ConnectionId \<times> string \<rightharpoonup> SubscriptionEntry) \<Rightarrow> SubTask list \<Rightarrow> SubscriptionRegistry \<Rightarrow> bool" where
  "stages_ok x M ts r =
     (index_at x (rg_filter_index r) (M ++ written 3 ts) \<and> connections_at r (M ++ written 4 ts) \<and>
      topics_at r (M ++ written 5 ts) \<and> patterns_at r (M ++ written 6 ts) \<and> ids_at r (M ++ written 7 ts))"

lemma table_ok_written:
  "table_ok M \<Longrightarrow> \<forall>t\<in>set ts. parsed_pattern (sb_topic (st_sub t)) \<Longrightarrow> table_ok (M ++ written n ts)"
  by (induction ts) (simp_all add: table_ok_insert)

lemma connections_at_frame [simp]:
  "connections_at (push_topic sub r) M = connections_at r M"
  "connections_at (register_pattern sub r) M = connections_at r M"
  "connections_at (insert_id sub node r) M = connections_at r M"
  "connections_at (r\<lparr>rg_filter_index := fi\<rparr>) M = connections_at r M"
  by (simp_all add: connections_at_def)

lemma topics_at_frame [simp]:
  "topics_at (push_connection sub node r) M = topics_at r M"
  "topics_at (register_pattern sub r) M = topics_at r M"
  "topics_at (insert_id sub node r) M = topics_at r M"
  "topics_at (r\<lparr>rg_filter_index := fi\<rparr>) M = topics_at r M"
  by (simp_all add: topics_at_def)

lemma patterns_at_frame [simp]:
  "patterns_at (push_connection sub node r) M = patterns_at r M"
  "patterns_at (push_topic sub r) M = patterns_at r M"
  "patterns_at (insert_id sub node r) M = patterns_at r M"
  "patterns_at (r\<lparr>rg_filter_index := fi\<rparr>) M = patterns_at r M"
  by (simp_all add: patterns_at_def)

lemma ids_at_frame [simp]:
  "ids_at (push_connection sub node r) M = ids_at r M"
  "ids_at (push_topic sub r) M = ids_at r M"
  "ids_at (register_pattern sub r) M = ids_at r M"
  "ids_at (r\<lparr>rg_filter_index := fi\<rparr>) M = ids_at r M"
  by (simp_all add: ids_at_def)

lemma task_moved [simp]:
  "task_key (t\<lparr>st_pc := pc\<rparr>) = task_key t" "task_entry (t\<lparr>st_pc := pc\<rparr>) = task_entry t"
  by (simp_all add: task_key_def task_entry_def)

lemma written_step:
  assumes "distinct (map task_key ts)" "i < length ts" "pc_rank pc = Suc (pc_rank (st_pc (ts ! i)))"
  shows "written n (ts[i := (ts ! i)\<lparr>st_pc := pc\<rparr>]) =
     (if n = pc_rank pc then (written n ts)(task_key (ts ! i) \<mapsto> task_entry (ts ! i)) else written n ts)"
proof (cases "n = pc_rank pc")
  case True
  with assms show ?thesis by (simp add: written_new)
next
  case False
  have "written n (ts[i := (ts ! i)\<lparr>st_pc := pc\<rparr>]) = written n ts"
    by (rule written_same) (use assms False in auto)
  with False show ?thesis by simp
qed

lemma stages_ok_step:
  assumes ok: "stages_ok x M ts r" and table: "table_ok M"
    and keys: "distinct (map task_key ts)" and fresh: "\<forall>t\<in>set ts. M (task_key t) = None"
    and parsed: "\<forall>t\<in>set ts. parsed_pattern (sb_topic (st_sub t))"
    and i: "i < length ts" and step: "task_step x (ts ! i) r = Some (t, r')"
    and room: "st_pc (ts ! i) = AtIndex \<Longrightarrow> dm_len (fi_slot_by_sub (rg_filter_index r)) < 2 ^ 32"
  shows "stages_ok x M (ts[i := t]) r'"
proof -
  let ?t = "ts ! i"
  have mem: "?t \<in> set ts" using i by simp
  with parsed have p: "parsed_pattern (sb_topic (st_sub ?t))" by blast
  have behind: "(M ++ written n ts) (task_key ?t) = None" if "pc_rank (st_pc ?t) < n" for n
    using written_behind [OF keys i that] fresh mem by (simp add: map_add_None)
  have tab: "table_ok (M ++ written n ts)" for n by (rule table_ok_written [OF table parsed])
  note moved = written_step [OF keys i]
  from step show ?thesis
  proof (cases rule: task_step_cases)
    case (refused e fi)
    then have "written n (ts[i := t]) = written n ts" if "2 \<le> n" for n
      using that i by (intro written_same) auto
    moreover have "index_at x fi (M ++ written 3 ts)"
      using ok refused by (auto simp: stages_ok_def intro: index_at_same)
    ultimately show ?thesis using ok refused by (simp add: stages_ok_def)
  next
    case guards
    with ok moved [of AtLimits] show ?thesis by (simp add: stages_ok_def)
  next
    case limits
    with ok moved [of AtIndex] show ?thesis by (simp add: stages_ok_def)
  next
    case (index fi)
    have "index_at x fi ((M ++ written 3 ts)(task_key ?t \<mapsto> task_entry ?t))"
      by (rule index_at_insert(1) [OF _ p _ room index(4)]) (use ok behind [of 3] index in \<open>simp_all add: stages_ok_def\<close>)
    with ok moved [of AtConnection] index show ?thesis by (simp add: stages_ok_def)
  next
    case connection
    have "connections_at r' ((M ++ written 4 ts)(task_key ?t \<mapsto> task_entry ?t))"
      unfolding connection by (rule connections_push) (use ok behind [of 4] connection in \<open>simp_all add: stages_ok_def\<close>)
    with ok moved [of AtTopic] connection show ?thesis by (simp add: stages_ok_def)
  next
    case topic
    have "topics_at r' ((M ++ written 5 ts)(task_key ?t \<mapsto> task_entry ?t))"
      unfolding topic by (rule topics_push [OF _ tab]) (use ok behind [of 5] topic in \<open>simp_all add: stages_ok_def\<close>)
    with ok moved [of AtPattern] topic show ?thesis by (simp add: stages_ok_def)
  next
    case pattern
    have "patterns_at r' ((M ++ written 6 ts)(task_key ?t \<mapsto> task_entry ?t))"
      unfolding pattern by (rule patterns_register [OF _ p]) (use ok in \<open>simp add: stages_ok_def\<close>)
    with ok moved [of AtSubId] pattern show ?thesis by (simp add: stages_ok_def)
  next
    case sub_id
    have "ids_at r' ((M ++ written 7 ts)(task_key ?t \<mapsto> task_entry ?t))"
      unfolding sub_id by (rule ids_insert) (use ok in \<open>simp add: stages_ok_def\<close>)
    with ok moved [of "Returned (Inr ())"] sub_id show ?thesis by (simp add: stages_ok_def)
  qed
qed

subsection \<open>How many there can be\<close>

lemma index_insert_len:
  assumes "index_insert x sub node fi = Some fi'"
  shows "fi_limits fi' = fi_limits fi" "dm_len (fi_slot_by_sub fi') \<le> Suc (dm_len (fi_slot_by_sub fi))"
  using assms by (auto simp: index_insert_def alloc_slot_eq dm_len_insert)

lemma task_step_limits:
  assumes "task_step x t r = Some (t', r')"
  shows "fi_limits (rg_filter_index r') = fi_limits (rg_filter_index r)"
  using assms by (cases rule: task_step_cases) (simp_all add: same_index_def index_insert_len)

text \<open>The subscriptions counted by either cap, with the calls the cap has let through.\<close>

definition caps_ok :: "nat \<Rightarrow> SubTask list \<Rightarrow> SubscriptionRegistry \<Rightarrow> bool" where
  "caps_ok cap ts r =
     (subscription_count r + between 1 7 ts \<le> cap + (length ts - 1) \<and>
      dm_len (fi_slot_by_sub (rg_filter_index r)) + between 2 3 ts \<le> cap + (length ts - 1))"

lemma caps_ok_room:
  assumes "caps_ok cap ts r" and "i < length ts" and "st_pc (ts ! i) = AtIndex" and "cap + length ts \<le> 2 ^ 32"
  shows "dm_len (fi_slot_by_sub (rg_filter_index r)) < 2 ^ 32"
proof -
  have "0 < between 2 3 ts"
    using assms(2,3) by (auto simp: between_def filter_empty_conv intro!: bexI [of _ "ts ! i"])
  with assms show ?thesis by (auto simp: caps_ok_def)
qed

lemma caps_ok_step:
  assumes caps: "caps_ok cap ts r" and i: "i < length ts" and step: "task_step x (ts ! i) r = Some (t, r')"
    and cap: "cap = unat (max_total_subscriptions (fi_limits (rg_filter_index r)))"
  shows "caps_ok cap (ts[i := t]) r'"
proof -
  have le: "between a b (ts[i := t]) \<le> length ts" for a b using between_le [of a b "ts[i := t]"] by simp
  note up = between_update [OF i, of 1 7 t] between_update [OF i, of 2 3 t]
  from step show ?thesis
  proof (cases rule: task_step_cases)
    case (refused e fi)
    with caps up show ?thesis by (auto simp: caps_ok_def subscription_count_def same_index_def)
  next
    case guards
    with caps up le [of 1 7] cap show ?thesis by (simp add: caps_ok_def subscription_count_def)
  next
    case limits
    with caps up le [of 2 3] cap show ?thesis by (simp add: caps_ok_def subscription_count_def)
  next
    case (index fi)
    with caps up index_insert_len(2) [OF index(4)] show ?thesis by (simp add: caps_ok_def subscription_count_def)
  next
    case sub_id
    then have "subscription_count r' \<le> Suc (subscription_count r)"
      by (simp add: subscription_count_def insert_id_def dm_len_insert)
    with caps up sub_id show ?thesis by (simp add: caps_ok_def)
  qed (use caps up in \<open>simp_all add: caps_ok_def subscription_count_def\<close>)
qed

lemma dm_len_card: "dm_wf m \<Longrightarrow> dm_len m = card (dom (dm_get m))"
  by (simp add: dm_len_def dm_wf_def dm_get_def [abs_def] dom_map_of_conv_image_fst distinct_card flip: set_map)

lemma index_count:
  assumes "index_at x fi M" and "ids_at r M"
  shows "dm_len (fi_slot_by_sub fi) = subscription_count r"
proof -
  have inv: "fi_inv x fi" and table: "\<And>c s. fi_table fi (c, SubscriptionId s) = map_option entry_slot (M (c, s))"
    using assms(1) by (simp_all add: index_at_def fi_ok_def)
  let ?raw = "\<lambda>(c, s). (c, sub_raw s)"
  have iff: "k \<in> dom (dm_get (fi_slot_by_sub fi)) \<longleftrightarrow> ?raw k \<in> dom M" for k
    using table [of "fst k" "sub_raw (snd k)"] fi_table_None [OF inv, of k]
    by (cases k) (auto simp: domIff)
  have "?raw ` dom (dm_get (fi_slot_by_sub fi)) = dom M"
  proof
    show "?raw ` dom (dm_get (fi_slot_by_sub fi)) \<subseteq> dom M" using iff by blast
    show "dom M \<subseteq> ?raw ` dom (dm_get (fi_slot_by_sub fi))"
    proof
      fix k assume "k \<in> dom M"
      then have "(fst k, SubscriptionId (snd k)) \<in> dom (dm_get (fi_slot_by_sub fi))" using iff by simp
      then show "k \<in> ?raw ` dom (dm_get (fi_slot_by_sub fi))" by (force simp: image_iff)
    qed
  qed
  moreover have "inj_on ?raw (dom (dm_get (fi_slot_by_sub fi)))" by (auto simp: inj_on_def)
  ultimately have "card (dom (dm_get (fi_slot_by_sub fi))) = card (dom M)" using card_image by metis
  then show ?thesis using assms(2) inv by (simp add: subscription_count_def dm_len_card ids_at_def fi_inv_def inv_slab_def)
qed

text \<open>The whole invariant, along any run.\<close>

lemma tasks_run_ok:
  assumes run: "tasks_run x (ts0, r0) (ts, r)" and inv: "rg_inv x r0"
    and start: "\<forall>t\<in>set ts0. st_pc t = AtGuards"
    and parsed: "\<forall>t\<in>set ts0. parsed_pattern (sb_topic (st_sub t))"
    and keys: "distinct (map task_key ts0)" and fresh: "\<forall>t\<in>set ts0. dm_get (rg_by_sub_id r0) (task_key t) = None"
    and cap: "cap = unat (max_total_subscriptions (fi_limits (rg_filter_index r0)))"
    and below: "subscription_count r0 \<le> cap" and room: "cap + length ts0 \<le> 2 ^ 32"
  shows "map (\<lambda>t. (st_sub t, st_node t)) ts = map (\<lambda>t. (st_sub t, st_node t)) ts0 \<and>
    stages_ok x (dm_get (rg_by_sub_id r0)) ts r \<and> caps_ok cap ts r \<and>
    fi_limits (rg_filter_index r) = fi_limits (rg_filter_index r0)"
  using run
proof (induction "(ts, r)" arbitrary: ts r rule: tasks_run.induct)
  case Start
  obtain M where st: "index_at x (rg_filter_index r0) M" "connections_at r0 M" "topics_at r0 M" "patterns_at r0 M" "ids_at r0 M"
    using inv unfolding rg_inv_stages by blast
  then have M: "dm_get (rg_by_sub_id r0) = M" by (simp add: ids_at_def)
  have none: "written n ts0 = Map.empty" if "0 < n" for n
    using start that by (induction ts0) auto
  have zero: "between a b ts0 = 0" if "0 < a" for a b
    using start that by (auto simp: between_def filter_empty_conv)
  show ?case using st index_count [OF st(1,5)] below by (simp add: M stages_ok_def caps_ok_def none zero)
next
  case (Step ts r i t r')
  let ?view = "\<lambda>t. (st_sub t, st_node t)"
  from Step have view: "map ?view ts = map ?view ts0" and ok: "stages_ok x (dm_get (rg_by_sub_id r0)) ts r"
    and caps: "caps_ok cap ts r" and lim: "fi_limits (rg_filter_index r) = fi_limits (rg_filter_index r0)"
    by simp_all
  have len: "length ts = length ts0" using view map_eq_imp_length_eq by blast
  have all: "P (st_sub t) (st_node t)" if "\<forall>t\<in>set ts0. P (st_sub t) (st_node t)" "t \<in> set ts" for P t
  proof -
    from that(2) have "?view t \<in> set (map ?view ts)" by simp
    then have "?view t \<in> set (map ?view ts0)" unfolding view .
    with that(1) show ?thesis by auto
  qed
  have parsed': "\<forall>t\<in>set ts. parsed_pattern (sb_topic (st_sub t))"
    using all [of "\<lambda>sub _. parsed_pattern (sb_topic sub)"] parsed by blast
  have fresh': "\<forall>t\<in>set ts. dm_get (rg_by_sub_id r0) (task_key t) = None"
    using all [of "\<lambda>sub _. dm_get (rg_by_sub_id r0) (sb_conn sub, sub_raw (sb_sub sub)) = None"] fresh
    by (simp add: task_key_def)
  have via: "map task_key us = map (\<lambda>(sub, _). (sb_conn sub, sub_raw (sb_sub sub))) (map ?view us)" for us
    by (simp add: task_key_def)
  have "map task_key ts = map task_key ts0" unfolding via [of ts] via [of ts0] view ..
  with keys have keys': "distinct (map task_key ts)" by simp
  have table: "table_ok (dm_get (rg_by_sub_id r0))" using rg_entry [OF inv] unfolding table_ok_def by blast
  have "stages_ok x (dm_get (rg_by_sub_id r0)) (ts[i := t]) r'"
    by (rule stages_ok_step [OF ok table keys' fresh' parsed' Step(3,4)])
      (rule caps_ok_room [OF caps Step(3)], use room len in simp_all)
  moreover have "caps_ok cap (ts[i := t]) r'"
    by (rule caps_ok_step [OF caps Step(3,4)]) (simp add: cap lim)
  moreover have "?view t = ?view (ts ! i)"
    using Step(4) by (cases rule: task_step_cases) simp_all
  then have "map ?view (ts[i := t]) = map ?view ts" using Step(3) by (simp add: map_update list_update_same_conv)
  ultimately show ?case using view lim task_step_limits [OF Step(4)] by simp
qed

subsection \<open>Every schedule\<close>

text \<open>A schedule takes at most seven steps per call.\<close>

definition steps_left :: "SubTask list \<Rightarrow> nat" where
  "steps_left ts = sum_list (map (\<lambda>t. pc_left (st_pc t)) ts)"

lemma steps_left_update:
  "i < length ts \<Longrightarrow> pc_left (st_pc t) < pc_left (st_pc (ts ! i)) \<Longrightarrow> steps_left (ts[i := t]) < steps_left ts"
proof (induction ts arbitrary: i)
  case (Cons u ts)
  then show ?case by (cases i) (auto simp: steps_left_def)
qed simp

lemma tasks_exec_length: "tasks_exec x is (ts, r) = Some (ts', r') \<Longrightarrow> length is + steps_left ts' \<le> steps_left ts"
proof (induction "is" arbitrary: ts r)
  case (Cons i "is")
  then have i: "i < length ts" by (auto split: if_splits)
  with Cons.prems obtain t r1 where st: "task_step x (ts ! i) r = Some (t, r1)"
    and rest: "tasks_exec x is (ts[i := t], r1) = Some (ts', r')"
    by (auto split: option.splits)
  from Cons.IH [OF rest] steps_left_update [OF i task_step_left [OF st]] show ?case by simp
qed simp

text \<open>No step of a call can fail while the index is well formed.\<close>

lemma task_step_possible:
  assumes "index_at x (rg_filter_index r) M" and "\<forall>res. st_pc t \<noteq> Returned res"
  shows "task_step x t r \<noteq> None"
proof (cases "st_pc t")
  case AtIndex
  have "fi_safe (rg_filter_index r)" using assms(1) by (simp add: index_at_def fi_ok_def fi_inv_def)
  from index_insert_safe [OF this, of "st_sub t" "st_node t" x] AtIndex show ?thesis
    by (auto simp: task_step_def)
qed (use assms in \<open>auto simp: task_step_def Let_def split: sum.split prod.split\<close>)

text \<open>When every call has returned, all stages are the same table.\<close>

definition settled :: "SubTask list \<Rightarrow> bool" where
  "settled ts = (\<forall>t\<in>set ts. case st_pc t of Returned _ \<Rightarrow> True | _ \<Rightarrow> False)"

lemma written_settled: "settled ts \<Longrightarrow> 0 < n \<Longrightarrow> n \<le> 7 \<Longrightarrow> written n ts = written 7 ts"
proof (induction ts)
  case (Cons t ts)
  then have "written n ts = written 7 ts" by (simp add: settled_def)
  moreover have "n \<le> pc_rank (st_pc t) \<longleftrightarrow> 7 \<le> pc_rank (st_pc t)"
    using Cons.prems by (cases "st_pc t" rule: pc_rank.cases) (auto simp: settled_def)
  ultimately show ?case by (simp only: written.simps)
qed simp

lemma written_accepted:
  "distinct (map task_key ts) \<Longrightarrow> written 7 ts k = Some e \<longleftrightarrow>
     (\<exists>t\<in>set ts. st_pc t = Returned (Inr ()) \<and> task_key t = k \<and> e = task_entry t)"
proof (induction ts)
  case (Cons t ts)
  have "7 \<le> pc_rank (st_pc t) \<longleftrightarrow> st_pc t = Returned (Inr ())"
    by (cases "st_pc t" rule: pc_rank.cases) auto
  moreover have "task_key u \<noteq> task_key t" if "u \<in> set ts" for u
    using Cons.prems that by (auto simp: image_iff)
  ultimately show ?case using Cons by auto
qed simp

text \<open>C17: Any number of concurrent calls of \<open>subscribe\<close> on fresh keys, interleaved access by access in any
  order: a schedule has at most seven steps per call and no step of a call that has not returned can fail;
  the registry never holds more than the configured total plus one subscription per further call (each call
  checks the cap before any of the others has inserted); and once all calls have returned the registry
  satisfies its whole invariant and holds exactly what it held and the accepted subscriptions.\<close>

theorem concurrent_subscribes_settle:
  assumes inv: "rg_inv x r0"
    and parsed: "\<forall>(sub, node)\<in>set calls. parsed_pattern (sb_topic sub)"
    and fresh: "\<forall>(sub, node)\<in>set calls. dm_get (rg_by_sub_id r0) (sb_conn sub, sub_raw (sb_sub sub)) = None"
    and apart: "distinct (map (\<lambda>(sub, node). (sb_conn sub, sub_raw (sb_sub sub))) calls)"
    and cap: "cap = unat (max_total_subscriptions (fi_limits (rg_filter_index r0)))"
    and below: "subscription_count r0 \<le> cap" and room: "cap + length calls \<le> 2 ^ 32"
    and run: "tasks_exec x schedule (map (\<lambda>(sub, node). sub_task sub node) calls, r0) = Some (ts, r)"
  shows "map (\<lambda>t. (st_sub t, st_node t)) ts = calls \<and>
    length schedule \<le> 7 * length calls \<and>
    (\<forall>t\<in>set ts. task_step x t r = None \<longrightarrow> (\<exists>res. st_pc t = Returned res)) \<and>
    subscription_count r \<le> cap + (length calls - 1) \<and>
    (settled ts \<longrightarrow> rg_inv x r \<and>
      (\<forall>e. live r e \<longleftrightarrow> live r0 e \<or> (\<exists>t\<in>set ts. st_pc t = Returned (Inr ()) \<and> e = new_entry (st_sub t) (st_node t))))"
proof -
  let ?start = "\<lambda>(sub, node). sub_task sub node" and ?M = "dm_get (rg_by_sub_id r0)"
  have ref: "tasks_run x (map ?start calls, r0) (map ?start calls, r0)" by (rule tasks_run.Start)
  have ok: "map (\<lambda>t. (st_sub t, st_node t)) ts = map (\<lambda>t. (st_sub t, st_node t)) (map ?start calls) \<and>
      stages_ok x ?M ts r \<and> caps_ok cap ts r \<and> fi_limits (rg_filter_index r) = fi_limits (rg_filter_index r0)"
    by (rule tasks_run_ok [OF tasks_exec_run [OF run ref] inv _ _ _ _ cap below])
      (use parsed fresh apart room in \<open>auto simp: sub_task_def task_key_def o_def case_prod_unfold\<close>)
  then have view: "map (\<lambda>t. (st_sub t, st_node t)) ts = calls" by (simp add: sub_task_def o_def case_prod_unfold)
  then have len: "length ts = length calls" by (metis length_map)
  have st: "stages_ok x ?M ts r" and caps: "caps_ok cap ts r" using ok by simp_all
  have at: "index_at x (rg_filter_index r) (?M ++ written 3 ts)" using st by (simp add: stages_ok_def)
  have keys: "distinct (map task_key ts)"
    using apart unfolding view [symmetric] by (simp add: task_key_def [abs_def] o_def)
  have "steps_left (map ?start calls) = 7 * length calls"
    by (induction calls) (auto simp: steps_left_def sub_task_def)
  with tasks_exec_length [OF run] have "length schedule \<le> 7 * length calls" by simp
  moreover have "\<forall>t\<in>set ts. task_step x t r = None \<longrightarrow> (\<exists>res. st_pc t = Returned res)"
    using task_step_possible [OF at] by blast
  moreover have "subscription_count r \<le> cap + (length calls - 1)"
    using caps len by (simp add: caps_ok_def)
  moreover have "rg_inv x r \<and> (\<forall>e. live r e \<longleftrightarrow> live r0 e \<or>
      (\<exists>t\<in>set ts. st_pc t = Returned (Inr ()) \<and> e = new_entry (st_sub t) (st_node t)))" if "settled ts"
  proof
    let ?N = "?M ++ written 7 ts"
    note same = written_settled [OF that]
    have parsed': "\<forall>t\<in>set ts. parsed_pattern (sb_topic (st_sub t))" using parsed view by auto
    have "table_ok ?M" using rg_entry [OF inv] unfolding table_ok_def by blast
    then have "table_ok ?N" by (rule table_ok_written [OF _ parsed'])
    moreover have ids: "ids_at r ?N" using st by (simp add: stages_ok_def)
    ultimately show "rg_inv x r"
      unfolding rg_inv_stages using st same [of 3] same [of 4] same [of 5] same [of 6]
      by (intro exI [of _ ?N]) (simp add: stages_ok_def)
    have fresh': "?M (task_key t) = None" if "t \<in> set ts" for t
      using fresh view that by (auto simp: task_key_def)
    have "live r e \<longleftrightarrow> ?N (entry_key e) = Some e" for e using ids by (simp add: live_def ids_at_def)
    moreover have "?N (entry_key e) = Some e \<longleftrightarrow> live r0 e \<or>
        (\<exists>t\<in>set ts. st_pc t = Returned (Inr ()) \<and> e = task_entry t)" for e
      using written_accepted [OF keys, of "entry_key e"] fresh'
      by (auto simp: map_add_Some_iff live_def) (metis option.exhaust option.distinct(1) task_entry_key)+
    ultimately show "\<forall>e. live r e \<longleftrightarrow> live r0 e \<or>
        (\<exists>t\<in>set ts. st_pc t = Returned (Inr ()) \<and> e = new_entry (st_sub t) (st_node t))"
      by (simp add: task_entry_def)
  qed
  ultimately show ?thesis using view by blast
qed

text \<open>Two calls under a total of one, both past their checks before either inserts: both are accepted.\<close>

definition demo_calls :: "(Subscription \<times> NodeId option) list" where
  "demo_calls = [(demo_sub ''s1'' ''a/b'' None, None), ((demo_sub ''s2'' ''a/b'' None)\<lparr>sb_conn := ConnectionId 2\<rparr>, None)]"

definition demo_full :: SubscriptionRegistry where
  "demo_full = registry_with_limits (limits_default\<lparr>max_total_subscriptions := 1\<rparr>)"

lemmas eval_tasks_registry = task_step_def index_insert_def add_accepted_def sub_task_def push_connection_def push_topic_def
  register_pattern_def insert_id_def demo_calls_def demo_full_def subscription_count_def new_entry_def

lemma demo_overtake:
  "\<exists>ts r. tasks_exec demo_ext [0, 1, 0, 1, 0, 1, 0, 0, 0, 0, 1, 1, 1, 1]
       (map (\<lambda>(sub, node). sub_task sub node) demo_calls, demo_full) = Some (ts, r) \<and>
     map st_pc ts = [Returned (Inr ()), Returned (Inr ())] \<and> subscription_count r = 2"
  by (simp add: eval_tasks_registry eval_all)

lemma concurrent_subscribes_settle_witness:
  "\<exists>ts r. tasks_exec demo_ext [0, 1, 0, 1, 0, 1, 0, 0, 0, 0, 1, 1, 1, 1]
       (map (\<lambda>(sub, node). sub_task sub node) demo_calls, demo_full) = Some (ts, r) \<and>
     max_total_subscriptions (fi_limits (rg_filter_index demo_full)) = 1 \<and>
     rg_inv demo_ext r \<and> live r (new_entry (demo_sub ''s1'' ''a/b'' None) None) \<and> subscription_count r = 2"
proof -
  let ?sched = "[0, 1, 0, 1, 0, 1, 0, 0, 0, 0, 1, 1, 1, 1] :: nat list"
  obtain ts r where run: "tasks_exec demo_ext ?sched (map (\<lambda>(sub, node). sub_task sub node) demo_calls, demo_full) = Some (ts, r)"
    and pcs: "map st_pc ts = [Returned (Inr ()), Returned (Inr ())]" and two: "subscription_count r = 2"
    using demo_overtake by (elim exE conjE) (rule that)
  have one: "max_total_subscriptions (fi_limits (rg_filter_index demo_full)) = 1"
    by (simp add: demo_full_def registry_with_limits_def fi_with_limits_def)
  have inv: "rg_inv demo_ext demo_full" unfolding demo_full_def by (rule rg_inv_new) simp
  have "\<forall>(sub, node)\<in>set demo_calls. parsed_pattern (sb_topic sub)"
    by (simp add: demo_calls_def demo_sub_def)
  moreover have "\<forall>(sub, node)\<in>set demo_calls. dm_get (rg_by_sub_id demo_full) (sb_conn sub, sub_raw (sb_sub sub)) = None"
    by (simp add: demo_full_def registry_with_limits_def demo_calls_def)
  moreover have "distinct (map (\<lambda>(sub, node). (sb_conn sub, sub_raw (sb_sub sub))) demo_calls)"
    by (simp add: demo_calls_def demo_sub_def)
  moreover have "subscription_count demo_full \<le> 1"
    by (simp add: demo_full_def registry_with_limits_def subscription_count_def dm_len_def)
  moreover have "1 + length demo_calls \<le> 2 ^ 32" by (simp add: demo_calls_def)
  moreover have "(1::nat) = unat (max_total_subscriptions (fi_limits (rg_filter_index demo_full)))" by (simp add: one)
  ultimately have res: "map (\<lambda>t. (st_sub t, st_node t)) ts = demo_calls"
    and fin: "settled ts \<longrightarrow> rg_inv demo_ext r \<and> (\<forall>e. live r e \<longleftrightarrow> live demo_full e \<or>
      (\<exists>t\<in>set ts. st_pc t = Returned (Inr ()) \<and> e = new_entry (st_sub t) (st_node t)))"
    using concurrent_subscribes_settle [OF inv _ _ _ _ _ _ run, where cap = 1] by blast+
  obtain t1 t2 where ts: "ts = [t1, t2]" using pcs by (cases ts; cases "tl ts") auto
  then have "settled ts" using pcs by (simp add: settled_def)
  with fin have "rg_inv demo_ext r" and "live r (new_entry (st_sub t1) (st_node t1))" using ts pcs by auto
  moreover have "st_sub t1 = demo_sub ''s1'' ''a/b'' None" "st_node t1 = None" using res by (simp_all add: ts demo_calls_def)
  ultimately show ?thesis using run one two by auto
qed

end
