(* ===== verification/Rt_Presence_Tasks.thy ===== *)
theory Rt_Presence_Tasks
  imports Rt_Presence
begin

text \<open>
  Concurrent presence: the calls that connection tasks make to the tracker of
  \<open>crates/realtime-engine/src/presence.rs\<close>, with \<open>untrack\<close> taken apart into its accesses (the removal of
  the connection, the reading of the members that remain, the removal of the topic when it is empty) and
  interleaved between any number of tasks.  The guard an \<open>untrack\<close> holds over its first two accesses
  excludes some of these interleavings; none is left out here.  Lemmas: a call alone is the function of
  \<open>Rt_Presence\<close>; in every interleaving the memberships of a connection are what its own calls make
  them, and when all calls have returned no empty topic is left.
\<close>

subsection \<open>The calls of a connection task\<close>

datatype presence_call = CallTrack string PresenceMember | CallUntrack string | CallRemoveConnection

text \<open>Where a task is: outside \<open>untrack\<close>; in it, with the connection removed; in it, with no member seen.
  The flag is \<open>removed\<close>.\<close>

datatype presence_pc = Outside | Counting string bool | Pruning string bool

text \<open>\<open>pt_topics\<close> are the topics \<open>remove_connection\<close> has still to visit, \<open>pt_answers\<close> what the calls returned.\<close>

record PresenceTask =
  pt_conn :: ConnectionId
  pt_calls :: "presence_call list"
  pt_topics :: "string list"
  pt_pc :: presence_pc
  pt_answers :: "(string \<times> PresenceMember list option) list"

definition presence_task :: "ConnectionId \<Rightarrow> presence_call list \<Rightarrow> PresenceTask" where
  "presence_task conn_id calls = \<lparr>pt_conn = conn_id, pt_calls = calls, pt_topics = [], pt_pc = Outside, pt_answers = []\<rparr>"

definition answer :: "string \<Rightarrow> PresenceMember list option \<Rightarrow> PresenceTask \<Rightarrow> PresenceTask" where
  "answer topic ms k = k\<lparr>pt_pc := Outside, pt_answers := pt_answers k @ [(topic, ms)]\<rparr>"

definition untrack_remove :: "string \<Rightarrow> PresenceTask \<Rightarrow> PresenceTracker \<Rightarrow> PresenceTask \<times> PresenceTracker" where
  "untrack_remove topic k p =
     (case dm_get p topic of
        None \<Rightarrow> (answer topic None k, p)
      | Some entry \<Rightarrow>
          (k\<lparr>pt_pc := Counting topic (dm_contains entry (conn_raw (pt_conn k)))\<rparr>,
           dm_insert topic (dm_remove (conn_raw (pt_conn k)) entry) p))"

definition untrack_count :: "string \<Rightarrow> bool \<Rightarrow> PresenceTask \<Rightarrow> PresenceTracker \<Rightarrow> PresenceTask" where
  "untrack_count topic removed k p =
     (let remaining = presence_members topic p
      in if remaining = [] then k\<lparr>pt_pc := Pruning topic removed\<rparr>
         else answer topic (if removed then Some remaining else None) k)"

definition untrack_prune :: "string \<Rightarrow> PresenceTracker \<Rightarrow> PresenceTracker" where
  "untrack_prune topic p =
     (case dm_get p topic of None \<Rightarrow> p | Some members \<Rightarrow> if members = [] then dm_remove topic p else p)"

text \<open>The next step of a task; \<open>None\<close> when it has made all its calls.\<close>

definition presence_step :: "PresenceTask \<Rightarrow> PresenceTracker \<Rightarrow> (PresenceTask \<times> PresenceTracker) option" where
  "presence_step k p =
     (case pt_pc k of
        Counting topic removed \<Rightarrow> Some (untrack_count topic removed k p, p)
      | Pruning topic removed \<Rightarrow> Some (answer topic (if removed then Some [] else None) k, untrack_prune topic p)
      | Outside \<Rightarrow>
          (case pt_topics k of
             topic # topics \<Rightarrow> Some (untrack_remove topic (k\<lparr>pt_topics := topics\<rparr>) p)
           | [] \<Rightarrow>
               (case pt_calls k of
                  [] \<Rightarrow> None
                | CallTrack topic member # calls \<Rightarrow>
                    let (ms, p) = presence_track topic (pt_conn k) member p
                    in Some (answer topic (Some ms) (k\<lparr>pt_calls := calls\<rparr>), p)
                | CallUntrack topic # calls \<Rightarrow> Some (untrack_remove topic (k\<lparr>pt_calls := calls\<rparr>) p)
                | CallRemoveConnection # calls \<Rightarrow> Some (k\<lparr>pt_calls := calls, pt_topics := dm_keys p\<rparr>, p))))"

text \<open>A schedule names the task that takes each step.\<close>

fun presence_exec :: "nat list \<Rightarrow> PresenceTask list \<times> PresenceTracker \<Rightarrow> (PresenceTask list \<times> PresenceTracker) option" where
  "presence_exec [] s = Some s"
| "presence_exec (i # is) (ks, p) =
     (if i < length ks
      then (case presence_step (ks ! i) p of None \<Rightarrow> None | Some (k, p) \<Rightarrow> presence_exec is (ks[i := k], p))
      else None)"

definition all_returned :: "PresenceTask list \<Rightarrow> bool" where
  "all_returned ks = (\<forall>k\<in>set ks. pt_pc k = Outside \<and> pt_topics k = [] \<and> pt_calls k = [])"

lemma answer_sel [simp]:
  "pt_conn (answer t ms k) = pt_conn k" "pt_calls (answer t ms k) = pt_calls k" "pt_topics (answer t ms k) = pt_topics k"
  "pt_pc (answer t ms k) = Outside"
  by (simp_all add: answer_def)

subsection \<open>A call alone\<close>

text \<open>\<open>untrack\<close> run to its end without interruption.\<close>

definition untrack_alone :: "string \<Rightarrow> PresenceTask \<Rightarrow> PresenceTracker \<Rightarrow> PresenceTask \<times> PresenceTracker" where
  "untrack_alone topic k p =
     (let (k, p) = untrack_remove topic k p
      in case pt_pc k of
           Counting t removed \<Rightarrow>
             let k = untrack_count t removed k p
             in (case pt_pc k of
                   Pruning t removed \<Rightarrow> (answer t (if removed then Some [] else None) k, untrack_prune t p)
                 | _ \<Rightarrow> (k, p))
         | _ \<Rightarrow> (k, p))"

lemma untrack_alone_untrack:
  assumes "pt_pc k = Outside"
  shows "untrack_alone topic k p =
    (case presence_untrack topic (pt_conn k) p of (ms, p) \<Rightarrow> (answer topic ms k, p))"
proof (cases "dm_get p topic")
  case None
  then show ?thesis using assms by (simp add: untrack_alone_def untrack_remove_def presence_untrack_def)
next
  case (Some entry)
  show ?thesis
    by (simp add: untrack_alone_def untrack_remove_def untrack_count_def untrack_prune_def presence_untrack_def
        presence_members_def answer_def Some Let_def)
qed

subsection \<open>Memberships\<close>

text \<open>What calls do to the memberships of their connection, and what a task has still to do to them.\<close>

fun own_after :: "presence_call list \<Rightarrow> (string \<rightharpoonup> PresenceMember) \<Rightarrow> (string \<rightharpoonup> PresenceMember)" where
  "own_after [] M = M"
| "own_after (CallTrack t m # cs) M = own_after cs (M(t \<mapsto> m))"
| "own_after (CallUntrack t # cs) M = own_after cs (M(t := None))"
| "own_after (CallRemoveConnection # cs) M = own_after cs Map.empty"

definition memberships :: "PresenceTracker \<Rightarrow> ConnectionId \<Rightarrow> (string \<rightharpoonup> PresenceMember)" where
  "memberships p c = (\<lambda>t. presence_at p t (conn_raw c))"

definition pending :: "PresenceTask \<Rightarrow> PresenceTracker \<Rightarrow> (string \<rightharpoonup> PresenceMember)" where
  "pending k p = own_after (pt_calls k) (memberships p (pt_conn k) |` (- set (pt_topics k)))"

lemma conn_raw_eq [simp]: "conn_raw a = conn_raw b \<longleftrightarrow> a = b"
  by (cases a; cases b) simp

lemma memberships_track [simp]:
  "memberships (snd (presence_track t c m p)) c' = (if c' = c then (memberships p c)(t \<mapsto> m) else memberships p c')"
  by (auto simp: memberships_def presence_at_def presence_track_def Let_def fun_eq_iff split: option.split)

lemma memberships_remove [simp]:
  "memberships (snd (untrack_remove t k p)) c =
     (if c = pt_conn k then (memberships p c)(t := None) else memberships p c)"
  by (auto simp: memberships_def presence_at_def untrack_remove_def fun_eq_iff split: option.split)

lemma memberships_prune [simp]: "memberships (untrack_prune t p) c = memberships p c"
  by (auto simp: memberships_def presence_at_def untrack_prune_def fun_eq_iff dm_get_eq_Nil split: option.split)

lemma untrack_remove_sel [simp]:
  "pt_conn (fst (untrack_remove t k p)) = pt_conn k" "pt_calls (fst (untrack_remove t k p)) = pt_calls k"
  "pt_topics (fst (untrack_remove t k p)) = pt_topics k"
  by (simp_all add: untrack_remove_def split: option.split)

lemma untrack_count_sel [simp]:
  "pt_conn (untrack_count t b k p) = pt_conn k" "pt_calls (untrack_count t b k p) = pt_calls k"
  "pt_topics (untrack_count t b k p) = pt_topics k"
  by (simp_all add: untrack_count_def Let_def)

lemma presence_step_cases:
  assumes "presence_step k p = Some (k', p')"
  obtains (count) t b where "pt_pc k = Counting t b" "k' = untrack_count t b k p" "p' = p"
  | (prune) t b where "pt_pc k = Pruning t b" "k' = answer t (if b then Some [] else None) k" "p' = untrack_prune t p"
  | (visit) t ts where "pt_pc k = Outside" "pt_topics k = t # ts"
      "k' = fst (untrack_remove t (k\<lparr>pt_topics := ts\<rparr>) p)" "p' = snd (untrack_remove t (k\<lparr>pt_topics := ts\<rparr>) p)"
  | (track) t m cs where "pt_pc k = Outside" "pt_topics k = []" "pt_calls k = CallTrack t m # cs"
      "k' = answer t (Some (fst (presence_track t (pt_conn k) m p))) (k\<lparr>pt_calls := cs\<rparr>)"
      "p' = snd (presence_track t (pt_conn k) m p)"
  | (untrack) t cs where "pt_pc k = Outside" "pt_topics k = []" "pt_calls k = CallUntrack t # cs"
      "k' = fst (untrack_remove t (k\<lparr>pt_calls := cs\<rparr>) p)" "p' = snd (untrack_remove t (k\<lparr>pt_calls := cs\<rparr>) p)"
  | (leave) cs where "pt_pc k = Outside" "pt_topics k = []" "pt_calls k = CallRemoveConnection # cs"
      "k' = k\<lparr>pt_calls := cs, pt_topics := dm_keys p\<rparr>" "p' = p"
proof (cases "pt_pc k")
  case Outside
  show ?thesis
  proof (cases "pt_topics k")
    case Nil
    show ?thesis
    proof (cases "pt_calls k")
      case (Cons call cs)
      with Outside Nil assms show ?thesis
        by (cases call) (auto simp: presence_step_def split_beta intro: track untrack leave)
    qed (use assms Outside Nil in \<open>simp add: presence_step_def\<close>)
  qed (use assms Outside in \<open>simp add: presence_step_def visit\<close>)
next
  case (Counting t b)
  with assms show ?thesis by (intro count) (auto simp: presence_step_def)
next
  case (Pruning t b)
  with assms show ?thesis by (intro prune) (auto simp: presence_step_def)
qed

lemma step_pending:
  assumes "presence_step k p = Some (k', p')"
  shows "pt_conn k' = pt_conn k \<and> pending k' p' = pending k p \<and>
    (\<forall>c. c \<noteq> pt_conn k \<longrightarrow> memberships p' c = memberships p c)"
  using assms
proof (cases rule: presence_step_cases)
  case (visit t ts)
  have "((memberships p (pt_conn k))(t := None)) |` (- set ts) = memberships p (pt_conn k) |` (- set (t # ts))"
    by (auto simp: restrict_map_def)
  then show ?thesis by (simp add: pending_def visit)
next
  case (leave cs)
  have "memberships p (pt_conn k) |` (- set (dm_keys p)) = Map.empty"
  proof
    fix t
    show "(memberships p (pt_conn k) |` (- set (dm_keys p))) t = None"
      using presence_at_key [of p t "conn_raw (pt_conn k)"]
      by (cases "presence_at p t (conn_raw (pt_conn k))") (auto simp: memberships_def restrict_map_def)
  qed
  with leave show ?thesis by (simp add: pending_def)
qed (simp_all add: pending_def)

lemma exec_pending:
  assumes "presence_exec is (ks, p) = Some (ks', p')" and "distinct (map pt_conn ks)"
  shows "map pt_conn ks' = map pt_conn ks \<and>
    (\<forall>j<length ks. pending (ks' ! j) p' = pending (ks ! j) p) \<and>
    (\<forall>c. c \<notin> pt_conn ` set ks \<longrightarrow> memberships p' c = memberships p c)"
  using assms
proof (induction "is" arbitrary: ks p)
  case (Cons i "is")
  then have i: "i < length ks" by (auto split: if_splits)
  with Cons.prems(1) obtain k p1 where st: "presence_step (ks ! i) p = Some (k, p1)"
    and rest: "presence_exec is (ks[i := k], p1) = Some (ks', p')"
    by (auto split: option.splits)
  note eff = step_pending [OF st]
  have conns: "map pt_conn (ks[i := k]) = map pt_conn ks"
    using eff i by (simp add: map_update list_update_same_conv)
  have IH: "map pt_conn ks' = map pt_conn ks \<and>
      (\<forall>j<length ks. pending (ks' ! j) p' = pending (ks[i := k] ! j) p1) \<and>
      (\<forall>c. c \<notin> pt_conn ` set ks \<longrightarrow> memberships p' c = memberships p1 c)"
    using Cons.IH [OF rest] Cons.prems(2) unfolding conns set_map [symmetric] by simp
  have "pending (ks[i := k] ! j) p1 = pending (ks ! j) p" if j: "j < length ks" for j
  proof (cases "j = i")
    case True
    with eff i show ?thesis by simp
  next
    case False
    then have "pt_conn (ks ! j) \<noteq> pt_conn (ks ! i)"
      using Cons.prems(2) i j by (simp add: distinct_conv_nth)
    with eff have "memberships p1 (pt_conn (ks ! j)) = memberships p (pt_conn (ks ! j))" by blast
    with False show ?thesis by (simp add: pending_def)
  qed
  moreover have "memberships p1 c = memberships p c" if "c \<notin> pt_conn ` set ks" for c
    using that eff i by (auto simp: image_iff)
  ultimately show ?case using IH by simp
qed simp

subsection \<open>Empty topics\<close>

text \<open>A topic without members is about to be looked at by the task that emptied it.\<close>

definition leaving :: "string \<Rightarrow> PresenceTask \<Rightarrow> bool" where
  "leaving t k = (case pt_pc k of Outside \<Rightarrow> False | Counting t' _ \<Rightarrow> t' = t | Pruning t' _ \<Rightarrow> t' = t)"

definition tracker_ok :: "PresenceTask list \<Rightarrow> PresenceTracker \<Rightarrow> bool" where
  "tracker_ok ks p =
     (dm_wf p \<and> (\<forall>t e. dm_get p t = Some e \<longrightarrow> dm_wf e \<and> (e = [] \<longrightarrow> (\<exists>k\<in>set ks. leaving t k))))"

lemma leaving_answer [simp]: "\<not> leaving t (answer t' ms k)"
  by (simp add: leaving_def)

lemma tracker_ok_step:
  assumes ok: "tracker_ok ks p" and i: "i < length ks" and wf: "dm_wf p'"
    and topics: "\<And>t e. dm_get p' t = Some e \<Longrightarrow>
      dm_get p t = Some e \<and> (leaving t (ks ! i) \<longrightarrow> leaving t k \<or> e \<noteq> []) \<or> dm_wf e \<and> (e = [] \<longrightarrow> leaving t k)"
  shows "tracker_ok (ks[i := k]) p'"
  unfolding tracker_ok_def
proof (intro conjI allI impI)
  fix t e assume e: "dm_get p' t = Some e"
  from topics [OF e] ok show "dm_wf e" unfolding tracker_ok_def by blast
  assume empty: "e = []"
  have here: "\<exists>k'\<in>set (ks[i := k]). leaving t k'" if "leaving t k"
    using that by (rule bexI) (rule set_update_memI [OF i])
  show "\<exists>k'\<in>set (ks[i := k]). leaving t k'"
  proof (cases "leaving t k")
    case False
    with topics [OF e] empty have old: "dm_get p t = Some e" and not_i: "\<not> leaving t (ks ! i)" by auto
    from ok old empty obtain k' where "k' \<in> set ks" "leaving t k'" unfolding tracker_ok_def by blast
    then obtain j where j: "j < length ks" "leaving t (ks ! j)" by (auto simp: in_set_conv_nth)
    with not_i have "j \<noteq> i" by blast
    with j have "ks[i := k] ! j = ks ! j" "j < length (ks[i := k])" by simp_all
    with nth_mem [of j "ks[i := k]"] have "ks ! j \<in> set (ks[i := k])" by simp
    with j(2) show ?thesis by (rule bexI)
  qed (use here in blast)
qed (rule wf)

lemma tracker_ok_remove:
  assumes ok: "tracker_ok ks p" and i: "i < length ks" and out: "pt_pc (ks ! i) = Outside" and k: "pt_pc k = Outside"
  shows "tracker_ok (ks[i := fst (untrack_remove t k p)]) (snd (untrack_remove t k p))"
proof (rule tracker_ok_step [OF ok i])
  show "dm_wf (snd (untrack_remove t k p))"
    using ok by (auto simp: tracker_ok_def untrack_remove_def split: option.split)
  fix s e assume e: "dm_get (snd (untrack_remove t k p)) s = Some e"
  have "\<not> leaving s (ks ! i)" using out by (simp add: leaving_def)
  with e ok show "dm_get p s = Some e \<and> (leaving s (ks ! i) \<longrightarrow> leaving s (fst (untrack_remove t k p)) \<or> e \<noteq> []) \<or>
      dm_wf e \<and> (e = [] \<longrightarrow> leaving s (fst (untrack_remove t k p)))"
    by (cases "s = t") (auto simp: untrack_remove_def tracker_ok_def leaving_def split: option.splits)
qed

lemma presence_step_ok:
  assumes ok: "tracker_ok ks p" and i: "i < length ks" and step: "presence_step (ks ! i) p = Some (k, p')"
  shows "tracker_ok (ks[i := k]) p'"
  using step
proof (cases rule: presence_step_cases)
  case (count t b)
  show ?thesis
  proof (rule tracker_ok_step [OF ok i])
    show "dm_wf p'" using ok count by (simp add: tracker_ok_def)
    fix s e assume e: "dm_get p' s = Some e"
    have "leaving s (ks ! i) \<longrightarrow> leaving s k \<or> e \<noteq> []"
      using e count by (auto simp: leaving_def untrack_count_def presence_members_def presence_values_def Let_def)
    with e count show "dm_get p s = Some e \<and> (leaving s (ks ! i) \<longrightarrow> leaving s k \<or> e \<noteq> []) \<or>
        dm_wf e \<and> (e = [] \<longrightarrow> leaving s k)" by simp
  qed
next
  case (prune t b)
  show ?thesis
  proof (rule tracker_ok_step [OF ok i])
    show "dm_wf p'" using ok prune by (auto simp: tracker_ok_def untrack_prune_def split: option.split)
    fix s e assume e: "dm_get p' s = Some e"
    then have "dm_get p s = Some e" "s = t \<Longrightarrow> e \<noteq> []"
      using prune by (auto simp: untrack_prune_def split: option.splits if_splits)
    moreover have "leaving s (ks ! i) \<longrightarrow> s = t" using prune by (simp add: leaving_def)
    ultimately show "dm_get p s = Some e \<and> (leaving s (ks ! i) \<longrightarrow> leaving s k \<or> e \<noteq> []) \<or>
        dm_wf e \<and> (e = [] \<longrightarrow> leaving s k)" by blast
  qed
next
  case (visit t ts)
  then show ?thesis using tracker_ok_remove [OF ok i, of "(ks ! i)\<lparr>pt_topics := ts\<rparr>" t] by simp
next
  case (untrack t cs)
  then show ?thesis using tracker_ok_remove [OF ok i, of "(ks ! i)\<lparr>pt_calls := cs\<rparr>" t] by simp
next
  case (track t m cs)
  show ?thesis
  proof (rule tracker_ok_step [OF ok i])
    show "dm_wf p'" using ok track by (simp add: tracker_ok_def presence_track_def Let_def)
    fix s e assume e: "dm_get p' s = Some e"
    have "\<not> leaving s (ks ! i)" using track by (simp add: leaving_def)
    with e ok track show "dm_get p s = Some e \<and> (leaving s (ks ! i) \<longrightarrow> leaving s k \<or> e \<noteq> []) \<or>
        dm_wf e \<and> (e = [] \<longrightarrow> leaving s k)"
      by (cases "s = t") (auto simp: presence_track_def tracker_ok_def Let_def split: option.splits)
  qed
next
  case (leave cs)
  show ?thesis
  proof (rule tracker_ok_step [OF ok i])
    show "dm_wf p'" using ok leave by (simp add: tracker_ok_def)
    fix s e assume "dm_get p' s = Some e"
    with leave show "dm_get p s = Some e \<and> (leaving s (ks ! i) \<longrightarrow> leaving s k \<or> e \<noteq> []) \<or>
        dm_wf e \<and> (e = [] \<longrightarrow> leaving s k)" by (simp add: leaving_def)
  qed
qed

lemma exec_ok: "presence_exec is (ks, p) = Some (ks', p') \<Longrightarrow> tracker_ok ks p \<Longrightarrow> tracker_ok ks' p'"
proof (induction "is" arbitrary: ks p)
  case (Cons i "is")
  then have i: "i < length ks" by (auto split: if_splits)
  with Cons.prems(1) obtain k p1 where st: "presence_step (ks ! i) p = Some (k, p1)"
    and rest: "presence_exec is (ks[i := k], p1) = Some (ks', p')"
    by (auto split: option.splits)
  show ?case by (rule Cons.IH [OF rest presence_step_ok [OF Cons.prems(2) i st]])
qed simp

lemma tracker_ok_returned: "tracker_ok ks p \<Longrightarrow> all_returned ks \<Longrightarrow> presence_inv p"
  by (fastforce simp: tracker_ok_def all_returned_def presence_inv_def leaving_def)

subsection \<open>Property\<close>

text \<open>C36: Any number of connections call \<open>track\<close>, \<open>untrack\<close> and \<open>remove_connection\<close> at the same time, interleaved
  in any order, the three accesses of \<open>untrack\<close> included.  Until all calls have returned some task can make
  its next step; the memberships of a connection that makes no calls never change; and when all have
  returned, the memberships of every connection are what its own calls, in their order, make of those it
  had, so no join is lost to another connection that empties and prunes the topic, and no empty topic is
  left behind.\<close>

theorem concurrent_presence_settles:
  assumes inv: "presence_inv p0" and apart: "distinct (map fst calls)"
    and run: "presence_exec schedule (map (\<lambda>(c, cs). presence_task c cs) calls, p0) = Some (ks, p)"
  shows "(\<not> all_returned ks \<longrightarrow> (\<exists>k\<in>set ks. presence_step k p \<noteq> None)) \<and>
    (\<forall>c. c \<notin> fst ` set calls \<longrightarrow> memberships p c = memberships p0 c) \<and>
    (all_returned ks \<longrightarrow> presence_inv p \<and> (\<forall>(c, cs)\<in>set calls. memberships p c = own_after cs (memberships p0 c)))"
proof -
  let ?ks0 = "map (\<lambda>(c, cs). presence_task c cs) calls"
  have conns: "map pt_conn ?ks0 = map fst calls" by (simp add: presence_task_def case_prod_unfold)
  then have set_conns: "pt_conn ` set ?ks0 = fst ` set calls" by (metis set_map)
  have start: "pending (?ks0 ! j) p0 = own_after (snd (calls ! j)) (memberships p0 (fst (calls ! j)))" if "j < length calls" for j
    using that by (simp add: pending_def presence_task_def case_prod_unfold restrict_map_def)
  have "distinct (map pt_conn ?ks0)" unfolding conns by (rule apart)
  from exec_pending [OF run this] have view: "map pt_conn ks = map pt_conn ?ks0"
    and pend: "\<And>j. j < length calls \<Longrightarrow> pending (ks ! j) p = pending (?ks0 ! j) p0"
    and others: "\<forall>c. c \<notin> fst ` set calls \<longrightarrow> memberships p c = memberships p0 c"
    unfolding set_conns by simp_all
  have len: "length ks = length calls" using arg_cong [OF view, of length] by simp
  have "\<exists>k\<in>set ks. presence_step k p \<noteq> None" if "\<not> all_returned ks"
  proof -
    from that obtain k where k: "k \<in> set ks" "\<not> (pt_pc k = Outside \<and> pt_topics k = [] \<and> pt_calls k = [])"
      unfolding all_returned_def by blast
    from k(2) have "presence_step k p \<noteq> None"
      by (auto simp: presence_step_def split_beta split: presence_pc.split list.split presence_call.split)
    with k(1) show ?thesis by blast
  qed
  moreover have "presence_inv p \<and> (\<forall>(c, cs)\<in>set calls. memberships p c = own_after cs (memberships p0 c))" if ret: "all_returned ks"
  proof
    have "tracker_ok ?ks0 p0" using inv by (auto simp: tracker_ok_def presence_inv_def)
    from tracker_ok_returned [OF exec_ok [OF run this] ret] show "presence_inv p" .
    show "\<forall>(c, cs)\<in>set calls. memberships p c = own_after cs (memberships p0 c)"
    proof clarify
      fix c cs assume "(c, cs) \<in> set calls"
      then obtain j where j: "j < length calls" "calls ! j = (c, cs)" by (auto simp: in_set_conv_nth)
      have "pt_conn (ks ! j) = c" using arg_cong [OF view, of "\<lambda>xs. xs ! j"] j len by (simp add: presence_task_def)
      moreover have "pt_calls (ks ! j) = []" "pt_topics (ks ! j) = []" using ret j(1) len by (simp_all add: all_returned_def)
      ultimately show "memberships p c = own_after cs (memberships p0 c)"
        using pend [OF j(1)] start [OF j(1)] j(2) by (simp add: pending_def restrict_map_def)
    qed
  qed
  ultimately show ?thesis using others by blast
qed

text \<open>Connection 2 joins between the moment connection 1 sees the topic empty and the moment it prunes it.\<close>

definition demo_presence_calls :: "(ConnectionId \<times> presence_call list) list" where
  "demo_presence_calls = [(ConnectionId 1, [CallTrack ''t'' (demo_pm 1), CallUntrack ''t'']),
     (ConnectionId 2, [CallTrack ''t'' (demo_pm 2)])]"

lemma demo_prune_race:
  "\<exists>ks p. presence_exec [0, 0, 0, 1, 0] (map (\<lambda>(c, cs). presence_task c cs) demo_presence_calls, []) = Some (ks, p) \<and>
     all_returned ks \<and> map pt_answers ks = [[(''t'', Some [demo_pm 1]), (''t'', Some [])], [(''t'', Some [demo_pm 2])]]"
  by (simp add: demo_presence_calls_def presence_task_def presence_step_def presence_track_def untrack_remove_def
      untrack_count_def untrack_prune_def presence_members_def presence_values_def answer_def all_returned_def Let_def
      dm_get_def dm_insert_def dm_remove_def dm_entry_def dm_contains_def)

lemma concurrent_presence_settles_witness:
  "\<exists>ks p. presence_exec [0, 0, 0, 1, 0] (map (\<lambda>(c, cs). presence_task c cs) demo_presence_calls, []) = Some (ks, p) \<and>
     all_returned ks \<and> presence_inv p \<and>
     memberships p (ConnectionId 1) ''t'' = None \<and> memberships p (ConnectionId 2) ''t'' = Some (demo_pm 2)"
proof -
  obtain ks p where run: "presence_exec [0, 0, 0, 1, 0] (map (\<lambda>(c, cs). presence_task c cs) demo_presence_calls, []) = Some (ks, p)"
    and ret: "all_returned ks"
    using demo_prune_race by (elim exE conjE) (rule that)
  have "presence_inv []" by (simp add: presence_inv_def)
  moreover have "distinct (map fst demo_presence_calls)" by (simp add: demo_presence_calls_def)
  ultimately have "presence_inv p \<and>
      (\<forall>(c, cs)\<in>set demo_presence_calls. memberships p c = own_after cs (memberships [] c))"
    using concurrent_presence_settles [OF _ _ run] ret by blast
  then show ?thesis using run ret by (simp add: demo_presence_calls_def)
qed

end
