(* ===== verification/Rt_Index_Tasks.thy ===== *)
theory Rt_Index_Tasks
  imports Rt_Index_Match
begin

text \<open>
  The filter index under concurrent use: \<open>add_subscription\<close> and \<open>remove_subscription\<close>
  (\<open>filter_index/mutate.rs\<close>) and the lookup of an event (\<open>filter_index/evaluate.rs\<close>) taken apart at the
  locks and maps they go through, and interleaved between any number of tasks.  One bitmap insertion per
  predicate and one evaluation are a step each.  Lemmas: a call alone is the function of
  \<open>Rt_Filter_Index\<close>; in no interleaving does a call panic or read outside the slab; and two runs show
  what a freed slot can do: a lookup under way hands the event to the subscription that took the slot,
  and a removal under way erases it from the bitmap.
\<close>

subsection \<open>The steps\<close>

text \<open>The predicates of a filter in the order \<open>index_filter\<close> visits them.\<close>

primrec filter_parts :: "FilterExpr \<Rightarrow> FilterExpr list" where
  "filter_parts (FEq f v) = [FEq f v]"
| "filter_parts (FIn f vs) = [FIn f vs]"
| "filter_parts (FAnd l r) = filter_parts l @ filter_parts r"
| "filter_parts (FOr l r) = filter_parts l @ filter_parts r"
| "filter_parts (FNot e) = [FNot e]"
| "filter_parts (FNe f v) = [FNe f v]"

lemma index_filter_parts: "index_filter x pk i f st = fold (index_filter x pk i) (filter_parts f) st"
  by (induction f arbitrary: st) simp_all

datatype index_outcome = Added "(RealtimeError, unit) result" | Removed | Matched "match list"

text \<open>What a call is about to do: \<open>add_subscription\<close>, \<open>remove_subscription\<close>, and the lookup.\<close>

datatype index_call =
    Adding Subscription "NodeId option"
  | Popping Subscription "NodeId option"
  | Writing Subscription "NodeId option" u32
  | Pushing Subscription "NodeId option"
  | Patterning Subscription u32
  | Slotting Subscription u32
  | Unfiltering Subscription u32
  | Indexing Subscription u32 "FilterExpr list" "string list"
  | Removing Subscription
  | Clearing Subscription u32
  | Freeing Subscription u32
  | Unlisting Subscription u32
  | Unkeying Subscription u32
  | Unsetting u32 "string list" nat
  | Matching EventEnvelope
  | Evaluating EventEnvelope bool
  | Reading EventEnvelope "json option" bool bitmap
  | Finished index_outcome

fun add_step :: "Externals \<Rightarrow> index_call \<Rightarrow> FilterIndex \<Rightarrow> (index_call \<times> FilterIndex) option" where
  "add_step x (Adding sub node) fi =
     (case check_limits (pattern_str (sb_topic sub)) sub fi of
        (fi, Inl e) \<Rightarrow> Some (Finished (Added (Inl e)), fi)
      | (fi, Inr _) \<Rightarrow> Some (Popping sub node, fi))"
| "add_step x (Popping sub node) fi =
     (if fi_free fi = [] then Some (Pushing sub node, fi)
      else Some (Writing sub node (last (fi_free fi)), fi\<lparr>fi_free := butlast (fi_free fi)\<rparr>))"
| "add_step x (Writing sub node slot_id) fi =
     (if unat slot_id < length (fi_slots fi)
      then Some (Patterning sub slot_id, fi\<lparr>fi_slots := (fi_slots fi)[unat slot_id := Some (dispatch_slot_of sub node)]\<rparr>)
      else None)"
| "add_step x (Pushing sub node) fi =
     (let slot_id = (if length (fi_slots fi) < 2 ^ 32 then of_nat (length (fi_slots fi)) else - 1)
      in Some (Patterning sub slot_id, fi\<lparr>fi_slots := fi_slots fi @ [Some (dispatch_slot_of sub node)]\<rparr>))"
| "add_step x (Patterning sub slot_id) fi =
     (let fi = fi_map_stats (\<lambda>s. s\<lparr>slots_allocated := slots_allocated s + 1\<rparr>) fi
      in Some (Slotting sub slot_id,
           fi\<lparr>fi_patterns := dm_or_insert (pattern_str (sb_topic sub)) (sb_topic sub) (fi_patterns fi)\<rparr>))"
| "add_step x (Slotting sub slot_id) fi =
     Some (case sb_filter sub of
             Some flt \<Rightarrow> Indexing sub slot_id (filter_parts flt) []
           | None \<Rightarrow> Unfiltering sub slot_id,
           fi\<lparr>fi_slot_by_sub := dm_insert (sb_conn sub, sb_sub sub) slot_id (fi_slot_by_sub fi)\<rparr>)"
| "add_step x (Unfiltering sub slot_id) fi =
     Some (Indexing sub slot_id [] [],
       fi\<lparr>fi_unfiltered := dm_entry (pattern_str (sb_topic sub)) [] (bm_insert slot_id) (fi_unfiltered fi)\<rparr>)"
| "add_step x (Indexing sub slot_id (part # parts) keys) fi =
     (let st = index_filter x (pattern_str (sb_topic sub)) slot_id part (fi, keys)
      in Some (Indexing sub slot_id parts (snd st), fst st))"
| "add_step x (Indexing sub slot_id [] keys) fi =
     Some (Finished (Added (Inr ())), fi\<lparr>fi_sub_keys := dm_insert (sb_conn sub, sb_sub sub) keys (fi_sub_keys fi)\<rparr>)"
| "add_step x _ fi = None"

fun remove_step :: "index_call \<Rightarrow> FilterIndex \<Rightarrow> (index_call \<times> FilterIndex) option" where
  "remove_step (Removing sub) fi =
     (case dm_get (fi_slot_by_sub fi) (sb_conn sub, sb_sub sub) of
        None \<Rightarrow> Some (Finished Removed, fi)
      | Some slot_id \<Rightarrow>
          Some (Clearing sub slot_id, fi\<lparr>fi_slot_by_sub := dm_remove (sb_conn sub, sb_sub sub) (fi_slot_by_sub fi)\<rparr>))"
| "remove_step (Clearing sub slot_id) fi =
     Some (Freeing sub slot_id, fi\<lparr>fi_slots := (fi_slots fi)[unat slot_id := None]\<rparr>)"
| "remove_step (Freeing sub slot_id) fi =
     Some (Unlisting sub slot_id, fi\<lparr>fi_free := fi_free fi @ [slot_id]\<rparr>)"
| "remove_step (Unlisting sub slot_id) fi =
     (let fi = fi_map_stats (\<lambda>s. s\<lparr>slots_freed := slots_freed s + 1\<rparr>) fi
      in Some (Unkeying sub slot_id,
           fi\<lparr>fi_unfiltered := dm_modify (pattern_str (sb_topic sub)) (bm_remove slot_id) (fi_unfiltered fi)\<rparr>))"
| "remove_step (Unkeying sub slot_id) fi =
     (case dm_get (fi_sub_keys fi) (sb_conn sub, sb_sub sub) of
        None \<Rightarrow> Some (Finished Removed, fi)
      | Some keys \<Rightarrow>
          Some (Unsetting slot_id keys (length keys), fi\<lparr>fi_sub_keys := dm_remove (sb_conn sub, sb_sub sub) (fi_sub_keys fi)\<rparr>))"
| "remove_step (Unsetting slot_id (k # keys) removed) fi =
     Some (Unsetting slot_id keys removed, fi\<lparr>fi_index := dm_modify k (bm_remove slot_id) (fi_index fi)\<rparr>)"
| "remove_step (Unsetting slot_id [] removed) fi =
     Some (Finished Removed,
       fi_map_stats (\<lambda>s. s\<lparr>composite_key_count := composite_key_count s - of_nat removed\<rparr>) fi)"
| "remove_step _ fi = None"

text \<open>The slab is read under its lock from the first slot to the last, so the dispatch loop is one step.\<close>

fun match_step :: "Externals \<Rightarrow> Clock \<Rightarrow> index_call \<Rightarrow> FilterIndex \<Rightarrow> (index_call \<times> FilterIndex) option" where
  "match_step x ck (Matching event) fi =
     (let (open, fi) = fi_is_open ck fi in Some (Evaluating event open, fi))"
| "match_step x ck (Evaluating event open) fi =
     (if open then Some (Reading event None True (evaluate_unfiltered_only fi event), fi)
      else
        let parsed = parse_if_fields x fi event;
            bitmap = evaluate_inner x fi event parsed
        in if bitmap = [] then Some (Finished (Matched []), fi_record ck 0 fi)
           else Some (Reading event parsed False bitmap, fi))"
| "match_step x ck (Reading event parsed open bitmap) fi =
     (if open then
        do { (count, matches) \<leftarrow> dispatch_bitmap fi push_match bitmap (0, []);
             Some (Finished (Matched matches), fi_record ck (of_nat (length matches)) (fi_bypassed fi)) }
      else
        do { (count, matches) \<leftarrow> match_loop x fi event parsed push_match bitmap None (0, []);
             Some (Finished (Matched matches), fi_record ck (of_nat (length matches)) fi) })"
| "match_step x ck _ fi = None"

definition index_step :: "Externals \<Rightarrow> Clock \<Rightarrow> index_call \<Rightarrow> FilterIndex \<Rightarrow> (index_call \<times> FilterIndex) option" where
  "index_step x ck call fi =
     (case add_step x call fi of
        Some r \<Rightarrow> Some r
      | None \<Rightarrow> (case remove_step call fi of Some r \<Rightarrow> Some r | None \<Rightarrow> match_step x ck call fi))"

definition call_finished :: "index_call \<Rightarrow> bool" where
  "call_finished call = (case call of Finished _ \<Rightarrow> True | _ \<Rightarrow> False)"

text \<open>A schedule names the call that takes each step, and the clock it reads.\<close>

fun index_exec ::
    "Externals \<Rightarrow> (nat \<times> Clock) list \<Rightarrow> index_call list \<times> FilterIndex \<Rightarrow> (index_call list \<times> FilterIndex) option" where
  "index_exec x [] s = Some s"
| "index_exec x ((i, ck) # is) (calls, fi) =
     (if i < length calls
      then (case index_step x ck (calls ! i) fi of
              None \<Rightarrow> None
            | Some (call, fi) \<Rightarrow> index_exec x is (calls[i := call], fi))
      else None)"

subsection \<open>A call alone\<close>

fun call_stage :: "index_call \<Rightarrow> nat" where
  "call_stage (Adding sub node) = 7" | "call_stage (Popping sub node) = 6" | "call_stage (Writing sub node i) = 5"
| "call_stage (Pushing sub node) = 5" | "call_stage (Patterning sub i) = 4" | "call_stage (Slotting sub i) = 3"
| "call_stage (Unfiltering sub i) = 2" | "call_stage (Indexing sub i parts keys) = 1"
| "call_stage (Removing sub) = 6" | "call_stage (Clearing sub i) = 5" | "call_stage (Freeing sub i) = 4"
| "call_stage (Unlisting sub i) = 3" | "call_stage (Unkeying sub i) = 2" | "call_stage (Unsetting i keys n) = 1"
| "call_stage (Matching event) = 3" | "call_stage (Evaluating event open) = 2" | "call_stage (Reading event parsed open bm) = 1"
| "call_stage (Finished r) = 0"

fun call_rest :: "index_call \<Rightarrow> nat" where
  "call_rest (Indexing sub i parts keys) = length parts"
| "call_rest (Unsetting i keys n) = length keys"
| "call_rest _ = 0"

lemma index_step_smaller:
  assumes "index_step x ck call fi = Some (call', fi')"
  shows "(call', call) \<in> measures [call_stage, call_rest]"
  using assms
proof (cases call)
  case (Indexing sub i parts keys)
  with assms show ?thesis by (cases parts) (auto simp: index_step_def Let_def)
next
  case (Unsetting i keys n)
  with assms show ?thesis by (cases keys) (auto simp: index_step_def Let_def)
qed (auto simp: index_step_def Let_def split_beta split: sum.splits option.splits if_splits Option.bind_splits)

function call_run :: "Externals \<Rightarrow> Clock \<Rightarrow> index_call \<Rightarrow> FilterIndex \<Rightarrow> (index_outcome \<times> FilterIndex) option" where
  "call_run x ck call fi =
     (case index_step x ck call fi of
        Some (call, fi) \<Rightarrow> call_run x ck call fi
      | None \<Rightarrow> (case call of Finished r \<Rightarrow> Some (r, fi) | _ \<Rightarrow> None))"
  by auto
termination
  by (relation "inv_image (measures [call_stage, call_rest]) (\<lambda>(x, ck, call, fi). call)")
    (auto dest: index_step_smaller)

declare call_run.simps [simp del]

lemma call_run_step: "index_step x ck call fi = Some (call', fi') \<Longrightarrow> call_run x ck call fi = call_run x ck call' fi'"
  by (subst call_run.simps) simp

lemma call_run_Finished: "call_run x ck (Finished r) fi = Some (r, fi)"
  by (subst call_run.simps) (simp add: index_step_def)

lemma run_Indexing:
  "call_run x ck (Indexing sub i parts keys) fi =
     (let st = fold (index_filter x (pattern_str (sb_topic sub)) i) parts (fi, keys)
      in Some (Added (Inr ()), (fst st)\<lparr>fi_sub_keys := dm_insert (sb_conn sub, sb_sub sub) (snd st) (fi_sub_keys (fst st))\<rparr>))"
proof (induction parts arbitrary: keys fi)
  case Nil
  show ?case by (subst call_run.simps) (simp add: index_step_def call_run_Finished)
next
  case (Cons part parts)
  show ?case by (subst call_run.simps) (simp add: index_step_def Let_def Cons.IH)
qed

lemma run_Patterning:
  "call_run x ck (Patterning sub i) fi = Some (Added (Inr ()), add_accepted x sub i fi)"
  by (cases "sb_filter sub")
    (simp_all add: call_run.simps [where call = "Patterning sub i"] call_run.simps [where call = "Slotting sub i"]
      call_run.simps [where call = "Unfiltering sub i"] index_step_def run_Indexing add_accepted_def Let_def
      index_filter_parts [symmetric])

lemma fi_update_slots:
  "fi_free fi = [] \<Longrightarrow> fi\<lparr>fi_slots := s, fi_free := []\<rparr> = fi\<lparr>fi_slots := s\<rparr>"
  "fi\<lparr>fi_free := f, fi_slots := s\<rparr> = fi\<lparr>fi_slots := s, fi_free := f\<rparr>"
  "fi\<lparr>fi_slots := fi_slots fi, fi_free := f\<rparr> = fi\<lparr>fi_free := f\<rparr>"
  by (cases fi; simp)+

lemma run_Popping:
  "call_run x ck (Popping sub node) fi =
     map_option (\<lambda>(i, fi). (Added (Inr ()), add_accepted x sub i fi)) (alloc_slot (dispatch_slot_of sub node) fi)"
  by (cases "fi_free fi = []")
    (simp_all add: call_run.simps [where call = "Popping sub node"] call_run.simps [where call = "Pushing sub node"]
      call_run.simps [where call = "Writing sub node (last (fi_free fi))"]
      index_step_def run_Patterning alloc_slot_eq slab_alloc_def Let_def fi_update_slots)

lemma run_Adding:
  "call_run x ck (Adding sub node) fi = map_option (\<lambda>(fi, res). (Added res, fi)) (add_subscription x sub node fi)"
proof -
  obtain fi1 lim where lim: "check_limits (pattern_str (sb_topic sub)) sub fi = (fi1, lim)" by fastforce
  then show ?thesis
    by (cases lim) (simp_all add: call_run.simps [where call = "Adding sub node"] index_step_def add_subscription_eq
        call_run_Finished run_Popping option.map_comp o_def case_prod_unfold)
qed

lemma run_Unsetting:
  "call_run x ck (Unsetting i keys n) fi =
     Some (Removed, fi_map_stats (\<lambda>s. s\<lparr>composite_key_count := composite_key_count s - of_nat n\<rparr>) (remove_keys i keys fi))"
proof (induction keys arbitrary: fi)
  case Nil
  show ?case by (subst call_run.simps) (simp add: index_step_def call_run_Finished remove_keys_def)
next
  case (Cons k keys)
  show ?case by (subst call_run.simps) (simp add: index_step_def Cons.IH remove_keys_def)
qed

lemma run_Removing: "call_run x ck (Removing sub) fi = Some (Removed, remove_subscription sub fi)"
proof (cases "dm_get (fi_slot_by_sub fi) (sb_conn sub, sb_sub sub)")
  case None
  then show ?thesis
    by (simp add: call_run.simps [where call = "Removing sub"] index_step_def call_run_Finished remove_subscription_def)
next
  case (Some i)
  have free: "free_slot i fi = fi\<lparr>fi_slots := (fi_slots fi)[unat i := None], fi_free := fi_free fi @ [i]\<rparr>" for fi
    by (cases "unat i < length (fi_slots fi)") (simp_all add: free_slot_def slab_free_def Let_def fi_update_slots list_update_beyond not_less)
  note run = call_run.simps [where call = "Removing sub"] call_run.simps [where call = "Clearing sub i"]
    call_run.simps [where call = "Freeing sub i"] call_run.simps [where call = "Unlisting sub i"]
    call_run.simps [where call = "Unkeying sub i"]
  show ?thesis
    by (cases "dm_get (fi_sub_keys fi) (sb_conn sub, sb_sub sub)")
      (simp_all add: run Some index_step_def run_Unsetting call_run_Finished remove_subscription_def Let_def free)
qed

lemma run_Reading:
  "call_run x ck (Reading event parsed open bm) fi =
     (if open then
        map_option (\<lambda>(count, ms). (Matched ms, fi_record ck (of_nat (length ms)) (fi_bypassed fi)))
          (dispatch_bitmap fi push_match bm (0, []))
      else
        map_option (\<lambda>(count, ms). (Matched ms, fi_record ck (of_nat (length ms)) fi))
          (match_loop x fi event parsed push_match bm None (0, [])))"
  by (cases "dispatch_bitmap fi push_match bm (0, [])"; cases "match_loop x fi event parsed push_match bm None (0, [])")
    (auto simp: call_run.simps [where call = "Reading event parsed open bm"] index_step_def call_run_Finished)

lemma run_Matching:
  "call_run x ck (Matching event) fi = map_option (\<lambda>(ms, fi). (Matched ms, fi)) (fi_collect_matches x ck event fi)"
proof -
  obtain bypass fi1 where br: "fi_is_open ck fi = (bypass, fi1)" by fastforce
  have "call_run x ck (Matching event) fi = call_run x ck (Evaluating event bypass) fi1"
    by (rule call_run_step) (simp add: index_step_def br)
  also have "\<dots> = map_option (\<lambda>(ms, fi). (Matched ms, fi)) (fi_collect_matches x ck event fi)"
    by (cases "dispatch_bitmap fi1 push_match (evaluate_unfiltered_only fi1 event) (0, [])";
        cases "match_loop x fi1 event (parse_if_fields x fi1 event) push_match
          (evaluate_inner x fi1 event (parse_if_fields x fi1 event)) None (0, [])")
      (auto simp: call_run.simps [where call = "Evaluating event bypass"] index_step_def run_Reading call_run_Finished
        fi_collect_matches_def br Let_def)
  finally show ?thesis .
qed

subsection \<open>No access outside the slab\<close>

text \<open>What a call holds: a slot of the slab, or a bitmap of slots.\<close>

fun held_slots :: "index_call \<Rightarrow> u32 list" where
  "held_slots (Writing sub node i) = [i]"
| "held_slots (Patterning sub i) = [i]"
| "held_slots (Slotting sub i) = [i]"
| "held_slots (Unfiltering sub i) = [i]"
| "held_slots (Indexing sub i parts keys) = [i]"
| "held_slots (Clearing sub i) = [i]"
| "held_slots (Freeing sub i) = [i]"
| "held_slots (Unlisting sub i) = [i]"
| "held_slots (Unkeying sub i) = [i]"
| "held_slots (Unsetting i keys n) = [i]"
| "held_slots (Reading event parsed open bm) = bm"
| "held_slots call = []"

definition call_in_bounds :: "nat \<Rightarrow> index_call \<Rightarrow> bool" where
  "call_in_bounds n call = (\<forall>i\<in>set (held_slots call). unat i < n)"

lemma call_in_bounds_mono: "call_in_bounds n call \<Longrightarrow> n \<le> n' \<Longrightarrow> call_in_bounds n' call"
  by (force simp: call_in_bounds_def)

lemma fi_safe_frame [simp]:
  "fi_safe (fi\<lparr>fi_patterns := ps\<rparr>) = fi_safe fi" "fi_safe (fi\<lparr>fi_sub_keys := sk\<rparr>) = fi_safe fi"
  "fi_safe (fi_map_stats g fi) = fi_safe fi" "fi_safe (fi\<lparr>fi_fields := fs\<rparr>) = fi_safe fi"
  "fi_safe (fi\<lparr>fi_breaker := b\<rparr>) = fi_safe fi"
  by (simp_all add: fi_safe_def)

definition safe_step :: "FilterIndex \<Rightarrow> index_call \<Rightarrow> FilterIndex \<Rightarrow> bool" where
  "safe_step fi call' fi' =
     (fi_safe fi' \<and> length (fi_slots fi) \<le> length (fi_slots fi') \<and> call_in_bounds (length (fi_slots fi')) call')"

lemma safe_step_same:
  "fi_safe fi \<Longrightarrow> same_index fi fi' \<Longrightarrow> held_slots call' = [] \<Longrightarrow> safe_step fi call' fi'"
  by (simp add: safe_step_def call_in_bounds_def same_index_safe) (simp add: same_index_def)

lemma fi_safe_slots:
  "fi_safe fi \<Longrightarrow> length (fi_slots fi) \<le> length slots \<Longrightarrow> \<forall>i\<in>set free. unat i < length slots \<Longrightarrow>
   fi_safe (fi\<lparr>fi_slots := slots, fi_free := free\<rparr>)"
  by (force simp: fi_safe_def ids_below_def)

lemma fresh_slot_bound: "unat (if n < 2 ^ 32 then of_nat n else - 1 :: u32) < Suc n"
proof (cases "n < 2 ^ 32")
  case False
  then show ?thesis using unat_word_below [of "- 1 :: u32"] by simp
qed (simp add: unat_of_nat_u32)

lemma add_step_safe:
  assumes safe: "fi_safe fi" and held: "call_in_bounds (length (fi_slots fi)) call" and step: "add_step x call fi = Some (call', fi')"
  shows "safe_step fi call' fi'"
proof (cases call)
  case (Adding sub node)
  show ?thesis
  proof (cases rule: check_limits_cases [where pk = "pattern_str (sb_topic sub)" and sub = sub and fi = fi])
    case ok
    with Adding step safe show ?thesis by (auto intro: safe_step_same)
  next
    case (rejected r)
    then have "call' = Finished (Added (Inl (CapacityExceeded r)))" "fi' = fst (reject_capacity r fi)"
      using Adding step by (simp_all add: reject_capacity_def)
    with safe show ?thesis by (simp add: safe_step_same)
  qed
next
  case (Popping sub node)
  then show ?thesis
    using step safe fi_safe_slots [OF safe, of "fi_slots fi" "butlast (fi_free fi)"]
    by (cases "fi_free fi = []")
      (auto simp: safe_step_def call_in_bounds_def fi_update_slots fi_safe_def dest: in_set_butlastD split: if_splits)
next
  case (Pushing sub node)
  with step safe fresh_slot_bound [of "length (fi_slots fi)"] show ?thesis
    by (force simp: safe_step_def call_in_bounds_def fi_safe_def ids_below_def Let_def)
next
  case (Indexing sub i parts keys)
  with step safe held show ?thesis
    by (cases parts) (auto simp: safe_step_def call_in_bounds_def fi_safe_def ids_below_def Let_def index_filter_index index_filter_unfiltered split: if_splits)
qed (use step safe held in \<open>auto simp: safe_step_def call_in_bounds_def fi_safe_def ids_below_def Let_def split: if_splits option.splits\<close>)

lemma remove_step_safe:
  assumes safe: "fi_safe fi" and held: "call_in_bounds (length (fi_slots fi)) call" and step: "remove_step call fi = Some (call', fi')"
  shows "safe_step fi call' fi'"
proof (cases call)
  case (Unsetting i keys n)
  with step safe held show ?thesis
    by (cases keys) (auto simp: safe_step_def call_in_bounds_def fi_safe_def ids_below_def split: if_splits)
qed (use step safe held in \<open>auto simp: safe_step_def call_in_bounds_def fi_safe_def ids_below_def Let_def split: if_splits option.splits\<close>)

lemma match_step_safe:
  assumes safe: "fi_safe fi" and step: "match_step x ck call fi = Some (call', fi')"
  shows "safe_step fi call' fi'"
proof (cases call)
  case (Matching event)
  then have "fi' = snd (fi_is_open ck fi)" "held_slots call' = []" using step by (auto simp: split_beta)
  then show ?thesis using safe_step_same [OF safe] same_index_steps(1) by simp
next
  case (Evaluating event bypass)
  show ?thesis
  proof (cases "held_slots call' = []")
    case True
    with Evaluating step safe show ?thesis
      by (intro safe_step_same) (auto simp: Let_def split: if_splits)
  next
    case False
    with Evaluating step safe evaluate_below [OF safe] show ?thesis
      by (auto simp: safe_step_def call_in_bounds_def bits_below_def Let_def split: if_splits)
  qed
next
  case (Reading event parsed bypass bm)
  obtain n where "fi' = fi_record ck n (fi_bypassed fi) \<or> fi' = fi_record ck n fi"
    using step Reading by (auto split: if_splits Option.bind_splits)
  then have "same_index fi fi'" using same_index_trans [OF same_index_steps(4,2)] by auto
  moreover have "held_slots call' = []" using step Reading by (auto split: if_splits Option.bind_splits)
  ultimately show ?thesis by (rule safe_step_same [OF safe])
qed (use step in simp_all)

lemma index_step_safe:
  assumes "fi_safe fi" and "call_in_bounds (length (fi_slots fi)) call" and "index_step x ck call fi = Some (call', fi')"
  shows "safe_step fi call' fi'"
  using assms add_step_safe remove_step_safe match_step_safe
  by (auto simp: index_step_def split: option.splits)

text \<open>The three ways a step could fail (a slot written or read out of range) do not arise.\<close>

lemma index_step_total:
  assumes "call_in_bounds (length (fi_slots fi)) call" and "\<not> call_finished call"
  shows "index_step x ck call fi \<noteq> None"
proof (cases call)
  case (Indexing sub i parts keys)
  then show ?thesis by (cases parts) (simp_all add: index_step_def Let_def)
next
  case (Unsetting i keys n)
  then show ?thesis by (cases keys) (simp_all add: index_step_def)
next
  case (Reading event parsed bypass bm)
  then have "bits_below fi bm" using assms(1) by (simp add: call_in_bounds_def bits_below_def)
  then show ?thesis
    using Reading dispatch_in_bounds [of fi bm push_match "(0, [])"] match_loop_in_bounds [of fi bm x event parsed push_match "(0, [])"]
    by (auto simp: index_step_def split: Option.bind_split)
qed (use assms in \<open>auto simp: index_step_def call_in_bounds_def call_finished_def Let_def split: sum.split option.split prod.split\<close>)

lemma index_exec_safe:
  assumes "index_exec x schedule (calls, fi) = Some (calls', fi')"
    and "fi_safe fi" and "\<forall>call\<in>set calls. call_in_bounds (length (fi_slots fi)) call"
  shows "fi_safe fi' \<and> (\<forall>call\<in>set calls'. call_in_bounds (length (fi_slots fi')) call)"
  using assms
proof (induction schedule arbitrary: calls fi)
  case (Cons ick schedule)
  obtain i ck where ick: "ick = (i, ck)" by (cases ick)
  with Cons.prems(1) have i: "i < length calls" by (auto split: if_splits)
  with Cons.prems(1) ick obtain call fi1 where st: "index_step x ck (calls ! i) fi = Some (call, fi1)"
    and rest: "index_exec x schedule (calls[i := call], fi1) = Some (calls', fi')"
    by (auto split: option.splits)
  have "safe_step fi call fi1" by (rule index_step_safe [OF Cons.prems(2) _ st]) (use Cons.prems(3) i in simp)
  then have s: "fi_safe fi1" "length (fi_slots fi) \<le> length (fi_slots fi1)" "call_in_bounds (length (fi_slots fi1)) call"
    by (simp_all add: safe_step_def)
  have "\<forall>c\<in>set (calls[i := call]). call_in_bounds (length (fi_slots fi1)) c"
    using Cons.prems(3) s call_in_bounds_mono by (auto dest!: set_update_subset_insert [THEN subsetD])
  from Cons.IH [OF rest s(1) this] show ?case .
qed simp

subsection \<open>Properties\<close>

definition starting_call :: "index_call \<Rightarrow> bool" where
  "starting_call call = (case call of Adding _ _ \<Rightarrow> True | Removing _ \<Rightarrow> True | Matching _ \<Rightarrow> True | _ \<Rightarrow> False)"

text \<open>C11: Any number of \<open>add_subscription\<close>, \<open>remove_subscription\<close> and lookups run at the same time on an index
  whose stored identifiers lie in the slab, interleaved step by step under any schedule.  No call can
  get stuck: \<open>slots[id]\<close> in \<open>alloc_slot\<close> does not panic, and the unchecked reads of the dispatch loops, which
  happen some time after the bitmap was computed, are inside the slab.  The identifiers that are stored,
  and those a call holds, stay inside it.\<close>

theorem concurrent_index_in_bounds:
  assumes "fi_safe fi0" and "\<forall>call\<in>set calls. starting_call call"
    and "index_exec x schedule (calls, fi0) = Some (calls', fi)"
  shows "fi_safe fi \<and> (\<forall>call\<in>set calls'. (\<forall>i\<in>set (held_slots call). unat i < length (fi_slots fi)) \<and>
    (\<forall>ck. \<not> call_finished call \<longrightarrow> index_step x ck call fi \<noteq> None))"
proof -
  have "\<forall>call\<in>set calls. call_in_bounds (length (fi_slots fi0)) call"
  proof
    fix call assume "call \<in> set calls"
    with assms(2) have "starting_call call" by blast
    then show "call_in_bounds (length (fi_slots fi0)) call"
      by (cases call) (simp_all add: starting_call_def call_in_bounds_def)
  qed
  with index_exec_safe [OF assms(3,1)] have "fi_safe fi" "\<forall>call\<in>set calls'. call_in_bounds (length (fi_slots fi)) call" by blast+
  with index_step_total [of fi _ x] show ?thesis unfolding call_in_bounds_def by blast
qed

text \<open>Connection 1 holds a subscription; its removal, a new subscription of connection 2, and a lookup.\<close>

definition demo_held :: FilterIndex where
  "demo_held = fst (the (add_subscription demo_ext (demo_sub ''s1'' ''a/b'' None) None (fi_with_limits limits_default)))"

definition demo_newcomer :: "string \<Rightarrow> Subscription" where
  "demo_newcomer topic = (demo_sub ''s2'' topic None)\<lparr>sb_conn := ConnectionId 2\<rparr>"

definition demo_race :: "string \<Rightarrow> index_call list" where
  "demo_race topic = [Removing (demo_sub ''s1'' ''a/b'' None), Adding (demo_newcomer topic) None,
     Matching (demo_event ''a/b'' ''n42'')]"

definition turns :: "nat list \<Rightarrow> (nat \<times> Clock) list" where
  "turns = map (\<lambda>i. (i, demo_clock))"

lemmas eval_race = demo_held_def demo_race_def demo_newcomer_def turns_def index_step_def fi_map_stats_def

subsection \<open>A slot changes hands\<close>

lemma index_exec_append:
  "index_exec x (s1 @ s2) st = (case index_exec x s1 st of None \<Rightarrow> None | Some st \<Rightarrow> index_exec x s2 st)"
proof (induction s1 arbitrary: st)
  case (Cons ick s1)
  obtain i ck where "ick = (i, ck)" by (cases ick)
  moreover obtain calls fi where "st = (calls, fi)" by (cases st)
  ultimately show ?case by (simp add: Cons.IH split: option.split)
qed simp

text \<open>A call that runs alone is a schedule that names it as often as it takes.\<close>

lemma index_exec_alone:
  "call_run x ck call fi = Some (r, fi') \<Longrightarrow> i < length calls \<Longrightarrow> calls ! i = call \<Longrightarrow>
   \<exists>n. index_exec x (replicate n (i, ck)) (calls, fi) = Some (calls[i := Finished r], fi')"
proof (induction x ck call fi arbitrary: calls rule: call_run.induct)
  case (1 x ck call fi)
  show ?case
  proof (cases "index_step x ck call fi")
    case None
    then have "call = Finished r" "fi' = fi"
      using 1(2) call_run.simps [of x ck call fi] by (auto split: index_call.splits)
    with 1(3,4) have "calls[i := Finished r] = calls" "fi' = fi" by (simp_all add: list_update_same_conv)
    then show ?thesis by (intro exI [of _ 0]) simp
  next
    case (Some p)
    obtain call1 fi1 where p: "p = (call1, fi1)" by (cases p)
    have "call_run x ck call1 fi1 = Some (r, fi')" using 1(2) call_run_step [OF Some [unfolded p]] by simp
    then obtain n where "index_exec x (replicate n (i, ck)) (calls[i := call1], fi1) = Some (calls[i := Finished r], fi')"
      using 1(1) [OF Some p [symmetric], of "calls[i := call1]"] 1(3) by auto
    with Some p 1(3,4) show ?thesis by (intro exI [of _ "Suc n"]) simp
  qed
qed

lemma slots_of_mem:
  "i \<in> set bm \<Longrightarrow> unat i < length (fi_slots fi) \<Longrightarrow> fi_slots fi ! unat i = Some d \<Longrightarrow> d \<in> set (slots_of fi bm)"
  by (force simp: slots_of_def slab_get_def List.map_filter_def)

lemma slots_of_memD: "d \<in> set (slots_of fi bm) \<Longrightarrow> \<exists>i\<in>set bm. ds_at fi i = Some d"
  by (auto simp: slots_of_def ds_at_def List.map_filter_def)

text \<open>C12: The index frees a slot and gives it to the next subscription while a lookup may still hold its number.
  Take any event the index delivers to a subscription \<open>a\<close>, and any other subscription \<open>b\<close> that is accepted
  after the removal of \<open>a\<close> and whose filter the bitmaps represent exactly (no filter, say).  Then there
  is an interleaving, with the removal and the addition each undisturbed, in which the lookup hands the
  event to \<open>b\<close>: whatever the topic \<open>b\<close> subscribed to, and so also where its connection was not allowed to
  subscribe to the topic of the event.\<close>

theorem lookup_hands_event_over:
  assumes inv: "fi_inv x fi" and closed: "\<not> cb_open (fi_breaker fi)"
    and hit: "fi_collect_matches x ck event fi = Some (ms, fi1)" "(sb_conn a, sb_sub a, n) \<in> set ms"
    and acc: "add_subscription x b node (remove_subscription a fi) = Some (fi2, Inr ())"
    and exact: "case sb_filter b of None \<Rightarrow> True | Some f \<Rightarrow> is_filter_exact f"
  shows "\<exists>schedule ms' fi'. index_exec x schedule ([Removing a, Adding b node, Matching event], fi) =
      Some ([Finished Removed, Finished (Added (Inr ())), Finished (Matched ms')], fi') \<and>
    (sb_conn b, sb_sub b, node) \<in> set ms'"
proof -
  have safe: "fi_safe fi" using inv by (simp add: fi_inv_def)
  have open': "fi_is_open ck fi = (False, fi)" using closed by (cases fi) (simp add: fi_is_open_def is_open_def)
  let ?parsed = "parse_if_fields x fi event"
  define bm where "bm = evaluate_inner x fi event ?parsed"
  have "ms = map slot_match (matched_slots x False event fi)"
    using fi_collect_matches_eq [OF safe refl, of x ck event] hit(1) by (simp add: open')
  with hit(2) obtain d where d: "d \<in> set (slots_of fi bm)" "slot_match d = (sb_conn a, sb_sub a, n)"
    by (force simp: matched_slots_def bm_def)
  then obtain i where i: "i \<in> set bm" "ds_at fi i = Some d" using slots_of_memD by blast
  have "ds_key d = (sb_conn a, sb_sub a)" using d(2) by (simp add: slot_match_def ds_key_def)
  with i(2) have reg: "dm_get (fi_slot_by_sub fi) (sb_conn a, sb_sub a) = Some i" using inv_link [OF inv] by blast
  have below: "unat i < length (fi_slots fi)" using i(2) by (simp add: ds_at_def slab_get_def split: if_splits)
  let ?calls = "[Removing a, Adding b node, Matching event]"
  let ?read = "Reading event ?parsed False bm"
  have bm: "bm \<noteq> []" using i(1) by auto
  have s1: "index_exec x [(2, ck), (2, ck)] (?calls, fi) = Some ([Removing a, Adding b node, ?read], fi)"
    using bm by (simp add: index_step_def open' bm_def [symmetric] Let_def)
  define fr where "fr = remove_subscription a fi"
  obtain n0 where s2: "index_exec x (replicate n0 (0, ck)) ([Removing a, Adding b node, ?read], fi) =
      Some ([Finished Removed, Adding b node, ?read], fr)"
    using index_exec_alone [of x ck "Removing a" fi Removed fr 0 "[Removing a, Adding b node, ?read]"] run_Removing by (auto simp: fr_def)
  obtain n1 where s3: "index_exec x (replicate n1 (1, ck)) ([Finished Removed, Adding b node, ?read], fr) =
      Some ([Finished Removed, Finished (Added (Inr ())), ?read], fi2)"
    using index_exec_alone [of x ck "Adding b node" fr "Added (Inr ())" fi2 1 "[Finished Removed, Adding b node, ?read]"]
      acc by (auto simp: run_Adding fr_def)
  have freed: "fi_free fr = fi_free fi @ [i]" "length (fi_slots fr) = length (fi_slots fi)"
    using remove_present(1,2) [OF reg fr_def] by (simp_all add: slab_free_def Let_def)
  have slots2: "fi_slots fi2 = (fi_slots fr)[unat i := Some (dispatch_slot_of b node)]"
    using acc below freed
    by (cases rule: check_limits_cases [where pk = "pattern_str (sb_topic b)" and sub = b and fi = fr])
      (auto simp: fr_def [symmetric] add_subscription_eq alloc_slot_eq slab_alloc_def reject_capacity_def Let_def)
  have "dispatch_slot_of b node \<in> set (slots_of fi2 bm)"
    using below freed by (intro slots_of_mem [OF i(1)]) (simp_all add: slots2)
  then have "slot_match (dispatch_slot_of b node) \<in> slot_match ` set (filter (slot_passes x event ?parsed) (slots_of fi2 bm))"
    using exact by (intro imageI) (simp add: slot_passes_def)
  moreover have "bits_below fi2 bm"
    using evaluate_below(2) [OF safe] freed(2) by (simp add: bits_below_def slots2 bm_def)
  then have loop: "match_loop x fi2 event ?parsed push_match bm None (0, []) =
      Some (fold (call_slot push_match) (filter (slot_passes x event ?parsed) (slots_of fi2 bm)) (0, []))"
    by (rule match_loop_eq) simp
  let ?ms = "map slot_match (filter (slot_passes x event ?parsed) (slots_of fi2 bm))"
  let ?fi' = "fi_record ck (of_nat (length ?ms)) fi2"
  have s4: "index_exec x [(2, ck)] ([Finished Removed, Finished (Added (Inr ())), ?read], fi2) =
      Some ([Finished Removed, Finished (Added (Inr ())), Finished (Matched ?ms)], ?fi')"
    by (simp add: index_step_def loop fold_call_slot fold_push_match)
  let ?schedule = "[(2, ck), (2, ck)] @ replicate n0 (0, ck) @ replicate n1 (1, ck) @ [(2, ck)]"
  have "index_exec x ?schedule (?calls, fi) = Some ([Finished Removed, Finished (Added (Inr ())), Finished (Matched ?ms)], ?fi')"
    by (simp only: index_exec_append s1 s2 s3 s4 option.case)
  moreover have "(sb_conn b, sb_sub b, node) = slot_match (dispatch_slot_of b node)"
    by (simp add: slot_match_def dispatch_slot_of_def)
  ultimately show ?thesis by (metis (no_types, lifting) set_map)
qed

text \<open>The index when \<open>remove_subscription\<close> has freed the slot and not yet cleared the bitmaps.\<close>

definition half_removed :: "Subscription \<Rightarrow> FilterIndex \<Rightarrow> FilterIndex" where
  "half_removed a fi =
     (case dm_get (fi_slot_by_sub fi) (sb_conn a, sb_sub a) of
        None \<Rightarrow> fi
      | Some i \<Rightarrow>
          fi\<lparr>fi_slot_by_sub := dm_remove (sb_conn a, sb_sub a) (fi_slot_by_sub fi),
             fi_slots := (fi_slots fi)[unat i := None], fi_free := fi_free fi @ [i]\<rparr>)"

lemma run_Unlisting_plain:
  assumes "dm_get (fi_sub_keys fi) (sb_conn a, sb_sub a) = Some []"
  obtains fi' where "call_run x ck (Unlisting a i) fi = Some (Removed, fi')"
    and "fi_index fi' = fi_index fi" "fi_slots fi' = fi_slots fi" "fi_patterns fi' = fi_patterns fi"
      "fi_unfiltered fi' = dm_modify (pattern_str (sb_topic a)) (bm_remove i) (fi_unfiltered fi)"
      "fi_slot_by_sub fi' = fi_slot_by_sub fi"
  using assms that
  by (simp add: call_run.simps [where call = "Unlisting a i"] call_run.simps [where call = "Unkeying a i"]
      index_step_def run_Unsetting remove_keys_def Let_def)

lemma not_hit:
  assumes "\<And>k. i \<notin> bm_at (fi_index fi) k" and "\<And>k. i \<notin> bm_at (fi_unfiltered fi) k"
  shows "i \<notin> set (evaluate_unfiltered_only fi event)" and "i \<notin> set (evaluate_inner x fi event parsed)"
  using assms
  by (auto simp: evaluate_unfiltered_set evaluate_inner_set unfiltered_hits_def pattern_hits_def field_hits_def
      split: if_splits option.splits)

text \<open>The slots of a call that never reaches slot \<open>i\<close>.\<close>

lemma matched_not_at:
  assumes "fi_safe fi" and "fi_collect_matches x ck event fi = Some (ms, fi1)" and "(c, s, n) \<in> set ms"
    and "\<And>k. i \<notin> bm_at (fi_index fi) k" and "\<And>k. i \<notin> bm_at (fi_unfiltered fi) k"
  obtains j d where "j \<noteq> i" "ds_at fi j = Some d" "ds_key d = (c, s)"
proof -
  have "ms = map slot_match (matched_slots x (fst (fi_is_open ck fi)) event fi)"
    using fi_collect_matches_eq [OF assms(1) refl, of x ck event] assms(2) by simp
  with assms(3) obtain d where d: "d \<in> set (matched_slots x (fst (fi_is_open ck fi)) event fi)" "slot_match d = (c, s, n)"
    by auto
  then obtain bm where bm: "d \<in> set (slots_of fi bm)" "i \<notin> set bm"
    using not_hit [OF assms(4,5)] by (auto simp: matched_slots_def split: if_splits)
  from slots_of_memD [OF bm(1)] obtain j where "j \<in> set bm" "ds_at fi j = Some d" by (rule bexE)
  with bm(2) have "j \<noteq> i" by blast
  then show ?thesis using that \<open>ds_at fi j = Some d\<close> d(2) by (simp add: slot_match_def ds_key_def)
qed

text \<open>C13: \<open>remove_subscription\<close> frees the slot before it clears the bitmaps.  Take a registered subscription \<open>a\<close>
  without a filter and another, \<open>b\<close>, on the same topic pattern, new to the index and accepted when the slot
  of \<open>a\<close> has just been freed.  Then there is an interleaving of the removal of \<open>a\<close> and the addition of
  \<open>b\<close> after which \<open>b\<close> is registered, its caller was told so, and no lookup of any event finds it again.\<close>

theorem removal_erases_newcomer:
  assumes inv: "fi_inv x fi" and old: "fi_table fi (sb_conn a, sb_sub a) = Some (dispatch_slot_of a node_a)"
    and new: "fi_table fi (sb_conn b, sb_sub b) = None"
    and plain: "sb_filter a = None" "sb_filter b = None" and same: "sb_topic b = sb_topic a"
    and acc: "add_subscription x b node (half_removed a fi) = Some (fi2, Inr ())"
  shows "\<exists>schedule fi'. index_exec x schedule ([Removing a, Adding b node], fi) =
      Some ([Finished Removed, Finished (Added (Inr ()))], fi') \<and>
    fi_table fi' (sb_conn b, sb_sub b) = Some (dispatch_slot_of b node) \<and>
    (\<forall>ck event ms fi1. fi_collect_matches x ck event fi' = Some (ms, fi1) \<longrightarrow> (\<forall>n. (sb_conn b, sb_sub b, n) \<notin> set ms))"
proof -
  let ?a = "(sb_conn a, sb_sub a)" and ?b = "(sb_conn b, sb_sub b)" and ?pk = "pattern_str (sb_topic a)"
  obtain i where reg: "dm_get (fi_slot_by_sub fi) ?a = Some i" and at: "ds_at fi i = Some (dispatch_slot_of a node_a)"
    using old by (auto simp: fi_table_def bind_eq_Some_conv)
  have below: "unat i < length (fi_slots fi)" using at by (simp add: ds_at_def slab_get_def split: if_splits)
  have differ: "?a \<noteq> ?b" using old new by auto
  have newkey: "dm_get (fi_slot_by_sub fi) ?b = None" using new fi_table_None [OF inv] by simp
  define fh where "fh = half_removed a fi"
  have fh: "fh = fi\<lparr>fi_slot_by_sub := dm_remove ?a (fi_slot_by_sub fi), fi_slots := (fi_slots fi)[unat i := None],
      fi_free := fi_free fi @ [i]\<rparr>"
    by (simp add: fh_def half_removed_def reg)
  have s1: "index_exec x [(0, ck), (0, ck), (0, ck)] ([Removing a, Adding b node], fi) =
      Some ([Unlisting a i, Adding b node], fh)" for ck
    by (simp add: index_step_def reg fh)
  obtain n1 where s2: "index_exec x (replicate n1 (1, demo_clock)) ([Unlisting a i, Adding b node], fh) =
      Some ([Unlisting a i, Finished (Added (Inr ()))], fi2)"
    using index_exec_alone [of x demo_clock "Adding b node" fh "Added (Inr ())" fi2 1 "[Unlisting a i, Adding b node]"]
      acc by (auto simp: run_Adding fh_def)
  have fi2: "fi2 = add_accepted x b i (fh\<lparr>fi_slots := (fi_slots fi)[unat i := Some (dispatch_slot_of b node)], fi_free := fi_free fi\<rparr>)"
    using acc below
    by (cases rule: check_limits_cases [where pk = "pattern_str (sb_topic b)" and sub = b and fi = fh])
      (auto simp: fh_def [symmetric] add_subscription_eq alloc_slot_eq slab_alloc_def reject_capacity_def Let_def fh)
  have keys: "dm_get (fi_sub_keys fi2) ?a = Some []"
    using inv_tracked [OF inv reg] at differ by (simp add: fi2 fh plain sub_index_keys_def)
  obtain fi3 where run: "call_run x demo_clock (Unlisting a i) fi2 = Some (Removed, fi3)"
    and fi3: "fi_index fi3 = fi_index fi2" "fi_slots fi3 = fi_slots fi2" "fi_patterns fi3 = fi_patterns fi2"
      "fi_unfiltered fi3 = dm_modify ?pk (bm_remove i) (fi_unfiltered fi2)" "fi_slot_by_sub fi3 = fi_slot_by_sub fi2"
    using run_Unlisting_plain [OF keys] by metis
  obtain n2 where s3: "index_exec x (replicate n2 (0, demo_clock)) ([Unlisting a i, Finished (Added (Inr ()))], fi2) =
      Some ([Finished Removed, Finished (Added (Inr ()))], fi3)"
    using index_exec_alone [OF run, of 0 "[Unlisting a i, Finished (Added (Inr ()))]"] by auto
  let ?schedule = "[(0, demo_clock), (0, demo_clock), (0, demo_clock)] @ replicate n1 (1, demo_clock) @ replicate n2 (0, demo_clock)"
  have exec: "index_exec x ?schedule ([Removing a, Adding b node], fi) = Some ([Finished Removed, Finished (Added (Inr ()))], fi3)"
    by (simp only: index_exec_append s1 s2 s3 option.case)
  have slots: "ds_at fi3 j = (if j = i then Some (dispatch_slot_of b node) else ds_at fi j)" for j
    using below by (simp add: ds_at_def slab_get_def fi3 fi2 unat_u32_inj nth_list_update)
  have registered: "fi_table fi3 ?b = Some (dispatch_slot_of b node)"
    by (simp add: fi_table_def fi3 fi2 slots)
  have "i \<notin> bm_at (fi_index fi3) k" for k
    using inv_index [OF inv, of i k] at by (simp add: fi3 fi2 fh add_accepted_bits plain sub_index_keys_def)
  moreover have "i \<notin> bm_at (fi_unfiltered fi3) k" for k
    using inv_unfiltered [OF inv, of i k] at by (auto simp: fi3 fi2 fh add_accepted_bits plain same)
  moreover have "fi_safe fi3"
    using index_exec_safe [OF exec] inv by (simp add: fi_inv_def call_in_bounds_def)
  ultimately have "(sb_conn b, sb_sub b, n) \<notin> set ms" if "fi_collect_matches x ck event fi3 = Some (ms, fi1)" for ck event ms fi1 n
  proof -
    have False if hit: "(sb_conn b, sb_sub b, n) \<in> set ms"
    proof -
      obtain j d where "j \<noteq> i" "ds_at fi3 j = Some d" "ds_key d = ?b"
        using matched_not_at [OF \<open>fi_safe fi3\<close> \<open>fi_collect_matches x ck event fi3 = Some (ms, fi1)\<close> hit] 
          \<open>\<And>k. i \<notin> bm_at (fi_index fi3) k\<close> \<open>\<And>k. i \<notin> bm_at (fi_unfiltered fi3) k\<close> by blast
      then show False using inv_link [OF inv, of ?b j] newkey slots by auto
    qed
    then show ?thesis by blast
  qed
  with exec registered show ?thesis by blast
qed

subsection \<open>Witnesses\<close>

lemma demo_held_added:
  "add_subscription demo_ext (demo_sub ''s1'' ''a/b'' None) None (fi_with_limits limits_default) = Some (demo_held, Inr ())"
  by (simp add: eval_race eval_maps eval_index eval_types demo_ext_def demo_sub_def)

lemma demo_held_ok:
  "fi_ok demo_ext demo_held \<and>
   fi_table demo_held = [(ConnectionId 1, SubscriptionId ''s1'') \<mapsto> dispatch_slot_of (demo_sub ''s1'' ''a/b'' None) None]"
proof -
  have "fi_ok demo_ext (fi_with_limits limits_default)" by (rule demo_new_ok)
  moreover have "parsed_pattern (sb_topic (demo_sub ''s1'' ''a/b'' None))" by (simp add: demo_sub_def)
  moreover have none: "fi_table (fi_with_limits limits_default) k = None" for k by (simp add: fi_table_def fi_with_limits_def)
  ultimately have "fi_ok demo_ext demo_held \<and> fi_table demo_held =
      (fi_table (fi_with_limits limits_default))((ConnectionId 1, SubscriptionId ''s1'') \<mapsto> dispatch_slot_of (demo_sub ''s1'' ''a/b'' None) None)"
    using fi_add_accepted [OF _ _ none demo_held_added] by (simp add: demo_sub_def)
  moreover have "fi_table (fi_with_limits limits_default) = Map.empty" using none by blast
  ultimately show ?thesis by simp
qed

lemma concurrent_index_in_bounds_witness:
  "\<exists>calls fi. index_exec demo_ext (turns [2, 2, 0, 0, 0, 1, 1, 1, 1]) (demo_race ''c/d'', demo_held) = Some (calls, fi) \<and>
     fi_safe fi \<and> held_slots (calls ! 2) = [0] \<and> (\<forall>ck. index_step demo_ext ck (calls ! 2) fi \<noteq> None)"
proof -
  have "\<exists>calls fi. index_exec demo_ext (turns [2, 2, 0, 0, 0, 1, 1, 1, 1]) (demo_race ''c/d'', demo_held) = Some (calls, fi) \<and>
      length calls = 3 \<and> held_slots (calls ! 2) = [0] \<and> \<not> call_finished (calls ! 2)"
    by (simp add: eval_race eval_maps eval_index eval_types demo_ext_def demo_sub_def demo_event_def demo_clock_def
        call_finished_def)
  then obtain calls fi where run: "index_exec demo_ext (turns [2, 2, 0, 0, 0, 1, 1, 1, 1]) (demo_race ''c/d'', demo_held) = Some (calls, fi)"
    and held: "length calls = 3" "held_slots (calls ! 2) = [0]" "\<not> call_finished (calls ! 2)"
    by (elim exE conjE) (rule that)
  have "fi_safe demo_held" using demo_held_ok by (simp add: fi_ok_def fi_inv_def)
  moreover have "\<forall>call\<in>set (demo_race ''c/d''). starting_call call" by (simp add: demo_race_def starting_call_def)
  ultimately have "fi_safe fi \<and> (\<forall>call\<in>set calls. (\<forall>i\<in>set (held_slots call). unat i < length (fi_slots fi)) \<and>
      (\<forall>ck. \<not> call_finished call \<longrightarrow> index_step demo_ext ck call fi \<noteq> None))"
    by (rule concurrent_index_in_bounds [OF _ _ run])
  then have "fi_safe fi" "\<forall>ck. index_step demo_ext ck (calls ! 2) fi \<noteq> None" using held by (simp_all add: nth_mem)
  with run held show ?thesis by blast
qed

lemma lookup_hands_event_over_witness:
  "\<exists>schedule ms fi. index_exec demo_ext schedule (demo_race ''c/d'', demo_held) =
      Some ([Finished Removed, Finished (Added (Inr ())), Finished (Matched ms)], fi) \<and>
    (ConnectionId 2, SubscriptionId ''s2'', None) \<in> set ms \<and>
    \<not> pattern_matches (sb_topic (demo_newcomer ''c/d'')) (ev_topic (demo_event ''a/b'' ''n42''))"
proof -
  let ?a = "demo_sub ''s1'' ''a/b'' None" and ?b = "demo_newcomer ''c/d''"
  have inv: "fi_inv demo_ext demo_held" using demo_held_ok by (simp add: fi_ok_def)
  have closed: "\<not> cb_open (fi_breaker demo_held)"
    by (simp add: eval_race eval_maps eval_index eval_types demo_ext_def demo_sub_def)
  have "\<exists>fi1. fi_collect_matches demo_ext demo_clock (demo_event ''a/b'' ''n42'') demo_held =
      Some ([(sb_conn ?a, sb_sub ?a, None)], fi1)"
    by (simp add: eval_race eval_maps eval_index eval_types demo_ext_def demo_sub_def demo_event_def demo_clock_def)
  then obtain fi1 where hit: "fi_collect_matches demo_ext demo_clock (demo_event ''a/b'' ''n42'') demo_held =
      Some ([(sb_conn ?a, sb_sub ?a, None)], fi1)" ..
  have "\<exists>fi2. add_subscription demo_ext ?b None (remove_subscription ?a demo_held) = Some (fi2, Inr ())"
    by (simp add: eval_race eval_maps eval_index eval_types demo_ext_def demo_sub_def)
  then obtain fi2 where acc: "add_subscription demo_ext ?b None (remove_subscription ?a demo_held) = Some (fi2, Inr ())" ..
  have b: "sb_conn ?b = ConnectionId 2" "sb_sub ?b = SubscriptionId ''s2''" "sb_filter ?b = None"
    by (simp_all add: demo_newcomer_def demo_sub_def)
  have "\<not> pattern_matches (sb_topic ?b) (ev_topic (demo_event ''a/b'' ''n42''))"
    by (simp add: demo_newcomer_def demo_sub_def demo_event_def eval_types)
  moreover have "\<exists>schedule ms fi. index_exec demo_ext schedule (demo_race ''c/d'', demo_held) =
      Some ([Finished Removed, Finished (Added (Inr ())), Finished (Matched ms)], fi) \<and>
      (ConnectionId 2, SubscriptionId ''s2'', None) \<in> set ms"
    using lookup_hands_event_over [OF inv closed hit _ acc] b by (simp add: demo_race_def)
  ultimately show ?thesis by blast
qed

lemma removal_erases_newcomer_witness:
  "\<exists>schedule fi. index_exec demo_ext schedule ([Removing (demo_sub ''s1'' ''a/b'' None), Adding (demo_newcomer ''a/b'') None], demo_held) =
      Some ([Finished Removed, Finished (Added (Inr ()))], fi) \<and>
    fi_table fi (ConnectionId 2, SubscriptionId ''s2'') = Some (dispatch_slot_of (demo_newcomer ''a/b'') None) \<and>
    (\<forall>ck ms fi1. fi_collect_matches demo_ext ck (demo_event ''a/b'' ''n42'') fi = Some (ms, fi1) \<longrightarrow>
       (ConnectionId 2, SubscriptionId ''s2'', None) \<notin> set ms)"
proof -
  let ?a = "demo_sub ''s1'' ''a/b'' None" and ?b = "demo_newcomer ''a/b''"
  have inv: "fi_inv demo_ext demo_held" using demo_held_ok by (simp add: fi_ok_def)
  have keys: "sb_conn ?a = ConnectionId 1" "sb_sub ?a = SubscriptionId ''s1''" "sb_conn ?b = ConnectionId 2"
    "sb_sub ?b = SubscriptionId ''s2''" "sb_filter ?a = None" "sb_filter ?b = None" "sb_topic ?b = sb_topic ?a"
    by (simp_all add: demo_newcomer_def demo_sub_def)
  have old: "fi_table demo_held (sb_conn ?a, sb_sub ?a) = Some (dispatch_slot_of ?a None)"
    and new: "fi_table demo_held (sb_conn ?b, sb_sub ?b) = None"
    using demo_held_ok by (simp_all add: keys)
  have "\<exists>fi2. add_subscription demo_ext ?b None (half_removed ?a demo_held) = Some (fi2, Inr ())"
    by (simp add: eval_race eval_maps eval_index eval_types demo_ext_def demo_sub_def half_removed_def)
  then obtain fi2 where acc: "add_subscription demo_ext ?b None (half_removed ?a demo_held) = Some (fi2, Inr ())" ..
  show ?thesis
    using removal_erases_newcomer [OF inv old new keys(5,6,7) acc] unfolding keys by blast
qed

end
