(* ===== verification/Rt_Shared_Tasks.thy ===== *)
theory Rt_Shared_Tasks
  imports Rt_Presence_Shared
begin

text \<open>
  The cross-node presence store under concurrency: the calls of \<open>Rt_Presence_Shared\<close>
  (\<open>crates/realtime-gateway/src/presence_shared.rs\<close>), made by the tasks of any number of nodes, taken apart
  into their round trips to the server, one command each, and interleaved with each other and with the
  expiry of keys.  Lemmas: a call that nothing interrupts is the function of \<open>Rt_Presence_Shared\<close>; in every
  interleaving each call sends the commands it should, the store holds what they make of it, a query lists
  one state of its topic, and what a prune erases beyond its purpose was joined since the count.
\<close>

subsection \<open>The calls and their round trips\<close>

datatype shared_call =
    ShTrack string PresenceMember
  | ShUntrack string string
  | ShMembers string
  | ShRemove string

text \<open>The command a task sends next.  A removal deletes its field from the keys a \<open>SCAN\<close> returned; what
  is left of them, with the next cursor, is the last argument.\<close>

type_synonym scan_rest = "(string list \<times> u64) option"

datatype shared_pc =
    ShConnect
  | ShHset string string string
  | ShHdel string string scan_rest
  | ShHlen string string scan_rest
  | ShDel string string scan_rest
  | ShHvals string
  | ShScan u64 string
  | ShDone "PresenceMember list"

record SharedTask =
  sh_call :: shared_call
  sh_pc :: shared_pc

definition shared_task :: "shared_call \<Rightarrow> SharedTask" where
  "shared_task call = \<lparr>sh_call = call, sh_pc = ShConnect\<rparr>"

text \<open>What commands do to the hashes of the store.\<close>

datatype shared_effect = Put string string string | Drop string string | Prune string | Expired string

definition connected_pc :: "MemberCodec \<Rightarrow> SharedPresence \<Rightarrow> shared_call \<Rightarrow> shared_pc" where
  "connected_pc mc sp call =
     (case call of
        ShTrack topic member \<Rightarrow>
          (case mc_to_string mc member of
             None \<Rightarrow> ShDone []
           | Some value \<Rightarrow> ShHset (shared_key sp topic) (pm_conn_id member) value)
      | ShUntrack topic conn_id \<Rightarrow> ShHdel (shared_key sp topic) conn_id None
      | ShMembers topic \<Rightarrow> ShHvals (shared_key sp topic)
      | ShRemove conn_id \<Rightarrow> ShScan 0 conn_id)"

definition pruned_pc :: "string \<Rightarrow> scan_rest \<Rightarrow> shared_pc" where
  "pruned_pc conn_id rest =
     (case rest of
        None \<Rightarrow> ShDone []
      | Some (key # keys, next) \<Rightarrow> ShHdel key conn_id (Some (keys, next))
      | Some ([], next) \<Rightarrow> if next = 0 then ShDone [] else ShScan next conn_id)"

text \<open>One round trip: the effects, where the task is then, and the server; \<open>None\<close> when the call has returned.\<close>

definition shared_step ::
    "'r Redis \<Rightarrow> MemberCodec \<Rightarrow> SharedPresence \<Rightarrow> SharedTask \<Rightarrow> 'r \<Rightarrow> (shared_effect list \<times> shared_pc \<times> 'r) option" where
  "shared_step R mc sp k r =
     (case sh_pc k of
        ShDone _ \<Rightarrow> None
      | ShConnect \<Rightarrow>
          (let (connected, r) = rd_connect R r
           in Some ([], if \<not> connected then ShDone [] else connected_pc mc sp (sh_call k), r))
      | ShHset key field value \<Rightarrow>
          (let (ok, r) = rd_hset_expire R key field value PRESENCE_TTL_SECS r
           in Some (if ok then [Put key field value] else [], ShDone [], r))
      | ShHdel key conn_id rest \<Rightarrow>
          (let (ok, r) = rd_hdel R key conn_id r
           in Some (if ok then [Drop key conn_id] else [],
                if \<not> ok \<and> rest = None then ShDone [] else ShHlen key conn_id rest, r))
      | ShHlen key conn_id rest \<Rightarrow>
          (let (len, r) = rd_hlen R key r
           in Some ([], if len = Some 0 then ShDel key conn_id rest else pruned_pc conn_id rest, r))
      | ShDel key conn_id rest \<Rightarrow>
          (let (_, r) = rd_del R key r in Some ([Prune key], pruned_pc conn_id rest, r))
      | ShHvals key \<Rightarrow>
          (case rd_hvals R key r of
             (Some vals, r) \<Rightarrow> Some ([], ShDone (List.map_filter (mc_from_str mc) vals), r)
           | (None, r) \<Rightarrow> Some ([], ShDone [], r))
      | ShScan cursor conn_id \<Rightarrow>
          (case rd_scan R cursor (sp_prefix sp @ '':*'') 100 r of
             (None, r) \<Rightarrow> Some ([], ShDone [], r)
           | (Some (next, keys), r) \<Rightarrow> Some ([], pruned_pc conn_id (Some (keys, next)), r)))"

text \<open>A schedule: which task makes its next round trip, and which keys expire.  The log has every effect
  with the task it is due to, none for an expiry.\<close>

datatype shared_event = Trip nat | Expires string

type_synonym shared_log = "(nat option \<times> shared_effect) list"

definition shared_run_event ::
    "'r Redis \<Rightarrow> MemberCodec \<Rightarrow> SharedPresence \<Rightarrow> (string \<Rightarrow> 'r \<Rightarrow> 'r) \<Rightarrow> shared_event \<Rightarrow>
       SharedTask list \<times> 'r \<Rightarrow> (shared_log \<times> SharedTask list \<times> 'r) option" where
  "shared_run_event R mc sp expire e = (\<lambda>(ks, r).
     case e of
       Trip j \<Rightarrow>
         if j < length ks
         then map_option (\<lambda>(es, pc, r). (map (Pair (Some j)) es, ks[j := (ks ! j)\<lparr>sh_pc := pc\<rparr>], r))
                (shared_step R mc sp (ks ! j) r)
         else None
     | Expires key \<Rightarrow> Some ([(None, Expired key)], ks, expire key r))"

fun shared_exec ::
    "'r Redis \<Rightarrow> MemberCodec \<Rightarrow> SharedPresence \<Rightarrow> (string \<Rightarrow> 'r \<Rightarrow> 'r) \<Rightarrow> shared_event list \<Rightarrow>
       SharedTask list \<times> 'r \<Rightarrow> (shared_log \<times> SharedTask list \<times> 'r) option" where
  "shared_exec R mc sp expire [] s = Some ([], s)"
| "shared_exec R mc sp expire (e # es) s =
     (case shared_run_event R mc sp expire e s of
        None \<Rightarrow> None
      | Some (l, s) \<Rightarrow> map_option (\<lambda>(l', s). (l @ l', s)) (shared_exec R mc sp expire es s))"


subsection \<open>A call alone\<close>

fun shared_finish ::
    "'r Redis \<Rightarrow> MemberCodec \<Rightarrow> SharedPresence \<Rightarrow> nat \<Rightarrow> SharedTask \<times> 'r \<Rightarrow> SharedTask \<times> 'r" where
  "shared_finish R mc sp 0 s = s"
| "shared_finish R mc sp (Suc n) (k, r) =
     (case shared_step R mc sp k r of
        None \<Rightarrow> (k, r)
      | Some (_, pc, r) \<Rightarrow> shared_finish R mc sp n (k\<lparr>sh_pc := pc\<rparr>, r))"

lemmas alone_defs = shared_task_def shared_step_def connected_pc_def pruned_pc_def

lemma shared_track_alone:
  "shared_finish R mc sp 2 (shared_task (ShTrack t m), r) =
     (\<lparr>sh_call = ShTrack t m, sh_pc = ShDone []\<rparr>, shared_track R mc sp t m r)"
  by (cases "rd_connect R r"; cases "mc_to_string mc m")
    (auto simp: numeral_2_eq_2 alone_defs shared_track_def split: prod.split)

lemma shared_untrack_alone:
  "shared_finish R mc sp 4 (shared_task (ShUntrack t c), r) =
     (\<lparr>sh_call = ShUntrack t c, sh_pc = ShDone []\<rparr>, shared_untrack R sp t c r)"
  by (cases "rd_connect R r")
    (auto simp: eval_nat_numeral alone_defs shared_untrack_def shared_prune_def Let_def split: prod.split)

lemma shared_members_alone:
  "shared_finish R mc sp 2 (shared_task (ShMembers t), r) =
     (\<lparr>sh_call = ShMembers t, sh_pc = ShDone (fst (shared_members R mc sp t r))\<rparr>, snd (shared_members R mc sp t r))"
  by (cases "rd_connect R r")
    (auto simp: numeral_2_eq_2 alone_defs shared_members_def Let_def split: prod.split option.split)

lemma shared_finish_add:
  "shared_finish R mc sp (m + n) s = shared_finish R mc sp n (shared_finish R mc sp m s)"
proof (induction m arbitrary: s)
  case (Suc m)
  obtain k r where s: "s = (k, r)" by fastforce
  have "shared_finish R mc sp n (k, r) = (k, r)" if "shared_step R mc sp k r = None" for n
    using that by (cases n) simp_all
  with Suc.IH show ?case by (simp add: s split: option.split prod.split)
qed simp

lemma drop_fields_alone:
  "\<exists>n. shared_finish R mc sp n (\<lparr>sh_call = ShRemove c, sh_pc = pruned_pc c (Some (keys, next))\<rparr>, r) =
     (\<lparr>sh_call = ShRemove c, sh_pc = pruned_pc c (Some ([], next))\<rparr>, fold (shared_drop_field R c) keys r)"
proof (induction keys arbitrary: r)
  case Nil
  show ?case by (rule exI [of _ 0]) simp
next
  case (Cons key keys)
  let ?k = "\<lambda>pc. \<lparr>sh_call = ShRemove c, sh_pc = pc\<rparr>"
  let ?rest = "pruned_pc c (Some (keys, next))"
  have pc: "pruned_pc c (Some (key # keys, next)) = ShHdel key c (Some (keys, next))" by (simp add: pruned_pc_def)
  have "\<exists>n. shared_finish R mc sp n (?k (ShHdel key c (Some (keys, next))), r) = (?k ?rest, shared_drop_field R c key r)"
  proof (cases "fst (rd_hlen R key (snd (rd_hdel R key c r))) = Some 0")
    case True
    then show ?thesis
      by (intro exI [of _ 3]) (auto simp: eval_nat_numeral shared_step_def shared_drop_field_def shared_prune_def
          Let_def split: prod.split)
  next
    case False
    then show ?thesis
      by (intro exI [of _ 2]) (auto simp: eval_nat_numeral shared_step_def shared_drop_field_def shared_prune_def
          Let_def split: prod.split)
  qed
  then obtain n where "shared_finish R mc sp n (?k (ShHdel key c (Some (keys, next))), r) = (?k ?rest, shared_drop_field R c key r)" ..
  moreover from Cons.IH [of "shared_drop_field R c key r"] obtain m where
    "shared_finish R mc sp m (?k ?rest, shared_drop_field R c key r) =
      (?k (pruned_pc c (Some ([], next))), fold (shared_drop_field R c) keys (shared_drop_field R c key r))" by blast
  ultimately show ?case
    by (intro exI [of _ "n + m"]) (simp add: pc shared_finish_add)
qed

lemma shared_scan_alone:
  assumes "shared_scan R (sp_prefix sp @ '':*'') c cursor r = Some r'"
  shows "\<exists>n. shared_finish R mc sp n (\<lparr>sh_call = ShRemove c, sh_pc = ShScan cursor c\<rparr>, r) =
     (\<lparr>sh_call = ShRemove c, sh_pc = ShDone []\<rparr>, r')"
proof -
  define P where "P = (\<lambda>R' pattern c cursor r r'. R' = R \<and> pattern = sp_prefix sp @ '':*'' \<longrightarrow>
      (\<exists>n. shared_finish R mc sp n (\<lparr>sh_call = ShRemove c, sh_pc = ShScan cursor c\<rparr>, r) =
        (\<lparr>sh_call = ShRemove c, sh_pc = ShDone []\<rparr>, r')))"
  have "P R (sp_prefix sp @ '':*'') c cursor r r'"
  proof (rule shared_scan.raw_induct [where P = P, OF _ assms], unfold P_def, intro impI, elim conjE)
    fix scan R' pattern c cursor r r'
    assume IH: "\<And>R' pattern c cursor r r'. scan R' pattern c cursor r = Some r' \<Longrightarrow>
        R' = R \<and> pattern = sp_prefix sp @ '':*'' \<longrightarrow>
        (\<exists>n. shared_finish R mc sp n (\<lparr>sh_call = ShRemove c, sh_pc = ShScan cursor c\<rparr>, r) =
          (\<lparr>sh_call = ShRemove c, sh_pc = ShDone []\<rparr>, r'))"
      and scan: "(case rd_scan R' cursor pattern 100 r of
           (None, r) \<Rightarrow> Some r
         | (Some (next, keys), r) \<Rightarrow>
             let r = fold (shared_drop_field R' c) keys r
             in if next = 0 then Some r else scan R' pattern c next r) = Some r'"
      and R': "R' = R" and pat: "pattern = sp_prefix sp @ '':*''"
    let ?k = "\<lambda>pc. \<lparr>sh_call = ShRemove c, sh_pc = pc\<rparr>"
    show "\<exists>n. shared_finish R mc sp n (?k (ShScan cursor c), r) = (?k (ShDone []), r')"
    proof (cases "rd_scan R cursor pattern 100 r")
      case (Pair ans r1)
      show ?thesis
      proof (cases ans)
        case None
        with Pair scan R' show ?thesis
          by (intro exI [of _ 1]) (simp add: shared_step_def pat [symmetric])
      next
        case (Some nk)
        obtain cur keys where nk: "nk = (cur, keys)" by fastforce
        let ?r2 = "fold (shared_drop_field R c) keys r1"
        have first: "shared_finish R mc sp 1 (?k (ShScan cursor c), r) = (?k (pruned_pc c (Some (keys, cur))), r1)"
          using Pair Some nk by (simp add: shared_step_def pat [symmetric])
        obtain n where n: "shared_finish R mc sp n (?k (pruned_pc c (Some (keys, cur))), r1) =
            (?k (pruned_pc c (Some ([], cur))), ?r2)"
          using drop_fields_alone [of R mc sp c keys cur r1] by blast
        show ?thesis
        proof (cases "cur = 0")
          case True
          with scan R' Pair Some nk have "r' = ?r2" by (simp add: Let_def)
          with first n True show ?thesis
            by (intro exI [of _ "1 + n"], subst shared_finish_add) (simp add: pruned_pc_def)
        next
          case False
          with scan R' Pair Some nk have "scan R' pattern c cur ?r2 = Some r'" by (simp add: Let_def)
          with IH [OF this] R' pat obtain m where
            "shared_finish R mc sp m (?k (ShScan cur c), ?r2) = (?k (ShDone []), r')" by blast
          with first n False show ?thesis
            by (intro exI [of _ "1 + (n + m)"], subst shared_finish_add, subst shared_finish_add) (simp add: pruned_pc_def)
        qed
      qed
    qed
  qed
  then show ?thesis by (simp add: P_def)
qed

lemma shared_remove_alone:
  assumes "shared_remove_connection R sp c r = Some r'"
  shows "\<exists>n. shared_finish R mc sp n (shared_task (ShRemove c), r) = (\<lparr>sh_call = ShRemove c, sh_pc = ShDone []\<rparr>, r')"
proof (cases "rd_connect R r")
  case (Pair connected r1)
  show ?thesis
  proof (cases connected)
    case True
    with assms Pair have "shared_scan R (sp_prefix sp @ '':*'') c 0 r1 = Some r'" by (simp add: shared_remove_connection_def)
    from shared_scan_alone [OF this] obtain n where
      "shared_finish R mc sp n (\<lparr>sh_call = ShRemove c, sh_pc = ShScan 0 c\<rparr>, r1) =
        (\<lparr>sh_call = ShRemove c, sh_pc = ShDone []\<rparr>, r')" by blast
    with Pair True show ?thesis by (intro exI [of _ "Suc n"]) (simp add: alone_defs)
  next
    case False
    with assms Pair show ?thesis by (intro exI [of _ 1]) (simp add: alone_defs shared_remove_connection_def)
  qed
qed


subsection \<open>The store under a schedule\<close>

text \<open>The contract of the service, with \<open>SCAN\<close>, which changes nothing, and the expiry of a key.\<close>

definition redis_server ::
    "'r Redis \<Rightarrow> (string \<Rightarrow> 'r \<Rightarrow> 'r) \<Rightarrow> ('r \<Rightarrow> string \<Rightarrow> string \<Rightarrow> string option) \<Rightarrow> ('r \<Rightarrow> bool) \<Rightarrow> bool" where
  "redis_server R expire hash up \<longleftrightarrow> redis_contract R hash up \<and>
     (\<forall>r. up r \<longrightarrow>
       (\<forall>cursor pattern count. up (snd (rd_scan R cursor pattern count r)) \<and>
          hash (snd (rd_scan R cursor pattern count r)) = hash r) \<and>
       (\<forall>k. up (expire k r) \<and> hash (expire k r) = (hash r)(k := Map.empty)))"

fun apply_effect :: "shared_effect \<Rightarrow> (string \<Rightarrow> string \<Rightarrow> string option) \<Rightarrow> (string \<Rightarrow> string \<Rightarrow> string option)" where
  "apply_effect (Put k f v) h = h(k := (h k)(f := Some v))"
| "apply_effect (Drop k f) h = h(k := (h k)(f := None))"
| "apply_effect (Prune k) h = h(k := Map.empty)"
| "apply_effect (Expired k) h = h(k := Map.empty)"

definition logged :: "shared_log \<Rightarrow> (string \<Rightarrow> string \<Rightarrow> string option) \<Rightarrow> (string \<Rightarrow> string \<Rightarrow> string option)" where
  "logged log h = fold (\<lambda>(_, e). apply_effect e) log h"

definition own_effects :: "nat \<Rightarrow> shared_log \<Rightarrow> shared_effect list" where
  "own_effects j log = map snd (filter (\<lambda>(i, _). i = Some j) log)"

text \<open>What a query for a topic answers in a state of the store.\<close>

definition listed :: "MemberCodec \<Rightarrow> SharedPresence \<Rightarrow> (string \<Rightarrow> string \<Rightarrow> string option) \<Rightarrow> string \<Rightarrow> PresenceMember set" where
  "listed mc sp h topic = {m. \<exists>c. Option.bind (h (shared_key sp topic) c) (mc_from_str mc) = Some m}"

text \<open>The effects a call has had, by where it is.\<close>

definition call_effects :: "MemberCodec \<Rightarrow> SharedPresence \<Rightarrow> SharedTask \<Rightarrow> shared_effect list \<Rightarrow> bool" where
  "call_effects mc sp k es =
     (case sh_call k of
        ShTrack t m \<Rightarrow>
          (case (sh_pc k, mc_to_string mc m) of
             (ShDone _, Some v) \<Rightarrow> es = [Put (shared_key sp t) (pm_conn_id m) v]
           | _ \<Rightarrow> es = [])
      | ShUntrack t c \<Rightarrow>
          (case sh_pc k of
             ShDone _ \<Rightarrow> es = [Drop (shared_key sp t) c] \<or> es = [Drop (shared_key sp t) c, Prune (shared_key sp t)]
           | ShHlen _ _ _ \<Rightarrow> es = [Drop (shared_key sp t) c]
           | ShDel _ _ _ \<Rightarrow> es = [Drop (shared_key sp t) c]
           | _ \<Rightarrow> es = [])
      | ShMembers t \<Rightarrow> es = []
      | ShRemove c \<Rightarrow> list_all (\<lambda>e. case e of Drop _ f \<Rightarrow> f = c | Prune _ \<Rightarrow> True | _ \<Rightarrow> False) es)"

text \<open>A query that has returned listed its topic as it was at one moment.\<close>

definition query_answered ::
    "MemberCodec \<Rightarrow> SharedPresence \<Rightarrow> (string \<Rightarrow> string \<Rightarrow> string option) \<Rightarrow> shared_log \<Rightarrow> SharedTask \<Rightarrow> bool" where
  "query_answered mc sp h log k \<longleftrightarrow>
     (\<forall>t ms. sh_call k = ShMembers t \<and> sh_pc k = ShDone ms \<longrightarrow>
        (\<exists>a b. log = a @ b \<and> set ms = listed mc sp (logged a h) t))"

text \<open>Where a prune comes from: the task deleted a field of the key, and then saw the key empty.\<close>

definition emptied :: "(string \<Rightarrow> string \<Rightarrow> string option) \<Rightarrow> nat \<Rightarrow> string \<Rightarrow> shared_log \<Rightarrow> bool" where
  "emptied h j k log \<longleftrightarrow>
     (\<exists>a b f. log = a @ b \<and> (Some j, Drop k f) \<in> set a \<and> logged a h k = Map.empty)"

lemma logged_simps [simp]:
  "logged [] h = h" "logged (a @ b) h = logged b (logged a h)"
  "logged ((i, e) # log) h = logged log (apply_effect e h)"
  by (simp_all add: logged_def)

lemma own_effects_simps [simp]:
  "own_effects j [] = []" "own_effects j (a @ b) = own_effects j a @ own_effects j b"
  "own_effects j ((i, e) # log) = (if i = Some j then e # own_effects j log else own_effects j log)"
  by (simp_all add: own_effects_def)

lemma own_effects_pair [simp]: "own_effects j (map (Pair i) es) = (if i = Some j then es else [])"
  by (induction es) (auto simp: own_effects_def)

text \<open>A field of a key that was empty holds something only if it was put since.\<close>

lemma put_since:
  "logged log h k c = Some v \<Longrightarrow> h k c = None \<Longrightarrow> \<exists>i v. (i, Put k c v) \<in> set log"
proof (induction log arbitrary: h)
  case (Cons ie log)
  obtain i e where ie: "ie = (i, e)" by fastforce
  show ?case
  proof (cases "apply_effect e h k c")
    case None
    with Cons.IH [of "apply_effect e h"] Cons.prems show ?thesis by (auto simp: ie)
  next
    case (Some w)
    with Cons.prems(2) have "e = Put k c w" by (cases e) (auto split: if_splits)
    then show ?thesis by (auto simp: ie)
  qed
qed simp

lemma emptied_append: "emptied h j k log \<Longrightarrow> emptied h j k (log @ l)"
  unfolding emptied_def by (metis append.assoc)

lemma query_append: "query_answered mc sp h log k \<Longrightarrow> query_answered mc sp h (log @ l) k"
  unfolding query_answered_def by (metis append.assoc)


subsection \<open>One round trip\<close>

definition owns :: "SharedPresence \<Rightarrow> shared_call \<Rightarrow> string \<Rightarrow> string \<Rightarrow> scan_rest \<Rightarrow> bool" where
  "owns sp call key c rest =
     (case call of
        ShUntrack t c' \<Rightarrow> key = shared_key sp t \<and> c = c' \<and> rest = None
      | ShRemove c' \<Rightarrow> c = c' \<and> rest \<noteq> None
      | _ \<Rightarrow> False)"

definition placed ::
    "MemberCodec \<Rightarrow> SharedPresence \<Rightarrow> (string \<Rightarrow> string \<Rightarrow> string option) \<Rightarrow> nat \<Rightarrow> SharedTask \<Rightarrow> shared_log \<Rightarrow> bool" where
  "placed mc sp h j k log =
     (case sh_pc k of
        ShHset key c v \<Rightarrow> (\<exists>t m. sh_call k = ShTrack t m \<and> key = shared_key sp t \<and> c = pm_conn_id m \<and> mc_to_string mc m = Some v)
      | ShHdel key c rest \<Rightarrow> owns sp (sh_call k) key c rest
      | ShHlen key c rest \<Rightarrow> owns sp (sh_call k) key c rest \<and> (Some j, Drop key c) \<in> set log
      | ShDel key c rest \<Rightarrow> owns sp (sh_call k) key c rest \<and> emptied h j key log
      | ShHvals key \<Rightarrow> (\<exists>t. sh_call k = ShMembers t \<and> key = shared_key sp t)
      | ShScan cursor c \<Rightarrow> sh_call k = ShRemove c
      | _ \<Rightarrow> True)"

definition task_ok ::
    "MemberCodec \<Rightarrow> SharedPresence \<Rightarrow> (string \<Rightarrow> string \<Rightarrow> string option) \<Rightarrow> nat \<Rightarrow> SharedTask \<Rightarrow> shared_log \<Rightarrow> bool" where
  "task_ok mc sp h j k log \<longleftrightarrow> call_effects mc sp k (own_effects j log) \<and> query_answered mc sp h log k \<and> placed mc sp h j k log"

lemma placed_append: "placed mc sp h j k log \<Longrightarrow> placed mc sp h j k (log @ l)"
  by (auto simp: placed_def emptied_append split: shared_pc.splits)

lemma task_ok_append: "task_ok mc sp h j k log \<Longrightarrow> own_effects j l = [] \<Longrightarrow> task_ok mc sp h j k (log @ l)"
  by (simp add: task_ok_def placed_append query_append)

lemma connected_ok:
  assumes "call_effects mc sp k es" and "sh_pc k = ShConnect"
  shows "call_effects mc sp (k\<lparr>sh_pc := connected_pc mc sp (sh_call k)\<rparr>) es"
    and "placed mc sp h j (k\<lparr>sh_pc := connected_pc mc sp (sh_call k)\<rparr>) log"
    and "query_answered mc sp h log (k\<lparr>sh_pc := connected_pc mc sp (sh_call k)\<rparr>)"
  using assms
  by (auto simp: call_effects_def placed_def query_answered_def connected_pc_def owns_def
      split: shared_call.splits option.splits)

lemma pruned_ok:
  assumes o: "owns sp (sh_call k) key c rest"
    and "\<And>t c'. sh_call k = ShUntrack t c' \<Longrightarrow>
      es = [Drop (shared_key sp t) c'] \<or> es = [Drop (shared_key sp t) c', Prune (shared_key sp t)]"
    and "\<And>c'. sh_call k = ShRemove c' \<Longrightarrow> call_effects mc sp k es"
  shows "call_effects mc sp (k\<lparr>sh_pc := pruned_pc c rest\<rparr>) es"
    and "placed mc sp h j (k\<lparr>sh_pc := pruned_pc c rest\<rparr>) log"
    and "query_answered mc sp h log (k\<lparr>sh_pc := pruned_pc c rest\<rparr>)"
proof -
  consider t where "sh_call k = ShUntrack t c" "rest = None" | ks n where "sh_call k = ShRemove c" "rest = Some (ks, n)"
    using o by (cases "sh_call k") (auto simp: owns_def)
  then have "call_effects mc sp (k\<lparr>sh_pc := pruned_pc c rest\<rparr>) es \<and>
      placed mc sp h j (k\<lparr>sh_pc := pruned_pc c rest\<rparr>) log \<and> query_answered mc sp h log (k\<lparr>sh_pc := pruned_pc c rest\<rparr>)"
  proof cases
    case 1
    with assms(2) show ?thesis by (auto simp: call_effects_def placed_def query_answered_def pruned_pc_def)
  next
    case 2
    with assms(3) show ?thesis
      by (cases ks) (simp_all add: call_effects_def placed_def query_answered_def pruned_pc_def owns_def)
  qed
  then show "call_effects mc sp (k\<lparr>sh_pc := pruned_pc c rest\<rparr>) es"
    and "placed mc sp h j (k\<lparr>sh_pc := pruned_pc c rest\<rparr>) log"
    and "query_answered mc sp h log (k\<lparr>sh_pc := pruned_pc c rest\<rparr>)" by blast+
qed


text \<open>What a round trip of task \<open>j\<close> has to keep.\<close>

definition trip_ok where
  "trip_ok mc sp hash up h j k log es pc r' \<longleftrightarrow>
     up r' \<and> hash r' = logged (log @ map (Pair (Some j)) es) h \<and>
     task_ok mc sp h j (k\<lparr>sh_pc := pc\<rparr>) (log @ map (Pair (Some j)) es) \<and>
     (\<forall>key. Prune key \<in> set es \<longrightarrow> emptied h j key log)"

lemma server_contract: "redis_server R expire hash up \<Longrightarrow> redis_contract R hash up"
  by (simp add: redis_server_def)

lemma trip_hset:
  assumes srv: "redis_server R expire hash up" and u: "up r" and h: "hash r = logged log h"
    and ok: "task_ok mc sp h j k log" and pc: "sh_pc k = ShHset key c v"
    and s: "shared_step R mc sp k r = Some (es, pc', r')"
  shows "trip_ok mc sp hash up h j k log es pc' r'"
proof -
  note x = contract_hset [OF server_contract [OF srv] u, of key c v PRESENCE_TTL_SECS]
  have "fst (rd_hset_expire R key c v PRESENCE_TTL_SECS r)"
    using server_contract [OF srv] u by (simp add: redis_contract_def)
  with s pc have e: "es = [Put key c v]" "pc' = ShDone []" "r' = snd (rd_hset_expire R key c v PRESENCE_TTL_SECS r)"
    by (auto simp: shared_step_def split: prod.splits)
  from ok pc obtain t m where "sh_call k = ShTrack t m" "key = shared_key sp t" "c = pm_conn_id m" "mc_to_string mc m = Some v"
    by (auto simp: task_ok_def placed_def)
  with ok pc x show ?thesis
    by (simp add: trip_ok_def e h task_ok_def call_effects_def placed_def query_answered_def)
qed

lemma trip_hdel:
  assumes srv: "redis_server R expire hash up" and u: "up r" and h: "hash r = logged log h"
    and ok: "task_ok mc sp h j k log" and pc: "sh_pc k = ShHdel key c rest"
    and s: "shared_step R mc sp k r = Some (es, pc', r')"
  shows "trip_ok mc sp hash up h j k log es pc' r'"
proof -
  note x = contract_hdel [OF server_contract [OF srv] u, of key c]
  with s pc have e: "es = [Drop key c]" "pc' = ShHlen key c rest" "r' = snd (rd_hdel R key c r)"
    by (auto simp: shared_step_def split: prod.splits)
  from ok pc have o: "owns sp (sh_call k) key c rest" by (simp add: task_ok_def placed_def)
  then have "call_effects mc sp (k\<lparr>sh_pc := ShHlen key c rest\<rparr>) (own_effects j log @ [Drop key c])"
    using ok pc by (cases "sh_call k") (auto simp: owns_def task_ok_def call_effects_def)
  with o x ok show ?thesis
    by (auto simp: trip_ok_def e h task_ok_def placed_def query_answered_def owns_def split: shared_call.splits)
qed

lemma trip_hlen:
  assumes srv: "redis_server R expire hash up" and u: "up r" and h: "hash r = logged log h"
    and ok: "task_ok mc sp h j k log" and pc: "sh_pc k = ShHlen key c rest"
    and s: "shared_step R mc sp k r = Some (es, pc', r')"
  shows "trip_ok mc sp hash up h j k log es pc' r'"
proof -
  note x = contract_hlen [OF server_contract [OF srv] u, of key]
  from s pc have e: "es = []" "r' = snd (rd_hlen R key r)"
    "pc' = (if fst (rd_hlen R key r) = Some 0 then ShDel key c rest else pruned_pc c rest)"
    by (auto simp: shared_step_def split: prod.splits)
  from ok pc have o: "owns sp (sh_call k) key c rest" and dropped: "(Some j, Drop key c) \<in> set log"
    and own: "call_effects mc sp k (own_effects j log)" by (simp_all add: task_ok_def placed_def)
  have "task_ok mc sp h j (k\<lparr>sh_pc := pc'\<rparr>) log"
  proof (cases "hash r key = Map.empty")
    case True
    then have "emptied h j key log" using dropped unfolding emptied_def h by (metis append_Nil2)
    moreover have "call_effects mc sp (k\<lparr>sh_pc := ShDel key c rest\<rparr>) (own_effects j log)"
      using own pc o by (cases "sh_call k") (auto simp: call_effects_def owns_def)
    ultimately show ?thesis using True x(1) o
      by (auto simp: e task_ok_def placed_def query_answered_def owns_def split: shared_call.splits)
  next
    case False
    have "own_effects j log = [Drop (shared_key sp t) c'] \<or> own_effects j log = [Drop (shared_key sp t) c', Prune (shared_key sp t)]"
      if "sh_call k = ShUntrack t c'" for t c' using own pc that by (simp add: call_effects_def)
    from pruned_ok [OF o this own] False x(1) show ?thesis by (simp add: e task_ok_def)
  qed
  with x(2,3) show ?thesis by (simp add: trip_ok_def e h)
qed

lemma trip_del:
  assumes srv: "redis_server R expire hash up" and u: "up r" and h: "hash r = logged log h"
    and ok: "task_ok mc sp h j k log" and pc: "sh_pc k = ShDel key c rest"
    and s: "shared_step R mc sp k r = Some (es, pc', r')"
  shows "trip_ok mc sp hash up h j k log es pc' r'"
proof -
  note x = contract_del [OF server_contract [OF srv] u, of key]
  from s pc have e: "es = [Prune key]" "r' = snd (rd_del R key r)" "pc' = pruned_pc c rest"
    by (auto simp: shared_step_def split: prod.splits)
  from ok pc have o: "owns sp (sh_call k) key c rest" and empty: "emptied h j key log"
    and own: "call_effects mc sp k (own_effects j log)" by (simp_all add: task_ok_def placed_def)
  have own1: "own_effects j log @ [Prune key] = [Drop (shared_key sp t) c'] \<or>
      own_effects j log @ [Prune key] = [Drop (shared_key sp t) c', Prune (shared_key sp t)]"
    if "sh_call k = ShUntrack t c'" for t c' using own pc that o by (simp add: call_effects_def owns_def)
  have own2: "call_effects mc sp k (own_effects j log @ [Prune key])" if "sh_call k = ShRemove c'" for c'
    using own that by (simp add: call_effects_def)
  from pruned_ok [OF o own1 own2] empty x show ?thesis by (simp add: trip_ok_def e h task_ok_def)
qed


lemma trip_connect:
  assumes srv: "redis_server R expire hash up" and u: "up r" and h: "hash r = logged log h"
    and ok: "task_ok mc sp h j k log" and pc: "sh_pc k = ShConnect"
    and s: "shared_step R mc sp k r = Some (es, pc', r')"
  shows "trip_ok mc sp hash up h j k log es pc' r'"
proof -
  note x = contract_connect [OF server_contract [OF srv] u]
  with s pc have e: "es = []" "r' = snd (rd_connect R r)" "pc' = connected_pc mc sp (sh_call k)"
    by (auto simp: shared_step_def split: prod.splits)
  from ok have "call_effects mc sp k (own_effects j log)" by (simp add: task_ok_def)
  from connected_ok [OF this pc] x show ?thesis by (simp add: trip_ok_def e h task_ok_def)
qed

lemma trip_hvals:
  assumes srv: "redis_server R expire hash up" and u: "up r" and h: "hash r = logged log h"
    and ok: "task_ok mc sp h j k log" and pc: "sh_pc k = ShHvals key"
    and s: "shared_step R mc sp k r = Some (es, pc', r')"
  shows "trip_ok mc sp hash up h j k log es pc' r'"
proof -
  note x = contract_hvals [OF server_contract [OF srv] u, of key]
  obtain vs where vs: "rd_hvals R key r = (Some vs, r')" and e: "es = []" "pc' = ShDone (List.map_filter (mc_from_str mc) vs)"
    using x(1) s pc by (auto simp: shared_step_def split: prod.splits option.splits)
  from ok pc obtain t where t: "sh_call k = ShMembers t" "key = shared_key sp t" by (auto simp: task_ok_def placed_def)
  have "set vs = ran (logged log h key)" using x(2) vs h by simp
  then have "set (List.map_filter (mc_from_str mc) vs) = listed mc sp (logged log h) t"
    by (auto simp: listed_def set_map_filter ran_def t bind_eq_Some_conv)
  then have "query_answered mc sp h log (k\<lparr>sh_pc := pc'\<rparr>)"
    unfolding query_answered_def by (intro allI impI exI [of _ log] exI [of _ "[]"]) (simp add: t e)
  with x vs ok t show ?thesis
    by (simp add: trip_ok_def e h task_ok_def call_effects_def placed_def)
qed

lemma trip_scan:
  assumes srv: "redis_server R expire hash up" and u: "up r" and h: "hash r = logged log h"
    and ok: "task_ok mc sp h j k log" and pc: "sh_pc k = ShScan cursor c"
    and s: "shared_step R mc sp k r = Some (es, pc', r')"
  shows "trip_ok mc sp hash up h j k log es pc' r'"
proof -
  let ?ans = "rd_scan R cursor (sp_prefix sp @ '':*'') 100 r"
  have x: "up (snd ?ans)" "hash (snd ?ans) = hash r" using srv u by (simp_all add: redis_server_def)
  from s pc have e: "es = []" "r' = snd ?ans"
    and after: "pc' = ShDone [] \<or> (\<exists>keys cur. pc' = pruned_pc c (Some (keys, cur)))"
    by (auto simp: shared_step_def split: prod.splits option.splits)
  from ok pc have call: "sh_call k = ShRemove c" and own: "call_effects mc sp k (own_effects j log)"
    by (simp_all add: task_ok_def placed_def)
  have "task_ok mc sp h j (k\<lparr>sh_pc := pc'\<rparr>) log"
  proof (cases "pc' = ShDone []")
    case True
    with own call show ?thesis by (simp add: task_ok_def call_effects_def placed_def query_answered_def)
  next
    case False
    then obtain keys cur where pc': "pc' = pruned_pc c (Some (keys, cur))" using after by blast
    have "owns sp (sh_call k) [] c (Some (keys, cur))" by (simp add: owns_def call)
    from pruned_ok [OF this _ own] call show ?thesis by (simp add: task_ok_def pc')
  qed
  with x show ?thesis by (simp add: trip_ok_def e h)
qed

lemmas trips = trip_connect trip_hset trip_hdel trip_hlen trip_del trip_hvals trip_scan

lemma trip:
  assumes "redis_server R expire hash up" "up r" "hash r = logged log h" "task_ok mc sp h j k log"
    and s: "shared_step R mc sp k r = Some (es, pc', r')"
  shows "trip_ok mc sp hash up h j k log es pc' r'"
proof (cases "sh_pc k")
  case (ShDone ms)
  with s show ?thesis by (simp add: shared_step_def)
qed (rule trips [OF assms(1-4) _ s], assumption)+


subsection \<open>A schedule\<close>

definition prunes_ok :: "(string \<Rightarrow> string \<Rightarrow> string option) \<Rightarrow> shared_log \<Rightarrow> bool" where
  "prunes_ok h log \<longleftrightarrow>
     (\<forall>n j k. n < length log \<and> log ! n = (Some j, Prune k) \<longrightarrow> emptied h j k (take n log))"

definition store_ok where
  "store_ok mc sp hash up h log ks r \<longleftrightarrow>
     up r \<and> hash r = logged log h \<and> (\<forall>j < length ks. task_ok mc sp h j (ks ! j) log) \<and> prunes_ok h log"

lemma step_effects: "shared_step R mc sp k r = Some (es, pc, r') \<Longrightarrow> es = [] \<or> (\<exists>e. es = [e])"
  by (auto simp: shared_step_def split: shared_pc.splits prod.splits option.splits if_splits)

lemma prunes_ok_snoc:
  assumes "prunes_ok h log" and "\<And>j k. i = (Some j, Prune k) \<Longrightarrow> emptied h j k log"
  shows "prunes_ok h (log @ [i])"
  using assms by (auto simp: prunes_ok_def nth_append less_Suc_eq)

lemma shared_event_ok:
  assumes srv: "redis_server R expire hash up" and ok: "store_ok mc sp hash up h log ks r"
    and ev: "shared_run_event R mc sp expire e (ks, r) = Some (l, ks', r')"
  shows "store_ok mc sp hash up h (log @ l) ks' r'" and "map sh_call ks' = map sh_call ks"
    and "\<forall>(i, x) \<in> set l. case i of Some j \<Rightarrow> j < length ks | None \<Rightarrow> (\<exists>k. x = Expired k \<and> e = Expires k)"
proof -
  have u: "up r" "hash r = logged log h" and tasks: "\<And>j. j < length ks \<Longrightarrow> task_ok mc sp h j (ks ! j) log"
    and prunes: "prunes_ok h log" using ok by (simp_all add: store_ok_def)
  have "store_ok mc sp hash up h (log @ l) ks' r' \<and> map sh_call ks' = map sh_call ks \<and>
    (\<forall>(i, x) \<in> set l. case i of Some j \<Rightarrow> j < length ks | None \<Rightarrow> (\<exists>k. x = Expired k \<and> e = Expires k))"
  proof (cases e)
    case (Trip j)
    with ev obtain es pc where j: "j < length ks" and s: "shared_step R mc sp (ks ! j) r = Some (es, pc, r')"
      and l: "l = map (Pair (Some j)) es" and ks': "ks' = ks[j := (ks ! j)\<lparr>sh_pc := pc\<rparr>]"
      by (auto simp: shared_run_event_def split: if_splits)
    have t: "trip_ok mc sp hash up h j (ks ! j) log es pc r'" by (rule trip [OF srv u tasks [OF j] s])
    have "task_ok mc sp h i (ks' ! i) (log @ l)" if "i < length ks'" for i
      using that t task_ok_append [OF tasks, of i l] by (cases "i = j") (simp_all add: ks' l trip_ok_def)
    moreover have "prunes_ok h (log @ l)"
      using step_effects [OF s] t prunes by (auto simp: l trip_ok_def intro!: prunes_ok_snoc)
    moreover have "map sh_call ks' = map sh_call ks" using j by (simp add: ks' list_eq_iff_nth_eq nth_list_update)
    ultimately show ?thesis using t j by (auto simp: store_ok_def trip_ok_def l)
  next
    case (Expires k)
    with ev have l: "l = [(None, Expired k)]" and ks': "ks' = ks" and r': "r' = expire k r"
      by (simp_all add: shared_run_event_def)
    have "task_ok mc sp h i (ks ! i) (log @ l)" if "i < length ks" for i
      by (rule task_ok_append [OF tasks [OF that]]) (simp add: l)
    moreover have "prunes_ok h (log @ l)" unfolding l by (rule prunes_ok_snoc [OF prunes]) simp
    moreover have "up r'" "hash r' = logged (log @ l) h" using srv u by (simp_all add: redis_server_def r' l)
    ultimately show ?thesis by (simp add: store_ok_def ks' l Expires)
  qed
  then show "store_ok mc sp hash up h (log @ l) ks' r'" and "map sh_call ks' = map sh_call ks"
    and "\<forall>(i, x) \<in> set l. case i of Some j \<Rightarrow> j < length ks | None \<Rightarrow> (\<exists>k. x = Expired k \<and> e = Expires k)" by blast+
qed

lemma shared_exec_ok:
  "redis_server R expire hash up \<Longrightarrow> store_ok mc sp hash up h log ks r \<Longrightarrow>
   shared_exec R mc sp expire es (ks, r) = Some (l, ks', r') \<Longrightarrow>
   store_ok mc sp hash up h (log @ l) ks' r' \<and> map sh_call ks' = map sh_call ks \<and>
   (\<forall>(i, x) \<in> set l. case i of Some j \<Rightarrow> j < length ks | None \<Rightarrow> (\<exists>k. x = Expired k \<and> Expires k \<in> set es))"
proof (induction es arbitrary: log ks r l)
  case (Cons e es)
  from Cons.prems(3) obtain l1 ks1 r1 l2 where e: "shared_run_event R mc sp expire e (ks, r) = Some (l1, ks1, r1)"
    and es: "shared_exec R mc sp expire es (ks1, r1) = Some (l2, ks', r')" and l: "l = l1 @ l2"
    by (auto split: option.splits)
  note 1 = shared_event_ok [OF Cons.prems(1,2) e]
  have "length ks1 = length ks" using 1(2) map_eq_imp_length_eq by blast
  with 1(2,3) Cons.IH [OF Cons.prems(1) 1(1) es] show ?case by (auto simp: l split: option.splits; fastforce)
qed simp


text \<open>
  C37: The shared store under concurrency.  The tasks of any number of nodes track, untrack, list and
  remove connections against one Redis server that answers and obeys the documented effect of the hash
  commands; their round trips interleave freely with each other and with the expiry of keys.  Then the
  hashes are what the effects in the log make of them, in its order, and nothing else is in the log: an
  expiry of a key, and for each call its own effects - a track that returned put its member once (if it has
  a JSON text), an untrack deleted that one field and perhaps pruned the key after, a query changed nothing,
  a removal deleted fields of its connection only and pruned keys.  A query that returned listed exactly the members its topic had at
  one moment.  A prune comes after its task deleted a field of the key and then saw the key empty; whatever
  else it erases was tracked since that moment, so a member who joins between the \<open>HLEN\<close> and the \<open>DEL\<close>
  of another's untrack is lost.
\<close>

theorem shared_presence_contract:
  assumes "redis_server R expire hash up" and "up r"
    and "shared_exec R mc sp expire es (map shared_task calls, r) = Some (log, ks, r')"
  shows "hash r' = logged log (hash r) \<and> map sh_call ks = calls \<and>
    (\<forall>(i, e) \<in> set log. case i of Some j \<Rightarrow> j < length calls | None \<Rightarrow> \<exists>k. e = Expired k \<and> Expires k \<in> set es) \<and>
    (\<forall>j < length calls. call_effects mc sp (ks ! j) (own_effects j log) \<and> query_answered mc sp (hash r) log (ks ! j)) \<and>
    (\<forall>n j k. n < length log \<and> log ! n = (Some j, Prune k) \<longrightarrow>
       (\<exists>a b f. take n log = a @ b \<and> (Some j, Drop k f) \<in> set a \<and> logged a (hash r) k = Map.empty \<and>
          (\<forall>c. logged (take n log) (hash r) k c \<noteq> None \<longrightarrow> (\<exists>i v. (i, Put k c v) \<in> set b))))"
proof -
  have "store_ok mc sp hash up (hash r) [] (map shared_task calls) r"
    using assms(2) by (auto simp: store_ok_def task_ok_def shared_task_def call_effects_def query_answered_def
        placed_def prunes_ok_def split: shared_call.split)
  from shared_exec_ok [OF assms(1) this assms(3), unfolded length_map]
  have ok: "store_ok mc sp hash up (hash r) log ks r'" and calls: "map sh_call ks = calls"
    and due: "\<forall>(i, e) \<in> set log. case i of Some j \<Rightarrow> j < length calls | None \<Rightarrow> \<exists>k. e = Expired k \<and> Expires k \<in> set es"
    by (simp_all add: o_def shared_task_def)
  have "length ks = length calls" using calls by (metis length_map)
  with ok have tasks: "\<forall>j < length calls. call_effects mc sp (ks ! j) (own_effects j log) \<and> query_answered mc sp (hash r) log (ks ! j)"
    by (simp add: store_ok_def task_ok_def)
  have "\<exists>a b f. take n log = a @ b \<and> (Some j, Drop k f) \<in> set a \<and> logged a (hash r) k = Map.empty \<and>
      (\<forall>c. logged (take n log) (hash r) k c \<noteq> None \<longrightarrow> (\<exists>i v. (i, Put k c v) \<in> set b))"
    if "n < length log \<and> log ! n = (Some j, Prune k)" for n j k
  proof -
    have "emptied (hash r) j k (take n log)" using ok that by (simp add: store_ok_def prunes_ok_def)
    then obtain a b f where "take n log = a @ b" "(Some j, Drop k f) \<in> set a" and e: "logged a (hash r) k = Map.empty"
      unfolding emptied_def by blast
    moreover have "\<exists>i v. (i, Put k c v) \<in> set b" if "logged (take n log) (hash r) k c \<noteq> None" for c
      using that put_since [of b "logged a (hash r)" k c] e \<open>take n log = a @ b\<close> by auto
    ultimately show ?thesis by blast
  qed
  with ok calls due tasks show ?thesis by (simp add: store_ok_def)
qed

text \<open>Bob joins on another node between the count and the prune of Alice's untrack; the query after it lists
  nobody.\<close>

definition demo_shared_calls :: "shared_call list" where
  "demo_shared_calls =
     [ShUntrack ''room/1'' ''conn-1'', ShTrack ''room/1'' (demo_member ''conn-2'' ''bob''), ShMembers ''room/1'']"

definition demo_shared_events :: "shared_event list" where
  "demo_shared_events = map Trip [0, 0, 0, 1, 1, 0, 2, 2]"

lemmas eval_dm = dm_get_def dm_insert_def dm_remove_def dm_entry_def dm_modify_def dm_keys_def

lemma mem_redis_server: "redis_server mem_redis dm_remove mem_hash (\<lambda>_. True)"
  unfolding redis_server_def using mem_redis_contract by (auto simp: mem_redis_def mem_hash_def fun_eq_iff)

theorem shared_presence_contract_witness:
  "let r = [(''presence:room/1'', [(''conn-1'', ''alice'')])]
   in \<exists>log ks r'. shared_exec mem_redis demo_codec (shared_new ''u'') dm_remove demo_shared_events
        (map shared_task demo_shared_calls, r) = Some (log, ks, r') \<and>
      log = [(Some 0, Drop ''presence:room/1'' ''conn-1''), (Some 1, Put ''presence:room/1'' ''conn-2'' ''bob''),
        (Some 0, Prune ''presence:room/1'')] \<and>
      map sh_pc ks = [ShDone [], ShDone [], ShDone []] \<and> mem_hash r' = logged log (mem_hash r) \<and>
      listed demo_codec (shared_new ''u'') (mem_hash r') ''room/1'' = {}"
proof -
  let ?r = "[(''presence:room/1'', [(''conn-1'', ''alice'')])]"
  let ?log = "[(Some 0, Drop ''presence:room/1'' ''conn-1''), (Some 1, Put ''presence:room/1'' ''conn-2'' ''bob''),
        (Some 0, Prune ''presence:room/1'')]"
  obtain ks r' where run: "shared_exec mem_redis demo_codec (shared_new ''u'') dm_remove demo_shared_events
        (map shared_task demo_shared_calls, ?r) = Some (?log, ks, r')"
    and pcs: "map sh_pc ks = [ShDone [], ShDone [], ShDone []]" and r': "r' = []"
    by (simp add: demo_shared_events_def demo_shared_calls_def shared_run_event_def alone_defs mem_redis_def demo_codec_def
        demo_member_def shared_new_def shared_key_def PRESENCE_KEY_PREFIX_def List.map_filter_def eval_dm)
  from shared_presence_contract [OF mem_redis_server TrueI run] have "mem_hash r' = logged ?log (mem_hash ?r)" by blast
  moreover have "listed demo_codec (shared_new ''u'') (mem_hash r') ''room/1'' = {}"
    by (simp add: listed_def r' mem_hash_def)
  ultimately show ?thesis unfolding Let_def using run pcs
    by (intro exI [of _ ?log] exI [of _ ks] exI [of _ r'] conjI) (assumption | rule refl)+
qed

end
