(* ===== verification/Rt_Irc_Tasks.thy ===== *)
theory Rt_Irc_Tasks
  imports Rt_Irc_Bus
begin

text \<open>
  Concurrent publishes of the IRC bus: \<open>publish_as_user\<close> and \<open>reap_idle\<close> of
  \<open>crates/realtime-bus-irc/src/session_manager.rs\<close>, taken apart into their accesses to the map of users, to a
  session's set of joined channels and to its command channel, and interleaved with each other and with
  the sessions, which take commands and end.  Lemmas: a publish that nothing interrupts is the function of
  \<open>Rt_Irc_Bus\<close>; in every interleaving a session is of one user, a channel is joined once in it, and a message
  comes after the \<open>JOIN\<close> of its channel unless another publish of the same user to the same channel, which
  has marked the channel as joined, has not sent it yet.
\<close>

subsection \<open>The tasks\<close>

datatype irc_job = JobPublish string string string string | JobReap nat

text \<open>The next access of a task; the number is the session whose handle the task holds, the flag whether
  it was the \<open>JOIN\<close> that found the session ended.  A reaper's scan has the keys left to look at and the stale ones found, with the time it started at.\<close>

datatype irc_pc =
    JobStart
  | PubCreate
  | PubLock nat
  | PubJoin nat
  | PubSay nat
  | PubStamp nat
  | PubSaid nat
  | PubDropping nat bool
  | PubDropped nat bool
  | ReapScan nat "string list" "string list"
  | ReapEach "string list"
  | ReapQuit nat "string list"

record IrcTask =
  it_job :: irc_job
  it_pc :: irc_pc

definition irc_task :: "irc_job \<Rightarrow> IrcTask" where
  "irc_task job = \<lparr>it_job = job, it_pc = JobStart\<rparr>"

text \<open>A send, with what is next when it succeeds and when the session has ended.  It waits (\<open>None\<close>) while the
  channel is full.\<close>

definition send_step ::
    "nat \<Rightarrow> string \<Rightarrow> irc_pc \<Rightarrow> irc_pc \<Rightarrow> SessionManager \<Rightarrow> ((nat \<times> string) list \<times> irc_pc \<times> SessionManager) option" where
  "send_step i cmd sent failed m =
     map_option (\<lambda>(ok, m). (if ok then [(i, cmd)] else [], if ok then sent else failed, m)) (handle_send i cmd m)"

definition publish_step ::
    "string \<Rightarrow> string \<Rightarrow> string \<Rightarrow> string \<Rightarrow> nat \<Rightarrow> irc_pc \<Rightarrow> SessionManager \<Rightarrow>
       ((nat \<times> string) list \<times> irc_pc \<times> SessionManager) option" where
  "publish_step user_id handle channel msg now pc m =
     (case pc of
        JobStart \<Rightarrow>
          Some ([], (case dm_get (sm_users m) user_id of Some existing \<Rightarrow> PubLock existing | None \<Rightarrow> PubCreate), m)
      | PubCreate \<Rightarrow> (let (i, m) = get_or_create user_id handle now m in Some ([], PubLock i, m))
      | PubLock i \<Rightarrow>
          (let (join, m) = need_join i channel m in Some ([], if join then PubJoin i else PubSay i, m))
      | PubJoin i \<Rightarrow> send_step i (''JOIN '' @ channel) (PubSay i) (PubDropping i True) m
      | PubSay i \<Rightarrow> send_step i (''PRIVMSG '' @ channel @ '' :'' @ msg) (PubStamp i) (PubDropping i False) m
      | PubStamp i \<Rightarrow> Some ([], PubSaid i, handle_update i (\<lambda>h. h\<lparr>uh_last_active := now\<rparr>) m)
      | PubDropping i joining \<Rightarrow> Some ([], PubDropped i joining, drop_user user_id m)
      | _ \<Rightarrow> None)"

definition reap_step ::
    "nat \<Rightarrow> nat \<Rightarrow> irc_pc \<Rightarrow> SessionManager \<Rightarrow> ((nat \<times> string) list \<times> irc_pc \<times> SessionManager) option" where
  "reap_step max_idle now pc m =
     (case pc of
        JobStart \<Rightarrow> Some ([], ReapScan now (dm_keys (sm_users m)) [], m)
      | ReapScan started (key # keys) stale \<Rightarrow>
          Some ([], ReapScan started keys
            (case dm_get (sm_users m) key of
               Some i \<Rightarrow> if max_idle < started - uh_last_active (sm_handles m ! i) then stale @ [key] else stale
             | None \<Rightarrow> stale), m)
      | ReapScan started [] stale \<Rightarrow> Some ([], ReapEach stale, m)
      | ReapEach (key # stale) \<Rightarrow>
          (case dm_get (sm_users m) key of
             None \<Rightarrow> Some ([], ReapEach stale, m)
           | Some i \<Rightarrow> Some ([], ReapQuit i stale, drop_user key m))
      | ReapQuit i stale \<Rightarrow> send_step i ''QUIT :idle'' (ReapEach stale) (ReapEach stale) m
      | _ \<Rightarrow> None)"

definition irc_task_step ::
    "nat \<Rightarrow> IrcTask \<Rightarrow> SessionManager \<Rightarrow> ((nat \<times> string) list \<times> irc_pc \<times> SessionManager) option" where
  "irc_task_step now k m =
     (case it_job k of
        JobPublish user_id handle channel msg \<Rightarrow> publish_step user_id handle channel msg now (it_pc k) m
      | JobReap max_idle \<Rightarrow> reap_step max_idle now (it_pc k) m)"

text \<open>A schedule: the task that makes its next access, at a time; the session that takes a command or ends.
  The log has the commands sent, with the task and the session.\<close>

datatype irc_turn = Runs nat nat | Takes nat | Ends nat

type_synonym irc_log = "(nat \<times> nat \<times> string) list"

definition irc_task_event ::
    "irc_turn \<Rightarrow> IrcTask list \<times> SessionManager \<Rightarrow> (irc_log \<times> IrcTask list \<times> SessionManager) option" where
  "irc_task_event e = (\<lambda>(ks, m).
     case e of
       Runs j now \<Rightarrow>
         if j < length ks
         then map_option (\<lambda>(l, pc, m). (map (Pair j) l, ks[j := (ks ! j)\<lparr>it_pc := pc\<rparr>], m)) (irc_task_step now (ks ! j) m)
         else None
     | Takes i \<Rightarrow> map_option (\<lambda>m. ([], ks, m)) (irc_step (OpTake i) m)
     | Ends i \<Rightarrow> map_option (\<lambda>m. ([], ks, m)) (irc_step (OpEnd i) m))"

fun irc_exec ::
    "irc_turn list \<Rightarrow> IrcTask list \<times> SessionManager \<Rightarrow> (irc_log \<times> IrcTask list \<times> SessionManager) option" where
  "irc_exec [] s = Some ([], s)"
| "irc_exec (e # es) s =
     (case irc_task_event e s of
        None \<Rightarrow> None
      | Some (l, s) \<Rightarrow> map_option (\<lambda>(l', s). (l @ l', s)) (irc_exec es s))"

subsection \<open>A publish alone\<close>

text \<open>The steps of one task, up to a wait or its end.\<close>

fun irc_alone :: "nat \<Rightarrow> nat \<Rightarrow> IrcTask \<times> SessionManager \<Rightarrow> IrcTask \<times> SessionManager" where
  "irc_alone 0 now s = s"
| "irc_alone (Suc n) now (k, m) =
     (case irc_task_step now k m of
        None \<Rightarrow> (k, m)
      | Some (_, pc, m) \<Rightarrow> irc_alone n now (k\<lparr>it_pc := pc\<rparr>, m))"

lemmas irc_alone_defs = irc_task_step_def publish_step_def send_step_def

lemma say_alone:
  assumes "send_privmsg i u ch msg now m = Some m'"
  shows "\<exists>pc b. irc_alone 2 now (\<lparr>it_job = JobPublish u h ch msg, it_pc = PubSay i\<rparr>, m) =
      (\<lparr>it_job = JobPublish u h ch msg, it_pc = pc\<rparr>, m') \<and> (pc = PubSaid i \<or> pc = PubDropped i b)"
  using assms by (auto simp: numeral_2_eq_2 irc_alone_defs send_privmsg_def bind_eq_Some_conv split: if_splits)

lemma irc_alone_add: "irc_alone (a + n) now s = irc_alone n now (irc_alone a now s)"
proof (induction a arbitrary: s)
  case (Suc a)
  obtain k m where s: "s = (k, m)" by fastforce
  have "irc_alone n now (k, m) = (k, m)" if "irc_task_step now k m = None" for n
    using that by (cases n) simp_all
  with Suc.IH show ?case by (simp add: s split: option.split prod.split)
qed simp

lemma publish_alone:
  assumes "publish_as_user u h ch msg now m = Some m'"
  shows "\<exists>n pc i b. irc_alone n now (irc_task (JobPublish u h ch msg), m) =
      (\<lparr>it_job = JobPublish u h ch msg, it_pc = pc\<rparr>, m') \<and> (pc = PubSaid i \<or> pc = PubDropped i b)"
proof -
  let ?k = "\<lambda>pc. \<lparr>it_job = JobPublish u h ch msg, it_pc = pc\<rparr>"
  obtain i m1 where g: "get_or_create u h now m = (i, m1)" by fastforce
  have 1: "irc_alone (if dm_get (sm_users m) u = None then 2 else 1) now (irc_task (JobPublish u h ch msg), m) = (?k (PubLock i), m1)"
    using g by (cases "dm_get (sm_users m) u")
      (auto simp: irc_task_def numeral_2_eq_2 irc_alone_defs get_or_create_def split: prod.splits)
  obtain join m2 where n: "need_join i ch m1 = (join, m2)" by fastforce
  have 2: "irc_alone 1 now (?k (PubLock i), m1) = (?k (if join then PubJoin i else PubSay i), m2)"
    using n by (simp add: irc_alone_defs)
  have "\<exists>n pc b. irc_alone n now (?k (if join then PubJoin i else PubSay i), m2) = (?k pc, m') \<and> (pc = PubSaid i \<or> pc = PubDropped i b)"
  proof (cases join)
    case False
    with assms g n have "send_privmsg i u ch msg now m2 = Some m'" by (simp add: publish_as_user_def)
    from say_alone [OF this, of h] False show ?thesis by auto
  next
    case True
    with assms g n obtain ok m3 where s: "handle_send i (''JOIN '' @ ch) m2 = Some (ok, m3)"
      and r: "(if \<not> ok then Some (drop_user u m3) else send_privmsg i u ch msg now m3) = Some m'"
      by (auto simp: publish_as_user_def bind_eq_Some_conv)
    show ?thesis
    proof (cases ok)
      case True
      with r have "send_privmsg i u ch msg now m3 = Some m'" by simp
      from say_alone [OF this, of h] s True \<open>join\<close> show ?thesis
        by (intro exI [of _ "1 + 2"], subst irc_alone_add) (simp add: irc_alone_defs)
    next
      case False
      with s r \<open>join\<close> show ?thesis by (intro exI [of _ 2]) (auto simp: numeral_2_eq_2 irc_alone_defs)
    qed
  qed
  then obtain n pc b where "irc_alone n now (?k (if join then PubJoin i else PubSay i), m2) = (?k pc, m')"
    and "pc = PubSaid i \<or> pc = PubDropped i b" by blast
  with 1 2 show ?thesis
    by (intro exI [of _ "(if dm_get (sm_users m) u = None then 2 else 1) + (1 + n)"] exI [of _ pc] exI [of _ i] exI [of _ b])
      (simp only: irc_alone_add simp_thms)
qed


subsection \<open>What a schedule keeps\<close>

definition handle_open :: "SessionManager \<Rightarrow> nat \<Rightarrow> bool" where
  "handle_open m i = mc_open (uh_cmd (sm_handles m ! i))"

definition joined :: "SessionManager \<Rightarrow> nat \<Rightarrow> string set" where
  "joined m i = set (uh_joined (sm_handles m ! i))"

definition sent_to :: "nat \<Rightarrow> irc_log \<Rightarrow> string list" where
  "sent_to i log = map (\<lambda>(_, _, c). c) (filter (\<lambda>(_, i', _). i' = i) log)"

definition own_sends :: "nat \<Rightarrow> irc_log \<Rightarrow> (nat \<times> string) list" where
  "own_sends j log = map snd (filter (\<lambda>(j', _). j' = j) log)"

lemma sent_to_simps [simp]:
  "sent_to i [] = []" "sent_to i (a @ b) = sent_to i a @ sent_to i b"
  "sent_to i ((j, i', c) # log) = (if i' = i then c # sent_to i log else sent_to i log)"
  by (simp_all add: sent_to_def)

lemma own_sends_simps [simp]:
  "own_sends j [] = []" "own_sends j (a @ b) = own_sends j a @ own_sends j b"
  "own_sends j ((j', s) # log) = (if j' = j then s # own_sends j log else own_sends j log)"
  by (simp_all add: own_sends_def)

lemma own_sends_iff: "s \<in> set (own_sends j log) \<longleftrightarrow> (j, s) \<in> set log"
  by (force simp: own_sends_def)

text \<open>Sessions are added, joined sets grow, an ended session stays ended.\<close>

definition grows :: "SessionManager \<Rightarrow> SessionManager \<Rightarrow> bool" where
  "grows m m' \<longleftrightarrow> length (sm_handles m) \<le> length (sm_handles m') \<and>
     (\<forall>i < length (sm_handles m). joined m i \<subseteq> joined m' i \<and> (handle_open m' i \<longrightarrow> handle_open m i))"

text \<open>Where a task is and what it has sent, for the user its session is of.\<close>

definition publish_fine ::
    "(nat \<Rightarrow> string) \<Rightarrow> SessionManager \<Rightarrow> string \<Rightarrow> string \<Rightarrow> string \<Rightarrow> irc_pc \<Rightarrow> (nat \<times> string) list \<Rightarrow> bool" where
  "publish_fine owner m u ch msg pc sends =
     (let own = (\<lambda>i. i < length (sm_handles m) \<and> owner i = u);
          join = (\<lambda>i. (i, join_line ch)); say = (\<lambda>i. (i, said ch msg))
      in case pc of
           JobStart \<Rightarrow> sends = []
         | PubCreate \<Rightarrow> sends = []
         | PubLock i \<Rightarrow> own i \<and> sends = []
         | PubJoin i \<Rightarrow> own i \<and> sends = [] \<and> ch \<in> joined m i
         | PubSay i \<Rightarrow> own i \<and> (sends = [] \<or> sends = [join i]) \<and> ch \<in> joined m i
         | PubStamp i \<Rightarrow> own i \<and> (sends = [say i] \<or> sends = [join i, say i])
         | PubSaid i \<Rightarrow> own i \<and> (sends = [say i] \<or> sends = [join i, say i])
         | PubDropping i joining \<Rightarrow> own i \<and> (sends = [] \<or> \<not> joining \<and> sends = [join i]) \<and> \<not> handle_open m i
         | PubDropped i joining \<Rightarrow> own i \<and> (sends = [] \<or> \<not> joining \<and> sends = [join i]) \<and> \<not> handle_open m i
         | _ \<Rightarrow> False)"

definition reap_fine :: "SessionManager \<Rightarrow> irc_pc \<Rightarrow> (nat \<times> string) list \<Rightarrow> bool" where
  "reap_fine m pc sends \<longleftrightarrow>
     list_all (\<lambda>(i, c). i < length (sm_handles m) \<and> c = ''QUIT :idle'') sends \<and>
     (case pc of JobStart \<Rightarrow> True | ReapScan _ _ _ \<Rightarrow> True | ReapEach _ \<Rightarrow> True
        | ReapQuit i _ \<Rightarrow> i < length (sm_handles m) | _ \<Rightarrow> False)"

definition task_fine :: "(nat \<Rightarrow> string) \<Rightarrow> SessionManager \<Rightarrow> IrcTask \<Rightarrow> (nat \<times> string) list \<Rightarrow> bool" where
  "task_fine owner m k sends =
     (case it_job k of
        JobPublish u h ch msg \<Rightarrow> publish_fine owner m u ch msg (it_pc k) sends
      | JobReap idle \<Rightarrow> reap_fine m (it_pc k) sends)"

lemma task_fine_grows:
  assumes "task_fine owner m k sends" and "grows m m'" and "\<And>i. i < length (sm_handles m) \<Longrightarrow> owner' i = owner i"
  shows "task_fine owner' m' k sends"
proof (cases "it_job k")
  case (JobPublish u h ch msg)
  with assms show ?thesis
    by (cases "it_pc k") (auto simp: task_fine_def publish_fine_def grows_def Let_def)
next
  case (JobReap idle)
  with assms show ?thesis
    by (cases "it_pc k") (auto simp: task_fine_def reap_fine_def grows_def list_all_iff)
qed

text \<open>The task that joins a channel in a session: it is about to send the \<open>JOIN\<close>, or has.\<close>

definition at_join :: "IrcTask list \<Rightarrow> nat \<Rightarrow> nat \<Rightarrow> string \<Rightarrow> bool" where
  "at_join ks j i ch \<longleftrightarrow> j < length ks \<and> it_pc (ks ! j) = PubJoin i \<and> (\<exists>u h msg. it_job (ks ! j) = JobPublish u h ch msg)"

definition joins :: "irc_log \<Rightarrow> IrcTask list \<Rightarrow> nat \<Rightarrow> nat \<Rightarrow> string \<Rightarrow> bool" where
  "joins log ks j i ch \<longleftrightarrow> (j, i, join_line ch) \<in> set log \<or> at_join ks j i ch"

definition joins_ok :: "irc_log \<Rightarrow> IrcTask list \<Rightarrow> SessionManager \<Rightarrow> bool" where
  "joins_ok log ks m \<longleftrightarrow>
     (\<forall>j i ch. joins log ks j i ch \<longrightarrow> i < length (sm_handles m) \<and> ch \<in> joined m i) \<and>
     (\<forall>j j' i ch. joins log ks j i ch \<and> joins log ks j' i ch \<longrightarrow> j = j') \<and>
     (\<forall>i < length (sm_handles m). \<forall>ch \<in> joined m i. (\<exists>j. joins log ks j i ch) \<or> \<not> handle_open m i)"

text \<open>The task that marked the channel in the session as joined: it has sent the \<open>JOIN\<close>, is about to, or
  found the session ended when it tried.\<close>

definition behind :: "irc_log \<Rightarrow> IrcTask list \<Rightarrow> nat \<Rightarrow> nat \<Rightarrow> string \<Rightarrow> bool" where
  "behind log ks j i ch \<longleftrightarrow> (j, i, join_line ch) \<in> set log \<or>
     (j < length ks \<and> (it_pc (ks ! j) = PubJoin i \<or> it_pc (ks ! j) = PubDropping i True \<or> it_pc (ks ! j) = PubDropped i True) \<and>
      (\<exists>u h msg. it_job (ks ! j) = JobPublish u h ch msg))"

definition order_ok :: "irc_log \<Rightarrow> IrcTask list \<Rightarrow> bool" where
  "order_ok log ks \<longleftrightarrow>
     (\<forall>n j i u h ch msg. n < length log \<and> log ! n = (j, i, said ch msg) \<and> it_job (ks ! j) = JobPublish u h ch msg \<longrightarrow>
        (\<exists>j'. (j', i, join_line ch) \<in> set (take n log)) \<or>
        (\<exists>j'. j' \<noteq> j \<and> own_sends j' (take n log) = [] \<and> behind log ks j' i ch))"

definition tasks_ok :: "(nat \<Rightarrow> string) \<Rightarrow> irc_log \<Rightarrow> IrcTask list \<Rightarrow> SessionManager \<Rightarrow> bool" where
  "tasks_ok owner log ks m \<longleftrightarrow>
     (\<forall>u i. dm_get (sm_users m) u = Some i \<longrightarrow> i < length (sm_handles m) \<and> owner i = u) \<and>
     (\<forall>i < length (sm_handles m). commands m i = sent_to i log) \<and>
     (\<forall>(j, i, c) \<in> set log. j < length ks \<and> i < length (sm_handles m)) \<and>
     (\<forall>j < length ks. task_fine owner m (ks ! j) (own_sends j log)) \<and>
     joins_ok log ks m \<and> order_ok log ks"

text \<open>No command of one kind is one of another.\<close>

lemma lines_differ [simp]:
  "join_line ch = join_line ch' \<longleftrightarrow> ch = ch'" "join_line ch \<noteq> said ch' msg" "said ch' msg \<noteq> join_line ch"
  "join_line ch \<noteq> ''QUIT :idle''" "said ch msg \<noteq> ''QUIT :idle''" "''QUIT :idle'' \<noteq> join_line ch" "''QUIT :idle'' \<noteq> said ch msg"
  by (simp_all add: join_line_def said_def)


subsection \<open>Steps\<close>

lemma behind_step:
  assumes "irc_task_step now (ks ! j) m = Some (l, pc, m')" and "behind log ks j' i ch"
  shows "behind (log @ map (Pair j) l) (ks[j := (ks ! j)\<lparr>it_pc := pc\<rparr>]) j' i ch"
proof (cases "j' = j \<and> (j', i, join_line ch) \<notin> set log")
  case True
  with assms(2) obtain u h msg where j: "j < length ks" and job: "it_job (ks ! j) = JobPublish u h ch msg"
    and pcs: "it_pc (ks ! j) = PubJoin i \<or> it_pc (ks ! j) = PubDropping i True \<or> it_pc (ks ! j) = PubDropped i True"
    by (auto simp: behind_def)
  from assms(1) job have step: "publish_step u h ch msg now (it_pc (ks ! j)) m = Some (l, pc, m')"
    by (simp add: irc_task_step_def)
  from pcs have "(i, join_line ch) \<in> set l \<or> pc = PubDropping i True \<or> pc = PubDropped i True"
    using step by (auto simp: publish_step_def send_step_def join_line_def split: if_splits)
  with True j job show ?thesis by (auto simp: behind_def)
next
  case False
  with assms(2) show ?thesis by (cases "j' = j") (auto simp: behind_def)
qed

lemma order_step:
  assumes ord: "order_ok log ks" and step: "irc_task_step now (ks ! j) m = Some (l, pc, m')"
    and own: "\<forall>(j, i, c) \<in> set log. j < length ks"
    and l: "l = [] \<or> (\<exists>s. l = [s])"
    and new: "\<And>i u h ch msg. it_job (ks ! j) = JobPublish u h ch msg \<Longrightarrow> l = [(i, said ch msg)] \<Longrightarrow>
      (\<exists>j'. (j', i, join_line ch) \<in> set log) \<or> (\<exists>j'. j' \<noteq> j \<and> own_sends j' log = [] \<and> behind log ks j' i ch)"
  shows "order_ok (log @ map (Pair j) l) (ks[j := (ks ! j)\<lparr>it_pc := pc\<rparr>])" (is "order_ok ?log ?ks")
  unfolding order_ok_def
proof (intro allI impI, elim conjE)
  fix n j0 i u h ch msg
  assume n: "n < length ?log" and at: "?log ! n = (j0, i, said ch msg)" and job: "it_job (?ks ! j0) = JobPublish u h ch msg"
  have job': "it_job (ks ! j0) = JobPublish u h ch msg"
    using job by (cases "j0 = j \<and> j < length ks") (auto simp: nth_list_update list_update_beyond)
  show "(\<exists>j'. (j', i, join_line ch) \<in> set (take n ?log)) \<or>
      (\<exists>j'. j' \<noteq> j0 \<and> own_sends j' (take n ?log) = [] \<and> behind ?log ?ks j' i ch)"
  proof (cases "n < length log")
    case True
    with at have "log ! n = (j0, i, said ch msg)" by (simp add: nth_append)
    with True ord job' have "(\<exists>j'. (j', i, join_line ch) \<in> set (take n log)) \<or>
        (\<exists>j'. j' \<noteq> j0 \<and> own_sends j' (take n log) = [] \<and> behind log ks j' i ch)"
      unfolding order_ok_def by blast
    with True behind_step [OF step] show ?thesis by (simp add: less_imp_le) blast
  next
    case False
    with n l obtain s where "l = [s]" and len: "n = length log" by auto
    with at have j0: "j0 = j" and l': "l = [(i, said ch msg)]" by (auto simp: nth_append)
    have "take n ?log = log" using len by simp
    with new [of u h ch msg i] job' j0 l' behind_step [OF step] show ?thesis by auto
  qed
qed

lemma tasks_okD:
  assumes "tasks_ok owner log ks m"
  shows "dm_get (sm_users m) u = Some i \<Longrightarrow> i < length (sm_handles m) \<and> owner i = u"
    and "i < length (sm_handles m) \<Longrightarrow> commands m i = sent_to i log"
    and "\<forall>(j, i, c) \<in> set log. j < length ks \<and> i < length (sm_handles m)"
    and "j < length ks \<Longrightarrow> task_fine owner m (ks ! j) (own_sends j log)"
    and "joins_ok log ks m" and "order_ok log ks"
  using assms unfolding tasks_ok_def by blast+

lemma tasks_ok_frame:
  assumes ok: "tasks_ok owner log ks m" and j: "j < length ks"
    and step: "irc_task_step now (ks ! j) m = Some (l, pc, m')"
    and grow: "grows m m'" and own: "\<And>i. i < length (sm_handles m) \<Longrightarrow> owner' i = owner i"
    and users: "\<And>u i. dm_get (sm_users m') u = Some i \<Longrightarrow> i < length (sm_handles m') \<and> owner' i = u"
    and cmds: "\<And>i. i < length (sm_handles m') \<Longrightarrow> commands m' i = sent_to i (log @ map (Pair j) l)"
    and l: "l = [] \<or> (\<exists>i c. l = [(i, c)] \<and> i < length (sm_handles m))"
    and fine: "task_fine owner' m' ((ks ! j)\<lparr>it_pc := pc\<rparr>) (own_sends j log @ l)"
    and join: "joins_ok (log @ map (Pair j) l) (ks[j := (ks ! j)\<lparr>it_pc := pc\<rparr>]) m'"
    and new: "\<And>i u h ch msg. it_job (ks ! j) = JobPublish u h ch msg \<Longrightarrow> l = [(i, said ch msg)] \<Longrightarrow>
      (\<exists>j'. (j', i, join_line ch) \<in> set log) \<or> (\<exists>j'. j' \<noteq> j \<and> own_sends j' log = [] \<and> behind log ks j' i ch)"
  shows "tasks_ok owner' (log @ map (Pair j) l) (ks[j := (ks ! j)\<lparr>it_pc := pc\<rparr>]) m'"
proof -
  have len: "length (sm_handles m) \<le> length (sm_handles m')" using grow by (simp add: grows_def)
  have log: "\<forall>(j, i, c) \<in> set log. j < length ks" using tasks_okD(3) [OF ok] by blast
  have l': "l = [] \<or> (\<exists>s. l = [s])" using l by blast
  have "task_fine owner' m' (ks[j := (ks ! j)\<lparr>it_pc := pc\<rparr>] ! j') (own_sends j' (log @ map (Pair j) l))"
    if j': "j' < length ks" for j'
  proof (cases "j' = j")
    case True
    have "own_sends j (map (Pair j) l) = l" using l by auto
    with True fine j show ?thesis by simp
  next
    case False
    then have "own_sends j' (map (Pair j) l) = []" using l by auto
    with False task_fine_grows [OF tasks_okD(4) [OF ok j'] grow own] show ?thesis by simp
  qed
  moreover have "\<forall>(j', i, c) \<in> set (log @ map (Pair j) l). j' < length ks \<and> i < length (sm_handles m')"
    using tasks_okD(3) [OF ok] len l j by fastforce
  moreover note order_step [OF tasks_okD(6) [OF ok] step log l' new]
  ultimately show ?thesis using users cmds join unfolding tasks_ok_def by simp
qed

text \<open>No new mark: who joins what stays the same, or an ended session loses the task that was to join.\<close>

lemma joins_keep:
  assumes "joins_ok log ks m"
    and "length (sm_handles m) \<le> length (sm_handles m')"
    and "\<And>i. i < length (sm_handles m) \<Longrightarrow> joined m' i = joined m i \<and> (handle_open m' i \<longrightarrow> handle_open m i)"
    and "\<And>i. length (sm_handles m) \<le> i \<Longrightarrow> i < length (sm_handles m') \<Longrightarrow> joined m' i = {}"
    and "\<And>j i ch. joins log' ks' j i ch \<Longrightarrow> joins log ks j i ch"
    and "\<And>j i ch. joins log ks j i ch \<Longrightarrow> joins log' ks' j i ch \<or> \<not> handle_open m' i"
  shows "joins_ok log' ks' m'"
  unfolding joins_ok_def
proof (intro conjI allI ballI impI)
  fix j i ch
  assume "joins log' ks' j i ch"
  then have "i < length (sm_handles m)" "ch \<in> joined m i"
    using assms(1,5) unfolding joins_ok_def by blast+
  with assms(2,3) show "i < length (sm_handles m')" and "ch \<in> joined m' i" by auto
next
  fix j j' i ch
  assume "joins log' ks' j i ch \<and> joins log' ks' j' i ch"
  with assms(1,5) show "j = j'" unfolding joins_ok_def by blast
next
  fix i ch
  assume i: "i < length (sm_handles m')" and ch: "ch \<in> joined m' i"
  have "i < length (sm_handles m)" using assms(4) [of i] i ch by fastforce
  with ch assms(1,3) have "(\<exists>j. joins log ks j i ch) \<or> \<not> handle_open m i" unfolding joins_ok_def by blast
  with assms(3,6) \<open>i < length (sm_handles m)\<close> show "(\<exists>j. joins log' ks' j i ch) \<or> \<not> handle_open m' i" by blast
qed


text \<open>Steps that touch no session.\<close>

lemma tasks_ok_quiet:
  assumes ok: "tasks_ok owner log ks m" and j: "j < length ks"
    and step: "irc_task_step now (ks ! j) m = Some ([], pc, m')"
    and len: "length (sm_handles m') = length (sm_handles m)"
    and same: "\<And>i. i < length (sm_handles m) \<Longrightarrow>
      joined m' i = joined m i \<and> handle_open m' i = handle_open m i \<and> commands m' i = commands m i"
    and users: "\<And>u i. dm_get (sm_users m') u = Some i \<Longrightarrow> dm_get (sm_users m) u = Some i"
    and pcs: "\<And>i. it_pc (ks ! j) \<noteq> PubJoin i" "\<And>i. pc \<noteq> PubJoin i"
    and fine: "task_fine owner m' ((ks ! j)\<lparr>it_pc := pc\<rparr>) (own_sends j log)"
  shows "tasks_ok owner log (ks[j := (ks ! j)\<lparr>it_pc := pc\<rparr>]) m'"
proof -
  let ?ks = "ks[j := (ks ! j)\<lparr>it_pc := pc\<rparr>]"
  have at: "at_join ?ks j' i ch \<longleftrightarrow> at_join ks j' i ch" for j' i ch
    using pcs by (cases "j' = j") (auto simp: at_join_def)
  have grow: "grows m m'" using len same by (simp add: grows_def)
  have j0: "joins_ok log ?ks m'"
    by (rule joins_keep [OF tasks_okD(5) [OF ok]]) (use len same at in \<open>simp_all add: joins_def\<close>)
  have "tasks_ok owner (log @ map (Pair j) []) ?ks m'"
  proof (rule tasks_ok_frame [OF ok j step grow])
    fix u i assume "dm_get (sm_users m') u = Some i"
    from tasks_okD(1) [OF ok users [OF this]] show "i < length (sm_handles m') \<and> owner i = u" by (simp add: len)
  qed (use tasks_okD(2) [OF ok] len same fine j0 in simp_all)
  then show ?thesis by simp
qed

text \<open>A send.\<close>

lemma send_step_spec:
  assumes "send_step i cmd sent failed m = Some (l, pc, m')" and "i < length (sm_handles m)"
  shows "sm_users m' = sm_users m" and "length (sm_handles m') = length (sm_handles m)"
    and "joined m' i' = joined m i'" and "handle_open m' i' = handle_open m i'"
    and "commands m' i' = commands m i' @ (if i' = i then map snd l else [])"
    and "l = [(i, cmd)] \<and> pc = sent \<or> l = [] \<and> pc = failed \<and> \<not> handle_open m i"
proof -
  from assms(1) obtain ok where s: "handle_send i cmd m = Some (ok, m')"
    and l: "l = (if ok then [(i, cmd)] else [])" "pc = (if ok then sent else failed)"
    by (auto simp: send_step_def)
  from s obtain q where q: "mpsc_send cmd (uh_cmd (sm_handles m ! i)) = Some (ok, q)"
    and m': "m' = handle_update i (\<lambda>h. h\<lparr>uh_cmd := q\<rparr>) m"
    by (auto simp: handle_send_def bind_eq_Some_conv)
  from q have "mc_open q = mc_open (uh_cmd (sm_handles m ! i))" "ok \<longleftrightarrow> mc_open (uh_cmd (sm_handles m ! i))"
    by (auto simp: mpsc_send_def split: if_splits)
  with handle_send_Some [OF s assms(2)] l assms(2)
  show "sm_users m' = sm_users m" and "length (sm_handles m') = length (sm_handles m)"
    and "joined m' i' = joined m i'" and "handle_open m' i' = handle_open m i'"
    and "commands m' i' = commands m i' @ (if i' = i then map snd l else [])"
    and "l = [(i, cmd)] \<and> pc = sent \<or> l = [] \<and> pc = failed \<and> \<not> handle_open m i"
    by (auto simp: joined_def handle_open_def commands_def m')
qed

lemma tasks_ok_send:
  assumes ok: "tasks_ok owner log ks m" and j: "j < length ks" and i: "i < length (sm_handles m)"
    and step: "irc_task_step now (ks ! j) m = Some (l, pc, m')"
    and s: "send_step i cmd sent failed m = Some (l, pc, m')"
    and at: "\<And>i'. it_pc (ks ! j) = PubJoin i' \<Longrightarrow>
      i' = i \<and> (\<forall>u h ch msg. it_job (ks ! j) = JobPublish u h ch msg \<longrightarrow> cmd = join_line ch)"
    and not_join: "\<And>ch. cmd = join_line ch \<Longrightarrow> at_join ks j i ch"
    and pcs: "\<And>i. sent \<noteq> PubJoin i" "\<And>i. failed \<noteq> PubJoin i"
    and fine: "l = [(i, cmd)] \<and> pc = sent \<or> l = [] \<and> pc = failed \<and> \<not> handle_open m i \<Longrightarrow>
      task_fine owner m ((ks ! j)\<lparr>it_pc := pc\<rparr>) (own_sends j log @ l)"
    and new: "\<And>u h ch msg. it_job (ks ! j) = JobPublish u h ch msg \<Longrightarrow> cmd = said ch msg \<Longrightarrow> handle_open m i \<Longrightarrow>
      (\<exists>j'. (j', i, join_line ch) \<in> set log) \<or> (\<exists>j'. j' \<noteq> j \<and> own_sends j' log = [] \<and> behind log ks j' i ch)"
  shows "tasks_ok owner (log @ map (Pair j) l) (ks[j := (ks ! j)\<lparr>it_pc := pc\<rparr>]) m'"
proof -
  let ?ks = "ks[j := (ks ! j)\<lparr>it_pc := pc\<rparr>]" and ?log = "log @ map (Pair j) l"
  note sp = send_step_spec [OF s i]
  have grow: "grows m m'" using sp(2-4) by (simp add: grows_def)
  have open_l: "handle_open m i" if "l \<noteq> []" using s that by (auto simp: send_step_def handle_send_def mpsc_send_def handle_open_def bind_eq_Some_conv split: if_splits)
  have pc: "pc \<noteq> PubJoin i'" for i' using sp(6) pcs by auto
  have there: "at_join ?ks j' i' ch \<longleftrightarrow> at_join ks j' i' ch \<and> j' \<noteq> j" for j' i' ch
    using pc by (cases "j' = j") (auto simp: at_join_def)
  have sent: "(j', i', join_line ch) \<in> set ?log \<longleftrightarrow> (j', i', join_line ch) \<in> set log \<or> (j' = j \<and> (i', join_line ch) \<in> set l)" for j' i' ch
    by auto
  have 1: "joins log ks j' i' ch" if "joins ?log ?ks j' i' ch" for j' i' ch
    using that not_join [of ch] sp(6) unfolding joins_def there sent by auto
  have 2: "joins ?log ?ks j' i' ch \<or> \<not> handle_open m' i'" if "joins log ks j' i' ch" for j' i' ch
  proof (cases "j' = j \<and> at_join ks j' i' ch")
    case True
    then have "i' = i" "cmd = join_line ch" using at [of i'] by (auto simp: at_join_def)
    with True sp(4,6) show ?thesis unfolding joins_def sent by auto
  next
    case False
    with that show ?thesis unfolding joins_def sent there by auto
  qed
  have j0: "joins_ok ?log ?ks m'"
    by (rule joins_keep [OF tasks_okD(5) [OF ok]]) (use sp(2-4) 1 2 in simp_all)
  have fine': "task_fine owner m' ((ks ! j)\<lparr>it_pc := pc\<rparr>) (own_sends j log @ l)"
    by (rule task_fine_grows [OF fine [OF sp(6)] grow]) simp
  have l: "l = [] \<or> (\<exists>i c. l = [(i, c)] \<and> i < length (sm_handles m))" using sp(6) i by auto
  have cmds: "commands m' i' = sent_to i' ?log" if "i' < length (sm_handles m')" for i'
    using that sp(2,5,6) tasks_okD(2) [OF ok, of i'] by auto
  show ?thesis
  proof (rule tasks_ok_frame [OF ok j step grow _ _ cmds l fine' j0])
    fix u i' show "dm_get (sm_users m') u = Some i' \<Longrightarrow> i' < length (sm_handles m') \<and> owner i' = u"
      using tasks_okD(1) [OF ok] sp(1,2) by simp
  next
    fix i' u h ch msg
    assume job: "it_job (ks ! j) = JobPublish u h ch msg" and "l = [(i', said ch msg)]"
    with sp(6) have "i' = i" "cmd = said ch msg" "l \<noteq> []" by auto
    with new [OF job] open_l show "(\<exists>j'. (j', i', join_line ch) \<in> set log) \<or>
      (\<exists>j'. j' \<noteq> j \<and> own_sends j' log = [] \<and> behind log ks j' i' ch)" by simp
  qed simp
qed


text \<open>The mark.\<close>

lemma tasks_ok_lock:
  assumes ok: "tasks_ok owner log ks m" and j: "j < length ks"
    and job: "it_job (ks ! j) = JobPublish u h ch msg" and at: "it_pc (ks ! j) = PubLock i"
    and step: "irc_task_step now (ks ! j) m = Some (l, pc, m')"
  shows "tasks_ok owner (log @ map (Pair j) l) (ks[j := (ks ! j)\<lparr>it_pc := pc\<rparr>]) m'"
proof (cases "ch \<in> joined m i")
  case True
  with step job at have "l = []" "pc = PubSay i" "m' = m"
    by (auto simp: irc_task_step_def publish_step_def need_join_def joined_def)
  moreover have "task_fine owner m ((ks ! j)\<lparr>it_pc := PubSay i\<rparr>) (own_sends j log)"
    using tasks_okD(4) [OF ok j] True by (simp add: task_fine_def publish_fine_def job at)
  ultimately show ?thesis using tasks_ok_quiet [OF ok j _ refl, of now pc] step at by simp
next
  case False
  let ?k = "(ks ! j)\<lparr>it_pc := PubJoin i\<rparr>"
  have fine: "i < length (sm_handles m) \<and> owner i = u \<and> own_sends j log = []"
    using tasks_okD(4) [OF ok j] by (simp add: task_fine_def publish_fine_def job at)
  from step job at False have e: "l = []" "pc = PubJoin i"
    and m': "m' = handle_update i (\<lambda>h. h\<lparr>uh_joined := uh_joined h @ [ch]\<rparr>) m"
    by (auto simp: irc_task_step_def publish_step_def need_join_def joined_def)
  have after: "sm_users m' = sm_users m" "length (sm_handles m') = length (sm_handles m)"
    "joined m' i' = (if i' = i then insert ch (joined m i) else joined m i')" "handle_open m' i' = handle_open m i'"
    "commands m' i' = commands m i'" for i'
    using fine by (auto simp: m' joined_def handle_open_def commands_def)
  have grow: "grows m m'" using after by (auto simp: grows_def)
  have joins: "joins log (ks[j := ?k]) j' i' ch' \<longleftrightarrow> joins log ks j' i' ch' \<or> j' = j \<and> i' = i \<and> ch' = ch" for j' i' ch'
    using j job at by (cases "j' = j") (auto simp: joins_def at_join_def)
  have none: "\<not> joins log ks j' i ch" for j' using tasks_okD(5) [OF ok] False unfolding joins_ok_def by blast
  have "joins_ok log (ks[j := ?k]) m'"
    unfolding joins_ok_def joins after(2)
  proof (intro conjI allI ballI impI)
    fix j' i' ch'
    assume *: "joins log ks j' i' ch' \<or> j' = j \<and> i' = i \<and> ch' = ch"
    then show "i' < length (sm_handles m)" using tasks_okD(5) [OF ok] fine unfolding joins_ok_def by blast
    from * show "ch' \<in> joined m' i'" using tasks_okD(5) [OF ok] unfolding joins_ok_def after by auto
  next
    fix j1 j2 i' ch'
    assume *: "(joins log ks j1 i' ch' \<or> j1 = j \<and> i' = i \<and> ch' = ch) \<and> (joins log ks j2 i' ch' \<or> j2 = j \<and> i' = i \<and> ch' = ch)"
    then show "j1 = j2" using tasks_okD(5) [OF ok] none unfolding joins_ok_def by blast
  next
    fix i' ch'
    assume i': "i' < length (sm_handles m)" and "ch' \<in> joined m' i'"
    then have "ch' \<in> joined m i' \<or> i' = i \<and> ch' = ch" by (auto simp: after split: if_splits)
    then show "(\<exists>j'. joins log ks j' i' ch' \<or> j' = j \<and> i' = i \<and> ch' = ch) \<or> \<not> handle_open m' i'"
      using tasks_okD(5) [OF ok] i' unfolding joins_ok_def after by blast
  qed
  note j0 = this
  have "tasks_ok owner (log @ map (Pair j) []) (ks[j := (ks ! j)\<lparr>it_pc := pc\<rparr>]) m'"
  proof (rule tasks_ok_frame [OF ok j _ grow])
    show "irc_task_step now (ks ! j) m = Some ([], pc, m')" using step e by simp
    show "task_fine owner m' ((ks ! j)\<lparr>it_pc := pc\<rparr>) (own_sends j log @ [])"
      using fine after by (simp add: task_fine_def publish_fine_def job e)
    fix v k show "dm_get (sm_users m') v = Some k \<Longrightarrow> k < length (sm_handles m') \<and> owner k = v"
      using tasks_okD(1) [OF ok] after by simp
  qed (use tasks_okD(2) [OF ok] after j0 e in simp_all)
  then show ?thesis by (simp add: e)
qed

text \<open>A new session.\<close>

lemma tasks_ok_create:
  assumes ok: "tasks_ok owner log ks m" and j: "j < length ks"
    and job: "it_job (ks ! j) = JobPublish u h ch msg" and at: "it_pc (ks ! j) = PubCreate"
    and step: "irc_task_step now (ks ! j) m = Some (l, pc, m')"
  shows "\<exists>owner'. tasks_ok owner' (log @ map (Pair j) l) (ks[j := (ks ! j)\<lparr>it_pc := pc\<rparr>]) m'"
proof (cases "dm_get (sm_users m) u")
  case (Some i)
  with step job at have e: "l = []" "pc = PubLock i" "m' = m"
    by (auto simp: irc_task_step_def publish_step_def get_or_create_def)
  have "task_fine owner m ((ks ! j)\<lparr>it_pc := PubLock i\<rparr>) (own_sends j log)"
    using tasks_okD(4) [OF ok j] tasks_okD(1) [OF ok Some] by (simp add: task_fine_def publish_fine_def job at)
  with tasks_ok_quiet [OF ok j _ refl, of now pc] step at e show ?thesis by (intro exI [of _ owner]) simp
next
  case None
  let ?i = "length (sm_handles m)"
  let ?owner = "owner(?i := u)"
  have fine: "own_sends j log = []"
    using tasks_okD(4) [OF ok j] by (simp add: task_fine_def publish_fine_def job at)
  from step job at None obtain e where r: "l = []" "pc = PubLock ?i" "sm_users m' = dm_insert u ?i (sm_users m)"
    "sm_handles m' = sm_handles m @ [e]" "uh_joined e = []" "uh_cmd e = cmd_channel_new 256"
    by (auto simp: irc_task_step_def publish_step_def get_or_create_def Let_def)
  have after: "joined m' i = joined m i" "handle_open m' i = handle_open m i" "commands m' i = commands m i"
    if "i < ?i" for i using that r by (simp_all add: joined_def handle_open_def commands_def nth_append)
  have fresh: "joined m' ?i = {}" "commands m' ?i = []"
    using r by (simp_all add: joined_def commands_def cmd_channel_new_def)
  have grow: "grows m m'" using after r by (auto simp: grows_def)
  have none: "sent_to ?i log = []"
    using tasks_okD(3) [OF ok] by (force simp: sent_to_def filter_empty_conv)
  have "at_join (ks[j := (ks ! j)\<lparr>it_pc := pc\<rparr>]) j' i' ch' \<longleftrightarrow> at_join ks j' i' ch'" for j' i' ch'
    using at r by (cases "j' = j") (auto simp: at_join_def)
  then have j0: "joins_ok log (ks[j := (ks ! j)\<lparr>it_pc := pc\<rparr>]) m'"
    by (intro joins_keep [OF tasks_okD(5) [OF ok]]) (use after fresh r in \<open>auto simp: joins_def less_Suc_eq\<close>)
  have "tasks_ok ?owner (log @ map (Pair j) []) (ks[j := (ks ! j)\<lparr>it_pc := pc\<rparr>]) m'"
  proof (rule tasks_ok_frame [OF ok j _ grow])
    show "irc_task_step now (ks ! j) m = Some ([], pc, m')" using step r by simp
    show "task_fine ?owner m' ((ks ! j)\<lparr>it_pc := pc\<rparr>) (own_sends j log @ [])"
      using fine r by (simp add: task_fine_def publish_fine_def job)
    fix i show "i < length (sm_handles m') \<Longrightarrow> commands m' i = sent_to i (log @ map (Pair j) [])"
      using tasks_okD(2) [OF ok] after fresh none r(4) by (cases "i < ?i") (simp_all add: less_Suc_eq)
  next
    fix v k
    assume "dm_get (sm_users m') v = Some k"
    then show "k < length (sm_handles m') \<and> ?owner k = v"
      using tasks_okD(1) [OF ok, of v k] r by (auto split: if_splits)
  qed (use j0 in simp_all)
  then show ?thesis using r by auto
qed

text \<open>Every step of a task.\<close>

lemma tasks_ok_publish:
  assumes ok: "tasks_ok owner log ks m" and j: "j < length ks" and job: "it_job (ks ! j) = JobPublish u h ch msg"
    and step: "irc_task_step now (ks ! j) m = Some (l, pc, m')"
  shows "\<exists>owner'. tasks_ok owner' (log @ map (Pair j) l) (ks[j := (ks ! j)\<lparr>it_pc := pc\<rparr>]) m'"
proof -
  let ?k = "ks ! j"
  note fine = tasks_okD(4) [OF ok j, unfolded task_fine_def job irc_job.case publish_fine_def Let_def]
  from step have s: "publish_step u h ch msg now (it_pc ?k) m = Some (l, pc, m')" by (simp add: irc_task_step_def job)
  have quiet: ?thesis if "l = []" and "length (sm_handles m') = length (sm_handles m)"
    and "\<And>i. i < length (sm_handles m) \<Longrightarrow> joined m' i = joined m i \<and> handle_open m' i = handle_open m i \<and> commands m' i = commands m i"
    and "\<And>u i. dm_get (sm_users m') u = Some i \<Longrightarrow> dm_get (sm_users m) u = Some i"
    and "\<And>i. it_pc ?k \<noteq> PubJoin i" "\<And>i. pc \<noteq> PubJoin i"
    and "publish_fine owner m' u ch msg pc (own_sends j log)"
    using tasks_ok_quiet [OF ok j _ that(2-6)] step that(1,7) by (intro exI [of _ owner]) (simp add: task_fine_def job)
  show ?thesis
  proof (cases "it_pc ?k")
    case JobStart
    with s fine show ?thesis
      using tasks_okD(1) [OF ok, of u] by (intro quiet) (auto simp: publish_step_def publish_fine_def split: option.splits)
  next
    case PubCreate
    from tasks_ok_create [OF ok j job this step] show ?thesis .
  next
    case (PubLock i)
    from tasks_ok_lock [OF ok j job this step] show ?thesis by blast
  next
    case (PubJoin i)
    with s have sd: "send_step i (join_line ch) (PubSay i) (PubDropping i True) m = Some (l, pc, m')"
      by (simp add: publish_step_def join_line_def)
    have "tasks_ok owner (log @ map (Pair j) l) (ks[j := ?k\<lparr>it_pc := pc\<rparr>]) m'"
      by (rule tasks_ok_send [OF ok j _ step sd])
        (use fine PubJoin job j in \<open>auto simp: task_fine_def publish_fine_def at_join_def\<close>)
    then show ?thesis by blast
  next
    case (PubSay i)
    with s have sd: "send_step i (said ch msg) (PubStamp i) (PubDropping i False) m = Some (l, pc, m')"
      by (simp add: publish_step_def said_def)
    have joined: "i < length (sm_handles m)" "ch \<in> joined m i" using fine PubSay by simp_all
    have new: "(\<exists>j'. (j', i, join_line ch) \<in> set log) \<or> (\<exists>j'. j' \<noteq> j \<and> own_sends j' log = [] \<and> behind log ks j' i ch)"
      if o: "handle_open m i"
    proof -
      obtain j' where "joins log ks j' i ch" using tasks_okD(5) [OF ok] joined o unfolding joins_ok_def by blast
      then consider "(j', i, join_line ch) \<in> set log" | "at_join ks j' i ch" by (auto simp: joins_def)
      then show ?thesis
      proof cases
        case 2
        then have "j' \<noteq> j" "own_sends j' log = []" "behind log ks j' i ch"
          using PubSay tasks_okD(4) [OF ok, of j']
          by (auto simp: at_join_def behind_def task_fine_def publish_fine_def)
        then show ?thesis by blast
      qed blast
    qed
    have "tasks_ok owner (log @ map (Pair j) l) (ks[j := ?k\<lparr>it_pc := pc\<rparr>]) m'"
    proof (rule tasks_ok_send [OF ok j joined(1) step sd])
      fix u' h' ch' msg'
      assume "it_job ?k = JobPublish u' h' ch' msg'" and "handle_open m i"
      then show "(\<exists>j'. (j', i, join_line ch') \<in> set log) \<or> (\<exists>j'. j' \<noteq> j \<and> own_sends j' log = [] \<and> behind log ks j' i ch')"
        using new job by simp
    qed (use fine PubSay job in \<open>auto simp: task_fine_def publish_fine_def\<close>)
    then show ?thesis by blast
  next
    case (PubStamp i)
    with s fine show ?thesis
      by (intro quiet) (auto simp: publish_step_def publish_fine_def joined_def handle_open_def commands_def
          split: if_splits)
  next
    case (PubDropping i b)
    with s fine show ?thesis
      by (intro quiet) (auto simp: publish_step_def publish_fine_def joined_def handle_open_def commands_def drop_user_def
          split: if_splits)
  qed (use s in \<open>simp_all add: publish_step_def\<close>)
qed


lemma tasks_ok_reap:
  assumes ok: "tasks_ok owner log ks m" and j: "j < length ks" and job: "it_job (ks ! j) = JobReap idle"
    and step: "irc_task_step now (ks ! j) m = Some (l, pc, m')"
  shows "tasks_ok owner (log @ map (Pair j) l) (ks[j := (ks ! j)\<lparr>it_pc := pc\<rparr>]) m'"
proof -
  let ?k = "ks ! j"
  note fine = tasks_okD(4) [OF ok j, unfolded task_fine_def job irc_job.case reap_fine_def]
  from step have s: "reap_step idle now (it_pc ?k) m = Some (l, pc, m')" by (simp add: irc_task_step_def job)
  have quiet: ?thesis if "l = []" and m': "m' = m \<or> (\<exists>key. m' = drop_user key m)"
    and "\<And>i. it_pc ?k \<noteq> PubJoin i" "\<And>i. pc \<noteq> PubJoin i"
    and "reap_fine m pc (own_sends j log)"
  proof -
    have "length (sm_handles m') = length (sm_handles m)"
      "\<And>i. joined m' i = joined m i \<and> handle_open m' i = handle_open m i \<and> commands m' i = commands m i"
      "\<And>u i. dm_get (sm_users m') u = Some i \<Longrightarrow> dm_get (sm_users m) u = Some i"
      "reap_fine m' pc (own_sends j log)"
      using m' that(5) by (auto simp: drop_user_def joined_def handle_open_def commands_def reap_fine_def split: if_splits irc_pc.split)
    with tasks_ok_quiet [OF ok j _ this(1) _ _ that(3,4)] step that(1) show ?thesis by (simp add: task_fine_def job)
  qed
  show ?thesis
  proof (cases "it_pc ?k")
    case JobStart
    with s fine show ?thesis by (intro quiet) (auto simp: reap_step_def reap_fine_def)
  next
    case (ReapScan started keys stale)
    with s fine show ?thesis by (intro quiet) (auto simp: reap_step_def reap_fine_def split: list.splits)
  next
    case (ReapEach stale)
    with s fine show ?thesis using tasks_okD(1) [OF ok]
      by (intro quiet) (auto simp: reap_step_def reap_fine_def split: list.splits option.splits)
  next
    case (ReapQuit i stale)
    with s have sd: "send_step i ''QUIT :idle'' (ReapEach stale) (ReapEach stale) m = Some (l, pc, m')"
      by (simp add: reap_step_def)
    show ?thesis
      by (rule tasks_ok_send [OF ok j _ step sd])
        (use fine ReapQuit job in \<open>auto simp: task_fine_def reap_fine_def\<close>)
  qed (use s in \<open>simp_all add: reap_step_def\<close>)
qed

lemma tasks_ok_step:
  assumes "tasks_ok owner log ks m" and "j < length ks" and "irc_task_step now (ks ! j) m = Some (l, pc, m')"
  shows "\<exists>owner'. tasks_ok owner' (log @ map (Pair j) l) (ks[j := (ks ! j)\<lparr>it_pc := pc\<rparr>]) m'"
proof (cases "it_job (ks ! j)")
  case (JobPublish u h ch msg)
  from tasks_ok_publish [OF assms(1,2) this assms(3)] show ?thesis .
next
  case (JobReap idle)
  from tasks_ok_reap [OF assms(1,2) this assms(3)] show ?thesis by blast
qed

text \<open>A session takes a command, or ends.\<close>

lemma tasks_ok_session:
  assumes ok: "tasks_ok owner log ks m" and step: "irc_step op m = Some m'" and op: "op = OpTake i \<or> op = OpEnd i"
  shows "tasks_ok owner log ks m'"
proof -
  have after: "sm_users m' = sm_users m" "length (sm_handles m') = length (sm_handles m)"
    "joined m' i' = joined m i'" "handle_open m' i' \<longrightarrow> handle_open m i'" "commands m' i' = commands m i'" for i'
    using step op by (auto simp: joined_def handle_open_def commands_def split: if_splits)
  then have grow: "grows m m'" by (simp add: grows_def)
  have "joins_ok log ks m'"
    by (rule joins_keep [OF tasks_okD(5) [OF ok]]) (use after in \<open>simp_all\<close>)
  moreover have "task_fine owner m' (ks ! j) (own_sends j log)" if "j < length ks" for j
    by (rule task_fine_grows [OF tasks_okD(4) [OF ok that] grow refl])
  ultimately show ?thesis using tasks_okD(1,2,3,6) [OF ok] unfolding tasks_ok_def after by simp
qed

lemma irc_task_event_ok:
  assumes ok: "tasks_ok owner log ks m" and ev: "irc_task_event e (ks, m) = Some (l, ks', m')"
  shows "\<exists>owner'. tasks_ok owner' (log @ l) ks' m' \<and> map it_job ks' = map it_job ks"
proof (cases e)
  case (Runs j now)
  with ev obtain l0 pc where j: "j < length ks" and s: "irc_task_step now (ks ! j) m = Some (l0, pc, m')"
    and l: "l = map (Pair j) l0" "ks' = ks[j := (ks ! j)\<lparr>it_pc := pc\<rparr>]"
    by (auto simp: irc_task_event_def split: if_splits)
  have "map it_job ks' = map it_job ks" using j by (simp add: l list_eq_iff_nth_eq nth_list_update)
  with tasks_ok_step [OF ok j s] show ?thesis unfolding l by blast
next
  case (Takes i)
  with ev have op: "irc_step (OpTake i) m = Some m'" and "l = []" "ks' = ks" by (auto simp: irc_task_event_def)
  moreover have "tasks_ok owner log ks m'" by (rule tasks_ok_session [OF ok op, of i]) simp
  ultimately show ?thesis by auto
next
  case (Ends i)
  with ev have op: "irc_step (OpEnd i) m = Some m'" and "l = []" "ks' = ks" by (auto simp: irc_task_event_def)
  moreover have "tasks_ok owner log ks m'" by (rule tasks_ok_session [OF ok op, of i]) simp
  ultimately show ?thesis by auto
qed

lemma irc_exec_ok:
  "tasks_ok owner log ks m \<Longrightarrow> irc_exec es (ks, m) = Some (l, ks', m') \<Longrightarrow>
   \<exists>owner'. tasks_ok owner' (log @ l) ks' m' \<and> map it_job ks' = map it_job ks"
proof (induction es arbitrary: owner log ks m l)
  case (Cons e es)
  from Cons.prems(2) obtain l1 ks1 m1 l2 where e: "irc_task_event e (ks, m) = Some (l1, ks1, m1)"
    and es: "irc_exec es (ks1, m1) = Some (l2, ks', m')" and l: "l = l1 @ l2"
    by (auto split: option.splits)
  from irc_task_event_ok [OF Cons.prems(1) e] obtain owner1 where "tasks_ok owner1 (log @ l1) ks1 m1"
    and "map it_job ks1 = map it_job ks" by blast
  with Cons.IH [OF _ es, of owner1 "log @ l1"] show ?case by (auto simp: l)
qed auto

lemma tasks_ok_new: "tasks_ok owner [] (map irc_task jobs) (manager_new host port pw user rn ns mx)"
  by (auto simp: tasks_ok_def manager_new_def task_fine_def irc_task_def publish_fine_def reap_fine_def joins_ok_def
      joins_def at_join_def order_ok_def split: irc_job.split)


subsection \<open>Who speaks where\<close>

text \<open>What a task has sent, by where it is.  A publish that found its session ended has sent no message.\<close>

definition job_sends :: "SessionManager \<Rightarrow> IrcTask \<Rightarrow> (nat \<times> string) list \<Rightarrow> bool" where
  "job_sends m k sends =
     (case it_job k of
        JobReap idle \<Rightarrow> list_all (\<lambda>(i, c). c = ''QUIT :idle'') sends
      | JobPublish u h ch msg \<Rightarrow>
          (case it_pc k of
             PubSaid i \<Rightarrow> sends = [(i, said ch msg)] \<or> sends = [(i, join_line ch), (i, said ch msg)]
           | PubStamp i \<Rightarrow> sends = [(i, said ch msg)] \<or> sends = [(i, join_line ch), (i, said ch msg)]
           | PubSay i \<Rightarrow> sends = [] \<or> sends = [(i, join_line ch)]
           | PubDropping i joining \<Rightarrow>
               (sends = [] \<or> \<not> joining \<and> sends = [(i, join_line ch)]) \<and> \<not> mc_open (uh_cmd (sm_handles m ! i))
           | PubDropped i joining \<Rightarrow>
               (sends = [] \<or> \<not> joining \<and> sends = [(i, join_line ch)]) \<and> \<not> mc_open (uh_cmd (sm_handles m ! i))
           | _ \<Rightarrow> sends = []))"

lemma task_fine_sends: "task_fine owner m k sends \<Longrightarrow> job_sends m k sends"
  by (cases "it_job k"; cases "it_pc k")
    (auto simp: task_fine_def publish_fine_def reap_fine_def job_sends_def handle_open_def Let_def list_all_iff)

lemma task_fine_owner:
  assumes "task_fine owner m k sends" and "it_job k = JobPublish u h ch msg" and "(i, c) \<in> set sends"
  shows "owner i = u"
  using assms by (cases "it_pc k") (auto simp: task_fine_def publish_fine_def)

lemma task_fine_join:
  assumes "task_fine owner m k sends" and "(i, join_line ch) \<in> set sends"
  shows "\<exists>h msg. it_job k = JobPublish (owner i) h ch msg"
  using assms by (cases "it_job k"; cases "it_pc k")
    (auto simp: task_fine_def publish_fine_def reap_fine_def Let_def list_all_iff)

lemma behind_job:
  assumes ok: "tasks_ok owner log ks m" and b: "behind log ks j i ch"
  shows "j < length ks \<and> (\<exists>h msg. it_job (ks ! j) = JobPublish (owner i) h ch msg)"
proof (cases "(j, i, join_line ch) \<in> set log")
  case True
  then have j: "j < length ks" using tasks_okD(3) [OF ok] by blast
  from True task_fine_join [OF tasks_okD(4) [OF ok j], of i ch] j show ?thesis by (simp add: own_sends_iff)
next
  case False
  with b obtain u h msg where j: "j < length ks" and job: "it_job (ks ! j) = JobPublish u h ch msg"
    and "it_pc (ks ! j) = PubJoin i \<or> it_pc (ks ! j) = PubDropping i True \<or> it_pc (ks ! j) = PubDropped i True"
    by (auto simp: behind_def)
  with tasks_okD(4) [OF ok j] show ?thesis by (auto simp: task_fine_def publish_fine_def)
qed

text \<open>
  C26: A user speaks in a session of his own, on channels joined in it.  Any number of publishes and idle
  sweeps run, access by access, interleaved with each other and with sessions that take commands and end.
  Then every session has one user: what a session was sent is in the log, in its order, and comes from
  publishes of that user and from sweeps, which only send \<open>QUIT\<close>; and the map of users never names a session
  of another.  A publish that returned has either sent its message, after its own \<open>JOIN\<close> if it had to join, or
  found the session ended; a channel is joined at most once in a session.  A message comes after the \<open>JOIN\<close>
  of its channel in its session, unless another publish of the same user to the same channel is the one
  that joins it, and had sent nothing yet when the message was sent: its \<open>JOIN\<close> then follows, is still to
  come, or failed because the session ended.
\<close>

theorem irc_speaks_after_join:
  assumes "irc_exec es (map irc_task jobs, manager_new host port pw user rn ns mx) = Some (log, ks, m)"
  shows "map it_job ks = jobs \<and> (\<exists>owner.
    (\<forall>u i. dm_get (sm_users m) u = Some i \<longrightarrow> owner i = u) \<and>
    (\<forall>i < length (sm_handles m). mc_items (uh_cmd (sm_handles m ! i)) = sent_to i log) \<and>
    (\<forall>(j, i, c) \<in> set log. j < length jobs \<and> i < length (sm_handles m) \<and>
       (case jobs ! j of JobPublish u h ch msg \<Rightarrow> owner i = u | JobReap idle \<Rightarrow> True))) \<and>
    (\<forall>j < length jobs. job_sends m (ks ! j) (own_sends j log)) \<and>
    (\<forall>j j' i ch. (j, i, join_line ch) \<in> set log \<and> (j', i, join_line ch) \<in> set log \<longrightarrow> j = j') \<and>
    (\<forall>n j i u h ch msg. n < length log \<and> log ! n = (j, i, said ch msg) \<and> jobs ! j = JobPublish u h ch msg \<longrightarrow>
       (\<exists>j'. (j', i, join_line ch) \<in> set (take n log)) \<or>
       (\<exists>j' h' msg'. j' \<noteq> j \<and> j' < length jobs \<and> jobs ! j' = JobPublish u h' ch msg' \<and>
          own_sends j' (take n log) = [] \<and> behind log ks j' i ch))"
proof -
  obtain owner where ok: "tasks_ok owner log ks m" and jobs: "map it_job ks = jobs"
    using irc_exec_ok [OF tasks_ok_new assms] by (auto simp: irc_task_def o_def)
  have len: "length ks = length jobs" and nth: "\<And>j. j < length jobs \<Longrightarrow> it_job (ks ! j) = jobs ! j"
    using jobs by (auto simp: list_eq_iff_nth_eq)
  have owned: "j < length jobs \<and> i < length (sm_handles m) \<and>
      (case jobs ! j of JobPublish u h ch msg \<Rightarrow> owner i = u | JobReap idle \<Rightarrow> True)" if l: "(j, i, c) \<in> set log" for j i c
  proof -
    have j: "j < length ks" "i < length (sm_handles m)" using tasks_okD(3) [OF ok] l by blast+
    have "owner i = u" if "it_job (ks ! j) = JobPublish u h ch msg" for u h ch msg
      using task_fine_owner [OF tasks_okD(4) [OF ok j(1)] that, of i c] l by (simp add: own_sends_iff)
    with j nth [of j] len show ?thesis by (simp split: irc_job.split)
  qed
  have sends: "\<forall>j < length jobs. job_sends m (ks ! j) (own_sends j log)"
    using task_fine_sends [OF tasks_okD(4) [OF ok]] len by simp
  have once: "\<forall>j j' i ch. (j, i, join_line ch) \<in> set log \<and> (j', i, join_line ch) \<in> set log \<longrightarrow> j = j'"
    using tasks_okD(5) [OF ok] unfolding joins_ok_def joins_def by blast
  have order: "(\<exists>j'. (j', i, join_line ch) \<in> set (take n log)) \<or>
       (\<exists>j' h' msg'. j' \<noteq> j \<and> j' < length jobs \<and> jobs ! j' = JobPublish u h' ch msg' \<and>
          own_sends j' (take n log) = [] \<and> behind log ks j' i ch)"
    if n: "n < length log \<and> log ! n = (j, i, said ch msg) \<and> jobs ! j = JobPublish u h ch msg" for n j i u h ch msg
  proof -
    have "(j, i, said ch msg) \<in> set log" using n nth_mem by metis
    with owned have j: "j < length jobs" and u: "owner i = u" using n by fastforce+
    then have job: "it_job (ks ! j) = JobPublish u h ch msg" using nth n by simp
    consider j' where "(j', i, join_line ch) \<in> set (take n log)"
      | j' where "j' \<noteq> j" "own_sends j' (take n log) = []" "behind log ks j' i ch"
      using tasks_okD(6) [OF ok] n job unfolding order_ok_def by blast
    then show ?thesis
    proof cases
      case 2
      with behind_job [OF ok 2(3)] nth [of j'] len u show ?thesis by auto
    qed blast
  qed
  have users: "\<forall>u i. dm_get (sm_users m) u = Some i \<longrightarrow> owner i = u" using tasks_okD(1) [OF ok] by blast
  have cmds: "\<forall>i < length (sm_handles m). mc_items (uh_cmd (sm_handles m ! i)) = sent_to i log"
    using tasks_okD(2) [OF ok] by (simp add: commands_def)
  have "\<forall>(j, i, c) \<in> set log. j < length jobs \<and> i < length (sm_handles m) \<and>
       (case jobs ! j of JobPublish u h ch msg \<Rightarrow> owner i = u | JobReap idle \<Rightarrow> True)" using owned by blast
  with users cmds have "\<exists>owner. (\<forall>u i. dm_get (sm_users m) u = Some i \<longrightarrow> owner i = u) \<and>
    (\<forall>i < length (sm_handles m). mc_items (uh_cmd (sm_handles m ! i)) = sent_to i log) \<and>
    (\<forall>(j, i, c) \<in> set log. j < length jobs \<and> i < length (sm_handles m) \<and>
       (case jobs ! j of JobPublish u h ch msg \<Rightarrow> owner i = u | JobReap idle \<Rightarrow> True))" by blast
  with jobs sends once order show ?thesis by blast
qed

text \<open>Two publishes of one user to one channel: the second speaks before the first has sent the \<open>JOIN\<close>.\<close>

definition demo_irc_jobs :: "irc_job list" where
  "demo_irc_jobs = [JobPublish ''u1'' ''ann'' ''#a'' ''first'', JobPublish ''u1'' ''ann'' ''#a'' ''second'']"

definition demo_irc_events :: "irc_turn list" where
  "demo_irc_events = map (\<lambda>j. Runs j 0) [0, 0, 0, 1, 1, 1, 1, 0, 0, 0]"

theorem irc_speaks_after_join_witness:
  "\<exists>log ks m. irc_exec demo_irc_events (map irc_task demo_irc_jobs, manager_new ''h'' 6667 [] ''p'' ''r'' ''chat'' 9)
      = Some (log, ks, m) \<and>
    map it_pc ks = [PubSaid 0, PubSaid 0] \<and>
    mc_items (uh_cmd (sm_handles m ! 0)) = [''PRIVMSG #a :second'', ''JOIN #a'', ''PRIVMSG #a :first'']"
proof -
  let ?log = "[(1, 0, ''PRIVMSG #a :second''), (0, 0, ''JOIN #a''), (0, 0, ''PRIVMSG #a :first'')]"
  obtain ks m where run: "irc_exec demo_irc_events (map irc_task demo_irc_jobs, manager_new ''h'' 6667 [] ''p'' ''r'' ''chat'' 9)
      = Some (?log, ks, m)" and pcs: "map it_pc ks = [PubSaid 0, PubSaid 0]" and one: "length (sm_handles m) = 1"
    by (simp add: demo_irc_events_def demo_irc_jobs_def irc_task_event_def irc_alone_defs irc_task_def eval_irc dm_get_def dm_insert_def)
  from conjunct1 [OF conjunct2 [OF irc_speaks_after_join [OF run]]]
  have "\<forall>i < length (sm_handles m). mc_items (uh_cmd (sm_handles m ! i)) = sent_to i ?log" by (elim exE conjE)
  with one have "mc_items (uh_cmd (sm_handles m ! 0)) = sent_to 0 ?log" by simp
  then have "mc_items (uh_cmd (sm_handles m ! 0)) = [''PRIVMSG #a :second'', ''JOIN #a'', ''PRIVMSG #a :first'']" by simp
  with run pcs show ?thesis by (intro exI [of _ ?log] exI [of _ ks] exI [of _ m] conjI)
qed

end
