(* ===== verification/Rt_Tests_Core.thy ===== *)
theory Rt_Tests_Core
  imports Rt_Index_Match
begin

text \<open>
  The unit tests of \<open>crates/realtime-core/src/types/tests.rs\<close> and \<open>filter/tests.rs\<close>, run on the model:
  each test function is a boolean, its assertions in the source's order, over whatever the code takes
  from outside (identifiers, clock, JSON library), and each lemma says that the model passes it.
\<close>

subsection \<open>types/tests.rs\<close>

text \<open>\<open>event_id_generation\<close>: two draws of \<open>Uuid::now_v7\<close>, which the library promises to be distinct.\<close>

definition event_id_generation :: "128 word \<Rightarrow> 128 word \<Rightarrow> bool" where
  "event_id_generation uuid1 uuid2 =
     (let id1 = EventId uuid1; id2 = EventId uuid2 in id1 \<noteq> id2)"

definition topic_path_parts :: bool where
  "topic_path_parts =
     (let topic = topic_new ''orders/created'' in
      topic_namespace topic = ''orders'' \<and> event_type_part topic = ''created'')"

definition topic_pattern_exact :: bool where
  "topic_pattern_exact =
     (let pattern = Exact (topic_new ''orders/created'') in
      pattern_matches pattern (topic_new ''orders/created'') \<and>
      \<not> pattern_matches pattern (topic_new ''orders/updated''))"

definition topic_pattern_prefix :: bool where
  "topic_pattern_prefix =
     (let pattern = Prefix ''orders/'' in
      pattern_matches pattern (topic_new ''orders/created'') \<and>
      pattern_matches pattern (topic_new ''orders/deleted'') \<and>
      \<not> pattern_matches pattern (topic_new ''users/created''))"

definition topic_pattern_glob :: bool where
  "topic_pattern_glob =
     (let p1 = Glob ''orders/*''; p2 = Glob ''*/created''; p3 = Glob ''orders/**'' in
      pattern_matches p1 (topic_new ''orders/created'') \<and>
      \<not> pattern_matches p1 (topic_new ''users/anything'') \<and>
      \<not> pattern_matches p1 (topic_new ''orders/created/details'') \<and>
      pattern_matches p2 (topic_new ''orders/created'') \<and>
      \<not> pattern_matches p2 (topic_new ''users/deleted'') \<and>
      \<not> pattern_matches p2 (topic_new ''orders/123/created'') \<and>
      pattern_matches p3 (topic_new ''orders/created'') \<and>
      pattern_matches p3 (topic_new ''orders/123/items/456'') \<and>
      \<not> pattern_matches p3 (topic_new ''users/123''))"

text \<open>\<open>Display\<close> of a pattern writes \<open>as_str\<close>.\<close>

definition topic_pattern_display_and_as_str :: bool where
  "topic_pattern_display_and_as_str =
     (pattern_str (Exact (topic_new ''orders/created'')) = ''orders/created'' \<and>
      pattern_str (Prefix ''orders/'') = ''orders/'' \<and>
      pattern_str (Glob ''orders/*'') = ''orders/*'')"

definition topic_pattern_parse :: bool where
  "topic_pattern_parse =
     ((case pattern_parse ''orders/created'' of Exact _ \<Rightarrow> True | _ \<Rightarrow> False) \<and>
      (case pattern_parse ''orders/'' of Prefix _ \<Rightarrow> True | _ \<Rightarrow> False) \<and>
      (case pattern_parse ''orders/*'' of Glob _ \<Rightarrow> True | _ \<Rightarrow> False))"

definition event_envelope_creation :: "EventId \<Rightarrow> timestamp \<Rightarrow> bool" where
  "event_envelope_creation uuid now =
     (let payload = ''{\"key\":\"value\"}'';
          event = envelope_new uuid now (topic_new ''test/event'') ''created'' payload in
      ev_topic event = topic_new ''test/event'' \<and> \<not> is_payload_too_large event)"

definition payload_too_large :: "EventId \<Rightarrow> timestamp \<Rightarrow> bool" where
  "payload_too_large uuid now =
     (let payload = replicate 70000 (CHR 0x00);
          event = envelope_new uuid now (topic_new ''test'') ''test'' payload in
      is_payload_too_large event)"

definition auth_claims_subscribe :: bool where
  "auth_claims_subscribe =
     (let claims = \<lparr>ac_sub = ''user1'', ac_namespaces = [''orders'', ''users''],
            ac_can_publish = False, ac_can_subscribe = True, ac_metadata = []\<rparr>;
          allowed = Exact (topic_new ''orders/created'');
          denied = Exact (topic_new ''admin/settings'') in
      can_subscribe_to claims allowed \<and> \<not> can_subscribe_to claims denied)"

definition auth_claims_empty_namespaces_deny_by_default :: bool where
  "auth_claims_empty_namespaces_deny_by_default =
     (let empty = \<lparr>ac_sub = ''u'', ac_namespaces = [], ac_can_publish = True,
            ac_can_subscribe = True, ac_metadata = []\<rparr>;
          wild = \<lparr>ac_sub = ''u'', ac_namespaces = [''*''], ac_can_publish = True,
            ac_can_subscribe = True, ac_metadata = []\<rparr> in
      \<not> can_subscribe_to empty (Exact (topic_new ''orders/created'')) \<and>
      \<not> can_publish_to empty (topic_new ''orders/created'') \<and>
      can_subscribe_to wild (Exact (topic_new ''anything/x'')) \<and>
      can_publish_to wild (topic_new ''anything/x''))"

definition protected_namespace_excludes_wildcard :: bool where
  "protected_namespace_excludes_wildcard =
     (let protected = [''collab:''];
          collab = Exact (topic_new ''collab:abc''); chat = Exact (topic_new ''chat:xyz'');
          wild = \<lparr>ac_sub = ''u'', ac_namespaces = [''*''], ac_can_publish = True,
            ac_can_subscribe = True, ac_metadata = []\<rparr>;
          member = \<lparr>ac_sub = ''u'', ac_namespaces = [''collab:abc''], ac_can_publish = True,
            ac_can_subscribe = True, ac_metadata = []\<rparr> in
      can_subscribe_to_scoped wild chat protected \<and>
      \<not> can_subscribe_to_scoped wild collab protected \<and>
      can_subscribe_to_scoped wild collab [] \<and>
      \<not> can_publish_to_scoped wild (topic_new ''collab:abc'') protected \<and>
      can_subscribe_to_scoped member collab protected \<and>
      \<not> can_subscribe_to_scoped member (Exact (topic_new ''collab:other'')) protected)"

lemmas eval_claims = can_subscribe_to_def can_subscribe_to_scoped_def can_publish_to_def
  can_publish_to_scoped_def namespace_allowed_def is_protected_def topic_namespace_def split_nth_def
  starts_with_def topic_new_def Let_def

lemma event_id_generation_passes: "uuid1 \<noteq> uuid2 \<Longrightarrow> event_id_generation uuid1 uuid2"
  by (simp add: event_id_generation_def)

lemma topic_tests_pass:
  "topic_path_parts" "topic_pattern_exact" "topic_pattern_prefix" "topic_pattern_glob"
  "topic_pattern_display_and_as_str" "topic_pattern_parse"
  by (simp_all add: topic_path_parts_def topic_pattern_exact_def topic_pattern_prefix_def topic_pattern_glob_def
      topic_pattern_display_and_as_str_def topic_pattern_parse_def topic_namespace_def event_type_part_def
      split_nth_def eval_types Let_def)

lemma envelope_tests_pass: "event_envelope_creation uuid now" "payload_too_large uuid now"
  by (simp_all add: event_envelope_creation_def payload_too_large_def is_payload_too_large_def
      topic_new_def Let_def)

lemma claims_tests_pass:
  "auth_claims_subscribe" "auth_claims_empty_namespaces_deny_by_default"
  "protected_namespace_excludes_wildcard"
  by (simp_all add: auth_claims_subscribe_def auth_claims_empty_namespaces_deny_by_default_def
      protected_namespace_excludes_wildcard_def eval_claims)

subsection \<open>filter/tests.rs\<close>

text \<open>\<open>filter.evaluate(&|field| envelope_field_getter(&event, field))\<close>, of an event of the given topic
  and type with the payload \<open>{}\<close>.  What the JSON reader makes of that payload does not matter.\<close>

definition braces_event :: "EventId \<Rightarrow> timestamp \<Rightarrow> string \<Rightarrow> string \<Rightarrow> EventEnvelope" where
  "braces_event uuid now topic event_type = envelope_new uuid now (topic_new topic) event_type ''{}''"

definition event_passes :: "Externals \<Rightarrow> FilterExpr \<Rightarrow> EventEnvelope \<Rightarrow> bool" where
  "event_passes x flt event = evaluate flt (envelope_field_getter x event)"

definition test_filter_eq :: "Externals \<Rightarrow> EventId \<Rightarrow> timestamp \<Rightarrow> bool" where
  "test_filter_eq x uuid now =
     (let flt = FEq (field_path_new ''event_type'') (FString ''created'');
          event = braces_event uuid now ''orders/created'' ''created'' in
      event_passes x flt event)"

definition test_filter_ne :: "Externals \<Rightarrow> EventId \<Rightarrow> timestamp \<Rightarrow> bool" where
  "test_filter_ne x uuid now =
     (let flt = FNe (field_path_new ''event_type'') (FString ''deleted'');
          event = braces_event uuid now ''test'' ''created'' in
      event_passes x flt event)"

definition test_filter_in :: "Externals \<Rightarrow> EventId \<Rightarrow> timestamp \<Rightarrow> bool" where
  "test_filter_in x uuid now =
     (let flt = FIn (field_path_new ''event_type'') [FString ''created'', FString ''updated''];
          event = braces_event uuid now ''test'' ''updated'' in
      event_passes x flt event)"

definition test_filter_and :: "Externals \<Rightarrow> EventId \<Rightarrow> timestamp \<Rightarrow> bool" where
  "test_filter_and x uuid now =
     (let flt = FAnd (FEq (field_path_new ''event_type'') (FString ''created''))
            (FEq (field_path_new ''topic'') (FString ''orders/created''));
          event = braces_event uuid now ''orders/created'' ''created'' in
      event_passes x flt event)"

definition test_filter_or :: "Externals \<Rightarrow> EventId \<Rightarrow> timestamp \<Rightarrow> bool" where
  "test_filter_or x uuid now =
     (let flt = FOr (FEq (field_path_new ''event_type'') (FString ''created''))
            (FEq (field_path_new ''event_type'') (FString ''updated''));
          event1 = braces_event uuid now ''test'' ''updated'';
          event2 = braces_event uuid now ''test'' ''deleted'' in
      event_passes x flt event1 \<and> \<not> event_passes x flt event2)"

definition test_filter_not :: "Externals \<Rightarrow> EventId \<Rightarrow> timestamp \<Rightarrow> bool" where
  "test_filter_not x uuid now =
     (let flt = FNot (FEq (field_path_new ''event_type'') (FString ''created''));
          event1 = braces_event uuid now ''test'' ''created'';
          event2 = braces_event uuid now ''test'' ''deleted'' in
      \<not> event_passes x flt event1 \<and> event_passes x flt event2)"

definition test_filter_ne_rejects_equal :: "Externals \<Rightarrow> EventId \<Rightarrow> timestamp \<Rightarrow> bool" where
  "test_filter_ne_rejects_equal x uuid now =
     (let flt = FNe (field_path_new ''event_type'') (FString ''created'');
          event = braces_event uuid now ''test'' ''created'' in
      \<not> event_passes x flt event)"

definition test_filter_in_rejects_missing :: "Externals \<Rightarrow> EventId \<Rightarrow> timestamp \<Rightarrow> bool" where
  "test_filter_in_rejects_missing x uuid now =
     (let flt = FIn (field_path_new ''event_type'') [FString ''a''];
          event = braces_event uuid now ''test'' ''b'' in
      \<not> event_passes x flt event)"

definition test_filter_from_json :: "Externals \<Rightarrow> EventId \<Rightarrow> timestamp \<Rightarrow> bool" where
  "test_filter_from_json x uuid now =
     (let json = JObject [(''event_type'',
            JObject [(''in'', JArray [JString ''created'', JString ''updated''])])];
          event = braces_event uuid now ''test'' ''created'' in
      (case from_json x json of None \<Rightarrow> False | Some flt \<Rightarrow> event_passes x flt event) \<and>
      from_json x (JObject []) = None \<and>
      from_json x (JObject [(''field'', JObject [(''unknown_op'', JNumber (NumI64 123))])]) = None \<and>
      from_json x (JString ''not_an_object'') = None)"

text \<open>The payload of the next test as the JSON reader returns it; \<open>score\<close>: the bits of 9.5.\<close>

definition user_payload :: bytes where
  "user_payload = ''{\"user\":{\"id\":42,\"active\":true,\"score\":9.5,\"details\":null}}''"

definition user_value :: json where
  "user_value = JObject [(''user'', JObject [(''id'', JNumber (NumI64 42)), (''active'', JBool True),
     (''score'', JNumber (NumF64 0x4023000000000000)), (''details'', JNull)])]"

definition test_envelope_field_getter_payload_and_source ::
    "Externals \<Rightarrow> EventId \<Rightarrow> timestamp \<Rightarrow> bool" where
  "test_envelope_field_getter_payload_and_source x uuid now =
     (let metadata = dm_insert ''region'' ''eu-west-1'' [];
          event = (envelope_new uuid now (topic_new ''orders/1'') ''created'' user_payload)
            \<lparr>ev_source := Some \<lparr>src_kind = SrcDatabase, src_id = ''pg-primary'', src_metadata = metadata\<rparr>\<rparr>;
          got = (\<lambda>path. envelope_field_getter x event (field_path_new path)) in
      got ''event_type'' = Some (FString ''created'') \<and>
      got ''topic'' = Some (FString ''orders/1'') \<and>
      got ''source.id'' = Some (FString ''pg-primary'') \<and>
      got ''source.metadata.region'' = Some (FString ''eu-west-1'') \<and>
      got ''payload.user.id'' = Some (FInteger 42) \<and>
      got ''user.active'' = Some (FBool True) \<and>
      got ''user.details'' = Some FNull \<and>
      got ''nonexistent'' = None)"

definition test_envelope_field_getter_cached :: "Externals \<Rightarrow> EventId \<Rightarrow> timestamp \<Rightarrow> bool" where
  "test_envelope_field_getter_cached x uuid now =
     (let payload_val = JObject [(''order_id'', JNumber (NumI64 999))];
          event = braces_event uuid now ''orders'' ''created'';
          res = envelope_field_getter_cached x event (Some payload_val) (field_path_new ''order_id'');
          topic_res = envelope_field_getter_cached x event (Some payload_val) (field_path_new ''topic'') in
      res = Some (FInteger 999) \<and> topic_res = Some (FString ''orders''))"

lemmas eval_getter = event_passes_def braces_event_def field_path_new_def envelope_field_getter_eq
  event_getter_def envelope_field_getter_cached_def extract_payload_field_cached_def
  extract_source_metadata_def starts_with_def opt_fv_eq_def topic_new_def Let_def

lemma filter_tests_pass:
  "test_filter_eq x uuid now" "test_filter_ne x uuid now" "test_filter_in x uuid now"
  "test_filter_and x uuid now" "test_filter_or x uuid now" "test_filter_not x uuid now"
  "test_filter_ne_rejects_equal x uuid now" "test_filter_in_rejects_missing x uuid now"
  by (simp_all add: test_filter_eq_def test_filter_ne_def test_filter_in_def test_filter_and_def
      test_filter_or_def test_filter_not_def test_filter_ne_rejects_equal_def
      test_filter_in_rejects_missing_def eval_getter)

lemma test_filter_from_json_passes: "test_filter_from_json x uuid now"
  by (simp add: test_filter_from_json_def from_json_def parse_operator_def eval_getter)

lemma getter_tests_pass:
  "x_from_slice x user_payload = Some user_value \<Longrightarrow> test_envelope_field_getter_payload_and_source x uuid now"
  "test_envelope_field_getter_cached x uuid now"
  by (simp_all add: test_envelope_field_getter_payload_and_source_def test_envelope_field_getter_cached_def
      user_value_def eval_getter)

end
