(* ===== verification/Rt_Tests_Auth.thy ===== *)
theory Rt_Tests_Auth
  imports Rt_Tests_Core "HOL-Library.Countable"
begin

text \<open>
  The tests of \<open>crates/realtime-auth/src\<close>, run on the model: \<open>noauth.rs\<close>, \<open>jwt/mod.rs\<close>,
  \<open>jwt/auth.rs\<close>, \<open>jwt/previous_secret_tests.rs\<close> and \<open>jwt/issuer_tests.rs\<close>.  The tests sign tokens with
  \<open>jsonwebtoken\<close>: encoding is a parameter beside the decoding of \<open>JwtLib\<close>, and what the library documents
  of a token it signed itself is the hypothesis \<open>jwt_documented\<close>, which a concrete library satisfies.
\<close>

subsection \<open>noauth.rs and the fallback of jwt/auth.rs\<close>

definition test_noauth_accepts_everything :: bool where
  "test_noauth_accepts_everything =
     (let ctx = \<lparr>cx_peer_addr = ''127.0.0.1:12345'', cx_transport = ''ws''\<rparr> in
      case noauth_verify ''any-token'' ctx of
        Inl _ \<Rightarrow> False
      | Inr claims \<Rightarrow> ac_can_publish claims \<and> ac_can_subscribe claims \<and>
          ''*'' \<in> set (ac_namespaces claims))"

definition explicit_value_wins_over_mode :: bool where
  "explicit_value_wins_over_mode =
     (fallback_permissive (Some ''permissive'') (Some ''max'') \<and>
      \<not> fallback_permissive (Some ''deny'') (Some ''baseline''))"

definition unset_or_empty_defers_to_mode :: bool where
  "unset_or_empty_defers_to_mode =
     list_all (\<lambda>fallback. \<not> fallback_permissive fallback (Some ''max'') \<and>
          fallback_permissive fallback (Some ''baseline'') \<and> fallback_permissive fallback None)
       [None, Some '''']"

lemma noauth_tests_pass:
  "test_noauth_accepts_everything" "explicit_value_wins_over_mode" "unset_or_empty_defers_to_mode"
  by (simp_all add: test_noauth_accepts_everything_def noauth_verify_def explicit_value_wins_over_mode_def
      unset_or_empty_defers_to_mode_def fallback_permissive_def)

subsection \<open>Signed tokens\<close>

text \<open>The JSON object a test signs: the fields present in it.\<close>

datatype TokenBody = TokenBody (tb_sub: string) (tb_exp: "u64 option") (tb_iat: "u64 option")
  (tb_namespaces: "string list option") (tb_can_publish: "bool option")
  (tb_can_subscribe: "bool option") (tb_iss: "string option")

text \<open>The \<open>#[serde(default)]\<close> attributes of \<open>JwtClaims\<close>.\<close>

definition body_claims :: "TokenBody \<Rightarrow> JwtClaims" where
  "body_claims b =
     \<lparr>jc_sub = tb_sub b, jc_exp = tb_exp b, jc_iat = tb_iat b,
      jc_namespaces = (case tb_namespaces b of None \<Rightarrow> [] | Some ns \<Rightarrow> ns),
      jc_can_publish = (case tb_can_publish b of None \<Rightarrow> False | Some v \<Rightarrow> v),
      jc_can_subscribe = (case tb_can_subscribe b of None \<Rightarrow> True | Some v \<Rightarrow> v),
      jc_metadata = []\<rparr>"

type_synonym jwt_encode = "Algorithm \<Rightarrow> TokenBody \<Rightarrow> bytes \<Rightarrow> string"

definition has_claim :: "TokenBody \<Rightarrow> string \<Rightarrow> bool" where
  "has_claim b name =
     (if name = ''exp'' then tb_exp b \<noteq> None else if name = ''iss'' then tb_iss b \<noteq> None
      else if name = ''sub'' then True else False)"

text \<open>The documented order of \<open>decode\<close> for HMAC algorithms: the algorithm, the signature, then the claims;
  a token has expired once 60 seconds of leeway have passed.\<close>

definition documented_decode ::
    "nat \<Rightarrow> Algorithm \<Rightarrow> TokenBody \<Rightarrow> bytes \<Rightarrow> bytes \<Rightarrow> Validation \<Rightarrow> (JwtErrorKind, JwtClaims) result" where
  "documented_decode now alg b secret secret' v =
     (if alg \<noteq> va_algorithm v then Inl (OtherJwtError ''InvalidAlgorithm'')
      else if secret' \<noteq> secret then Inl InvalidSignature
      else if \<not> list_all (has_claim b) (va_required_claims v) then Inl (OtherJwtError ''MissingRequiredClaim'')
      else if (case tb_exp b of Some e \<Rightarrow> unat e + 60 < now | None \<Rightarrow> False)
      then Inl (OtherJwtError ''ExpiredSignature'')
      else if (case (tb_iss b, va_iss v) of (Some i, Some allowed) \<Rightarrow> i \<notin> set allowed | _ \<Rightarrow> False)
      then Inl (OtherJwtError ''InvalidIssuer'')
      else Inr (body_claims b))"

definition hmac :: "Algorithm \<Rightarrow> bool" where
  "hmac alg = (alg \<in> {HS256, HS384, HS512})"

definition jwt_documented :: "'key JwtLib \<Rightarrow> jwt_encode \<Rightarrow> nat \<Rightarrow> bool" where
  "jwt_documented lib enc now =
     ((\<forall>alg b secret secret' v. hmac alg \<longrightarrow> hmac (va_algorithm v) \<longrightarrow>
         \<not> va_validate_aud v \<longrightarrow>
         jl_decode lib (enc alg b secret) (jl_from_secret lib secret') v
           = documented_decode now alg b secret secret' v) \<and>
      (\<forall>alg b secret. \<not> starts_with (enc alg b secret) ''Bearer '') \<and>
      (\<forall>key v. \<exists>e. jl_decode lib ''invalid-token'' key v = Inl e) \<and>
      (\<forall>alg. jl_validation_new lib alg = \<lparr>va_algorithm = alg, va_iss = None,
         va_required_claims = [''exp''], va_aud = None, va_validate_aud = True\<rparr>))"

text \<open>A provider built from a configuration verifies a token.\<close>

definition verify_with ::
    "'key JwtLib \<Rightarrow> environment \<Rightarrow> JwtConfig \<Rightarrow> AuthContext \<Rightarrow> string
     \<Rightarrow> (RealtimeError, AuthClaims) result" where
  "verify_with lib env cfg ctx token =
     (case jwt_provider_new lib env cfg of
        Inl e \<Rightarrow> Inl e
      | Inr provider \<Rightarrow> jwt_verify lib env provider token ctx)"

definition ws_context :: "string \<Rightarrow> AuthContext" where
  "ws_context addr = \<lparr>cx_peer_addr = addr, cx_transport = ''ws''\<rparr>"

definition is_ok :: "('e, 'a) result \<Rightarrow> bool" where
  "is_ok r = (case r of Inl _ \<Rightarrow> False | Inr _ \<Rightarrow> True)"

text \<open>What \<open>verify_with\<close> comes to under the documented behaviour: the current secret decides, and the
  previous one is asked only when the signature is wrong.\<close>

definition documented_verify ::
    "'key JwtLib \<Rightarrow> nat \<Rightarrow> JwtConfig \<Rightarrow> Algorithm \<Rightarrow> TokenBody \<Rightarrow> bytes \<Rightarrow> (JwtErrorKind, JwtClaims) result" where
  "documented_verify lib now cfg alg b secret =
     (case documented_decode now alg b secret (jg_secret cfg) (build_validation lib cfg) of
        Inl InvalidSignature \<Rightarrow>
          (case jg_previous_secret cfg of
             None \<Rightarrow> Inl InvalidSignature
           | Some prev \<Rightarrow>
               (if prev \<noteq> [] \<and> prev \<noteq> jg_secret cfg
                then documented_decode now alg b secret prev (build_validation lib cfg)
                else Inl InvalidSignature))
      | other \<Rightarrow> other)"

lemma jwt_documented_decode:
  "jwt_documented lib enc now \<Longrightarrow> hmac alg \<Longrightarrow> hmac (va_algorithm v) \<Longrightarrow> \<not> va_validate_aud v \<Longrightarrow>
   jl_decode lib (enc alg b secret) (jl_from_secret lib secret') v
     = documented_decode now alg b secret secret' v"
  by (simp add: jwt_documented_def)

lemma jwt_documented_token:
  assumes "jwt_documented lib enc now"
    and "token = enc alg b secret \<or> token = ''Bearer '' @ enc alg b secret"
  shows "(case strip_prefix token ''Bearer '' of Some t \<Rightarrow> t | None \<Rightarrow> token) = enc alg b secret"
  using assms by (auto simp: jwt_documented_def strip_prefix_def starts_with_def)

lemma build_validation_documented:
  assumes "jwt_documented lib enc now" and "jg_audience cfg = None"
  shows "build_validation lib cfg =
     \<lparr>va_algorithm = jg_algorithm cfg,
      va_iss = (if accepted_issuers cfg = [] then None else Some (accepted_issuers cfg)),
      va_required_claims = (if accepted_issuers cfg \<noteq> [] \<and> jg_require_issuer cfg
        then [''exp'', ''iss''] else [''exp'']),
      va_aud = None, va_validate_aud = False\<rparr>"
  using assms by (simp add: jwt_documented_def build_validation_def Let_def)

lemma verify_with_documented:
  assumes lib: "jwt_documented lib enc now" and hmac: "hmac (jg_algorithm cfg)"
    and aud: "jg_audience cfg = None" and alg: "hmac alg"
    and token: "token = enc alg b secret \<or> token = ''Bearer '' @ enc alg b secret"
  shows "verify_with lib env cfg ctx token =
     (case documented_verify lib now cfg alg b secret of
        Inl e \<Rightarrow> Inl (AuthFailed (''Invalid token: '' @ jl_show_error lib e))
      | Inr claims \<Rightarrow> Inr (build_auth_claims env claims))"
proof -
  let ?v = "build_validation lib cfg"
  have "hmac (va_algorithm ?v)" "\<not> va_validate_aud ?v"
    using hmac by (simp_all add: build_validation_documented [OF lib aud])
  then have dec: "jl_decode lib (enc alg b secret) (jl_from_secret lib s) ?v
      = documented_decode now alg b secret s ?v" for s
    using jwt_documented_decode [OF lib alg] by simp
  have keys: "build_decoding_key lib cfg = Inr (jl_from_secret lib (jg_secret cfg))"
    "build_previous_key lib cfg = (case jg_previous_secret cfg of None \<Rightarrow> None
       | Some prev \<Rightarrow> if prev \<noteq> [] \<and> prev \<noteq> jg_secret cfg then Some (jl_from_secret lib prev) else None)"
    using hmac by (simp_all add: build_decoding_key_def build_previous_key_def hmac_def Let_def split: option.split)
  show ?thesis
    by (simp add: verify_with_def jwt_provider_new_def jwt_verify_def jwt_documented_token [OF lib token]
        jwt_decode_def dec keys documented_verify_def Let_def
        split: sum.split JwtErrorKind.split option.split)
qed

lemmas verify_with_plain = verify_with_documented [OF _ _ _ _ disjI1 [OF refl]]
  and verify_with_bearer = verify_with_documented [OF _ _ _ _ disjI2 [OF refl]]

subsection \<open>jwt/mod.rs\<close>

definition create_test_jwt :: "jwt_encode \<Rightarrow> JwtClaims \<Rightarrow> bytes \<Rightarrow> string" where
  "create_test_jwt enc claims secret =
     enc HS256 (TokenBody (jc_sub claims) (jc_exp claims) (jc_iat claims) (Some (jc_namespaces claims))
       (Some (jc_can_publish claims)) (Some (jc_can_subscribe claims)) None) secret"

definition test_jwt_verify_valid_token ::
    "'key JwtLib \<Rightarrow> jwt_encode \<Rightarrow> environment \<Rightarrow> u64 \<Rightarrow> bool" where
  "test_jwt_verify_valid_token lib enc env now =
     (let secret = ''test-secret-key-at-least-32-chars!!'';
          jwt_claims = \<lparr>jc_sub = ''user-123'', jc_exp = Some (now + 3600), jc_iat = Some now,
            jc_namespaces = [''orders''], jc_can_publish = True, jc_can_subscribe = True, jc_metadata = []\<rparr>;
          token = create_test_jwt enc jwt_claims secret in
      case verify_with lib env (jwt_config_hmac secret) (ws_context ''127.0.0.1:12345'') token of
        Inl _ \<Rightarrow> False
      | Inr claims \<Rightarrow> ac_sub claims = ''user-123'' \<and> ac_can_publish claims \<and> ac_can_subscribe claims \<and>
          ''orders'' \<in> set (ac_namespaces claims))"

definition test_jwt_verify_invalid_token :: "'key JwtLib \<Rightarrow> environment \<Rightarrow> bool" where
  "test_jwt_verify_invalid_token lib env =
     (case jwt_provider_new lib env (jwt_config_hmac ''secret-key-32-chars-minimum!!!!'') of
        Inl _ \<Rightarrow> False
      | Inr provider \<Rightarrow>
          \<not> is_ok (jwt_verify lib env provider ''invalid-token'' (ws_context ''127.0.0.1:12345'')))"

definition test_jwt_verify_with_bearer_prefix ::
    "'key JwtLib \<Rightarrow> jwt_encode \<Rightarrow> environment \<Rightarrow> u64 \<Rightarrow> bool" where
  "test_jwt_verify_with_bearer_prefix lib enc env now =
     (let secret = ''test-secret-key-at-least-32-chars!!'';
          jwt_claims = \<lparr>jc_sub = ''user-456'', jc_exp = Some (now + 3600), jc_iat = None,
            jc_namespaces = [], jc_can_publish = False, jc_can_subscribe = True, jc_metadata = []\<rparr>;
          token = ''Bearer '' @ create_test_jwt enc jwt_claims secret in
      case verify_with lib env (jwt_config_hmac secret) (ws_context ''127.0.0.1:12345'') token of
        Inl _ \<Rightarrow> False
      | Inr claims \<Rightarrow> ac_sub claims = ''user-456'' \<and> \<not> ac_can_publish claims)"

text \<open>The test reads \<open>REALTIME_PROTECTED_NAMESPACES\<close> through the constructor of the provider.\<close>

definition test_jwt_authorize_subscribe :: "'key JwtLib \<Rightarrow> environment \<Rightarrow> bool" where
  "test_jwt_authorize_subscribe lib env =
     (let claims = \<lparr>ac_sub = ''user1'', ac_namespaces = [''orders''], ac_can_publish = False,
            ac_can_subscribe = True, ac_metadata = []\<rparr>;
          topic_ok = pattern_parse ''orders/created'';
          topic_denied = pattern_parse ''admin/settings'' in
      case jwt_provider_new lib env (jwt_config_hmac ''test-secret-key-at-least-32-chars!!'') of
        Inl _ \<Rightarrow> False
      | Inr provider \<Rightarrow> is_ok (jwt_authorize_subscribe provider claims topic_ok) \<and>
          \<not> is_ok (jwt_authorize_subscribe provider claims topic_denied))"

text \<open>The clock of a test: seconds since the epoch, well inside 64 bits.\<close>

definition clock_ok :: "u64 \<Rightarrow> bool" where
  "clock_ok now = (1000 \<le> unat now \<and> unat now < 2 ^ 62)"

lemma later_not_expired:
  "clock_ok now \<Longrightarrow> d = 600 \<or> d = 3600 \<Longrightarrow> \<not> unat (now + d) + 60 < unat now"
  by (auto simp: clock_ok_def unat_word_ariths)

lemma ten_minutes_ago_expired: "clock_ok now \<Longrightarrow> unat (now - 600) + 60 < unat now"
  by (auto simp: clock_ok_def unat_sub word_le_nat_alt)

lemmas eval_jwt = jwt_config_hmac_def hmac_def documented_verify_def documented_decode_def
  accepted_issuers_def has_claim_def is_ok_def Let_def

lemma hmac_config_simps [simp]:
  "hmac (jg_algorithm (jwt_config_hmac secret))" "jg_audience (jwt_config_hmac secret) = None"
  "hmac HS256" "hmac HS384"
  by (simp_all add: jwt_config_hmac_def hmac_def)

lemma jwt_mod_tests_pass:
  assumes "jwt_documented lib enc (unat now)" and "clock_ok now"
  shows "test_jwt_verify_valid_token lib enc env now" "test_jwt_verify_with_bearer_prefix lib enc env now"
    "test_jwt_verify_invalid_token lib env" "test_jwt_authorize_subscribe lib env"
proof -
  note lib = verify_with_plain [OF assms(1)] verify_with_bearer [OF assms(1), simplified] build_validation_documented [OF assms(1)]
    later_not_expired [OF assms(2)]
  show "test_jwt_verify_valid_token lib enc env now"
    by (simp add: test_jwt_verify_valid_token_def create_test_jwt_def lib eval_jwt body_claims_def
        build_auth_claims_def)
  show "test_jwt_verify_with_bearer_prefix lib enc env now"
    by (simp add: test_jwt_verify_with_bearer_prefix_def create_test_jwt_def lib eval_jwt body_claims_def
        build_auth_claims_def)
  have "jl_decode lib ''invalid-token'' key v \<noteq> Inr c" for key v c
  proof -
    obtain e where "jl_decode lib ''invalid-token'' key v = Inl e"
      using assms(1) unfolding jwt_documented_def by blast
    then show ?thesis by simp
  qed
  then show "test_jwt_verify_invalid_token lib env"
    by (auto simp: test_jwt_verify_invalid_token_def jwt_provider_new_def build_decoding_key_def
        jwt_verify_def jwt_decode_def strip_prefix_def starts_with_def eval_jwt
        split: sum.split JwtErrorKind.split option.split)
  show "test_jwt_authorize_subscribe lib env"
    by (simp add: test_jwt_authorize_subscribe_def jwt_provider_new_def build_decoding_key_def eval_jwt
        jwt_authorize_subscribe_def eval_claims pattern_parse_def ends_with_char_def)
qed

subsection \<open>jwt/previous_secret_tests.rs\<close>

definition CURRENT :: string where
  "CURRENT = ''the-current-realtime-secret-32-chars!''"

definition PREVIOUS :: string where
  "PREVIOUS = ''the-previous-realtime-secret-32-chars''"

text \<open>\<open>sign\<close>: the expiry lies \<open>exp_in\<close> seconds, possibly negative, from now.\<close>

definition sign :: "jwt_encode \<Rightarrow> u64 \<Rightarrow> string \<Rightarrow> Algorithm \<Rightarrow> int \<Rightarrow> string" where
  "sign enc now key alg exp_in =
     enc alg (TokenBody ''user-1'' (Some (now + of_int exp_in)) None None None None None) key"

definition accepts_rotated :: "'key JwtLib \<Rightarrow> environment \<Rightarrow> string option \<Rightarrow> string \<Rightarrow> bool" where
  "accepts_rotated lib env previous token =
     (let cfg = (jwt_config_hmac CURRENT)\<lparr>jg_previous_secret := previous\<rparr> in
      is_ok (verify_with lib env cfg (ws_context ''127.0.0.1:1'') token))"

definition previous_secret_is_accepted_when_set ::
    "'key JwtLib \<Rightarrow> jwt_encode \<Rightarrow> environment \<Rightarrow> u64 \<Rightarrow> bool" where
  "previous_secret_is_accepted_when_set lib enc env now =
     (accepts_rotated lib env (Some PREVIOUS) (sign enc now PREVIOUS HS256 600) \<and>
      accepts_rotated lib env (Some PREVIOUS) (sign enc now CURRENT HS256 600))"

definition previous_secret_is_refused_when_unset ::
    "'key JwtLib \<Rightarrow> jwt_encode \<Rightarrow> environment \<Rightarrow> u64 \<Rightarrow> bool" where
  "previous_secret_is_refused_when_unset lib enc env now =
     (\<not> accepts_rotated lib env None (sign enc now PREVIOUS HS256 600) \<and>
      \<not> accepts_rotated lib env (Some []) (sign enc now PREVIOUS HS256 600) \<and>
      accepts_rotated lib env None (sign enc now CURRENT HS256 600))"

definition an_unrelated_secret_is_refused ::
    "'key JwtLib \<Rightarrow> jwt_encode \<Rightarrow> environment \<Rightarrow> u64 \<Rightarrow> bool" where
  "an_unrelated_secret_is_refused lib enc env now =
     (let token = sign enc now ''an-unrelated-secret-at-least-32-chars'' HS256 600 in
      \<not> accepts_rotated lib env (Some PREVIOUS) token)"

definition previous_equal_to_current_is_harmless ::
    "'key JwtLib \<Rightarrow> jwt_encode \<Rightarrow> environment \<Rightarrow> u64 \<Rightarrow> bool" where
  "previous_equal_to_current_is_harmless lib enc env now =
     (accepts_rotated lib env (Some CURRENT) (sign enc now CURRENT HS256 600) \<and>
      \<not> accepts_rotated lib env (Some CURRENT) (sign enc now PREVIOUS HS256 600))"

definition previous_secret_keeps_the_algorithm_pinned ::
    "'key JwtLib \<Rightarrow> jwt_encode \<Rightarrow> environment \<Rightarrow> u64 \<Rightarrow> bool" where
  "previous_secret_keeps_the_algorithm_pinned lib enc env now =
     (\<not> accepts_rotated lib env (Some PREVIOUS) (sign enc now PREVIOUS HS384 600))"

definition previous_secret_does_not_revive_an_expired_token ::
    "'key JwtLib \<Rightarrow> jwt_encode \<Rightarrow> environment \<Rightarrow> u64 \<Rightarrow> bool" where
  "previous_secret_does_not_revive_an_expired_token lib enc env now =
     (\<not> accepts_rotated lib env (Some PREVIOUS) (sign enc now PREVIOUS HS256 (- 600)) \<and>
      \<not> accepts_rotated lib env (Some PREVIOUS) (sign enc now CURRENT HS256 (- 600)))"

lemma previous_secret_tests_pass:
  assumes "jwt_documented lib enc (unat now)" and "clock_ok now"
  shows "previous_secret_is_accepted_when_set lib enc env now"
    "previous_secret_is_refused_when_unset lib enc env now"
    "an_unrelated_secret_is_refused lib enc env now"
    "previous_equal_to_current_is_harmless lib enc env now"
    "previous_secret_keeps_the_algorithm_pinned lib enc env now"
    "previous_secret_does_not_revive_an_expired_token lib enc env now"
proof -
  note eval = accepts_rotated_def sign_def CURRENT_def PREVIOUS_def verify_with_plain [OF assms(1)]
    build_validation_documented [OF assms(1)] later_not_expired [OF assms(2)]
    ten_minutes_ago_expired [OF assms(2)] eval_jwt
  show "previous_secret_is_accepted_when_set lib enc env now"
    "previous_secret_is_refused_when_unset lib enc env now"
    "an_unrelated_secret_is_refused lib enc env now"
    "previous_equal_to_current_is_harmless lib enc env now"
    "previous_secret_keeps_the_algorithm_pinned lib enc env now"
    "previous_secret_does_not_revive_an_expired_token lib enc env now"
    by (simp_all add: previous_secret_is_accepted_when_set_def previous_secret_is_refused_when_unset_def
        an_unrelated_secret_is_refused_def previous_equal_to_current_is_harmless_def
        previous_secret_keeps_the_algorithm_pinned_def previous_secret_does_not_revive_an_expired_token_def
        eval)
qed

subsection \<open>jwt/issuer_tests.rs\<close>

definition SECRET :: string where
  "SECRET = ''issuer-test-secret-at-least-32-chars''"

text \<open>\<open>token\<close>: the claims a test passes hold at most an \<open>iss\<close>; \<open>exp\<close> and \<open>sub\<close> are added.\<close>

definition issuer_token :: "jwt_encode \<Rightarrow> u64 \<Rightarrow> string option \<Rightarrow> string" where
  "issuer_token enc now iss =
     enc HS256 (TokenBody ''user-1'' (Some (now + 3600)) None None None None iss) SECRET"

definition accepts_issuer ::
    "'key JwtLib \<Rightarrow> jwt_encode \<Rightarrow> environment \<Rightarrow> u64 \<Rightarrow> string option \<Rightarrow> bool \<Rightarrow> string option \<Rightarrow> bool" where
  "accepts_issuer lib enc env now issuer require iss =
     (let cfg = (jwt_config_hmac SECRET)\<lparr>jg_issuer := issuer, jg_require_issuer := require\<rparr> in
      is_ok (verify_with lib env cfg (ws_context ''127.0.0.1:1'') (issuer_token enc now iss)))"

definition ISSUER_LIST :: "string option" where
  "ISSUER_LIST = Some ''http://gw/auth/v1, supabase,,grobase-realtime''"

definition listed_issuers_are_accepted ::
    "'key JwtLib \<Rightarrow> jwt_encode \<Rightarrow> environment \<Rightarrow> u64 \<Rightarrow> bool" where
  "listed_issuers_are_accepted lib enc env now =
     list_all (\<lambda>iss. accepts_issuer lib enc env now ISSUER_LIST True (Some iss))
       [''http://gw/auth/v1'', ''supabase'', ''grobase-realtime'']"

definition foreign_issuer_is_rejected ::
    "'key JwtLib \<Rightarrow> jwt_encode \<Rightarrow> environment \<Rightarrow> u64 \<Rightarrow> bool" where
  "foreign_issuer_is_rejected lib enc env now =
     (\<not> accepts_issuer lib enc env now ISSUER_LIST True (Some ''osionos-bridge'') \<and>
      \<not> accepts_issuer lib enc env now ISSUER_LIST False (Some ''osionos-bridge''))"

definition missing_issuer_is_rejected_unless_opted_out ::
    "'key JwtLib \<Rightarrow> jwt_encode \<Rightarrow> environment \<Rightarrow> u64 \<Rightarrow> bool" where
  "missing_issuer_is_rejected_unless_opted_out lib enc env now =
     (\<not> accepts_issuer lib enc env now ISSUER_LIST True None \<and>
      accepts_issuer lib enc env now ISSUER_LIST False None)"

definition no_list_keeps_todays_behaviour ::
    "'key JwtLib \<Rightarrow> jwt_encode \<Rightarrow> environment \<Rightarrow> u64 \<Rightarrow> bool" where
  "no_list_keeps_todays_behaviour lib enc env now =
     (accepts_issuer lib enc env now None True None \<and>
      accepts_issuer lib enc env now (Some '' , '') True (Some ''anything''))"

definition accepted_issuers_trims_and_drops_blanks :: bool where
  "accepted_issuers_trims_and_drops_blanks =
     (accepted_issuers ((jwt_config_hmac SECRET)\<lparr>jg_issuer := ISSUER_LIST\<rparr>)
        = [''http://gw/auth/v1'', ''supabase'', ''grobase-realtime''])"

lemmas eval_trim = trim_def trim_start_def trim_end_def drop_white.simps white_len_def white_len_rev_def
  is_white_def byte_at_def white_bytes_def

lemma issuer_list:
  "filter (\<lambda>i. i \<noteq> []) (map trim (split_on CHR '','' ''http://gw/auth/v1, supabase,,grobase-realtime''))
     = [''http://gw/auth/v1'', ''supabase'', ''grobase-realtime'']"
  "filter (\<lambda>i. i \<noteq> []) (map trim (split_on CHR '','' '' , '')) = []"
  by (simp_all add: eval_trim)

lemma issuer_tests_pass:
  assumes "jwt_documented lib enc (unat now)" and "clock_ok now"
  shows "listed_issuers_are_accepted lib enc env now" "foreign_issuer_is_rejected lib enc env now"
    "missing_issuer_is_rejected_unless_opted_out lib enc env now"
    "no_list_keeps_todays_behaviour lib enc env now" "accepted_issuers_trims_and_drops_blanks"
proof -
  note eval = accepts_issuer_def issuer_token_def ISSUER_LIST_def SECRET_def verify_with_plain [OF assms(1)]
    build_validation_documented [OF assms(1)] later_not_expired [OF assms(2)] eval_jwt issuer_list
  show "listed_issuers_are_accepted lib enc env now" "foreign_issuer_is_rejected lib enc env now"
    "missing_issuer_is_rejected_unless_opted_out lib enc env now"
    "no_list_keeps_todays_behaviour lib enc env now" "accepted_issuers_trims_and_drops_blanks"
    by (simp_all add: listed_issuers_are_accepted_def foreign_issuer_is_rejected_def
        missing_issuer_is_rejected_unless_opted_out_def no_list_keeps_todays_behaviour_def
        accepted_issuers_trims_and_drops_blanks_def eval del: filter.simps split_on.simps list.map)
qed

subsection \<open>A library as documented\<close>

text \<open>Tokens are numbers: the code of the algorithm, the claims and the secret.\<close>

instance Algorithm :: countable
  by countable_datatype

instance TokenBody :: countable
  by countable_datatype

definition numbered_encode :: jwt_encode where
  "numbered_encode alg b secret = show_nat (to_nat (alg, b, secret))"

definition numbered_lib :: "nat \<Rightarrow> bytes JwtLib" where
  "numbered_lib now =
     \<lparr>jl_decode = (\<lambda>token key v. if token = ''invalid-token'' then Inl (OtherJwtError ''InvalidToken'')
        else case from_nat (read_nat token) of (alg, b, secret) \<Rightarrow> documented_decode now alg b secret key v),
      jl_from_secret = (\<lambda>s. s), jl_from_rsa_pem = Inr,
      jl_validation_new = (\<lambda>alg. \<lparr>va_algorithm = alg, va_iss = None, va_required_claims = [''exp''],
        va_aud = None, va_validate_aud = True\<rparr>),
      jl_show_error = (\<lambda>_. ''error'')\<rparr>"

lemma numbered_lib_documented: "jwt_documented (numbered_lib now) numbered_encode now"
proof -
  have "hd (show_nat n) \<noteq> CHR ''i''" "hd (show_nat n) \<noteq> CHR ''B''" for n
    using show_nat_hd [of n] by (auto simp: is_digit_def)
  then have "show_nat n \<noteq> ''invalid-token''" "\<not> starts_with (show_nat n) ''Bearer ''" for n
    by (metis list.sel(1), metis append_Cons list.sel(1) starts_with_iff)
  then show ?thesis
    by (simp add: jwt_documented_def numbered_lib_def numbered_encode_def)
qed

lemma jwt_tests_witness:
  "previous_secret_is_accepted_when_set (numbered_lib 5000) numbered_encode (\<lambda>_. None) 5000 \<and>
   missing_issuer_is_rejected_unless_opted_out (numbered_lib 5000) numbered_encode (\<lambda>_. None) 5000"
  using previous_secret_tests_pass(1) [of "numbered_lib 5000" numbered_encode 5000]
    issuer_tests_pass(3) [of "numbered_lib 5000" numbered_encode 5000] numbered_lib_documented [of 5000]
  by (simp add: clock_ok_def)

end
