(* ===== verification/Rt_Tests_Index.thy ===== *)
theory Rt_Tests_Index
  imports Rt_Tests_Core
begin

text \<open>
  The unit tests of \<open>crates/realtime-engine/src/filter_index/mod.rs\<close>, run on the model.  A test
  threads the state through its calls; an \<open>unwrap\<close> of an error, like a panic, is \<open>None\<close>, so a test that
  passes is \<open>Some True\<close>.  The loops of a hundred subscriptions are not unfolded: the index after \<open>n\<close>
  rounds is given in closed form and proved by induction on the rounds.
\<close>

subsection \<open>Helpers of the tests\<close>

definition make_sub :: "u64 \<Rightarrow> string \<Rightarrow> string \<Rightarrow> FilterExpr option \<Rightarrow> Subscription" where
  "make_sub conn_id sub_id topic flt =
     \<lparr>sb_sub = SubscriptionId sub_id, sb_conn = ConnectionId conn_id, sb_topic = pattern_parse topic,
      sb_filter = flt, sb_config = sub_config_default\<rparr>"

text \<open>\<open>index.add_subscription(&sub, None).unwrap()\<close> and \<open>.unwrap_err().to_string()\<close>.\<close>

definition add_unwrap :: "Externals \<Rightarrow> Subscription \<Rightarrow> FilterIndex \<Rightarrow> FilterIndex option" where
  "add_unwrap x sub fi =
     (case add_subscription x sub None fi of Some (fi, Inr _) \<Rightarrow> Some fi | _ \<Rightarrow> None)"

definition add_unwrap_err :: "Externals \<Rightarrow> Subscription \<Rightarrow> FilterIndex \<Rightarrow> (FilterIndex \<times> string) option" where
  "add_unwrap_err x sub fi =
     (case add_subscription x sub None fi of Some (fi, Inl e) \<Rightarrow> Some (fi, show_error e) | _ \<Rightarrow> None)"

definition str_contains :: "string \<Rightarrow> string \<Rightarrow> bool" where
  "str_contains s p = (find_str p s \<noteq> None)"

lemma str_contains_append: "str_contains t p \<Longrightarrow> str_contains (s @ t) p"
  by (induction s) (auto simp: str_contains_def)

lemma str_contains_prefix: "str_contains s p \<Longrightarrow> str_contains (s @ t) p"
proof (induction s)
  case Nil
  then have "p = []" by (simp add: str_contains_def split: if_splits)
  then show ?case by (cases t) (simp_all add: str_contains_def)
next
  case (Cons c s)
  show ?case
  proof (cases "take (length p) (c # s) = p")
    case True
    then have "take (length p) ((c # s) @ t) = p"
      by (metis append_eq_conv_conj append_take_drop_id append_assoc)
    then show ?thesis by (simp add: str_contains_def)
  next
    case False
    with Cons have "str_contains (s @ t) p" by (auto simp: str_contains_def)
    then show ?thesis by (auto simp: str_contains_def)
  qed
qed

text \<open>\<open>for i in is { .. }\<close>, with an \<open>unwrap\<close> in the body.\<close>

primrec for_each :: "(nat \<Rightarrow> 'a \<Rightarrow> 'a option) \<Rightarrow> nat list \<Rightarrow> 'a \<Rightarrow> 'a option" where
  "for_each body [] s = Some s"
| "for_each body (i # is) s = do { s \<leftarrow> body i s; for_each body is s }"

text \<open>Evaluation proceeds statement by statement: the rest of a block waits for its head.\<close>

lemma bind_head_cong: "m = m' \<Longrightarrow> Option.bind m f = Option.bind m' f"
  by simp

lemmas heads_first = bind_head_cong let_weak_cong prod.case_cong_weak

subsection \<open>filter_index/mod.rs\<close>

definition test_in_filter_bitmap :: "Externals \<Rightarrow> Clock \<Rightarrow> EventId \<Rightarrow> timestamp \<Rightarrow> bool option" where
  "test_in_filter_bitmap x ck uuid now =
     (let flt = FIn (field_path_new ''event_type'') [FString ''created'', FString ''updated''];
          sub = make_sub 1 ''sub-1'' ''orders/*'' (Some flt) in
      do { fi \<leftarrow> add_unwrap x sub fi_new;
           let event1 = braces_event uuid now ''orders/created'' ''created'';
               event2 = braces_event uuid now ''orders/updated'' ''updated'';
               event3 = braces_event uuid now ''orders/deleted'' ''deleted'';
               (b1, fi) = fi_evaluate x ck event1 fi;
               (b2, fi) = fi_evaluate x ck event2 fi;
               (b3, fi) = fi_evaluate x ck event3 fi in
           Some (bm_len b1 = 1 \<and> bm_len b2 = 1 \<and> bm_len b3 = 0) })"

definition test_remove_subscription :: "Externals \<Rightarrow> Clock \<Rightarrow> EventId \<Rightarrow> timestamp \<Rightarrow> bool option" where
  "test_remove_subscription x ck uuid now =
     (let sub = make_sub 1 ''sub-1'' ''orders/created'' None in
      do { fi \<leftarrow> add_unwrap x sub fi_new;
           let event = braces_event uuid now ''orders/created'' ''created'';
               (b1, fi) = fi_evaluate x ck event fi;
               fi = remove_subscription sub fi;
               (b2, fi) = fi_evaluate x ck event fi in
           Some (bm_len b1 = 1 \<and> bm_len b2 = 0) })"

definition test_max_patterns_limit :: "Externals \<Rightarrow> bool option" where
  "test_max_patterns_limit x =
     (let limits = limits_default\<lparr>max_patterns := 3\<rparr> in
      do { fi \<leftarrow> add_unwrap x (make_sub 1 ''s1'' ''topic/a'' None) (fi_with_limits limits);
           fi \<leftarrow> add_unwrap x (make_sub 2 ''s2'' ''topic/b'' None) fi;
           fi \<leftarrow> add_unwrap x (make_sub 3 ''s3'' ''topic/c'' None) fi;
           (fi, err) \<leftarrow> add_unwrap_err x (make_sub 4 ''s4'' ''topic/d'' None) fi;
           fi \<leftarrow> add_unwrap x (make_sub 5 ''s5'' ''topic/c'' None) fi;
           Some (str_contains err ''pattern limit'') })"

definition test_max_composite_keys_limit :: "Externals \<Rightarrow> bool option" where
  "test_max_composite_keys_limit x =
     (let limits = limits_default\<lparr>max_composite_keys := 3\<rparr>;
          flt = FIn (field_path_new ''status'') [FString ''a'', FString ''b'', FString ''c''];
          filter2 = FEq (field_path_new ''status'') (FString ''d'') in
      do { fi \<leftarrow> add_unwrap x (make_sub 1 ''s1'' ''t'' (Some flt)) (fi_with_limits limits);
           (fi, err) \<leftarrow> add_unwrap_err x (make_sub 2 ''s2'' ''t'' (Some filter2)) fi;
           Some (str_contains err ''composite key limit'') })"

definition test_stats_tracking :: "Externals \<Rightarrow> bool option" where
  "test_stats_tracking x =
     (let sub = make_sub 1 ''s1'' ''t'' None in
      do { fi \<leftarrow> add_unwrap x sub fi_new;
           let stats = stats_snapshot (fi_stats fi);
               fi = remove_subscription sub fi;
               stats' = stats_snapshot (fi_stats fi) in
           Some (slots_allocated stats = 1 \<and> slots_active stats = 1 \<and> slots_freed stats = 0 \<and>
             slots_allocated stats' = 1 \<and> slots_freed stats' = 1 \<and> slots_active stats' = 0) })"

definition test_rejected_subscription_counter :: "Externals \<Rightarrow> bool option" where
  "test_rejected_subscription_counter x =
     (let limits = limits_default\<lparr>max_total_subscriptions := 1\<rparr> in
      do { fi \<leftarrow> add_unwrap x (make_sub 1 ''s1'' ''t'' None) (fi_with_limits limits);
           (fi, _) \<leftarrow> add_subscription x (make_sub 2 ''s2'' ''t'' None) None fi;
           Some (subscriptions_rejected (stats_snapshot (fi_stats fi)) = 1) })"

lemma add_unwrap_eq:
  "add_unwrap x sub fi =
     (case check_limits (pattern_str (sb_topic sub)) sub fi of
        (fi, r) \<Rightarrow> (case r of Inl _ \<Rightarrow> None
        | Inr _ \<Rightarrow> (case alloc_slot (dispatch_slot_of sub None) fi of None \<Rightarrow> None
           | Some p \<Rightarrow> Some (add_accepted x sub (fst p) (snd p)))))"
  by (simp add: add_unwrap_def add_subscription_eq split: prod.split sum.split option.split)

lemma add_unwrap_err_eq:
  "add_unwrap_err x sub fi =
     (case check_limits (pattern_str (sb_topic sub)) sub fi of
        (fi, r) \<Rightarrow> (case r of Inl e \<Rightarrow> Some (fi, show_error e) | Inr _ \<Rightarrow> None))"
  by (simp add: add_unwrap_err_def add_subscription_eq split: prod.split sum.split option.split)

lemmas eval_adds = eval_maps eval_index eval_types add_unwrap_eq add_unwrap_err_eq add_accepted_def make_sub_def
  fi_new_def braces_event_def stats_snapshot_def reject_capacity_def str_contains_def fold_simps

lemma index_stats_tests_pass:
  "test_stats_tracking x = Some True" "test_rejected_subscription_counter x = Some True"
  by (simp_all add: test_stats_tracking_def test_rejected_subscription_counter_def eval_adds
     FilterIndexStats.defs saturating_sub_def cong: heads_first del: fold_Cons fold_Nil)

lemma index_limit_tests_pass:
  "test_max_patterns_limit x = Some True" "test_max_composite_keys_limit x = Some True"
  by (simp_all add: test_max_patterns_limit_def test_max_composite_keys_limit_def eval_adds
      cong: heads_first del: fold_Cons fold_Nil add_subscription_def)

text \<open>An evaluation leaves the index as it was, and a closed breaker far from its trip count closed.\<close>

definition calm :: "nat \<Rightarrow> FilterIndex \<Rightarrow> bool" where
  "calm k fi = (\<not> cb_open (fi_breaker fi) \<and>
     unat (consecutive_slow (fi_breaker fi)) + k < unat (trip_count (fi_breaker fi)))"

lemma calm_record: "calm (Suc k) fi \<Longrightarrow> calm k (fi_record ck n fi)"
proof -
  assume calm: "calm (Suc k) fi"
  have slow: "unat (consecutive_slow (fi_breaker fi) + 1) \<le> Suc (unat (consecutive_slow (fi_breaker fi)))"
    by (simp add: unat_word_ariths)
  with calm have "\<not> trip_count (fi_breaker fi) \<le> consecutive_slow (fi_breaker fi) + 1"
    by (simp add: calm_def word_le_nat_alt)
  with calm slow show ?thesis
    by (auto simp: calm_def fi_record_def report_def Let_def split: prod.split)
qed

lemma calm_is_open: "calm k fi \<Longrightarrow> fi_is_open ck fi = (False, fi)"
  by (simp add: calm_def fi_is_open_def is_open_closed)

lemma calm_evaluate:
  assumes "calm (Suc k) fi"
  shows "fst (fi_evaluate x ck event fi) = evaluate_inner x fi event (parse_if_fields x fi event)"
    and "calm k (snd (fi_evaluate x ck event fi))" and "same_index fi (snd (fi_evaluate x ck event fi))"
  using calm_record [OF assms] fi_evaluate_same [of fi x ck event]
  by (simp_all add: fi_evaluate_def calm_is_open [OF assms] Let_def)

lemma evaluate_twice:
  assumes "calm (Suc (Suc k)) fi"
  shows "fst (fi_evaluate x ck2 event2 (snd (fi_evaluate x ck1 event1 fi)))
     = evaluate_inner x fi event2 (parse_if_fields x fi event2)"
  using calm_evaluate(1) [OF calm_evaluate(2) [OF assms]] same_index_eval [OF calm_evaluate(3) [OF assms]]
  by simp

lemma evaluate_thrice:
  assumes "calm (Suc (Suc (Suc k))) fi"
  shows "fst (fi_evaluate x ck3 event3 (snd (fi_evaluate x ck2 event2 (snd (fi_evaluate x ck1 event1 fi)))))
     = evaluate_inner x fi event3 (parse_if_fields x fi event3)"
  using evaluate_twice [OF calm_evaluate(2) [OF assms]] same_index_eval [OF calm_evaluate(3) [OF assms]]
  by simp

lemma in_filter_bits:
  assumes "flt = FIn (field_path_new ''event_type'') [FString ''created'', FString ''updated'']"
  shows "\<exists>fi. add_unwrap x (make_sub 1 ''sub-1'' ''orders/*'' (Some flt)) fi_new = Some fi \<and> calm (Suc (Suc (Suc 0))) fi \<and>
     (\<forall>v. bm_len (evaluate_inner x fi (braces_event uuid now ''orders/created'' ''created'') v) = 1) \<and>
     (\<forall>v. bm_len (evaluate_inner x fi (braces_event uuid now ''orders/updated'' ''updated'') v) = 1) \<and>
     (\<forall>v. bm_len (evaluate_inner x fi (braces_event uuid now ''orders/deleted'' ''deleted'') v) = 0)"
  by (simp add: assms eval_adds calm_def cong: heads_first del: fold_Cons fold_Nil add_subscription_def)

lemma test_in_filter_bitmap_passes: "test_in_filter_bitmap x ck uuid now = Some True"
proof -
  obtain fi where fi: "add_unwrap x (make_sub 1 ''sub-1'' ''orders/*''
       (Some (FIn (field_path_new ''event_type'') [FString ''created'', FString ''updated'']))) fi_new = Some fi"
    and calm: "calm (Suc (Suc (Suc 0))) fi"
    and bits: "\<forall>v. bm_len (evaluate_inner x fi (braces_event uuid now ''orders/created'' ''created'') v) = 1"
      "\<forall>v. bm_len (evaluate_inner x fi (braces_event uuid now ''orders/updated'' ''updated'') v) = 1"
      "\<forall>v. bm_len (evaluate_inner x fi (braces_event uuid now ''orders/deleted'' ''deleted'') v) = 0"
    using in_filter_bits [OF refl, of x uuid now] by (elim exE conjE) (rule that)
  show ?thesis
    by (simp add: test_in_filter_bitmap_def fi Let_def split_beta bits
        calm_evaluate(1) [OF calm] evaluate_twice [OF calm] evaluate_thrice [OF calm])
qed

lemma same_index_restore:
  "same_index fi fi' \<Longrightarrow> fi' = fi\<lparr>fi_stats := fi_stats fi', fi_breaker := fi_breaker fi'\<rparr>"
  by (simp add: same_index_def)

lemma remove_subscription_breaker: "fi_breaker (remove_subscription sub fi) = fi_breaker fi"
  by (cases "dm_get (fi_slot_by_sub fi) (sb_conn sub, sb_sub sub)")
    (simp_all add: remove_absent remove_present [OF _ refl])

lemma remove_bits:
  "\<exists>fi. add_unwrap x (make_sub 1 ''sub-1'' ''orders/created'' None) fi_new = Some fi \<and> calm (Suc (Suc 0)) fi \<and>
     (\<forall>v. bm_len (evaluate_inner x fi (braces_event uuid now ''orders/created'' ''created'') v) = 1) \<and>
     (\<forall>s b v. bm_len (evaluate_inner x (remove_subscription (make_sub 1 ''sub-1'' ''orders/created'' None)
        (fi\<lparr>fi_stats := s, fi_breaker := b\<rparr>)) (braces_event uuid now ''orders/created'' ''created'') v) = 0)"
  by (simp add: eval_adds calm_def cong: heads_first del: fold_Cons fold_Nil add_subscription_def)

lemma test_remove_subscription_passes: "test_remove_subscription x ck uuid now = Some True"
proof -
  let ?sub = "make_sub 1 ''sub-1'' ''orders/created'' None"
  let ?event = "braces_event uuid now ''orders/created'' ''created''"
  obtain fi where fi: "add_unwrap x ?sub fi_new = Some fi" and calm: "calm (Suc (Suc 0)) fi"
    and bits: "\<forall>v. bm_len (evaluate_inner x fi ?event v) = 1"
      "\<forall>s b v. bm_len (evaluate_inner x (remove_subscription ?sub (fi\<lparr>fi_stats := s, fi_breaker := b\<rparr>)) ?event v) = 0"
    using remove_bits [of x uuid now] by (elim exE conjE) (rule that)
  let ?fi' = "snd (fi_evaluate x ck ?event fi)"
  have "calm (Suc 0) (remove_subscription ?sub ?fi')"
    using calm_evaluate(2) [OF calm] by (simp add: calm_def remove_subscription_breaker)
  moreover have "bm_len (evaluate_inner x (remove_subscription ?sub ?fi') ?event v) = 0" for v
    using bits(2) same_index_restore [OF calm_evaluate(3) [OF calm, of x ck ?event]] by metis
  ultimately show ?thesis
    by (simp add: test_remove_subscription_def fi Let_def split_beta bits(1) calm_evaluate(1) [OF calm]
        calm_evaluate(1))
qed

subsection \<open>Loops of subscriptions to one topic\<close>

definition broadcast_sub :: "(nat \<Rightarrow> string) \<Rightarrow> nat \<Rightarrow> Subscription" where
  "broadcast_sub name i = make_sub (of_nat i) (name i) ''broadcast'' None"

definition test_unfiltered_bitmap :: "Externals \<Rightarrow> Clock \<Rightarrow> EventId \<Rightarrow> timestamp \<Rightarrow> bool option" where
  "test_unfiltered_bitmap x ck uuid now =
     do { fi \<leftarrow> for_each (\<lambda>i. add_unwrap x (broadcast_sub (\<lambda>i. ''sub-'' @ show_nat i) i)) [0..<100] fi_new;
          let event = braces_event uuid now ''broadcast'' ''notify'';
              (bitmap, fi) = fi_evaluate x ck event fi in
          Some (bm_len bitmap = 100) }"

definition test_max_total_subscriptions_limit :: "Externals \<Rightarrow> bool option" where
  "test_max_total_subscriptions_limit x =
     (let limits = limits_default\<lparr>max_total_subscriptions := 5\<rparr> in
      do { fi \<leftarrow> for_each (\<lambda>i. add_unwrap x (broadcast_sub (\<lambda>i. ''sub-'' @ show_nat i) i)) [0..<5]
             (fi_with_limits limits);
           (fi, err) \<leftarrow> add_unwrap_err x (make_sub 99 ''sub-99'' ''broadcast'' None) fi;
           Some (str_contains err ''global subscription limit'') })"

text \<open>The last assertion of the source bounds the time of the evaluation, a clock reading here.\<close>

definition test_evaluation_stats_tracking :: "Externals \<Rightarrow> Clock \<Rightarrow> EventId \<Rightarrow> timestamp \<Rightarrow> bool option" where
  "test_evaluation_stats_tracking x ck uuid now =
     do { fi \<leftarrow> for_each (\<lambda>i. add_unwrap x (broadcast_sub (\<lambda>i. ''s-'' @ show_nat i) i)) [0..<10] fi_new;
          let event = braces_event uuid now ''broadcast'' ''x'';
              (_, fi) = fi_evaluate x ck event fi;
              stats = stats_snapshot (fi_stats fi) in
          Some (evaluations_total stats = 1 \<and> matches_total stats = 10 \<and> last_eval_us stats < 1000000) }"

lemma for_each_append:
  "for_each body (is @ js) s = Option.bind (for_each body is s) (for_each body js)"
  by (induction "is" arbitrary: s) (auto split: Option.bind_splits)

text \<open>The index after \<open>n\<close> rounds, in closed form.\<close>

definition broadcast_index :: "FilterIndexLimits \<Rightarrow> (nat \<Rightarrow> string) \<Rightarrow> nat \<Rightarrow> FilterIndex" where
  "broadcast_index l name n =
     (fi_with_limits l)
       \<lparr>fi_unfiltered := (if n = 0 then [] else [(''broadcast'', map of_nat [0..<n])]),
        fi_patterns := (if n = 0 then [] else [(''broadcast'', Exact (TopicPath ''broadcast''))]),
        fi_sub_keys := map (\<lambda>i. ((ConnectionId (of_nat i), SubscriptionId (name i)), [])) [0..<n],
        fi_slots := map (\<lambda>i. Some (dispatch_slot_of (broadcast_sub name i) None)) [0..<n],
        fi_slot_by_sub := map (\<lambda>i. ((ConnectionId (of_nat i), SubscriptionId (name i)), of_nat i)) [0..<n],
        fi_stats := stats_new\<lparr>slots_allocated := of_nat n\<rparr>\<rparr>"

lemma update_fresh: "k \<notin> fst ` set m \<Longrightarrow> AList.update k v m = m @ [(k, v)]"
  by (induction m) auto

lemma insort_insert_last:
  "(\<And>j. j \<in> set b \<Longrightarrow> j < (i :: u32)) \<Longrightarrow> List.insort_insert i b = b @ [i]"
proof (induction b)
  case (Cons j b)
  then have "\<not> i \<le> j" "i \<noteq> j" by (auto simp: not_le)
  with Cons show ?case by (auto simp: insort_insert_key_def)
qed (simp add: insort_insert_key_def)

lemma of_nat_small_less:
  "i < n \<Longrightarrow> n < 1000 \<Longrightarrow> (of_nat i :: u32) < of_nat n" "i < n \<Longrightarrow> n < 1000 \<Longrightarrow> (of_nat i :: u64) \<noteq> of_nat n"
  by (simp_all add: word_less_nat_alt unat_of_nat word_unat_eq_iff)

lemma insort_insert_next:
  "n < 1000 \<Longrightarrow> List.insort_insert (of_nat n :: u32) (map of_nat [0..<n]) = map of_nat [0..<n] @ [of_nat n]"
  by (rule insort_insert_last) (auto simp: of_nat_small_less)

lemma broadcast_round:
  assumes "n < 1000" and "n < unat (max_total_subscriptions l)" and "0 < unat (max_patterns l)"
    and "n < unat (max_subscriptions_per_pattern l)"
  shows "add_unwrap x (broadcast_sub name n) (broadcast_index l name n) = Some (broadcast_index l name (Suc n))"
proof -
  have "check_limits ''broadcast'' (broadcast_sub name n) (broadcast_index l name n)
      = (broadcast_index l name n, Inr ())"
    using assms
    by (simp add: check_limits_def broadcast_index_def fi_with_limits_def dm_len_def dm_contains_def dm_get_def
        pattern_sub_count_def bm_len_def broadcast_sub_def make_sub_def estimate_new_keys_def stats_new_def Let_def)
  moreover let ?fi = "(broadcast_index l name n)\<lparr>fi_slots := fi_slots (broadcast_index l name n) @
          [Some (dispatch_slot_of (broadcast_sub name n) None)]\<rparr>"
  have "alloc_slot (dispatch_slot_of (broadcast_sub name n) None) (broadcast_index l name n)
      = Some (of_nat n, ?fi)"
    using assms(1)
    by (simp add: alloc_slot_def slab_alloc_def broadcast_index_def fi_with_limits_def)
  moreover have "pattern_str (sb_topic (broadcast_sub name n)) = ''broadcast''"
    by (simp add: broadcast_sub_def make_sub_def)
  ultimately have "add_unwrap x (broadcast_sub name n) (broadcast_index l name n)
      = Some (add_accepted x (broadcast_sub name n) (of_nat n) ?fi)"
    by (simp add: add_unwrap_eq)
  also have "add_accepted x (broadcast_sub name n) (of_nat n) ?fi = broadcast_index l name (Suc n)"
    using assms(1)
    by (cases "n = 0")
      (simp_all add: add_accepted_def Let_def broadcast_index_def fi_with_limits_def fi_map_stats_def
        dm_insert_def update_fresh image_iff of_nat_small_less of_nat_small_less(2) [THEN not_sym] bm_insert_def
        insort_insert_next insort_insert_next [of 0, simplified] dm_or_insert_def dm_get_def dm_entry_def broadcast_sub_def make_sub_def pattern_parse_def
        topic_new_def ends_with_char_def dispatch_slot_of_def)
  finally show ?thesis .
qed

lemma broadcast_rounds:
  assumes "n \<le> 1000" and "n \<le> unat (max_total_subscriptions l)" and "0 < unat (max_patterns l)"
    and "n \<le> unat (max_subscriptions_per_pattern l)"
  shows "for_each (\<lambda>i. add_unwrap x (broadcast_sub name i)) [0..<n] (fi_with_limits l)
     = Some (broadcast_index l name n)"
  using assms
proof (induction n)
  case 0
  then show ?case by (simp add: broadcast_index_def fi_with_limits_def stats_new_def)
next
  case (Suc n)
  then show ?case using broadcast_round [of n l x name] by (simp add: for_each_append)
qed

lemma bm_union_range: "m \<le> 1000 \<Longrightarrow> bm_union [] (map of_nat [0..<m]) = map of_nat [0..<m]"
  by (induction m) (auto simp: bm_union_def bm_insert_def insort_insert_next)

lemma broadcast_bits:
  assumes "0 < n" and "n \<le> 1000" and "ev_topic event = TopicPath ''broadcast''"
  shows "evaluate_inner x (broadcast_index l name n) event v = map of_nat [0..<n]"
  using assms bm_union_range [of n]
  by (simp add: evaluate_inner_def broadcast_index_def fi_with_limits_def union_opt_def dm_get_def)

lemma broadcast_evaluate:
  "0 < n \<Longrightarrow> n \<le> 1000 \<Longrightarrow>
   bm_len (evaluate_inner x (broadcast_index l name n) (braces_event uuid now ''broadcast'' ty) v) = n"
  by (simp add: broadcast_bits braces_event_def topic_new_def bm_len_def)

lemma broadcast_calm:
  "0 < unat (circuit_breaker_trip_count l) - Suc k \<Longrightarrow> calm (Suc k) (broadcast_index l name n)"
  by (simp add: calm_def broadcast_index_def fi_with_limits_def breaker_new_def)

lemma broadcast_tests_pass:
  "test_unfiltered_bitmap x ck uuid now = Some True"
  "test_max_total_subscriptions_limit x = Some True"
  "ck_elapsed_us ck < 1000000 \<Longrightarrow> test_evaluation_stats_tracking x ck uuid now = Some True"
proof -
  have calm: "calm (Suc 0) (broadcast_index limits_default name n)" for name n
    by (rule broadcast_calm) (simp add: limits_default_def)
  have rounds: "for_each (\<lambda>i. add_unwrap x (broadcast_sub name i)) [0..<n] (fi_with_limits l)
     = Some (broadcast_index l name n)"
    if "n \<le> 100" "l = limits_default \<or> n = 5 \<and> l = limits_default\<lparr>max_total_subscriptions := 5\<rparr>" for name n l
    using that by (intro broadcast_rounds) (auto simp: limits_default_def)
  show "test_unfiltered_bitmap x ck uuid now = Some True"
    by (simp add: test_unfiltered_bitmap_def fi_new_def rounds split_beta Let_def calm_evaluate(1) [OF calm]
        broadcast_evaluate)
  have full: "\<exists>fi err. add_unwrap_err x sub (broadcast_index (limits_default\<lparr>max_total_subscriptions := 5\<rparr>) name 5)
      = Some (fi, err) \<and> str_contains err ''global subscription limit''" for name sub
    by (simp add: add_unwrap_err_eq check_limits_def broadcast_index_def fi_with_limits_def limits_default_def
        dm_len_def reject_capacity_def fi_map_stats_def str_contains_def Let_def)
  show "test_max_total_subscriptions_limit x = Some True"
    using full [of "make_sub 99 ''sub-99'' ''broadcast'' None" "\<lambda>i. ''sub-'' @ show_nat i"]
    by (auto simp: test_max_total_subscriptions_limit_def rounds simp del: append.simps)
  have closed: "fi_is_open ck (broadcast_index limits_default name 10) = (False, broadcast_index limits_default name 10)" for name
    using calm [of name 10] by (simp add: fi_is_open_def calm_def is_open_closed)
  have stats: "fi_stats (broadcast_index limits_default name 10) = stats_new\<lparr>slots_allocated := 10\<rparr>" for name
    by (simp add: broadcast_index_def)
  show "test_evaluation_stats_tracking x ck uuid now = Some True" if "ck_elapsed_us ck < 1000000"
    using that
    by (simp add: test_evaluation_stats_tracking_def fi_new_def rounds split_beta Let_def fi_evaluate_def closed
        broadcast_evaluate fi_record_def stats stats_snapshot_def FilterIndexStats.defs report_def
        record_evaluation_def stats_new_def)
qed

text \<open>\<open>test_filtered_bitmap\<close>: subscriptions to one event type (\<open>0..h\<close>), then to another (\<open>h..n\<close>).\<close>

definition typed_value :: "nat \<Rightarrow> nat \<Rightarrow> string" where
  "typed_value h i = (if i < h then ''created'' else ''deleted'')"

definition typed_sub :: "nat \<Rightarrow> nat \<Rightarrow> Subscription" where
  "typed_sub h i = make_sub (of_nat i) (''sub-'' @ show_nat i) ''orders/*''
     (Some (FEq (field_path_new ''event_type'') (FString (typed_value h i))))"

definition test_filtered_bitmap :: "Externals \<Rightarrow> Clock \<Rightarrow> EventId \<Rightarrow> timestamp \<Rightarrow> bool option" where
  "test_filtered_bitmap x ck uuid now =
     do { fi \<leftarrow> for_each (\<lambda>i. add_unwrap x (typed_sub 50 i)) [0..<50] fi_new;
          fi \<leftarrow> for_each (\<lambda>i. add_unwrap x (typed_sub 50 i)) [50..<100] fi;
          let event = braces_event uuid now ''orders/created'' ''created'';
              (bitmap, fi) = fi_evaluate x ck event fi in
          Some (bm_len bitmap = 50 \<and> list_all (\<lambda>id. id < 50) bitmap) }"

definition typed_key :: "nat \<Rightarrow> nat \<Rightarrow> string" where
  "typed_key h i = make_index_key ''orders/*'' ''event_type'' (typed_value h i)"

definition typed_index :: "nat \<Rightarrow> nat \<Rightarrow> FilterIndex" where
  "typed_index h n =
     (fi_with_limits limits_default)
       \<lparr>fi_index := (if n = 0 then [] else [(typed_key h 0, map of_nat [0..<min n h])]) @
          (if n \<le> h then [] else [(typed_key h h, map of_nat [h..<n])]),
        fi_patterns := (if n = 0 then [] else [(''orders/*'', Glob ''orders/*'')]),
        fi_fields := (if n = 0 then [] else [(''orders/*'', [FieldPath ''event_type''])]),
        fi_sub_keys := map (\<lambda>i. ((ConnectionId (of_nat i), SubscriptionId (''sub-'' @ show_nat i)), [typed_key h i])) [0..<n],
        fi_slots := map (\<lambda>i. Some (dispatch_slot_of (typed_sub h i) None)) [0..<n],
        fi_slot_by_sub := map (\<lambda>i. ((ConnectionId (of_nat i), SubscriptionId (''sub-'' @ show_nat i)), of_nat i)) [0..<n],
        fi_stats := stats_new\<lparr>slots_allocated := of_nat n, composite_key_count := of_nat n\<rparr>\<rparr>"

lemma insort_insert_next_from:
  "n < 1000 \<Longrightarrow> List.insort_insert (of_nat n :: u32) (map of_nat [m..<n]) = map of_nat [m..<n] @ [of_nat n]"
  by (rule insort_insert_last) (auto simp: of_nat_small_less)

lemma few_keys: "n < 100 \<Longrightarrow> \<not> (2000000 :: usize) < of_nat n + 1"
proof -
  assume n: "n < 100"
  have "(of_nat n + 1 :: usize) = of_nat (Suc n)" by simp
  with n show ?thesis by (simp only: word_less_nat_alt) (simp add: unat_of_nat del: of_nat_Suc)
qed

lemma typed_limits:
  "n < 100 \<Longrightarrow> check_limits ''orders/*'' (typed_sub h n) (typed_index h n) = (typed_index h n, Inr ())"
  by (simp add: check_limits_def typed_index_def fi_with_limits_def limits_default_def dm_len_def dm_contains_def
      dm_get_def pattern_sub_count_def typed_sub_def make_sub_def estimate_new_keys_def stats_new_def
      existing_fields_def count_new_fields_def few_keys Let_def)

definition early_key :: string where
  "early_key = make_index_key ''orders/*'' ''event_type'' ''created''"

definition late_key :: string where
  "late_key = make_index_key ''orders/*'' ''event_type'' ''deleted''"

lemma typed_keys:
  "early_key \<noteq> late_key" "late_key \<noteq> early_key" "n < h \<Longrightarrow> typed_key h n = early_key"
  "h \<le> n \<Longrightarrow> typed_key h n = late_key"
  by (simp_all add: typed_key_def early_key_def late_key_def make_index_key_def typed_value_def)

lemma add_accepted_eq_filter:
  assumes "sb_filter sub = Some (FEq fld (FString v))"
  shows "add_accepted x sub i fi =
     fi\<lparr>fi_stats := (fi_stats fi)\<lparr>slots_allocated := slots_allocated (fi_stats fi) + 1,
          composite_key_count := composite_key_count (fi_stats fi) + 1\<rparr>,
        fi_patterns := dm_or_insert (pattern_str (sb_topic sub)) (sb_topic sub) (fi_patterns fi),
        fi_slot_by_sub := dm_insert (sb_conn sub, sb_sub sub) i (fi_slot_by_sub fi),
        fi_index := dm_entry (make_index_key (pattern_str (sb_topic sub)) (field_str fld) v) [] (bm_insert i) (fi_index fi),
        fi_fields := dm_entry (pattern_str (sb_topic sub)) []
          (\<lambda>flds. if list_ex (\<lambda>f. field_str f = field_str fld) flds then flds
             else flds @ [field_path_new (field_str fld)]) (fi_fields fi),
        fi_sub_keys := dm_insert (sb_conn sub, sb_sub sub)
          [make_index_key (pattern_str (sb_topic sub)) (field_str fld) v] (fi_sub_keys fi)\<rparr>"
  by (simp add: add_accepted_def assms Let_def index_one_def index_field_def fi_bump_keys_def fi_map_stats_def)

lemma typed_bits:
  assumes "n < 1000" and "0 < h"
  shows "dm_entry (typed_key h n) [] (bm_insert (of_nat n)) (fi_index (typed_index h n)) = fi_index (typed_index h (Suc n))"
proof -
  consider "n = 0" | "0 < n" "n < h" | "n = h" | "h < n" by linarith
  then show ?thesis
    using assms insort_insert_next_from [of n 0] insort_insert_next_from [of n h]
      insort_insert_next_from [of 0 0, simplified]
    by cases (simp_all add: typed_index_def dm_entry_def dm_insert_def dm_get_def bm_insert_def typed_keys min_def)
qed

lemma typed_sub_sel:
  "sb_filter (typed_sub h n) = Some (FEq (FieldPath ''event_type'') (FString (typed_value h n)))"
  "sb_topic (typed_sub h n) = Glob ''orders/*''" "sb_conn (typed_sub h n) = ConnectionId (of_nat n)"
  "sb_sub (typed_sub h n) = SubscriptionId (''sub-'' @ show_nat n)"
  by (simp_all add: typed_sub_def make_sub_def field_path_new_def pattern_parse_def)

lemma typed_round:
  assumes "n < 100" and "0 < h"
  shows "add_unwrap x (typed_sub h n) (typed_index h n) = Some (typed_index h (Suc n))"
proof -
  let ?fi = "(typed_index h n)\<lparr>fi_slots := fi_slots (typed_index h n) @ [Some (dispatch_slot_of (typed_sub h n) None)]\<rparr>"
  have "alloc_slot (dispatch_slot_of (typed_sub h n) None) (typed_index h n) = Some (of_nat n, ?fi)"
    using assms(1) by (simp add: alloc_slot_def slab_alloc_def typed_index_def fi_with_limits_def)
  then have "add_unwrap x (typed_sub h n) (typed_index h n)
      = Some (add_accepted x (typed_sub h n) (of_nat n) ?fi)"
    using typed_limits [OF assms(1)] by (simp add: add_unwrap_eq typed_sub_sel)
  also have "add_accepted x (typed_sub h n) (of_nat n) ?fi = typed_index h (Suc n)"
  proof (rule FilterIndex.equality)
    note eq = add_accepted_eq_filter [OF typed_sub_sel(1)] typed_sub_sel
    show "fi_index (add_accepted x (typed_sub h n) (of_nat n) ?fi) = fi_index (typed_index h (Suc n))"
      using typed_bits [of n h] assms by (simp add: eq typed_key_def)
    show "fi_fields (add_accepted x (typed_sub h n) (of_nat n) ?fi) = fi_fields (typed_index h (Suc n))"
      by (cases "n = 0") (simp_all add: eq typed_index_def fi_with_limits_def dm_entry_def dm_insert_def dm_get_def field_path_new_def)
    show "fi_sub_keys (add_accepted x (typed_sub h n) (of_nat n) ?fi) = fi_sub_keys (typed_index h (Suc n))"
      "fi_slot_by_sub (add_accepted x (typed_sub h n) (of_nat n) ?fi) = fi_slot_by_sub (typed_index h (Suc n))"
      using assms(1)
      by (simp_all add: eq typed_index_def dm_insert_def update_fresh image_iff of_nat_small_less(2) [THEN not_sym]
          typed_key_def)
    show "fi_patterns (add_accepted x (typed_sub h n) (of_nat n) ?fi) = fi_patterns (typed_index h (Suc n))"
      by (cases "n = 0") (simp_all add: eq typed_index_def fi_with_limits_def dm_or_insert_def dm_insert_def dm_get_def)
  qed (simp_all add: add_accepted_eq_filter [OF typed_sub_sel(1)] typed_index_def fi_with_limits_def stats_new_def)
  finally show ?thesis .
qed

lemma typed_rounds:
  "0 < h \<Longrightarrow> m + n \<le> 100 \<Longrightarrow>
   for_each (\<lambda>i. add_unwrap x (typed_sub h i)) [m..<m + n] (typed_index h m) = Some (typed_index h (m + n))"
proof (induction n)
  case (Suc n)
  then show ?case using typed_round [of "m + n" h x] by (simp add: for_each_append)
qed simp

lemma typed_evaluate:
  "0 < h \<Longrightarrow> h < n \<Longrightarrow> h < 1000 \<Longrightarrow>
   evaluate_inner x (typed_index h n) (braces_event uuid now ''orders/created'' ''created'') v = map of_nat [0..<h]"
proof -
  assume h: "0 < h" "h < n" "h < 1000"
  have "typed_key h 0 = early_key" using h typed_keys(3) by simp
  then have "dm_get (fi_index (typed_index h n)) early_key = Some (map of_nat [0..<h])"
    using h by (simp add: typed_index_def dm_get_def min_def)
  then have "dm_get (fi_index (typed_index h n)) (make_index_key ''orders/*'' ''event_type'' ''created'')
      = Some (map of_nat [0..<h])"
    by (simp add: early_key_def)
  with h bm_union_range [of h] show ?thesis
    by (simp add: evaluate_inner_def evaluate_field_def union_opt_def envelope_field_getter_cached_def
        braces_event_def) (simp add: typed_index_def fi_with_limits_def topic_new_def glob_match_def union_opt_def
        evaluate_field_def envelope_field_getter_cached_def dm_get_def)
qed

lemma test_filtered_bitmap_passes: "test_filtered_bitmap x ck uuid now = Some True"
proof -
  have start: "typed_index 50 0 = fi_new"
    by (simp add: typed_index_def fi_new_def fi_with_limits_def stats_new_def)
  have calm: "calm (Suc 0) (typed_index 50 100)"
    by (simp add: calm_def typed_index_def fi_with_limits_def breaker_new_def limits_default_def)
  have "for_each (\<lambda>i. add_unwrap x (typed_sub 50 i)) [0..<50] fi_new = Some (typed_index 50 50)"
    "for_each (\<lambda>i. add_unwrap x (typed_sub 50 i)) [50..<100] (typed_index 50 50) = Some (typed_index 50 100)"
    using typed_rounds [of 50 0 50 x] typed_rounds [of 50 50 50 x] by (simp_all add: start del: upt_rec_numeral)
  then have "test_filtered_bitmap x ck uuid now =
     (let bitmap = map of_nat [0..<50] in Some (bm_len bitmap = 50 \<and> list_all (\<lambda>id. id < 50) bitmap))"
    by (simp add: test_filtered_bitmap_def split_beta calm_evaluate(1) [OF calm] typed_evaluate Let_def
        del: upt_rec_numeral)
  also have "\<dots> = Some True"
    using of_nat_small_less(1) [where n = 50] by (auto simp: bm_len_def list_all_iff Let_def simp del: upt_rec_numeral)
  finally show ?thesis .
qed

end
