(* ===== verification/Rt_Tests_Engine.thy ===== *)
theory Rt_Tests_Engine
  imports Rt_Tests_Index Rt_Router Rt_Presence
begin

text \<open>
  The unit tests of the registry, the router, the sequence numbers and the presence tracker
  (\<open>crates/realtime-engine/src\<close>: \<open>registry/mod.rs\<close>, \<open>router.rs\<close>, \<open>sequence.rs\<close>, \<open>presence.rs\<close>), run on
  the model, with the conventions of \<open>Rt_Tests_Index\<close>.
\<close>

subsection \<open>sequence.rs\<close>

definition test_sequence_monotonic :: bool where
  "test_sequence_monotonic =
     (let gen = sequence_new;
          (s1, gen) = sequence_next ''orders/created'' gen;
          (s2, gen) = sequence_next ''orders/created'' gen;
          (s3, gen) = sequence_next ''orders/created'' gen in
      s1 = 1 \<and> s2 = 2 \<and> s3 = 3)"

definition test_sequence_per_topic :: bool where
  "test_sequence_per_topic =
     (let gen = sequence_new;
          (s1, gen) = sequence_next ''orders/created'' gen;
          (s2, gen) = sequence_next ''users/updated'' gen in
      s1 = 1 \<and> s2 = 1)"

definition test_sequence_current :: bool where
  "test_sequence_current =
     (let gen = sequence_new;
          before = sequence_current ''none'' gen;
          (_, gen) = sequence_next ''test'' gen in
      before = 0 \<and> sequence_current ''test'' gen = 1)"

lemma sequence_tests_pass: "test_sequence_monotonic" "test_sequence_per_topic" "test_sequence_current"
  by (simp_all add: test_sequence_monotonic_def test_sequence_per_topic_def test_sequence_current_def
      sequence_new_def sequence_next_def sequence_current_def dm_or_insert_def dm_insert_def dm_get_def Let_def)

subsection \<open>presence.rs\<close>

definition presence_member :: "u64 \<Rightarrow> string \<Rightarrow> PresenceMember" where
  "presence_member conn user =
     \<lparr>pm_conn_id = show_word conn, pm_user_id = Some user, pm_meta = JObject [(''color'', JString ''blue'')]\<rparr>"

definition track_then_members_lists_the_member :: bool where
  "track_then_members_lists_the_member =
     (let p = [];
          (after, p) = presence_track ''room/1'' (ConnectionId 7) (presence_member 7 ''alice'') p in
      length after = 1 \<and> length (presence_members ''room/1'' p) = 1 \<and>
      pm_user_id (presence_members ''room/1'' p ! 0) = Some ''alice'')"

definition second_track_same_conn_updates_in_place :: bool where
  "second_track_same_conn_updates_in_place =
     (let p = [];
          (_, p) = presence_track ''room/1'' (ConnectionId 7) (presence_member 7 ''alice'') p;
          (after, p) = presence_track ''room/1'' (ConnectionId 7) (presence_member 7 ''alice2'') p in
      length after = 1 \<and> pm_user_id (presence_members ''room/1'' p ! 0) = Some ''alice2'')"

definition untrack_removes_and_reports_remaining :: bool where
  "untrack_removes_and_reports_remaining =
     (let p = [];
          (_, p) = presence_track ''room/1'' (ConnectionId 1) (presence_member 1 ''alice'') p;
          (_, p) = presence_track ''room/1'' (ConnectionId 2) (presence_member 2 ''bob'') p;
          (remaining, p) = presence_untrack ''room/1'' (ConnectionId 1) p in
      (case remaining of None \<Rightarrow> False | Some ms \<Rightarrow> length ms = 1) \<and>
      pm_user_id (presence_members ''room/1'' p ! 0) = Some ''bob'')"

definition untrack_unknown_conn_returns_none :: bool where
  "untrack_unknown_conn_returns_none =
     (let p = [];
          (_, p) = presence_track ''room/1'' (ConnectionId 1) (presence_member 1 ''alice'') p;
          (r1, p) = presence_untrack ''room/1'' (ConnectionId 99) p;
          (r2, p) = presence_untrack ''no/such/topic'' (ConnectionId 1) p in
      r1 = None \<and> r2 = None)"

definition last_leave_prunes_topic :: bool where
  "last_leave_prunes_topic =
     (let p = [];
          (_, p) = presence_track ''room/1'' (ConnectionId 1) (presence_member 1 ''alice'') p;
          (_, p) = presence_untrack ''room/1'' (ConnectionId 1) p in
      presence_topic_count p = 0)"

definition remove_connection_clears_all_its_topics :: bool where
  "remove_connection_clears_all_its_topics =
     (let p = [];
          (_, p) = presence_track ''room/1'' (ConnectionId 1) (presence_member 1 ''alice'') p;
          (_, p) = presence_track ''room/2'' (ConnectionId 1) (presence_member 1 ''alice'') p;
          (_, p) = presence_track ''room/1'' (ConnectionId 2) (presence_member 2 ''bob'') p;
          (affected, p) = presence_remove_connection (ConnectionId 1) p in
      length affected = 2 \<and>
      list_all (\<lambda>m. pm_user_id m \<noteq> Some ''alice'') (presence_members ''room/1'' p) \<and>
      length (presence_members ''room/2'' p) = 0)"

lemmas eval_presence = presence_track_def presence_untrack_def presence_values_def presence_members_def
  presence_member_def presence_remove_connection_def presence_topic_count_def dm_entry_def dm_insert_def
  dm_get_def dm_contains_def dm_remove_def dm_keys_def dm_len_def Let_def

lemma presence_tests_pass:
  "track_then_members_lists_the_member" "second_track_same_conn_updates_in_place"
  "untrack_removes_and_reports_remaining" "untrack_unknown_conn_returns_none" "last_leave_prunes_topic"
  "remove_connection_clears_all_its_topics"
  by (simp_all add: track_then_members_lists_the_member_def second_track_same_conn_updates_in_place_def
      untrack_removes_and_reports_remaining_def untrack_unknown_conn_returns_none_def last_leave_prunes_topic_def
      remove_connection_clears_all_its_topics_def eval_presence)

subsection \<open>registry/mod.rs\<close>

definition subscribe_unwrap :: "Externals \<Rightarrow> Subscription \<Rightarrow> SubscriptionRegistry \<Rightarrow> SubscriptionRegistry option" where
  "subscribe_unwrap x sub r =
     (case subscribe x sub None r of Some (r, Inr _) \<Rightarrow> Some r | _ \<Rightarrow> None)"

definition subscribe_unwrap_err ::
    "Externals \<Rightarrow> Subscription \<Rightarrow> SubscriptionRegistry \<Rightarrow> (SubscriptionRegistry \<times> string) option" where
  "subscribe_unwrap_err x sub r =
     (case subscribe x sub None r of Some (r, Inl e) \<Rightarrow> Some (r, show_error e) | _ \<Rightarrow> None)"

definition test_subscribe_and_lookup :: "Externals \<Rightarrow> EventId \<Rightarrow> timestamp \<Rightarrow> bool option" where
  "test_subscribe_and_lookup x uuid now =
     do { registry \<leftarrow> subscribe_unwrap x (make_sub 1 ''sub-1'' ''orders/created'' None) registry_new;
          let event = braces_event uuid now ''orders/created'' ''created'';
              matches = lookup_matches x event registry in
          Some (length matches = 1 \<and> fst (matches ! 0) = ConnectionId 1) }"

definition test_glob_pattern_matching :: "Externals \<Rightarrow> EventId \<Rightarrow> timestamp \<Rightarrow> bool option" where
  "test_glob_pattern_matching x uuid now =
     do { registry \<leftarrow> subscribe_unwrap x (make_sub 1 ''sub-1'' ''orders/*'' None) registry_new;
          let event1 = braces_event uuid now ''orders/created'' ''created'';
              event2 = braces_event uuid now ''users/created'' ''created'' in
          Some (length (lookup_matches x event1 registry) = 1 \<and>
            length (lookup_matches x event2 registry) = 0) }"

definition test_filter_matching :: "Externals \<Rightarrow> EventId \<Rightarrow> timestamp \<Rightarrow> bool option" where
  "test_filter_matching x uuid now =
     (let flt = FEq (field_path_new ''event_type'') (FString ''created'') in
      do { registry \<leftarrow> subscribe_unwrap x (make_sub 1 ''sub-1'' ''orders/*'' (Some flt)) registry_new;
           let event_match = braces_event uuid now ''orders/created'' ''created'';
               event_no_match = braces_event uuid now ''orders/deleted'' ''deleted'' in
           Some (length (lookup_matches x event_match registry) = 1 \<and>
             length (lookup_matches x event_no_match registry) = 0) })"

definition test_unsubscribe :: "Externals \<Rightarrow> bool option" where
  "test_unsubscribe x =
     do { registry \<leftarrow> subscribe_unwrap x (make_sub 1 ''sub-1'' ''orders/created'' None) registry_new;
          let before = subscription_count registry;
              (registry, _) = unsubscribe (ConnectionId 1) ''sub-1'' registry in
          Some (before = 1 \<and> subscription_count registry = 0) }"

definition test_remove_connection :: "Externals \<Rightarrow> bool option" where
  "test_remove_connection x =
     (let sub1 = make_sub 1 ''sub-1'' ''orders/created'' None;
          sub2 = make_sub 1 ''sub-2'' ''users/updated'' None in
      do { registry \<leftarrow> subscribe_unwrap x sub1 registry_new;
           registry \<leftarrow> subscribe_unwrap x sub2 registry;
           let before = subscription_count registry;
               registry = registry_remove_connection (ConnectionId 1) registry in
           Some (before = 2 \<and> subscription_count registry = 0 \<and> connection_count registry = 0) })"

definition test_filter_index_stats_exposed :: "Externals \<Rightarrow> bool option" where
  "test_filter_index_stats_exposed x =
     do { registry \<leftarrow> subscribe_unwrap x (make_sub 1 ''sub-1'' ''orders/created'' None) registry_new;
          let snap = filter_index_snapshot registry in
          Some (slots_active snap = 1 \<and> slots_allocated snap = 1) }"

definition test_pattern_count_exposed :: "Externals \<Rightarrow> bool option" where
  "test_pattern_count_exposed x =
     do { registry \<leftarrow> subscribe_unwrap x (make_sub 1 ''s1'' ''topic/a'' None) registry_new;
          registry \<leftarrow> subscribe_unwrap x (make_sub 2 ''s2'' ''topic/b'' None) registry;
          registry \<leftarrow> subscribe_unwrap x (make_sub 3 ''s3'' ''topic/a'' None) registry;
          Some (pattern_count registry = 2) }"

lemma subscribe_unwrap_eq:
  "subscribe_unwrap x sub r =
     (case check_subscription_guards r (sb_conn sub)
             (max_subscriptions_per_connection (fi_limits (rg_filter_index r)))
             (max_total_subscriptions (fi_limits (rg_filter_index r))) of
        Inl _ \<Rightarrow> None
      | Inr _ \<Rightarrow> (case add_unwrap x sub (rg_filter_index r) of None \<Rightarrow> None
         | Some fi \<Rightarrow> Some (registry_insert sub None (r\<lparr>rg_filter_index := fi\<rparr>))))"
  by (simp add: subscribe_unwrap_def subscribe_def add_unwrap_def Let_def split: sum.split option.split prod.split)

lemmas eval_registry_tests = eval_adds subscribe_unwrap_eq check_subscription_guards_def registry_insert_def
  registry_new_def lookup_matches_def lookup_entry_def unsubscribe_def registry_remove_connection_def remove_entry_def
  subscription_count_def connection_count_def pattern_count_def filter_index_snapshot_def event_getter_def

lemma registry_lookup_tests_pass:
  "test_subscribe_and_lookup x uuid now = Some True" "test_glob_pattern_matching x uuid now = Some True"
  "test_filter_matching x uuid now = Some True"
  by (simp_all add: test_subscribe_and_lookup_def test_glob_pattern_matching_def test_filter_matching_def
      eval_registry_tests cong: heads_first del: fold_Cons fold_Nil add_subscription_def)

lemma registry_removal_tests_pass:
  "test_unsubscribe x = Some True" "test_remove_connection x = Some True"
  by (simp_all add: test_unsubscribe_def test_remove_connection_def eval_registry_tests
     cong: heads_first del: fold_Cons fold_Nil add_subscription_def)

lemma registry_count_tests_pass:
  "test_filter_index_stats_exposed x = Some True" "test_pattern_count_exposed x = Some True"
  by (simp_all add: test_filter_index_stats_exposed_def test_pattern_count_exposed_def eval_registry_tests
     FilterIndexStats.defs saturating_sub_def cong: heads_first del: fold_Cons fold_Nil add_subscription_def)

subsection \<open>router.rs\<close>

text \<open>The router and the test share the registry, and the test holds the receiving end of the channel.\<close>

definition router_start :: "nat \<Rightarrow> EventRouter" where
  "router_start capacity = router_new registry_new sequence_new (channel_new capacity)"

definition router_subscribe :: "Externals \<Rightarrow> Subscription \<Rightarrow> EventRouter \<Rightarrow> EventRouter option" where
  "router_subscribe x sub router =
     do { registry \<leftarrow> subscribe_unwrap x sub (rt_registry router);
          Some (router\<lparr>rt_registry := registry\<rparr>) }"

definition dispatch_rx_recv :: "EventRouter \<Rightarrow> (DispatchMessage \<times> EventRouter) option" where
  "dispatch_rx_recv router =
     do { (msg, tx) \<leftarrow> channel_recv (rt_dispatch_tx router);
          Some (msg, router\<lparr>rt_dispatch_tx := tx\<rparr>) }"

definition test_route_event_to_single_subscriber :: "Externals \<Rightarrow> Clock \<Rightarrow> EventId \<Rightarrow> timestamp \<Rightarrow> bool option" where
  "test_route_event_to_single_subscriber x ck uuid now =
     do { router \<leftarrow> router_subscribe x (make_sub 1 ''sub-1'' ''orders/created'' None) (router_start 1024);
          let event = envelope_new uuid now (topic_new ''orders/created'') ''created'' ''{\"id\": 1}'';
          (count, router) \<leftarrow> route_event x ck event router;
          (msg, router) \<leftarrow> dispatch_rx_recv router;
          Some (count = 1 \<and>
            (case msg of
               DispatchBatch event targets \<Rightarrow>
                 length targets = 1 \<and> fst (targets ! 0) = ConnectionId 1 \<and> ev_sequence event = 1
             | DispatchSingle d \<Rightarrow> ld_conn d = ConnectionId 1 \<and> ev_sequence (ld_event d) = 1)) }"

text \<open>Draining the channel with \<open>try_recv\<close>, counting targets.\<close>

definition message_count :: "DispatchMessage \<Rightarrow> nat" where
  "message_count msg = (case msg of DispatchBatch _ targets \<Rightarrow> length targets | DispatchSingle _ \<Rightarrow> 1)"

definition test_route_event_to_multiple_subscribers ::
    "Externals \<Rightarrow> Clock \<Rightarrow> EventId \<Rightarrow> timestamp \<Rightarrow> bool option" where
  "test_route_event_to_multiple_subscribers x ck uuid now =
     do { router \<leftarrow> for_each (\<lambda>i. router_subscribe x (broadcast_sub (\<lambda>i. ''sub-'' @ show_nat i) i)) [0..<100]
            (router_start 4096);
          (count, router) \<leftarrow> route_event x ck (braces_event uuid now ''broadcast'' ''notify'') router;
          let received = sum_list (map message_count (ch_buf (rt_dispatch_tx router))) in
          Some (count = 100 \<and> received = 100) }"

definition test_no_matches :: "Externals \<Rightarrow> Clock \<Rightarrow> EventId \<Rightarrow> timestamp \<Rightarrow> bool option" where
  "test_no_matches x ck uuid now =
     do { (count, router) \<leftarrow> route_event x ck (braces_event uuid now ''no/subscribers'' ''test'') (router_start 1024);
          Some (count = 0) }"

text \<open>One round of \<open>test_sequence_numbers_increment\<close>; a failed assertion is \<open>None\<close>.\<close>

definition sequence_round :: "Externals \<Rightarrow> Clock \<Rightarrow> EventId \<Rightarrow> timestamp \<Rightarrow> nat \<Rightarrow> EventRouter \<Rightarrow> EventRouter option" where
  "sequence_round x ck uuid now i router =
     do { (_, router) \<leftarrow> route_event x ck (braces_event uuid now ''orders/created'' ''created'') router;
          (msg, router) \<leftarrow> dispatch_rx_recv router;
          (let n = (case msg of DispatchBatch event _ \<Rightarrow> ev_sequence event | DispatchSingle d \<Rightarrow> ev_sequence (ld_event d))
           in if n = of_nat i then Some router else None) }"

definition test_sequence_numbers_increment :: "Externals \<Rightarrow> Clock \<Rightarrow> EventId \<Rightarrow> timestamp \<Rightarrow> bool option" where
  "test_sequence_numbers_increment x ck uuid now =
     do { router \<leftarrow> router_subscribe x (make_sub 1 ''sub-1'' ''orders/*'' None) (router_start 1024);
          router \<leftarrow> for_each (sequence_round x ck uuid now) [1..<6] router;
          Some True }"

lemma calm_after_match: "calm (Suc k) fi \<Longrightarrow> calm k (after_match ck n fi)"
  using calm_record by (simp add: after_match_def calm_is_open)

text \<open>What one route does when the breaker is closed and the channel has room.\<close>

definition routed_to :: "Externals \<Rightarrow> EventEnvelope \<Rightarrow> FilterIndex \<Rightarrow> (ConnectionId \<times> SubscriptionId) list" where
  "routed_to x event fi = map (\<lambda>s. (ds_conn s, ds_sub s)) (matched_slots x False event fi)"

lemma route_calm:
  assumes calm: "calm (Suc k) (rg_filter_index (rt_registry r))" and safe: "fi_safe (rg_filter_index (rt_registry r))"
    and num: "sequence_next (topic_str (ev_topic event)) (rt_sequence_gen r) = (n, g)"
    and ms: "routed_to x (event\<lparr>ev_sequence := n\<rparr>) (rg_filter_index (rt_registry r)) = ms" and "ms \<noteq> []"
    and "\<not> ch_closed (rt_dispatch_tx r)" and "length (ch_buf (rt_dispatch_tx r)) < ch_cap (rt_dispatch_tx r)"
  shows "\<exists>s fi'. route_event x ck event r = Some (length ms,
      r\<lparr>rt_sequence_gen := g, rt_registry := (rt_registry r)\<lparr>rg_filter_index := fi'\<rparr>,
        rt_dispatch_tx := (rt_dispatch_tx r)\<lparr>ch_buf := ch_buf (rt_dispatch_tx r) @ [DispatchBatch (event\<lparr>ev_sequence := n\<rparr>) ms]\<rparr>,
        rt_stats := s\<rparr>) \<and>
     same_index (rg_filter_index (rt_registry r)) fi' \<and> calm k fi'"
proof -
  let ?fi = "rg_filter_index (rt_registry r)"
  have closed: "fst (fi_is_open ck ?fi) = False"
    by (simp add: calm_is_open [OF calm])
  have fold: "fold (\<lambda>s. push_target (ds_conn s) (ds_sub s) (ds_gateway s)) ss acc
      = acc @ map (\<lambda>s. (ds_conn s, ds_sub s)) ss" for ss acc
    by (induction ss arbitrary: acc) (simp_all add: push_target_def)
  have len: "length (matched_slots x False (event\<lparr>ev_sequence := n\<rparr>) ?fi) = length ms"
    using ms by (simp add: routed_to_def flip: ms)
  have "registry_for_each_match x ck (event\<lparr>ev_sequence := n\<rparr>) push_target (rt_registry r) []
      = Some (length ms, ms, (rt_registry r)\<lparr>rg_filter_index := after_match ck (length ms) ?fi\<rparr>)"
    using fi_for_each_match_eq [OF safe refl, of x ck "event\<lparr>ev_sequence := n\<rparr>" push_target "[]"] ms len
    by (simp add: registry_for_each_match_def closed fold routed_to_def)
  with assms(5-7) show ?thesis
    using calm_after_match [OF calm, of ck "length ms"] after_match_same [of ?fi ck "length ms"]
    by (auto simp: route_event_def num try_send_def Let_def intro!: exI)
qed

lemma test_no_matches_passes: "test_no_matches x ck uuid now = Some True"
  by (simp add: test_no_matches_def router_start_def router_new_def registry_new_def sequence_new_def
      sequence_next_def braces_event_def route_event_def registry_for_each_match_def fi_for_each_match_def
      fi_new_def fi_with_limits_def breaker_new_def fi_is_open_def is_open_def evaluate_inner_def
      dm_or_insert_def dm_get_def dm_insert_def Let_def)

lemma single_index:
  assumes "topic = ''orders/created'' \<or> topic = ''orders/*''"
  shows "\<exists>registry. subscribe_unwrap x (make_sub 1 ''sub-1'' topic None) registry_new = Some registry \<and>
     calm 6 (rg_filter_index registry) \<and> fi_safe (rg_filter_index registry) \<and>
     (\<forall>e. ev_topic e = TopicPath ''orders/created'' \<longrightarrow>
        routed_to x e (rg_filter_index registry) = [(ConnectionId 1, SubscriptionId ''sub-1'')])"
  using assms
  by (elim disjE) (simp_all add: eval_registry_tests calm_def routed_to_def matched_slots_def slots_of_def slab_get_def
     slot_passes_def fi_safe_def ids_below_def bm_at_def map_filter_simps
     cong: heads_first del: fold_Cons fold_Nil add_subscription_def)

lemma routed_to_same: "same_index fi fi' \<Longrightarrow> routed_to x event fi' = routed_to x event fi"
  by (simp add: routed_to_def matched_slots_def same_index_eval slots_of_same)

lemma test_route_event_to_single_subscriber_passes:
  "test_route_event_to_single_subscriber x ck uuid now = Some True"
proof -
  obtain registry where sub: "subscribe_unwrap x (make_sub 1 ''sub-1'' ''orders/created'' None) registry_new = Some registry"
    and calm: "calm 6 (rg_filter_index registry)" and safe: "fi_safe (rg_filter_index registry)"
    and to: "\<forall>e. ev_topic e = TopicPath ''orders/created'' \<longrightarrow>
        routed_to x e (rg_filter_index registry) = [(ConnectionId 1, SubscriptionId ''sub-1'')]"
    using single_index [of "''orders/created''" x, OF disjI1 [OF refl]] by (elim exE conjE) (rule that)
  let ?event = "envelope_new uuid now (topic_new ''orders/created'') ''created'' ''{\"id\": 1}''"
  let ?r = "(router_start 1024)\<lparr>rt_registry := registry\<rparr>"
  have start: "router_subscribe x (make_sub 1 ''sub-1'' ''orders/created'' None) (router_start 1024) = Some ?r"
    by (simp add: router_subscribe_def router_start_def router_new_def sub)
  have "calm (Suc 5) (rg_filter_index (rt_registry ?r))" "fi_safe (rg_filter_index (rt_registry ?r))"
    using calm safe by simp_all
  moreover have "sequence_next (topic_str (ev_topic ?event)) (rt_sequence_gen ?r) = (1, [(''orders/created'', 1)])"
    by (simp add: router_start_def router_new_def sequence_new_def sequence_next_def topic_new_def dm_or_insert_def
        dm_get_def dm_insert_def)
  moreover have "routed_to x (?event\<lparr>ev_sequence := 1\<rparr>) (rg_filter_index (rt_registry ?r)) = [(ConnectionId 1, SubscriptionId ''sub-1'')]"
    using to by (simp add: topic_new_def)
  ultimately obtain s fi' where "route_event x ck ?event ?r = Some (1,
      ?r\<lparr>rt_sequence_gen := [(''orders/created'', 1)], rt_registry := (rt_registry ?r)\<lparr>rg_filter_index := fi'\<rparr>,
        rt_dispatch_tx := (rt_dispatch_tx ?r)\<lparr>ch_buf := ch_buf (rt_dispatch_tx ?r) @
          [DispatchBatch (?event\<lparr>ev_sequence := 1\<rparr>) [(ConnectionId 1, SubscriptionId ''sub-1'')]]\<rparr>, rt_stats := s\<rparr>)"
    using route_calm [of 5 ?r ?event 1 "[(''orders/created'', 1)]" x "[(ConnectionId 1, SubscriptionId ''sub-1'')]" ck]
    by (auto simp: router_start_def router_new_def channel_new_def)
  with start show ?thesis
    by (simp add: test_route_event_to_single_subscriber_def dispatch_rx_recv_def channel_recv_def router_start_def
        router_new_def channel_new_def Let_def)
qed

text \<open>The rounds of the last test keep this: one subscriber, \<open>i\<close> events numbered, an empty channel.\<close>

definition round_inv :: "Externals \<Rightarrow> nat \<Rightarrow> nat \<Rightarrow> EventRouter \<Rightarrow> bool" where
  "round_inv x k i r =
     (calm k (rg_filter_index (rt_registry r)) \<and> fi_safe (rg_filter_index (rt_registry r)) \<and>
      (\<forall>e. ev_topic e = TopicPath ''orders/created'' \<longrightarrow>
        routed_to x e (rg_filter_index (rt_registry r)) = [(ConnectionId 1, SubscriptionId ''sub-1'')]) \<and>
      sequence_current ''orders/created'' (rt_sequence_gen r) = of_nat i \<and>
      rt_dispatch_tx r = channel_new 1024)"

lemma sequence_round_step:
  assumes "round_inv x (Suc k) i r"
  shows "\<exists>r'. sequence_round x ck uuid now (Suc i) r = Some r' \<and> round_inv x k (Suc i) r'"
proof -
  let ?event = "braces_event uuid now ''orders/created'' ''created''"
  let ?n = "of_nat (Suc i) :: u64"
  let ?t = "[(ConnectionId 1, SubscriptionId ''sub-1'')]"
  obtain n g where num: "sequence_next (topic_str (ev_topic ?event)) (rt_sequence_gen r) = (n, g)" by fastforce
  then have n: "n = ?n" and g: "sequence_current ''orders/created'' g = ?n"
    using assms seq.nxt_value [of "''orders/created''" "rt_sequence_gen r"]
      seq.nxt_cur [of "''orders/created''" "''orders/created''" "rt_sequence_gen r"]
    by (simp_all add: round_inv_def braces_event_def topic_new_def)
  have to: "routed_to x (?event\<lparr>ev_sequence := n\<rparr>) (rg_filter_index (rt_registry r)) = ?t"
    using assms by (simp add: round_inv_def braces_event_def topic_new_def)
  obtain s fi' where "route_event x ck ?event r = Some (1,
      r\<lparr>rt_sequence_gen := g, rt_registry := (rt_registry r)\<lparr>rg_filter_index := fi'\<rparr>,
        rt_dispatch_tx := (rt_dispatch_tx r)\<lparr>ch_buf := ch_buf (rt_dispatch_tx r) @
          [DispatchBatch (?event\<lparr>ev_sequence := n\<rparr>) ?t]\<rparr>, rt_stats := s\<rparr>)"
    and same: "same_index (rg_filter_index (rt_registry r)) fi'" and "calm k fi'"
    using route_calm [OF _ _ num to, of k ck] assms by (auto simp: round_inv_def channel_new_def)
  with assms n g show ?thesis
    by (simp add: sequence_round_def dispatch_rx_recv_def channel_recv_def round_inv_def channel_new_def Let_def
        same_index_safe [OF same] routed_to_same [OF same])
qed

lemma test_sequence_numbers_increment_passes: "test_sequence_numbers_increment x ck uuid now = Some True"
proof -
  obtain registry where sub: "subscribe_unwrap x (make_sub 1 ''sub-1'' ''orders/*'' None) registry_new = Some registry"
    and calm: "calm 6 (rg_filter_index registry)" and safe: "fi_safe (rg_filter_index registry)"
    and to: "\<forall>e. ev_topic e = TopicPath ''orders/created'' \<longrightarrow>
        routed_to x e (rg_filter_index registry) = [(ConnectionId 1, SubscriptionId ''sub-1'')]"
    using single_index [of "''orders/*''" x, OF disjI2 [OF refl]] by (elim exE conjE) (rule that)
  let ?r = "(router_start 1024)\<lparr>rt_registry := registry\<rparr>"
  have rounds: "\<exists>r'. for_each (sequence_round x ck uuid now) [Suc i..<Suc i + m] r = Some r'"
    if "round_inv x (m + k) i r" for m k i r
    using that
  proof (induction m arbitrary: i r)
    case (Suc m)
    from Suc.prems have "round_inv x (Suc (m + k)) i r" by simp
    from sequence_round_step [OF this, of ck uuid now]
    obtain r1 where "sequence_round x ck uuid now (Suc i) r = Some r1" "round_inv x (m + k) (Suc i) r1" by blast
    moreover have "[Suc i..<Suc i + Suc m] = Suc i # [Suc (Suc i)..<Suc (Suc i) + m]"
      by (simp add: upt_rec)
    ultimately show ?case using Suc.IH [of "Suc i" r1] by simp
  qed simp
  have "round_inv x (5 + 1) 0 ?r"
    using calm safe to
    by (simp add: round_inv_def router_start_def router_new_def sequence_new_def sequence_current_def)
  from rounds [OF this] show ?thesis
    by (auto simp: test_sequence_numbers_increment_def router_subscribe_def sub router_start_def router_new_def)
qed

subsection \<open>A hundred connections on one topic\<close>

definition test_multiple_connections_same_topic :: "Externals \<Rightarrow> EventId \<Rightarrow> timestamp \<Rightarrow> bool option" where
  "test_multiple_connections_same_topic x uuid now =
     do { registry \<leftarrow> for_each (\<lambda>i. subscribe_unwrap x (broadcast_sub (\<lambda>i. ''sub-'' @ show_nat i) i)) [0..<100]
            registry_new;
          let event = braces_event uuid now ''broadcast'' ''notify'';
              matches = lookup_matches x event registry in
          Some (length matches = 100) }"

definition broadcast_entry :: "(nat \<Rightarrow> string) \<Rightarrow> nat \<Rightarrow> SubscriptionEntry" where
  "broadcast_entry name i = \<lparr>se_subscription = broadcast_sub name i, se_gateway_node = None\<rparr>"

definition broadcast_registry :: "(nat \<Rightarrow> string) \<Rightarrow> nat \<Rightarrow> SubscriptionRegistry" where
  "broadcast_registry name n =
     \<lparr>rg_by_connection = map (\<lambda>i. (ConnectionId (of_nat i), [broadcast_entry name i])) [0..<n],
      rg_by_topic = (if n = 0 then []
        else [(''broadcast'', map (\<lambda>i. (ConnectionId (of_nat i), SubscriptionId (name i))) [0..<n])]),
      rg_by_sub_id = map (\<lambda>i. ((ConnectionId (of_nat i), name i), broadcast_entry name i)) [0..<n],
      rg_patterns = (if n = 0 then [] else [(''broadcast'', Exact (TopicPath ''broadcast''))]),
      rg_filter_index = broadcast_index limits_default name n\<rparr>"

lemma map_of_fresh: "k \<notin> fst ` set m \<Longrightarrow> map_of m k = None"
  by (simp add: map_of_eq_None_iff)

lemma broadcast_sub_sel:
  "sb_conn (broadcast_sub name i) = ConnectionId (of_nat i)" "sb_sub (broadcast_sub name i) = SubscriptionId (name i)"
  "sb_topic (broadcast_sub name i) = Exact (TopicPath ''broadcast'')" "sb_filter (broadcast_sub name i) = None"
  by (simp_all add: broadcast_sub_def make_sub_def pattern_parse_def topic_new_def ends_with_char_def)

lemma broadcast_subscribe:
  assumes "n < 1000"
  shows "subscribe_unwrap x (broadcast_sub name n) (broadcast_registry name n) = Some (broadcast_registry name (Suc n))"
proof -
  have limits: "max_subscriptions_per_connection (fi_limits (broadcast_index limits_default name n)) = 200"
    "max_total_subscriptions (fi_limits (broadcast_index limits_default name n)) = 1000000"
    by (simp_all add: broadcast_index_def fi_with_limits_def limits_default_def)
  have index: "rg_filter_index (broadcast_registry name n) = broadcast_index limits_default name n"
    by (simp add: broadcast_registry_def)
  have "check_subscription_guards (broadcast_registry name n) (ConnectionId (of_nat n)) 200 1000000 = Inr ()"
    using assms
    by (simp add: check_subscription_guards_def broadcast_registry_def dm_get_def map_of_fresh image_iff dm_len_def
        of_nat_small_less(2) [THEN not_sym])
  moreover have "add_unwrap x (broadcast_sub name n) (broadcast_index limits_default name n)
      = Some (broadcast_index limits_default name (Suc n))"
    using assms by (intro broadcast_round) (simp_all add: limits_default_def)
  moreover have "registry_insert (broadcast_sub name n) None
      ((broadcast_registry name n)\<lparr>rg_filter_index := broadcast_index limits_default name (Suc n)\<rparr>)
      = broadcast_registry name (Suc n)"
    using assms
    by (cases "n = 0")
      (simp_all add: registry_insert_def broadcast_registry_def broadcast_sub_sel broadcast_entry_def dm_entry_def
        dm_insert_def dm_or_insert_def dm_get_def map_of_fresh update_fresh image_iff
        of_nat_small_less(2) [THEN not_sym] Let_def)
  ultimately show ?thesis
    by (simp add: subscribe_unwrap_eq index limits broadcast_sub_sel)
qed

lemma broadcast_subscribes:
  "n \<le> 1000 \<Longrightarrow> for_each (\<lambda>i. subscribe_unwrap x (broadcast_sub name i)) [0..<n] registry_new = Some (broadcast_registry name n)"
proof (induction n)
  case 0
  then show ?case
    by (simp add: broadcast_registry_def registry_new_def broadcast_index_def fi_new_def fi_with_limits_def stats_new_def)
next
  case (Suc n)
  then show ?case using broadcast_subscribe [of n x name] by (simp add: for_each_append)
qed

lemma broadcast_lookup:
  assumes "i < n" and "n \<le> 1000"
  shows "dm_get (rg_by_sub_id (broadcast_registry name n)) (ConnectionId (of_nat i), name i) = Some (broadcast_entry name i)"
proof -
  have "inj_on (\<lambda>i. (ConnectionId (of_nat i), name i)) {0..<n}"
    using assms(2) by (auto simp: inj_on_def word_unat_eq_iff unat_of_nat)
  then have "distinct (map fst (rg_by_sub_id (broadcast_registry name n)))"
    by (simp add: broadcast_registry_def o_def distinct_map)
  moreover have "((ConnectionId (of_nat i), name i), broadcast_entry name i) \<in> set (rg_by_sub_id (broadcast_registry name n))"
    using assms(1) by (auto simp: broadcast_registry_def)
  ultimately show ?thesis
    unfolding dm_get_def by (rule map_of_is_SomeI)
qed

lemma test_multiple_connections_same_topic_passes: "test_multiple_connections_same_topic x uuid now = Some True"
proof -
  let ?name = "\<lambda>i. ''sub-'' @ show_nat i"
  have one: "length (lookup_entry x event (broadcast_registry name n) (ConnectionId (of_nat i), SubscriptionId (name i))) = 1"
    if "i < n" "n \<le> 1000" for event name n i
    by (simp add: lookup_entry_def broadcast_lookup [OF that] broadcast_entry_def broadcast_sub_sel)
  have "length (lookup_matches x (braces_event uuid now ''broadcast'' ''notify'') (broadcast_registry name n)) = n"
    if "0 < n" "n \<le> 1000" for name n
  proof -
    have "length (lookup_matches x (braces_event uuid now ''broadcast'' ''notify'') (broadcast_registry name n))
      = sum_list (map (\<lambda>i. length (lookup_entry x (braces_event uuid now ''broadcast'' ''notify'') (broadcast_registry name n)
          (ConnectionId (of_nat i), SubscriptionId (name i)))) [0..<n])"
      using that(1)
      by (simp add: lookup_matches_def length_concat o_def) (simp add: broadcast_registry_def braces_event_def
          topic_new_def dm_get_def length_concat o_def)
    also have "\<dots> = sum_list (map (\<lambda>i. 1) [0..<n])"
      using one [OF _ that(2)] by (intro arg_cong [where f = sum_list] map_cong) simp_all
    finally show ?thesis by (simp add: sum_list_triv)
  qed
  from this [of 100 ?name] show ?thesis
    using broadcast_subscribes [of 100 x ?name]
    by (simp add: test_multiple_connections_same_topic_def del: append.simps upt_rec_numeral)
qed

lemma add_unwrap_safe: "fi_safe fi \<Longrightarrow> add_unwrap x sub fi = Some fi' \<Longrightarrow> fi_safe fi'"
  by (rule add_safe [of fi x sub None]) (auto simp: add_unwrap_def split: sum.splits)

lemma broadcast_safe: "n \<le> 1000 \<Longrightarrow> fi_safe (broadcast_index limits_default name n)"
proof (induction n)
  case 0
  then show ?case
    by (simp add: broadcast_index_def fi_safe_def ids_below_def fi_with_limits_def bm_at_def dm_get_def)
next
  case (Suc n)
  have "add_unwrap x (broadcast_sub name n) (broadcast_index limits_default name n)
      = Some (broadcast_index limits_default name (Suc n))" for x
    using Suc.prems by (intro broadcast_round) (simp_all add: limits_default_def)
  with Suc show ?case by (metis add_unwrap_safe Suc_leD)
qed

lemma broadcast_routed:
  assumes "0 < n" and "n \<le> 1000" and "ev_topic event = TopicPath ''broadcast''"
  shows "length (routed_to x event (broadcast_index l name n)) = n"
proof -
  let ?fi = "broadcast_index l name n"
  have slot: "slab_get (fi_slots ?fi, fi_free ?fi) (of_nat i) = Some (dispatch_slot_of (broadcast_sub name i) None)"
    if "i < n" for i
    using that assms(2) by (simp add: slab_get_def broadcast_index_def unat_of_nat)
  have "slots_of ?fi (map of_nat is) = map (\<lambda>i. dispatch_slot_of (broadcast_sub name i) None) is"
    if "\<forall>i\<in>set is. i < n" for "is"
    using that by (induction "is") (simp_all add: slots_of_def slot List.map_filter_simps)
  then have "slots_of ?fi (map of_nat [0..<n]) = map (\<lambda>i. dispatch_slot_of (broadcast_sub name i) None) [0..<n]"
    by simp
  then show ?thesis
    by (simp add: routed_to_def matched_slots_def broadcast_bits [OF assms] slot_passes_def dispatch_slot_of_def
        broadcast_sub_sel filter_map o_def)
qed

lemma broadcast_router:
  "n \<le> 1000 \<Longrightarrow> for_each (\<lambda>i. router_subscribe x (broadcast_sub name i)) [0..<n] (router_start cap)
     = Some ((router_start cap)\<lparr>rt_registry := broadcast_registry name n\<rparr>)"
proof (induction n)
  case 0
  then show ?case using broadcast_subscribes [of 0 x name] by (simp add: router_start_def router_new_def)
next
  case (Suc n)
  then show ?case using broadcast_subscribe [of n x name] by (simp add: for_each_append router_subscribe_def)
qed

lemma broadcast_route:
  assumes "0 < n" and "n \<le> 1000" and topic: "ev_topic event = TopicPath ''broadcast''"
  shows "\<exists>event' targets router'.
     route_event x ck event ((router_start 4096)\<lparr>rt_registry := broadcast_registry name n\<rparr>) = Some (n, router') \<and>
     ch_buf (rt_dispatch_tx router') = [DispatchBatch event' targets] \<and> length targets = n"
proof -
  let ?fi = "broadcast_index limits_default name n"
  let ?r = "(router_start 4096)\<lparr>rt_registry := broadcast_registry name n\<rparr>"
  obtain k g where num: "sequence_next (topic_str (ev_topic event)) (rt_sequence_gen ?r) = (k, g)" by fastforce
  have index: "rg_filter_index (rt_registry ?r) = ?fi" by (simp add: broadcast_registry_def)
  let ?ms = "routed_to x (event\<lparr>ev_sequence := k\<rparr>) (rg_filter_index (rt_registry ?r))"
  have len: "length ?ms = n"
    unfolding index by (rule broadcast_routed) (simp_all add: assms)
  then have ne: "?ms \<noteq> []" using assms(1) by auto
  have calm: "calm (Suc 0) (rg_filter_index (rt_registry ?r))"
    unfolding index by (rule broadcast_calm) (simp add: limits_default_def)
  have safe: "fi_safe (rg_filter_index (rt_registry ?r))"
    unfolding index by (rule broadcast_safe [OF assms(2)])
  have tx: "\<not> ch_closed (rt_dispatch_tx ?r)" "ch_buf (rt_dispatch_tx ?r) = []"
    "length (ch_buf (rt_dispatch_tx ?r)) < ch_cap (rt_dispatch_tx ?r)"
    by (simp_all add: router_start_def router_new_def channel_new_def)
  obtain s fi' where "route_event x ck event ?r = Some (length ?ms,
      ?r\<lparr>rt_sequence_gen := g, rt_registry := (rt_registry ?r)\<lparr>rg_filter_index := fi'\<rparr>,
        rt_dispatch_tx := (rt_dispatch_tx ?r)\<lparr>ch_buf := ch_buf (rt_dispatch_tx ?r) @
          [DispatchBatch (event\<lparr>ev_sequence := k\<rparr>) ?ms]\<rparr>, rt_stats := s\<rparr>)"
    using route_calm [OF calm safe num refl ne tx(1,3), of ck] by blast
  with tx(2) len show ?thesis
    by (intro exI [where x = "event\<lparr>ev_sequence := k\<rparr>"] exI [where x = ?ms] exI conjI) (assumption | simp)+
qed

lemma test_route_event_to_multiple_subscribers_passes:
  "test_route_event_to_multiple_subscribers x ck uuid now = Some True"
proof -
  have "\<exists>event' targets router'.
     route_event x ck (braces_event uuid now ''broadcast'' ''notify'')
       ((router_start 4096)\<lparr>rt_registry := broadcast_registry (\<lambda>i. ''sub-'' @ show_nat i) 100\<rparr>) = Some (100, router') \<and>
     ch_buf (rt_dispatch_tx router') = [DispatchBatch event' targets] \<and> length targets = 100"
    by (rule broadcast_route) (simp_all add: braces_event_def topic_new_def)
  then show ?thesis
    using broadcast_router [of 100 x "\<lambda>i. ''sub-'' @ show_nat i" 4096]
    by (auto simp: test_route_event_to_multiple_subscribers_def message_count_def simp del: append.simps upt_rec_numeral)
qed

subsection \<open>Two hundred topics on one connection\<close>

definition numbered_sub :: "nat \<Rightarrow> Subscription" where
  "numbered_sub i = make_sub 1 (''sub-'' @ show_nat i) (''topic/'' @ show_nat i) None"

definition test_per_connection_subscription_limit :: "Externals \<Rightarrow> bool option" where
  "test_per_connection_subscription_limit x =
     do { registry \<leftarrow> for_each (\<lambda>i. subscribe_unwrap x (numbered_sub i)) [0..<200] registry_new;
          (registry, err) \<leftarrow> subscribe_unwrap_err x (make_sub 1 ''sub-200'' ''topic/200'' None) registry;
          Some (str_contains err ''already has 200 subscriptions'') }"

definition numbered_topic :: "nat \<Rightarrow> string" where
  "numbered_topic i = ''topic/'' @ show_nat i"

definition numbered_key :: "nat \<Rightarrow> string" where
  "numbered_key i = ''sub-'' @ show_nat i"

lemma numbered_inj: "numbered_topic i = numbered_topic j \<longleftrightarrow> i = j" "numbered_key i = numbered_key j \<longleftrightarrow> i = j"
  by (simp_all add: numbered_topic_def numbered_key_def show_nat_inj)

lemma numbered_sub_sel:
  "sb_conn (numbered_sub i) = ConnectionId 1" "sb_sub (numbered_sub i) = SubscriptionId (numbered_key i)"
  "sb_topic (numbered_sub i) = Exact (TopicPath (numbered_topic i))" "sb_filter (numbered_sub i) = None"
proof -
  have "c \<noteq> CHR ''*'' \<and> c \<noteq> CHR ''/''" if "c \<in> set (show_nat i)" for c
    using show_nat_digits [OF that] by (auto simp: is_digit_def)
  then have "CHR ''*'' \<notin> set (show_nat i)" "last (show_nat i) \<noteq> CHR ''/''" by auto
  then show "sb_conn (numbered_sub i) = ConnectionId 1" "sb_sub (numbered_sub i) = SubscriptionId (numbered_key i)"
    "sb_topic (numbered_sub i) = Exact (TopicPath (numbered_topic i))" "sb_filter (numbered_sub i) = None"
    by (simp_all add: numbered_sub_def make_sub_def pattern_parse_def topic_new_def ends_with_char_def
        numbered_topic_def numbered_key_def)
qed

definition numbered_index :: "nat \<Rightarrow> FilterIndex" where
  "numbered_index n =
     fi_new
       \<lparr>fi_unfiltered := map (\<lambda>i. (numbered_topic i, [of_nat i])) [0..<n],
        fi_patterns := map (\<lambda>i. (numbered_topic i, Exact (TopicPath (numbered_topic i)))) [0..<n],
        fi_sub_keys := map (\<lambda>i. ((ConnectionId 1, SubscriptionId (numbered_key i)), [])) [0..<n],
        fi_slots := map (\<lambda>i. Some (dispatch_slot_of (numbered_sub i) None)) [0..<n],
        fi_slot_by_sub := map (\<lambda>i. ((ConnectionId 1, SubscriptionId (numbered_key i)), of_nat i)) [0..<n],
        fi_stats := stats_new\<lparr>slots_allocated := of_nat n\<rparr>\<rparr>"

definition numbered_entry :: "nat \<Rightarrow> SubscriptionEntry" where
  "numbered_entry i = \<lparr>se_subscription = numbered_sub i, se_gateway_node = None\<rparr>"

definition numbered_registry :: "nat \<Rightarrow> SubscriptionRegistry" where
  "numbered_registry n =
     \<lparr>rg_by_connection = (if n = 0 then [] else [(ConnectionId 1, map numbered_entry [0..<n])]),
      rg_by_topic = map (\<lambda>i. (numbered_topic i, [(ConnectionId 1, SubscriptionId (numbered_key i))])) [0..<n],
      rg_by_sub_id = map (\<lambda>i. ((ConnectionId 1, numbered_key i), numbered_entry i)) [0..<n],
      rg_patterns = map (\<lambda>i. (numbered_topic i, Exact (TopicPath (numbered_topic i)))) [0..<n],
      rg_filter_index = numbered_index n\<rparr>"

lemma numbered_add:
  assumes "n < 200"
  shows "add_unwrap x (numbered_sub n) (numbered_index n) = Some (numbered_index (Suc n))"
proof -
  let ?fi = "(numbered_index n)\<lparr>fi_slots := fi_slots (numbered_index n) @ [Some (dispatch_slot_of (numbered_sub n) None)]\<rparr>"
  have "check_limits (numbered_topic n) (numbered_sub n) (numbered_index n) = (numbered_index n, Inr ())"
    using assms
    by (simp add: check_limits_def numbered_index_def fi_new_def fi_with_limits_def limits_default_def dm_len_def
        dm_contains_def dm_get_def map_of_fresh image_iff numbered_inj pattern_sub_count_def numbered_sub_sel
        estimate_new_keys_def stats_new_def Let_def)
  moreover have "alloc_slot (dispatch_slot_of (numbered_sub n) None) (numbered_index n) = Some (of_nat n, ?fi)"
    using assms by (simp add: alloc_slot_def slab_alloc_def numbered_index_def fi_new_def fi_with_limits_def)
  ultimately have "add_unwrap x (numbered_sub n) (numbered_index n)
      = Some (add_accepted x (numbered_sub n) (of_nat n) ?fi)"
    by (simp add: add_unwrap_eq numbered_sub_sel)
  also have "add_accepted x (numbered_sub n) (of_nat n) ?fi = numbered_index (Suc n)"
    by (simp add: add_accepted_def Let_def numbered_index_def fi_new_def fi_with_limits_def fi_map_stats_def
        dm_insert_def dm_or_insert_def dm_entry_def dm_get_def map_of_fresh update_fresh image_iff numbered_inj
        numbered_sub_sel bm_insert_def insort_insert_key_def add.commute)
  finally show ?thesis .
qed

lemma numbered_guards:
  "n < 200 \<Longrightarrow> check_subscription_guards (numbered_registry n) (ConnectionId 1) 200 1000000 = Inr ()"
  "check_subscription_guards (numbered_registry 200) (ConnectionId 1) 200 1000000 =
     Inl (CapacityExceeded (''connection '' @ show_conn_id (ConnectionId 1) @
        '' already has '' @ show_nat 200 @ '' subscriptions (max: '' @ show_word (200 :: usize) @ '')''))"
  by (simp_all add: check_subscription_guards_def numbered_registry_def dm_get_def dm_len_def del: upt_rec_numeral)

lemma numbered_limits:
  "max_subscriptions_per_connection (fi_limits (rg_filter_index (numbered_registry n))) = 200"
  "max_total_subscriptions (fi_limits (rg_filter_index (numbered_registry n))) = 1000000"
  "rg_filter_index (numbered_registry n) = numbered_index n"
  by (simp_all add: numbered_registry_def numbered_index_def fi_new_def fi_with_limits_def limits_default_def)

lemma numbered_subscribe:
  assumes "n < 200"
  shows "subscribe_unwrap x (numbered_sub n) (numbered_registry n) = Some (numbered_registry (Suc n))"
proof -
  have "registry_insert (numbered_sub n) None ((numbered_registry n)\<lparr>rg_filter_index := numbered_index (Suc n)\<rparr>)
      = numbered_registry (Suc n)"
    by (cases "n = 0")
      (simp_all add: registry_insert_def numbered_registry_def numbered_sub_sel numbered_entry_def [abs_def] dm_entry_def
        dm_insert_def dm_or_insert_def dm_get_def map_of_fresh update_fresh image_iff numbered_inj Let_def)
  then show ?thesis
    using assms numbered_guards(1) [of n] numbered_add [OF assms, of x]
    by (simp add: subscribe_unwrap_eq numbered_limits(1,2) numbered_sub_sel) (simp add: numbered_limits(3))
qed

lemma numbered_subscribes:
  "n \<le> 200 \<Longrightarrow> for_each (\<lambda>i. subscribe_unwrap x (numbered_sub i)) [0..<n] registry_new = Some (numbered_registry n)"
proof (induction n)
  case 0
  then show ?case
    by (simp add: numbered_registry_def registry_new_def numbered_index_def fi_new_def fi_with_limits_def stats_new_def)
next
  case (Suc n)
  then show ?case using numbered_subscribe [of n x] by (simp add: for_each_append)
qed

lemma show_nat_200: "show_nat 200 = ''200''"
  by code_simp

lemma test_per_connection_subscription_limit_passes: "test_per_connection_subscription_limit x = Some True"
proof -
  have "subscribe_unwrap_err x sub (numbered_registry 200) = Some (numbered_registry 200,
      show_error (CapacityExceeded (''connection '' @ show_conn_id (ConnectionId 1) @
        '' already has '' @ show_nat 200 @ '' subscriptions (max: '' @ show_word (200 :: usize) @ '')'')))"
    if "sb_conn sub = ConnectionId 1" for sub
    using numbered_guards(2) that
    by (simp add: subscribe_unwrap_err_def subscribe_def numbered_limits(1,2) Let_def)
  moreover have "show_conn_id (ConnectionId 1) = ''conn-1''" by code_simp
  ultimately show ?thesis
    using numbered_subscribes [of 200 x]
    by (simp add: test_per_connection_subscription_limit_def make_sub_def str_contains_def show_nat_200
        del: upt_rec_numeral)
qed

end
