(* ===== verification/Rt_Tests_Gateway.thy ===== *)
theory Rt_Tests_Gateway
  imports Rt_Tests_Index Rt_Usage "HOL-Library.Product_Lexorder"
begin

text \<open>
  The unit tests of \<open>crates/realtime-gateway/src\<close>, run on the model: usage metering, the origin policy,
  the connection manager, the metrics exposition and the keys of the shared presence.  SHA-256 is the
  parameter \<open>sha\<close>.
\<close>

subsection \<open>usage.rs\<close>

definition record_sums_per_window_then_resets :: bool where
  "record_sums_per_window_then_resets =
     (let agg = aggregate_new;
          agg = aggregate_record ''t1'' CONNECTION_SECONDS 4 agg;
          agg = aggregate_record ''t1'' CONNECTION_SECONDS 7 agg;
          agg = aggregate_record ''t1'' CONNECTION_SECONDS 5 agg;
          one = (aggregate_tracked agg = 1);
          (drained, agg) = aggregate_drain agg
      in one \<and> drained = [(''t1'', CONNECTION_SECONDS, 16)] \<and>
         aggregate_tracked agg = 0 \<and>
         fst (aggregate_drain agg) = [])"

definition zero_qty_records_nothing :: bool where
  "zero_qty_records_nothing =
     (let agg = aggregate_record ''t1'' CONNECTION_SECONDS 0 aggregate_new
      in aggregate_tracked agg = 0 \<and> fst (aggregate_drain agg) = [])"

definition tenants_are_isolated :: bool where
  "tenants_are_isolated =
     (let agg = aggregate_new;
          agg = aggregate_record ''a'' CONNECTION_SECONDS 9 agg;
          agg = aggregate_record ''b'' CONNECTION_SECONDS 1 agg;
          (drained, agg) = aggregate_drain agg
      in sort drained = [(''a'', CONNECTION_SECONDS, 9), (''b'', CONNECTION_SECONDS, 1)])"

definition window_start_ms_buckets_to_window :: bool where
  "window_start_ms_buckets_to_window =
     (window_start_ms 123456 60000 = 120000 \<and>
      window_start_ms 120000 60000 = 120000 \<and>
      window_start_ms 180001 60000 = 180000 \<and>
      window_start_ms 123456 0 = 123456)"

definition ascii_hexdigit :: "char \<Rightarrow> bool" where
  "ascii_hexdigit c =
     (is_digit c \<or> (97 \<le> (of_char c :: nat) \<and> (of_char c :: nat) \<le> 102) \<or>
      (65 \<le> (of_char c :: nat) \<and> (of_char c :: nat) \<le> 70))"

definition ascii_uppercase :: "char \<Rightarrow> bool" where
  "ascii_uppercase c = (65 \<le> (of_char c :: nat) \<and> (of_char c :: nat) \<le> 90)"

definition idempotency_key_matches_frozen_contract :: "(bytes \<Rightarrow> bytes) \<Rightarrow> bool" where
  "idempotency_key_matches_frozen_contract sha =
     (let k = idempotency_key sha ''t1'' CONNECTION_SECONDS 120000;
          preimage = ''t1|'' @ CONNECTION_SECONDS @ ''|120000'';
          golden = foldl (\<lambda>golden b. golden @ hex_byte b) [] (sha preimage)
      in length k = 64 \<and>
         list_all (\<lambda>c. ascii_hexdigit c \<and> \<not> ascii_uppercase c) k \<and>
         k = golden)"

definition envelope_is_window_bucketed :: "(bytes \<Rightarrow> bytes) \<Rightarrow> bool" where
  "envelope_is_window_bucketed sha =
     (let env = envelope_build sha ''t1'' CONNECTION_SECONDS 42 123456 60000;
          later = envelope_build sha ''t1'' CONNECTION_SECONDS 99 150000 60000;
          next_env = envelope_build sha ''t1'' CONNECTION_SECONDS 1 181000 60000
      in ue_tenant_id env = ''t1'' \<and>
         ue_metric env = CONNECTION_SECONDS \<and>
         ue_qty env = ''42'' \<and>
         ue_ts env = ''123456'' \<and>
         ue_window_ms env = ''60000'' \<and>
         ue_idempotency_key env = idempotency_key sha ''t1'' CONNECTION_SECONDS 120000 \<and>
         ue_idempotency_key later = ue_idempotency_key env \<and>
         ue_idempotency_key next_env \<noteq> ue_idempotency_key env)"

definition handle_records_via_shared_aggregate :: bool where
  "handle_records_via_shared_aggregate =
     (let usage = usage_new;
          none = (usage_tracked usage = 0);
          usage = usage_record ''t1'' CONNECTION_SECONDS 7 usage;
          usage = usage_record ''t1'' CONNECTION_SECONDS 3 usage
      in none \<and> usage_tracked usage = 1 \<and>
         fst (aggregate_drain (us_aggregate usage)) = [(''t1'', CONNECTION_SECONDS, 10)])"

definition stream_sink_is_opt_in_via_nonempty_url :: bool where
  "stream_sink_is_opt_in_via_nonempty_url =
     (us_stream usage_new = None \<and>
      us_stream (with_stream_url ''  '' usage_new) = None \<and>
      us_stream (with_stream_url ''redis://127.0.0.1:6379'' usage_new) \<noteq> None)"

lemmas eval_aggregate = aggregate_new_def aggregate_record_def aggregate_drain_def aggregate_tracked_def
  usage_new_def usage_record_def usage_tracked_def with_stream_url_def CONNECTION_SECONDS_def
  saturating_add_def

lemma usage_tests_pass:
  "record_sums_per_window_then_resets" "zero_qty_records_nothing" "tenants_are_isolated"
  "window_start_ms_buckets_to_window" "handle_records_via_shared_aggregate"
  "stream_sink_is_opt_in_via_nonempty_url"
  by code_simp+

lemma hex_byte_digits: "c \<in> set (hex_byte b) \<Longrightarrow> ascii_hexdigit c \<and> \<not> ascii_uppercase c"
proof -
  have digit: "ascii_hexdigit (hex_digit d) \<and> \<not> ascii_uppercase (hex_digit d)" if "d < 16" for d
    using that by (auto simp: hex_digit_def ascii_hexdigit_def ascii_uppercase_def is_digit_def)
  assume "c \<in> set (hex_byte b)"
  moreover have "(of_char b :: nat) < 16 * 16" by simp
  then have "(of_char b :: nat) div 16 < 16" by (rule less_mult_imp_div_less)
  ultimately show ?thesis using digit by (auto simp: hex_byte_def)
qed

lemma length_hex: "length (concat (map hex_byte s)) = 2 * length s"
  by (induction s) (simp_all add: hex_byte_def)

lemma foldl_append: "foldl (\<lambda>a b. a @ f b) a s = a @ concat (map f s)"
  by (induction s arbitrary: a) simp_all

lemma chars_of_digits: "char_of (48 :: nat) = CHR ''0''" "char_of (49 :: nat) = CHR ''1''"
  "char_of (50 :: nat) = CHR ''2''" "char_of (51 :: nat) = CHR ''3''" "char_of (52 :: nat) = CHR ''4''"
  "char_of (53 :: nat) = CHR ''5''" "char_of (54 :: nat) = CHR ''6''" "char_of (55 :: nat) = CHR ''7''"
  "char_of (56 :: nat) = CHR ''8''" "char_of (57 :: nat) = CHR ''9''"
  by code_simp+

lemmas show_digits = show_word_def show_nat.simps digit_char_def chars_of_digits

lemma show_windows: "show_word (120000 :: u64) = ''120000''" "show_word (180000 :: u64) = ''180000''"
  by (simp_all add: show_digits)

lemma key_preimages:
  "key_preimage ''t1'' CONNECTION_SECONDS 120000 = ''t1|'' @ CONNECTION_SECONDS @ ''|120000''"
  "key_preimage ''t1'' CONNECTION_SECONDS 180000 = ''t1|'' @ CONNECTION_SECONDS @ ''|180000''"
  by (simp_all add: key_preimage_def show_windows)

lemma idempotency_key_test_passes:
  assumes "\<And>s. length (sha s) = 32"
  shows "idempotency_key_matches_frozen_contract sha"
  using assms hex_byte_digits
  by (auto simp: idempotency_key_matches_frozen_contract_def idempotency_key_def Let_def length_hex
      key_preimages foldl_append list_all_iff)

lemma envelope_test_passes:
  assumes "sha (''t1|'' @ CONNECTION_SECONDS @ ''|120000'') \<noteq> sha (''t1|'' @ CONNECTION_SECONDS @ ''|180000'')"
  shows "envelope_is_window_bucketed sha"
proof -
  have "show_word (42 :: u64) = ''42''" "show_word (123456 :: u64) = ''123456''"
    "show_word (60000 :: u64) = ''60000''"
    by (simp_all add: show_digits)
  moreover have "window_start_ms 123456 60000 = 120000" "window_start_ms 150000 60000 = 120000"
    "window_start_ms 181000 60000 = 180000"
    by (simp_all add: window_start_ms_def)
  ultimately show ?thesis
    using assms by (simp add: envelope_is_window_bucketed_def envelope_build_def idempotency_key_def
        key_preimages hex_inj)
qed

subsection \<open>origin.rs\<close>

definition nothing_configured_is_no_policy :: bool where
  "nothing_configured_is_no_policy =
     (origin_parse [] = None \<and> origin_parse ''   '' = None \<and> origin_parse '' , ,'' = None)"

definition only_the_exact_origins_listed :: "bool option" where
  "only_the_exact_origins_listed = do {
     p \<leftarrow> origin_parse ''http://localhost:5180, https://app.example.com'';
     Some (origin_allows p ''http://localhost:5180'' \<and>
           origin_allows p ''http://LOCALHOST:5180/'' \<and>
           \<not> origin_allows p ''http://localhost:5181'' \<and>
           \<not> origin_allows p ''https://app.example.com.evil.test'' \<and>
           \<not> origin_allows p ''https://evil.test/?x=https://app.example.com'' \<and>
           \<not> origin_allows p ''null'' \<and>
           \<not> origin_allows p [])
   }"

definition a_wildcard_is_honoured_when_asked_for_explicitly :: "bool option" where
  "a_wildcard_is_honoured_when_asked_for_explicitly = do {
     p \<leftarrow> origin_parse ''*'';
     Some (origin_allows p ''https://anywhere.example'')
   }"

lemma origin_tests_pass:
  "nothing_configured_is_no_policy" "only_the_exact_origins_listed = Some True"
  "a_wildcard_is_honoured_when_asked_for_explicitly = Some True"
  by code_simp+

subsection \<open>connection/mod.rs\<close>

text \<open>The waiting \<open>recv\<close> of an empty queue is \<open>None\<close>.\<close>

definition make_meta :: "timestamp \<Rightarrow> ConnectionId \<Rightarrow> ConnectionMeta" where
  "make_meta now conn_id =
     \<lparr>cm_conn_id = conn_id, cm_peer_addr = ''127.0.0.1:12345'', cm_connected_at = now,
      cm_user_id = None, cm_claims = None\<rparr>"

definition test_connection_registration :: "timestamp \<Rightarrow> bool option" where
  "test_connection_registration now =
     (let mgr = cm_new 256;
          (conn_id, mgr) = next_connection_id mgr;
          meta = make_meta now conn_id in
      do {
        (id, rx, mgr) \<leftarrow> register meta DropNewest mgr;
        Some (id = conn_id \<and> cm_connection_count mgr = 1 \<and> has_connection conn_id mgr)
      })"

definition test_connection_removal :: "timestamp \<Rightarrow> bool option" where
  "test_connection_removal now =
     (let mgr = cm_new 256;
          (conn_id, mgr) = next_connection_id mgr;
          meta = make_meta now conn_id in
      do {
        (id, rx, mgr) \<leftarrow> register meta DropNewest mgr;
        let mgr = cm_remove conn_id mgr;
        Some (cm_connection_count mgr = 0 \<and> \<not> has_connection conn_id mgr)
      })"

definition test_try_send :: "EventId \<Rightarrow> timestamp \<Rightarrow> bool option" where
  "test_try_send uuid now =
     (let mgr = cm_new 10;
          (conn_id, mgr) = next_connection_id mgr;
          meta = make_meta now conn_id in
      do {
        (id, rx, mgr) \<leftarrow> register meta DropNewest mgr;
        let event = braces_event uuid now ''test'' ''test'';
        let (r, mgr) = conn_try_send conn_id ''sub-1'' event mgr;
        ((sub_id, received), mgr) \<leftarrow> queue_recv rx mgr;
        Some (r = Sent \<and> sub_id = ''sub-1'' \<and> ev_type received = ''test'')
      })"

definition test_send_to_nonexistent :: "EventId \<Rightarrow> timestamp \<Rightarrow> bool" where
  "test_send_to_nonexistent uuid now =
     (let mgr = cm_new 10;
          event = braces_event uuid now ''test'' ''test''
      in fst (conn_try_send (ConnectionId 999) ''sub-x'' event mgr) = ConnectionGone)"

lemma connection_tests_pass:
  "test_connection_registration now = Some True"
  "test_connection_removal now = Some True"
  "test_try_send uuid now = Some True"
  "test_send_to_nonexistent uuid now"
  by (simp_all add: test_connection_registration_def test_connection_removal_def test_try_send_def
      test_send_to_nonexistent_def cm_new_def next_connection_id_def make_meta_def register_def
      cm_connection_count_def has_connection_def cm_remove_def conn_try_send_def queue_recv_def
      channel_recv_def channel_new_def try_send_def braces_event_def envelope_new_def
      dm_insert_def dm_get_def dm_remove_def dm_contains_def dm_len_def)

subsection \<open>metrics.rs\<close>

text \<open>The counters are global: the first test runs after any others.\<close>

definition exposition_has_every_series_and_help :: "Metrics \<Rightarrow> bool" where
  "exposition_has_every_series_and_help m =
     (let m = inc_dispatched m;
          m = inc_dropped_overflow m;
          m = inc_dropped_overflow m;
          m = inc_slow_disconnected m;
          out = render_prometheus m
      in list_all (str_contains out)
           [''# TYPE baas_realtime_events_dropped_total counter'',
            ''baas_realtime_events_dropped_total{service=\"realtime\",reason=\"overflow\"}'',
            ''baas_realtime_events_dropped_total{service=\"realtime\",reason=\"connection_gone\"}'',
            ''baas_realtime_slow_consumers_disconnected_total{service=\"realtime\"}'',
            ''baas_realtime_up{service=\"realtime\"} 1''] \<and>
         (str_contains out ''reason=\"overflow\"} 2'' \<or> str_contains out ''reason=\"overflow\"} ''))"

definition snapshot_reads_each_counter_into_its_own_field :: bool where
  "snapshot_reads_each_counter_into_its_own_field =
     (let m = metrics_default;
          m = inc_dispatched m;
          m = inc_dropped_overflow m;
          m = inc_dropped_overflow m;
          m = inc_connection_gone m;
          m = inc_connection_gone m;
          m = inc_connection_gone m;
          m = (inc_slow_disconnected ^^ 4) m
      in metrics_snapshot m =
         \<lparr>events_dispatched = 1, events_dropped_overflow = 2, events_connection_gone = 3,
          slow_consumers_disconnected = 4\<rparr>)"

lemma snapshot_test_passes: "snapshot_reads_each_counter_into_its_own_field"
  by (simp add: snapshot_reads_each_counter_into_its_own_field_def metrics_default_def metrics_inc_defs
      metrics_snapshot_def eval_nat_numeral)

text \<open>The exposition is a list of lines; each wanted text is at the start of one, or in its first part.\<close>

lemma str_contains_line:
  assumes "i < length ls" and "ls ! i = a # r" and "str_contains a p"
  shows "str_contains (concat (map writeln ls)) p"
proof -
  have "str_contains (writeln (ls ! i)) p"
    using assms by (simp add: writeln_def str_contains_prefix)
  moreover have "concat (map writeln ls) =
      concat (map writeln (take i ls)) @ writeln (ls ! i) @ concat (map writeln (drop (Suc i) ls))"
    by (metis assms(1) id_take_nth_drop map_append list.map(2) concat_append concat.simps(2))
  ultimately show ?thesis by (simp add: str_contains_append str_contains_prefix)
qed

definition metric_lines :: "Metrics \<Rightarrow> string list list" where
  "metric_lines m =
     [[''# HELP baas_realtime_up 1 while the gateway is serving''],
      [''# TYPE baas_realtime_up gauge''],
      [''baas_realtime_up{service=\"realtime\"} 1''],
      [''# HELP baas_realtime_events_dispatched_total Events written to a connection send queue''],
      [''# TYPE baas_realtime_events_dispatched_total counter''],
      [''baas_realtime_events_dispatched_total{service=\"realtime\"} '', show_word (mt_dispatched m)],
      [''# HELP baas_realtime_events_dropped_total Events NOT delivered, by reason (overflow = slow-consumer loss)''],
      [''# TYPE baas_realtime_events_dropped_total counter''],
      [''baas_realtime_events_dropped_total{service=\"realtime\",reason=\"overflow\"} '', show_word (mt_dropped_overflow m)],
      [''baas_realtime_events_dropped_total{service=\"realtime\",reason=\"connection_gone\"} '', show_word (mt_connection_gone m)],
      [''# HELP baas_realtime_slow_consumers_disconnected_total Consumers disconnected for being too slow''],
      [''# TYPE baas_realtime_slow_consumers_disconnected_total counter''],
      [''baas_realtime_slow_consumers_disconnected_total{service=\"realtime\"} '', show_word (mt_slow_disconnected m)]]"

lemma render_lines: "render_prometheus m = concat (map writeln (metric_lines m))"
  by (simp only: render_prometheus_def metric_lines_def list.map concat.simps append_Nil2)

lemma exposition_test_passes: "exposition_has_every_series_and_help m"
proof -
  have *: "str_contains (concat (map writeln (metric_lines m'))) p"
    if "i < 13" "metric_lines m' ! i = a # r" "str_contains a p" for m' i a r p
    using that by (intro str_contains_line) (simp_all add: metric_lines_def)
  have "str_contains (render_prometheus m') ''# TYPE baas_realtime_events_dropped_total counter''"
    "str_contains (render_prometheus m') ''baas_realtime_events_dropped_total{service=\"realtime\",reason=\"overflow\"}''"
    "str_contains (render_prometheus m') ''baas_realtime_events_dropped_total{service=\"realtime\",reason=\"connection_gone\"}''"
    "str_contains (render_prometheus m') ''baas_realtime_slow_consumers_disconnected_total{service=\"realtime\"}''"
    "str_contains (render_prometheus m') ''baas_realtime_up{service=\"realtime\"} 1''"
    "str_contains (render_prometheus m') ''reason=\"overflow\"} ''" for m'
    unfolding render_lines
    by (rule * [of 7], simp, simp add: metric_lines_def, code_simp,
        rule * [of 8], simp, simp add: metric_lines_def, code_simp,
        rule * [of 9], simp, simp add: metric_lines_def, code_simp,
        rule * [of 12], simp, simp add: metric_lines_def, code_simp,
        rule * [of 2], simp, simp add: metric_lines_def, code_simp,
        rule * [of 8], simp, simp add: metric_lines_def, code_simp)
  then show ?thesis by (simp add: exposition_has_every_series_and_help_def Let_def)
qed

subsection \<open>presence_shared.rs\<close>

definition key_is_namespaced_per_topic :: bool where
  "key_is_namespaced_per_topic =
     (let sp = shared_new ''redis://127.0.0.1:6379''
      in shared_key sp ''room/1'' = ''presence:room/1'' \<and>
         shared_key sp ''room/1'' \<noteq> shared_key sp ''room/2'')"

definition prefix_override_isolates_namespace :: bool where
  "prefix_override_isolates_namespace =
     (let sp = shared_with_prefix ''m97'' (shared_new ''redis://127.0.0.1:6379'');
          sp2 = shared_with_prefix ''  '' (shared_new ''redis://127.0.0.1:6379'')
      in shared_key sp ''room/1'' = ''m97:room/1'' \<and>
         shared_key sp2 ''room/1'' = ''presence:room/1'')"

lemma shared_presence_tests_pass: "key_is_namespaced_per_topic" "prefix_override_isolates_namespace"
  by code_simp+

end
