(* ===== verification/Rt_Tests_Bus.thy ===== *)
theory Rt_Tests_Bus
  imports Rt_Tests_Index Rt_Irc_Bus
begin

text \<open>
  The unit tests of the two buses, \<open>crates/realtime-bus-inprocess/src/tests.rs\<close> and
  \<open>crates/realtime-bus-irc/src\<close>, run on the model.  The channel library rounds the capacity of 1024 up;
  \<open>ring\<close> is what it allots.
\<close>

subsection \<open>In-process bus (tests.rs)\<close>

text \<open>\<open>unwrap\<close> of a result.\<close>

definition unwrap :: "('e, 'a) result \<Rightarrow> 'a option" where
  "unwrap r = (case r of Inl _ \<Rightarrow> None | Inr a \<Rightarrow> Some a)"

definition test_publish_and_subscribe :: "string \<Rightarrow> nat \<Rightarrow> EventId \<Rightarrow> timestamp \<Rightarrow> bool option" where
  "test_publish_and_subscribe msg ring uuid now = do {
     bus \<leftarrow> in_process_bus_new ring 1024;
     let (subscriber, bus) = in_process_subscriber ''*'' bus;
     let event = envelope_new uuid now (topic_new ''test/event'') ''created'' ''{\"key\":\"value\"}'';
     let (r, bus) = in_process_publish msg ''test/event'' event bus;
     receipt \<leftarrow> unwrap r;
     (next_event, bus) \<leftarrow> in_process_next_event subscriber bus;
     received \<leftarrow> next_event;
     Some (pr_delivered_to_bus receipt \<and> ev_topic received = ev_topic event \<and> ev_type received = ''created'')
   }"

definition test_multiple_subscribers :: "string \<Rightarrow> nat \<Rightarrow> EventId \<Rightarrow> timestamp \<Rightarrow> bool option" where
  "test_multiple_subscribers msg ring uuid now = do {
     bus \<leftarrow> in_process_bus_new ring 1024;
     let (sub1, bus) = in_process_subscriber ''*'' bus;
     let (sub2, bus) = in_process_subscriber ''*'' bus;
     let event = braces_event uuid now ''test'' ''test'';
     let (r, bus) = in_process_publish msg ''test'' event bus;
     _ \<leftarrow> unwrap r;
     (next1, bus) \<leftarrow> in_process_next_event sub1 bus;
     r1 \<leftarrow> next1;
     (next2, bus) \<leftarrow> in_process_next_event sub2 bus;
     r2 \<leftarrow> next2;
     Some (ev_id r1 = ev_id r2)
   }"

text \<open>The five events have identifiers and times of their own.\<close>

definition batch_event :: "(nat \<Rightarrow> EventId) \<Rightarrow> (nat \<Rightarrow> timestamp) \<Rightarrow> nat \<Rightarrow> string \<times> EventEnvelope" where
  "batch_event uuids nows i =
     (let topic = ''test/'' @ show_nat i in (topic, braces_event (uuids i) (nows i) topic ''created''))"

definition test_batch_publish ::
    "string \<Rightarrow> nat \<Rightarrow> (nat \<Rightarrow> EventId) \<Rightarrow> (nat \<Rightarrow> timestamp) \<Rightarrow> bool option" where
  "test_batch_publish msg ring uuids nows = do {
     bus \<leftarrow> in_process_bus_new ring 1024;
     let (subscriber, bus) = in_process_subscriber ''*'' bus;
     let events = map (batch_event uuids nows) [0..<5];
     let (r, bus) = publish_batch_default (in_process_publish msg) events bus;
     receipts \<leftarrow> unwrap r;
     (all_created, bus) \<leftarrow> for_each (\<lambda>_ (ok, bus). do {
         (next_event, bus) \<leftarrow> in_process_next_event subscriber bus;
         received \<leftarrow> next_event;
         Some (ok \<and> ev_type received = ''created'', bus)
       }) [0..<5] (True, bus);
     Some (length receipts = 5 \<and> all_created)
   }"

lemmas eval_bus = in_process_bus_new_def in_process_subscriber_def in_process_publish_def broadcast_send_def
  unwrap_def next_event_spec bc_oldest_def bc_move_def Let_def

lemma in_process_tests_pass:
  assumes "1024 \<le> ring"
  shows "test_publish_and_subscribe msg ring uuid now = Some True"
    and "test_multiple_subscribers msg ring uuid now = Some True"
  using assms
  by (simp_all add: test_publish_and_subscribe_def test_multiple_subscribers_def eval_bus braces_event_def
      envelope_new_def)

lemma batch_event_type: "ev_type (snd (batch_event uuids nows i)) = ''created''"
  by (simp add: batch_event_def braces_event_def envelope_new_def Let_def)

lemma in_process_batch:
  "list_ex (\<lambda>c. c \<noteq> None) (bc_cursors b) \<Longrightarrow>
   publish_each (in_process_publish msg) events acc b =
     (Inr (acc @ map (\<lambda>te. \<lparr>pr_event_id = ev_id (snd te), pr_sequence = 0, pr_delivered_to_bus = True\<rparr>) events),
      b\<lparr>bc_sent := bc_sent b @ map snd events\<rparr>)"
  by (induction events arbitrary: acc b) (auto simp: in_process_publish_def broadcast_send_def)

lemma test_batch_publish_passes:
  assumes "1024 \<le> ring"
  shows "test_batch_publish msg ring uuids nows = Some True"
proof -
  let ?es = "map (\<lambda>i. snd (batch_event uuids nows i)) [0..<5]"
  let ?b = "\<lambda>n. \<lparr>bc_ring = ring, bc_sent = ?es, bc_cursors = [Some n], bc_closed = False\<rparr>"
  have step: "in_process_next_event 0 (?b n) = Some (Some (?es ! n), ?b (Suc n))" if "n < 5" for n
    using that assms by (simp add: next_event_spec bc_oldest_def bc_move_def Let_def)
  have rounds: "for_each (\<lambda>_ (ok, bus). do {
         (next_event, bus) \<leftarrow> in_process_next_event 0 bus;
         received \<leftarrow> next_event;
         Some (ok \<and> ev_type received = ''created'', bus)
       }) [0..<n] (True, ?b 0) = Some (True, ?b n)" if "n \<le> 5" for n
    using that
  proof (induction n)
    case (Suc n)
    then show ?case
      using step [of n] by (simp add: for_each_append batch_event_type)
  qed simp
  have "publish_batch_default (in_process_publish msg) (map (batch_event uuids nows) [0..<5])
      \<lparr>bc_ring = ring, bc_sent = [], bc_cursors = [Some 0], bc_closed = False\<rparr>
    = (Inr (map (\<lambda>te. \<lparr>pr_event_id = ev_id (snd te), pr_sequence = 0, pr_delivered_to_bus = True\<rparr>)
         (map (batch_event uuids nows) [0..<5])), ?b 0)"
    by (simp add: publish_batch_default_def in_process_batch del: upt_rec_numeral)
  with rounds [of 5] show ?thesis
    by (simp add: test_batch_publish_def in_process_bus_new_def in_process_subscriber_def unwrap_def
        del: upt_rec_numeral)
qed

subsection \<open>Nicknames (identity.rs)\<close>

definition valid_nick :: "string \<Rightarrow> nat \<Rightarrow> bool" where
  "valid_nick nick mx =
     (nick \<noteq> [] \<and> length nick \<le> mx \<and>
      is_nick_start (case nick of [] \<Rightarrow> CHR '' '' | c # _ \<Rightarrow> c) \<and> list_all is_nick_char nick)"

definition plain_handle_is_valid_and_capped :: bool where
  "plain_handle_is_valid_and_capped =
     (let n = to_irc_nick ''user-123'' ''alice'' DEFAULT_NICK_MAX
      in valid_nick n DEFAULT_NICK_MAX \<and> starts_with n ''alice'')"

definition same_handle_different_users_differ :: bool where
  "same_handle_different_users_differ =
     (to_irc_nick ''user-1'' ''sam'' DEFAULT_NICK_MAX \<noteq> to_irc_nick ''user-2'' ''sam'' DEFAULT_NICK_MAX)"

definition sanitizes_illegal_chars :: bool where
  "sanitizes_illegal_chars = valid_nick (to_irc_nick ''uid'' ''a.b c@d!'' DEFAULT_NICK_MAX) DEFAULT_NICK_MAX"

definition digit_leading_handle_gets_legal_start :: bool where
  "digit_leading_handle_gets_legal_start =
     (let n = to_irc_nick ''uid'' ''9lives'' DEFAULT_NICK_MAX
      in is_nick_start (case n of [] \<Rightarrow> CHR '' '' | c # _ \<Rightarrow> c))"

definition empty_handle_falls_back_to_user_id :: bool where
  "empty_handle_falls_back_to_user_id =
     valid_nick (to_irc_nick ''acct-xyz'' [] DEFAULT_NICK_MAX) DEFAULT_NICK_MAX"

lemma legal_nick_valid: "legal_nick mx nick \<Longrightarrow> valid_nick nick mx"
  by (cases nick) (simp_all add: legal_nick_def valid_nick_def)

lemma nick_valid: "valid_nick (to_irc_nick user_id handle DEFAULT_NICK_MAX) DEFAULT_NICK_MAX"
  using to_irc_nick_legal [of DEFAULT_NICK_MAX] by (simp add: legal_nick_valid DEFAULT_NICK_MAX_def)

text \<open>A short handle of letters is kept, with the hash of the user behind it.\<close>

lemma short_nick:
  assumes "list_all is_ascii_alphabetic (c # handle)" and "length handle \<le> 5" and "trim (c # handle) \<noteq> []"
  shows "to_irc_nick user_id (c # handle) DEFAULT_NICK_MAX = (c # handle) @ base36 (fnv1a user_id) 3"
proof -
  have "filter is_nick_char (c # handle) = c # handle"
    using assms(1) by (simp add: filter_id_conv list_all_iff is_nick_char_def)
  moreover have "is_nick_start c" using assms(1) by (simp add: is_nick_start_def)
  ultimately show ?thesis
    using assms(2,3) by (simp add: to_irc_nick_def DEFAULT_NICK_MAX_def Let_def)
qed

lemma nick_tests_pass:
  "plain_handle_is_valid_and_capped" "same_handle_different_users_differ" "sanitizes_illegal_chars"
  "digit_leading_handle_gets_legal_start" "empty_handle_falls_back_to_user_id"
proof -
  have alice: "to_irc_nick u ''alice'' DEFAULT_NICK_MAX = ''alice'' @ base36 (fnv1a u) 3"
    and sam: "to_irc_nick u ''sam'' DEFAULT_NICK_MAX = ''sam'' @ base36 (fnv1a u) 3" for u
    by (rule short_nick; simp add: is_ascii_alphabetic_def trim_def trim_start_def trim_end_def
        drop_white.simps white_len_def white_len_rev_def byte_at_def white_bytes_def is_white_def)+
  show "plain_handle_is_valid_and_capped"
    using nick_valid [of "''user-123''" "''alice''"]
    by (simp add: plain_handle_is_valid_and_capped_def alice starts_with_def)
  have "base36 (fnv1a ''user-1'') 3 \<noteq> base36 (fnv1a ''user-2'') 3"
    by (simp add: fnv1a_def numeral_3_eq_3 base36_alphabet_def)
  then show "same_handle_different_users_differ"
    by (simp add: same_handle_different_users_differ_def sam)
  show "sanitizes_illegal_chars" "empty_handle_falls_back_to_user_id"
    by (simp_all only: sanitizes_illegal_chars_def empty_handle_falls_back_to_user_id_def nick_valid)
  show "digit_leading_handle_gets_legal_start"
    using nick_valid [of "''uid''" "''9lives''"]
    by (simp add: digit_leading_handle_gets_legal_start_def valid_nick_def Let_def)
qed

subsection \<open>Topics and channels (mapping.rs)\<close>

definition topic_in_namespace_maps_to_channel :: bool where
  "topic_in_namespace_maps_to_channel = (topic_to_channel ''chat/general'' ''chat'' = Some ''#general'')"

definition topic_outside_namespace_is_ignored :: bool where
  "topic_outside_namespace_is_ignored = (topic_to_channel ''orders/created'' ''chat'' = None)"

definition channel_maps_back_to_topic :: bool where
  "channel_maps_back_to_topic = (channel_to_topic ''#general'' ''chat'' = ''chat/general'')"

definition round_trip_is_stable :: bool where
  "round_trip_is_stable =
     (let ch = (case topic_to_channel ''chat/dev'' ''chat'' of None \<Rightarrow> [] | Some c \<Rightarrow> c)
      in channel_to_topic ch ''chat'' = ''chat/dev'')"

lemma mapping_tests_pass:
  "topic_in_namespace_maps_to_channel" "topic_outside_namespace_is_ignored"
  "channel_maps_back_to_topic" "round_trip_is_stable"
  by code_simp+

subsection \<open>Idle sessions (session_manager.rs)\<close>

text \<open>Milliseconds; \<open>stale_at\<close> is a hundred seconds before the sessions are made, and \<open>d\<close> is how long the
  test takes from there to the reaping.\<close>

definition cmd_recv :: "CmdChannel \<Rightarrow> string option" where
  "cmd_recv q = (if mc_taken q < length (mc_items q) then Some (mc_items q ! mc_taken q) else None)"

definition test_handle :: "SessionConfig \<Rightarrow> nat \<Rightarrow> UserHandle" where
  "test_handle session t =
     \<lparr>uh_cmd = cmd_channel_new 16, uh_joined = [], uh_last_active = t, uh_session = session\<rparr>"

definition test_reap_idle_removes_stale_sessions :: "SessionConfig \<Rightarrow> nat \<Rightarrow> nat \<Rightarrow> bool option" where
  "test_reap_idle_removes_stale_sessions session stale_at d =
     (let mgr = manager_new ''localhost'' 6667 [] ''bot'' ''Realtime Bot'' ''chat'' 9;
          mgr = mgr\<lparr>sm_users := dm_insert ''stale-user'' (length (sm_handles mgr)) (sm_users mgr),
                    sm_handles := sm_handles mgr @ [test_handle session stale_at]\<rparr>;
          mgr = mgr\<lparr>sm_users := dm_insert ''active-user'' (length (sm_handles mgr)) (sm_users mgr),
                    sm_handles := sm_handles mgr @ [test_handle session (stale_at + 100000)]\<rparr>;
          two = (dm_len (sm_users mgr) = 2) in
      do {
        mgr \<leftarrow> reap_idle (stale_at + 100000 + d) 10000 mgr;
        Some (two \<and> dm_len (sm_users mgr) = 1 \<and> dm_contains (sm_users mgr) ''active-user'' \<and>
              \<not> dm_contains (sm_users mgr) ''stale-user'' \<and>
              cmd_recv (uh_cmd (sm_handles mgr ! 0)) = Some ''QUIT :idle'')
      })"

lemma reap_test_passes:
  "d \<le> 10000 \<Longrightarrow> test_reap_idle_removes_stale_sessions session stale_at d = Some True"
  by (simp add: test_reap_idle_removes_stale_sessions_def manager_new_def test_handle_def reap_idle_def
      stale_users_def handle_send_def mpsc_send_def cmd_channel_new_def drop_user_def handle_update_def
      cmd_recv_def dm_insert_def dm_get_def dm_remove_def dm_contains_def dm_len_def)

end
