(* ===== verification/Rt_Tests_Db.thy ===== *)
theory Rt_Tests_Db
  imports Rt_Tests_Index Rt_Db Rt_Client
begin

text \<open>
  The unit tests of the database producers, of the producer registry, of the start with retries and of
  the client's builder, run on the model.  A test that parses JSON text passes when the JSON library
  reads the text as the value it denotes and can print that value again (\<open>reads\<close>).
\<close>

subsection \<open>Notifications (db-postgres parser.rs)\<close>

definition reads :: "Externals \<Rightarrow> string \<Rightarrow> json \<Rightarrow> bool" where
  "reads x text v = (x_from_slice x text = Some v \<and> x_to_vec x v \<noteq> None)"

definition f64_99_99 :: f64 where
  "f64_99_99 = 0x4058FF5C28F5C28F"

definition quoted :: "string list \<Rightarrow> string" where
  "quoted ls = sql_lines (''{'' # map (\<lambda>l. replicate 12 CHR '' '' @ l) ls @ [replicate 8 CHR '' '' @ ''}''])"

definition insert_text :: string where
  "insert_text = quoted
     [''\"table\": \"orders\",'', ''\"schema\": \"public\",'', ''\"operation\": \"INSERT\",'',
      ''\"data\": {\"id\": 1, \"status\": \"pending\", \"total\": 99.99},'', ''\"old_data\": null'']"

definition order_value :: "string \<Rightarrow> json" where
  "order_value status =
     JObject [(''id'', JNumber (NumI64 1)), (''status'', JString status), (''total'', JNumber (NumF64 f64_99_99))]"

definition insert_value :: json where
  "insert_value = JObject
     [(''data'', order_value ''pending''), (''old_data'', JNull), (''operation'', JString ''INSERT''),
      (''schema'', JString ''public''), (''table'', JString ''orders'')]"

definition update_text :: string where
  "update_text = quoted
     [''\"table\": \"orders\",'', ''\"schema\": \"public\",'', ''\"operation\": \"UPDATE\",'',
      ''\"data\": {\"id\": 1, \"status\": \"completed\", \"total\": 99.99},'',
      ''\"old_data\": {\"id\": 1, \"status\": \"pending\", \"total\": 99.99}'']"

definition update_value :: json where
  "update_value = JObject
     [(''data'', order_value ''completed''), (''old_data'', order_value ''pending''),
      (''operation'', JString ''UPDATE''), (''schema'', JString ''public''), (''table'', JString ''orders'')]"

definition delete_text :: string where
  "delete_text = quoted
     [''\"table\": \"users\",'', ''\"schema\": \"public\",'', ''\"operation\": \"DELETE\",'',
      ''\"data\": {\"id\": 42, \"name\": \"John\"},'', ''\"old_data\": null'']"

definition delete_value :: json where
  "delete_value = JObject
     [(''data'', JObject [(''id'', JNumber (NumI64 42)), (''name'', JString ''John'')]), (''old_data'', JNull),
      (''operation'', JString ''DELETE''), (''schema'', JString ''public''), (''table'', JString ''users'')]"

definition test_parse_pg_notification_insert :: "Externals \<Rightarrow> Tick \<Rightarrow> bool option" where
  "test_parse_pg_notification_insert x tk = do {
     event \<leftarrow> parse_pg_notification x tk insert_text ''db'';
     source \<leftarrow> ev_source event;
     Some (topic_str (ev_topic event) = ''db/orders/inserted'' \<and> ev_type event = ''inserted'' \<and>
           src_kind source = SrcDatabase \<and> src_id source = ''postgresql:public.orders'')
   }"

definition test_parse_pg_notification_update :: "Externals \<Rightarrow> Tick \<Rightarrow> bool option" where
  "test_parse_pg_notification_update x tk = do {
     event \<leftarrow> parse_pg_notification x tk update_text ''db'';
     Some (topic_str (ev_topic event) = ''db/orders/updated'' \<and> ev_type event = ''updated'')
   }"

definition test_parse_pg_notification_delete :: "Externals \<Rightarrow> Tick \<Rightarrow> bool option" where
  "test_parse_pg_notification_delete x tk = do {
     event \<leftarrow> parse_pg_notification x tk delete_text ''mydb'';
     Some (topic_str (ev_topic event) = ''mydb/users/deleted'' \<and> ev_type event = ''deleted'')
   }"

definition test_parse_pg_notification_invalid_json :: "Externals \<Rightarrow> Tick \<Rightarrow> bool" where
  "test_parse_pg_notification_invalid_json x tk =
     (parse_pg_notification x tk ''not json'' ''db'' = None)"

lemmas eval_pg = parse_pg_notification_def extract_fields_def operation_name_def pg_envelope_def
  envelope_new_def topic_new_def

lemma pg_parser_tests_pass:
  "reads x insert_text insert_value \<Longrightarrow> test_parse_pg_notification_insert x tk = Some True"
  "reads x update_text update_value \<Longrightarrow> test_parse_pg_notification_update x tk = Some True"
  "reads x delete_text delete_value \<Longrightarrow> test_parse_pg_notification_delete x tk = Some True"
  "x_from_slice x ''not json'' = None \<Longrightarrow> test_parse_pg_notification_invalid_json x tk"
  by (auto simp: reads_def insert_value_def update_value_def delete_value_def
      test_parse_pg_notification_insert_def test_parse_pg_notification_update_def
      test_parse_pg_notification_delete_def test_parse_pg_notification_invalid_json_def eval_pg)

subsection \<open>The trigger (db-postgres trigger.rs)\<close>

definition test_generate_trigger_sql :: bool where
  "test_generate_trigger_sql =
     (let sql = generate_trigger_sql ''orders'' ''realtime_events''
      in str_contains sql ''CREATE TRIGGER orders_realtime'' \<and>
         str_contains sql (''pg_notify('' @ [CHR 0x27] @ ''realtime_events'' @ [CHR 0x27]) \<and>
         str_contains sql ''AFTER INSERT OR UPDATE OR DELETE ON orders'')"

lemma str_contains_join:
  "i < length ls \<Longrightarrow> str_contains (ls ! i) p \<Longrightarrow> str_contains (join_with c ls) p"
proof (induction c ls arbitrary: i rule: join_with.induct)
  case (3 c x y ys)
  have tail: "str_contains (join_with c (y # ys)) p \<Longrightarrow> str_contains (x @ [c] @ join_with c (y # ys)) p"
    by (intro str_contains_append)
  show ?case
  proof (cases i)
    case 0
    with 3 show ?thesis by (simp add: str_contains_prefix)
  next
    case (Suc j)
    with 3 tail show ?thesis by simp
  qed
qed auto

lemma trigger_test_passes: "test_generate_trigger_sql"
proof -
  let ?sql = "generate_trigger_sql ''orders'' ''realtime_events''"
  have fn: "str_contains (notify_function_sql ''realtime_events'') p \<Longrightarrow> str_contains ?sql p" for p
    by (simp add: generate_trigger_sql_def str_contains_prefix)
  have ddl: "str_contains (trigger_ddl ''orders'') p \<Longrightarrow> str_contains ?sql p" for p
    unfolding generate_trigger_sql_def by (intro str_contains_append)
  have "str_contains (''  PERFORM pg_notify('' @ [CHR 0x27] @ ''realtime_events'' @ [CHR 0x27] @ '', payload::text);'')
      (''pg_notify('' @ [CHR 0x27] @ ''realtime_events'' @ [CHR 0x27])"
    by (simp add: str_contains_def)
  then have "str_contains ?sql (''pg_notify('' @ [CHR 0x27] @ ''realtime_events'' @ [CHR 0x27])"
    unfolding notify_function_sql_def sql_lines_def
    by (intro fn, unfold notify_function_sql_def sql_lines_def) (rule str_contains_join [of 18], simp_all)
  moreover have "str_contains ?sql ''CREATE TRIGGER orders_realtime''"
    by (rule ddl, unfold trigger_ddl_def sql_lines_def, rule str_contains_join [of 2])
      (simp_all add: str_contains_def)
  moreover have "str_contains ?sql ''AFTER INSERT OR UPDATE OR DELETE ON orders''"
    by (rule ddl, unfold trigger_ddl_def sql_lines_def, rule str_contains_join [of 3])
      (simp_all add: str_contains_def)
  ultimately show ?thesis by (simp only: test_generate_trigger_sql_def Let_def simp_thms)
qed

subsection \<open>Change events (db-mongodb parser.rs)\<close>

definition names_doc :: "string \<Rightarrow> string \<Rightarrow> bson" where
  "names_doc db coll = BDocument [(''db'', BString db), (''coll'', BString coll)]"

definition order_doc :: "string \<Rightarrow> bson" where
  "order_doc status =
     BDocument [(''_id'', BString ''abc123''), (''status'', BString status), (''total'', BDouble f64_99_99)]"

definition insert_doc :: document where
  "insert_doc =
     [(''operationType'', BString ''insert''), (''ns'', names_doc ''testdb'' ''orders''),
      (''fullDocument'', order_doc ''pending''), (''documentKey'', BDocument [(''_id'', BString ''abc123'')])]"

definition update_doc :: document where
  "update_doc =
     [(''operationType'', BString ''update''), (''ns'', names_doc ''testdb'' ''orders''),
      (''fullDocument'', order_doc ''completed''), (''documentKey'', BDocument [(''_id'', BString ''abc123'')]),
      (''updateDescription'', BDocument
         [(''updatedFields'', BDocument [(''status'', BString ''completed'')]), (''removedFields'', BArray [])])]"

definition delete_doc :: document where
  "delete_doc =
     [(''operationType'', BString ''delete''), (''ns'', names_doc ''testdb'' ''users''),
      (''documentKey'', BDocument [(''_id'', BString ''xyz789'')])]"

definition test_parse_insert_change_event :: "Externals \<Rightarrow> Tick \<Rightarrow> bool option" where
  "test_parse_insert_change_event x tk = do {
     event \<leftarrow> parse_change_event x tk insert_doc ''mongo'' ''testdb'';
     source \<leftarrow> ev_source event;
     Some (topic_str (ev_topic event) = ''mongo/orders/inserted'' \<and> ev_type event = ''inserted'' \<and>
           src_kind source = SrcDatabase \<and> src_id source = ''mongodb:testdb.orders'')
   }"

definition test_parse_update_change_event :: "Externals \<Rightarrow> Tick \<Rightarrow> bool option" where
  "test_parse_update_change_event x tk = do {
     event \<leftarrow> parse_change_event x tk update_doc ''mongo'' ''testdb'';
     Some (topic_str (ev_topic event) = ''mongo/orders/updated'' \<and> ev_type event = ''updated'')
   }"

definition test_parse_delete_change_event :: "Externals \<Rightarrow> Tick \<Rightarrow> bool option" where
  "test_parse_delete_change_event x tk = do {
     event \<leftarrow> parse_change_event x tk delete_doc ''db'' ''testdb'';
     Some (topic_str (ev_topic event) = ''db/users/deleted'' \<and> ev_type event = ''deleted'')
   }"

text \<open>\<open>json[key]\<close> is null for a missing key; comparing with a number reads it as an integer.\<close>

definition json_index :: "json \<Rightarrow> string \<Rightarrow> json" where
  "json_index v key = (case json_get v key of Some w \<Rightarrow> w | None \<Rightarrow> JNull)"

definition json_eq_int :: "json \<Rightarrow> int \<Rightarrow> bool" where
  "json_eq_int v n = (case v of JNumber m \<Rightarrow> map_option sint (num_as_i64 m) = Some n | _ \<Rightarrow> False)"

definition test_bson_to_json :: bool where
  "test_bson_to_json =
     (let bson = BDocument [(''name'', BString ''test''), (''value'', BInt32 42),
            (''nested'', BDocument [(''key'', BString ''val'')])];
          v = bson_to_json bson
      in json_as_str (json_index v ''name'') = Some ''test'' \<and>
         json_eq_int (json_index v ''value'') 42 \<and>
         json_as_str (json_index (json_index v ''nested'') ''key'') = Some ''val'')"

lemmas eval_mongo = parse_change_event_def extract_change_fields_def change_name_def build_payload_def
  mongo_envelope_def envelope_new_def topic_new_def doc_str_def doc_document_def names_doc_def

text \<open>The JSON library prints every value a document converts to.\<close>

lemma mongo_parser_tests_pass:
  assumes "\<And>v. x_to_vec x v \<noteq> None"
  shows "test_parse_insert_change_event x tk = Some True"
    and "test_parse_update_change_event x tk = Some True"
    and "test_parse_delete_change_event x tk = Some True"
proof -
  obtain f where f: "\<And>v. x_to_vec x v = Some (f v)"
    using that [of "\<lambda>v. the (x_to_vec x v)"] assms by simp
  show "test_parse_insert_change_event x tk = Some True" "test_parse_update_change_event x tk = Some True"
    "test_parse_delete_change_event x tk = Some True"
    by (simp_all add: f test_parse_insert_change_event_def test_parse_update_change_event_def
        test_parse_delete_change_event_def insert_doc_def update_doc_def delete_doc_def eval_mongo)
qed

lemma bson_test_passes: "test_bson_to_json"
  by (simp add: test_bson_to_json_def json_index_def json_eq_int_def)

subsection \<open>Adapters (producer_registry.rs)\<close>

text \<open>The dummy producer is its name.\<close>

definition dummy_factory :: "string ProducerFactory" where
  "dummy_factory = \<lparr>pf_name = ''dummy'', pf_create = (\<lambda>_. Inr ''dummy'')\<rparr>"

definition test_register_and_create :: "string \<Rightarrow> bool" where
  "test_register_and_create poison =
     (let (registered, registry) = pr_register poison dummy_factory pr_new
      in registered = Inr () \<and>
         has_adapter poison ''dummy'' registry = Inr True \<and>
         has_adapter poison ''mysql'' registry = Inr False \<and>
         adapters poison registry = Inr [''dummy''] \<and>
         create_producer poison ''dummy'' (JObject []) registry = Inr ''dummy'')"

definition test_unknown_adapter_error :: "string \<Rightarrow> bool" where
  "test_unknown_adapter_error poison =
     isl (create_producer poison ''mysql'' (JObject []) (pr_new :: string ProducerRegistry))"

lemma producer_registry_tests_pass: "test_register_and_create poison" "test_unknown_adapter_error poison"
  by (simp_all add: test_register_and_create_def test_unknown_adapter_error_def pr_register_def pr_new_def
      dummy_factory_def has_adapter_def adapters_def create_producer_def
      dm_insert_def dm_get_def dm_contains_def dm_keys_def)

subsection \<open>Start with retries (server.rs)\<close>

text \<open>\<open>LateProducer\<close>: the answer to each start.  One delay is slept before each attempt but the first.\<close>

definition late_producer :: "nat \<Rightarrow> nat \<Rightarrow> (RealtimeError, EventEnvelope list) result" where
  "late_producer fails attempt =
     (if attempt < fails then Inl (InternalError ''connection refused'') else Inr [])"

definition a_database_that_comes_up_late_is_attached_not_abandoned :: "bool option" where
  "a_database_that_comes_up_late_is_attached_not_abandoned = do {
     (stream, slept) \<leftarrow> start_with_retry (late_producer 3) 0 1 (1 * 2);
     Some (length slept + 1 = 4)
   }"

lemma late_database_test_passes: "a_database_that_comes_up_late_is_attached_not_abandoned = Some True"
proof -
  have "\<forall>j < 3. isl (late_producer 3 (0 + j))" "late_producer 3 (0 + 3) = Inr []"
    by (simp_all add: late_producer_def)
  from start_with_retry_ok [OF this, of 1 2] show ?thesis
    by (simp add: a_database_that_comes_up_late_is_attached_not_abandoned_def)
qed

subsection \<open>The client's builder (builder.rs)\<close>

definition test_client_builder_defaults :: bool where
  "test_client_builder_defaults =
     (let client = builder_build (builder_new ''ws://127.0.0.1:9090/ws'')
      in rc_url client = ''ws://127.0.0.1:9090/ws'' \<and> rc_token client = [] \<and>
         rc_reconnect_enabled client \<and> rc_max_reconnect_delay client = 30000)"

definition test_client_builder_custom :: bool where
  "test_client_builder_custom =
     (let client = builder_build (builder_max_delay 10000 (builder_reconnect False
            (builder_token ''jwt-token-abc'' (builder_new ''ws://localhost:8080/ws''))))
      in rc_url client = ''ws://localhost:8080/ws'' \<and> rc_token client = ''jwt-token-abc'' \<and>
         \<not> rc_reconnect_enabled client \<and> rc_max_reconnect_delay client = 10000)"

lemma builder_tests_pass: "test_client_builder_defaults" "test_client_builder_custom"
  by (simp_all add: test_client_builder_defaults_def test_client_builder_custom_def builder_build_def
      builder_new_def builder_token_def builder_reconnect_def builder_max_delay_def)

end
