(* ===== verification/Spec2Isabelle.thy ===== *)
theory Spec2Isabelle
  imports Rt_System_Safe Rt_Client_Server Rt_Main Rt_Registry_Tasks Rt_Presence_Tasks Rt_Index_Tasks
    Rt_Shared_Tasks Rt_Irc_Tasks
    Rt_Tests_Auth Rt_Tests_Engine Rt_Tests_Gateway Rt_Tests_Bus Rt_Tests_Db
begin

text \<open>
  Realtime-Agnostic: a verification development for the event engine.

  \<^bold>\<open>The program.\<close>  The server takes events from publishers (WebSocket clients, the REST API,
  database producers), hands them to an event bus, and the router of each node reads the bus, numbers
  each event within its topic, finds the subscriptions that match it and gives one batch of targets to
  the fan-out.  A dispatcher deals the batches to workers, which put the event in the bounded send queue
  of each target connection; the writer task of the connection sends it.  The reader task of a connection
  handles the client's frames: authentication, subscriptions, publishing, presence.

  \<^bold>\<open>Theories and sources\<close> (paths under \<open>src/crates\<close>).

  \<^item> \<open>Rt_Prelude\<close>, \<open>Rt_Strings\<close>: the machine types, the concurrent maps (association lists with the laws
    of a map as a locale), the roaring bitmaps (sorted lists of words, the laws of a set), strings.
  \<^item> \<open>Rt_Types\<close>, \<open>Rt_Json\<close>, \<open>Rt_Filter\<close>: \<open>realtime-core/src/types\<close>, \<open>error.rs\<close>, the JSON values the
    code reads, and \<open>realtime-core/src/filter\<close>.
  \<^item> \<open>Rt_Auth\<close>: \<open>types/auth_claims.rs\<close> and \<open>realtime-auth\<close>.
  \<^item> \<open>Rt_Stats\<close>, \<open>Rt_Slab\<close>, \<open>Rt_Filter_Index\<close>, \<open>Rt_Index_Correct\<close>, \<open>Rt_Index_Match\<close>,
    \<open>Rt_Index_Tasks\<close>:
    \<open>realtime-engine/src/filter_index\<close>: limits, statistics, circuit breaker, the slab of dispatch
    slots and its unchecked reads, the index and its evaluation.
  \<^item> \<open>Rt_Registry\<close>, \<open>Rt_Registry_Tasks\<close>, \<open>Rt_Router\<close>, \<open>Rt_Presence\<close>, \<open>Rt_Presence_Tasks\<close>: \<open>registry\<close>,
    \<open>router.rs\<close> with \<open>sequence.rs\<close>, and \<open>presence.rs\<close> of \<open>realtime-engine/src\<close>; the theories of tasks
    interleave concurrent calls of one method.
  \<^item> \<open>Rt_Gateway\<close>, \<open>Rt_Fanout\<close>: \<open>connection\<close>, \<open>metrics.rs\<close> and \<open>fanout.rs\<close> of \<open>realtime-gateway/src\<close>.
  \<^item> \<open>Rt_Presence_Shared\<close>, \<open>Rt_Shared_Tasks\<close>, \<open>Rt_Protocol\<close>: \<open>presence_shared.rs\<close>, a call at a time and the
    round trips of concurrent calls; \<open>origin.rs\<close>, and \<open>realtime-core/src/protocol.rs\<close>.
  \<^item> \<open>Rt_Session\<close>, \<open>Rt_Session_Safe\<close>: \<open>ws_handler\<close> of \<open>realtime-gateway/src\<close>.
  \<^item> \<open>Rt_Bus\<close>, \<open>Rt_Rest\<close>, \<open>Rt_Usage\<close>: the publisher interface (\<open>realtime-core/src/traits/bus.rs\<close>) with
    \<open>realtime-bus-inprocess\<close>, and \<open>rest_api.rs\<close> and \<open>usage.rs\<close> of \<open>realtime-gateway/src\<close>.
  \<^item> \<open>Rt_Irc\<close>, \<open>Rt_Irc_Bus\<close>, \<open>Rt_Irc_Tasks\<close>: \<open>realtime-bus-irc\<close>: names and lines, the connection loop, the
    session manager, publisher and subscriber; concurrent publishes and sweeps of the session manager.
  \<^item> \<open>Rt_Db\<close>: \<open>realtime-db-postgres\<close>, \<open>realtime-db-mongodb\<close>, \<open>producer_registry.rs\<close> and the producer
    tasks of \<open>realtime-server/src/server.rs\<close>.
  \<^item> \<open>Rt_Producers\<close>: the dial, the start and the factories of both producers, and the trait of
    \<open>realtime-core/src/traits/producer.rs\<close>.
  \<^item> \<open>Rt_Server\<close>, \<open>Rt_Main\<close>: the configuration and the builders of \<open>realtime-server/src\<close>; the binary: the probe,
    the routes and the assembly of the whole server.
  \<^item> \<open>Rt_Node\<close>: a running node, composed of bus, router, registry and fan-out as \<open>run\<close> wires them.
  \<^item> \<open>Rt_System\<close>, \<open>Rt_System_Safe\<close>: the process: the node with the sessions of its gateway, as the shared
    \<open>AppState\<close> ties them together.
  \<^item> \<open>Rt_Client\<close>, \<open>Rt_Client_Server\<close>: \<open>realtime-client/src/client\<close>, and the client against the sessions of
    the gateway.
  \<^item> \<open>Rt_Tests_Core\<close>, \<open>Rt_Tests_Auth\<close>, \<open>Rt_Tests_Index\<close>, \<open>Rt_Tests_Engine\<close>, \<open>Rt_Tests_Gateway\<close>,
    \<open>Rt_Tests_Bus\<close>, \<open>Rt_Tests_Db\<close>: the unit tests of all the crates as definitions over the model, each proved
    to pass for every value of the external parameters, or for those that behave as documented on the
    inputs of the test (\<open>jsonwebtoken\<close>, the JSON library, SHA-256, the size of the broadcast ring).

  \<^bold>\<open>How the model corresponds to the code.\<close>  Structs are records, enums datatypes, counters 64-bit
  words that wrap.  A method is a function from the state before to the state after; a panic, an access
  out of bounds in \<open>unsafe\<close> code and a loop that does not end are \<open>None\<close>.  Tasks that run concurrently
  (dispatcher, workers, connection tasks) are steps of a transition system, interleaved freely; inside
  one method no other task is interleaved, except in the theories named \<open>..._Tasks\<close>, which take
  \<open>subscribe\<close>, the operations of the index, \<open>untrack\<close>, the calls of the shared presence store and the publish
  and sweep of the IRC sessions apart into their accesses to locks, shared maps, channels and the server
  (in \<open>Rt_Registry_Tasks\<close> the insertion into the index is one access; in \<open>Rt_Index_Tasks\<close> the check of the
  limits, the bits of one predicate and the evaluation of one event are; in \<open>Rt_Presence_Tasks\<close> the list of
  topics \<open>remove_connection\<close> collects is).  The supervisor of the PostgreSQL listener goes from one wait to the
  next, with the test of its flag after an attach as a step of its own.  Libraries the sources call (JSON, JWT, Redis, float printing)
  are parameters, and what is relied on is a named hypothesis; clock readings and fresh identifiers are
  arguments.

  \<^bold>\<open>What the lemmas show.\<close>  The index theories show that the bitmap index, whatever operations run, never
  reads outside its slab and stands for a table of subscriptions (refinement); the registry theory adds
  that the index and the four maps stay in step, and when the bitmap lookup agrees with the linear one.
  Concurrent subscriptions, however interleaved, end in the same state, but can pass the total cap together;
  concurrent presence calls lose no join to the pruning of empty topics.  The shared store of several nodes
  can lose one, to the prune of another's untrack, and nothing else than what its commands and expiries
  remove.  Interleaved inside, the operations
  of the index still never read outside the slab, but a freed slot can be taken while a lookup or a removal
  holds its number: then an event goes to a subscription it does not match, or a subscription is lost.
  All theorems about the registry, the node and the process take an operation of the index as one step, and
  those about sessions a call of the shared store.
  The router and fan-out theories follow an event from its sequence number to the send queues: every
  event and delivery is accounted for, the fan-out drains, one worker keeps the order and two need not.
  The session theory shows that a client can subscribe, publish and join presence only within what the
  provider authorized for a token of the session, and that cleanup leaves nothing behind.  The
  authorization theory relates the provider's answers to the token's grants, and states where a
  wildcard pattern escapes the protected prefixes.

  The node theory composes them: over all interleavings of a started node, deliveries are the published
  events, numbered per topic in the order of the bus, and an event reaches exactly the subscriptions it
  matches.  The system theories add the sessions: every run of the process is a run of the node, and in
  every run what is delivered to a connection was authorized for a token presented on it, was published
  by someone allowed to, and stops when the connection is cleaned up.  This needs a client that uses a
  subscription identifier once at a time and sends no NUL; where it does not, the registry theory shows
  that an accepted subscription under an identifier in use breaks the registry's invariant, and that after
  a disconnect the next subscription is handed the events of the topic it leaves behind.
  The bus theory shows that a subscriber gets the events in publication order and misses only what it
  fell behind; the REST, producer and IRC theories follow their events to the bus, through the laws of a
  publisher (locale \<open>event_bus_publisher\<close>).  On the IRC side a user speaks only in a session of his own, and
  after the \<open>JOIN\<close> of the channel unless a concurrent publish of his has not sent it yet.  The server theory shows what the environment decides, and
  that a configured JWT secret is enforced; the client theory what a session subscribes to again, and how
  far the deduplication reaches.  Client and gateway together: after a reconnect the registry holds what
  the application holds, as far as it was answered; the options of a subscription, its resume point among
  them, are stored and never read.  The producer theory, through the laws of a feed that can be stopped
  (locale \<open>stoppable_feed\<close>), shows that both producers heed a stop, up to the attach a listener is in, what makes a start succeed, and which
  missing feeds the health answer, and with it the probe of the binary, can show.

  \<^bold>\<open>Bounds and fuel.\<close>  No definition of the code uses fuel (\<open>shared_finish\<close> and \<open>irc_alone\<close> count the
  steps of one task).  The glob matcher, the writer loop and the receiving
  loop of the bus terminate by measures.  Three loops may run for ever and are partial functions: the
  Redis scan, whose server can keep it going, the IRC connection loop and the start of a producer, whose
  servers may never answer; for the last two it is proved exactly when they return.

  \<^bold>\<open>Not modelled.\<close>  Sockets, the HTTP library, TLS, logging, signals and the tokio runtime; the JSON and TOML
  derives; the transport trait, which nothing implements; the interleaving of two tasks inside one method
  other than those; the clock of Redis, of the database drivers
  and of back-off sleeps (delays are recorded, not waited for); the sandbox pages, the benchmarks,
  the end-to-end tests, and the unit tests of the fan-out pool and of what serde writes.
\<close>

end
